(* ===== verification/Nfp_Prelude.thy ===== *)
theory Nfp_Prelude
  imports Main "HOL-Library.Word"
begin

text \<open>
  Shared vocabulary of the development: the C integer types at their width, the Linux
  error numbers, the bit macros \<open>BIT_ULL\<close> and \<open>GENMASK_ULL\<close>, result values and the
  generic lemmas on words and lists that several components use.

  A C function that returns \<open>0\<close> or \<open>-errno\<close> and fills an output pointer becomes a
  function into \<open>'a res\<close>: \<open>Inl e\<close> is the (negative) error code, \<open>Inr x\<close> the output.
\<close>

unbundle bit_operations_syntax

named_theorems nfp_bits \<open>bit-level unfolding of masks, fields and packed words\<close>
named_theorems nfp_defs \<open>definitions the component proofs unfold together\<close>

section \<open>Types\<close>

type_synonym u8 = "8 word"
type_synonym u16 = "16 word"
type_synonym u32 = "32 word"
type_synonym u64 = "64 word"

type_synonym 'a res = "int + 'a"

section \<open>Error numbers\<close>

abbreviation (input) EPERM :: int where "EPERM \<equiv> 1"
abbreviation (input) ENOENT :: int where "ENOENT \<equiv> 2"
abbreviation (input) EIO :: int where "EIO \<equiv> 5"
abbreviation (input) E2BIG :: int where "E2BIG \<equiv> 7"
abbreviation (input) EAGAIN :: int where "EAGAIN \<equiv> 11"
abbreviation (input) ENOMEM :: int where "ENOMEM \<equiv> 12"
abbreviation (input) EACCES :: int where "EACCES \<equiv> 13"
abbreviation (input) EBUSY :: int where "EBUSY \<equiv> 16"
abbreviation (input) EEXIST :: int where "EEXIST \<equiv> 17"
abbreviation (input) ENODEV :: int where "ENODEV \<equiv> 19"
abbreviation (input) EINVAL :: int where "EINVAL \<equiv> 22"
abbreviation (input) ENOSPC :: int where "ENOSPC \<equiv> 28"
abbreviation (input) EOPNOTSUPP :: int where "EOPNOTSUPP \<equiv> 95"
abbreviation (input) ENOBUFS :: int where "ENOBUFS \<equiv> 105"
abbreviation (input) ETIMEDOUT :: int where "ETIMEDOUT \<equiv> 110"
abbreviation (input) ERESTARTSYS :: int where "ERESTARTSYS \<equiv> 512"

section \<open>Bit macros\<close>

definition bit_ull :: "nat \<Rightarrow> u64" where
  "bit_ull n = push_bit n 1"

definition genmask_ull :: "nat \<Rightarrow> nat \<Rightarrow> u64" where
  "genmask_ull h l = push_bit l (mask (Suc h - l))"

lemma bit_bit_ull [nfp_bits]: "bit (bit_ull n) k \<longleftrightarrow> k = n \<and> k < 64"
  unfolding bit_ull_def by (subst bit_push_bit_iff) (auto simp: bit_1_iff)

lemma bit_genmask_ull [nfp_bits]: "bit (genmask_ull h l) k \<longleftrightarrow> l \<le> k \<and> k \<le> h \<and> k < 64"
  by (auto simp: genmask_ull_def bit_push_bit_iff bit_mask_iff)

section \<open>Words\<close>

lemmas word_bit_simps [nfp_bits] =
  bit_and_iff bit_or_iff bit_xor_iff bit_not_iff bit_push_bit_iff bit_drop_bit_eq
  bit_word_of_int_iff bit_mask_iff

lemma word_and_mask_less:
  fixes w :: "'a::len word"
  assumes "n < LENGTH('a)"
  shows "unat (w AND mask n) < 2 ^ n"
proof -
  have "unat (w AND mask n) = unat w mod 2 ^ n"
    by (metis take_bit_eq_mask take_bit_eq_mod unsigned_take_bit_eq)
  then show ?thesis by simp
qed

section \<open>Searching a list by index\<close>

text \<open>The loop \<open>for (i = 0; i < n; i++) if (p(a[i])) return i;\<close> over a list.\<close>

fun find_index_from :: "nat \<Rightarrow> ('a \<Rightarrow> bool) \<Rightarrow> 'a list \<Rightarrow> nat option" where
  "find_index_from i p [] = None"
| "find_index_from i p (x # xs) = (if p x then Some i else find_index_from (Suc i) p xs)"

abbreviation find_index :: "('a \<Rightarrow> bool) \<Rightarrow> 'a list \<Rightarrow> nat option" where
  "find_index \<equiv> find_index_from 0"

lemma find_index_from_Some:
  "find_index_from i p xs = Some k \<Longrightarrow>
     i \<le> k \<and> k - i < length xs \<and> p (xs ! (k - i)) \<and> (\<forall>j < k - i. \<not> p (xs ! j))"
proof (induction xs arbitrary: i)
  case Nil
  then show ?case by simp
next
  case (Cons x xs)
  show ?case
  proof (cases "p x")
    case True
    with Cons.prems show ?thesis by simp
  next
    case False
    with Cons.prems have "find_index_from (Suc i) p xs = Some k" by simp
    from Cons.IH [OF this] have IH: "Suc i \<le> k" "k - Suc i < length xs" "p (xs ! (k - Suc i))"
      "\<forall>j < k - Suc i. \<not> p (xs ! j)" by auto
    then have "k - i = Suc (k - Suc i)" by simp
    moreover have "\<not> p ((x # xs) ! j)" if "j < k - i" for j
      using that IH False by (cases j) auto
    ultimately show ?thesis using IH by auto
  qed
qed

lemma find_index_from_None: "find_index_from i p xs = None \<longleftrightarrow> (\<forall>x\<in>set xs. \<not> p x)"
  by (induction xs arbitrary: i) auto

lemma find_index_Some:
  "find_index p xs = Some k \<Longrightarrow> k < length xs \<and> p (xs ! k) \<and> (\<forall>j < k. \<not> p (xs ! j))"
  using find_index_from_Some [of 0 p xs k] by simp

lemma find_index_from_Suc: "find_index_from (Suc i) p xs = map_option Suc (find_index_from i p xs)"
  by (induction xs arbitrary: i) auto

lemmas find_index_None = find_index_from_None [where i = 0]

end
