(* ===== verification/Cpp_Target.thy ===== *)
theory Cpp_Target
  imports Nfp_Prelude
begin

text \<open>
  The CPP access-width decoder and the island address translation of the NFP driver:
  \<open>nfpcore/nfp_cpp.h\<close> (packing of CPP identifiers and interfaces),
  \<open>nfpcore/nfp6000/nfp6000.h\<close> (push/pull widths, MU locality) and
  \<open>nfpcore/nfp_target.c\<close> (one function of the source per definition here).
  Output pointers are results; C \<open>int\<close> values are \<open>int\<close>, addresses and identifiers are words.
\<close>

section \<open>CPP identifiers and interfaces\<close>

abbreviation (input) NFP_CPP_ACTION_RW :: u32 where "NFP_CPP_ACTION_RW \<equiv> 32"
abbreviation (input) NFP_CPP_TARGET_INVALID :: int where "NFP_CPP_TARGET_INVALID \<equiv> 0"
abbreviation (input) NFP_CPP_TARGET_NBI :: int where "NFP_CPP_TARGET_NBI \<equiv> 1"
abbreviation (input) NFP_CPP_TARGET_QDR :: int where "NFP_CPP_TARGET_QDR \<equiv> 2"
abbreviation (input) NFP_CPP_TARGET_ILA :: int where "NFP_CPP_TARGET_ILA \<equiv> 6"
abbreviation (input) NFP_CPP_TARGET_MU :: int where "NFP_CPP_TARGET_MU \<equiv> 7"
abbreviation (input) NFP_CPP_TARGET_PCIE :: int where "NFP_CPP_TARGET_PCIE \<equiv> 9"
abbreviation (input) NFP_CPP_TARGET_ARM :: int where "NFP_CPP_TARGET_ARM \<equiv> 10"
abbreviation (input) NFP_CPP_TARGET_CRYPTO :: int where "NFP_CPP_TARGET_CRYPTO \<equiv> 12"
abbreviation (input) NFP_CPP_TARGET_CT_XPB :: int where "NFP_CPP_TARGET_CT_XPB \<equiv> 14"
abbreviation (input) NFP_CPP_TARGET_CLS :: int where "NFP_CPP_TARGET_CLS \<equiv> 15"

definition NFP_CPP_ID :: "u32 \<Rightarrow> u32 \<Rightarrow> u32 \<Rightarrow> u32" where
  "NFP_CPP_ID target action tok =
     push_bit 24 (target AND 0x7f) OR push_bit 16 (tok AND 0xff) OR push_bit 8 (action AND 0xff)"

definition NFP_CPP_ISLAND_ID :: "u32 \<Rightarrow> u32 \<Rightarrow> u32 \<Rightarrow> u32 \<Rightarrow> u32" where
  "NFP_CPP_ISLAND_ID target action tok island =
     push_bit 24 (target AND 0x7f) OR push_bit 16 (tok AND 0xff) OR push_bit 8 (action AND 0xff)
       OR (island AND 0xff)"

definition NFP_CPP_ID_TARGET_of :: "u32 \<Rightarrow> u8" where
  "NFP_CPP_ID_TARGET_of cpp_id = ucast (drop_bit 24 cpp_id AND 0x1f)"

definition NFP_CPP_ID_TOKEN_of :: "u32 \<Rightarrow> u8" where
  "NFP_CPP_ID_TOKEN_of cpp_id = ucast (drop_bit 16 cpp_id AND 0xff)"

definition NFP_CPP_ID_ACTION_of :: "u32 \<Rightarrow> u8" where
  "NFP_CPP_ID_ACTION_of cpp_id = ucast (drop_bit 8 cpp_id AND 0xff)"

definition NFP_CPP_ID_ISLAND_of :: "u32 \<Rightarrow> u8" where
  "NFP_CPP_ID_ISLAND_of cpp_id = ucast (cpp_id AND 0xff)"

definition NFP_CPP_INTERFACE_TYPE_of :: "u16 \<Rightarrow> u16" where
  "NFP_CPP_INTERFACE_TYPE_of interface = drop_bit 12 interface AND 0xf"

section \<open>Push/pull widths\<close>

abbreviation (input) P32 :: int where "P32 \<equiv> 1"
abbreviation (input) P64 :: int where "P64 \<equiv> 2"

definition PUSHPULL :: "int \<Rightarrow> int \<Rightarrow> int" where
  "PUSHPULL pull push = push_bit 4 pull OR push"

definition pushpull_width :: "int \<Rightarrow> int" where
  "pushpull_width pp = (let pp = pp AND 0xf in if pp = 0 then - EINVAL else push_bit (nat pp) 2)"

definition PUSH_WIDTH :: "int \<Rightarrow> int" where
  "PUSH_WIDTH pp = pushpull_width pp"

definition PULL_WIDTH :: "int \<Rightarrow> int" where
  "PULL_WIDTH pp = pushpull_width (drop_bit 4 pp)"

definition nfp_cppat_mu_locality_lsb :: "int \<Rightarrow> bool \<Rightarrow> int" where
  "nfp_cppat_mu_locality_lsb mode addr40 =
     (if 0 \<le> mode \<and> mode \<le> 3 then if addr40 then 38 else 30 else - EINVAL)"

text \<open>
  The \<open>switch\<close> over \<open>AT(action, token, pull, push)\<close> rows: the first row whose packed
  identifier equals the masked \<open>cpp_id\<close> decides; \<open>None\<close> is the \<open>default\<close> branch.
\<close>

fun at_switch :: "(u32 \<times> u32 \<times> int \<times> int) list \<Rightarrow> u32 \<Rightarrow> int option" where
  "at_switch [] cpp_id = None"
| "at_switch ((action, tok, pull, push) # rows) cpp_id =
     (if cpp_id AND NFP_CPP_ID 0 (- 1) (- 1) = NFP_CPP_ID 0 action tok then Some (PUSHPULL pull push)
      else at_switch rows cpp_id)"

definition at_default :: "int option \<Rightarrow> int \<Rightarrow> int" where
  "at_default r d = (case r of Some pp \<Rightarrow> pp | None \<Rightarrow> d)"

definition target_rw :: "u32 \<Rightarrow> int \<Rightarrow> int \<Rightarrow> int \<Rightarrow> int" where
  "target_rw cpp_id pp start len =
     at_default (at_switch [(0, 0, 0, pp), (1, 0, pp, 0), (NFP_CPP_ACTION_RW, 0, pp, pp)] cpp_id)
       (- EINVAL)"

definition nfp6000_nbi_dma :: "u32 \<Rightarrow> int" where
  "nfp6000_nbi_dma cpp_id =
     at_default (at_switch [(0, 0, 0, P64), (1, 0, P64, 0), (NFP_CPP_ACTION_RW, 0, P64, P64)] cpp_id)
       (- EINVAL)"

definition nfp6000_nbi_stats :: "u32 \<Rightarrow> int" where
  "nfp6000_nbi_stats cpp_id =
     at_default (at_switch [(0, 0, 0, P32), (1, 0, P32, 0), (NFP_CPP_ACTION_RW, 0, P32, P32)] cpp_id)
       (- EINVAL)"

definition nfp6000_nbi_tm :: "u32 \<Rightarrow> int" where
  "nfp6000_nbi_tm cpp_id =
     at_default (at_switch [(0, 0, 0, P64), (1, 0, P64, 0), (NFP_CPP_ACTION_RW, 0, P64, P64)] cpp_id)
       (- EINVAL)"

definition nfp6000_nbi_ppc :: "u32 \<Rightarrow> int" where
  "nfp6000_nbi_ppc cpp_id =
     at_default (at_switch [(0, 0, 0, P64), (1, 0, P64, 0), (NFP_CPP_ACTION_RW, 0, P64, P64)] cpp_id)
       (- EINVAL)"

definition nfp6000_nbi :: "u32 \<Rightarrow> u64 \<Rightarrow> int" where
  "nfp6000_nbi cpp_id address =
     (let rel_addr = address AND 0x3fFFFF in
      if rel_addr < push_bit 20 1 then nfp6000_nbi_dma cpp_id
      else if rel_addr < push_bit 20 2 then nfp6000_nbi_stats cpp_id
      else if rel_addr < push_bit 20 3 then nfp6000_nbi_tm cpp_id
      else nfp6000_nbi_ppc cpp_id)"

definition mu_common_rows :: "(u32 \<times> u32 \<times> int \<times> int) list" where
  "mu_common_rows =
    [(NFP_CPP_ACTION_RW, 0, P64, P64), (NFP_CPP_ACTION_RW, 1, P64, P64),
     (NFP_CPP_ACTION_RW, 2, P64, P64), (NFP_CPP_ACTION_RW, 3, P64, P64),
     (0, 0, 0, P64), (0, 1, 0, P64), (0, 2, 0, P64), (0, 3, 0, P64),
     (1, 0, P64, 0), (1, 1, P64, 0), (1, 2, P64, 0), (1, 3, P64, 0),
     (3, 0, 0, P32), (3, 2, P32, 0),
     (4, 0, P32, 0), (4, 2, 0, 0), (4, 3, 0, P32),
     (5, 0, P32, 0), (5, 3, 0, P32),
     (6, 0, P32, 0), (6, 3, 0, P32),
     (7, 0, P32, 0), (7, 3, 0, P32),
     (8, 0, P32, 0), (8, 3, 0, P32),
     (9, 0, P32, 0), (9, 3, 0, P32),
     (10, 0, P32, 0), (10, 3, 0, P32),
     (13, 0, 0, P32), (13, 1, 0, P32), (13, 2, P32, 0),
     (15, 0, P32, 0), (15, 3, 0, P32),
     (28, 0, 0, P32), (28, 1, 0, P32), (28, 2, 0, P32), (28, 3, 0, P32),
     (31, 0, P32, 0), (31, 1, P32, 0), (31, 2, P32, 0), (31, 3, P32, 0)]"

definition nfp6000_mu_common :: "u32 \<Rightarrow> int" where
  "nfp6000_mu_common cpp_id = at_default (at_switch mu_common_rows cpp_id) (- EINVAL)"

definition nfp6000_mu_ctm :: "u32 \<Rightarrow> int" where
  "nfp6000_mu_ctm cpp_id =
     at_default (at_switch
       [(16, 1, 0, P32), (17, 1, 0, P32), (17, 3, 0, P64), (18, 2, 0, P64), (18, 3, 0, P64),
        (21, 0, 0, P64), (21, 1, 0, P64), (21, 2, 0, P64), (21, 3, 0, P64)] cpp_id)
       (nfp6000_mu_common cpp_id)"

definition nfp6000_mu_emu :: "u32 \<Rightarrow> int" where
  "nfp6000_mu_emu cpp_id =
     at_default (at_switch
       [(18, 0, 0, P32), (18, 1, 0, P32), (18, 2, P32, 0), (18, 3, P32, 0), (20, 2, P32, 0),
        (21, 0, 0, P32), (21, 1, 0, P32), (21, 2, 0, P32),
        (22, 0, 0, P32), (22, 1, 0, P32), (22, 2, 0, P32)] cpp_id)
       (nfp6000_mu_common cpp_id)"

definition nfp6000_mu_imu :: "u32 \<Rightarrow> int" where
  "nfp6000_mu_imu cpp_id = nfp6000_mu_common cpp_id"

definition nfp6000_mu :: "u32 \<Rightarrow> u64 \<Rightarrow> int" where
  "nfp6000_mu cpp_id address =
     (if address < 0x2000000000 then nfp6000_mu_ctm cpp_id
      else if address < 0x8000000000 then nfp6000_mu_emu cpp_id
      else if address < 0x9800000000 then nfp6000_mu_ctm cpp_id
      else if address < 0x9C00000000 then nfp6000_mu_emu cpp_id
      else if address < 0xA000000000 then nfp6000_mu_imu cpp_id
      else nfp6000_mu_ctm cpp_id)"

definition nfp6000_ila :: "u32 \<Rightarrow> int" where
  "nfp6000_ila cpp_id =
     at_default (at_switch [(0, 1, 0, P32), (2, 0, 0, P32), (3, 0, P32, 0)] cpp_id)
       (target_rw cpp_id P32 48 4)"

definition nfp6000_pci :: "u32 \<Rightarrow> int" where
  "nfp6000_pci cpp_id =
     at_default (at_switch [(2, 0, 0, P32), (3, 0, P32, 0)] cpp_id) (target_rw cpp_id P32 4 4)"

definition nfp6000_crypto :: "u32 \<Rightarrow> int" where
  "nfp6000_crypto cpp_id =
     at_default (at_switch [(2, 0, P64, 0)] cpp_id) (target_rw cpp_id P64 12 4)"

definition nfp6000_cap_xpb :: "u32 \<Rightarrow> int" where
  "nfp6000_cap_xpb cpp_id =
     at_default (at_switch
       [(0, 1, 0, P32), (0, 2, P32, 0), (1, 1, P32, 0), (1, 2, P32, 0),
        (2, 0, 0, P32), (2, 1, 0, P32), (2, 2, 0, P32), (2, 3, 0, P32),
        (3, 0, P32, 0), (3, 1, P32, 0), (3, 2, P32, 0), (3, 3, P32, 0),
        (NFP_CPP_ACTION_RW, 1, P32, P32)] cpp_id)
       (target_rw cpp_id P32 1 63)"

definition nfp6000_cls :: "u32 \<Rightarrow> int" where
  "nfp6000_cls cpp_id =
     at_default (at_switch
       [(0, 3, P32, 0), (2, 0, P32, 0), (2, 1, P32, 0), (4, 0, P32, 0), (4, 1, P32, 0),
        (6, 0, P32, 0), (6, 1, P32, 0), (6, 2, P32, 0), (8, 2, P32, 0), (8, 3, P32, 0),
        (9, 0, 0, P32), (9, 1, 0, P32), (9, 2, 0, P32), (9, 3, 0, P32),
        (10, 0, P32, 0), (10, 2, P32, 0), (14, 0, P32, 0), (15, 1, 0, P32), (17, 2, P32, 0),
        (24, 0, 0, P32), (24, 1, P32, 0), (25, 0, 0, P32), (25, 1, P32, 0)] cpp_id)
       (target_rw cpp_id P32 0 64)"

definition nfp_target_pushpull :: "u32 \<Rightarrow> u64 \<Rightarrow> int" where
  "nfp_target_pushpull cpp_id address =
     (let t = uint (NFP_CPP_ID_TARGET_of cpp_id) in
      if t = NFP_CPP_TARGET_NBI then nfp6000_nbi cpp_id address
      else if t = NFP_CPP_TARGET_QDR then target_rw cpp_id P32 24 4
      else if t = NFP_CPP_TARGET_ILA then nfp6000_ila cpp_id
      else if t = NFP_CPP_TARGET_MU then nfp6000_mu cpp_id address
      else if t = NFP_CPP_TARGET_PCIE then nfp6000_pci cpp_id
      else if t = NFP_CPP_TARGET_ARM then
        (if address < 0x10000 then target_rw cpp_id P64 1 1 else target_rw cpp_id P32 1 1)
      else if t = NFP_CPP_TARGET_CRYPTO then nfp6000_crypto cpp_id
      else if t = NFP_CPP_TARGET_CT_XPB then nfp6000_cap_xpb cpp_id
      else if t = NFP_CPP_TARGET_CLS then nfp6000_cls cpp_id
      else if t = 0 then target_rw cpp_id P32 4 4
      else - EINVAL)"

section \<open>Island address encoding\<close>

abbreviation (input) MU_LOCALITY_DIRECT :: u64 where "MU_LOCALITY_DIRECT \<equiv> 2"

definition nfp_decode_basic ::
  "u64 \<Rightarrow> int \<Rightarrow> int \<Rightarrow> bool \<Rightarrow> int \<Rightarrow> int \<Rightarrow> int res" where
  "nfp_decode_basic addr cpp_tgt mode addr40 isld1 isld0 =
     (if cpp_tgt = NFP_CPP_TARGET_MU \<or> cpp_tgt = NFP_CPP_TARGET_CT_XPB then Inl (- EINVAL)
      else if mode = 0 then
        let iid_lsb = (if addr40 then 34 else 26) in Inr (uint (drop_bit iid_lsb addr AND 0x3F))
      else if mode = 1 then
        let idx_lsb = (if addr40 then 39 else 31) in
        Inr (if addr AND bit_ull idx_lsb \<noteq> 0 then isld1 else isld0)
      else if mode = 2 then
        let isld0 = isld0 AND NOT 1; isld1 = isld1 AND NOT 1;
            idx_lsb = (if addr40 then 39 else 31); iid_lsb = idx_lsb - 1 in
        Inr (if addr AND bit_ull idx_lsb \<noteq> 0 then isld1 OR uint (drop_bit iid_lsb addr AND 1)
             else isld0 OR uint (drop_bit iid_lsb addr AND 1))
      else if mode = 3 then
        let isld0 = isld0 AND NOT 3; isld1 = isld1 AND NOT 3;
            idx_lsb = (if addr40 then 39 else 31); iid_lsb = idx_lsb - 2 in
        Inr (if addr AND bit_ull idx_lsb \<noteq> 0 then isld1 OR uint (drop_bit iid_lsb addr AND 3)
             else isld0 OR uint (drop_bit iid_lsb addr AND 3))
      else Inl (- EINVAL))"

definition nfp_encode_basic_qdr ::
  "u64 \<Rightarrow> int \<Rightarrow> int \<Rightarrow> int \<Rightarrow> bool \<Rightarrow> int \<Rightarrow> int \<Rightarrow> u64 res" where
  "nfp_encode_basic_qdr addr dest_island cpp_tgt mode addr40 isld1 isld0 =
     (case nfp_decode_basic addr cpp_tgt mode addr40 isld1 isld0 of
        Inl e \<Rightarrow> Inl e
      | Inr v \<Rightarrow> if dest_island \<noteq> - 1 \<and> dest_island \<noteq> v then Inl (- EINVAL) else Inr addr)"

text \<open>The two nested loops of the search, in the order the code tries the pairs \<open>(i, v)\<close>.\<close>

definition search_pairs :: "nat \<Rightarrow> (nat \<times> nat) list" where
  "search_pairs v_max = map (Pair 0) [0..<v_max] @ map (Pair 1) [0..<v_max]"

definition nfp_encode_basic_search ::
  "u64 \<Rightarrow> int \<Rightarrow> int list \<Rightarrow> nat \<Rightarrow> nat \<Rightarrow> nat \<Rightarrow> u64 res" where
  "nfp_encode_basic_search addr dest_island isld iid_lsb idx_lsb v_max =
     (case find (\<lambda>(i, v). dest_island = (isld ! i OR int v)) (search_pairs v_max) of
        None \<Rightarrow> Inl (- ENODEV)
      | Some (i, v) \<Rightarrow> Inr ((addr AND NOT (genmask_ull idx_lsb iid_lsb))
                           OR push_bit idx_lsb (of_nat i) OR push_bit iid_lsb (of_nat v)))"

definition put_island :: "u64 \<Rightarrow> int \<Rightarrow> nat \<Rightarrow> u64" where
  "put_island addr dest_island iid_lsb =
     (let v64 = genmask_ull (iid_lsb + 5) iid_lsb in
      (addr AND NOT v64) OR (push_bit iid_lsb (word_of_int dest_island) AND v64))"

definition nfp_encode_basic ::
  "u64 \<Rightarrow> int \<Rightarrow> int \<Rightarrow> int \<Rightarrow> bool \<Rightarrow> int \<Rightarrow> int \<Rightarrow> u64 res" where
  "nfp_encode_basic addr dest_island cpp_tgt mode addr40 isld1 isld0 =
     (if cpp_tgt = NFP_CPP_TARGET_MU \<or> cpp_tgt = NFP_CPP_TARGET_CT_XPB then Inl (- EINVAL)
      else if mode < 0 \<or> 3 < mode then Inl (- EINVAL)
      else if cpp_tgt = NFP_CPP_TARGET_QDR \<and> \<not> addr40 then
        nfp_encode_basic_qdr addr cpp_tgt dest_island mode addr40 isld1 isld0
      else if mode = 0 then Inr (put_island addr dest_island (if addr40 then 34 else 26))
      else if mode = 1 then
        let idx_lsb = (if addr40 then 39 else 31) in
        if dest_island = isld0 then Inr (addr AND NOT (bit_ull idx_lsb))
        else if dest_island = isld1 then Inr (addr OR bit_ull idx_lsb)
        else Inl (- ENODEV)
      else if mode = 2 then
        let idx_lsb = (if addr40 then 39 else 31) in
        nfp_encode_basic_search addr dest_island [isld0 AND NOT 1, isld1 AND NOT 1]
          (idx_lsb - 1) idx_lsb 2
      else
        let idx_lsb = (if addr40 then 39 else 31) in
        nfp_encode_basic_search addr dest_island [isld0 AND NOT 3, isld1 AND NOT 3]
          (idx_lsb - 2) idx_lsb 4)"

definition nfp_encode_mu :: "u64 \<Rightarrow> int \<Rightarrow> int \<Rightarrow> bool \<Rightarrow> int \<Rightarrow> int \<Rightarrow> u64 res" where
  "nfp_encode_mu addr dest_island mode addr40 isld1 isld0 =
     (let locality_lsb = nat (nfp_cppat_mu_locality_lsb mode addr40);
          da = (drop_bit locality_lsb addr AND 3 = MU_LOCALITY_DIRECT);
          iid = (if addr40 then 32 else 24);
          idx_lsb = (if addr40 then 37 else 29)
      in if mode = 0 then Inr (put_island addr dest_island iid)
      else if mode = 1 then
        if da then Inr (put_island addr dest_island iid)
        else if dest_island = isld0 then Inr (addr AND NOT (bit_ull idx_lsb))
        else if dest_island = isld1 then Inr (addr OR bit_ull idx_lsb)
        else Inl (- ENODEV)
      else if mode = 2 then
        if da then Inr (put_island addr dest_island iid)
        else nfp_encode_basic_search addr dest_island [isld0 AND NOT 1, isld1 AND NOT 1]
               (idx_lsb - 1) idx_lsb 2
      else if mode = 3 then
        let far = (dest_island > 0 \<and> (dest_island < 24 \<or> dest_island > 26));
            addr = (if far then addr OR push_bit locality_lsb MU_LOCALITY_DIRECT else addr)
        in if da \<or> far then Inr (put_island addr dest_island iid)
           else nfp_encode_basic_search addr dest_island [isld0 AND NOT 3, isld1 AND NOT 3]
                  (idx_lsb - 2) idx_lsb 4
      else Inl (- EINVAL))"

definition nfp_cppat_addr_encode ::
  "u64 \<Rightarrow> int \<Rightarrow> int \<Rightarrow> int \<Rightarrow> bool \<Rightarrow> int \<Rightarrow> int \<Rightarrow> u64 res" where
  "nfp_cppat_addr_encode addr dest_island cpp_tgt mode addr40 isld1 isld0 =
     (if cpp_tgt \<in> {NFP_CPP_TARGET_NBI, NFP_CPP_TARGET_QDR, NFP_CPP_TARGET_ILA,
                     NFP_CPP_TARGET_PCIE, NFP_CPP_TARGET_ARM, NFP_CPP_TARGET_CRYPTO,
                     NFP_CPP_TARGET_CLS} then
        nfp_encode_basic addr dest_island cpp_tgt mode addr40 isld1 isld0
      else if cpp_tgt = NFP_CPP_TARGET_MU then
        nfp_encode_mu addr dest_island mode addr40 isld1 isld0
      else if cpp_tgt = NFP_CPP_TARGET_CT_XPB then
        (if mode \<noteq> 1 \<or> addr40 then Inl (- EINVAL)
         else Inr ((addr AND NOT (genmask_ull 29 24))
                    OR (push_bit 24 (word_of_int dest_island) AND genmask_ull 29 24)))
      else Inl (- EINVAL))"

definition nfp_target_cpp :: "u32 \<Rightarrow> u64 \<Rightarrow> u32 list option \<Rightarrow> (u32 \<times> u64) res" where
  "nfp_target_cpp cpp_island_id cpp_island_address imb_table =
     (let island = uint (NFP_CPP_ID_ISLAND_of cpp_island_id);
          target = uint (NFP_CPP_ID_TARGET_of cpp_island_id)
      in if target < 0 \<or> target \<ge> 16 then Inl (- EINVAL)
      else if island = 0 then Inr (cpp_island_id, cpp_island_address)
      else case imb_table of
        None \<Rightarrow> Inl (- EINVAL)
      | Some tbl \<Rightarrow>
          let imb = tbl ! nat target in
          case nfp_cppat_addr_encode cpp_island_address island target
                 (uint (drop_bit 13 imb AND 7)) (drop_bit 12 imb AND 1 \<noteq> 0)
                 (uint (drop_bit 6 imb AND 0x3f)) (uint (imb AND 0x3f)) of
            Inl e \<Rightarrow> Inl e
          | Inr a \<Rightarrow> Inr (NFP_CPP_ID (word_of_int target)
                             (ucast (NFP_CPP_ID_ACTION_of cpp_island_id))
                             (ucast (NFP_CPP_ID_TOKEN_of cpp_island_id)), a))"

section \<open>Field access and the decision rows\<close>

lemma and_ff: "(w :: u32) AND 0xff = take_bit 8 w"
  by (simp add: take_bit_eq_mask mask_eq_exp_minus_1)

lemma and_1f: "(w :: u32) AND 0x1f = take_bit 5 w"
  by (simp add: take_bit_eq_mask mask_eq_exp_minus_1)

lemma and_7f: "(w :: u32) AND 0x7f = take_bit 7 w"
  by (simp add: take_bit_eq_mask mask_eq_exp_minus_1)

lemmas byte_bits = and_ff and_1f and_7f bit_take_bit_iff bit_or_iff bit_push_bit_iff bit_drop_bit_eq bit_ucast_iff

lemma row_mask: "cpp_id AND NFP_CPP_ID 0 (- 1) (- 1) = push_bit 8 (take_bit 16 (drop_bit 8 cpp_id))"
proof -
  have m: "NFP_CPP_ID 0 (- 1) (- 1) = push_bit 8 (mask 16)"
    by (simp add: NFP_CPP_ID_def mask_eq_exp_minus_1)
  show ?thesis unfolding m
    by (rule bit_eqI) (auto simp: bit_and_iff bit_push_bit_iff bit_mask_iff bit_take_bit_iff bit_drop_bit_eq)
qed

lemma at_row:
  "cpp_id AND NFP_CPP_ID 0 (- 1) (- 1) = NFP_CPP_ID 0 a k \<longleftrightarrow>
     NFP_CPP_ID_ACTION_of cpp_id = ucast a \<and> NFP_CPP_ID_TOKEN_of cpp_id = ucast k"
  (is "?l \<longleftrightarrow> ?r")
proof
  assume l: ?l
  have b: "bit (push_bit 8 (take_bit 16 (drop_bit 8 cpp_id))) n = bit (NFP_CPP_ID 0 a k) n" for n
    using l unfolding row_mask by metis
  show ?r
  proof (rule conjI; rule bit_eqI)
    fix n assume "possible_bit TYPE(8 word) n"
    then have "n < 8" by (simp add: possible_bit_word)
    then show "bit (NFP_CPP_ID_ACTION_of cpp_id) n = bit (ucast a :: u8) n"
      using b [of "n + 8"] unfolding NFP_CPP_ID_ACTION_of_def NFP_CPP_ID_def
      by (auto simp: byte_bits ac_simps)
  next
    fix n assume "possible_bit TYPE(8 word) n"
    then have "n < 8" by (simp add: possible_bit_word)
    then show "bit (NFP_CPP_ID_TOKEN_of cpp_id) n = bit (ucast k :: u8) n"
      using b [of "n + 16"] unfolding NFP_CPP_ID_TOKEN_of_def NFP_CPP_ID_def
      by (auto simp: byte_bits ac_simps)
  qed
next
  assume r: ?r
  then have A: "bit (NFP_CPP_ID_ACTION_of cpp_id) n = bit (ucast a :: u8) n"
    and K: "bit (NFP_CPP_ID_TOKEN_of cpp_id) n = bit (ucast k :: u8) n" for n by auto
  show ?l unfolding row_mask
  proof (rule bit_eqI)
    fix n
    show "bit (push_bit 8 (take_bit 16 (drop_bit 8 cpp_id))) n = bit (NFP_CPP_ID 0 a k) n"
      using A [of "n - 8"] K [of "n - 16"] 
      unfolding NFP_CPP_ID_ACTION_of_def NFP_CPP_ID_TOKEN_of_def NFP_CPP_ID_def
      apply (cases "n < 8"; cases "n < 16"; cases "n < 24") 
      by (auto simp: byte_bits)
  qed
qed

lemma id_fields:
  "NFP_CPP_ID_TARGET_of (NFP_CPP_ISLAND_ID t a k i) = ucast (t AND 0x1f)"
  "NFP_CPP_ID_ACTION_of (NFP_CPP_ISLAND_ID t a k i) = ucast a"
  "NFP_CPP_ID_TOKEN_of (NFP_CPP_ISLAND_ID t a k i) = ucast k"
  "NFP_CPP_ID_ISLAND_of (NFP_CPP_ISLAND_ID t a k i) = ucast i"
  unfolding NFP_CPP_ID_TARGET_of_def NFP_CPP_ID_ACTION_of_def NFP_CPP_ID_TOKEN_of_def
    NFP_CPP_ID_ISLAND_of_def NFP_CPP_ISLAND_ID_def
  by (rule bit_eqI; auto simp: byte_bits possible_bit_word)+

lemma id_no_island: "NFP_CPP_ID t a k = NFP_CPP_ISLAND_ID t a k 0"
  by (simp add: NFP_CPP_ID_def NFP_CPP_ISLAND_ID_def)

lemma id_rebuild:
  "NFP_CPP_ISLAND_ID (ucast (NFP_CPP_ID_TARGET_of c)) (ucast (NFP_CPP_ID_ACTION_of c))
     (ucast (NFP_CPP_ID_TOKEN_of c)) (ucast (NFP_CPP_ID_ISLAND_of c)) = c AND 0x1fffffff"
proof -
  have m: "(0x1fffffff::u32) = mask 29" by (simp add: mask_eq_exp_minus_1)
  show ?thesis
  unfolding NFP_CPP_ID_TARGET_of_def NFP_CPP_ID_ACTION_of_def NFP_CPP_ID_TOKEN_of_def m
    NFP_CPP_ID_ISLAND_of_def NFP_CPP_ISLAND_ID_def
  apply (rule bit_eqI) subgoal for n apply (cases "n < 8"; cases "n < 16"; cases "n < 24") by (auto simp: byte_bits possible_bit_word bit_and_iff bit_mask_iff)
  done
qed

lemma at_switch_fields:
  "at_switch ((a, k, pl, ps) # rows) c =
    (if NFP_CPP_ID_ACTION_of c = ucast a \<and> NFP_CPP_ID_TOKEN_of c = ucast k then Some (PUSHPULL pl ps)
     else at_switch rows c)"
  by (simp only: at_switch.simps at_row)

lemma at_switch_range:
  assumes "at_switch rows c = Some pp" 
  shows "\<exists>a k pl ps. (a, k, pl, ps) \<in> set rows \<and> pp = PUSHPULL pl ps"
  using assms by (induction rows c rule: at_switch.induct) (auto split: if_splits)

declare at_switch.simps(2) [simp del]

lemmas pushpull_defs = target_rw_def nfp6000_nbi_dma_def nfp6000_nbi_stats_def nfp6000_nbi_tm_def
  nfp6000_nbi_ppc_def nfp6000_nbi_def nfp6000_mu_common_def mu_common_rows_def nfp6000_mu_ctm_def
  nfp6000_mu_emu_def nfp6000_mu_imu_def nfp6000_mu_def nfp6000_ila_def nfp6000_pci_def
  nfp6000_crypto_def nfp6000_cap_xpb_def nfp6000_cls_def at_default_def

definition width_codes :: "int set" where
  "width_codes = {0, P32, P64}"

definition rows_ok :: "(u32 \<times> u32 \<times> int \<times> int) list \<Rightarrow> bool" where
  "rows_ok rows \<longleftrightarrow> (\<forall>(a, k, pl, ps) \<in> set rows. pl \<in> width_codes \<and> ps \<in> width_codes)"

definition pp_ok :: "int \<Rightarrow> bool" where
  "pp_ok pp \<longleftrightarrow> pp = - EINVAL \<or> (\<exists>pl \<in> width_codes. \<exists>ps \<in> width_codes. pp = PUSHPULL pl ps)"

lemma pp_ok_switch:
  assumes "rows_ok rows" "pp_ok d"
  shows "pp_ok (at_default (at_switch rows c) d)"
proof (cases "at_switch rows c")
  case None
  with assms show ?thesis by (simp add: at_default_def)
next
  case (Some pp)
  then obtain a k pl ps where "(a, k, pl, ps) \<in> set rows" and pp: "pp = PUSHPULL pl ps"
    using at_switch_range by blast
  with assms(1) have "pl \<in> width_codes" "ps \<in> width_codes" by (auto simp: rows_ok_def)
  with pp Some show ?thesis by (auto simp: pp_ok_def at_default_def)
qed

lemma pp_ok_all: "pp_ok (nfp_target_pushpull c a)"
proof -
  have d: "pp_ok (- EINVAL)" by (simp add: pp_ok_def)
  have rw: "pp_ok (target_rw c pp st ln)" if "pp \<in> width_codes" for pp st ln
    unfolding target_rw_def by (rule pp_ok_switch [OF _ d]) (use that in \<open>simp add: rows_ok_def width_codes_def\<close>)
  have mc: "pp_ok (nfp6000_mu_common c)"
    unfolding nfp6000_mu_common_def
    by (rule pp_ok_switch [OF _ d]) (simp add: rows_ok_def width_codes_def mu_common_rows_def)
  have nbi: "pp_ok (nfp6000_nbi c a)"
    unfolding nfp6000_nbi_def nfp6000_nbi_dma_def nfp6000_nbi_stats_def nfp6000_nbi_tm_def nfp6000_nbi_ppc_def Let_def
    by (auto intro!: pp_ok_switch d simp: rows_ok_def width_codes_def)
  have mu: "pp_ok (nfp6000_mu c a)"
    unfolding nfp6000_mu_def nfp6000_mu_ctm_def nfp6000_mu_emu_def nfp6000_mu_imu_def
    by (auto intro!: pp_ok_switch mc simp: rows_ok_def width_codes_def)
  have oth: "pp_ok (nfp6000_ila c)" "pp_ok (nfp6000_pci c)" "pp_ok (nfp6000_crypto c)" "pp_ok (nfp6000_cap_xpb c)" "pp_ok (nfp6000_cls c)"
    unfolding nfp6000_ila_def nfp6000_pci_def nfp6000_crypto_def nfp6000_cap_xpb_def nfp6000_cls_def
    by (auto intro!: pp_ok_switch rw simp: rows_ok_def width_codes_def)
  show ?thesis unfolding nfp_target_pushpull_def Let_def
    by (simp add: d rw nbi mu oth width_codes_def)
qed


definition rw_ok :: "int \<Rightarrow> int \<Rightarrow> int \<Rightarrow> bool" where
  "rw_ok pp pp_rd pp_wr \<longleftrightarrow> pp = - EINVAL \<or>
     (\<exists>w \<in> {P32, P64}. pp = PUSHPULL w w \<and> pp_rd = PUSHPULL 0 w \<and> pp_wr = PUSHPULL w 0)"

lemma rw_ok_fields:
  assumes "NFP_CPP_ID_ACTION_of c = 32" "NFP_CPP_ID_ACTION_of rd = 0" "NFP_CPP_ID_ACTION_of wr = 1"
    and "NFP_CPP_ID_TOKEN_of rd = NFP_CPP_ID_TOKEN_of c" "NFP_CPP_ID_TOKEN_of wr = NFP_CPP_ID_TOKEN_of c"
  shows rw_ok_target: "pp \<in> {P32, P64} \<Longrightarrow> rw_ok (target_rw c pp st ln) (target_rw rd pp st ln) (target_rw wr pp st ln)"
    and rw_ok_nbi: "rw_ok (nfp6000_nbi c a) (nfp6000_nbi rd a) (nfp6000_nbi wr a)"
    and rw_ok_mu_common: "rw_ok (nfp6000_mu_common c) (nfp6000_mu_common rd) (nfp6000_mu_common wr)"
proof -
  note f = assms at_switch_fields at_default_def rw_ok_def
  show "pp \<in> {P32, P64} \<Longrightarrow> rw_ok (target_rw c pp st ln) (target_rw rd pp st ln) (target_rw wr pp st ln)"
    by (auto simp: f target_rw_def)
  show "rw_ok (nfp6000_nbi c a) (nfp6000_nbi rd a) (nfp6000_nbi wr a)"
    by (simp add: f nfp6000_nbi_def nfp6000_nbi_dma_def nfp6000_nbi_stats_def nfp6000_nbi_tm_def
        nfp6000_nbi_ppc_def Let_def)
  show "rw_ok (nfp6000_mu_common c) (nfp6000_mu_common rd) (nfp6000_mu_common wr)"
    by (simp add: f nfp6000_mu_common_def mu_common_rows_def)
qed

lemma rw_ok_fields2:
  assumes "NFP_CPP_ID_ACTION_of c = 32" "NFP_CPP_ID_ACTION_of rd = 0" "NFP_CPP_ID_ACTION_of wr = 1"
    and "NFP_CPP_ID_TOKEN_of rd = NFP_CPP_ID_TOKEN_of c" "NFP_CPP_ID_TOKEN_of wr = NFP_CPP_ID_TOKEN_of c"
  shows rw_ok_mu: "rw_ok (nfp6000_mu c a) (nfp6000_mu rd a) (nfp6000_mu wr a)"
    and rw_ok_ila: "rw_ok (nfp6000_ila c) (nfp6000_ila rd) (nfp6000_ila wr)"
    and rw_ok_pci: "rw_ok (nfp6000_pci c) (nfp6000_pci rd) (nfp6000_pci wr)"
    and rw_ok_crypto: "rw_ok (nfp6000_crypto c) (nfp6000_crypto rd) (nfp6000_crypto wr)"
    and rw_ok_cap: "rw_ok (nfp6000_cap_xpb c) (nfp6000_cap_xpb rd) (nfp6000_cap_xpb wr)"
    and rw_ok_cls: "rw_ok (nfp6000_cls c) (nfp6000_cls rd) (nfp6000_cls wr)"
proof -
  note f = assms at_switch_fields at_default_def
  note rw = target_rw_def rw_ok_def
  show "rw_ok (nfp6000_mu c a) (nfp6000_mu rd a) (nfp6000_mu wr a)"
    using rw_ok_mu_common [OF assms]
    by (simp add: f nfp6000_mu_def nfp6000_mu_ctm_def nfp6000_mu_emu_def nfp6000_mu_imu_def)
  show "rw_ok (nfp6000_ila c) (nfp6000_ila rd) (nfp6000_ila wr)" by (simp add: f rw nfp6000_ila_def)
  show "rw_ok (nfp6000_pci c) (nfp6000_pci rd) (nfp6000_pci wr)" by (simp add: f rw nfp6000_pci_def)
  show "rw_ok (nfp6000_crypto c) (nfp6000_crypto rd) (nfp6000_crypto wr)" by (simp add: f rw nfp6000_crypto_def)
  show "rw_ok (nfp6000_cap_xpb c) (nfp6000_cap_xpb rd) (nfp6000_cap_xpb wr)" by (simp add: f rw nfp6000_cap_xpb_def)
  show "rw_ok (nfp6000_cls c) (nfp6000_cls rd) (nfp6000_cls wr)" by (simp add: f rw nfp6000_cls_def)
qed

lemma rw_ok_pushpull:
  assumes "NFP_CPP_ID_ACTION_of c = 32" "NFP_CPP_ID_ACTION_of rd = 0" "NFP_CPP_ID_ACTION_of wr = 1"
    and "NFP_CPP_ID_TOKEN_of rd = NFP_CPP_ID_TOKEN_of c" "NFP_CPP_ID_TOKEN_of wr = NFP_CPP_ID_TOKEN_of c"
    and "NFP_CPP_ID_TARGET_of rd = NFP_CPP_ID_TARGET_of c" "NFP_CPP_ID_TARGET_of wr = NFP_CPP_ID_TARGET_of c"
  shows "rw_ok (nfp_target_pushpull c a) (nfp_target_pushpull rd a) (nfp_target_pushpull wr a)"
proof -
  note r = rw_ok_fields [OF assms(1-5)] rw_ok_fields2 [OF assms(1-5)]
  have e: "rw_ok (- EINVAL) x y" for x y by (simp add: rw_ok_def)
  show ?thesis unfolding nfp_target_pushpull_def Let_def assms(6,7)
    by (simp add: r e)
qed

lemma reid_fields:
  "NFP_CPP_ID_TARGET_of (NFP_CPP_ID (ucast (NFP_CPP_ID_TARGET_of c)) x (ucast (NFP_CPP_ID_TOKEN_of c))) = NFP_CPP_ID_TARGET_of c"
  "NFP_CPP_ID_ACTION_of (NFP_CPP_ID (ucast (NFP_CPP_ID_TARGET_of c)) x (ucast (NFP_CPP_ID_TOKEN_of c))) = ucast x"
  "NFP_CPP_ID_TOKEN_of (NFP_CPP_ID (ucast (NFP_CPP_ID_TARGET_of c)) x (ucast (NFP_CPP_ID_TOKEN_of c))) = NFP_CPP_ID_TOKEN_of c"
proof -
  have kk: "ucast (ucast k :: u32) = k" for k :: u8
    by (rule bit_eqI) (auto simp: bit_ucast_iff possible_bit_word)
  have t: "ucast ((ucast (NFP_CPP_ID_TARGET_of c) :: u32) AND 0x1f) = NFP_CPP_ID_TARGET_of c"
    unfolding NFP_CPP_ID_TARGET_of_def by (rule bit_eqI) (auto simp: byte_bits possible_bit_word)
  show "NFP_CPP_ID_TARGET_of (NFP_CPP_ID (ucast (NFP_CPP_ID_TARGET_of c)) x (ucast (NFP_CPP_ID_TOKEN_of c))) = NFP_CPP_ID_TARGET_of c"
    and "NFP_CPP_ID_ACTION_of (NFP_CPP_ID (ucast (NFP_CPP_ID_TARGET_of c)) x (ucast (NFP_CPP_ID_TOKEN_of c))) = ucast x"
    and "NFP_CPP_ID_TOKEN_of (NFP_CPP_ID (ucast (NFP_CPP_ID_TARGET_of c)) x (ucast (NFP_CPP_ID_TOKEN_of c))) = NFP_CPP_ID_TOKEN_of c"
    unfolding id_no_island id_fields by (rule t, simp_all add: kk)
qed
section \<open>Encoding and decoding of islands\<close>

lemma and_bit_ull_nz: "(a AND bit_ull n \<noteq> 0) \<longleftrightarrow> bit a n \<and> n < 64"
proof -
  have "a AND bit_ull n = 0 \<longleftrightarrow> (\<forall>k. \<not> bit (a AND bit_ull n) k)"
    by (auto intro: bit_eqI)
  then show ?thesis by (auto simp: bit_and_iff bit_bit_ull)
qed

lemma drop_put_island:
  "n \<le> 58 \<Longrightarrow> uint (drop_bit n (put_island addr d n) AND 0x3F) = d mod 64"
proof -
  assume n: "n \<le> 58"
  have m: "(0x3f :: u64) = mask 6" by (simp add: mask_eq_exp_minus_1)
  have "drop_bit n (put_island addr d n) AND 0x3F = word_of_int (take_bit 6 d)"
    unfolding m put_island_def Let_def using n
    by (intro bit_eqI) (auto simp: nfp_bits bit_take_bit_iff possible_bit_word)
  moreover have "uint (word_of_int (take_bit 6 d) :: u64) = take_bit 6 d"
    by (simp add: uint_word_of_int take_bit_eq_mod)
  ultimately show ?thesis by (simp add: take_bit_eq_mod)
qed

lemma put_island_frame:
  "k < n \<or> n + 6 \<le> k \<Longrightarrow> bit (put_island addr d n) k = bit addr k"
  unfolding put_island_def Let_def
  by (cases "k < 64") (auto simp: nfp_bits possible_bit_word dest: bit_imp_le_length)

lemma search_pairs_less: "(i, v) \<in> set (search_pairs m) \<Longrightarrow> i < 2 \<and> v < m"
  by (auto simp: search_pairs_def)

lemma encode_search_Inr:
  assumes "nfp_encode_basic_search addr d isld iid idx m = Inr a"
  obtains i v where "i < 2" "v < m" "d = (isld ! i OR int v)"
    "a = (addr AND NOT (genmask_ull idx iid)) OR push_bit idx (of_nat i) OR push_bit iid (of_nat v)"
proof -
  let ?p = "\<lambda>(i, v). d = (isld ! i OR int v)"
  obtain i v where f: "find ?p (search_pairs m) = Some (i, v)"
    and a: "a = (addr AND NOT (genmask_ull idx iid)) OR push_bit idx (of_nat i) OR push_bit iid (of_nat v)"
    using assms unfolding nfp_encode_basic_search_def by (auto split: option.splits)
  from f have "(i, v) \<in> set (search_pairs m)" and "?p (i, v)"
    by (metis find_Some_iff nth_mem)+
  with search_pairs_less [of i v m] a that show thesis by auto
qed

lemma field_word:
  fixes addr :: u64 and i v idx iid :: nat
  assumes "i < 2" "v < 2 ^ (idx - iid)" "iid < idx" "idx < 64" "idx - iid \<le> 8"
  defines "a \<equiv> (addr AND NOT (genmask_ull idx iid)) OR push_bit idx (of_nat i) OR push_bit iid (of_nat v) :: u64"
  shows "bit a idx \<longleftrightarrow> i = 1" and "drop_bit iid a AND mask (idx - iid) = of_nat v"
proof -
  have v: "bit v k \<Longrightarrow> k < idx - iid" for k
    using assms(2) by (metis bit_take_bit_iff take_bit_nat_eq_self_iff)
  have i: "bit i k \<longleftrightarrow> i = 1 \<and> k = 0" for k
    using assms(1) by (cases "i = 0") (auto simp: less_2_cases_iff One_nat_def [symmetric] bit_1_iff simp del: One_nat_def)
  have of_nat: "bit (of_nat n :: u64) k \<longleftrightarrow> k < 64 \<and> bit n k" for n k
    by (simp add: bit_of_nat_iff possible_bit_word)
  show "bit a idx \<longleftrightarrow> i = 1"
    unfolding a_def using assms(3,4) v by (auto simp: nfp_bits of_nat i possible_bit_word)
  show "drop_bit iid a AND mask (idx - iid) = of_nat v"
    unfolding a_def using assms(3-5) v
    by (intro bit_eqI) (fastforce simp: nfp_bits of_nat i possible_bit_word)
qed
lemma encode_search_decode:
  assumes "nfp_encode_basic_search addr d [x0, x1] iid idx (2 ^ (idx - iid)) = Inr a"
    and "iid < idx" "idx < 64" "idx - iid \<le> 2"
  shows "d = (if a AND bit_ull idx \<noteq> 0 then x1 else x0) OR uint (drop_bit iid a AND mask (idx - iid))"
proof -
  obtain i v where iv: "i < 2" "v < 2 ^ (idx - iid)" "d = ([x0, x1] ! i OR int v)"
    and a: "a = (addr AND NOT (genmask_ull idx iid)) OR push_bit idx (of_nat i) OR push_bit iid (of_nat v)"
    using encode_search_Inr [OF assms(1)] by metis
  have "(2 :: nat) ^ (idx - iid) \<le> 2 ^ 2" using assms(4) by (intro power_increasing) auto
  with iv(2) have v4: "v < 4" by simp
  then have u: "uint (of_nat v :: u64) = int v" by (simp add: uint_nat unat_of_nat)
  note f = field_word [OF iv(1,2) assms(2,3), of addr, folded a]
  from assms(4) have le: "idx - iid \<le> 8" by simp
  show ?thesis using iv(1,3) f [OF le] assms(3)
    by (auto simp: and_bit_ull_nz u less_2_cases_iff)
qed

lemma encode_basic_decode:
  assumes enc: "nfp_encode_basic addr d t mode addr40 i1 i0 = Inr a"
    and qdr: "\<not> (t = NFP_CPP_TARGET_QDR \<and> \<not> addr40)"
  shows "nfp_decode_basic a t mode addr40 i1 i0 = Inr (if mode = 0 then d mod 64 else d)"
proof -
  have t: "t \<noteq> 7" "t \<noteq> 14" and m: "0 \<le> mode" "mode \<le> 3"
    using enc by (auto simp: nfp_encode_basic_def split: if_splits)
  define idx where "idx = (if addr40 then 39 else 31 :: nat)"
  have idx: "idx < 64" "3 < idx" by (auto simp: idx_def)
  have m1: "(1 :: u64) = mask 1" "(3 :: u64) = mask 2" by (simp_all add: mask_eq_exp_minus_1)
  consider "mode = 0" | "mode = 1" | "mode = 2" | "mode = 3" using m by linarith
  then show ?thesis
  proof cases
    case 1
    then show ?thesis using enc t qdr
      by (auto simp: nfp_encode_basic_def nfp_decode_basic_def drop_put_island split: if_splits)
  next
    case 2
    then show ?thesis using enc t qdr
      by (auto simp: nfp_encode_basic_def nfp_decode_basic_def and_bit_ull_nz nfp_bits split: if_splits)
  next
    case 3
    then have "nfp_encode_basic_search addr d [i0 AND NOT 1, i1 AND NOT 1] (idx - 1) idx (2 ^ (idx - (idx - 1))) = Inr a"
      using enc t qdr idx by (simp add: nfp_encode_basic_def Let_def idx_def split: if_splits)
    from encode_search_decode [OF this] idx
    show ?thesis using 3 t unfolding nfp_decode_basic_def Let_def idx_def [symmetric] m1 
      by (simp add: idx_def [symmetric])
  next
    case 4
    then have "nfp_encode_basic_search addr d [i0 AND NOT 3, i1 AND NOT 3] (idx - 2) idx (2 ^ (idx - (idx - 2))) = Inr a"
      using enc t qdr idx by (simp add: nfp_encode_basic_def Let_def idx_def split: if_splits)
    from encode_search_decode [OF this] idx
    show ?thesis using 4 t unfolding nfp_decode_basic_def Let_def idx_def [symmetric] m1 
      by (simp add: idx_def [symmetric])
  qed
qed

section \<open>Properties\<close>

lemma PUSHPULL_code:
  assumes "pl \<in> width_codes" "ps \<in> width_codes"
  shows "PUSHPULL pl ps \<in> {0..34} \<and> PUSH_WIDTH (PUSHPULL pl ps) \<in> {- EINVAL, 4, 8}
    \<and> PULL_WIDTH (PUSHPULL pl ps) \<in> {- EINVAL, 4, 8}"
  using assms
  by (auto simp: width_codes_def PUSHPULL_def PUSH_WIDTH_def PULL_WIDTH_def pushpull_width_def Let_def)

text \<open>The access-width decoder returns \<open>-EINVAL\<close> or a push/pull code whose two
  halves decode to no access, 32-bit or 64-bit words, for every identifier and address.\<close>

theorem pushpull_widths:
  "nfp_target_pushpull cpp_id address = - EINVAL \<or>
   nfp_target_pushpull cpp_id address \<in> {0..34} \<and>
   PUSH_WIDTH (nfp_target_pushpull cpp_id address) \<in> {- EINVAL, 4, 8} \<and>
   PULL_WIDTH (nfp_target_pushpull cpp_id address) \<in> {- EINVAL, 4, 8}"
  using pp_ok_all [of cpp_id address] PUSHPULL_code unfolding pp_ok_def by metis

text \<open>Wherever a target accepts the combined read/write action, it accepts the
  separate read (action 0) and write (action 1) with the same token and the same word
  width: the rewriting of \<open>NFP_CPP_ACTION_RW\<close> that the explicit accesses do is safe.\<close>

theorem rw_action_splits:
  assumes "NFP_CPP_ID_ACTION_of cpp_id = ucast NFP_CPP_ACTION_RW"
    and "nfp_target_pushpull cpp_id address \<noteq> - EINVAL"
  shows "\<exists>w \<in> {P32, P64}. nfp_target_pushpull cpp_id address = PUSHPULL w w \<and>
     nfp_target_pushpull (NFP_CPP_ID (ucast (NFP_CPP_ID_TARGET_of cpp_id)) 0
       (ucast (NFP_CPP_ID_TOKEN_of cpp_id))) address = PUSHPULL 0 w \<and>
     nfp_target_pushpull (NFP_CPP_ID (ucast (NFP_CPP_ID_TARGET_of cpp_id)) 1
       (ucast (NFP_CPP_ID_TOKEN_of cpp_id))) address = PUSHPULL w 0"
proof -
  have "NFP_CPP_ID_ACTION_of cpp_id = 32" using assms(1) by simp
  from rw_ok_pushpull [OF this, of "NFP_CPP_ID (ucast (NFP_CPP_ID_TARGET_of cpp_id)) 0
      (ucast (NFP_CPP_ID_TOKEN_of cpp_id))" "NFP_CPP_ID (ucast (NFP_CPP_ID_TARGET_of cpp_id)) 1
      (ucast (NFP_CPP_ID_TOKEN_of cpp_id))" address] assms(2)
  show ?thesis by (simp add: reid_fields rw_ok_def)
qed

theorem rw_action_splits_witness:
  "nfp_target_pushpull (NFP_CPP_ID 7 0 0) 0 = PUSHPULL 0 P64"
proof -
  have a: "NFP_CPP_ID_ACTION_of (NFP_CPP_ID 7 32 0) = ucast NFP_CPP_ACTION_RW"
    by (simp add: id_no_island id_fields)
  have t: "NFP_CPP_ID_TARGET_of (NFP_CPP_ID 7 32 0) = 7" and k: "NFP_CPP_ID_TOKEN_of (NFP_CPP_ID 7 32 0) = 0"
    by (simp_all add: id_no_island id_fields)
  have pp: "nfp_target_pushpull (NFP_CPP_ID 7 32 0) 0 = PUSHPULL P64 P64"
    using a by (simp add: nfp_target_pushpull_def t k nfp6000_mu_def nfp6000_mu_ctm_def
        nfp6000_mu_common_def mu_common_rows_def at_switch_fields at_default_def)
  have "nfp_target_pushpull (NFP_CPP_ID 7 32 0) 0 \<noteq> - EINVAL"
    unfolding pp by (simp add: PUSHPULL_def)
  from rw_action_splits [OF a this] show ?thesis
    unfolding t k pp by (auto simp: PUSHPULL_def)
qed

lemma encode_basic_qdr32:
  "nfp_encode_basic addr d NFP_CPP_TARGET_QDR mode False i1 i0 = Inr a \<Longrightarrow>
     a = addr \<and> nfp_decode_basic a NFP_CPP_TARGET_QDR mode False i1 i0 = Inr NFP_CPP_TARGET_QDR"
  by (auto simp: nfp_encode_basic_def nfp_encode_basic_qdr_def nfp_decode_basic_def Let_def split: if_splits sum.splits)

text \<open>Claim C28. An address the encoder accepts, for any target, in any of the four translation modes, at
  either address width and for any island number, decodes to the island that was asked for; in mode 0, where the
  island is written into a field of six bits, to its value modulo 64. The exception are the 32-bit addresses of the
  VQDR target, whose channel bits the encoder may not move: it accepts one unchanged, and the address then leads to
  island 2, the number of the VQDR target, whatever island was asked for, because the check behind it is called with
  the target and the island swapped.\<close>

theorem encode_basic_decodes:
  assumes "nfp_encode_basic addr dest_island cpp_tgt mode addr40 isld1 isld0 = Inr a"
  shows "nfp_decode_basic a cpp_tgt mode addr40 isld1 isld0 =
      Inr (if cpp_tgt = NFP_CPP_TARGET_QDR \<and> \<not> addr40 then NFP_CPP_TARGET_QDR
           else if mode = 0 then dest_island mod 64 else dest_island) \<and>
    (cpp_tgt = NFP_CPP_TARGET_QDR \<and> \<not> addr40 \<longrightarrow> a = addr)"
proof (cases "cpp_tgt = NFP_CPP_TARGET_QDR \<and> \<not> addr40")
  case True
  with assms show ?thesis using encode_basic_qdr32 [of addr dest_island mode isld1 isld0 a] by auto
next
  case False
  from encode_basic_decode [OF assms this] False show ?thesis by auto
qed

theorem encode_basic_decodes_witness:
  "nfp_encode_basic 0x80 5 NFP_CPP_TARGET_CLS 3 True 12 4 = Inr 0x2000000080 \<and>
   nfp_decode_basic 0x2000000080 NFP_CPP_TARGET_CLS 3 True 12 4 = Inr 5"
proof -
  have e: "nfp_encode_basic 0x80 5 NFP_CPP_TARGET_CLS 3 True 12 4 = Inr 0x2000000080"
    by code_simp
  from e encode_basic_decodes [OF e] show ?thesis by simp
qed

lemma decode_basic_target:
  "t \<noteq> 7 \<Longrightarrow> t \<noteq> 14 \<Longrightarrow> t' \<noteq> 7 \<Longrightarrow> t' \<noteq> 14 \<Longrightarrow>
     nfp_decode_basic addr t mode addr40 i1 i0 = nfp_decode_basic addr t' mode addr40 i1 i0"
  by (simp add: nfp_decode_basic_def)

text \<open>For 32-bit VQDR addresses the encoder passes the target and the island to the
  check in swapped order: whatever island is asked for, the address is accepted exactly
  when it already leads to island 2 (the number of the VQDR target), and is refused
  otherwise, even when it leads to the island asked for.\<close>

theorem encode_basic_qdr32_swapped:
  assumes "0 \<le> mode" "mode \<le> 3" "dest_island \<notin> {NFP_CPP_TARGET_MU, NFP_CPP_TARGET_CT_XPB}"
  shows "nfp_encode_basic addr dest_island NFP_CPP_TARGET_QDR mode False isld1 isld0 =
    (if nfp_decode_basic addr NFP_CPP_TARGET_QDR mode False isld1 isld0 = Inr NFP_CPP_TARGET_QDR
     then Inr addr else Inl (- EINVAL))"
proof -
  have d: "nfp_decode_basic addr dest_island mode False isld1 isld0 =
      nfp_decode_basic addr NFP_CPP_TARGET_QDR mode False isld1 isld0"
    using assms(3) by (intro decode_basic_target) auto
  have "\<exists>v. nfp_decode_basic addr NFP_CPP_TARGET_QDR mode False isld1 isld0 = Inr v"
    using assms(1,2) by (auto simp: nfp_decode_basic_def Let_def)
  then show ?thesis using assms(1,2) d
    by (auto simp: nfp_encode_basic_def nfp_encode_basic_qdr_def)
qed

theorem encode_basic_qdr32_swapped_witness:
  "nfp_decode_basic 0x14000000 NFP_CPP_TARGET_QDR 0 False 0 0 = Inr 5 \<and>
   nfp_encode_basic 0x14000000 5 NFP_CPP_TARGET_QDR 0 False 0 0 = Inl (- EINVAL)"
proof -
  have d: "nfp_decode_basic 0x14000000 NFP_CPP_TARGET_QDR 0 False 0 0 = Inr 5"
    by code_simp
  from d encode_basic_qdr32_swapped [of 0 5 "0x14000000" 0 0] show ?thesis by simp
qed

text \<open>Address translation removes the island and keeps target, action and token of the
  identifier; translating the result again, with any table, changes nothing.\<close>

theorem target_cpp_idempotent:
  assumes "nfp_target_cpp cpp_id addr tbl = Inr (cpp_id', addr')"
  shows "NFP_CPP_ID_ISLAND_of cpp_id' = 0 \<and>
    NFP_CPP_ID_TARGET_of cpp_id' = NFP_CPP_ID_TARGET_of cpp_id \<and>
    NFP_CPP_ID_ACTION_of cpp_id' = NFP_CPP_ID_ACTION_of cpp_id \<and>
    NFP_CPP_ID_TOKEN_of cpp_id' = NFP_CPP_ID_TOKEN_of cpp_id \<and>
    nfp_target_cpp cpp_id' addr' tbl' = Inr (cpp_id', addr')"
proof (cases "NFP_CPP_ID_ISLAND_of cpp_id = 0")
  case True
  with assms show ?thesis by (auto simp: nfp_target_cpp_def Let_def split: if_splits)
next
  case False
  then have nz: "uint (NFP_CPP_ID_ISLAND_of cpp_id) \<noteq> 0" by (simp add: uint_0_iff)
  have w: "word_of_int (uint (NFP_CPP_ID_TARGET_of cpp_id)) = (ucast (NFP_CPP_ID_TARGET_of cpp_id) :: u32)"
    by simp
  have "ucast (ucast (NFP_CPP_ID_ACTION_of cpp_id) :: u32) = NFP_CPP_ID_ACTION_of cpp_id"
    by (rule bit_eqI) (auto simp: bit_ucast_iff possible_bit_word)
  with assms nz have c: "NFP_CPP_ID_TARGET_of cpp_id' = NFP_CPP_ID_TARGET_of cpp_id"
    "NFP_CPP_ID_ACTION_of cpp_id' = NFP_CPP_ID_ACTION_of cpp_id"
    "NFP_CPP_ID_TOKEN_of cpp_id' = NFP_CPP_ID_TOKEN_of cpp_id"
    "NFP_CPP_ID_ISLAND_of cpp_id' = 0" "\<not> uint (NFP_CPP_ID_TARGET_of cpp_id) \<ge> 16"
    unfolding nfp_target_cpp_def Let_def w
    by (auto simp: reid_fields id_no_island [symmetric] split: if_splits option.splits sum.splits)
      (simp add: id_no_island id_fields)
  then show ?thesis by (simp add: nfp_target_cpp_def Let_def)
qed

theorem target_cpp_idempotent_witness:
  "nfp_target_cpp 0x0f000005 0x80 (Some (replicate 16 0x1000)) = Inr (0x0f000000, 0x1400000080) \<and>
   nfp_target_cpp 0x0f000000 0x1400000080 None = Inr (0x0f000000, 0x1400000080)"
proof -
  have t: "nfp_target_cpp 0x0f000005 0x80 (Some (replicate 16 0x1000)) = Inr (0x0f000000, 0x1400000080)"
    by code_simp
  from t target_cpp_idempotent [OF t] show ?thesis by blast
qed

end
