(* ===== verification/Cpp_Bus.thy ===== *)
theory Cpp_Bus
  imports Cpp_Target
begin

text \<open>
  The CPP bus as the driver's higher layers use it. \<open>nfp_cpp_read\<close> and \<open>nfp_cpp_write\<close>
  end in MMIO on the device, so they are a parameter: a \<open>cpp_bus\<close> holds the two
  operations on an unspecified device state \<open>'s\<close>, and the interface number of this host
  (\<open>nfp_cpp_interface\<close>). The word accesses of \<open>nfpcore/nfp_cpplib.c\<close> are translated on top.
  As in the source, reads and writes return the length transferred or a negative error.
\<close>

record 's cpp_bus =
  bus_read :: "u32 \<Rightarrow> u64 \<Rightarrow> nat \<Rightarrow> 's \<Rightarrow> (int \<times> u8 list) \<times> 's"
  bus_write :: "u32 \<Rightarrow> u64 \<Rightarrow> u8 list \<Rightarrow> 's \<Rightarrow> int \<times> 's"
  bus_interface :: u16

section \<open>Little-endian words\<close>

definition byte_of :: "'a::len word \<Rightarrow> nat \<Rightarrow> u8" where
  "byte_of w i = ucast (drop_bit (8 * i) w)"

definition put_unaligned_le32 :: "u32 \<Rightarrow> u8 list" where
  "put_unaligned_le32 v = map (byte_of v) [0..<4]"

definition put_unaligned_le64 :: "u64 \<Rightarrow> u8 list" where
  "put_unaligned_le64 v = map (byte_of v) [0..<8]"

fun get_le :: "u8 list \<Rightarrow> 'a::len word" where
  "get_le [] = 0"
| "get_le (b # bs) = ucast b OR push_bit 8 (get_le bs)"

definition get_unaligned_le32 :: "u8 list \<Rightarrow> u32" where
  "get_unaligned_le32 bs = get_le (take 4 bs)"

definition get_unaligned_le64 :: "u8 list \<Rightarrow> u64" where
  "get_unaligned_le64 bs = get_le (take 8 bs)"

lemma bit_get_le:
  "bit (get_le bs :: 'a::len word) n \<longleftrightarrow>
     n < LENGTH('a) \<and> n div 8 < length bs \<and> bit (bs ! (n div 8)) (n mod 8)"
proof (induction bs arbitrary: n)
  case Nil
  then show ?case by simp
next
  case (Cons b bs)
  show ?case
  proof (cases "n < 8")
    case True
    then show ?thesis by (auto simp: bit_or_iff bit_push_bit_iff bit_ucast_iff)
  next
    case False
    then have "n div 8 = Suc ((n - 8) div 8)" "(n - 8) mod 8 = n mod 8"
      by (simp_all add: le_div_geq le_mod_geq)
    moreover have "\<not> bit b n" using False by (auto dest: bit_imp_le_length)
    ultimately show ?thesis using False Cons.IH [of "n - 8"]
      by (auto simp: bit_or_iff bit_push_bit_iff bit_ucast_iff possible_bit_word)
  qed
qed

lemma bit_byte_of: "bit (byte_of w i) n \<longleftrightarrow> n < 8 \<and> bit w (8 * i + n)"
  by (auto simp: byte_of_def bit_ucast_iff bit_drop_bit_eq)

lemma get_put_le32 [simp]: "get_unaligned_le32 (put_unaligned_le32 v) = v"
  unfolding get_unaligned_le32_def put_unaligned_le32_def
  by (rule bit_eqI) (auto simp: bit_get_le bit_byte_of possible_bit_word less_mult_imp_div_less)

lemma get_put_le64 [simp]: "get_unaligned_le64 (put_unaligned_le64 v) = v"
  unfolding get_unaligned_le64_def put_unaligned_le64_def
  by (rule bit_eqI) (auto simp: bit_get_le bit_byte_of possible_bit_word less_mult_imp_div_less)

lemma length_put_le32 [simp]: "length (put_unaligned_le32 v) = 4"
  by (simp add: put_unaligned_le32_def)

section \<open>Word accesses\<close>

definition nfp_cpp_readl :: "'s cpp_bus \<Rightarrow> u32 \<Rightarrow> u64 \<Rightarrow> 's \<Rightarrow> (int \<times> u32) \<times> 's" where
  "nfp_cpp_readl B cpp_id address s =
     (case bus_read B cpp_id address 4 s of ((err, tmp), s') \<Rightarrow> ((err, get_unaligned_le32 tmp), s'))"

definition nfp_cpp_writel :: "'s cpp_bus \<Rightarrow> u32 \<Rightarrow> u64 \<Rightarrow> u32 \<Rightarrow> 's \<Rightarrow> int \<times> 's" where
  "nfp_cpp_writel B cpp_id address value s =
     bus_write B cpp_id address (put_unaligned_le32 value) s"

definition nfp_cpp_readq :: "'s cpp_bus \<Rightarrow> u32 \<Rightarrow> u64 \<Rightarrow> 's \<Rightarrow> (int \<times> u64) \<times> 's" where
  "nfp_cpp_readq B cpp_id address s =
     (case bus_read B cpp_id address 8 s of ((err, tmp), s') \<Rightarrow> ((err, get_unaligned_le64 tmp), s'))"

definition nfp_cpp_writeq :: "'s cpp_bus \<Rightarrow> u32 \<Rightarrow> u64 \<Rightarrow> u64 \<Rightarrow> 's \<Rightarrow> int \<times> 's" where
  "nfp_cpp_writeq B cpp_id address value s =
     bus_write B cpp_id address (put_unaligned_le64 value) s"

section \<open>A memory behind the bus\<close>

text \<open>
  The atomic engine of the memory unit, as the comments of \<open>nfp_mutex.c\<close> describe the
  three commands the locks use: \<open>atomic_read\<close> (3, 0), \<open>atomic_write\<close> (4, 0) and
  \<open>test_set_imm\<close> (5, 3), which returns the old word and sets its low four bits. \<open>wd\<close> reads
  a 32-bit word of the device state; a command that reports an error has no effect.
  This is the hypothesis under which the locks are proved correct.
\<close>

definition mu_engine :: "'s cpp_bus \<Rightarrow> ('s \<Rightarrow> u64 \<Rightarrow> u32) \<Rightarrow> bool" where
  "mu_engine B wd \<longleftrightarrow>
     (\<forall>a s e v s'. nfp_cpp_readl B (NFP_CPP_ID 7 3 0) a s = ((e, v), s') \<longrightarrow>
        wd s' = wd s \<and> (0 \<le> e \<longrightarrow> v = wd s a)) \<and>
     (\<forall>a s x e s'. nfp_cpp_writel B (NFP_CPP_ID 7 4 0) a x s = (e, s') \<longrightarrow>
        wd s' = (if 0 \<le> e then (wd s)(a := x) else wd s)) \<and>
     (\<forall>a s e v s'. nfp_cpp_readl B (NFP_CPP_ID 7 5 3) a s = ((e, v), s') \<longrightarrow>
        wd s' = (if 0 \<le> e then (wd s)(a := wd s a OR 0xf) else wd s) \<and> (0 \<le> e \<longrightarrow> v = wd s a)) \<and>
     (\<forall>a n s. wd (snd (bus_read B (NFP_CPP_ID 7 3 0) a n s)) = wd s)"

lemma mu_engine_bulk_read:
  "mu_engine B wd \<Longrightarrow> bus_read B (NFP_CPP_ID 7 3 0) a n s = (r, s') \<Longrightarrow> wd s' = wd s"
  unfolding mu_engine_def by (metis snd_conv)

lemma mu_engine_read:
  "mu_engine B wd \<Longrightarrow> nfp_cpp_readl B (NFP_CPP_ID 7 3 0) a s = ((e, v), s') \<Longrightarrow>
     wd s' = wd s \<and> (0 \<le> e \<longrightarrow> v = wd s a)"
  unfolding mu_engine_def by blast

lemma mu_engine_write:
  "mu_engine B wd \<Longrightarrow> nfp_cpp_writel B (NFP_CPP_ID 7 4 0) a x s = (e, s') \<Longrightarrow>
     wd s' = (if 0 \<le> e then (wd s)(a := x) else wd s)"
  unfolding mu_engine_def by blast

lemma mu_engine_test_set:
  "mu_engine B wd \<Longrightarrow> nfp_cpp_readl B (NFP_CPP_ID 7 5 3) a s = ((e, v), s') \<Longrightarrow>
     wd s' = (if 0 \<le> e then (wd s)(a := wd s a OR 0xf) else wd s) \<and> (0 \<le> e \<longrightarrow> v = wd s a)"
  unfolding mu_engine_def by blast

text \<open>
  A word memory with these commands, used to evaluate the theorems: no errors, every
  transfer returns its length. A read of \<open>n\<close> bytes returns the words from the address on.
\<close>

definition ram_bus :: "u16 \<Rightarrow> (u64 \<Rightarrow> u32) cpp_bus" where
  "ram_bus interface =
     \<lparr>bus_read = (\<lambda>cpp_id a n m.
        ((int n, take n (concat (map (\<lambda>k. put_unaligned_le32 (m (a + 4 * of_nat k))) [0..<(n + 3) div 4]))),
         if cpp_id = NFP_CPP_ID 7 5 3 then m(a := m a OR 0xf) else m)),
      bus_write = (\<lambda>cpp_id a bs m. (int (length bs), m(a := get_unaligned_le32 bs))),
      bus_interface = interface\<rparr>"

lemma ram_readl:
  "nfp_cpp_readl (ram_bus i) cpp_id a m =
     ((4, m a), if cpp_id = NFP_CPP_ID 7 5 3 then m(a := m a OR 0xf) else m)"
proof -
  show ?thesis by (simp add: nfp_cpp_readl_def ram_bus_def)
qed

lemma ram_writel: "nfp_cpp_writel (ram_bus i) cpp_id a v m = (4, m(a := v))"
  by (simp add: nfp_cpp_writel_def ram_bus_def)

lemma ram_interface [simp]: "bus_interface (ram_bus i) = i"
  by (simp add: ram_bus_def)

lemma mu_engine_ram: "mu_engine (ram_bus i) id"
proof -
  have "NFP_CPP_ID 7 3 0 \<noteq> NFP_CPP_ID 7 5 3" by (simp add: NFP_CPP_ID_def)
  then show ?thesis by (simp add: mu_engine_def ram_readl ram_writel) (simp add: ram_bus_def)
qed

text \<open>
  A device that answers every read of \<open>n\<close> bytes from a script, and accepts every write.
\<close>

definition script_bus :: "(nat \<Rightarrow> int \<times> u8 list) \<Rightarrow> unit cpp_bus" where
  "script_bus f =
     \<lparr>bus_read = (\<lambda>_ _ n s. (f n, s)), bus_write = (\<lambda>_ _ bs s. (int (length bs), s)),
      bus_interface = 0x1001\<rparr>"

end
