(* ===== verification/Nfp_Mutex.thy ===== *)
theory Nfp_Mutex
  imports Cpp_Bus
begin

text \<open>
  The NFP mutexes of \<open>nfpcore/nfp_mutex.c\<close>: a lock word and a key word in the memory unit,
  a per-host handle with a recursion depth. First the operations, one definition per
  function; then the contract of a recursive lock as a locale, interpreted on them; then
  the interleaving of any number of hosts on one lock word, as an inductive step relation
  whose steps are the bus commands the operations issue.
\<close>

section \<open>Lock words and handles\<close>

record cpp_mutex =
  mx_target :: int
  mx_depth :: u16
  mx_address :: u64
  mx_key :: u32

definition nfp_mutex_locked :: "u16 \<Rightarrow> u32" where
  "nfp_mutex_locked interface = push_bit 16 (ucast interface) OR 0x000f"

definition nfp_mutex_unlocked :: "u16 \<Rightarrow> u32" where
  "nfp_mutex_unlocked interface = push_bit 16 (ucast interface) OR 0x0000"

definition nfp_mutex_is_locked :: "u32 \<Rightarrow> bool" where
  "nfp_mutex_is_locked val \<longleftrightarrow> val AND 0xffff = 0x000f"

definition nfp_mutex_is_unlocked :: "u32 \<Rightarrow> bool" where
  "nfp_mutex_is_unlocked val \<longleftrightarrow> val AND 0xffff = 0"

abbreviation (input) NFP_MUTEX_DEPTH_MAX :: u16 where "NFP_MUTEX_DEPTH_MAX \<equiv> 0xffff"

definition nfp_cpp_mutex_validate :: "u16 \<Rightarrow> int \<Rightarrow> u64 \<Rightarrow> int" where
  "nfp_cpp_mutex_validate interface target address =
     (if NFP_CPP_INTERFACE_TYPE_of interface = 0 then - EINVAL
      else if address AND 7 \<noteq> 0 then - EINVAL
      else if target \<noteq> NFP_CPP_TARGET_MU then - EINVAL
      else 0)"

definition nfp_cpp_mutex_init :: "'s cpp_bus \<Rightarrow> int \<Rightarrow> u64 \<Rightarrow> u32 \<Rightarrow> 's \<Rightarrow> int \<times> 's" where
  "nfp_cpp_mutex_init B target address key s =
     (let muw = NFP_CPP_ID (word_of_int target) 4 0;
          interface = bus_interface B;
          err = nfp_cpp_mutex_validate interface target address
      in if err \<noteq> 0 then (err, s)
         else case nfp_cpp_writel B muw (address + 4) key s of
           (err, s) \<Rightarrow> if err \<noteq> 0 then (err, s)
         else case nfp_cpp_writel B muw address (nfp_mutex_locked interface) s of
           (err, s) \<Rightarrow> if err \<noteq> 0 then (err, s) else (0, s))"

text \<open>\<open>mem_ok\<close> is the result of \<open>kzalloc\<close>.\<close>

definition nfp_cpp_mutex_alloc ::
  "'s cpp_bus \<Rightarrow> bool \<Rightarrow> int \<Rightarrow> u64 \<Rightarrow> u32 \<Rightarrow> 's \<Rightarrow> cpp_mutex option \<times> 's" where
  "nfp_cpp_mutex_alloc B mem_ok target address key s =
     (let mur = NFP_CPP_ID (word_of_int target) 3 0 in
      if nfp_cpp_mutex_validate (bus_interface B) target address \<noteq> 0 then (None, s)
      else case nfp_cpp_readl B mur (address + 4) s of
        ((err, tmp), s) \<Rightarrow>
          if err < 0 then (None, s)
          else if tmp \<noteq> key then (None, s)
          else if \<not> mem_ok then (None, s)
          else (Some \<lparr>mx_target = target, mx_depth = 0, mx_address = address, mx_key = key\<rparr>, s))"

definition nfp_cpp_mutex_trylock ::
  "'s cpp_bus \<Rightarrow> cpp_mutex \<Rightarrow> 's \<Rightarrow> (int \<times> cpp_mutex) \<times> 's" where
  "nfp_cpp_mutex_trylock B mutex s =
     (let tgt = word_of_int (mx_target mutex);
          muw = NFP_CPP_ID tgt 4 0; mus = NFP_CPP_ID tgt 5 3; mur = NFP_CPP_ID tgt 3 0
      in if mx_depth mutex > 0 then
           if mx_depth mutex = NFP_MUTEX_DEPTH_MAX then ((- E2BIG, mutex), s)
           else ((0, mutex\<lparr>mx_depth := mx_depth mutex + 1\<rparr>), s)
         else case nfp_cpp_readl B mur (mx_address mutex + 4) s of ((err, key), s) \<Rightarrow>
           if err < 0 then ((err, mutex), s)
           else if key \<noteq> mx_key mutex then ((- EPERM, mutex), s)
           else let value = nfp_mutex_locked (bus_interface B) in
             case nfp_cpp_readl B mus (mx_address mutex) s of ((err, tmp), s) \<Rightarrow>
             if err < 0 then ((err, mutex), s)
             else if nfp_mutex_is_unlocked tmp then
               case nfp_cpp_writel B muw (mx_address mutex) value s of (err, s) \<Rightarrow>
               if err < 0 then ((err, mutex), s)
               else ((0, mutex\<lparr>mx_depth := 1\<rparr>), s)
             else ((if nfp_mutex_is_locked tmp then - EBUSY else - EINVAL, mutex), s))"

definition nfp_cpp_mutex_unlock ::
  "'s cpp_bus \<Rightarrow> cpp_mutex \<Rightarrow> 's \<Rightarrow> (int \<times> cpp_mutex) \<times> 's" where
  "nfp_cpp_mutex_unlock B mutex s =
     (let tgt = word_of_int (mx_target mutex);
          muw = NFP_CPP_ID tgt 4 0; mur = NFP_CPP_ID tgt 3 0; interface = bus_interface B
      in if mx_depth mutex > 1 then ((0, mutex\<lparr>mx_depth := mx_depth mutex - 1\<rparr>), s)
         else case nfp_cpp_readl B mur (mx_address mutex + 4) s of ((err, key), s) \<Rightarrow>
           if err < 0 then ((err, mutex), s)
           else if key \<noteq> mx_key mutex then ((- EPERM, mutex), s)
           else case nfp_cpp_readl B mur (mx_address mutex) s of ((err, value), s) \<Rightarrow>
             if err < 0 then ((err, mutex), s)
             else if value \<noteq> nfp_mutex_locked interface then ((- EACCES, mutex), s)
             else case nfp_cpp_writel B muw (mx_address mutex) (nfp_mutex_unlocked interface) s of
               (err, s) \<Rightarrow>
               if err < 0 then ((err, mutex), s)
               else ((0, mutex\<lparr>mx_depth := 0\<rparr>), s))"

text \<open>
  The waiting loop. The environment is a \<open>wait_env\<close>: \<open>we_sleep n\<close> is the result of the
  \<open>n\<close>-th \<open>msleep_interruptible\<close>, \<open>we_now n\<close> the value of \<open>jiffies\<close> after it, counted from
  the call; \<open>we_hz\<close> is \<open>HZ\<close>. Only the error deadline is kept (60 seconds, not counting
  the warnings that are printed on the way). \<open>None\<close> means that the fuel ran out.
\<close>

record wait_env =
  we_sleep :: "nat \<Rightarrow> int"
  we_now :: "nat \<Rightarrow> nat"
  we_hz :: nat

abbreviation (input) NFP_MUTEX_WAIT_ERROR :: nat where "NFP_MUTEX_WAIT_ERROR \<equiv> 60"

fun nfp_cpp_mutex_lock ::
  "'s cpp_bus \<Rightarrow> wait_env \<Rightarrow> nat \<Rightarrow> nat \<Rightarrow> cpp_mutex \<Rightarrow> 's \<Rightarrow> ((int \<times> cpp_mutex) \<times> 's) option" where
  "nfp_cpp_mutex_lock B env n 0 mutex s = None"
| "nfp_cpp_mutex_lock B env n (Suc fuel) mutex s =
     (case nfp_cpp_mutex_trylock B mutex s of ((err, mutex), s) \<Rightarrow>
        if err \<noteq> - EBUSY then Some ((err, mutex), s)
        else if we_sleep env n \<noteq> 0 then Some ((- ERESTARTSYS, mutex), s)
        else if NFP_MUTEX_WAIT_ERROR * we_hz env \<le> we_now env n then Some ((- EBUSY, mutex), s)
        else nfp_cpp_mutex_lock B env (Suc n) fuel mutex s)"

section \<open>Facts on lock words\<close>

lemma and_ffff: "(w :: u32) AND 0xffff = take_bit 16 w"
  by (simp add: take_bit_eq_mask mask_eq_exp_minus_1)

lemma bit_f: "bit (0xf :: u32) n \<longleftrightarrow> n < 4"
proof -
  have "(0xf :: u32) = mask 4" by (simp add: mask_eq_exp_minus_1)
  show ?thesis unfolding \<open>0xf = mask 4\<close> by (auto simp: bit_mask_iff possible_bit_word)
qed

lemma bit_15 [simp]: "bit (15 :: int) n \<longleftrightarrow> n < 4"
proof -
  have "(15 :: int) = mask 4" by (simp add: mask_eq_exp_minus_1)
  then show ?thesis by (simp only: bit_mask_iff possible_bit_int) simp
qed

lemma low_bits:
  "nfp_mutex_is_locked w \<longleftrightarrow> (\<forall>n < 16. bit w n \<longleftrightarrow> n < 4)"
  "nfp_mutex_is_unlocked w \<longleftrightarrow> (\<forall>n < 16. \<not> bit w n)"
proof -
  have "bit w n \<longleftrightarrow> n < 4" if "take_bit 16 w = 0xf" "n < 16" for n
    using that by (metis bit_f bit_take_bit_iff)
  then have "take_bit 16 w = 0xf \<Longrightarrow> \<forall>n < 16. bit w n \<longleftrightarrow> n < 4"
    by blast
  moreover have "\<forall>n < 16. bit w n \<longleftrightarrow> n < 4 \<Longrightarrow> take_bit 16 w = 0xf"
    by (rule bit_eqI) (auto simp: bit_take_bit_iff bit_f)
  ultimately show "nfp_mutex_is_locked w \<longleftrightarrow> (\<forall>n < 16. bit w n \<longleftrightarrow> n < 4)"
    unfolding nfp_mutex_is_locked_def and_ffff by blast
  have "\<not> bit w n" if "take_bit 16 w = 0" "n < 16" for n
    using that by (metis bit_0_eq bit_take_bit_iff bot_apply bot_bool_def)
  then have "take_bit 16 w = 0 \<Longrightarrow> \<forall>n < 16. \<not> bit w n"
    by blast
  moreover have "\<forall>n < 16. \<not> bit w n \<Longrightarrow> take_bit 16 w = 0"
    by (rule bit_eqI) (auto simp: bit_take_bit_iff)
  ultimately show "nfp_mutex_is_unlocked w \<longleftrightarrow> (\<forall>n < 16. \<not> bit w n)"
    unfolding nfp_mutex_is_unlocked_def and_ffff by blast
qed

lemma bit_locked:
  "bit (nfp_mutex_locked i) n \<longleftrightarrow> n < 4 \<or> 16 \<le> n \<and> n < 32 \<and> bit i (n - 16)"
  "bit (nfp_mutex_unlocked i) n \<longleftrightarrow> 16 \<le> n \<and> n < 32 \<and> bit i (n - 16)"
  unfolding nfp_mutex_locked_def nfp_mutex_unlocked_def
  by (auto simp: bit_or_iff bit_push_bit_iff bit_ucast_iff bit_f possible_bit_word)

lemma locked_is_locked [simp]: "nfp_mutex_is_locked (nfp_mutex_locked i)"
  and unlocked_is_unlocked [simp]: "nfp_mutex_is_unlocked (nfp_mutex_unlocked i)"
  and not_both: "nfp_mutex_is_locked w \<Longrightarrow> \<not> nfp_mutex_is_unlocked w"
  and locked_or_f [simp]: "nfp_mutex_is_locked w \<Longrightarrow> w OR 0xf = w"
  and unlocked_or_f [simp]: "nfp_mutex_is_unlocked w \<Longrightarrow> nfp_mutex_is_locked (w OR 0xf)"
  unfolding low_bits
  by (auto simp: bit_locked bit_or_iff bit_f intro!: bit_eqI exI [of _ 0])

lemmas lock_word_facts = locked_is_locked unlocked_is_unlocked not_both locked_or_f unlocked_or_f

section \<open>The contract of a recursive lock\<close>

text \<open>
  What the clients of the lock operations (the resource table) rely on, whatever the bus
  does: a successful \<open>trylock\<close> adds one to the depth, a successful \<open>unlock\<close> takes one off,
  and a failing call leaves the handle as it was.
\<close>

locale recursive_lock =
  fixes trylock :: "'m \<Rightarrow> 's \<Rightarrow> (int \<times> 'm) \<times> 's"
    and unlock :: "'m \<Rightarrow> 's \<Rightarrow> (int \<times> 'm) \<times> 's"
    and depth :: "'m \<Rightarrow> nat"
  assumes trylock_ok: "trylock m s = ((0, m'), s') \<Longrightarrow> depth m' = Suc (depth m)"
    and trylock_err: "trylock m s = ((e, m'), s') \<Longrightarrow> e \<noteq> 0 \<Longrightarrow> m' = m"
    and unlock_ok: "unlock m s = ((0, m'), s') \<Longrightarrow> depth m' = depth m - 1"
    and unlock_err: "unlock m s = ((e, m'), s') \<Longrightarrow> e \<noteq> 0 \<Longrightarrow> m' = m"
begin

lemma bracket_depth:
  assumes "trylock m s = ((0, m1), s1)" and "unlock m1 s2 = ((e, m2), s3)"
  shows "depth m2 = (if e = 0 then depth m else Suc (depth m))"
  using trylock_ok [OF assms(1)] unlock_ok [of m1 s2 m2 s3] unlock_err [of m1 s2 e m2 s3] assms(2)
  by (cases "e = 0") auto

end

text \<open>A lock that can also be waited for.\<close>

locale waiting_lock = recursive_lock trylock unlock depth
  for trylock :: "'m \<Rightarrow> 's \<Rightarrow> (int \<times> 'm) \<times> 's"
    and unlock :: "'m \<Rightarrow> 's \<Rightarrow> (int \<times> 'm) \<times> 's"
    and depth :: "'m \<Rightarrow> nat" +
  fixes lock :: "'m \<Rightarrow> 's \<Rightarrow> ((int \<times> 'm) \<times> 's) option"
  assumes lock_ok: "lock m s = Some ((0, m'), s') \<Longrightarrow> depth m' = Suc (depth m)"
    and lock_err: "lock m s = Some ((e, m'), s') \<Longrightarrow> e \<noteq> 0 \<Longrightarrow> m' = m"
begin

lemma lock_bracket_depth:
  assumes "lock m s = Some ((0, m1), s1)" and "unlock m1 s2 = ((e, m2), s3)"
  shows "depth m2 = (if e = 0 then depth m else Suc (depth m))"
  using lock_ok [OF assms(1)] unlock_ok [of m1 s2 m2 s3] unlock_err [of m1 s2 e m2 s3] assms(2)
  by (cases "e = 0") auto

end

lemma unat_Suc_depth:
  assumes "w \<noteq> (0xffff :: u16)"
  shows "unat (w + 1) = Suc (unat w)"
proof -
  have "unat w \<noteq> unat (0xffff :: u16)" using assms by (simp only: word_unat_eq_iff) simp
  moreover have "unat w < 65536" using unsigned_less [of w] by simp
  ultimately show ?thesis by (simp add: unat_word_ariths)
qed

lemma trylock_ok:
  "nfp_cpp_mutex_trylock B m s = ((0, m'), s') \<Longrightarrow> unat (mx_depth m') = Suc (unat (mx_depth m))"
  unfolding nfp_cpp_mutex_trylock_def Let_def
  by (auto split: if_splits prod.splits simp: unat_Suc_depth word_neq_0_conv [symmetric]
      simp del: word_neq_0_conv)

lemma trylock_err:
  "nfp_cpp_mutex_trylock B m s = ((e, m'), s') \<Longrightarrow> e \<noteq> 0 \<Longrightarrow> m' = m"
  unfolding nfp_cpp_mutex_trylock_def Let_def by (auto split: if_splits prod.splits)

lemma unat_pred_depth:
  "1 < (w :: u16) \<Longrightarrow> unat (w - 1) = unat w - 1"
  by (rule unat_minus_one) auto

lemma unlock_ok:
  "nfp_cpp_mutex_unlock B m s = ((0, m'), s') \<Longrightarrow> unat (mx_depth m') = unat (mx_depth m) - 1"
  unfolding nfp_cpp_mutex_unlock_def Let_def
  by (auto split: if_splits prod.splits simp: unat_pred_depth word_le_nat_alt not_less)

lemma unlock_err:
  "nfp_cpp_mutex_unlock B m s = ((e, m'), s') \<Longrightarrow> e \<noteq> 0 \<Longrightarrow> m' = m"
  unfolding nfp_cpp_mutex_unlock_def Let_def by (auto split: if_splits prod.splits)

interpretation mutex: recursive_lock "nfp_cpp_mutex_trylock B" "nfp_cpp_mutex_unlock B"
  "\<lambda>m. unat (mx_depth m)" for B :: "'s cpp_bus"
  by unfold_locales (blast intro: trylock_ok trylock_err unlock_ok unlock_err)+

lemma lock_result:
  "nfp_cpp_mutex_lock B env n fuel m s = Some ((e, m'), s') \<Longrightarrow>
     (e = 0 \<longrightarrow> unat (mx_depth m') = Suc (unat (mx_depth m))) \<and> (e \<noteq> 0 \<longrightarrow> m' = m)"
proof (induction B env n fuel m s rule: nfp_cpp_mutex_lock.induct)
  case (1 B env n m s)
  then show ?case by simp
next
  case (2 B env n fuel m s)
  obtain e1 m1 s1 where t: "nfp_cpp_mutex_trylock B m s = ((e1, m1), s1)" by (metis prod.exhaust)
  show ?case
  proof (cases "e1 = - EBUSY \<and> we_sleep env n = 0 \<and> \<not> 60 * we_hz env \<le> we_now env n")
    case True
    with t trylock_err [OF t] have "m1 = m" by simp
    with 2 t True show ?thesis by simp
  next
    case False
    with 2(2) t trylock_err [OF t] trylock_ok [of B m s m1 s1] show ?thesis
      by (auto split: if_splits)
  qed
qed

interpretation mutex_wait: waiting_lock "nfp_cpp_mutex_trylock B" "nfp_cpp_mutex_unlock B"
  "\<lambda>m. unat (mx_depth m)" "nfp_cpp_mutex_lock B env 0 fuel" for B :: "'s cpp_bus" and env fuel
  by unfold_locales (blast dest: lock_result)+


text \<open>Inside a critical section the nested calls never reach the bus.\<close>

lemma nested_trylock:
  "0 < mx_depth m \<Longrightarrow> mx_depth m \<noteq> 0xffff \<Longrightarrow>
     nfp_cpp_mutex_trylock B m s = ((0, m\<lparr>mx_depth := mx_depth m + 1\<rparr>), s)"
  by (simp add: nfp_cpp_mutex_trylock_def)

lemma nested_unlock:
  "1 < mx_depth m \<Longrightarrow> nfp_cpp_mutex_unlock B m s = ((0, m\<lparr>mx_depth := mx_depth m - 1\<rparr>), s)"
  by (simp add: nfp_cpp_mutex_unlock_def)

section \<open>Hosts contending for one lock word\<close>

text \<open>
  Any number of hosts share the lock word; host \<open>h\<close> has the interface number \<open>iface h\<close>.
  A step is one command on the bus: the test-and-set of \<open>trylock\<close> that wins (the old word
  was unlocked) or loses, the write of the owner id that follows a win (or its failure,
  which makes \<open>trylock\<close> return an error with the word left marked), the read of \<open>unlock\<close>
  that finds the host's own id, and the write that releases (or its failure, which makes
  \<open>unlock\<close> return an error with the lock still held). Between two commands of one host
  every other host may run.
\<close>

datatype lock_pc = Idle | Won | Held | Releasing

record lock_sys =
  ls_word :: u32
  ls_pc :: "nat \<Rightarrow> lock_pc"

inductive mutex_step :: "(nat \<Rightarrow> u16) \<Rightarrow> lock_sys \<Rightarrow> lock_sys \<Rightarrow> bool" for iface where
  ts_win: "ls_pc t h = Idle \<Longrightarrow> nfp_mutex_is_unlocked (ls_word t) \<Longrightarrow>
    mutex_step iface t (t\<lparr>ls_word := ls_word t OR 0xf, ls_pc := (ls_pc t)(h := Won)\<rparr>)"
| ts_lose: "ls_pc t h = Idle \<Longrightarrow> \<not> nfp_mutex_is_unlocked (ls_word t) \<Longrightarrow>
    mutex_step iface t (t\<lparr>ls_word := ls_word t OR 0xf\<rparr>)"
| own: "ls_pc t h = Won \<Longrightarrow>
    mutex_step iface t (t\<lparr>ls_word := nfp_mutex_locked (iface h), ls_pc := (ls_pc t)(h := Held)\<rparr>)"
| own_fail: "ls_pc t h = Won \<Longrightarrow> mutex_step iface t (t\<lparr>ls_pc := (ls_pc t)(h := Idle)\<rparr>)"
| rel_check: "ls_pc t h = Held \<Longrightarrow> ls_word t = nfp_mutex_locked (iface h) \<Longrightarrow>
    mutex_step iface t (t\<lparr>ls_pc := (ls_pc t)(h := Releasing)\<rparr>)"
| release: "ls_pc t h = Releasing \<Longrightarrow>
    mutex_step iface t (t\<lparr>ls_word := nfp_mutex_unlocked (iface h), ls_pc := (ls_pc t)(h := Idle)\<rparr>)"
| rel_fail: "ls_pc t h = Releasing \<Longrightarrow> mutex_step iface t (t\<lparr>ls_pc := (ls_pc t)(h := Held)\<rparr>)"

inductive_cases mutex_stepE: "mutex_step iface t t'"

definition lock_init :: "lock_sys \<Rightarrow> bool" where
  "lock_init t \<longleftrightarrow> (\<forall>h. ls_pc t h = Idle)"

definition lock_inv :: "(nat \<Rightarrow> u16) \<Rightarrow> lock_sys \<Rightarrow> bool" where
  "lock_inv iface t \<longleftrightarrow>
     (\<forall>h k. ls_pc t h \<noteq> Idle \<and> ls_pc t k \<noteq> Idle \<longrightarrow> h = k) \<and>
     (\<forall>h. ls_pc t h \<noteq> Idle \<longrightarrow> nfp_mutex_is_locked (ls_word t)) \<and>
     (\<forall>h. ls_pc t h \<in> {Held, Releasing} \<longrightarrow> ls_word t = nfp_mutex_locked (iface h))"

lemma lock_inv_init: "lock_init t \<Longrightarrow> lock_inv iface t"
  by (simp add: lock_init_def lock_inv_def)

lemma lock_inv_only:
  assumes "lock_inv iface t" and "ls_pc t h \<noteq> Idle"
  shows "\<forall>k. k \<noteq> h \<longrightarrow> ls_pc t k = Idle" and "nfp_mutex_is_locked (ls_word t)"
    and "ls_pc t h \<noteq> Won \<Longrightarrow> ls_word t = nfp_mutex_locked (iface h)"
  using assms lock_pc.exhaust unfolding lock_inv_def by blast+

lemma lock_invI:
  assumes "\<forall>k. k \<noteq> h \<longrightarrow> ls_pc t k = Idle"
    and "ls_pc t h \<noteq> Idle \<Longrightarrow> nfp_mutex_is_locked (ls_word t)"
    and "ls_pc t h \<noteq> Idle \<Longrightarrow> ls_pc t h \<noteq> Won \<Longrightarrow> ls_word t = nfp_mutex_locked (iface h)"
  shows "lock_inv iface t"
  unfolding lock_inv_def using assms by (metis insert_iff lock_pc.distinct(3,5,7,9) singletonD)

lemma lock_inv_step:
  assumes "mutex_step iface t t'" and inv: "lock_inv iface t"
  shows "lock_inv iface t'"
  using assms(1)
proof (cases rule: mutex_step.cases)
  case (ts_win h)
  then have "ls_pc t k = Idle" for k
    using inv not_both unfolding lock_inv_def by blast
  with ts_win show ?thesis by (intro lock_invI [of h]) simp_all
next
  case (ts_lose h)
  show ?thesis
  proof (cases "\<exists>k. ls_pc t k \<noteq> Idle")
    case True
    then have "nfp_mutex_is_locked (ls_word t)" using lock_inv_only(2) [OF inv] by blast
    with ts_lose inv show ?thesis by simp
  next
    case False
    with ts_lose show ?thesis by (simp add: lock_inv_def)
  qed
next
  case (own h)
  then show ?thesis using lock_inv_only [OF inv, of h] by (intro lock_invI [of h]) simp_all
next
  case (own_fail h)
  then show ?thesis using lock_inv_only [OF inv, of h] by (intro lock_invI [of h]) simp_all
next
  case (rel_check h)
  then show ?thesis using lock_inv_only [OF inv, of h] by (intro lock_invI [of h]) simp_all
next
  case (release h)
  then show ?thesis using lock_inv_only [OF inv, of h] by (intro lock_invI [of h]) simp_all
next
  case (rel_fail h)
  then show ?thesis using lock_inv_only [OF inv, of h] by (intro lock_invI [of h]) simp_all
qed

lemma lock_inv_reach:
  "(mutex_step iface)\<^sup>*\<^sup>* t0 t \<Longrightarrow> lock_inv iface t0 \<Longrightarrow> lock_inv iface t"
  by (induction rule: rtranclp_induct) (auto intro: lock_inv_step)

text \<open>
  Claim C9. Mutual exclusion: however the commands of the hosts interleave, from a state
  where no host is inside, two hosts that are between winning the test-and-set of
  \<open>nfp_cpp_mutex_trylock\<close> and the release in \<open>nfp_cpp_mutex_unlock\<close> are the same host, and a
  host that holds the lock finds its own id in the word, so that its unlock is not refused.
\<close>

theorem mutex_mutual_exclusion:
  assumes "(mutex_step iface)\<^sup>*\<^sup>* t0 t" and "lock_init t0"
  shows "\<not> (h \<noteq> k \<and> ls_pc t h \<noteq> Idle \<and> ls_pc t k \<noteq> Idle) \<and>
    (ls_pc t h = Held \<longrightarrow> ls_word t = nfp_mutex_locked (iface h))"
  using lock_inv_reach [OF assms(1) lock_inv_init [OF assms(2)]]
  by (auto simp: lock_inv_def)

lemma mutex_mutual_exclusion_witness:
  "let t = \<lparr>ls_word = nfp_mutex_locked 0x1001, ls_pc = (\<lambda>_. Idle)(0 := Held)\<rparr> in
     \<not> (0 \<noteq> (1::nat) \<and> ls_pc t 0 \<noteq> Idle \<and> ls_pc t 1 \<noteq> Idle) \<and>
     (ls_pc t 0 = Held \<longrightarrow> ls_word t = nfp_mutex_locked 0x1001)"
proof -
  let ?iface = "\<lambda>_. 0x1001 :: u16"
  let ?t0 = "\<lparr>ls_word = 0, ls_pc = \<lambda>_. Idle\<rparr>"
  let ?t1 = "\<lparr>ls_word = 0xf, ls_pc = (\<lambda>_. Idle)(0 := Won)\<rparr>"
  let ?t2 = "\<lparr>ls_word = nfp_mutex_locked 0x1001, ls_pc = (\<lambda>_. Idle)(0 := Held)\<rparr>"
  have "mutex_step ?iface ?t0 ?t1"
    using ts_win [of ?t0 0 ?iface] by (simp add: nfp_mutex_is_unlocked_def)
  moreover have "mutex_step ?iface ?t1 ?t2" using own [of ?t1 0 ?iface] by simp
  ultimately have "(mutex_step ?iface)\<^sup>*\<^sup>* ?t0 ?t2"
    by (meson converse_rtranclp_into_rtranclp r_into_rtranclp)
  from mutex_mutual_exclusion [OF this, of 0 1] show ?thesis
    by (simp add: lock_init_def Let_def)
qed

subsection \<open>The operations are runs of the machine\<close>

text \<open>\<open>mutex_at B wd m\<close>: the handle lives in a memory unit with an atomic engine.\<close>

definition mutex_at :: "'s cpp_bus \<Rightarrow> ('s \<Rightarrow> u64 \<Rightarrow> u32) \<Rightarrow> cpp_mutex \<Rightarrow> bool" where
  "mutex_at B wd m \<longleftrightarrow> mu_engine B wd \<and> mx_target m = NFP_CPP_TARGET_MU"

lemma plus_4_neq [simp]: "(a :: u64) + 4 \<noteq> a" "a \<noteq> a + 4"
  by simp_all

lemma mutex_at_bus:
  assumes "mutex_at B wd m"
  shows "nfp_cpp_readl B (NFP_CPP_ID (word_of_int (mx_target m)) 3 0) a s = ((e, v), s') \<Longrightarrow>
      wd s' = wd s \<and> (0 \<le> e \<longrightarrow> v = wd s a)"
    and "nfp_cpp_writel B (NFP_CPP_ID (word_of_int (mx_target m)) 4 0) a x s = (e, s') \<Longrightarrow>
      wd s' = (if 0 \<le> e then (wd s)(a := x) else wd s)"
    and "nfp_cpp_readl B (NFP_CPP_ID (word_of_int (mx_target m)) 5 3) a s = ((e, v), s') \<Longrightarrow>
      wd s' = (if 0 \<le> e then (wd s)(a := wd s a OR 0xf) else wd s) \<and> (0 \<le> e \<longrightarrow> v = wd s a)"
  using assms mu_engine_read mu_engine_write mu_engine_test_set
  by (fastforce simp: mutex_at_def)+

text \<open>What a first \<open>trylock\<close> (depth 0) can do to the lock word, bus faults included.\<close>

lemma trylock_cases:
  assumes at: "mutex_at B wd m" and d: "mx_depth m = 0"
    and run: "nfp_cpp_mutex_trylock B m s = ((e, m'), s')"
  obtains (untouched) "e \<noteq> 0" "m' = m" "wd s' = wd s"
  | (lost) "e \<noteq> 0" "m' = m" "\<not> nfp_mutex_is_unlocked (wd s (mx_address m))"
      "wd s' = (wd s)(mx_address m := wd s (mx_address m) OR 0xf)"
      "e = (if nfp_mutex_is_locked (wd s (mx_address m)) then - EBUSY else - EINVAL)"
  | (leaked) "e \<noteq> 0" "m' = m" "nfp_mutex_is_unlocked (wd s (mx_address m))"
      "wd s' = (wd s)(mx_address m := wd s (mx_address m) OR 0xf)"
  | (won) "e = 0" "m' = m\<lparr>mx_depth := 1\<rparr>" "nfp_mutex_is_unlocked (wd s (mx_address m))"
      "wd s' = (wd s)(mx_address m := nfp_mutex_locked (bus_interface B))"
proof -
  let ?tgt = "word_of_int (mx_target m) :: u32" and ?a = "mx_address m"
  obtain e1 key s1 where r1: "nfp_cpp_readl B (NFP_CPP_ID ?tgt 3 0) (?a + 4) s = ((e1, key), s1)"
    by (metis prod.exhaust)
  obtain e2 old s2 where r2: "nfp_cpp_readl B (NFP_CPP_ID ?tgt 5 3) ?a s1 = ((e2, old), s2)"
    by (metis prod.exhaust)
  obtain e3 s3 where r3: "nfp_cpp_writel B (NFP_CPP_ID ?tgt 4 0) ?a
      (nfp_mutex_locked (bus_interface B)) s2 = (e3, s3)" by (metis prod.exhaust)
  note w = mutex_at_bus(1) [OF at r1] mutex_at_bus(3) [OF at r2] mutex_at_bus(2) [OF at r3]
  note run' = run [unfolded nfp_cpp_mutex_trylock_def Let_def d r1 r2 r3 prod.case, simplified d, simplified]
  show thesis
  proof (cases "e1 < 0 \<or> key \<noteq> mx_key m \<or> e2 < 0")
    case True
    have "e \<noteq> 0 \<and> m' = m \<and> wd s' = wd s"
      using run' w(1,2) True by (cases "e1 < 0"; cases "key = mx_key m"; simp add: r2)
    then show thesis using untouched by blast
  next
    case F: False
    then have w12: "old = wd s ?a" "wd s2 = (wd s)(?a := wd s ?a OR 0xf)" using w(1,2) by simp_all
    show thesis
    proof (cases "nfp_mutex_is_unlocked (wd s ?a)")
      case True
      show thesis
      proof (cases "e3 < 0")
        case neg: True
        have "e = e3 \<and> m' = m \<and> s' = s3" using run' F True neg by (simp add: r2 r3 w12(1))
        with leaked [OF _ _ True] neg w(3) w12 show thesis by simp
      next
        case pos: False
        have "e = 0 \<and> m' = m\<lparr>mx_depth := 1\<rparr> \<and> s' = s3"
          using run' F True pos by (simp add: r2 r3 w12(1))
        with won [OF _ _ True] pos w(3) w12 show thesis by simp
      qed
    next
      case False
      have "e = (if nfp_mutex_is_locked (wd s ?a) then - EBUSY else - EINVAL) \<and> m' = m \<and> s' = s2"
        using run' F False by (auto simp: r2 w12(1))
      with lost [OF _ _ False] w12 show thesis by (simp split: if_splits)
    qed
  qed
qed

text \<open>
  Claim C10. Every run of \<open>nfp_cpp_mutex_trylock\<close> on a handle of depth 0, bus faults included,
  is a sequence of steps of the contending-hosts machine on the lock word: the call returns 0
  exactly when the host ends up holding the lock with depth 1, and any error leaves the
  handle as it was and the host outside.
\<close>

theorem trylock_refines:
  assumes at: "mutex_at B wd m" and d: "mx_depth m = 0"
    and host: "bus_interface B = iface h" "ls_pc t h = Idle" "ls_word t = wd s (mx_address m)"
    and run: "nfp_cpp_mutex_trylock B m s = ((e, m'), s')"
  shows "\<exists>t'. (mutex_step iface)\<^sup>*\<^sup>* t t' \<and> ls_word t' = wd s' (mx_address m) \<and>
    ls_pc t' = (ls_pc t)(h := if e = 0 then Held else Idle) \<and>
    m' = (if e = 0 then m\<lparr>mx_depth := 1\<rparr> else m)"
  using at d run
proof (cases rule: trylock_cases)
  case untouched
  with host show ?thesis by (intro exI [of _ t]) (auto simp: fun_upd_idem)
next
  case lost
  from ts_lose [of t h iface] host lost show ?thesis
    by (intro exI [of _ "t\<lparr>ls_word := ls_word t OR 0xf\<rparr>"]) (auto simp: fun_upd_idem)
next
  case leaked
  let ?t1 = "t\<lparr>ls_word := ls_word t OR 0xf, ls_pc := (ls_pc t)(h := Won)\<rparr>"
  have "mutex_step iface t ?t1" using ts_win [of t h iface] host leaked by simp
  moreover have "mutex_step iface ?t1 (?t1\<lparr>ls_pc := (ls_pc ?t1)(h := Idle)\<rparr>)"
    by (rule own_fail) simp
  ultimately have "(mutex_step iface)\<^sup>*\<^sup>* t (?t1\<lparr>ls_pc := (ls_pc ?t1)(h := Idle)\<rparr>)"
    by (meson converse_rtranclp_into_rtranclp r_into_rtranclp)
  with host leaked show ?thesis by (intro exI) (auto simp: fun_upd_idem)
next
  case won
  let ?t1 = "t\<lparr>ls_word := ls_word t OR 0xf, ls_pc := (ls_pc t)(h := Won)\<rparr>"
  let ?t2 = "?t1\<lparr>ls_word := nfp_mutex_locked (iface h), ls_pc := (ls_pc ?t1)(h := Held)\<rparr>"
  have "mutex_step iface t ?t1" using ts_win [of t h iface] host won by simp
  moreover have "mutex_step iface ?t1 ?t2" by (rule own) simp
  ultimately have "(mutex_step iface)\<^sup>*\<^sup>* t ?t2"
    by (meson converse_rtranclp_into_rtranclp r_into_rtranclp)
  with host won show ?thesis by (intro exI [of _ ?t2]) simp
qed

text \<open>A handle for the evaluations: key \<open>0x55\<close> at address 256.\<close>

definition sample_mutex :: cpp_mutex where
  "sample_mutex = \<lparr>mx_target = 7, mx_depth = 0, mx_address = 256, mx_key = 0x55\<rparr>"

lemma mutex_at_ram: "mx_target m = 7 \<Longrightarrow> mutex_at (ram_bus i) id m"
  by (simp add: mutex_at_def mu_engine_ram)

lemma sample_trylock:
  "nfp_cpp_mutex_trylock (ram_bus 0x1001) sample_mutex ((\<lambda>_. 0)(260 := 0x55)) =
     ((0, sample_mutex\<lparr>mx_depth := 1\<rparr>), (\<lambda>_. 0)(260 := 0x55, 256 := nfp_mutex_locked 0x1001))"
  by (simp add: nfp_cpp_mutex_trylock_def sample_mutex_def ram_readl ram_writel NFP_CPP_ID_def
      nfp_mutex_is_unlocked_def fun_upd_twist)

lemma trylock_refines_witness:
  "\<exists>t'. (mutex_step (\<lambda>_. 0x1001))\<^sup>*\<^sup>* \<lparr>ls_word = 0, ls_pc = \<lambda>_. Idle\<rparr> t' \<and>
     ls_word t' = nfp_mutex_locked 0x1001 \<and> ls_pc t' = (\<lambda>_. Idle)(3 := Held)"
  using trylock_refines [of "ram_bus 0x1001" id sample_mutex "\<lambda>_. 0x1001" 3
      "\<lparr>ls_word = 0, ls_pc = \<lambda>_. Idle\<rparr>" "(\<lambda>_. 0)(260 := 0x55)", OF _ _ _ _ _ sample_trylock]
  by (simp add: mutex_at_ram sample_mutex_def)

lemma unlock_cases:
  assumes at: "mutex_at B wd m" and d: "mx_depth m \<le> 1"
    and run: "nfp_cpp_mutex_unlock B m s = ((e, m'), s')"
  obtains (kept) "e \<noteq> 0" "m' = m" "wd s' = wd s"
  | (released) "e = 0" "m' = m\<lparr>mx_depth := 0\<rparr>"
      "wd s (mx_address m) = nfp_mutex_locked (bus_interface B)"
      "wd s' = (wd s)(mx_address m := nfp_mutex_unlocked (bus_interface B))"
proof -
  let ?tgt = "word_of_int (mx_target m) :: u32" and ?a = "mx_address m"
  obtain e1 key s1 where r1: "nfp_cpp_readl B (NFP_CPP_ID ?tgt 3 0) (?a + 4) s = ((e1, key), s1)"
    by (metis prod.exhaust)
  obtain e2 old s2 where r2: "nfp_cpp_readl B (NFP_CPP_ID ?tgt 3 0) ?a s1 = ((e2, old), s2)"
    by (metis prod.exhaust)
  obtain e3 s3 where r3: "nfp_cpp_writel B (NFP_CPP_ID ?tgt 4 0) ?a
      (nfp_mutex_unlocked (bus_interface B)) s2 = (e3, s3)" by (metis prod.exhaust)
  note w = mutex_at_bus(1) [OF at r1] mutex_at_bus(1) [OF at r2] mutex_at_bus(2) [OF at r3]
  have d': "\<not> 1 < mx_depth m" using d by simp
  note run' = run [unfolded nfp_cpp_mutex_unlock_def Let_def r1 r2 r3 prod.case, simplified if_not_P [OF d']]
  show thesis
  proof (cases "e1 < 0 \<or> key \<noteq> mx_key m \<or> e2 < 0 \<or> old \<noteq> nfp_mutex_locked (bus_interface B) \<or> e3 < 0")
    case True
    have "e \<noteq> 0 \<and> m' = m \<and> wd s' = wd s"
      using run' w True
      by (cases "e1 < 0"; cases "key = mx_key m"; cases "e2 < 0";
          cases "old = nfp_mutex_locked (bus_interface B)"; auto simp: r2 r3)
    then show thesis using kept by blast
  next
    case F: False
    have "e = 0 \<and> m' = m\<lparr>mx_depth := 0\<rparr> \<and> s' = s3"
      using run' F by (auto simp: r2 r3)
    with F w released show thesis by simp
  qed
qed

text \<open>
  Claim C11. Every run of \<open>nfp_cpp_mutex_unlock\<close> at depth 1, bus faults included, is a sequence
  of steps of the contending-hosts machine from the holding host: it returns 0 exactly when
  the word was released and the depth is back at 0; on an error the host still holds it.
\<close>

theorem unlock_refines:
  assumes at: "mutex_at B wd m" and d: "mx_depth m = 1"
    and host: "bus_interface B = iface h" "ls_pc t h = Held" "ls_word t = wd s (mx_address m)"
    and run: "nfp_cpp_mutex_unlock B m s = ((e, m'), s')"
  shows "\<exists>t'. (mutex_step iface)\<^sup>*\<^sup>* t t' \<and> ls_word t' = wd s' (mx_address m) \<and>
    ls_pc t' = (ls_pc t)(h := if e = 0 then Idle else Held) \<and>
    m' = (if e = 0 then m\<lparr>mx_depth := 0\<rparr> else m)"
proof -
  have "mx_depth m \<le> 1" using d by simp
  from at this run show ?thesis
  proof (cases rule: unlock_cases)
    case kept
    with host show ?thesis by (intro exI [of _ t]) (auto simp: fun_upd_idem)
  next
    case released
    let ?t1 = "t\<lparr>ls_pc := (ls_pc t)(h := Releasing)\<rparr>"
    let ?t2 = "?t1\<lparr>ls_word := nfp_mutex_unlocked (iface h), ls_pc := (ls_pc ?t1)(h := Idle)\<rparr>"
    have "mutex_step iface t ?t1" using rel_check [of t h iface] host released by simp
    moreover have "mutex_step iface ?t1 ?t2" by (rule release) simp
    ultimately have "(mutex_step iface)\<^sup>*\<^sup>* t ?t2"
      by (meson converse_rtranclp_into_rtranclp r_into_rtranclp)
    with host released show ?thesis by (intro exI [of _ ?t2]) simp
  qed
qed

lemma sample_unlock:
  "nfp_cpp_mutex_unlock (ram_bus 0x1001) (sample_mutex\<lparr>mx_depth := 1\<rparr>)
     ((\<lambda>_. 0)(260 := 0x55, 256 := nfp_mutex_locked 0x1001)) =
     ((0, sample_mutex), (\<lambda>_. 0)(260 := 0x55, 256 := nfp_mutex_unlocked 0x1001))"
  by (simp add: nfp_cpp_mutex_unlock_def sample_mutex_def ram_readl ram_writel NFP_CPP_ID_def)

lemma unlock_refines_witness:
  "\<exists>t'. (mutex_step (\<lambda>_. 0x1001))\<^sup>*\<^sup>*
       \<lparr>ls_word = nfp_mutex_locked 0x1001, ls_pc = (\<lambda>_. Idle)(3 := Held)\<rparr> t' \<and>
     ls_word t' = nfp_mutex_unlocked 0x1001 \<and> ls_pc t' = (\<lambda>_. Idle)"
  using unlock_refines [of "ram_bus 0x1001" id "sample_mutex\<lparr>mx_depth := 1\<rparr>" "\<lambda>_. 0x1001" 3
      "\<lparr>ls_word = nfp_mutex_locked 0x1001, ls_pc = (\<lambda>_. Idle)(3 := Held)\<rparr>", OF _ _ _ _ _ sample_unlock]
  by (simp add: mutex_at_ram sample_mutex_def fun_upd_idem)

section \<open>Handles that tell the truth\<close>

text \<open>A handle of positive depth whose lock word carries this host's id.\<close>

definition holds_ok :: "'s cpp_bus \<Rightarrow> ('s \<Rightarrow> u64 \<Rightarrow> u32) \<Rightarrow> cpp_mutex \<Rightarrow> 's \<Rightarrow> bool" where
  "holds_ok B wd m s \<longleftrightarrow> mutex_at B wd m \<and>
     (mx_depth m \<noteq> 0 \<longrightarrow> wd s (mx_address m) = nfp_mutex_locked (bus_interface B))"

lemma mutex_at_depth [simp]: "mutex_at B wd (m\<lparr>mx_depth := d\<rparr>) = mutex_at B wd m"
  by (simp add: mutex_at_def)

lemma trylock_holds:
  assumes ok: "holds_ok B wd m s" and run: "nfp_cpp_mutex_trylock B m s = ((e, m'), s')"
  shows "holds_ok B wd m' s' \<and> mx_address m' = mx_address m \<and> (e = 0 \<longrightarrow> mx_depth m' \<noteq> 0) \<and>
    (\<forall>a. a \<noteq> mx_address m \<longrightarrow> wd s' a = wd s a)"
proof (cases "mx_depth m = 0")
  case True
  from ok have "mutex_at B wd m" by (simp add: holds_ok_def)
  from this True run show ?thesis
    by (cases rule: trylock_cases) (use ok True in \<open>auto simp: holds_ok_def\<close>)
next
  case False
  show ?thesis
  proof (cases "mx_depth m = 0xffff")
    case True
    with run have "e = - E2BIG \<and> m' = m \<and> s' = s" by (auto simp: nfp_cpp_mutex_trylock_def)
    with ok show ?thesis by simp
  next
    case F: False
    with nested_trylock [of m B s] run False
    have r: "e = 0" "m' = m\<lparr>mx_depth := mx_depth m + 1\<rparr>" "s' = s"
      by (simp_all add: word_neq_0_conv)
    have "mx_depth m + 1 \<noteq> 0"
      using unat_Suc_depth [OF F] by (metis nat.distinct(1) unsigned_0)
    with r ok False show ?thesis by (simp add: holds_ok_def)
  qed
qed

lemma unlock_holds:
  assumes ok: "holds_ok B wd m s" and run: "nfp_cpp_mutex_unlock B m s = ((e, m'), s')"
  shows "holds_ok B wd m' s' \<and> mx_address m' = mx_address m \<and>
    (\<forall>a. a \<noteq> mx_address m \<longrightarrow> wd s' a = wd s a)"
proof (cases "1 < mx_depth m")
  case True
  with nested_unlock [of m B s] run have "m' = m\<lparr>mx_depth := mx_depth m - 1\<rparr> \<and> s' = s" by simp
  with ok True show ?thesis by (auto simp: holds_ok_def)
next
  case False
  then have "mx_depth m \<le> 1" by simp
  moreover from ok have "mutex_at B wd m" by (simp add: holds_ok_def)
  ultimately show ?thesis using run
    by (elim unlock_cases) (use ok in \<open>auto simp: holds_ok_def\<close>)
qed

lemma lock_holds:
  "nfp_cpp_mutex_lock B env n fuel m s = Some ((e, m'), s') \<Longrightarrow> holds_ok B wd m s \<Longrightarrow>
     holds_ok B wd m' s' \<and> mx_address m' = mx_address m \<and> (e = 0 \<longrightarrow> mx_depth m' \<noteq> 0)"
proof (induction B env n fuel m s rule: nfp_cpp_mutex_lock.induct)
  case (1 B env n m s)
  then show ?case by simp
next
  case (2 B env n fuel m s)
  obtain e1 m1 s1 where t: "nfp_cpp_mutex_trylock B m s = ((e1, m1), s1)" by (metis prod.exhaust)
  note h = trylock_holds [OF 2(3) t]
  show ?case
  proof (cases "e1 = - EBUSY \<and> we_sleep env n = 0 \<and> \<not> 60 * we_hz env \<le> we_now env n")
    case True
    with 2(1) [OF t [symmetric] refl] 2(2) t h show ?thesis by simp
  next
    case False
    with 2(2) t h show ?thesis by (auto split: if_splits)
  qed
qed

section \<open>The waiting loop ends\<close>

lemma lock_terminates_from:
  assumes "\<forall>k. k < we_now env k" and "60 * we_hz env \<le> n + fuel" and "0 < fuel"
  shows "nfp_cpp_mutex_lock B env n fuel m s \<noteq> None"
  using assms(2,3)
proof (induction fuel arbitrary: n m s)
  case 0
  then show ?case by simp
next
  case (Suc fuel)
  obtain e1 m1 s1 where t: "nfp_cpp_mutex_trylock B m s = ((e1, m1), s1)" by (metis prod.exhaust)
  show ?case
  proof (cases "60 * we_hz env \<le> we_now env n")
    case True
    with t show ?thesis by simp
  next
    case False
    moreover have "n < we_now env n" using assms(1) by simp
    ultimately have "0 < fuel" using Suc.prems by linarith
    with Suc.IH [of "Suc n" m1 s1] Suc.prems t show ?thesis by simp
  qed
qed

text \<open>
  \<open>nfp_cpp_mutex_lock\<close> returns: when every sleep takes at least one tick, it ends
  after at most 60 seconds of ticks (one more \<open>trylock\<close> at most), whatever the bus and the
  other hosts do; and it returns 0 only with the depth one higher.
\<close>

theorem mutex_lock_returns:
  assumes "\<forall>k. k < we_now env k"
  shows "\<exists>e m' s'. nfp_cpp_mutex_lock B env 0 (Suc (60 * we_hz env)) m s = Some ((e, m'), s') \<and>
    (if e = 0 then unat (mx_depth m') = Suc (unat (mx_depth m)) else m' = m)"
proof -
  have "nfp_cpp_mutex_lock B env 0 (Suc (60 * we_hz env)) m s \<noteq> None"
    by (rule lock_terminates_from [OF assms]) simp_all
  then obtain e m' s' where r: "nfp_cpp_mutex_lock B env 0 (Suc (60 * we_hz env)) m s = Some ((e, m'), s')"
    by (metis not_None_eq prod.exhaust)
  moreover have "if e = 0 then unat (mx_depth m') = Suc (unat (mx_depth m)) else m' = m"
  proof (cases "e = 0")
    case True
    with r mutex_wait.lock_ok [of B env "Suc (60 * we_hz env)" m s m' s'] show ?thesis by simp
  next
    case False
    with r mutex_wait.lock_err [of B env "Suc (60 * we_hz env)" m s e m' s'] show ?thesis by simp
  qed
  ultimately show ?thesis by blast
qed

lemma mutex_lock_returns_witness:
  "\<exists>e m' s'. nfp_cpp_mutex_lock (ram_bus 0x1001)
      \<lparr>we_sleep = \<lambda>_. 0, we_now = Suc, we_hz = 1\<rparr> 0 61 sample_mutex (\<lambda>_. 0xf) = Some ((e, m'), s') \<and>
    (if e = 0 then unat (mx_depth m') = Suc (unat (mx_depth sample_mutex)) else m' = sample_mutex)"
  using mutex_lock_returns [of "\<lparr>we_sleep = \<lambda>_. 0, we_now = Suc, we_hz = 1\<rparr>" "ram_bus 0x1001"
      sample_mutex "\<lambda>_. 0xf"]
  by simp

section \<open>Initialisation\<close>

text \<open>
  \<open>nfp_cpp_mutex_init\<close> on a valid location does not create a locked mutex when the
  bus works: \<open>nfp_cpp_writel\<close> returns the length written, which the tests \<open>if (err)\<close> take
  for an error, so the function returns that length after writing only the key.
\<close>

theorem mutex_init_stops_after_key:
  assumes "nfp_cpp_mutex_validate (bus_interface B) target address = 0"
    and "nfp_cpp_writel B (NFP_CPP_ID (word_of_int target) 4 0) (address + 4) key s = (4, s')"
  shows "nfp_cpp_mutex_init B target address key s = (4, s')"
  using assms by (simp add: nfp_cpp_mutex_init_def)

lemma mutex_init_stops_after_key_witness:
  "nfp_cpp_mutex_init (ram_bus 0x1001) 7 256 0x55 (\<lambda>_. 0) = (4, (\<lambda>_. 0)(260 := 0x55))"
  using mutex_init_stops_after_key [of "ram_bus 0x1001" 7 256 "0x55" "\<lambda>_. 0" "(\<lambda>_. 0)(260 := 0x55)"]
  by (simp add: ram_writel nfp_cpp_mutex_validate_def NFP_CPP_INTERFACE_TYPE_of_def)

end
