(* ===== verification/Nfp_Resource.thy ===== *)
theory Nfp_Resource
  imports Nfp_Mutex
begin

text \<open>
  The resource table of \<open>nfpcore/nfp_resource.c\<close>: 128 entries of 32 bytes at a fixed address
  of the memory unit, each a lock and a region descriptor. Acquiring a resource takes the
  device lock (entry 0), searches the table for the CRC of the name, tries the lock of
  the entry and gives the device lock back; the outer loop retries while the entry is busy.
  \<open>crc32_be\<close> is the kernel's CRC routine, a parameter; \<open>crc32_posix\<close> of \<open>nfpcore/crc32.h\<close>
  is translated on top of it.
\<close>

section \<open>POSIX CRC\<close>

text \<open>\<open>crc32_posix_end\<close>: the length is fed to the CRC byte by byte, low byte first.\<close>

function crc32_posix_end :: "(u32 \<Rightarrow> u8 list \<Rightarrow> u32) \<Rightarrow> u32 \<Rightarrow> nat \<Rightarrow> u32" where
  "crc32_posix_end crc32_be crc total_len =
     (if total_len = 0 then NOT crc
      else crc32_posix_end crc32_be (crc32_be crc [of_nat (total_len mod 256)]) (total_len div 256))"
  by pat_completeness auto
termination
  by (relation "measure (\<lambda>(_, _, n). n)") auto

declare crc32_posix_end.simps [simp del]

definition crc32_posix :: "(u32 \<Rightarrow> u8 list \<Rightarrow> u32) \<Rightarrow> u8 list \<Rightarrow> u32" where
  "crc32_posix crc32_be buff = crc32_posix_end crc32_be (crc32_be 0 buff) (length buff)"

section \<open>Table and handles\<close>

abbreviation (input) NFP_RESOURCE_TBL_TARGET :: int where "NFP_RESOURCE_TBL_TARGET \<equiv> 7"
abbreviation (input) NFP_RESOURCE_TBL_BASE :: u64 where "NFP_RESOURCE_TBL_BASE \<equiv> 0x8100000000"
abbreviation (input) NFP_RESOURCE_TBL_KEY :: u32 where "NFP_RESOURCE_TBL_KEY \<equiv> 0"
abbreviation (input) NFP_RESOURCE_TBL_ENTRIES :: nat where "NFP_RESOURCE_TBL_ENTRIES \<equiv> 128"

definition nfp_resource_tbl_name :: "u8 list" where
  "nfp_resource_tbl_name = [110, 102, 112, 46, 114, 101, 115, 0]"

record nfp_resource_entry =
  re_owner :: u32
  re_key :: u32
  re_cpp_action :: u8
  re_cpp_token :: u8
  re_cpp_target :: u8
  re_page_offset :: u32
  re_page_size :: u32

text \<open>The 32 bytes of \<open>struct nfp_resource_entry\<close>, on a little-endian host.\<close>

definition resource_entry_of :: "u8 list \<Rightarrow> nfp_resource_entry" where
  "resource_entry_of bs =
     \<lparr>re_owner = get_unaligned_le32 bs, re_key = get_unaligned_le32 (drop 4 bs),
      re_cpp_action = bs ! 21, re_cpp_token = bs ! 22, re_cpp_target = bs ! 23,
      re_page_offset = get_unaligned_le32 (drop 24 bs),
      re_page_size = get_unaligned_le32 (drop 28 bs)\<rparr>"

record nfp_resource =
  res_name :: "u8 list"
  res_cpp_id :: u32
  res_addr :: u64
  res_size :: u64
  res_mutex :: "cpp_mutex option"

text \<open>\<open>strncpy\<close> of a C string into a zeroed buffer of 8 bytes.\<close>

definition strncpy8 :: "u8 list \<Rightarrow> u8 list" where
  "strncpy8 s = (let t = take 8 (takeWhile (\<lambda>c. c \<noteq> 0) s) in t @ replicate (8 - length t) 0)"

section \<open>Operations\<close>

text \<open>
  The search loop over the table. \<open>mem\<close> is the result of the \<open>kzalloc\<close> inside
  \<open>nfp_cpp_mutex_alloc\<close>. As in the source, a failed allocation leaves \<open>None\<close> (NULL) in the
  resource and the search still reports success.
\<close>

fun resource_scan ::
  "'s cpp_bus \<Rightarrow> bool \<Rightarrow> u32 \<Rightarrow> nat list \<Rightarrow> nfp_resource \<Rightarrow> 's \<Rightarrow> (int \<times> nfp_resource) \<times> 's" where
  "resource_scan B mem key [] res s = ((- ENOENT, res), s)"
| "resource_scan B mem key (i # is) res s =
     (let addr = NFP_RESOURCE_TBL_BASE + 32 * of_nat i in
      case bus_read B (NFP_CPP_ID 7 3 0) addr 32 s of ((ret, bs), s) \<Rightarrow>
        if ret \<noteq> 32 then ((- EIO, res), s)
        else let entry = resource_entry_of bs in
          if re_key entry \<noteq> key then resource_scan B mem key is res s
          else case nfp_cpp_mutex_alloc B mem NFP_RESOURCE_TBL_TARGET addr key s of (mutex, s) \<Rightarrow>
            ((0, res\<lparr>res_mutex := mutex,
                   res_cpp_id := NFP_CPP_ID (ucast (re_cpp_target entry))
                     (ucast (re_cpp_action entry)) (ucast (re_cpp_token entry)),
                   res_addr := push_bit 8 (ucast (re_page_offset entry)),
                   res_size := push_bit 8 (ucast (re_page_size entry))\<rparr>), s))"

definition nfp_cpp_resource_find ::
  "'s cpp_bus \<Rightarrow> (u32 \<Rightarrow> u8 list \<Rightarrow> u32) \<Rightarrow> bool \<Rightarrow> nfp_resource \<Rightarrow> 's \<Rightarrow> (int \<times> nfp_resource) \<times> 's" where
  "nfp_cpp_resource_find B crc32_be mem res s =
     (let name_pad = strncpy8 (res_name res) in
      if name_pad = nfp_resource_tbl_name then ((- EOPNOTSUPP, res), s)
      else resource_scan B mem (crc32_posix crc32_be name_pad) [0..<NFP_RESOURCE_TBL_ENTRIES] res s)"

text \<open>
  Outcomes: \<open>Done\<close> with a result, a NULL dereference in the kernel, or fuel exhausted in a
  waiting loop.
\<close>

datatype 'a run = Done 'a | NullDeref | OutOfFuel

text \<open>What the kernel answers during one attempt: the waits on the device lock, \<open>kzalloc\<close>.\<close>

record attempt_env =
  ae_wait :: wait_env
  ae_fuel :: nat
  ae_mem :: bool

definition nfp_resource_try_acquire ::
  "'s cpp_bus \<Rightarrow> (u32 \<Rightarrow> u8 list \<Rightarrow> u32) \<Rightarrow> attempt_env \<Rightarrow> nfp_resource \<Rightarrow> cpp_mutex \<Rightarrow> 's
     \<Rightarrow> ((int \<times> nfp_resource \<times> cpp_mutex) \<times> 's) run" where
  "nfp_resource_try_acquire B crc32_be env res dev_mutex s =
     (case nfp_cpp_mutex_lock B (ae_wait env) 0 (ae_fuel env) dev_mutex s of
        None \<Rightarrow> OutOfFuel
      | Some ((lerr, dev_mutex), s) \<Rightarrow>
        if lerr \<noteq> 0 then Done ((- EINVAL, res, dev_mutex), s)
        else case nfp_cpp_resource_find B crc32_be (ae_mem env) res s of ((err, res), s) \<Rightarrow>
          if err \<noteq> 0 then
            (case nfp_cpp_mutex_unlock B dev_mutex s of ((_, dev_mutex), s) \<Rightarrow>
               Done ((err, res, dev_mutex), s))
          else (case res_mutex res of
            None \<Rightarrow> NullDeref
          | Some mutex \<Rightarrow>
            (case nfp_cpp_mutex_trylock B mutex s of ((err, mutex), s) \<Rightarrow>
             case nfp_cpp_mutex_unlock B dev_mutex s of ((_, dev_mutex), s) \<Rightarrow>
               Done ((err, res\<lparr>res_mutex := Some mutex\<rparr>, dev_mutex), s))))"

text \<open>
  The retry loop of \<open>nfp_resource_acquire\<close>. Attempt \<open>n\<close> has its own answers; \<open>qe_sleep n\<close> is the
  result of the sleep after it and \<open>qe_now n\<close> the clock then.
\<close>

record acquire_env =
  qe_attempt :: "nat \<Rightarrow> attempt_env"
  qe_sleep :: "nat \<Rightarrow> int"
  qe_now :: "nat \<Rightarrow> nat"
  qe_hz :: nat
  qe_mem :: bool
  qe_dev_mem :: bool

fun acquire_loop ::
  "'s cpp_bus \<Rightarrow> (u32 \<Rightarrow> u8 list \<Rightarrow> u32) \<Rightarrow> acquire_env \<Rightarrow> nat \<Rightarrow> nat \<Rightarrow> nfp_resource \<Rightarrow> cpp_mutex
     \<Rightarrow> 's \<Rightarrow> (nfp_resource res \<times> 's) run" where
  "acquire_loop B crc32_be env n 0 res dev_mutex s = OutOfFuel"
| "acquire_loop B crc32_be env n (Suc fuel) res dev_mutex s =
     (case nfp_resource_try_acquire B crc32_be (qe_attempt env n) res dev_mutex s of
        OutOfFuel \<Rightarrow> OutOfFuel
      | NullDeref \<Rightarrow> NullDeref
      | Done ((err, res, dev_mutex), s) \<Rightarrow>
        if err = 0 then Done (Inr res, s)
        else if err \<noteq> - EBUSY then Done (Inl err, s)
        else if qe_sleep env n \<noteq> 0 then Done (Inl (- ERESTARTSYS), s)
        else if NFP_MUTEX_WAIT_ERROR * qe_hz env \<le> qe_now env n then Done (Inl (- EBUSY), s)
        else acquire_loop B crc32_be env (Suc n) fuel res dev_mutex s)"

definition nfp_resource_acquire ::
  "'s cpp_bus \<Rightarrow> (u32 \<Rightarrow> u8 list \<Rightarrow> u32) \<Rightarrow> acquire_env \<Rightarrow> nat \<Rightarrow> u8 list \<Rightarrow> 's
     \<Rightarrow> (nfp_resource res \<times> 's) run" where
  "nfp_resource_acquire B crc32_be env fuel name s =
     (if \<not> qe_mem env then Done (Inl (- ENOMEM), s)
      else let res = \<lparr>res_name = strncpy8 name @ [0], res_cpp_id = 0, res_addr = 0,
                      res_size = 0, res_mutex = None\<rparr> in
        case nfp_cpp_mutex_alloc B (qe_dev_mem env) NFP_RESOURCE_TBL_TARGET NFP_RESOURCE_TBL_BASE
               NFP_RESOURCE_TBL_KEY s of
          (None, s) \<Rightarrow> Done (Inl (- ENOMEM), s)
        | (Some dev_mutex, s) \<Rightarrow> acquire_loop B crc32_be env 0 fuel res dev_mutex s)"

definition nfp_resource_release :: "'s cpp_bus \<Rightarrow> nfp_resource \<Rightarrow> 's \<Rightarrow> 's run" where
  "nfp_resource_release B res s =
     (case res_mutex res of
        None \<Rightarrow> NullDeref
      | Some mutex \<Rightarrow> Done (snd (nfp_cpp_mutex_unlock B mutex s)))"

text \<open>
  \<open>nfp_resource_wait\<close>: round \<open>n\<close> calls \<open>nfp_resource_acquire\<close> with its own answers, \<open>ws_now n\<close>
  is the clock after it and \<open>ws_sleep n\<close> the result of the sleep that follows.
\<close>

record wait_resource_env =
  ws_acquire :: "nat \<Rightarrow> acquire_env"
  ws_sleep :: "nat \<Rightarrow> int"
  ws_now :: "nat \<Rightarrow> nat"
  ws_hz :: nat

fun nfp_resource_wait ::
  "'s cpp_bus \<Rightarrow> (u32 \<Rightarrow> u8 list \<Rightarrow> u32) \<Rightarrow> wait_resource_env \<Rightarrow> nat \<Rightarrow> nat \<Rightarrow> nat \<Rightarrow> u8 list \<Rightarrow> nat
     \<Rightarrow> 's \<Rightarrow> (int \<times> 's) run" where
  "nfp_resource_wait B crc32_be env afuel n 0 name secs s = OutOfFuel"
| "nfp_resource_wait B crc32_be env afuel n (Suc fuel) name secs s =
     (case nfp_resource_acquire B crc32_be (ws_acquire env n) afuel name s of
        OutOfFuel \<Rightarrow> OutOfFuel
      | NullDeref \<Rightarrow> NullDeref
      | Done (Inr res, s) \<Rightarrow>
          (case nfp_resource_release B res s of
             Done s \<Rightarrow> Done (0, s) | NullDeref \<Rightarrow> NullDeref | OutOfFuel \<Rightarrow> OutOfFuel)
      | Done (Inl e, s) \<Rightarrow>
          if e \<noteq> - ENOENT then Done (e, s)
          else if secs * ws_hz env \<le> ws_now env n then Done (- ETIMEDOUT, s)
          else if ws_sleep env n \<noteq> 0 then Done (- ERESTARTSYS, s)
          else nfp_resource_wait B crc32_be env afuel (Suc n) fuel name secs s)"

section \<open>What acquiring does to the device lock\<close>

lemma alloc_shape:
  assumes "nfp_cpp_mutex_alloc B mem target a key s = (r, s')" "r = Some m"
  shows "m = \<lparr>mx_target = target, mx_depth = 0, mx_address = a, mx_key = key\<rparr> \<and> target = 7"
  using assms unfolding nfp_cpp_mutex_alloc_def Let_def
  by (auto simp: nfp_cpp_mutex_validate_def split: if_splits prod.splits)

lemma alloc_wd:
  assumes "mu_engine B wd" "nfp_cpp_mutex_alloc B mem 7 a key s = (r, s')"
  shows "wd s' = wd s"
  using assms(2) unfolding nfp_cpp_mutex_alloc_def Let_def
  by (auto split: if_splits prod.splits dest: mu_engine_read [OF assms(1)])

text \<open>What a search that reports success has put in the resource.\<close>

lemma resource_scan_Done:
  assumes "mu_engine B wd" and "resource_scan B mem key is res s = ((e, res'), s')"
  shows "wd s' = wd s \<and>
    (e = 0 \<longrightarrow> (\<forall>m. res_mutex res' = Some m \<longrightarrow>
       mx_target m = 7 \<and> mx_depth m = 0 \<and> mx_key m = key \<and>
       (\<exists>i\<in>set is. mx_address m = 0x8100000000 + 32 * of_nat i)))"
  using assms(2)
proof (induction "is" arbitrary: s)
  case Nil
  then show ?case by simp
next
  case (Cons i "is")
  obtain ret bs s1 where r: "bus_read B (NFP_CPP_ID 7 3 0) (0x8100000000 + 32 * of_nat i) 32 s
      = ((ret, bs), s1)" by (metis prod.exhaust)
  obtain mx s2 where al: "nfp_cpp_mutex_alloc B mem 7 (0x8100000000 + 32 * of_nat i) key s1
      = (mx, s2)" by (metis prod.exhaust)
  note wd = mu_engine_bulk_read [OF assms(1) r] alloc_wd [OF assms(1) al]
  consider "ret \<noteq> 32" | "ret = 32" "re_key (resource_entry_of bs) \<noteq> key"
    | "ret = 32" "re_key (resource_entry_of bs) = key" by blast
  then show ?case
  proof cases
    case 1
    with Cons.prems r wd show ?thesis by auto
  next
    case 2
    with Cons.prems r have "resource_scan B mem key is res s1 = ((e, res'), s')"
      by (simp add: Let_def)
    from Cons.IH [OF this] wd show ?thesis by auto
  next
    case 3
    with Cons.prems r al alloc_shape [OF al] wd show ?thesis by (auto simp: Let_def)
  qed
qed

lemma resource_find_Done:
  assumes "mu_engine B wd" and "nfp_cpp_resource_find B crc mem res s = ((e, res'), s')"
  shows "wd s' = wd s \<and>
    (e = 0 \<longrightarrow> (\<forall>m. res_mutex res' = Some m \<longrightarrow>
       mx_target m = 7 \<and> mx_depth m = 0 \<and>
       (\<exists>i\<in>{0..<128}. mx_address m = 0x8100000000 + 32 * of_nat i)))"
  using assms(2) resource_scan_Done [OF assms(1), of mem
      "crc32_posix crc (strncpy8 (res_name res))" "[0..<128]" res s e res' s']
  by (simp add: nfp_cpp_resource_find_def Let_def split: if_splits)

text \<open>The result of one attempt, split at the calls it makes.\<close>

lemma try_acquire_cases:
  assumes "nfp_resource_try_acquire B crc env res dev s = Done ((e, res', dev'), s')"
  obtains (nolock) le where "nfp_cpp_mutex_lock B (ae_wait env) 0 (ae_fuel env) dev s
        = Some ((le, dev'), s')" "le \<noteq> 0" "e = - EINVAL" "res' = res"
  | (nofind) dev1 s1 s2 ue where
      "nfp_cpp_mutex_lock B (ae_wait env) 0 (ae_fuel env) dev s = Some ((0, dev1), s1)"
      "nfp_cpp_resource_find B crc (ae_mem env) res s1 = ((e, res'), s2)" "e \<noteq> 0"
      "nfp_cpp_mutex_unlock B dev1 s2 = ((ue, dev'), s')"
  | (tried) dev1 s1 res1 s2 mx mx' s3 ue where
      "nfp_cpp_mutex_lock B (ae_wait env) 0 (ae_fuel env) dev s = Some ((0, dev1), s1)"
      "nfp_cpp_resource_find B crc (ae_mem env) res s1 = ((0, res1), s2)" "res_mutex res1 = Some mx"
      "nfp_cpp_mutex_trylock B mx s2 = ((e, mx'), s3)" "res' = res1\<lparr>res_mutex := Some mx'\<rparr>"
      "nfp_cpp_mutex_unlock B dev1 s3 = ((ue, dev'), s')"
proof -
  have "nfp_cpp_mutex_lock B (ae_wait env) 0 (ae_fuel env) dev s \<noteq> None"
    using assms unfolding nfp_resource_try_acquire_def by (metis option.simps(4) run.distinct(3))
  then obtain le dev1 s1 where
    l: "nfp_cpp_mutex_lock B (ae_wait env) 0 (ae_fuel env) dev s = Some ((le, dev1), s1)"
    by (metis not_None_eq prod.exhaust)
  obtain fe res1 s2 where f: "nfp_cpp_resource_find B crc (ae_mem env) res s1 = ((fe, res1), s2)"
    by (metis prod.exhaust)
  note r = assms [unfolded nfp_resource_try_acquire_def l option.case prod.case]
  show thesis
  proof (cases "le = 0 \<and> fe = 0")
    case True
    with r f have "res_mutex res1 \<noteq> None" by (cases "res_mutex res1") auto
    then obtain mx where mx: "res_mutex res1 = Some mx" by blast
    obtain te mx' s3 where t: "nfp_cpp_mutex_trylock B mx s2 = ((te, mx'), s3)" by (metis prod.exhaust)
    obtain ue dev2 s4 where u: "nfp_cpp_mutex_unlock B dev1 s3 = ((ue, dev2), s4)" by (metis prod.exhaust)
    from r True f mx t u have "e = te \<and> res' = res1\<lparr>res_mutex := Some mx'\<rparr> \<and> dev' = dev2 \<and> s' = s4" by simp
    with tried l f mx t u True show thesis by blast
  next
    case False
    obtain ue dev2 s4 where u: "nfp_cpp_mutex_unlock B dev1 s2 = ((ue, dev2), s4)" by (metis prod.exhaust)
    show thesis
    proof (cases "le = 0")
      case True
      with False r f u have "e = fe \<and> res' = res1 \<and> dev' = dev2 \<and> s' = s4" "fe \<noteq> 0" by auto
      with nofind l f u True show thesis by blast
    next
      case False
      with r have "e = - EINVAL \<and> res' = res \<and> dev' = dev1 \<and> s' = s1" by auto
      with nolock l False show thesis by blast
    qed
  qed
qed

text \<open>
  Whatever the bus does, one attempt to acquire a resource gives the device lock
  back: either the lock was never taken, or it was taken, and the last thing the attempt
  did was an unlock of it, after which the depth is what it was before, unless that unlock
  itself failed.
\<close>

theorem try_acquire_gives_device_lock_back:
  assumes "nfp_resource_try_acquire B crc env res dev s = Done ((e, res', dev'), s')"
  shows "dev' = dev \<or> (\<exists>dev1 s1 ue. nfp_cpp_mutex_unlock B dev1 s1 = ((ue, dev'), s') \<and>
    unat (mx_depth dev1) = Suc (unat (mx_depth dev)) \<and>
    unat (mx_depth dev') = (if ue = 0 then unat (mx_depth dev) else Suc (unat (mx_depth dev))))"
  using assms
proof (cases rule: try_acquire_cases)
  case (nolock le)
  with mutex_wait.lock_err [OF nolock(1)] show ?thesis by simp
next
  case (nofind dev1 s1 s2 ue)
  from mutex_wait.lock_bracket_depth [OF nofind(1,4)] mutex_wait.lock_ok [OF nofind(1)] nofind(4)
  show ?thesis by blast
next
  case (tried dev1 s1 res1 s2 mx mx' s3 ue)
  from mutex_wait.lock_bracket_depth [OF tried(1,6)] mutex_wait.lock_ok [OF tried(1)] tried(6)
  show ?thesis by blast
qed

lemma try_acquire_locks:
  assumes run: "nfp_resource_try_acquire B crc env res dev s = Done ((e, res', dev'), s')"
    and ok: "holds_ok B wd dev s" and a: "mx_address dev = 0x8100000000"
  shows "holds_ok B wd dev' s' \<and> mx_address dev' = 0x8100000000 \<and>
    (e = 0 \<longrightarrow> (\<exists>m i. res_mutex res' = Some m \<and> 0 < i \<and> i < 128 \<and>
       mx_address m = 0x8100000000 + 32 * of_nat i \<and> mx_depth m = 1 \<and>
       wd s' (mx_address m) = nfp_mutex_locked (bus_interface B)))"
  using run
proof (cases rule: try_acquire_cases)
  case (nolock le)
  with lock_holds [OF nolock(1) ok] a show ?thesis by simp
next
  case (nofind dev1 s1 s2 ue)
  have eng: "mu_engine B wd" using ok by (simp add: holds_ok_def mutex_at_def)
  note l = lock_holds [OF nofind(1) ok] and f = resource_find_Done [OF eng nofind(2)]
  have "holds_ok B wd dev1 s2" using l f by (auto simp: holds_ok_def)
  with unlock_holds [OF this nofind(4)] l a nofind(3) show ?thesis by simp
next
  case (tried dev1 s1 res1 s2 mx mx' s3 ue)
  have eng: "mu_engine B wd" using ok by (simp add: holds_ok_def mutex_at_def)
  note l = lock_holds [OF tried(1) ok] and f = resource_find_Done [OF eng tried(2)]
  have d2: "holds_ok B wd dev1 s2" using l f by (auto simp: holds_ok_def)
  then have base: "wd s2 0x8100000000 = nfp_mutex_locked (bus_interface B)"
    using l a by (simp add: holds_ok_def)
  from f tried(3) obtain i where mx: "mx_target mx = 7" "mx_depth mx = 0" "i < 128"
    "mx_address mx = 0x8100000000 + 32 * of_nat i" by auto
  have at: "mutex_at B wd mx" using eng mx(1) by (simp add: mutex_at_def)
  then have mxok: "holds_ok B wd mx s2" using mx(2) by (simp add: holds_ok_def)
  show ?thesis using at mx(2) tried(4)
  proof (cases rule: trylock_cases)
    case won
    have ne: "mx_address mx \<noteq> 0x8100000000"
      using won(3) base not_both [OF locked_is_locked] by metis
    then have "0 < i" using mx(4) by (cases i) auto
    have "holds_ok B wd dev1 s3"
      using d2 won(4) ne l a by (simp add: holds_ok_def)
    from unlock_holds [OF this tried(6)] won(4) l a ne
    have u: "holds_ok B wd dev' s'" "mx_address dev' = 0x8100000000"
      "wd s' (mx_address mx) = nfp_mutex_locked (bus_interface B)" by simp_all
    with won tried(5) mx \<open>0 < i\<close> show ?thesis by auto
  next
    case untouched
    then have "holds_ok B wd dev1 s3" using d2 by (simp add: holds_ok_def)
    from unlock_holds [OF this tried(6)] untouched l a show ?thesis by simp
  next
    case lost
    then have "holds_ok B wd dev1 s3" using d2 base l a by (auto simp: holds_ok_def)
    from unlock_holds [OF this tried(6)] lost l a show ?thesis by simp
  next
    case leaked
    have ne: "mx_address mx \<noteq> 0x8100000000"
      using leaked(3) base not_both [OF locked_is_locked] by metis
    then have "holds_ok B wd dev1 s3" using d2 leaked l a by (simp add: holds_ok_def)
    from unlock_holds [OF this tried(6)] leaked l a show ?thesis by simp
  qed
qed

lemma acquire_loop_locks:
  "acquire_loop B crc env n fuel res dev s = Done (Inr res', s') \<Longrightarrow> holds_ok B wd dev s \<Longrightarrow>
     mx_address dev = 0x8100000000 \<Longrightarrow>
     \<exists>m i. res_mutex res' = Some m \<and> 0 < i \<and> i < 128 \<and>
       mx_address m = 0x8100000000 + 32 * of_nat i \<and> mx_depth m = 1 \<and>
       wd s' (mx_address m) = nfp_mutex_locked (bus_interface B)"
proof (induction fuel arbitrary: n res dev s)
  case 0
  then show ?case by simp
next
  case (Suc fuel)
  show ?case
  proof (cases "nfp_resource_try_acquire B crc (qe_attempt env n) res dev s")
    case (Done x)
    obtain e res1 dev1 s1 where x: "x = ((e, res1, dev1), s1)" by (metis prod.exhaust)
    note t = try_acquire_locks [OF Done [unfolded x] Suc.prems(2,3)]
    show ?thesis
    proof (cases "e = 0")
      case True
      with Suc.prems(1) Done x have "res' = res1 \<and> s' = s1" by simp
      with t True show ?thesis by simp
    next
      case False
      with Suc.prems(1) Done x have "acquire_loop B crc env (Suc n) fuel res1 dev1 s1 = Done (Inr res', s')"
        by (simp split: if_split_asm)
      from Suc.IH [OF this] t show ?thesis by simp
    qed
  qed (use Suc.prems(1) in simp_all)
qed

text \<open>
  Claim C27. On a memory unit with an atomic engine, a resource that \<open>nfp_resource_acquire\<close>
  returns is locked by this host: its handle has depth 1, its lock word carries the host's
  id, and it is an entry of the table other than entry 0, the device lock itself.
\<close>

theorem resource_acquire_locks:
  assumes "mu_engine B wd"
    and "nfp_resource_acquire B crc env fuel name s = Done (Inr res, s')"
  shows "\<exists>m i. res_mutex res = Some m \<and> 0 < i \<and> i < 128 \<and>
    mx_address m = 0x8100000000 + 32 * of_nat i \<and> mx_depth m = 1 \<and>
    wd s' (mx_address m) = nfp_mutex_locked (bus_interface B)"
proof -
  obtain r s1 where al: "nfp_cpp_mutex_alloc B (qe_dev_mem env) 7 0x8100000000 0 s = (r, s1)"
    by (metis prod.exhaust)
  note run = assms(2) [unfolded nfp_resource_acquire_def Let_def al prod.case]
  obtain dev where dev: "r = Some dev"
    using run by (cases "qe_mem env"; cases r) simp_all
  have holds: "holds_ok B wd dev s1" "mx_address dev = 0x8100000000"
    using alloc_shape [OF al dev] assms(1) by (simp_all add: holds_ok_def mutex_at_def)
  have "acquire_loop B crc env 0 fuel \<lparr>res_name = strncpy8 name @ [0], res_cpp_id = 0, res_addr = 0,
      res_size = 0, res_mutex = None\<rparr> dev s1 = Done (Inr res, s')"
    using run dev by (cases "qe_mem env") simp_all
  from acquire_loop_locks [OF this holds] show ?thesis .
qed

text \<open>
  When the allocation of the handle fails for an entry the search has found,
  \<open>nfp_cpp_resource_find\<close> still returns 0 and \<open>nfp_resource_try_acquire\<close> passes the NULL
  handle to \<open>nfp_cpp_mutex_trylock\<close>.
\<close>

theorem try_acquire_null_mutex:
  assumes "nfp_cpp_mutex_lock B (ae_wait env) 0 (ae_fuel env) dev s = Some ((0, dev1), s1)"
    and "nfp_cpp_resource_find B crc (ae_mem env) res s1 = ((0, res1), s2)"
    and "\<not> ae_mem env"
  shows "nfp_resource_try_acquire B crc env res dev s = NullDeref"
proof -
  have alloc: "fst (nfp_cpp_mutex_alloc B False t a k x) = None" for t a k x
    by (simp add: nfp_cpp_mutex_alloc_def Let_def split: prod.splits)
  have "resource_scan B False key is r x = ((0, res1), s2) \<Longrightarrow> res_mutex res1 = None" for key "is" r x
  proof (induction "is" arbitrary: x)
    case (Cons i "is")
    then show ?case using alloc
      by (auto simp: Let_def split: prod.splits if_splits) (metis fst_conv)
  qed simp
  with assms(2,3) have "res_mutex res1 = None"
    by (auto simp: nfp_cpp_resource_find_def Let_def split: if_splits)
  with assms show ?thesis by (simp add: nfp_resource_try_acquire_def)
qed

section \<open>The table search as a lookup\<close>

lemma resource_scan_lookup:
  assumes ro: "\<forall>i\<in>set is. bus_read B (NFP_CPP_ID 7 3 0) (0x8100000000 + 32 * of_nat i) 32 s =
      ((32, bytes i), s)"
  shows "resource_scan B mem key is res s =
    (case find_index (\<lambda>i. re_key (resource_entry_of (bytes i)) = key) is of
       None \<Rightarrow> ((- ENOENT, res), s)
     | Some j \<Rightarrow> (let i = is ! j; entry = resource_entry_of (bytes i);
           r = nfp_cpp_mutex_alloc B mem 7 (0x8100000000 + 32 * of_nat i) key s
         in ((0, res\<lparr>res_mutex := fst r,
               res_cpp_id := NFP_CPP_ID (ucast (re_cpp_target entry))
                 (ucast (re_cpp_action entry)) (ucast (re_cpp_token entry)),
               res_addr := push_bit 8 (ucast (re_page_offset entry)),
               res_size := push_bit 8 (ucast (re_page_size entry))\<rparr>), snd r)))"
  using ro
proof (induction "is")
  case Nil
  then show ?case by simp
next
  case (Cons i "is")
  show ?case
  proof (cases "re_key (resource_entry_of (bytes i)) = key")
    case True
    with Cons.prems show ?thesis by (simp add: Let_def split: prod.splits)
  next
    case False
    with Cons show ?thesis
      by (simp add: Let_def find_index_from_Suc split: option.splits)
  qed
qed

text \<open>
  On a table that reads reliably, \<open>nfp_cpp_resource_find\<close> is a lookup of the first
  entry whose key is the CRC of the zero-padded name: it refuses the name of the table
  itself, returns \<open>-ENOENT\<close> when no entry matches, and otherwise fills the handle from that
  entry, with the region's address and size in bytes.
\<close>

theorem resource_find_lookup:
  assumes ro: "\<forall>i<128. bus_read B (NFP_CPP_ID 7 3 0) (0x8100000000 + 32 * of_nat i) 32 s =
      ((32, bytes i), s)"
  shows "nfp_cpp_resource_find B crc mem res s =
    (let key = crc32_posix crc (strncpy8 (res_name res)) in
     if strncpy8 (res_name res) = nfp_resource_tbl_name then ((- EOPNOTSUPP, res), s)
     else case find_index (\<lambda>i. re_key (resource_entry_of (bytes i)) = key) [0..<128] of
       None \<Rightarrow> ((- ENOENT, res), s)
     | Some i \<Rightarrow> (let entry = resource_entry_of (bytes i);
           r = nfp_cpp_mutex_alloc B mem 7 (0x8100000000 + 32 * of_nat i) key s
         in ((0, res\<lparr>res_mutex := fst r,
               res_cpp_id := NFP_CPP_ID (ucast (re_cpp_target entry))
                 (ucast (re_cpp_action entry)) (ucast (re_cpp_token entry)),
               res_addr := push_bit 8 (ucast (re_page_offset entry)),
               res_size := push_bit 8 (ucast (re_page_size entry))\<rparr>), snd r)))"
proof -
  have ro': "\<forall>i\<in>set [0..<128]. bus_read B (NFP_CPP_ID 7 3 0) (0x8100000000 + 32 * of_nat i) 32 s =
      ((32, bytes i), s)" using ro by simp
  show ?thesis
    unfolding nfp_cpp_resource_find_def resource_scan_lookup [OF ro'] Let_def
    by (auto split: option.split dest!: find_index_Some)
qed

section \<open>The waiting loops end\<close>

text \<open>The clock advances at every sleep, and the device lock is waited for with enough fuel.\<close>

definition attempt_clock_ok :: "attempt_env \<Rightarrow> bool" where
  "attempt_clock_ok env \<longleftrightarrow> (\<forall>k. k < we_now (ae_wait env) k) \<and> 60 * we_hz (ae_wait env) < ae_fuel env"

lemma try_acquire_returns:
  assumes "attempt_clock_ok env"
  shows "nfp_resource_try_acquire B crc env res dev s \<noteq> OutOfFuel"
proof -
  have "nfp_cpp_mutex_lock B (ae_wait env) 0 (ae_fuel env) dev s \<noteq> None"
    using assms by (intro lock_terminates_from) (auto simp: attempt_clock_ok_def)
  then show ?thesis
    by (auto simp: nfp_resource_try_acquire_def split: option.split prod.split)
qed

definition acquire_clock_ok :: "acquire_env \<Rightarrow> bool" where
  "acquire_clock_ok env \<longleftrightarrow> (\<forall>n. n < qe_now env n) \<and> (\<forall>n. attempt_clock_ok (qe_attempt env n))"

lemma acquire_loop_returns:
  assumes "acquire_clock_ok env"
  shows "60 * qe_hz env < n + fuel \<Longrightarrow> 0 < fuel \<Longrightarrow> acquire_loop B crc env n fuel res dev s \<noteq> OutOfFuel"
proof (induction fuel arbitrary: n res dev s)
  case 0
  then show ?case by simp
next
  case (Suc fuel)
  have now: "n < qe_now env n" and ok: "attempt_clock_ok (qe_attempt env n)"
    using assms by (simp_all add: acquire_clock_ok_def)
  show ?case
  proof (cases "nfp_resource_try_acquire B crc (qe_attempt env n) res dev s")
    case (Done x)
    obtain e res1 dev1 s1 where x: "x = ((e, res1, dev1), s1)" by (metis prod.exhaust)
    show ?thesis
    proof (cases "60 * qe_hz env \<le> qe_now env n")
      case True
      with Done x show ?thesis by simp
    next
      case False
      with now Suc.prems have "60 * qe_hz env < Suc n + fuel" "0 < fuel" by linarith+
      from Suc.IH [OF this] Done x show ?thesis by simp
    qed
  qed (use try_acquire_returns [OF ok, of B crc res dev s] in auto)
qed

lemma acquire_returns:
  assumes "acquire_clock_ok env" and "60 * qe_hz env < fuel"
  shows "nfp_resource_acquire B crc env fuel name s \<noteq> OutOfFuel"
proof -
  have "acquire_loop B crc env 0 fuel res dev x \<noteq> OutOfFuel" for res dev x
    using acquire_loop_returns [OF assms(1), of 0 fuel B crc res dev x] assms(2) by simp
  then show ?thesis
    by (auto simp: nfp_resource_acquire_def Let_def split: prod.split option.split)
qed

text \<open>
  \<open>nfp_resource_wait\<close> returns within the time it is given: with every sleep
  advancing the clock by a tick, after at most \<open>secs * HZ + 1\<close> rounds of acquiring, whatever
  the bus answers. (The fuel of the inner loops is that of 60 seconds of ticks.)
\<close>

theorem resource_wait_returns:
  assumes "\<forall>n. n < ws_now env n" and "\<forall>n. acquire_clock_ok (ws_acquire env n)"
    and "\<forall>n. 60 * qe_hz (ws_acquire env n) < afuel"
  shows "nfp_resource_wait B crc env afuel 0 (Suc (secs * ws_hz env)) name secs s \<noteq> OutOfFuel"
proof -
  have "secs * ws_hz env < n + fuel \<Longrightarrow> 0 < fuel \<Longrightarrow>
      nfp_resource_wait B crc env afuel n fuel name secs s \<noteq> OutOfFuel" for n fuel s
  proof (induction fuel arbitrary: n s)
    case 0
    then show ?case by simp
  next
    case (Suc fuel)
    have now: "n < ws_now env n" using assms(1) by simp
    have acq: "nfp_resource_acquire B crc (ws_acquire env n) afuel name s \<noteq> OutOfFuel"
      using assms(2,3) by (intro acquire_returns) simp_all
    have rel: "nfp_resource_release B r x \<noteq> OutOfFuel" for r x
      by (simp add: nfp_resource_release_def split: option.split)
    have next': "secs * ws_hz env \<le> ws_now env n \<or>
        nfp_resource_wait B crc env afuel (Suc n) fuel name secs x \<noteq> OutOfFuel" for x
      using Suc.IH [of "Suc n" x] Suc.prems now by linarith
    show ?case
      using acq rel next' by (auto split: run.split sum.split prod.split)
  qed
  from this [of 0 "Suc (secs * ws_hz env)"] show ?thesis by (simp del: nfp_resource_wait.simps)
qed

section \<open>Evaluations\<close>

text \<open>A device whose entry 1 carries the key \<open>0xffffffff\<close>, and a CRC that is always 0.\<close>

definition sample_table :: "u64 \<Rightarrow> u32" where
  "sample_table = (\<lambda>_. 0)(0x8100000024 := 0xffffffff, 0x8100000038 := 3)"

abbreviation (input) zero_crc :: "u32 \<Rightarrow> u8 list \<Rightarrow> u32" where "zero_crc \<equiv> \<lambda>_ _. 0"

definition sample_wait :: wait_env where
  "sample_wait = \<lparr>we_sleep = \<lambda>_. 0, we_now = Suc, we_hz = 1\<rparr>"

definition sample_attempt :: "bool \<Rightarrow> attempt_env" where
  "sample_attempt mem = \<lparr>ae_wait = sample_wait, ae_fuel = 61, ae_mem = mem\<rparr>"

definition sample_acquire :: acquire_env where
  "sample_acquire = \<lparr>qe_attempt = \<lambda>_. sample_attempt True, qe_sleep = \<lambda>_. 0, qe_now = Suc,
     qe_hz = 1, qe_mem = True, qe_dev_mem = True\<rparr>"

lemma crc_zero [simp]: "crc32_posix zero_crc bs = 0xffffffff"
proof -
  have "crc32_posix_end zero_crc 0 n = 0xffffffff" for n
    by (induction "zero_crc" "0 :: u32" n rule: crc32_posix_end.induct)
      (simp add: crc32_posix_end.simps)
  then show ?thesis by (simp add: crc32_posix_def)
qed

lemma resource_find_lookup_witness:
  "fst (fst (nfp_cpp_resource_find (ram_bus 0x1001) zero_crc True
      \<lparr>res_name = [97], res_cpp_id = 0, res_addr = 0, res_size = 0, res_mutex = None\<rparr> (\<lambda>_. 0)))
   = - ENOENT"
proof -
  let ?bytes = "\<lambda>i. snd (fst (bus_read (ram_bus 0x1001) (NFP_CPP_ID 7 3 0)
      (0x8100000000 + 32 * of_nat i) 32 (\<lambda>_. 0)))"
  have "NFP_CPP_ID 7 3 0 \<noteq> NFP_CPP_ID 7 5 3" by (simp add: NFP_CPP_ID_def)
  then have ro: "\<forall>i<128. bus_read (ram_bus 0x1001) (NFP_CPP_ID 7 3 0) (0x8100000000 + 32 * of_nat i) 32
      (\<lambda>_. 0) = ((32, ?bytes i), \<lambda>_. 0)" by (simp add: ram_bus_def)
  have key: "re_key (resource_entry_of (?bytes i)) \<noteq> 0xffffffff" for i
  proof -
    have "?bytes i = concat (map (\<lambda>k. put_unaligned_le32 0) [0..<8])"
      by (simp add: ram_bus_def length_concat comp_def sum_list_triv)
    moreover have "re_key (resource_entry_of (concat (map (\<lambda>k. put_unaligned_le32 0) [0..<8]))) \<noteq> 0xffffffff"
      by code_simp
    ultimately show ?thesis by simp
  qed
  have none: "find_index (\<lambda>i. re_key (resource_entry_of (?bytes i)) = 0xffffffff) [0..<128] = None"
    unfolding find_index_None using key by blast
  have name: "strncpy8 [97] \<noteq> nfp_resource_tbl_name" by code_simp
  show ?thesis
    unfolding resource_find_lookup [OF ro] Let_def nfp_resource.simps crc_zero if_not_P [OF name] none
      option.case fst_conv ..
qed

lemma resource_acquire_locks_witness:
  "case nfp_resource_acquire (ram_bus 0x1001) zero_crc sample_acquire 61 [97] sample_table of
     Done (Inr res, s') \<Rightarrow> (\<exists>m i. res_mutex res = Some m \<and> 0 < i \<and> i < 128 \<and>
       mx_address m = 0x8100000000 + 32 * of_nat i \<and> mx_depth m = 1 \<and>
       id s' (mx_address m) = nfp_mutex_locked (bus_interface (ram_bus 0x1001)))
   | _ \<Rightarrow> False"
proof -
  let ?run = "nfp_resource_acquire (ram_bus 0x1001) zero_crc sample_acquire 61 [97] sample_table"
  have "case ?run of Done (Inr _, _) \<Rightarrow> True | _ \<Rightarrow> False" by code_simp
  then obtain res s' where r: "?run = Done (Inr res, s')"
    by (auto split: run.split_asm sum.split_asm)
  from resource_acquire_locks [OF mu_engine_ram this] show ?thesis unfolding r by simp
qed

lemma try_acquire_gives_device_lock_back_witness:
  "case nfp_resource_try_acquire (ram_bus 0x1001) zero_crc (sample_attempt True)
      \<lparr>res_name = [97], res_cpp_id = 0, res_addr = 0, res_size = 0, res_mutex = None\<rparr>
      \<lparr>mx_target = 7, mx_depth = 0, mx_address = 0x8100000000, mx_key = 0\<rparr> sample_table of
     Done ((e, res', dev'), s') \<Rightarrow> mx_depth dev' \<le> 1
   | _ \<Rightarrow> False"
proof -
  let ?dev = "\<lparr>mx_target = 7, mx_depth = 0, mx_address = 0x8100000000, mx_key = 0\<rparr>"
  let ?run = "nfp_resource_try_acquire (ram_bus 0x1001) zero_crc (sample_attempt True)
      \<lparr>res_name = [97], res_cpp_id = 0, res_addr = 0, res_size = 0, res_mutex = None\<rparr> ?dev sample_table"
  have "case ?run of Done _ \<Rightarrow> True | _ \<Rightarrow> False" by code_simp
  then obtain e res' dev' s' where r: "?run = Done ((e, res', dev'), s')"
    by (auto split: run.split_asm)
  from try_acquire_gives_device_lock_back [OF r] have "unat (mx_depth dev') \<le> 1"
    by (auto split: if_splits)
  then show ?thesis unfolding r by (simp add: word_le_nat_alt)
qed

lemma try_acquire_null_mutex_witness:
  "nfp_resource_try_acquire (ram_bus 0x1001) zero_crc (sample_attempt False)
      \<lparr>res_name = [97], res_cpp_id = 0, res_addr = 0, res_size = 0, res_mutex = None\<rparr>
      \<lparr>mx_target = 7, mx_depth = 0, mx_address = 0x8100000000, mx_key = 0\<rparr> sample_table = NullDeref"
proof -
  let ?B = "ram_bus 0x1001" and ?res = "\<lparr>res_name = [97], res_cpp_id = 0, res_addr = 0, res_size = 0, res_mutex = None\<rparr>"
  let ?dev = "\<lparr>mx_target = 7, mx_depth = 0, mx_address = 0x8100000000, mx_key = 0\<rparr>"
  let ?env = "sample_attempt False"
  have "case nfp_cpp_mutex_lock ?B (ae_wait ?env) 0 (ae_fuel ?env) ?dev sample_table of
      Some ((le, dev1), s1) \<Rightarrow> le = 0 \<and> fst (fst (nfp_cpp_resource_find ?B zero_crc (ae_mem ?env) ?res s1)) = 0
    | None \<Rightarrow> False" by code_simp
  then obtain dev1 s1 res1 s2 where
    "nfp_cpp_mutex_lock ?B (ae_wait ?env) 0 (ae_fuel ?env) ?dev sample_table = Some ((0, dev1), s1)"
    "nfp_cpp_resource_find ?B zero_crc (ae_mem ?env) ?res s1 = ((0, res1), s2)"
    by (auto split: option.split_asm) (metis fst_conv prod.exhaust)
  from try_acquire_null_mutex [OF this] show ?thesis by (simp add: sample_attempt_def)
qed

lemma resource_wait_returns_witness:
  "nfp_resource_wait (ram_bus 0x1001) zero_crc
     \<lparr>ws_acquire = \<lambda>_. sample_acquire, ws_sleep = \<lambda>_. 0, ws_now = Suc, ws_hz = 1\<rparr> 61 0 6 [98] 5 sample_table
   \<noteq> OutOfFuel"
  using resource_wait_returns [of "\<lparr>ws_acquire = \<lambda>_. sample_acquire, ws_sleep = \<lambda>_. 0, ws_now = Suc, ws_hz = 1\<rparr>"
      61 "ram_bus 0x1001" zero_crc 5 "[98]" sample_table]
  by (simp add: acquire_clock_ok_def attempt_clock_ok_def sample_acquire_def sample_attempt_def
      sample_wait_def del: nfp_resource_wait.simps)

end
