(* ===== verification/Nfp_Hwinfo.thy ===== *)
theory Nfp_Hwinfo
  imports Nfp_Resource
begin

text \<open>
  The hardware info table of \<open>nfpcore/nfp_hwinfo.c\<close>: fetching it from the device, checking
  it, and looking names up in it. The table is the buffer of bytes the driver allocates
  (\<open>cpp_size + 1\<close> bytes, the last a NUL); pointers into it are offsets. A function of type
  \<open>'a option\<close> over the buffer returns \<open>None\<close> when the C code reads outside the buffer.
\<close>

section \<open>C strings in a buffer\<close>

text \<open>\<open>*p\<close> and \<open>strlen(p)\<close> at an offset; \<open>None\<close> is a read beyond the buffer.\<close>

definition peek :: "u8 list \<Rightarrow> nat \<Rightarrow> u8 option" where
  "peek db p = (if p < length db then Some (db ! p) else None)"

definition strlen_at :: "u8 list \<Rightarrow> nat \<Rightarrow> nat option" where
  "strlen_at db p = find_index (\<lambda>c. c = 0) (drop p db)"

definition string_at :: "u8 list \<Rightarrow> nat \<Rightarrow> u8 list" where
  "string_at db p = takeWhile (\<lambda>c. c \<noteq> 0) (drop p db)"

lemma strlen_at_bound: "strlen_at db p = Some n \<Longrightarrow> p + n < length db"
  unfolding strlen_at_def by (drule find_index_Some) auto

section \<open>The table\<close>

abbreviation (input) HWINFO_SIZE_MIN :: nat where "HWINFO_SIZE_MIN \<equiv> 0x100"
abbreviation (input) NFP_HWINFO_VERSION_2 :: u32 where "NFP_HWINFO_VERSION_2 \<equiv> 0x48490200"
abbreviation (input) hwinfo_data :: nat where "hwinfo_data \<equiv> 16"

definition hwinfo_version :: "u8 list \<Rightarrow> u32" where
  "hwinfo_version db = get_unaligned_le32 db"

definition hwinfo_size :: "u8 list \<Rightarrow> u32" where
  "hwinfo_size db = get_unaligned_le32 (drop 4 db)"

definition nfp_hwinfo_is_updating :: "u8 list \<Rightarrow> bool" where
  "nfp_hwinfo_is_updating db \<longleftrightarrow> hwinfo_version db AND 1 \<noteq> 0"

text \<open>The loop of \<open>hwinfo_db_walk\<close>, from the key at offset \<open>key\<close>.\<close>

function hwinfo_walk_from :: "u8 list \<Rightarrow> nat \<Rightarrow> nat \<Rightarrow> int option" where
  "hwinfo_walk_from db endp key =
     (case peek db key of
        None \<Rightarrow> None
      | Some c \<Rightarrow>
        if c = 0 \<or> \<not> key < endp then Some 0
        else case strlen_at db key of
          None \<Rightarrow> None
        | Some kl \<Rightarrow>
          let val = key + kl + 1 in
          if endp \<le> val then Some (- EINVAL)
          else case strlen_at db val of
            None \<Rightarrow> None
          | Some vl \<Rightarrow>
            if endp < val + vl + 1 then Some (- EINVAL)
            else hwinfo_walk_from db endp (val + vl + 1))"
  by pat_completeness auto
termination
  by (relation "measure (\<lambda>(db, _, key). length db - key)") (auto dest!: strlen_at_bound)

definition hwinfo_db_walk :: "u8 list \<Rightarrow> u32 \<Rightarrow> int option" where
  "hwinfo_db_walk db sz = hwinfo_walk_from db (hwinfo_data + unat sz) hwinfo_data"

definition hwinfo_db_validate :: "(u32 \<Rightarrow> u8 list \<Rightarrow> u32) \<Rightarrow> u8 list \<Rightarrow> u32 \<Rightarrow> int option" where
  "hwinfo_db_validate crc32_be db len =
     (if length db < hwinfo_data then None
      else if hwinfo_size db > len then Some (- EINVAL)
      else let sz = hwinfo_size db - 4 in
        if length db < unat sz + 4 then None
        else if crc32_posix crc32_be (take (unat sz) db) \<noteq> get_unaligned_le32 (drop (unat sz) db)
        then Some (- EINVAL)
        else hwinfo_db_walk db sz)"

text \<open>
  The loop of \<open>nfp_hwinfo_lookup\<close>. The result is the offset of the value, or NULL
  (\<open>Some None\<close>). \<open>endp\<close> is \<open>data + size - sizeof(u32)\<close>.
\<close>

function hwinfo_lookup_from :: "u8 list \<Rightarrow> int \<Rightarrow> u8 list \<Rightarrow> nat \<Rightarrow> nat option option" where
  "hwinfo_lookup_from db endp name key =
     (case peek db key of
        None \<Rightarrow> None
      | Some c \<Rightarrow>
        if c = 0 \<or> \<not> int key < endp then Some None
        else case strlen_at db key of
          None \<Rightarrow> None
        | Some kl \<Rightarrow>
          let val = key + kl + 1 in
          if string_at db key = name then Some (Some val)
          else case strlen_at db val of
            None \<Rightarrow> None
          | Some vl \<Rightarrow> hwinfo_lookup_from db endp name (val + vl + 1))"
  by pat_completeness auto
termination
  by (relation "measure (\<lambda>(db, _, _, key). length db - key)") (auto dest!: strlen_at_bound)

declare hwinfo_walk_from.simps [simp del]
declare hwinfo_lookup_from.simps [simp del]

text \<open>Both arguments may be NULL.\<close>

definition nfp_hwinfo_lookup :: "u8 list option \<Rightarrow> u8 list option \<Rightarrow> nat option option" where
  "nfp_hwinfo_lookup hwinfo lookup =
     (case (hwinfo, lookup) of
        (Some db, Some name) \<Rightarrow>
          if length db < hwinfo_data then None
          else hwinfo_lookup_from db (int hwinfo_data + int (unat (hwinfo_size db)) - 4) name hwinfo_data
      | _ \<Rightarrow> Some None)"

section \<open>Fetching the table\<close>

definition NFP_RESOURCE_NFP_HWINFO :: "u8 list" where
  "NFP_RESOURCE_NFP_HWINFO = [110, 102, 112, 46, 105, 110, 102, 111]"

record fetch_env =
  fe_acquire :: acquire_env
  fe_fuel :: nat
  fe_mem :: bool

text \<open>\<open>None\<close> in the result is NULL. The size is reported only along with a table.\<close>

definition hwinfo_try_fetch ::
  "'s cpp_bus \<Rightarrow> (u32 \<Rightarrow> u8 list \<Rightarrow> u32) \<Rightarrow> fetch_env \<Rightarrow> 's \<Rightarrow> ((u8 list \<times> nat) option \<times> 's) run" where
  "hwinfo_try_fetch B crc32_be env s =
     (let read_table = (\<lambda>cpp_id cpp_addr cpp_size s.
        if \<not> fe_mem env then Done (None, s)
        else case bus_read B cpp_id cpp_addr cpp_size s of ((err, bs), s) \<Rightarrow>
          if err \<noteq> int cpp_size then Done (None, s)
          else if nfp_hwinfo_is_updating bs then Done (None, s)
          else if hwinfo_version bs \<noteq> NFP_HWINFO_VERSION_2 then Done (None, s)
          else Done (Some (bs @ [0], cpp_size), s))
      in case nfp_resource_acquire B crc32_be (fe_acquire env) (fe_fuel env) NFP_RESOURCE_NFP_HWINFO s of
           NullDeref \<Rightarrow> NullDeref
         | OutOfFuel \<Rightarrow> OutOfFuel
         | Done (Inr res, s) \<Rightarrow>
             (case nfp_resource_release B res s of
                NullDeref \<Rightarrow> NullDeref
              | OutOfFuel \<Rightarrow> OutOfFuel
              | Done s \<Rightarrow>
                let cpp_size = unat (res_size res) in
                if cpp_size < HWINFO_SIZE_MIN then Done (None, s)
                else read_table (res_cpp_id res) (res_addr res) cpp_size s)
         | Done (Inl e, s) \<Rightarrow>
             if e = - ENOENT
             then read_table (NFP_CPP_ISLAND_ID 7 NFP_CPP_ACTION_RW 0 1) 0x30000 0xe000 s
             else Done (None, s))"

text \<open>
  The retry loop of \<open>hwinfo_fetch\<close>; \<open>start n\<close> is the clock at the beginning of round \<open>n\<close>,
  counted from the call, and \<open>sleep n\<close> the result of the sleep that ends it.
\<close>

fun hwinfo_fetch ::
  "'s cpp_bus \<Rightarrow> (u32 \<Rightarrow> u8 list \<Rightarrow> u32) \<Rightarrow> (nat \<Rightarrow> fetch_env) \<Rightarrow> (nat \<Rightarrow> nat) \<Rightarrow> (nat \<Rightarrow> int) \<Rightarrow> int
     \<Rightarrow> nat \<Rightarrow> nat \<Rightarrow> nat \<Rightarrow> 's \<Rightarrow> ((u8 list \<times> nat) option \<times> 's) run" where
  "hwinfo_fetch B crc32_be env start sleep hwinfo_wait hz n 0 s = OutOfFuel"
| "hwinfo_fetch B crc32_be env start sleep hwinfo_wait hz n (Suc fuel) s =
     (case hwinfo_try_fetch B crc32_be (env n) s of
        NullDeref \<Rightarrow> NullDeref
      | OutOfFuel \<Rightarrow> OutOfFuel
      | Done (Some r, s) \<Rightarrow> Done (Some r, s)
      | Done (None, s) \<Rightarrow>
          if sleep n \<noteq> 0 \<or> int (start n) > hwinfo_wait * int hz then Done (None, s)
          else hwinfo_fetch B crc32_be env start sleep hwinfo_wait hz (Suc n) fuel s)"

text \<open>\<open>nfp_hwinfo_read\<close>: \<open>None\<close> inside \<open>Done\<close> is NULL; an overrun of the checks is \<open>NullDeref\<close>.\<close>

definition nfp_hwinfo_read ::
  "'s cpp_bus \<Rightarrow> (u32 \<Rightarrow> u8 list \<Rightarrow> u32) \<Rightarrow> (nat \<Rightarrow> fetch_env) \<Rightarrow> (nat \<Rightarrow> nat) \<Rightarrow> (nat \<Rightarrow> int) \<Rightarrow> int
     \<Rightarrow> nat \<Rightarrow> nat \<Rightarrow> 's \<Rightarrow> (u8 list option \<times> 's) run" where
  "nfp_hwinfo_read B crc32_be env start sleep hwinfo_wait hz fuel s =
     (case hwinfo_fetch B crc32_be env start sleep hwinfo_wait hz 0 fuel s of
        NullDeref \<Rightarrow> NullDeref
      | OutOfFuel \<Rightarrow> OutOfFuel
      | Done (None, s) \<Rightarrow> Done (None, s)
      | Done (Some (db, hwdb_size), s) \<Rightarrow>
          (case hwinfo_db_validate crc32_be db (of_nat hwdb_size) of
             None \<Rightarrow> NullDeref
           | Some err \<Rightarrow> if err \<noteq> 0 then Done (None, s) else Done (Some db, s)))"

section \<open>Checking makes looking up safe\<close>

lemma walk_step:
  assumes "hwinfo_walk_from db endp key = Some 0" and "peek db key = Some c" "c \<noteq> 0" "key < endp"
  obtains kl vl where "strlen_at db key = Some kl" "strlen_at db (key + kl + 1) = Some vl"
    "key + kl + 1 + vl + 1 \<le> endp" "hwinfo_walk_from db endp (key + kl + 1 + vl + 1) = Some 0"
  using assms by (subst (asm) hwinfo_walk_from.simps)
    (auto simp: Let_def split: option.splits if_splits)

lemma walk_peek: "hwinfo_walk_from db endp key = Some 0 \<Longrightarrow> peek db key \<noteq> None"
  by (subst (asm) hwinfo_walk_from.simps) (auto split: option.splits)

lemma lookup_after_walk:
  "hwinfo_walk_from db endp key = Some 0 \<Longrightarrow>
     \<exists>r. hwinfo_lookup_from db (int endp) name key = Some r \<and>
       (\<forall>v. r = Some v \<longrightarrow> (\<exists>vl. strlen_at db v = Some vl \<and> v + vl < endp))"
proof (induction db endp key rule: hwinfo_walk_from.induct)
  case (1 db endp key)
  obtain c where c: "peek db key = Some c" using walk_peek [OF 1(2)] by blast
  show ?case
  proof (cases "c = 0 \<or> \<not> key < endp")
    case True
    with c show ?thesis by (subst hwinfo_lookup_from.simps) auto
  next
    case False
    with walk_step [OF 1(2) c] obtain kl vl where s: "strlen_at db key = Some kl"
      "strlen_at db (key + kl + 1) = Some vl" "key + kl + 1 + vl + 1 \<le> endp"
      "hwinfo_walk_from db endp (key + kl + 1 + vl + 1) = Some 0" by auto
    have "\<not> endp \<le> key + kl + 1" "\<not> endp < key + kl + 1 + vl + 1" using s(3) by simp_all
    from 1(1) [OF c False s(1) refl this(1) s(2) this(2) s(4)] s c False show ?thesis
      by (subst hwinfo_lookup_from.simps) (auto simp: Let_def)
  qed
qed

section \<open>When the check itself stays inside the buffer\<close>

lemma strlen_at_last:
  assumes "p < length db" and "last db = 0"
  shows "strlen_at db p \<noteq> None"
proof -
  from assms have "last (drop p db) = 0" "drop p db \<noteq> []" by (simp_all add: last_drop)
  then have "0 \<in> set (drop p db)" by (metis last_in_set)
  then show ?thesis by (auto simp: strlen_at_def find_index_None)
qed

lemma walk_in_bounds:
  "key \<le> endp \<Longrightarrow> endp < length db \<Longrightarrow> last db = 0 \<Longrightarrow> hwinfo_walk_from db endp key \<noteq> None"
proof (induction db endp key rule: hwinfo_walk_from.induct)
  case (1 db endp key)
  have p: "peek db key = Some (db ! key)" using 1(2,3) by (simp add: peek_def)
  obtain kl where kl: "strlen_at db key = Some kl"
    using strlen_at_last [of key db] 1(2-4) by auto
  show ?case
  proof (cases "db ! key = 0 \<or> \<not> key < endp \<or> endp \<le> key + kl + 1")
    case True
    with p kl show ?thesis by (subst hwinfo_walk_from.simps) auto
  next
    case False
    then obtain vl where vl: "strlen_at db (key + kl + 1) = Some vl"
      using strlen_at_last [of "key + kl + 1" db] 1(3,4) by force
    show ?thesis
    proof (cases "endp < key + kl + 1 + vl + 1")
      case True
      with p kl vl False show ?thesis by (subst hwinfo_walk_from.simps) (simp add: Let_def)
    next
      case F: False
      have "hwinfo_walk_from db endp (key + kl + 1 + vl + 1) \<noteq> None"
        using 1(1) [OF p _ kl refl _ vl F] False F 1(3,4) by simp
      with p kl vl False F show ?thesis by (subst hwinfo_walk_from.simps) (simp add: Let_def)
    qed
  qed
qed

text \<open>
  On a fetched table of \<open>len\<close> bytes and its terminating NUL, the check
  \<open>hwinfo_db_validate\<close> stays inside the buffer when the size the table gives for itself
  leaves 12 bytes of the fetched ones unused (the end pointer of the walk counts the size
  from the data, 16 bytes into the buffer).
\<close>

lemma hwinfo_validate_in_bounds:
  assumes "length db = Suc (unat len)" and "last db = 0"
    and "4 \<le> hwinfo_size db" and "unat (hwinfo_size db) + 12 \<le> unat len"
  shows "hwinfo_db_validate crc db len \<noteq> None"
proof -
  have sz: "unat (hwinfo_size db - 4) = unat (hwinfo_size db) - 4" "4 \<le> unat (hwinfo_size db)"
    using assms(3) by (simp_all add: unat_sub word_le_nat_alt)
  have "hwinfo_walk_from db (16 + unat (hwinfo_size db - 4)) 16 \<noteq> None"
    by (rule walk_in_bounds) (use assms sz in simp_all)
  moreover have "\<not> len < hwinfo_size db" using assms(4) by (simp add: word_less_nat_alt)
  moreover have "\<not> length db < unat (hwinfo_size db - 4) + 4" "\<not> length db < 16"
    using assms(1,4) sz by linarith+
  ultimately show ?thesis
    by (simp add: hwinfo_db_validate_def hwinfo_db_walk_def Let_def)
qed

lemma hwinfo_validate_wraps:
  assumes "length db = Suc (unat len)" and "unat len < 2 ^ 32 - 1" and "unat (hwinfo_size db) < 4" and "4 \<le> unat len"
  shows "hwinfo_db_validate crc db len = None"
proof -
  have "\<not> len < hwinfo_size db" using assms(3,4) by (simp add: word_less_nat_alt)
  moreover have "unat (hwinfo_size db - 4) = unat (hwinfo_size db) + 2 ^ 32 - 4"
    using assms(3) by (simp add: unat_sub_if')
  then have "length db < unat (hwinfo_size db - 4) + 4" using assms(1,2) by linarith
  ultimately show ?thesis by (simp add: hwinfo_db_validate_def Let_def)
qed

lemma validated_lookup:
  assumes ok: "hwinfo_db_validate crc db len = Some 0" and big: "4 \<le> unat (hwinfo_size db)"
  shows "\<exists>r. nfp_hwinfo_lookup (Some db) (Some name) = Some r \<and>
    (\<forall>v. r = Some v \<longrightarrow> (\<exists>vl. strlen_at db v = Some vl \<and> v + vl < length db \<and> v + vl < 12 + unat (hwinfo_size db)))"
proof -
  have w: "hwinfo_walk_from db (16 + unat (hwinfo_size db - 4)) 16 = Some 0" and l: "16 \<le> length db"
    using ok by (auto simp: hwinfo_db_validate_def hwinfo_db_walk_def Let_def split: if_splits)
  have "unat (hwinfo_size db - 4) = unat (hwinfo_size db) - 4"
    using big by (simp add: unat_sub word_le_nat_alt)
  then have e: "16 + unat (hwinfo_size db - 4) = 12 + unat (hwinfo_size db)"
    "int 16 + int (unat (hwinfo_size db)) - 4 = int (12 + unat (hwinfo_size db))" using big by simp_all
  from lookup_after_walk [OF w [unfolded e(1)], of name] show ?thesis using l strlen_at_bound
    unfolding nfp_hwinfo_lookup_def e(2) [simplified] by fastforce
qed

text \<open>
  Without that slack the check can run off the buffer: on this table of 24 bytes
  (and the NUL the driver appends), whose size field is 24 and whose CRC matches, the walk
  takes the CRC for a key and reads its value beyond the end.
\<close>

theorem hwinfo_validate_overruns:
  "hwinfo_db_validate zero_crc
     [0, 2, 0x49, 0x48, 24, 0, 0, 0, 0, 0, 0, 0, 0, 0, 0, 0, 97, 0, 98, 0, 255, 255, 255, 255, 0] 24 = None"
proof -
  let ?db = "[0, 2, 0x49, 0x48, 24, 0, 0, 0, 0, 0, 0, 0, 0, 0, 0, 0, 97, 0, 98, 0, 255, 255, 255, 255, 0] :: u8 list"
  have "hwinfo_walk_from ?db 36 16 = None"
    by (simp add: hwinfo_walk_from.simps peek_def strlen_at_def)
  moreover have "unat (hwinfo_size ?db - 4) = 20" "hwinfo_size ?db = 24"
    "get_unaligned_le32 (drop 20 ?db) = 0xffffffff" by code_simp+
  ultimately show ?thesis
    by (simp add: hwinfo_db_validate_def hwinfo_db_walk_def Let_def)
qed

text \<open>A small accepted table: \<open>a\<close> is \<open>b\<close>.\<close>

definition sample_hwinfo :: "u8 list" where
  "sample_hwinfo = [0, 2, 0x49, 0x48, 25, 0, 0, 0, 0, 0, 0, 0, 0, 0, 0, 0,
     97, 0, 98, 0, 0, 255, 255, 255, 255, 0]"

text \<open>
  Claim C29. Checking and looking up in a fetched table: a buffer of \<open>len\<close> bytes, at least the header, and the NUL
  the driver appends, with any contents. A table that gives itself a size above \<open>len\<close> is refused. With a size from 4 to
  \<open>len - 12\<close> the check never reads outside the buffer, whatever the bytes are. With a size below 4 it always does (the
  size of the checksummed part wraps around), and in the last 12 bytes below \<open>len\<close> it can (the walk counts its end from the
  data, 16 bytes into the buffer: \<open>hwinfo_validate_overruns\<close>). In every table the check accepts, looking any name up
  stays inside the buffer, and a value it returns is a string that ends before the end the walk was given.
\<close>

theorem hwinfo_lookup_safe:
  assumes "length db = Suc (unat len)" and "last db = 0" and "16 \<le> unat len" and "unat len < 2 ^ 32 - 1"
  shows "(unat len < unat (hwinfo_size db) \<longrightarrow> hwinfo_db_validate crc db len = Some (- EINVAL)) \<and>
    (4 \<le> unat (hwinfo_size db) \<and> unat (hwinfo_size db) + 12 \<le> unat len \<longrightarrow> hwinfo_db_validate crc db len \<noteq> None) \<and>
    (unat (hwinfo_size db) < 4 \<longrightarrow> hwinfo_db_validate crc db len = None) \<and>
    (hwinfo_db_validate crc db len = Some 0 \<longrightarrow>
      (\<exists>r. nfp_hwinfo_lookup (Some db) (Some name) = Some r \<and>
        (\<forall>v. r = Some v \<longrightarrow> (\<exists>vl. strlen_at db v = Some vl \<and> v + vl < length db \<and> v + vl < 12 + unat (hwinfo_size db)))))"
    (is "?big \<and> ?fits \<and> ?small \<and> ?ok")
proof (intro conjI)
  show ?big using assms(1,3) by (simp add: hwinfo_db_validate_def word_less_nat_alt)
  show ?fits using hwinfo_validate_in_bounds [OF assms(1,2)] by (simp add: word_le_nat_alt)
  show small: ?small using hwinfo_validate_wraps [OF assms(1,4)] assms(3) by simp
  show ?ok
  proof
    assume ok: "hwinfo_db_validate crc db len = Some 0"
    then have "4 \<le> unat (hwinfo_size db)" using small by fastforce
    from validated_lookup [OF ok this] show "\<exists>r. nfp_hwinfo_lookup (Some db) (Some name) = Some r \<and>
        (\<forall>v. r = Some v \<longrightarrow> (\<exists>vl. strlen_at db v = Some vl \<and> v + vl < length db \<and> v + vl < 12 + unat (hwinfo_size db)))" .
  qed
qed

text \<open>On the sample in a buffer with 12 bytes to spare, the check accepts and the lookup of \<open>a\<close> finds its value.\<close>

lemma hwinfo_lookup_safe_witness:
  "let db = butlast sample_hwinfo @ replicate 13 0
   in hwinfo_db_validate zero_crc db 37 = Some 0 \<and>
      (\<exists>r. nfp_hwinfo_lookup (Some db) (Some [97]) = Some r \<and>
        (\<forall>v. r = Some v \<longrightarrow> (\<exists>vl. strlen_at db v = Some vl \<and> v + vl < length db \<and> v + vl < 37)))"
proof -
  define db where "db = butlast sample_hwinfo @ replicate 13 0"
  have f: "length db = Suc (unat (37 :: u32))" "last db = 0" "unat (hwinfo_size db) = 25"
    "unat (hwinfo_size db - 4) = 21" "get_unaligned_le32 (drop 21 db) = 0xffffffff" "take 21 db \<noteq> []" "hwinfo_size db = 25"
    unfolding db_def by code_simp+
  have "hwinfo_walk_from db 37 16 = Some 0"
    by (simp add: hwinfo_walk_from.simps peek_def strlen_at_def sample_hwinfo_def db_def)
  then have v: "hwinfo_db_validate zero_crc db 37 = Some 0"
    using f by (simp add: hwinfo_db_validate_def hwinfo_db_walk_def Let_def)
  show ?thesis unfolding db_def [symmetric] Let_def
    using hwinfo_lookup_safe [OF f(1,2), of zero_crc "[97]"] v f(3) by simp
qed

section \<open>The packed table\<close>

text \<open>The packing the header comment gives: \<open>key\0value\0key\0value\0\<close>, then an empty key.\<close>

definition hwinfo_encode :: "(u8 list \<times> u8 list) list \<Rightarrow> u8 list" where
  "hwinfo_encode kvs = concat (map (\<lambda>(k, v). k @ 0 # v @ [0]) kvs)"

definition hwinfo_pairs_ok :: "(u8 list \<times> u8 list) list \<Rightarrow> bool" where
  "hwinfo_pairs_ok kvs \<longleftrightarrow> (\<forall>(k, v) \<in> set kvs. k \<noteq> [] \<and> 0 \<notin> set k \<and> 0 \<notin> set v)"

lemma find_index_append_zero: "0 \<notin> set s \<Longrightarrow> find_index_from i (\<lambda>c. c = (0 :: u8)) (s @ 0 # t) = Some (i + length s)"
  by (induction s arbitrary: i) auto

lemma strlen_at_append: "0 \<notin> set s \<Longrightarrow> strlen_at (pre @ s @ 0 # t) (length pre) = Some (length s)"
  by (simp add: strlen_at_def find_index_append_zero)

lemma string_at_append: "0 \<notin> set s \<Longrightarrow> string_at (pre @ s @ 0 # t) (length pre) = s"
  by (simp add: string_at_def, subst takeWhile_append2) auto

lemma encoded_table:
  "hwinfo_pairs_ok kvs \<Longrightarrow> length pre + length (hwinfo_encode kvs) \<le> endp \<Longrightarrow>
     db = pre @ hwinfo_encode kvs @ 0 # rest \<Longrightarrow>
     hwinfo_walk_from db endp (length pre) = Some 0 \<and>
     (\<exists>r. hwinfo_lookup_from db (int endp) name (length pre) = Some r \<and>
        map_option (string_at db) r = map_of kvs name)"
proof (induction kvs arbitrary: pre)
  case Nil
  have "peek db (length pre) = Some 0" using Nil by (simp add: peek_def hwinfo_encode_def)
  then show ?case
    by (subst hwinfo_walk_from.simps, subst hwinfo_lookup_from.simps) simp
next
  case (Cons kv kvs)
  obtain k v where kv: "kv = (k, v)" by force
  let ?pre' = "pre @ k @ 0 # v @ [0]" and ?t = "v @ 0 # hwinfo_encode kvs @ 0 # rest"
  from Cons.prems(1) kv have k: "k \<noteq> []" "0 \<notin> set k" and v: "0 \<notin> set v" and ok: "hwinfo_pairs_ok kvs"
    by (auto simp: hwinfo_pairs_ok_def)
  have db: "db = pre @ k @ 0 # ?t" "db = (pre @ k @ [0]) @ v @ 0 # hwinfo_encode kvs @ 0 # rest"
    "db = ?pre' @ hwinfo_encode kvs @ 0 # rest"
    using Cons.prems(3) kv by (simp_all add: hwinfo_encode_def)
  have len: "length ?pre' + length (hwinfo_encode kvs) \<le> endp"
    using Cons.prems(2) kv by (simp add: hwinfo_encode_def)
  have IH: "hwinfo_walk_from db endp (length ?pre') = Some 0"
    "\<exists>r. hwinfo_lookup_from db (int endp) name (length ?pre') = Some r \<and>
        map_option (string_at db) r = map_of kvs name"
    using Cons.IH [OF ok len db(3)] by blast+
  have p: "peek db (length pre) = Some (hd k)" using k db(1)
    by (cases k) (simp_all add: peek_def)
  have hd: "hd k \<noteq> 0" using k by (metis hd_in_set)
  have sk: "strlen_at db (length pre) = Some (length k)" "string_at db (length pre) = k"
    using db(1) strlen_at_append [OF k(2)] string_at_append [OF k(2)] by simp_all
  have sv: "strlen_at db (length pre + length k + 1) = Some (length v)"
    "string_at db (length pre + length k + 1) = v"
    using db(2) strlen_at_append [OF v, of "pre @ k @ [0]"] string_at_append [OF v, of "pre @ k @ [0]"]
    by simp_all
  have pos: "length ?pre' = length pre + length k + 1 + length v + 1" by simp
  have "hwinfo_walk_from db endp (length pre) = Some 0"
    using p hd sk sv IH(1) [unfolded pos] len
    by (subst hwinfo_walk_from.simps) (simp add: Let_def)
  moreover have "\<exists>r. hwinfo_lookup_from db (int endp) name (length pre) = Some r \<and>
        map_option (string_at db) r = map_of (kv # kvs) name"
  proof (cases "k = name")
    case True
    with p hd sk sv len kv show ?thesis
      by (subst hwinfo_lookup_from.simps) (simp add: Let_def)
  next
    case False
    with p hd sk sv len kv IH(2) [unfolded pos] show ?thesis
      by (subst hwinfo_lookup_from.simps) (simp add: Let_def)
  qed
  ultimately show ?case by blast
qed

text \<open>
  Claim C30. Round trip: in a table that packs the pairs \<open>kvs\<close> (keys not empty, no NUL inside)
  followed by an empty key, the check of the pairs succeeds and \<open>nfp_hwinfo_lookup\<close> finds
  for every name the value of its first pair, or NULL when no pair has the name.
\<close>

theorem hwinfo_roundtrip:
  assumes "hwinfo_pairs_ok kvs" and "length hdr = 16"
    and db: "db = hdr @ hwinfo_encode kvs @ 0 # rest"
    and sz: "length (hwinfo_encode kvs) + 4 \<le> unat (hwinfo_size db)"
  shows "hwinfo_db_walk db (hwinfo_size db - 4) = Some 0 \<and>
    (\<exists>r. nfp_hwinfo_lookup (Some db) (Some name) = Some r \<and>
       map_option (string_at db) r = map_of kvs name)"
proof -
  have "(4 :: u32) \<le> hwinfo_size db" using sz by (simp add: word_le_nat_alt)
  then have u: "unat (hwinfo_size db - 4) = unat (hwinfo_size db) - 4" by (simp add: unat_sub)
  have e: "int 16 + int (unat (hwinfo_size db)) - 4 = int (16 + unat (hwinfo_size db - 4))"
    using sz u by simp
  have "length hdr + length (hwinfo_encode kvs) \<le> 16 + unat (hwinfo_size db - 4)"
    using assms(2) sz u by simp
  note t = encoded_table [OF assms(1) this db, of name]
  have "\<not> length db < 16" using db assms(2) by simp
  then show ?thesis using t [unfolded assms(2)]
    by (simp add: hwinfo_db_walk_def nfp_hwinfo_lookup_def e [simplified])
qed

lemma hwinfo_roundtrip_witness:
  "\<exists>r. nfp_hwinfo_lookup (Some sample_hwinfo) (Some [97]) = Some r \<and>
     map_option (string_at sample_hwinfo) r = Some [98]"
proof -
  have "sample_hwinfo = take 16 sample_hwinfo @ hwinfo_encode [([97], [98])] @ 0 # [255, 255, 255, 255, 0]"
    by code_simp
  moreover have "hwinfo_pairs_ok [([97], [98])]" "length (take 16 sample_hwinfo) = 16"
    "length (hwinfo_encode [([97], [98])]) + 4 \<le> unat (hwinfo_size sample_hwinfo)" by code_simp+
  ultimately show ?thesis using hwinfo_roundtrip [of "[([97], [98])]" "take 16 sample_hwinfo"
      sample_hwinfo "[255, 255, 255, 255, 0]" "[97]"] by simp
qed

section \<open>Waiting for the table\<close>

text \<open>
  With \<open>hwinfo_wait = -1\<close>, which the module parameter describes as "no timeout",
  \<open>hwinfo_fetch\<close> gives up after the first round that finds no table: the deadline lies in
  the past.
\<close>

theorem hwinfo_wait_minus_one_gives_up:
  assumes "hwinfo_try_fetch B crc (env 0) s = Done (None, s')" and "0 < hz"
  shows "hwinfo_fetch B crc env start sleep (- 1) hz 0 (Suc fuel) s = Done (None, s')"
  using assms by simp

lemma hwinfo_wait_minus_one_gives_up_witness:
  "hwinfo_fetch (ram_bus 0x1001) zero_crc
     (\<lambda>_. \<lparr>fe_acquire = sample_acquire\<lparr>qe_mem := False\<rparr>, fe_fuel = 61, fe_mem = True\<rparr>)
     (\<lambda>n. n) (\<lambda>_. 0) (- 1) 100 0 1000 sample_table = Done (None, sample_table)"
  using hwinfo_wait_minus_one_gives_up [of "ram_bus 0x1001" zero_crc
      "\<lambda>_. \<lparr>fe_acquire = sample_acquire\<lparr>qe_mem := False\<rparr>, fe_fuel = 61, fe_mem = True\<rparr>"
      sample_table sample_table 100 "\<lambda>n. n" "\<lambda>_. 0" 999]
  by (simp add: hwinfo_try_fetch_def nfp_resource_acquire_def del: hwinfo_fetch.simps)

end
