(* ===== verification/Nfp_Nffw.thy ===== *)
theory Nfp_Nffw
  imports Nfp_Hwinfo
begin

text \<open>
  Finding the loaded firmware: the \<open>nfp.nffw\<close> table of \<open>nfpcore/nfp_nffw.c\<close> and the MIP
  header of \<open>nfpcore/nfp_mip.c\<close>, with the XPB access of \<open>nfpcore/nfp_cppcore.c\<close> they use.
  The table and the header are byte buffers; the accessors decode their fields.
\<close>

section \<open>XPB accesses\<close>

abbreviation (input) NFP_CPP_INTERFACE_TYPE_ARM :: u16 where "NFP_CPP_INTERFACE_TYPE_ARM \<equiv> 2"

definition nfp_xpb_to_cpp :: "'s cpp_bus \<Rightarrow> u32 \<Rightarrow> u32 \<times> u32" where
  "nfp_xpb_to_cpp B xpb_addr =
     (let xpb = NFP_CPP_ID 14 NFP_CPP_ACTION_RW 0;
          island = drop_bit 24 xpb_addr AND 0x3f
      in if island = 0 then (xpb, xpb_addr)
         else if island \<noteq> 1 then (xpb, xpb_addr OR push_bit 30 1)
         else let xpb_addr = xpb_addr AND NOT 0x7f000000 in
           if xpb_addr < 0x60000 then (xpb, xpb_addr OR push_bit 30 1)
           else if NFP_CPP_INTERFACE_TYPE_of (bus_interface B) \<noteq> NFP_CPP_INTERFACE_TYPE_ARM
           then (xpb, xpb_addr OR push_bit 24 1)
           else (xpb, xpb_addr))"

definition nfp_xpb_readl :: "'s cpp_bus \<Rightarrow> u32 \<Rightarrow> 's \<Rightarrow> (int \<times> u32) \<times> 's" where
  "nfp_xpb_readl B xpb_addr s =
     (case nfp_xpb_to_cpp B xpb_addr of (cpp_dest, xpb_addr) \<Rightarrow>
        nfp_cpp_readl B cpp_dest (ucast xpb_addr) s)"

definition nfp_xpb_writel :: "'s cpp_bus \<Rightarrow> u32 \<Rightarrow> u32 \<Rightarrow> 's \<Rightarrow> int \<times> 's" where
  "nfp_xpb_writel B xpb_addr value s =
     (case nfp_xpb_to_cpp B xpb_addr of (cpp_dest, xpb_addr) \<Rightarrow>
        nfp_cpp_writel B cpp_dest (ucast xpb_addr) value s)"

definition nfp_xpb_writelm :: "'s cpp_bus \<Rightarrow> u32 \<Rightarrow> u32 \<Rightarrow> u32 \<Rightarrow> 's \<Rightarrow> int \<times> 's" where
  "nfp_xpb_writelm B xpb_tgt msk value s =
     (case nfp_xpb_readl B xpb_tgt s of ((err, tmp), s) \<Rightarrow>
        if err < 0 then (err, s)
        else nfp_xpb_writel B xpb_tgt ((tmp AND NOT msk) OR (msk AND value)) s)"

section \<open>The firmware table\<close>

record nffw_fwinfo =
  fi_loaded__mu_da__mip_off_hi :: u32
  fi_mip_cppid :: u32
  fi_mip_offset_lo :: u32

record nfp_nffw_info =
  ni_res :: nfp_resource
  ni_fwinf :: "u8 list"

abbreviation (input) NFFW_INFO_VERSION_CURRENT :: u32 where "NFFW_INFO_VERSION_CURRENT \<equiv> 2"
abbreviation (input) nffw_info_data_size :: nat where "nffw_info_data_size \<equiv> 3208"

definition nffw_res_info_version_get :: "u8 list \<Rightarrow> u32" where
  "nffw_res_info_version_get fwinf = drop_bit 16 (get_unaligned_le32 fwinf) AND 0xfff"

definition nffw_res_flg_init_get :: "u8 list \<Rightarrow> u32" where
  "nffw_res_flg_init_get fwinf = get_unaligned_le32 fwinf AND 1"

definition nffw_fwinfo_loaded_get :: "nffw_fwinfo \<Rightarrow> u32" where
  "nffw_fwinfo_loaded_get fi = drop_bit 31 (fi_loaded__mu_da__mip_off_hi fi) AND 1"

definition nffw_fwinfo_mip_cppid_get :: "nffw_fwinfo \<Rightarrow> u32" where
  "nffw_fwinfo_mip_cppid_get fi = fi_mip_cppid fi"

definition nffw_fwinfo_mip_mu_da_get :: "nffw_fwinfo \<Rightarrow> u32" where
  "nffw_fwinfo_mip_mu_da_get fi = drop_bit 8 (fi_loaded__mu_da__mip_off_hi fi) AND 1"

definition nffw_fwinfo_mip_offset_get :: "nffw_fwinfo \<Rightarrow> u64" where
  "nffw_fwinfo_mip_offset_get fi =
     push_bit 32 (ucast (fi_loaded__mu_da__mip_off_hi fi) AND 0xFF) OR ucast (fi_mip_offset_lo fi)"

definition NFP_IMB_TGTADDRESSMODECFG_MODE_of :: "u32 \<Rightarrow> u32" where
  "NFP_IMB_TGTADDRESSMODECFG_MODE_of x = drop_bit 13 x AND 0x7"

definition nfp_mip_mu_locality_lsb :: "'s cpp_bus \<Rightarrow> 's \<Rightarrow> int \<times> 's" where
  "nfp_mip_mu_locality_lsb B s =
     (let xpbaddr = 0x000a0000 + 7 * 4 in
      case nfp_xpb_readl B xpbaddr s of ((err, imbcppat), s) \<Rightarrow>
        if err < 0 then (err, s)
        else (nfp_cppat_mu_locality_lsb (int (unat (NFP_IMB_TGTADDRESSMODECFG_MODE_of imbcppat)))
                (imbcppat AND 0x1000 \<noteq> 0), s))"

text \<open>Entry \<open>i\<close> of a \<open>fwinfo\<close> array that follows \<open>cnt\<close> 4-byte \<open>meinfo\<close> entries and the flags.\<close>

definition nffw_fwinfo_at :: "u8 list \<Rightarrow> nat \<Rightarrow> nat \<Rightarrow> nffw_fwinfo" where
  "nffw_fwinfo_at fwinf cnt i =
     (let p = 8 + 4 * cnt + 12 * i in
      \<lparr>fi_loaded__mu_da__mip_off_hi = get_unaligned_le32 (drop p fwinf),
       fi_mip_cppid = get_unaligned_le32 (drop (p + 4) fwinf),
       fi_mip_offset_lo = get_unaligned_le32 (drop (p + 8) fwinf)\<rparr>)"

definition nffw_res_fwinfos :: "u8 list \<Rightarrow> nffw_fwinfo list" where
  "nffw_res_fwinfos fwinf =
     (let v = nffw_res_info_version_get fwinf in
      if v = 0 \<or> v = 1 then map (nffw_fwinfo_at fwinf 120) [0..<120]
      else if v = 2 then map (nffw_fwinfo_at fwinf 200) [0..<200]
      else [])"

definition NFP_RESOURCE_NFP_NFFW :: "u8 list" where
  "NFP_RESOURCE_NFP_NFFW = [110, 102, 112, 46, 110, 102, 102, 119]"

text \<open>
  \<open>nfp_nffw_info_open\<close>. The C comparison \<open>err < sizeof(*fwinf)\<close> is unsigned: a negative
  \<open>err\<close> is not below the size. The buffer is what the read left in it.
\<close>

definition nfp_nffw_info_open ::
  "'s cpp_bus \<Rightarrow> (u32 \<Rightarrow> u8 list \<Rightarrow> u32) \<Rightarrow> fetch_env \<Rightarrow> 's \<Rightarrow> (nfp_nffw_info res \<times> 's) run" where
  "nfp_nffw_info_open B crc32_be env s =
     (if \<not> fe_mem env then Done (Inl (- ENOMEM), s)
      else case nfp_resource_acquire B crc32_be (fe_acquire env) (fe_fuel env) NFP_RESOURCE_NFP_NFFW s of
        NullDeref \<Rightarrow> NullDeref
      | OutOfFuel \<Rightarrow> OutOfFuel
      | Done (Inl e, s) \<Rightarrow> Done (Inl (- EIO), s)
      | Done (Inr res, s) \<Rightarrow>
        let err_release = (\<lambda>s. case nfp_resource_release B res s of
              Done s \<Rightarrow> Done (Inl (- EIO), s) | NullDeref \<Rightarrow> NullDeref | OutOfFuel \<Rightarrow> OutOfFuel)
        in if nffw_info_data_size > unat (res_size res) then err_release s
        else case bus_read B (res_cpp_id res) (res_addr res) nffw_info_data_size s of ((err, fwinf), s) \<Rightarrow>
          if 0 \<le> err \<and> err < int nffw_info_data_size then err_release s
          else if nffw_res_flg_init_get fwinf = 0 then err_release s
          else if nffw_res_info_version_get fwinf > NFFW_INFO_VERSION_CURRENT then err_release s
          else Done (Inr \<lparr>ni_res = res, ni_fwinf = fwinf\<rparr>, s))"

definition nfp_nffw_info_close :: "'s cpp_bus \<Rightarrow> nfp_nffw_info \<Rightarrow> 's \<Rightarrow> 's run" where
  "nfp_nffw_info_close B state s = nfp_resource_release B (ni_res state) s"

definition nfp_nffw_info_fwid_first :: "u8 list \<Rightarrow> nffw_fwinfo option" where
  "nfp_nffw_info_fwid_first fwinf =
     find (\<lambda>fi. nffw_fwinfo_loaded_get fi \<noteq> 0) (nffw_res_fwinfos fwinf)"

text \<open>The result is \<open>(err, cpp_id, off)\<close>; on an early error the outputs are unset (0).\<close>

definition nfp_nffw_info_mip_first ::
  "'s cpp_bus \<Rightarrow> nfp_nffw_info \<Rightarrow> 's \<Rightarrow> (int \<times> u32 \<times> u64) \<times> 's" where
  "nfp_nffw_info_mip_first B state s =
     (case nfp_nffw_info_fwid_first (ni_fwinf state) of
        None \<Rightarrow> ((- EINVAL, 0, 0), s)
      | Some fwinfo \<Rightarrow>
        let cpp_id = nffw_fwinfo_mip_cppid_get fwinfo; off = nffw_fwinfo_mip_offset_get fwinfo in
        if nffw_fwinfo_mip_mu_da_get fwinfo = 0 then ((0, cpp_id, off), s)
        else if NFP_CPP_ID_TARGET_of cpp_id \<noteq> 7 then ((0, cpp_id, off), s)
        else case nfp_mip_mu_locality_lsb B s of (locality_off, s) \<Rightarrow>
          if locality_off < 0 then ((locality_off, cpp_id, off), s)
          else let off = off AND NOT (push_bit (nat locality_off) 3);
                   off = off OR push_bit (nat locality_off) 2
            in ((0, cpp_id, off), s))"

section \<open>The MIP header\<close>

abbreviation (input) NFP_MIP_SIGNATURE :: u32 where "NFP_MIP_SIGNATURE \<equiv> 0x0050494d"
abbreviation (input) nfp_mip_size :: nat where "nfp_mip_size \<equiv> 96"

definition mip_field :: "u8 list \<Rightarrow> nat \<Rightarrow> u32" where
  "mip_field mip i = get_unaligned_le32 (drop (4 * i) mip)"

definition nfp_mip_try_read :: "'s cpp_bus \<Rightarrow> u32 \<Rightarrow> u64 \<Rightarrow> 's \<Rightarrow> u8 list res \<times> 's" where
  "nfp_mip_try_read B cpp_id addr s =
     (case bus_read B cpp_id addr nfp_mip_size s of ((ret, mip), s) \<Rightarrow>
        if ret \<noteq> int nfp_mip_size then (Inl (- EIO), s)
        else if mip_field mip 0 \<noteq> NFP_MIP_SIGNATURE then (Inl (- EINVAL), s)
        else if mip_field mip 1 \<noteq> 1 then (Inl (- EINVAL), s)
        else (Inr mip, s))"

definition nfp_mip_read_resource ::
  "'s cpp_bus \<Rightarrow> (u32 \<Rightarrow> u8 list \<Rightarrow> u32) \<Rightarrow> fetch_env \<Rightarrow> 's \<Rightarrow> (u8 list res \<times> 's) run" where
  "nfp_mip_read_resource B crc32_be env s =
     (case nfp_nffw_info_open B crc32_be env s of
        NullDeref \<Rightarrow> NullDeref
      | OutOfFuel \<Rightarrow> OutOfFuel
      | Done (Inl e, s) \<Rightarrow> Done (Inl e, s)
      | Done (Inr nffw_info, s) \<Rightarrow>
        (case nfp_nffw_info_mip_first B nffw_info s of ((err, cpp_id, addr), s) \<Rightarrow>
         case (if err \<noteq> 0 then (Inl err, s) else nfp_mip_try_read B cpp_id addr s) of (r, s) \<Rightarrow>
         case nfp_nffw_info_close B nffw_info s of
           Done s \<Rightarrow> Done (r, s) | NullDeref \<Rightarrow> NullDeref | OutOfFuel \<Rightarrow> OutOfFuel))"

text \<open>\<open>nfp_mip_open\<close>; \<open>None\<close> is NULL, \<open>mem\<close> the \<open>kmalloc\<close> of the header.\<close>

definition nfp_mip_open ::
  "'s cpp_bus \<Rightarrow> (u32 \<Rightarrow> u8 list \<Rightarrow> u32) \<Rightarrow> bool \<Rightarrow> fetch_env \<Rightarrow> 's \<Rightarrow> (u8 list option \<times> 's) run" where
  "nfp_mip_open B crc32_be mem env s =
     (if \<not> mem then Done (None, s)
      else case nfp_mip_read_resource B crc32_be env s of
        NullDeref \<Rightarrow> NullDeref
      | OutOfFuel \<Rightarrow> OutOfFuel
      | Done (Inl e, s) \<Rightarrow> Done (None, s)
      | Done (Inr mip, s) \<Rightarrow> Done (Some (mip[63 := 0]), s))"

definition nfp_mip_name :: "u8 list \<Rightarrow> u8 list" where
  "nfp_mip_name mip = string_at (take 64 mip) 48"

text \<open>\<open>(addr, size)\<close> of the symbol table and of the string table.\<close>

definition nfp_mip_symtab :: "u8 list \<Rightarrow> u32 \<times> u32" where
  "nfp_mip_symtab mip = (mip_field mip 8, mip_field mip 9)"

definition nfp_mip_strtab :: "u8 list \<Rightarrow> u32 \<times> u32" where
  "nfp_mip_strtab mip = (mip_field mip 10, mip_field mip 11)"

section \<open>Properties\<close>

lemma find_first:
  "find P xs = Some x \<longleftrightarrow> (\<exists>i < length xs. xs ! i = x \<and> P x \<and> (\<forall>j < i. \<not> P (xs ! j)))"
  by (auto simp: find_Some_iff)

text \<open>\<open>new\<close> is \<open>old\<close> with the two locality bits at \<open>l\<close> replaced by "direct" (binary 10).\<close>

definition mu_direct_at :: "nat \<Rightarrow> u64 \<Rightarrow> u64 \<Rightarrow> bool" where
  "mu_direct_at l old new \<longleftrightarrow>
     (\<forall>n < 64. bit new n \<longleftrightarrow> (if n = l then False else if n = Suc l then True else bit old n))"

lemma bit_locality_mask:
  "bit (push_bit m (3 :: u64)) n \<longleftrightarrow> n < 64 \<and> (n = m \<or> n = Suc m)"
  "bit (push_bit m (2 :: u64)) n \<longleftrightarrow> n < 64 \<and> n = Suc m"
proof -
  have e: "(3 :: u64) = mask 2" "(2 :: u64) = push_bit 1 1" by (simp_all add: mask_eq_exp_minus_1)
  show "bit (push_bit m (3 :: u64)) n \<longleftrightarrow> n < 64 \<and> (n = m \<or> n = Suc m)"
    unfolding e(1) by (auto simp: bit_push_bit_iff bit_mask_iff)
  show "bit (push_bit m (2 :: u64)) n \<longleftrightarrow> n < 64 \<and> n = Suc m"
    unfolding e(2) push_bit_push_bit bit_push_bit_iff bit_1_iff by auto
qed

text \<open>
  \<open>nfp_nffw_info_mip_first\<close> takes the first entry marked as loaded and otherwise
  refuses; for a direct-access entry in the memory unit the two locality bits of the address
  it returns say "direct" and every other bit is the entry's.
\<close>

theorem mip_first_location:
  assumes "nfp_nffw_info_mip_first B st s = ((0, cpp_id, off), s')"
  shows "\<exists>i < length (nffw_res_fwinfos (ni_fwinf st)).
    let fi = nffw_res_fwinfos (ni_fwinf st) ! i in
      nffw_fwinfo_loaded_get fi \<noteq> 0 \<and>
      (\<forall>j < i. nffw_fwinfo_loaded_get (nffw_res_fwinfos (ni_fwinf st) ! j) = 0) \<and>
      cpp_id = fi_mip_cppid fi \<and>
      (if nffw_fwinfo_mip_mu_da_get fi \<noteq> 0 \<and> NFP_CPP_ID_TARGET_of cpp_id = 7
       then \<exists>l \<in> {30, 38}. mu_direct_at l (nffw_fwinfo_mip_offset_get fi) off
       else off = nffw_fwinfo_mip_offset_get fi)"
proof -
  obtain fi where fi: "nfp_nffw_info_fwid_first (ni_fwinf st) = Some fi"
    using assms by (cases "nfp_nffw_info_fwid_first (ni_fwinf st)") (auto simp: nfp_nffw_info_mip_first_def)
  then obtain i where i: "i < length (nffw_res_fwinfos (ni_fwinf st))"
    "nffw_res_fwinfos (ni_fwinf st) ! i = fi" "nffw_fwinfo_loaded_get fi \<noteq> 0"
    "\<forall>j < i. nffw_fwinfo_loaded_get (nffw_res_fwinfos (ni_fwinf st) ! j) = 0"
    unfolding nfp_nffw_info_fwid_first_def find_first by auto
  obtain l s1 where l: "nfp_mip_mu_locality_lsb B s = (l, s1)" by force
  have l3: "l < 0 \<or> l = 30 \<or> l = 38"
    using l by (auto simp: nfp_mip_mu_locality_lsb_def nfp_cppat_mu_locality_lsb_def Let_def
        split: prod.splits if_splits)
  note run = assms [unfolded nfp_nffw_info_mip_first_def fi option.case Let_def l prod.case]
  have id: "cpp_id = fi_mip_cppid fi"
    using run by (auto simp: nffw_fwinfo_mip_cppid_get_def split: if_splits)
  show ?thesis
  proof (cases "nffw_fwinfo_mip_mu_da_get fi \<noteq> 0 \<and> NFP_CPP_ID_TARGET_of cpp_id = 7")
    case False
    then have "off = nffw_fwinfo_mip_offset_get fi"
      using run id by (auto simp: nffw_fwinfo_mip_cppid_get_def split: if_splits)
    with i id False show ?thesis by (auto simp: Let_def)
  next
    case True
    then have "0 \<le> l" and off: "off = (nffw_fwinfo_mip_offset_get fi AND NOT (push_bit (nat l) 3))
        OR push_bit (nat l) 2"
      using run id by (auto simp: nffw_fwinfo_mip_cppid_get_def split: if_splits)
    with l3 have l2: "nat l \<in> {30, 38}" by auto
    have "mu_direct_at (nat l) (nffw_fwinfo_mip_offset_get fi) off"
      unfolding off mu_direct_at_def bit_or_iff bit_and_iff bit_not_iff bit_locality_mask possible_bit_word
      by auto
    with l2 have "\<exists>l \<in> {30, 38}. mu_direct_at l (nffw_fwinfo_mip_offset_get fi) off" by blast
    with True i(2-4) id show ?thesis unfolding Let_def by (intro exI [of _ i] conjI i(1)) simp_all
  qed
qed

text \<open>A table of version 0 whose first entry is loaded, with direct access.\<close>

definition sample_nffw :: nfp_nffw_info where
  "sample_nffw = \<lparr>ni_res = \<lparr>res_name = [], res_cpp_id = 0, res_addr = 0, res_size = 0, res_mutex = None\<rparr>,
     ni_fwinf = [1, 0, 0, 0] @ replicate 484 0 @ [1, 1, 0, 0x80, 0, 0, 0, 7, 16, 0, 0, 0]\<rparr>"

lemma sample_nffw_first:
  "nfp_nffw_info_fwid_first (ni_fwinf sample_nffw) =
     Some \<lparr>fi_loaded__mu_da__mip_off_hi = 0x80000101, fi_mip_cppid = 0x07000000, fi_mip_offset_lo = 16\<rparr>"
proof -
  have "nffw_res_info_version_get (ni_fwinf sample_nffw) = 0" by code_simp
  moreover have "nffw_fwinfo_at (ni_fwinf sample_nffw) 120 0 =
      \<lparr>fi_loaded__mu_da__mip_off_hi = 0x80000101, fi_mip_cppid = 0x07000000, fi_mip_offset_lo = 16\<rparr>"
    by (simp add: nffw_fwinfo_at_def sample_nffw_def get_unaligned_le32_def push_bit_eq_mult)
  moreover have "nffw_fwinfo_loaded_get \<lparr>fi_loaded__mu_da__mip_off_hi = 0x80000101,
      fi_mip_cppid = 0x07000000, fi_mip_offset_lo = 16\<rparr> \<noteq> 0" by code_simp
  ultimately show ?thesis
    by (simp add: nfp_nffw_info_fwid_first_def nffw_res_fwinfos_def Let_def upt_conv_Cons del: upt_rec_numeral)
qed

lemma mip_first_location_witness:
  "\<exists>i < length (nffw_res_fwinfos (ni_fwinf sample_nffw)).
     nffw_fwinfo_loaded_get (nffw_res_fwinfos (ni_fwinf sample_nffw) ! i) \<noteq> 0 \<and>
     0x07000000 = fi_mip_cppid (nffw_res_fwinfos (ni_fwinf sample_nffw) ! i)"
proof -
  let ?r = "nfp_nffw_info_mip_first (ram_bus 0x1001) sample_nffw (\<lambda>_. 0)"
  have "nfp_mip_mu_locality_lsb (ram_bus 0x1001) (\<lambda>_. 0) = (30, \<lambda>_. 0)"
  proof -
    have "fst (nfp_mip_mu_locality_lsb (ram_bus 0x1001) (\<lambda>_. 0)) = 30" by code_simp
    moreover have "snd (nfp_mip_mu_locality_lsb (ram_bus 0x1001) (\<lambda>_. 0)) = (\<lambda>_. 0)"
      by (simp add: nfp_mip_mu_locality_lsb_def nfp_xpb_readl_def nfp_xpb_to_cpp_def ram_readl NFP_CPP_ID_def)
    ultimately show ?thesis by (metis prod.collapse)
  qed
  then have "?r = ((0, 0x07000000, 0x180000010), \<lambda>_. 0)"
    by (simp add: nfp_nffw_info_mip_first_def sample_nffw_first nffw_fwinfo_mip_cppid_get_def
        nffw_fwinfo_mip_mu_da_get_def NFP_CPP_ID_TARGET_of_def nffw_fwinfo_mip_offset_get_def)
  from mip_first_location [OF this] show ?thesis by (auto simp: Let_def)
qed

text \<open>
  A firmware table that \<open>nfp_nffw_info_open\<close> returns is marked as initialised, of a
  version the driver knows, and at least as large a region as the structure it was read into.
\<close>

theorem nffw_open_valid:
  assumes "nfp_nffw_info_open B crc env s = Done (Inr st, s')"
  shows "nffw_res_flg_init_get (ni_fwinf st) \<noteq> 0 \<and> nffw_res_info_version_get (ni_fwinf st) \<le> 2 \<and>
    3208 \<le> unat (res_size (ni_res st)) \<and> nffw_res_fwinfos (ni_fwinf st) \<noteq> []"
proof -
  have fw: "nffw_res_fwinfos w \<noteq> []" if "nffw_res_info_version_get w \<le> 2" for w
  proof -
    from that have "unat (nffw_res_info_version_get w) \<le> 2" by (simp add: word_le_nat_alt)
    then have "unat (nffw_res_info_version_get w) \<in> {0, 1, 2}" by auto
    then have "nffw_res_info_version_get w \<in> {0, 1, 2}"
      by (auto simp: word_unat_eq_iff)
    then show ?thesis by (auto simp: nffw_res_fwinfos_def Let_def)
  qed
  show ?thesis
    using assms fw unfolding nfp_nffw_info_open_def Let_def
    by (auto split: run.split_asm sum.split_asm prod.split_asm if_split_asm)
qed

text \<open>
  The size test of \<open>nfp_nffw_info_open\<close> compares the result of the read, an \<open>int\<close>,
  with a \<open>size_t\<close>: a read that failed with a negative error passes it, and the table is
  accepted when the bytes the failed read left behind say it is initialised.
\<close>

theorem nffw_open_accepts_failed_read:
  assumes "nfp_resource_acquire B crc (fe_acquire env) (fe_fuel env) NFP_RESOURCE_NFP_NFFW s = Done (Inr res, s1)"
    and "fe_mem env" and "3208 \<le> unat (res_size res)"
    and "bus_read B (res_cpp_id res) (res_addr res) 3208 s1 = ((err, bs), s2)" and "err < 0"
    and "nffw_res_flg_init_get bs \<noteq> 0" and "nffw_res_info_version_get bs \<le> 2"
  shows "nfp_nffw_info_open B crc env s = Done (Inr \<lparr>ni_res = res, ni_fwinf = bs\<rparr>, s2)"
  using assms leD [OF assms(7)] by (simp add: nfp_nffw_info_open_def Let_def)

text \<open>
  A header that \<open>nfp_mip_open\<close> returns carries the MIP signature and version 1, and
  the name in it is terminated within its 16 bytes.
\<close>

theorem mip_open_valid:
  assumes "nfp_mip_open B crc mem env s = Done (Some mip, s')"
    and len: "\<forall>c a t bs t'. bus_read B c a 96 t = ((96, bs), t') \<longrightarrow> length bs = 96"
  shows "mip_field mip 0 = 0x0050494d \<and> mip_field mip 1 = 1 \<and> strlen_at (take 64 mip) 48 \<noteq> None"
proof -
  obtain mip0 where m0: "nfp_mip_read_resource B crc env s = Done (Inr mip0, s')" "mip = mip0[63 := 0]"
    using assms(1) unfolding nfp_mip_open_def
    by (auto split: run.split_asm sum.split_asm prod.split_asm if_split_asm)
  then obtain c a t t' where "nfp_mip_try_read B c a t = (Inr mip0, t')"
    unfolding nfp_mip_read_resource_def
    by (auto split: run.split_asm sum.split_asm prod.split_asm if_split_asm)
  then have "mip_field mip0 0 = 0x0050494d" "mip_field mip0 1 = 1" "length mip0 = 96"
    using len [rule_format, of c a t mip0 t'] unfolding nfp_mip_try_read_def
    by (auto split: prod.split_asm if_split_asm)
  moreover from this have "take 4 mip = take 4 mip0" "take 4 (drop 4 mip) = take 4 (drop 4 mip0)"
    "length (take 64 mip) = 64" "take 64 mip ! 63 = 0"
    using m0(2) by (simp_all add: drop_update_swap)
  moreover from this(3,4) have "last (take 64 mip) = 0"
    using last_conv_nth [of "take 64 mip"] by (cases "take 64 mip = []") (simp_all only: list.size, simp_all)
  ultimately show ?thesis using strlen_at_last [of 48 "take 64 mip"]
    by (simp add: mip_field_def get_unaligned_le32_def)
qed

text \<open>
  The offset \<open>nffw_fwinfo_mip_offset_get\<close> returns is a 40-bit one: its low 32 bits
  are the low word of the entry, bits 39 to 32 the low byte of the high word (the comment
  on the function gives a shift by 8 for that byte, the code shifts by 32).
\<close>

theorem mip_offset_bits:
  "bit (nffw_fwinfo_mip_offset_get fi) n \<longleftrightarrow>
     n < 32 \<and> bit (fi_mip_offset_lo fi) n \<or>
     32 \<le> n \<and> n < 40 \<and> bit (fi_loaded__mu_da__mip_off_hi fi) (n - 32)"
proof -
  have e: "(0xFF :: u64) = mask 8" by (simp add: mask_eq_exp_minus_1)
  have "bit (fi_mip_offset_lo fi) n \<Longrightarrow> n < 32" for n by (auto dest: bit_imp_le_length)
  then show ?thesis
    unfolding nffw_fwinfo_mip_offset_get_def e bit_or_iff bit_push_bit_iff bit_and_iff bit_mask_iff
    by (auto simp: bit_ucast_iff possible_bit_word)
qed

section \<open>Evaluations\<close>

text \<open>A device with one resource of 4096 bytes, a firmware table and a MIP header behind it.\<close>

definition sample_script :: "int \<Rightarrow> nat \<Rightarrow> int \<times> u8 list" where
  "sample_script nffw_err n =
     (if n = 3208 then (nffw_err, ni_fwinf sample_nffw)
      else if n = 96 then (96, [0x4d, 0x49, 0x50, 0, 1, 0, 0, 0] @ replicate 88 0)
      else if n = 32 then (32, replicate 28 0 @ [16, 0, 0, 0])
      else (int n, replicate n 0))"

abbreviation (input) ones_crc :: "u32 \<Rightarrow> u8 list \<Rightarrow> u32" where "ones_crc \<equiv> \<lambda>_ _. - 1"

definition sample_fetch :: fetch_env where
  "sample_fetch = \<lparr>fe_acquire = sample_acquire, fe_fuel = 61, fe_mem = True\<rparr>"

lemma sample_nffw_acquire:
  obtains res where "nfp_resource_acquire (script_bus (sample_script e)) ones_crc (fe_acquire sample_fetch)
      (fe_fuel sample_fetch) NFP_RESOURCE_NFP_NFFW () = Done (Inr res, ())" "res_size res = 4096"
    "res_mutex res \<noteq> None"
proof -
  have "case nfp_resource_acquire (script_bus (sample_script e)) ones_crc (fe_acquire sample_fetch)
      (fe_fuel sample_fetch) NFP_RESOURCE_NFP_NFFW () of
      Done (Inr res, _) \<Rightarrow> res_size res = 4096 \<and> res_mutex res \<noteq> None | _ \<Rightarrow> False"
    by code_simp
  then show thesis using that by (auto split: run.split_asm sum.split_asm)
qed

lemma sample_nffw_flags:
  "nffw_res_flg_init_get (ni_fwinf sample_nffw) = 1" "nffw_res_info_version_get (ni_fwinf sample_nffw) = 0"
  by code_simp+

lemma sample_script_nffw [simp]:
  "bus_read (script_bus (sample_script e)) c a 3208 s = ((e, ni_fwinf sample_nffw), s)"
  by (simp add: script_bus_def sample_script_def)

lemma nffw_open_valid_witness:
  "\<exists>res. nfp_nffw_info_open (script_bus (sample_script 3208)) ones_crc sample_fetch () =
       Done (Inr \<lparr>ni_res = res, ni_fwinf = ni_fwinf sample_nffw\<rparr>, ()) \<and>
     nffw_res_flg_init_get (ni_fwinf sample_nffw) \<noteq> 0 \<and>
     nffw_res_info_version_get (ni_fwinf sample_nffw) \<le> 2 \<and> 3208 \<le> unat (res_size res)"
proof -
  obtain res where r: "nfp_resource_acquire (script_bus (sample_script 3208)) ones_crc
      (fe_acquire sample_fetch) (fe_fuel sample_fetch) NFP_RESOURCE_NFP_NFFW () = Done (Inr res, ())"
    "res_size res = 4096" by (rule sample_nffw_acquire)
  have o: "nfp_nffw_info_open (script_bus (sample_script 3208)) ones_crc sample_fetch () =
      Done (Inr \<lparr>ni_res = res, ni_fwinf = ni_fwinf sample_nffw\<rparr>, ())"
    using r by (simp add: nfp_nffw_info_open_def Let_def sample_nffw_flags) (simp add: sample_fetch_def)
  from nffw_open_valid [OF o] o show ?thesis by auto
qed

lemma nffw_open_accepts_failed_read_witness:
  "\<exists>res. nfp_nffw_info_open (script_bus (sample_script (- 5))) ones_crc sample_fetch () =
       Done (Inr \<lparr>ni_res = res, ni_fwinf = ni_fwinf sample_nffw\<rparr>, ())"
proof -
  obtain res where r: "nfp_resource_acquire (script_bus (sample_script (- 5))) ones_crc
      (fe_acquire sample_fetch) (fe_fuel sample_fetch) NFP_RESOURCE_NFP_NFFW () = Done (Inr res, ())"
    "res_size res = 4096" by (rule sample_nffw_acquire)
  from nffw_open_accepts_failed_read [OF r(1)] r(2) show ?thesis
    by (simp add: sample_nffw_flags) (simp add: sample_fetch_def)
qed

lemma mip_open_valid_witness:
  "\<exists>mip. nfp_mip_open (script_bus (sample_script 3208)) ones_crc True sample_fetch () = Done (Some mip, ()) \<and>
     mip_field mip 0 = 0x0050494d \<and> mip_field mip 1 = 1 \<and> strlen_at (take 64 mip) 48 \<noteq> None"
proof -
  let ?B = "script_bus (sample_script 3208)"
  obtain res where r: "nfp_resource_acquire ?B ones_crc
      (fe_acquire sample_fetch) (fe_fuel sample_fetch) NFP_RESOURCE_NFP_NFFW () = Done (Inr res, ())"
    "res_size res = 4096" "res_mutex res \<noteq> None" by (rule sample_nffw_acquire)
  have o: "nfp_nffw_info_open ?B ones_crc sample_fetch () =
      Done (Inr \<lparr>ni_res = res, ni_fwinf = ni_fwinf sample_nffw\<rparr>, ())"
    using r by (simp add: nfp_nffw_info_open_def Let_def sample_nffw_flags) (simp add: sample_fetch_def)
  have "fst (nfp_mip_mu_locality_lsb ?B ()) = 30" by code_simp
  then have f: "nfp_nffw_info_mip_first ?B \<lparr>ni_res = res, ni_fwinf = ni_fwinf sample_nffw\<rparr> () =
      ((0, 0x07000000, 0x180000010), ())"
    by (cases "nfp_mip_mu_locality_lsb ?B ()")
      (simp add: nfp_nffw_info_mip_first_def sample_nffw_first nffw_fwinfo_mip_cppid_get_def
        nffw_fwinfo_mip_mu_da_get_def NFP_CPP_ID_TARGET_of_def nffw_fwinfo_mip_offset_get_def)
  have "fst (nfp_mip_try_read ?B 0x07000000 0x180000010 ()) = Inr ([0x4d, 0x49, 0x50, 0, 1, 0, 0, 0] @ replicate 88 0)"
    by code_simp
  with o f r(3) have m: "nfp_mip_open ?B ones_crc True sample_fetch () =
      Done (Some (([0x4d, 0x49, 0x50, 0, 1, 0, 0, 0] @ replicate 88 0)[63 := 0]), ())"
    by (auto simp: nfp_mip_open_def nfp_mip_read_resource_def nfp_nffw_info_close_def
        nfp_resource_release_def split: prod.split)
  have "\<forall>c a t bs t'. bus_read ?B c a 96 t = ((96, bs), t') \<longrightarrow> length bs = 96"
    by (auto simp: script_bus_def sample_script_def)
  from mip_open_valid [OF m this] m show ?thesis by blast
qed

end
