(* ===== verification/Nfp_Rtsym.thy ===== *)
theory Nfp_Rtsym
  imports Nfp_Nffw
begin

text \<open>
  The run-time symbol table of \<open>nfpcore/nfp_rtsym.c\<close>: reading the linker's symbol and string
  tables from the device into a table of descriptors, and looking symbols up in it. A name
  is an offset into the string table. \<open>nfp_cpp_map_area\<close> is not under this model; the
  function that uses it takes it as an argument.
\<close>

record rtsym_entry =
  fw_type :: u8
  fw_target :: u8
  fw_island :: u8
  fw_addr_hi :: u8
  fw_addr_lo :: u32
  fw_name :: u16
  fw_menum :: u8
  fw_size_hi :: u8
  fw_size_lo :: u32

record nfp_rtsym =
  sym_name :: nat
  sym_addr :: u64
  sym_size :: u64
  sym_type :: int
  sym_target :: int
  sym_domain :: int

record nfp_rtsym_table =
  rt_strtab :: "u8 list"
  rt_symtab :: "nfp_rtsym list"

text \<open>The 16 bytes of a raw entry.\<close>

definition rtsym_entry_of :: "u8 list \<Rightarrow> rtsym_entry" where
  "rtsym_entry_of bs =
     \<lparr>fw_type = bs ! 0, fw_target = bs ! 1, fw_island = bs ! 2, fw_addr_hi = bs ! 3,
      fw_addr_lo = get_unaligned_le32 (drop 4 bs), fw_name = get_le (take 2 (drop 8 bs)),
      fw_menum = bs ! 10, fw_size_hi = bs ! 11, fw_size_lo = get_unaligned_le32 (drop 12 bs)\<rparr>"

abbreviation (input) SYM_TGT_LMEM :: u8 where "SYM_TGT_LMEM \<equiv> 0"
abbreviation (input) SYM_TGT_EMU_CACHE :: u8 where "SYM_TGT_EMU_CACHE \<equiv> 0x17"
abbreviation (input) NFP_RTSYM_TARGET_LMEM :: int where "NFP_RTSYM_TARGET_LMEM \<equiv> - 1"
abbreviation (input) NFP_RTSYM_TARGET_EMU_CACHE :: int where "NFP_RTSYM_TARGET_EMU_CACHE \<equiv> - 7"

definition nfp_meid :: "u8 \<Rightarrow> u8 \<Rightarrow> int" where
  "nfp_meid island_id menum =
     (if island_id AND 0x3F = island_id \<and> menum < 12
      then (push_bit 4 (int (unat island_id))) OR (int (unat menum) + 4) else - 1)"

definition nfp_rtsym_sw_entry_init :: "u32 \<Rightarrow> rtsym_entry \<Rightarrow> nfp_rtsym" where
  "nfp_rtsym_sw_entry_init strtab_size fw =
     \<lparr>sym_name = unat (fw_name fw) mod unat strtab_size,
      sym_addr = push_bit 32 (ucast (fw_addr_hi fw)) OR ucast (fw_addr_lo fw),
      sym_size = push_bit 32 (ucast (fw_size_hi fw)) OR ucast (fw_size_lo fw),
      sym_type = int (unat (fw_type fw)),
      sym_target =
        (if fw_target fw = SYM_TGT_LMEM then NFP_RTSYM_TARGET_LMEM
         else if fw_target fw = SYM_TGT_EMU_CACHE then NFP_RTSYM_TARGET_EMU_CACHE
         else int (unat (fw_target fw))),
      sym_domain =
        (if fw_menum fw \<noteq> 0xff then nfp_meid (fw_island fw) (fw_menum fw)
         else if fw_island fw \<noteq> 0xff then int (unat (fw_island fw))
         else - 1)\<rparr>"

text \<open>\<open>round_up(x, 8)\<close> on an unsigned 32-bit value, which wraps to 0 at the top.\<close>

definition round_up8 :: "u32 \<Rightarrow> u32" where
  "round_up8 x = ((x - 1) OR 7) + 1"

text \<open>
  \<open>__nfp_rtsym_table_read\<close>; \<open>None\<close> is NULL, \<open>mem1\<close> and \<open>mem2\<close> the two allocations.
\<close>

definition nfp_rtsym_table_read_mip ::
  "'s cpp_bus \<Rightarrow> bool \<Rightarrow> bool \<Rightarrow> u8 list option \<Rightarrow> 's \<Rightarrow> nfp_rtsym_table option \<times> 's" where
  "nfp_rtsym_table_read_mip B mem1 mem2 mip_opt s =
     (case mip_opt of None \<Rightarrow> (None, s)
      | Some mip \<Rightarrow>
        let dram = NFP_CPP_ID 7 NFP_CPP_ACTION_RW 0 OR 24;
            (strtab_addr, strtab_size) = nfp_mip_strtab mip;
            (symtab_addr, symtab_size) = nfp_mip_symtab mip
        in if symtab_size = 0 \<or> strtab_size = 0 \<or> symtab_size mod 16 \<noteq> 0 then (None, s)
           else let symtab_size = round_up8 symtab_size; strtab_size = round_up8 strtab_size in
             if \<not> mem1 \<or> \<not> mem2 then (None, s)
             else case bus_read B dram (ucast symtab_addr) (unat symtab_size) s of ((err, raw), s) \<Rightarrow>
               if err \<noteq> int (unat symtab_size) then (None, s)
               else case bus_read B dram (ucast strtab_addr) (unat strtab_size) s of ((err, strs), s) \<Rightarrow>
                 if err \<noteq> int (unat strtab_size) then (None, s)
                 else (Some \<lparr>rt_strtab = strs @ [0],
                    rt_symtab = map (\<lambda>n. nfp_rtsym_sw_entry_init strtab_size
                       (rtsym_entry_of (drop (16 * n) raw))) [0..<unat symtab_size div 16]\<rparr>, s))"

definition nfp_rtsym_table_read ::
  "'s cpp_bus \<Rightarrow> (u32 \<Rightarrow> u8 list \<Rightarrow> u32) \<Rightarrow> bool \<Rightarrow> bool \<Rightarrow> bool \<Rightarrow> fetch_env \<Rightarrow> 's
     \<Rightarrow> (nfp_rtsym_table option \<times> 's) run" where
  "nfp_rtsym_table_read B crc32_be mem0 mem1 mem2 env s =
     (case nfp_mip_open B crc32_be mem0 env s of
        NullDeref \<Rightarrow> NullDeref
      | OutOfFuel \<Rightarrow> OutOfFuel
      | Done (mip, s) \<Rightarrow> Done (nfp_rtsym_table_read_mip B mem1 mem2 mip s))"

definition nfp_rtsym_count :: "nfp_rtsym_table option \<Rightarrow> int" where
  "nfp_rtsym_count rtbl = (case rtbl of None \<Rightarrow> - EINVAL | Some t \<Rightarrow> int (length (rt_symtab t)))"

text \<open>\<open>nfp_rtsym_get\<close>; a negative index passes the test \<open>idx >= num\<close> and reads before the table.\<close>

definition nfp_rtsym_get :: "nfp_rtsym_table option \<Rightarrow> int \<Rightarrow> nfp_rtsym option option" where
  "nfp_rtsym_get rtbl idx =
     (case rtbl of None \<Rightarrow> Some None
      | Some t \<Rightarrow> if idx \<ge> int (length (rt_symtab t)) then Some None
          else if idx < 0 then None
          else Some (Some (rt_symtab t ! nat idx)))"

definition nfp_rtsym_lookup :: "nfp_rtsym_table option \<Rightarrow> u8 list \<Rightarrow> nfp_rtsym option" where
  "nfp_rtsym_lookup rtbl name =
     (case rtbl of None \<Rightarrow> None
      | Some t \<Rightarrow> find (\<lambda>sy. string_at (rt_strtab t) (sym_name sy) = name) (rt_symtab t))"

text \<open>The value and the error code of \<open>nfp_rtsym_read_le\<close>.\<close>

definition nfp_rtsym_read_le ::
  "'s cpp_bus \<Rightarrow> nfp_rtsym_table option \<Rightarrow> u8 list \<Rightarrow> 's \<Rightarrow> (u64 \<times> int) \<times> 's" where
  "nfp_rtsym_read_le B rtbl name s =
     (case nfp_rtsym_lookup rtbl name of
        None \<Rightarrow> ((NOT 0, - ENOENT), s)
      | Some sy \<Rightarrow>
        let cpp_id = NFP_CPP_ISLAND_ID (word_of_int (sym_target sy)) NFP_CPP_ACTION_RW 0
              (word_of_int (sym_domain sy));
            r = (if sym_size sy = 4 then
                   (case nfp_cpp_readl B cpp_id (sym_addr sy) s of ((err, v), s) \<Rightarrow> ((err, ucast v), s))
                 else if sym_size sy = 8 then nfp_cpp_readq B cpp_id (sym_addr sy) s
                 else ((- EINVAL, 0), s))
        in case r of ((err, val), s) \<Rightarrow>
          let err = (if err = int (unat (sym_size sy)) then 0 else if err \<ge> 0 then - EIO else err)
          in if err \<noteq> 0 then ((NOT 0, err), s) else ((val, 0), s))"

text \<open>
  \<open>nfp_rtsym_map\<close>, over the result of \<open>nfp_cpp_map_area\<close> for a domain, target, address and size.
\<close>

definition nfp_rtsym_map ::
  "(int \<Rightarrow> int \<Rightarrow> u64 \<Rightarrow> u64 \<Rightarrow> 's \<Rightarrow> 'm res \<times> 's) \<Rightarrow> nfp_rtsym_table option \<Rightarrow> u8 list \<Rightarrow> u32 \<Rightarrow> 's
     \<Rightarrow> 'm res \<times> 's" where
  "nfp_rtsym_map map_area rtbl name min_size s =
     (case nfp_rtsym_lookup rtbl name of
        None \<Rightarrow> (Inl (- ENOENT), s)
      | Some sy \<Rightarrow>
        if sym_size sy < ucast min_size then (Inl (- EINVAL), s)
        else map_area (sym_domain sy) (sym_target sy) (sym_addr sy) (sym_size sy) s)"

section \<open>Properties\<close>

text \<open>
  In a table read from the device every symbol has a name that is a terminated
  string inside the string table, whatever offsets the firmware supplies, provided the
  rounded size of the string table did not wrap to 0.
\<close>

theorem rtsym_names_in_bounds:
  assumes rd: "nfp_rtsym_table_read_mip B mem1 mem2 (Some mip) s = (Some t, s')"
    and len: "\<forall>c a n u bs u'. bus_read B c a n u = ((int n, bs), u') \<longrightarrow> length bs = n"
    and nowrap: "round_up8 (snd (nfp_mip_strtab mip)) \<noteq> 0"
    and sy: "sy \<in> set (rt_symtab t)"
  shows "\<exists>n. strlen_at (rt_strtab t) (sym_name sy) = Some n \<and> sym_name sy + n < length (rt_strtab t)"
proof -
  let ?sz = "round_up8 (snd (nfp_mip_strtab mip))"
  obtain c a u strs u' where r: "bus_read B c a (unat ?sz) u = ((int (unat ?sz), strs), u')"
    and t: "rt_strtab t = strs @ [0]"
    and syms: "\<exists>fw. sy = nfp_rtsym_sw_entry_init ?sz fw"
    using rd sy unfolding nfp_rtsym_table_read_mip_def
    by (auto simp: Let_def split: prod.split_asm if_split_asm) blast
  have l: "length strs = unat ?sz" using len r by blast
  have "0 < unat ?sz" using nowrap by (simp add: unat_gt_0)
  then have "sym_name sy < unat ?sz" using syms by (auto simp: nfp_rtsym_sw_entry_init_def)
  then have "strlen_at (rt_strtab t) (sym_name sy) \<noteq> None"
    using t l by (intro strlen_at_last) simp_all
  then show ?thesis using strlen_at_bound by blast
qed

text \<open>
  \<open>nfp_meid\<close> packs island and micro-engine number without loss: from a result that
  is not the error -1 both can be read back, and the error marks exactly the pairs out of range.
\<close>

theorem meid_decodes:
  "if unat island < 64 \<and> unat menum < 12
   then drop_bit 4 (nfp_meid island menum) = int (unat island) \<and>
        take_bit 4 (nfp_meid island menum) = int (unat menum) + 4
   else nfp_meid island menum = - 1"
proof -
  have e: "(0x3F :: u8) = mask 6" by (simp add: mask_eq_exp_minus_1)
  have isl: "island AND 0x3F = island \<longleftrightarrow> unat island < 64"
  proof -
    have "island AND 0x3F = take_bit 6 island" unfolding e by (simp add: take_bit_eq_mask)
    moreover have "unat (take_bit 6 island) = unat island mod 64"
      by (simp add: take_bit_eq_mod unat_mod)
    moreover have "n mod 64 = n \<longleftrightarrow> n < 64" for n :: nat
      by (metis mod_less mod_less_divisor zero_less_numeral)
    ultimately show ?thesis by (metis word_unat_eq_iff)
  qed
  have men: "menum < 12 \<longleftrightarrow> unat menum < 12" by (simp add: word_less_nat_alt)
  show ?thesis
  proof (cases "unat island < 64 \<and> unat menum < 12")
    case True
    obtain m where m_def: "m = int (unat menum) + 4" by blast
    have m: "0 \<le> m" "m < 16" using True unfolding m_def by linarith+
    then have tm: "take_bit 4 m = m" by (simp add: take_bit_eq_mod)
    have dm: "drop_bit 4 m = 0" using m by (simp add: drop_bit_eq_div)
    have "nfp_meid island menum = push_bit 4 (int (unat island)) OR m"
      using True isl men by (simp add: nfp_meid_def m_def)
    then have "drop_bit 4 (nfp_meid island menum) = int (unat island)"
      "take_bit 4 (nfp_meid island menum) = m"
      using tm dm by (simp_all add: drop_bit_push_bit take_bit_push_bit)
    then show ?thesis using True m_def by simp
  next
    case False
    then show ?thesis using isl men by (auto simp: nfp_meid_def)
  qed
qed

text \<open>
  \<open>nfp_rtsym_read_le\<close> reports an error code that is 0 or negative; on an error the
  value is all ones, and without one it is the little-endian value the device returned for
  the first symbol of the name, whose size is 4 or 8 and was transferred in full.
\<close>

theorem rtsym_read_le_result:
  assumes "nfp_rtsym_read_le B rtbl name s = ((val, err), s')"
  shows "err \<le> 0 \<and> (err \<noteq> 0 \<longrightarrow> val = NOT 0) \<and>
    (err = 0 \<longrightarrow> (\<exists>sy cpp_id bs. nfp_rtsym_lookup rtbl name = Some sy \<and>
       sym_size sy \<in> {4, 8} \<and>
       bus_read B cpp_id (sym_addr sy) (unat (sym_size sy)) s = ((int (unat (sym_size sy)), bs), s') \<and>
       val = get_le (take (unat (sym_size sy)) bs)))"
proof (cases "nfp_rtsym_lookup rtbl name")
  case None
  with assms show ?thesis by (auto simp: nfp_rtsym_read_le_def)
next
  case (Some sy)
  have uc: "ucast (get_le (take 4 bs) :: u32) = (get_le (take 4 bs) :: u64)" for bs
    by (rule bit_eqI) (auto simp: bit_ucast_iff bit_get_le)
  consider "sym_size sy = 4" | "sym_size sy = 8" | "sym_size sy \<notin> {4, 8}" by blast
  then show ?thesis
  proof cases
    case 1
    with assms Some show ?thesis
      by (auto simp: nfp_rtsym_read_le_def Let_def nfp_cpp_readl_def get_unaligned_le32_def uc
          split: prod.split_asm if_split_asm)
  next
    case 2
    with assms Some show ?thesis
      by (auto simp: nfp_rtsym_read_le_def Let_def nfp_cpp_readq_def get_unaligned_le64_def
          split: prod.split_asm if_split_asm)
  next
    case 3
    have "uint (sym_size sy) \<noteq> - 22" using uint_ge_0 [of "sym_size sy"] by linarith
    with 3 assms Some show ?thesis
      by (auto simp: nfp_rtsym_read_le_def Let_def split: if_split_asm)
  qed
qed

section \<open>Evaluations\<close>

text \<open>A table of one 4-byte symbol \<open>a\<close>, behind a scripted device.\<close>

definition rtsym_script :: "nat \<Rightarrow> int \<times> u8 list" where
  "rtsym_script n =
     (if n = 16 then (16, [1, 7, 0xff, 0, 0, 1, 0, 0, 17, 0, 0xff, 0, 4, 0, 0, 0])
      else if n = 8 then (8, [98, 97, 0, 0, 0, 0, 0, 0])
      else (int n, replicate n 1))"

definition sample_mip :: "u8 list" where
  "sample_mip = replicate 32 0 @ [0, 0, 0, 0, 16, 0, 0, 0, 0, 0, 0, 0, 8, 0, 0, 0] @ replicate 48 0"

definition sample_rtsym_table :: nfp_rtsym_table where
  "sample_rtsym_table = \<lparr>rt_strtab = [98, 97, 0, 0, 0, 0, 0, 0, 0],
     rt_symtab = [\<lparr>sym_name = 1, sym_addr = 256, sym_size = 4, sym_type = 1, sym_target = 7, sym_domain = - 1\<rparr>]\<rparr>"

lemma sample_rtsym_read:
  "nfp_rtsym_table_read_mip (script_bus rtsym_script) True True (Some sample_mip) () =
     (Some sample_rtsym_table, ())"
  by code_simp

lemma rtsym_names_in_bounds_witness:
  "\<exists>n. strlen_at (rt_strtab sample_rtsym_table) 1 = Some n \<and> 1 + n < length (rt_strtab sample_rtsym_table)"
proof -
  have len: "\<forall>c a n u bs u'. bus_read (script_bus rtsym_script) c a n u = ((int n, bs), u') \<longrightarrow> length bs = n"
    by (auto simp: script_bus_def rtsym_script_def split: if_splits)
  have nz: "round_up8 (snd (nfp_mip_strtab sample_mip)) \<noteq> 0" by code_simp
  from rtsym_names_in_bounds [OF sample_rtsym_read len nz, of "hd (rt_symtab sample_rtsym_table)"]
  show ?thesis by (simp add: sample_rtsym_table_def)
qed

lemma rtsym_read_le_result_witness:
  "\<exists>sy cpp_id bs. nfp_rtsym_lookup (Some sample_rtsym_table) [97] = Some sy \<and> sym_size sy \<in> {4, 8} \<and>
     bus_read (script_bus rtsym_script) cpp_id (sym_addr sy) (unat (sym_size sy)) () =
       ((int (unat (sym_size sy)), bs), ()) \<and>
     (0x01010101 :: u64) = get_le (take (unat (sym_size sy)) bs)"
proof -
  have "nfp_rtsym_read_le (script_bus rtsym_script) (Some sample_rtsym_table) [97] () = ((0x01010101, 0), ())"
    by code_simp
  from rtsym_read_le_result [OF this] show ?thesis by simp
qed

end
