(* ===== verification/Nfp_Nsp.thy ===== *)
theory Nfp_Nsp
  imports Nfp_Resource
begin

text \<open>
  The command protocol with the service processor, \<open>nfpcore/nfp_nsp.c\<close>: checking the status
  register, handing a command over through the buffer and command registers, waiting for
  it to start and to complete, and the commands that carry data through the default buffer.
  Register fields are \<open>FIELD_GET\<close> and \<open>FIELD_PREP\<close> over \<open>GENMASK_ULL\<close> masks.
\<close>

section \<open>Register fields\<close>

definition FIELD_GET :: "nat \<Rightarrow> nat \<Rightarrow> u64 \<Rightarrow> u64" where
  "FIELD_GET h l reg = drop_bit l (reg AND genmask_ull h l)"

definition FIELD_PREP :: "nat \<Rightarrow> nat \<Rightarrow> u64 \<Rightarrow> u64" where
  "FIELD_PREP h l v = push_bit l v AND genmask_ull h l"

definition FIELD_FIT :: "nat \<Rightarrow> nat \<Rightarrow> u64 \<Rightarrow> bool" where
  "FIELD_FIT h l v \<longleftrightarrow> push_bit l v AND NOT (genmask_ull h l) = 0"

abbreviation (input) NSP_STATUS :: u64 where "NSP_STATUS \<equiv> 0"
abbreviation (input) NSP_COMMAND :: u64 where "NSP_COMMAND \<equiv> 8"
abbreviation (input) NSP_BUFFER :: u64 where "NSP_BUFFER \<equiv> 0x10"
abbreviation (input) NSP_DFLT_BUFFER :: u64 where "NSP_DFLT_BUFFER \<equiv> 0x18"
abbreviation (input) NSP_DFLT_BUFFER_CONFIG :: u64 where "NSP_DFLT_BUFFER_CONFIG \<equiv> 0x20"

definition nsp_status_magic :: "u64 \<Rightarrow> u64" where "nsp_status_magic reg = FIELD_GET 63 48 reg"
definition nsp_status_major :: "u64 \<Rightarrow> u64" where "nsp_status_major reg = FIELD_GET 47 44 reg"
definition nsp_status_minor :: "u64 \<Rightarrow> u64" where "nsp_status_minor reg = FIELD_GET 43 32 reg"
definition nsp_status_result :: "u64 \<Rightarrow> u64" where "nsp_status_result reg = FIELD_GET 15 8 reg"
definition nsp_command_option :: "u64 \<Rightarrow> u64" where "nsp_command_option reg = FIELD_GET 63 32 reg"

abbreviation (input) NSP_STATUS_BUSY :: u64 where "NSP_STATUS_BUSY \<equiv> 1"
abbreviation (input) NSP_COMMAND_START :: u64 where "NSP_COMMAND_START \<equiv> 1"

text \<open>The words written to the buffer and command registers.\<close>

definition nsp_buffer_word :: "u32 \<Rightarrow> u64 \<Rightarrow> u64" where
  "nsp_buffer_word buff_cpp buff_addr =
     FIELD_PREP 63 40 (ucast (drop_bit 8 buff_cpp)) OR FIELD_PREP 37 0 buff_addr"

definition nsp_command_word :: "u16 \<Rightarrow> u32 \<Rightarrow> u64" where
  "nsp_command_word code option =
     FIELD_PREP 63 32 (ucast option) OR FIELD_PREP 31 16 (ucast code) OR FIELD_PREP 0 0 1"

section \<open>State and checks\<close>

datatype nfp_nsp_cmd =
  SPCODE_NOOP | SPCODE_SOFT_RESET | SPCODE_FW_DEFAULT | SPCODE_PHY_INIT | SPCODE_MAC_INIT
| SPCODE_PHY_RXADAPT | SPCODE_FW_LOAD | SPCODE_ETH_RESCAN | SPCODE_ETH_CONTROL
| SPCODE_NSP_SENSORS | SPCODE_NSP_IDENTIFY

fun spcode :: "nfp_nsp_cmd \<Rightarrow> u16" where
  "spcode SPCODE_NOOP = 0"
| "spcode SPCODE_SOFT_RESET = 1"
| "spcode SPCODE_FW_DEFAULT = 2"
| "spcode SPCODE_PHY_INIT = 3"
| "spcode SPCODE_MAC_INIT = 4"
| "spcode SPCODE_PHY_RXADAPT = 5"
| "spcode SPCODE_FW_LOAD = 6"
| "spcode SPCODE_ETH_RESCAN = 7"
| "spcode SPCODE_ETH_CONTROL = 8"
| "spcode SPCODE_NSP_SENSORS = 12"
| "spcode SPCODE_NSP_IDENTIFY = 13"

record nfp_nsp =
  nsp_res :: nfp_resource
  nsp_major :: u16
  nsp_minor :: u16
  nsp_modified :: bool
  nsp_idx :: u32
  nsp_entries :: "u8 list option"

definition nfp_nsp_config_set_modified :: "bool \<Rightarrow> nfp_nsp \<Rightarrow> nfp_nsp" where
  "nfp_nsp_config_set_modified modified state = state\<lparr>nsp_modified := modified\<rparr>"

definition nfp_nsp_config_set_state :: "u8 list option \<Rightarrow> u32 \<Rightarrow> nfp_nsp \<Rightarrow> nfp_nsp" where
  "nfp_nsp_config_set_state entries idx state = state\<lparr>nsp_entries := entries, nsp_idx := idx\<rparr>"

definition nfp_nsp_config_clear_state :: "nfp_nsp \<Rightarrow> nfp_nsp" where
  "nfp_nsp_config_clear_state state = state\<lparr>nsp_entries := None, nsp_idx := 0\<rparr>"

definition nfp_nsp_check :: "'s cpp_bus \<Rightarrow> nfp_nsp \<Rightarrow> 's \<Rightarrow> (int \<times> nfp_nsp) \<times> 's" where
  "nfp_nsp_check B state s =
     (case nfp_cpp_readq B (res_cpp_id (nsp_res state)) (res_addr (nsp_res state) + NSP_STATUS) s of
        ((err, reg), s) \<Rightarrow>
        if err < 0 then ((err, state), s)
        else if nsp_status_magic reg \<noteq> 0xab10 then ((- ENODEV, state), s)
        else let state = state\<lparr>nsp_major := ucast (nsp_status_major reg),
                               nsp_minor := ucast (nsp_status_minor reg)\<rparr> in
          if nsp_major state \<noteq> 0 \<or> nsp_minor state < 8 then ((- EINVAL, state), s)
          else if reg AND NSP_STATUS_BUSY \<noteq> 0 then ((- EBUSY, state), s)
          else ((0, state), s))"

text \<open>
  The polling loop. \<open>wr_start n\<close> is the clock when round \<open>n\<close> begins, counted from the call,
  \<open>wr_intr n\<close> whether the sleep of that round is interrupted. \<open>None\<close>: fuel exhausted.
\<close>

record poll_env =
  wr_start :: "nat \<Rightarrow> nat"
  wr_intr :: "nat \<Rightarrow> bool"
  wr_hz :: nat

fun nfp_nsp_wait_reg ::
  "'s cpp_bus \<Rightarrow> poll_env \<Rightarrow> nat \<Rightarrow> nat \<Rightarrow> u32 \<Rightarrow> u64 \<Rightarrow> u64 \<Rightarrow> u64 \<Rightarrow> 's \<Rightarrow> ((int \<times> u64) \<times> 's) option" where
  "nfp_nsp_wait_reg B env n 0 nsp_cpp addr msk val s = None"
| "nfp_nsp_wait_reg B env n (Suc fuel) nsp_cpp addr msk val s =
     (case nfp_cpp_readq B nsp_cpp addr s of ((err, reg), s) \<Rightarrow>
        if err < 0 then Some ((err, reg), s)
        else if reg AND msk = val then Some ((0, reg), s)
        else if wr_intr env n then Some ((- ERESTARTSYS, reg), s)
        else if wr_start env n > 30 * wr_hz env then Some ((- ETIMEDOUT, reg), s)
        else nfp_nsp_wait_reg B env (Suc n) fuel nsp_cpp addr msk val s)"

record command_env =
  ce_start :: poll_env
  ce_busy :: poll_env
  ce_fuel :: nat

text \<open>
  \<open>nfp_nsp_command\<close>. The result code of the NSP is negated, the option word is returned as
  a C \<open>int\<close>, that is, its low 32 bits as a signed value.
\<close>

definition nfp_nsp_command ::
  "'s cpp_bus \<Rightarrow> command_env \<Rightarrow> u16 \<Rightarrow> u32 \<Rightarrow> u32 \<Rightarrow> u64 \<Rightarrow> nfp_nsp \<Rightarrow> 's
     \<Rightarrow> ((int \<times> nfp_nsp) \<times> 's) option" where
  "nfp_nsp_command B env code option buff_cpp buff_addr state s =
     (let nsp_cpp = res_cpp_id (nsp_res state); nsp_base = res_addr (nsp_res state) in
      case nfp_nsp_check B state s of ((err, state), s) \<Rightarrow>
        if err \<noteq> 0 then Some ((err, state), s)
        else if \<not> FIELD_FIT 63 40 (ucast (drop_bit 8 buff_cpp)) \<or> \<not> FIELD_FIT 37 0 buff_addr
        then Some ((- EINVAL, state), s)
        else case nfp_cpp_writeq B nsp_cpp (nsp_base + NSP_BUFFER) (nsp_buffer_word buff_cpp buff_addr) s of
          (err, s) \<Rightarrow>
        if err < 0 then Some ((err, state), s)
        else case nfp_cpp_writeq B nsp_cpp (nsp_base + NSP_COMMAND) (nsp_command_word code option) s of
          (err, s) \<Rightarrow>
        if err < 0 then Some ((err, state), s)
        else case nfp_nsp_wait_reg B (ce_start env) 0 (ce_fuel env) nsp_cpp (nsp_base + NSP_COMMAND)
               NSP_COMMAND_START 0 s of
          None \<Rightarrow> None
        | Some ((err, reg), s) \<Rightarrow>
        if err \<noteq> 0 then Some ((err, state), s)
        else case nfp_nsp_wait_reg B (ce_busy env) 0 (ce_fuel env) nsp_cpp (nsp_base + NSP_STATUS)
               NSP_STATUS_BUSY 0 s of
          None \<Rightarrow> None
        | Some ((err, reg), s) \<Rightarrow>
        if err \<noteq> 0 then Some ((err, state), s)
        else case nfp_cpp_readq B nsp_cpp (nsp_base + NSP_COMMAND) s of ((err, ret_val), s) \<Rightarrow>
        if err < 0 then Some ((err, state), s)
        else let ret_val = nsp_command_option ret_val; err = nsp_status_result reg in
          if err \<noteq> 0 then Some ((- int (unat err), state), s)
          else Some ((sint (ucast ret_val :: u32), state), s))"

text \<open>
  \<open>nfp_nsp_command_buf\<close>. \<open>in_buf\<close> may be NULL (\<open>None\<close>); \<open>out_given\<close> says that \<open>out_buf\<close> is not.
  The third component of the result is what is read back into \<open>out_buf\<close>, where it is.
\<close>

definition nfp_nsp_command_buf ::
  "'s cpp_bus \<Rightarrow> command_env \<Rightarrow> u16 \<Rightarrow> u32 \<Rightarrow> u8 list option \<Rightarrow> u32 \<Rightarrow> bool \<Rightarrow> u32 \<Rightarrow> nfp_nsp \<Rightarrow> 's
     \<Rightarrow> ((int \<times> nfp_nsp \<times> u8 list option) \<times> 's) option" where
  "nfp_nsp_command_buf B env code option in_buf in_size out_given out_size nsp s =
     (let nsp_cpp = res_cpp_id (nsp_res nsp); nsp_base = res_addr (nsp_res nsp) in
      if nsp_minor nsp < 13 then Some ((- EOPNOTSUPP, nsp, None), s)
      else case nfp_cpp_readq B nsp_cpp (nsp_base + NSP_DFLT_BUFFER_CONFIG) s of ((err, reg), s) \<Rightarrow>
      if err < 0 then Some ((err, nsp, None), s)
      else let max_size = max in_size out_size in
      if FIELD_GET 7 0 reg * 0x100000 < ucast max_size then Some ((- EINVAL, nsp, None), s)
      else case nfp_cpp_readq B nsp_cpp (nsp_base + NSP_DFLT_BUFFER) s of ((err, reg), s) \<Rightarrow>
      if err < 0 then Some ((err, nsp, None), s)
      else let cpp_id = push_bit 8 (ucast (FIELD_GET 63 40 reg)); cpp_buf = FIELD_GET 37 0 reg in
      case (case in_buf of
              None \<Rightarrow> (0, s)
            | Some bs \<Rightarrow> if in_size = 0 then (0, s) else bus_write B cpp_id cpp_buf (take (unat in_size) bs) s)
        of (err, s) \<Rightarrow>
      if err < 0 then Some ((err, nsp, None), s)
      else case (if out_given \<and> out_size \<noteq> 0 \<and> out_size > in_size
                 then bus_write B cpp_id (cpp_buf + ucast in_size) (replicate (unat (out_size - in_size)) 0) s
                 else (0, s)) of (err, s) \<Rightarrow>
      if err < 0 then Some ((err, nsp, None), s)
      else case nfp_nsp_command B env code option cpp_id cpp_buf nsp s of
        None \<Rightarrow> None
      | Some ((ret, nsp), s) \<Rightarrow>
      if ret < 0 then Some ((ret, nsp, None), s)
      else if out_given \<and> out_size \<noteq> 0 then
        (case bus_read B cpp_id cpp_buf (unat out_size) s of ((err, bs), s) \<Rightarrow>
           if err < 0 then Some ((err, nsp, None), s) else Some ((ret, nsp, Some bs), s))
      else Some ((ret, nsp, None), s))"

text \<open>\<open>nfp_nsp_wait\<close>: round \<open>n\<close> of the outer loop has its own polling environment.\<close>

fun nfp_nsp_wait ::
  "'s cpp_bus \<Rightarrow> (nat \<Rightarrow> command_env) \<Rightarrow> poll_env \<Rightarrow> nat \<Rightarrow> nat \<Rightarrow> nfp_nsp \<Rightarrow> 's
     \<Rightarrow> ((int \<times> nfp_nsp) \<times> 's) option" where
  "nfp_nsp_wait B cenv env n 0 state s = None"
| "nfp_nsp_wait B cenv env n (Suc fuel) state s =
     (case nfp_nsp_command B (cenv n) (spcode SPCODE_NOOP) 0 0 0 state s of
        None \<Rightarrow> None
      | Some ((err, state), s) \<Rightarrow>
        if err \<noteq> - EAGAIN then Some ((err, state), s)
        else if wr_intr env n then Some ((- ERESTARTSYS, state), s)
        else if wr_start env n > 30 * wr_hz env then Some ((- ETIMEDOUT, state), s)
        else nfp_nsp_wait B cenv env (Suc n) fuel state s)"

section \<open>Opening and the commands built on it\<close>

definition NFP_RESOURCE_NSP :: "u8 list" where
  "NFP_RESOURCE_NSP = [110, 102, 112, 46, 115, 112]"

definition nfp_nsp_close :: "'s cpp_bus \<Rightarrow> nfp_nsp \<Rightarrow> 's \<Rightarrow> 's run" where
  "nfp_nsp_close B state s = nfp_resource_release B (nsp_res state) s"

definition nfp_nsp_open ::
  "'s cpp_bus \<Rightarrow> (u32 \<Rightarrow> u8 list \<Rightarrow> u32) \<Rightarrow> acquire_env \<Rightarrow> nat \<Rightarrow> bool \<Rightarrow> 's \<Rightarrow> (nfp_nsp res \<times> 's) run" where
  "nfp_nsp_open B crc32_be env fuel mem s =
     (case nfp_resource_acquire B crc32_be env fuel NFP_RESOURCE_NSP s of
        NullDeref \<Rightarrow> NullDeref
      | OutOfFuel \<Rightarrow> OutOfFuel
      | Done (Inl e, s) \<Rightarrow> Done (Inl e, s)
      | Done (Inr res, s) \<Rightarrow>
        let fail = (\<lambda>e st s. case nfp_nsp_close B st s of
              Done s \<Rightarrow> Done (Inl e, s) | NullDeref \<Rightarrow> NullDeref | OutOfFuel \<Rightarrow> OutOfFuel);
            state = \<lparr>nsp_res = res, nsp_major = 0, nsp_minor = 0, nsp_modified = False,
                     nsp_idx = 0, nsp_entries = None\<rparr>
        in if \<not> mem then fail (- ENOMEM) state s
           else case nfp_nsp_check B state s of ((err, state), s) \<Rightarrow>
             if err \<noteq> 0 then fail err state s else Done (Inr state, s))"

definition nfp_nsp_device_soft_reset ::
  "'s cpp_bus \<Rightarrow> command_env \<Rightarrow> nfp_nsp \<Rightarrow> 's \<Rightarrow> ((int \<times> nfp_nsp) \<times> 's) option" where
  "nfp_nsp_device_soft_reset B env state s =
     nfp_nsp_command B env (spcode SPCODE_SOFT_RESET) 0 0 0 state s"

definition nfp_nsp_load_fw ::
  "'s cpp_bus \<Rightarrow> command_env \<Rightarrow> u8 list \<Rightarrow> nfp_nsp \<Rightarrow> 's \<Rightarrow> ((int \<times> nfp_nsp \<times> u8 list option) \<times> 's) option" where
  "nfp_nsp_load_fw B env fw state s =
     nfp_nsp_command_buf B env (spcode SPCODE_FW_LOAD) (of_nat (length fw)) (Some fw)
       (of_nat (length fw)) False 0 state s"

definition nfp_nsp_read_eth_table ::
  "'s cpp_bus \<Rightarrow> command_env \<Rightarrow> u32 \<Rightarrow> nfp_nsp \<Rightarrow> 's \<Rightarrow> ((int \<times> nfp_nsp \<times> u8 list option) \<times> 's) option" where
  "nfp_nsp_read_eth_table B env sz state s =
     nfp_nsp_command_buf B env (spcode SPCODE_ETH_RESCAN) sz None 0 True sz state s"

definition nfp_nsp_write_eth_table ::
  "'s cpp_bus \<Rightarrow> command_env \<Rightarrow> u8 list \<Rightarrow> u32 \<Rightarrow> nfp_nsp \<Rightarrow> 's \<Rightarrow> ((int \<times> nfp_nsp \<times> u8 list option) \<times> 's) option" where
  "nfp_nsp_write_eth_table B env buf sz state s =
     nfp_nsp_command_buf B env (spcode SPCODE_ETH_CONTROL) sz (Some buf) sz False 0 state s"

definition nfp_nsp_read_identify ::
  "'s cpp_bus \<Rightarrow> command_env \<Rightarrow> u32 \<Rightarrow> nfp_nsp \<Rightarrow> 's \<Rightarrow> ((int \<times> nfp_nsp \<times> u8 list option) \<times> 's) option" where
  "nfp_nsp_read_identify B env sz state s =
     nfp_nsp_command_buf B env (spcode SPCODE_NSP_IDENTIFY) sz None 0 True sz state s"

definition nfp_nsp_read_sensors ::
  "'s cpp_bus \<Rightarrow> command_env \<Rightarrow> u32 \<Rightarrow> u32 \<Rightarrow> nfp_nsp \<Rightarrow> 's \<Rightarrow> ((int \<times> nfp_nsp \<times> u8 list option) \<times> 's) option" where
  "nfp_nsp_read_sensors B env sensor_mask sz state s =
     nfp_nsp_command_buf B env (spcode SPCODE_NSP_SENSORS) sensor_mask None 0 True sz state s"

section \<open>Fields\<close>

lemma bit_FIELD_GET [nfp_bits]:
  "bit (FIELD_GET h l r) n \<longleftrightarrow> l + n \<le> h \<and> l + n < 64 \<and> bit r (l + n)"
  by (auto simp: FIELD_GET_def bit_drop_bit_eq bit_and_iff bit_genmask_ull)

lemma bit_FIELD_PREP [nfp_bits]:
  "bit (FIELD_PREP h l v) n \<longleftrightarrow> l \<le> n \<and> n \<le> h \<and> n < 64 \<and> bit v (n - l)"
  by (auto simp: FIELD_PREP_def bit_push_bit_iff bit_and_iff bit_genmask_ull)

lemma FIELD_FIT_bits:
  "FIELD_FIT h l v \<Longrightarrow> bit v n \<Longrightarrow> l + n < 64 \<Longrightarrow> l + n \<le> h"
  unfolding FIELD_FIT_def
  by (drule arg_cong [of _ _ "\<lambda>w. bit w (l + n)"])
    (auto simp: bit_and_iff bit_not_iff bit_push_bit_iff bit_genmask_ull possible_bit_word)

text \<open>
  The command word the driver writes hands the option, the code and the start
  bit to the service processor in the fields it reads them from; the buffer word does so
  for the CPP bits and the address of a buffer that passed the \<open>FIELD_FIT\<close> tests.
\<close>

theorem nsp_words_roundtrip:
  assumes "FIELD_FIT 37 0 buff_addr"
  shows "nsp_command_option (nsp_command_word code option) = ucast option \<and>
    FIELD_GET 31 16 (nsp_command_word code option) = ucast code \<and>
    bit (nsp_command_word code option) 0 \<and>
    FIELD_GET 63 40 (nsp_buffer_word buff_cpp buff_addr) = ucast (drop_bit 8 buff_cpp) \<and>
    FIELD_GET 37 0 (nsp_buffer_word buff_cpp buff_addr) = buff_addr"
proof (intro conjI)
  show "nsp_command_option (nsp_command_word code option) = ucast option"
    by (rule bit_eqI)
      (auto simp: nsp_command_option_def nsp_command_word_def bit_FIELD_GET bit_or_iff bit_FIELD_PREP
        bit_ucast_iff bit_1_iff dest: bit_imp_le_length)
  show "FIELD_GET 31 16 (nsp_command_word code option) = ucast code"
    by (rule bit_eqI)
      (auto simp: nsp_command_word_def bit_FIELD_GET bit_or_iff bit_FIELD_PREP
        bit_ucast_iff bit_1_iff dest: bit_imp_le_length)
  show "bit (nsp_command_word code option) 0"
    unfolding nsp_command_word_def bit_or_iff bit_FIELD_PREP by simp
  show "FIELD_GET 63 40 (nsp_buffer_word buff_cpp buff_addr) = ucast (drop_bit 8 buff_cpp)"
    by (rule bit_eqI)
      (auto simp: nsp_buffer_word_def bit_FIELD_GET bit_or_iff bit_FIELD_PREP
        bit_ucast_iff bit_drop_bit_eq dest: bit_imp_le_length)
  show "FIELD_GET 37 0 (nsp_buffer_word buff_cpp buff_addr) = buff_addr"
    by (rule bit_eqI)
      (use FIELD_FIT_bits [OF assms] in \<open>auto simp: nsp_buffer_word_def bit_FIELD_GET bit_or_iff
        bit_FIELD_PREP possible_bit_word\<close>)
qed

lemma nsp_words_roundtrip_witness:
  "nsp_command_option (nsp_command_word 6 0xfffffff0) = 0xfffffff0 \<and>
   FIELD_GET 37 0 (nsp_buffer_word 0x07002000 0x1234567890) = 0x1234567890"
proof -
  have "FIELD_FIT 37 0 0x1234567890" by code_simp
  from nsp_words_roundtrip [OF this, of 6 "0xfffffff0" "0x07002000"] show ?thesis by simp
qed

section \<open>The protocol\<close>

lemma wait_reg_result:
  "nfp_nsp_wait_reg B env n fuel c a m v s = Some ((e, reg), s') \<Longrightarrow> e \<le> 0 \<and> (e = 0 \<longrightarrow> reg AND m = v)"
proof (induction B env n fuel c a m v s rule: nfp_nsp_wait_reg.induct)
  case (1 B env n c a m v s)
  then show ?case by simp
next
  case (2 B env n fuel c a m v s)
  obtain e1 r1 s1 where r: "nfp_cpp_readq B c a s = ((e1, r1), s1)" by (metis prod.exhaust)
  show ?case
  proof (cases "\<not> e1 < 0 \<and> r1 AND m \<noteq> v \<and> \<not> wr_intr env n \<and> \<not> wr_start env n > 30 * wr_hz env")
    case True
    with 2(1) [OF r [symmetric] refl] 2(2) r show ?thesis by simp
  next
    case False
    with 2(2) r show ?thesis by (auto split: if_splits)
  qed
qed

lemma wait_reg_returns:
  assumes "\<forall>k. k \<le> wr_start env k"
  shows "30 * wr_hz env + 1 < n + fuel \<Longrightarrow> 0 < fuel \<Longrightarrow> nfp_nsp_wait_reg B env n fuel c a m v s \<noteq> None"
proof (induction fuel arbitrary: n s)
  case 0
  then show ?case by simp
next
  case (Suc fuel)
  obtain e1 r1 s1 where r: "nfp_cpp_readq B c a s = ((e1, r1), s1)" by (metis prod.exhaust)
  show ?case
  proof (cases "wr_start env n > 30 * wr_hz env")
    case True
    with r show ?thesis by simp
  next
    case False
    moreover have "n \<le> wr_start env n" using assms by simp
    ultimately have "0 < fuel" "30 * wr_hz env + 1 < Suc n + fuel" using Suc.prems by linarith+
    with Suc.IH r show ?thesis by simp
  qed
qed

text \<open>
  Claim C26. A command always comes to an end: with a clock that advances at every round, the
  two polling loops of \<open>nfp_nsp_command\<close> return within 30 seconds of ticks each, whatever the
  service processor answers.
\<close>

theorem nsp_command_returns:
  assumes "\<forall>k. k \<le> wr_start (ce_start env) k" and "\<forall>k. k \<le> wr_start (ce_busy env) k"
    and "30 * wr_hz (ce_start env) + 1 < ce_fuel env" and "30 * wr_hz (ce_busy env) + 1 < ce_fuel env"
  shows "nfp_nsp_command B env code option buff_cpp buff_addr state s \<noteq> None"
proof -
  have "nfp_nsp_wait_reg B (ce_start env) 0 (ce_fuel env) c a m v x \<noteq> None"
    and "nfp_nsp_wait_reg B (ce_busy env) 0 (ce_fuel env) c a m v x \<noteq> None" for c a m v x
    using assms by (intro wait_reg_returns; simp)+
  then have n: "(nfp_nsp_wait_reg B (ce_start env) 0 (ce_fuel env) c a m v x = None) = False"
    "(nfp_nsp_wait_reg B (ce_busy env) 0 (ce_fuel env) c a m v x = None) = False" for c a m v x
    by blast+
  show ?thesis
    by (simp add: nfp_nsp_command_def Let_def n split: prod.split option.split)
qed

lemma nsp_check_error:
  "nfp_nsp_check B st s = ((e, st'), s') \<Longrightarrow> e \<le> 0 \<and> nsp_res st' = nsp_res st"
  by (auto simp: nfp_nsp_check_def Let_def split: prod.split_asm if_split_asm)

lemma nsp_check_passed:
  assumes "nfp_nsp_check B st s = ((0, st'), s1)"
  shows "\<exists>e1 r1. nfp_cpp_readq B (res_cpp_id (nsp_res st)) (res_addr (nsp_res st)) s = ((e1, r1), s1) \<and>
    0 \<le> e1 \<and> nsp_status_magic r1 = 0xab10 \<and> r1 AND 1 = 0 \<and> nsp_major st' = 0 \<and> 8 \<le> nsp_minor st'"
proof -
  obtain e r s2 where r: "nfp_cpp_readq B (res_cpp_id (nsp_res st)) (res_addr (nsp_res st)) s = ((e, r), s2)"
    by (metis prod.exhaust)
  note run = assms [unfolded nfp_nsp_check_def Let_def add_0_right r prod.case]
  have e: "\<not> e < 0" using run by (metis less_irrefl prod.inject)
  have mg: "nsp_status_magic r = 0xab10"
  proof (rule ccontr)
    assume "nsp_status_magic r \<noteq> 0xab10"
    with run [unfolded if_not_P [OF e]] show False by simp
  qed
  let ?st = "st\<lparr>nsp_major := ucast (nsp_status_major r), nsp_minor := ucast (nsp_status_minor r)\<rparr>"
  have v: "\<not> (nsp_major ?st \<noteq> 0 \<or> nsp_minor ?st < 8)"
  proof
    assume "nsp_major ?st \<noteq> 0 \<or> nsp_minor ?st < 8"
    with run [unfolded if_not_P [OF e]] mg show False by (simp only: if_True simp_thms) simp
  qed
  have b: "r AND 1 = 0"
  proof (rule ccontr)
    assume "r AND 1 \<noteq> 0"
    with run [unfolded if_not_P [OF e]] mg v show False by (simp only: if_True if_False simp_thms) simp
  qed
  have "?st = st'" "s2 = s1"
    using run [unfolded if_not_P [OF e]] mg v b by (simp_all only: if_True if_False simp_thms prod.inject)
  then show ?thesis using r e mg v b by (intro exI [of _ e] exI [of _ r]) (simp only: not_less de_Morgan_disj simp_thms)
qed

lemma nsp_command_handshake:
  assumes run: "nfp_nsp_command B env code option bcpp baddr st s = Some ((r, st'), s')" and ok: "0 \<le> r"
  shows "\<exists>s1 e2 s2 e3 s3 r4 s4 r5 s5 e6 r6.
    nfp_nsp_check B st s = ((0, st'), s1) \<and>
    nfp_cpp_writeq B (res_cpp_id (nsp_res st)) (res_addr (nsp_res st) + 16) (nsp_buffer_word bcpp baddr) s1 = (e2, s2) \<and>
    nfp_cpp_writeq B (res_cpp_id (nsp_res st)) (res_addr (nsp_res st) + 8) (nsp_command_word code option) s2 = (e3, s3) \<and>
    nfp_nsp_wait_reg B (ce_start env) 0 (ce_fuel env) (res_cpp_id (nsp_res st)) (res_addr (nsp_res st) + 8) 1 0 s3
      = Some ((0, r4), s4) \<and> r4 AND 1 = 0 \<and>
    nfp_nsp_wait_reg B (ce_busy env) 0 (ce_fuel env) (res_cpp_id (nsp_res st)) (res_addr (nsp_res st)) 1 0 s4
      = Some ((0, r5), s5) \<and> r5 AND 1 = 0 \<and> nsp_status_result r5 = 0 \<and>
    nfp_cpp_readq B (res_cpp_id (nsp_res st)) (res_addr (nsp_res st) + 8) s5 = ((e6, r6), s') \<and>
    0 \<le> e2 \<and> 0 \<le> e3 \<and> 0 \<le> e6 \<and> r = sint (ucast (nsp_command_option r6) :: u32)"
proof -
  let ?c = "res_cpp_id (nsp_res st)" and ?b = "res_addr (nsp_res st)"
  obtain e1 st1 s1 where c: "nfp_nsp_check B st s = ((e1, st1), s1)" by (metis prod.exhaust)
  obtain e2 s2 where w1: "nfp_cpp_writeq B ?c (?b + 16) (nsp_buffer_word bcpp baddr) s1 = (e2, s2)" by force
  obtain e3 s3 where w2: "nfp_cpp_writeq B ?c (?b + 8) (nsp_command_word code option) s2 = (e3, s3)" by force
  note run1 = run [unfolded nfp_nsp_command_def Let_def c w1 w2 prod.case]
  have e1: "e1 = 0" "\<not> e2 < 0" "\<not> e3 < 0" using run1 ok w1 w2 nsp_check_error [OF c] by (auto split: if_split_asm)
  show ?thesis
  proof (cases "nfp_nsp_wait_reg B (ce_start env) 0 (ce_fuel env) ?c (?b + 8) 1 0 s3")
    case None
    with run1 e1 w1 w2 ok show ?thesis by (simp split: if_split_asm)
  next
    case (Some x4)
    obtain e4 r4 s4 where x4: "x4 = ((e4, r4), s4)" by (metis prod.exhaust)
    have e4: "e4 = 0" using wait_reg_result [OF Some [unfolded x4]] run1 e1 w1 w2 Some x4 ok by (auto split: if_split_asm)
    show ?thesis
    proof (cases "nfp_nsp_wait_reg B (ce_busy env) 0 (ce_fuel env) ?c ?b 1 0 s4")
      case None
      with run1 e1 w1 w2 Some x4 e4 ok show ?thesis by (simp split: if_split_asm)
    next
      case S5: (Some x5)
      obtain e5 r5 s5 where x5: "x5 = ((e5, r5), s5)" by (metis prod.exhaust)
      obtain e6 r6 s6 where r6: "nfp_cpp_readq B ?c (?b + 8) s5 = ((e6, r6), s6)" by (metis prod.exhaust)
      have "e5 = 0" "0 \<le> e6" "nsp_status_result r5 = 0" "st' = st1" "s' = s6"
        "r = sint (ucast (nsp_command_option r6) :: u32)"
        using wait_reg_result [OF S5 [unfolded x5]] run1 e1 w1 w2 Some x4 e4 S5 x5 r6 ok
        by (auto simp: uint_0_iff split: if_split_asm)
      with c e1 w1 w2 Some x4 e4 S5 x5 r6 wait_reg_result show ?thesis by fastforce
    qed
  qed
qed

text \<open>
  Claim C25. When \<open>nfp_nsp_command\<close> returns a non-negative value, the whole handshake took place
  in order: the status read first showed a present NSP of a supported version that was not busy, the buffer word and then
  the command word were written, after that the start bit was read as clear, after that the
  busy bit was, with a result code of 0, and the value is the option field read last.
\<close>

theorem nsp_command_protocol:
  assumes run: "nfp_nsp_command B env code option bcpp baddr st s = Some ((r, st'), s')" and ok: "0 \<le> r"
  shows "\<exists>e1 r1 s1 e2 s2 e3 s3 r4 s4 r5 s5 e6 r6.
    nfp_cpp_readq B (res_cpp_id (nsp_res st)) (res_addr (nsp_res st)) s = ((e1, r1), s1) \<and> 0 \<le> e1 \<and>
    nsp_status_magic r1 = 0xab10 \<and> r1 AND 1 = 0 \<and> nsp_major st' = 0 \<and> 8 \<le> nsp_minor st' \<and>
    nfp_cpp_writeq B (res_cpp_id (nsp_res st)) (res_addr (nsp_res st) + 16) (nsp_buffer_word bcpp baddr) s1 = (e2, s2) \<and>
    nfp_cpp_writeq B (res_cpp_id (nsp_res st)) (res_addr (nsp_res st) + 8) (nsp_command_word code option) s2 = (e3, s3) \<and>
    nfp_nsp_wait_reg B (ce_start env) 0 (ce_fuel env) (res_cpp_id (nsp_res st)) (res_addr (nsp_res st) + 8) 1 0 s3
      = Some ((0, r4), s4) \<and> r4 AND 1 = 0 \<and>
    nfp_nsp_wait_reg B (ce_busy env) 0 (ce_fuel env) (res_cpp_id (nsp_res st)) (res_addr (nsp_res st)) 1 0 s4
      = Some ((0, r5), s5) \<and> r5 AND 1 = 0 \<and> nsp_status_result r5 = 0 \<and>
    nfp_cpp_readq B (res_cpp_id (nsp_res st)) (res_addr (nsp_res st) + 8) s5 = ((e6, r6), s') \<and>
    0 \<le> e2 \<and> 0 \<le> e3 \<and> 0 \<le> e6 \<and> r = sint (ucast (nsp_command_option r6) :: u32)"
proof -
  from nsp_command_handshake [OF assms] obtain s1 e2 s2 e3 s3 r4 s4 r5 s5 e6 r6 where
    c: "nfp_nsp_check B st s = ((0, st'), s1)" and
    h: "nfp_cpp_writeq B (res_cpp_id (nsp_res st)) (res_addr (nsp_res st) + 16) (nsp_buffer_word bcpp baddr) s1 = (e2, s2)"
    "nfp_cpp_writeq B (res_cpp_id (nsp_res st)) (res_addr (nsp_res st) + 8) (nsp_command_word code option) s2 = (e3, s3)"
    "nfp_nsp_wait_reg B (ce_start env) 0 (ce_fuel env) (res_cpp_id (nsp_res st)) (res_addr (nsp_res st) + 8) 1 0 s3
      = Some ((0, r4), s4)" "r4 AND 1 = 0"
    "nfp_nsp_wait_reg B (ce_busy env) 0 (ce_fuel env) (res_cpp_id (nsp_res st)) (res_addr (nsp_res st)) 1 0 s4
      = Some ((0, r5), s5)" "r5 AND 1 = 0" "nsp_status_result r5 = 0"
    "nfp_cpp_readq B (res_cpp_id (nsp_res st)) (res_addr (nsp_res st) + 8) s5 = ((e6, r6), s')"
    "0 \<le> e2" "0 \<le> e3" "0 \<le> e6" "r = sint (ucast (nsp_command_option r6) :: u32)"
    by (elim exE conjE)
  from nsp_check_passed [OF c] obtain e1 r1 where
    "nfp_cpp_readq B (res_cpp_id (nsp_res st)) (res_addr (nsp_res st)) s = ((e1, r1), s1)" "0 \<le> e1"
    "nsp_status_magic r1 = 0xab10" "r1 AND 1 = 0" "nsp_major st' = 0" "8 \<le> nsp_minor st'"
    by (elim exE conjE)
  with h show ?thesis by (intro exI conjI)
qed

text \<open>
  A command whose handshake went through (no bus error, no result code) is
  reported as failed when the option field that comes back has its top bit set: the 32-bit
  value is returned as a C \<open>int\<close>, so the caller reads it as a negative error code.
\<close>

theorem nsp_large_option_reads_as_error:
  assumes "nfp_nsp_check B st s = ((0, st'), s1)" and "FIELD_FIT 63 40 (ucast (drop_bit 8 bcpp))" "FIELD_FIT 37 0 baddr"
    and "nfp_cpp_writeq B (res_cpp_id (nsp_res st)) (res_addr (nsp_res st) + 16) (nsp_buffer_word bcpp baddr) s1 = (8, s2)"
    and "nfp_cpp_writeq B (res_cpp_id (nsp_res st)) (res_addr (nsp_res st) + 8) (nsp_command_word code option) s2 = (8, s3)"
    and "nfp_nsp_wait_reg B (ce_start env) 0 (ce_fuel env) (res_cpp_id (nsp_res st)) (res_addr (nsp_res st) + 8) 1 0 s3
      = Some ((0, r4), s4)"
    and "nfp_nsp_wait_reg B (ce_busy env) 0 (ce_fuel env) (res_cpp_id (nsp_res st)) (res_addr (nsp_res st)) 1 0 s4
      = Some ((0, r5), s5)"
    and "nfp_cpp_readq B (res_cpp_id (nsp_res st)) (res_addr (nsp_res st) + 8) s5 = ((8, r6), s6)"
    and "nsp_status_result r5 = 0" and "bit r6 63"
  shows "\<exists>r. nfp_nsp_command B env code option bcpp baddr st s = Some ((r, st'), s6) \<and> r < 0"
proof -
  have "bit (ucast (nsp_command_option r6) :: u32) 31"
    using assms(10) by (simp add: bit_ucast_iff nsp_command_option_def bit_FIELD_GET)
  then have "sint (ucast (nsp_command_option r6) :: u32) < 0"
    using bit_last_iff [of "ucast (nsp_command_option r6) :: u32"] by simp
  with assms show ?thesis by (simp add: nfp_nsp_command_def Let_def)
qed

text \<open>
  \<open>nfp_nsp_wait\<close> retries only on \<open>-EAGAIN\<close>, which the status check never gives for a
  service processor that is not there: when the magic number is missing it returns
  \<open>-ENODEV\<close> on the first round without waiting.
\<close>

theorem nsp_wait_gives_up_without_magic:
  assumes "nfp_cpp_readq B (res_cpp_id (nsp_res st)) (res_addr (nsp_res st)) s = ((8, reg), s')"
    and "nsp_status_magic reg \<noteq> 0xab10"
  shows "nfp_nsp_wait B cenv env 0 (Suc fuel) st s = Some ((- ENODEV, st), s')"
  using assms by (simp add: nfp_nsp_command_def nfp_nsp_check_def)

section \<open>Commands with data\<close>

text \<open>
  \<open>nfp_nsp_command_buf\<close> never runs a command whose data does not fit: if it returns
  without an error, the default buffer the service processor announced (in MiB) is at
  least as large as the input and the output, and the ABI is at least 0.13.
\<close>

theorem nsp_command_buf_fits:
  assumes "nfp_nsp_command_buf B env code option in_buf in_size out_given out_size st s = Some ((r, st', out), s')"
    and "0 \<le> r"
  shows "13 \<le> nsp_minor st \<and> (\<exists>e reg s1.
    nfp_cpp_readq B (res_cpp_id (nsp_res st)) (res_addr (nsp_res st) + 0x20) s = ((e, reg), s1) \<and> 0 \<le> e \<and>
    unat in_size \<le> unat (FIELD_GET 7 0 reg) * 2 ^ 20 \<and> unat out_size \<le> unat (FIELD_GET 7 0 reg) * 2 ^ 20)"
proof -
  obtain e reg s1 where c: "nfp_cpp_readq B (res_cpp_id (nsp_res st)) (res_addr (nsp_res st) + 0x20) s
      = ((e, reg), s1)" by (metis prod.exhaust)
  have "FIELD_GET 7 0 reg = take_bit 8 (FIELD_GET 7 0 reg)"
    by (rule bit_eqI) (auto simp: bit_FIELD_GET bit_take_bit_iff)
  then have "unat (FIELD_GET 7 0 reg) = take_bit 8 (unat (FIELD_GET 7 0 reg))"
    by (metis unsigned_take_bit_eq)
  then have small: "unat (FIELD_GET 7 0 reg) < 256"
    using take_bit_nat_less_exp [of 8 "unat (FIELD_GET 7 0 reg)"] by simp
  note run = assms(1) [unfolded nfp_nsp_command_buf_def Let_def c prod.case]
  have m: "\<not> nsp_minor st < 13"
  proof
    assume "nsp_minor st < 13"
    from run [unfolded if_P [OF this]] assms(2) show False by simp
  qed
  note run1 = run [unfolded if_not_P [OF m]]
  have e: "\<not> e < 0"
  proof
    assume "e < 0"
    from run1 [unfolded if_P [OF this]] assms(2) \<open>e < 0\<close> show False by simp
  qed
  note run2 = run1 [unfolded if_not_P [OF e]]
  have fits: "\<not> FIELD_GET 7 0 reg * 0x100000 < ucast (max in_size out_size)"
  proof
    assume "FIELD_GET 7 0 reg * 0x100000 < ucast (max in_size out_size)"
    from run2 [unfolded if_P [OF this]] assms(2) show False by simp
  qed
  have mb: "unat (FIELD_GET 7 0 reg * 0x100000) = unat (FIELD_GET 7 0 reg) * 2 ^ 20"
    using small by (simp add: unat_word_ariths)
  have "unat (max in_size out_size) \<le> unat (FIELD_GET 7 0 reg) * 2 ^ 20"
  proof -
    have "unat (max in_size out_size) < 2 ^ 32" by (rule order_less_le_trans [OF unsigned_less]) simp
    then have "take_bit 64 (unat (max in_size out_size)) = unat (max in_size out_size)"
      by (intro take_bit_nat_eq_self) simp
    then show ?thesis
      using fits mb by (simp add: word_less_nat_alt unsigned_ucast_eq)
  qed
  moreover have "unat in_size \<le> unat (max in_size out_size)" "unat out_size \<le> unat (max in_size out_size)"
    by (simp_all add: word_le_nat_alt [symmetric])
  ultimately show ?thesis using c m e by (intro conjI exI [of _ e] exI [of _ reg] exI [of _ s1]) simp_all
qed

section \<open>Evaluations\<close>

text \<open>A service processor whose registers, at address 0, always read the same.\<close>

definition nsp_bus :: "u64 \<Rightarrow> u64 \<Rightarrow> unit cpp_bus" where
  "nsp_bus status command =
     \<lparr>bus_read = (\<lambda>_ a n s. ((int n, put_unaligned_le64
        (if a = 0 then status else if a = 8 then command else if a = 0x20 then 1 else 0)), s)),
      bus_write = (\<lambda>_ _ bs s. (int (length bs), s)), bus_interface = 0x1001\<rparr>"

definition sample_nsp :: nfp_nsp where
  "sample_nsp = \<lparr>nsp_res = \<lparr>res_name = [], res_cpp_id = 0, res_addr = 0, res_size = 0, res_mutex = None\<rparr>,
     nsp_major = 0, nsp_minor = 20, nsp_modified = False, nsp_idx = 0, nsp_entries = None\<rparr>"

definition sample_poll :: poll_env where
  "sample_poll = \<lparr>wr_start = \<lambda>n. n, wr_intr = \<lambda>_. False, wr_hz = 1\<rparr>"

definition sample_command_env :: command_env where
  "sample_command_env = \<lparr>ce_start = sample_poll, ce_busy = sample_poll, ce_fuel = 32\<rparr>"

lemma nsp_command_returns_witness:
  "nfp_nsp_command (nsp_bus 0xab10001400000001 0x700000001) sample_command_env 1 0 0 0 sample_nsp () \<noteq> None"
  using nsp_command_returns [of sample_command_env "nsp_bus 0xab10001400000001 0x700000001" 1 0 0 0 sample_nsp "()"]
  by (simp add: sample_command_env_def sample_poll_def)

lemma nsp_command_protocol_witness:
  "\<exists>e6 r6. nfp_cpp_readq (nsp_bus 0xab10001400000000 0x700000000) 0 8 () = ((e6, r6), ()) \<and>
     7 = sint (ucast (nsp_command_option r6) :: u32)"
proof -
  have "nfp_nsp_command (nsp_bus 0xab10001400000000 0x700000000) sample_command_env 1 0 0 0 sample_nsp ()
      = Some ((7, sample_nsp), ())" by code_simp
  from nsp_command_protocol [OF this] show ?thesis by (auto simp: sample_nsp_def)
qed

lemma nsp_large_option_reads_as_error_witness:
  "\<exists>r. nfp_nsp_command (nsp_bus 0xab10001400000000 0x8000000000000000) sample_command_env 1 0 0 0 sample_nsp ()
     = Some ((r, sample_nsp), ()) \<and> r < 0"
proof (rule nsp_large_option_reads_as_error [where B = "nsp_bus 0xab10001400000000 0x8000000000000000"
      and st = sample_nsp and ?r5.0 = "0xab10001400000000" and ?r6.0 = "0x8000000000000000"
      and ?r4.0 = "0x8000000000000000" and s = "()" and st' = sample_nsp])
  let ?B = "nsp_bus 0xab10001400000000 0x8000000000000000"
  show "nfp_nsp_check ?B sample_nsp () = ((0, sample_nsp), ())" by code_simp
  show "FIELD_FIT 63 40 (ucast (drop_bit 8 (0 :: u32)))" "FIELD_FIT 37 0 0" by code_simp+
  show "nfp_cpp_writeq ?B (res_cpp_id (nsp_res sample_nsp)) (res_addr (nsp_res sample_nsp) + 16) (nsp_buffer_word 0 0) ()
      = (8, ())" by code_simp
  show "nfp_cpp_writeq ?B (res_cpp_id (nsp_res sample_nsp)) (res_addr (nsp_res sample_nsp) + 8) (nsp_command_word 1 0) ()
      = (8, ())" by code_simp
  show "nfp_nsp_wait_reg ?B (ce_start sample_command_env) 0 (ce_fuel sample_command_env)
      (res_cpp_id (nsp_res sample_nsp)) (res_addr (nsp_res sample_nsp) + 8) 1 0 () = Some ((0, 0x8000000000000000), ())"
    by code_simp
  show "nfp_nsp_wait_reg ?B (ce_busy sample_command_env) 0 (ce_fuel sample_command_env)
      (res_cpp_id (nsp_res sample_nsp)) (res_addr (nsp_res sample_nsp)) 1 0 () = Some ((0, 0xab10001400000000), ())"
    by code_simp
  show "nfp_cpp_readq ?B (res_cpp_id (nsp_res sample_nsp)) (res_addr (nsp_res sample_nsp) + 8) ()
      = ((8, 0x8000000000000000), ())" by code_simp
  show "nsp_status_result 0xab10001400000000 = 0" "bit (0x8000000000000000 :: u64) 63" by code_simp+
qed

lemma nsp_wait_gives_up_without_magic_witness:
  "nfp_nsp_wait (nsp_bus 0 0) (\<lambda>_. sample_command_env) sample_poll 0 32 sample_nsp () = Some ((- ENODEV, sample_nsp), ())"
proof -
  have "nfp_cpp_readq (nsp_bus 0 0) (res_cpp_id (nsp_res sample_nsp)) (res_addr (nsp_res sample_nsp)) () = ((8, 0), ())"
    by code_simp
  moreover have "nsp_status_magic 0 \<noteq> 0xab10" by code_simp
  ultimately show ?thesis using nsp_wait_gives_up_without_magic [of "nsp_bus 0 0" sample_nsp "()" 0 "()"
      "\<lambda>_. sample_command_env" sample_poll 31] by (simp del: nfp_nsp_wait.simps)
qed

lemma nsp_command_buf_fits_witness:
  "\<exists>e reg. nfp_cpp_readq (nsp_bus 0xab10001400000000 0) 0 0x20 () = ((e, reg), ()) \<and>
     4 \<le> unat (FIELD_GET 7 0 reg) * 2 ^ 20"
proof -
  have "nfp_nsp_command_buf (nsp_bus 0xab10001400000000 0) sample_command_env 8 4 (Some [1, 2, 3, 4]) 4 False 0 sample_nsp ()
      = Some ((0, sample_nsp, None), ())" by code_simp
  from nsp_command_buf_fits [OF this] show ?thesis by (auto simp: sample_nsp_def)
qed

end
