(* ===== verification/Flower_Ids.thy ===== *)
theory Flower_Ids
  imports Nfp_Prelude
begin

text \<open>
  The two id pools of \<open>flower/metadata.c\<close>: statistics contexts (\<open>nfp_fl_stats_id\<close>) and mask
  ids (\<open>nfp_fl_mask_id\<close>). Each is a counter of ids never handed out yet and a circular
  buffer (\<open>struct circ_buf\<close>) of the ones given back. Offsets are byte offsets as in the
  source; the buffers are functions from offsets. The contract of an id pool is a locale,
  interpreted on both.
\<close>

abbreviation (input) NFP_FL_STATS_ENTRY_RS :: nat where "NFP_FL_STATS_ENTRY_RS \<equiv> 1048576"
abbreviation (input) NFP_FL_STATS_ELEM_RS :: nat where "NFP_FL_STATS_ELEM_RS \<equiv> 4"
abbreviation (input) NFP_FL_REPEATED_HASH_MAX :: u32 where "NFP_FL_REPEATED_HASH_MAX \<equiv> 131072"
abbreviation (input) NFP_FLOWER_MASK_ENTRY_RS :: nat where "NFP_FLOWER_MASK_ENTRY_RS \<equiv> 256"
abbreviation (input) NFP_FL_MASK_REUSE_TIME_NS :: int where "NFP_FL_MASK_REUSE_TIME_NS \<equiv> 40000"

text \<open>\<open>CIRC_SPACE\<close> and \<open>CIRC_CNT\<close> of \<open>linux/circ_buf.h\<close>.\<close>

definition CIRC_CNT :: "int \<Rightarrow> int \<Rightarrow> int \<Rightarrow> int" where
  "CIRC_CNT head tail sz = (head - tail) AND (sz - 1)"

definition CIRC_SPACE :: "int \<Rightarrow> int \<Rightarrow> int \<Rightarrow> int" where
  "CIRC_SPACE head tail sz = CIRC_CNT tail (head + 1) sz"

section \<open>Statistics contexts\<close>

record nfp_fl_stats_id =
  si_head :: nat
  si_tail :: nat
  si_buf :: "nat \<Rightarrow> u32"
  si_init_unalloc :: u32

definition nfp_release_stats_entry :: "u32 \<Rightarrow> nfp_fl_stats_id \<Rightarrow> int \<times> nfp_fl_stats_id" where
  "nfp_release_stats_entry stats_context_id p =
     (if CIRC_SPACE (int (si_head p)) (int (si_tail p))
           (int NFP_FL_STATS_ENTRY_RS * int NFP_FL_STATS_ELEM_RS - int NFP_FL_STATS_ELEM_RS + 1) = 0
      then (- ENOBUFS, p)
      else (0, p\<lparr>si_buf := (si_buf p)(si_head p := stats_context_id),
               si_head := (si_head p + NFP_FL_STATS_ELEM_RS) mod
                          (NFP_FL_STATS_ENTRY_RS * NFP_FL_STATS_ELEM_RS)\<rparr>))"

definition nfp_get_stats_entry :: "nfp_fl_stats_id \<Rightarrow> (int \<times> u32) \<times> nfp_fl_stats_id" where
  "nfp_get_stats_entry p =
     (let freed_stats_id = of_nat NFP_FL_STATS_ENTRY_RS in
      if si_init_unalloc p > 0 then
        ((0, si_init_unalloc p - 1), p\<lparr>si_init_unalloc := si_init_unalloc p - 1\<rparr>)
      else if si_head p = si_tail p then ((- ENOENT, freed_stats_id), p)
      else ((0, si_buf p (si_tail p)),
            p\<lparr>si_buf := (si_buf p)(si_tail p := freed_stats_id),
              si_tail := (si_tail p + NFP_FL_STATS_ELEM_RS) mod
                         (NFP_FL_STATS_ENTRY_RS * NFP_FL_STATS_ELEM_RS)\<rparr>))"

section \<open>Mask ids\<close>

text \<open>Times are nanoseconds.\<close>

record nfp_fl_mask_id =
  mi_head :: nat
  mi_tail :: nat
  mi_buf :: "nat \<Rightarrow> u8"
  mi_last_used :: "u8 \<Rightarrow> int"
  mi_init_unallocated :: u8

definition nfp_release_mask_id :: "int \<Rightarrow> u8 \<Rightarrow> nfp_fl_mask_id \<Rightarrow> int \<times> nfp_fl_mask_id" where
  "nfp_release_mask_id now mask_id p =
     (if CIRC_SPACE (int (mi_head p)) (int (mi_tail p)) (int NFP_FLOWER_MASK_ENTRY_RS) = 0
      then (- ENOBUFS, p)
      else (0, p\<lparr>mi_buf := (mi_buf p)(mi_head p := mask_id),
               mi_head := (mi_head p + 1) mod (NFP_FLOWER_MASK_ENTRY_RS * 1),
               mi_last_used := (mi_last_used p)(mask_id := now)\<rparr>))"

definition nfp_mask_alloc :: "int \<Rightarrow> nfp_fl_mask_id \<Rightarrow> (int \<times> u8) \<times> nfp_fl_mask_id" where
  "nfp_mask_alloc now p =
     (let freed_id = of_nat (NFP_FLOWER_MASK_ENTRY_RS - 1) in
      if mi_init_unallocated p > 0 then
        ((0, mi_init_unallocated p), p\<lparr>mi_init_unallocated := mi_init_unallocated p - 1\<rparr>)
      else if mi_head p = mi_tail p then ((- ENOENT, freed_id), p)
      else let temp_id = mi_buf p (mi_tail p) in
        if now - mi_last_used p temp_id < NFP_FL_MASK_REUSE_TIME_NS then ((- ENOENT, freed_id), p)
        else ((0, temp_id),
              p\<lparr>mi_buf := (mi_buf p)(mi_tail p := freed_id),
                mi_tail := (mi_tail p + 1) mod (NFP_FLOWER_MASK_ENTRY_RS * 1)\<rparr>))"

section \<open>The contract of an id pool\<close>

text \<open>
  \<open>avail\<close> lists the ids a pool can hand out, \<open>valid\<close> the ids it manages. An id handed out
  leaves the pool; one that is not in the pool can always be given back. \<open>'e\<close> is what an
  operation takes from its environment (the time).
\<close>

locale id_pool =
  fixes get :: "'e \<Rightarrow> 'p \<Rightarrow> (int \<times> 'id) \<times> 'p"
    and release :: "'e \<Rightarrow> 'id \<Rightarrow> 'p \<Rightarrow> int \<times> 'p"
    and avail :: "'p \<Rightarrow> 'id list"
    and inv :: "'p \<Rightarrow> bool"
    and valid :: "'id \<Rightarrow> bool"
  assumes inv_distinct: "inv p \<Longrightarrow> distinct (avail p)"
    and inv_valid: "inv p \<Longrightarrow> set (avail p) \<subseteq> Collect valid"
    and get_ok: "inv p \<Longrightarrow> get e p = ((0, x), p') \<Longrightarrow>
        inv p' \<and> x \<in> set (avail p) \<and> set (avail p') = set (avail p) - {x}"
    and get_err: "inv p \<Longrightarrow> get e p = ((err, x), p') \<Longrightarrow> err \<noteq> 0 \<Longrightarrow> p' = p"
    and release_ok: "inv p \<Longrightarrow> valid x \<Longrightarrow> x \<notin> set (avail p) \<Longrightarrow> release e x p = (err, p') \<Longrightarrow>
        err = 0 \<and> inv p' \<and> set (avail p') = insert x (set (avail p))"
begin

text \<open>The ids in use are tracked beside the pool: handing out and giving back keeps them apart.\<close>

definition apart :: "'p \<Rightarrow> 'id set \<Rightarrow> bool" where
  "apart p U \<longleftrightarrow> inv p \<and> U \<subseteq> Collect valid \<and> U \<inter> set (avail p) = {}"

lemma get_apart:
  assumes "apart p U" and "get e p = ((0, x), p')"
  shows "x \<notin> U \<and> valid x \<and> apart p' (insert x U) \<and>
    insert x U \<union> set (avail p') = U \<union> set (avail p) \<and>
    length (avail p) = Suc (length (avail p'))"
proof -
  have i: "inv p" "inv p'" "x \<in> set (avail p)" "set (avail p') = set (avail p) - {x}"
    using assms get_ok unfolding apart_def by blast+
  have "length (avail p') = card (set (avail p) - {x})"
    using inv_distinct [OF i(2)] i(4) distinct_card by metis
  then have "length (avail p) = Suc (length (avail p'))"
    using i(3) distinct_card [OF inv_distinct [OF i(1)]] card_Suc_Diff1 [of "set (avail p)" x]
    by (metis List.finite_set)
  then show ?thesis using assms(1) i inv_valid [OF i(1)] unfolding apart_def by auto
qed

lemma release_apart:
  assumes "apart p U" and "x \<in> U" and "release e x p = (err, p')"
  shows "err = 0 \<and> apart p' (U - {x}) \<and>
    (U - {x}) \<union> set (avail p') = U \<union> set (avail p) \<and>
    length (avail p') = Suc (length (avail p))"
proof -
  have x: "inv p" "valid x" "x \<notin> set (avail p)" using assms(1,2) unfolding apart_def by auto
  from release_ok [OF this assms(3)] have r: "err = 0" "inv p'" "set (avail p') = insert x (set (avail p))"
    by blast+
  have "length (avail p') = card (insert x (set (avail p)))"
    using inv_distinct [OF r(2)] r(3) distinct_card by metis
  then have "length (avail p') = Suc (length (avail p))"
    using x(3) distinct_card [OF inv_distinct [OF x(1)]] by simp
  then show ?thesis using assms(1,2) r unfolding apart_def by auto
qed

lemma release_get_back:
  assumes "apart p U" and "get e p = ((0, x), p')" and "release e' x p' = (err, p'')"
  shows "err = 0 \<and> apart p'' U \<and> set (avail p'') = set (avail p) \<and> length (avail p'') = length (avail p)"
proof -
  from get_apart [OF assms(1,2)] have g: "x \<notin> U" "apart p' (insert x U)"
    "length (avail p) = Suc (length (avail p'))" by blast+
  from release_apart [OF g(2) _ assms(3)] g have "err = 0" "apart p'' U"
    "length (avail p'') = length (avail p)" by auto
  moreover have "set (avail p'') = set (avail p)"
  proof -
    have i: "inv p" using assms(1) by (simp add: apart_def)
    from get_ok [OF i assms(2)] have "inv p'" "x \<in> set (avail p)" "set (avail p') = set (avail p) - {x}"
      by simp_all
    moreover from this have "set (avail p'') = insert x (set (avail p'))"
      using release_ok [OF _ _ _ assms(3)] inv_valid [OF i] by auto
    ultimately show ?thesis by auto
  qed
  ultimately show ?thesis by blast
qed

end

section \<open>Circular buffers as queues\<close>

text \<open>The elements of a buffer of \<open>N\<close> slots, from \<open>t\<close> up to but excluding \<open>h\<close>.\<close>

definition ring_list :: "nat \<Rightarrow> nat \<Rightarrow> nat \<Rightarrow> (nat \<Rightarrow> 'a) \<Rightarrow> 'a list" where
  "ring_list N h t b = map b (if t \<le> h then [t..<h] else [t..<N] @ [0..<h])"

lemma ring_list_empty [simp]: "ring_list N t t b = []"
  by (simp add: ring_list_def)

lemma ring_length: "h < N \<Longrightarrow> t < N \<Longrightarrow> length (ring_list N h t b) < N"
  by (auto simp: ring_list_def)

lemma ring_enqueue:
  assumes "h < N" "t < N" "(h + 1) mod N \<noteq> t"
  shows "ring_list N ((h + 1) mod N) t (b(h := x)) = ring_list N h t b @ [x]"
proof (cases "Suc h = N")
  case True
  with assms have "0 < t" "t \<le> h" by auto
  with True show ?thesis by (auto simp: ring_list_def)
next
  case False
  with assms have "Suc h < N" "Suc h \<noteq> t" by auto
  then show ?thesis using assms by (auto simp: ring_list_def)
qed

lemma ring_dequeue:
  assumes "h < N" "t < N" "h \<noteq> t"
  shows "ring_list N h t b = b t # ring_list N h ((t + 1) mod N) (b(t := y))"
proof (cases "t < h")
  case True
  then have "Suc t < N" using assms by simp
  with True show ?thesis by (simp add: ring_list_def upt_conv_Cons)
next
  case False
  with assms have "h < t" by simp
  show ?thesis
  proof (cases "Suc t = N")
    case True
    with \<open>h < t\<close> show ?thesis by (simp add: ring_list_def upt_conv_Cons)
  next
    case F: False
    with assms \<open>h < t\<close> show ?thesis by (simp add: ring_list_def upt_conv_Cons)
  qed
qed

lemma ring_slots: "h < N \<Longrightarrow> t < N \<Longrightarrow> set (ring_list N h t b) \<subseteq> b ` {..<N}"
  by (auto simp: ring_list_def)

section \<open>The pools keep the contract\<close>

text \<open>The ids a pool holds: the fresh ones below the counter, and the queue.\<close>

definition stats_avail :: "nfp_fl_stats_id \<Rightarrow> u32 list" where
  "stats_avail p = map of_nat [0..<unat (si_init_unalloc p)] @
     ring_list 1048576 (si_head p div 4) (si_tail p div 4) (\<lambda>i. si_buf p (4 * i))"

definition stats_inv :: "nfp_fl_stats_id \<Rightarrow> bool" where
  "stats_inv p \<longleftrightarrow> 4 dvd si_head p \<and> 4 dvd si_tail p \<and> si_head p < 4194304 \<and> si_tail p < 4194304 \<and>
     distinct (stats_avail p) \<and> (\<forall>x \<in> set (stats_avail p). x < 131072)"

definition mask_avail :: "nfp_fl_mask_id \<Rightarrow> u8 list" where
  "mask_avail p = map of_nat [1..<Suc (unat (mi_init_unallocated p))] @
     ring_list 256 (mi_head p) (mi_tail p) (mi_buf p)"

definition mask_inv :: "nfp_fl_mask_id \<Rightarrow> bool" where
  "mask_inv p \<longleftrightarrow> mi_head p < 256 \<and> mi_tail p < 256 \<and> distinct (mask_avail p) \<and>
     (\<forall>x \<in> set (mask_avail p). x \<noteq> 0)"

lemma circ_mod: "t < N \<Longrightarrow> (int t - (int h + 1)) mod int N = 0 \<longleftrightarrow> (h + 1) mod N = t"
proof -
  assume t: "t < N"
  have "(int t - (int h + 1)) mod int N = 0 \<longleftrightarrow> int t mod int N = (int h + 1) mod int N"
    by (metis mod_eq_dvd_iff dvd_eq_mod_eq_0)
  also have "\<dots> \<longleftrightarrow> int (t mod N) = int ((h + 1) mod N)" by (simp add: of_nat_mod add.commute)
  also have "\<dots> \<longleftrightarrow> (h + 1) mod N = t" using t by auto
  finally show ?thesis .
qed

lemma circ_full_stats:
  assumes "h < 1048576" "t < 1048576"
  shows "CIRC_SPACE (int (4 * h)) (int (4 * t)) 4194301 = 0 \<longleftrightarrow> (h + 1) mod 1048576 = t"
proof -
  have m: "(4194300 :: int) = push_bit 2 (mask 20)" by (simp add: mask_eq_exp_minus_1 push_bit_eq_mult)
  have a: "x AND 4194300 = push_bit 2 (take_bit 20 (drop_bit 2 x))" for x :: int
  proof (rule bit_eqI)
    fix n
    have "2 \<le> n \<Longrightarrow> Suc (Suc (n - 2)) = n" by simp
    then show "bit (x AND 4194300) n \<longleftrightarrow> bit (push_bit 2 (take_bit 20 (drop_bit 2 x))) n"
      unfolding m by (auto simp: bit_and_iff bit_push_bit_iff bit_mask_iff bit_take_bit_iff bit_drop_bit_eq)
  qed
  have d: "(4 * int t - (4 * int h + 1)) div 4 = int t - (int h + 1)" by presburger
  have "CIRC_SPACE (int (4 * h)) (int (4 * t)) 4194301 = push_bit 2 ((int t - (int h + 1)) mod 1048576)"
    unfolding CIRC_SPACE_def CIRC_CNT_def using a [of "int (4 * t) - (int (4 * h) + 1)"] d
    by (simp add: drop_bit_eq_div take_bit_eq_mod)
  then show ?thesis using circ_mod [OF assms(2), of h] by (simp add: push_bit_eq_mult)
qed

lemma circ_full_mask:
  assumes "h < 256" "t < 256"
  shows "CIRC_SPACE (int h) (int t) 256 = 0 \<longleftrightarrow> (h + 1) mod 256 = t"
proof -
  have "x AND 255 = x mod 256" for x :: int
    using take_bit_eq_mask [of 8 x] by (simp add: take_bit_eq_mod mask_eq_exp_minus_1)
  then have "CIRC_SPACE (int h) (int t) 256 = (int t - (int h + 1)) mod 256"
    by (simp add: CIRC_SPACE_def CIRC_CNT_def)
  then show ?thesis using circ_mod [OF assms(2), of h] by simp
qed

lemma ring_full: "h < N \<Longrightarrow> (h + 1) mod N = t \<Longrightarrow> length (ring_list N h t b) = N - 1"
  by (cases "Suc h = N") (auto simp: ring_list_def)

lemma unat_pred: "0 < (w :: 'a::len word) \<Longrightarrow> unat w = Suc (unat (w - 1))"
proof -
  assume "0 < w"
  then have "w \<noteq> 0" by auto
  then have "unat w \<noteq> 0" "unat (w - 1) = unat w - 1" by (simp_all add: unat_eq_zero unat_minus_one)
  then show ?thesis by linarith
qed

lemma upt_of_nat_Suc:
  "0 < w \<Longrightarrow> map of_nat [0..<unat w] = map of_nat [0..<unat (w - 1)] @ [w - 1 :: 'a::len word]"
proof -
  assume "0 < w"
  then have "unat w = Suc (unat (w - 1))" by (rule unat_pred)
  then show ?thesis by simp
qed

lemma upt_of_nat_Suc':
  "0 < w \<Longrightarrow> map of_nat [1..<Suc (unat w)] = map of_nat [1..<Suc (unat (w - 1))] @ [w :: 'a::len word]"
proof -
  assume "0 < w"
  then have "unat w = Suc (unat (w - 1))" by (rule unat_pred)
  moreover from this have "of_nat (Suc (unat (w - 1))) = (of_nat (unat w) :: 'a word)" by simp
  moreover have "of_nat (unat w) = w" by simp
  ultimately show ?thesis by simp
qed

lemma stats_get_avail:
  assumes inv: "stats_inv p" and g: "nfp_get_stats_entry p = ((0, x), p')"
  shows "stats_inv p' \<and> x \<in> set (stats_avail p) \<and> set (stats_avail p') = set (stats_avail p) - {x}"
proof (cases "si_init_unalloc p > 0")
  case True
  let ?r = "ring_list 1048576 (si_head p div 4) (si_tail p div 4) (\<lambda>i. si_buf p (4 * i))"
  from g True have x: "x = si_init_unalloc p - 1" and p': "p' = p\<lparr>si_init_unalloc := x\<rparr>"
    by (auto simp: nfp_get_stats_entry_def)
  have a: "stats_avail p = map of_nat [0..<unat x] @ [x] @ ?r"
    using upt_of_nat_Suc [OF True] x by (simp add: stats_avail_def)
  have a': "stats_avail p' = map of_nat [0..<unat x] @ ?r" using p' by (simp add: stats_avail_def)
  show ?thesis using inv p' unfolding stats_inv_def a a' by auto
next
  case False
  with g have ne: "si_head p \<noteq> si_tail p" and x: "x = si_buf p (si_tail p)"
    and p': "p' = p\<lparr>si_buf := (si_buf p)(si_tail p := 1048576), si_tail := (si_tail p + 4) mod 4194304\<rparr>"
    by (auto simp: nfp_get_stats_entry_def split: if_split_asm)
  obtain h t where ht: "si_head p = 4 * h" "si_tail p = 4 * t" "h < 1048576" "t < 1048576" "h \<noteq> t"
    using inv ne by (auto simp: stats_inv_def elim!: dvdE)
  have t': "(4 * t + 4) mod 4194304 = 4 * ((t + 1) mod 1048576)"
    using mult_mod_right [of 4 "t + 1" 1048576] by (simp add: add.commute)
  have b: "(\<lambda>i. ((si_buf p)(4 * t := 1048576)) (4 * i)) = (\<lambda>i. si_buf p (4 * i))(t := 1048576)"
    by auto
  have a: "stats_avail p = x # stats_avail p'"
    using False ring_dequeue [OF ht(3-5), of "\<lambda>i. si_buf p (4 * i)" 1048576] x p' ht t' b
    by (simp add: stats_avail_def not_less fun_upd_def)
  have "si_tail p' < 4194304" "4 dvd si_tail p'" using p' ht t' by simp_all
  then show ?thesis using inv p' a unfolding stats_inv_def by auto
qed

lemma stats_release_avail:
  assumes inv: "stats_inv p" and x: "x < 131072" "x \<notin> set (stats_avail p)"
    and r: "nfp_release_stats_entry x p = (err, p')"
  shows "err = 0 \<and> stats_inv p' \<and> set (stats_avail p') = insert x (set (stats_avail p))"
proof -
  obtain h t where ht: "si_head p = 4 * h" "si_tail p = 4 * t" "h < 1048576" "t < 1048576"
    using inv by (auto simp: stats_inv_def elim!: dvdE)
  let ?r = "ring_list 1048576 h t (\<lambda>i. si_buf p (4 * i))"
  have "set (stats_avail p) \<subseteq> (of_nat :: nat \<Rightarrow> u32) ` {..<131072}"
  proof
    fix y assume "y \<in> set (stats_avail p)"
    then have "y < 131072" using inv by (simp add: stats_inv_def)
    then have "y = of_nat (unat y)" "unat y < 131072" by (simp_all add: word_less_nat_alt)
    then show "y \<in> of_nat ` {..<131072}" by blast
  qed
  then have "card (set (stats_avail p)) \<le> card ((of_nat :: nat \<Rightarrow> u32) ` {..<131072})"
    by (intro card_mono) auto
  also have "\<dots> \<le> 131072" using card_image_le [of "{..<131072::nat}" "of_nat :: nat \<Rightarrow> u32"] by simp
  finally have "length (stats_avail p) \<le> 131072"
    using inv distinct_card [of "stats_avail p"] by (simp add: stats_inv_def)
  then have "length ?r \<le> 131072" using ht by (simp add: stats_avail_def)
  then have nf: "(h + 1) mod 1048576 \<noteq> t" using ring_full [OF ht(3), of t "\<lambda>i. si_buf p (4 * i)"] by auto
  then have "CIRC_SPACE (int (si_head p)) (int (si_tail p)) 4194301 \<noteq> 0"
    using circ_full_stats [OF ht(3,4)] ht by simp
  with r have p': "err = 0" "p' = p\<lparr>si_buf := (si_buf p)(si_head p := x), si_head := (si_head p + 4) mod 4194304\<rparr>"
    by (simp_all add: nfp_release_stats_entry_def)
  have h': "(4 * h + 4) mod 4194304 = 4 * ((h + 1) mod 1048576)"
    using mult_mod_right [of 4 "h + 1" 1048576] by (simp add: add.commute)
  have b: "(\<lambda>i. ((si_buf p)(4 * h := x)) (4 * i)) = (\<lambda>i. si_buf p (4 * i))(h := x)" by auto
  have a: "stats_avail p' = stats_avail p @ [x]"
    using ring_enqueue [OF ht(3,4) nf, of "\<lambda>i. si_buf p (4 * i)" x] p' ht h' b
    by (simp add: stats_avail_def fun_upd_def)
  have "si_head p' < 4194304" "4 dvd si_head p'" using p' ht h' by simp_all
  then show ?thesis using inv p' a x unfolding stats_inv_def by auto
qed

interpretation stats_pool: id_pool "\<lambda>_ :: int. nfp_get_stats_entry" "\<lambda>_ :: int. nfp_release_stats_entry"
  stats_avail stats_inv "\<lambda>x. x < 131072"
proof unfold_locales
  fix p p' x err and e :: int
  show "stats_inv p \<Longrightarrow> distinct (stats_avail p)" by (simp add: stats_inv_def)
  show "stats_inv p \<Longrightarrow> set (stats_avail p) \<subseteq> {x. x < 131072}" by (auto simp: stats_inv_def)
  show "stats_inv p \<Longrightarrow> nfp_get_stats_entry p = ((0, x), p') \<Longrightarrow>
      stats_inv p' \<and> x \<in> set (stats_avail p) \<and> set (stats_avail p') = set (stats_avail p) - {x}"
    by (rule stats_get_avail)
  show "stats_inv p \<Longrightarrow> nfp_get_stats_entry p = ((err, x), p') \<Longrightarrow> err \<noteq> 0 \<Longrightarrow> p' = p"
    by (auto simp: nfp_get_stats_entry_def Let_def split: if_split_asm)
  show "stats_inv p \<Longrightarrow> x < 131072 \<Longrightarrow> x \<notin> set (stats_avail p) \<Longrightarrow> nfp_release_stats_entry x p = (err, p') \<Longrightarrow>
      err = 0 \<and> stats_inv p' \<and> set (stats_avail p') = insert x (set (stats_avail p))"
    by (rule stats_release_avail)
qed

lemma mask_get_avail:
  assumes inv: "mask_inv p" and g: "nfp_mask_alloc now p = ((0, x), p')"
  shows "mask_inv p' \<and> x \<in> set (mask_avail p) \<and> set (mask_avail p') = set (mask_avail p) - {x}"
proof (cases "mi_init_unallocated p > 0")
  case True
  let ?r = "ring_list 256 (mi_head p) (mi_tail p) (mi_buf p)"
  from g True have x: "x = mi_init_unallocated p" and p': "p' = p\<lparr>mi_init_unallocated := x - 1\<rparr>"
    by (auto simp: nfp_mask_alloc_def)
  have a: "mask_avail p = map of_nat [1..<Suc (unat (x - 1))] @ [x] @ ?r"
    using upt_of_nat_Suc' [OF True] x by (simp add: mask_avail_def)
  have a': "mask_avail p' = map of_nat [1..<Suc (unat (x - 1))] @ ?r" using p' by (simp add: mask_avail_def)
  show ?thesis using inv p' unfolding mask_inv_def a a' by auto
next
  case False
  with g have ne: "mi_head p \<noteq> mi_tail p" and x: "x = mi_buf p (mi_tail p)"
    and p': "p' = p\<lparr>mi_buf := (mi_buf p)(mi_tail p := 255), mi_tail := (mi_tail p + 1) mod 256\<rparr>"
    by (auto simp: nfp_mask_alloc_def Let_def split: if_split_asm)
  have ht: "mi_head p < 256" "mi_tail p < 256" using inv by (simp_all add: mask_inv_def)
  have a: "mask_avail p = x # mask_avail p'"
    using False ring_dequeue [OF ht ne, of "mi_buf p" 255] x p' by (simp add: mask_avail_def not_less)
  have "mi_tail p' < 256" using p' by simp
  then show ?thesis using inv p' a unfolding mask_inv_def by auto
qed

lemma mask_release_avail:
  assumes inv: "mask_inv p" and x: "x \<noteq> 0" "x \<notin> set (mask_avail p)"
    and r: "nfp_release_mask_id now x p = (err, p')"
  shows "err = 0 \<and> mask_inv p' \<and> set (mask_avail p') = insert x (set (mask_avail p))"
proof -
  have ht: "mi_head p < 256" "mi_tail p < 256" using inv by (simp_all add: mask_inv_def)
  let ?r = "ring_list 256 (mi_head p) (mi_tail p) (mi_buf p)"
  have "set (mask_avail p) \<subseteq> UNIV - {0, x}" using inv x by (auto simp: mask_inv_def)
  then have "card (set (mask_avail p)) \<le> card (UNIV - {0, x} :: u8 set)" by (intro card_mono) auto
  also have "\<dots> = CARD(u8) - card {0, x}" by (rule card_Diff_subset) auto
  also have "\<dots> = 254" using x(1) by (simp add: card_word)
  finally have "length (mask_avail p) \<le> 254"
    using inv distinct_card [of "mask_avail p"] by (simp add: mask_inv_def)
  then have "length ?r \<le> 254" by (simp add: mask_avail_def)
  then have nf: "(mi_head p + 1) mod 256 \<noteq> mi_tail p" using ring_full [OF ht(1), of "mi_tail p" "mi_buf p"] by auto
  then have "CIRC_SPACE (int (mi_head p)) (int (mi_tail p)) 256 \<noteq> 0" using circ_full_mask [OF ht] by simp
  with r have p': "err = 0" "p' = p\<lparr>mi_buf := (mi_buf p)(mi_head p := x), mi_head := (mi_head p + 1) mod 256,
      mi_last_used := (mi_last_used p)(x := now)\<rparr>"
    by (simp_all add: nfp_release_mask_id_def)
  have a: "mask_avail p' = mask_avail p @ [x]"
    using ring_enqueue [OF ht nf, of "mi_buf p" x] p' by (simp add: mask_avail_def)
  have "mi_head p' < 256" using p' by simp
  then show ?thesis using inv p' a x unfolding mask_inv_def by auto
qed

interpretation mask_pool: id_pool nfp_mask_alloc nfp_release_mask_id mask_avail mask_inv "\<lambda>x. x \<noteq> 0"
proof unfold_locales
  fix p p' x err and e :: int
  show "mask_inv p \<Longrightarrow> distinct (mask_avail p)" by (simp add: mask_inv_def)
  show "mask_inv p \<Longrightarrow> set (mask_avail p) \<subseteq> {x. x \<noteq> 0}" by (auto simp: mask_inv_def)
  show "mask_inv p \<Longrightarrow> nfp_mask_alloc e p = ((0, x), p') \<Longrightarrow>
      mask_inv p' \<and> x \<in> set (mask_avail p) \<and> set (mask_avail p') = set (mask_avail p) - {x}"
    by (rule mask_get_avail)
  show "mask_inv p \<Longrightarrow> nfp_mask_alloc e p = ((err, x), p') \<Longrightarrow> err \<noteq> 0 \<Longrightarrow> p' = p"
    by (auto simp: nfp_mask_alloc_def Let_def split: if_split_asm)
  show "mask_inv p \<Longrightarrow> x \<noteq> 0 \<Longrightarrow> x \<notin> set (mask_avail p) \<Longrightarrow> nfp_release_mask_id e x p = (err, p') \<Longrightarrow>
      err = 0 \<and> mask_inv p' \<and> set (mask_avail p') = insert x (set (mask_avail p))"
    by (rule mask_release_avail)
qed

end
