(* ===== verification/Flower_Metadata.thy ===== *)
theory Flower_Metadata
  imports Flower_Ids
begin

text \<open>
  Flow metadata of the flower offload, \<open>flower/metadata.c\<close>, and the operations of
  \<open>flower/offload.c\<close> that drive it. Every installed flow owns a statistics context and a
  reference to a mask entry; masks are shared by their hash. \<open>jhash\<close> is the kernel's, a
  parameter. The results of compiling match and action and of the transmission are inputs of
  the operations (record \<open>add_env\<close>); \<open>Flower_Rule\<close> composes them with the compilers.
\<close>

section \<open>State\<close>

record nfp_mask_id_table =
  mt_hash_key :: u32
  mt_ref_cnt :: u32
  mt_mask_id :: u8

record nfp_fl_payload =
  fl_key_len :: u8
  fl_mask_len :: u8
  fl_act_len :: u8
  fl_flags :: u8
  fl_host_ctx_id :: u32
  fl_host_cookie :: u64
  fl_flow_version :: u64
  fl_tc_flower_cookie :: u64
  fl_pkts :: u64
  fl_bytes :: u64
  fl_used :: u64
  fl_nfp_tun_ipv4_addr :: u32
  fl_unmasked_data :: "u8 list"
  fl_mask_data :: "u8 list"

record nfp_flower_priv =
  fp_mask_id_seed :: u32
  fp_flower_version :: u64
  fp_stats_ids :: nfp_fl_stats_id
  fp_mask_ids :: nfp_fl_mask_id
  fp_mask_table :: "nfp_mask_id_table list"
  fp_flow_table :: "nfp_fl_payload list"

type_synonym jhash_fn = "u8 list \<Rightarrow> u32 \<Rightarrow> u32"

abbreviation (input) NFP_FL_META_FLAG_NEW_MASK :: u8 where "NFP_FL_META_FLAG_NEW_MASK \<equiv> 128"
abbreviation (input) NFP_FL_META_FLAG_LAST_MASK :: u8 where "NFP_FL_META_FLAG_LAST_MASK \<equiv> 1"
abbreviation (input) NFP_FL_MASK_ID_LOCATION :: nat where "NFP_FL_MASK_ID_LOCATION \<equiv> 1"

text \<open>Times at which \<open>getnstimeofday64\<close> is read and the result of \<open>kmalloc\<close>.\<close>

record mask_env =
  me_alloc_now :: int
  me_release_now :: int
  me_mem :: bool

section \<open>Flow table and statistics\<close>

definition nfp_flower_search_fl_table :: "u64 \<Rightarrow> nfp_flower_priv \<Rightarrow> nfp_fl_payload option" where
  "nfp_flower_search_fl_table tc_flower_cookie priv =
     find (\<lambda>fl. fl_tc_flower_cookie fl = tc_flower_cookie) (fp_flow_table priv)"

record nfp_fl_stats_frame =
  sf_stats_con_id :: u32
  sf_pkt_count :: u32
  sf_byte_count :: u64
  sf_stats_cookie :: u64

text \<open>The first flow with the cookie is updated in place.\<close>

fun update_first :: "('a \<Rightarrow> bool) \<Rightarrow> ('a \<Rightarrow> 'a) \<Rightarrow> 'a list \<Rightarrow> 'a list" where
  "update_first P f [] = []"
| "update_first P f (x # xs) = (if P x then f x # xs else x # update_first P f xs)"

definition nfp_flower_update_stats :: "u64 \<Rightarrow> nfp_fl_stats_frame \<Rightarrow> nfp_flower_priv \<Rightarrow> nfp_flower_priv" where
  "nfp_flower_update_stats jiffies stats priv =
     (case nfp_flower_search_fl_table (sf_stats_cookie stats) priv of
        None \<Rightarrow> priv
      | Some nfp_flow \<Rightarrow>
        if fl_host_ctx_id nfp_flow \<noteq> sf_stats_con_id stats then priv
        else priv\<lparr>fp_flow_table := update_first (\<lambda>fl. fl_tc_flower_cookie fl = sf_stats_cookie stats)
               (\<lambda>fl. fl\<lparr>fl_pkts := fl_pkts fl + ucast (sf_pkt_count stats),
                        fl_bytes := fl_bytes fl + sf_byte_count stats,
                        fl_used := jiffies\<rparr>) (fp_flow_table priv)\<rparr>)"

text \<open>The frames of a message, as \<open>msg_len / sizeof(*stats_frame)\<close> decoded records.\<close>

definition nfp_flower_rx_flow_stats :: "u64 \<Rightarrow> nfp_fl_stats_frame list \<Rightarrow> nfp_flower_priv \<Rightarrow> nfp_flower_priv" where
  "nfp_flower_rx_flow_stats jiffies frames priv = fold (nfp_flower_update_stats jiffies) frames priv"

section \<open>Mask table\<close>

definition mask_hash :: "jhash_fn \<Rightarrow> u8 list \<Rightarrow> u8 \<Rightarrow> nfp_flower_priv \<Rightarrow> u32" where
  "mask_hash jhash mask_data mask_len priv = jhash (take (unat mask_len) mask_data) (fp_mask_id_seed priv)"

text \<open>The mask id or a negative error. A new entry goes to the head of its bucket.\<close>

definition nfp_add_mask_table ::
  "jhash_fn \<Rightarrow> mask_env \<Rightarrow> u8 list \<Rightarrow> u8 \<Rightarrow> nfp_flower_priv \<Rightarrow> int \<times> nfp_flower_priv" where
  "nfp_add_mask_table jhash env mask_data mask_len priv =
     (case nfp_mask_alloc (me_alloc_now env) (fp_mask_ids priv) of ((err, mask_id), ids) \<Rightarrow>
        if err \<noteq> 0 then (- ENOENT, priv\<lparr>fp_mask_ids := ids\<rparr>)
        else if \<not> me_mem env then
          (- ENOMEM, priv\<lparr>fp_mask_ids := snd (nfp_release_mask_id (me_release_now env) mask_id ids)\<rparr>)
        else (int (unat mask_id), priv\<lparr>fp_mask_ids := ids,
               fp_mask_table := \<lparr>mt_hash_key = mask_hash jhash mask_data mask_len priv, mt_ref_cnt = 1,
                                 mt_mask_id = mask_id\<rparr> # fp_mask_table priv\<rparr>))"

definition nfp_search_mask_table ::
  "jhash_fn \<Rightarrow> u8 list \<Rightarrow> u8 \<Rightarrow> nfp_flower_priv \<Rightarrow> nfp_mask_id_table option" where
  "nfp_search_mask_table jhash mask_data mask_len priv =
     find (\<lambda>e. mt_hash_key e = mask_hash jhash mask_data mask_len priv) (fp_mask_table priv)"

definition nfp_find_in_mask_table ::
  "jhash_fn \<Rightarrow> u8 list \<Rightarrow> u8 \<Rightarrow> nfp_flower_priv \<Rightarrow> int \<times> nfp_flower_priv" where
  "nfp_find_in_mask_table jhash mask_data mask_len priv =
     (case nfp_search_mask_table jhash mask_data mask_len priv of
        None \<Rightarrow> (- ENOENT, priv)
      | Some e \<Rightarrow> (int (unat (mt_mask_id e)),
          priv\<lparr>fp_mask_table := update_first (\<lambda>e. mt_hash_key e = mask_hash jhash mask_data mask_len priv)
                 (\<lambda>e. e\<lparr>mt_ref_cnt := mt_ref_cnt e + 1\<rparr>) (fp_mask_table priv)\<rparr>))"

text \<open>The result is \<open>(ok, flags, mask_id)\<close>; a failure leaves the mask id unset (0).\<close>

definition nfp_check_mask_add ::
  "jhash_fn \<Rightarrow> mask_env \<Rightarrow> u8 list \<Rightarrow> u8 \<Rightarrow> u8 \<Rightarrow> nfp_flower_priv \<Rightarrow> (bool \<times> u8 \<times> u8) \<times> nfp_flower_priv" where
  "nfp_check_mask_add jhash env mask_data mask_len meta_flags priv =
     (case nfp_find_in_mask_table jhash mask_data mask_len priv of (mid, priv) \<Rightarrow>
        if mid < 0 then
          (case nfp_add_mask_table jhash env mask_data mask_len priv of (mid, priv) \<Rightarrow>
             if mid < 0 then ((False, meta_flags, 0), priv)
             else ((True, meta_flags OR NFP_FL_META_FLAG_NEW_MASK, word_of_int mid), priv))
        else ((True, meta_flags, word_of_int mid), priv))"

text \<open>
  \<open>nfp_check_mask_remove\<close>; the returned flags are those to set, where the caller passed a
  flags pointer.
\<close>

definition nfp_check_mask_remove ::
  "jhash_fn \<Rightarrow> mask_env \<Rightarrow> u8 list \<Rightarrow> u8 \<Rightarrow> u8 \<Rightarrow> nfp_flower_priv \<Rightarrow> (bool \<times> u8 \<times> u8) \<times> nfp_flower_priv" where
  "nfp_check_mask_remove jhash env mask_data mask_len meta_flags priv =
     (case nfp_search_mask_table jhash mask_data mask_len priv of
        None \<Rightarrow> ((False, meta_flags, 0), priv)
      | Some e \<Rightarrow>
        let same = (\<lambda>e. mt_hash_key e = mask_hash jhash mask_data mask_len priv);
            ref = mt_ref_cnt e - 1
        in if ref = 0 then
             ((True, meta_flags OR NFP_FL_META_FLAG_LAST_MASK, mt_mask_id e),
              priv\<lparr>fp_mask_table := remove1 e (fp_mask_table priv),
                   fp_mask_ids := snd (nfp_release_mask_id (me_release_now env) (mt_mask_id e) (fp_mask_ids priv))\<rparr>)
           else
             ((True, meta_flags, mt_mask_id e),
              priv\<lparr>fp_mask_table := update_first same (\<lambda>e. e\<lparr>mt_ref_cnt := ref\<rparr>) (fp_mask_table priv)\<rparr>))"

section \<open>Compiling and releasing metadata\<close>

definition release_stats :: "u32 \<Rightarrow> nfp_flower_priv \<Rightarrow> int \<times> nfp_flower_priv" where
  "release_stats ctx priv =
     (case nfp_release_stats_entry ctx (fp_stats_ids priv) of (err, ids) \<Rightarrow> (err, priv\<lparr>fp_stats_ids := ids\<rparr>))"

definition nfp_compile_flow_metadata ::
  "jhash_fn \<Rightarrow> mask_env \<Rightarrow> u64 \<Rightarrow> u64 \<Rightarrow> nfp_fl_payload \<Rightarrow> nfp_flower_priv
     \<Rightarrow> (int \<times> nfp_fl_payload) \<times> nfp_flower_priv" where
  "nfp_compile_flow_metadata jhash env jiffies cookie nfp_flow priv =
     (case nfp_get_stats_entry (fp_stats_ids priv) of ((err, stats_cxt), ids) \<Rightarrow>
        let priv = priv\<lparr>fp_stats_ids := ids\<rparr> in
        if err \<noteq> 0 then ((- ENOENT, nfp_flow), priv)
        else let nfp_flow = nfp_flow\<lparr>fl_host_ctx_id := stats_cxt, fl_host_cookie := cookie\<rparr> in
        case nfp_check_mask_add jhash env (fl_mask_data nfp_flow) (fl_mask_len nfp_flow) (fl_flags nfp_flow) priv of
          ((ok, flags, new_mask_id), priv) \<Rightarrow>
        let nfp_flow = nfp_flow\<lparr>fl_flags := flags\<rparr> in
        if \<not> ok then
          (case release_stats stats_cxt priv of (err, priv) \<Rightarrow>
             ((if err \<noteq> 0 then - EINVAL else - ENOENT, nfp_flow), priv))
        else let nfp_flow = nfp_flow\<lparr>fl_flow_version := fp_flower_version priv,
                   fl_unmasked_data := (fl_unmasked_data nfp_flow)[NFP_FL_MASK_ID_LOCATION := new_mask_id],
                   fl_pkts := 0, fl_bytes := 0, fl_used := jiffies\<rparr>;
                 priv = priv\<lparr>fp_flower_version := fp_flower_version priv + 1\<rparr>
        in case nfp_flower_search_fl_table cookie priv of
             None \<Rightarrow> ((0, nfp_flow), priv)
           | Some _ \<Rightarrow>
             (case release_stats stats_cxt priv of (err, priv) \<Rightarrow>
                if err \<noteq> 0 then ((- EINVAL, nfp_flow), priv)
                else case nfp_check_mask_remove jhash env (fl_mask_data nfp_flow) (fl_mask_len nfp_flow)
                            0 priv of ((ok, _, _), priv) \<Rightarrow>
                  if \<not> ok then ((- EINVAL, nfp_flow), priv) else ((- EEXIST, nfp_flow), priv)))"

definition nfp_modify_flow_metadata ::
  "jhash_fn \<Rightarrow> mask_env \<Rightarrow> nfp_fl_payload \<Rightarrow> nfp_flower_priv \<Rightarrow> (int \<times> nfp_fl_payload) \<times> nfp_flower_priv" where
  "nfp_modify_flow_metadata jhash env nfp_flow priv =
     (case nfp_check_mask_remove jhash env (fl_mask_data nfp_flow) (fl_mask_len nfp_flow) (fl_flags nfp_flow) priv of
        ((_, flags, new_mask_id), priv) \<Rightarrow>
        let nfp_flow = nfp_flow\<lparr>fl_flags := flags, fl_flow_version := fp_flower_version priv,
              fl_unmasked_data := (fl_unmasked_data nfp_flow)[NFP_FL_MASK_ID_LOCATION := new_mask_id]\<rparr>;
            priv = priv\<lparr>fp_flower_version := fp_flower_version priv + 1\<rparr>
        in case release_stats (fl_host_ctx_id nfp_flow) priv of (err, priv) \<Rightarrow> ((err, nfp_flow), priv))"

text \<open>
  The initial state of \<open>nfp_flower_metadata_init\<close>. The buffers and the time stamps come
  uninitialised from the allocator (arguments); \<open>None\<close> when an allocation fails.
\<close>

definition nfp_flower_metadata_init ::
  "bool \<Rightarrow> bool \<Rightarrow> bool \<Rightarrow> u32 \<Rightarrow> (nat \<Rightarrow> u8) \<Rightarrow> (u8 \<Rightarrow> int) \<Rightarrow> (nat \<Rightarrow> u32) \<Rightarrow> nfp_flower_priv res" where
  "nfp_flower_metadata_init mem1 mem2 mem3 seed mbuf last_used sbuf =
     (if \<not> mem1 \<or> \<not> mem2 \<or> \<not> mem3 then Inl (- ENOMEM)
      else Inr \<lparr>fp_mask_id_seed = seed, fp_flower_version = 0,
        fp_stats_ids = \<lparr>si_head = 0, si_tail = 0, si_buf = sbuf, si_init_unalloc = NFP_FL_REPEATED_HASH_MAX\<rparr>,
        fp_mask_ids = \<lparr>mi_head = 0, mi_tail = 0, mi_buf = mbuf, mi_last_used = last_used,
                       mi_init_unallocated = of_nat (NFP_FLOWER_MASK_ENTRY_RS - 1)\<rparr>,
        fp_mask_table = [], fp_flow_table = []\<rparr>)"

section \<open>The offload operations\<close>

text \<open>
  What \<open>nfp_flower_add_offload\<close> gets from outside: whether its allocations succeed, the
  errors of the key layers, match and action compilers (0 is success), the payload they
  filled, and the result of the transmission.
\<close>

record add_env =
  fo_key_mem :: bool
  fo_key_err :: int
  fo_flow_mem :: bool
  fo_match_err :: int
  fo_action_err :: int
  fo_payload :: nfp_fl_payload
  fo_xmit_err :: int
  fo_masks :: mask_env
  fo_jiffies :: u64

definition nfp_flower_add_offload ::
  "jhash_fn \<Rightarrow> add_env \<Rightarrow> u64 \<Rightarrow> nfp_flower_priv \<Rightarrow> int \<times> nfp_flower_priv" where
  "nfp_flower_add_offload jhash env cookie priv =
     (if \<not> fo_key_mem env then (- ENOMEM, priv)
      else if fo_key_err env \<noteq> 0 then (fo_key_err env, priv)
      else if \<not> fo_flow_mem env then (- ENOMEM, priv)
      else if fo_match_err env \<noteq> 0 then (fo_match_err env, priv)
      else if fo_action_err env \<noteq> 0 then (fo_action_err env, priv)
      else case nfp_compile_flow_metadata jhash (fo_masks env) (fo_jiffies env) cookie (fo_payload env) priv of
        ((err, flow_pay), priv) \<Rightarrow>
        if err \<noteq> 0 then (err, priv)
        else if fo_xmit_err env \<noteq> 0 then (fo_xmit_err env, priv)
        else (0, priv\<lparr>fp_flow_table := flow_pay\<lparr>fl_tc_flower_cookie := cookie\<rparr> # fp_flow_table priv\<rparr>))"

definition nfp_flower_del_offload ::
  "jhash_fn \<Rightarrow> mask_env \<Rightarrow> int \<Rightarrow> u64 \<Rightarrow> nfp_flower_priv \<Rightarrow> int \<times> nfp_flower_priv" where
  "nfp_flower_del_offload jhash env xmit_err cookie priv =
     (case nfp_flower_search_fl_table cookie priv of
        None \<Rightarrow> (- ENOENT, priv)
      | Some nfp_flow \<Rightarrow>
        (case nfp_modify_flow_metadata jhash env nfp_flow priv of ((err, _), priv) \<Rightarrow>
         let err = (if err \<noteq> 0 then err else xmit_err)
         in (err, priv\<lparr>fp_flow_table := remove1 nfp_flow (fp_flow_table priv)\<rparr>)))"

text \<open>The counters handed to the classifier; they are cleared in the flow.\<close>

definition nfp_flower_get_stats :: "u64 \<Rightarrow> nfp_flower_priv \<Rightarrow> (u64 \<times> u64 \<times> u64) res \<times> nfp_flower_priv" where
  "nfp_flower_get_stats cookie priv =
     (case nfp_flower_search_fl_table cookie priv of
        None \<Rightarrow> (Inl (- EINVAL), priv)
      | Some nfp_flow \<Rightarrow>
        (Inr (fl_bytes nfp_flow, fl_pkts nfp_flow, fl_used nfp_flow),
         priv\<lparr>fp_flow_table := update_first (\<lambda>fl. fl_tc_flower_cookie fl = cookie)
                (\<lambda>fl. fl\<lparr>fl_pkts := 0, fl_bytes := 0\<rparr>) (fp_flow_table priv)\<rparr>))"

section \<open>The mask table with its references\<close>

text \<open>
  \<open>K\<close> lists the hashes that hold a reference. An entry may have more references than \<open>K\<close>
  shows, never fewer.
\<close>

definition mtab_inv :: "nfp_fl_mask_id \<Rightarrow> nfp_mask_id_table list \<Rightarrow> u32 list \<Rightarrow> bool" where
  "mtab_inv ids table K \<longleftrightarrow>
     mask_pool.apart ids (mt_mask_id ` set table) \<and> distinct (map mt_hash_key table) \<and>
     distinct (map mt_mask_id table) \<and>
     (\<forall>e\<in>set table. mt_ref_cnt e \<noteq> 0 \<and> count_list K (mt_hash_key e) \<le> unat (mt_ref_cnt e)) \<and>
     set K \<subseteq> mt_hash_key ` set table"

definition refs :: "nfp_mask_id_table list \<Rightarrow> nat" where
  "refs table = sum_list (map (\<lambda>e. unat (mt_ref_cnt e)) table)"

definition mask_of :: "nfp_mask_id_table list \<Rightarrow> u32 \<Rightarrow> u8 option" where
  "mask_of table h = map_option mt_mask_id (find (\<lambda>e. mt_hash_key e = h) table)"

lemma find_split:
  assumes "find P xs = Some e"
  obtains ys zs where "xs = ys @ e # zs" "P e" "\<forall>x\<in>set ys. \<not> P x"
    "\<And>f. update_first P f xs = ys @ f e # zs" "remove1 e xs = ys @ zs"
proof -
  from assms have "\<exists>ys zs. xs = ys @ e # zs \<and> P e \<and> (\<forall>x\<in>set ys. \<not> P x)"
    by (induction xs) (auto split: if_splits intro: exI [of _ "[]"], metis append_Cons set_ConsD)
  then obtain ys zs where s: "xs = ys @ e # zs" "P e" "\<forall>x\<in>set ys. \<not> P x" by blast
  have "update_first P f (ys @ e # zs) = ys @ f e # zs" for f
    using s(2,3) by (induction ys) auto
  moreover have "remove1 e xs = ys @ zs" using s by (auto simp: remove1_append)
  ultimately show thesis using that s by blast
qed

lemma refs_append [simp]: "refs (xs @ ys) = refs xs + refs ys" "refs (e # xs) = unat (mt_ref_cnt e) + refs xs"
  "refs [] = 0"
  by (simp_all add: refs_def)

lemma ref_inc: "w \<noteq> - 1 \<Longrightarrow> unat (w + 1 :: u32) = Suc (unat w)"
  by (metis Suc_eq_plus1 add.commute unatSuc word_neq_0_conv add_eq_0_iff neg_equal_iff_equal)

lemma mask_of_split:
  "distinct (map mt_hash_key (ys @ e # zs)) \<Longrightarrow> mask_of (ys @ e # zs) (mt_hash_key e) = Some (mt_mask_id e)"
  "h \<noteq> mt_hash_key e \<Longrightarrow> mask_of (ys @ e # zs) h = mask_of (ys @ zs) h"
  by (induction ys) (auto simp: mask_of_def)

lemma mask_of_update:
  "mt_hash_key e' = mt_hash_key e \<Longrightarrow> mt_mask_id e' = mt_mask_id e \<Longrightarrow>
     mask_of (ys @ e' # zs) h = mask_of (ys @ e # zs) h"
  by (induction ys) (auto simp: mask_of_def)

lemma mtab_weaken: "mtab_inv ids table (h # K) \<Longrightarrow> mtab_inv ids table K"
  unfolding mtab_inv_def by (auto split: if_splits dest: Suc_leD)

text \<open>Taking a reference.\<close>

lemma check_mask_add_ok:
  assumes inv: "mtab_inv (fp_mask_ids priv) (fp_mask_table priv) K"
    and small: "refs (fp_mask_table priv) < 2 ^ 32 - 1"
    and run: "nfp_check_mask_add jhash env md ml fl priv = ((True, fl', mid), priv')"
  defines "h \<equiv> mask_hash jhash md ml priv"
  shows "mtab_inv (fp_mask_ids priv') (fp_mask_table priv') (h # K) \<and>
    refs (fp_mask_table priv') = Suc (refs (fp_mask_table priv)) \<and>
    mask_of (fp_mask_table priv') h = Some mid \<and>
    (\<forall>k \<in> set K. mask_of (fp_mask_table priv') k = mask_of (fp_mask_table priv) k) \<and>
    priv' = priv\<lparr>fp_mask_ids := fp_mask_ids priv', fp_mask_table := fp_mask_table priv'\<rparr>"
proof (cases "nfp_search_mask_table jhash md ml priv")
  case (Some e)
  then have f: "find (\<lambda>e. mt_hash_key e = h) (fp_mask_table priv) = Some e"
    by (simp add: nfp_search_mask_table_def h_def)
  from f obtain ys zs where t: "fp_mask_table priv = ys @ e # zs" "mt_hash_key e = h"
    "\<And>g. update_first (\<lambda>e. mt_hash_key e = h) g (fp_mask_table priv) = ys @ g e # zs"
    by (rule find_split) blast
  let ?e = "e\<lparr>mt_ref_cnt := mt_ref_cnt e + 1\<rparr>"
  have run': "mid = mt_mask_id e" "priv' = priv\<lparr>fp_mask_table := ys @ ?e # zs\<rparr>"
    using run Some t(3) by (auto simp: nfp_check_mask_add_def nfp_find_in_mask_table_def h_def)
  have "unat (mt_ref_cnt e) < 2 ^ 32 - 1" using small t(1) by simp
  moreover have "unat (- 1 :: u32) = 2 ^ 32 - 1" by (simp add: unsigned_minus_1_eq_mask mask_eq_exp_minus_1)
  ultimately have "mt_ref_cnt e \<noteq> - 1" by (metis less_irrefl)
  then have inc: "unat (mt_ref_cnt e + 1) = Suc (unat (mt_ref_cnt e))" by (rule ref_inc)
  then have nz: "mt_ref_cnt e + 1 \<noteq> 0" by (metis nat.distinct(1) unsigned_0)
  have d: "distinct (map mt_hash_key (ys @ e # zs))" using inv t(1) by (simp add: mtab_inv_def)
  have ne: "\<forall>x \<in> set ys \<union> set zs. mt_hash_key x \<noteq> h"
    using d t(2) by auto (metis image_eqI)+
  have "mtab_inv (fp_mask_ids priv') (fp_mask_table priv') (h # K)"
    using inv t(1,2) inc nz ne unfolding run' mtab_inv_def by auto
  moreover have "mask_of (ys @ ?e # zs) k = mask_of (ys @ e # zs) k" for k
    by (rule mask_of_update) simp_all
  ultimately show ?thesis using run' t(1,2) inc mask_of_split(1) [OF d] by simp
next
  case None
  then have "\<forall>e \<in> set (fp_mask_table priv). mt_hash_key e \<noteq> h"
    by (auto simp: nfp_search_mask_table_def h_def find_None_iff)
  moreover obtain ids where g: "nfp_mask_alloc (me_alloc_now env) (fp_mask_ids priv) = ((0, mid), ids)"
    "priv' = priv\<lparr>fp_mask_ids := ids, fp_mask_table := \<lparr>mt_hash_key = h, mt_ref_cnt = 1, mt_mask_id = mid\<rparr>
       # fp_mask_table priv\<rparr>"
    using run None unfolding nfp_check_mask_add_def nfp_find_in_mask_table_def nfp_add_mask_table_def h_def
    by (auto split: prod.split_asm if_split_asm)
  moreover have "mask_pool.apart (fp_mask_ids priv) (mt_mask_id ` set (fp_mask_table priv))"
    using inv by (simp add: mtab_inv_def)
  ultimately show ?thesis
    using inv mask_pool.get_apart [OF _ g(1)]
    by (auto simp: mtab_inv_def mask_of_def count_list_0_iff)
qed

lemma check_mask_add_fail:
  assumes inv: "mtab_inv (fp_mask_ids priv) (fp_mask_table priv) K"
    and run: "nfp_check_mask_add jhash env md ml fl priv = ((False, fl', mid), priv')"
  shows "mtab_inv (fp_mask_ids priv') (fp_mask_table priv) K \<and>
    priv' = priv\<lparr>fp_mask_ids := fp_mask_ids priv'\<rparr>"
proof -
  have a: "mask_pool.apart (fp_mask_ids priv) (mt_mask_id ` set (fp_mask_table priv))"
    using inv by (simp add: mtab_inv_def)
  obtain err x ids where g: "nfp_mask_alloc (me_alloc_now env) (fp_mask_ids priv) = ((err, x), ids)"
    by (metis prod.exhaust)
  have s: "nfp_search_mask_table jhash md ml priv = None"
    using run by (auto simp: nfp_check_mask_add_def nfp_find_in_mask_table_def split: option.split_asm)
  show ?thesis
  proof (cases "err = 0")
    case True
    obtain e2 ids2 where r: "nfp_release_mask_id (me_release_now env) x ids = (e2, ids2)" by force
    have "priv' = priv\<lparr>fp_mask_ids := ids2\<rparr>"
      using run s g r True by (auto simp: nfp_check_mask_add_def nfp_find_in_mask_table_def
          nfp_add_mask_table_def split: if_split_asm)
    with mask_pool.release_get_back [OF a g [unfolded True] r] inv show ?thesis by (simp add: mtab_inv_def)
  next
    case False
    have "ids = fp_mask_ids priv" using mask_pool.get_err [OF _ g False] a by (simp add: mask_pool.apart_def)
    then have "priv' = priv\<lparr>fp_mask_ids := fp_mask_ids priv\<rparr>"
      using run s g False by (auto simp: nfp_check_mask_add_def nfp_find_in_mask_table_def
          nfp_add_mask_table_def)
    with inv show ?thesis by simp
  qed
qed

text \<open>Giving a reference back.\<close>

lemma check_mask_remove_ok:
  assumes inv: "mtab_inv (fp_mask_ids priv) (fp_mask_table priv) (mask_hash jhash md ml priv # K)"
    and run: "nfp_check_mask_remove jhash env md ml fl priv = ((ok, fl', mid), priv')"
  shows "ok \<and> mtab_inv (fp_mask_ids priv') (fp_mask_table priv') K \<and>
    Suc (refs (fp_mask_table priv')) = refs (fp_mask_table priv) \<and>
    (\<forall>k \<in> set K. mask_of (fp_mask_table priv') k = mask_of (fp_mask_table priv) k) \<and>
    priv' = priv\<lparr>fp_mask_ids := fp_mask_ids priv', fp_mask_table := fp_mask_table priv'\<rparr>"
proof -
  define h where "h = mask_hash jhash md ml priv"
  have "h \<in> mt_hash_key ` set (fp_mask_table priv)" using inv by (simp add: mtab_inv_def h_def)
  then obtain e where f: "find (\<lambda>e. mt_hash_key e = h) (fp_mask_table priv) = Some e"
    by (cases "find (\<lambda>e. mt_hash_key e = h) (fp_mask_table priv)") (auto simp: find_None_iff)
  then have s: "nfp_search_mask_table jhash md ml priv = Some e" by (simp add: nfp_search_mask_table_def h_def)
  from f obtain ys zs where t: "fp_mask_table priv = ys @ e # zs" "mt_hash_key e = h"
    "\<And>g. update_first (\<lambda>e. mt_hash_key e = h) g (fp_mask_table priv) = ys @ g e # zs"
    "remove1 e (fp_mask_table priv) = ys @ zs"
    by (rule find_split) blast
  let ?ref = "mt_ref_cnt e - 1" and ?e = "e\<lparr>mt_ref_cnt := mt_ref_cnt e - 1\<rparr>"
  have nz: "mt_ref_cnt e \<noteq> 0" "Suc (count_list K h) \<le> unat (mt_ref_cnt e)"
    using inv t(1,2) by (auto simp: mtab_inv_def h_def)
  then have dec: "unat (mt_ref_cnt e) = Suc (unat ?ref)" by (intro unat_pred) (simp add: word_neq_0_conv)
  have d: "distinct (map mt_hash_key (ys @ e # zs))" "distinct (map mt_mask_id (ys @ e # zs))"
    using inv t(1) by (simp_all add: mtab_inv_def)
  have ne: "\<forall>x \<in> set ys \<union> set zs. mt_hash_key x \<noteq> h"
    using d(1) t(2) by auto (metis image_eqI)+
  have cnt: "\<forall>x \<in> set (ys @ zs). mt_ref_cnt x \<noteq> 0 \<and> count_list K (mt_hash_key x) \<le> unat (mt_ref_cnt x)"
    using inv t(1) ne by (auto simp: mtab_inv_def h_def split: if_split_asm)
  show ?thesis
  proof (cases "?ref = 0")
    case True
    obtain err ids where r: "nfp_release_mask_id (me_release_now env) (mt_mask_id e) (fp_mask_ids priv) = (err, ids)"
      by force
    have run': "ok" "priv' = priv\<lparr>fp_mask_table := ys @ zs, fp_mask_ids := ids\<rparr>"
      using run s True t(4) r by (auto simp: nfp_check_mask_remove_def Let_def)
    have "mask_pool.apart (fp_mask_ids priv) (mt_mask_id ` set (fp_mask_table priv))"
      using inv by (simp add: mtab_inv_def)
    from mask_pool.release_apart [OF this _ r] t(1)
    have "mask_pool.apart ids (mt_mask_id ` set (fp_mask_table priv) - {mt_mask_id e})" by simp
    moreover have "mt_mask_id ` set (fp_mask_table priv) - {mt_mask_id e} = mt_mask_id ` set (ys @ zs)"
      using t(1) d(2) by auto (metis image_eqI)+
    moreover have "h \<notin> set K" using nz(2) dec True by (simp add: count_list_0_iff)
    moreover note cnt
    moreover have "set K \<subseteq> mt_hash_key ` set (ys @ zs)"
    proof
      fix k assume k: "k \<in> set K"
      then have "k \<in> mt_hash_key ` set (ys @ e # zs)" using inv t(1) by (auto simp: mtab_inv_def)
      moreover have "k \<noteq> h" using k \<open>h \<notin> set K\<close> by blast
      ultimately show "k \<in> mt_hash_key ` set (ys @ zs)" using t(2) by auto
    qed
    ultimately have "mtab_inv ids (ys @ zs) K" using d unfolding mtab_inv_def by simp
    moreover have "mask_of (ys @ zs) k = mask_of (ys @ e # zs) k" if "k \<in> set K" for k
      using mask_of_split(2) [of k e ys zs] that \<open>h \<notin> set K\<close> t(2) by metis
    ultimately show ?thesis using run' t(1) dec True by simp
  next
    case False
    have run': "ok" "priv' = priv\<lparr>fp_mask_table := ys @ ?e # zs\<rparr>"
      using run s False t(3) by (auto simp: nfp_check_mask_remove_def Let_def h_def)
    have kt: "mt_hash_key ` set (ys @ ?e # zs) = mt_hash_key ` set (fp_mask_table priv)"
      "mt_mask_id ` set (ys @ ?e # zs) = mt_mask_id ` set (fp_mask_table priv)" using t(1) by auto
    have "set K \<subseteq> mt_hash_key ` set (fp_mask_table priv)" using inv by (auto simp: mtab_inv_def)
    moreover have "mask_pool.apart (fp_mask_ids priv) (mt_mask_id ` set (fp_mask_table priv))"
      using inv by (simp add: mtab_inv_def)
    moreover have "\<forall>x \<in> set (ys @ ?e # zs). mt_ref_cnt x \<noteq> 0 \<and> count_list K (mt_hash_key x) \<le> unat (mt_ref_cnt x)"
      using cnt False dec nz t(2) by auto
    moreover have "distinct (map mt_hash_key (ys @ ?e # zs))" "distinct (map mt_mask_id (ys @ ?e # zs))"
      using d by simp_all
    ultimately have "mtab_inv (fp_mask_ids priv) (ys @ ?e # zs) K"
      unfolding mtab_inv_def kt by blast
    then have "mtab_inv (fp_mask_ids priv') (fp_mask_table priv') K" using run' by simp
    moreover have "mask_of (ys @ ?e # zs) k = mask_of (ys @ e # zs) k" for k
      by (rule mask_of_update) simp_all
    ultimately show ?thesis using run' t(1,2) dec by simp
  qed
qed

section \<open>The invariant of the offload\<close>

definition flow_hash :: "jhash_fn \<Rightarrow> u32 \<Rightarrow> nfp_fl_payload \<Rightarrow> u32" where
  "flow_hash jhash seed fl = jhash (take (unat (fl_mask_len fl)) (fl_mask_data fl)) seed"

definition flow_mask_id :: "nfp_fl_payload \<Rightarrow> u8" where
  "flow_mask_id fl = fl_unmasked_data fl ! 1"

definition flower_inv :: "jhash_fn \<Rightarrow> nfp_flower_priv \<Rightarrow> bool" where
  "flower_inv jhash priv \<longleftrightarrow>
     (let flows = fp_flow_table priv; hash = flow_hash jhash (fp_mask_id_seed priv) in
      mtab_inv (fp_mask_ids priv) (fp_mask_table priv) (map hash flows) \<and>
      stats_pool.apart (fp_stats_ids priv) (set (map fl_host_ctx_id flows)) \<and>
      distinct (map fl_host_ctx_id flows) \<and>
      distinct (map fl_tc_flower_cookie flows) \<and>
      refs (fp_mask_table priv) + length (stats_avail (fp_stats_ids priv)) = 131072 \<and>
      (\<forall>fl \<in> set flows. 1 < length (fl_unmasked_data fl) \<longrightarrow>
         mask_of (fp_mask_table priv) (hash fl) = Some (flow_mask_id fl)))"

text \<open>What a successful search and an unsuccessful one say of the cookies.\<close>

lemma search_fl_None:
  "nfp_flower_search_fl_table c priv = None \<longleftrightarrow> c \<notin> fl_tc_flower_cookie ` set (fp_flow_table priv)"
  by (auto simp: nfp_flower_search_fl_table_def find_None_iff)

lemma mask_hash_eq: "mask_hash jhash (fl_mask_data fl) (fl_mask_len fl) priv = flow_hash jhash (fp_mask_id_seed priv) fl"
  by (simp add: mask_hash_def flow_hash_def)

lemma release_stats_fresh:
  assumes "stats_pool.apart ids U" and "x \<in> U" and "nfp_release_stats_entry x ids = (err, ids')"
  shows "err = 0 \<and> stats_pool.apart ids' (U - {x}) \<and> length (stats_avail ids') = Suc (length (stats_avail ids)) \<and>
    x \<notin> set (stats_avail ids) \<and> set (stats_avail ids') = insert x (set (stats_avail ids))"
proof -
  have u: "stats_inv ids" "x < 131072" "x \<notin> set (stats_avail ids)"
    using assms(1,2) by (auto simp: stats_pool.apart_def)
  from stats_pool.release_ok [OF this assms(3)] stats_pool.release_apart [OF assms] u(3) show ?thesis by blast
qed

text \<open>Compiling the metadata of a flow: what each outcome leaves behind.\<close>

lemma compile_fail_inv:
  assumes inv: "flower_inv jhash priv"
    and run: "nfp_compile_flow_metadata jhash env j c fl priv = ((err, fl'), priv')" and err: "err \<noteq> 0"
  shows "flower_inv jhash priv' \<and> fp_flow_table priv' = fp_flow_table priv"
proof -
  let ?U = "set (map fl_host_ctx_id (fp_flow_table priv))" and ?H = "flow_hash jhash (fp_mask_id_seed priv)"
  let ?K = "map ?H (fp_flow_table priv)"
  have i: "mtab_inv (fp_mask_ids priv) (fp_mask_table priv) ?K" "stats_pool.apart (fp_stats_ids priv) ?U"
    "refs (fp_mask_table priv) + length (stats_avail (fp_stats_ids priv)) = 131072"
    using inv by (simp_all add: flower_inv_def Let_def)
  obtain e1 ctx ids where g: "nfp_get_stats_entry (fp_stats_ids priv) = ((e1, ctx), ids)" by (metis prod.exhaust)
  show ?thesis
  proof (cases "e1 = 0")
    case False
    have "ids = fp_stats_ids priv" using stats_pool.get_err [OF _ g False] i(2) by (simp add: stats_pool.apart_def)
    with run g False have "priv' = priv" by (simp add: nfp_compile_flow_metadata_def Let_def)
    with inv show ?thesis by simp
  next
    case True
    let ?p1 = "priv\<lparr>fp_stats_ids := ids\<rparr>"
    note ga = stats_pool.get_apart [OF i(2) g [unfolded True]]
    obtain ok flags mid p2 where a: "nfp_check_mask_add jhash env (fl_mask_data fl) (fl_mask_len fl) (fl_flags fl) ?p1
        = ((ok, flags, mid), p2)" by (metis prod.exhaust)
    have i1: "mtab_inv (fp_mask_ids ?p1) (fp_mask_table ?p1) ?K" using i(1) by simp
    show ?thesis
    proof (cases ok)
      case F: False
      have aF: "nfp_check_mask_add jhash env (fl_mask_data fl) (fl_mask_len fl) (fl_flags fl) ?p1
          = ((False, flags, mid), p2)" using a F by simp
      note f = check_mask_add_fail [OF i1 aF]
      obtain e3 ids3 where r: "nfp_release_stats_entry ctx ids = (e3, ids3)" by force
      obtain X where X: "p2 = priv\<lparr>fp_stats_ids := ids, fp_mask_ids := X\<rparr>"
        "mtab_inv X (fp_mask_table priv) ?K"
        using f by auto
      have "priv' = priv\<lparr>fp_stats_ids := ids3, fp_mask_ids := X\<rparr>"
        using run g True aF r X(1) by (auto simp: nfp_compile_flow_metadata_def release_stats_def Let_def)
      moreover note stats_pool.release_get_back [OF i(2) g [unfolded True] r]
      ultimately show ?thesis using inv X(2) i(3) by (simp add: flower_inv_def Let_def)
    next
      case T: True
      have small: "refs (fp_mask_table ?p1) < 2 ^ 32 - 1" using i(3) by simp
      have aT: "nfp_check_mask_add jhash env (fl_mask_data fl) (fl_mask_len fl) (fl_flags fl) ?p1
          = ((True, flags, mid), p2)" using a T by simp
      note ok = check_mask_add_ok [OF i1 small aT]
      let ?p3 = "p2\<lparr>fp_flower_version := fp_flower_version p2 + 1\<rparr>"
      have p2: "p2 = ?p1\<lparr>fp_mask_ids := fp_mask_ids p2, fp_mask_table := fp_mask_table p2\<rparr>" using ok by blast
      have fld: "fp_stats_ids p2 = ids" "fp_flow_table p2 = fp_flow_table priv" "fp_mask_id_seed p2 = fp_mask_id_seed priv"
        by (subst p2, simp)+
      have "nfp_flower_search_fl_table c ?p3 \<noteq> None"
      proof
        assume "nfp_flower_search_fl_table c ?p3 = None"
        with run g True aT err show False by (simp add: nfp_compile_flow_metadata_def Let_def)
      qed
      then obtain x where x: "nfp_flower_search_fl_table c ?p3 = Some x" by blast
      obtain e3 ids3 where r: "nfp_release_stats_entry ctx ids = (e3, ids3)" by force
      note rb = stats_pool.release_get_back [OF i(2) g [unfolded True] r]
      let ?p4 = "?p3\<lparr>fp_stats_ids := ids3\<rparr>"
      obtain ok5 fl5 mid5 p5 where rm: "nfp_check_mask_remove jhash env (fl_mask_data fl) (fl_mask_len fl) 0 ?p4
          = ((ok5, fl5, mid5), p5)" by (metis prod.exhaust)
      have "mask_hash jhash (fl_mask_data fl) (fl_mask_len fl) ?p4 = mask_hash jhash (fl_mask_data fl) (fl_mask_len fl) ?p1"
        using fld by (simp add: mask_hash_def)
      then have "mtab_inv (fp_mask_ids ?p4) (fp_mask_table ?p4)
          (mask_hash jhash (fl_mask_data fl) (fl_mask_len fl) ?p4 # ?K)" using ok by simp
      note rok = check_mask_remove_ok [OF this rm]
      have priv': "priv' = p5" using run g True a T x r rb rm rok fld
        by (simp add: nfp_compile_flow_metadata_def release_stats_def Let_def)
      have p5: "fp_stats_ids p5 = ids3" "fp_flow_table p5 = fp_flow_table priv" "fp_mask_id_seed p5 = fp_mask_id_seed priv"
      proof -
        have e: "p5 = ?p4\<lparr>fp_mask_ids := fp_mask_ids p5, fp_mask_table := fp_mask_table p5\<rparr>" using rok by blast
        show "fp_stats_ids p5 = ids3" "fp_flow_table p5 = fp_flow_table priv" "fp_mask_id_seed p5 = fp_mask_id_seed priv"
          by (subst e, simp add: fld)+
      qed
      have "mask_of (fp_mask_table p5) (?H f) = mask_of (fp_mask_table priv) (?H f)" if "f \<in> set (fp_flow_table priv)" for f
        using that rok ok by simp
      then show ?thesis using inv rok ok rb i(3) p5 unfolding priv' flower_inv_def Let_def by auto
    qed
  qed
qed

lemma compile_ok_inv:
  assumes inv: "flower_inv jhash priv"
    and run: "nfp_compile_flow_metadata jhash env j c fl priv = ((0, fl'), priv')"
  shows "c \<notin> fl_tc_flower_cookie ` set (fp_flow_table priv) \<and> fp_flow_table priv' = fp_flow_table priv \<and>
    flower_inv jhash (priv'\<lparr>fp_flow_table := fl'\<lparr>fl_tc_flower_cookie := c\<rparr> # fp_flow_table priv\<rparr>) \<and>
    flower_inv jhash priv'"
proof -
  let ?U = "set (map fl_host_ctx_id (fp_flow_table priv))" and ?H = "flow_hash jhash (fp_mask_id_seed priv)"
  let ?K = "map ?H (fp_flow_table priv)"
  have i: "mtab_inv (fp_mask_ids priv) (fp_mask_table priv) ?K" "stats_pool.apart (fp_stats_ids priv) ?U"
    "refs (fp_mask_table priv) + length (stats_avail (fp_stats_ids priv)) = 131072"
    using inv by (simp_all add: flower_inv_def Let_def)
  obtain e1 ctx ids where g: "nfp_get_stats_entry (fp_stats_ids priv) = ((e1, ctx), ids)" by (metis prod.exhaust)
  have e1: "e1 = 0" using run g by (auto simp: nfp_compile_flow_metadata_def Let_def split: if_split_asm)
  let ?p1 = "priv\<lparr>fp_stats_ids := ids\<rparr>"
  note ga = stats_pool.get_apart [OF i(2) g [unfolded e1]]
  obtain ok flags mid p2 where a: "nfp_check_mask_add jhash env (fl_mask_data fl) (fl_mask_len fl) (fl_flags fl) ?p1
      = ((ok, flags, mid), p2)" by (metis prod.exhaust)
  have okt: ok using run g e1 a
    by (auto simp: nfp_compile_flow_metadata_def Let_def split: if_split_asm prod.split_asm)
  have i1: "mtab_inv (fp_mask_ids ?p1) (fp_mask_table ?p1) ?K" using i(1) by simp
  have small: "refs (fp_mask_table ?p1) < 2 ^ 32 - 1" using i(3) by simp
  have a': "nfp_check_mask_add jhash env (fl_mask_data fl) (fl_mask_len fl) (fl_flags fl) ?p1 = ((True, flags, mid), p2)"
    using a okt by simp
  note ok = check_mask_add_ok [OF i1 small a']
  let ?p3 = "p2\<lparr>fp_flower_version := fp_flower_version p2 + 1\<rparr>"
  have p2: "p2 = ?p1\<lparr>fp_mask_ids := fp_mask_ids p2, fp_mask_table := fp_mask_table p2\<rparr>" using ok by blast
  have fld: "fp_stats_ids p2 = ids" "fp_flow_table p2 = fp_flow_table priv" "fp_mask_id_seed p2 = fp_mask_id_seed priv"
    by (subst p2, simp)+
  have none: "nfp_flower_search_fl_table c ?p3 = None"
    using run g e1 a' by (auto simp: nfp_compile_flow_metadata_def Let_def split: option.split_asm prod.split_asm if_split_asm)
  then have c: "c \<notin> fl_tc_flower_cookie ` set (fp_flow_table priv)" using search_fl_None [of c ?p3] fld by simp
  have res: "priv' = ?p3" "fl_mask_data fl' = fl_mask_data fl" "fl_mask_len fl' = fl_mask_len fl"
    "fl_host_ctx_id fl' = ctx" "fl_unmasked_data fl' = (fl_unmasked_data fl)[1 := mid]"
    using run g e1 a' none by (auto simp: nfp_compile_flow_metadata_def Let_def)
  have h: "?H (fl'\<lparr>fl_tc_flower_cookie := c\<rparr>) = mask_hash jhash (fl_mask_data fl) (fl_mask_len fl) ?p1"
    using res by (simp add: flow_hash_def mask_hash_def)
  let ?p4 = "priv'\<lparr>fp_flow_table := fl'\<lparr>fl_tc_flower_cookie := c\<rparr> # fp_flow_table priv\<rparr>"
  have "stats_pool.apart ids (insert ctx ?U)" "ctx \<notin> ?U" "length (stats_avail (fp_stats_ids priv)) = Suc (length (stats_avail ids))"
    using ga by simp_all
  moreover have "mask_of (fp_mask_table p2) (?H f) = mask_of (fp_mask_table priv) (?H f)" if "f \<in> set (fp_flow_table priv)" for f
    using that ok by simp
  ultimately have inv4: "flower_inv jhash ?p4"
    using inv ok i(3) fld res h c unfolding flower_inv_def Let_def by (auto simp: flow_mask_id_def)
  have "flower_inv jhash priv'"
    using inv4 fld res mtab_weaken unfolding flower_inv_def Let_def
    by (auto simp: stats_pool.apart_def)
  with inv4 c fld res show ?thesis by simp
qed

lemma mtab_middle: "mtab_inv ids table (xs @ h # ys) = mtab_inv ids table (h # xs @ ys)"
  unfolding mtab_inv_def by (simp add: insert_commute)

text \<open>Removing a flow gives its context and its mask reference back.\<close>

lemma del_inv:
  assumes inv: "flower_inv jhash priv"
    and run: "nfp_flower_del_offload jhash env xe c priv = (err, priv')"
    and fl: "nfp_flower_search_fl_table c priv = Some fl"
  shows "flower_inv jhash priv' \<and> err = xe \<and> fp_flow_table priv' = remove1 fl (fp_flow_table priv) \<and>
    fl_host_ctx_id fl \<notin> set (stats_avail (fp_stats_ids priv)) \<and>
    set (stats_avail (fp_stats_ids priv')) = insert (fl_host_ctx_id fl) (set (stats_avail (fp_stats_ids priv))) \<and>
    Suc (refs (fp_mask_table priv')) = refs (fp_mask_table priv)"
proof -
  let ?H = "flow_hash jhash (fp_mask_id_seed priv)"
  from fl obtain ys zs where t: "fp_flow_table priv = ys @ fl # zs" "remove1 fl (fp_flow_table priv) = ys @ zs"
    unfolding nfp_flower_search_fl_table_def by (rule find_split) blast
  have i: "mtab_inv (fp_mask_ids priv) (fp_mask_table priv) (?H fl # map ?H (ys @ zs))"
    "stats_pool.apart (fp_stats_ids priv) (set (map fl_host_ctx_id (ys @ fl # zs)))"
    "distinct (map fl_host_ctx_id (ys @ fl # zs))"
    "refs (fp_mask_table priv) + length (stats_avail (fp_stats_ids priv)) = 131072"
    using inv [unfolded flower_inv_def Let_def t(1)] mtab_middle [of "fp_mask_ids priv" "fp_mask_table priv" "map ?H ys" "?H fl" "map ?H zs"]
    by (simp_all only: map_append list.map simp_thms)
  obtain ok flags mid p1 where rm: "nfp_check_mask_remove jhash env (fl_mask_data fl) (fl_mask_len fl) (fl_flags fl) priv
      = ((ok, flags, mid), p1)" by (metis prod.exhaust)
  note r = check_mask_remove_ok [OF i(1) [folded mask_hash_eq] rm]
  obtain X T where X: "p1 = priv\<lparr>fp_mask_ids := X, fp_mask_table := T\<rparr>" using r by blast
  obtain e ids where rel: "nfp_release_stats_entry (fl_host_ctx_id fl) (fp_stats_ids priv) = (e, ids)" by force
  have "fl_host_ctx_id fl \<in> set (map fl_host_ctx_id (ys @ fl # zs))" by simp
  from release_stats_fresh [OF i(2) this rel]
  have s: "e = 0" "stats_pool.apart ids (set (map fl_host_ctx_id (ys @ fl # zs)) - {fl_host_ctx_id fl})"
    "length (stats_avail ids) = Suc (length (stats_avail (fp_stats_ids priv)))"
    "fl_host_ctx_id fl \<notin> set (stats_avail (fp_stats_ids priv))"
    "set (stats_avail ids) = insert (fl_host_ctx_id fl) (set (stats_avail (fp_stats_ids priv)))" by simp_all
  have "set (map fl_host_ctx_id (ys @ fl # zs)) - {fl_host_ctx_id fl} = set (map fl_host_ctx_id (ys @ zs))"
    using i(3) by auto
  then have s2: "stats_pool.apart ids (set (map fl_host_ctx_id (ys @ zs)))" using s(2) by simp
  have "err = xe" "priv' = priv\<lparr>fp_mask_ids := X, fp_mask_table := T, fp_stats_ids := ids,
      fp_flower_version := fp_flower_version priv + 1, fp_flow_table := ys @ zs\<rparr>"
    using run fl rm X rel s(1) t(2)
    by (auto simp: nfp_flower_del_offload_def nfp_modify_flow_metadata_def release_stats_def Let_def)
  moreover have "mtab_inv X T (map ?H (ys @ zs))" "Suc (refs T) = refs (fp_mask_table priv)"
    using r X by simp_all
  moreover have "mask_of T (?H f) = mask_of (fp_mask_table priv) (?H f)" if "f \<in> set ys \<union> set zs" for f
    using r X that by auto
  ultimately show ?thesis using inv t s s2 i(4) by (auto simp: flower_inv_def Let_def image_Un)
qed

lemma map_update_first: "(\<And>x. g (f x) = g x) \<Longrightarrow> map g (update_first P f xs) = map g xs"
  by (induction xs) auto

lemma in_update_first: "y \<in> set (update_first P f xs) \<Longrightarrow> \<exists>x \<in> set xs. y = x \<or> y = f x"
  by (induction xs) (auto split: if_splits)

lemma flower_inv_update:
  assumes "flower_inv jhash priv"
    and "\<And>fl. fl_host_ctx_id (f fl) = fl_host_ctx_id fl" "\<And>fl. fl_tc_flower_cookie (f fl) = fl_tc_flower_cookie fl"
    "\<And>fl. fl_mask_data (f fl) = fl_mask_data fl" "\<And>fl. fl_mask_len (f fl) = fl_mask_len fl"
    "\<And>fl. fl_unmasked_data (f fl) = fl_unmasked_data fl"
  shows "flower_inv jhash (priv\<lparr>fp_flow_table := update_first P f (fp_flow_table priv)\<rparr>)"
proof -
  have h: "flow_hash jhash seed (f fl) = flow_hash jhash seed fl" for seed fl
    using assms(4,5) by (simp add: flow_hash_def)
  have "fl_host_ctx_id ` set (update_first P f (fp_flow_table priv)) = fl_host_ctx_id ` set (fp_flow_table priv)"
    using arg_cong [OF map_update_first [of fl_host_ctx_id f P "fp_flow_table priv", OF assms(2)], of set] by simp
  moreover have "mask_of (fp_mask_table priv) (flow_hash jhash (fp_mask_id_seed priv) y) = Some (flow_mask_id y)"
    if "y \<in> set (update_first P f (fp_flow_table priv))" "1 < length (fl_unmasked_data y)" for y
    using in_update_first [OF that(1)] that(2) assms(1,6) h
    by (auto simp: flower_inv_def Let_def flow_mask_id_def)
  ultimately show ?thesis
    using assms(1) map_update_first [of "flow_hash jhash (fp_mask_id_seed priv)" f, OF h]
      map_update_first [of fl_host_ctx_id f, OF assms(2)] map_update_first [of fl_tc_flower_cookie f, OF assms(3)]
    by (simp add: flower_inv_def Let_def)
qed

lemma add_inv:
  assumes inv: "flower_inv jhash priv" and run: "nfp_flower_add_offload jhash env c priv = (err, priv')"
  shows "flower_inv jhash priv'"
proof -
  obtain e fl p where m: "nfp_compile_flow_metadata jhash (fo_masks env) (fo_jiffies env) c (fo_payload env) priv = ((e, fl), p)"
    by (metis prod.exhaust)
  show ?thesis
  proof (cases "e = 0")
    case True
    note ok = compile_ok_inv [OF inv m [unfolded True]]
    show ?thesis using run m True ok inv by (auto simp: nfp_flower_add_offload_def split: if_split_asm)
  next
    case False
    show ?thesis using run m False compile_fail_inv [OF inv m False] inv
      by (auto simp: nfp_flower_add_offload_def split: if_split_asm)
  qed
qed

section \<open>All runs of the offload\<close>

inductive flower_step :: "jhash_fn \<Rightarrow> nfp_flower_priv \<Rightarrow> nfp_flower_priv \<Rightarrow> bool" for jhash where
  add: "nfp_flower_add_offload jhash env c priv = (err, priv') \<Longrightarrow> flower_step jhash priv priv'"
| del: "nfp_flower_del_offload jhash env xe c priv = (err, priv') \<Longrightarrow> flower_step jhash priv priv'"
| rx_stats: "nfp_flower_rx_flow_stats j frames priv = priv' \<Longrightarrow> flower_step jhash priv priv'"
| get_stats: "nfp_flower_get_stats c priv = (r, priv') \<Longrightarrow> flower_step jhash priv priv'"

lemma update_stats_inv:
  "flower_inv jhash priv \<Longrightarrow> flower_inv jhash (nfp_flower_update_stats j f priv)"
  by (auto simp: nfp_flower_update_stats_def split: option.split intro!: flower_inv_update)

lemma flower_step_inv: "flower_step jhash priv priv' \<Longrightarrow> flower_inv jhash priv \<Longrightarrow> flower_inv jhash priv'"
proof (induction rule: flower_step.induct)
  case (add env c priv err priv')
  then show ?case using add_inv by blast
next
  case (del env xe c priv err priv')
  show ?case
  proof (cases "nfp_flower_search_fl_table c priv")
    case None
    with del show ?thesis by (simp add: nfp_flower_del_offload_def)
  next
    case (Some fl)
    from del_inv [OF del(2,1) Some] show ?thesis by blast
  qed
next
  case (rx_stats j frames priv priv')
  have "flower_inv jhash p \<Longrightarrow> flower_inv jhash (fold (nfp_flower_update_stats j) frames p)" for p
    by (induction frames arbitrary: p) (simp_all add: update_stats_inv)
  from this [OF rx_stats(2)] rx_stats(1) show ?case by (simp add: nfp_flower_rx_flow_stats_def)
next
  case (get_stats c priv r priv')
  show ?case
  proof (cases "nfp_flower_search_fl_table c priv")
    case None
    with get_stats show ?thesis by (simp add: nfp_flower_get_stats_def)
  next
    case (Some fl)
    have "flower_inv jhash (priv\<lparr>fp_flow_table := update_first (\<lambda>fl. fl_tc_flower_cookie fl = c)
        (\<lambda>fl. fl\<lparr>fl_pkts := 0, fl_bytes := 0\<rparr>) (fp_flow_table priv)\<rparr>)"
      by (rule flower_inv_update [OF get_stats(2)]) simp_all
    with get_stats Some show ?thesis by (simp add: nfp_flower_get_stats_def)
  qed
qed

lemma of_nat_word_inj: "inj_on (of_nat :: nat \<Rightarrow> 'a::len word) {..<2 ^ LENGTH('a)}"
proof (rule inj_onI)
  fix x y :: nat
  assume a: "x \<in> {..<2 ^ LENGTH('a)}" "y \<in> {..<2 ^ LENGTH('a)}" "(of_nat x :: 'a word) = of_nat y"
  have "unat (of_nat x :: 'a word) = unat (of_nat y :: 'a word)" using a(3) by simp
  then have "take_bit LENGTH('a) x = take_bit LENGTH('a) y" by (simp add: unsigned_of_nat)
  then show "x = y" using a(1,2) by (simp add: take_bit_nat_eq_self)
qed

lemma distinct_of_nat: "n \<le> 2 ^ LENGTH('a) \<Longrightarrow> distinct (map (of_nat :: nat \<Rightarrow> 'a::len word) [m..<n])"
proof -
  assume n: "n \<le> 2 ^ LENGTH('a)"
  then have "{m..<n} \<subseteq> {..<2 ^ LENGTH('a)}" by (auto intro: less_le_trans)
  from inj_on_subset [OF of_nat_word_inj this] show ?thesis by (simp add: distinct_map)
qed

lemma unat_of_nat_small: "n < 2 ^ LENGTH('a) \<Longrightarrow> unat (of_nat n :: 'a::len word) = n"
  by (simp add: unsigned_of_nat take_bit_nat_eq_self)

lemma metadata_init_inv:
  assumes "nfp_flower_metadata_init m1 m2 m3 seed mb lu sb = Inr priv"
  shows "flower_inv jhash priv"
proof -
  let ?s = "fp_stats_ids priv" and ?m = "fp_mask_ids priv"
  have p: "?s = \<lparr>si_head = 0, si_tail = 0, si_buf = sb, si_init_unalloc = 131072\<rparr>"
    "?m = \<lparr>mi_head = 0, mi_tail = 0, mi_buf = mb, mi_last_used = lu, mi_init_unallocated = 255\<rparr>"
    "fp_mask_table priv = []" "fp_flow_table priv = []"
    using assms by (auto simp: nfp_flower_metadata_init_def split: if_split_asm)
  have sa: "stats_avail ?s = map of_nat [0..<131072]" unfolding p stats_avail_def by (simp del: upt_rec_numeral)
  have d: "distinct (map (of_nat :: nat \<Rightarrow> u32) [0..<131072])" by (rule distinct_of_nat) simp
  have lt: "\<forall>x \<in> set (map (of_nat :: nat \<Rightarrow> u32) [0..<131072]). x < 131072"
  proof
    fix x :: u32 assume "x \<in> set (map of_nat [0..<131072])"
    then obtain i :: nat where "x = of_nat i" "i < 131072" unfolding set_map set_upt by auto
    then show "x < 131072" by (simp add: word_less_nat_alt unat_of_nat_small)
  qed
  have si: "stats_inv ?s" using d lt sa unfolding stats_inv_def p by (simp only: nfp_fl_stats_id.simps) simp
  have sl: "length (stats_avail ?s) = 131072" unfolding sa length_map length_upt by simp
  have ma: "mask_avail ?m = map of_nat [1..<256]" unfolding p mask_avail_def by (simp del: upt_rec_numeral)
  have md: "distinct (map (of_nat :: nat \<Rightarrow> u8) [1..<256])" by (rule distinct_of_nat) simp
  have nz: "\<forall>x \<in> set (map (of_nat :: nat \<Rightarrow> u8) [1..<256]). x \<noteq> 0"
  proof
    fix x :: u8 assume "x \<in> set (map of_nat [1..<256])"
    then obtain i :: nat where "x = of_nat i" "1 \<le> i" "i < 256" unfolding set_map set_upt by auto
    then have "unat x = i" by (simp add: unat_of_nat_small)
    with \<open>1 \<le> i\<close> show "x \<noteq> 0" by auto
  qed
  have mi: "mask_inv ?m" using md nz ma unfolding mask_inv_def by (simp only: p nfp_fl_mask_id.simps) simp
  show ?thesis
    using si sl mi unfolding flower_inv_def mtab_inv_def Let_def stats_pool.apart_def mask_pool.apart_def p(3,4)
    by simp
qed

lemma flower_reach_inv:
  "(flower_step jhash)\<^sup>*\<^sup>* p0 p \<Longrightarrow> nfp_flower_metadata_init m1 m2 m3 seed mb lu sb = Inr p0 \<Longrightarrow> flower_inv jhash p"
  by (induction rule: rtranclp_induct) (auto intro: metadata_init_inv flower_step_inv)

lemma mask_of_inj:
  assumes "distinct (map mt_mask_id t)" "mask_of t h = Some m" "mask_of t k = Some m"
  shows "h = k"
proof -
  obtain x y where "find (\<lambda>e. mt_hash_key e = h) t = Some x" "find (\<lambda>e. mt_hash_key e = k) t = Some y"
    "mt_mask_id x = m" "mt_mask_id y = m" using assms(2,3) by (auto simp: mask_of_def)
  moreover from this have "x \<in> set t" "y \<in> set t" "mt_hash_key x = h" "mt_hash_key y = k"
    by (auto simp: find_Some_iff)
  ultimately show ?thesis using assms(1) by (auto simp: distinct_map dest: inj_onD)
qed

lemma distinct_map_neq: "distinct (map f xs) \<Longrightarrow> x \<in> set xs \<Longrightarrow> y \<in> set xs \<Longrightarrow> x \<noteq> y \<Longrightarrow> f x \<noteq> f y"
  by (auto simp: distinct_map dest: inj_onD)

text \<open>
  Claim C12. In every state the offload reaches (adding, deleting, counting, reading, with any
  failures of allocation and transmission), two installed flows have different cookies and
  different statistics contexts, neither context is in the pool of free ones, and they have
  the same mask id exactly when their masks have the same hash.
\<close>

theorem flower_ids_unique:
  assumes "nfp_flower_metadata_init m1 m2 m3 seed mb lu sb = Inr p0" and "(flower_step jhash)\<^sup>*\<^sup>* p0 p"
    and "fl \<in> set (fp_flow_table p)" "fl' \<in> set (fp_flow_table p)" "fl \<noteq> fl'"
    and "1 < length (fl_unmasked_data fl)" "1 < length (fl_unmasked_data fl')"
  shows "fl_tc_flower_cookie fl \<noteq> fl_tc_flower_cookie fl' \<and> fl_host_ctx_id fl \<noteq> fl_host_ctx_id fl' \<and>
    fl_host_ctx_id fl \<notin> set (stats_avail (fp_stats_ids p)) \<and>
    (flow_mask_id fl = flow_mask_id fl' \<longleftrightarrow>
       flow_hash jhash (fp_mask_id_seed p) fl = flow_hash jhash (fp_mask_id_seed p) fl')"
proof -
  note i = flower_reach_inv [OF assms(2,1), unfolded flower_inv_def Let_def]
  have m: "mask_of (fp_mask_table p) (flow_hash jhash (fp_mask_id_seed p) fl) = Some (flow_mask_id fl)"
    "mask_of (fp_mask_table p) (flow_hash jhash (fp_mask_id_seed p) fl') = Some (flow_mask_id fl')"
    "distinct (map mt_mask_id (fp_mask_table p))"
    using i assms by (simp_all add: mtab_inv_def)
  moreover have "fl_host_ctx_id fl \<notin> set (stats_avail (fp_stats_ids p))"
    using i assms(3) by (auto simp: stats_pool.apart_def)
  ultimately show ?thesis
    using i assms(3-5) distinct_map_neq mask_of_inj by (metis option.inject)
qed

text \<open>
  Claim C13. Deleting an installed flow succeeds as far as the driver is concerned (the result
  is that of the transmission), removes exactly that flow, returns its own statistics context
  to the pool, which did not hold it and gains nothing else, gives up one mask reference and
  keeps the invariant of the identifiers.
\<close>

theorem flower_del_returns:
  assumes "nfp_flower_metadata_init m1 m2 m3 seed mb lu sb = Inr p0" and "(flower_step jhash)\<^sup>*\<^sup>* p0 p"
    and "nfp_flower_search_fl_table c p = Some fl"
    and "nfp_flower_del_offload jhash env xe c p = (err, p')"
  shows "err = xe \<and> fp_flow_table p' = remove1 fl (fp_flow_table p) \<and>
    nfp_flower_search_fl_table c p' = None \<and>
    fl_host_ctx_id fl \<notin> set (stats_avail (fp_stats_ids p)) \<and>
    set (stats_avail (fp_stats_ids p')) = insert (fl_host_ctx_id fl) (set (stats_avail (fp_stats_ids p))) \<and>
    Suc (refs (fp_mask_table p')) = refs (fp_mask_table p) \<and> flower_inv jhash p'"
proof -
  have inv: "flower_inv jhash p" by (rule flower_reach_inv [OF assms(2,1)])
  note d = del_inv [OF inv assms(4,3)]
  have "fl_tc_flower_cookie fl = c" "fl \<in> set (fp_flow_table p)"
    using assms(3) by (auto simp: nfp_flower_search_fl_table_def find_Some_iff)
  moreover have "distinct (map fl_tc_flower_cookie (fp_flow_table p))"
    using inv by (simp add: flower_inv_def Let_def)
  ultimately have "c \<notin> fl_tc_flower_cookie ` set (remove1 fl (fp_flow_table p))"
    by (auto simp: distinct_map set_remove1_eq dest!: inj_onD)
  with d show ?thesis by (simp add: search_fl_None)
qed

text \<open>
  A flow whose metadata was compiled but whose control message could not be sent
  is not installed, yet its statistics context and its mask reference are not given back:
  the pool has one context less, and a later delete of the cookie finds nothing.
\<close>

theorem flower_add_leaks_on_xmit_error:
  assumes "flower_inv jhash p"
    and "nfp_compile_flow_metadata jhash (fo_masks env) (fo_jiffies env) c (fo_payload env) p = ((0, fl), p')"
    and "fo_key_mem env" "fo_key_err env = 0" "fo_flow_mem env" "fo_match_err env = 0" "fo_action_err env = 0"
    and "fo_xmit_err env \<noteq> 0"
  shows "nfp_flower_add_offload jhash env c p = (fo_xmit_err env, p') \<and>
    fp_flow_table p' = fp_flow_table p \<and>
    Suc (length (stats_avail (fp_stats_ids p'))) = length (stats_avail (fp_stats_ids p)) \<and>
    refs (fp_mask_table p') = Suc (refs (fp_mask_table p)) \<and>
    nfp_flower_del_offload jhash env' xe c p' = (- ENOENT, p')"
proof -
  note ok = compile_ok_inv [OF assms(1,2)]
  have s: "refs (fp_mask_table p) + length (stats_avail (fp_stats_ids p)) = 131072"
    "refs (fp_mask_table p') + length (stats_avail (fp_stats_ids p')) = 131072"
    using ok assms(1) by (simp_all add: flower_inv_def Let_def)
  obtain e1 ctx ids where g: "nfp_get_stats_entry (fp_stats_ids p) = ((e1, ctx), ids)" by (metis prod.exhaust)
  have e1: "e1 = 0" using assms(2) g by (auto simp: nfp_compile_flow_metadata_def Let_def split: if_split_asm)
  have "length (stats_avail (fp_stats_ids p)) = Suc (length (stats_avail ids))"
    using stats_pool.get_apart [OF _ g [unfolded e1]] assms(1) by (auto simp: flower_inv_def Let_def)
  moreover have "fp_stats_ids p' = ids"
  proof -
    obtain okb flags mid p2 where a: "nfp_check_mask_add jhash (fo_masks env) (fl_mask_data (fo_payload env))
        (fl_mask_len (fo_payload env)) (fl_flags (fo_payload env)) (p\<lparr>fp_stats_ids := ids\<rparr>) = ((okb, flags, mid), p2)"
      by (metis prod.exhaust)
    have okt: "okb" using assms(2) g e1 a
      by (auto simp: nfp_compile_flow_metadata_def Let_def split: if_split_asm prod.split_asm)
    have "mtab_inv (fp_mask_ids (p\<lparr>fp_stats_ids := ids\<rparr>)) (fp_mask_table (p\<lparr>fp_stats_ids := ids\<rparr>))
        (map (flow_hash jhash (fp_mask_id_seed p)) (fp_flow_table p))"
      using assms(1) by (simp add: flower_inv_def Let_def)
    moreover have "refs (fp_mask_table (p\<lparr>fp_stats_ids := ids\<rparr>)) < 2 ^ 32 - 1" using s by simp
    moreover have "nfp_check_mask_add jhash (fo_masks env) (fl_mask_data (fo_payload env))
        (fl_mask_len (fo_payload env)) (fl_flags (fo_payload env)) (p\<lparr>fp_stats_ids := ids\<rparr>) = ((True, flags, mid), p2)"
      using a okt by simp
    ultimately have "p2 = p\<lparr>fp_stats_ids := ids, fp_mask_ids := fp_mask_ids p2, fp_mask_table := fp_mask_table p2\<rparr>"
      using check_mask_add_ok by blast
    then have "fp_stats_ids p2 = ids" by (metis nfp_flower_priv.select_convs(3) nfp_flower_priv.surjective
        nfp_flower_priv.update_convs(3,4,5))
    moreover have "p' = p2\<lparr>fp_flower_version := fp_flower_version p2 + 1\<rparr>"
      using assms(2) g e1 a okt
      by (auto simp: nfp_compile_flow_metadata_def Let_def split: option.split_asm prod.split_asm if_split_asm)
    ultimately show ?thesis by simp
  qed
  moreover have "nfp_flower_search_fl_table c p' = None" using ok by (simp add: search_fl_None)
  ultimately show ?thesis using assms ok s
    by (simp add: nfp_flower_add_offload_def nfp_flower_del_offload_def)
qed

text \<open>
  Masks are told apart by their hash alone: adding a mask whose hash an entry of
  the table already has returns that entry's id and does not announce a new mask, whatever
  the two masks contain.
\<close>

theorem mask_collision_shares_id:
  assumes "nfp_search_mask_table jhash d1 l1 p = Some e"
    and "jhash (take (unat l2) d2) (fp_mask_id_seed p) = jhash (take (unat l1) d1) (fp_mask_id_seed p)"
  shows "fst (nfp_check_mask_add jhash env d2 l2 flags p) = (True, flags, mt_mask_id e)"
  using assms by (simp add: nfp_check_mask_add_def nfp_find_in_mask_table_def nfp_search_mask_table_def mask_hash_def)

section \<open>Evaluations\<close>

definition sample_jhash :: jhash_fn where
  "sample_jhash data seed = (if data = [] then seed else ucast (hd data))"

definition sample_priv :: nfp_flower_priv where
  "sample_priv = (case nfp_flower_metadata_init True True True 0 (\<lambda>_. 0) (\<lambda>_. 0) (\<lambda>_. 0) of Inr p \<Rightarrow> p)"

definition sample_payload :: "u8 \<Rightarrow> nfp_fl_payload" where
  "sample_payload m = \<lparr>fl_key_len = 4, fl_mask_len = 4, fl_act_len = 0, fl_flags = 0, fl_host_ctx_id = 0,
     fl_host_cookie = 0, fl_flow_version = 0, fl_tc_flower_cookie = 0, fl_pkts = 0, fl_bytes = 0, fl_used = 0,
     fl_nfp_tun_ipv4_addr = 0, fl_unmasked_data = [0, 0, 0, 0], fl_mask_data = [m, 0, 0, 0]\<rparr>"

definition sample_masks :: mask_env where
  "sample_masks = \<lparr>me_alloc_now = 0, me_release_now = 0, me_mem = True\<rparr>"

definition sample_add :: "u8 \<Rightarrow> int \<Rightarrow> add_env" where
  "sample_add m xe = \<lparr>fo_key_mem = True, fo_key_err = 0, fo_flow_mem = True, fo_match_err = 0, fo_action_err = 0,
     fo_payload = sample_payload m, fo_xmit_err = xe, fo_masks = sample_masks, fo_jiffies = 7\<rparr>"

definition sample_priv1 :: nfp_flower_priv where
  "sample_priv1 = snd (nfp_flower_add_offload sample_jhash (sample_add 1 0) 10 sample_priv)"

definition sample_priv2 :: nfp_flower_priv where
  "sample_priv2 = snd (nfp_flower_add_offload sample_jhash (sample_add 1 0) 11 sample_priv1)"

lemma sample_init: "nfp_flower_metadata_init True True True 0 (\<lambda>_. 0) (\<lambda>_. 0) (\<lambda>_. 0) = Inr sample_priv"
  by (simp add: sample_priv_def nfp_flower_metadata_init_def)

lemmas flower_ops = nfp_flower_add_offload_def nfp_compile_flow_metadata_def nfp_get_stats_entry_def
  nfp_check_mask_add_def nfp_find_in_mask_table_def nfp_search_mask_table_def nfp_add_mask_table_def
  nfp_mask_alloc_def mask_hash_def nfp_flower_search_fl_table_def nfp_flower_metadata_init_def

lemmas sample_defs = sample_priv_def sample_add_def sample_payload_def sample_masks_def sample_jhash_def

lemma sample_priv1_eq:
  "fp_flow_table sample_priv1 = [(sample_payload 1)\<lparr>fl_flags := 128, fl_host_ctx_id := 131071, fl_host_cookie := 10,
     fl_tc_flower_cookie := 10, fl_used := 7, fl_unmasked_data := [0, 255, 0, 0]\<rparr>]"
  "fp_mask_table sample_priv1 = [\<lparr>mt_hash_key = 1, mt_ref_cnt = 1, mt_mask_id = 255\<rparr>]"
  "fp_mask_id_seed sample_priv1 = 0" "si_init_unalloc (fp_stats_ids sample_priv1) = 131071"
  "fp_flower_version sample_priv1 = 1"
  by (simp_all add: sample_priv1_def flower_ops sample_defs)

lemma sample_priv2_eq:
  "fp_flow_table sample_priv2 = (sample_payload 1)\<lparr>fl_host_ctx_id := 131070, fl_host_cookie := 11,
     fl_tc_flower_cookie := 11, fl_used := 7, fl_flow_version := 1, fl_unmasked_data := [0, 255, 0, 0]\<rparr>
     # fp_flow_table sample_priv1"
  by (simp add: sample_priv2_def flower_ops sample_defs sample_priv1_eq Let_def)

lemma sample_reach: "(flower_step sample_jhash)\<^sup>*\<^sup>* sample_priv sample_priv2"
proof -
  have "flower_step sample_jhash sample_priv sample_priv1"
    unfolding sample_priv1_def by (rule flower_step.add) (rule prod.collapse [symmetric])
  moreover have "flower_step sample_jhash sample_priv1 sample_priv2"
    unfolding sample_priv2_def by (rule flower_step.add) (rule prod.collapse [symmetric])
  ultimately show ?thesis by (meson converse_rtranclp_into_rtranclp r_into_rtranclp)
qed

lemma flower_ids_unique_witness:
  "let f1 = fp_flow_table sample_priv2 ! 0; f2 = fp_flow_table sample_priv2 ! 1 in
     fl_host_ctx_id f1 \<noteq> fl_host_ctx_id f2 \<and> flow_mask_id f1 = flow_mask_id f2"
proof -
  let ?f1 = "fp_flow_table sample_priv2 ! 0" and ?f2 = "fp_flow_table sample_priv2 ! 1"
  have ne: "?f1 \<noteq> ?f2" and u: "1 < length (fl_unmasked_data ?f1)" "1 < length (fl_unmasked_data ?f2)"
    by (simp_all add: sample_priv2_eq sample_priv1_eq sample_payload_def)
  have "?f1 \<in> set (fp_flow_table sample_priv2)" "?f2 \<in> set (fp_flow_table sample_priv2)"
    by (simp_all add: sample_priv2_eq sample_priv1_eq)
  from flower_ids_unique [OF sample_init sample_reach this ne u]
  have "fl_host_ctx_id ?f1 \<noteq> fl_host_ctx_id ?f2" by blast
  moreover have "flow_mask_id ?f1 = flow_mask_id ?f2" by (simp add: sample_priv2_eq sample_priv1_eq flow_mask_id_def)
  ultimately show ?thesis by (simp add: Let_def)
qed

lemma flower_del_returns_witness:
  "fst (nfp_flower_del_offload sample_jhash sample_masks 0 10 sample_priv2) = 0 \<and>
   nfp_flower_search_fl_table 10 (snd (nfp_flower_del_offload sample_jhash sample_masks 0 10 sample_priv2)) = None"
proof -
  have "nfp_flower_search_fl_table 10 sample_priv2 \<noteq> None"
    by (simp add: nfp_flower_search_fl_table_def sample_priv2_eq sample_priv1_eq)
  then obtain fl where f: "nfp_flower_search_fl_table 10 sample_priv2 = Some fl" by blast
  from flower_del_returns [OF sample_init sample_reach f prod.collapse [symmetric]] show ?thesis by blast
qed

lemma flower_add_leaks_on_xmit_error_witness:
  "fst (nfp_flower_add_offload sample_jhash (sample_add 1 (- EIO)) 10 sample_priv) = - EIO \<and>
   fp_flow_table (snd (nfp_flower_add_offload sample_jhash (sample_add 1 (- EIO)) 10 sample_priv)) = fp_flow_table sample_priv"
proof -
  have "fst (fst (nfp_compile_flow_metadata sample_jhash sample_masks 7 10 (sample_payload 1) sample_priv)) = 0"
    by (simp add: flower_ops sample_defs)
  then obtain fl p' where c: "nfp_compile_flow_metadata sample_jhash (fo_masks (sample_add 1 (- EIO)))
      (fo_jiffies (sample_add 1 (- EIO))) 10 (fo_payload (sample_add 1 (- EIO))) sample_priv = ((0, fl), p')"
    unfolding sample_add_def add_env.simps by (metis prod.exhaust fst_conv)
  have i: "flower_inv sample_jhash sample_priv" by (rule metadata_init_inv [OF sample_init])
  from flower_add_leaks_on_xmit_error [OF i c] show ?thesis by (simp add: sample_add_def)
qed

lemma mask_collision_shares_id_witness:
  "fst (nfp_check_mask_add sample_jhash sample_masks [1, 2, 3, 4] 4 0 sample_priv1) = (True, 0, 255)"
proof -
  have "nfp_search_mask_table sample_jhash [1, 0, 0, 0] 4 sample_priv1 =
      Some \<lparr>mt_hash_key = 1, mt_ref_cnt = 1, mt_mask_id = 255\<rparr>"
    by (simp add: nfp_search_mask_table_def mask_hash_def sample_priv1_eq sample_jhash_def)
  from mask_collision_shares_id [OF this, of 4 "[1, 2, 3, 4]" sample_masks 0] show ?thesis
    by (simp add: sample_jhash_def sample_priv1_eq)
qed

end
