(* ===== verification/Flower_Match.thy ===== *)
theory Flower_Match
  imports Flower_Metadata
begin

text \<open>
  The match of an offloaded rule: \<open>nfp_flower_calculate_key_layers\<close> of \<open>flower/offload.c\<close>
  decides which layers a classifier rule needs and how large the key is, \<open>flower/match.c\<close> writes
  the exact key and the mask, frame after frame, into buffers of that size. Buffers are
  explicit: a write outside of one is \<open>None\<close>. The rule comes from the kernel's flow dissector:
  the list of dissector keys in use and, for key and mask, the fields (record
  \<open>fl_flow_key\<close>; big-endian fields as the numbers they stand for).
\<close>

section \<open>Buffers and big-endian fields\<close>

definition be_bytes :: "nat \<Rightarrow> 'a::len word \<Rightarrow> u8 list" where
  "be_bytes n w = map (\<lambda>i. ucast (drop_bit (8 * i) w)) (rev [0..<n])"

abbreviation "be16 \<equiv> (be_bytes 2 :: u16 \<Rightarrow> u8 list)"
abbreviation "be32 \<equiv> (be_bytes 4 :: u32 \<Rightarrow> u8 list)"
abbreviation "be64 \<equiv> (be_bytes 8 :: u64 \<Rightarrow> u8 list)"

lemma length_be_bytes [simp]: "length (be_bytes n w) = n"
  by (simp add: be_bytes_def)

definition write_at :: "nat \<Rightarrow> u8 list \<Rightarrow> u8 list \<Rightarrow> u8 list option" where
  "write_at off bs buf =
     (if off + length bs \<le> length buf then Some (take off buf @ bs @ drop (off + length bs) buf) else None)"

section \<open>Rules\<close>

text \<open>The dissector keys the driver knows; the kernel has others.\<close>

datatype dissector_key =
  FLOW_DISSECTOR_KEY_CONTROL | FLOW_DISSECTOR_KEY_BASIC | FLOW_DISSECTOR_KEY_IPV4_ADDRS
| FLOW_DISSECTOR_KEY_IPV6_ADDRS | FLOW_DISSECTOR_KEY_PORTS | FLOW_DISSECTOR_KEY_ICMP
| FLOW_DISSECTOR_KEY_ETH_ADDRS | FLOW_DISSECTOR_KEY_VLAN | FLOW_DISSECTOR_KEY_ENC_KEYID
| FLOW_DISSECTOR_KEY_ENC_IPV4_ADDRS | FLOW_DISSECTOR_KEY_ENC_IPV6_ADDRS
| FLOW_DISSECTOR_KEY_ENC_CONTROL | FLOW_DISSECTOR_KEY_ENC_PORTS | FLOW_DISSECTOR_KEY_IP
| FLOW_DISSECTOR_KEY_other nat

record fl_flow_key =
  ff_n_proto :: u16
  ff_ip_proto :: u8
  ff_ip_tos :: u8
  ff_ip_ttl :: u8
  ff_vlan_id :: "12 word"
  ff_vlan_priority :: "3 word"
  ff_eth_dst :: "48 word"
  ff_eth_src :: "48 word"
  ff_tp_src :: u16
  ff_tp_dst :: u16
  ff_ipv4_src :: u32
  ff_ipv4_dst :: u32
  ff_ipv6_src :: "128 word"
  ff_ipv6_dst :: "128 word"
  ff_enc_addr_type :: u16
  ff_enc_ipv4_src :: u32
  ff_enc_ipv4_dst :: u32
  ff_enc_tp_dst :: u16
  ff_enc_keyid :: u32

record tc_cls_flower =
  fw_used_keys :: "dissector_key list"
  fw_key :: fl_flow_key
  fw_mask :: fl_flow_key

definition dissector_uses_key :: "tc_cls_flower \<Rightarrow> dissector_key \<Rightarrow> bool" where
  "dissector_uses_key flow k \<longleftrightarrow> k \<in> set (fw_used_keys flow)"

record nfp_fl_key_ls =
  kl_key_layer_two :: u32
  kl_key_layer :: u8
  kl_key_size :: int

abbreviation (input) NFP_FLOWER_LAYER_META :: u8 where "NFP_FLOWER_LAYER_META \<equiv> 0x01"
abbreviation (input) NFP_FLOWER_LAYER_PORT :: u8 where "NFP_FLOWER_LAYER_PORT \<equiv> 0x02"
abbreviation (input) NFP_FLOWER_LAYER_MAC :: u8 where "NFP_FLOWER_LAYER_MAC \<equiv> 0x04"
abbreviation (input) NFP_FLOWER_LAYER_TP :: u8 where "NFP_FLOWER_LAYER_TP \<equiv> 0x08"
abbreviation (input) NFP_FLOWER_LAYER_IPV4 :: u8 where "NFP_FLOWER_LAYER_IPV4 \<equiv> 0x10"
abbreviation (input) NFP_FLOWER_LAYER_IPV6 :: u8 where "NFP_FLOWER_LAYER_IPV6 \<equiv> 0x20"
abbreviation (input) NFP_FLOWER_LAYER_VXLAN :: u8 where "NFP_FLOWER_LAYER_VXLAN \<equiv> 0x80"

abbreviation (input) ETH_P_IP :: u16 where "ETH_P_IP \<equiv> 0x0800"
abbreviation (input) ETH_P_ARP :: u16 where "ETH_P_ARP \<equiv> 0x0806"
abbreviation (input) ETH_P_8021Q :: u16 where "ETH_P_8021Q \<equiv> 0x8100"
abbreviation (input) ETH_P_IPV6 :: u16 where "ETH_P_IPV6 \<equiv> 0x86dd"
abbreviation (input) ETH_P_MPLS_UC :: u16 where "ETH_P_MPLS_UC \<equiv> 0x8847"
abbreviation (input) ETH_P_MPLS_MC :: u16 where "ETH_P_MPLS_MC \<equiv> 0x8848"

abbreviation (input) NFP_FL_VXLAN_PORT :: u16 where "NFP_FL_VXLAN_PORT \<equiv> 4789"
abbreviation (input) ADDR_TYPE_IPV4 :: u16 where "ADDR_TYPE_IPV4 \<equiv> 2"

text \<open>Sizes of the frames, \<open>sizeof\<close> of the structures of \<open>flower/cmsg.h\<close>.\<close>

abbreviation (input) "sizeof_meta \<equiv> (4 :: nat)"
abbreviation (input) "sizeof_in_port \<equiv> (4 :: nat)"
abbreviation (input) "sizeof_mac_mpls \<equiv> (16 :: nat)"
abbreviation (input) "sizeof_tp_ports \<equiv> (4 :: nat)"
abbreviation (input) "sizeof_ipv4 \<equiv> (12 :: nat)"
abbreviation (input) "sizeof_ipv6 \<equiv> (40 :: nat)"
abbreviation (input) "sizeof_vxlan \<equiv> (20 :: nat)"

section \<open>Key layers\<close>

definition NFP_FLOWER_WHITELIST_DISSECTOR :: "dissector_key list" where
  "NFP_FLOWER_WHITELIST_DISSECTOR =
     [FLOW_DISSECTOR_KEY_CONTROL, FLOW_DISSECTOR_KEY_BASIC, FLOW_DISSECTOR_KEY_IPV4_ADDRS,
      FLOW_DISSECTOR_KEY_IPV6_ADDRS, FLOW_DISSECTOR_KEY_PORTS, FLOW_DISSECTOR_KEY_ETH_ADDRS,
      FLOW_DISSECTOR_KEY_VLAN, FLOW_DISSECTOR_KEY_ENC_KEYID, FLOW_DISSECTOR_KEY_ENC_IPV4_ADDRS,
      FLOW_DISSECTOR_KEY_ENC_IPV6_ADDRS, FLOW_DISSECTOR_KEY_ENC_CONTROL, FLOW_DISSECTOR_KEY_ENC_PORTS,
      FLOW_DISSECTOR_KEY_IP]"

definition NFP_FLOWER_WHITELIST_TUN_DISSECTOR :: "dissector_key list" where
  "NFP_FLOWER_WHITELIST_TUN_DISSECTOR =
     [FLOW_DISSECTOR_KEY_ENC_CONTROL, FLOW_DISSECTOR_KEY_ENC_KEYID, FLOW_DISSECTOR_KEY_ENC_IPV4_ADDRS,
      FLOW_DISSECTOR_KEY_ENC_IPV6_ADDRS, FLOW_DISSECTOR_KEY_ENC_PORTS]"

definition NFP_FLOWER_WHITELIST_TUN_DISSECTOR_R :: "dissector_key list" where
  "NFP_FLOWER_WHITELIST_TUN_DISSECTOR_R =
     [FLOW_DISSECTOR_KEY_ENC_CONTROL, FLOW_DISSECTOR_KEY_ENC_IPV4_ADDRS, FLOW_DISSECTOR_KEY_ENC_PORTS]"

definition nfp_flower_check_higher_than_mac :: "tc_cls_flower \<Rightarrow> bool" where
  "nfp_flower_check_higher_than_mac f \<longleftrightarrow>
     dissector_uses_key f FLOW_DISSECTOR_KEY_IPV4_ADDRS \<or> dissector_uses_key f FLOW_DISSECTOR_KEY_IPV6_ADDRS \<or>
     dissector_uses_key f FLOW_DISSECTOR_KEY_PORTS \<or> dissector_uses_key f FLOW_DISSECTOR_KEY_ICMP"

text \<open>
  The three steps of \<open>nfp_flower_calculate_key_layers\<close> after the white lists: the tunnel, the
  Ethernet type, the IP protocol. Each adds a layer and its size, or refuses the rule.
\<close>

definition add_layer :: "u8 \<Rightarrow> nat \<Rightarrow> nfp_fl_key_ls \<Rightarrow> nfp_fl_key_ls" where
  "add_layer l n ls = ls\<lparr>kl_key_layer := kl_key_layer ls OR l, kl_key_size := kl_key_size ls + int n\<rparr>"

definition key_layers_tunnel :: "tc_cls_flower \<Rightarrow> nfp_fl_key_ls \<Rightarrow> nfp_fl_key_ls res" where
  "key_layers_tunnel flow ls =
     (let msk = fw_mask flow; key = fw_key flow in
      if dissector_uses_key flow FLOW_DISSECTOR_KEY_ENC_CONTROL then
        if ff_enc_addr_type msk \<noteq> 0xffff \<or> ff_enc_addr_type key \<noteq> ADDR_TYPE_IPV4 then Inl (- EOPNOTSUPP)
        else if ff_enc_ipv4_dst msk \<noteq> 0xffffffff then Inl (- EOPNOTSUPP)
        else if ff_enc_tp_dst msk \<noteq> 0xffff \<or> ff_enc_tp_dst key \<noteq> NFP_FL_VXLAN_PORT then Inl (- EOPNOTSUPP)
        else Inr (add_layer NFP_FLOWER_LAYER_VXLAN sizeof_vxlan ls)
      else Inr ls)"

definition key_layers_eth :: "tc_cls_flower \<Rightarrow> nfp_fl_key_ls \<Rightarrow> nfp_fl_key_ls res" where
  "key_layers_eth flow ls =
     (let msk = fw_mask flow; proto = ff_n_proto (fw_key flow);
          ip = dissector_uses_key flow FLOW_DISSECTOR_KEY_IP in
      if dissector_uses_key flow FLOW_DISSECTOR_KEY_BASIC \<and> ff_n_proto msk \<noteq> 0 then
        if proto = ETH_P_IP then
          if ip \<and> ff_ip_tos msk \<noteq> 0 then Inl (- EOPNOTSUPP)
          else if ip \<and> ff_ip_ttl msk \<noteq> 0 then Inl (- EOPNOTSUPP)
          else Inr (add_layer NFP_FLOWER_LAYER_IPV4 sizeof_ipv4 ls)
        else if proto = ETH_P_IPV6 then
          if ip \<and> ff_ip_tos msk \<noteq> 0 then Inl (- EOPNOTSUPP)
          else if ip \<and> ff_ip_ttl msk \<noteq> 0 then Inl (- EOPNOTSUPP)
          else Inr (add_layer NFP_FLOWER_LAYER_IPV6 sizeof_ipv6 ls)
        else if proto = ETH_P_ARP then Inl (- EOPNOTSUPP)
        else if proto = ETH_P_MPLS_UC \<or> proto = ETH_P_MPLS_MC then Inl (- EOPNOTSUPP)
        else if proto = ETH_P_8021Q then Inr ls
        else if nfp_flower_check_higher_than_mac flow then Inl (- EOPNOTSUPP)
        else Inr ls
      else Inr ls)"

definition key_layers_ip :: "tc_cls_flower \<Rightarrow> nfp_fl_key_ls \<Rightarrow> nfp_fl_key_ls res" where
  "key_layers_ip flow ls =
     (if dissector_uses_key flow FLOW_DISSECTOR_KEY_BASIC \<and> ff_ip_proto (fw_mask flow) \<noteq> 0 then
        if ff_ip_proto (fw_key flow) \<in> {6, 17, 132, 1, 58} then
          Inr (add_layer NFP_FLOWER_LAYER_TP sizeof_tp_ports ls)
        else Inl (- EOPNOTSUPP)
      else Inr ls)"

definition nfp_flower_calculate_key_layers :: "tc_cls_flower \<Rightarrow> nfp_fl_key_ls res" where
  "nfp_flower_calculate_key_layers flow =
     (if \<not> set (fw_used_keys flow) \<subseteq> set NFP_FLOWER_WHITELIST_DISSECTOR then Inl (- EOPNOTSUPP)
      else if (\<exists>k \<in> set (fw_used_keys flow). k \<in> set NFP_FLOWER_WHITELIST_TUN_DISSECTOR) \<and>
              \<not> set NFP_FLOWER_WHITELIST_TUN_DISSECTOR_R \<subseteq> set (fw_used_keys flow) then Inl (- EOPNOTSUPP)
      else
        case key_layers_tunnel flow
          \<lparr>kl_key_layer_two = 0, kl_key_layer = NFP_FLOWER_LAYER_PORT OR NFP_FLOWER_LAYER_MAC,
           kl_key_size = int (sizeof_meta + sizeof_in_port + sizeof_mac_mpls)\<rparr> of
          Inl e \<Rightarrow> Inl e
        | Inr ls \<Rightarrow> (case key_layers_eth flow ls of
            Inl e \<Rightarrow> Inl e
          | Inr ls \<Rightarrow> key_layers_ip flow ls))"

section \<open>Frames\<close>

text \<open>Each frame as the bytes of its structure, for the key or for the mask.\<close>

definition flow_target :: "tc_cls_flower \<Rightarrow> bool \<Rightarrow> fl_flow_key" where
  "flow_target flow mask_version = (if mask_version then fw_mask flow else fw_key flow)"

definition nfp_flower_compile_meta_tci :: "tc_cls_flower \<Rightarrow> u8 \<Rightarrow> bool \<Rightarrow> u8 list" where
  "nfp_flower_compile_meta_tci flow key_type mask_version =
     (let t = flow_target flow mask_version;
          tci = (if dissector_uses_key flow FLOW_DISSECTOR_KEY_VLAN \<and> ff_vlan_id t \<noteq> 0 then
                   push_bit 13 (ucast (ff_vlan_priority t)) OR ucast (ff_vlan_id t) OR 0x1000
                 else 0)
      in [key_type, 0xff] @ be16 tci)"

definition nfp_flower_compile_meta :: "u8 \<Rightarrow> u8 list" where
  "nfp_flower_compile_meta key_type = [key_type, 0, 0, 0]"

definition nfp_flower_compile_port :: "u32 \<Rightarrow> bool \<Rightarrow> u32 \<Rightarrow> u8 list" where
  "nfp_flower_compile_port cmsg_port mask_version tun_type =
     be32 (if mask_version then 0xffffffff
           else if tun_type \<noteq> 0 then 0x50000000 OR tun_type
           else cmsg_port)"

definition nfp_flower_compile_mac :: "tc_cls_flower \<Rightarrow> bool \<Rightarrow> u8 list" where
  "nfp_flower_compile_mac flow mask_version =
     (let t = flow_target flow mask_version;
          on = dissector_uses_key flow FLOW_DISSECTOR_KEY_ETH_ADDRS
      in be_bytes 6 (if on then ff_eth_dst t else 0) @ be_bytes 6 (if on then ff_eth_src t else 0) @
         be32 (if mask_version then 0xffffffff else 0))"

definition nfp_flower_compile_tport :: "tc_cls_flower \<Rightarrow> bool \<Rightarrow> u8 list" where
  "nfp_flower_compile_tport flow mask_version =
     (let t = flow_target flow mask_version; on = dissector_uses_key flow FLOW_DISSECTOR_KEY_PORTS
      in be16 (if on then ff_tp_src t else 0) @ be16 (if on then ff_tp_dst t else 0))"

definition nfp_flower_compile_ipv4 :: "tc_cls_flower \<Rightarrow> bool \<Rightarrow> u8 list" where
  "nfp_flower_compile_ipv4 flow mask_version =
     (let t = flow_target flow mask_version; on = dissector_uses_key flow FLOW_DISSECTOR_KEY_IPV4_ADDRS;
          proto = (if dissector_uses_key flow FLOW_DISSECTOR_KEY_BASIC then ff_ip_proto t else 0)
      in [0, proto, 0, 0] @ be32 (if on then ff_ipv4_src t else 0) @ be32 (if on then ff_ipv4_dst t else 0))"

definition nfp_flower_compile_ipv6 :: "tc_cls_flower \<Rightarrow> bool \<Rightarrow> u8 list" where
  "nfp_flower_compile_ipv6 flow mask_version =
     (let t = flow_target flow mask_version; on = dissector_uses_key flow FLOW_DISSECTOR_KEY_IPV6_ADDRS;
          proto = (if dissector_uses_key flow FLOW_DISSECTOR_KEY_BASIC then ff_ip_proto t else 0)
      in [0, proto, 0, 0] @ be32 0 @ be_bytes 16 (if on then ff_ipv6_src t else 0) @
         be_bytes 16 (if on then ff_ipv6_dst t else 0))"

text \<open>The tunnel destination is an output that stays unset (\<open>None\<close>) without the addresses.\<close>

definition nfp_flower_compile_vxlan :: "tc_cls_flower \<Rightarrow> bool \<Rightarrow> u32 option \<Rightarrow> u8 list \<times> u32 option" where
  "nfp_flower_compile_vxlan flow mask_version tun_dst =
     (let t = flow_target flow mask_version;
          on = dissector_uses_key flow FLOW_DISSECTOR_KEY_ENC_IPV4_ADDRS;
          vni = (if dissector_uses_key flow FLOW_DISSECTOR_KEY_ENC_KEYID then push_bit 8 (ff_enc_keyid t) else 0)
      in (be32 (if on then ff_enc_ipv4_src t else 0) @ be32 (if on then ff_enc_ipv4_dst t else 0) @
            be16 0 @ [0, 0, 0, 0, 0, 0] @ be32 vni,
          if on then Some (ff_enc_ipv4_dst t) else tun_dst))"

lemma frame_lengths [simp]:
  "length (nfp_flower_compile_meta_tci flow k m) = 4" "length (nfp_flower_compile_meta k) = 4"
  "length (nfp_flower_compile_port p m tt) = 4" "length (nfp_flower_compile_mac flow m) = 16"
  "length (nfp_flower_compile_tport flow m) = 4" "length (nfp_flower_compile_ipv4 flow m) = 12"
  "length (nfp_flower_compile_ipv6 flow m) = 40" "length (fst (nfp_flower_compile_vxlan flow m td)) = 20"
  by (simp_all add: nfp_flower_compile_meta_tci_def nfp_flower_compile_meta_def nfp_flower_compile_port_def
      nfp_flower_compile_mac_def nfp_flower_compile_tport_def nfp_flower_compile_ipv4_def
      nfp_flower_compile_ipv6_def nfp_flower_compile_vxlan_def Let_def)

section \<open>Compiling a match\<close>

text \<open>
  The cursors \<open>ext\<close> and \<open>msk\<close> into the two buffers always advance together: one offset.
  \<open>put_frames\<close> writes a frame to each and advances by the size of its structure.
\<close>

type_synonym match_buf = "nat \<times> u8 list \<times> u8 list"

definition put_frames :: "nat \<Rightarrow> u8 list \<Rightarrow> u8 list \<Rightarrow> match_buf \<Rightarrow> match_buf option" where
  "put_frames sz f g st =
     (case st of (off, ext, msk) \<Rightarrow>
        case write_at off f ext of None \<Rightarrow> None | Some ext \<Rightarrow>
        case write_at off g msk of None \<Rightarrow> None | Some msk \<Rightarrow> Some (off + sz, ext, msk))"

definition put_layer :: "bool \<Rightarrow> nat \<Rightarrow> (bool \<Rightarrow> u8 list) \<Rightarrow> match_buf \<Rightarrow> match_buf option" where
  "put_layer on sz frame st = (if on then put_frames sz (frame False) (frame True) st else Some st)"

text \<open>
  What the match leaves: error code, the two buffers, and the tunnel destination stored in the
  rule, which is also the address offloaded to the firmware (\<open>None\<close>: no tunnel).
\<close>

record match_result =
  mr_err :: int
  mr_off :: nat
  mr_unmasked :: "u8 list"
  mr_mask :: "u8 list"
  mr_tun :: "u32 option"

text \<open>
  \<open>None\<close>: a write outside a buffer, or the use of a tunnel destination that was never set.
  \<open>is_repr\<close>: whether the device is a representor, \<open>port_id\<close> its port.
\<close>

definition match_tunnel :: "tc_cls_flower \<Rightarrow> bool \<Rightarrow> match_buf \<Rightarrow> match_result option" where
  "match_tunnel flow is_repr st =
     (case nfp_flower_compile_vxlan flow False None of (f, tun_dst) \<Rightarrow>
      case nfp_flower_compile_vxlan flow True (Some 0) of (g, _) \<Rightarrow>
      case put_frames sizeof_vxlan f g st of None \<Rightarrow> None | Some (off, ext, msk) \<Rightarrow>
        let r = \<lparr>mr_err = 0, mr_off = off, mr_unmasked = ext, mr_mask = msk, mr_tun = None\<rparr> in
        if is_repr then (case tun_dst of None \<Rightarrow> None | Some d \<Rightarrow> Some (r\<lparr>mr_tun := Some d\<rparr>))
        else Some r)"

definition nfp_flower_compile_flow_match ::
  "tc_cls_flower \<Rightarrow> nfp_fl_key_ls \<Rightarrow> bool \<Rightarrow> u32 \<Rightarrow> match_result option" where
  "nfp_flower_compile_flow_match flow key_ls is_repr port_id =
     (let layer = kl_key_layer key_ls;
          tun_type = (if layer AND NFP_FLOWER_LAYER_VXLAN \<noteq> 0 then 2 else 0);
          zero = replicate (nat (kl_key_size key_ls)) 0;
          done = (\<lambda>(off, ext, msk) e. \<lparr>mr_err = e, mr_off = off, mr_unmasked = ext, mr_mask = msk, mr_tun = None\<rparr>)
      in case
        (if layer AND NFP_FLOWER_LAYER_PORT \<noteq> 0 then
           Option.bind (put_frames sizeof_meta (nfp_flower_compile_meta_tci flow layer False)
                          (nfp_flower_compile_meta_tci flow layer True) (0, zero, zero))
             (put_frames sizeof_in_port (nfp_flower_compile_port port_id False tun_type)
                (nfp_flower_compile_port port_id True tun_type))
         else put_frames sizeof_meta (nfp_flower_compile_meta layer) (nfp_flower_compile_meta layer) (0, zero, zero)) of
        None \<Rightarrow> None
      | Some st \<Rightarrow>
        if layer AND NFP_FLOWER_LAYER_META \<noteq> 0 then Some (done st (- EOPNOTSUPP))
        else case
          Option.bind (put_layer (layer AND NFP_FLOWER_LAYER_MAC \<noteq> 0) sizeof_mac_mpls (nfp_flower_compile_mac flow) st) (\<lambda>st.
          Option.bind (put_layer (layer AND NFP_FLOWER_LAYER_TP \<noteq> 0) sizeof_tp_ports (nfp_flower_compile_tport flow) st) (\<lambda>st.
          Option.bind (put_layer (layer AND NFP_FLOWER_LAYER_IPV4 \<noteq> 0) sizeof_ipv4 (nfp_flower_compile_ipv4 flow) st)
            (put_layer (layer AND NFP_FLOWER_LAYER_IPV6 \<noteq> 0) sizeof_ipv6 (nfp_flower_compile_ipv6 flow)))) of
          None \<Rightarrow> None
        | Some st \<Rightarrow>
          if layer AND NFP_FLOWER_LAYER_VXLAN \<noteq> 0 then match_tunnel flow is_repr st
          else Some (done st 0))"

section \<open>What a compiled match is\<close>

text \<open>The frames a key layer asks for, one after the other.\<close>

definition match_frames :: "tc_cls_flower \<Rightarrow> u8 \<Rightarrow> u32 \<Rightarrow> bool \<Rightarrow> u8 list" where
  "match_frames flow layer port_id m =
     (let tun = (if layer AND NFP_FLOWER_LAYER_VXLAN \<noteq> 0 then 2 else 0) in
      nfp_flower_compile_meta_tci flow layer m @ nfp_flower_compile_port port_id m tun @
      (if layer AND NFP_FLOWER_LAYER_MAC \<noteq> 0 then nfp_flower_compile_mac flow m else []) @
      (if layer AND NFP_FLOWER_LAYER_TP \<noteq> 0 then nfp_flower_compile_tport flow m else []) @
      (if layer AND NFP_FLOWER_LAYER_IPV4 \<noteq> 0 then nfp_flower_compile_ipv4 flow m else []) @
      (if layer AND NFP_FLOWER_LAYER_IPV6 \<noteq> 0 then nfp_flower_compile_ipv6 flow m else []) @
      (if layer AND NFP_FLOWER_LAYER_VXLAN \<noteq> 0 then fst (nfp_flower_compile_vxlan flow m None) else []))"

text \<open>Buffers of \<open>n\<close> bytes filled with \<open>p\<close> and \<open>q\<close> up to the cursor, zero from there.\<close>

definition filled :: "nat \<Rightarrow> u8 list \<Rightarrow> u8 list \<Rightarrow> match_buf" where
  "filled n p q = (length p, p @ replicate (n - length p) 0, q @ replicate (n - length q) 0)"

lemma write_at_filled:
  assumes "length p + length f \<le> n"
  shows "write_at (length p) f (p @ replicate (n - length p) 0) = Some ((p @ f) @ replicate (n - length (p @ f)) 0)"
  using assms by (simp add: write_at_def)

lemma put_frames_filled:
  assumes "length p = length q" and "length f = sz" "length g = sz" and "length p + sz \<le> n"
  shows "put_frames sz f g (filled n p q) = Some (filled n (p @ f) (q @ g))"
  using write_at_filled[of p f n] write_at_filled[of q g n] assms
  by (simp add: put_frames_def filled_def)

lemma put_layer_filled:
  assumes "length p = length q" and "\<And>m. length (frame m) = sz" and "on \<longrightarrow> length p + sz \<le> n"
  shows "put_layer on sz frame (filled n p q) =
    Some (filled n (p @ (if on then frame False else [])) (q @ (if on then frame True else [])))"
  using put_frames_filled[OF assms(1) assms(2) assms(2)] assms(3) by (simp add: put_layer_def)

text \<open>The layers and sizes the calculation can give.\<close>

definition layer_size :: "u8 \<Rightarrow> nat" where
  "layer_size l = 24 + (if l AND NFP_FLOWER_LAYER_TP \<noteq> 0 then 4 else 0) +
     (if l AND NFP_FLOWER_LAYER_IPV4 \<noteq> 0 then 12 else 0) + (if l AND NFP_FLOWER_LAYER_IPV6 \<noteq> 0 then 40 else 0) +
     (if l AND NFP_FLOWER_LAYER_VXLAN \<noteq> 0 then 20 else 0)"

lemma key_layers_cases:
  assumes "nfp_flower_calculate_key_layers flow = Inr ls"
  obtains t e i where "t \<in> {0, NFP_FLOWER_LAYER_VXLAN}" "e \<in> {0, NFP_FLOWER_LAYER_IPV4, NFP_FLOWER_LAYER_IPV6}"
    "i \<in> {0, NFP_FLOWER_LAYER_TP}" "kl_key_layer ls = 6 OR t OR e OR i"
    "kl_key_size ls = int (layer_size (6 OR t OR e OR i))" "kl_key_layer_two ls = 0"
    "t \<noteq> 0 \<longrightarrow> dissector_uses_key flow FLOW_DISSECTOR_KEY_ENC_IPV4_ADDRS"
proof -
  let ?l0 = "\<lparr>kl_key_layer_two = 0, kl_key_layer = 6, kl_key_size = 24\<rparr> :: nfp_fl_key_ls"
  obtain l1 l2 where t: "key_layers_tunnel flow ?l0 = Inr l1" and e: "key_layers_eth flow l1 = Inr l2"
    and i: "key_layers_ip flow l2 = Inr ls"
    and w: "(\<exists>k \<in> set (fw_used_keys flow). k \<in> set NFP_FLOWER_WHITELIST_TUN_DISSECTOR) \<longrightarrow>
      set NFP_FLOWER_WHITELIST_TUN_DISSECTOR_R \<subseteq> set (fw_used_keys flow)"
    using assms by (auto simp: nfp_flower_calculate_key_layers_def split: if_split_asm sum.split_asm)
  have 1: "l1 = ?l0 \<or> l1 = add_layer NFP_FLOWER_LAYER_VXLAN 20 ?l0 \<and> dissector_uses_key flow FLOW_DISSECTOR_KEY_ENC_CONTROL"
    using t by (auto simp: key_layers_tunnel_def Let_def split: if_split_asm)
  have 2: "l2 = l1 \<or> l2 = add_layer NFP_FLOWER_LAYER_IPV4 12 l1 \<or> l2 = add_layer NFP_FLOWER_LAYER_IPV6 40 l1"
    using e by (auto simp: key_layers_eth_def Let_def split: if_split_asm)
  have 3: "ls = l2 \<or> ls = add_layer NFP_FLOWER_LAYER_TP 4 l2"
    using i by (auto simp: key_layers_ip_def split: if_split_asm)
  have 4: "dissector_uses_key flow FLOW_DISSECTOR_KEY_ENC_IPV4_ADDRS"
    if "dissector_uses_key flow FLOW_DISSECTOR_KEY_ENC_CONTROL"
    using w that by (auto simp: dissector_uses_key_def NFP_FLOWER_WHITELIST_TUN_DISSECTOR_def
        NFP_FLOWER_WHITELIST_TUN_DISSECTOR_R_def)
  obtain t where t: "t \<in> {0, NFP_FLOWER_LAYER_VXLAN}" "l1 = (if t = 0 then ?l0 else add_layer t 20 ?l0)"
    "t \<noteq> 0 \<longrightarrow> dissector_uses_key flow FLOW_DISSECTOR_KEY_ENC_CONTROL"
  proof -
    from 1 consider "l1 = ?l0" | "l1 = add_layer NFP_FLOWER_LAYER_VXLAN 20 ?l0"
      "dissector_uses_key flow FLOW_DISSECTOR_KEY_ENC_CONTROL" by blast
    then show thesis
    proof cases
      case 1
      then show thesis by (intro that[of 0]) simp_all
    next
      case 2
      then show thesis by (intro that[of NFP_FLOWER_LAYER_VXLAN]) simp_all
    qed
  qed
  obtain e where e: "e \<in> {0, NFP_FLOWER_LAYER_IPV4, NFP_FLOWER_LAYER_IPV6}"
    "l2 = (if e = 0 then l1 else add_layer e (if e = NFP_FLOWER_LAYER_IPV4 then 12 else 40) l1)"
  proof -
    from 2 consider "l2 = l1" | "l2 = add_layer NFP_FLOWER_LAYER_IPV4 12 l1" | "l2 = add_layer NFP_FLOWER_LAYER_IPV6 40 l1"
      by blast
    then show thesis
    proof cases
      case 1
      then show thesis by (intro that[of 0]) simp_all
    next
      case 2
      then show thesis by (intro that[of NFP_FLOWER_LAYER_IPV4]) simp_all
    next
      case 3
      then show thesis by (intro that[of NFP_FLOWER_LAYER_IPV6]) simp_all
    qed
  qed
  obtain i where i: "i \<in> {0, NFP_FLOWER_LAYER_TP}" "ls = (if i = 0 then l2 else add_layer i 4 l2)"
  proof -
    from 3 consider "ls = l2" | "ls = add_layer NFP_FLOWER_LAYER_TP 4 l2" by blast
    then show thesis
    proof cases
      case 1
      then show thesis by (intro that[of 0]) simp_all
    next
      case 2
      then show thesis by (intro that[of NFP_FLOWER_LAYER_TP]) simp_all
    qed
  qed
  have "kl_key_layer ls = 6 OR t OR e OR i \<and> kl_key_size ls = int (layer_size (6 OR t OR e OR i)) \<and> kl_key_layer_two ls = 0"
    using t(1) e(1) i(1) unfolding t(2) e(2) i(2)
    by (elim insertE emptyE; simp add: add_layer_def layer_size_def)
  moreover have "t \<noteq> 0 \<longrightarrow> dissector_uses_key flow FLOW_DISSECTOR_KEY_ENC_IPV4_ADDRS"
    using t(3) 4 by blast
  moreover note t(1) e(1) i(1)
  ultimately show thesis using that by blast
qed

lemma layer_facts:
  assumes "t \<in> {0, NFP_FLOWER_LAYER_VXLAN}" "e \<in> {0, NFP_FLOWER_LAYER_IPV4, NFP_FLOWER_LAYER_IPV6}" "i \<in> {0, NFP_FLOWER_LAYER_TP}"
    and "l = 6 OR t OR e OR i"
  shows "l AND NFP_FLOWER_LAYER_META = 0" "l AND NFP_FLOWER_LAYER_PORT \<noteq> 0" "l AND NFP_FLOWER_LAYER_MAC \<noteq> 0"
    "layer_size l \<le> 88" "layer_size l mod 4 = 0" "l AND NFP_FLOWER_LAYER_VXLAN = t"
  using assms unfolding layer_size_def by (elim insertE emptyE; simp)+

lemma match_fills_key:
  assumes "nfp_flower_calculate_key_layers flow = Inr ls"
  shows "nfp_flower_compile_flow_match flow ls is_repr port_id = Some
      \<lparr>mr_err = 0, mr_off = nat (kl_key_size ls),
       mr_unmasked = match_frames flow (kl_key_layer ls) port_id False,
       mr_mask = match_frames flow (kl_key_layer ls) port_id True,
       mr_tun = (if kl_key_layer ls AND NFP_FLOWER_LAYER_VXLAN \<noteq> 0 \<and> is_repr
                 then Some (ff_enc_ipv4_dst (fw_key flow)) else None)\<rparr> \<and>
    length (match_frames flow (kl_key_layer ls) port_id m) = nat (kl_key_size ls) \<and>
    0 \<le> kl_key_size ls \<and> kl_key_size ls \<le> 88 \<and> kl_key_size ls mod 4 = 0"
proof -
  let ?l = "kl_key_layer ls"
  obtain t e i where l: "t \<in> {0, NFP_FLOWER_LAYER_VXLAN}" "e \<in> {0, NFP_FLOWER_LAYER_IPV4, NFP_FLOWER_LAYER_IPV6}"
      "i \<in> {0, NFP_FLOWER_LAYER_TP}" "?l = 6 OR t OR e OR i"
    and n: "kl_key_size ls = int (layer_size ?l)"
    and tun: "t \<noteq> 0 \<longrightarrow> dissector_uses_key flow FLOW_DISSECTOR_KEY_ENC_IPV4_ADDRS"
    using key_layers_cases[OF assms] by metis
  note f = layer_facts[OF l]
  define n where "n = layer_size ?l"
  have size: "kl_key_size ls = int n" using n by (simp add: n_def)
  let ?tt = "if ?l AND NFP_FLOWER_LAYER_VXLAN \<noteq> 0 then 2 else 0 :: u32"
  define a where "a m = nfp_flower_compile_meta_tci flow ?l m @ nfp_flower_compile_port port_id m ?tt" for m
  define lay where "lay on fr m = (if on then fr m else [] :: u8 list)" for on :: bool and fr :: "bool \<Rightarrow> u8 list" and m
  define b where "b m = a m @ lay (?l AND NFP_FLOWER_LAYER_MAC \<noteq> 0) (nfp_flower_compile_mac flow) m" for m
  define c where "c m = b m @ lay (?l AND NFP_FLOWER_LAYER_TP \<noteq> 0) (nfp_flower_compile_tport flow) m" for m
  define d where "d m = c m @ lay (?l AND NFP_FLOWER_LAYER_IPV4 \<noteq> 0) (nfp_flower_compile_ipv4 flow) m" for m
  define g where "g m = d m @ lay (?l AND NFP_FLOWER_LAYER_IPV6 \<noteq> 0) (nfp_flower_compile_ipv6 flow) m" for m
  define v where "v m = fst (nfp_flower_compile_vxlan flow m None)" for m
  have frames: "match_frames flow ?l port_id m = g m @ (if ?l AND NFP_FLOWER_LAYER_VXLAN \<noteq> 0 then v m else [])" for m
    by (simp add: match_frames_def g_def d_def c_def b_def a_def lay_def v_def Let_def)
  have len: "length (a m) = 8" "length (b m) = 24"
    "length (c m) = 24 + (if ?l AND NFP_FLOWER_LAYER_TP \<noteq> 0 then 4 else 0)"
    "length (d m) = length (c m) + (if ?l AND NFP_FLOWER_LAYER_IPV4 \<noteq> 0 then 12 else 0)"
    "length (g m) = length (d m) + (if ?l AND NFP_FLOWER_LAYER_IPV6 \<noteq> 0 then 40 else 0)"
    "length (v m) = 20" for m
    using f(3) by (simp_all add: a_def b_def c_def d_def g_def lay_def v_def)
  have n': "n = length (g m) + (if ?l AND NFP_FLOWER_LAYER_VXLAN \<noteq> 0 then 20 else 0)" for m
    by (simp add: n_def layer_size_def len)
  have start: "(0, replicate n 0, replicate n 0) = filled n [] []" by (simp add: filled_def)
  have "24 \<le> n" by (simp add: n_def layer_size_def)
  then have A: "Option.bind (put_frames 4 (nfp_flower_compile_meta_tci flow ?l False)
      (nfp_flower_compile_meta_tci flow ?l True) (0, replicate n 0, replicate n 0))
      (put_frames 4 (nfp_flower_compile_port port_id False ?tt) (nfp_flower_compile_port port_id True ?tt))
    = Some (filled n (a False) (a True))"
    unfolding start by (simp add: put_frames_filled a_def)
  have B: "put_layer (?l AND NFP_FLOWER_LAYER_MAC \<noteq> 0) 16 (nfp_flower_compile_mac flow) (filled n (a False) (a True))
      = Some (filled n (b False) (b True))"
    using put_layer_filled[of "a False" "a True" "nfp_flower_compile_mac flow" 16] len(1) \<open>24 \<le> n\<close>
    by (simp add: b_def lay_def)
  have C: "put_layer (?l AND NFP_FLOWER_LAYER_TP \<noteq> 0) 4 (nfp_flower_compile_tport flow) (filled n (b False) (b True))
      = Some (filled n (c False) (c True))"
    using put_layer_filled[of "b False" "b True" "nfp_flower_compile_tport flow" 4] len n'[of True]
    by (simp add: c_def lay_def)
  have D: "put_layer (?l AND NFP_FLOWER_LAYER_IPV4 \<noteq> 0) 12 (nfp_flower_compile_ipv4 flow) (filled n (c False) (c True))
      = Some (filled n (d False) (d True))"
    using put_layer_filled[of "c False" "c True" "nfp_flower_compile_ipv4 flow" 12] len n'[of True]
    by (simp add: d_def lay_def)
  have G: "put_layer (?l AND NFP_FLOWER_LAYER_IPV6 \<noteq> 0) 40 (nfp_flower_compile_ipv6 flow) (filled n (d False) (d True))
      = Some (filled n (g False) (g True))"
    using put_layer_filled[of "d False" "d True" "nfp_flower_compile_ipv6 flow" 40] len n'[of True]
    by (simp add: g_def lay_def)
  have len_frames: "length (match_frames flow ?l port_id m) = n" for m
    unfolding frames using n'[of m] len(6) by simp
  let ?r = "\<lparr>mr_err = 0, mr_off = n, mr_unmasked = match_frames flow ?l port_id False,
       mr_mask = match_frames flow ?l port_id True,
       mr_tun = (if ?l AND NFP_FLOWER_LAYER_VXLAN \<noteq> 0 \<and> is_repr then Some (ff_enc_ipv4_dst (fw_key flow)) else None)\<rparr>"
  have full: "filled n (match_frames flow ?l port_id False) (match_frames flow ?l port_id True) =
      (n, match_frames flow ?l port_id False, match_frames flow ?l port_id True)"
    by (simp add: filled_def len_frames)
  have V: "match_tunnel flow is_repr (filled n (g False) (g True)) = Some ?r" if on: "?l AND NFP_FLOWER_LAYER_VXLAN \<noteq> 0"
  proof -
    have "snd (nfp_flower_compile_vxlan flow False None) = Some (ff_enc_ipv4_dst (fw_key flow))"
      using tun on f(6) by (simp add: nfp_flower_compile_vxlan_def flow_target_def Let_def)
    then have k: "nfp_flower_compile_vxlan flow False None = (v False, Some (ff_enc_ipv4_dst (fw_key flow)))"
      by (simp add: v_def prod_eq_iff)
    have m: "fst (nfp_flower_compile_vxlan flow True (Some 0)) = v True"
      by (simp add: v_def nfp_flower_compile_vxlan_def Let_def)
    have "put_frames 20 (v False) (v True) (filled n (g False) (g True)) = Some (filled n (g False @ v False) (g True @ v True))"
      by (rule put_frames_filled) (use len n'[of True] on in simp_all)
    also have "\<dots> = Some (n, match_frames flow ?l port_id False, match_frames flow ?l port_id True)"
      using full on by (simp add: frames)
    finally show ?thesis using on m by (simp add: match_tunnel_def k case_prod_beta Let_def)
  qed
  have "nfp_flower_compile_flow_match flow ls is_repr port_id = Some ?r"
  proof (cases "?l AND NFP_FLOWER_LAYER_VXLAN \<noteq> 0")
    case True
    then show ?thesis
      using A B C D G V[OF True] f(1,2) by (simp add: nfp_flower_compile_flow_match_def size Let_def)
  next
    case False
    then have "filled n (g False) (g True) = (n, match_frames flow ?l port_id False, match_frames flow ?l port_id True)"
      using full by (simp add: frames)
    then show ?thesis
      using A B C D G False f(1,2) by (simp add: nfp_flower_compile_flow_match_def size Let_def)
  qed
  moreover have "n \<le> 88" "n mod 4 = 0" using f(4,5) by (simp_all add: n_def)
  moreover have "int n mod 4 = 0" using \<open>n mod 4 = 0\<close> by presburger
  ultimately show ?thesis using len_frames by (simp add: size)
qed

text \<open>
  Claim C17. The compiler fills the key of the calculated size exactly: no frame is written outside a
  buffer, the cursor ends at the size, exact key and mask are the frames of the layers in
  order, and the size is a multiple of four that fits the 8-bit length of the metadata. The
  tunnel destination, when a rule needs one, has been set.
\<close>

theorem flower_match_fills_key:
  assumes "nfp_flower_calculate_key_layers flow = Inr ls"
  shows "nfp_flower_compile_flow_match flow ls is_repr port_id = Some
      \<lparr>mr_err = 0, mr_off = nat (kl_key_size ls),
       mr_unmasked = match_frames flow (kl_key_layer ls) port_id False,
       mr_mask = match_frames flow (kl_key_layer ls) port_id True,
       mr_tun = (if kl_key_layer ls AND NFP_FLOWER_LAYER_VXLAN \<noteq> 0 \<and> is_repr
                 then Some (ff_enc_ipv4_dst (fw_key flow)) else None)\<rparr> \<and>
    length (match_frames flow (kl_key_layer ls) port_id m) = nat (kl_key_size ls) \<and>
    0 \<le> kl_key_size ls \<and> kl_key_size ls \<le> 88 \<and> kl_key_size ls mod 4 = 0"
  by (rule match_fills_key[OF assms])

definition sample_fields :: fl_flow_key where
  "sample_fields = \<lparr>ff_n_proto = 0x0800, ff_ip_proto = 6, ff_ip_tos = 0, ff_ip_ttl = 0, ff_vlan_id = 0,
     ff_vlan_priority = 0, ff_eth_dst = 0, ff_eth_src = 0, ff_tp_src = 0, ff_tp_dst = 80, ff_ipv4_src = 0,
     ff_ipv4_dst = 0x0a000001, ff_ipv6_src = 0, ff_ipv6_dst = 0, ff_enc_addr_type = 2, ff_enc_ipv4_src = 0,
     ff_enc_ipv4_dst = 0x0a010101, ff_enc_tp_dst = 4789, ff_enc_keyid = 7\<rparr>"

definition sample_rule :: tc_cls_flower where
  "sample_rule = \<lparr>fw_used_keys = [FLOW_DISSECTOR_KEY_BASIC, FLOW_DISSECTOR_KEY_IPV4_ADDRS, FLOW_DISSECTOR_KEY_PORTS,
       FLOW_DISSECTOR_KEY_ENC_CONTROL, FLOW_DISSECTOR_KEY_ENC_IPV4_ADDRS, FLOW_DISSECTOR_KEY_ENC_PORTS],
     fw_key = sample_fields,
     fw_mask = sample_fields\<lparr>ff_n_proto := 0xffff, ff_ip_proto := 0xff, ff_enc_addr_type := 0xffff,
       ff_enc_ipv4_dst := 0xffffffff, ff_enc_tp_dst := 0xffff\<rparr>\<rparr>"

lemma sample_rule_layers:
  "nfp_flower_calculate_key_layers sample_rule = Inr \<lparr>kl_key_layer_two = 0, kl_key_layer = 0x9e, kl_key_size = 60\<rparr>"
  by code_simp

lemma flower_match_fills_key_witness:
  "length (match_frames sample_rule 0x9e 1 False) = 60 \<and>
   nfp_flower_compile_flow_match sample_rule \<lparr>kl_key_layer_two = 0, kl_key_layer = 0x9e, kl_key_size = 60\<rparr> True 1 \<noteq> None"
  using flower_match_fills_key[OF sample_rule_layers, of True 1 False] by simp

end
