(* ===== verification/Flower_Action.thy ===== *)
theory Flower_Action
  imports Flower_Match
begin

text \<open>
  The actions of an offloaded rule, \<open>flower/action.c\<close>, and the control message that carries a
  rule to the firmware, \<open>nfp_flower_xmit_flow\<close> of \<open>flower/offload.c\<close>. The action list is
  written into a buffer of 1216 bytes; as for the match, a write outside of it is \<open>None\<close>,
  \<open>Some (Inl e)\<close> an error code. The traffic-control actions come from the kernel.
\<close>

section \<open>Actions\<close>

record tunnel_info =
  ti_tp_dst :: u16
  ti_options_len :: nat
  ti_tun_id :: u64
  ti_tun_flags :: u16
  ti_ttl :: u8
  ti_tos :: u8
  ti_ipv4_dst :: u32

text \<open>What \<open>is_tcf_*\<close> tells apart; VLAN push with protocol, priority and id.\<close>

datatype tc_action =
  Gact_shot | Mirred_redirect int | Mirred_mirror int | Vlan_pop | Vlan_push u16 "3 word" "12 word"
| Tunnel_set tunnel_info | Tunnel_release | Other_action

text \<open>A device as \<open>__dev_get_by_index\<close> finds it: link kind, same switch as the ingress, port.\<close>

record out_dev =
  od_kind :: "string option"
  od_same_parent :: bool
  od_port_id :: u32

type_synonym dev_table = "int \<Rightarrow> out_dev option"

abbreviation (input) NFP_FL_MAX_A_SIZ :: nat where "NFP_FL_MAX_A_SIZ \<equiv> 1216"
abbreviation (input) NFP_FL_TUNNEL_VXLAN :: u32 where "NFP_FL_TUNNEL_VXLAN \<equiv> 2"
abbreviation (input) NFP_FL_OUT_FLAGS_LAST :: u16 where "NFP_FL_OUT_FLAGS_LAST \<equiv> 0x8000"
abbreviation (input) NFP_FL_OUT_FLAGS_USE_TUN :: u16 where "NFP_FL_OUT_FLAGS_USE_TUN \<equiv> 0x0010"
abbreviation (input) NFP_FL_PORT_TYPE_TUN :: u32 where "NFP_FL_PORT_TYPE_TUN \<equiv> 0x50000000"
abbreviation (input) NFP_FL_SC_ACT_DROP :: u32 where "NFP_FL_SC_ACT_DROP \<equiv> 0x80000000"
abbreviation (input) NFP_FL_SC_ACT_POPV :: u32 where "NFP_FL_SC_ACT_POPV \<equiv> 0x6a000000"
abbreviation (input) NFP_FL_SC_ACT_NULL :: u32 where "NFP_FL_SC_ACT_NULL \<equiv> 0"

abbreviation (input) NFP_FL_ACTION_OPCODE_OUTPUT :: u16 where "NFP_FL_ACTION_OPCODE_OUTPUT \<equiv> 0"
abbreviation (input) NFP_FL_ACTION_OPCODE_PUSH_VLAN :: u16 where "NFP_FL_ACTION_OPCODE_PUSH_VLAN \<equiv> 1"
abbreviation (input) NFP_FL_ACTION_OPCODE_POP_VLAN :: u16 where "NFP_FL_ACTION_OPCODE_POP_VLAN \<equiv> 2"
abbreviation (input) NFP_FL_ACTION_OPCODE_SET_IPV4_TUNNEL :: u16 where "NFP_FL_ACTION_OPCODE_SET_IPV4_TUNNEL \<equiv> 6"
abbreviation (input) NFP_FL_ACTION_OPCODE_PRE_TUNNEL :: u16 where "NFP_FL_ACTION_OPCODE_PRE_TUNNEL \<equiv> 17"

abbreviation (input) "sizeof_output \<equiv> (8 :: nat)"
abbreviation (input) "sizeof_push_vlan \<equiv> (8 :: nat)"
abbreviation (input) "sizeof_pop_vlan \<equiv> (4 :: nat)"
abbreviation (input) "sizeof_pre_tunnel \<equiv> (20 :: nat)"
abbreviation (input) "sizeof_set_vxlan \<equiv> (28 :: nat)"

text \<open>The fields of a structure at \<open>off\<close>, each at its offset.\<close>

fun write_fields :: "nat \<Rightarrow> (nat \<times> u8 list) list \<Rightarrow> u8 list \<Rightarrow> u8 list option" where
  "write_fields off [] buf = Some buf"
| "write_fields off ((d, bs) # fs) buf = Option.bind (write_at (off + d) bs buf) (write_fields off fs)"

definition act_op :: "u16 \<Rightarrow> nat \<Rightarrow> u16" where
  "act_op opcode act_size = of_nat (act_size div 4) OR push_bit 8 opcode"

record act_state =
  as_data :: "u8 list"
  as_len :: nat
  as_shortcut :: u32
  as_tun_type :: u32
  as_tun_out_cnt :: nat

type_synonym act_result = "act_state res option"

definition nfp_fl_pop_vlan :: "nat \<Rightarrow> u8 list \<Rightarrow> u8 list option" where
  "nfp_fl_pop_vlan off data =
     write_fields off [(0, be16 (act_op NFP_FL_ACTION_OPCODE_POP_VLAN sizeof_pop_vlan)), (2, be16 0)] data"

definition nfp_fl_push_vlan :: "nat \<Rightarrow> u16 \<Rightarrow> 3 word \<Rightarrow> 12 word \<Rightarrow> u8 list \<Rightarrow> u8 list option" where
  "nfp_fl_push_vlan off proto prio vid data =
     write_fields off [(0, be16 (act_op NFP_FL_ACTION_OPCODE_PUSH_VLAN sizeof_push_vlan)), (2, be16 0),
       (4, be16 proto), (6, be16 (push_bit 13 (ucast prio) OR ucast vid OR 0x1000))] data"

definition nfp_fl_netdev_is_tunnel_type :: "out_dev \<Rightarrow> u32 \<Rightarrow> bool" where
  "nfp_fl_netdev_is_tunnel_type dev tun_type =
     (case od_kind dev of None \<Rightarrow> False
      | Some k \<Rightarrow> if k = ''vxlan'' then tun_type = NFP_FL_TUNNEL_VXLAN else False)"

definition nfp_fl_output :: "dev_table \<Rightarrow> int \<Rightarrow> bool \<Rightarrow> act_state \<Rightarrow> act_result" where
  "nfp_fl_output devs ifindex final st =
     (case write_fields (as_len st) [(0, be16 (act_op NFP_FL_ACTION_OPCODE_OUTPUT sizeof_output))] (as_data st) of
        None \<Rightarrow> None
      | Some data \<Rightarrow> (case devs ifindex of None \<Rightarrow> Some (Inl (- EOPNOTSUPP)) | Some dev \<Rightarrow>
          let tmp_flags = (if final then NFP_FL_OUT_FLAGS_LAST else 0); tun_type = as_tun_type st;
              put = (\<lambda>flags port cnt. map_option (\<lambda>data. Inr (st\<lparr>as_data := data, as_shortcut := port, as_tun_out_cnt := cnt\<rparr>))
                       (write_fields (as_len st) [(2, be16 flags), (4, be32 port)] data))
          in if tun_type \<noteq> 0 then
               if \<not> nfp_fl_netdev_is_tunnel_type dev tun_type then Some (Inl (- EOPNOTSUPP))
               else if as_tun_out_cnt st \<noteq> 0 then Some (Inl (- EOPNOTSUPP))
               else put (tmp_flags OR NFP_FL_OUT_FLAGS_USE_TUN) (NFP_FL_PORT_TYPE_TUN OR tun_type) (as_tun_out_cnt st + 1)
             else if \<not> od_same_parent dev then Some (Inl (- EOPNOTSUPP))
             else if od_port_id dev = 0 then Some (Inl (- EOPNOTSUPP))
             else put tmp_flags (od_port_id dev) (as_tun_out_cnt st)))"

definition nfp_fl_supported_tun_port :: "tunnel_info \<Rightarrow> bool" where
  "nfp_fl_supported_tun_port tun \<longleftrightarrow> ti_tp_dst tun = NFP_FL_VXLAN_PORT"

text \<open>The pre-tunnel action goes first, the others move up by its size.\<close>

definition nfp_fl_pre_tunnel :: "nat \<Rightarrow> u8 list \<Rightarrow> u8 list option" where
  "nfp_fl_pre_tunnel act_len data =
     Option.bind (if act_len \<noteq> 0 then write_at sizeof_pre_tunnel (take act_len data) data else Some data)
       (write_fields 0 [(0, replicate sizeof_pre_tunnel 0),
          (0, be16 (act_op NFP_FL_ACTION_OPCODE_PRE_TUNNEL sizeof_pre_tunnel))])"

text \<open>The fields \<open>reserved\<close> and \<open>extra\<close> are left as they are; the pre-tunnel action is at 0.\<close>

definition nfp_fl_set_vxlan :: "tunnel_info \<Rightarrow> act_state \<Rightarrow> act_result" where
  "nfp_fl_set_vxlan vxlan st =
     (if ti_options_len vxlan \<noteq> 0 then Some (Inl (- EOPNOTSUPP))
      else map_option (\<lambda>data. Inr (st\<lparr>as_data := data\<rparr>))
        (Option.bind (write_fields (as_len st)
           [(0, be16 (act_op NFP_FL_ACTION_OPCODE_SET_IPV4_TUNNEL sizeof_set_vxlan)), (12, be32 0x20),
            (4, be64 (ti_tun_id vxlan)), (16, be16 (ti_tun_flags vxlan)), (18, [ti_ttl vxlan]), (19, [ti_tos vxlan])]
           (as_data st))
           (write_fields 0 [(4, be32 (ti_ipv4_dst vxlan))])))"

definition bump_len :: "nat \<Rightarrow> act_result \<Rightarrow> act_result" where
  "bump_len n = map_option (map_sum id (\<lambda>st. st\<lparr>as_len := as_len st + n\<rparr>))"

definition nfp_flower_loop_action :: "dev_table \<Rightarrow> tc_action \<Rightarrow> act_state \<Rightarrow> act_result" where
  "nfp_flower_loop_action devs a st =
     (let full = (\<lambda>n. as_len st + n > NFP_FL_MAX_A_SIZ); unsupported = Some (Inl (- EOPNOTSUPP));
          put = (\<lambda>n sc r. map_option (\<lambda>data. Inr (st\<lparr>as_data := data, as_len := as_len st + n, as_shortcut := sc\<rparr>)) r)
      in case a of
        Gact_shot \<Rightarrow> Some (Inr (st\<lparr>as_shortcut := NFP_FL_SC_ACT_DROP\<rparr>))
      | Mirred_redirect ifindex \<Rightarrow>
          if full sizeof_output then unsupported else bump_len sizeof_output (nfp_fl_output devs ifindex True st)
      | Mirred_mirror ifindex \<Rightarrow>
          if full sizeof_output then unsupported else bump_len sizeof_output (nfp_fl_output devs ifindex False st)
      | Vlan_pop \<Rightarrow>
          if full sizeof_pop_vlan then unsupported
          else put sizeof_pop_vlan NFP_FL_SC_ACT_POPV (nfp_fl_pop_vlan (as_len st) (as_data st))
      | Vlan_push proto prio vid \<Rightarrow>
          if full sizeof_push_vlan then unsupported
          else put sizeof_push_vlan NFP_FL_SC_ACT_NULL (nfp_fl_push_vlan (as_len st) proto prio vid (as_data st))
      | Tunnel_set tun \<Rightarrow>
          if \<not> nfp_fl_supported_tun_port tun then unsupported
          else if full (sizeof_pre_tunnel + sizeof_set_vxlan) then unsupported
          else (case nfp_fl_pre_tunnel (as_len st) (as_data st) of None \<Rightarrow> None | Some data \<Rightarrow>
            bump_len sizeof_set_vxlan (nfp_fl_set_vxlan tun
              (st\<lparr>as_data := data, as_len := as_len st + sizeof_pre_tunnel, as_shortcut := NFP_FL_SC_ACT_NULL,
                  as_tun_type := NFP_FL_TUNNEL_VXLAN\<rparr>)))
      | Tunnel_release \<Rightarrow> Some (Inr st)
      | Other_action \<Rightarrow> unsupported)"

fun loop_actions :: "dev_table \<Rightarrow> tc_action list \<Rightarrow> act_state \<Rightarrow> act_result" where
  "loop_actions devs [] st = Some (Inr st)"
| "loop_actions devs (a # as) st =
     (case nfp_flower_loop_action devs a st of
        None \<Rightarrow> None | Some (Inl e) \<Rightarrow> Some (Inl e) | Some (Inr st) \<Rightarrow> loop_actions devs as st)"

text \<open>
  The result: the action buffer, the 8-bit length put into the metadata, and the shortcut. The
  shortcut the allocation left in the rule (\<open>sc\<close>) stays when there is no action.
\<close>

definition nfp_flower_compile_action ::
  "dev_table \<Rightarrow> tc_action list \<Rightarrow> u32 \<Rightarrow> (u8 list \<times> u8 \<times> u32) res option" where
  "nfp_flower_compile_action devs actions sc =
     (case loop_actions devs actions
        \<lparr>as_data = replicate NFP_FL_MAX_A_SIZ 0, as_len = 0, as_shortcut = sc, as_tun_type = 0, as_tun_out_cnt = 0\<rparr> of
        None \<Rightarrow> None
      | Some (Inl e) \<Rightarrow> Some (Inl e)
      | Some (Inr st) \<Rightarrow>
        Some (Inr (as_data st, of_nat (as_len st),
                   if length actions > 1 then NFP_FL_SC_ACT_NULL else as_shortcut st)))"

section \<open>The action list as the firmware sees it\<close>

datatype nfp_act =
  Act_output u16 u32 | Act_push_vlan u16 u16 | Act_pop_vlan | Act_pre_tunnel u32
| Act_set_vxlan u64 u16 u8 u8

fun act_opcode :: "nfp_act \<Rightarrow> u16" where
  "act_opcode (Act_output _ _) = NFP_FL_ACTION_OPCODE_OUTPUT"
| "act_opcode (Act_push_vlan _ _) = NFP_FL_ACTION_OPCODE_PUSH_VLAN"
| "act_opcode Act_pop_vlan = NFP_FL_ACTION_OPCODE_POP_VLAN"
| "act_opcode (Act_pre_tunnel _) = NFP_FL_ACTION_OPCODE_PRE_TUNNEL"
| "act_opcode (Act_set_vxlan _ _ _ _) = NFP_FL_ACTION_OPCODE_SET_IPV4_TUNNEL"

fun act_body :: "nfp_act \<Rightarrow> u8 list" where
  "act_body (Act_output flags port) = be16 flags @ be32 port"
| "act_body (Act_push_vlan tpid tci) = be16 0 @ be16 tpid @ be16 tci"
| "act_body Act_pop_vlan = be16 0"
| "act_body (Act_pre_tunnel dst) = be16 0 @ be32 dst @ replicate 12 0"
| "act_body (Act_set_vxlan tun_id flags ttl tos) =
     be16 0 @ be64 tun_id @ be32 0x20 @ be16 flags @ [ttl, tos] @ replicate 8 0"

definition act_bytes :: "nfp_act \<Rightarrow> u8 list" where
  "act_bytes a = be16 (act_op (act_opcode a) (2 + length (act_body a))) @ act_body a"

text \<open>The list of firmware actions a traffic-control action adds, with the state it depends on.\<close>

record act_abs =
  ab_acts :: "nfp_act list"
  ab_shortcut :: u32
  ab_tun_type :: u32
  ab_tun_out_cnt :: nat

definition acts_size :: "nfp_act list \<Rightarrow> nat" where
  "acts_size acts = length (concat (map act_bytes acts))"

definition add_act :: "nfp_act \<Rightarrow> u32 \<Rightarrow> act_abs \<Rightarrow> act_abs" where
  "add_act x sc ab = ab\<lparr>ab_acts := ab_acts ab @ [x], ab_shortcut := sc\<rparr>"

definition output_spec :: "dev_table \<Rightarrow> int \<Rightarrow> u16 \<Rightarrow> act_abs \<Rightarrow> act_abs option" where
  "output_spec devs i flags ab =
     (case devs i of None \<Rightarrow> None | Some dev \<Rightarrow>
        if ab_tun_type ab \<noteq> 0 then
          if od_kind dev = Some ''vxlan'' \<and> ab_tun_type ab = NFP_FL_TUNNEL_VXLAN \<and> ab_tun_out_cnt ab = 0 then
            let port = NFP_FL_PORT_TYPE_TUN OR NFP_FL_TUNNEL_VXLAN in
            Some ((add_act (Act_output (flags OR NFP_FL_OUT_FLAGS_USE_TUN) port) port ab)\<lparr>ab_tun_out_cnt := 1\<rparr>)
          else None
        else if od_same_parent dev \<and> od_port_id dev \<noteq> 0 then Some (add_act (Act_output flags (od_port_id dev)) (od_port_id dev) ab)
        else None)"

fun action_spec :: "dev_table \<Rightarrow> tc_action \<Rightarrow> act_abs \<Rightarrow> act_abs option" where
  "action_spec devs Gact_shot ab = Some (ab\<lparr>ab_shortcut := NFP_FL_SC_ACT_DROP\<rparr>)"
| "action_spec devs (Mirred_redirect i) ab = output_spec devs i NFP_FL_OUT_FLAGS_LAST ab"
| "action_spec devs (Mirred_mirror i) ab = output_spec devs i 0 ab"
| "action_spec devs Vlan_pop ab = Some (add_act Act_pop_vlan NFP_FL_SC_ACT_POPV ab)"
| "action_spec devs (Vlan_push proto prio vid) ab =
     Some (add_act (Act_push_vlan proto (push_bit 13 (ucast prio) OR ucast vid OR 0x1000)) NFP_FL_SC_ACT_NULL ab)"
| "action_spec devs (Tunnel_set t) ab =
     (if ti_tp_dst t = NFP_FL_VXLAN_PORT \<and> ti_options_len t = 0 then
        Some (ab\<lparr>ab_acts := Act_pre_tunnel (ti_ipv4_dst t) # ab_acts ab
                              @ [Act_set_vxlan (ti_tun_id t) (ti_tun_flags t) (ti_ttl t) (ti_tos t)],
                 ab_shortcut := NFP_FL_SC_ACT_NULL, ab_tun_type := NFP_FL_TUNNEL_VXLAN\<rparr>)
      else None)"
| "action_spec devs Tunnel_release ab = Some ab"
| "action_spec devs Other_action ab = None"

text \<open>A rule is refused as well when its list would not fit the buffer.\<close>

fun actions_spec :: "dev_table \<Rightarrow> tc_action list \<Rightarrow> act_abs \<Rightarrow> act_abs option" where
  "actions_spec devs [] ab = Some ab"
| "actions_spec devs (a # as) ab =
     (case action_spec devs a ab of None \<Rightarrow> None | Some ab \<Rightarrow>
        if acts_size (ab_acts ab) > NFP_FL_MAX_A_SIZ then None else actions_spec devs as ab)"

section \<open>The compiler writes what the list says\<close>

lemma be_list:
  "be16 w = [ucast (drop_bit 8 w), ucast w]"
  "be32 v = [ucast (drop_bit 24 v), ucast (drop_bit 16 v), ucast (drop_bit 8 v), ucast v]"
  by (simp_all add: be_bytes_def upt_rec)

lemma be64_list:
  "be64 u = [ucast (drop_bit 56 u), ucast (drop_bit 48 u), ucast (drop_bit 40 u), ucast (drop_bit 32 u),
     ucast (drop_bit 24 u), ucast (drop_bit 16 u), ucast (drop_bit 8 u), ucast u]"
  by (simp add: be_bytes_def upt_rec)

text \<open>A write beyond a prefix leaves it alone; one within a prefix leaves the rest alone.\<close>

lemma write_at_prefix: "write_at (length p + d) bs (p @ z) = map_option ((@) p) (write_at d bs z)"
  by (simp add: write_at_def)

lemma write_fields_prefix: "write_fields (length p) fs (p @ z) = map_option ((@) p) (write_fields 0 fs z)"
proof (induction fs arbitrary: z)
  case (Cons f fs)
  obtain d bs where f: "f = (d, bs)" by force
  show ?case
    by (cases "write_at d bs z") (simp_all add: f write_at_prefix Cons.IH)
qed simp

lemma write_at_within: "write_at d bs z = Some z' \<Longrightarrow> write_at d bs (z @ w) = Some (z' @ w) \<and> length z' = length z"
  by (auto simp: write_at_def split: if_split_asm)

lemma write_fields_within: "write_fields off fs z = Some z' \<Longrightarrow> write_fields off fs (z @ w) = Some (z' @ w) \<and> length z' = length z"
proof (induction fs arbitrary: z)
  case (Cons f fs)
  obtain d bs where f: "f = (d, bs)" by force
  obtain y where y: "write_at (off + d) bs z = Some y" "write_fields off fs y = Some z'"
    using Cons.prems by (auto simp: f bind_eq_Some_conv)
  show ?case using write_at_within[OF y(1), of w] Cons.IH[OF y(2)] by (simp add: f)
qed simp

lemma write_struct:
  assumes "write_fields 0 fs (replicate n 0) = Some bs" and "length p + n \<le> m"
  shows "write_fields (length p) fs (p @ replicate (m - length p) 0) = Some (p @ bs @ replicate (m - (length p + n)) 0)"
    "length bs = n"
proof -
  have "replicate (m - length p) (0 :: u8) = replicate n 0 @ replicate (m - (length p + n)) 0"
    using assms(2) by (simp add: replicate_add[symmetric])
  then show "write_fields (length p) fs (p @ replicate (m - length p) 0) = Some (p @ bs @ replicate (m - (length p + n)) 0)"
    using write_fields_within[OF assms(1)] by (simp add: write_fields_prefix)
  show "length bs = n" using write_fields_within[OF assms(1), of "[]"] by simp
qed

lemma act_lengths [simp]:
  "length (act_bytes (Act_output f q)) = 8" "length (act_bytes (Act_push_vlan a b)) = 8"
  "length (act_bytes Act_pop_vlan) = 4" "length (act_bytes (Act_pre_tunnel d)) = 20"
  "length (act_bytes (Act_set_vxlan i f l s)) = 28"
  by (simp_all add: act_bytes_def)

lemma rep18: "replicate 18 (x :: u8) = x # x # x # x # x # x # replicate 12 x"
  by (simp add: numeral_eq_Suc)

lemma rep28: "replicate 28 (x :: u8) = replicate 20 x @ replicate 8 x" "replicate 20 (x :: u8) = x # x # replicate 18 x"
  by (simp_all add: numeral_eq_Suc)

lemma struct_bytes:
  "write_fields 0 [(0, be16 (act_op 0 8)), (2, be16 f), (4, be32 q)] (replicate 8 0) = Some (act_bytes (Act_output f q))"
  "write_fields 0 [(0, be16 (act_op 1 8)), (2, be16 0), (4, be16 a), (6, be16 b)] (replicate 8 0) = Some (act_bytes (Act_push_vlan a b))"
  "write_fields 0 [(0, be16 (act_op 2 4)), (2, be16 0)] (replicate 4 0) = Some (act_bytes Act_pop_vlan)"
  "write_fields 0 [(0, replicate 20 0), (0, be16 (act_op 17 20))] (replicate 20 0) = Some (act_bytes (Act_pre_tunnel 0))"
  "write_fields 0 [(4, be32 d)] (act_bytes (Act_pre_tunnel 0)) = Some (act_bytes (Act_pre_tunnel d))"
  "write_fields 0 [(0, be16 (act_op 6 28)), (12, be32 0x20), (4, be64 i), (16, be16 f), (18, [l]), (19, [s])] (replicate 28 0) =
     Some (act_bytes (Act_set_vxlan i f l s))"
  by (simp_all add: act_bytes_def be_list be64_list write_at_def rep18 rep28)

text \<open>The buffer that holds a list of actions.\<close>

definition acts_buf :: "nfp_act list \<Rightarrow> u8 list" where
  "acts_buf acts = concat (map act_bytes acts) @ replicate (NFP_FL_MAX_A_SIZ - acts_size acts) 0"

definition conc :: "act_abs \<Rightarrow> act_state" where
  "conc ab = \<lparr>as_data = acts_buf (ab_acts ab), as_len = acts_size (ab_acts ab), as_shortcut = ab_shortcut ab,
     as_tun_type = ab_tun_type ab, as_tun_out_cnt = ab_tun_out_cnt ab\<rparr>"

lemma acts_size_simps [simp]:
  "acts_size [] = 0" "acts_size (a # as) = length (act_bytes a) + acts_size as"
  "acts_size (as @ bs) = acts_size as + acts_size bs"
  by (simp_all add: acts_size_def)

lemma write_act:
  assumes "write_fields 0 fs (replicate n 0) = Some (act_bytes a)" and "acts_size acts + n \<le> NFP_FL_MAX_A_SIZ"
  shows "write_fields (acts_size acts) fs (acts_buf acts) = Some (acts_buf (acts @ [a]))"
  using write_struct[OF assms(1), of "concat (map act_bytes acts)" NFP_FL_MAX_A_SIZ] assms(2)
  by (simp add: acts_buf_def acts_size_def)

lemma write_fields_split:
  "write_fields off (fs @ gs) buf = Option.bind (write_fields off fs buf) (write_fields off gs)"
proof (induction fs arbitrary: buf)
  case (Cons f fs)
  then show ?case by (cases f; cases "write_at (off + fst f) (snd f) buf") auto
qed simp

lemma bind_write_fields:
  "write_fields off fs buf = Some y \<Longrightarrow> write_fields off gs y = write_fields off (fs @ gs) buf"
  by (simp add: write_fields_split)

text \<open>Each operation of the compiler refines its specification.\<close>

definition refines :: "act_abs option \<Rightarrow> act_result \<Rightarrow> bool" where
  "refines x r \<longleftrightarrow> r = (case x of None \<Rightarrow> Some (Inl (- EOPNOTSUPP)) | Some ab \<Rightarrow> Some (Inr (conc ab)))"

lemma output_refines:
  assumes fits: "acts_size (ab_acts ab) + 8 \<le> NFP_FL_MAX_A_SIZ" and tun: "ab_tun_type ab \<in> {0, 2}"
  shows "refines (output_spec devs i (if final then NFP_FL_OUT_FLAGS_LAST else 0) ab)
    (bump_len 8 (nfp_fl_output devs i final (conc ab)))"
proof -
  let ?len = "acts_size (ab_acts ab)" and ?buf = "acts_buf (ab_acts ab)"
  have w: "write_fields ?len ([(0, be16 (act_op 0 8))] @ [(2, be16 f), (4, be32 q)]) ?buf
      = Some (acts_buf (ab_acts ab @ [Act_output f q]))" for f q
    using write_act[OF struct_bytes(1) fits] by simp
  obtain data where d: "write_fields ?len [(0, be16 (act_op 0 8))] ?buf = Some data"
    using w[of 0 0] unfolding write_fields_split bind_eq_Some_conv by blast
  have w2: "write_fields ?len [(2, be16 f), (4, be32 q)] data = Some (acts_buf (ab_acts ab @ [Act_output f q]))" for f q
    using w[of f q] unfolding write_fields_split d by (simp del: write_fields.simps)
  show ?thesis
  proof (cases "devs i")
    case None
    then show ?thesis using d by (simp add: refines_def output_spec_def nfp_fl_output_def conc_def bump_len_def del: write_fields.simps)
  next
    case (Some dev)
    have k: "nfp_fl_netdev_is_tunnel_type dev 2 \<longleftrightarrow> od_kind dev = Some ''vxlan''"
      by (simp add: nfp_fl_netdev_is_tunnel_type_def split: option.split)
    note defs = refines_def output_spec_def nfp_fl_output_def conc_def bump_len_def Let_def add_act_def
    show ?thesis
    proof (cases "ab_tun_type ab = 0")
      case True
      then show ?thesis using d w2 Some by (simp add: defs del: write_fields.simps)
    next
      case False
      then have "ab_tun_type ab = 2" using tun by simp
      then show ?thesis using d w2 Some k by (simp add: defs del: write_fields.simps)
    qed
  qed
qed

lemma pre_tunnel_buf:
  assumes "acts_size acts + 20 \<le> NFP_FL_MAX_A_SIZ"
  shows "nfp_fl_pre_tunnel (acts_size acts) (acts_buf acts) = Some (acts_buf (Act_pre_tunnel 0 # acts))"
proof -
  let ?bs = "concat (map act_bytes acts)" and ?k = "NFP_FL_MAX_A_SIZ - acts_size acts"
  have len: "length ?bs = acts_size acts" by (simp add: acts_size_def)
  have z: "replicate ?k (0 :: u8) = replicate 20 0 @ replicate (?k - 20) 0"
    using assms by (simp add: replicate_add[symmetric])
  have "(if acts_size acts \<noteq> 0 then write_at 20 (take (acts_size acts) (acts_buf acts)) (acts_buf acts) else Some (acts_buf acts))
      = Some (take 20 (acts_buf acts) @ ?bs @ replicate (?k - 20) 0)"
  proof (cases "acts_size acts = 0")
    case True
    have "acts_buf acts = replicate 20 0 @ replicate 1196 0" and "?bs = []"
      using True len unfolding acts_buf_def by (simp_all only: length_0_conv append_Nil replicate_add[symmetric]) simp
    then show ?thesis using True by (simp only: if_False simp_thms append_Nil) simp
  next
    case False
    then show ?thesis using assms len by (simp add: write_at_def acts_buf_def)
  qed
  moreover have "write_fields 0 [(0, replicate 20 0), (0, be16 (act_op 17 20))] (take 20 (acts_buf acts) @ w)
      = Some (act_bytes (Act_pre_tunnel 0) @ w)" for w
  proof -
    have "length (take 20 (acts_buf acts)) = 20" using assms len by (simp add: acts_buf_def)
    then have "write_at 0 (replicate 20 0) (take 20 (acts_buf acts) @ w) = write_at 0 (replicate 20 0) (replicate 20 0 @ w)"
      by (simp add: write_at_def)
    then have "write_fields 0 [(0, replicate 20 0), (0, be16 (act_op 17 20))] (take 20 (acts_buf acts) @ w)
        = write_fields 0 [(0, replicate 20 0), (0, be16 (act_op 17 20))] (replicate 20 0 @ w)" by simp
    then show ?thesis using write_fields_within[OF struct_bytes(4)] by simp
  qed
  moreover have "acts_buf (Act_pre_tunnel 0 # acts) = act_bytes (Act_pre_tunnel 0) @ ?bs @ replicate (?k - 20) 0"
    by (simp add: acts_buf_def)
  ultimately show ?thesis by (simp only: nfp_fl_pre_tunnel_def bind.bind_lunit)
qed

lemma set_vxlan_buf:
  assumes "acts_size acts + 48 \<le> NFP_FL_MAX_A_SIZ"
  shows "Option.bind (write_fields (acts_size acts + 20)
      [(0, be16 (act_op 6 28)), (12, be32 0x20), (4, be64 i), (16, be16 f), (18, [l]), (19, [s])] (acts_buf (Act_pre_tunnel 0 # acts)))
      (write_fields 0 [(4, be32 d)]) = Some (acts_buf (Act_pre_tunnel d # acts @ [Act_set_vxlan i f l s]))"
proof -
  have "write_fields 0 [(4, be32 d)] (acts_buf (Act_pre_tunnel 0 # as)) = Some (acts_buf (Act_pre_tunnel d # as))" for as
    using write_fields_within[OF struct_bytes(5)] by (simp add: acts_buf_def del: write_fields.simps)
  moreover have "write_fields (acts_size (Act_pre_tunnel 0 # acts))
      [(0, be16 (act_op 6 28)), (12, be32 0x20), (4, be64 i), (16, be16 f), (18, [l]), (19, [s])] (acts_buf (Act_pre_tunnel 0 # acts))
      = Some (acts_buf ((Act_pre_tunnel 0 # acts) @ [Act_set_vxlan i f l s]))"
    by (rule write_act[OF struct_bytes(6)]) (use assms in simp)
  moreover have "acts_size acts + 20 = acts_size (Act_pre_tunnel 0 # acts)" by simp
  ultimately show ?thesis by (simp only: bind.bind_lunit append_Cons)
qed

text \<open>The specification of one action with the size of the buffer.\<close>

definition step_spec :: "dev_table \<Rightarrow> tc_action \<Rightarrow> act_abs \<Rightarrow> act_abs option" where
  "step_spec devs a ab = (case action_spec devs a ab of None \<Rightarrow> None | Some ab \<Rightarrow>
     if acts_size (ab_acts ab) > NFP_FL_MAX_A_SIZ then None else Some ab)"

definition abs_ok :: "act_abs \<Rightarrow> bool" where
  "abs_ok ab \<longleftrightarrow> acts_size (ab_acts ab) \<le> NFP_FL_MAX_A_SIZ \<and> ab_tun_type ab \<in> {0, 2}"

lemma output_spec_size:
  "output_spec devs i f ab = Some ab' \<Longrightarrow>
     acts_size (ab_acts ab') = acts_size (ab_acts ab) + 8 \<and> ab_tun_type ab' = ab_tun_type ab"
  by (auto simp: output_spec_def add_act_def Let_def split: option.split_asm if_split_asm)

lemma step_spec_ok: "abs_ok ab \<Longrightarrow> step_spec devs a ab = Some ab' \<Longrightarrow> abs_ok ab'"
  by (cases a) (auto simp: step_spec_def abs_ok_def add_act_def dest: output_spec_size split: option.split_asm if_split_asm)

lemma step_output:
  assumes ok: "abs_ok ab" and a: "action_spec devs a ab = output_spec devs i (if final then NFP_FL_OUT_FLAGS_LAST else 0) ab"
    and c: "nfp_flower_loop_action devs a (conc ab) =
      (if acts_size (ab_acts ab) + 8 > NFP_FL_MAX_A_SIZ then Some (Inl (- EOPNOTSUPP)) else bump_len 8 (nfp_fl_output devs i final (conc ab)))"
  shows "refines (step_spec devs a ab) (nfp_flower_loop_action devs a (conc ab))"
proof (cases "acts_size (ab_acts ab) + 8 > NFP_FL_MAX_A_SIZ")
  case True
  then have "step_spec devs a ab = None"
    unfolding step_spec_def a by (auto dest: output_spec_size split: option.split)
  then show ?thesis using True c by (simp add: refines_def)
next
  case False
  have "step_spec devs a ab = output_spec devs i (if final then NFP_FL_OUT_FLAGS_LAST else 0) ab"
    unfolding step_spec_def a using False by (auto dest: output_spec_size split: option.split)
  then show ?thesis using False c output_refines[of ab devs i final] ok by (simp add: abs_ok_def)
qed

lemma step_refines:
  assumes ok: "abs_ok ab"
  shows "refines (step_spec devs a ab) (nfp_flower_loop_action devs a (conc ab))"
proof (cases a)
  case (Mirred_redirect i)
  show ?thesis
    by (rule step_output[OF ok, where i = i and final = True]) (simp_all add: Mirred_redirect nfp_flower_loop_action_def conc_def)
next
  case (Mirred_mirror i)
  show ?thesis
    by (rule step_output[OF ok, where i = i and final = False]) (simp_all add: Mirred_mirror nfp_flower_loop_action_def conc_def)
next
  case Vlan_pop
  have "nfp_fl_pop_vlan (acts_size (ab_acts ab)) (acts_buf (ab_acts ab)) = Some (acts_buf (ab_acts ab @ [Act_pop_vlan]))"
    if "acts_size (ab_acts ab) + 4 \<le> NFP_FL_MAX_A_SIZ"
    using write_act[OF struct_bytes(3) that] by (simp add: nfp_fl_pop_vlan_def del: write_fields.simps)
  then show ?thesis
    by (auto simp: Vlan_pop refines_def step_spec_def nfp_flower_loop_action_def add_act_def conc_def)
next
  case (Vlan_push proto prio vid)
  let ?x = "Act_push_vlan proto (push_bit 13 (ucast prio) OR ucast vid OR 0x1000)"
  have "nfp_fl_push_vlan (acts_size (ab_acts ab)) proto prio vid (acts_buf (ab_acts ab)) = Some (acts_buf (ab_acts ab @ [?x]))"
    if "acts_size (ab_acts ab) + 8 \<le> NFP_FL_MAX_A_SIZ"
    using write_act[OF struct_bytes(2) that] by (simp add: nfp_fl_push_vlan_def del: write_fields.simps)
  then show ?thesis
    by (auto simp: Vlan_push refines_def step_spec_def nfp_flower_loop_action_def add_act_def conc_def)
next
  case (Tunnel_set ti)
  let ?n = "acts_size (ab_acts ab)"
  note defs = Tunnel_set refines_def step_spec_def nfp_flower_loop_action_def nfp_fl_supported_tun_port_def Let_def
  show ?thesis
  proof (cases "ti_tp_dst ti = NFP_FL_VXLAN_PORT \<and> ?n + 48 \<le> NFP_FL_MAX_A_SIZ")
    case False
    then show ?thesis by (auto simp: defs conc_def)
  next
    case True
    then have "?n + 20 \<le> NFP_FL_MAX_A_SIZ" by simp
    note b = pre_tunnel_buf[OF this] set_vxlan_buf[OF True[THEN conjunct2]]
    show ?thesis
      using True b by (simp add: defs conc_def nfp_fl_set_vxlan_def bump_len_def del: write_fields.simps)
  qed
qed (use ok in \<open>simp_all add: refines_def step_spec_def nfp_flower_loop_action_def conc_def abs_ok_def\<close>)

lemma loop_refines: "abs_ok ab \<Longrightarrow> refines (actions_spec devs as ab) (loop_actions devs as (conc ab))"
proof (induction as arbitrary: ab)
  case Nil
  then show ?case by (simp add: refines_def)
next
  case (Cons a as)
  have s: "actions_spec devs (a # as) ab = (case step_spec devs a ab of None \<Rightarrow> None | Some ab \<Rightarrow> actions_spec devs as ab)"
    by (simp add: step_spec_def split: option.split)
  show ?case
    using step_refines[OF Cons.prems, of devs a] Cons.IH step_spec_ok[OF Cons.prems, of devs a]
    unfolding s by (cases "step_spec devs a ab") (simp_all add: refines_def)
qed

definition no_acts :: "u32 \<Rightarrow> act_abs" where
  "no_acts sc = \<lparr>ab_acts = [], ab_shortcut = sc, ab_tun_type = 0, ab_tun_out_cnt = 0\<rparr>"

lemma actions_spec_ok: "abs_ok ab \<Longrightarrow> actions_spec devs as ab = Some ab' \<Longrightarrow> abs_ok ab'"
proof (induction as arbitrary: ab)
  case (Cons a as)
  then obtain ab1 where "step_spec devs a ab = Some ab1" "actions_spec devs as ab1 = Some ab'"
    by (auto simp: step_spec_def split: option.split_asm if_split_asm)
  then show ?case using Cons step_spec_ok by blast
qed simp

lemma no_acts_ok: "abs_ok (no_acts sc)"
  by (simp add: abs_ok_def no_acts_def)

lemma actions_refine:
  "nfp_flower_compile_action devs actions sc = Some (case actions_spec devs actions (no_acts sc) of
     None \<Rightarrow> Inl (- EOPNOTSUPP)
   | Some ab \<Rightarrow> Inr (acts_buf (ab_acts ab), of_nat (acts_size (ab_acts ab)),
                     if length actions > 1 then NFP_FL_SC_ACT_NULL else ab_shortcut ab)) \<and>
   pred_option (\<lambda>ab. acts_size (ab_acts ab) \<le> NFP_FL_MAX_A_SIZ \<and> length (acts_buf (ab_acts ab)) = NFP_FL_MAX_A_SIZ)
     (actions_spec devs actions (no_acts sc))"
proof
  have "conc (no_acts sc) = \<lparr>as_data = replicate NFP_FL_MAX_A_SIZ 0, as_len = 0, as_shortcut = sc, as_tun_type = 0, as_tun_out_cnt = 0\<rparr>"
    by (simp add: conc_def no_acts_def acts_buf_def)
  then show "nfp_flower_compile_action devs actions sc = Some (case actions_spec devs actions (no_acts sc) of
     None \<Rightarrow> Inl (- EOPNOTSUPP)
   | Some ab \<Rightarrow> Inr (acts_buf (ab_acts ab), of_nat (acts_size (ab_acts ab)),
                     if length actions > 1 then NFP_FL_SC_ACT_NULL else ab_shortcut ab))"
    using loop_refines[OF no_acts_ok, of devs actions sc]
    by (simp add: nfp_flower_compile_action_def refines_def conc_def split: option.split)
  show "pred_option (\<lambda>ab. acts_size (ab_acts ab) \<le> NFP_FL_MAX_A_SIZ \<and> length (acts_buf (ab_acts ab)) = NFP_FL_MAX_A_SIZ)
     (actions_spec devs actions (no_acts sc))"
    using actions_spec_ok[OF no_acts_ok]
    by (cases "actions_spec devs actions (no_acts sc)") (auto simp: abs_ok_def acts_buf_def acts_size_def)
qed

text \<open>
  Claim C16. Refinement: the compiler accepts exactly the rules the specification accepts and leaves in the
  buffer exactly the bytes of its list of firmware actions, pre-tunnel actions moved to the
  front, zero behind them. It never writes outside of the 1216 bytes, on any input.
\<close>

theorem flower_actions_refine:
  "nfp_flower_compile_action devs actions sc = Some (case actions_spec devs actions (no_acts sc) of
     None \<Rightarrow> Inl (- EOPNOTSUPP)
   | Some ab \<Rightarrow> Inr (acts_buf (ab_acts ab), of_nat (acts_size (ab_acts ab)),
                     if length actions > 1 then NFP_FL_SC_ACT_NULL else ab_shortcut ab)) \<and>
   pred_option (\<lambda>ab. acts_size (ab_acts ab) \<le> NFP_FL_MAX_A_SIZ \<and> length (acts_buf (ab_acts ab)) = NFP_FL_MAX_A_SIZ)
     (actions_spec devs actions (no_acts sc))"
  by (rule actions_refine)

section \<open>The control message\<close>

text \<open>The metadata at the head of the message, \<open>struct nfp_fl_rule_metadata\<close>.\<close>

definition rule_meta_bytes :: "nfp_fl_payload \<Rightarrow> u32 \<Rightarrow> u8 list" where
  "rule_meta_bytes fl shortcut =
     [fl_key_len fl, fl_mask_len fl, fl_act_len fl, fl_flags fl] @ be32 (fl_host_ctx_id fl) @
     be64 (fl_host_cookie fl) @ be64 (fl_flow_version fl) @ be32 shortcut"

text \<open>
  \<open>memcpy\<close> of \<open>n\<close> bytes of a buffer into another at an offset: \<open>None\<close> when either end is left.
\<close>

definition memcpy_at :: "nat \<Rightarrow> u8 list \<Rightarrow> nat \<Rightarrow> u8 list \<Rightarrow> u8 list option" where
  "memcpy_at off src n dst = (if n \<le> length src then write_at off (take n src) dst else None)"

text \<open>
  The lengths go out in long words and are converted back, except when there is no memory for
  the message. The message is allocated with the total length and filled by four copies.
\<close>

definition nfp_flower_xmit_flow ::
  "bool \<Rightarrow> nfp_fl_payload \<Rightarrow> u32 \<Rightarrow> u8 list \<Rightarrow> ((int \<times> nfp_fl_payload) \<times> u8 list option) option" where
  "nfp_flower_xmit_flow mem nfp_flow shortcut action_data =
     (let meta_len = 28; key_len = unat (fl_key_len nfp_flow); mask_len = unat (fl_mask_len nfp_flow);
          act_len = unat (fl_act_len nfp_flow); tot_len = meta_len + key_len + mask_len + act_len;
          words = nfp_flow\<lparr>fl_key_len := drop_bit 2 (fl_key_len nfp_flow), fl_mask_len := drop_bit 2 (fl_mask_len nfp_flow),
                           fl_act_len := drop_bit 2 (fl_act_len nfp_flow)\<rparr>
      in if \<not> mem then Some ((- ENOMEM, words), None)
         else Option.bind (memcpy_at 0 (rule_meta_bytes words shortcut) meta_len (replicate tot_len 0)) (\<lambda>msg.
              Option.bind (memcpy_at meta_len (fl_unmasked_data nfp_flow) key_len msg) (\<lambda>msg.
              Option.bind (memcpy_at (meta_len + key_len) (fl_mask_data nfp_flow) mask_len msg) (\<lambda>msg.
              Option.bind (memcpy_at (meta_len + key_len + mask_len) action_data act_len msg) (\<lambda>msg.
                Some ((0, words\<lparr>fl_key_len := push_bit 2 (fl_key_len words), fl_mask_len := push_bit 2 (fl_mask_len words),
                                fl_act_len := push_bit 2 (fl_act_len words)\<rparr>), Some msg))))))"

text \<open>Reading a message by the lengths in its metadata, and an action list by its headers.\<close>

definition decode_rule :: "u8 list \<Rightarrow> u8 list \<times> u8 list \<times> u8 list" where
  "decode_rule msg =
     (let k = 4 * unat (msg ! 0); m = 4 * unat (msg ! 1); a = 4 * unat (msg ! 2)
      in (take k (drop 28 msg), take m (drop (28 + k) msg), take a (drop (28 + k + m) msg)))"

function parse_acts :: "u8 list \<Rightarrow> (u8 \<times> u8 list) list" where
  "parse_acts bs = (if length bs < 2 \<or> bs ! 1 = 0 then []
     else (bs ! 0, drop 2 (take (4 * unat (bs ! 1)) bs)) # parse_acts (drop (4 * unat (bs ! 1)) bs))"
  by auto
termination
proof (relation "measure length")
  fix bs :: "u8 list"
  assume "\<not> (length bs < 2 \<or> bs ! 1 = 0)"
  then have "0 < unat (bs ! 1)" "0 < length bs" by (auto simp: unat_gt_0)
  then show "(drop (4 * unat (bs ! 1)) bs, bs) \<in> measure length" by simp
qed simp

declare parse_acts.simps [simp del]

lemma rule_meta_length [simp]: "length (rule_meta_bytes fl sc) = 28"
  by (simp add: rule_meta_bytes_def)

lemma long_words:
  fixes w :: u8
  assumes "unat w mod 4 = 0"
  shows "4 * unat (drop_bit 2 w) = unat w" "push_bit 2 (drop_bit 2 w) = w"
proof -
  have w: "unat w < 256" using unsigned_less[of w, where 'a = nat] by simp
  then have d: "unat (drop_bit 2 w) = unat w div 4"
    by (simp add: drop_bit_eq_div unat_div_distrib)
  then show a: "4 * unat (drop_bit 2 w) = unat w" using assms by auto
  have "unat (push_bit 2 (drop_bit 2 w)) = (4 * unat (drop_bit 2 w)) mod 256"
    by (simp add: push_bit_eq_mult unat_word_ariths mult.commute)
  also have "\<dots> = unat w" unfolding a using w by simp
  finally show "push_bit 2 (drop_bit 2 w) = w" by (subst word_unat_eq_iff)
qed

lemma memcpy_next:
  assumes "n \<le> length src" "n \<le> k"
  shows "memcpy_at (length p) src n (p @ replicate k 0) = Some ((p @ take n src) @ replicate (k - n) 0)"
  using assms by (simp add: memcpy_at_def write_at_def)

text \<open>The copies stay inside the message and the buffers of the flow, and fill the message.\<close>

lemma xmit_flow_bytes:
  assumes "unat (fl_key_len fl) \<le> length (fl_unmasked_data fl)" "unat (fl_mask_len fl) \<le> length (fl_mask_data fl)"
    and "unat (fl_act_len fl) \<le> length data"
  shows "nfp_flower_xmit_flow True fl sc data =
    (let words = fl\<lparr>fl_key_len := drop_bit 2 (fl_key_len fl), fl_mask_len := drop_bit 2 (fl_mask_len fl),
                    fl_act_len := drop_bit 2 (fl_act_len fl)\<rparr>
     in Some ((0, words\<lparr>fl_key_len := push_bit 2 (fl_key_len words), fl_mask_len := push_bit 2 (fl_mask_len words),
                       fl_act_len := push_bit 2 (fl_act_len words)\<rparr>),
              Some (rule_meta_bytes words sc @ take (unat (fl_key_len fl)) (fl_unmasked_data fl) @
                take (unat (fl_mask_len fl)) (fl_mask_data fl) @ take (unat (fl_act_len fl)) data)))"
proof -
  define words where "words = fl\<lparr>fl_key_len := drop_bit 2 (fl_key_len fl), fl_mask_len := drop_bit 2 (fl_mask_len fl),
      fl_act_len := drop_bit 2 (fl_act_len fl)\<rparr>"
  let ?k = "unat (fl_key_len fl)" and ?m = "unat (fl_mask_len fl)" and ?a = "unat (fl_act_len fl)"
  let ?p1 = "rule_meta_bytes words sc" and ?key = "take ?k (fl_unmasked_data fl)" and ?msk = "take ?m (fl_mask_data fl)"
  have c1: "memcpy_at 0 ?p1 28 (replicate (28 + ?k + ?m + ?a) 0) = Some (?p1 @ replicate (?k + ?m + ?a) 0)"
    using memcpy_next[of 28 ?p1 "28 + ?k + ?m + ?a" "[]"] by (simp add: rule_meta_length add.assoc)
  have c2: "memcpy_at 28 (fl_unmasked_data fl) ?k (?p1 @ replicate (?k + ?m + ?a) 0) = Some ((?p1 @ ?key) @ replicate (?m + ?a) 0)"
    using memcpy_next[of ?k "fl_unmasked_data fl" "?k + ?m + ?a" ?p1] assms(1) by (simp add: rule_meta_length)
  have c3: "memcpy_at (28 + ?k) (fl_mask_data fl) ?m ((?p1 @ ?key) @ replicate (?m + ?a) 0) = Some ((?p1 @ ?key @ ?msk) @ replicate ?a 0)"
    using memcpy_next[of ?m "fl_mask_data fl" "?m + ?a" "?p1 @ ?key"] assms(1,2) by (simp add: rule_meta_length)
  have c4: "memcpy_at (28 + ?k + ?m) data ?a ((?p1 @ ?key @ ?msk) @ replicate ?a 0) = Some (?p1 @ ?key @ ?msk @ take ?a data)"
    using memcpy_next[of ?a data ?a "?p1 @ ?key @ ?msk"] assms by (simp add: rule_meta_length add.assoc)
  show ?thesis
    unfolding nfp_flower_xmit_flow_def Let_def words_def[symmetric]
    by (simp only: simp_thms if_False c1 c2 c3 c4 bind.bind_lunit)
qed

lemma message_decodes:
  assumes "length (fl_unmasked_data fl) = unat (fl_key_len fl)" "length (fl_mask_data fl) = unat (fl_mask_len fl)"
    and "unat (fl_key_len fl) mod 4 = 0" "unat (fl_mask_len fl) mod 4 = 0" "unat (fl_act_len fl) mod 4 = 0"
    and "unat (fl_act_len fl) \<le> length data"
  shows "\<exists>m. nfp_flower_xmit_flow True fl sc data = Some ((0, fl), Some m) \<and>
    decode_rule m = (fl_unmasked_data fl, fl_mask_data fl, take (unat (fl_act_len fl)) data)"
proof -
  note l = long_words[OF assms(3)] long_words[OF assms(4)] long_words[OF assms(5)]
  have "rule_meta_bytes x s ! 0 = fl_key_len x" "rule_meta_bytes x s ! 1 = fl_mask_len x" "rule_meta_bytes x s ! 2 = fl_act_len x" for x s
    by (simp_all add: rule_meta_bytes_def)
  then show ?thesis
    using assms(1,2,6) l by (simp add: xmit_flow_bytes decode_rule_def Let_def nth_append)
qed

text \<open>
  The message of a rule whose lengths are whole long words is read back, by the lengths in its
  metadata, as the key, the mask and the first \<open>act_len\<close> bytes of the actions, and the rule
  keeps its lengths.
\<close>

theorem flower_message_decodes:
  assumes "length (fl_unmasked_data fl) = unat (fl_key_len fl)" "length (fl_mask_data fl) = unat (fl_mask_len fl)"
    and "unat (fl_key_len fl) mod 4 = 0" "unat (fl_mask_len fl) mod 4 = 0" "unat (fl_act_len fl) mod 4 = 0"
    and "unat (fl_act_len fl) \<le> length data"
  shows "\<exists>m. nfp_flower_xmit_flow True fl sc data = Some ((0, fl), Some m) \<and>
    decode_rule m = (fl_unmasked_data fl, fl_mask_data fl, take (unat (fl_act_len fl)) data)"
  by (rule message_decodes[OF assms])

lemma act_header: "act_bytes a ! 1 = of_nat (length (act_bytes a) div 4)" "act_bytes a ! 0 = ucast (act_opcode a)"
    "drop 2 (act_bytes a) = act_body a" "length (act_bytes a) mod 4 = 0" "4 \<le> length (act_bytes a)" "length (act_bytes a) < 1024"
  by (cases a; simp add: act_bytes_def act_op_def be_list)+

lemma parse_acts_bytes: "parse_acts (concat (map act_bytes acts)) = map (\<lambda>a. (ucast (act_opcode a), act_body a)) acts"
proof (induction acts)
  case Nil
  then show ?case by (simp add: parse_acts.simps)
next
  case (Cons a acts)
  let ?n = "length (act_bytes a)" and ?bs = "act_bytes a @ concat (map act_bytes acts)"
  note h = act_header[of a]
  have n: "4 * unat (?bs ! 1) = ?n"
  proof -
    have "unat (of_nat (?n div 4) :: u8) = ?n div 4" using h(6) by (simp add: unat_of_nat)
    then show ?thesis using h(1,4,5) by (simp add: nth_append) presburger
  qed
  then have "?bs ! 1 \<noteq> 0" using h(5) by auto
  moreover have "?bs ! 0 = ucast (act_opcode a)" using h(2,5) by (cases "act_bytes a") auto
  ultimately have "parse_acts ?bs = (ucast (act_opcode a), drop 2 (take ?n ?bs)) # parse_acts (drop ?n ?bs)"
    using n h(5) by (subst parse_acts.simps) simp
  then show ?case using h(3) Cons.IH by simp
qed

text \<open>
  The metadata holds the length of the action list in eight bits, the buffer up to 1216 bytes:
  a rule with \<open>n\<close> outputs, \<open>n \<le> 152\<close>, is accepted with the length \<open>8 n mod 256\<close>. From 32 outputs on
  the rest of the list does not reach the firmware; a rule with exactly 32 outputs is sent with
  no action at all.
\<close>

theorem flower_act_len_truncated:
  assumes "devs i = Some dev" "od_same_parent dev" "od_port_id dev \<noteq> 0" "n \<le> 152"
  shows "\<exists>data len sc'. nfp_flower_compile_action devs (replicate n (Mirred_mirror i)) sc = Some (Inr (data, len, sc')) \<and>
    unat len = 8 * n mod 256 \<and>
    parse_acts (take (8 * n) data) = replicate n (0, be16 0 @ be32 (od_port_id dev)) \<and>
    parse_acts (take (unat len) data) = replicate (n mod 32) (0, be16 0 @ be32 (od_port_id dev))"
proof -
  let ?x = "Act_output 0 (od_port_id dev)"
  have spec: "\<exists>s. actions_spec devs (replicate k (Mirred_mirror i)) ab =
      Some (ab\<lparr>ab_acts := ab_acts ab @ replicate k ?x, ab_shortcut := s\<rparr>)"
    if "acts_size (ab_acts ab) + 8 * k \<le> 1216" "ab_tun_type ab = 0" for k ab
    using that
  proof (induction k arbitrary: ab)
    case 0
    then show ?case by (intro exI[of _ "ab_shortcut ab"]) simp
  next
    case (Suc k)
    from Suc.IH[of "add_act ?x (od_port_id dev) ab"] Suc.prems show ?case
      using assms(1-3) by (auto simp: output_spec_def add_act_def)
  qed
  obtain s where "actions_spec devs (replicate n (Mirred_mirror i)) (no_acts sc) =
      Some ((no_acts sc)\<lparr>ab_acts := replicate n ?x, ab_shortcut := s\<rparr>)"
    using spec[of "no_acts sc" n] assms(4) by (auto simp: no_acts_def)
  then have c: "\<exists>sc'. nfp_flower_compile_action devs (replicate n (Mirred_mirror i)) sc =
      Some (Inr (acts_buf (replicate n ?x), of_nat (acts_size (replicate n ?x)), sc'))"
    using actions_refine[of devs "replicate n (Mirred_mirror i)" sc] by simp
  have size: "acts_size (replicate k ?x) = 8 * k" for k by (induction k) simp_all
  have take: "take (8 * k) (acts_buf (replicate n ?x)) = concat (map act_bytes (replicate k ?x))" if "k \<le> n" for k
  proof -
    have "replicate n ?x = replicate k ?x @ replicate (n - k) ?x" using that by (simp add: replicate_add[symmetric])
    then have "acts_buf (replicate n ?x) = concat (map act_bytes (replicate k ?x)) @
        concat (map act_bytes (replicate (n - k) ?x)) @ replicate (1216 - acts_size (replicate n ?x)) 0"
      by (simp add: acts_buf_def)
    moreover have "length (concat (map act_bytes (replicate k ?x))) = 8 * k" using size[of k] by (simp add: acts_size_def)
    ultimately show ?thesis by simp
  qed
  have len: "unat (of_nat (acts_size (replicate n ?x)) :: u8) = 8 * n mod 256"
    unfolding size by (simp only: unat_of_nat) simp
  moreover have "8 * n mod 256 = 8 * (n mod 32)" using mult_mod_right[of 8 n 32] by simp
  moreover have "n mod 32 \<le> n" by simp
  ultimately show ?thesis using c take[of n] take[of "n mod 32"] parse_acts_bytes[of "replicate n ?x"]
      parse_acts_bytes[of "replicate (n mod 32) ?x"] by auto
qed

lemma flower_act_len_truncated_witness:
  "\<exists>data sc'. nfp_flower_compile_action (\<lambda>_. Some \<lparr>od_kind = None, od_same_parent = True, od_port_id = 1\<rparr>)
     (replicate 32 (Mirred_mirror 1)) 0 = Some (Inr (data, 0, sc'))"
proof -
  obtain data len sc' where "nfp_flower_compile_action (\<lambda>_. Some \<lparr>od_kind = None, od_same_parent = True, od_port_id = 1\<rparr>)
     (replicate 32 (Mirred_mirror 1)) 0 = Some (Inr (data, len, sc'))" "unat len = 8 * 32 mod 256"
    using flower_act_len_truncated[of "\<lambda>_. Some \<lparr>od_kind = None, od_same_parent = True, od_port_id = 1\<rparr>" 1
        "\<lparr>od_kind = None, od_same_parent = True, od_port_id = 1\<rparr>" 32 0] by auto
  moreover from this(2) have "len = 0" by (simp add: unat_eq_0)
  ultimately show ?thesis by blast
qed

lemma flower_message_decodes_witness:
  "\<exists>fl m. nfp_flower_xmit_flow True ((sample_payload 1)\<lparr>fl_act_len := 8\<rparr>) 0 (act_bytes (Act_output 0 1) @ replicate 8 0) =
      Some ((0, fl), Some m) \<and> decode_rule m = ([0, 0, 0, 0], [1, 0, 0, 0], act_bytes (Act_output 0 1))"
  using flower_message_decodes[of "(sample_payload 1)\<lparr>fl_act_len := 8\<rparr>" "act_bytes (Act_output 0 1) @ replicate 8 0" 0]
  by (auto simp: sample_payload_def)

end
