(* ===== verification/Flower_Tunnel.thy ===== *)
theory Flower_Tunnel
  imports Flower_Match "HOL-Library.Multiset"
begin

text \<open>
  Tunnel end points of the flower offload, \<open>flower/tunnel_conf.c\<close>: the IPv4 addresses the
  firmware terminates tunnels for (one entry per address with the number of rules that use
  it), the MAC addresses still to be announced, the 8-bit indices given to devices that are not
  representors, and the routes the firmware was told of. Messages handed to the firmware are
  kept in the state, newest first. The kernel's id allocator and its results of memory
  allocation are parameters. A write outside of a payload array is \<open>None\<close>; the lengths and the
  reference counts have the widths of the C types.
\<close>

section \<open>State\<close>

text \<open>
  The reference count is a C \<open>int\<close>, which the kernel's build lets wrap; it is only counted up and
  down and compared with zero, so it is kept as the 32-bit word.
\<close>

record nfp_ipv4_addr_entry =
  ie_ipv4_addr :: u32
  ie_ref_count :: u32

record nfp_tun_mac_offload_entry =
  mo_index :: u16
  mo_addr :: "48 word"

record nfp_tun_mac_non_nfp_idx =
  mx_ifindex :: int
  mx_index :: u8

record tun_state =
  ts_mac_off_list :: "nfp_tun_mac_offload_entry list"
  ts_mac_off_count :: int
  ts_mac_index_list :: "nfp_tun_mac_non_nfp_idx list"
  ts_mac_off_ids :: "nat list"
  ts_ipv4_off_list :: "nfp_ipv4_addr_entry list"
  ts_neigh_off_list :: "u32 list"
  ts_sent :: "(u8 \<times> u8 list) list"

abbreviation (input) NFP_FL_IPV4_ADDRS_MAX :: nat where "NFP_FL_IPV4_ADDRS_MAX \<equiv> 32"
abbreviation (input) NFP_FL_MAX_ROUTES :: nat where "NFP_FL_MAX_ROUTES \<equiv> 32"
abbreviation (input) NFP_MAX_MAC_INDEX :: nat where "NFP_MAX_MAC_INDEX \<equiv> 0xff"
abbreviation (input) NFP_FLOWER_CMSG_TYPE_TUN_MAC :: u8 where "NFP_FLOWER_CMSG_TYPE_TUN_MAC \<equiv> 11"
abbreviation (input) NFP_FLOWER_CMSG_TYPE_TUN_NEIGH :: u8 where "NFP_FLOWER_CMSG_TYPE_TUN_NEIGH \<equiv> 13"
abbreviation (input) NFP_FLOWER_CMSG_TYPE_TUN_IPS :: u8 where "NFP_FLOWER_CMSG_TYPE_TUN_IPS \<equiv> 14"

text \<open>The length of the payload is passed as a \<open>u16\<close>: that many bytes are copied into the message.\<close>

definition nfp_flower_xmit_tun_conf :: "bool \<Rightarrow> u8 \<Rightarrow> u8 list \<Rightarrow> tun_state \<Rightarrow> int \<times> tun_state" where
  "nfp_flower_xmit_tun_conf skb_mem mtype pdata st =
     (let plen = of_nat (length pdata) :: u16 in
      if \<not> skb_mem then (- ENOMEM, st)
      else (0, st\<lparr>ts_sent := (mtype, take (unat plen) pdata) # ts_sent st\<rparr>))"

section \<open>Tunnel addresses\<close>

text \<open>
  The loop over the list, writing into the array of the payload: \<open>None\<close> is a write outside of the
  array, \<open>Some None\<close> the early return when there are more entries than the array holds.
\<close>

fun fill_ipv4 :: "nat \<Rightarrow> nfp_ipv4_addr_entry list \<Rightarrow> u32 list \<Rightarrow> (nat \<times> u32 list) option option" where
  "fill_ipv4 cnt [] arr = Some (Some (cnt, arr))"
| "fill_ipv4 cnt (entry # es) arr =
     (if cnt \<ge> NFP_FL_IPV4_ADDRS_MAX then Some None
      else if cnt < length arr then fill_ipv4 (Suc cnt) es (arr[cnt := ie_ipv4_addr entry])
      else None)"

definition nfp_tun_write_ipv4_list :: "bool \<Rightarrow> tun_state \<Rightarrow> tun_state option" where
  "nfp_tun_write_ipv4_list skb_mem st =
     (case fill_ipv4 0 (ts_ipv4_off_list st) (replicate NFP_FL_IPV4_ADDRS_MAX 0) of
        None \<Rightarrow> None
      | Some None \<Rightarrow> Some st
      | Some (Some (cnt, arr)) \<Rightarrow>
        Some (snd (nfp_flower_xmit_tun_conf skb_mem NFP_FLOWER_CMSG_TYPE_TUN_IPS
               (be32 (of_nat cnt) @ concat (map be32 arr)) st)))"

definition nfp_tunnel_add_ipv4_off :: "bool \<Rightarrow> bool \<Rightarrow> u32 \<Rightarrow> tun_state \<Rightarrow> tun_state option" where
  "nfp_tunnel_add_ipv4_off mem skb_mem ipv4 st =
     (if \<exists>e \<in> set (ts_ipv4_off_list st). ie_ipv4_addr e = ipv4 then
        Some (st\<lparr>ts_ipv4_off_list := update_first (\<lambda>e. ie_ipv4_addr e = ipv4)
             (\<lambda>e. e\<lparr>ie_ref_count := ie_ref_count e + 1\<rparr>) (ts_ipv4_off_list st)\<rparr>)
      else if \<not> mem then Some st
      else nfp_tun_write_ipv4_list skb_mem
        (st\<lparr>ts_ipv4_off_list := ts_ipv4_off_list st @ [\<lparr>ie_ipv4_addr = ipv4, ie_ref_count = 1\<rparr>]\<rparr>))"

fun del_ipv4 :: "u32 \<Rightarrow> nfp_ipv4_addr_entry list \<Rightarrow> nfp_ipv4_addr_entry list" where
  "del_ipv4 ipv4 [] = []"
| "del_ipv4 ipv4 (entry # es) =
     (if ie_ipv4_addr entry = ipv4 then
        let entry = entry\<lparr>ie_ref_count := ie_ref_count entry - 1\<rparr>
        in if ie_ref_count entry = 0 then es else entry # es
      else entry # del_ipv4 ipv4 es)"

definition nfp_tunnel_del_ipv4_off :: "bool \<Rightarrow> u32 \<Rightarrow> tun_state \<Rightarrow> tun_state option" where
  "nfp_tunnel_del_ipv4_off skb_mem ipv4 st =
     nfp_tun_write_ipv4_list skb_mem (st\<lparr>ts_ipv4_off_list := del_ipv4 ipv4 (ts_ipv4_off_list st)\<rparr>)"

section \<open>MAC addresses\<close>

text \<open>
  The payload of \<open>count\<close> entries, filled entry by entry; a write past it is \<open>None\<close>. Its size is
  computed in \<open>size_t\<close> and kept in an \<open>int\<close>; an allocation of a negative size fails.
\<close>

fun fill_macs :: "nat \<Rightarrow> nfp_tun_mac_offload_entry list \<Rightarrow> u8 list \<Rightarrow> u8 list option" where
  "fill_macs mac_count [] payload = Some payload"
| "fill_macs mac_count (entry # es) payload =
     Option.bind (write_at (4 + 8 * mac_count) (be16 (mo_index entry) @ be_bytes 6 (mo_addr entry)) payload)
       (fill_macs (Suc mac_count) es)"

definition nfp_tunnel_write_macs :: "bool \<Rightarrow> bool \<Rightarrow> tun_state \<Rightarrow> tun_state option" where
  "nfp_tunnel_write_macs mem skb_mem st =
     (if ts_mac_off_count st = 0 then Some st
      else let pay_size = sint (4 + 8 * word_of_int (ts_mac_off_count st) :: u32) in
      if \<not> mem \<or> pay_size < 0 then Some st
      else Option.bind (write_at 2 (be16 (word_of_int (ts_mac_off_count st))) (replicate (nat pay_size) 0)) (\<lambda>payload.
           Option.bind (fill_macs 0 (ts_mac_off_list st) payload) (\<lambda>payload.
           case nfp_flower_xmit_tun_conf skb_mem NFP_FLOWER_CMSG_TYPE_TUN_MAC payload st of (err, st) \<Rightarrow>
             if err \<noteq> 0 then Some st
             else Some (st\<lparr>ts_mac_off_list := [], ts_mac_off_count := 0\<rparr>))))"

text \<open>\<open>ida\<close>: what \<open>ida_simple_get\<close> picks below 255 given the ids in use.\<close>

type_synonym ida = "nat list \<Rightarrow> nat option"

definition nfp_tun_get_mac_idx :: "ida \<Rightarrow> bool \<Rightarrow> int \<Rightarrow> tun_state \<Rightarrow> int \<times> tun_state" where
  "nfp_tun_get_mac_idx ida mem ifindex st =
     (case find (\<lambda>e. mx_ifindex e = ifindex) (ts_mac_index_list st) of
        Some entry \<Rightarrow> (uint (mx_index entry), st)
      | None \<Rightarrow> (case ida (ts_mac_off_ids st) of
          None \<Rightarrow> (- ENOSPC, st)
        | Some idx \<Rightarrow>
          let st = st\<lparr>ts_mac_off_ids := idx # ts_mac_off_ids st\<rparr> in
          if \<not> mem then (- ENOMEM, st)
          else (int idx, st\<lparr>ts_mac_index_list := ts_mac_index_list st @ [\<lparr>mx_ifindex = ifindex, mx_index = of_nat idx\<rparr>]\<rparr>)))"

definition nfp_tun_del_mac_idx :: "int \<Rightarrow> tun_state \<Rightarrow> tun_state" where
  "nfp_tun_del_mac_idx ifindex st =
     (case find (\<lambda>e. mx_ifindex e = ifindex) (ts_mac_index_list st) of
        None \<Rightarrow> st
      | Some entry \<Rightarrow> st\<lparr>ts_mac_off_ids := remove1 (unat (mx_index entry)) (ts_mac_off_ids st),
                        ts_mac_index_list := remove1 entry (ts_mac_index_list st)\<rparr>)"

text \<open>A device: link kind, whether it is a representor and of which port, valid address.\<close>

record tun_netdev =
  nd_kind :: "string option"
  nd_is_repr :: bool
  nd_port_id :: u32
  nd_ifindex :: int
  nd_addr :: "48 word"
  nd_addr_valid :: bool

definition nfp_tun_is_netdev_to_offload :: "tun_netdev \<Rightarrow> bool" where
  "nfp_tun_is_netdev_to_offload netdev =
     (case nd_kind netdev of None \<Rightarrow> False
      | Some kind \<Rightarrow> if kind = ''openvswitch'' then True else if kind = ''vxlan'' then True else False)"

text \<open>The index of a representor's MAC, from the fields of its port number.\<close>

definition repr_mac_idx :: "u32 \<Rightarrow> u16 option" where
  "repr_mac_idx port =
     (if drop_bit 28 port = 1 then Some (ucast (push_bit 8 port OR 1))
      else if drop_bit 28 port = 2 then Some (ucast (push_bit 8 (drop_bit 6 port AND 0x3f) OR 2))
      else None)"

definition nfp_tun_add_to_mac_offload_list :: "ida \<Rightarrow> bool \<Rightarrow> bool \<Rightarrow> tun_netdev \<Rightarrow> tun_state \<Rightarrow> tun_state" where
  "nfp_tun_add_to_mac_offload_list ida mem idx_mem netdev st =
     (let port = (if nd_is_repr netdev then nd_port_id netdev else 0);
          add = (\<lambda>i st. st\<lparr>ts_mac_off_count := ts_mac_off_count st + 1,
                          ts_mac_off_list := ts_mac_off_list st @ [\<lparr>mo_index = i, mo_addr = nd_addr netdev\<rparr>]\<rparr>)
      in if \<not> nd_addr_valid netdev then st
         else if \<not> nd_is_repr netdev \<and> \<not> nfp_tun_is_netdev_to_offload netdev then st
         else if \<not> mem then st
         else (case repr_mac_idx port of
             Some i \<Rightarrow> add i st
           | None \<Rightarrow> (case nfp_tun_get_mac_idx ida idx_mem (nd_ifindex netdev) st of (idx, st) \<Rightarrow>
               if idx < 0 then st else add (word_of_int idx * 256 OR 3) st)))"

datatype netdev_event = NETDEV_UP | NETDEV_DOWN | NETDEV_CHANGEADDR | NETDEV_REGISTER | NETDEV_UNREGISTER | NETDEV_other

record tun_mem =
  tm_entry :: bool
  tm_idx :: bool
  tm_payload :: bool
  tm_skb :: bool

definition nfp_tun_mac_event_handler :: "ida \<Rightarrow> tun_mem \<Rightarrow> netdev_event \<Rightarrow> tun_netdev \<Rightarrow> tun_state \<Rightarrow> tun_state option" where
  "nfp_tun_mac_event_handler ida m event netdev st =
     (if event = NETDEV_DOWN \<or> event = NETDEV_UNREGISTER then
        Some (if nfp_tun_is_netdev_to_offload netdev then nfp_tun_del_mac_idx (nd_ifindex netdev) st else st)
      else if event = NETDEV_UP \<or> event = NETDEV_CHANGEADDR \<or> event = NETDEV_REGISTER then
        nfp_tunnel_write_macs (tm_payload m) (tm_skb m)
          (nfp_tun_add_to_mac_offload_list ida (tm_entry m) (tm_idx m) netdev st)
      else Some st)"

section \<open>Routes\<close>

definition nfp_tun_has_route :: "u32 \<Rightarrow> tun_state \<Rightarrow> bool" where
  "nfp_tun_has_route ipv4_addr st \<longleftrightarrow> ipv4_addr \<in> set (ts_neigh_off_list st)"

definition nfp_tun_add_route_to_cache :: "bool \<Rightarrow> u32 \<Rightarrow> tun_state \<Rightarrow> tun_state" where
  "nfp_tun_add_route_to_cache mem ipv4_addr st =
     (if ipv4_addr \<in> set (ts_neigh_off_list st) then st
      else if \<not> mem then st
      else st\<lparr>ts_neigh_off_list := ts_neigh_off_list st @ [ipv4_addr]\<rparr>)"

definition nfp_tun_del_route_from_cache :: "u32 \<Rightarrow> tun_state \<Rightarrow> tun_state" where
  "nfp_tun_del_route_from_cache ipv4_addr st =
     st\<lparr>ts_neigh_off_list := remove1 ipv4_addr (ts_neigh_off_list st)\<rparr>"

text \<open>A neighbour: its device, whether its state is valid, its hardware address.\<close>

record neighbour =
  nb_netdev :: tun_netdev
  nb_valid :: bool
  nb_ha :: "48 word"
  nb_key :: u32

definition nfp_tun_write_neigh :: "bool \<Rightarrow> bool \<Rightarrow> u32 \<Rightarrow> u32 \<Rightarrow> neighbour \<Rightarrow> tun_state \<Rightarrow> tun_state" where
  "nfp_tun_write_neigh mem skb_mem saddr daddr neigh st =
     (let netdev = nb_netdev neigh; send = (\<lambda>p st. snd (nfp_flower_xmit_tun_conf skb_mem NFP_FLOWER_CMSG_TYPE_TUN_NEIGH p st)) in
      if \<not> nd_is_repr netdev then st
      else if \<not> nb_valid neigh then
        send (be32 daddr @ be32 0 @ be_bytes 6 (0 :: 48 word) @ be_bytes 6 (0 :: 48 word) @ be32 0)
          (nfp_tun_del_route_from_cache daddr st)
      else
        send (be32 daddr @ be32 saddr @ be_bytes 6 (nb_ha neigh) @ be_bytes 6 (nd_addr netdev) @ be32 (nd_port_id netdev))
          (nfp_tun_add_route_to_cache mem daddr st))"

text \<open>The source address of the route, where the lookup finds one.\<close>

type_synonym route_fn = "u32 \<Rightarrow> u32 option"

datatype net_event = NETEVENT_REDIRECT | NETEVENT_NEIGH_UPDATE | NETEVENT_other

definition nfp_tun_neigh_event_handler ::
  "route_fn \<Rightarrow> bool \<Rightarrow> bool \<Rightarrow> net_event \<Rightarrow> neighbour \<Rightarrow> tun_state \<Rightarrow> tun_state" where
  "nfp_tun_neigh_event_handler route mem skb_mem event n st =
     (if event = NETEVENT_other then st
      else if \<not> nd_is_repr (nb_netdev n) then st
      else if \<not> nfp_tun_has_route (nb_key n) st then st
      else (case route (nb_key n) of None \<Rightarrow> st
            | Some saddr \<Rightarrow> nfp_tun_write_neigh mem skb_mem saddr (nb_key n) n st))"

text \<open>A request of the firmware; \<open>netdev\<close> and \<open>neigh\<close> are the lookups it triggers.\<close>

definition nfp_tunnel_request_route ::
  "route_fn \<Rightarrow> bool \<Rightarrow> bool \<Rightarrow> bool \<Rightarrow> u32 \<Rightarrow> neighbour option \<Rightarrow> tun_state \<Rightarrow> tun_state" where
  "nfp_tunnel_request_route route mem skb_mem have_netdev ipv4_addr neigh st =
     (if \<not> have_netdev then st
      else (case route ipv4_addr of None \<Rightarrow> st
            | Some saddr \<Rightarrow> (case neigh of None \<Rightarrow> st
                | Some n \<Rightarrow> nfp_tun_write_neigh mem skb_mem saddr ipv4_addr n st)))"

text \<open>
  The report of active tunnels, from the bytes of the message: \<open>None\<close> is a read beyond it,
  the result the addresses and ports looked up. The length comparison is the one of the C
  code, in \<open>size_t\<close>.
\<close>

definition get_be32 :: "u8 list \<Rightarrow> nat \<Rightarrow> u32 option" where
  "get_be32 data off =
     (if off + 4 \<le> length data then
        Some (push_bit 24 (ucast (data ! off)) OR push_bit 16 (ucast (data ! (off + 1))) OR
              push_bit 8 (ucast (data ! (off + 2))) OR ucast (data ! (off + 3)))
      else None)"

fun read_routes :: "u8 list \<Rightarrow> nat \<Rightarrow> nat \<Rightarrow> (u32 \<times> u32) list option" where
  "read_routes data off 0 = Some []"
| "read_routes data off (Suc n) =
     Option.bind (get_be32 data off) (\<lambda>ipv4. Option.bind (get_be32 data (off + 4)) (\<lambda>port.
       map_option ((#) (ipv4, port)) (read_routes data (off + 16) n)))"

definition nfp_tunnel_keep_alive :: "u8 list \<Rightarrow> (u32 \<times> u32) list option" where
  "nfp_tunnel_keep_alive data =
     (case get_be32 data 4 of None \<Rightarrow> None | Some c \<Rightarrow>
        let cnt = sint c; pay_len = int (length data) in
        if cnt > int NFP_FL_MAX_ROUTES then Some []
        else if (word_of_int pay_len :: u64) \<noteq> 12 + 16 * word_of_int cnt then Some []
        else read_routes data 12 (nat cnt))"

section \<open>Start and stop\<close>

text \<open>\<open>err1\<close>, \<open>err2\<close>: the results of registering the two notifiers.\<close>

definition nfp_tunnel_config_start ::
  "ida \<Rightarrow> int \<Rightarrow> int \<Rightarrow> (tun_netdev \<times> bool \<times> bool) list \<Rightarrow> tun_state \<Rightarrow> int \<times> tun_state" where
  "nfp_tunnel_config_start ida err1 err2 netdevs st =
     (let st = st\<lparr>ts_mac_off_count := 0, ts_mac_off_list := [], ts_mac_index_list := [], ts_mac_off_ids := [],
                  ts_ipv4_off_list := [], ts_neigh_off_list := []\<rparr>
      in if err1 \<noteq> 0 then (err1, st)
         else if err2 \<noteq> 0 then (err2, st)
         else (0, fold (\<lambda>(netdev, mem, idx_mem). nfp_tun_add_to_mac_offload_list ida mem idx_mem netdev) netdevs st))"

definition nfp_tunnel_config_stop :: "tun_state \<Rightarrow> tun_state" where
  "nfp_tunnel_config_stop st =
     st\<lparr>ts_mac_off_list := [], ts_mac_index_list := [], ts_mac_off_ids := [], ts_ipv4_off_list := [], ts_neigh_off_list := []\<rparr>"

section \<open>Addresses in use and addresses the firmware knows\<close>

definition ipv4_uses :: "nfp_ipv4_addr_entry list \<Rightarrow> u32 multiset" where
  "ipv4_uses es = sum_list (map (\<lambda>e. replicate_mset (unat (ie_ref_count e)) (ie_ipv4_addr e)) es)"

definition ipv4_ok :: "nfp_ipv4_addr_entry list \<Rightarrow> bool" where
  "ipv4_ok es \<longleftrightarrow> distinct (map ie_ipv4_addr es) \<and> (\<forall>e \<in> set es. ie_ref_count e \<noteq> 0)"

lemma ipv4_uses_simps [simp]:
  "ipv4_uses [] = {#}" "ipv4_uses (e # es) = replicate_mset (unat (ie_ref_count e)) (ie_ipv4_addr e) + ipv4_uses es"
  "ipv4_uses (es @ fs) = ipv4_uses es + ipv4_uses fs"
  by (simp_all add: ipv4_uses_def)

lemma ipv4_ok_simps [simp]:
  "ipv4_ok []" "ipv4_ok (e # es) \<longleftrightarrow> ie_ipv4_addr e \<notin> ie_ipv4_addr ` set es \<and> ie_ref_count e \<noteq> 0 \<and> ipv4_ok es"
  by (auto simp: ipv4_ok_def)

lemma set_ipv4_uses: "ipv4_ok es \<Longrightarrow> set_mset (ipv4_uses es) = ie_ipv4_addr ` set es"
  by (induction es) (auto simp: unat_eq_zero)

text \<open>Another use of an address; the count does not wrap while there are fewer than \<open>2 ^ 32 - 1\<close> uses.\<close>

lemma ref_ipv4:
  assumes "ipv4_ok es" "a \<in> ie_ipv4_addr ` set es" "size (ipv4_uses es) < 2 ^ 32 - 1"
  shows "ipv4_ok (update_first (\<lambda>e. ie_ipv4_addr e = a) (\<lambda>e. e\<lparr>ie_ref_count := ie_ref_count e + 1\<rparr>) es) \<and>
    ipv4_uses (update_first (\<lambda>e. ie_ipv4_addr e = a) (\<lambda>e. e\<lparr>ie_ref_count := ie_ref_count e + 1\<rparr>) es) = add_mset a (ipv4_uses es) \<and>
    map ie_ipv4_addr (update_first (\<lambda>e. ie_ipv4_addr e = a) (\<lambda>e. e\<lparr>ie_ref_count := ie_ref_count e + 1\<rparr>) es) = map ie_ipv4_addr es"
  using assms
proof (induction es)
  case (Cons e es)
  show ?case
  proof (cases "ie_ipv4_addr e = a")
    case True
    have "unat (ie_ref_count e) < 2 ^ 32 - 1" using Cons.prems(3) by simp
    then have "unat (ie_ref_count e + 1) = Suc (unat (ie_ref_count e))" by (simp add: unat_word_ariths)
    moreover from this have "ie_ref_count e + 1 \<noteq> 0" by auto
    ultimately show ?thesis using True Cons.prems by simp
  next
    case False
    then have a: "a \<in> ie_ipv4_addr ` set es" using Cons.prems(2) by auto
    let ?u = "update_first (\<lambda>e. ie_ipv4_addr e = a) (\<lambda>e. e\<lparr>ie_ref_count := ie_ref_count e + 1\<rparr>) es"
    have e: "ie_ipv4_addr e \<notin> ie_ipv4_addr ` set es" "ie_ref_count e \<noteq> 0" "ipv4_ok es" using Cons.prems(1) by simp_all
    have "size (ipv4_uses es) < 2 ^ 32 - 1" using Cons.prems(3) by simp
    from Cons.IH[OF e(3) a this] have ih: "ipv4_ok ?u" "ipv4_uses ?u = add_mset a (ipv4_uses es)" "map ie_ipv4_addr ?u = map ie_ipv4_addr es"
      by blast+
    from arg_cong[OF ih(3), of set] have "ie_ipv4_addr ` set ?u = ie_ipv4_addr ` set es" by simp
    then show ?thesis using False e ih by simp
  qed
qed simp

lemma del_ipv4_addrs: "ie_ipv4_addr ` set (del_ipv4 a es) \<subseteq> ie_ipv4_addr ` set es"
  by (induction es) (auto simp: Let_def)

lemma del_ipv4_ok:
  assumes "ipv4_ok es"
  shows "ipv4_ok (del_ipv4 a es) \<and> ipv4_uses (del_ipv4 a es) = ipv4_uses es - {#a#}"
  using assms
proof (induction es)
  case (Cons e es)
  show ?case
  proof (cases "ie_ipv4_addr e = a")
    case True
    have "ie_ref_count e \<noteq> 0" using Cons.prems by simp
    then have "unat (ie_ref_count e) = Suc (unat (ie_ref_count e - 1))" by (simp add: unat_minus_one unat_gt_0)
    then show ?thesis using True Cons.prems by (auto simp: Let_def)
  next
    case False
    then have "ie_ipv4_addr e \<notin> ie_ipv4_addr ` set (del_ipv4 a es)" using Cons.prems del_ipv4_addrs by fastforce
    moreover have "replicate_mset n (ie_ipv4_addr e) + ipv4_uses es - {#a#} = replicate_mset n (ie_ipv4_addr e) + (ipv4_uses es - {#a#})" for n
      using False by (induction n) (auto simp: diff_add_mset_swap)
    ultimately show ?thesis using False Cons by simp
  qed
qed simp

text \<open>The address message and what the firmware reads from it.\<close>

definition ipv4_payload :: "u32 list \<Rightarrow> u8 list" where
  "ipv4_payload addrs = be32 (of_nat (length addrs)) @ concat (map be32 (addrs @ replicate (NFP_FL_IPV4_ADDRS_MAX - length addrs) 0))"

lemma fill_ipv4_spec:
  "length arr = k + n \<Longrightarrow> length es \<le> n \<Longrightarrow> k + n = NFP_FL_IPV4_ADDRS_MAX \<Longrightarrow>
     fill_ipv4 k es arr = Some (Some (k + length es, take k arr @ map ie_ipv4_addr es @ drop (k + length es) arr))"
proof (induction es arbitrary: k n arr)
  case (Cons e es)
  then obtain n' where n: "n = Suc n'" by (cases n) auto
  have "fill_ipv4 (Suc k) es (arr[k := ie_ipv4_addr e]) =
      Some (Some (Suc k + length es, take (Suc k) (arr[k := ie_ipv4_addr e]) @ map ie_ipv4_addr es @ drop (Suc k + length es) (arr[k := ie_ipv4_addr e])))"
    by (rule Cons.IH[where n = n']) (use Cons.prems n in auto)
  moreover have "take (Suc k) (arr[k := ie_ipv4_addr e]) = take k arr @ [ie_ipv4_addr e]"
    using Cons.prems(1) n by (simp add: take_Suc_conv_app_nth)
  ultimately show ?case using Cons.prems n by simp
qed simp

lemma fill_ipv4_limit:
  "length arr = k + n \<Longrightarrow> n < length es \<Longrightarrow> k + n = NFP_FL_IPV4_ADDRS_MAX \<Longrightarrow> fill_ipv4 k es arr = Some None"
proof (induction es arbitrary: k n arr)
  case (Cons e es)
  then show ?case by (cases n) (auto intro: Cons.IH)
qed simp

lemma length_concat_be32 [simp]: "length (concat (map be32 ws)) = 4 * length ws"
  by (induction ws) simp_all

lemma ipv4_payload_length: "length addrs \<le> NFP_FL_IPV4_ADDRS_MAX \<Longrightarrow> length (ipv4_payload addrs) = 132"
  by (simp add: ipv4_payload_def del: map_append)

text \<open>The list is sent when it fits the array; otherwise nothing is sent. The array is never overrun.\<close>

lemma write_ipv4_list:
  "nfp_tun_write_ipv4_list skb st = Some
    (if skb \<and> length (ts_ipv4_off_list st) \<le> NFP_FL_IPV4_ADDRS_MAX then
       st\<lparr>ts_sent := (NFP_FLOWER_CMSG_TYPE_TUN_IPS, ipv4_payload (map ie_ipv4_addr (ts_ipv4_off_list st))) # ts_sent st\<rparr>
     else st)"
proof (cases "length (ts_ipv4_off_list st) \<le> NFP_FL_IPV4_ADDRS_MAX")
  case True
  then have p: "be32 (of_nat (length (ts_ipv4_off_list st))) @
      concat (map be32 (map ie_ipv4_addr (ts_ipv4_off_list st) @ replicate (32 - length (ts_ipv4_off_list st)) 0)) =
      ipv4_payload (map ie_ipv4_addr (ts_ipv4_off_list st))"
    by (simp add: ipv4_payload_def)
  have "length (ipv4_payload (map ie_ipv4_addr (ts_ipv4_off_list st))) = 132"
    using True by (intro ipv4_payload_length) simp
  then show ?thesis using fill_ipv4_spec[of "replicate 32 0" 0 32 "ts_ipv4_off_list st"] True p
    by (simp add: nfp_tun_write_ipv4_list_def nfp_flower_xmit_tun_conf_def Let_def del: map_append)
next
  case False
  then show ?thesis using fill_ipv4_limit[of "replicate 32 0" 0 32 "ts_ipv4_off_list st"]
    by (simp add: nfp_tun_write_ipv4_list_def)
qed

lemma get_be32_be32 [simp]:
  fixes w :: u32
  shows "get_be32 (be32 w @ x) 0 = Some w"
proof -
  have "(push_bit 24 (ucast (ucast (drop_bit 24 w) :: u8)) :: u32) OR push_bit 16 (ucast (ucast (drop_bit 16 w) :: u8)) OR
        push_bit 8 (ucast (ucast (drop_bit 8 w) :: u8)) OR ucast (ucast w :: u8) = w"
  proof (rule bit_word_eqI)
    fix n :: nat
    assume "n < LENGTH(32)"
    then consider "n < 8" | "8 \<le> n" "n < 16" | "16 \<le> n" "n < 24" | "24 \<le> n" "n < 32" by fastforce
    then show "bit ((push_bit 24 (ucast (ucast (drop_bit 24 w) :: u8)) :: u32) OR push_bit 16 (ucast (ucast (drop_bit 16 w) :: u8)) OR
        push_bit 8 (ucast (ucast (drop_bit 8 w) :: u8)) OR ucast (ucast w :: u8)) n \<longleftrightarrow> bit w n"
      by cases (simp_all add: bit_or_iff bit_push_bit_iff bit_ucast_iff bit_drop_bit_eq less_diff_conv2)
  qed
  then show ?thesis by (simp add: get_be32_def be_bytes_def upt_rec)
qed

text \<open>The addresses of the newest address message.\<close>

definition fw_addresses :: "tun_state \<Rightarrow> u32 set" where
  "fw_addresses st = (case find (\<lambda>(t, _). t = NFP_FLOWER_CMSG_TYPE_TUN_IPS) (ts_sent st) of
     None \<Rightarrow> {}
   | Some (_, p) \<Rightarrow> {a. \<exists>n c. get_be32 p 0 = Some c \<and> n < unat c \<and> get_be32 (drop (4 + 4 * n) p) 0 = Some a})"

lemma get_be32_nth: "n < length ws \<Longrightarrow> get_be32 (drop (4 * n) (concat (map be32 ws))) 0 = Some (ws ! n)"
proof (induction ws arbitrary: n)
  case (Cons w ws)
  then show ?case by (cases n) simp_all
qed simp

lemma fw_addresses_told:
  assumes "length as \<le> NFP_FL_IPV4_ADDRS_MAX"
  shows "fw_addresses (st\<lparr>ts_sent := (NFP_FLOWER_CMSG_TYPE_TUN_IPS, ipv4_payload as) # ms\<rparr>) = set as"
proof -
  let ?p = "ipv4_payload as"
  have c: "get_be32 ?p 0 = Some (of_nat (length as))" by (simp add: ipv4_payload_def)
  have u: "unat (of_nat (length as) :: u32) = length as" using assms by (simp add: unat_of_nat)
  have g: "get_be32 (drop (4 + 4 * n) ?p) 0 = Some (as ! n)" if "n < length as" for n
    using get_be32_nth[of n "as @ replicate (32 - length as) 0"] that
    by (simp add: ipv4_payload_def nth_append del: map_append)
  have "fw_addresses (st\<lparr>ts_sent := (NFP_FLOWER_CMSG_TYPE_TUN_IPS, ?p) # ms\<rparr>) = {a. \<exists>n < length as. a = as ! n}"
    using c u g by (auto simp: fw_addresses_def)
  also have "\<dots> = set as" by (auto simp: set_conv_nth)
  finally show ?thesis .
qed

lemma fw_addresses_list [simp]: "fw_addresses (st\<lparr>ts_ipv4_off_list := es\<rparr>) = fw_addresses st"
  by (simp add: fw_addresses_def)

text \<open>
  The operations with the results of the two allocations (entry, message), and what they promise:
  the multiset of uses and the set of addresses the firmware was last told.
\<close>

datatype ipv4_op = Add_ipv4 bool bool u32 | Del_ipv4 bool u32

fun ipv4_op_run :: "ipv4_op \<Rightarrow> tun_state \<Rightarrow> tun_state option" where
  "ipv4_op_run (Add_ipv4 mem skb a) st = nfp_tunnel_add_ipv4_off mem skb a st"
| "ipv4_op_run (Del_ipv4 skb a) st = nfp_tunnel_del_ipv4_off skb a st"

fun ipv4_run :: "ipv4_op list \<Rightarrow> tun_state \<Rightarrow> tun_state option" where
  "ipv4_run [] st = Some st"
| "ipv4_run (op # ops) st = Option.bind (ipv4_op_run op st) (ipv4_run ops)"

definition tell_firmware :: "bool \<Rightarrow> u32 multiset \<Rightarrow> u32 set \<Rightarrow> u32 multiset \<times> u32 set" where
  "tell_firmware skb M F = (M, if skb \<and> card (set_mset M) \<le> NFP_FL_IPV4_ADDRS_MAX then set_mset M else F)"

fun ipv4_op_spec :: "ipv4_op \<Rightarrow> u32 multiset \<times> u32 set \<Rightarrow> u32 multiset \<times> u32 set" where
  "ipv4_op_spec (Add_ipv4 mem skb a) (M, F) =
     (if a \<in># M then (add_mset a M, F) else if mem then tell_firmware skb (add_mset a M) F else (M, F))"
| "ipv4_op_spec (Del_ipv4 skb a) (M, F) = tell_firmware skb (M - {#a#}) F"

definition ipv4_abs :: "tun_state \<Rightarrow> u32 multiset \<times> u32 set" where
  "ipv4_abs st = (ipv4_uses (ts_ipv4_off_list st), fw_addresses st)"

lemma write_ipv4_abs:
  assumes "ipv4_ok (ts_ipv4_off_list st)"
  shows "\<exists>st'. nfp_tun_write_ipv4_list skb st = Some st' \<and> ts_ipv4_off_list st' = ts_ipv4_off_list st \<and>
    ipv4_abs st' = tell_firmware skb (ipv4_uses (ts_ipv4_off_list st)) (fw_addresses st)"
proof -
  have "distinct (map ie_ipv4_addr (ts_ipv4_off_list st))" using assms by (simp add: ipv4_ok_def)
  from distinct_card[OF this] have "length (ts_ipv4_off_list st) = card (set_mset (ipv4_uses (ts_ipv4_off_list st)))"
    by (simp add: set_ipv4_uses[OF assms])
  then show ?thesis
    using fw_addresses_told[of "map ie_ipv4_addr (ts_ipv4_off_list st)"] set_ipv4_uses[OF assms]
    by (simp add: write_ipv4_list ipv4_abs_def tell_firmware_def)
qed

lemma ipv4_op_step:
  assumes ok: "ipv4_ok (ts_ipv4_off_list st)" and n: "size (ipv4_uses (ts_ipv4_off_list st)) < 2 ^ 32 - 1"
  shows "\<exists>st'. ipv4_op_run op st = Some st' \<and> ipv4_ok (ts_ipv4_off_list st') \<and>
    ipv4_abs st' = ipv4_op_spec op (ipv4_abs st)"
proof (cases op)
  case (Del_ipv4 skb a)
  let ?es = "del_ipv4 a (ts_ipv4_off_list st)"
  have d: "ipv4_ok ?es" "ipv4_uses ?es = ipv4_uses (ts_ipv4_off_list st) - {#a#}"
    using del_ipv4_ok[OF ok, of a] by blast+
  then show ?thesis using write_ipv4_abs[of "st\<lparr>ts_ipv4_off_list := ?es\<rparr>" skb]
    by (auto simp: Del_ipv4 nfp_tunnel_del_ipv4_off_def ipv4_abs_def)
next
  case (Add_ipv4 mem skb a)
  have m: "a \<in># ipv4_uses (ts_ipv4_off_list st) \<longleftrightarrow> (\<exists>e \<in> set (ts_ipv4_off_list st). ie_ipv4_addr e = a)"
    using set_ipv4_uses[OF ok] by auto
  show ?thesis
  proof (cases "a \<in># ipv4_uses (ts_ipv4_off_list st)")
    case True
    then have "a \<in> ie_ipv4_addr ` set (ts_ipv4_off_list st)" using set_ipv4_uses[OF ok] by simp
    from ref_ipv4[OF ok this n] True m show ?thesis by (simp add: Add_ipv4 nfp_tunnel_add_ipv4_off_def ipv4_abs_def)
  next
    case False
    let ?es = "ts_ipv4_off_list st @ [\<lparr>ie_ipv4_addr = a, ie_ref_count = 1\<rparr>]"
    have "ipv4_ok ?es" using ok False m by (auto simp: ipv4_ok_def)
    then show ?thesis using write_ipv4_abs[of "st\<lparr>ts_ipv4_off_list := ?es\<rparr>" skb] False m ok
      by (auto simp: Add_ipv4 nfp_tunnel_add_ipv4_off_def ipv4_abs_def)
  qed
qed

lemma ipv4_op_spec_size: "size (fst (ipv4_op_spec op s)) \<le> Suc (size (fst s))"
  by (cases "(op, s)" rule: ipv4_op_spec.cases) (auto simp: tell_firmware_def size_Diff1_le le_SucI)

fun ipv4_op_ok :: "ipv4_op \<Rightarrow> bool" where
  "ipv4_op_ok (Add_ipv4 mem skb a) = (mem \<and> skb)"
| "ipv4_op_ok (Del_ipv4 skb a) = skb"

fun ipv4_op_addr :: "ipv4_op \<Rightarrow> u32" where
  "ipv4_op_addr (Add_ipv4 mem skb a) = a"
| "ipv4_op_addr (Del_ipv4 skb a) = a"

lemma ipv4_spec_all:
  assumes "finite A" "card A \<le> NFP_FL_IPV4_ADDRS_MAX"
  shows "\<forall>op \<in> set ops. ipv4_op_ok op \<and> ipv4_op_addr op \<in> A \<Longrightarrow> set_mset (fst s) \<subseteq> A \<Longrightarrow> snd s = set_mset (fst s) \<Longrightarrow>
    snd (fold ipv4_op_spec ops s) = set_mset (fst (fold ipv4_op_spec ops s))"
proof (induction ops arbitrary: s)
  case (Cons op ops)
  obtain M F where s: "s = (M, F)" by force
  have op: "ipv4_op_ok op" "ipv4_op_addr op \<in> A" and M: "set_mset M \<subseteq> A" "F = set_mset M"
    using Cons.prems by (simp_all add: s)
  have tell: "tell_firmware True N F = (N, set_mset N)" if "set_mset N \<subseteq> A" for N
    using card_mono[OF assms(1) that] assms(2) by (simp add: tell_firmware_def)
  have "\<exists>N. ipv4_op_spec op s = (N, set_mset N) \<and> set_mset N \<subseteq> A"
  proof (cases op)
    case (Add_ipv4 mem skb a)
    then have "set_mset (add_mset a M) \<subseteq> A" using op(2) M(1) by simp
    from tell[OF this] this show ?thesis using op(1) M(2) by (auto simp: Add_ipv4 s)
  next
    case (Del_ipv4 skb a)
    have "set_mset (M - {#a#}) \<subseteq> A" using M(1) by (meson in_diffD subset_iff)
    from tell[OF this] this show ?thesis using op(1) by (simp add: Del_ipv4 s)
  qed
  then have "set_mset (fst (ipv4_op_spec op s)) \<subseteq> A" "snd (ipv4_op_spec op s) = set_mset (fst (ipv4_op_spec op s))"
    by auto
  then show ?case using Cons.IH[of "ipv4_op_spec op s"] Cons.prems(1) by simp
qed simp

text \<open>
  Claim C18. The address list is a reference-counted set, whatever tunnel destinations rules take and
  give back and whatever allocations fail, in every run of fewer than \<open>2 ^ 32\<close> operations: no
  operation writes outside of the payload array; the entries hold each address as often as it
  is in use, an address without memory for its first entry not being counted; and the firmware
  was last told the addresses in use after the last operation that changed the set, had memory
  for its message and left at most 32 addresses (with more the list is not sent). So while
  memory suffices and at most 32 different addresses occur, the firmware knows exactly the
  addresses in use after every operation.
\<close>

theorem tunnel_addresses_refine:
  assumes "ts_ipv4_off_list st = []" "\<forall>(t, _) \<in> set (ts_sent st). t \<noteq> NFP_FLOWER_CMSG_TYPE_TUN_IPS"
    and "length ops < 2 ^ 32"
  shows "\<exists>st'. ipv4_run ops st = Some st' \<and> ipv4_abs st' = fold ipv4_op_spec ops ({#}, {}) \<and>
    ((\<forall>op \<in> set ops. ipv4_op_ok op) \<and> card (ipv4_op_addr ` set ops) \<le> NFP_FL_IPV4_ADDRS_MAX \<longrightarrow>
       fw_addresses st' = set_mset (ipv4_uses (ts_ipv4_off_list st')))"
proof -
  have run: "\<exists>s'. ipv4_run os s = Some s' \<and> ipv4_abs s' = fold ipv4_op_spec os (ipv4_abs s)"
    if "ipv4_ok (ts_ipv4_off_list s)" "size (ipv4_uses (ts_ipv4_off_list s)) + length os < 2 ^ 32" for os s
    using that
  proof (induction os arbitrary: s)
    case (Cons op os)
    have "size (ipv4_uses (ts_ipv4_off_list s)) < 2 ^ 32 - 1" using Cons.prems(2) by simp
    from ipv4_op_step[OF Cons.prems(1) this, of op] obtain s1 where s1: "ipv4_op_run op s = Some s1"
      "ipv4_ok (ts_ipv4_off_list s1)" "ipv4_abs s1 = ipv4_op_spec op (ipv4_abs s)" by blast
    have "size (ipv4_uses (ts_ipv4_off_list s1)) \<le> Suc (size (ipv4_uses (ts_ipv4_off_list s)))"
      using ipv4_op_spec_size[of op "ipv4_abs s"] unfolding s1(3)[symmetric] by (simp add: ipv4_abs_def)
    then show ?case using Cons.IH[OF s1(2)] Cons.prems(2) s1 by simp
  qed simp
  have "find (\<lambda>(t, _). t = NFP_FLOWER_CMSG_TYPE_TUN_IPS) (ts_sent st) = None"
    using assms(2) by (auto simp: find_None_iff)
  then have a: "ipv4_abs st = ({#}, {})" using assms(1) by (simp add: ipv4_abs_def fw_addresses_def)
  from run[of st ops] assms(1,3) a obtain st' where st': "ipv4_run ops st = Some st'"
    "ipv4_abs st' = fold ipv4_op_spec ops ({#}, {})" by auto
  then have "(\<forall>op \<in> set ops. ipv4_op_ok op) \<and> card (ipv4_op_addr ` set ops) \<le> 32 \<Longrightarrow>
      fw_addresses st' = set_mset (ipv4_uses (ts_ipv4_off_list st'))"
    using ipv4_spec_all[of "ipv4_op_addr ` set ops" ops "({#}, {})"] unfolding st'(2)[symmetric]
    by (simp add: ipv4_abs_def)
  with st' show ?thesis by blast
qed

lemma tunnel_addresses_refine_witness:
  "\<exists>st'. ipv4_run [Add_ipv4 True True 1, Add_ipv4 True True 2, Add_ipv4 False False 1, Del_ipv4 False 1, Del_ipv4 True 2]
     \<lparr>ts_mac_off_list = [], ts_mac_off_count = 0, ts_mac_index_list = [], ts_mac_off_ids = [],
      ts_ipv4_off_list = [], ts_neigh_off_list = [], ts_sent = []\<rparr> = Some st' \<and> fw_addresses st' = {1}"
proof -
  let ?ops = "[Add_ipv4 True True 1, Add_ipv4 True True 2, Add_ipv4 False False 1, Del_ipv4 False 1, Del_ipv4 True 2]"
  have s: "fold ipv4_op_spec ?ops ({#}, {}) = ({#1#}, {1})"
    by (simp add: tell_firmware_def)
  show ?thesis
    using tunnel_addresses_refine[of "\<lparr>ts_mac_off_list = [], ts_mac_off_count = 0, ts_mac_index_list = [], ts_mac_off_ids = [],
      ts_ipv4_off_list = [], ts_neigh_off_list = [], ts_sent = []\<rparr>" ?ops] s by (auto simp: ipv4_abs_def)
qed

section \<open>The invariant of the state\<close>

text \<open>What the driver relies on the kernel's id allocator for.\<close>

definition ida_ok :: "ida \<Rightarrow> bool" where
  "ida_ok ida \<longleftrightarrow> (\<forall>used i. ida used = Some i \<longrightarrow> i \<notin> set used \<and> i < NFP_MAX_MAC_INDEX)"

text \<open>
  Devices and indices are paired one to one, every index in use is allocated; the count is the
  length of the list, on which the size of the message rests; one entry per address, one per route.
\<close>

definition idx_ok :: "nfp_tun_mac_non_nfp_idx list \<Rightarrow> nat list \<Rightarrow> bool" where
  "idx_ok es ids \<longleftrightarrow> distinct (map mx_ifindex es) \<and> distinct (map mx_index es) \<and> distinct ids \<and>
     (\<forall>e \<in> set es. unat (mx_index e) \<in> set ids) \<and> (\<forall>i \<in> set ids. i < NFP_MAX_MAC_INDEX)"

definition tun_inv :: "tun_state \<Rightarrow> bool" where
  "tun_inv st \<longleftrightarrow> ts_mac_off_count st = int (length (ts_mac_off_list st)) \<and>
     idx_ok (ts_mac_index_list st) (ts_mac_off_ids st) \<and> ipv4_ok (ts_ipv4_off_list st) \<and> distinct (ts_neigh_off_list st)"

lemma tun_inv_sent [simp]: "tun_inv (st\<lparr>ts_sent := x\<rparr>) = tun_inv st"
  by (simp add: tun_inv_def)

text \<open>The state after \<open>n\<close> events is of size \<open>n\<close> at most: uses of addresses, MAC addresses not yet announced.\<close>

definition tun_size :: "nat \<Rightarrow> tun_state \<Rightarrow> bool" where
  "tun_size n st \<longleftrightarrow> size (ipv4_uses (ts_ipv4_off_list st)) \<le> n \<and> length (ts_mac_off_list st) \<le> n"

lemma tun_size_mono: "tun_size n st \<Longrightarrow> n \<le> m \<Longrightarrow> tun_size m st"
  by (auto simp: tun_size_def)

lemma tun_inv_ipv4: "tun_inv st \<Longrightarrow> ipv4_ok es \<Longrightarrow> tun_inv (st\<lparr>ts_ipv4_off_list := es\<rparr>)"
  by (simp add: tun_inv_def)

lemma tun_inv_write_ipv4:
  "nfp_tun_write_ipv4_list m st = Some st' \<Longrightarrow>
     (tun_inv st' \<longleftrightarrow> tun_inv st) \<and> ts_ipv4_off_list st' = ts_ipv4_off_list st \<and> ts_mac_off_list st' = ts_mac_off_list st"
  by (auto simp: write_ipv4_list split: if_split_asm)

text \<open>The two operations keep the invariant and never leave the payload array.\<close>

lemma tun_inv_add_ipv4:
  assumes "tun_inv st" "size (ipv4_uses (ts_ipv4_off_list st)) < 2 ^ 32 - 1"
  shows "\<exists>st'. nfp_tunnel_add_ipv4_off m k a st = Some st' \<and> tun_inv st' \<and> ts_mac_off_list st' = ts_mac_off_list st \<and>
    ipv4_uses (ts_ipv4_off_list st') = (if a \<in># ipv4_uses (ts_ipv4_off_list st) \<or> m
      then add_mset a (ipv4_uses (ts_ipv4_off_list st)) else ipv4_uses (ts_ipv4_off_list st))"
proof -
  have ok: "ipv4_ok (ts_ipv4_off_list st)" using assms(1) by (simp add: tun_inv_def)
  have e: "a \<in># ipv4_uses (ts_ipv4_off_list st) \<longleftrightarrow> (\<exists>e \<in> set (ts_ipv4_off_list st). ie_ipv4_addr e = a)"
    using set_ipv4_uses[OF ok] by auto
  show ?thesis
  proof (cases "\<exists>e \<in> set (ts_ipv4_off_list st). ie_ipv4_addr e = a")
    case True
    then have "a \<in> ie_ipv4_addr ` set (ts_ipv4_off_list st)" by auto
    from ref_ipv4[OF ok this assms(2)] True e assms(1) show ?thesis
      by (simp add: nfp_tunnel_add_ipv4_off_def tun_inv_ipv4)
  next
    case False
    let ?st = "st\<lparr>ts_ipv4_off_list := ts_ipv4_off_list st @ [\<lparr>ie_ipv4_addr = a, ie_ref_count = 1\<rparr>]\<rparr>"
    have "ipv4_ok (ts_ipv4_off_list ?st)" using ok False by (auto simp: ipv4_ok_def)
    then have "tun_inv ?st" using assms(1) tun_inv_ipv4 by simp
    moreover obtain st' where "nfp_tun_write_ipv4_list k ?st = Some st'" unfolding write_ipv4_list by blast
    ultimately show ?thesis using False e assms(1) tun_inv_write_ipv4[of k ?st st']
      by (auto simp: nfp_tunnel_add_ipv4_off_def)
  qed
qed

lemma tun_inv_del_ipv4:
  assumes "tun_inv st"
  shows "\<exists>st'. nfp_tunnel_del_ipv4_off k a st = Some st' \<and> tun_inv st' \<and> ts_mac_off_list st' = ts_mac_off_list st \<and>
    ipv4_uses (ts_ipv4_off_list st') = ipv4_uses (ts_ipv4_off_list st) - {#a#}"
proof -
  have ok: "ipv4_ok (ts_ipv4_off_list st)" using assms(1) by (simp add: tun_inv_def)
  let ?st = "st\<lparr>ts_ipv4_off_list := del_ipv4 a (ts_ipv4_off_list st)\<rparr>"
  have "tun_inv ?st" using assms del_ipv4_ok[OF ok] tun_inv_ipv4 by blast
  moreover obtain st' where "nfp_tun_write_ipv4_list k ?st = Some st'" unfolding write_ipv4_list by blast
  ultimately show ?thesis using tun_inv_write_ipv4[of k ?st st'] del_ipv4_ok[OF ok, of a]
    by (simp add: nfp_tunnel_del_ipv4_off_def)
qed

lemma tun_inv_write_neigh: "tun_inv st \<Longrightarrow> tun_inv (nfp_tun_write_neigh m k s d n st)"
  by (simp add: nfp_tun_write_neigh_def nfp_tun_del_route_from_cache_def nfp_tun_add_route_to_cache_def Let_def tun_inv_def
      nfp_flower_xmit_tun_conf_def)

lemma idx_ok_add:
  assumes "idx_ok es ids" "find (\<lambda>e. mx_ifindex e = i) es = None" "idx \<notin> set ids" "idx < NFP_MAX_MAC_INDEX"
  shows "idx_ok es (idx # ids)" "idx_ok (es @ [\<lparr>mx_ifindex = i, mx_index = of_nat idx\<rparr>]) (idx # ids)"
proof -
  have u: "unat (of_nat idx :: u8) = idx" using assms(4) by (simp add: unat_of_nat)
  have "of_nat idx \<notin> mx_index ` set es"
  proof
    assume "of_nat idx \<in> mx_index ` set es"
    then obtain e where "e \<in> set es" "mx_index e = of_nat idx" by auto
    then have "unat (of_nat idx :: u8) \<in> set ids" using assms(1) by (metis idx_ok_def)
    then show False using assms(3) unfolding u by simp
  qed
  moreover have "i \<notin> mx_ifindex ` set es" using assms(2) by (auto simp: find_None_iff)
  ultimately show "idx_ok (es @ [\<lparr>mx_ifindex = i, mx_index = of_nat idx\<rparr>]) (idx # ids)"
    using assms(1,3,4) u by (auto simp: idx_ok_def)
  show "idx_ok es (idx # ids)" using assms(1,3,4) by (auto simp: idx_ok_def)
qed

lemma tun_inv_get_idx:
  assumes "ida_ok ida" "tun_inv st"
  shows "tun_inv (snd (nfp_tun_get_mac_idx ida m i st)) \<and>
    ts_mac_off_list (snd (nfp_tun_get_mac_idx ida m i st)) = ts_mac_off_list st"
proof (cases "find (\<lambda>e. mx_ifindex e = i) (ts_mac_index_list st)")
  case None
  show ?thesis
  proof (cases "ida (ts_mac_off_ids st)")
    case idx: (Some idx)
    then have "idx \<notin> set (ts_mac_off_ids st)" "idx < NFP_MAX_MAC_INDEX" using assms(1) unfolding ida_ok_def by blast+
    note n = idx_ok_add[OF _ None this]
    show ?thesis using assms(2) n None idx by (simp add: nfp_tun_get_mac_idx_def tun_inv_def Let_def)
  qed (use assms None in \<open>simp add: nfp_tun_get_mac_idx_def\<close>)
qed (use assms in \<open>simp add: nfp_tun_get_mac_idx_def\<close>)

lemma tun_inv_del_idx: "tun_inv st \<Longrightarrow> tun_inv (nfp_tun_del_mac_idx i st)"
proof (cases "find (\<lambda>e. mx_ifindex e = i) (ts_mac_index_list st)")
  case (Some e)
  assume inv: "tun_inv st"
  let ?es = "ts_mac_index_list st" and ?ids = "ts_mac_off_ids st"
  have ok: "idx_ok ?es ?ids" using inv by (simp add: tun_inv_def)
  have e: "e \<in> set ?es" using Some by (metis find_Some_iff nth_mem)
  have d: "distinct (map mx_index ?es)" "distinct ?es" "distinct ?ids" using ok by (auto simp: idx_ok_def distinct_map)
  have "idx_ok (remove1 e ?es) (remove1 (unat (mx_index e)) ?ids)"
  proof -
    have "unat (mx_index x) \<noteq> unat (mx_index e)" if "x \<in> set ?es" "x \<noteq> e" for x
      using d(1) e that by (auto simp: distinct_map inj_on_def word_unat_eq_iff)
    then have "\<forall>x \<in> set ?es - {e}. unat (mx_index x) \<in> set ?ids - {unat (mx_index e)}"
      using ok by (auto simp: idx_ok_def)
    then show ?thesis using ok d by (auto simp: idx_ok_def distinct_map intro: inj_on_diff)
  qed
  then show ?thesis using Some inv by (simp add: nfp_tun_del_mac_idx_def tun_inv_def)
qed (simp add: nfp_tun_del_mac_idx_def)

lemma tun_inv_add_mac:
  assumes "ida_ok ida" "tun_inv st"
  shows "tun_inv (nfp_tun_add_to_mac_offload_list ida m k nd st)"
proof -
  have add: "tun_inv (s\<lparr>ts_mac_off_count := ts_mac_off_count s + 1, ts_mac_off_list := ts_mac_off_list s @ [x]\<rparr>)"
    if "tun_inv s" for s x using that by (simp add: tun_inv_def)
  have "tun_inv (snd (nfp_tun_get_mac_idx ida k (nd_ifindex nd) st))" using tun_inv_get_idx[OF assms] by blast
  then show ?thesis using assms(2) add
    by (simp add: nfp_tun_add_to_mac_offload_list_def Let_def case_prod_beta split: option.split)
qed

text \<open>The message of the MAC addresses.\<close>

definition mac_payload :: "nfp_tun_mac_offload_entry list \<Rightarrow> u8 list" where
  "mac_payload es = [0, 0] @ be16 (of_nat (length es)) @ concat (map (\<lambda>e. be16 (mo_index e) @ be_bytes 6 (mo_addr e)) es)"

lemma fill_macs_spec:
  "length p = 4 + 8 * k \<Longrightarrow>
     fill_macs k es (p @ replicate (8 * length es) 0) = Some (p @ concat (map (\<lambda>e. be16 (mo_index e) @ be_bytes 6 (mo_addr e)) es))"
proof (induction es arbitrary: k p)
  case (Cons e es)
  let ?b = "be16 (mo_index e) @ be_bytes 6 (mo_addr e)"
  have "write_at (4 + 8 * k) ?b (p @ replicate (8 * length (e # es)) 0) = Some ((p @ ?b) @ replicate (8 * length es) 0)"
    using Cons.prems by (simp add: write_at_def)
  then show ?case using Cons.IH[of "p @ ?b" "Suc k"] Cons.prems by simp
qed simp

lemma mac_pay_size: "n < 2 ^ 28 \<Longrightarrow> sint (4 + 8 * word_of_int (int n) :: u32) = 4 + 8 * int n"
proof -
  assume n: "n < 2 ^ 28"
  have "(4 + 8 * word_of_int (int n) :: u32) = word_of_int (4 + 8 * int n)" by simp
  moreover have "sint (word_of_int (4 + 8 * int n) :: u32) = 4 + 8 * int n"
    unfolding sint_sbintrunc' by (rule signed_take_bit_int_eq_self) (use n in simp_all)
  ultimately show ?thesis by simp
qed

text \<open>The first \<open>plen\<close> bytes of the payload are sent, its length as a \<open>u16\<close>.\<close>

lemma write_macs_spec:
  assumes "ts_mac_off_count st = int (length (ts_mac_off_list st))" "length (ts_mac_off_list st) < 2 ^ 28"
  shows "nfp_tunnel_write_macs m k st = Some (if ts_mac_off_list st = [] \<or> \<not> m \<or> \<not> k then st
    else st\<lparr>ts_sent := (NFP_FLOWER_CMSG_TYPE_TUN_MAC,
              take ((4 + 8 * length (ts_mac_off_list st)) mod 2 ^ 16) (mac_payload (ts_mac_off_list st))) # ts_sent st,
            ts_mac_off_list := [], ts_mac_off_count := 0\<rparr>)"
proof -
  let ?es = "ts_mac_off_list st" and ?n = "length (ts_mac_off_list st)"
  have size: "sint (4 + 8 * word_of_int (ts_mac_off_count st) :: u32) = 4 + 8 * int ?n"
    unfolding assms(1) by (rule mac_pay_size[OF assms(2)])
  have nat: "nat (4 + 8 * int ?n) = 4 + 8 * ?n" "\<not> 4 + 8 * int ?n < 0" by simp_all
  have "write_at 2 (be16 (of_nat ?n)) (replicate (4 + 8 * ?n) 0) = Some (([0, 0] @ be16 (of_nat ?n)) @ replicate (8 * ?n) 0)"
    by (simp add: write_at_def numeral_eq_Suc)
  moreover have "fill_macs 0 ?es (([0, 0] @ be16 (of_nat ?n)) @ replicate (8 * ?n) 0) = Some (mac_payload ?es)"
    using fill_macs_spec[of "[0, 0] @ be16 (of_nat ?n)" 0 ?es] by (simp add: mac_payload_def)
  moreover have len: "length (mac_payload ?es) = 4 + 8 * ?n"
  proof -
    have "length (concat (map (\<lambda>e. be16 (mo_index e) @ be_bytes 6 (mo_addr e)) es)) = 8 * length es" for es
      by (induction es) simp_all
    then show ?thesis by (simp add: mac_payload_def)
  qed
  moreover have "unat (of_nat (4 + 8 * ?n) :: u16) = (4 + 8 * ?n) mod 2 ^ 16" by (simp only: unat_of_nat) simp
  ultimately show ?thesis using assms(1)
    unfolding nfp_tunnel_write_macs_def size Let_def nat nfp_flower_xmit_tun_conf_def len
    by (simp add: len del: of_nat_add of_nat_mult)
qed

lemma tun_inv_write_macs:
  "tun_inv st \<Longrightarrow> length (ts_mac_off_list st) < 2 ^ 28 \<Longrightarrow> \<exists>st'. nfp_tunnel_write_macs m k st = Some st' \<and> tun_inv st' \<and>
     ts_ipv4_off_list st' = ts_ipv4_off_list st \<and> length (ts_mac_off_list st') \<le> length (ts_mac_off_list st)"
  using write_macs_spec[of st m k] by (auto simp: tun_inv_def)

lemma lists_write_neigh [simp]:
  "ts_ipv4_off_list (nfp_tun_write_neigh m k s d n st) = ts_ipv4_off_list st"
  "ts_mac_off_list (nfp_tun_write_neigh m k s d n st) = ts_mac_off_list st"
  by (simp_all add: nfp_tun_write_neigh_def nfp_flower_xmit_tun_conf_def nfp_tun_del_route_from_cache_def
      nfp_tun_add_route_to_cache_def Let_def)

lemma lists_del_idx [simp]:
  "ts_ipv4_off_list (nfp_tun_del_mac_idx i st) = ts_ipv4_off_list st"
  "ts_mac_off_list (nfp_tun_del_mac_idx i st) = ts_mac_off_list st"
  by (simp_all add: nfp_tun_del_mac_idx_def split: option.split)

lemma lists_get_idx [simp]:
  "ts_ipv4_off_list (snd (nfp_tun_get_mac_idx ida m i st)) = ts_ipv4_off_list st"
  "ts_mac_off_list (snd (nfp_tun_get_mac_idx ida m i st)) = ts_mac_off_list st"
  by (simp_all add: nfp_tun_get_mac_idx_def Let_def split: option.split)

lemma lists_add_mac:
  "ts_ipv4_off_list (nfp_tun_add_to_mac_offload_list ida m k nd st) = ts_ipv4_off_list st"
  "length (ts_mac_off_list (nfp_tun_add_to_mac_offload_list ida m k nd st)) \<le> Suc (length (ts_mac_off_list st))"
  by (simp_all add: nfp_tun_add_to_mac_offload_list_def Let_def case_prod_beta split: option.split)

text \<open>The events of the tunnel configuration, with all results of the kernel.\<close>

inductive tun_step :: "ida \<Rightarrow> tun_state \<Rightarrow> tun_state \<Rightarrow> bool" for ida where
  add_ipv4: "nfp_tunnel_add_ipv4_off mem skb_mem a st = Some st' \<Longrightarrow> tun_step ida st st'"
| del_ipv4: "nfp_tunnel_del_ipv4_off skb_mem a st = Some st' \<Longrightarrow> tun_step ida st st'"
| write_macs: "nfp_tunnel_write_macs mem skb_mem st = Some st' \<Longrightarrow> tun_step ida st st'"
| mac_event: "nfp_tun_mac_event_handler ida m event netdev st = Some st' \<Longrightarrow> tun_step ida st st'"
| neigh_event: "tun_step ida st (nfp_tun_neigh_event_handler route mem skb_mem nevent n st)"
| request_route: "tun_step ida st (nfp_tunnel_request_route route mem skb_mem have_netdev a neigh st)"

lemma tun_inv_mac_event:
  assumes "ida_ok ida" "tun_inv st" "length (ts_mac_off_list st) < 2 ^ 28 - 1"
  shows "\<exists>st'. nfp_tun_mac_event_handler ida m event netdev st = Some st' \<and> tun_inv st' \<and>
    ts_ipv4_off_list st' = ts_ipv4_off_list st \<and> length (ts_mac_off_list st') \<le> Suc (length (ts_mac_off_list st))"
proof -
  let ?s = "nfp_tun_add_to_mac_offload_list ida (tm_entry m) (tm_idx m) netdev st"
  note l = lists_add_mac[of ida "tm_entry m" "tm_idx m" netdev st]
  have "length (ts_mac_off_list ?s) < 2 ^ 28" using l(2) assms(3) by simp
  from tun_inv_write_macs[OF tun_inv_add_mac[OF assms(1,2)] this] obtain st' where
    "nfp_tunnel_write_macs (tm_payload m) (tm_skb m) ?s = Some st'" "tun_inv st'"
    "ts_ipv4_off_list st' = ts_ipv4_off_list ?s" "length (ts_mac_off_list st') \<le> length (ts_mac_off_list ?s)" by blast
  then show ?thesis using l tun_inv_del_idx[OF assms(2), of "nd_ifindex netdev"] assms(2)
    by (auto simp: nfp_tun_mac_event_handler_def)
qed

lemma neigh_event_kept:
  "ts_ipv4_off_list (nfp_tun_neigh_event_handler route mem skb_mem nevent n st) = ts_ipv4_off_list st"
  "ts_mac_off_list (nfp_tun_neigh_event_handler route mem skb_mem nevent n st) = ts_mac_off_list st"
  "tun_inv st \<Longrightarrow> tun_inv (nfp_tun_neigh_event_handler route mem skb_mem nevent n st)"
  by (auto simp: nfp_tun_neigh_event_handler_def intro: tun_inv_write_neigh split: option.split)

lemma request_route_kept:
  "ts_ipv4_off_list (nfp_tunnel_request_route route mem skb_mem have a neigh st) = ts_ipv4_off_list st"
  "ts_mac_off_list (nfp_tunnel_request_route route mem skb_mem have a neigh st) = ts_mac_off_list st"
  "tun_inv st \<Longrightarrow> tun_inv (nfp_tunnel_request_route route mem skb_mem have a neigh st)"
  by (auto simp: nfp_tunnel_request_route_def intro: tun_inv_write_neigh split: option.split)

lemma tun_step_inv:
  assumes "ida_ok ida" "tun_step ida st st'" "tun_inv st" "tun_size n st" "n < 2 ^ 28 - 1"
  shows "tun_inv st' \<and> tun_size (Suc n) st'"
  using assms(2,3,4)
proof (induction rule: tun_step.induct)
  case (add_ipv4 mem skb_mem a st st')
  then have "size (ipv4_uses (ts_ipv4_off_list st)) < 2 ^ 32 - 1" using assms(5) by (simp add: tun_size_def)
  from tun_inv_add_ipv4[OF add_ipv4(2) this, of mem skb_mem a] add_ipv4 show ?case
    by (auto simp: tun_size_def split: if_split_asm)
next
  case (del_ipv4 skb_mem a st st')
  from tun_inv_del_ipv4[OF del_ipv4(2), of skb_mem a] del_ipv4 show ?case
    using size_Diff1_le[of "ipv4_uses (ts_ipv4_off_list st)" a] by (auto simp: tun_size_def)
next
  case (write_macs mem skb_mem st st')
  then show ?case using tun_inv_write_macs[of st mem skb_mem] assms(5) by (auto simp: tun_size_def)
next
  case (mac_event m event netdev st st')
  then show ?case using tun_inv_mac_event[OF assms(1), of st m event netdev] assms(5) by (auto simp: tun_size_def)
qed (auto simp: tun_size_def neigh_event_kept request_route_kept)

lemma tun_inv_start:
  assumes "ida_ok ida" "nfp_tunnel_config_start ida err1 err2 netdevs st = (err, st')"
  shows "tun_inv st' \<and> tun_size (length netdevs) st' \<and> ts_ipv4_off_list st' = []"
proof -
  let ?add = "\<lambda>(nd, m, k). nfp_tun_add_to_mac_offload_list ida m k nd"
  have fold: "tun_inv s \<Longrightarrow> tun_inv (fold ?add nds s) \<and> ts_ipv4_off_list (fold ?add nds s) = ts_ipv4_off_list s \<and>
      length (ts_mac_off_list (fold ?add nds s)) \<le> length (ts_mac_off_list s) + length nds" for nds s
  proof (induction nds arbitrary: s)
    case (Cons x nds)
    obtain nd m k where x: "x = (nd, m, k)" by (metis prod.exhaust)
    show ?case using Cons.IH[OF tun_inv_add_mac[OF assms(1) Cons.prems, of m k nd]] lists_add_mac[of ida m k nd s]
      by (simp add: x)
  qed simp
  have "tun_inv (st\<lparr>ts_mac_off_count := 0, ts_mac_off_list := [], ts_mac_index_list := [], ts_mac_off_ids := [],
      ts_ipv4_off_list := [], ts_neigh_off_list := []\<rparr>)"
    by (simp add: tun_inv_def idx_ok_def)
  with fold[OF this, of netdevs] assms(2) show ?thesis
    by (auto simp: nfp_tunnel_config_start_def Let_def tun_size_def split: if_split_asm)
qed

lemma tun_reach_inv:
  assumes "ida_ok ida" "nfp_tunnel_config_start ida err1 err2 netdevs st0 = (err, st1)"
    and "(tun_step ida ^^ n) st1 st" "n + length netdevs < 2 ^ 28"
  shows "tun_inv st \<and> tun_size (length netdevs + n) st"
  using assms(3,4)
proof (induction n arbitrary: st)
  case 0
  then show ?case using tun_inv_start[OF assms(1,2)] by simp
next
  case (Suc n)
  from Suc.prems(1) obtain s where s: "(tun_step ida ^^ n) st1 s" "tun_step ida s st" by (auto elim: relpowp_Suc_E)
  have "tun_inv s \<and> tun_size (length netdevs + n) s" using Suc.IH[OF s(1)] Suc.prems(2) by simp
  then show ?case using tun_step_inv[OF assms(1) s(2), of "length netdevs + n"] Suc.prems(2) by simp
qed

text \<open>
  In every state reachable from the start by fewer than \<open>2 ^ 28 - 1\<close> events: devices without a port and
  their 8-bit indices are paired one to one, one reference-counted entry per tunnel address, no
  route twice, and no operation overruns the payload of its message, because the count of the
  MAC addresses is the length of their list.
\<close>

theorem tunnel_state_invariant:
  assumes "ida_ok ida" "nfp_tunnel_config_start ida err1 err2 netdevs st0 = (err, st1)" "(tun_step ida ^^ n) st1 st"
    and "n + length netdevs < 2 ^ 28 - 1"
  shows "distinct (map mx_ifindex (ts_mac_index_list st)) \<and> distinct (map mx_index (ts_mac_index_list st)) \<and>
    distinct (map ie_ipv4_addr (ts_ipv4_off_list st)) \<and> (\<forall>e \<in> set (ts_ipv4_off_list st). ie_ref_count e \<noteq> 0) \<and>
    distinct (ts_neigh_off_list st) \<and> ts_mac_off_count st = int (length (ts_mac_off_list st)) \<and>
    nfp_tunnel_write_macs mem skb_mem st \<noteq> None \<and> nfp_tun_mac_event_handler ida m event netdev st \<noteq> None \<and>
    nfp_tunnel_add_ipv4_off mem skb_mem a st \<noteq> None \<and> nfp_tunnel_del_ipv4_off skb_mem a st \<noteq> None"
proof -
  from tun_reach_inv[OF assms(1-3)] assms(4) have inv: "tun_inv st" and size: "tun_size (length netdevs + n) st" by simp_all
  have "length (ts_mac_off_list st) < 2 ^ 28 - 1" "size (ipv4_uses (ts_ipv4_off_list st)) < 2 ^ 32 - 1"
    using size assms(4) by (simp_all add: tun_size_def)
  then show ?thesis
    using tun_inv_write_macs[OF inv, of mem skb_mem] tun_inv_mac_event[OF assms(1) inv, of m event netdev] inv
      tun_inv_add_ipv4[OF inv, of mem skb_mem a] tun_inv_del_ipv4[OF inv, of skb_mem a]
    unfolding tun_inv_def idx_ok_def ipv4_ok_def by auto
qed

text \<open>An allocator: the lowest free id.\<close>

definition lowest_free :: ida where
  "lowest_free used = find (\<lambda>i. i \<notin> set used) [0..<NFP_MAX_MAC_INDEX]"

lemma lowest_free_ok: "ida_ok lowest_free"
  unfolding ida_ok_def lowest_free_def by (auto simp: find_Some_iff)

lemma tunnel_state_invariant_witness:
  "nfp_tunnel_write_macs True True (snd (nfp_tunnel_config_start lowest_free 0 0 []
     \<lparr>ts_mac_off_list = [], ts_mac_off_count = 7, ts_mac_index_list = [], ts_mac_off_ids = [],
      ts_ipv4_off_list = [], ts_neigh_off_list = [], ts_sent = []\<rparr>)) \<noteq> None"
proof -
  let ?s = "\<lparr>ts_mac_off_list = [], ts_mac_off_count = 7, ts_mac_index_list = [], ts_mac_off_ids = [],
      ts_ipv4_off_list = [], ts_neigh_off_list = [], ts_sent = []\<rparr>"
  obtain e s where s: "nfp_tunnel_config_start lowest_free 0 0 [] ?s = (e, s)" by force
  have "(tun_step lowest_free ^^ 0) s s" by simp
  from tunnel_state_invariant[OF lowest_free_ok s this, of True True] show ?thesis by (simp add: s)
qed

section \<open>Port numbers and MAC indices\<close>

definition nfp_flower_cmsg_phys_port :: "u8 \<Rightarrow> u32" where
  "nfp_flower_cmsg_phys_port phys_port = ucast phys_port OR 0x10000000"

definition nfp_flower_cmsg_pcie_port :: "u8 \<Rightarrow> u8 \<Rightarrow> u8 \<Rightarrow> u8 \<Rightarrow> u32" where
  "nfp_flower_cmsg_pcie_port nfp_pcie vnic_type vnic q =
     push_bit 14 (ucast nfp_pcie AND 0x3) OR push_bit 12 (ucast vnic_type AND 0x3) OR
     push_bit 6 (ucast vnic AND 0x3f) OR (ucast q AND 0x3f) OR 0x20000000"

lemma bit_small_word: "bit (ucast (p :: u8) :: u32) n \<longleftrightarrow> n < 8 \<and> bit p n"
  by (auto simp: bit_ucast_iff dest: bit_imp_le_length)

lemma phys_port_type: "drop_bit 28 (nfp_flower_cmsg_phys_port p) = 1"
proof -
  have "drop_bit 28 (ucast p :: u32) = 0"
    by (rule bit_word_eqI) (simp add: bit_drop_bit_eq bit_small_word)
  then show ?thesis by (simp add: nfp_flower_cmsg_phys_port_def drop_bit_or)
qed

lemma pcie_port_fields:
  "drop_bit 28 (nfp_flower_cmsg_pcie_port pcie vt v q) = 2"
  "drop_bit 6 (nfp_flower_cmsg_pcie_port pcie vt v q) AND 0x3f = ucast v AND 0x3f"
proof -
  have m: "bit (0x3f :: u32) n \<longleftrightarrow> n < 6" "bit (0x3 :: u32) n \<longleftrightarrow> n < 2" for n
    using bit_mask_iff[where 'a = "32 word", of 6 n] bit_mask_iff[where 'a = "32 word", of 2 n]
    by (auto simp: mask_eq_exp_minus_1 simp del: bit_numeral_word_iff)
  have z: "drop_bit 28 (push_bit 14 (ucast pcie AND 0x3) :: u32) = 0" "drop_bit 28 (push_bit 12 (ucast vt AND 0x3) :: u32) = 0"
    "drop_bit 28 (push_bit 6 (ucast v AND 0x3f) :: u32) = 0" "drop_bit 28 (ucast q AND 0x3f :: u32) = 0"
    by (rule bit_word_eqI; simp add: bit_simps m del: bit_numeral_word_iff)+
  then show "drop_bit 28 (nfp_flower_cmsg_pcie_port pcie vt v q) = 2"
    by (simp add: nfp_flower_cmsg_pcie_port_def drop_bit_or)
  have "drop_bit 6 (push_bit 14 (ucast pcie AND 0x3) :: u32) AND 0x3f = 0" "drop_bit 6 (push_bit 12 (ucast vt AND 0x3) :: u32) AND 0x3f = 0"
    "drop_bit 6 (push_bit 6 (ucast v AND 0x3f) :: u32) AND 0x3f = ucast v AND 0x3f" "drop_bit 6 (ucast q AND 0x3f :: u32) AND 0x3f = 0"
    by (rule bit_word_eqI; auto simp: bit_simps m simp del: bit_numeral_word_iff)+
  then show "drop_bit 6 (nfp_flower_cmsg_pcie_port pcie vt v q) AND 0x3f = ucast v AND 0x3f"
    by (simp add: nfp_flower_cmsg_pcie_port_def drop_bit_or bit.conj_disj_distrib2)
qed

lemma phys_mac_idx: "repr_mac_idx (nfp_flower_cmsg_phys_port p) = Some (push_bit 8 (ucast p) OR 1)"
proof -
  have "(ucast (push_bit 8 (nfp_flower_cmsg_phys_port p) OR 1) :: u16) = push_bit 8 (ucast p) OR 1"
  proof (rule bit_word_eqI)
    fix n :: nat
    assume n: "n < LENGTH(16)"
    have b: "bit (0x10000000 :: u32) k \<longleftrightarrow> k = 28" for k
      using bit_push_bit_iff[of 28 "1 :: u32" k] by (auto simp: bit_1_iff simp del: bit_numeral_word_iff)
    have "(68719476736 :: u32) = 0" by simp
    then have "\<not> bit (68719476736 :: u32) k" for k by (simp only: bit_0_eq bot_apply bot_bool_def not_False_eq_True)
    with n show "bit (ucast (push_bit 8 (nfp_flower_cmsg_phys_port p) OR 1) :: u16) n \<longleftrightarrow> bit (push_bit 8 (ucast p) OR 1 :: u16) n"
      by (auto simp: nfp_flower_cmsg_phys_port_def bit_ucast_iff bit_or_iff bit_push_bit_iff bit_1_iff b simp del: bit_numeral_word_iff)
  qed
  then show ?thesis by (simp add: repr_mac_idx_def phys_port_type)
qed

lemma phys_mac_idx_inj: "(push_bit 8 (ucast p) OR 1 :: u16) = push_bit 8 (ucast q) OR 1 \<longleftrightarrow> p = (q :: u8)"
proof
  assume e: "(push_bit 8 (ucast p) OR 1 :: u16) = push_bit 8 (ucast q) OR 1"
  have "(ucast (drop_bit 8 (push_bit 8 (ucast r) OR 1 :: u16)) :: u8) = r" for r :: u8
    by (rule bit_word_eqI) (simp add: bit_ucast_iff bit_drop_bit_eq bit_or_iff bit_push_bit_iff bit_1_iff)
  with e show "p = q" by metis
qed simp

text \<open>
  The MAC index of a physical port determines the port; that of a PCIe port is its vNIC number
  alone: the physical function's vNIC and the virtual function with the same number, or the
  functions of different PCIe units, get the same index.
\<close>

theorem repr_mac_idx_ports:
  "repr_mac_idx (nfp_flower_cmsg_phys_port p) = Some (push_bit 8 (ucast p) OR 1) \<and>
   (repr_mac_idx (nfp_flower_cmsg_phys_port p) = repr_mac_idx (nfp_flower_cmsg_phys_port p') \<longleftrightarrow> p = p') \<and>
   repr_mac_idx (nfp_flower_cmsg_pcie_port pcie 0 v q) = repr_mac_idx (nfp_flower_cmsg_pcie_port pcie' 1 v q')"
  unfolding phys_mac_idx by (simp add: phys_mac_idx_inj repr_mac_idx_def pcie_port_fields)

lemma read_routes_in_bounds: "off + 16 * n \<le> length data \<Longrightarrow> read_routes data off n \<noteq> None"
  by (induction n arbitrary: off) (auto simp: get_be32_def)

text \<open>
  The report of active tunnels: the entries read lie within the message, because its length is
  compared with the count; only the count itself is read unchecked, beyond the end of a message
  shorter than eight bytes.
\<close>

theorem keep_alive_in_bounds:
  "(nfp_tunnel_keep_alive data = None) = (length data < 8)"
proof (cases "length data < 8")
  case False
  then obtain c where c: "get_be32 data 4 = Some c" by (simp add: get_be32_def)
  show ?thesis
  proof (cases "sint c > 32 \<or> (word_of_int (int (length data)) :: u64) \<noteq> 12 + 16 * word_of_int (sint c)")
    case True
    then show ?thesis using False c by (auto simp: nfp_tunnel_keep_alive_def Let_def)
  next
    case in_range: False
    have "12 + 16 * nat (sint c) \<le> length data" if "0 \<le> sint c"
    proof -
      define x where "x = sint c"
      have x: "0 \<le> x" "x \<le> 32" using that in_range by (simp_all add: x_def)
      have "(word_of_int (int (length data)) :: u64) = word_of_int (12 + 16 * x)" using in_range by (simp add: x_def)
      then have "uint (word_of_int (int (length data)) :: u64) = uint (word_of_int (12 + 16 * x) :: u64)" by (rule arg_cong)
      then have "int (length data) mod 2 ^ 64 = (12 + 16 * x) mod 2 ^ 64" by (simp only: uint_word_of_int) simp
      moreover have "(12 + 16 * x) mod 2 ^ 64 = 12 + 16 * x" by (rule mod_pos_pos_trivial) (use x in simp_all)
      moreover have "int (length data) mod 2 ^ 64 \<le> int (length data)" by (rule zmod_le_nonneg_dividend) simp
      ultimately have "12 + 16 * x \<le> int (length data)" by linarith
      then show ?thesis using x by (simp add: x_def)
    qed
    then have "nat (sint c) = 0 \<or> 12 + 16 * nat (sint c) \<le> length data" by (cases "0 \<le> sint c") auto
    then have "read_routes data 12 (nat (sint c)) \<noteq> None" using read_routes_in_bounds[of 12 "nat (sint c)" data] by auto
    then show ?thesis using False c in_range by (simp add: nfp_tunnel_keep_alive_def Let_def)
  qed
qed (simp add: nfp_tunnel_keep_alive_def get_be32_def)

end
