(* ===== verification/Flower_Rule.thy ===== *)
theory Flower_Rule
  imports Flower_Action Flower_Tunnel
begin

text \<open>
  A rule from the classifier to the firmware: \<open>flower/offload.c\<close> composes the key layers, the
  match, the actions, the metadata, the control message and, for tunnels, the address list.
  The state is the flow metadata with the tunnel state.
\<close>

section \<open>Adding and deleting a rule\<close>

text \<open>
  What comes from outside: the results of the allocations, the memory of a new rule before it
  is filled (\<open>re_raw\<close>, \<open>re_sc\<close>), the devices, the ingress device.
\<close>

record rule_env =
  re_key_mem :: bool
  re_flow_mem :: bool
  re_skb_mem :: bool
  re_raw :: nfp_fl_payload
  re_sc :: u32
  re_masks :: mask_env
  re_jiffies :: u64
  re_devs :: dev_table
  re_is_repr :: bool
  re_port_id :: u32
  re_mac_mem :: bool
  re_mac_skb :: bool
  re_ip_mem :: bool
  re_ip_skb :: bool

type_synonym flower_state = "nfp_flower_priv \<times> tun_state"

definition nfp_flower_allocate_new :: "rule_env \<Rightarrow> nfp_fl_key_ls \<Rightarrow> nfp_fl_payload option" where
  "nfp_flower_allocate_new re key_layer =
     (if \<not> re_flow_mem re then None
      else Some ((re_raw re)\<lparr>fl_key_len := word_of_int (kl_key_size key_layer),
             fl_mask_len := word_of_int (kl_key_size key_layer), fl_nfp_tun_ipv4_addr := 0, fl_flags := 0\<rparr>))"

text \<open>The tunnel end point of a match: MAC addresses first, then the address.\<close>

definition match_tunnel_effects :: "rule_env \<Rightarrow> match_result \<Rightarrow> tun_state \<Rightarrow> tun_state option" where
  "match_tunnel_effects re mr tun =
     (case mr_tun mr of None \<Rightarrow> Some tun
      | Some d \<Rightarrow> Option.bind (nfp_tunnel_write_macs (re_mac_mem re) (re_mac_skb re) tun)
          (nfp_tunnel_add_ipv4_off (re_ip_mem re) (re_ip_skb re) d))"

text \<open>
  The result is the error code, the message handed to the firmware and the new state; \<open>None\<close>
  is an access outside of a buffer. The metadata write the mask id into the unmasked key at a
  fixed place, which has to be inside the key.
\<close>

definition flower_add_rule ::
  "jhash_fn \<Rightarrow> rule_env \<Rightarrow> tc_cls_flower \<Rightarrow> tc_action list \<Rightarrow> u64 \<Rightarrow> flower_state \<Rightarrow> ((int \<times> u8 list option) \<times> flower_state) option" where
  "flower_add_rule jhash re flow actions cookie st =
     (case st of (priv, tun) \<Rightarrow>
      if \<not> re_key_mem re then Some ((- ENOMEM, None), priv, tun)
      else case nfp_flower_calculate_key_layers flow of
        Inl err \<Rightarrow> Some ((err, None), priv, tun)
      | Inr key_layer \<Rightarrow> (case nfp_flower_allocate_new re key_layer of
          None \<Rightarrow> Some ((- ENOMEM, None), priv, tun)
        | Some flow_pay \<Rightarrow> (case nfp_flower_compile_flow_match flow key_layer (re_is_repr re) (re_port_id re) of
            None \<Rightarrow> None
          | Some mr \<Rightarrow> (case match_tunnel_effects re mr tun of
              None \<Rightarrow> None
            | Some tun \<Rightarrow>
              if mr_err mr \<noteq> 0 then Some ((mr_err mr, None), priv, tun)
              else (case nfp_flower_compile_action (re_devs re) actions (re_sc re) of
                None \<Rightarrow> None
              | Some (Inl err) \<Rightarrow> Some ((err, None), priv, tun)
              | Some (Inr (data, act_len, shortcut)) \<Rightarrow>
                let flow_pay = flow_pay\<lparr>fl_unmasked_data := mr_unmasked mr, fl_mask_data := mr_mask mr, fl_act_len := act_len,
                      fl_nfp_tun_ipv4_addr := (case mr_tun mr of None \<Rightarrow> 0 | Some d \<Rightarrow> d)\<rparr>
                in if length (fl_unmasked_data flow_pay) \<le> NFP_FL_MASK_ID_LOCATION then None
                   else case nfp_flower_add_offload jhash \<lparr>fo_key_mem = True, fo_key_err = 0, fo_flow_mem = True, fo_match_err = 0,
                     fo_action_err = 0, fo_payload = flow_pay, fo_xmit_err = (if re_skb_mem re then 0 else - ENOMEM),
                     fo_masks = re_masks re, fo_jiffies = re_jiffies re\<rparr> cookie priv of (err, priv) \<Rightarrow>
                  if err \<noteq> 0 then Some ((err, None), priv, tun)
                  else map_option (\<lambda>(_, msg). ((0, msg), priv, tun))
                         (nfp_flower_xmit_flow True (hd (fp_flow_table priv)) shortcut data))))))"

definition flower_del_rule ::
  "jhash_fn \<Rightarrow> mask_env \<Rightarrow> bool \<Rightarrow> bool \<Rightarrow> u64 \<Rightarrow> flower_state \<Rightarrow> (int \<times> flower_state) option" where
  "flower_del_rule jhash env skb_mem ip_skb cookie st =
     (case st of (priv, tun) \<Rightarrow>
      case nfp_flower_search_fl_table cookie priv of
        None \<Rightarrow> Some (- ENOENT, priv, tun)
      | Some nfp_flow \<Rightarrow>
        Option.bind (if fst (fst (nfp_modify_flow_metadata jhash env nfp_flow priv)) = 0 \<and> fl_nfp_tun_ipv4_addr nfp_flow \<noteq> 0
                     then nfp_tunnel_del_ipv4_off ip_skb (fl_nfp_tun_ipv4_addr nfp_flow) tun else Some tun) (\<lambda>tun.
        case nfp_flower_del_offload jhash env (if skb_mem then 0 else - ENOMEM) cookie priv of (err, priv) \<Rightarrow>
          Some (err, priv, tun)))"

datatype flower_command =
  TC_CLSFLOWER_REPLACE tc_cls_flower "tc_action list" u64 | TC_CLSFLOWER_DESTROY u64 | TC_CLSFLOWER_STATS u64 | TC_CLSFLOWER_other

definition nfp_flower_repr_offload ::
  "jhash_fn \<Rightarrow> rule_env \<Rightarrow> flower_command \<Rightarrow> flower_state \<Rightarrow> (int \<times> flower_state) option" where
  "nfp_flower_repr_offload jhash re flower st =
     (case flower of
        TC_CLSFLOWER_REPLACE flow actions cookie \<Rightarrow>
          map_option (\<lambda>((err, _), st). (err, st)) (flower_add_rule jhash re flow actions cookie st)
      | TC_CLSFLOWER_DESTROY cookie \<Rightarrow> flower_del_rule jhash (re_masks re) (re_skb_mem re) (re_ip_skb re) cookie st
      | TC_CLSFLOWER_STATS cookie \<Rightarrow>
          Some (case nfp_flower_get_stats cookie (fst st) of (r, priv) \<Rightarrow> (case r of Inl e \<Rightarrow> e | Inr _ \<Rightarrow> 0, priv, snd st))
      | TC_CLSFLOWER_other \<Rightarrow> Some (- EOPNOTSUPP, st))"

text \<open>\<open>filters\<close>: the ingress class, Ethernet protocol and chain tests of newer kernels.\<close>

definition nfp_flower_setup_tc ::
  "jhash_fn \<Rightarrow> rule_env \<Rightarrow> bool \<Rightarrow> bool \<Rightarrow> flower_command \<Rightarrow> flower_state \<Rightarrow> (int \<times> flower_state) option" where
  "nfp_flower_setup_tc jhash re is_clsflower filters flower st =
     (if \<not> is_clsflower \<or> \<not> filters then Some (- EOPNOTSUPP, st) else nfp_flower_repr_offload jhash re flower st)"

section \<open>The firmware gets the rule\<close>

lemma check_mask_add_table: "nfp_check_mask_add jhash env d n f priv = (r, p) \<Longrightarrow> fp_flow_table p = fp_flow_table priv"
  by (auto simp: nfp_check_mask_add_def nfp_find_in_mask_table_def nfp_add_mask_table_def
      split: prod.split_asm option.split_asm if_split_asm)

text \<open>What the metadata compiler leaves of a rule.\<close>

lemma compile_metadata_fields:
  assumes "nfp_compile_flow_metadata jhash env j c fl priv = ((0, fl'), priv')"
  shows "fl_key_len fl' = fl_key_len fl \<and> fl_mask_len fl' = fl_mask_len fl \<and> fl_act_len fl' = fl_act_len fl \<and>
    fl_mask_data fl' = fl_mask_data fl \<and> fl_nfp_tun_ipv4_addr fl' = fl_nfp_tun_ipv4_addr fl \<and>
    (\<exists>mid. fl_unmasked_data fl' = (fl_unmasked_data fl)[1 := mid]) \<and> fp_flow_table priv' = fp_flow_table priv"
proof -
  obtain e1 ctx ids where g: "nfp_get_stats_entry (fp_stats_ids priv) = ((e1, ctx), ids)" by (metis prod.exhaust)
  have e1: "e1 = 0" using assms g by (auto simp: nfp_compile_flow_metadata_def Let_def split: if_split_asm)
  let ?p1 = "priv\<lparr>fp_stats_ids := ids\<rparr>"
  obtain ok flags mid p2 where a: "nfp_check_mask_add jhash env (fl_mask_data fl) (fl_mask_len fl) (fl_flags fl) ?p1
      = ((ok, flags, mid), p2)" by (metis prod.exhaust)
  have ok: ok using assms g e1 a
    by (auto simp: nfp_compile_flow_metadata_def Let_def split: if_split_asm prod.split_asm)
  have t: "fp_flow_table p2 = fp_flow_table priv" using check_mask_add_table[OF a] by simp
  show ?thesis using assms g e1 a ok t
    by (auto simp: nfp_compile_flow_metadata_def Let_def split: option.split_asm prod.split_asm if_split_asm)
qed

lemma add_offload_ok:
  assumes "nfp_flower_add_offload jhash env cookie priv = (0, priv')"
  shows "\<exists>fl. fp_flow_table priv' = fl\<lparr>fl_tc_flower_cookie := cookie\<rparr> # fp_flow_table priv \<and> fo_xmit_err env = 0 \<and>
    (\<exists>p. nfp_compile_flow_metadata jhash (fo_masks env) (fo_jiffies env) cookie (fo_payload env) priv = ((0, fl), p))"
proof -
  obtain e fl p where c: "nfp_compile_flow_metadata jhash (fo_masks env) (fo_jiffies env) cookie (fo_payload env) priv = ((e, fl), p)"
    by (metis prod.exhaust)
  have e: "e = 0" using assms c by (auto simp: nfp_flower_add_offload_def split: if_split_asm)
  then have "fo_xmit_err env = 0" "priv' = p\<lparr>fp_flow_table := fl\<lparr>fl_tc_flower_cookie := cookie\<rparr> # fp_flow_table p\<rparr>"
    using assms c by (auto simp: nfp_flower_add_offload_def split: if_split_asm)
  moreover have "fp_flow_table p = fp_flow_table priv" using compile_metadata_fields[OF c[unfolded e]] by blast
  ultimately show ?thesis using c e by auto
qed

lemma key_layers_err: "nfp_flower_calculate_key_layers flow = Inl e \<Longrightarrow> e = - EOPNOTSUPP"
  by (auto simp: nfp_flower_calculate_key_layers_def key_layers_tunnel_def key_layers_eth_def key_layers_ip_def Let_def
      split: if_split_asm sum.split_asm)

lemma add_ipv4_inside: "\<exists>tun'. nfp_tunnel_add_ipv4_off m k a tun = Some tun'"
  by (auto simp: nfp_tunnel_add_ipv4_off_def write_ipv4_list)

text \<open>The lengths of the frames of a rule, and what the copies of its message find.\<close>

lemma frames_length:
  assumes "nfp_flower_calculate_key_layers flow = Inr ls"
  shows "length (match_frames flow (kl_key_layer ls) port b) = nat (kl_key_size ls)" "0 \<le> kl_key_size ls" "kl_key_size ls \<le> 88"
    "nat (kl_key_size ls) mod 4 = 0" "2 \<le> nat (kl_key_size ls)"
proof -
  note f = match_fills_key[OF assms, of True port b]
  show s: "length (match_frames flow (kl_key_layer ls) port b) = nat (kl_key_size ls)" "0 \<le> kl_key_size ls" "kl_key_size ls \<le> 88"
    using f by simp_all
  have "kl_key_size ls mod 4 = 0" using f by simp
  then show "nat (kl_key_size ls) mod 4 = 0" using s(2) by presburger
  show "2 \<le> nat (kl_key_size ls)" unfolding s(1)[symmetric] by (simp add: match_frames_def Let_def)
qed

lemma key_len_fits: "0 \<le> k \<Longrightarrow> k \<le> 88 \<Longrightarrow> unat (word_of_int k :: u8) = nat k"
proof -
  assume k: "0 \<le> k" "k \<le> 88"
  then have n: "k = int (nat k)" "nat k < 256" by simp_all
  have "unat (word_of_int k :: u8) = unat (of_nat (nat k) :: u8)" by (subst n(1)) (simp only: of_int_of_nat_eq)
  then show ?thesis using n(2) by (simp add: unat_of_nat del: of_nat_nat)
qed

text \<open>
  The message of an installed flow is sent whatever its action list: the copies stay inside the
  buffers, because the announced length of the actions is at most the length of their buffer.
\<close>

lemma act_len_inside: "unat (of_nat (acts_size acts) :: u8) \<le> length (acts_buf acts)"
proof -
  have "unat (of_nat (acts_size acts) :: u8) = acts_size acts mod 256" by (simp add: unat_of_nat)
  also have "\<dots> \<le> acts_size acts" by simp
  also have "\<dots> \<le> length (acts_buf acts)" by (simp add: acts_buf_def acts_size_def)
  finally show ?thesis .
qed

text \<open>The run of an addition up to the metadata: every step but the metadata succeeds or is an error code.\<close>

lemma add_rule_steps:
  assumes ls: "nfp_flower_calculate_key_layers flow = Inr ls" and raw: "re_key_mem re" "nfp_flower_allocate_new re ls = Some raw"
    and tun1: "match_tunnel_effects re
      \<lparr>mr_err = 0, mr_off = nat (kl_key_size ls), mr_unmasked = match_frames flow (kl_key_layer ls) (re_port_id re) False,
       mr_mask = match_frames flow (kl_key_layer ls) (re_port_id re) True, mr_tun = d\<rparr> tun = Some tun1"
    and d: "d = (if kl_key_layer ls AND NFP_FLOWER_LAYER_VXLAN \<noteq> 0 \<and> re_is_repr re then Some (ff_enc_ipv4_dst (fw_key flow)) else None)"
  shows "flower_add_rule jhash re flow actions cookie (priv, tun) =
    (case actions_spec (re_devs re) actions (no_acts (re_sc re)) of
       None \<Rightarrow> Some ((- EOPNOTSUPP, None), priv, tun1)
     | Some ab \<Rightarrow>
       let pay = raw\<lparr>fl_unmasked_data := match_frames flow (kl_key_layer ls) (re_port_id re) False,
             fl_mask_data := match_frames flow (kl_key_layer ls) (re_port_id re) True,
             fl_act_len := of_nat (acts_size (ab_acts ab)), fl_nfp_tun_ipv4_addr := (case d of None \<Rightarrow> 0 | Some d \<Rightarrow> d)\<rparr>
       in case nfp_flower_add_offload jhash \<lparr>fo_key_mem = True, fo_key_err = 0, fo_flow_mem = True, fo_match_err = 0,
             fo_action_err = 0, fo_payload = pay, fo_xmit_err = (if re_skb_mem re then 0 else - ENOMEM),
             fo_masks = re_masks re, fo_jiffies = re_jiffies re\<rparr> cookie priv of (err, priv) \<Rightarrow>
         if err \<noteq> 0 then Some ((err, None), priv, tun1)
         else map_option (\<lambda>(_, msg). ((0, msg), priv, tun1))
           (nfp_flower_xmit_flow True (hd (fp_flow_table priv)) (if length actions > 1 then 0 else ab_shortcut ab)
              (acts_buf (ab_acts ab))))"
proof -
  have m: "nfp_flower_compile_flow_match flow ls (re_is_repr re) (re_port_id re) =
      Some \<lparr>mr_err = 0, mr_off = nat (kl_key_size ls), mr_unmasked = match_frames flow (kl_key_layer ls) (re_port_id re) False,
       mr_mask = match_frames flow (kl_key_layer ls) (re_port_id re) True, mr_tun = d\<rparr>"
    using match_fills_key[OF ls, of "re_is_repr re" "re_port_id re"] by (simp add: d)
  have len: "\<not> length (match_frames flow (kl_key_layer ls) (re_port_id re) False) \<le> 1"
    using frames_length(1,5)[OF ls] by simp
  show ?thesis
    using ls raw m tun1 len actions_refine[of "re_devs re" actions "re_sc re"]
    by (simp add: flower_add_rule_def Let_def split: option.split)
qed

text \<open>What is in the table after a successful addition.\<close>

lemma add_offload_flow:
  assumes "nfp_flower_add_offload jhash \<lparr>fo_key_mem = a1, fo_key_err = a2, fo_flow_mem = a3, fo_match_err = a4,
      fo_action_err = a5, fo_payload = pay, fo_xmit_err = a6, fo_masks = ms, fo_jiffies = j\<rparr> cookie priv = (0, p)"
  obtains fl mid where "fp_flow_table p = fl # fp_flow_table priv" "fl_tc_flower_cookie fl = cookie"
    "fl_key_len fl = fl_key_len pay" "fl_mask_len fl = fl_mask_len pay" "fl_act_len fl = fl_act_len pay"
    "fl_mask_data fl = fl_mask_data pay" "fl_nfp_tun_ipv4_addr fl = fl_nfp_tun_ipv4_addr pay"
    "fl_unmasked_data fl = (fl_unmasked_data pay)[1 := mid]"
proof -
  obtain fl q where f: "fp_flow_table p = fl\<lparr>fl_tc_flower_cookie := cookie\<rparr> # fp_flow_table priv"
    "nfp_compile_flow_metadata jhash ms j cookie pay priv = ((0, fl), q)"
    using add_offload_ok[OF assms] by auto
  from compile_metadata_fields[OF f(2)] obtain mid where "fl_unmasked_data fl = (fl_unmasked_data pay)[1 := mid]" by blast
  then show thesis using that[of "fl\<lparr>fl_tc_flower_cookie := cookie\<rparr>" mid] f(1) compile_metadata_fields[OF f(2)] by simp
qed

lemma installed_xmit:
  assumes ls: "nfp_flower_calculate_key_layers flow = Inr ls"
    and add: "nfp_flower_add_offload jhash \<lparr>fo_key_mem = a1, fo_key_err = a2, fo_flow_mem = a3, fo_match_err = a4,
      fo_action_err = a5, fo_payload = pay\<lparr>fl_unmasked_data := match_frames flow (kl_key_layer ls) port False,
        fl_mask_data := match_frames flow (kl_key_layer ls) port True, fl_act_len := of_nat (acts_size acts),
        fl_nfp_tun_ipv4_addr := x\<rparr>, fo_xmit_err = a6, fo_masks = ms, fo_jiffies = j\<rparr> cookie priv = (0, p)"
    and pay: "fl_key_len pay = word_of_int (kl_key_size ls)" "fl_mask_len pay = word_of_int (kl_key_size ls)"
  shows "\<exists>m. nfp_flower_xmit_flow True (hd (fp_flow_table p)) sc (acts_buf acts) = Some m"
proof -
  from add obtain fl mid where fl: "fp_flow_table p = fl # fp_flow_table priv" "fl_key_len fl = word_of_int (kl_key_size ls)"
    "fl_mask_len fl = word_of_int (kl_key_size ls)" "fl_act_len fl = of_nat (acts_size acts)"
    "fl_mask_data fl = match_frames flow (kl_key_layer ls) port True"
    "fl_unmasked_data fl = (match_frames flow (kl_key_layer ls) port False)[1 := mid]"
    by (rule add_offload_flow) (simp add: pay)
  then have "unat (fl_key_len fl) \<le> length (fl_unmasked_data fl)" "unat (fl_mask_len fl) \<le> length (fl_mask_data fl)"
    "unat (fl_act_len fl) \<le> length (acts_buf acts)"
    using frames_length(1-3)[OF ls] key_len_fits[of "kl_key_size ls"] act_len_inside by simp_all
  from xmit_flow_bytes[OF this] show ?thesis by (simp add: fl(1) Let_def)
qed

text \<open>So the run ends inside the buffers, and with 0 when the actions compile and the flow is added.\<close>

lemma add_rule_ends:
  assumes ls: "nfp_flower_calculate_key_layers flow = Inr ls" and raw: "re_key_mem re" "nfp_flower_allocate_new re ls = Some raw"
    and tun1: "match_tunnel_effects re
      \<lparr>mr_err = 0, mr_off = nat (kl_key_size ls), mr_unmasked = match_frames flow (kl_key_layer ls) (re_port_id re) False,
       mr_mask = match_frames flow (kl_key_layer ls) (re_port_id re) True, mr_tun = d\<rparr> tun = Some tun1"
    and d: "d = (if kl_key_layer ls AND NFP_FLOWER_LAYER_VXLAN \<noteq> 0 \<and> re_is_repr re then Some (ff_enc_ipv4_dst (fw_key flow)) else None)"
  shows "\<exists>r p. flower_add_rule jhash re flow actions cookie (priv, tun) = Some (r, p, tun1) \<and>
    (actions_spec (re_devs re) actions (no_acts (re_sc re)) \<noteq> None \<and>
      (\<forall>pay. fst (nfp_flower_add_offload jhash \<lparr>fo_key_mem = True, fo_key_err = 0, fo_flow_mem = True, fo_match_err = 0,
         fo_action_err = 0, fo_payload = pay, fo_xmit_err = (if re_skb_mem re then 0 else - ENOMEM),
         fo_masks = re_masks re, fo_jiffies = re_jiffies re\<rparr> cookie priv) = 0) \<longrightarrow> fst r = 0)"
proof (cases "actions_spec (re_devs re) actions (no_acts (re_sc re))")
  case None
  then show ?thesis by (simp add: add_rule_steps[OF assms])
next
  case (Some ab)
  have len: "fl_key_len raw = word_of_int (kl_key_size ls)" "fl_mask_len raw = word_of_int (kl_key_size ls)"
    using raw(2) by (auto simp: nfp_flower_allocate_new_def split: if_split_asm)
  obtain e p where add: "nfp_flower_add_offload jhash \<lparr>fo_key_mem = True, fo_key_err = 0, fo_flow_mem = True, fo_match_err = 0,
      fo_action_err = 0, fo_payload = raw\<lparr>fl_unmasked_data := match_frames flow (kl_key_layer ls) (re_port_id re) False,
        fl_mask_data := match_frames flow (kl_key_layer ls) (re_port_id re) True, fl_act_len := of_nat (acts_size (ab_acts ab)),
        fl_nfp_tun_ipv4_addr := (case d of None \<Rightarrow> 0 | Some d \<Rightarrow> d)\<rparr>, fo_xmit_err = (if re_skb_mem re then 0 else - ENOMEM),
      fo_masks = re_masks re, fo_jiffies = re_jiffies re\<rparr> cookie priv = (e, p)" by force
  show ?thesis
  proof (cases "e = 0")
    case True
    from installed_xmit[OF ls add[unfolded True] len] obtain x where
      "nfp_flower_xmit_flow True (hd (fp_flow_table p)) (if length actions > 1 then 0 else ab_shortcut ab) (acts_buf (ab_acts ab)) = Some x"
      by blast
    then show ?thesis unfolding add_rule_steps[OF assms] Some option.case Let_def add True by (simp add: case_prod_beta)
  next
    case False
    then show ?thesis unfolding add_rule_steps[OF assms] Some option.case Let_def add
      using add by (auto intro: exI[of _ "raw\<lparr>fl_unmasked_data := match_frames flow (kl_key_layer ls) (re_port_id re) False,
        fl_mask_data := match_frames flow (kl_key_layer ls) (re_port_id re) True, fl_act_len := of_nat (acts_size (ab_acts ab)),
        fl_nfp_tun_ipv4_addr := (case d of None \<Rightarrow> 0 | Some d \<Rightarrow> d)\<rparr>"])
  qed
qed

text \<open>
  Claim C15. Adding a rule never leaves the buffers it works on, whatever rule the classifier asks for and
  whatever allocations fail: the key and mask frames, the action list, the mask id in the key,
  the MAC payload, the array of the address list and the copies into the control message all
  stay inside, and every way it can end is an error code or an installed flow. It rests on the
  count of MAC addresses being the length of their list, which every event keeps, and on that
  list being shorter than \<open>2 ^ 28\<close>.
\<close>

theorem flower_add_rule_safe:
  assumes "ts_mac_off_count (snd st) = int (length (ts_mac_off_list (snd st)))" "length (ts_mac_off_list (snd st)) < 2 ^ 28"
  shows "flower_add_rule jhash re flow actions cookie st \<noteq> None"
proof -
  obtain priv tun where st: "st = (priv, tun)" by force
  show ?thesis
  proof (cases "nfp_flower_calculate_key_layers flow")
    case (Inr ls)
    show ?thesis
    proof (cases "re_key_mem re \<and> nfp_flower_allocate_new re ls \<noteq> None")
      case True
      then obtain raw where raw: "re_key_mem re" "nfp_flower_allocate_new re ls = Some raw" by blast
      let ?d = "if kl_key_layer ls AND NFP_FLOWER_LAYER_VXLAN \<noteq> 0 \<and> re_is_repr re then Some (ff_enc_ipv4_dst (fw_key flow)) else None"
      let ?mr = "\<lparr>mr_err = 0, mr_off = nat (kl_key_size ls), mr_unmasked = match_frames flow (kl_key_layer ls) (re_port_id re) False,
       mr_mask = match_frames flow (kl_key_layer ls) (re_port_id re) True, mr_tun = ?d\<rparr>"
      obtain t0 where "nfp_tunnel_write_macs (re_mac_mem re) (re_mac_skb re) tun = Some t0"
        using write_macs_spec[of tun "re_mac_mem re" "re_mac_skb re"] assms st by simp
      then obtain tun1 where t: "match_tunnel_effects re ?mr tun = Some tun1"
        using add_ipv4_inside[of "re_ip_mem re" "re_ip_skb re" "ff_enc_ipv4_dst (fw_key flow)" t0]
        by (cases "kl_key_layer ls AND NFP_FLOWER_LAYER_VXLAN \<noteq> 0 \<and> re_is_repr re") (auto simp: match_tunnel_effects_def)
      from add_rule_ends[OF Inr raw t refl] show ?thesis unfolding st by blast
    qed (auto simp: flower_add_rule_def st Inr)
  qed (simp add: flower_add_rule_def st)
qed

text \<open>A successful addition, taken apart.\<close>

lemma add_rule_ok:
  assumes "flower_add_rule jhash re flow actions cookie (priv, tun) = Some ((0, msg), priv', tun')"
  obtains ls ab fl mid m where
    "nfp_flower_calculate_key_layers flow = Inr ls" "actions_spec (re_devs re) actions (no_acts (re_sc re)) = Some ab"
    "fp_flow_table priv' = fl # fp_flow_table priv" "fl_tc_flower_cookie fl = cookie"
    "fl_unmasked_data fl = (match_frames flow (kl_key_layer ls) (re_port_id re) False)[1 := mid]"
    "fl_mask_data fl = match_frames flow (kl_key_layer ls) (re_port_id re) True"
    "fl_key_len fl = word_of_int (kl_key_size ls)" "fl_mask_len fl = word_of_int (kl_key_size ls)"
    "fl_act_len fl = of_nat (acts_size (ab_acts ab))"
    "nfp_flower_xmit_flow True fl (if length actions > 1 then 0 else ab_shortcut ab) (acts_buf (ab_acts ab)) = Some (m, msg)"
    "fl_nfp_tun_ipv4_addr fl = (if kl_key_layer ls AND NFP_FLOWER_LAYER_VXLAN \<noteq> 0 \<and> re_is_repr re
       then ff_enc_ipv4_dst (fw_key flow) else 0)"
proof -
  obtain ls where ls: "nfp_flower_calculate_key_layers flow = Inr ls"
    using assms key_layers_err[of flow] by (cases "nfp_flower_calculate_key_layers flow") (auto simp: flower_add_rule_def split: if_split_asm)
  have km: "re_key_mem re" using assms by (auto simp: flower_add_rule_def split: if_split_asm)
  obtain raw where raw: "nfp_flower_allocate_new re ls = Some raw"
    using assms ls by (cases "nfp_flower_allocate_new re ls") (auto simp: flower_add_rule_def split: if_split_asm)
  define d where "d = (if kl_key_layer ls AND NFP_FLOWER_LAYER_VXLAN \<noteq> 0 \<and> re_is_repr re then Some (ff_enc_ipv4_dst (fw_key flow)) else None)"
  define mr where "mr = \<lparr>mr_err = 0, mr_off = nat (kl_key_size ls), mr_unmasked = match_frames flow (kl_key_layer ls) (re_port_id re) False,
       mr_mask = match_frames flow (kl_key_layer ls) (re_port_id re) True, mr_tun = d\<rparr>"
  have m: "nfp_flower_compile_flow_match flow ls (re_is_repr re) (re_port_id re) = Some mr"
    using match_fills_key[OF ls, of "re_is_repr re" "re_port_id re"] by (simp_all add: mr_def d_def)
  obtain tun1 where tun1: "match_tunnel_effects re mr tun = Some tun1"
    using assms ls raw m by (cases "match_tunnel_effects re mr tun") (auto simp: flower_add_rule_def split: if_split_asm)
  note run = add_rule_steps[OF ls km raw tun1[unfolded mr_def] d_def, of jhash actions cookie priv, unfolded assms Let_def]
  then obtain ab where ab: "actions_spec (re_devs re) actions (no_acts (re_sc re)) = Some ab"
    by (cases "actions_spec (re_devs re) actions (no_acts (re_sc re))") auto
  let ?pay = "raw\<lparr>fl_unmasked_data := match_frames flow (kl_key_layer ls) (re_port_id re) False,
      fl_mask_data := match_frames flow (kl_key_layer ls) (re_port_id re) True,
      fl_act_len := of_nat (acts_size (ab_acts ab)), fl_nfp_tun_ipv4_addr := (case d of None \<Rightarrow> 0 | Some d \<Rightarrow> d)\<rparr>"
  obtain err p where add: "nfp_flower_add_offload jhash \<lparr>fo_key_mem = True, fo_key_err = 0, fo_flow_mem = True, fo_match_err = 0,
       fo_action_err = 0, fo_payload = ?pay, fo_xmit_err = (if re_skb_mem re then 0 else - ENOMEM),
       fo_masks = re_masks re, fo_jiffies = re_jiffies re\<rparr> cookie priv = (err, p)" by force
  have err: "err = 0" "p = priv'" and x: "\<exists>m. nfp_flower_xmit_flow True (hd (fp_flow_table p))
      (if length actions > 1 then 0 else ab_shortcut ab) (acts_buf (ab_acts ab)) = Some (m, msg)"
    using run[symmetric] add by (auto simp: ab split: if_split_asm)
  have r: "fl_key_len raw = word_of_int (kl_key_size ls)" "fl_mask_len raw = word_of_int (kl_key_size ls)"
    using raw by (auto simp: nfp_flower_allocate_new_def split: if_split_asm)
  from add[unfolded err(1)] show thesis
    by (rule add_offload_flow) (use x err(2) r in \<open>auto simp: d_def intro: that[OF ls ab]\<close>)
qed

lemma acts_size_mod4: "acts_size acts mod 4 = 0"
proof (induction acts)
  case (Cons a acts)
  then show ?case using act_header(4)[of a] by (simp add: mod_add_eq[symmetric])
qed simp

text \<open>
  Claim C14. From the classifier to the firmware: when adding a rule succeeds, the message the firmware gets
  decodes, by the lengths in its metadata, to the frames of the rule's layers with the mask id
  of the installed flow, the frames of its mask, and the first \<open>n mod 256\<close> bytes of the \<open>n\<close>-byte
  list of the actions the classifier's actions mean, because \<open>act_len\<close> has eight bits. When the
  list is shorter than 256 bytes that is the whole list, and it parses by its own headers to
  those actions in order; a list of 256 bytes or more loses the rest.
\<close>

theorem flower_rule_reaches_firmware:
  assumes add: "flower_add_rule jhash re flow actions cookie (priv, tun) = Some ((0, msg), priv', tun')"
  shows "\<exists>ls ab fl m. nfp_flower_calculate_key_layers flow = Inr ls \<and>
    actions_spec (re_devs re) actions (no_acts (re_sc re)) = Some ab \<and>
    fp_flow_table priv' = fl # fp_flow_table priv \<and> fl_tc_flower_cookie fl = cookie \<and> msg = Some m \<and>
    (case decode_rule m of (key, msk, acts) \<Rightarrow>
       key = (match_frames flow (kl_key_layer ls) (re_port_id re) False)[1 := flow_mask_id fl] \<and>
       msk = match_frames flow (kl_key_layer ls) (re_port_id re) True \<and>
       acts = take (acts_size (ab_acts ab) mod 256) (concat (map act_bytes (ab_acts ab))) \<and>
       (acts_size (ab_acts ab) < 256 \<longrightarrow>
          parse_acts acts = map (\<lambda>a. (ucast (act_opcode a), act_body a)) (ab_acts ab)))"
proof -
  from add obtain ls ab fl mid x where ls: "nfp_flower_calculate_key_layers flow = Inr ls"
    and ab: "actions_spec (re_devs re) actions (no_acts (re_sc re)) = Some ab"
    and t: "fp_flow_table priv' = fl # fp_flow_table priv" "fl_tc_flower_cookie fl = cookie"
    and u: "fl_unmasked_data fl = (match_frames flow (kl_key_layer ls) (re_port_id re) False)[1 := mid]"
    and k: "fl_mask_data fl = match_frames flow (kl_key_layer ls) (re_port_id re) True"
    and l: "fl_key_len fl = word_of_int (kl_key_size ls)" "fl_mask_len fl = word_of_int (kl_key_size ls)"
      "fl_act_len fl = of_nat (acts_size (ab_acts ab))"
    and msg: "nfp_flower_xmit_flow True fl (if length actions > 1 then 0 else ab_shortcut ab) (acts_buf (ab_acts ab)) = Some (x, msg)"
    by (rule add_rule_ok) blast
  note f = frames_length[OF ls]
  let ?s = "acts_size (ab_acts ab)"
  have len: "unat (fl_key_len fl) = nat (kl_key_size ls)" "unat (fl_mask_len fl) = nat (kl_key_size ls)"
    "unat (fl_act_len fl) = ?s mod 256"
    using l key_len_fits[OF f(2,3)] by (simp_all add: unat_of_nat)
  have act4: "?s mod 256 mod 4 = 0" using acts_size_mod4[of "ab_acts ab"] by (simp add: mod_mod_cancel)
  have buf: "take (?s mod 256) (acts_buf (ab_acts ab)) = take (?s mod 256) (concat (map act_bytes (ab_acts ab)))"
    "?s mod 256 \<le> length (acts_buf (ab_acts ab))"
    using mod_less_eq_dividend[of ?s 256] by (simp_all add: acts_buf_def acts_size_def)
  from message_decodes[where fl = fl and data = "acts_buf (ab_acts ab)" and sc = "if length actions > 1 then 0 else ab_shortcut ab"]
    f(1,4) len u k act4 buf msg
  obtain m where m: "msg = Some m" "decode_rule m = (fl_unmasked_data fl, fl_mask_data fl,
      take (?s mod 256) (concat (map act_bytes (ab_acts ab))))" by auto
  have "flow_mask_id fl = mid" using u f(1,5) by (simp add: flow_mask_id_def)
  moreover have "?s < 256 \<Longrightarrow> take (?s mod 256) (concat (map act_bytes (ab_acts ab))) = concat (map act_bytes (ab_acts ab))"
    by (simp add: acts_size_def)
  ultimately show ?thesis using ls ab t m u k parse_acts_bytes[of "ab_acts ab"] by auto
qed

section \<open>Tunnel addresses of the installed rules\<close>

text \<open>The addresses of the installed rules, as the deletion of a rule gives them back.\<close>

definition rule_addresses :: "nfp_flower_priv \<Rightarrow> u32 multiset" where
  "rule_addresses priv = filter_mset (\<lambda>a. a \<noteq> 0) (mset (map fl_nfp_tun_ipv4_addr (fp_flow_table priv)))"

text \<open>
  Rules come and go, devices and neighbours change, allocations fail. The label of a step is the
  address for which a rule was added without memory for an entry of the address list: the code
  installs such a rule with its address, which it has not counted.
\<close>

definition entry_lost :: "rule_env \<Rightarrow> tc_cls_flower \<Rightarrow> u32 multiset" where
  "entry_lost re flow = (if re_ip_mem re then {#} else {#ff_enc_ipv4_dst (fw_key flow)#})"

inductive rule_step :: "jhash_fn \<Rightarrow> u32 multiset \<Rightarrow> flower_state \<Rightarrow> flower_state \<Rightarrow> bool" for jhash where
  add_rule: "flower_add_rule jhash re flow actions cookie st = Some (r, st') \<Longrightarrow> rule_step jhash (entry_lost re flow) st st'"
| del_rule: "flower_del_rule jhash env skb_mem ip_skb cookie st = Some (err, st') \<Longrightarrow> rule_step jhash {#} st st'"
| stats: "nfp_flower_get_stats cookie priv = (r, priv') \<Longrightarrow> rule_step jhash {#} (priv, tun) (priv', tun)"
| mac_event: "ida_ok ida \<Longrightarrow> nfp_tun_mac_event_handler ida m event netdev tun = Some tun' \<Longrightarrow>
    rule_step jhash {#} (priv, tun) (priv, tun')"
| neigh: "rule_step jhash {#} (priv, tun) (priv, nfp_tun_neigh_event_handler route mem skb nevent n tun)"

text \<open>Runs, with the number of their steps and the addresses lost on the way.\<close>

inductive rule_run :: "jhash_fn \<Rightarrow> flower_state \<Rightarrow> nat \<Rightarrow> u32 multiset \<Rightarrow> flower_state \<Rightarrow> bool" for jhash st0 where
  start: "rule_run jhash st0 0 {#} st0"
| step: "rule_run jhash st0 n L st \<Longrightarrow> rule_step jhash l st st' \<Longrightarrow> rule_run jhash st0 (Suc n) (L + l) st'"

definition flower_tun_inv :: "jhash_fn \<Rightarrow> nat \<Rightarrow> u32 multiset \<Rightarrow> flower_state \<Rightarrow> bool" where
  "flower_tun_inv jhash n L st \<longleftrightarrow> flower_inv jhash (fst st) \<and> tun_inv (snd st) \<and> tun_size n (snd st) \<and>
     rule_addresses (fst st) \<subseteq># ipv4_uses (ts_ipv4_off_list (snd st)) + L"

text \<open>What adding a rule does to the tunnel state: nothing, or the address of the match is added.\<close>

lemma match_effects:
  assumes "match_tunnel_effects re mr tun = Some tun'" "tun_inv tun" "tun_size n tun" "n < 2 ^ 28"
  shows "tun_inv tun' \<and> tun_size (Suc n) tun' \<and> ipv4_uses (ts_ipv4_off_list tun) \<subseteq># ipv4_uses (ts_ipv4_off_list tun') \<and>
    ipv4_uses (ts_ipv4_off_list tun') =
    (case mr_tun mr of None \<Rightarrow> ipv4_uses (ts_ipv4_off_list tun)
     | Some d \<Rightarrow> if d \<in># ipv4_uses (ts_ipv4_off_list tun) \<or> re_ip_mem re then add_mset d (ipv4_uses (ts_ipv4_off_list tun))
                else ipv4_uses (ts_ipv4_off_list tun))"
proof (cases "mr_tun mr")
  case (Some d)
  have "length (ts_mac_off_list tun) < 2 ^ 28" using assms(3,4) by (simp add: tun_size_def)
  from tun_inv_write_macs[OF assms(2) this] obtain t1 where
    t1: "nfp_tunnel_write_macs (re_mac_mem re) (re_mac_skb re) tun = Some t1" "tun_inv t1"
      "ts_ipv4_off_list t1 = ts_ipv4_off_list tun" "length (ts_mac_off_list t1) \<le> length (ts_mac_off_list tun)" by blast
  have "size (ipv4_uses (ts_ipv4_off_list t1)) < 2 ^ 32 - 1" using t1(3) assms(3,4) by (simp add: tun_size_def)
  from tun_inv_add_ipv4[OF t1(2) this, of "re_ip_mem re" "re_ip_skb re" d] t1 Some assms(1,3)
  show ?thesis by (auto simp: match_tunnel_effects_def tun_size_def split: if_split_asm)
qed (use assms in \<open>simp add: match_tunnel_effects_def tun_size_mono[of n]\<close>)

lemma check_mask_remove_table: "nfp_check_mask_remove jhash env d n f priv = (r, p) \<Longrightarrow> fp_flow_table p = fp_flow_table priv"
  by (auto simp: nfp_check_mask_remove_def Let_def split: option.split_asm if_split_asm)

lemma release_stats_table: "release_stats x priv = (r, p) \<Longrightarrow> fp_flow_table p = fp_flow_table priv"
  by (auto simp: release_stats_def split: prod.split_asm)

lemma compile_metadata_table:
  "nfp_compile_flow_metadata jhash env j c fl priv = (r, p) \<Longrightarrow> fp_flow_table p = fp_flow_table priv"
  by (auto simp: nfp_compile_flow_metadata_def Let_def split: prod.split_asm if_split_asm option.split_asm
      dest!: check_mask_add_table check_mask_remove_table release_stats_table)

lemma add_offload_err:
  "nfp_flower_add_offload jhash env cookie priv = (e, p) \<Longrightarrow> e \<noteq> 0 \<Longrightarrow> fp_flow_table p = fp_flow_table priv"
  by (auto simp: nfp_flower_add_offload_def split: prod.split_asm if_split_asm dest: compile_metadata_table)

lemma add_rule_outcome:
  assumes "flower_add_rule jhash re flow actions cookie (priv, tun) = Some ((e, msg), priv', tun')"
  shows "(priv' = priv \<or> (\<exists>env. nfp_flower_add_offload jhash env cookie priv = (e, priv'))) \<and>
    (tun' = tun \<and> e \<noteq> 0 \<or> (\<exists>ls mr. nfp_flower_calculate_key_layers flow = Inr ls \<and>
      nfp_flower_compile_flow_match flow ls (re_is_repr re) (re_port_id re) = Some mr \<and>
      match_tunnel_effects re mr tun = Some tun'))"
  using assms key_layers_err[of flow]
  by (auto simp: flower_add_rule_def Let_def split: if_split_asm sum.split_asm option.split_asm prod.split_asm)

lemma add_rule_inv:
  assumes run: "flower_add_rule jhash re flow actions cookie (priv, tun) = Some ((e, msg), priv', tun')"
    and inv: "flower_tun_inv jhash n L (priv, tun)" and n: "n < 2 ^ 28"
  shows "flower_tun_inv jhash (Suc n) (L + entry_lost re flow) (priv', tun')"
proof -
  let ?uses = "\<lambda>t. ipv4_uses (ts_ipv4_off_list t)"
  have i: "flower_inv jhash priv" "tun_inv tun" "tun_size n tun" "rule_addresses priv \<subseteq># ?uses tun + L"
    using inv by (simp_all add: flower_tun_inv_def)
  note o = add_rule_outcome[OF run]
  have p: "flower_inv jhash priv'" using o i(1) add_inv by blast
  have tun: "tun_inv tun'" "tun_size (Suc n) tun'" and grows: "?uses tun \<subseteq># ?uses tun'"
    using o match_effects[OF _ i(2,3) n] i(2) tun_size_mono[OF i(3), of "Suc n"] by auto
  show ?thesis
  proof (cases "e = 0")
    case False
    then have "fp_flow_table priv' = fp_flow_table priv" using o add_offload_err by blast
    then have "rule_addresses priv' = rule_addresses priv" by (simp add: rule_addresses_def)
    also have "\<dots> \<subseteq># ?uses tun' + (L + entry_lost re flow)"
      using i(4) grows by (meson mset_subset_eq_add_left subset_mset.add_mono subset_mset.trans)
    finally show ?thesis using p tun by (simp add: flower_tun_inv_def)
  next
    case True
    from run[unfolded True] obtain ls fl where f: "nfp_flower_calculate_key_layers flow = Inr ls"
      "fp_flow_table priv' = fl # fp_flow_table priv"
      "fl_nfp_tun_ipv4_addr fl = (if kl_key_layer ls AND NFP_FLOWER_LAYER_VXLAN \<noteq> 0 \<and> re_is_repr re
         then ff_enc_ipv4_dst (fw_key flow) else 0)" by (rule add_rule_ok)
    obtain mr where mr: "nfp_flower_compile_flow_match flow ls (re_is_repr re) (re_port_id re) = Some mr"
      "match_tunnel_effects re mr tun = Some tun'"
      using o True f(1) by auto
    let ?a = "ff_enc_ipv4_dst (fw_key flow)" and ?t = "kl_key_layer ls AND NFP_FLOWER_LAYER_VXLAN \<noteq> 0 \<and> re_is_repr re"
    have "mr_tun mr = (if ?t then Some ?a else None)"
      using match_fills_key[OF f(1), of "re_is_repr re" "re_port_id re"] mr(1) by auto
    then have counted: "?t \<Longrightarrow> add_mset ?a (?uses tun) \<subseteq># ?uses tun' + entry_lost re flow"
      using match_effects[OF mr(2) i(2,3) n] by (auto simp: entry_lost_def)
    have "rule_addresses priv' = (if ?t \<and> ?a \<noteq> 0 then add_mset ?a (rule_addresses priv) else rule_addresses priv)"
      by (simp add: rule_addresses_def f(2,3))
    also have "\<dots> \<subseteq># ?uses tun' + entry_lost re flow + L"
    proof (cases "?t \<and> ?a \<noteq> 0")
      case True
      have "add_mset ?a (rule_addresses priv) \<subseteq># add_mset ?a (?uses tun) + L" using i(4) by simp
      also have "\<dots> \<subseteq># ?uses tun' + entry_lost re flow + L" using counted True by simp
      finally show ?thesis by (simp only: if_P[OF True])
    next
      case False
      have "rule_addresses priv \<subseteq># ?uses tun' + entry_lost re flow + L"
        using i(4) grows by (meson mset_subset_eq_add_left subset_mset.add_mono subset_mset.trans subset_mset.order_refl)
      then show ?thesis by (simp only: if_not_P[OF False])
    qed
    finally show ?thesis using p tun by (simp add: flower_tun_inv_def ac_simps)
  qed
qed

lemma del_rule_inv:
  assumes run: "flower_del_rule jhash env skb_mem ip_skb cookie (priv, tun) = Some (err, priv', tun')"
    and inv: "flower_tun_inv jhash n L (priv, tun)"
  shows "flower_tun_inv jhash (Suc n) L (priv', tun')"
proof (cases "nfp_flower_search_fl_table cookie priv")
  case None
  then show ?thesis using run inv tun_size_mono[of n tun "Suc n"] by (simp add: flower_del_rule_def flower_tun_inv_def)
next
  case (Some fl)
  let ?uses = "\<lambda>t. ipv4_uses (ts_ipv4_off_list t)"
  have i: "flower_inv jhash priv" "tun_inv tun" "tun_size n tun" "rule_addresses priv \<subseteq># ?uses tun + L"
    using inv by (simp_all add: flower_tun_inv_def)
  obtain e p where d: "nfp_flower_del_offload jhash env (if skb_mem then 0 else - ENOMEM) cookie priv = (e, p)" by force
  note del = del_inv[OF i(1) d Some]
  let ?a = "fl_nfp_tun_ipv4_addr fl"
  have m: "fst (fst (nfp_modify_flow_metadata jhash env fl priv)) = 0"
  proof (rule ccontr)
    let ?e = "fst (fst (nfp_modify_flow_metadata jhash env fl priv))"
    assume n: "?e \<noteq> 0"
    obtain x q where x: "nfp_flower_del_offload jhash env (?e + 1) cookie priv = (x, q)" by force
    have "x = ?e" using x n Some by (auto simp: nfp_flower_del_offload_def Let_def split: prod.split_asm)
    moreover have "x = ?e + 1" using del_inv[OF i(1) x Some] by blast
    ultimately show False by simp
  qed
  have r: "priv' = p" "(if ?a \<noteq> 0 then nfp_tunnel_del_ipv4_off ip_skb ?a tun else Some tun) = Some tun'"
    using run Some d m by (auto simp: flower_del_rule_def bind_eq_Some_conv)
  have "fl \<in> set (fp_flow_table priv)" using Some by (auto simp: nfp_flower_search_fl_table_def find_Some_iff)
  then have "mset (map fl_nfp_tun_ipv4_addr (fp_flow_table priv)) =
      add_mset ?a (mset (map fl_nfp_tun_ipv4_addr (remove1 fl (fp_flow_table priv))))"
    by (metis image_mset_add_mset in_multiset_in_set insert_DiffM mset_map mset_remove1)
  then have a: "rule_addresses priv = (if ?a \<noteq> 0 then {#?a#} else {#}) + rule_addresses priv'"
    using del r(1) by (simp add: rule_addresses_def)
  show ?thesis
  proof (cases "?a = 0")
    case True
    then show ?thesis using i del r a tun_size_mono[OF i(3), of "Suc n"] by (simp add: flower_tun_inv_def)
  next
    case False
    then have u: "?uses tun' = ?uses tun - {#?a#}" "tun_inv tun'" "ts_mac_off_list tun' = ts_mac_off_list tun"
      using r(2) tun_inv_del_ipv4[OF i(2), of ip_skb ?a] by auto
    then have s: "tun_size (Suc n) tun'"
      using i(3) size_Diff1_le[of "?uses tun" ?a] by (simp add: tun_size_def)
    have sub: "add_mset ?a (rule_addresses priv') \<subseteq># ?uses tun + L" using i(4) a False by simp
    have "rule_addresses priv' \<subseteq># (?uses tun - {#?a#}) + L"
    proof (cases "?a \<in># ?uses tun")
      case True
      then show ?thesis using sub by (simp add: insert_subset_eq_iff)
    next
      case False
      have "rule_addresses priv' \<subseteq># add_mset ?a (rule_addresses priv')" by simp
      then show ?thesis using sub False by (metis diff_single_trivial subset_mset.trans)
    qed
    then show ?thesis using u s del r(1) by (simp add: flower_tun_inv_def)
  qed
qed

lemma get_stats_inv:
  assumes run: "nfp_flower_get_stats cookie priv = (r, priv')" and inv: "flower_tun_inv jhash n L (priv, tun)"
  shows "flower_tun_inv jhash (Suc n) L (priv', tun)"
proof -
  have "flower_inv jhash priv'"
    by (rule flower_step_inv[OF flower_step.get_stats[OF run]]) (use inv in \<open>simp add: flower_tun_inv_def\<close>)
  moreover have "map fl_nfp_tun_ipv4_addr (fp_flow_table priv') = map fl_nfp_tun_ipv4_addr (fp_flow_table priv)"
    using run by (auto simp: nfp_flower_get_stats_def map_update_first split: option.split_asm)
  ultimately show ?thesis using inv tun_size_mono[of n tun "Suc n"] by (simp add: flower_tun_inv_def rule_addresses_def)
qed

lemma rule_step_inv:
  "rule_step jhash l st st' \<Longrightarrow> flower_tun_inv jhash n L st \<Longrightarrow> n < 2 ^ 28 - 1 \<Longrightarrow> flower_tun_inv jhash (Suc n) (L + l) st'"
proof (induction rule: rule_step.induct)
  case (add_rule re flow actions cookie st r st')
  obtain e msg where "r = (e, msg)" by force
  then show ?case
    using add_rule add_rule_inv[of jhash re flow actions cookie "fst st" "snd st" e msg "fst st'" "snd st'" n L] by simp
next
  case (del_rule env skb_mem ip_skb cookie st err st')
  then show ?case
    using del_rule_inv[of jhash env skb_mem ip_skb cookie "fst st" "snd st" err "fst st'" "snd st'" n L] by simp
next
  case (stats cookie priv r priv' tun)
  then show ?case using get_stats_inv by simp
next
  case (mac_event ida m event netdev tun tun' priv)
  then have "length (ts_mac_off_list tun) < 2 ^ 28 - 1" by (simp add: flower_tun_inv_def tun_size_def)
  then show ?case using mac_event tun_inv_mac_event[of ida tun m event netdev]
    by (auto simp: flower_tun_inv_def tun_size_def)
next
  case (neigh priv tun route mem skb nevent n)
  then show ?case by (auto simp: flower_tun_inv_def tun_size_def neigh_event_kept)
qed

lemma rule_run_inv:
  assumes "rule_run jhash st0 n L st" "flower_tun_inv jhash k {#} st0"
  shows "n + k < 2 ^ 28 \<Longrightarrow> flower_tun_inv jhash (n + k) L st"
  using assms
proof (induction rule: rule_run.induct)
  case (step n L st l st')
  then show ?case using rule_step_inv[OF step.hyps(2), of "n + k" L] by simp
qed simp

text \<open>
  Claim C19. The tunnel addresses of installed rules stay on the driver's list of addresses to offload,
  in every run of fewer than \<open>2 ^ 28\<close> events, whichever rules were added, refused or deleted in
  between and whatever allocations failed: the list counts each address at least as often as
  installed rules use it, apart from the rules that were added while there was no memory for
  an entry (the code installs them all the same). So the address of an installed tunnel rule
  is on the list unless, for that very address, the allocation of an entry was refused before.
\<close>

theorem tunnel_rules_keep_address:
  assumes "nfp_flower_metadata_init True True True seed mbuf last_used sbuf = Inr priv0"
    and "ida_ok ida" "nfp_tunnel_config_start ida err1 err2 netdevs tun00 = (err, tun0)"
    and "rule_run jhash (priv0, tun0) n L (priv, tun)" "n + length netdevs < 2 ^ 28"
  shows "rule_addresses priv \<subseteq># ipv4_uses (ts_ipv4_off_list tun) + L \<and>
    (\<forall>fl \<in> set (fp_flow_table priv). fl_nfp_tun_ipv4_addr fl \<noteq> 0 \<longrightarrow>
       fl_nfp_tun_ipv4_addr fl \<in> ie_ipv4_addr ` set (ts_ipv4_off_list tun) \<or> fl_nfp_tun_ipv4_addr fl \<in># L)"
proof -
  have "fp_flow_table priv0 = []" using assms(1) by (auto simp: nfp_flower_metadata_init_def)
  then have "flower_tun_inv jhash (length netdevs) {#} (priv0, tun0)"
    using metadata_init_inv[OF assms(1)] tun_inv_start[OF assms(2,3)] by (simp add: flower_tun_inv_def rule_addresses_def)
  from rule_run_inv[OF assms(4) this assms(5)]
  have sub: "rule_addresses priv \<subseteq># ipv4_uses (ts_ipv4_off_list tun) + L" and ok: "ipv4_ok (ts_ipv4_off_list tun)"
    by (simp_all add: flower_tun_inv_def tun_inv_def)
  have "fl_nfp_tun_ipv4_addr fl \<in># ipv4_uses (ts_ipv4_off_list tun) + L"
    if "fl \<in> set (fp_flow_table priv)" "fl_nfp_tun_ipv4_addr fl \<noteq> 0" for fl
    by (rule mset_subset_eqD[OF sub]) (use that in \<open>simp add: rule_addresses_def\<close>)
  with sub show ?thesis using set_ipv4_uses[OF ok] by auto
qed

text \<open>
  A refused rule does not give its address back: when the match of a tunnel rule compiles and
  its actions are refused, the rule is not installed but its address is counted once more, so
  the address stays offloaded after the last rule that uses it is gone.
\<close>

theorem flower_add_leaks_address:
  assumes "nfp_flower_calculate_key_layers flow = Inr ls" "kl_key_layer ls AND NFP_FLOWER_LAYER_VXLAN \<noteq> 0"
    and "re_key_mem re" "re_flow_mem re" "re_is_repr re" "re_ip_mem re"
    and "actions_spec (re_devs re) actions (no_acts (re_sc re)) = None"
    and "tun_inv tun" "length (ts_mac_off_list tun) < 2 ^ 28" "size (ipv4_uses (ts_ipv4_off_list tun)) < 2 ^ 32 - 1"
  shows "\<exists>tun'. flower_add_rule jhash re flow actions cookie (priv, tun) = Some ((- EOPNOTSUPP, None), priv, tun') \<and>
    ipv4_uses (ts_ipv4_off_list tun') = add_mset (ff_enc_ipv4_dst (fw_key flow)) (ipv4_uses (ts_ipv4_off_list tun))"
proof -
  obtain mr where m: "nfp_flower_compile_flow_match flow ls True (re_port_id re) = Some mr" "mr_err mr = 0"
    "mr_tun mr = Some (ff_enc_ipv4_dst (fw_key flow))"
    using match_fills_key[OF assms(1), of True "re_port_id re"] assms(2) by auto
  obtain t1 where t1: "nfp_tunnel_write_macs (re_mac_mem re) (re_mac_skb re) tun = Some t1" "tun_inv t1"
    "ts_ipv4_off_list t1 = ts_ipv4_off_list tun"
    using tun_inv_write_macs[OF assms(8,9)] by blast
  have "size (ipv4_uses (ts_ipv4_off_list t1)) < 2 ^ 32 - 1" unfolding t1(3) by (rule assms(10))
  from tun_inv_add_ipv4[OF t1(2) this, of True "re_ip_skb re" "ff_enc_ipv4_dst (fw_key flow)"]
  obtain tun' where t: "match_tunnel_effects re mr tun = Some tun'"
    "ipv4_uses (ts_ipv4_off_list tun') = add_mset (ff_enc_ipv4_dst (fw_key flow)) (ipv4_uses (ts_ipv4_off_list tun))"
    using m(3) t1(1,3) assms(6) by (auto simp: match_tunnel_effects_def)
  have "nfp_flower_compile_action (re_devs re) actions (re_sc re) = Some (Inl (- EOPNOTSUPP))"
    using actions_refine[of "re_devs re" actions "re_sc re"] assms(7) by simp
  then have "flower_add_rule jhash re flow actions cookie (priv, tun) = Some ((- EOPNOTSUPP, None), priv, tun')"
    using assms(1,3-6) m t(1) by (simp add: flower_add_rule_def nfp_flower_allocate_new_def)
  with t(2) show ?thesis by blast
qed

text \<open>
  A rule for which there was no memory for an entry is installed with its address, and its deletion
  takes one use away from the address all the same: after the next rule with the address was
  added, deleting the first one takes the address of the second off the list.
\<close>

lemma lost_entry_drops_other:
  assumes "ipv4_ok (ts_ipv4_off_list tun)" "a \<notin> ie_ipv4_addr ` set (ts_ipv4_off_list tun)"
  shows "nfp_tunnel_add_ipv4_off False k a tun = Some tun \<and>
    (\<exists>tun1 tun2. nfp_tunnel_add_ipv4_off True k a tun = Some tun1 \<and> a \<in> ie_ipv4_addr ` set (ts_ipv4_off_list tun1) \<and>
       nfp_tunnel_del_ipv4_off k' a tun1 = Some tun2 \<and> a \<notin> ie_ipv4_addr ` set (ts_ipv4_off_list tun2))"
proof -
  let ?e = "\<lparr>ie_ipv4_addr = a, ie_ref_count = 1\<rparr>"
  have "del_ipv4 a (es @ [?e]) = es" if "a \<notin> ie_ipv4_addr ` set es" for es
    using that by (induction es) auto
  then show ?thesis using assms(2)
    by (auto simp: nfp_tunnel_add_ipv4_off_def nfp_tunnel_del_ipv4_off_def write_ipv4_list image_iff)
qed

section \<open>Evaluations\<close>

definition empty_tun :: tun_state where
  "empty_tun = \<lparr>ts_mac_off_list = [], ts_mac_off_count = 0, ts_mac_index_list = [], ts_mac_off_ids = [],
     ts_ipv4_off_list = [], ts_neigh_off_list = [], ts_sent = []\<rparr>"

definition sample_devs :: dev_table where
  "sample_devs i = (if i = 1 then Some \<lparr>od_kind = None, od_same_parent = True, od_port_id = 0x10000001\<rparr> else None)"

definition sample_re :: rule_env where
  "sample_re = \<lparr>re_key_mem = True, re_flow_mem = True, re_skb_mem = True, re_raw = sample_payload 0, re_sc = 0,
     re_masks = sample_masks, re_jiffies = 7, re_devs = sample_devs, re_is_repr = True, re_port_id = 0x10000002,
     re_mac_mem = True, re_mac_skb = True, re_ip_mem = True, re_ip_skb = True\<rparr>"

lemma empty_tun_start: "nfp_tunnel_config_start lowest_free 0 0 [] empty_tun = (0, empty_tun)"
  by (simp add: nfp_tunnel_config_start_def empty_tun_def)

lemma empty_tun_inv: "tun_inv empty_tun"
  using tun_inv_start[OF lowest_free_ok empty_tun_start] by blast

lemma sample_add_any:
  "fst (nfp_flower_add_offload sample_jhash \<lparr>fo_key_mem = True, fo_key_err = 0, fo_flow_mem = True, fo_match_err = 0,
     fo_action_err = 0, fo_payload = pay, fo_xmit_err = 0, fo_masks = sample_masks, fo_jiffies = j\<rparr> c sample_priv) = 0"
  by (simp add: flower_ops sample_defs Let_def)

lemma sample_spec:
  "actions_spec (re_devs sample_re) [Mirred_redirect 1] (no_acts (re_sc sample_re)) =
     Some ((no_acts 0)\<lparr>ab_acts := [Act_output 0x8000 0x10000001], ab_shortcut := 0x10000001\<rparr>)"
  by (simp add: sample_re_def sample_devs_def no_acts_def output_spec_def add_act_def)

lemma sample_added:
  "\<exists>msg priv' tun'. flower_add_rule sample_jhash sample_re sample_rule [Mirred_redirect 1] 10 (sample_priv, empty_tun) =
     Some ((0, msg), priv', tun')"
proof -
  let ?ls = "\<lparr>kl_key_layer_two = 0, kl_key_layer = 0x9e, kl_key_size = 60\<rparr> :: nfp_fl_key_ls" and ?re = sample_re
  let ?d = "if kl_key_layer ?ls AND NFP_FLOWER_LAYER_VXLAN \<noteq> 0 \<and> re_is_repr ?re then Some (ff_enc_ipv4_dst (fw_key sample_rule)) else None"
  let ?mr = "\<lparr>mr_err = 0, mr_off = nat (kl_key_size ?ls), mr_unmasked = match_frames sample_rule (kl_key_layer ?ls) (re_port_id ?re) False,
       mr_mask = match_frames sample_rule (kl_key_layer ?ls) (re_port_id ?re) True, mr_tun = ?d\<rparr>"
  have "length (ts_mac_off_list empty_tun) < 2 ^ 28" by (simp add: empty_tun_def)
  from tun_inv_write_macs[OF empty_tun_inv this]
  obtain t1 where t1: "nfp_tunnel_write_macs True True empty_tun = Some t1" by blast
  obtain tun' where t: "match_tunnel_effects ?re ?mr empty_tun = Some tun'"
    using t1 add_ipv4_inside[of True True "ff_enc_ipv4_dst (fw_key sample_rule)" t1]
    by (auto simp: match_tunnel_effects_def sample_re_def)
  obtain raw where raw: "nfp_flower_allocate_new ?re ?ls = Some raw"
    by (simp add: nfp_flower_allocate_new_def sample_re_def)
  have mem: "re_key_mem ?re" by (simp add: sample_re_def)
  have "fst (nfp_flower_add_offload sample_jhash \<lparr>fo_key_mem = True, fo_key_err = 0, fo_flow_mem = True, fo_match_err = 0,
     fo_action_err = 0, fo_payload = pay, fo_xmit_err = (if re_skb_mem ?re then 0 else - ENOMEM), fo_masks = re_masks ?re,
     fo_jiffies = re_jiffies ?re\<rparr> 10 sample_priv) = 0" for pay
    using sample_add_any[of pay 7 10] by (simp add: sample_re_def)
  with add_rule_ends[OF sample_rule_layers mem raw t refl, where actions = "[Mirred_redirect 1]" and jhash = sample_jhash
      and cookie = 10 and priv = sample_priv] sample_spec
  obtain r p where "flower_add_rule sample_jhash ?re sample_rule [Mirred_redirect 1] 10 (sample_priv, empty_tun) = Some (r, p, tun')"
    "fst r = 0" by auto
  then show ?thesis by (metis prod.collapse)
qed

lemma flower_rule_reaches_firmware_witness:
  "\<exists>m. \<exists>priv' tun'. flower_add_rule sample_jhash sample_re sample_rule [Mirred_redirect 1] 10 (sample_priv, empty_tun) =
     Some ((0, Some m), priv', tun') \<and> parse_acts (snd (snd (decode_rule m))) = [(0, be16 0x8000 @ be32 0x10000001)]"
proof -
  obtain msg priv' tun' where a: "flower_add_rule sample_jhash sample_re sample_rule [Mirred_redirect 1] 10 (sample_priv, empty_tun) =
     Some ((0, msg), priv', tun')" using sample_added by blast
  from flower_rule_reaches_firmware[OF a] sample_spec obtain m where "msg = Some m"
    "parse_acts (snd (snd (decode_rule m))) = [(0, be16 0x8000 @ be32 0x10000001)]"
    by (auto simp: no_acts_def case_prod_beta)
  then show ?thesis using a by blast
qed

lemma flower_add_rule_safe_witness:
  "flower_add_rule sample_jhash sample_re sample_rule (replicate 200 Vlan_pop) 10 (sample_priv, empty_tun) \<noteq> None"
  by (rule flower_add_rule_safe) (simp_all add: empty_tun_def)

lemma tunnel_rules_keep_address_witness:
  "\<exists>msg priv' tun'. flower_add_rule sample_jhash sample_re sample_rule [Mirred_redirect 1] 10 (sample_priv, empty_tun) =
     Some ((0, msg), priv', tun') \<and> rule_addresses priv' \<subseteq># ipv4_uses (ts_ipv4_off_list tun')"
proof -
  obtain msg priv' tun' where a: "flower_add_rule sample_jhash sample_re sample_rule [Mirred_redirect 1] 10 (sample_priv, empty_tun) =
     Some ((0, msg), priv', tun')" using sample_added by blast
  have "rule_run sample_jhash (sample_priv, empty_tun) (Suc 0) ({#} + entry_lost sample_re sample_rule) (priv', tun')"
    by (rule rule_run.step[OF rule_run.start rule_step.add_rule[OF a]])
  then have "rule_run sample_jhash (sample_priv, empty_tun) 1 {#} (priv', tun')" by (simp add: entry_lost_def sample_re_def)
  from tunnel_rules_keep_address[OF sample_init lowest_free_ok empty_tun_start this] a show ?thesis by auto
qed

lemma flower_add_leaks_address_witness:
  "\<exists>tun'. flower_add_rule sample_jhash sample_re sample_rule [Other_action] 10 (sample_priv, empty_tun) =
     Some ((- EOPNOTSUPP, None), sample_priv, tun') \<and> ipv4_uses (ts_ipv4_off_list tun') = {#0x0a010101#}"
proof -
  have "actions_spec (re_devs sample_re) [Other_action] (no_acts (re_sc sample_re)) = None" by simp
  from flower_add_leaks_address[OF sample_rule_layers _ _ _ _ _ this empty_tun_inv, of sample_jhash 10 sample_priv]
  show ?thesis by (simp add: sample_re_def empty_tun_def sample_rule_def sample_fields_def)
qed

end
