(* ===== verification/Entl_Alo.thy ===== *)
theory Entl_Alo
  imports Nfp_Prelude
begin

text \<open>
  Atomic link operations (\<open>entl_libs/atomic_link_op.c\<close>): one end of a link initiates an
  operation on one of its 32 registers, the other end executes it on one of its own, and both
  commit when the acknowledgements come back. The four functions, an abstract table of what an
  operation does to the two registers, and the refinement between them.
\<close>

unbundle bit_operations_syntax

section \<open>Registers and opcodes\<close>

record alo_regs =
  ao_reg :: "u64 list"
  ao_result_buffer :: u64
  ao_return_value :: u64
  ao_return_flag :: u32
  ao_flags :: u32
  ao_state :: u32

definition ALO_OPCODE :: "u64 \<Rightarrow> u16" where
  "ALO_OPCODE x = ucast (drop_bit 16 x AND 0xffff)"

definition ALO_DT :: "u64 \<Rightarrow> u16" where
  "ALO_DT x = ucast (drop_bit 36 x AND 0x1f)"

definition ALO_TYPE :: "u16 \<Rightarrow> u16" where
  "ALO_TYPE x = drop_bit 12 x AND 0xf"

abbreviation (input) ALO_NOP :: u16 where "ALO_NOP \<equiv> 0x0000"
abbreviation (input) ALO_ADD :: u16 where "ALO_ADD \<equiv> 0x0001"
abbreviation (input) ALO_SUBS :: u16 where "ALO_SUBS \<equiv> 0x0002"
abbreviation (input) ALO_SUBD :: u16 where "ALO_SUBD \<equiv> 0x0003"
abbreviation (input) ALO_AND :: u16 where "ALO_AND \<equiv> 0x0004"
abbreviation (input) ALO_OR :: u16 where "ALO_OR \<equiv> 0x0005"
abbreviation (input) ALO_INC :: u16 where "ALO_INC \<equiv> 0x0006"
abbreviation (input) ALO_DEC :: u16 where "ALO_DEC \<equiv> 0x0007"
abbreviation (input) ALO_INCS :: u16 where "ALO_INCS \<equiv> 0x0008"
abbreviation (input) ALO_INCD :: u16 where "ALO_INCD \<equiv> 0x0009"
abbreviation (input) ALO_DECS :: u16 where "ALO_DECS \<equiv> 0x000a"
abbreviation (input) ALO_DECD :: u16 where "ALO_DECD \<equiv> 0x000b"
abbreviation (input) ALO_RD :: u16 where "ALO_RD \<equiv> 0x1000"
abbreviation (input) ALO_WR :: u16 where "ALO_WR \<equiv> 0x2000"
abbreviation (input) ALO_SWAP :: u16 where "ALO_SWAP \<equiv> 0x3000"
abbreviation (input) ALO_BSET :: u16 where "ALO_BSET \<equiv> 0x4000"
abbreviation (input) ALO_BRESET :: u16 where "ALO_BRESET \<equiv> 0x5000"
abbreviation (input) ALO_BTESTSET :: u16 where "ALO_BTESTSET \<equiv> 0x6000"
abbreviation (input) ALO_BTESTRESET :: u16 where "ALO_BTESTRESET \<equiv> 0x7000"
abbreviation (input) ALO_COND_MASK :: u16 where "ALO_COND_MASK \<equiv> 0x000f"
abbreviation (input) ALO_COND_OP_MASK :: u16 where "ALO_COND_OP_MASK \<equiv> 0xf000"
abbreviation (input) ALO_BIT_MASK :: u16 where "ALO_BIT_MASK \<equiv> 0x003f"

text \<open>
  The state word of a pending operation: bit 31 says that the result buffer is to be
  committed, bit 30 that the value sent back is, the low bits name the register.
\<close>

abbreviation (input) KEEP_RESULT :: u32 where "KEEP_RESULT \<equiv> 0x80000000"
abbreviation (input) TAKE_RETURN :: u32 where "TAKE_RETURN \<equiv> 0x40000000"

definition alo_bit :: "u16 \<Rightarrow> u64" where
  "alo_bit opcode = push_bit (unat (opcode AND ALO_BIT_MASK)) 1"

definition alo_regs_init :: "alo_regs \<Rightarrow> alo_regs" where
  "alo_regs_init alr = alr\<lparr>ao_reg := replicate 32 0, ao_result_buffer := 0, ao_flags := 0, ao_state := 0\<rparr>"

section \<open>The initiating end\<close>

text \<open>
  The result is (success, the value for the other end); \<open>s_value\<close> is what the caller's
  buffer holds, which the bit operations leave alone.
\<close>

definition alo_initiate :: "alo_regs \<Rightarrow> u16 \<Rightarrow> u16 \<Rightarrow> u64 \<Rightarrow> (bool \<times> u64) \<times> alo_regs" where
  "alo_initiate alr opcode sr s_value =
     (let type = ALO_TYPE opcode; r = ao_reg alr ! unat sr;
          take = ((True, r), alr\<lparr>ao_state := TAKE_RETURN OR ucast sr\<rparr>);
          keep = (\<lambda>v buf. ((True, v), alr\<lparr>ao_result_buffer := buf, ao_state := KEEP_RESULT OR ucast sr\<rparr>));
          fail = ((False, s_value), alr\<lparr>ao_state := 0\<rparr>)
      in if type = 0 then
           (if opcode = ALO_NOP then fail
            else if opcode \<in> {ALO_ADD, ALO_SUBS, ALO_SUBD, ALO_AND, ALO_OR} then take
            else if opcode = ALO_INC then keep (r + 1) (r + 1)
            else if opcode = ALO_DEC then keep (r - 1) (r - 1)
            else if opcode = ALO_INCS then keep (r + 1) (r + 1)
            else if opcode = ALO_INCD then take
            else if opcode = ALO_DECS then keep (r - 1) (r - 1)
            else if opcode = ALO_DECD then take
            else fail)
         else if type \<ge> 1 \<and> type \<le> 3 then
           (let op = opcode AND ALO_COND_OP_MASK in
            if op = ALO_RD then take
            else if op = ALO_WR then ((True, r), alr\<lparr>ao_state := 0\<rparr>)
            else if op = ALO_SWAP then take
            else ((False, s_value), alr))
         else if type \<le> 7 then
           (let op = opcode AND ALO_COND_OP_MASK; b = alo_bit opcode in
            if op = ALO_BSET then keep s_value (r OR b)
            else if op = ALO_BRESET then keep s_value (if r AND b \<noteq> 0 then r XOR b else r)
            else if op = ALO_BTESTSET then (if r AND b = 0 then keep s_value (r OR b) else fail)
            else if op = ALO_BTESTRESET then (if r AND b \<noteq> 0 then keep s_value (r XOR b) else fail)
            else ((False, s_value), alr))
         else fail)"

text \<open>Committing a value to a register, with the flags: valid, zero, changed register.\<close>

definition alo_commit :: "u16 \<Rightarrow> u64 \<Rightarrow> alo_regs \<Rightarrow> alo_regs" where
  "alo_commit rg v alr =
     alr\<lparr>ao_reg := (ao_reg alr)[unat rg := v],
         ao_flags := (if v = 0 then ao_flags alr OR 0x2 else ao_flags alr AND 0xfffffffd)\<rparr>"

definition alo_mark_change :: "u16 \<Rightarrow> alo_regs \<Rightarrow> alo_regs" where
  "alo_mark_change rg alr =
     alr\<lparr>ao_flags := (ao_flags alr AND 0x00ffffff) OR (0x80000000 OR push_bit 26 (ucast rg)),
         ao_state := 0\<rparr>"

definition alo_complete :: "alo_regs \<Rightarrow> u16 \<Rightarrow> u64 \<Rightarrow> u16 \<times> alo_regs" where
  "alo_complete alr status r_value =
     (if ao_state alr \<noteq> 0 \<and> status AND 1 \<noteq> 0 then
        let sr = ucast (ao_state alr AND 0x1f);
            alr = alr\<lparr>ao_flags := ao_flags alr OR 1\<rparr>;
            alr = (if ao_state alr AND KEEP_RESULT \<noteq> 0 then alo_commit sr (ao_result_buffer alr) alr
                   else if ao_state alr AND TAKE_RETURN \<noteq> 0 then alo_commit sr r_value alr
                   else alr)
        in (1, alo_mark_change sr alr)
      else (status, alr\<lparr>ao_state := 0\<rparr>))"

section \<open>The executing end\<close>

definition alo_cond :: "u16 \<Rightarrow> u64 \<Rightarrow> u64 \<Rightarrow> bool" where
  "alo_cond cond d s =
     (if cond = 0 then True
      else if cond = 1 then d = s
      else if cond = 2 then d < s
      else if cond = 3 then d \<le> s
      else if cond = 4 then d > s
      else if cond = 5 then d \<ge> s
      else False)"

definition alo_exec :: "alo_regs \<Rightarrow> u16 \<Rightarrow> u16 \<Rightarrow> u64 \<Rightarrow> bool \<times> alo_regs" where
  "alo_exec alr opcode dt s_value =
     (let type = ALO_TYPE opcode; d = ao_reg alr ! unat dt;
          done = (\<lambda>ret buf. (True, alr\<lparr>ao_result_buffer := buf, ao_return_value := ret,
                    ao_return_flag := 1, ao_state := KEEP_RESULT OR ucast dt\<rparr>));
          fail = (False, alr\<lparr>ao_return_flag := 0, ao_state := 0\<rparr>)
      in if type = 0 then
           (if opcode = ALO_NOP then fail
            else if opcode = ALO_ADD then done (s_value + d) (s_value + d)
            else if opcode = ALO_SUBS then done (d - s_value) (d - s_value)
            else if opcode = ALO_SUBD then done (s_value - d) (s_value - d)
            else if opcode = ALO_AND then done (s_value AND d) (s_value AND d)
            else if opcode = ALO_OR then done (s_value OR d) (s_value OR d)
            else if opcode = ALO_INC then done (d + 1) (d + 1)
            else if opcode = ALO_DEC then done (d - 1) (d - 1)
            else if opcode = ALO_INCS then done s_value s_value
            else if opcode = ALO_INCD then done (d + 1) (d + 1)
            else if opcode = ALO_DECS then done s_value s_value
            else if opcode = ALO_DECD then done (d - 1) (d - 1)
            else fail)
         else if type \<ge> 1 \<and> type \<le> 3 then
           (if \<not> alo_cond (opcode AND ALO_COND_MASK) d s_value then fail
            else let op = opcode AND ALO_COND_OP_MASK in
            if op = ALO_RD then
              (True, alr\<lparr>ao_return_value := d, ao_return_flag := 1, ao_state := 0\<rparr>)
            else if op = ALO_WR then done s_value s_value
            else if op = ALO_SWAP then done d s_value
            else (True, alr\<lparr>ao_return_flag := 0\<rparr>))
         else if type \<le> 7 then
           (let op = opcode AND ALO_COND_OP_MASK; b = alo_bit opcode;
                bad = (False, alr\<lparr>ao_return_value := s_value, ao_return_flag := 0, ao_state := 0\<rparr>) in
            if op = ALO_BSET then done s_value (d OR b)
            else if op = ALO_BRESET then done s_value (if d AND b \<noteq> 0 then d XOR b else d)
            else if op = ALO_BTESTSET then (if d AND b = 0 then done s_value (d OR b) else bad)
            else if op = ALO_BTESTRESET then (if d AND b \<noteq> 0 then done s_value (d XOR b) else bad)
            else (False, alr\<lparr>ao_return_flag := 0\<rparr>))
         else fail)"

definition alo_state :: "alo_regs \<Rightarrow> int" where
  "alo_state alr = (if ao_state alr \<noteq> 0 then 1 else 0)"

definition alo_update :: "alo_regs \<Rightarrow> u16 \<Rightarrow> int \<times> alo_regs" where
  "alo_update alr status =
     (if ao_state alr \<noteq> 0 \<and> status AND 1 \<noteq> 0 then
        let dt = ucast (ao_state alr AND 0x1f)
        in (1, alo_mark_change dt (alo_commit dt (ao_result_buffer alr) (alr\<lparr>ao_flags := ao_flags alr OR 1\<rparr>)))
      else (0, alr\<lparr>ao_flags := ao_flags alr AND 0x00ffffff, ao_state := 0\<rparr>))"

section \<open>What an operation does\<close>

text \<open>
  The table of the operations on the two registers \<open>r\<close> (initiating end) and \<open>d\<close> (executing
  end): the new values of both, or \<open>None\<close> when the operation is refused.
\<close>

definition alo_sem :: "u16 \<Rightarrow> u64 \<Rightarrow> u64 \<Rightarrow> (u64 \<times> u64) option" where
  "alo_sem opcode r d =
     (let type = ALO_TYPE opcode; b = alo_bit opcode in
      if type = 0 then
        (if opcode = ALO_ADD then Some (r + d, r + d)
         else if opcode = ALO_SUBS then Some (d - r, d - r)
         else if opcode = ALO_SUBD then Some (r - d, r - d)
         else if opcode = ALO_AND then Some (r AND d, r AND d)
         else if opcode = ALO_OR then Some (r OR d, r OR d)
         else if opcode = ALO_INC then Some (r + 1, d + 1)
         else if opcode = ALO_DEC then Some (r - 1, d - 1)
         else if opcode = ALO_INCS then Some (r + 1, r + 1)
         else if opcode = ALO_INCD then Some (d + 1, d + 1)
         else if opcode = ALO_DECS then Some (r - 1, r - 1)
         else if opcode = ALO_DECD then Some (d - 1, d - 1)
         else None)
      else if type = 1 then (if alo_cond (opcode AND ALO_COND_MASK) d r then Some (d, d) else None)
      else if type = 2 then (if alo_cond (opcode AND ALO_COND_MASK) d r then Some (r, r) else None)
      else if type = 3 then (if alo_cond (opcode AND ALO_COND_MASK) d r then Some (d, r) else None)
      else if type = 4 then Some (r OR b, d OR b)
      else if type = 5 then Some (r AND NOT b, d AND NOT b)
      else if type = 6 then (if r AND b = 0 \<and> d AND b = 0 then Some (r OR b, d OR b) else None)
      else if type = 7 then (if r AND b \<noteq> 0 \<and> d AND b \<noteq> 0 then Some (r AND NOT b, d AND NOT b) else None)
      else None)"

text \<open>
  The four functions in the order the two ends of the link call them: initiate, execute,
  complete with the returned flag and value, and update with the final acknowledgement
  (whose T flag is always set).
\<close>

definition alo_run :: "alo_regs \<Rightarrow> alo_regs \<Rightarrow> u16 \<Rightarrow> u16 \<Rightarrow> u16 \<Rightarrow> u64 \<Rightarrow> alo_regs \<times> alo_regs" where
  "alo_run a1 a2 opcode sr dt buf =
     (case alo_initiate a1 opcode sr buf of ((ok, s_value), a1) \<Rightarrow>
        if \<not> ok then (a1, a2)
        else case alo_exec a2 opcode dt s_value of (_, a2) \<Rightarrow>
          case alo_complete a1 (ucast (ao_return_flag a2)) (ao_return_value a2) of (_, a1) \<Rightarrow>
            (a1, snd (alo_update a2 1)))"

section \<open>Facts on the state word\<close>

lemma mask_5: "(0x1f :: u32) = mask 5"
  by (simp add: mask_eq_exp_minus_1)

lemma bit_single: "bit (push_bit m (1 :: 'a::len word)) n \<longleftrightarrow> n = m \<and> n < LENGTH('a)"
  by (subst bit_push_bit_iff) (auto simp: bit_1_iff)

lemma bit_keep: "bit KEEP_RESULT n \<longleftrightarrow> n = 31"
proof -
  have "KEEP_RESULT = push_bit 31 1" by (simp add: push_bit_eq_mult)
  then have "bit KEEP_RESULT n \<longleftrightarrow> n = 31 \<and> n < LENGTH(32)" by (simp only: bit_single)
  then show ?thesis by auto
qed

lemma bit_take: "bit TAKE_RETURN n \<longleftrightarrow> n = 30"
proof -
  have "TAKE_RETURN = push_bit 30 1" by (simp add: push_bit_eq_mult)
  then have "bit TAKE_RETURN n \<longleftrightarrow> n = 30 \<and> n < LENGTH(32)" by (simp only: bit_single)
  then show ?thesis by auto
qed

lemma bit_reg_index:
  assumes "unat (sr :: u16) < 32" and "bit sr n"
  shows "n < 5"
proof -
  have "sr < 32" using assms(1) by (simp add: word_less_nat_alt)
  then have "uint sr < uint (32 :: u16)" by (simp only: word_less_def)
  then have "uint sr < 2 ^ 5" by simp
  then have "take_bit 5 (uint sr) = uint sr" by (intro take_bit_int_eq_self) simp_all
  moreover have "bit (uint sr) n"
    using assms(2) bit_imp_le_length[OF assms(2)] by (simp add: bit_uint_iff)
  ultimately have "bit (take_bit 5 (uint sr)) n" by simp
  then show ?thesis by (simp only: bit_take_bit_iff)
qed

lemma pending_reg:
  assumes "unat (sr :: u16) < 32"
  shows "ucast ((KEEP_RESULT OR ucast sr :: u32) AND 0x1f) = sr"
    and "ucast ((TAKE_RETURN OR ucast sr :: u32) AND 0x1f) = sr"
  using bit_reg_index[OF assms]
  by (auto intro!: bit_word_eqI
      simp: mask_5 bit_ucast_iff bit_and_iff bit_or_iff bit_mask_iff bit_keep bit_take
      simp del: bit_numeral_word_iff)

lemma pending_bits:
  "(KEEP_RESULT OR w :: u32) \<noteq> 0" "(TAKE_RETURN OR w :: u32) \<noteq> 0"
  "(KEEP_RESULT OR w :: u32) AND KEEP_RESULT \<noteq> 0"
  "(TAKE_RETURN OR w :: u32) AND TAKE_RETURN \<noteq> 0"
proof -
  have "bit (KEEP_RESULT OR w :: u32) 31" "bit ((KEEP_RESULT OR w :: u32) AND KEEP_RESULT) 31"
    "bit (TAKE_RETURN OR w :: u32) 30" "bit ((TAKE_RETURN OR w :: u32) AND TAKE_RETURN) 30"
    by (simp_all add: bit_or_iff bit_and_iff bit_keep bit_take)
  then show "(KEEP_RESULT OR w :: u32) \<noteq> 0" "(TAKE_RETURN OR w :: u32) \<noteq> 0"
    "(KEEP_RESULT OR w :: u32) AND KEEP_RESULT \<noteq> 0" "(TAKE_RETURN OR w :: u32) AND TAKE_RETURN \<noteq> 0"
    by (metis bit_0_eq bot_apply bot_bool_def)+
qed

lemma take_not_keep:
  assumes "unat (sr :: u16) < 32"
  shows "(TAKE_RETURN OR ucast sr :: u32) AND KEEP_RESULT = 0"
  using bit_reg_index[OF assms, of 31]
  by (intro bit_word_eqI)
    (auto simp: bit_and_iff bit_or_iff bit_keep bit_take bit_ucast_iff simp del: bit_numeral_word_iff)

lemma bit_alo_bit: "bit (alo_bit op) k \<longleftrightarrow> k = unat (op AND ALO_BIT_MASK) \<and> k < 64"
  unfolding alo_bit_def by (subst bit_single) simp

lemma clear_bit: "r AND alo_bit op \<noteq> 0 \<Longrightarrow> r XOR alo_bit op = r AND NOT (alo_bit op)"
  "r AND alo_bit op = 0 \<Longrightarrow> r AND NOT (alo_bit op) = r"
proof -
  assume "r AND alo_bit op \<noteq> 0"
  then obtain k where "bit r k" "bit (alo_bit op) k" by (auto simp: bit_eq_iff bit_and_iff)
  then show "r XOR alo_bit op = r AND NOT (alo_bit op)"
    by (intro bit_word_eqI) (auto simp: bit_and_iff bit_xor_iff bit_not_iff bit_alo_bit)
next
  assume a: "r AND alo_bit op = 0"
  show "r AND NOT (alo_bit op) = r"
  proof (rule bit_word_eqI)
    fix n assume "n < LENGTH(64)"
    have "\<not> (bit r n \<and> bit (alo_bit op) n)" using a by (metis bit_and_iff bit_0_eq bot_apply bot_bool_def)
    with \<open>n < LENGTH(64)\<close> show "bit (r AND NOT (alo_bit op)) n = bit r n" by (auto simp: bit_and_iff bit_not_iff)
  qed
qed

section \<open>The operation is what the table says\<close>

lemma alo_type_masks:
  "ALO_TYPE opcode = 1 \<Longrightarrow> opcode AND 0xf000 = 0x1000"
  "ALO_TYPE opcode = 2 \<Longrightarrow> opcode AND 0xf000 = 0x2000"
  "ALO_TYPE opcode = 3 \<Longrightarrow> opcode AND 0xf000 = 0x3000"
  "ALO_TYPE opcode = 4 \<Longrightarrow> opcode AND 0xf000 = 0x4000"
  "ALO_TYPE opcode = 5 \<Longrightarrow> opcode AND 0xf000 = 0x5000"
  "ALO_TYPE opcode = 6 \<Longrightarrow> opcode AND 0xf000 = 0x6000"
  "ALO_TYPE opcode = 7 \<Longrightarrow> opcode AND 0xf000 = 0x7000"
proof -
  have "opcode AND 0xf000 = push_bit 12 (ALO_TYPE opcode)" for opcode
  proof (rule bit_word_eqI)
    fix n assume n: "n < LENGTH(16)"
    have m: "(0xf000 :: u16) = push_bit 12 (mask 4)" "(0xf :: u16) = mask 4"
      by (simp_all add: mask_eq_exp_minus_1 push_bit_eq_mult)
    show "bit (opcode AND 0xf000) n = bit (push_bit 12 (ALO_TYPE opcode)) n"
      unfolding ALO_TYPE_def m using n
      by (auto simp: bit_and_iff bit_push_bit_iff bit_drop_bit_eq bit_mask_iff)
  qed
  note m = this
  show "ALO_TYPE opcode = 1 \<Longrightarrow> opcode AND 0xf000 = 0x1000"
    "ALO_TYPE opcode = 2 \<Longrightarrow> opcode AND 0xf000 = 0x2000"
    "ALO_TYPE opcode = 3 \<Longrightarrow> opcode AND 0xf000 = 0x3000"
    "ALO_TYPE opcode = 4 \<Longrightarrow> opcode AND 0xf000 = 0x4000"
    "ALO_TYPE opcode = 5 \<Longrightarrow> opcode AND 0xf000 = 0x5000"
    "ALO_TYPE opcode = 6 \<Longrightarrow> opcode AND 0xf000 = 0x6000"
    "ALO_TYPE opcode = 7 \<Longrightarrow> opcode AND 0xf000 = 0x7000"
    by (simp_all add: m push_bit_eq_mult)
qed

lemma alo_type_small:
  assumes "(t :: u16) \<le> 7"
  shows "t = 0 \<or> t = 1 \<or> t = 2 \<or> t = 3 \<or> t = 4 \<or> t = 5 \<or> t = 6 \<or> t = 7"
proof -
  have "unat t \<le> 7" using assms by (simp add: word_le_nat_alt)
  then have "unat t \<in> {0,1,2,3,4,5,6,7}" by auto
  then show ?thesis by (simp add: word_unat_eq_iff)
qed

lemmas alo_pending = pending_reg pending_bits take_not_keep

text \<open>What each of the four functions leaves of the registers, by the kind of pending state.\<close>

lemma alo_complete_keep:
  assumes "unat (sr :: u16) < 32" "ao_state a = KEEP_RESULT OR ucast sr" "st AND 1 \<noteq> 0"
  shows "ao_reg (snd (alo_complete a st v)) = (ao_reg a)[unat sr := ao_result_buffer a]"
  using assms by (simp add: alo_complete_def alo_commit_def alo_mark_change_def Let_def alo_pending)

lemma alo_complete_take:
  assumes "unat (sr :: u16) < 32" "ao_state a = TAKE_RETURN OR ucast sr" "st AND 1 \<noteq> 0"
  shows "ao_reg (snd (alo_complete a st v)) = (ao_reg a)[unat sr := v]"
  using assms by (simp add: alo_complete_def alo_commit_def alo_mark_change_def Let_def alo_pending)

lemma alo_complete_idle:
  assumes "ao_state a = 0 \<or> st AND 1 = 0"
  shows "ao_reg (snd (alo_complete a st v)) = ao_reg a"
  using assms by (auto simp: alo_complete_def)

lemma alo_update_keep:
  assumes "unat (dt :: u16) < 32" "ao_state a = KEEP_RESULT OR ucast dt"
  shows "ao_reg (snd (alo_update a 1)) = (ao_reg a)[unat dt := ao_result_buffer a]"
  using assms by (simp add: alo_update_def alo_commit_def alo_mark_change_def Let_def alo_pending)

lemma alo_update_idle:
  assumes "ao_state a = 0"
  shows "ao_reg (snd (alo_update a st)) = ao_reg a"
  using assms by (simp add: alo_update_def)

lemmas alo_ends = alo_complete_keep alo_complete_take alo_complete_idle alo_update_keep alo_update_idle

text \<open>The outcome of a run by the kinds of pending state its two ends leave.\<close>

abbreviation run_regs :: "alo_regs \<times> alo_regs \<Rightarrow> u64 list \<times> u64 list" where
  "run_regs \<equiv> map_prod ao_reg ao_reg"

lemma run_fail:
  assumes "alo_initiate a1 op sr buf = ((False, v), b1)" "ao_reg b1 = ao_reg a1"
  shows "run_regs (alo_run a1 a2 op sr dt buf) = (ao_reg a1, ao_reg a2)"
  using assms by (simp add: alo_run_def)

lemma run_refused:
  assumes "alo_initiate a1 op sr buf = ((True, v), b1)" "ao_reg b1 = ao_reg a1"
    and "alo_exec a2 op dt v = (ok, b2)" "ao_reg b2 = ao_reg a2" "ao_return_flag b2 = 0" "ao_state b2 = 0"
  shows "run_regs (alo_run a1 a2 op sr dt buf) = (ao_reg a1, ao_reg a2)"
  using assms by (simp add: alo_run_def alo_complete_idle alo_update_idle case_prod_beta)

lemma run_take:
  assumes "unat sr < 32" "unat dt < 32"
    and "alo_initiate a1 op sr buf = ((True, v), a1\<lparr>ao_state := TAKE_RETURN OR ucast sr\<rparr>)"
    and "alo_exec a2 op dt v = (True, a2\<lparr>ao_result_buffer := x, ao_return_value := y,
           ao_return_flag := 1, ao_state := KEEP_RESULT OR ucast dt\<rparr>)"
  shows "run_regs (alo_run a1 a2 op sr dt buf) = ((ao_reg a1)[unat sr := y], (ao_reg a2)[unat dt := x])"
  using assms by (simp add: alo_run_def alo_ends case_prod_beta)

lemma run_keep:
  assumes "unat sr < 32" "unat dt < 32"
    and "alo_initiate a1 op sr buf = ((True, v), a1\<lparr>ao_result_buffer := z, ao_state := KEEP_RESULT OR ucast sr\<rparr>)"
    and "alo_exec a2 op dt v = (True, a2\<lparr>ao_result_buffer := x, ao_return_value := y,
           ao_return_flag := 1, ao_state := KEEP_RESULT OR ucast dt\<rparr>)"
  shows "run_regs (alo_run a1 a2 op sr dt buf) = ((ao_reg a1)[unat sr := z], (ao_reg a2)[unat dt := x])"
  using assms by (simp add: alo_run_def alo_ends case_prod_beta)

lemma run_read:
  assumes "unat sr < 32"
    and "alo_initiate a1 op sr buf = ((True, v), a1\<lparr>ao_state := TAKE_RETURN OR ucast sr\<rparr>)"
    and "alo_exec a2 op dt v = (True, a2\<lparr>ao_return_value := y, ao_return_flag := 1, ao_state := 0\<rparr>)"
  shows "run_regs (alo_run a1 a2 op sr dt buf) = ((ao_reg a1)[unat sr := y], ao_reg a2)"
  using assms by (simp add: alo_run_def alo_ends case_prod_beta)

lemma run_write:
  assumes "unat dt < 32"
    and "alo_initiate a1 op sr buf = ((True, v), a1\<lparr>ao_state := 0\<rparr>)"
    and "alo_exec a2 op dt v = (True, a2\<lparr>ao_result_buffer := x, ao_return_value := y,
           ao_return_flag := 1, ao_state := KEEP_RESULT OR ucast dt\<rparr>)"
  shows "run_regs (alo_run a1 a2 op sr dt buf) = (ao_reg a1, (ao_reg a2)[unat dt := x])"
  using assms by (simp add: alo_run_def alo_ends case_prod_beta)

lemmas run_outcomes = run_fail run_refused run_read run_write

lemma alo_run_type0:
  assumes "unat sr < 32" "unat dt < 32" "ALO_TYPE op = 0"
  shows "run_regs (alo_run a1 a2 op sr dt buf) =
    (case alo_sem op (ao_reg a1 ! unat sr) (ao_reg a2 ! unat dt) of
       None \<Rightarrow> (ao_reg a1, ao_reg a2)
     | Some (r, d) \<Rightarrow> ((ao_reg a1)[unat sr := r], (ao_reg a2)[unat dt := d]))"
proof -
  let ?r = "ao_reg a1 ! unat sr" and ?d = "ao_reg a2 ! unat dt"
  note defs = alo_initiate_def alo_exec_def alo_sem_def Let_def
  note t = assms(3)
  consider "op \<in> {ALO_ADD, ALO_SUBS, ALO_SUBD, ALO_AND, ALO_OR, ALO_INCD, ALO_DECD}"
    | "op \<in> {ALO_INC, ALO_DEC, ALO_INCS, ALO_DECS}"
    | "op \<notin> {ALO_ADD, ALO_SUBS, ALO_SUBD, ALO_AND, ALO_OR, ALO_INCD, ALO_DECD,
            ALO_INC, ALO_DEC, ALO_INCS, ALO_DECS}" by blast
  then show ?thesis
  proof cases
    case 1
    obtain x where x: "alo_sem op ?r ?d = Some (x, x)"
      and e: "alo_exec a2 op dt ?r = (True, a2\<lparr>ao_result_buffer := x, ao_return_value := x,
           ao_return_flag := 1, ao_state := KEEP_RESULT OR ucast dt\<rparr>)"
      using 1 t by (elim insertE emptyE) (simp_all add: defs)
    have "alo_initiate a1 op sr buf = ((True, ?r), a1\<lparr>ao_state := TAKE_RETURN OR ucast sr\<rparr>)"
      using 1 t by (elim insertE emptyE) (simp_all add: defs)
    from run_take[OF assms(1,2) this e] show ?thesis by (simp add: x)
  next
    case 2
    obtain x y v z where x: "alo_sem op ?r ?d = Some (z, x)"
      and i: "alo_initiate a1 op sr buf =
           ((True, v), a1\<lparr>ao_result_buffer := z, ao_state := KEEP_RESULT OR ucast sr\<rparr>)"
      and e: "alo_exec a2 op dt v = (True, a2\<lparr>ao_result_buffer := x, ao_return_value := y,
           ao_return_flag := 1, ao_state := KEEP_RESULT OR ucast dt\<rparr>)"
      using 2 t by (elim insertE emptyE) (simp_all add: defs)
    from run_keep[OF assms(1,2) i e] show ?thesis by (simp add: x)
  next
    case 3
    have "alo_initiate a1 op sr buf = ((False, buf), a1\<lparr>ao_state := 0\<rparr>)" "alo_sem op ?r ?d = None"
      using 3 t by (simp_all add: defs)
    from run_fail[OF this(1)] this(2) show ?thesis by simp
  qed
qed

lemma alo_run_cond:
  assumes "unat sr < 32" "unat dt < 32" "ALO_TYPE op \<in> {1, 2, 3}"
  shows "run_regs (alo_run a1 a2 op sr dt buf) =
    (case alo_sem op (ao_reg a1 ! unat sr) (ao_reg a2 ! unat dt) of
       None \<Rightarrow> (ao_reg a1, ao_reg a2)
     | Some (r, d) \<Rightarrow> ((ao_reg a1)[unat sr := r], (ao_reg a2)[unat dt := d]))"
proof -
  let ?r = "ao_reg a1 ! unat sr" and ?d = "ao_reg a2 ! unat dt"
  let ?c = "alo_cond (op AND ALO_COND_MASK) ?d ?r"
  note defs = alo_initiate_def alo_exec_def alo_sem_def Let_def alo_type_masks
  have init: "\<exists>b1. alo_initiate a1 op sr buf = ((True, ?r), b1) \<and> ao_reg b1 = ao_reg a1"
    using assms(3) by (elim insertE emptyE) (simp_all add: defs)
  show ?thesis
  proof (cases ?c)
    case False
    from init obtain b1 where i: "alo_initiate a1 op sr buf = ((True, ?r), b1)" "ao_reg b1 = ao_reg a1"
      by blast
    have "alo_exec a2 op dt ?r = (False, a2\<lparr>ao_return_flag := 0, ao_state := 0\<rparr>)" "alo_sem op ?r ?d = None"
      using assms(3) False by (elim insertE emptyE; simp add: defs)+
    from run_refused[OF i this(1)] this(2) show ?thesis by simp
  next
    case True
    from assms(3) consider "ALO_TYPE op = 1" | "ALO_TYPE op = 2" | "ALO_TYPE op = 3" by blast
    then show ?thesis
    proof cases
      case 1
      have "alo_initiate a1 op sr buf = ((True, ?r), a1\<lparr>ao_state := TAKE_RETURN OR ucast sr\<rparr>)"
        "alo_exec a2 op dt ?r = (True, a2\<lparr>ao_return_value := ?d, ao_return_flag := 1, ao_state := 0\<rparr>)"
        "alo_sem op ?r ?d = Some (?d, ?d)"
        using 1 True by (simp_all add: defs)
      from run_read[OF assms(1) this(1,2)] this(3) show ?thesis by simp
    next
      case 2
      have "alo_initiate a1 op sr buf = ((True, ?r), a1\<lparr>ao_state := 0\<rparr>)"
        "alo_exec a2 op dt ?r = (True, a2\<lparr>ao_result_buffer := ?r, ao_return_value := ?r,
           ao_return_flag := 1, ao_state := KEEP_RESULT OR ucast dt\<rparr>)"
        "alo_sem op ?r ?d = Some (?r, ?r)"
        using 2 True by (simp_all add: defs)
      from run_write[OF assms(2) this(1,2)] this(3) show ?thesis by simp
    next
      case 3
      have "alo_initiate a1 op sr buf = ((True, ?r), a1\<lparr>ao_state := TAKE_RETURN OR ucast sr\<rparr>)"
        "alo_exec a2 op dt ?r = (True, a2\<lparr>ao_result_buffer := ?r, ao_return_value := ?d,
           ao_return_flag := 1, ao_state := KEEP_RESULT OR ucast dt\<rparr>)"
        "alo_sem op ?r ?d = Some (?d, ?r)"
        using 3 True by (simp_all add: defs)
      from run_take[OF assms(1,2) this(1,2)] this(3) show ?thesis by simp
    qed
  qed
qed

lemma alo_run_bitop:
  assumes "unat sr < 32" "unat dt < 32" "ALO_TYPE op \<in> {4, 5, 6, 7}"
  shows "run_regs (alo_run a1 a2 op sr dt buf) =
    (case alo_sem op (ao_reg a1 ! unat sr) (ao_reg a2 ! unat dt) of
       None \<Rightarrow> (ao_reg a1, ao_reg a2)
     | Some (r, d) \<Rightarrow> ((ao_reg a1)[unat sr := r], (ao_reg a2)[unat dt := d]))"
proof -
  let ?r = "ao_reg a1 ! unat sr" and ?d = "ao_reg a2 ! unat dt"
  note defs = alo_initiate_def alo_exec_def alo_sem_def Let_def alo_type_masks clear_bit
  let ?b = "alo_bit op"
  have clr: "(if r AND ?b \<noteq> 0 then r XOR ?b else r) = r AND NOT ?b" for r
    by (simp add: clear_bit)
  from assms(3) consider (set) "ALO_TYPE op = 4" | (reset) "ALO_TYPE op = 5"
    | (ts_refused) "ALO_TYPE op = 6" "?r AND ?b \<noteq> 0"
    | (ts_bad) "ALO_TYPE op = 6" "?r AND ?b = 0" "?d AND ?b \<noteq> 0"
    | (ts) "ALO_TYPE op = 6" "?r AND ?b = 0" "?d AND ?b = 0"
    | (tr_refused) "ALO_TYPE op = 7" "?r AND ?b = 0"
    | (tr_bad) "ALO_TYPE op = 7" "?r AND ?b \<noteq> 0" "?d AND ?b = 0"
    | (tr) "ALO_TYPE op = 7" "?r AND ?b \<noteq> 0" "?d AND ?b \<noteq> 0" by blast
  then show ?thesis
  proof cases
    case set
    have "alo_initiate a1 op sr buf = ((True, buf), a1\<lparr>ao_result_buffer := ?r OR ?b, ao_state := KEEP_RESULT OR ucast sr\<rparr>)"
      "alo_exec a2 op dt buf = (True, a2\<lparr>ao_result_buffer := ?d OR ?b, ao_return_value := buf,
         ao_return_flag := 1, ao_state := KEEP_RESULT OR ucast dt\<rparr>)"
      "alo_sem op ?r ?d = Some (?r OR ?b, ?d OR ?b)"
      using set by (simp_all add: defs)
    from run_keep[OF assms(1,2) this(1,2)] this(3) show ?thesis by simp
  next
    case reset
      have "alo_initiate a1 op sr buf = ((True, buf), a1\<lparr>ao_result_buffer := ?r AND NOT ?b, ao_state := KEEP_RESULT OR ucast sr\<rparr>)"
        "alo_exec a2 op dt buf = (True, a2\<lparr>ao_result_buffer := ?d AND NOT ?b, ao_return_value := buf,
           ao_return_flag := 1, ao_state := KEEP_RESULT OR ucast dt\<rparr>)"
        "alo_sem op ?r ?d = Some (?r AND NOT ?b, ?d AND NOT ?b)"
        using reset by (simp_all add: defs clr)
      from run_keep[OF assms(1,2) this(1,2)] this(3) show ?thesis by simp
  next
    case ts_refused
      have "alo_initiate a1 op sr buf = ((False, buf), a1\<lparr>ao_state := 0\<rparr>)" "alo_sem op ?r ?d = None"
        using ts_refused by (simp_all add: defs)
      from run_fail[OF this(1)] this(2) show ?thesis by simp
  next
    case ts_bad
      have "alo_initiate a1 op sr buf = ((True, buf), a1\<lparr>ao_result_buffer := ?r OR ?b, ao_state := KEEP_RESULT OR ucast sr\<rparr>)"
        "alo_exec a2 op dt buf = (False, a2\<lparr>ao_return_value := buf, ao_return_flag := 0, ao_state := 0\<rparr>)"
        "alo_sem op ?r ?d = None"
        using ts_bad by (simp_all add: defs)
      from run_refused[OF this(1) _ this(2)] this(3) show ?thesis by simp
  next
    case ts
      have "alo_initiate a1 op sr buf = ((True, buf), a1\<lparr>ao_result_buffer := ?r OR ?b, ao_state := KEEP_RESULT OR ucast sr\<rparr>)"
        "alo_exec a2 op dt buf = (True, a2\<lparr>ao_result_buffer := ?d OR ?b, ao_return_value := buf,
           ao_return_flag := 1, ao_state := KEEP_RESULT OR ucast dt\<rparr>)"
        "alo_sem op ?r ?d = Some (?r OR ?b, ?d OR ?b)"
        using ts by (simp_all add: defs)
      from run_keep[OF assms(1,2) this(1,2)] this(3) show ?thesis by simp
  next
    case tr_refused
      have "alo_initiate a1 op sr buf = ((False, buf), a1\<lparr>ao_state := 0\<rparr>)" "alo_sem op ?r ?d = None"
        using tr_refused by (simp_all add: defs)
      from run_fail[OF this(1)] this(2) show ?thesis by simp
  next
    case tr_bad
      have "alo_initiate a1 op sr buf = ((True, buf), a1\<lparr>ao_result_buffer := ?r AND NOT ?b, ao_state := KEEP_RESULT OR ucast sr\<rparr>)"
        "alo_exec a2 op dt buf = (False, a2\<lparr>ao_return_value := buf, ao_return_flag := 0, ao_state := 0\<rparr>)"
        "alo_sem op ?r ?d = None"
        using tr_bad by (simp_all add: defs)
      from run_refused[OF this(1) _ this(2)] this(3) show ?thesis by simp
  next
    case tr
      have "alo_initiate a1 op sr buf = ((True, buf), a1\<lparr>ao_result_buffer := ?r AND NOT ?b, ao_state := KEEP_RESULT OR ucast sr\<rparr>)"
        "alo_exec a2 op dt buf = (True, a2\<lparr>ao_result_buffer := ?d AND NOT ?b, ao_return_value := buf,
           ao_return_flag := 1, ao_state := KEEP_RESULT OR ucast dt\<rparr>)"
        "alo_sem op ?r ?d = Some (?r AND NOT ?b, ?d AND NOT ?b)"
        using tr by (simp_all add: defs)
      from run_keep[OF assms(1,2) this(1,2)] this(3) show ?thesis by simp
  qed
qed

text \<open>
  Claim C5. Refinement: the four calls, one after the other, do to the two registers what the table
  of operations says, and a refused operation leaves both register files as they were:
  either both ends commit or neither does.
\<close>

theorem alo_run_refines:
  assumes "unat sr < 32" "unat dt < 32"
  shows "map_prod ao_reg ao_reg (alo_run a1 a2 op sr dt buf) =
    (case alo_sem op (ao_reg a1 ! unat sr) (ao_reg a2 ! unat dt) of
       None \<Rightarrow> (ao_reg a1, ao_reg a2)
     | Some (r, d) \<Rightarrow> ((ao_reg a1)[unat sr := r], (ao_reg a2)[unat dt := d]))"
proof (cases "ALO_TYPE op \<le> 7")
  case True
  from alo_type_small[OF True] consider "ALO_TYPE op = 0" | "ALO_TYPE op \<in> {1, 2, 3}" | "ALO_TYPE op \<in> {4, 5, 6, 7}"
    by blast
  then show ?thesis
    using alo_run_type0[OF assms] alo_run_cond[OF assms] alo_run_bitop[OF assms] by cases blast+
next
  case False
  then have "\<not> ALO_TYPE op \<in> {0, 1, 2, 3, 4, 5, 6, 7}" by auto
  moreover have "\<not> ALO_TYPE op \<le> 3"
  proof
    assume "ALO_TYPE op \<le> 3"
    also have "(3 :: u16) \<le> 7" by simp
    finally show False using False by simp
  qed
  ultimately have "alo_initiate a1 op sr buf = ((False, buf), a1\<lparr>ao_state := 0\<rparr>)"
    "alo_sem op (ao_reg a1 ! unat sr) (ao_reg a2 ! unat dt) = None"
    using False by (simp_all add: alo_initiate_def alo_sem_def Let_def)
  from run_fail[OF this(1)] this(2) show ?thesis by simp
qed

definition sample_regs :: "u64 \<Rightarrow> alo_regs" where
  "sample_regs v = \<lparr>ao_reg = (replicate 32 0)[3 := v, 5 := v + 1], ao_result_buffer = 0, ao_return_value = 0,
     ao_return_flag = 0, ao_flags = 0, ao_state = 0\<rparr>"

lemma alo_run_refines_witness:
  "map_prod ao_reg ao_reg (alo_run (sample_regs 7) (sample_regs 20) 0x0002 3 5 0)
     = ((replicate 32 0)[3 := 14, 5 := 8], (replicate 32 0)[3 := 20, 5 := 14])"
proof -
  have "map_prod ao_reg ao_reg (alo_run (sample_regs 7) (sample_regs 20) 0x0002 3 5 0) =
    (case alo_sem 0x0002 (ao_reg (sample_regs 7) ! unat (3 :: u16)) (ao_reg (sample_regs 20) ! unat (5 :: u16)) of
       None \<Rightarrow> (ao_reg (sample_regs 7), ao_reg (sample_regs 20))
     | Some (r, d) \<Rightarrow> ((ao_reg (sample_regs 7))[unat (3 :: u16) := r], (ao_reg (sample_regs 20))[unat (5 :: u16) := d]))"
    by (rule alo_run_refines) simp_all
  also have "\<dots> = ((replicate 32 0)[3 := 14, 5 := 8], (replicate 32 0)[3 := 20, 5 := 14])"
    by (simp add: alo_sem_def sample_regs_def ALO_TYPE_def Let_def list_update_swap[of 3 5])
  finally show ?thesis .
qed

end
