(* ===== verification/Entl_Machine.thy ===== *)
theory Entl_Machine
  imports Entl_Alo
begin

text \<open>
  The ENTL link state machine (\<open>entl_libs/entl_state_machine.c\<close>): one endpoint of a link.
  A message is a 48-bit MAC destination address (type, opcode and event number in its
  fields) with a 64-bit data word; \<open>entl_received\<close> and \<open>entl_next_send\<close> are the two entry
  points, one definition per \<open>case\<close> of their \<open>switch\<close>. The debug fields and printing of the
  source are left out.
\<close>

unbundle bit_operations_syntax

section \<open>Constants and fields\<close>

abbreviation (input) ENTL_STATE_IDLE :: u32 where "ENTL_STATE_IDLE \<equiv> 0"
abbreviation (input) ENTL_STATE_HELLO :: u32 where "ENTL_STATE_HELLO \<equiv> 1"
abbreviation (input) ENTL_STATE_WAIT :: u32 where "ENTL_STATE_WAIT \<equiv> 2"
abbreviation (input) ENTL_STATE_SEND :: u32 where "ENTL_STATE_SEND \<equiv> 3"
abbreviation (input) ENTL_STATE_RECEIVE :: u32 where "ENTL_STATE_RECEIVE \<equiv> 4"
abbreviation (input) ENTL_STATE_RA :: u32 where "ENTL_STATE_RA \<equiv> 5"
abbreviation (input) ENTL_STATE_SA :: u32 where "ENTL_STATE_SA \<equiv> 6"
abbreviation (input) ENTL_STATE_SB :: u32 where "ENTL_STATE_SB \<equiv> 7"
abbreviation (input) ENTL_STATE_RB :: u32 where "ENTL_STATE_RB \<equiv> 8"
abbreviation (input) ENTL_STATE_RAL :: u32 where "ENTL_STATE_RAL \<equiv> 9"
abbreviation (input) ENTL_STATE_SAL :: u32 where "ENTL_STATE_SAL \<equiv> 10"
abbreviation (input) ENTL_STATE_SBL :: u32 where "ENTL_STATE_SBL \<equiv> 11"
abbreviation (input) ENTL_STATE_RBL :: u32 where "ENTL_STATE_RBL \<equiv> 12"

abbreviation (input) ENTL_ACTION_NOP :: int where "ENTL_ACTION_NOP \<equiv> 0"
abbreviation (input) ENTL_ACTION_SEND :: int where "ENTL_ACTION_SEND \<equiv> 0x0001"
abbreviation (input) ENTL_ACTION_SEND_AIT :: int where "ENTL_ACTION_SEND_AIT \<equiv> 0x0002"
abbreviation (input) ENTL_ACTION_PROC_AIT :: int where "ENTL_ACTION_PROC_AIT \<equiv> 0x0004"
abbreviation (input) ENTL_ACTION_SIG_AIT :: int where "ENTL_ACTION_SIG_AIT \<equiv> 0x0008"
abbreviation (input) ENTL_ACTION_SEND_DAT :: int where "ENTL_ACTION_SEND_DAT \<equiv> 0x0010"
abbreviation (input) ENTL_ACTION_DROP_AIT :: int where "ENTL_ACTION_DROP_AIT \<equiv> 0x0080"
abbreviation (input) ENTL_ACTION_SEND_ALO :: int where "ENTL_ACTION_SEND_ALO \<equiv> 0x0100"
abbreviation (input) ENTL_ACTION_SEND_ALO_T :: int where "ENTL_ACTION_SEND_ALO_T \<equiv> 0x0200"
abbreviation (input) ENTL_ACTION_SEND_ALO_F :: int where "ENTL_ACTION_SEND_ALO_F \<equiv> 0x0400"
abbreviation (input) ENTL_ACTION_PROPAGATE_AIT :: int where "ENTL_ACTION_PROPAGATE_AIT \<equiv> 0x0800"
abbreviation (input) ENTL_ACTION_ERROR :: int where "ENTL_ACTION_ERROR \<equiv> -1"

abbreviation (input) ENTL_ERROR_FLAG_SEQUENCE :: u32 where "ENTL_ERROR_FLAG_SEQUENCE \<equiv> 0x0001"
abbreviation (input) ENTL_ERROR_UNKOWN_STATE :: u32 where "ENTL_ERROR_UNKOWN_STATE \<equiv> 0x0020"

abbreviation (input) ENTL_COUNT_MAX :: u32 where "ENTL_COUNT_MAX \<equiv> 10"
abbreviation (input) MAX_ENTT_QUEUE_SIZE :: int where "MAX_ENTT_QUEUE_SIZE \<equiv> 32"

abbreviation (input) ECLP_FW_MASK :: u64 where "ECLP_FW_MASK \<equiv> 0x800000000000"
abbreviation (input) ECLP_ETYPE_MASK :: u64 where "ECLP_ETYPE_MASK \<equiv> 0x001f00000000"
abbreviation (input) ECLP_VALUE_MASK :: u64 where "ECLP_VALUE_MASK \<equiv> 0x00000000ffff"

abbreviation (input) ENTL_ETYPE_NOP :: u64 where "ENTL_ETYPE_NOP \<equiv> 0x000000000000"
abbreviation (input) ENTL_ETYPE_HELLO :: u64 where "ENTL_ETYPE_HELLO \<equiv> 0x000100000000"
abbreviation (input) ENTL_ETYPE_ENTL :: u64 where "ENTL_ETYPE_ENTL \<equiv> 0x000200000000"
abbreviation (input) ENTL_ETYPE_AITS :: u64 where "ENTL_ETYPE_AITS \<equiv> 0x000300000000"
abbreviation (input) ENTL_ETYPE_AITR :: u64 where "ENTL_ETYPE_AITR \<equiv> 0x000400000000"
abbreviation (input) ENTL_ETYPE_AITA :: u64 where "ENTL_ETYPE_AITA \<equiv> 0x000500000000"

definition ECLP_VALUE_NEXT :: "u32 \<Rightarrow> u32" where
  "ECLP_VALUE_NEXT x = (x + 1) AND 0xffff"

definition ECLP_VALUE_PLUS2 :: "u32 \<Rightarrow> u32" where
  "ECLP_VALUE_PLUS2 x = (x + 2) AND 0xffff"

definition GET_ECLP_ETYPE :: "u64 \<Rightarrow> u64" where
  "GET_ECLP_ETYPE x = x AND ECLP_ETYPE_MASK"

definition GET_ECLP_VALUE :: "u64 \<Rightarrow> u64" where
  "GET_ECLP_VALUE x = x AND ECLP_VALUE_MASK"

definition ALO_COMMAND_OPCODE :: "u32 \<Rightarrow> u32" where
  "ALO_COMMAND_OPCODE x = x AND 0xffff"

definition ALO_COMMAND_DT :: "u32 \<Rightarrow> u32" where
  "ALO_COMMAND_DT x = drop_bit 16 x AND 0x1f"

definition ALO_COMMAND_SC :: "u32 \<Rightarrow> u32" where
  "ALO_COMMAND_SC x = drop_bit 21 x AND 0x1f"

definition ALO_COMMAND_FW :: "u32 \<Rightarrow> bool" where
  "ALO_COMMAND_FW x \<longleftrightarrow> x AND 0x80000000 \<noteq> 0"

definition SET_ECLP_ALO :: "u32 \<Rightarrow> u64" where
  "SET_ECLP_ALO x = push_bit 42 (ucast (ALO_COMMAND_SC x)) OR push_bit 37 (ucast (ALO_COMMAND_DT x))
     OR push_bit 16 (ucast (ALO_COMMAND_OPCODE x))"

section \<open>State\<close>

record entl_state =
  current_state :: u32
  event_i_know :: u32
  event_i_sent :: u32
  event_send_next :: u32

record entl_state_machine =
  em_state :: entl_state
  em_ao :: alo_regs
  em_error_state :: entl_state
  em_error_flag :: u32
  em_p_error_flag :: u32
  em_error_count :: u32
  em_state_count :: u32
  em_my_value :: u32
  em_credit :: u32

text \<open>
  The two builds of the source: on a host the random value comes from \<open>mt_urandom\<close> (the
  number drawn), on the micro-engine it is a constant.
\<close>

datatype platform = Netronome_host u32 | Netronome_me

definition entl_set_random :: "platform \<Rightarrow> entl_state_machine \<Rightarrow> entl_state_machine" where
  "entl_set_random pf mcn =
     mcn\<lparr>em_my_value := (case pf of Netronome_host r \<Rightarrow> r AND 0xffff | Netronome_me \<Rightarrow> 0xbeef)\<rparr>"

definition zero_state :: "u32 \<Rightarrow> entl_state" where
  "zero_state cs = \<lparr>current_state = cs, event_i_know = 0, event_i_sent = 0, event_send_next = 0\<rparr>"

definition entl_state_init :: "platform \<Rightarrow> entl_state_machine \<Rightarrow> entl_state_machine" where
  "entl_state_init pf mcn = entl_set_random pf
     (mcn\<lparr>em_error_flag := 0, em_p_error_flag := 0, em_error_count := 0, em_state_count := 0,
          em_state := zero_state 0, em_error_state := zero_state 0\<rparr>)"

definition entl_state_hello :: "platform \<Rightarrow> entl_state_machine \<Rightarrow> entl_state_machine" where
  "entl_state_hello pf mcn = entl_set_random pf
     (mcn\<lparr>em_state_count := 0, em_state := zero_state ENTL_STATE_HELLO,
          em_ao := alo_regs_init (em_ao mcn), em_credit := 0\<rparr>)"

definition set_error :: "u32 \<Rightarrow> entl_state_machine \<Rightarrow> entl_state_machine" where
  "set_error flag mcn =
     (if em_error_count mcn \<noteq> 0 then
        mcn\<lparr>em_p_error_flag := em_p_error_flag mcn OR flag, em_error_count := em_error_count mcn + 1\<rparr>
      else
        mcn\<lparr>em_error_flag := flag, em_error_count := em_error_count mcn + 1, em_error_state := em_state mcn\<rparr>)"

definition entl_state_error :: "u32 \<Rightarrow> entl_state_machine \<Rightarrow> entl_state_machine" where
  "entl_state_error flag mcn =
     (if em_error_flag mcn = 0 then
        mcn\<lparr>em_error_flag := flag, em_error_state := em_state mcn, em_error_count := em_error_count mcn + 1\<rparr>
      else
        mcn\<lparr>em_p_error_flag := em_p_error_flag mcn OR flag, em_error_count := em_error_count mcn + 1\<rparr>)"

definition is_ENTT_queue_full :: "int \<Rightarrow> bool" where
  "is_ENTT_queue_full queue_size \<longleftrightarrow> queue_size \<ge> MAX_ENTT_QUEUE_SIZE"

text \<open>
  Shared steps of the handlers: accepting the event number of a message and moving to a new
  state, and a sequence error that goes back to Hello.
\<close>

definition accept_event :: "u32 \<Rightarrow> u64 \<Rightarrow> entl_state_machine \<Rightarrow> entl_state_machine" where
  "accept_event cs d_addr mcn =
     (let v = ucast (GET_ECLP_VALUE d_addr) in
      mcn\<lparr>em_state := (em_state mcn)\<lparr>event_i_know := v, event_send_next := ECLP_VALUE_NEXT v,
                                     current_state := cs\<rparr>\<rparr>)"

definition sequence_error :: "platform \<Rightarrow> entl_state_machine \<Rightarrow> int \<times> entl_state_machine" where
  "sequence_error pf mcn = (ENTL_ACTION_ERROR, entl_state_hello pf (set_error ENTL_ERROR_FLAG_SEQUENCE mcn))"

definition expected :: "u64 \<Rightarrow> entl_state_machine \<Rightarrow> bool" where
  "expected d_addr mcn \<longleftrightarrow> ucast (ECLP_VALUE_PLUS2 (event_i_know (em_state mcn))) = GET_ECLP_VALUE d_addr"

definition repeated :: "u64 \<Rightarrow> entl_state_machine \<Rightarrow> bool" where
  "repeated d_addr mcn \<longleftrightarrow> ucast (event_i_know (em_state mcn)) = GET_ECLP_VALUE d_addr"

section \<open>Receiving\<close>

text \<open>One definition per state; the result is the action word and the machine.\<close>

definition entl_received_hello :: "platform \<Rightarrow> u64 \<Rightarrow> entl_state_machine \<Rightarrow> int \<times> entl_state_machine" where
  "entl_received_hello pf d_addr mcn =
     (if GET_ECLP_ETYPE d_addr = ENTL_ETYPE_HELLO then
        (if ucast (em_my_value mcn) > GET_ECLP_VALUE d_addr then
           (ENTL_ACTION_SEND, mcn\<lparr>em_state := zero_state ENTL_STATE_WAIT, em_state_count := 0\<rparr>)
         else if ucast (em_my_value mcn) = GET_ECLP_VALUE d_addr then
           (ENTL_ACTION_SEND, entl_set_random pf mcn)
         else (ENTL_ACTION_SEND, mcn))
      else if GET_ECLP_ETYPE d_addr = ENTL_ETYPE_ENTL then
        (if GET_ECLP_VALUE d_addr = 0 then
           (ENTL_ACTION_SEND, mcn\<lparr>em_state := (em_state mcn)\<lparr>event_i_know := 0, event_send_next := 1,
              current_state := ENTL_STATE_SEND\<rparr>\<rparr>)
         else (ENTL_ACTION_SEND, mcn))
      else (ENTL_ACTION_SEND, mcn))"

definition entl_received_wait :: "platform \<Rightarrow> u64 \<Rightarrow> entl_state_machine \<Rightarrow> int \<times> entl_state_machine" where
  "entl_received_wait pf d_addr mcn =
     (if GET_ECLP_ETYPE d_addr = ENTL_ETYPE_HELLO then
        let mcn = mcn\<lparr>em_state_count := em_state_count mcn + 1\<rparr> in
        if em_state_count mcn > ENTL_COUNT_MAX then (ENTL_ACTION_SEND, entl_state_hello pf mcn)
        else (ENTL_ACTION_NOP, mcn)
      else if GET_ECLP_ETYPE d_addr = ENTL_ETYPE_ENTL then
        (if GET_ECLP_VALUE d_addr = ucast (ECLP_VALUE_NEXT (event_i_sent (em_state mcn))) then
           (ENTL_ACTION_SEND, accept_event ENTL_STATE_SEND d_addr mcn)
         else (ENTL_ACTION_SEND, entl_state_hello pf mcn))
      else (ENTL_ACTION_SEND, entl_state_hello pf (set_error ENTL_ERROR_FLAG_SEQUENCE mcn)))"

definition entl_received_send :: "platform \<Rightarrow> u64 \<Rightarrow> entl_state_machine \<Rightarrow> int \<times> entl_state_machine" where
  "entl_received_send pf d_addr mcn =
     (if GET_ECLP_ETYPE d_addr = ENTL_ETYPE_ENTL then
        (if repeated d_addr mcn then (ENTL_ACTION_NOP, mcn)
         else (ENTL_ACTION_ERROR, set_error ENTL_ERROR_FLAG_SEQUENCE mcn))
      else sequence_error pf mcn)"

text \<open>The atomic link operation of an AITS message: executed, acknowledged as T or F.\<close>

definition entl_received_alo :: "u64 \<Rightarrow> u64 \<Rightarrow> entl_state_machine \<Rightarrow> int \<times> entl_state_machine" where
  "entl_received_alo d_addr s_value mcn =
     (case alo_exec (em_ao mcn) (ALO_OPCODE d_addr) (ALO_DT d_addr) s_value of (res, ao) \<Rightarrow>
        let mcn = mcn\<lparr>em_ao := ao, em_state := (em_state mcn)\<lparr>current_state := ENTL_STATE_SBL\<rparr>\<rparr> in
        if res then
          (ENTL_ACTION_SEND OR ENTL_ACTION_SEND_ALO_T
             OR (if d_addr AND ECLP_FW_MASK \<noteq> 0 then ENTL_ACTION_PROPAGATE_AIT else 0), mcn)
        else (ENTL_ACTION_SEND OR ENTL_ACTION_SEND_ALO_F, mcn))"

definition entl_received_receive ::
  "platform \<Rightarrow> u64 \<Rightarrow> u64 \<Rightarrow> u32 \<Rightarrow> u32 \<Rightarrow> entl_state_machine \<Rightarrow> int \<times> entl_state_machine" where
  "entl_received_receive pf d_addr s_value ait_queue egress_queue mcn =
     (if GET_ECLP_ETYPE d_addr = ENTL_ETYPE_ENTL then
        (if expected d_addr mcn then
           ((if ait_queue \<noteq> 0 then ENTL_ACTION_SEND OR ENTL_ACTION_SEND_AIT
             else if egress_queue \<noteq> 0 then ENTL_ACTION_SEND OR ENTL_ACTION_SEND_DAT
             else ENTL_ACTION_SEND),
            accept_event ENTL_STATE_SEND d_addr mcn)
         else if repeated d_addr mcn then (ENTL_ACTION_NOP, mcn)
         else sequence_error pf mcn)
      else if GET_ECLP_ETYPE d_addr = ENTL_ETYPE_AITS then
        (if expected d_addr mcn then
           let mcn = accept_event (current_state (em_state mcn)) d_addr mcn in
           if ALO_OPCODE d_addr = ALO_NOP then
             if is_ENTT_queue_full (sint ait_queue) then
               (ENTL_ACTION_SEND, mcn\<lparr>em_state := (em_state mcn)\<lparr>current_state := ENTL_STATE_SEND\<rparr>\<rparr>)
             else
               (ENTL_ACTION_SEND OR ENTL_ACTION_PROC_AIT
                  OR (if d_addr AND ECLP_FW_MASK \<noteq> 0 then ENTL_ACTION_PROPAGATE_AIT else 0),
                mcn\<lparr>em_state := (em_state mcn)\<lparr>current_state := ENTL_STATE_SB\<rparr>\<rparr>)
           else entl_received_alo d_addr s_value mcn
         else if repeated d_addr mcn then (ENTL_ACTION_NOP, mcn)
         else sequence_error pf mcn)
      else sequence_error pf mcn)"

definition entl_received_ra :: "platform \<Rightarrow> u64 \<Rightarrow> entl_state_machine \<Rightarrow> int \<times> entl_state_machine" where
  "entl_received_ra pf d_addr mcn =
     (if GET_ECLP_ETYPE d_addr = ENTL_ETYPE_AITR then
        (if expected d_addr mcn then (ENTL_ACTION_SEND, accept_event ENTL_STATE_SA d_addr mcn)
         else sequence_error pf mcn)
      else if GET_ECLP_ETYPE d_addr = ENTL_ETYPE_ENTL then
        (if expected d_addr mcn then (ENTL_ACTION_SEND, accept_event ENTL_STATE_SEND d_addr mcn)
         else sequence_error pf mcn)
      else sequence_error pf mcn)"

definition entl_received_ral :: "platform \<Rightarrow> u64 \<Rightarrow> u64 \<Rightarrow> entl_state_machine \<Rightarrow> int \<times> entl_state_machine" where
  "entl_received_ral pf d_addr s_value mcn =
     (if GET_ECLP_ETYPE d_addr = ENTL_ETYPE_AITR then
        (if expected d_addr mcn then
           let mcn = accept_event (current_state (em_state mcn)) d_addr mcn in
           case alo_complete (em_ao mcn) (ALO_OPCODE d_addr) s_value of (res, ao) \<Rightarrow>
             (ENTL_ACTION_SEND OR (if res \<noteq> 0 then ENTL_ACTION_SIG_AIT else 0),
              mcn\<lparr>em_ao := ao, em_state := (em_state mcn)\<lparr>current_state := ENTL_STATE_SAL\<rparr>\<rparr>)
         else sequence_error pf mcn)
      else sequence_error pf mcn)"

text \<open>The states SA and SAL share their case, and so do SB and SBL.\<close>

definition entl_received_sa :: "platform \<Rightarrow> u64 \<Rightarrow> entl_state_machine \<Rightarrow> int \<times> entl_state_machine" where
  "entl_received_sa pf d_addr mcn =
     (if GET_ECLP_ETYPE d_addr = ENTL_ETYPE_AITR then
        (if repeated d_addr mcn then (ENTL_ACTION_NOP, mcn) else sequence_error pf mcn)
      else sequence_error pf mcn)"

definition entl_received_sb :: "platform \<Rightarrow> u64 \<Rightarrow> entl_state_machine \<Rightarrow> int \<times> entl_state_machine" where
  "entl_received_sb pf d_addr mcn =
     (if GET_ECLP_ETYPE d_addr = ENTL_ETYPE_AITS then
        (if repeated d_addr mcn then (ENTL_ACTION_NOP, mcn) else sequence_error pf mcn)
      else sequence_error pf mcn)"

definition entl_received_rb :: "platform \<Rightarrow> u64 \<Rightarrow> entl_state_machine \<Rightarrow> int \<times> entl_state_machine" where
  "entl_received_rb pf d_addr mcn =
     (if GET_ECLP_ETYPE d_addr = ENTL_ETYPE_AITA then
        (if expected d_addr mcn then
           (ENTL_ACTION_SEND OR ENTL_ACTION_SIG_AIT, accept_event ENTL_STATE_SEND d_addr mcn)
         else sequence_error pf mcn)
      else if GET_ECLP_ETYPE d_addr = ENTL_ETYPE_AITS then
        (if repeated d_addr mcn then (ENTL_ACTION_NOP, mcn) else sequence_error pf mcn)
      else sequence_error pf mcn)"

definition entl_received_rbl :: "platform \<Rightarrow> u64 \<Rightarrow> entl_state_machine \<Rightarrow> int \<times> entl_state_machine" where
  "entl_received_rbl pf d_addr mcn =
     (if GET_ECLP_ETYPE d_addr = ENTL_ETYPE_AITA then
        (if expected d_addr mcn then
           (case alo_update (em_ao mcn) (ALO_OPCODE d_addr) of (ret, ao) \<Rightarrow>
              ((if ret \<noteq> 0 then ENTL_ACTION_SEND OR ENTL_ACTION_SIG_AIT else ENTL_ACTION_SEND),
               accept_event ENTL_STATE_SEND d_addr (mcn\<lparr>em_ao := ao\<rparr>)))
         else sequence_error pf mcn)
      else if GET_ECLP_ETYPE d_addr = ENTL_ETYPE_AITS then
        (if repeated d_addr mcn then (ENTL_ACTION_NOP, mcn) else sequence_error pf mcn)
      else sequence_error pf mcn)"

definition entl_received ::
  "platform \<Rightarrow> entl_state_machine \<Rightarrow> u64 \<Rightarrow> u64 \<Rightarrow> u32 \<Rightarrow> u32 \<Rightarrow> u32 \<Rightarrow> int \<times> entl_state_machine" where
  "entl_received pf mcn d_addr s_value ait_queue ait_command egress_queue =
     (if GET_ECLP_ETYPE d_addr = ENTL_ETYPE_NOP then
        ((if egress_queue \<noteq> 0 then ENTL_ACTION_SEND else ENTL_ACTION_NOP), mcn)
      else let cs = current_state (em_state mcn) in
        if cs = ENTL_STATE_IDLE then (ENTL_ACTION_NOP, mcn)
        else if cs = ENTL_STATE_HELLO then entl_received_hello pf d_addr mcn
        else if cs = ENTL_STATE_WAIT then entl_received_wait pf d_addr mcn
        else if cs = ENTL_STATE_SEND then entl_received_send pf d_addr mcn
        else if cs = ENTL_STATE_RECEIVE then
          entl_received_receive pf d_addr s_value ait_queue egress_queue mcn
        else if cs = ENTL_STATE_RA then entl_received_ra pf d_addr mcn
        else if cs = ENTL_STATE_RAL then entl_received_ral pf d_addr s_value mcn
        else if cs = ENTL_STATE_SA \<or> cs = ENTL_STATE_SAL then entl_received_sa pf d_addr mcn
        else if cs = ENTL_STATE_SB \<or> cs = ENTL_STATE_SBL then entl_received_sb pf d_addr mcn
        else if cs = ENTL_STATE_RB then entl_received_rb pf d_addr mcn
        else if cs = ENTL_STATE_RBL then entl_received_rbl pf d_addr mcn
        else (ENTL_ACTION_ERROR, entl_state_hello pf (set_error ENTL_ERROR_UNKOWN_STATE mcn)))"

section \<open>Sending\<close>

text \<open>
  The result is the action word, the address word and the data word of the message; the data
  word is what the caller's buffer held unless an operation writes it.
\<close>

definition next_event :: "u32 \<Rightarrow> entl_state_machine \<Rightarrow> entl_state_machine" where
  "next_event cs mcn =
     mcn\<lparr>em_state := (em_state mcn)\<lparr>event_i_sent := event_send_next (em_state mcn),
           event_send_next := ECLP_VALUE_PLUS2 (event_send_next (em_state mcn)), current_state := cs\<rparr>\<rparr>"

definition entl_next_send_send ::
  "entl_state_machine \<Rightarrow> u64 \<Rightarrow> u32 \<Rightarrow> u32 \<Rightarrow> (int \<times> u64 \<times> u64) \<times> entl_state_machine" where
  "entl_next_send_send mcn alo_data alo_command ait_queue =
     (let know = event_i_know (em_state mcn); sent = event_i_sent (em_state mcn);
          mcn = next_event ENTL_STATE_SEND mcn;
          go = (\<lambda>cs mcn. mcn\<lparr>em_state := (em_state mcn)\<lparr>current_state := cs\<rparr>\<rparr>);
          addr = ucast (event_i_sent (em_state mcn));
          fw = (if ALO_COMMAND_FW alo_command then ECLP_FW_MASK else 0)
      in if (know \<noteq> 0 \<or> sent \<noteq> 0) \<and> (ait_queue \<noteq> 0 \<or> ALO_COMMAND_OPCODE alo_command \<noteq> 0) then
           if ALO_COMMAND_OPCODE alo_command \<noteq> 0 then
             (case alo_initiate (em_ao mcn) (ucast (ALO_COMMAND_OPCODE alo_command))
                     (ucast (ALO_COMMAND_SC alo_command)) alo_data of ((ret, alo_data), ao) \<Rightarrow>
                let mcn = mcn\<lparr>em_ao := ao\<rparr> in
                if ret then
                  ((ENTL_ACTION_SEND OR ENTL_ACTION_SEND_ALO,
                    addr OR (ENTL_ETYPE_AITS OR SET_ECLP_ALO alo_command) OR fw, alo_data), go ENTL_STATE_RAL mcn)
                else if ait_queue \<noteq> 0 then
                  ((ENTL_ACTION_SEND OR ENTL_ACTION_SEND_AIT, addr OR ENTL_ETYPE_AITS OR fw, alo_data),
                   go ENTL_STATE_RA mcn)
                else ((ENTL_ACTION_NOP, ENTL_ETYPE_NOP, alo_data), mcn))
           else
             ((ENTL_ACTION_SEND OR ENTL_ACTION_SEND_AIT, addr OR ENTL_ETYPE_AITS, alo_data), go ENTL_STATE_RA mcn)
         else
           ((ENTL_ACTION_SEND OR ENTL_ACTION_SEND_DAT, addr OR ENTL_ETYPE_ENTL, alo_data),
            go ENTL_STATE_RECEIVE mcn))"

definition entl_next_send ::
  "entl_state_machine \<Rightarrow> u64 \<Rightarrow> u32 \<Rightarrow> u32 \<Rightarrow> (int \<times> u64 \<times> u64) \<times> entl_state_machine" where
  "entl_next_send mcn alo_data alo_command ait_queue =
     (let cs = current_state (em_state mcn); nop = ((ENTL_ACTION_NOP, ENTL_ETYPE_NOP, alo_data), mcn) in
      if em_error_count mcn \<noteq> 0 then nop
      else if cs = ENTL_STATE_IDLE then nop
      else if cs = ENTL_STATE_HELLO then
        ((ENTL_ACTION_SEND, ENTL_ETYPE_HELLO OR ucast (em_my_value mcn), alo_data), mcn)
      else if cs = ENTL_STATE_WAIT then ((ENTL_ACTION_SEND, ENTL_ETYPE_ENTL, alo_data), mcn)
      else if cs = ENTL_STATE_SEND then entl_next_send_send mcn alo_data alo_command ait_queue
      else if cs = ENTL_STATE_RECEIVE then nop
      else if cs = ENTL_STATE_RA \<or> cs = ENTL_STATE_RAL then nop
      else if cs = ENTL_STATE_SA then
        let mcn = next_event ENTL_STATE_RECEIVE mcn in
        ((ENTL_ACTION_SEND OR ENTL_ACTION_SIG_AIT OR ENTL_ACTION_DROP_AIT,
          ENTL_ETYPE_AITA OR ucast (event_i_sent (em_state mcn)), alo_data), mcn)
      else if cs = ENTL_STATE_SAL then
        let mcn = next_event ENTL_STATE_RECEIVE mcn in
        ((ENTL_ACTION_SEND OR ENTL_ACTION_SIG_AIT OR ENTL_ACTION_DROP_AIT,
          ENTL_ETYPE_AITA OR ucast (event_i_sent (em_state mcn)) OR 0x10000, alo_data), mcn)
      else if cs = ENTL_STATE_SB then
        let mcn = next_event ENTL_STATE_RB mcn in
        ((ENTL_ACTION_SEND, ENTL_ETYPE_AITR OR ucast (event_i_sent (em_state mcn)), alo_data), mcn)
      else if cs = ENTL_STATE_SBL then
        let mcn = next_event ENTL_STATE_RBL mcn in
        ((ENTL_ACTION_SEND OR ENTL_ACTION_SEND_ALO,
          ENTL_ETYPE_AITR OR ucast (event_i_sent (em_state mcn))
            OR push_bit 16 (ucast (ao_return_flag (em_ao mcn))), ao_return_value (em_ao mcn)), mcn)
      else nop)"

section \<open>The endpoint as a type\<close>

text \<open>
  Well-formed endpoints: a state of the protocol, 16-bit event numbers and value, 32 registers.
\<close>

definition endpoint_ok :: "entl_state_machine \<Rightarrow> bool" where
  "endpoint_ok mcn \<longleftrightarrow> current_state (em_state mcn) \<le> 12 \<and>
     event_i_know (em_state mcn) \<le> 0xffff \<and> event_i_sent (em_state mcn) \<le> 0xffff \<and>
     event_send_next (em_state mcn) \<le> 0xffff \<and> em_my_value mcn \<le> 0xffff \<and>
     length (ao_reg (em_ao mcn)) = 32"

lemma and_ffff_le: "(x :: u32) AND 0xffff \<le> 0xffff"
  by (rule word_and_le1)

lemma value_le: "(ucast (GET_ECLP_VALUE w) :: u32) \<le> 0xffff"
proof -
  have "(ucast (GET_ECLP_VALUE w) :: u32) = ucast (GET_ECLP_VALUE w) AND 0xffff"
    by (rule bit_word_eqI)
      (auto simp: GET_ECLP_VALUE_def bit_and_iff bit_ucast_iff mask_eq_exp_minus_1[of 16, symmetric])
  then show ?thesis by (metis and_ffff_le)
qed

lemma next_le: "ECLP_VALUE_NEXT x \<le> 0xffff" "ECLP_VALUE_PLUS2 x \<le> 0xffff"
  by (simp_all only: ECLP_VALUE_NEXT_def ECLP_VALUE_PLUS2_def and_ffff_le)

lemmas event_bounds = next_le and_ffff_le value_le

text \<open>A predicate that holds of both branches of an \<open>if\<close> holds of the \<open>if\<close>.\<close>

lemma pred_if: "P x \<Longrightarrow> P y \<Longrightarrow> P (if c then x else y)"
  by simp

definition regs_kept :: "alo_regs \<Rightarrow> 'b \<times> alo_regs \<Rightarrow> bool" where
  "regs_kept a r \<longleftrightarrow> length (ao_reg (snd r)) = length (ao_reg a)"

lemma alo_lengths:
  "regs_kept a (alo_initiate a op sr d)" "regs_kept a (alo_exec a op dt x)"
  "regs_kept a (alo_complete a st x)" "regs_kept a (alo_update a st)"
proof -
  show "regs_kept a (alo_initiate a op sr d)" "regs_kept a (alo_exec a op dt x)"
    unfolding alo_initiate_def alo_exec_def Let_def
    by (intro pred_if[of "regs_kept a"]; simp add: regs_kept_def)+
  show "regs_kept a (alo_complete a st x)" "regs_kept a (alo_update a st)"
    by (simp_all add: regs_kept_def alo_complete_def alo_update_def alo_commit_def alo_mark_change_def Let_def)
qed

lemma endpoint_ok_hello: "endpoint_ok mcn \<Longrightarrow> endpoint_ok (entl_state_hello pf mcn)"
  by (simp add: endpoint_ok_def entl_state_hello_def entl_set_random_def zero_state_def alo_regs_init_def
      and_ffff_le split: platform.split)

lemma endpoint_ok_random: "endpoint_ok mcn \<Longrightarrow> endpoint_ok (entl_set_random pf mcn)"
  by (simp add: endpoint_ok_def entl_set_random_def and_ffff_le split: platform.split)

lemma endpoint_ok_error: "endpoint_ok (set_error f mcn) = endpoint_ok mcn"
  by (simp add: endpoint_ok_def set_error_def)

lemma endpoint_ok_accept: "endpoint_ok mcn \<Longrightarrow> cs \<le> 12 \<Longrightarrow> endpoint_ok (accept_event cs w mcn)"
  by (simp add: endpoint_ok_def accept_event_def event_bounds Let_def)

lemma endpoint_ok_next: "endpoint_ok mcn \<Longrightarrow> cs \<le> 12 \<Longrightarrow> endpoint_ok (next_event cs mcn)"
  by (simp add: endpoint_ok_def next_event_def event_bounds)

lemma endpoint_ok_go:
  "endpoint_ok mcn \<Longrightarrow> cs \<le> 12 \<Longrightarrow> endpoint_ok (mcn\<lparr>em_state := (em_state mcn)\<lparr>current_state := cs\<rparr>\<rparr>)"
  by (simp add: endpoint_ok_def)

lemma endpoint_ok_ao:
  "endpoint_ok mcn \<Longrightarrow> regs_kept (em_ao mcn) r \<Longrightarrow> endpoint_ok (mcn\<lparr>em_ao := snd r\<rparr>)"
  by (simp add: endpoint_ok_def regs_kept_def)

lemma endpoint_ok_sequence_error: "endpoint_ok mcn \<Longrightarrow> endpoint_ok (snd (sequence_error pf mcn))"
  by (simp add: sequence_error_def endpoint_ok_hello endpoint_ok_error)

lemmas endpoint_ok_steps = endpoint_ok_hello endpoint_ok_random endpoint_ok_accept
  endpoint_ok_next endpoint_ok_go endpoint_ok_ao endpoint_ok_sequence_error

lemma endpoint_ok_received_alo:
  assumes "endpoint_ok mcn"
  shows "endpoint_ok (snd (entl_received_alo w x mcn))"
proof -
  let ?r = "alo_exec (em_ao mcn) (ALO_OPCODE w) (ALO_DT w) x"
  have "endpoint_ok (mcn\<lparr>em_ao := snd ?r\<rparr>)" by (rule endpoint_ok_ao[OF assms alo_lengths(2)])
  from endpoint_ok_go[OF this, of ENTL_STATE_SBL] show ?thesis
    by (simp add: entl_received_alo_def case_prod_beta Let_def)
qed

lemma endpoint_ok_fields:
  assumes "endpoint_ok mcn"
  shows "endpoint_ok (mcn\<lparr>em_state := zero_state ENTL_STATE_WAIT, em_state_count := n\<rparr>)"
    "endpoint_ok (mcn\<lparr>em_state_count := n\<rparr>)" "current_state (em_state mcn) \<le> 12"
    "endpoint_ok (mcn\<lparr>em_state := (em_state mcn)\<lparr>event_i_know := 0, event_send_next := 1,
       current_state := ENTL_STATE_SEND\<rparr>\<rparr>)"
  using assms by (simp_all add: endpoint_ok_def zero_state_def)

definition ret_ok :: "'b \<times> entl_state_machine \<Rightarrow> bool" where
  "ret_ok r \<longleftrightarrow> endpoint_ok (snd r)"

lemma ret_ok_pair [simp]: "ret_ok (a, m) = endpoint_ok m"
  by (simp add: ret_ok_def)

lemma endpoint_ok_received:
  assumes ok: "endpoint_ok mcn"
  shows "ret_ok (entl_received_hello pf w mcn)" "ret_ok (entl_received_wait pf w mcn)"
    "ret_ok (entl_received_send pf w mcn)" "ret_ok (entl_received_receive pf w x aq eq mcn)"
    "ret_ok (entl_received_ra pf w mcn)" "ret_ok (entl_received_ral pf w x mcn)"
    "ret_ok (entl_received_sa pf w mcn)" "ret_ok (entl_received_sb pf w mcn)"
    "ret_ok (entl_received_rb pf w mcn)" "ret_ok (entl_received_rbl pf w mcn)"
proof -
  note steps = endpoint_ok_steps[OF ok] endpoint_ok_fields[OF ok] ok
  have err: "ret_ok (sequence_error pf mcn)" by (simp add: ret_ok_def endpoint_ok_sequence_error ok)
  note pi = pred_if[of ret_ok]
  show "ret_ok (entl_received_hello pf w mcn)" "ret_ok (entl_received_wait pf w mcn)"
    "ret_ok (entl_received_send pf w mcn)" "ret_ok (entl_received_ra pf w mcn)"
    "ret_ok (entl_received_sa pf w mcn)" "ret_ok (entl_received_sb pf w mcn)"
    "ret_ok (entl_received_rb pf w mcn)"
    unfolding entl_received_hello_def entl_received_wait_def entl_received_send_def entl_received_ra_def
      entl_received_sa_def entl_received_sb_def entl_received_rb_def Let_def
    by (intro pi; simp add: steps err endpoint_ok_hello endpoint_ok_error)+
  have alo: "ret_ok (entl_received_alo w x (accept_event cs w mcn))" if "cs \<le> 12" for cs
    unfolding ret_ok_def by (rule endpoint_ok_received_alo[OF endpoint_ok_accept[OF ok that]])
  show "ret_ok (entl_received_receive pf w x aq eq mcn)"
    unfolding entl_received_receive_def Let_def
    by (intro pi; simp add: steps err alo endpoint_ok_go endpoint_ok_accept)
  have "endpoint_ok ((accept_event cs w mcn)\<lparr>em_ao := snd (alo_complete a st y),
      em_state := (em_state (accept_event cs w mcn))\<lparr>current_state := ENTL_STATE_SAL\<rparr>\<rparr>)"
    if "cs \<le> 12" "a = em_ao (accept_event cs w mcn)" for cs a st y
    using endpoint_ok_go[OF endpoint_ok_ao[OF endpoint_ok_accept[OF ok that(1)] alo_lengths(3)], of ENTL_STATE_SAL] that(2)
    by simp
  then show "ret_ok (entl_received_ral pf w x mcn)"
    unfolding entl_received_ral_def Let_def case_prod_beta
    by (intro pi; simp add: steps err)
  show "ret_ok (entl_received_rbl pf w mcn)"
    unfolding entl_received_rbl_def Let_def case_prod_beta
    by (intro pi; simp add: steps err endpoint_ok_accept endpoint_ok_ao[OF ok alo_lengths(4)])
qed

text \<open>
  Claim C8. No message and no request for a message takes an endpoint out of its type: the state stays
  one of the protocol, event numbers and the hello value stay within 16 bits, and the register
  file keeps its 32 registers.
\<close>

theorem endpoint_ok_preserved:
  assumes ok: "endpoint_ok mcn"
  shows "endpoint_ok (snd (entl_received pf mcn d_addr s_value aq ac eq)) \<and>
    endpoint_ok (snd (entl_next_send mcn alo_data c q))"
proof
  note pi = pred_if[of ret_ok]
  have "ret_ok (entl_received pf mcn d_addr s_value aq ac eq)"
    unfolding entl_received_def Let_def
    by (intro pi; simp add: ok endpoint_ok_received endpoint_ok_hello endpoint_ok_error)
  then show "endpoint_ok (snd (entl_received pf mcn d_addr s_value aq ac eq))" by (simp add: ret_ok_def)
  have "ret_ok (entl_next_send_send mcn alo_data c q)"
  proof -
    let ?m = "next_event ENTL_STATE_SEND mcn"
    have m: "endpoint_ok ?m" by (rule endpoint_ok_next[OF ok]) simp
    have "endpoint_ok (?m\<lparr>em_ao := snd (alo_initiate (em_ao ?m) op sr x)\<rparr>)" for op sr x
      by (rule endpoint_ok_ao[OF m alo_lengths(1)])
    note ao = this endpoint_ok_go[OF this, simplified]
    show ?thesis
      unfolding entl_next_send_send_def Let_def case_prod_beta
      by (intro pi; simp add: m ao endpoint_ok_go)
  qed
  then have "ret_ok (entl_next_send mcn alo_data c q)"
    unfolding entl_next_send_def Let_def
    by (intro pi; simp add: ok endpoint_ok_next)
  then show "endpoint_ok (snd (entl_next_send mcn alo_data c q))" by (simp add: ret_ok_def)
qed

definition sample_machine :: "u32 \<Rightarrow> u32 \<Rightarrow> u32 \<Rightarrow> entl_state_machine" where
  "sample_machine cs v errors =
     \<lparr>em_state = zero_state cs, em_ao = sample_regs 0, em_error_state = zero_state 0, em_error_flag = errors,
      em_p_error_flag = 0, em_error_count = errors, em_state_count = 0, em_my_value = v, em_credit = 0\<rparr>"

lemma endpoint_ok_preserved_witness:
  "endpoint_ok (snd (entl_received Netronome_me (sample_machine ENTL_STATE_WAIT 0xbeef 0) 0x200000001 0 0 0 0))"
  by (rule endpoint_ok_preserved[THEN conjunct1])
    (simp add: endpoint_ok_def zero_state_def sample_regs_def sample_machine_def)

lemma set_error_count: "em_error_count (set_error f mcn) = em_error_count mcn + 1"
  by (simp add: set_error_def)

definition count_kept :: "u32 \<Rightarrow> 'b \<times> entl_state_machine \<Rightarrow> bool" where
  "count_kept n r \<longleftrightarrow> em_error_count (snd r) \<in> {n, n + 1}"

text \<open>
  An endpoint that has recorded an error is silent for good: it answers every request for a
  message with a NOP, and neither receiving nor sending ever lowers the count (short of the
  wrap of the 32-bit counter); only \<open>entl_state_init\<close> clears it. The comment on the field in
  \<open>entl_state_machine.h\<close> says that \<open>got_error_state()\<close> clears it; there is no such function.
\<close>

theorem error_silences_endpoint:
  assumes "em_error_count mcn \<noteq> 0"
  shows "entl_next_send mcn alo_data c q = ((ENTL_ACTION_NOP, ENTL_ETYPE_NOP, alo_data), mcn) \<and>
    em_error_count (snd (entl_received pf mcn d_addr s_value aq ac eq))
      \<in> {em_error_count mcn, em_error_count mcn + 1} \<and>
    em_error_count (entl_state_hello pf mcn) = em_error_count mcn"
proof (intro conjI)
  show "entl_next_send mcn alo_data c q = ((ENTL_ACTION_NOP, ENTL_ETYPE_NOP, alo_data), mcn)"
    using assms by (simp add: entl_next_send_def Let_def)
  show hello: "em_error_count (entl_state_hello pf mcn) = em_error_count mcn" for pf and mcn :: entl_state_machine
    by (simp add: entl_state_hello_def entl_set_random_def)
  let ?n = "em_error_count mcn"
  note pi = pred_if[of "count_kept ?n"]
  have keep: "em_error_count (accept_event cs w m) = em_error_count m" for cs w m
    by (simp add: accept_event_def Let_def)
  have "count_kept ?n (entl_received pf mcn d_addr s_value aq ac eq)"
    unfolding entl_received_def entl_received_hello_def entl_received_wait_def entl_received_send_def
      entl_received_receive_def entl_received_alo_def entl_received_ra_def entl_received_ral_def
      entl_received_sa_def entl_received_sb_def entl_received_rb_def entl_received_rbl_def
      sequence_error_def Let_def case_prod_beta
    by (intro pi; simp add: count_kept_def hello set_error_count keep entl_set_random_def)
  then show "em_error_count (snd (entl_received pf mcn d_addr s_value aq ac eq)) \<in> {?n, ?n + 1}"
    by (simp add: count_kept_def)
qed

lemma error_silences_endpoint_witness:
  "fst (entl_next_send (sample_machine ENTL_STATE_HELLO 0xbeef 1) 0 0 0) = (ENTL_ACTION_NOP, ENTL_ETYPE_NOP, 0)"
proof -
  have "em_error_count (sample_machine ENTL_STATE_HELLO 0xbeef 1) \<noteq> 0" by (simp add: sample_machine_def)
  from error_silences_endpoint[OF this, of 0 0 0 Netronome_me 0 0 0 0 0] show ?thesis by simp
qed

end
