(* ===== verification/Entl_Link.thy ===== *)
theory Entl_Link
  imports Entl_Machine
begin

text \<open>
  Two ENTL endpoints joined by two FIFO channels, under every sequence of calls of
  \<open>entl_next_send\<close> and \<open>entl_received\<close>, refused operations and full queues included. The theory
  shows that an established link passes one token back and forth, which disturbances can end
  it in an error, that it is silent then, that an AIT frame leaves the queue of its
  sender only after its receiver has processed it, and how two endpoints establish a link.
\<close>

unbundle bit_operations_syntax

section \<open>Fields of the message words\<close>

abbreviation ev :: "u16 \<Rightarrow> u32" where "ev e \<equiv> ucast e"
abbreviation evw :: "u16 \<Rightarrow> u64" where "evw e \<equiv> ucast (ev e)"

lemma ffff_mask: "(0xffff :: 'a::len word) = mask 16"
  by (simp add: mask_eq_exp_minus_1)

lemma evw_ucast: "evw e = ucast e"
  by (rule bit_word_eqI) (auto simp: bit_ucast_iff dest: bit_imp_le_length)

lemma ev_add: "(ev e + w) AND 0xffff = ev (e + ucast w)"
proof -
  have "uint (take_bit 16 (ev e + w)) = take_bit 16 ((uint (ev e) + uint w) mod 2 ^ LENGTH(32))"
    by (simp only: unsigned_take_bit_eq uint_word_ariths)
  also have "\<dots> = (uint e + uint w) mod 2 ^ 16"
    by (simp add: take_bit_eq_mod mod_mod_cancel unsigned_ucast_eq mod_add_left_eq)
  also have "\<dots> = uint (ev (e + ucast w))"
    by (simp add: uint_word_ariths unsigned_ucast_eq take_bit_eq_mod mod_mod_cancel mod_add_right_eq)
  finally have "uint (take_bit 16 (ev e + w)) = uint (ev (e + ucast w))" .
  then show ?thesis by (simp add: ffff_mask take_bit_eq_mask word_uint_eq_iff)
qed

lemma value_next: "ECLP_VALUE_NEXT (ev e) = ev (e + 1)"
  using ev_add[of e 1] by (simp add: ECLP_VALUE_NEXT_def)

lemma value_plus2: "ECLP_VALUE_PLUS2 (ev e) = ev (e + 2)"
  using ev_add[of e 2] by (simp add: ECLP_VALUE_PLUS2_def)

lemma fields_or:
  "GET_ECLP_ETYPE (x OR y) = GET_ECLP_ETYPE x OR GET_ECLP_ETYPE y"
  "GET_ECLP_VALUE (x OR y) = GET_ECLP_VALUE x OR GET_ECLP_VALUE y"
  "ALO_OPCODE (x OR y) = ALO_OPCODE x OR ALO_OPCODE y"
  by (rule bit_word_eqI; auto simp: GET_ECLP_ETYPE_def GET_ECLP_VALUE_def ALO_OPCODE_def bit_and_iff bit_or_iff
      bit_ucast_iff bit_drop_bit_eq)+

lemma bit_evw: "bit (evw e) n \<longleftrightarrow> bit e n"
  by (auto simp: bit_ucast_iff dest: bit_imp_le_length)

lemma bit_etype_mask: "bit (0x001f00000000 :: u64) n \<longleftrightarrow> 32 \<le> n \<and> n < 37"
proof -
  have "(0x001f00000000 :: u64) = push_bit 32 (mask 5)" by (simp add: mask_eq_exp_minus_1 push_bit_eq_mult)
  then have "bit (0x001f00000000 :: u64) n \<longleftrightarrow> bit (push_bit 32 (mask 5 :: u64)) n" by (simp only:)
  then show ?thesis by (auto simp: bit_push_bit_iff bit_mask_iff simp del: bit_numeral_word_iff)
qed

lemma fields_ev:
  "GET_ECLP_ETYPE (evw e) = 0" "GET_ECLP_VALUE (evw e) = evw e" "ALO_OPCODE (evw e) = 0"
  by (rule bit_word_eqI; auto simp: GET_ECLP_ETYPE_def GET_ECLP_VALUE_def ALO_OPCODE_def bit_and_iff bit_evw
      bit_drop_bit_eq bit_etype_mask ffff_mask bit_mask_iff bit_ucast_iff simp del: bit_numeral_word_iff
      dest: bit_imp_le_length)+

lemma fields_alo:
  "GET_ECLP_ETYPE (SET_ECLP_ALO c) = 0" "GET_ECLP_VALUE (SET_ECLP_ALO c) = 0"
  "ALO_OPCODE (SET_ECLP_ALO c) = ucast (ALO_COMMAND_OPCODE c)"
  by (rule bit_word_eqI; auto simp: GET_ECLP_ETYPE_def GET_ECLP_VALUE_def ALO_OPCODE_def SET_ECLP_ALO_def
      ALO_COMMAND_OPCODE_def ALO_COMMAND_DT_def ALO_COMMAND_SC_def bit_and_iff bit_or_iff bit_push_bit_iff
      bit_drop_bit_eq bit_etype_mask ffff_mask mask_5 bit_mask_iff bit_ucast_iff simp del: bit_numeral_word_iff)+

lemma fields_const:
  "GET_ECLP_ETYPE ENTL_ETYPE_ENTL = ENTL_ETYPE_ENTL" "GET_ECLP_VALUE ENTL_ETYPE_ENTL = 0"
  "GET_ECLP_ETYPE ENTL_ETYPE_AITS = ENTL_ETYPE_AITS" "GET_ECLP_VALUE ENTL_ETYPE_AITS = 0"
  "GET_ECLP_ETYPE ENTL_ETYPE_AITR = ENTL_ETYPE_AITR" "GET_ECLP_VALUE ENTL_ETYPE_AITR = 0"
  "GET_ECLP_ETYPE ENTL_ETYPE_AITA = ENTL_ETYPE_AITA" "GET_ECLP_VALUE ENTL_ETYPE_AITA = 0"
  "GET_ECLP_ETYPE ECLP_FW_MASK = 0" "GET_ECLP_VALUE ECLP_FW_MASK = 0"
  "GET_ECLP_ETYPE 0x10000 = 0" "GET_ECLP_VALUE 0x10000 = 0" "GET_ECLP_ETYPE 0 = 0" "GET_ECLP_VALUE 0 = 0"
  "ALO_OPCODE ENTL_ETYPE_ENTL = 0" "ALO_OPCODE ENTL_ETYPE_AITS = 0" "ALO_OPCODE ECLP_FW_MASK = 0" "ALO_OPCODE 0 = 0"
  by (simp_all add: GET_ECLP_ETYPE_def GET_ECLP_VALUE_def ALO_OPCODE_def)

lemma evw_inject: "evw a = evw b \<longleftrightarrow> a = b"
proof
  assume "evw a = evw b"
  then have "bit a n = bit b n" for n by (metis bit_evw)
  then show "a = b" by (intro bit_word_eqI) simp
qed simp

lemma ucast_evw: "(ucast (evw e) :: u32) = ev e"
  by (rule bit_word_eqI) (auto simp: bit_ucast_iff dest: bit_imp_le_length)

lemmas msg_fields = fields_or fields_ev fields_alo fields_const evw_inject ucast_evw

section \<open>The link\<close>

text \<open>
  A side is a boolean. \<open>lk_chan l s\<close> are the messages under way to side \<open>s\<close>. The counters
  record, for the AIT frames that side \<open>s\<close> sends: frames sent, frames the peer handed up for
  processing, frames dropped from the queue of \<open>s\<close>, frames whose completion was signalled
  at the peer, and frames the peer cancelled because its own queue was full; and for the
  operations that side \<open>s\<close> is asked for, those it refused without sending anything. They are driven by
  the action words, and no call reads them. The error result \<open>ENTL_ACTION_ERROR\<close> is -1 and has every
  flag bit set: the flags are read only of a result that is not the error.
\<close>

record link =
  lk_end :: "bool \<Rightarrow> entl_state_machine"
  lk_chan :: "bool \<Rightarrow> (u64 \<times> u64) list"
  lk_sent :: "bool \<Rightarrow> nat"
  lk_proc :: "bool \<Rightarrow> nat"
  lk_drop :: "bool \<Rightarrow> nat"
  lk_sig :: "bool \<Rightarrow> nat"
  lk_cancel :: "bool \<Rightarrow> nat"
  lk_refused :: "bool \<Rightarrow> nat"

definition bump :: "bool \<Rightarrow> bool \<Rightarrow> (bool \<Rightarrow> nat) \<Rightarrow> bool \<Rightarrow> nat" where
  "bump c s f = (if c then f(s := f s + 1) else f)"

definition link_send :: "bool \<Rightarrow> u64 \<Rightarrow> u32 \<Rightarrow> u32 \<Rightarrow> link \<Rightarrow> link" where
  "link_send s alo_data alo_command ait_queue l =
     (case entl_next_send (lk_end l s) alo_data alo_command ait_queue of ((act, addr, dat), mcn) \<Rightarrow>
        let ait = (current_state (em_state (lk_end l s)) \<noteq> ENTL_STATE_SAL);
            idle = (current_state (em_state (lk_end l s)) = ENTL_STATE_SEND \<and> em_error_count (lk_end l s) = 0) in
        l\<lparr>lk_end := (lk_end l)(s := mcn),
          lk_chan := (if act AND ENTL_ACTION_SEND \<noteq> 0
                      then (lk_chan l)((\<not> s) := lk_chan l (\<not> s) @ [(addr, dat)]) else lk_chan l),
          lk_sent := bump (act AND ENTL_ACTION_SEND_AIT \<noteq> 0) s (lk_sent l),
          lk_drop := bump (act AND ENTL_ACTION_DROP_AIT \<noteq> 0 \<and> ait) s (lk_drop l),
          lk_refused := bump (act = ENTL_ACTION_NOP \<and> idle) s (lk_refused l)\<rparr>)"

definition link_recv :: "bool \<Rightarrow> platform \<Rightarrow> u32 \<Rightarrow> u32 \<Rightarrow> u32 \<Rightarrow> link \<Rightarrow> link" where
  "link_recv s pf ait_queue ait_command egress_queue l =
     (case lk_chan l s of
        [] \<Rightarrow> l
      | (addr, dat) # ms \<Rightarrow>
        (case entl_received pf (lk_end l s) addr dat ait_queue ait_command egress_queue of (act, mcn) \<Rightarrow>
           let ait = (current_state (em_state (lk_end l s)) = ENTL_STATE_RB);
               asked = (current_state (em_state (lk_end l s)) = ENTL_STATE_RECEIVE \<and> GET_ECLP_ETYPE addr = ENTL_ETYPE_AITS) in
           l\<lparr>lk_end := (lk_end l)(s := mcn), lk_chan := (lk_chan l)(s := ms),
             lk_proc := bump (act \<noteq> ENTL_ACTION_ERROR \<and> act AND ENTL_ACTION_PROC_AIT \<noteq> 0) (\<not> s) (lk_proc l),
             lk_sig := bump (act \<noteq> ENTL_ACTION_ERROR \<and> act AND ENTL_ACTION_SIG_AIT \<noteq> 0 \<and> ait) (\<not> s) (lk_sig l),
             lk_cancel := bump (act = ENTL_ACTION_SEND \<and> asked) (\<not> s) (lk_cancel l)\<rparr>))"

text \<open>
  A step is any call of \<open>entl_next_send\<close>, with any operation command, data and queue length, or
  the delivery of the oldest message on a channel to \<open>entl_received\<close>, whatever the queue
  lengths of the receiver are. Nothing is asked of the callers.
\<close>

inductive link_step :: "link \<Rightarrow> link \<Rightarrow> bool" where
  send: "link_step l (link_send s alo_data alo_command ait_queue l)"
| recv: "link_step l (link_recv s pf ait_queue ait_command egress_queue l)"

inductive_cases link_stepE: "link_step l l'"

text \<open>
  Two things disturb the protocol and have phases of their own below: an operation command that
  \<open>alo_initiate\<close> refuses while no AIT frame is waiting (it uses up an event number and sends
  nothing), and a receiver whose AIT queue is full (it takes the token to cancel the exchange).
\<close>

definition command_ok :: "entl_state_machine \<Rightarrow> u32 \<Rightarrow> u32 \<Rightarrow> bool" where
  "command_ok mcn alo_command ait_queue \<longleftrightarrow>
     ALO_COMMAND_OPCODE alo_command = 0 \<or> ait_queue \<noteq> 0 \<or>
     fst (fst (alo_initiate (em_ao mcn) (ucast (ALO_COMMAND_OPCODE alo_command)) (ucast (ALO_COMMAND_SC alo_command)) 0))"

section \<open>Phases of the protocol\<close>

text \<open>
  In every phase one side (\<open>X\<close>, the side \<open>s\<close> below) has the last accepted event \<open>e\<close>. The phases
  with a flag come in an AIT version (False) and an operation version (True).

  \<open>Hold k\<close> is the token holder after \<open>k\<close> refused operations: the number of its next event has
  moved on by \<open>2 * k\<close>. \<open>Lost v\<close> is a message under way with the event \<open>v\<close> that is not the one the
  peer expects. \<open>Cancel k\<close> is an AIT exchange that the peer, its queue full, has cancelled and not
  yet answered, after \<open>k\<close> refused operations of its own; in \<open>Cancelled\<close> the plain event that tells
  the sender is under way, in \<open>Crossed\<close> another message is. In \<open>Dead\<close> the side \<open>s\<close> has recorded an
  error; in \<open>Jam\<close> both sides wait without an error. The last two are final.
\<close>

datatype phase = Start | Started | Hold nat | Sent | Ask bool | Asked bool | Answer bool | Acked bool | Confirm bool
  | Cancel nat | Cancelled | Lost u16 | Crossed | Jam | Dead

definition skew :: "nat \<Rightarrow> u16" where
  "skew k = of_nat (2 * k)"

definition at_event :: "entl_state_machine \<Rightarrow> u32 \<Rightarrow> u16 \<Rightarrow> u16 \<Rightarrow> u16 \<Rightarrow> bool" where
  "at_event mcn cs know sent next_e \<longleftrightarrow> em_error_count mcn = 0 \<and> em_error_flag mcn = 0 \<and>
     em_state mcn = \<lparr>current_state = cs, event_i_know = ev know, event_i_sent = ev sent, event_send_next = ev next_e\<rparr>"

definition msgs_are :: "u64 \<Rightarrow> (u64 \<times> u64) list \<Rightarrow> bool" where
  "msgs_are w q \<longleftrightarrow> (\<forall>m \<in> set q. fst m = w)"

definition entl_msg :: "u16 \<Rightarrow> u64" where
  "entl_msg e = evw e OR ENTL_ETYPE_ENTL"

definition ait_msg :: "bool \<Rightarrow> u16 \<Rightarrow> u64 \<Rightarrow> bool" where
  "ait_msg alo e w \<longleftrightarrow> GET_ECLP_ETYPE w = ENTL_ETYPE_AITS \<and> GET_ECLP_VALUE w = evw e \<and> (ALO_OPCODE w \<noteq> 0 \<longleftrightarrow> alo)"

definition msg_of :: "u64 \<Rightarrow> u16 \<Rightarrow> u64 \<Rightarrow> bool" where
  "msg_of typ e w \<longleftrightarrow> GET_ECLP_ETYPE w = typ \<and> GET_ECLP_VALUE w = evw e"

text \<open>A message that starts an exchange or passes the token, with the event \<open>e\<close>; an endpoint that waits.\<close>

definition offer :: "u16 \<Rightarrow> u64 \<Rightarrow> bool" where
  "offer e w \<longleftrightarrow> GET_ECLP_ETYPE w \<in> {ENTL_ETYPE_ENTL, ENTL_ETYPE_AITS} \<and> GET_ECLP_VALUE w = evw e"

definition waiting :: "entl_state_machine \<Rightarrow> bool" where
  "waiting mcn \<longleftrightarrow> (\<exists>cs k r n. at_event mcn cs k r n \<and> cs \<in> {ENTL_STATE_RECEIVE, ENTL_STATE_RA, ENTL_STATE_RAL})"

definition failed :: "entl_state_machine \<Rightarrow> bool" where
  "failed mcn \<longleftrightarrow> em_error_count mcn = 1 \<and> current_state (em_state mcn) = ENTL_STATE_HELLO"

fun shape :: "phase \<Rightarrow> u16 \<Rightarrow> entl_state_machine \<Rightarrow> entl_state_machine \<Rightarrow> (u64 \<times> u64) list \<Rightarrow> (u64 \<times> u64) list \<Rightarrow> bool" where
  "shape Start e X Y qX qY \<longleftrightarrow> e = 0 \<and> at_event X ENTL_STATE_SEND 0 0 1 \<and> at_event Y ENTL_STATE_WAIT 0 0 0 \<and>
     msgs_are (entl_msg 0) qX \<and> qY = []"
| "shape Started e X Y qX qY \<longleftrightarrow> e = 0 \<and> at_event X ENTL_STATE_RECEIVE 0 1 3 \<and> at_event Y ENTL_STATE_WAIT 0 0 0 \<and>
     msgs_are (entl_msg 0) qX \<and> (\<exists>m. qY = [m] \<and> fst m = entl_msg 1)"
| "shape (Hold k) e X Y qX qY \<longleftrightarrow> at_event X ENTL_STATE_SEND e (e - 1 + skew k) (e + 1 + skew k) \<and> at_event Y ENTL_STATE_RECEIVE (e - 1) e (e + 2) \<and>
     qX = [] \<and> msgs_are (entl_msg (e - 1)) qY"
| "shape Sent e X Y qX qY \<longleftrightarrow> at_event X ENTL_STATE_RECEIVE e (e + 1) (e + 3) \<and> at_event Y ENTL_STATE_RECEIVE (e - 1) e (e + 2) \<and>
     qX = [] \<and> (\<exists>q m. qY = q @ [m] \<and> msgs_are (entl_msg (e - 1)) q \<and> fst m = entl_msg (e + 1))"
| "shape (Ask l) e X Y qX qY \<longleftrightarrow> at_event X (if l then ENTL_STATE_RAL else ENTL_STATE_RA) e (e + 1) (e + 3) \<and>
     at_event Y ENTL_STATE_RECEIVE (e - 1) e (e + 2) \<and>
     qX = [] \<and> (\<exists>q m. qY = q @ [m] \<and> msgs_are (entl_msg (e - 1)) q \<and> ait_msg l (e + 1) (fst m))"
| "shape (Asked l) e X Y qX qY \<longleftrightarrow> at_event X (if l then ENTL_STATE_RAL else ENTL_STATE_RA) e (e + 1) (e + 3) \<and>
     at_event Y (if l then ENTL_STATE_SBL else ENTL_STATE_SB) (e + 1) e (e + 2) \<and>
     (l \<longrightarrow> ao_return_flag (em_ao Y) \<in> {0, 1}) \<and> qX = [] \<and> qY = []"
| "shape (Answer l) e X Y qX qY \<longleftrightarrow> at_event X (if l then ENTL_STATE_RAL else ENTL_STATE_RA) e (e + 1) (e + 3) \<and>
     at_event Y (if l then ENTL_STATE_RBL else ENTL_STATE_RB) (e + 1) (e + 2) (e + 4) \<and>
     (\<exists>m. qX = [m] \<and> msg_of ENTL_ETYPE_AITR (e + 2) (fst m)) \<and> qY = []"
| "shape (Acked l) e X Y qX qY \<longleftrightarrow> at_event X (if l then ENTL_STATE_SAL else ENTL_STATE_SA) (e + 2) (e + 1) (e + 3) \<and>
     at_event Y (if l then ENTL_STATE_RBL else ENTL_STATE_RB) (e + 1) (e + 2) (e + 4) \<and> qX = [] \<and> qY = []"
| "shape (Confirm l) e X Y qX qY \<longleftrightarrow> at_event X ENTL_STATE_RECEIVE (e + 2) (e + 3) (e + 5) \<and>
     at_event Y (if l then ENTL_STATE_RBL else ENTL_STATE_RB) (e + 1) (e + 2) (e + 4) \<and>
     qX = [] \<and> (\<exists>m. qY = [m] \<and> msg_of ENTL_ETYPE_AITA (e + 3) (fst m))"
| "shape (Cancel k) e X Y qX qY \<longleftrightarrow> at_event X ENTL_STATE_RA e (e + 1) (e + 3) \<and>
     at_event Y ENTL_STATE_SEND (e + 1) (e + skew k) (e + 2 + skew k) \<and> qX = [] \<and> qY = []"
| "shape Cancelled e X Y qX qY \<longleftrightarrow> at_event X ENTL_STATE_RA e (e + 1) (e + 3) \<and>
     at_event Y ENTL_STATE_RECEIVE (e + 1) (e + 2) (e + 4) \<and> (\<exists>m. qX = [m] \<and> fst m = entl_msg (e + 2)) \<and> qY = []"
| "shape (Lost v) e X Y qX qY \<longleftrightarrow> waiting X \<and> at_event Y ENTL_STATE_RECEIVE (e - 1) e (e + 2) \<and> v \<noteq> e + 1 \<and>
     qX = [] \<and> (\<exists>q m. qY = q @ [m] \<and> msgs_are (entl_msg (e - 1)) q \<and> offer v (fst m))"
| "shape Crossed e X Y qX qY \<longleftrightarrow> at_event X ENTL_STATE_RA e (e + 1) (e + 3) \<and> waiting Y \<and>
     (\<exists>m v. qX = [m] \<and> offer v (fst m) \<and> (GET_ECLP_ETYPE (fst m) = ENTL_ETYPE_ENTL \<longrightarrow> v \<noteq> e + 2)) \<and> qY = []"
| "shape Jam e X Y qX qY \<longleftrightarrow> waiting X \<and> waiting Y \<and> qX = [] \<and> qY = []"
| "shape Dead e X Y qX qY \<longleftrightarrow> failed X \<and> waiting Y \<and> qX = [] \<and> qY = []"

text \<open>
  How far the AIT exchange of the side \<open>s\<close> has come, as its counters (frames sent, cancelled,
  processed, dropped, signalled); \<open>peer p\<close> is the phase that says it of the other side.
\<close>

fun counts_ok :: "phase \<Rightarrow> nat \<Rightarrow> nat \<Rightarrow> nat \<Rightarrow> nat \<Rightarrow> nat \<Rightarrow> bool" where
  "counts_ok (Ask False) sent can prc drp sig \<longleftrightarrow> sent = can + sig + 1 \<and> prc = sig \<and> drp = sig"
| "counts_ok (Asked False) sent can prc drp sig \<longleftrightarrow> sent = can + sig + 1 \<and> prc = sig + 1 \<and> drp = sig"
| "counts_ok (Answer False) sent can prc drp sig \<longleftrightarrow> sent = can + sig + 1 \<and> prc = sig + 1 \<and> drp = sig"
| "counts_ok (Acked False) sent can prc drp sig \<longleftrightarrow> sent = can + sig + 1 \<and> prc = sig + 1 \<and> drp = sig"
| "counts_ok (Confirm False) sent can prc drp sig \<longleftrightarrow> sent = can + sig + 1 \<and> prc = sig + 1 \<and> drp = sig + 1"
| "counts_ok (Lost v) sent can prc drp sig \<longleftrightarrow> (sent = can + sig \<or> sent = can + sig + 1) \<and> prc = sig \<and> drp = sig"
| "counts_ok Jam sent can prc drp sig \<longleftrightarrow> (sent = can + sig \<or> sent = can + sig + 1) \<and> prc = sig \<and> drp = sig"
| "counts_ok Dead sent can prc drp sig \<longleftrightarrow> (sent = can + sig \<or> sent = can + sig + 1) \<and> prc = sig \<and> drp = sig"
| "counts_ok _ sent can prc drp sig \<longleftrightarrow> sent = can + sig \<and> prc = sig \<and> drp = sig"

fun peer :: "phase \<Rightarrow> phase" where
  "peer Crossed = Jam"
| "peer Jam = Jam"
| "peer Dead = Jam"
| "peer _ = Start"

abbreviation counts_at :: "phase \<Rightarrow> bool \<Rightarrow> link \<Rightarrow> bool" where
  "counts_at p s l \<equiv> counts_ok p (lk_sent l s) (lk_cancel l s) (lk_proc l s) (lk_drop l s) (lk_sig l s)"

text \<open>What must have happened before a phase: refused operations and cancelled frames.\<close>

fun cause :: "phase \<Rightarrow> u16 \<Rightarrow> bool \<Rightarrow> link \<Rightarrow> bool" where
  "cause (Hold k) e s l \<longleftrightarrow> k \<le> lk_refused l s"
| "cause (Lost v) e s l \<longleftrightarrow> lk_refused l s \<noteq> 0 \<and> (v = e - 1 \<longrightarrow> 32767 \<le> lk_refused l s)"
| "cause (Cancel k) e s l \<longleftrightarrow> lk_cancel l s \<noteq> 0"
| "cause Cancelled e s l \<longleftrightarrow> lk_cancel l s \<noteq> 0"
| "cause Crossed e s l \<longleftrightarrow> lk_cancel l s \<noteq> 0"
| "cause Jam e s l \<longleftrightarrow> 32767 \<le> lk_refused l s"
| "cause Dead e s l \<longleftrightarrow> (\<exists>t. lk_refused l t \<noteq> 0 \<or> lk_cancel l t \<noteq> 0)"
| "cause _ e s l \<longleftrightarrow> True"

definition in_phase :: "phase \<Rightarrow> u16 \<Rightarrow> bool \<Rightarrow> link \<Rightarrow> bool" where
  "in_phase p e s l \<longleftrightarrow>
     shape p e (lk_end l s) (lk_end l (\<not> s)) (lk_chan l s) (lk_chan l (\<not> s)) \<and>
     counts_at p s l \<and> counts_at (peer p) (\<not> s) l \<and> cause p e s l"

definition link_inv :: "link \<Rightarrow> bool" where
  "link_inv l \<longleftrightarrow> (\<exists>p e s. in_phase p e s l)"

section \<open>What each call does in each state\<close>

lemma msg_entl_0: "ENTL_ETYPE_ENTL = entl_msg 0"
  by (simp add: entl_msg_def)

lemma msg_of_fields:
  "msg_of typ e w \<Longrightarrow> GET_ECLP_ETYPE w = typ" "msg_of typ e w \<Longrightarrow> GET_ECLP_VALUE w = evw e"
  "ait_msg a e w \<Longrightarrow> GET_ECLP_ETYPE w = ENTL_ETYPE_AITS" "ait_msg a e w \<Longrightarrow> GET_ECLP_VALUE w = evw e"
  "ait_msg a e w \<Longrightarrow> (ALO_OPCODE w \<noteq> 0) = a"
  "GET_ECLP_ETYPE (entl_msg e) = ENTL_ETYPE_ENTL" "GET_ECLP_VALUE (entl_msg e) = evw e"
  by (simp_all add: msg_of_def ait_msg_def entl_msg_def msg_fields)

lemma at_eventD:
  assumes "at_event m cs k s n"
  shows "em_error_count m = 0" "current_state (em_state m) = cs" "event_i_know (em_state m) = ev k"
    "event_i_sent (em_state m) = ev s" "event_send_next (em_state m) = ev n"
  using assms by (simp_all add: at_event_def)

lemma at_event_next:
  "at_event m cs k s n \<Longrightarrow> at_event (next_event cs' m) cs' k n (n + 2)"
  by (simp add: at_event_def next_event_def value_plus2)

lemma at_event_accept:
  "at_event m cs k s n \<Longrightarrow> GET_ECLP_VALUE w = evw v \<Longrightarrow> at_event (accept_event cs' w m) cs' v s (v + 1)"
  by (simp add: at_event_def accept_event_def value_next ucast_evw)

lemma at_event_ao [simp]: "at_event (m\<lparr>em_ao := a\<rparr>) cs k s n = at_event m cs k s n"
  by (simp add: at_event_def)

lemma at_event_go:
  "at_event m cs k s n \<Longrightarrow> at_event (m\<lparr>em_state := (em_state m)\<lparr>current_state := cs'\<rparr>\<rparr>) cs' k s n"
  by (simp add: at_event_def)

lemma expected_ev: "at_event m cs k s n \<Longrightarrow> GET_ECLP_VALUE w = evw v \<Longrightarrow> expected w m \<longleftrightarrow> v = k + 2"
  by (auto simp: expected_def at_eventD value_plus2 evw_inject)

lemma repeated_ev: "at_event m cs k s n \<Longrightarrow> GET_ECLP_VALUE w = evw v \<Longrightarrow> repeated w m \<longleftrightarrow> v = k"
  by (auto simp: repeated_def at_eventD evw_inject)

lemmas call_defs = entl_next_send_def entl_received_def Let_def

text \<open>Sending.\<close>

lemma next_send_wait:
  assumes "at_event m ENTL_STATE_WAIT k s n"
  shows "entl_next_send m d c q = ((1, entl_msg 0, d), m)"
  by (simp add: call_defs msg_entl_0 at_eventD[OF assms])

lemma next_send_quiet:
  assumes "at_event m cs k s n"
    and "cs \<in> {ENTL_STATE_RECEIVE, ENTL_STATE_RA, ENTL_STATE_RAL, ENTL_STATE_RB, ENTL_STATE_RBL}"
  shows "entl_next_send m d c q = ((0, 0, d), m)"
  using assms(2) by (auto simp: call_defs at_eventD[OF assms(1)])

lemma next_send_sa:
  assumes m: "at_event m (if l then ENTL_STATE_SAL else ENTL_STATE_SA) k s n"
  obtains w m' where "entl_next_send m d c q = ((0x89, w, d), m')"
    "at_event m' ENTL_STATE_RECEIVE k n (n + 2)" "msg_of ENTL_ETYPE_AITA n w"
proof -
  let ?m = "next_event ENTL_STATE_RECEIVE m"
  note m' = at_event_next[OF m, of ENTL_STATE_RECEIVE]
  let ?w = "if l then ENTL_ETYPE_AITA OR evw n OR 0x10000 else ENTL_ETYPE_AITA OR evw n"
  have "entl_next_send m d c q = ((0x89, ?w, d), ?m)"
    by (cases l) (simp_all add: call_defs at_eventD[OF m] at_eventD[OF m'])
  moreover have "msg_of ENTL_ETYPE_AITA n ?w"
    by (simp add: msg_of_def msg_fields)
  ultimately show thesis using that m' by blast
qed

lemma next_send_sb:
  assumes m: "at_event m (if l then ENTL_STATE_SBL else ENTL_STATE_SB) k s n"
    and f: "l \<longrightarrow> ao_return_flag (em_ao m) \<in> {0, 1}"
  obtains act w d' m' where "entl_next_send m d c q = ((act, w, d'), m')" "act \<in> {1, 0x101}"
    "at_event m' (if l then ENTL_STATE_RBL else ENTL_STATE_RB) k n (n + 2)" "msg_of ENTL_ETYPE_AITR n w"
proof (cases l)
  case True
  note m' = at_event_next[OF m, of ENTL_STATE_RBL]
  let ?w = "ENTL_ETYPE_AITR OR evw n OR push_bit 16 (ucast (ao_return_flag (em_ao m)))"
  have "entl_next_send m d c q = ((0x101, ?w, ao_return_value (em_ao m)), next_event ENTL_STATE_RBL m)"
    using True by (simp add: call_defs at_eventD[OF m] at_eventD[OF m']) (simp add: next_event_def)
  moreover have "msg_of ENTL_ETYPE_AITR n ?w"
    using f True by (auto simp: msg_of_def msg_fields)
  ultimately show thesis using that m' True by simp
next
  case False
  note m' = at_event_next[OF m, of ENTL_STATE_RB]
  have "entl_next_send m d c q = ((1, ENTL_ETYPE_AITR OR evw n, d), next_event ENTL_STATE_RB m)"
    using False by (simp add: call_defs at_eventD[OF m] at_eventD[OF m'])
  moreover have "msg_of ENTL_ETYPE_AITR n (ENTL_ETYPE_AITR OR evw n)"
    by (simp add: msg_of_def msg_fields)
  ultimately show thesis using that m' False by simp
qed

lemma initiate_ok_any:
  "fst (fst (alo_initiate ao op sr d)) = fst (fst (alo_initiate ao op sr d'))"
  by (simp add: alo_initiate_def Let_def)

lemma next_event_ao [simp]: "em_ao (next_event cs m) = em_ao m"
  by (simp add: next_event_def)

lemma word_eq_0_bits: "(x :: 'a::len word) = 0 \<longleftrightarrow> (\<forall>n. \<not> bit x n)"
  by (auto intro: bit_word_eqI)

lemma opcode16: "(ucast (ALO_COMMAND_OPCODE c) :: u16) \<noteq> 0 \<longleftrightarrow> ALO_COMMAND_OPCODE c \<noteq> 0"
proof -
  have "bit (ALO_COMMAND_OPCODE c) n \<Longrightarrow> n < 16" for n
    by (simp add: ALO_COMMAND_OPCODE_def bit_and_iff ffff_mask bit_mask_iff del: bit_numeral_word_iff)
  then show ?thesis by (auto simp: word_eq_0_bits bit_ucast_iff)
qed

text \<open>
  The four things an endpoint in SEND does: a plain event, an AIT frame, an operation, or, when
  the operation is refused, nothing but using up the event number.
\<close>

lemma next_send_send:
  assumes m: "at_event m ENTL_STATE_SEND k s n"
  obtains (plain) d' m' where "entl_next_send m d c q = ((0x11, entl_msg n, d'), m')"
      "at_event m' ENTL_STATE_RECEIVE k n (n + 2)"
    | (ait) w d' m' where "k \<noteq> 0 \<or> s \<noteq> 0" "entl_next_send m d c q = ((3, w, d'), m')" "ait_msg False n w"
      "at_event m' ENTL_STATE_RA k n (n + 2)"
    | (alo) w d' m' where "k \<noteq> 0 \<or> s \<noteq> 0" "entl_next_send m d c q = ((0x101, w, d'), m')" "ait_msg True n w"
      "at_event m' ENTL_STATE_RAL k n (n + 2)"
    | (refused) d' m' where "k \<noteq> 0 \<or> s \<noteq> 0" "\<not> command_ok m c q" "entl_next_send m d c q = ((0, 0, d'), m')"
      "at_event m' ENTL_STATE_SEND k n (n + 2)"
proof -
  let ?m = "next_event ENTL_STATE_SEND m"
  note m' = at_event_next[OF m, of ENTL_STATE_SEND]
  let ?op = "ucast (ALO_COMMAND_OPCODE c) :: u16" and ?sc = "ucast (ALO_COMMAND_SC c) :: u16"
  let ?fw = "if ALO_COMMAND_FW c then ECLP_FW_MASK else 0"
  let ?go = "\<lambda>cs m. m\<lparr>em_state := (em_state m)\<lparr>current_state := cs\<rparr>\<rparr>"
  have ev0: "ev e \<noteq> 0 \<longleftrightarrow> e \<noteq> 0" for e by (metis unsigned_0 ucast_evw evw_inject)
  have send: "entl_next_send m d c q = entl_next_send_send m d c q"
    by (simp add: call_defs at_eventD[OF m])
  consider "\<not> ((k \<noteq> 0 \<or> s \<noteq> 0) \<and> (q \<noteq> 0 \<or> ALO_COMMAND_OPCODE c \<noteq> 0))"
    | "k \<noteq> 0 \<or> s \<noteq> 0" "q \<noteq> 0" "ALO_COMMAND_OPCODE c = 0"
    | "k \<noteq> 0 \<or> s \<noteq> 0" "ALO_COMMAND_OPCODE c \<noteq> 0" "\<not> fst (fst (alo_initiate (em_ao m) ?op ?sc d))" "q \<noteq> 0"
    | "k \<noteq> 0 \<or> s \<noteq> 0" "ALO_COMMAND_OPCODE c \<noteq> 0" "\<not> fst (fst (alo_initiate (em_ao m) ?op ?sc d))" "q = 0"
    | "k \<noteq> 0 \<or> s \<noteq> 0" "ALO_COMMAND_OPCODE c \<noteq> 0" "fst (fst (alo_initiate (em_ao m) ?op ?sc d))" by blast
  then show thesis
  proof cases
    case 1
    have "entl_next_send m d c q = ((0x11, entl_msg n, d), ?go ENTL_STATE_RECEIVE ?m)"
      unfolding send entl_next_send_send_def Let_def at_eventD[OF m] at_eventD[OF m'] ev0
      using 1 by (auto simp: entl_msg_def)
    then show thesis using plain at_event_go[OF m'] by blast
  next
    case 2
    have "entl_next_send m d c q = ((3, evw n OR ENTL_ETYPE_AITS, d), ?go ENTL_STATE_RA ?m)"
      unfolding send entl_next_send_send_def Let_def at_eventD[OF m] at_eventD[OF m'] ev0
      using 2 by simp
    moreover have "ait_msg False n (evw n OR ENTL_ETYPE_AITS)"
      by (simp add: ait_msg_def msg_fields)
    ultimately show thesis using ait 2(1) at_event_go[OF m'] by blast
  next
    case 3
    obtain d' a where i: "alo_initiate (em_ao m) ?op ?sc d = ((False, d'), a)"
      using 3(3) by (metis prod.collapse)
    have "entl_next_send m d c q =
        ((3, evw n OR ENTL_ETYPE_AITS OR ?fw, d'), ?go ENTL_STATE_RA (?m\<lparr>em_ao := a\<rparr>))"
      unfolding send entl_next_send_send_def Let_def at_eventD[OF m] at_eventD[OF m'] ev0
      using 3 by (simp add: i)
    moreover have "ait_msg False n (evw n OR ENTL_ETYPE_AITS OR ?fw)"
      by (simp add: ait_msg_def msg_fields)
    moreover have "at_event (?go ENTL_STATE_RA (?m\<lparr>em_ao := a\<rparr>)) ENTL_STATE_RA k n (n + 2)"
      by (rule at_event_go) (use m' in simp)
    ultimately show thesis using ait 3(1) by blast
  next
    case 4
    obtain d' a where i: "alo_initiate (em_ao m) ?op ?sc d = ((False, d'), a)"
      using 4(3) by (metis prod.collapse)
    have "entl_next_send m d c q = ((0, 0, d'), ?m\<lparr>em_ao := a\<rparr>)"
      unfolding send entl_next_send_send_def Let_def at_eventD[OF m] at_eventD[OF m'] ev0
      using 4 by (simp add: i)
    moreover have "\<not> command_ok m c q"
      using 4 by (simp add: command_ok_def initiate_ok_any[of _ _ _ 0 d])
    moreover have "at_event (?m\<lparr>em_ao := a\<rparr>) ENTL_STATE_SEND k n (n + 2)" using m' by simp
    ultimately show thesis using refused 4(1) by blast
  next
    case 5
    obtain d' a where i: "alo_initiate (em_ao m) ?op ?sc d = ((True, d'), a)"
      using 5(3) by (metis prod.collapse)
    let ?w = "evw n OR (ENTL_ETYPE_AITS OR SET_ECLP_ALO c) OR ?fw"
    have "entl_next_send m d c q = ((0x101, ?w, d'), ?go ENTL_STATE_RAL (?m\<lparr>em_ao := a\<rparr>))"
      unfolding send entl_next_send_send_def Let_def at_eventD[OF m] at_eventD[OF m'] ev0
      using 5 by (simp add: i)
    moreover have "ait_msg True n ?w"
      using 5(2) by (simp add: ait_msg_def msg_fields opcode16)
    moreover have "at_event (?go ENTL_STATE_RAL (?m\<lparr>em_ao := a\<rparr>)) ENTL_STATE_RAL k n (n + 2)"
      by (rule at_event_go) (use m' in simp)
    ultimately show thesis using alo 5(1) by blast
  qed
qed

text \<open>Receiving.\<close>

lemma etype_not_nop: "ENTL_ETYPE_ENTL \<noteq> 0" "ENTL_ETYPE_AITS \<noteq> 0" "ENTL_ETYPE_AITR \<noteq> 0" "ENTL_ETYPE_AITA \<noteq> 0"
  by simp_all

lemma received_repeat:
  assumes m: "at_event m cs k s n" and cs: "cs \<in> {ENTL_STATE_SEND, ENTL_STATE_RECEIVE}"
  shows "entl_received pf m (entl_msg k) x aq ac eq = (0, m)"
proof -
  have "repeated (entl_msg k) m" "\<not> expected (entl_msg k) m"
    by (simp_all add: repeated_ev[OF m] expected_ev[OF m] msg_of_fields)
  with cs show ?thesis
    by (auto simp: call_defs at_eventD[OF m] msg_of_fields entl_received_send_def entl_received_receive_def)
qed

lemma received_wait:
  assumes m: "at_event m ENTL_STATE_WAIT 0 0 0"
  obtains m' where "entl_received pf m (entl_msg 1) x aq ac eq = (1, m')" "at_event m' ENTL_STATE_SEND 1 0 2"
proof -
  have v: "ECLP_VALUE_NEXT (event_i_sent (em_state m)) = ev 1"
    by (simp only: at_eventD[OF m] value_next add_0)
  have "entl_received pf m (entl_msg 1) x aq ac eq = (1, accept_event ENTL_STATE_SEND (entl_msg 1) m)"
    unfolding call_defs entl_received_wait_def v by (simp add: at_eventD[OF m] msg_of_fields)
  with at_event_accept[OF m msg_of_fields(7), of ENTL_STATE_SEND 1] that show thesis by simp
qed

lemma received_entl:
  assumes m: "at_event m ENTL_STATE_RECEIVE k s n"
  obtains act m' where "entl_received pf m (entl_msg (k + 2)) x aq ac eq = (act, m')" "act \<in> {1, 3, 0x11}"
    "at_event m' ENTL_STATE_SEND (k + 2) s (k + 3)"
proof -
  have e: "expected (entl_msg (k + 2)) m" by (simp add: expected_ev[OF m] msg_of_fields)
  note m' = at_event_accept[OF m msg_of_fields(7), of ENTL_STATE_SEND "k + 2"]
  have "\<exists>act \<in> {1, 3, 0x11}. entl_received pf m (entl_msg (k + 2)) x aq ac eq =
      (act, accept_event ENTL_STATE_SEND (entl_msg (k + 2)) m)"
    by (auto simp: call_defs at_eventD[OF m] msg_of_fields entl_received_receive_def e)
  with that m' show thesis by (auto simp: add.assoc)
qed

lemma received_ait:
  assumes m: "at_event m ENTL_STATE_RECEIVE k s n" and w: "ait_msg False (k + 2) w"
    and q: "\<not> is_ENTT_queue_full (sint aq)"
  obtains act m' where "entl_received pf m w x aq ac eq = (act, m')" "act \<in> {5, 0x805}"
    "at_event m' ENTL_STATE_SB (k + 2) s (k + 3)"
proof -
  note f = msg_of_fields(3-5)[OF w]
  have e: "expected w m" by (simp add: expected_ev[OF m] f)
  note m' = at_event_go[OF at_event_accept[OF m f(2), of ENTL_STATE_RECEIVE], of ENTL_STATE_SB]
  have "\<exists>act \<in> {5, 0x805}. entl_received pf m w x aq ac eq =
      (act, (accept_event ENTL_STATE_RECEIVE w m)
              \<lparr>em_state := (em_state (accept_event ENTL_STATE_RECEIVE w m))\<lparr>current_state := ENTL_STATE_SB\<rparr>\<rparr>)"
    using f(3) q by (simp add: call_defs at_eventD[OF m] f entl_received_receive_def e)
  with that m' show thesis by (auto simp: add.assoc)
qed

text \<open>A receiver with a full queue takes the token back.\<close>

lemma received_ait_full:
  assumes m: "at_event m ENTL_STATE_RECEIVE k s n" and w: "ait_msg False (k + 2) w"
    and q: "is_ENTT_queue_full (sint aq)"
  obtains m' where "entl_received pf m w x aq ac eq = (1, m')" "at_event m' ENTL_STATE_SEND (k + 2) s (k + 3)"
proof -
  note f = msg_of_fields(3-5)[OF w]
  have e: "expected w m" by (simp add: expected_ev[OF m] f)
  note m' = at_event_go[OF at_event_accept[OF m f(2), of ENTL_STATE_RECEIVE], of ENTL_STATE_SEND]
  have "entl_received pf m w x aq ac eq =
      (1, (accept_event ENTL_STATE_RECEIVE w m)
              \<lparr>em_state := (em_state (accept_event ENTL_STATE_RECEIVE w m))\<lparr>current_state := ENTL_STATE_SEND\<rparr>\<rparr>)"
    using f(3) q by (simp add: call_defs at_eventD[OF m] f entl_received_receive_def e)
  with that m' show thesis by (auto simp: add.assoc)
qed

text \<open>What the endpoints do with a message that is not the one they expect.\<close>

lemma sequence_error_fails:
  "at_event m cs k s n \<Longrightarrow> \<exists>m'. sequence_error pf m = (-1, m') \<and> failed m'"
  by (simp add: sequence_error_def entl_state_hello_def entl_set_random_def set_error_def at_event_def zero_state_def
      failed_def)

lemma received_offer_repeat:
  assumes m: "at_event m ENTL_STATE_RECEIVE k s n" and w: "offer k w"
  shows "entl_received pf m w x aq ac eq = (0, m)"
proof -
  have "repeated w m" "\<not> expected w m"
    using w by (simp_all add: offer_def repeated_ev[OF m] expected_ev[OF m])
  then show ?thesis using w
    by (auto simp: offer_def call_defs at_eventD[OF m] entl_received_receive_def)
qed

lemma received_offer_bad:
  assumes m: "at_event m ENTL_STATE_RECEIVE k s n" and w: "offer v w" "v \<noteq> k + 2" "v \<noteq> k"
  obtains m' where "entl_received pf m w x aq ac eq = (-1, m')" "failed m'"
proof -
  have "\<not> repeated w m" "\<not> expected w m"
    using w by (simp_all add: offer_def repeated_ev[OF m, of _ v] expected_ev[OF m, of _ v])
  then have "entl_received pf m w x aq ac eq = sequence_error pf m"
    using w(1) by (auto simp: offer_def call_defs at_eventD[OF m] entl_received_receive_def)
  with sequence_error_fails[OF m] that show thesis by metis
qed

lemma received_ra_bad:
  assumes m: "at_event m ENTL_STATE_RA k s n" and w: "offer v w" "GET_ECLP_ETYPE w = ENTL_ETYPE_ENTL \<longrightarrow> v \<noteq> k + 2"
  obtains m' where "entl_received pf m w x aq ac eq = (-1, m')" "failed m'"
proof -
  have "GET_ECLP_ETYPE w = ENTL_ETYPE_ENTL \<Longrightarrow> \<not> expected w m"
    using w by (simp add: offer_def expected_ev[OF m, of _ v])
  then have "entl_received pf m w x aq ac eq = sequence_error pf m"
    using w(1) by (auto simp: offer_def call_defs at_eventD[OF m] entl_received_ra_def)
  with sequence_error_fails[OF m] that show thesis by metis
qed

lemma received_ra_plain:
  assumes m: "at_event m ENTL_STATE_RA k s n"
  obtains m' where "entl_received pf m (entl_msg (k + 2)) x aq ac eq = (1, m')" "at_event m' ENTL_STATE_SEND (k + 2) s (k + 3)"
proof -
  have e: "expected (entl_msg (k + 2)) m" by (simp add: expected_ev[OF m] msg_of_fields)
  have "entl_received pf m (entl_msg (k + 2)) x aq ac eq = (1, accept_event ENTL_STATE_SEND (entl_msg (k + 2)) m)"
    by (simp add: call_defs at_eventD[OF m] msg_of_fields entl_received_ra_def e)
  with that at_event_accept[OF m msg_of_fields(7), of ENTL_STATE_SEND "k + 2"] show thesis by (auto simp: add.assoc)
qed

lemma alo_exec_flag: "ao_return_flag (snd (alo_exec ao op dt x)) \<in> {0, 1}"
proof -
  define P where "P r \<longleftrightarrow> ao_return_flag (snd r) \<in> {0, 1}" for r :: "bool \<times> alo_regs"
  have P_if: "P x \<Longrightarrow> P y \<Longrightarrow> P (if c then x else y)" for c x y by simp
  have "P (alo_exec ao op dt x)"
    unfolding alo_exec_def Let_def by (intro P_if) (simp_all add: P_def)
  then show ?thesis by (simp add: P_def)
qed

lemma received_alo:
  assumes m: "at_event m ENTL_STATE_RECEIVE k s n" and w: "ait_msg True (k + 2) w"
  obtains act m' where "entl_received pf m w x aq ac eq = (act, m')" "act \<in> {0x201, 0xa01, 0x401}"
    "at_event m' ENTL_STATE_SBL (k + 2) s (k + 3)" "ao_return_flag (em_ao m') \<in> {0, 1}"
proof -
  note f = msg_of_fields(3-5)[OF w]
  have e: "expected w m" by (simp add: expected_ev[OF m] f)
  let ?m = "accept_event ENTL_STATE_RECEIVE w m"
  obtain res a where x: "alo_exec (em_ao ?m) (ALO_OPCODE w) (ALO_DT w) x = (res, a)" by fastforce
  let ?m' = "?m\<lparr>em_ao := a, em_state := (em_state ?m)\<lparr>current_state := ENTL_STATE_SBL\<rparr>\<rparr>"
  have "at_event (?m\<lparr>em_ao := a\<rparr>) ENTL_STATE_RECEIVE (k + 2) s (k + 2 + 1)"
    using at_event_accept[OF m f(2)] by simp
  from at_event_go[OF this, of ENTL_STATE_SBL]
  have m': "at_event ?m' ENTL_STATE_SBL (k + 2) s (k + 3)" by (simp add: add.assoc)
  have "ao_return_flag a \<in> {0, 1}" using alo_exec_flag[of "em_ao ?m" "ALO_OPCODE w" "ALO_DT w" x] by (simp add: x)
  moreover have "\<exists>act \<in> {0x201, 0xa01, 0x401}. entl_received pf m w x aq ac eq = (act, ?m')"
    using f(3) x by (simp add: call_defs at_eventD[OF m] f entl_received_receive_def entl_received_alo_def e)
  ultimately show thesis using that m' by auto
qed

lemma received_aitr:
  assumes m: "at_event m (if l then ENTL_STATE_RAL else ENTL_STATE_RA) k s n"
    and w: "msg_of ENTL_ETYPE_AITR (k + 2) w"
  obtains act m' where "entl_received pf m w x aq ac eq = (act, m')" "act \<in> {1, 9}"
    "at_event m' (if l then ENTL_STATE_SAL else ENTL_STATE_SA) (k + 2) s (k + 3)"
proof (cases l)
  case False
  note f = msg_of_fields(1,2)[OF w]
  have e: "expected w m" by (simp add: expected_ev[OF m] f)
  have "entl_received pf m w x aq ac eq = (1, accept_event ENTL_STATE_SA w m)"
    using False by (simp add: call_defs at_eventD[OF m] f entl_received_ra_def e)
  with that at_event_accept[OF m f(2), of ENTL_STATE_SA] False show thesis by (auto simp: add.assoc)
next
  case True
  note f = msg_of_fields(1,2)[OF w]
  have e: "expected w m" by (simp add: expected_ev[OF m] f)
  let ?m = "accept_event ENTL_STATE_RAL w m"
  obtain res a where x: "alo_complete (em_ao ?m) (ALO_OPCODE w) x = (res, a)" by fastforce
  let ?m' = "?m\<lparr>em_ao := a, em_state := (em_state ?m)\<lparr>current_state := ENTL_STATE_SAL\<rparr>\<rparr>"
  have "at_event (?m\<lparr>em_ao := a\<rparr>) ENTL_STATE_RAL (k + 2) s (k + 2 + 1)"
    using at_event_accept[OF m f(2)] by simp
  from at_event_go[OF this, of ENTL_STATE_SAL]
  have m': "at_event ?m' ENTL_STATE_SAL (k + 2) s (k + 3)" by (simp add: add.assoc)
  have "\<exists>act \<in> {1, 9}. entl_received pf m w x aq ac eq = (act, ?m')"
    using True x by (simp add: call_defs at_eventD[OF m] f entl_received_ral_def e)
  then show thesis using that m' True by auto
qed

lemma received_aita:
  assumes m: "at_event m (if l then ENTL_STATE_RBL else ENTL_STATE_RB) k s n"
    and w: "msg_of ENTL_ETYPE_AITA (k + 2) w"
  obtains act m' where "entl_received pf m w x aq ac eq = (act, m')" "act \<in> {1, 9}" "\<not> l \<longrightarrow> act = 9"
    "at_event m' ENTL_STATE_SEND (k + 2) s (k + 3)"
proof (cases l)
  case False
  note f = msg_of_fields(1,2)[OF w]
  have e: "expected w m" by (simp add: expected_ev[OF m] f)
  have "entl_received pf m w x aq ac eq = (9, accept_event ENTL_STATE_SEND w m)"
    using False by (simp add: call_defs at_eventD[OF m] f entl_received_rb_def e)
  with that at_event_accept[OF m f(2), of ENTL_STATE_SEND] show thesis by (auto simp: add.assoc)
next
  case True
  note f = msg_of_fields(1,2)[OF w]
  have e: "expected w m" by (simp add: expected_ev[OF m] f)
  obtain res a where x: "alo_update (em_ao m) (ALO_OPCODE w) = (res, a)" by fastforce
  let ?m = "m\<lparr>em_ao := a\<rparr>"
  have "at_event ?m (if l then ENTL_STATE_RBL else ENTL_STATE_RB) k s n" using m by simp
  from at_event_accept[OF this f(2), of ENTL_STATE_SEND]
  have m': "at_event (accept_event ENTL_STATE_SEND w ?m) ENTL_STATE_SEND (k + 2) s (k + 3)" by (simp add: add.assoc)
  have "\<exists>act \<in> {1, 9}. entl_received pf m w x aq ac eq = (act, accept_event ENTL_STATE_SEND w ?m)"
    using True x by (simp add: call_defs at_eventD[OF m] f entl_received_rbl_def e)
  then show thesis using that m' True by auto
qed

section \<open>The phases are preserved\<close>

lemma link_invI: "in_phase p e s l \<Longrightarrow> link_inv l"
  unfolding link_inv_def by blast

lemma link_send_quiet:
  assumes "entl_next_send (lk_end l u) d c q = ((0, 0, d), lk_end l u)"
    "current_state (em_state (lk_end l u)) \<noteq> ENTL_STATE_SEND \<or> em_error_count (lk_end l u) \<noteq> 0"
  shows "link_send u d c q l = l"
  using assms by (auto simp: link_send_def bump_def)

text \<open>The endpoints that wait, and those that have failed, send nothing.\<close>

lemma waiting_send:
  "waiting m \<Longrightarrow> entl_next_send m d c q = ((0, 0, d), m) \<and> current_state (em_state m) \<noteq> ENTL_STATE_SEND"
  using next_send_quiet by (fastforce simp: waiting_def at_eventD(2))

lemma failed_send: "failed m \<Longrightarrow> entl_next_send m d c q = ((0, 0, d), m) \<and> em_error_count m \<noteq> 0"
  by (simp add: failed_def call_defs)

lemma link_send_waiting: "waiting (lk_end l u) \<Longrightarrow> link_send u d c q l = l"
  using waiting_send by (intro link_send_quiet) blast+

lemma link_send_failed: "failed (lk_end l u) \<Longrightarrow> link_send u d c q l = l"
  using failed_send by (intro link_send_quiet) blast+

lemma waitingI:
  "at_event m ENTL_STATE_RECEIVE k s n \<Longrightarrow> waiting m" "at_event m ENTL_STATE_RA k s n \<Longrightarrow> waiting m"
  "at_event m ENTL_STATE_RAL k s n \<Longrightarrow> waiting m"
  unfolding waiting_def by blast+

lemma offerI: "offer e (entl_msg e)" "ait_msg a e w \<Longrightarrow> offer e w"
  by (simp_all add: offer_def msg_of_fields)

lemma skew_zero [simp]: "skew 0 = 0"
  by (simp add: skew_def)

lemma skew_Suc: "skew (Suc k) = skew k + 2"
  by (simp add: skew_def)

lemma skew_back: "skew k = - 2 \<Longrightarrow> 32767 \<le> k"
proof -
  assume "skew k = - 2"
  then have "(of_nat (2 * k + 2) :: u16) = 0" by (simp add: skew_def)
  then have "unat (of_nat (2 * k + 2) :: u16) = 0" by (simp only: unsigned_0)
  then have "(2 * k + 2) mod 2 ^ 16 = 0" by (simp only: unat_of_nat) simp
  then have "65536 dvd 2 * k + 2" by (simp add: mod_eq_0_iff_dvd)
  then show ?thesis by (auto dest!: dvd_imp_le)
qed

lemma link_recv_empty: "lk_chan l u = [] \<Longrightarrow> link_recv u pf aq ac eq l = l"
  by (simp add: link_recv_def)

lemmas in_phase_simps = in_phase_def link_send_def link_recv_def bump_def Let_def at_eventD(2)

lemma msgs_are_simps [simp]:
  "msgs_are w []" "msgs_are w (m # q) \<longleftrightarrow> fst m = w \<and> msgs_are w q"
  "msgs_are w (q @ q') \<longleftrightarrow> msgs_are w q \<and> msgs_are w q'"
  by (auto simp: msgs_are_def)

lemma ev_arith: "(e :: u16) - 1 + 2 = e + 1" "e - 1 + 3 = e + 2" "e + 1 + 2 = e + 3" "e + 2 + 2 = e + 4"
  "e + 3 + 2 = e + 5" "e + 1 + 3 = e + 4" "e + 1 - 1 = e" "e + 3 - 1 = e + 2" "e + 1 + 1 = e + 2"
  by (simp_all add: algebra_simps)

lemma dead_phase:
  assumes "failed (lk_end l s)" "waiting (lk_end l (\<not> s))" "lk_chan l s = []" "lk_chan l (\<not> s) = []"
    "counts_at Jam s l" "counts_at Jam (\<not> s) l" "lk_refused l t \<noteq> 0 \<or> lk_cancel l t \<noteq> 0"
  shows "in_phase Dead e s l"
  unfolding in_phase_def using assms by (simp only: shape.simps counts_ok.simps peer.simps cause.simps) blast

text \<open>
  The token holder, on either side of a quiet link: after its call it has passed a message on, or
  it has refused an operation and its next event has moved on by two.
\<close>

lemma hold_send:
  assumes ph: "in_phase (Hold k) e s l"
  shows "link_inv (link_send s d c q l)"
proof -
  from ph have m: "at_event (lk_end l s) ENTL_STATE_SEND e (e - 1 + skew k) (e + 1 + skew k)"
    and rest: "at_event (lk_end l (\<not> s)) ENTL_STATE_RECEIVE (e - 1) e (e + 2)" "lk_chan l s = []"
      "msgs_are (entl_msg (e - 1)) (lk_chan l (\<not> s))" and r: "k \<le> lk_refused l s"
    by (simp_all add: in_phase_def)
  have away: "in_phase (Lost (e + 1 + skew k)) e s (link_send s d c q l)"
    if "entl_next_send (lk_end l s) d c q = ((act, w, d'), m')" "act = 0x11 \<or> act = 3 \<or> act = 0x101" "waiting m'"
      "offer (e + 1 + skew k) w" "skew k \<noteq> 0" for act w d' m'
  proof -
    have "k \<noteq> 0" using that(5) by (cases k) simp_all
    moreover have "32767 \<le> lk_refused l s" if "e + 1 + skew k = e - 1"
    proof -
      from that have "skew k = - 2" by (simp add: algebra_simps eq_neg_iff_add_eq_0)
      with skew_back r show ?thesis by (meson order_trans)
    qed
    moreover have "e + 1 + skew k \<noteq> e + 1" using that(5) by simp
    ultimately show ?thesis
      using that(1,2,3,4) ph rest r by (auto simp: in_phase_simps at_eventD(2)[OF m])
  qed
  from m show ?thesis
  proof (cases rule: next_send_send[where d = d and c = c and q = q])
    case (plain d' m')
    show ?thesis
    proof (cases "skew k = 0")
      case True
      with plain have "in_phase Sent e s (link_send s d c q l)"
        using ph by (simp add: in_phase_simps ev_arith)
      then show ?thesis by (rule link_invI)
    next
      case False
      then show ?thesis using away[OF plain(1)] plain(2) by (auto intro: link_invI waitingI offerI)
    qed
  next
    case (ait w d' m')
    show ?thesis
    proof (cases "skew k = 0")
      case True
      with ait have "in_phase (Ask False) e s (link_send s d c q l)"
        using ph by (simp add: in_phase_simps ev_arith at_eventD(2)[OF m])
      then show ?thesis by (rule link_invI)
    next
      case False
      then show ?thesis using away[OF ait(2)] ait(3,4) by (auto intro: link_invI waitingI offerI)
    qed
  next
    case (alo w d' m')
    show ?thesis
    proof (cases "skew k = 0")
      case True
      with alo have "in_phase (Ask True) e s (link_send s d c q l)"
        using ph by (simp add: in_phase_simps ev_arith at_eventD(2)[OF m])
      then show ?thesis by (rule link_invI)
    next
      case False
      then show ?thesis using away[OF alo(2)] alo(3,4) by (auto intro: link_invI waitingI offerI)
    qed
  next
    case (refused d' m')
    have "e - 1 + skew (Suc k) = e + 1 + skew k" "e + 1 + skew (Suc k) = e + 1 + skew k + 2"
      by (simp_all add: skew_Suc algebra_simps)
    then have "in_phase (Hold (Suc k)) e s (link_send s d c q l)"
      using ph refused by (simp add: in_phase_simps at_eventD(1,2)[OF m] ac_simps)
    then show ?thesis by (rule link_invI)
  qed
qed

lemma cancel_send:
  assumes ph: "in_phase (Cancel k) e s l"
  shows "link_inv (link_send (\<not> s) d c q l)"
proof -
  from ph have m: "at_event (lk_end l (\<not> s)) ENTL_STATE_SEND (e + 1) (e + skew k) (e + 2 + skew k)"
    by (simp add: in_phase_def)
  have away: "in_phase Crossed e s (link_send (\<not> s) d c q l)"
    if "entl_next_send (lk_end l (\<not> s)) d c q = ((act, w, d'), m')" "act = 0x11 \<or> act = 3 \<or> act = 0x101" "waiting m'"
      "offer (e + 2 + skew k) w" "GET_ECLP_ETYPE w = ENTL_ETYPE_ENTL \<longrightarrow> skew k \<noteq> 0" for act w d' m'
    using that ph by (auto simp: in_phase_simps at_eventD(2)[OF m])
  from m show ?thesis
  proof (cases rule: next_send_send[where d = d and c = c and q = q])
    case (plain d' m')
    show ?thesis
    proof (cases "skew k = 0")
      case True
      with plain have "in_phase Cancelled e s (link_send (\<not> s) d c q l)"
        using ph by (simp add: in_phase_simps ev_arith)
      then show ?thesis by (rule link_invI)
    next
      case False
      then show ?thesis using away[OF plain(1)] plain(2) by (auto intro: link_invI waitingI offerI)
    qed
  next
    case (ait w d' m')
    then show ?thesis using away[OF ait(2)] ait(3,4)
      by (auto simp: msg_of_fields(3) intro: link_invI waitingI offerI)
  next
    case (alo w d' m')
    then show ?thesis using away[OF alo(2)] alo(3,4)
      by (auto simp: msg_of_fields(3) intro: link_invI waitingI offerI)
  next
    case (refused d' m')
    have "e + skew (Suc k) = e + 2 + skew k" "e + 2 + skew (Suc k) = e + 2 + skew k + 2"
      by (simp_all add: skew_Suc algebra_simps)
    then have "in_phase (Cancel (Suc k)) e s (link_send (\<not> s) d c q l)"
      using ph refused by (simp add: in_phase_simps at_eventD(1,2)[OF m] ac_simps)
    then show ?thesis by (rule link_invI)
  qed
qed

lemma send_X:
  assumes ph: "in_phase p e s l"
  shows "link_inv (link_send s d c q l)"
proof -
  have quiet: "link_inv (link_send s d c q l)"
    if "at_event (lk_end l s) cs k r n"
      "cs \<in> {ENTL_STATE_RECEIVE, ENTL_STATE_RA, ENTL_STATE_RAL, ENTL_STATE_RB, ENTL_STATE_RBL}" for cs k r n
    using link_invI[OF ph] that(2) by (auto simp: link_send_quiet[OF next_send_quiet[OF that]] at_eventD(2)[OF that(1)])
  show ?thesis
  proof (cases p)
    case Start
    with ph have m: "at_event (lk_end l s) ENTL_STATE_SEND 0 0 1" by (simp add: in_phase_def)
    from m obtain d' m' where
      "entl_next_send (lk_end l s) d c q = ((0x11, entl_msg 1, d'), m')" "at_event m' ENTL_STATE_RECEIVE 0 1 3"
      by (cases rule: next_send_send[where d = d and c = c and q = q]) simp_all
    then have "in_phase Started 0 s (link_send s d c q l)"
      using ph Start by (simp add: in_phase_simps)
    then show ?thesis by (rule link_invI)
  next
    case (Hold k)
    with ph hold_send show ?thesis by simp
  next
    case (Acked a)
    with ph have m: "at_event (lk_end l s) (if a then ENTL_STATE_SAL else ENTL_STATE_SA) (e + 2) (e + 1) (e + 3)"
      by (simp add: in_phase_def)
    from m obtain w m' where "entl_next_send (lk_end l s) d c q = ((0x89, w, d), m')"
      "at_event m' ENTL_STATE_RECEIVE (e + 2) (e + 3) (e + 3 + 2)" "msg_of ENTL_ETYPE_AITA (e + 3) w"
      by (rule next_send_sa)
    then have "in_phase (Confirm a) e s (link_send s d c q l)"
      using ph Acked by (cases a) (simp_all add: in_phase_simps ev_arith at_eventD(2)[OF m])
    then show ?thesis by (rule link_invI)
  qed (use ph link_invI[OF ph] in \<open>auto simp: in_phase_def link_send_waiting link_send_failed intro!: quiet split: if_splits\<close>)
qed

lemma send_Y:
  assumes ph: "in_phase p e s l"
  shows "link_inv (link_send (\<not> s) d c q l)"
proof -
  have quiet: "link_inv (link_send (\<not> s) d c q l)"
    if "at_event (lk_end l (\<not> s)) cs k r n"
      "cs \<in> {ENTL_STATE_RECEIVE, ENTL_STATE_RA, ENTL_STATE_RAL, ENTL_STATE_RB, ENTL_STATE_RBL}" for cs k r n
    using link_invI[OF ph] that(2) by (auto simp: link_send_quiet[OF next_send_quiet[OF that]] at_eventD(2)[OF that(1)])
  have wait: "in_phase p e s (link_send (\<not> s) d c q l)" if p: "p \<in> {Start, Started}"
  proof -
    from p ph have m: "at_event (lk_end l (\<not> s)) ENTL_STATE_WAIT 0 0 0" by (auto simp: in_phase_def)
    then have "entl_next_send (lk_end l (\<not> s)) d c q = ((1, entl_msg 0, d), lk_end l (\<not> s))"
      by (rule next_send_wait)
    then show ?thesis using ph p m by (auto simp: in_phase_simps)
  qed
  show ?thesis
  proof (cases p)
    case (Asked a)
    with ph have m: "at_event (lk_end l (\<not> s)) (if a then ENTL_STATE_SBL else ENTL_STATE_SB) (e + 1) e (e + 2)"
      and f: "a \<longrightarrow> ao_return_flag (em_ao (lk_end l (\<not> s))) \<in> {0, 1}"
      by (simp_all add: in_phase_def)
    from m f obtain act w d' m' where n: "entl_next_send (lk_end l (\<not> s)) d c q = ((act, w, d'), m')"
      "act \<in> {1, 0x101}" "at_event m' (if a then ENTL_STATE_RBL else ENTL_STATE_RB) (e + 1) (e + 2) (e + 2 + 2)"
      "msg_of ENTL_ETYPE_AITR (e + 2) w"
      by (rule next_send_sb[where d = d and c = c and q = q])
    from n(2) have "act AND 1 \<noteq> 0" "act AND 2 = 0" "act AND 0x80 = 0" "act \<noteq> 0" by auto
    then have "in_phase (Answer a) e s (link_send (\<not> s) d c q l)"
      using ph Asked n by (cases a) (simp_all add: in_phase_simps ev_arith at_eventD(2)[OF m])
    then show ?thesis by (rule link_invI)
  next
    case (Cancel k)
    with ph cancel_send show ?thesis by simp
  next
    case Start
    then show ?thesis by (intro link_invI[OF wait]) simp
  next
    case Started
    then show ?thesis by (intro link_invI[OF wait]) simp
  qed (use ph link_invI[OF ph] in \<open>auto simp: in_phase_def link_send_waiting intro!: quiet split: if_splits\<close>)
qed

lemma recv_X:
  assumes ph: "in_phase p e s l"
  shows "link_inv (link_recv s pf aq ac eq l)"
proof (cases "lk_chan l s")
  case Nil
  with link_invI[OF ph] show ?thesis by (simp add: link_recv_empty)
next
  case (Cons msg ms)
  obtain w x where msg: "msg = (w, x)" by fastforce
  have rep: "link_inv (link_recv s pf aq ac eq l)"
    if p: "p \<in> {Start, Started}" and m: "at_event (lk_end l s) cs 0 r n" and "cs \<in> {ENTL_STATE_SEND, ENTL_STATE_RECEIVE}"
    for cs r n
  proof -
    from p ph Cons msg have "w = entl_msg 0" by (auto simp: in_phase_def)
    with received_repeat[OF that(2,3)] have "entl_received pf (lk_end l s) w x aq ac eq = (0, lk_end l s)" by simp
    then have "in_phase p e s (link_recv s pf aq ac eq l)"
      using ph p Cons msg by (auto simp: in_phase_simps)
    then show ?thesis by (rule link_invI)
  qed
  show ?thesis
  proof (cases p)
    case (Answer a)
    with ph Cons msg have m: "at_event (lk_end l s) (if a then ENTL_STATE_RAL else ENTL_STATE_RA) e (e + 1) (e + 3)"
      and w: "msg_of ENTL_ETYPE_AITR (e + 2) w" and ms: "ms = []" by (auto simp: in_phase_def)
    from m w obtain act m' where n: "entl_received pf (lk_end l s) w x aq ac eq = (act, m')" "act \<in> {1, 9}"
      "at_event m' (if a then ENTL_STATE_SAL else ENTL_STATE_SA) (e + 2) (e + 1) (e + 3)"
      by (rule received_aitr)
    from n(2) have "act AND 4 = 0" by auto
    then have "in_phase (Acked a) e s (link_recv s pf aq ac eq l)"
      using ph Answer n ms Cons msg
      by (cases a) (simp_all add: in_phase_simps ev_arith at_eventD(2)[OF m])
    then show ?thesis by (rule link_invI)
  next
    case Cancelled
    with ph Cons msg have m: "at_event (lk_end l s) ENTL_STATE_RA e (e + 1) (e + 3)"
      and w: "w = entl_msg (e + 2)" and ms: "ms = []" by (auto simp: in_phase_def)
    from m obtain m' where n: "entl_received pf (lk_end l s) w x aq ac eq = (1, m')"
      "at_event m' ENTL_STATE_SEND (e + 2) (e + 1) (e + 3)" unfolding w by (rule received_ra_plain)
    have "in_phase (Hold 0) (e + 2) s (link_recv s pf aq ac eq l)"
      using ph Cancelled n ms Cons msg
      by (simp add: in_phase_simps ev_arith at_eventD(2)[OF m] msg_of_fields add.commute[of "1 :: u16"] add.commute[of "3 :: u16"])
    then show ?thesis by (rule link_invI)
  next
    case Crossed
    with ph Cons msg obtain v where m: "at_event (lk_end l s) ENTL_STATE_RA e (e + 1) (e + 3)" and ms: "ms = []"
      and w: "offer v w" "GET_ECLP_ETYPE w = ENTL_ETYPE_ENTL \<longrightarrow> v \<noteq> e + 2" by (auto simp: in_phase_def)
    from m w obtain m' where n: "entl_received pf (lk_end l s) w x aq ac eq = (-1, m')" "failed m'"
      by (rule received_ra_bad)
    let ?l = "link_recv s pf aq ac eq l"
    have "failed (lk_end ?l s)" "waiting (lk_end ?l (\<not> s))" "lk_chan ?l s = []" "lk_chan ?l (\<not> s) = []"
      "counts_at Jam s ?l" "counts_at Jam (\<not> s) ?l" "lk_cancel ?l s \<noteq> 0"
      using ph Crossed n ms Cons msg by (auto simp: in_phase_simps at_eventD(2)[OF m])
    then have "in_phase Dead e s ?l" by (intro dead_phase[where t = s]) blast+
    then show ?thesis by (rule link_invI)
  qed (use ph Cons in \<open>auto simp: in_phase_def intro: rep\<close>)
qed

lemma recv_Y:
  assumes ph: "in_phase p e s l"
  shows "link_inv (link_recv (\<not> s) pf aq ac eq l)"
proof (cases "lk_chan l (\<not> s)")
  case Nil
  with link_invI[OF ph] show ?thesis by (simp add: link_recv_empty)
next
  case (Cons msg ms)
  obtain w x where msg: "msg = (w, x)" by fastforce
  let ?Y = "lk_end l (\<not> s)" and ?l = "link_recv (\<not> s) pf aq ac eq l"
  have rep: "in_phase p e s ?l"
    if p: "p = Sent \<or> (\<exists>k. p = Hold k) \<or> (\<exists>a. p = Ask a) \<or> (\<exists>v. p = Lost v)" and w: "w = entl_msg (e - 1)"
      and last: "\<forall>k. p \<noteq> Hold k \<Longrightarrow> ms \<noteq> []"
  proof -
    from p ph have m: "at_event ?Y ENTL_STATE_RECEIVE (e - 1) e (e + 2)" by (auto simp: in_phase_def)
    with w have "entl_received pf ?Y w x aq ac eq = (0, ?Y)" by (simp add: received_repeat)
    then show ?thesis
      using ph p last Cons msg m by (cases p; auto simp: in_phase_simps Cons_eq_append_conv)
  qed
  show ?thesis
  proof (cases p)
    case Started
    with ph Cons msg have m: "at_event ?Y ENTL_STATE_WAIT 0 0 0" and w: "w = entl_msg 1" and ms: "ms = []"
      by (auto simp: in_phase_def)
    from m obtain m' where n: "entl_received pf ?Y w x aq ac eq = (1, m')" "at_event m' ENTL_STATE_SEND 1 0 2"
      unfolding w by (rule received_wait)
    have "in_phase (Hold 0) 1 (\<not> s) ?l"
      using ph Started n ms Cons msg by (simp add: in_phase_simps at_eventD(2)[OF m] skew_def)
    then show ?thesis by (rule link_invI)
  next
    case (Hold k)
    with ph Cons msg have "w = entl_msg (e - 1)" by (simp add: in_phase_def)
    with rep Hold show ?thesis by (intro link_invI[OF rep]) auto
  next
    case Sent
    show ?thesis
    proof (cases "ms = []")
      case False
      with ph Cons msg Sent have "w = entl_msg (e - 1)" by (auto simp: in_phase_def Cons_eq_append_conv)
      with rep Sent False show ?thesis by (intro link_invI[OF rep]) auto
    next
      case True
      with ph Cons msg Sent have m: "at_event ?Y ENTL_STATE_RECEIVE (e - 1) e (e + 2)" and w: "w = entl_msg (e - 1 + 2)"
        by (auto simp: in_phase_def Cons_eq_append_conv ev_arith)
      from m obtain act m' where n: "entl_received pf ?Y w x aq ac eq = (act, m')" "act \<in> {1, 3, 0x11}"
        "at_event m' ENTL_STATE_SEND (e - 1 + 2) e (e - 1 + 3)"
        unfolding w by (rule received_entl)
      from n(2) have "act AND 4 = 0" by auto
      then have "in_phase (Hold 0) (e + 1) (\<not> s) ?l"
        using ph Sent n True Cons msg by (simp add: in_phase_simps at_eventD(2)[OF m] ev_arith msg_of_fields)
      then show ?thesis by (rule link_invI)
    qed
  next
    case (Ask a)
    show ?thesis
    proof (cases "ms = []")
      case False
      with ph Cons msg Ask have "w = entl_msg (e - 1)" by (auto simp: in_phase_def Cons_eq_append_conv)
      with rep Ask False show ?thesis by (intro link_invI[OF rep]) auto
    next
      case True
      with ph Cons msg Ask have m: "at_event ?Y ENTL_STATE_RECEIVE (e - 1) e (e + 2)" and w: "ait_msg a (e - 1 + 2) w"
        by (auto simp: in_phase_def Cons_eq_append_conv ev_arith)
      show ?thesis
      proof (cases "\<not> a \<and> is_ENTT_queue_full (sint aq)")
        case full: True
        with w have w': "ait_msg False (e - 1 + 2) w" by simp
        from m w' full obtain m' where n: "entl_received pf ?Y w x aq ac eq = (1, m')"
          "at_event m' ENTL_STATE_SEND (e - 1 + 2) e (e - 1 + 3)" using received_ait_full by blast
        have "in_phase (Cancel 0) e s ?l"
          using ph Ask True Cons msg n full
          by (auto simp: in_phase_simps at_eventD(2)[OF m] ev_arith skew_def msg_of_fields(3)[OF w'])
        then show ?thesis by (rule link_invI)
      next
        case taken: False
        obtain act m' where n: "entl_received pf ?Y w x aq ac eq = (act, m')" "(act AND 4 \<noteq> 0) = (\<not> a)" "act \<noteq> 1" "act \<noteq> -1"
          "at_event m' (if a then ENTL_STATE_SBL else ENTL_STATE_SB) (e - 1 + 2) e (e - 1 + 3)"
          "a \<longrightarrow> ao_return_flag (em_ao m') \<in> {0, 1}"
        proof (cases a)
          case False
          with w have "ait_msg False (e - 1 + 2) w" by simp
          moreover have "\<not> is_ENTT_queue_full (sint aq)" using taken False by simp
          ultimately obtain act m' where "entl_received pf ?Y w x aq ac eq = (act, m')" "act \<in> {5, 0x805}"
            "at_event m' ENTL_STATE_SB (e - 1 + 2) e (e - 1 + 3)" by (rule received_ait[OF m])
          with that False show thesis by auto
        next
          case True
          with w have "ait_msg True (e - 1 + 2) w" by simp
          from m this obtain act m' where "entl_received pf ?Y w x aq ac eq = (act, m')" "act \<in> {0x201, 0xa01, 0x401}"
            "at_event m' ENTL_STATE_SBL (e - 1 + 2) e (e - 1 + 3)" "ao_return_flag (em_ao m') \<in> {0, 1}"
            by (rule received_alo)
          with that True show thesis by auto
        qed
        then have "in_phase (Asked a) e s ?l"
          using ph Ask True Cons msg
          by (cases a) (auto simp: in_phase_simps at_eventD(2)[OF m] ev_arith)
        then show ?thesis by (rule link_invI)
      qed
    qed
  next
    case (Lost v)
    show ?thesis
    proof (cases "ms = []")
      case False
      with ph Cons msg Lost have "w = entl_msg (e - 1)" by (auto simp: in_phase_def Cons_eq_append_conv)
      with rep Lost False show ?thesis by (intro link_invI[OF rep]) auto
    next
      case True
      with ph Cons msg Lost have m: "at_event ?Y ENTL_STATE_RECEIVE (e - 1) e (e + 2)" and w: "offer v w"
        and X: "waiting (lk_end l s)" and v: "v \<noteq> e - 1 + 2"
        by (auto simp: in_phase_def Cons_eq_append_conv ev_arith)
      show ?thesis
      proof (cases "v = e - 1")
        case again: True
        with received_offer_repeat[OF m] w have "entl_received pf ?Y w x aq ac eq = (0, ?Y)" by simp
        then have "in_phase Jam e s ?l"
          using ph Lost True Cons msg X again waitingI(1)[OF m] by (auto simp: in_phase_simps)
        then show ?thesis by (rule link_invI)
      next
        case False
        with m w v obtain m' where n: "entl_received pf ?Y w x aq ac eq = (-1, m')" "failed m'"
          by (rule received_offer_bad)
        have "failed (lk_end ?l (\<not> s))" "waiting (lk_end ?l (\<not> \<not> s))" "lk_chan ?l (\<not> s) = []" "lk_chan ?l (\<not> \<not> s) = []"
          "counts_at Jam (\<not> s) ?l" "counts_at Jam (\<not> \<not> s) ?l" "lk_refused ?l s \<noteq> 0"
          using ph Lost True Cons msg X n by (auto simp: in_phase_simps at_eventD(2)[OF m])
        then have "in_phase Dead e (\<not> s) ?l" by (intro dead_phase[where t = s]) blast+
        then show ?thesis by (rule link_invI)
      qed
    qed
  next
    case (Confirm a)
    with ph Cons msg have m: "at_event ?Y (if a then ENTL_STATE_RBL else ENTL_STATE_RB) (e + 1) (e + 2) (e + 4)"
      and w: "msg_of ENTL_ETYPE_AITA (e + 1 + 2) w" and ms: "ms = []" by (auto simp: in_phase_def ev_arith)
    from m w obtain act m' where n: "entl_received pf ?Y w x aq ac eq = (act, m')" "act \<in> {1, 9}" "\<not> a \<longrightarrow> act = 9"
      "at_event m' ENTL_STATE_SEND (e + 1 + 2) (e + 2) (e + 1 + 3)" by (rule received_aita)
    from n(2) have "act AND 4 = 0" by auto
    then have "in_phase (Hold 0) (e + 3) (\<not> s) ?l"
      using ph Confirm n ms Cons msg
      by (cases a) (simp_all add: in_phase_simps at_eventD(2)[OF m] ev_arith add.commute[of "4 :: u16"] skew_def)
    then show ?thesis by (rule link_invI)
  qed (use ph Cons in \<open>auto simp: in_phase_def\<close>)
qed

lemma link_step_inv:
  assumes "link_step l l'" "link_inv l"
  shows "link_inv l'"
proof -
  from assms(2) obtain p e s where ph: "in_phase p e s l" unfolding link_inv_def by blast
  from assms(1) show ?thesis
  proof cases
    case (send u d c q)
    then show ?thesis using send_X[OF ph] send_Y[OF ph] by (cases u; cases s) auto
  next
    case (recv u pf q ac eq)
    then show ?thesis using recv_X[OF ph] recv_Y[OF ph] by (cases u; cases s) auto
  qed
qed

section \<open>Properties of the link\<close>

text \<open>An endpoint that has something to send; the other states wait for a message.\<close>

definition holds_token :: "entl_state_machine \<Rightarrow> bool" where
  "holds_token mcn \<longleftrightarrow> current_state (em_state mcn)
     \<in> {ENTL_STATE_SEND, ENTL_STATE_SA, ENTL_STATE_SAL, ENTL_STATE_SB, ENTL_STATE_SBL}"

definition established :: "link \<Rightarrow> bool" where
  "established l \<longleftrightarrow> (\<exists>s. in_phase Start 0 s l)"

lemma established_inv:
  assumes "established l0" "link_step\<^sup>*\<^sup>* l0 l"
  shows "link_inv l"
  using assms(2,1)
  by (induction rule: rtranclp_induct) (auto simp: established_def intro: link_invI link_step_inv)

lemma waiting_errors: "waiting m \<Longrightarrow> em_error_count m = 0 \<and> em_error_flag m = 0"
  by (auto simp: waiting_def at_event_def)

text \<open>An endpoint has recorded an error in the phase \<open>Dead\<close> only, and that side only.\<close>

lemma in_phase_errors:
  assumes "in_phase p e s l"
  shows "p \<noteq> Dead \<Longrightarrow> em_error_count (lk_end l u) = 0 \<and> em_error_flag (lk_end l u) = 0"
proof -
  assume "p \<noteq> Dead"
  then have "em_error_count (lk_end l s) = 0 \<and> em_error_flag (lk_end l s) = 0 \<and>
    em_error_count (lk_end l (\<not> s)) = 0 \<and> em_error_flag (lk_end l (\<not> s)) = 0"
    using assms waiting_errors by (cases p) (auto simp: in_phase_def at_event_def)
  then show ?thesis by (cases u; cases s) auto
qed

text \<open>The final phases: nothing is under way, nobody sends.\<close>

definition silent :: "link \<Rightarrow> bool" where
  "silent l \<longleftrightarrow> (\<forall>s. lk_chan l s = [] \<and> (\<forall>d c q. entl_next_send (lk_end l s) d c q = ((ENTL_ACTION_NOP, ENTL_ETYPE_NOP, d), lk_end l s)))"

lemma silentI:
  assumes "lk_chan l s = []" "lk_chan l (\<not> s) = []" "waiting (lk_end l s) \<or> failed (lk_end l s)" "waiting (lk_end l (\<not> s))"
  shows "silent l"
  unfolding silent_def
proof
  fix t
  have "t = s \<or> t = (\<not> s)" by blast
  then show "lk_chan l t = [] \<and>
      (\<forall>d c q. entl_next_send (lk_end l t) d c q = ((ENTL_ACTION_NOP, ENTL_ETYPE_NOP, d), lk_end l t))"
    using assms waiting_send failed_send by blast
qed

lemma in_phase_silent:
  assumes "in_phase p e s l" "p \<in> {Dead, Jam}"
  shows "silent l"
  by (rule silentI[of _ s]) (use assms in \<open>auto simp: in_phase_def\<close>)

lemma in_phase_disturbed:
  assumes "in_phase p e s l" "p = Dead"
  shows "\<exists>t. lk_refused l t \<noteq> 0 \<or> lk_cancel l t \<noteq> 0"
  using assms by (simp add: in_phase_def)

lemma holds_token_at:
  "at_event m cs k r n \<Longrightarrow> holds_token m \<longleftrightarrow>
     cs \<in> {ENTL_STATE_SEND, ENTL_STATE_SA, ENTL_STATE_SAL, ENTL_STATE_SB, ENTL_STATE_SBL}"
  by (simp add: holds_token_def at_event_def)

lemma waiting_token: "waiting m \<Longrightarrow> \<not> holds_token m"
  using holds_token_at by (fastforce simp: waiting_def)

lemma failed_token: "failed m \<Longrightarrow> \<not> holds_token m"
  by (simp add: failed_def holds_token_def)

text \<open>Who holds the token, and what is under way, in each phase.\<close>

lemma in_phase_token:
  assumes "in_phase p e s l"
  shows "holds_token (lk_end l s) \<longleftrightarrow> p = Start \<or> (\<exists>k. p = Hold k) \<or> (\<exists>a. p = Acked a)"
    and "holds_token (lk_end l (\<not> s)) \<longleftrightarrow> (\<exists>a. p = Asked a) \<or> (\<exists>k. p = Cancel k)"
    and "\<not> holds_token (lk_end l s) \<Longrightarrow> \<not> holds_token (lk_end l (\<not> s)) \<Longrightarrow> p \<notin> {Dead, Jam} \<Longrightarrow>
           lk_chan l s \<noteq> [] \<or> lk_chan l (\<not> s) \<noteq> []"
  using assms by (cases p; auto simp: in_phase_def holds_token_at waiting_token failed_token split: if_splits)+

lemma counts_chain:
  "counts_ok p sent can prc drp sig \<Longrightarrow> sig \<le> drp \<and> drp \<le> prc \<and> can + prc \<le> sent \<and> sent \<le> can + sig + 1"
  by (cases "(p, sent, can, prc, drp, sig)" rule: counts_ok.cases) auto

lemma in_phase_counts:
  assumes "in_phase p e s l"
  shows "lk_sig l u \<le> lk_drop l u \<and> lk_drop l u \<le> lk_proc l u \<and> lk_cancel l u + lk_proc l u \<le> lk_sent l u \<and>
    lk_sent l u \<le> lk_cancel l u + lk_sig l u + 1"
proof -
  have "u = s \<or> u = (\<not> s)" by blast
  with assms have "\<exists>p. counts_at p u l" unfolding in_phase_def by blast
  then show ?thesis using counts_chain by blast
qed

text \<open>An endpoint that has the token is at an event; an acknowledgement it has to send is in order.\<close>

lemma in_phase_holder:
  assumes ph: "in_phase p e s l" and t: "holds_token (lk_end l u)"
  shows "\<exists>cs k r n. at_event (lk_end l u) cs k r n \<and>
    (cs = ENTL_STATE_SBL \<longrightarrow> ao_return_flag (em_ao (lk_end l u)) \<in> {0, 1})"
proof -
  have "u = s \<or> u = (\<not> s)" by blast
  then consider "u = s" "p = Start \<or> (\<exists>k. p = Hold k) \<or> (\<exists>a. p = Acked a)"
    | "u = (\<not> s)" "(\<exists>a. p = Asked a) \<or> (\<exists>k. p = Cancel k)"
    using t in_phase_token(1,2)[OF ph] by blast
  then show ?thesis
  proof cases
    case 1
    then show ?thesis using ph by (fastforce simp: in_phase_def split: if_splits)
  next
    case 2
    then show ?thesis using ph by (fastforce simp: in_phase_def split: if_splits)
  qed
qed

text \<open>An endpoint with the token transmits.\<close>

lemma token_transmits:
  assumes m: "at_event m cs k r n" and t: "holds_token m" and ok: "command_ok m c q"
    and f: "cs = ENTL_STATE_SBL \<longrightarrow> ao_return_flag (em_ao m) \<in> {0, 1}"
  shows "fst (fst (entl_next_send m d c q)) AND 1 \<noteq> 0"
proof -
  from t consider "cs = ENTL_STATE_SEND" | "cs = ENTL_STATE_SA" | "cs = ENTL_STATE_SAL"
    | "cs = ENTL_STATE_SB" | "cs = ENTL_STATE_SBL"
    unfolding holds_token_at[OF m] by blast
  then show ?thesis
  proof cases
    case 1
    with m have "at_event m ENTL_STATE_SEND k r n" by simp
    then show ?thesis by (rule next_send_send[where d = d and c = c and q = q]) (use ok in simp_all)
  next
    case 2
    with m have "at_event m (if False then ENTL_STATE_SAL else ENTL_STATE_SA) k r n" by simp
    then show ?thesis by (rule next_send_sa[where d = d and c = c and q = q]) simp
  next
    case 3
    with m have "at_event m (if True then ENTL_STATE_SAL else ENTL_STATE_SA) k r n" by simp
    then show ?thesis by (rule next_send_sa[where d = d and c = c and q = q]) simp
  next
    case 4
    with m have "at_event m (if False then ENTL_STATE_SBL else ENTL_STATE_SB) k r n" by simp
    then show ?thesis by (rule next_send_sb[where d = d and c = c and q = q]) auto
  next
    case 5
    with m have "at_event m (if True then ENTL_STATE_SBL else ENTL_STATE_SB) k r n" by simp
    moreover have "True \<longrightarrow> ao_return_flag (em_ao m) \<in> {0, 1}" using 5 f by simp
    ultimately show ?thesis by (rule next_send_sb[where d = d and c = c and q = q]) auto
  qed
qed

text \<open>Concrete endpoints, for the witnesses.\<close>

definition sample_endpoint :: "u32 \<Rightarrow> u16 \<Rightarrow> u16 \<Rightarrow> u16 \<Rightarrow> entl_state_machine" where
  "sample_endpoint cs k s n =
     \<lparr>em_state = \<lparr>current_state = cs, event_i_know = ev k, event_i_sent = ev s, event_send_next = ev n\<rparr>,
      em_ao = sample_regs 0, em_error_state = zero_state 0, em_error_flag = 0, em_p_error_flag = 0,
      em_error_count = 0, em_state_count = 0, em_my_value = 0xbeef, em_credit = 0\<rparr>"

definition sample_link :: link where
  "sample_link = \<lparr>lk_end = (\<lambda>s. if s then sample_endpoint ENTL_STATE_SEND 0 0 1 else sample_endpoint ENTL_STATE_WAIT 0 0 0),
     lk_chan = (\<lambda>s. []), lk_sent = (\<lambda>s. 0), lk_proc = (\<lambda>s. 0), lk_drop = (\<lambda>s. 0), lk_sig = (\<lambda>s. 0),
     lk_cancel = (\<lambda>s. 0), lk_refused = (\<lambda>s. 0)\<rparr>"

lemma sample_link_established: "established sample_link"
  unfolding established_def
  by (rule exI[of _ True]) (simp add: in_phase_def sample_link_def at_event_def sample_endpoint_def)

text \<open>Runs of calls: a send with an operation command and an AIT queue length, or a delivery.\<close>

datatype link_call = Send bool u32 u32 | Deliver bool u32

primrec do_call :: "link_call \<Rightarrow> link \<Rightarrow> link" where
  "do_call (Send s c q) l = link_send s 0 c q l"
| "do_call (Deliver s q) l = link_recv s Netronome_me q 0 0 l"

lemma do_calls_reach: "link_step\<^sup>*\<^sup>* l (fold do_call cs l)"
proof (induction cs arbitrary: l)
  case (Cons c cs)
  have "link_step l (do_call c l)" by (cases c) (simp_all add: link_step.intros)
  then show ?case using Cons.IH by (simp add: converse_rtranclp_into_rtranclp)
qed simp

text \<open>
  Runs for the witnesses. In the first, False transfers an AIT frame. In the second its frame is cancelled by the
  full queue of True, the plain event of True gives the token back, and the frame is sent again.
  In the third an operation is refused and the next event breaks the link.
\<close>

definition start_run :: "link_call list" where
  "start_run = [Send True 0 0, Deliver False 0]"

definition ait_run :: "link_call list" where
  "ait_run = start_run @ [Send False 0 1, Deliver True 0, Send True 0 0, Deliver False 0, Send False 0 0, Deliver True 0]"

definition cancel_run :: "link_call list" where
  "cancel_run = start_run @ [Send False 0 1, Deliver True 32, Send True 0 0, Deliver False 0, Send False 0 1, Deliver True 0]"

definition refused_run :: "link_call list" where
  "refused_run = start_run @ [Send False 0x7000 0, Send False 0 0, Deliver True 0]"

text \<open>
  Claim C1. On an established link (one endpoint has just accepted the first event, the other waits for
  the answer), whatever the two sides send and however calls and deliveries interleave, refused
  operations and full queues included: the two ends are never both in a state in which they
  send. As long as no operation has been refused and no AIT frame cancelled, no end records an
  error; and once an end has recorded one the link is silent: nothing is under way and
  neither end sends anything on any call.
\<close>

theorem link_one_token:
  assumes "established l0" "link_step\<^sup>*\<^sup>* l0 l"
  shows "\<not> (holds_token (lk_end l True) \<and> holds_token (lk_end l False)) \<and>
    ((\<forall>t. lk_refused l t = 0 \<and> lk_cancel l t = 0) \<longrightarrow> em_error_count (lk_end l u) = 0 \<and> em_error_flag (lk_end l u) = 0) \<and>
    (em_error_count (lk_end l u) \<noteq> 0 \<longrightarrow>
       (\<forall>t. lk_chan l t = [] \<and>
          (\<forall>d c q. entl_next_send (lk_end l t) d c q = ((ENTL_ACTION_NOP, ENTL_ETYPE_NOP, d), lk_end l t))))"
proof -
  from established_inv[OF assms] obtain p e s where ph: "in_phase p e s l" unfolding link_inv_def by blast
  have "\<not> (holds_token (lk_end l s) \<and> holds_token (lk_end l (\<not> s)))"
    unfolding in_phase_token(1,2)[OF ph] by auto
  then have "\<not> (holds_token (lk_end l True) \<and> holds_token (lk_end l False))" by (cases s) auto
  moreover have "em_error_count (lk_end l u) \<noteq> 0 \<Longrightarrow> silent l"
    using in_phase_errors[OF ph] in_phase_silent[OF ph] by blast
  ultimately show ?thesis
    using in_phase_errors[OF ph] in_phase_disturbed[OF ph] unfolding silent_def by (cases "p = Dead") auto
qed

lemma link_one_token_witness:
  "em_error_count (lk_end (fold do_call refused_run sample_link) True) = 1 \<and>
    (\<forall>t. lk_chan (fold do_call refused_run sample_link) t = [] \<and>
      (\<forall>d c q. entl_next_send (lk_end (fold do_call refused_run sample_link) t) d c q =
         ((ENTL_ACTION_NOP, ENTL_ETYPE_NOP, d), lk_end (fold do_call refused_run sample_link) t)))"
proof -
  have "em_error_count (lk_end (fold do_call refused_run sample_link) True) = 1" by code_simp
  then show ?thesis
    using link_one_token[OF sample_link_established do_calls_reach[of sample_link refused_run], of True] by simp
qed

text \<open>
  Claim C2. AIT frames are transferred atomically, whatever calls are made: at every moment, for the
  frames one side sends, the signals at the receiver, the drops from the sender's queue and
  the frames the receiver processed form a chain, every frame sent was processed or was
  cancelled by a receiver whose queue was full, except for at most one frame, the one under
  way. So a frame is dropped only after the receiver has processed it, a cancelled one is
  neither processed nor dropped, none is processed twice, and the next one is sent only after
  the completion of the last was signalled or the last was cancelled.
\<close>

theorem ait_transferred_once:
  assumes "established l0" "link_step\<^sup>*\<^sup>* l0 l"
  shows "lk_sig l u \<le> lk_drop l u \<and> lk_drop l u \<le> lk_proc l u \<and> lk_cancel l u + lk_proc l u \<le> lk_sent l u \<and>
    lk_sent l u \<le> lk_cancel l u + lk_sig l u + 1"
  using established_inv[OF assms] in_phase_counts unfolding link_inv_def by blast

lemma ait_transferred_once_witness:
  "lk_sent (fold do_call cancel_run sample_link) False = 2 \<and> lk_cancel (fold do_call cancel_run sample_link) False = 1 \<and>
    lk_sig (fold do_call cancel_run sample_link) False \<le> lk_drop (fold do_call cancel_run sample_link) False \<and>
    lk_drop (fold do_call cancel_run sample_link) False \<le> lk_proc (fold do_call cancel_run sample_link) False \<and>
    lk_proc (fold do_call cancel_run sample_link) False \<le> 1"
proof -
  have "lk_sent (fold do_call cancel_run sample_link) False = 2" "lk_cancel (fold do_call cancel_run sample_link) False = 1"
    by code_simp+
  then show ?thesis
    using ait_transferred_once[OF sample_link_established do_calls_reach[of sample_link cancel_run], of False] by simp
qed

text \<open>
  Claim C6. The link does not get stuck: in every reachable state, whatever calls were made, a message is
  under way, or an endpoint has the token and transmits on every call for the next message
  except one with an operation that it refuses, or an endpoint has recorded an error, or one
  side has refused 32767 operations (then the event numbers have come round to the last one).
\<close>

theorem link_never_stuck:
  assumes "established l0" "link_step\<^sup>*\<^sup>* l0 l"
  shows "(\<exists>u. lk_chan l u \<noteq> []) \<or>
    (\<exists>u. holds_token (lk_end l u) \<and>
       (\<forall>d c q. command_ok (lk_end l u) c q \<longrightarrow>
          fst (fst (entl_next_send (lk_end l u) d c q)) AND ENTL_ACTION_SEND \<noteq> 0)) \<or>
    (\<exists>u. em_error_count (lk_end l u) \<noteq> 0) \<or> (\<exists>u. 32767 \<le> lk_refused l u)"
proof (cases "\<exists>u. lk_chan l u \<noteq> []")
  case False
  from established_inv[OF assms] obtain p e s where ph: "in_phase p e s l" unfolding link_inv_def by blast
  show ?thesis
  proof (cases "p \<in> {Dead, Jam}")
    case True
    then show ?thesis using ph by (auto simp: in_phase_def failed_def)
  next
    case go: False
    from in_phase_token(3)[OF ph _ _ go] False obtain u where u: "holds_token (lk_end l u)" by blast
    from in_phase_holder[OF ph u] obtain cs k r n where "at_event (lk_end l u) cs k r n"
      "cs = ENTL_STATE_SBL \<longrightarrow> ao_return_flag (em_ao (lk_end l u)) \<in> {0, 1}" by blast
    from token_transmits[OF this(1) u _ this(2)] u show ?thesis by blast
  qed
qed blast

lemma link_never_stuck_witness:
  "\<exists>u. holds_token (lk_end (fold do_call ait_run sample_link) u) \<and>
       (\<forall>d c q. command_ok (lk_end (fold do_call ait_run sample_link) u) c q \<longrightarrow>
          fst (fst (entl_next_send (lk_end (fold do_call ait_run sample_link) u) d c q)) AND ENTL_ACTION_SEND \<noteq> 0)"
proof -
  have "list_all (\<lambda>u. lk_chan (fold do_call ait_run sample_link) u = []) [True, False]"
    "list_all (\<lambda>u. em_error_count (lk_end (fold do_call ait_run sample_link) u) = 0) [True, False]"
    "list_all (\<lambda>u. lk_refused (fold do_call ait_run sample_link) u = 0) [True, False]"
    by code_simp+
  then have "lk_chan (fold do_call ait_run sample_link) u = []"
    "em_error_count (lk_end (fold do_call ait_run sample_link) u) = 0"
    "lk_refused (fold do_call ait_run sample_link) u = 0" for u
    by (cases u; simp)+
  then show ?thesis
    using link_never_stuck[OF sample_link_established do_calls_reach[of sample_link ait_run]] by simp
qed

section \<open>Establishing a link\<close>

lemma hello_fields:
  "GET_ECLP_ETYPE (ENTL_ETYPE_HELLO OR evw v) = ENTL_ETYPE_HELLO" "GET_ECLP_VALUE (ENTL_ETYPE_HELLO OR evw v) = evw v"
  by (simp_all add: msg_fields) (simp_all add: GET_ECLP_ETYPE_def GET_ECLP_VALUE_def)

definition in_hello :: "entl_state_machine \<Rightarrow> u16 \<Rightarrow> bool" where
  "in_hello mcn v \<longleftrightarrow> em_error_count mcn = 0 \<and> em_error_flag mcn = 0 \<and> em_state mcn = zero_state ENTL_STATE_HELLO \<and>
     em_my_value mcn = ev v"

definition quiet_link :: "link \<Rightarrow> bool" where
  "quiet_link l \<longleftrightarrow> lk_chan l = (\<lambda>s. []) \<and> lk_sent l = (\<lambda>s. 0) \<and> lk_proc l = (\<lambda>s. 0) \<and>
     lk_drop l = (\<lambda>s. 0) \<and> lk_sig l = (\<lambda>s. 0) \<and> lk_cancel l = (\<lambda>s. 0) \<and> lk_refused l = (\<lambda>s. 0)"

text \<open>
  Claim C7. The handshake: from two endpoints in Hello with different values, the hello of the endpoint
  with the smaller value, and the first event of the other, establish the link: the endpoint
  with the smaller value gets the token.
\<close>

theorem handshake_establishes:
  assumes "quiet_link l" "in_hello (lk_end l a) v" "in_hello (lk_end l (\<not> a)) w" "w < v"
  shows "established (link_recv (\<not> a) pf' q3 q4 q5 (link_send a d' 0 q' (link_recv a pf q0 q1 q2 (link_send (\<not> a) d c q l))))"
proof -
  let ?A = "lk_end l a" and ?B = "lk_end l (\<not> a)"
  have "unat (ucast x :: u64) = unat x" for x :: u16
    by (simp add: unsigned_ucast_eq take_bit_nat_eq_self order.strict_trans[OF unsigned_less])
  then have vw: "evw w < evw v"
    using assms(4) by (simp add: evw_ucast word_less_nat_alt)
  have h: "entl_next_send ?B d c q = ((1, ENTL_ETYPE_HELLO OR evw w, d), ?B)"
    using assms(3) by (simp add: entl_next_send_def in_hello_def zero_state_def Let_def)
  let ?A' = "?A\<lparr>em_state := zero_state ENTL_STATE_WAIT, em_state_count := 0\<rparr>"
  have r: "entl_received pf ?A (ENTL_ETYPE_HELLO OR evw w) d q0 q1 q2 = (1, ?A')"
  proof -
    have v: "em_my_value ?A = ev v" using assms(2) by (simp add: in_hello_def)
    have "entl_received pf ?A (ENTL_ETYPE_HELLO OR evw w) d q0 q1 q2 = entl_received_hello pf (ENTL_ETYPE_HELLO OR evw w) ?A"
      using assms(2) by (simp add: entl_received_def hello_fields in_hello_def zero_state_def)
    also have "\<dots> = (1, ?A')"
      unfolding entl_received_hello_def hello_fields v using vw by simp
    finally show ?thesis .
  qed
  have A': "at_event ?A' ENTL_STATE_WAIT 0 0 0"
    using assms(2) by (simp add: at_event_def in_hello_def zero_state_def)
  have s: "entl_next_send ?A' d' 0 q' = ((1, entl_msg 0, d'), ?A')"
    by (rule next_send_wait[OF A'])
  let ?B' = "?B\<lparr>em_state := (em_state ?B)\<lparr>event_i_know := 0, event_send_next := 1, current_state := ENTL_STATE_SEND\<rparr>\<rparr>"
  have e: "entl_received pf' ?B (entl_msg 0) d' q3 q4 q5 = (1, ?B')"
  proof -
    have "entl_received pf' ?B (entl_msg 0) d' q3 q4 q5 = entl_received_hello pf' (entl_msg 0) ?B"
      using assms(3) by (simp add: entl_received_def msg_of_fields in_hello_def zero_state_def)
    also have "\<dots> = (1, ?B')"
      unfolding entl_received_hello_def msg_of_fields by simp
    finally show ?thesis .
  qed
  have B': "at_event ?B' ENTL_STATE_SEND 0 0 1"
    using assms(3) by (simp add: at_event_def in_hello_def zero_state_def)
  define l1 where "l1 = link_send (\<not> a) d c q l"
  define l2 where "l2 = link_recv a pf q0 q1 q2 l1"
  define l3 where "l3 = link_send a d' 0 q' l2"
  define l4 where "l4 = link_recv (\<not> a) pf' q3 q4 q5 l3"
  note q = assms(1)[unfolded quiet_link_def]
  note links = link_send_def link_recv_def bump_def Let_def
  have l1: "lk_end l1 = lk_end l" "lk_chan l1 = (\<lambda>s. [])(a := [(ENTL_ETYPE_HELLO OR evw w, d)])"
    "lk_sent l1 = (\<lambda>s. 0)" "lk_proc l1 = (\<lambda>s. 0)" "lk_drop l1 = (\<lambda>s. 0)" "lk_sig l1 = (\<lambda>s. 0)" "lk_cancel l1 = (\<lambda>s. 0)" "lk_refused l1 = (\<lambda>s. 0)"
    using q by (simp_all add: l1_def links h)
  have l2: "lk_end l2 = (lk_end l)(a := ?A')" "lk_chan l2 = (\<lambda>s. [])"
    "lk_sent l2 = (\<lambda>s. 0)" "lk_proc l2 = (\<lambda>s. 0)" "lk_drop l2 = (\<lambda>s. 0)" "lk_sig l2 = (\<lambda>s. 0)" "lk_cancel l2 = (\<lambda>s. 0)" "lk_refused l2 = (\<lambda>s. 0)"
    by (simp_all add: l2_def links l1 r hello_fields fun_upd_idem_iff)
  have l3: "lk_end l3 = (lk_end l)(a := ?A')" "lk_chan l3 = (\<lambda>s. [])((\<not> a) := [(entl_msg 0, d')])"
    "lk_sent l3 = (\<lambda>s. 0)" "lk_proc l3 = (\<lambda>s. 0)" "lk_drop l3 = (\<lambda>s. 0)" "lk_sig l3 = (\<lambda>s. 0)" "lk_cancel l3 = (\<lambda>s. 0)" "lk_refused l3 = (\<lambda>s. 0)"
    by (simp_all add: l3_def links l2 s)
  have l4: "lk_end l4 = (lk_end l)(a := ?A', (\<not> a) := ?B')" "lk_chan l4 = (\<lambda>s. [])"
    "lk_sent l4 = (\<lambda>s. 0)" "lk_proc l4 = (\<lambda>s. 0)" "lk_drop l4 = (\<lambda>s. 0)" "lk_sig l4 = (\<lambda>s. 0)" "lk_cancel l4 = (\<lambda>s. 0)" "lk_refused l4 = (\<lambda>s. 0)"
    by (simp_all add: l4_def links l3 e msg_of_fields fun_upd_idem_iff)
  have "in_phase Start 0 (\<not> a) l4"
    using A' B' by (simp add: in_phase_def l4)
  then have "established l4" unfolding established_def by blast
  then show ?thesis by (simp only: l1_def l2_def l3_def l4_def)
qed

text \<open>Both ends in Hello with the constant value, and only its hellos under way.\<close>

definition hello_tie :: "link \<Rightarrow> bool" where
  "hello_tie l \<longleftrightarrow> (\<forall>s. current_state (em_state (lk_end l s)) = ENTL_STATE_HELLO \<and> em_my_value (lk_end l s) = 0xbeef \<and>
     (\<forall>m \<in> set (lk_chan l s). fst m = 0x10000beef))"

inductive me_step :: "link \<Rightarrow> link \<Rightarrow> bool" where
  "me_step l (link_send s alo_data alo_command ait_queue l)"
| "me_step l (link_recv s Netronome_me ait_queue ait_command egress_queue l)"

lemma hello_tie_step:
  assumes "me_step l l'" "hello_tie l"
  shows "hello_tie l'"
  using assms(1)
proof cases
  case (1 s d c q)
  have "entl_next_send (lk_end l s) d c q =
      (if em_error_count (lk_end l s) \<noteq> 0 then (0, 0, d) else (1, 0x10000beef, d), lk_end l s)"
    using assms(2) by (simp add: hello_tie_def entl_next_send_def Let_def)
  then show ?thesis using assms(2) by (auto simp: 1 link_send_def hello_tie_def bump_def Let_def)
next
  case (2 s q c e)
  show ?thesis
  proof (cases "lk_chan l s")
    case Nil
    then show ?thesis using assms(2) by (simp add: 2 link_recv_empty)
  next
    case (Cons m ms)
    have "fst m = 0x10000beef" using assms(2) Cons unfolding hello_tie_def by (metis list.set_intros(1))
    then obtain x where m: "m = (0x10000beef, x)" by (cases m) simp
    let ?m = "lk_end l s"
    have "entl_received Netronome_me ?m 0x10000beef x q c e = (1, entl_set_random Netronome_me ?m)"
      using assms(2)
      by (simp add: hello_tie_def entl_received_def entl_received_hello_def GET_ECLP_ETYPE_def GET_ECLP_VALUE_def)
    moreover have "\<forall>m \<in> set ms. fst m = 0x10000beef"
      using assms(2) Cons unfolding hello_tie_def by (metis list.set_intros(2))
    ultimately show ?thesis using assms(2) Cons
      by (simp add: 2 m link_recv_def hello_tie_def bump_def Let_def entl_set_random_def)
  qed
qed

text \<open>
  On the micro-engine build both ends use the same constant value, so the comparison of the
  hello values never decides: two such endpoints stay in Hello for good, whatever is sent and
  delivered.
\<close>

theorem firmware_link_never_connects:
  assumes "hello_tie l0" "me_step\<^sup>*\<^sup>* l0 l"
  shows "current_state (em_state (lk_end l s)) = ENTL_STATE_HELLO"
proof -
  from assms(2,1) have "hello_tie l" by (induction rule: rtranclp_induct) (auto intro: hello_tie_step)
  then show ?thesis by (simp add: hello_tie_def)
qed

definition fresh_link :: "u32 \<Rightarrow> u32 \<Rightarrow> link" where
  "fresh_link v w = \<lparr>lk_end = (\<lambda>s. if s then sample_machine ENTL_STATE_HELLO v 0 else sample_machine ENTL_STATE_HELLO w 0),
     lk_chan = (\<lambda>s. []), lk_sent = (\<lambda>s. 0), lk_proc = (\<lambda>s. 0), lk_drop = (\<lambda>s. 0), lk_sig = (\<lambda>s. 0),
     lk_cancel = (\<lambda>s. 0), lk_refused = (\<lambda>s. 0)\<rparr>"

lemma handshake_establishes_witness:
  "established (link_recv False Netronome_me 0 0 0 (link_send True 0 0 0
     (link_recv True Netronome_me 0 0 0 (link_send False 0 0 0 (fresh_link 0x1234 0x0042)))))"
  by (rule handshake_establishes[where a = True and v = "0x1234" and w = "0x0042", simplified])
    (simp_all add: quiet_link_def in_hello_def fresh_link_def sample_machine_def)

lemma firmware_link_never_connects_witness:
  "current_state (em_state (lk_end (link_recv True Netronome_me 0 0 0 (link_send False 0 0 0 (fresh_link 0xbeef 0xbeef))) True))
     = ENTL_STATE_HELLO"
proof (rule firmware_link_never_connects)
  show "hello_tie (fresh_link 0xbeef 0xbeef)"
    by (simp add: hello_tie_def fresh_link_def sample_machine_def zero_state_def)
  show "me_step\<^sup>*\<^sup>* (fresh_link 0xbeef 0xbeef)
      (link_recv True Netronome_me 0 0 0 (link_send False 0 0 0 (fresh_link 0xbeef 0xbeef)))"
    by (rule rtranclp.rtrancl_into_rtrancl[OF r_into_rtranclp]) (rule me_step.intros)+
qed

section \<open>The two disturbances\<close>

lemma next_send_plain:
  assumes m: "at_event m ENTL_STATE_SEND k s n"
  shows "\<exists>m'. entl_next_send m d 0 0 = ((0x11, entl_msg n, d), m')"
proof -
  note m' = at_event_next[OF m, of ENTL_STATE_SEND]
  show ?thesis
    unfolding entl_next_send_def entl_next_send_send_def Let_def at_eventD[OF m] at_eventD[OF m']
    by (simp add: ALO_COMMAND_OPCODE_def entl_msg_def)
qed

lemma next_send_ait:
  assumes m: "at_event m ENTL_STATE_SEND k s n" and "ev k \<noteq> 0 \<or> ev s \<noteq> 0" "q \<noteq> 0"
  shows "\<exists>m'. entl_next_send m d 0 q = ((3, evw n OR ENTL_ETYPE_AITS, d), m')"
proof -
  note m' = at_event_next[OF m, of ENTL_STATE_SEND]
  show ?thesis
    unfolding entl_next_send_def entl_next_send_send_def Let_def at_eventD[OF m] at_eventD[OF m']
    using assms(2,3) by (simp add: ALO_COMMAND_OPCODE_def)
qed

text \<open>
  An operation that \<open>alo_initiate\<close> refuses, with no AIT frame waiting, uses up an event number
  although nothing is sent: the next message carries the event after the one the peer expects,
  and the peer drops the link.
\<close>

theorem refused_operation_breaks_link:
  assumes X: "at_event X ENTL_STATE_SEND e (e - 1) (e + 1)" and Y: "at_event Y ENTL_STATE_RECEIVE (e - 1) e (e + 2)"
    and op: "ALO_COMMAND_OPCODE c \<noteq> 0"
    and refused: "\<not> fst (fst (alo_initiate (em_ao X) (ucast (ALO_COMMAND_OPCODE c)) (ucast (ALO_COMMAND_SC c)) d))"
  shows "fst (fst (entl_next_send X d c 0)) = ENTL_ACTION_NOP \<and>
    (let X' = snd (entl_next_send X d c 0); (act, w, d') = fst (entl_next_send X' d 0 0) in
       act AND ENTL_ACTION_SEND \<noteq> 0 \<and> fst (entl_received pf Y w d' aq ac eq) = ENTL_ACTION_ERROR)"
proof -
  let ?m = "next_event ENTL_STATE_SEND X"
  note m' = at_event_next[OF X, of ENTL_STATE_SEND]
  have "ev x \<noteq> 0 \<longleftrightarrow> x \<noteq> 0" for x by (metis unsigned_0 ucast_evw evw_inject)
  moreover have "e \<noteq> 0 \<or> e - 1 \<noteq> 0" by (cases "e = 0") simp_all
  ultimately have ev0: "ev e \<noteq> 0 \<or> ev (e - 1) \<noteq> 0" by blast
  obtain d' a where i: "alo_initiate (em_ao X) (ucast (ALO_COMMAND_OPCODE c)) (ucast (ALO_COMMAND_SC c)) d = ((False, d'), a)"
    using refused by (metis prod.collapse)
  have s: "entl_next_send X d c 0 = ((0, 0, d'), ?m\<lparr>em_ao := a\<rparr>)"
    unfolding entl_next_send_def entl_next_send_send_def Let_def at_eventD[OF X] at_eventD[OF m']
    using op ev0 by (simp add: i)
  have X': "at_event (?m\<lparr>em_ao := a\<rparr>) ENTL_STATE_SEND e (e + 1) (e + 1 + 2)" using m' by simp
  then obtain m'' where n: "entl_next_send (?m\<lparr>em_ao := a\<rparr>) d 0 0 = ((0x11, entl_msg (e + 3), d), m'')"
    using next_send_plain[of "?m\<lparr>em_ao := a\<rparr>" e "e + 1" "e + 1 + 2" d] unfolding ev_arith by blast
  have "(4 :: u16) \<noteq> 0" "(2 :: u16) \<noteq> 0" by simp_all
  moreover have "(e + 3) - (e - 1 + 2) = 2" "(e + 3) - (e - 1) = 4" by simp_all
  ultimately have "e + 3 \<noteq> e - 1 + 2" "e + 3 \<noteq> e - 1" by (metis diff_self)+
  then have "\<not> expected (entl_msg (e + 3)) Y" "\<not> repeated (entl_msg (e + 3)) Y"
    by (simp_all add: expected_ev[OF Y] repeated_ev[OF Y] msg_of_fields)
  then have "fst (entl_received pf Y (entl_msg (e + 3)) d aq ac eq) = -1"
    by (simp add: entl_received_def at_eventD[OF Y] msg_of_fields entl_received_receive_def sequence_error_def)
  with s n show ?thesis by simp
qed

lemma refused_operation_breaks_link_witness:
  "fst (fst (entl_next_send (sample_endpoint ENTL_STATE_SEND 1 0 2) 0 0x7000 0)) = ENTL_ACTION_NOP \<and>
    (let X' = snd (entl_next_send (sample_endpoint ENTL_STATE_SEND 1 0 2) 0 0x7000 0);
         (act, w, d') = fst (entl_next_send X' 0 0 0) in
       act AND ENTL_ACTION_SEND \<noteq> 0 \<and>
       fst (entl_received Netronome_me (sample_endpoint ENTL_STATE_RECEIVE 0 1 3) w d' 0 0 0) = ENTL_ACTION_ERROR)"
  by (rule refused_operation_breaks_link[where e = 1])
    (simp_all add: at_event_def sample_endpoint_def ALO_COMMAND_OPCODE_def ALO_COMMAND_SC_def alo_initiate_def
      ALO_TYPE_def alo_bit_def sample_regs_def Let_def)

text \<open>
  A receiver whose AIT queue is full cancels the exchange by moving to SEND. If it then has an
  AIT frame of its own to send, the message it sends is not the plain event the peer (still in
  RA) takes for the cancellation: the peer records a sequence error, and is silent from then on.
\<close>

theorem refused_ait_can_break_link:
  assumes X: "at_event X ENTL_STATE_RA e (e + 1) (e + 3)" and Y: "at_event Y ENTL_STATE_RECEIVE (e - 1) e (e + 2)"
    and w: "ait_msg False (e + 1) w" and full: "is_ENTT_queue_full (sint aq)"
  shows "let (act, Y') = entl_received pf Y w x aq ac eq; (act', w', x') = fst (entl_next_send Y' d 0 aq);
             (act'', X') = entl_received pf' X w' x' aq' ac' eq' in
    act = ENTL_ACTION_SEND \<and> act' AND ENTL_ACTION_SEND \<noteq> 0 \<and> act'' = ENTL_ACTION_ERROR \<and>
    em_error_count X' = 1 \<and> current_state (em_state X') = ENTL_STATE_HELLO"
proof -
  note f = msg_of_fields(3-5)[OF w]
  have e: "expected w Y" by (simp add: expected_ev[OF Y] f ev_arith)
  let ?Y = "(accept_event ENTL_STATE_RECEIVE w Y)\<lparr>em_state :=
      (em_state (accept_event ENTL_STATE_RECEIVE w Y))\<lparr>current_state := ENTL_STATE_SEND\<rparr>\<rparr>"
  have r: "entl_received pf Y w x aq ac eq = (1, ?Y)"
    using f(3) full by (simp add: call_defs at_eventD[OF Y] f entl_received_receive_def e)
  have Y': "at_event ?Y ENTL_STATE_SEND (e + 1) e (e + 2)"
    using at_event_go[OF at_event_accept[OF Y f(2), of ENTL_STATE_RECEIVE], of ENTL_STATE_SEND] by (simp add: ev_arith)
  have q: "aq \<noteq> 0" using full by (auto simp: is_ENTT_queue_full_def)
  have "ev (e + 1) \<noteq> 0 \<or> ev e \<noteq> 0"
  proof -
    have "ev x \<noteq> 0 \<longleftrightarrow> x \<noteq> 0" for x by (metis unsigned_0 ucast_evw evw_inject)
    then show ?thesis by (cases "e = 0") simp_all
  qed
  then obtain Y'' where s: "entl_next_send ?Y d 0 aq = ((3, evw (e + 2) OR ENTL_ETYPE_AITS, d), Y'')"
    using q next_send_ait[OF Y'] by blast
  let ?w = "evw (e + 2) OR ENTL_ETYPE_AITS"
  have "entl_received pf' X ?w d aq' ac' eq' = sequence_error pf' X"
    by (simp add: call_defs at_eventD[OF X] entl_received_ra_def msg_fields)
  moreover have "em_error_count (snd (sequence_error pf' X)) = 1"
    "current_state (em_state (snd (sequence_error pf' X))) = ENTL_STATE_HELLO" "fst (sequence_error pf' X) = -1"
    using X by (simp_all add: sequence_error_def entl_state_hello_def entl_set_random_def set_error_def at_event_def zero_state_def)
  ultimately show ?thesis by (simp add: r s Let_def case_prod_beta)
qed

lemma refused_ait_can_break_link_witness:
  "let (act, Y') = entl_received Netronome_me (sample_endpoint ENTL_STATE_RECEIVE 0 1 3) 0x300000002 0 32 0 0;
       (act', w', x') = fst (entl_next_send Y' 0 0 32);
       (act'', X') = entl_received Netronome_me (sample_endpoint ENTL_STATE_RA 1 2 4) w' x' 0 0 0 in
    act = ENTL_ACTION_SEND \<and> act' AND ENTL_ACTION_SEND \<noteq> 0 \<and> act'' = ENTL_ACTION_ERROR \<and>
    em_error_count X' = 1 \<and> current_state (em_state X') = ENTL_STATE_HELLO"
  by (rule refused_ait_can_break_link[where e = 1])
    (simp_all add: at_event_def sample_endpoint_def ait_msg_def GET_ECLP_ETYPE_def GET_ECLP_VALUE_def ALO_OPCODE_def
      is_ENTT_queue_full_def)

end
