(* ===== verification/Entl_Operation.thy ===== *)
theory Entl_Operation
  imports Entl_Link
begin

text \<open>
  An atomic link operation across an established link: the six calls of the exchange, and what
  they do to the registers of the two ends.
\<close>

unbundle bit_operations_syntax

section \<open>The register number on the wire\<close>

lemma bit_1f: "bit (0x1f :: 'a::len word) n \<longleftrightarrow> n < 5 \<and> n < LENGTH('a)"
proof -
  have "(0x1f :: 'a word) = mask 5" by (simp add: mask_eq_exp_minus_1)
  then have "bit (0x1f :: 'a word) n \<longleftrightarrow> bit (mask 5 :: 'a word) n" by (simp only:)
  then show ?thesis by (auto simp: bit_mask_iff)
qed

lemma dt_or: "ALO_DT (x OR y) = ALO_DT x OR ALO_DT y"
  by (rule bit_word_eqI) (auto simp: ALO_DT_def bit_and_iff bit_or_iff bit_ucast_iff bit_drop_bit_eq)

lemma dt_fields: "ALO_DT (evw e) = 0" "ALO_DT ENTL_ETYPE_AITS = 0" "ALO_DT ECLP_FW_MASK = 0" "ALO_DT 0 = 0"
  by (rule bit_word_eqI; auto simp: ALO_DT_def bit_and_iff bit_ucast_iff bit_drop_bit_eq bit_evw dest: bit_imp_le_length)
    (simp_all add: ALO_DT_def)

definition wire_dt :: "u32 \<Rightarrow> u16" where
  "wire_dt c = ucast ((2 * ALO_COMMAND_DT c) AND 0x1f)"

lemma bit_command_dt: "bit (ALO_COMMAND_DT c) k \<longleftrightarrow> bit c (16 + k) \<and> k < 5"
  unfolding ALO_COMMAND_DT_def bit_and_iff bit_drop_bit_eq bit_1f by auto

lemma bit_wire_dt: "bit (wire_dt c) n \<longleftrightarrow> n \<noteq> 0 \<and> n < 5 \<and> bit c (16 + (n - 1))"
  unfolding wire_dt_def bit_ucast_iff bit_and_iff bit_1f bit_double_iff bit_command_dt
  by (auto simp: possible_bit_word)

lemma dt_set: "ALO_DT (SET_ECLP_ALO c) = wire_dt c"
  by (rule bit_word_eqI)
    (auto simp: ALO_DT_def bit_wire_dt SET_ECLP_ALO_def ALO_COMMAND_OPCODE_def ALO_COMMAND_DT_def ALO_COMMAND_SC_def
      bit_and_iff bit_or_iff bit_ucast_iff bit_drop_bit_eq bit_push_bit_iff bit_1f ffff_mask bit_mask_iff
      simp del: bit_numeral_word_iff)

lemma unat_wire_dt: "unat (wire_dt c) = (2 * unat (ALO_COMMAND_DT c)) mod 32"
proof -
  have lt: "unat (ALO_COMMAND_DT c) < 32"
  proof -
    have "ALO_COMMAND_DT c \<le> 0x1f" unfolding ALO_COMMAND_DT_def by (rule word_and_le1)
    then show ?thesis by (simp add: word_le_nat_alt)
  qed
  have "unat (2 * ALO_COMMAND_DT c) = 2 * unat (ALO_COMMAND_DT c)"
    using lt by (simp add: unat_word_ariths)
  then have u: "unat ((2 * ALO_COMMAND_DT c) AND 0x1f) = (2 * unat (ALO_COMMAND_DT c)) mod 32"
  proof -
    have "unat ((2 * ALO_COMMAND_DT c) AND 0x1f) = take_bit 5 (unat (2 * ALO_COMMAND_DT c))"
      by (simp only: mask_5 take_bit_eq_mask[symmetric] unsigned_take_bit_eq)
    with \<open>unat (2 * ALO_COMMAND_DT c) = _\<close> show ?thesis by (simp add: take_bit_eq_mod)
  qed
  then show ?thesis by (simp add: wire_dt_def unsigned_ucast_eq u take_bit_nat_eq_self)
qed

lemma command_dt_apart: "ALO_COMMAND_DT c \<noteq> 0 \<Longrightarrow> (2 * unat (ALO_COMMAND_DT c)) mod 32 \<noteq> unat (ALO_COMMAND_DT c)"
proof -
  assume "ALO_COMMAND_DT c \<noteq> 0"
  then have "0 < unat (ALO_COMMAND_DT c)" by (simp add: unat_gt_0)
  moreover have "unat (ALO_COMMAND_DT c) < 32"
  proof -
    have "ALO_COMMAND_DT c \<le> 0x1f" unfolding ALO_COMMAND_DT_def by (rule word_and_le1)
    then show ?thesis by (simp add: word_le_nat_alt)
  qed
  ultimately show ?thesis by (cases "unat (ALO_COMMAND_DT c) < 16") (simp_all add: le_mod_geq)
qed

lemma wire_dt_lt: "unat (wire_dt c) < 32"
  by (simp add: unat_wire_dt)

section \<open>The exchange\<close>

text \<open>
  The calls of an undisturbed exchange in the order of the protocol: X sends the operation, Y
  executes it, Y acknowledges, X completes, X confirms, Y commits.
\<close>

definition exchange ::
  "platform \<Rightarrow> entl_state_machine \<Rightarrow> entl_state_machine \<Rightarrow> u64 \<Rightarrow> u32 \<Rightarrow> entl_state_machine \<times> entl_state_machine" where
  "exchange pf X Y d c =
     (case entl_next_send X d c 0 of ((_, w, x), X) \<Rightarrow>
      case entl_received pf Y w x 0 0 0 of (_, Y) \<Rightarrow>
      case entl_next_send Y 0 0 0 of ((_, w, x), Y) \<Rightarrow>
      case entl_received pf X w x 0 0 0 of (_, X) \<Rightarrow>
      case entl_next_send X 0 0 0 of ((_, w, x), X) \<Rightarrow>
      case entl_received pf Y w x 0 0 0 of (_, Y) \<Rightarrow> (X, Y))"

lemma exchange_runs_alo:
  assumes X: "at_event X ENTL_STATE_SEND e (e - 1) (e + 1)" and Y: "at_event Y ENTL_STATE_RECEIVE (e - 1) e (e + 2)"
    and op: "ALO_COMMAND_OPCODE c \<noteq> 0"
    and ok: "fst (fst (alo_initiate (em_ao X) (ucast (ALO_COMMAND_OPCODE c)) (ucast (ALO_COMMAND_SC c)) d))"
  obtains X' Y' where "exchange pf X Y d c = (X', Y')"
    "at_event X' ENTL_STATE_RECEIVE (e + 2) (e + 3) (e + 5)" "at_event Y' ENTL_STATE_SEND (e + 3) (e + 2) (e + 4)"
    "(em_ao X', em_ao Y') = alo_run (em_ao X) (em_ao Y) (ucast (ALO_COMMAND_OPCODE c)) (ucast (ALO_COMMAND_SC c)) (wire_dt c) d"
proof -
  let ?op = "ucast (ALO_COMMAND_OPCODE c) :: u16" and ?sc = "ucast (ALO_COMMAND_SC c) :: u16"
  let ?go = "\<lambda>cs m. m\<lparr>em_state := (em_state m)\<lparr>current_state := cs\<rparr>\<rparr>"
  let ?fw = "if ALO_COMMAND_FW c then ECLP_FW_MASK else 0"
  text \<open>X sends the operation.\<close>
  obtain x1 a1 where i: "alo_initiate (em_ao X) ?op ?sc d = ((True, x1), a1)"
    using ok by (metis prod.collapse)
  define w1 where "w1 = evw (e + 1) OR (ENTL_ETYPE_AITS OR SET_ECLP_ALO c) OR ?fw"
  define X1 where "X1 = ?go ENTL_STATE_RAL ((next_event ENTL_STATE_SEND X)\<lparr>em_ao := a1\<rparr>)"
  note n1 = at_event_next[OF X, of ENTL_STATE_SEND]
  have ev0: "ev e \<noteq> 0 \<or> ev (e - 1) \<noteq> 0"
  proof -
    have "ev x \<noteq> 0 \<longleftrightarrow> x \<noteq> 0" for x by (metis unsigned_0 ucast_evw evw_inject)
    then show ?thesis by (cases "e = 0") simp_all
  qed
  have s1: "entl_next_send X d c 0 = ((0x101, w1, x1), X1)"
    unfolding entl_next_send_def entl_next_send_send_def Let_def at_eventD[OF X] at_eventD[OF n1]
    using op ev0 by (simp add: i X1_def w1_def)
  have X1: "at_event X1 ENTL_STATE_RAL e (e + 1) (e + 3)"
    using at_event_go[of "(next_event ENTL_STATE_SEND X)\<lparr>em_ao := a1\<rparr>"] n1 by (simp add: ev_arith X1_def)
  have w1: "ait_msg True (e + 1) w1" "ALO_OPCODE w1 = ?op" "ALO_DT w1 = wire_dt c"
    using op by (simp_all add: w1_def ait_msg_def msg_fields opcode16 dt_or dt_fields dt_set)
  text \<open>Y executes it.\<close>
  note f1 = msg_of_fields(3-5)[OF w1(1)]
  obtain res b1 where b1: "alo_exec (em_ao Y) ?op (wire_dt c) x1 = (res, b1)" by fastforce
  let ?Ya = "accept_event ENTL_STATE_RECEIVE w1 Y"
  define Y1 where "Y1 = ?Ya\<lparr>em_ao := b1, em_state := (em_state ?Ya)\<lparr>current_state := ENTL_STATE_SBL\<rparr>\<rparr>"
  have aoY: "em_ao ?Ya = em_ao Y" by (simp add: accept_event_def Let_def)
  have e1: "expected w1 Y" by (simp only: expected_ev[OF Y f1(2)] ev_arith)
  have r1: "snd (entl_received pf Y w1 x1 0 0 0) = Y1"
    using f1(3) b1
    by (simp add: entl_received_def entl_received_receive_def entl_received_alo_def Let_def at_eventD[OF Y] f1(1) e1
        w1(2,3) aoY Y1_def)
  have Y1: "at_event Y1 ENTL_STATE_SBL (e + 1) e (e + 2)"
    using at_event_go[of "?Ya\<lparr>em_ao := b1\<rparr>"] at_event_accept[OF Y f1(2), of ENTL_STATE_RECEIVE] by (simp add: ev_arith Y1_def)
  have flag: "ao_return_flag b1 \<in> {0, 1}" using alo_exec_flag[of "em_ao Y" ?op "wire_dt c" x1] by (simp add: b1)
  text \<open>Y acknowledges.\<close>
  note n2 = at_event_next[OF Y1, of ENTL_STATE_RBL]
  have aoY1: "em_ao Y1 = b1" by (simp add: Y1_def)
  define w2 where "w2 = ENTL_ETYPE_AITR OR evw (e + 2) OR push_bit 16 (ucast (ao_return_flag b1))"
  define Y2 where "Y2 = next_event ENTL_STATE_RBL Y1"
  have s2: "entl_next_send Y1 0 0 0 = ((0x101, w2, ao_return_value b1), Y2)"
    unfolding entl_next_send_def Let_def at_eventD[OF Y1] at_eventD[OF n2] by (simp add: w2_def Y2_def aoY1)
  have w2: "msg_of ENTL_ETYPE_AITR (e + 2) w2" "ALO_OPCODE w2 = ucast (ao_return_flag b1)"
    using flag by (auto simp: w2_def msg_of_def msg_fields) (simp_all add: ALO_OPCODE_def)
  text \<open>X completes.\<close>
  note f2 = msg_of_fields(1,2)[OF w2(1)]
  obtain st a2 where a2: "alo_complete a1 (ucast (ao_return_flag b1)) (ao_return_value b1) = (st, a2)" by fastforce
  let ?Xa = "accept_event ENTL_STATE_RAL w2 X1"
  define X2 where "X2 = ?Xa\<lparr>em_ao := a2, em_state := (em_state ?Xa)\<lparr>current_state := ENTL_STATE_SAL\<rparr>\<rparr>"
  have aoX: "em_ao ?Xa = a1" by (simp add: accept_event_def Let_def X1_def)
  have e2: "expected w2 X1" by (simp only: expected_ev[OF X1 f2(2)])
  have r2: "snd (entl_received pf X1 w2 (ao_return_value b1) 0 0 0) = X2"
    using a2 by (simp add: entl_received_def entl_received_ral_def Let_def at_eventD(2)[OF X1] f2(1) e2 w2(2) aoX X2_def)
  have X2: "at_event X2 ENTL_STATE_SAL (e + 2) (e + 1) (e + 3)"
    using at_event_go[of "?Xa\<lparr>em_ao := a2\<rparr>"] at_event_accept[OF X1 f2(2), of ENTL_STATE_RAL]
    by (simp add: ev_arith X2_def add.commute[of "3 :: u16"])
  text \<open>X confirms, Y commits.\<close>
  note n3 = at_event_next[OF X2, of ENTL_STATE_RECEIVE]
  define w3 where "w3 = ENTL_ETYPE_AITA OR evw (e + 3) OR 0x10000"
  let ?X3 = "next_event ENTL_STATE_RECEIVE X2"
  have s3: "entl_next_send X2 0 0 0 = ((0x89, w3, 0), ?X3)"
    unfolding entl_next_send_def Let_def at_eventD[OF X2] at_eventD[OF n3] by (simp add: w3_def)
  have w3: "msg_of ENTL_ETYPE_AITA (e + 3) w3" "ALO_OPCODE w3 = 1"
    by (simp_all add: w3_def msg_of_def msg_fields) (simp_all add: ALO_OPCODE_def)
  note f3 = msg_of_fields(1,2)[OF w3(1)]
  have Y2: "at_event Y2 ENTL_STATE_RBL (e + 1) (e + 2) (e + 4)" using n2 by (simp add: ev_arith Y2_def)
  have aoY2: "em_ao Y2 = b1" by (simp add: Y2_def aoY1)
  have e3: "expected w3 Y2" by (simp only: expected_ev[OF Y2 f3(2)] ev_arith)
  let ?Y3 = "accept_event ENTL_STATE_SEND w3 (Y2\<lparr>em_ao := snd (alo_update b1 1)\<rparr>)"
  have r3: "snd (entl_received pf Y2 w3 0 0 0 0) = ?Y3"
    by (simp add: entl_received_def entl_received_rbl_def Let_def at_eventD(2)[OF Y2] f3(1) e3 w3(2) case_prod_beta aoY2)
  have "exchange pf X Y d c = (?X3, ?Y3)"
    by (simp only: exchange_def case_prod_beta s1 r1 s2 r2 s3 r3 fst_conv snd_conv)
  moreover have "at_event ?X3 ENTL_STATE_RECEIVE (e + 2) (e + 3) (e + 5)" using n3 by (simp add: ev_arith)
  moreover have "at_event ?Y3 ENTL_STATE_SEND (e + 3) (e + 2) (e + 4)"
    using at_event_accept[of "Y2\<lparr>em_ao := snd (alo_update b1 1)\<rparr>", OF _ f3(2)] Y2
    by (simp add: ev_arith add.commute[of "4 :: u16"])
  moreover have "(em_ao ?X3, em_ao ?Y3) = alo_run (em_ao X) (em_ao Y) ?op ?sc (wire_dt c) d"
    by (simp add: alo_run_def i b1 a2 accept_event_def Let_def X2_def)
  ultimately show thesis by (rule that)
qed

text \<open>
  Claim C4. End to end: an operation accepted by the initiating end, sent over an idle established link
  by six undisturbed calls, does to the source register of the command and to one register of
  the other end what the table of operations says, both or neither, changes no other register,
  and the link goes on with the token at the other end. The register of the other end is not
  the destination the command names: \<open>SET_ECLP_ALO\<close> puts the number DT at bit 37 and \<open>ALO_DT\<close>
  reads it from bit 36, so the operation is applied to register 2 * DT modulo 32, and the
  register the command names keeps its value unless DT is 0.
\<close>

theorem operation_over_link:
  assumes "at_event X ENTL_STATE_SEND e (e - 1) (e + 1)" "at_event Y ENTL_STATE_RECEIVE (e - 1) e (e + 2)"
    and "ALO_COMMAND_OPCODE c \<noteq> 0"
    and "fst (fst (alo_initiate (em_ao X) (ucast (ALO_COMMAND_OPCODE c)) (ucast (ALO_COMMAND_SC c)) d))"
  shows "case exchange pf X Y d c of (X', Y') \<Rightarrow>
    at_event X' ENTL_STATE_RECEIVE (e + 2) (e + 3) (e + 5) \<and> at_event Y' ENTL_STATE_SEND (e + 3) (e + 2) (e + 4) \<and>
    (let src = unat (ALO_COMMAND_SC c); dst = (2 * unat (ALO_COMMAND_DT c)) mod 32 in
     (ao_reg (em_ao X'), ao_reg (em_ao Y')) =
       (case alo_sem (ucast (ALO_COMMAND_OPCODE c)) (ao_reg (em_ao X) ! src) (ao_reg (em_ao Y) ! dst) of
          None \<Rightarrow> (ao_reg (em_ao X), ao_reg (em_ao Y))
        | Some (r, v) \<Rightarrow> ((ao_reg (em_ao X))[src := r], (ao_reg (em_ao Y))[dst := v])) \<and>
     (ALO_COMMAND_DT c \<noteq> 0 \<longrightarrow>
        ao_reg (em_ao Y') ! unat (ALO_COMMAND_DT c) = ao_reg (em_ao Y) ! unat (ALO_COMMAND_DT c)))"
proof -
  let ?op = "ucast (ALO_COMMAND_OPCODE c) :: u16" and ?sc = "ucast (ALO_COMMAND_SC c) :: u16"
  from assms obtain X' Y' where xy: "exchange pf X Y d c = (X', Y')"
    "at_event X' ENTL_STATE_RECEIVE (e + 2) (e + 3) (e + 5)" "at_event Y' ENTL_STATE_SEND (e + 3) (e + 2) (e + 4)"
    and run: "(em_ao X', em_ao Y') = alo_run (em_ao X) (em_ao Y) ?op ?sc (wire_dt c) d"
    by (rule exchange_runs_alo)
  have lt: "unat (ALO_COMMAND_SC c) < 32"
  proof -
    have "ALO_COMMAND_SC c \<le> 0x1f" unfolding ALO_COMMAND_SC_def by (rule word_and_le1)
    then show ?thesis by (simp add: word_le_nat_alt)
  qed
  then have sc: "unat ?sc = unat (ALO_COMMAND_SC c)"
    by (simp add: unsigned_ucast_eq take_bit_nat_eq_self)
  have "(ao_reg (em_ao X'), ao_reg (em_ao Y')) =
      map_prod ao_reg ao_reg (alo_run (em_ao X) (em_ao Y) ?op ?sc (wire_dt c) d)"
    by (simp flip: run)
  also note alo_run_refines[of ?sc "wire_dt c" "em_ao X" "em_ao Y" ?op d, unfolded sc unat_wire_dt]
  finally have regs: "(ao_reg (em_ao X'), ao_reg (em_ao Y')) =
      (case alo_sem ?op (ao_reg (em_ao X) ! unat (ALO_COMMAND_SC c)) (ao_reg (em_ao Y) ! ((2 * unat (ALO_COMMAND_DT c)) mod 32)) of
         None \<Rightarrow> (ao_reg (em_ao X), ao_reg (em_ao Y))
       | Some (r, v) \<Rightarrow> ((ao_reg (em_ao X))[unat (ALO_COMMAND_SC c) := r],
           (ao_reg (em_ao Y))[(2 * unat (ALO_COMMAND_DT c)) mod 32 := v]))"
    using lt by simp
  have "ALO_COMMAND_DT c \<noteq> 0 \<Longrightarrow>
      ao_reg (em_ao Y') ! unat (ALO_COMMAND_DT c) = ao_reg (em_ao Y) ! unat (ALO_COMMAND_DT c)"
    using regs command_dt_apart[of c] by (auto split: option.splits)
  with regs xy show ?thesis by (simp add: Let_def)
qed

lemma operation_over_link_witness:
  "case exchange Netronome_me (sample_endpoint ENTL_STATE_SEND 1 0 2) (sample_endpoint ENTL_STATE_RECEIVE 0 1 3) 0 0xa30006 of
    (X', Y') \<Rightarrow> ao_reg (em_ao X') ! 5 = 2 \<and> ao_reg (em_ao Y') ! 6 = 1 \<and>
      ao_reg (em_ao Y') ! 3 = ao_reg (em_ao (sample_endpoint ENTL_STATE_RECEIVE 0 1 3)) ! 3"
proof -
  have "case exchange Netronome_me (sample_endpoint ENTL_STATE_SEND 1 0 2) (sample_endpoint ENTL_STATE_RECEIVE 0 1 3) 0 0xa30006 of
    (X', Y') \<Rightarrow>
    at_event X' ENTL_STATE_RECEIVE (1 + 2) (1 + 3) (1 + 5) \<and> at_event Y' ENTL_STATE_SEND (1 + 3) (1 + 2) (1 + 4) \<and>
    (let src = unat (ALO_COMMAND_SC 0xa30006); dst = (2 * unat (ALO_COMMAND_DT 0xa30006)) mod 32;
         X = sample_endpoint ENTL_STATE_SEND 1 0 2; Y = sample_endpoint ENTL_STATE_RECEIVE 0 1 3 in
     (ao_reg (em_ao X'), ao_reg (em_ao Y')) =
       (case alo_sem (ucast (ALO_COMMAND_OPCODE 0xa30006)) (ao_reg (em_ao X) ! src) (ao_reg (em_ao Y) ! dst) of
          None \<Rightarrow> (ao_reg (em_ao X), ao_reg (em_ao Y))
        | Some (r, v) \<Rightarrow> ((ao_reg (em_ao X))[src := r], (ao_reg (em_ao Y))[dst := v])) \<and>
     (ALO_COMMAND_DT 0xa30006 \<noteq> 0 \<longrightarrow>
        ao_reg (em_ao Y') ! unat (ALO_COMMAND_DT 0xa30006) = ao_reg (em_ao Y) ! unat (ALO_COMMAND_DT 0xa30006)))"
    unfolding Let_def
    by (rule operation_over_link[unfolded Let_def])
      (simp_all add: at_event_def sample_endpoint_def ALO_COMMAND_OPCODE_def ALO_COMMAND_SC_def alo_initiate_def
        ALO_TYPE_def Let_def)
  moreover have "ALO_COMMAND_SC 0xa30006 = 5" "ALO_COMMAND_DT 0xa30006 = 3" "ALO_COMMAND_OPCODE 0xa30006 = 6"
    by (simp_all add: ALO_COMMAND_SC_def ALO_COMMAND_DT_def ALO_COMMAND_OPCODE_def)
  ultimately show ?thesis
    by (simp add: case_prod_beta Let_def alo_sem_def ALO_TYPE_def sample_endpoint_def sample_regs_def)
qed

end
