(* ===== verification/Bpf_Asm.thy ===== *)
theory Bpf_Asm
  imports Nfp_Prelude
begin

text \<open>
  The assembler half of the BPF offload: the instruction fields of \<open>nfp_asm.h\<close>, the software
  registers of \<open>bpf/main.h\<close>, and the emitters of \<open>bpf/jit.c\<close> up to the wrappers that load
  immediates and packet data.

  A program is the list of the words pushed so far; its length is \<open>prog_len\<close>. A field of a word
  is named by its mask, as \<open>FIELD_PREP\<close> and \<open>FIELD_GET\<close> of the kernel do.
\<close>

abbreviation (input) EFAULT :: int where "EFAULT \<equiv> 14"
abbreviation (input) ELOOP :: int where "ELOOP \<equiv> 40"

section \<open>Bit fields\<close>

text \<open>\<open>__bf_shf\<close>: the index of the lowest bit of the mask.\<close>

definition bf_shf :: "'a::len word \<Rightarrow> nat" where
  "bf_shf m = length (takeWhile (\<lambda>i. \<not> bit m i) [0..<LENGTH('a)])"

definition FIELD_PREP :: "'a::len word \<Rightarrow> 'a word \<Rightarrow> 'a word" where
  "FIELD_PREP m v = push_bit (bf_shf m) v AND m"

definition FIELD_GET :: "'a::len word \<Rightarrow> 'a word \<Rightarrow> 'a word" where
  "FIELD_GET m w = drop_bit (bf_shf m) (w AND m)"

definition FIELD_FIT :: "'a::len word \<Rightarrow> 'a word \<Rightarrow> bool" where
  "FIELD_FIT m v \<longleftrightarrow> push_bit (bf_shf m) v AND NOT m = 0"

lemma FIELD_GET_or: "FIELD_GET m (v OR w) = FIELD_GET m v OR FIELD_GET m w"
  by (simp add: FIELD_GET_def bit.conj_disj_distrib2 drop_bit_or)

lemma FIELD_GET_0 [simp]: "FIELD_GET m 0 = 0"
  by (simp add: FIELD_GET_def)

lemma FIELD_GET_PREP:
  "FIELD_GET m (FIELD_PREP m v) = v AND drop_bit (bf_shf m) m"
  by (rule bit_word_eqI)
    (auto simp: FIELD_GET_def FIELD_PREP_def bit_drop_bit_eq bit_and_iff bit_push_bit_iff dest: bit_imp_le_length)

lemma FIELD_GET_disjoint: "w AND m = 0 \<Longrightarrow> FIELD_GET m w = 0"
  by (simp add: FIELD_GET_def)

lemma FIELD_GET_PREP_other:
  assumes "m AND m' = 0"
  shows "FIELD_GET m (FIELD_PREP m' v) = 0"
proof -
  have "FIELD_PREP m' v AND m = push_bit (bf_shf m') v AND (m AND m')"
    unfolding FIELD_PREP_def by (simp add: ac_simps)
  then show ?thesis using assms by (simp add: FIELD_GET_def)
qed

lemma FIELD_PREP_0 [simp]: "FIELD_PREP m 0 = 0"
  by (simp add: FIELD_PREP_def)

text \<open>A value below \<open>2 ^ k\<close> survives a field of \<open>k\<close> bits.\<close>

lemma and_mask_id:
  fixes v :: "'a::len word"
  assumes "unat v < 2 ^ k"
  shows "v AND mask k = v"
proof -
  have "take_bit k v = v"
    by (rule word_unat_eq_iff[THEN iffD2]) (use assms in \<open>simp add: unsigned_take_bit_eq take_bit_nat_eq_self\<close>)
  then show ?thesis by (simp add: take_bit_eq_mask)
qed

section \<open>Instruction words\<close>

abbreviation (input) OP_BR_BASE :: u64 where "OP_BR_BASE \<equiv> 0x0d800000020"
abbreviation (input) OP_BR_BASE_MASK :: u64 where "OP_BR_BASE_MASK \<equiv> 0x0f8000c3ce0"
abbreviation (input) OP_BR_MASK :: u64 where "OP_BR_MASK \<equiv> 0x0000000001f"
abbreviation (input) OP_BR_EV_PIP :: u64 where "OP_BR_EV_PIP \<equiv> 0x00000000300"
abbreviation (input) OP_BR_CSS :: u64 where "OP_BR_CSS \<equiv> 0x0000003c000"
abbreviation (input) OP_BR_DEFBR :: u64 where "OP_BR_DEFBR \<equiv> 0x00000300000"
abbreviation (input) OP_BR_ADDR_LO :: u64 where "OP_BR_ADDR_LO \<equiv> 0x007ffc00000"
abbreviation (input) OP_BR_ADDR_HI :: u64 where "OP_BR_ADDR_HI \<equiv> 0x10000000000"
abbreviation (input) OP_BR_SPECIAL :: u64 where "OP_BR_SPECIAL \<equiv> 0xff00000000000000"

abbreviation (input) OP_BBYTE_BASE :: u64 where "OP_BBYTE_BASE \<equiv> 0x0c800000000"
abbreviation (input) OP_BB_A_SRC :: u64 where "OP_BB_A_SRC \<equiv> 0x000000000ff"
abbreviation (input) OP_BB_BYTE :: u64 where "OP_BB_BYTE \<equiv> 0x00000000300"
abbreviation (input) OP_BB_B_SRC :: u64 where "OP_BB_B_SRC \<equiv> 0x0000003fc00"
abbreviation (input) OP_BB_I8 :: u64 where "OP_BB_I8 \<equiv> 0x00000040000"
abbreviation (input) OP_BB_EQ :: u64 where "OP_BB_EQ \<equiv> 0x00000080000"
abbreviation (input) OP_BB_DEFBR :: u64 where "OP_BB_DEFBR \<equiv> 0x00000300000"
abbreviation (input) OP_BB_ADDR_LO :: u64 where "OP_BB_ADDR_LO \<equiv> 0x007ffc00000"
abbreviation (input) OP_BB_ADDR_HI :: u64 where "OP_BB_ADDR_HI \<equiv> 0x10000000000"

abbreviation (input) OP_IMMED_A_SRC :: u64 where "OP_IMMED_A_SRC \<equiv> 0x000000003ff"
abbreviation (input) OP_IMMED_B_SRC :: u64 where "OP_IMMED_B_SRC \<equiv> 0x000000ffc00"
abbreviation (input) OP_IMMED_IMM :: u64 where "OP_IMMED_IMM \<equiv> 0x0000ff00000"
abbreviation (input) OP_IMMED_WIDTH :: u64 where "OP_IMMED_WIDTH \<equiv> 0x00060000000"
abbreviation (input) OP_IMMED_INV :: u64 where "OP_IMMED_INV \<equiv> 0x00080000000"
abbreviation (input) OP_IMMED_SHIFT :: u64 where "OP_IMMED_SHIFT \<equiv> 0x00600000000"
abbreviation (input) OP_IMMED_BASE :: u64 where "OP_IMMED_BASE \<equiv> 0x0f000000000"
abbreviation (input) OP_IMMED_WR_AB :: u64 where "OP_IMMED_WR_AB \<equiv> 0x20000000000"

abbreviation (input) OP_SHF_BASE :: u64 where "OP_SHF_BASE \<equiv> 0x08000000000"
abbreviation (input) OP_SHF_A_SRC :: u64 where "OP_SHF_A_SRC \<equiv> 0x000000000ff"
abbreviation (input) OP_SHF_SC :: u64 where "OP_SHF_SC \<equiv> 0x00000000300"
abbreviation (input) OP_SHF_B_SRC :: u64 where "OP_SHF_B_SRC \<equiv> 0x0000003fc00"
abbreviation (input) OP_SHF_I8 :: u64 where "OP_SHF_I8 \<equiv> 0x00000040000"
abbreviation (input) OP_SHF_SW :: u64 where "OP_SHF_SW \<equiv> 0x00000080000"
abbreviation (input) OP_SHF_DST :: u64 where "OP_SHF_DST \<equiv> 0x0000ff00000"
abbreviation (input) OP_SHF_SHIFT :: u64 where "OP_SHF_SHIFT \<equiv> 0x001f0000000"
abbreviation (input) OP_SHF_OP :: u64 where "OP_SHF_OP \<equiv> 0x00e00000000"
abbreviation (input) OP_SHF_DST_AB :: u64 where "OP_SHF_DST_AB \<equiv> 0x01000000000"
abbreviation (input) OP_SHF_WR_AB :: u64 where "OP_SHF_WR_AB \<equiv> 0x20000000000"

abbreviation (input) OP_ALU_A_SRC :: u64 where "OP_ALU_A_SRC \<equiv> 0x000000003ff"
abbreviation (input) OP_ALU_B_SRC :: u64 where "OP_ALU_B_SRC \<equiv> 0x000000ffc00"
abbreviation (input) OP_ALU_DST :: u64 where "OP_ALU_DST \<equiv> 0x0003ff00000"
abbreviation (input) OP_ALU_SW :: u64 where "OP_ALU_SW \<equiv> 0x00040000000"
abbreviation (input) OP_ALU_OP :: u64 where "OP_ALU_OP \<equiv> 0x00f80000000"
abbreviation (input) OP_ALU_DST_AB :: u64 where "OP_ALU_DST_AB \<equiv> 0x01000000000"
abbreviation (input) OP_ALU_BASE :: u64 where "OP_ALU_BASE \<equiv> 0x0a000000000"
abbreviation (input) OP_ALU_WR_AB :: u64 where "OP_ALU_WR_AB \<equiv> 0x20000000000"

abbreviation (input) OP_LDF_BASE :: u64 where "OP_LDF_BASE \<equiv> 0x0c000000000"
abbreviation (input) OP_LDF_A_SRC :: u64 where "OP_LDF_A_SRC \<equiv> 0x000000000ff"
abbreviation (input) OP_LDF_SC :: u64 where "OP_LDF_SC \<equiv> 0x00000000300"
abbreviation (input) OP_LDF_B_SRC :: u64 where "OP_LDF_B_SRC \<equiv> 0x0000003fc00"
abbreviation (input) OP_LDF_I8 :: u64 where "OP_LDF_I8 \<equiv> 0x00000040000"
abbreviation (input) OP_LDF_SW :: u64 where "OP_LDF_SW \<equiv> 0x00000080000"
abbreviation (input) OP_LDF_ZF :: u64 where "OP_LDF_ZF \<equiv> 0x00000100000"
abbreviation (input) OP_LDF_BMASK :: u64 where "OP_LDF_BMASK \<equiv> 0x0000f000000"
abbreviation (input) OP_LDF_SHF :: u64 where "OP_LDF_SHF \<equiv> 0x001f0000000"
abbreviation (input) OP_LDF_WR_AB :: u64 where "OP_LDF_WR_AB \<equiv> 0x20000000000"

abbreviation (input) OP_CMD_A_SRC :: u64 where "OP_CMD_A_SRC \<equiv> 0x000000000ff"
abbreviation (input) OP_CMD_CTX :: u64 where "OP_CMD_CTX \<equiv> 0x00000000300"
abbreviation (input) OP_CMD_B_SRC :: u64 where "OP_CMD_B_SRC \<equiv> 0x0000003fc00"
abbreviation (input) OP_CMD_TOKEN :: u64 where "OP_CMD_TOKEN \<equiv> 0x000000c0000"
abbreviation (input) OP_CMD_XFER :: u64 where "OP_CMD_XFER \<equiv> 0x00001f00000"
abbreviation (input) OP_CMD_CNT :: u64 where "OP_CMD_CNT \<equiv> 0x0000e000000"
abbreviation (input) OP_CMD_SIG :: u64 where "OP_CMD_SIG \<equiv> 0x000f0000000"
abbreviation (input) OP_CMD_TGT_CMD :: u64 where "OP_CMD_TGT_CMD \<equiv> 0x07f00000000"
abbreviation (input) OP_CMD_MODE :: u64 where "OP_CMD_MODE \<equiv> 0x1c0000000000"

text \<open>The enumerations, by their encoded values.\<close>

abbreviation (input) BR_BEQ :: u64 where "BR_BEQ \<equiv> 0x00"
abbreviation (input) BR_BNE :: u64 where "BR_BNE \<equiv> 0x01"
abbreviation (input) BR_BHS :: u64 where "BR_BHS \<equiv> 0x04"
abbreviation (input) BR_BLO :: u64 where "BR_BLO \<equiv> 0x05"
abbreviation (input) BR_BGE :: u64 where "BR_BGE \<equiv> 0x08"
abbreviation (input) BR_UNC :: u64 where "BR_UNC \<equiv> 0x18"
abbreviation (input) BR_EV_PIP_UNCOND :: u64 where "BR_EV_PIP_UNCOND \<equiv> 0"
abbreviation (input) BR_EV_PIP_COND :: u64 where "BR_EV_PIP_COND \<equiv> 1"
abbreviation (input) BR_CSS_NONE :: u64 where "BR_CSS_NONE \<equiv> 2"
abbreviation (input) OP_BR_NORMAL :: u64 where "OP_BR_NORMAL \<equiv> 0"
abbreviation (input) OP_BR_GO_OUT :: u64 where "OP_BR_GO_OUT \<equiv> 1"
abbreviation (input) OP_BR_GO_ABORT :: u64 where "OP_BR_GO_ABORT \<equiv> 2"
abbreviation (input) IMMED_WIDTH_ALL :: u64 where "IMMED_WIDTH_ALL \<equiv> 0"
abbreviation (input) IMMED_WIDTH_BYTE :: u64 where "IMMED_WIDTH_BYTE \<equiv> 1"
abbreviation (input) IMMED_WIDTH_WORD :: u64 where "IMMED_WIDTH_WORD \<equiv> 2"
abbreviation (input) IMMED_SHIFT_0B :: u64 where "IMMED_SHIFT_0B \<equiv> 0"
abbreviation (input) IMMED_SHIFT_1B :: u64 where "IMMED_SHIFT_1B \<equiv> 1"
abbreviation (input) IMMED_SHIFT_2B :: u64 where "IMMED_SHIFT_2B \<equiv> 2"
abbreviation (input) SHF_OP_NONE :: u64 where "SHF_OP_NONE \<equiv> 0"
abbreviation (input) SHF_OP_AND :: u64 where "SHF_OP_AND \<equiv> 2"
abbreviation (input) SHF_OP_OR :: u64 where "SHF_OP_OR \<equiv> 5"
abbreviation (input) SHF_SC_R_ROT :: u64 where "SHF_SC_R_ROT \<equiv> 0"
abbreviation (input) SHF_SC_R_SHF :: u64 where "SHF_SC_R_SHF \<equiv> 1"
abbreviation (input) SHF_SC_L_SHF :: u64 where "SHF_SC_L_SHF \<equiv> 2"
abbreviation (input) ALU_OP_NONE :: u64 where "ALU_OP_NONE \<equiv> 0x00"
abbreviation (input) ALU_OP_ADD :: u64 where "ALU_OP_ADD \<equiv> 0x01"
abbreviation (input) ALU_OP_NEG :: u64 where "ALU_OP_NEG \<equiv> 0x04"
abbreviation (input) ALU_OP_AND :: u64 where "ALU_OP_AND \<equiv> 0x08"
abbreviation (input) ALU_OP_SUB_C :: u64 where "ALU_OP_SUB_C \<equiv> 0x0d"
abbreviation (input) ALU_OP_ADD_C :: u64 where "ALU_OP_ADD_C \<equiv> 0x11"
abbreviation (input) ALU_OP_OR :: u64 where "ALU_OP_OR \<equiv> 0x14"
abbreviation (input) ALU_OP_SUB :: u64 where "ALU_OP_SUB \<equiv> 0x15"
abbreviation (input) ALU_OP_XOR :: u64 where "ALU_OP_XOR \<equiv> 0x18"
abbreviation (input) CMD_MODE_32b :: u64 where "CMD_MODE_32b \<equiv> 4"
abbreviation (input) CMD_CTX_SWAP :: u64 where "CMD_CTX_SWAP \<equiv> 0"
abbreviation (input) CMD_CTX_NO_SWAP :: u64 where "CMD_CTX_NO_SWAP \<equiv> 3"

datatype alu_dst_ab = ALU_DST_A | ALU_DST_B

datatype cmd_tgt_map = CMD_TGT_READ8 | CMD_TGT_WRITE8 | CMD_TGT_READ_LE | CMD_TGT_READ_SWAP_LE

fun cmd_tgt_act :: "cmd_tgt_map \<Rightarrow> u64 \<times> u64" where
  "cmd_tgt_act CMD_TGT_WRITE8 = (0x00, 0x42)"
| "cmd_tgt_act CMD_TGT_READ8 = (0x01, 0x43)"
| "cmd_tgt_act CMD_TGT_READ_LE = (0x01, 0x40)"
| "cmd_tgt_act CMD_TGT_READ_SWAP_LE = (0x03, 0x40)"

definition nfp_is_br :: "u64 \<Rightarrow> bool" where
  "nfp_is_br insn \<longleftrightarrow> insn AND OP_BR_BASE_MASK = OP_BR_BASE"

section \<open>Software registers\<close>

abbreviation (input) NN_REG_TYPE :: u32 where "NN_REG_TYPE \<equiv> 0xff000000"
abbreviation (input) NN_REG_VAL :: u32 where "NN_REG_VAL \<equiv> 0x000000ff"
abbreviation (input) NN_REG_GPR_A :: u32 where "NN_REG_GPR_A \<equiv> 1"
abbreviation (input) NN_REG_GPR_B :: u32 where "NN_REG_GPR_B \<equiv> 2"
abbreviation (input) NN_REG_GPR_BOTH :: u32 where "NN_REG_GPR_BOTH \<equiv> 3"
abbreviation (input) NN_REG_NNR :: u32 where "NN_REG_NNR \<equiv> 4"
abbreviation (input) NN_REG_XFER :: u32 where "NN_REG_XFER \<equiv> 8"
abbreviation (input) NN_REG_IMM :: u32 where "NN_REG_IMM \<equiv> 16"
abbreviation (input) NN_REG_NONE :: u32 where "NN_REG_NONE \<equiv> 32"

definition reg_both :: "u32 \<Rightarrow> u32" where "reg_both x = x OR FIELD_PREP NN_REG_TYPE NN_REG_GPR_BOTH"
definition reg_a :: "u32 \<Rightarrow> u32" where "reg_a x = x OR FIELD_PREP NN_REG_TYPE NN_REG_GPR_A"
definition reg_b :: "u32 \<Rightarrow> u32" where "reg_b x = x OR FIELD_PREP NN_REG_TYPE NN_REG_GPR_B"
definition reg_nnr :: "u32 \<Rightarrow> u32" where "reg_nnr x = x OR FIELD_PREP NN_REG_TYPE NN_REG_NNR"
definition reg_xfer :: "u32 \<Rightarrow> u32" where "reg_xfer x = x OR FIELD_PREP NN_REG_TYPE NN_REG_XFER"
definition reg_imm :: "u32 \<Rightarrow> u32" where "reg_imm x = x OR FIELD_PREP NN_REG_TYPE NN_REG_IMM"
definition reg_none :: u32 where "reg_none = FIELD_PREP NN_REG_TYPE NN_REG_NONE"

abbreviation (input) NFP_BPF_ABI_FLAGS :: u32 where "NFP_BPF_ABI_FLAGS \<equiv> reg_nnr 0"
abbreviation (input) NFP_BPF_ABI_MARK :: u32 where "NFP_BPF_ABI_MARK \<equiv> reg_nnr 1"
abbreviation (input) NFP_BPF_ABI_PKT :: u32 where "NFP_BPF_ABI_PKT \<equiv> reg_nnr 2"
abbreviation (input) NFP_BPF_ABI_LEN :: u32 where "NFP_BPF_ABI_LEN \<equiv> reg_nnr 3"

abbreviation (input) REG_NONE :: u16 where "REG_NONE \<equiv> 0"
abbreviation (input) RE_REG_NO_DST :: u16 where "RE_REG_NO_DST \<equiv> 0x020"
abbreviation (input) RE_REG_IMM :: u16 where "RE_REG_IMM \<equiv> 0x020"
abbreviation (input) RE_REG_IMM_MAX :: u64 where "RE_REG_IMM_MAX \<equiv> 0x07f"
abbreviation (input) RE_REG_XFR :: u16 where "RE_REG_XFR \<equiv> 0x080"
abbreviation (input) UR_REG_XFR :: u16 where "UR_REG_XFR \<equiv> 0x180"
abbreviation (input) UR_REG_NN :: u16 where "UR_REG_NN \<equiv> 0x280"
abbreviation (input) UR_REG_NO_DST :: u16 where "UR_REG_NO_DST \<equiv> 0x300"
abbreviation (input) UR_REG_IMM_MAX :: u64 where "UR_REG_IMM_MAX \<equiv> 0x0ff"

definition RE_REG_IMM_encode :: "u16 \<Rightarrow> u16" where
  "RE_REG_IMM_encode x = RE_REG_IMM OR (x AND 0x1f) OR push_bit 1 (x AND 0x60)"

definition UR_REG_IMM_encode :: "u16 \<Rightarrow> u16" where
  "UR_REG_IMM_encode x = UR_REG_NO_DST OR x"

text \<open>An encoding the switch does not know is register 0, after a message.\<close>

definition nfp_swreg_to_unreg :: "u32 \<Rightarrow> bool \<Rightarrow> u16" where
  "nfp_swreg_to_unreg swreg is_dst =
     (let val = ucast (FIELD_GET NN_REG_VAL swreg); ty = FIELD_GET NN_REG_TYPE swreg in
      if ty = NN_REG_GPR_A \<or> ty = NN_REG_GPR_B \<or> ty = NN_REG_GPR_BOTH then val
      else if ty = NN_REG_NNR then UR_REG_NN OR val
      else if ty = NN_REG_XFER then UR_REG_XFR OR val
      else if ty = NN_REG_IMM then (if val AND NOT 0xff \<noteq> 0 then 0 else UR_REG_IMM_encode val)
      else if ty = NN_REG_NONE then (if is_dst then UR_REG_NO_DST else REG_NONE)
      else 0)"

record nfp_insn_ur_regs =
  ur_dst_ab :: alu_dst_ab
  ur_dst :: u16
  ur_areg :: u16
  ur_breg :: u16
  ur_swap :: bool
  ur_wr_both :: bool

definition swreg_to_unrestricted :: "u32 \<Rightarrow> u32 \<Rightarrow> u32 \<Rightarrow> nfp_insn_ur_regs res" where
  "swreg_to_unrestricted dst lreg rreg =
     (let ty = FIELD_GET NN_REG_TYPE;
          swap = (ty lreg = NN_REG_GPR_B \<or> ty rreg = NN_REG_GPR_A);
          src = (\<lambda>r. nfp_swreg_to_unreg r False)
      in if ty dst = NN_REG_IMM then Inl (- EFAULT)
         else if ty lreg = ty rreg then Inl (- EFAULT)
         else Inr \<lparr>ur_dst_ab = (if ty dst = NN_REG_GPR_B then ALU_DST_B else ALU_DST_A),
                   ur_dst = nfp_swreg_to_unreg dst True,
                   ur_areg = (if swap then src rreg else src lreg),
                   ur_breg = (if swap then src lreg else src rreg),
                   ur_swap = swap, ur_wr_both = (ty dst = NN_REG_GPR_BOTH)\<rparr>)"

text \<open>The second component is the write to \<open>*i8\<close>, if there is one.\<close>

definition nfp_swreg_to_rereg :: "u32 \<Rightarrow> bool \<Rightarrow> bool \<Rightarrow> u16 \<times> bool option" where
  "nfp_swreg_to_rereg swreg is_dst has_imm8 =
     (let val = ucast (FIELD_GET NN_REG_VAL swreg); ty = FIELD_GET NN_REG_TYPE swreg in
      if ty = NN_REG_GPR_A \<or> ty = NN_REG_GPR_B \<or> ty = NN_REG_GPR_BOTH then (val, None)
      else if ty = NN_REG_XFER then (RE_REG_XFR OR val, None)
      else if ty = NN_REG_IMM then
        (if val AND NOT (0x7f OR push_bit 7 (of_bool has_imm8)) \<noteq> 0 then (0, None)
         else (RE_REG_IMM_encode (val AND 0x7f), Some (val AND 0x80 \<noteq> 0)))
      else if ty = NN_REG_NONE then (if is_dst then RE_REG_NO_DST else REG_NONE, None)
      else (0, None))"

record nfp_insn_re_regs =
  re_dst_ab :: alu_dst_ab
  re_dst :: u8
  re_areg :: u8
  re_breg :: u8
  re_swap :: bool
  re_wr_both :: bool
  re_i8 :: bool

text \<open>The two sources are decoded one after the other, both with the same \<open>i8\<close> cell.\<close>

definition swreg_to_restricted :: "u32 \<Rightarrow> u32 \<Rightarrow> u32 \<Rightarrow> bool \<Rightarrow> nfp_insn_re_regs res" where
  "swreg_to_restricted dst lreg rreg has_imm8 =
     (let ty = FIELD_GET NN_REG_TYPE;
          swap = (ty lreg = NN_REG_GPR_B \<or> ty rreg = NN_REG_GPR_A);
          src = (\<lambda>r. nfp_swreg_to_rereg r False has_imm8);
          a = src (if swap then rreg else lreg); b = src (if swap then lreg else rreg);
          i8 = (case snd a of None \<Rightarrow> False | Some i \<Rightarrow> i)
      in if ty dst = NN_REG_IMM then Inl (- EFAULT)
         else if ty lreg = ty rreg then Inl (- EFAULT)
         else Inr \<lparr>re_dst_ab = (if ty dst = NN_REG_GPR_B then ALU_DST_B else ALU_DST_A),
                   re_dst = ucast (fst (nfp_swreg_to_rereg dst True False)),
                   re_areg = ucast (fst a), re_breg = ucast (fst b),
                   re_swap = swap, re_wr_both = (ty dst = NN_REG_GPR_BOTH),
                   re_i8 = (case snd b of None \<Rightarrow> i8 | Some i \<Rightarrow> i)\<rparr>)"

end
