(* ===== verification/Bpf_Emit.thy ===== *)
theory Bpf_Emit
  imports Bpf_Asm
begin

text \<open>
  The program under translation (\<open>struct nfp_prog\<close>, \<open>struct nfp_insn_meta\<close> of \<open>bpf/main.h\<close>) and
  the emitters and wrappers of \<open>bpf/jit.c\<close> that append instruction words to it.
\<close>

section \<open>The program\<close>

datatype nfp_bpf_action_type = NN_ACT_TC_DROP | NN_ACT_TC_REDIR | NN_ACT_DIRECT | NN_ACT_XDP

text \<open>A BPF instruction; \<open>off\<close> and \<open>imm\<close> are signed, read with \<open>sint\<close> and \<open>scast\<close>.\<close>

record bpf_insn =
  bi_code :: u8
  bi_dst_reg :: "4 word"
  bi_src_reg :: "4 word"
  bi_off :: u16
  bi_imm :: u32

text \<open>\<open>im_double\<close>: \<open>double_cb\<close> is set, always to \<open>imm_ld8_part2\<close>.\<close>

record nfp_insn_meta =
  im_insn :: bpf_insn
  im_off :: u32
  im_n :: u16
  im_skip :: bool
  im_double :: bool

text \<open>
  \<open>np_prog\<close>: the words pushed so far. \<open>np_oob\<close> records a write in front of the first word, which
  the code does not guard against.
\<close>

record nfp_prog =
  np_prog :: "u64 list"
  np_alloc_len :: nat
  np_act :: nfp_bpf_action_type
  np_num_regs :: nat
  np_regs_per_thread :: u32
  np_start_off :: u32
  np_tgt_out :: u32
  np_tgt_abort :: u32
  np_tgt_done :: u32
  np_n_translated :: nat
  np_error :: int
  np_oob :: bool
  np_insns :: "nfp_insn_meta list"

definition pkt_reg :: "nfp_prog \<Rightarrow> u32" where "pkt_reg np = reg_a (np_regs_per_thread np - 1)"
definition imm_a :: "nfp_prog \<Rightarrow> u32" where "imm_a np = reg_a (np_regs_per_thread np - 2)"
definition imm_b :: "nfp_prog \<Rightarrow> u32" where "imm_b np = reg_b (np_regs_per_thread np - 2)"
definition imm_both :: "nfp_prog \<Rightarrow> u32" where "imm_both np = reg_both (np_regs_per_thread np - 2)"

definition prog_fail :: "int \<Rightarrow> nfp_prog \<Rightarrow> nfp_prog" where
  "prog_fail err p = p\<lparr>np_error := err\<rparr>"

definition nfp_prog_push :: "u64 \<Rightarrow> nfp_prog \<Rightarrow> nfp_prog" where
  "nfp_prog_push insn p =
     (if np_alloc_len p = length (np_prog p) then prog_fail (- ENOSPC) p
      else p\<lparr>np_prog := np_prog p @ [insn]\<rparr>)"

definition nfp_prog_current_offset :: "nfp_prog \<Rightarrow> u32" where
  "nfp_prog_current_offset p = np_start_off p + of_nat (length (np_prog p))"

definition nfp_prog_offset_to_index :: "nfp_prog \<Rightarrow> u32 \<Rightarrow> u32" where
  "nfp_prog_offset_to_index p offset = offset - np_start_off p"

section \<open>Emitters\<close>

definition cmd_word :: "cmd_tgt_map \<Rightarrow> u64 \<Rightarrow> u8 \<Rightarrow> u8 \<Rightarrow> u8 \<Rightarrow> u8 \<Rightarrow> bool \<Rightarrow> u64" where
  "cmd_word op mode xfer areg breg sz sync =
     FIELD_PREP OP_CMD_A_SRC (ucast areg) OR
     FIELD_PREP OP_CMD_CTX (if sync then CMD_CTX_SWAP else CMD_CTX_NO_SWAP) OR
     FIELD_PREP OP_CMD_B_SRC (ucast breg) OR
     FIELD_PREP OP_CMD_TOKEN (fst (cmd_tgt_act op)) OR
     FIELD_PREP OP_CMD_XFER (ucast xfer) OR
     FIELD_PREP OP_CMD_CNT (ucast sz) OR
     FIELD_PREP OP_CMD_SIG (of_bool sync) OR
     FIELD_PREP OP_CMD_TGT_CMD (snd (cmd_tgt_act op)) OR
     FIELD_PREP OP_CMD_MODE mode"

definition emit_cmd :: "cmd_tgt_map \<Rightarrow> u64 \<Rightarrow> u8 \<Rightarrow> u32 \<Rightarrow> u32 \<Rightarrow> u8 \<Rightarrow> bool \<Rightarrow> nfp_prog \<Rightarrow> nfp_prog" where
  "emit_cmd op mode xfer lreg rreg sz sync p =
     (case swreg_to_restricted reg_none lreg rreg False of
        Inl err \<Rightarrow> prog_fail err p
      | Inr r \<Rightarrow> if re_swap r then prog_fail (- EFAULT) p
                 else nfp_prog_push (cmd_word op mode xfer (re_areg r) (re_breg r) sz sync) p)"

text \<open>A branch address: 13 low bits, and one bit that tells whether there is more.\<close>

definition br_addr_lo :: "u16 \<Rightarrow> u16" where
  "br_addr_lo addr = addr AND ucast (drop_bit (bf_shf OP_BR_ADDR_LO) OP_BR_ADDR_LO)"

definition br_addr_hi :: "u16 \<Rightarrow> bool" where
  "br_addr_hi addr \<longleftrightarrow> addr \<noteq> br_addr_lo addr"

definition br_word :: "u64 \<Rightarrow> u64 \<Rightarrow> u64 \<Rightarrow> u16 \<Rightarrow> u8 \<Rightarrow> u64" where
  "br_word msk ev_pip css addr defer =
     OP_BR_BASE OR
     FIELD_PREP OP_BR_MASK msk OR
     FIELD_PREP OP_BR_EV_PIP ev_pip OR
     FIELD_PREP OP_BR_CSS css OR
     FIELD_PREP OP_BR_DEFBR (ucast defer) OR
     FIELD_PREP OP_BR_ADDR_LO (ucast (br_addr_lo addr)) OR
     FIELD_PREP OP_BR_ADDR_HI (of_bool (br_addr_hi addr))"

definition emit_br_def :: "u16 \<Rightarrow> u8 \<Rightarrow> nfp_prog \<Rightarrow> nfp_prog" where
  "emit_br_def addr defer p =
     (if defer > 2 then prog_fail (- EFAULT) p
      else nfp_prog_push (br_word BR_UNC BR_EV_PIP_UNCOND BR_CSS_NONE addr defer) p)"

definition emit_br :: "u64 \<Rightarrow> u16 \<Rightarrow> u8 \<Rightarrow> nfp_prog \<Rightarrow> nfp_prog" where
  "emit_br msk addr defer =
     nfp_prog_push (br_word msk (if msk \<noteq> BR_UNC then BR_EV_PIP_COND else BR_EV_PIP_UNCOND) BR_CSS_NONE addr defer)"

definition br_byte_word :: "u8 \<Rightarrow> u8 \<Rightarrow> bool \<Rightarrow> u8 \<Rightarrow> bool \<Rightarrow> u16 \<Rightarrow> u8 \<Rightarrow> u64" where
  "br_byte_word areg breg imm8 byte eq addr defer =
     OP_BBYTE_BASE OR
     FIELD_PREP OP_BB_A_SRC (ucast areg) OR
     FIELD_PREP OP_BB_BYTE (ucast byte) OR
     FIELD_PREP OP_BB_B_SRC (ucast breg) OR
     FIELD_PREP OP_BB_I8 (of_bool imm8) OR
     FIELD_PREP OP_BB_EQ (of_bool eq) OR
     FIELD_PREP OP_BB_DEFBR (ucast defer) OR
     FIELD_PREP OP_BB_ADDR_LO (ucast (br_addr_lo addr)) OR
     FIELD_PREP OP_BB_ADDR_HI (of_bool (br_addr_hi addr))"

definition emit_br_byte_neq :: "u32 \<Rightarrow> u8 \<Rightarrow> u8 \<Rightarrow> u16 \<Rightarrow> u8 \<Rightarrow> nfp_prog \<Rightarrow> nfp_prog" where
  "emit_br_byte_neq dst imm byte addr defer p =
     (case swreg_to_restricted reg_none dst (reg_imm (ucast imm)) True of
        Inl err \<Rightarrow> prog_fail err p
      | Inr r \<Rightarrow> nfp_prog_push (br_byte_word (re_areg r) (re_breg r) (re_i8 r) byte False addr defer) p)"

definition immed_word :: "u16 \<Rightarrow> u16 \<Rightarrow> u16 \<Rightarrow> u64 \<Rightarrow> bool \<Rightarrow> u64 \<Rightarrow> bool \<Rightarrow> u64" where
  "immed_word areg breg imm_hi width invert shift wr_both =
     OP_IMMED_BASE OR
     FIELD_PREP OP_IMMED_A_SRC (ucast areg) OR
     FIELD_PREP OP_IMMED_B_SRC (ucast breg) OR
     FIELD_PREP OP_IMMED_IMM (ucast imm_hi) OR
     FIELD_PREP OP_IMMED_WIDTH width OR
     FIELD_PREP OP_IMMED_INV (of_bool invert) OR
     FIELD_PREP OP_IMMED_SHIFT shift OR
     FIELD_PREP OP_IMMED_WR_AB (of_bool wr_both)"

definition emit_immed :: "u32 \<Rightarrow> u16 \<Rightarrow> u64 \<Rightarrow> bool \<Rightarrow> u64 \<Rightarrow> nfp_prog \<Rightarrow> nfp_prog" where
  "emit_immed dst imm width invert shift p =
     (if FIELD_GET NN_REG_TYPE dst = NN_REG_IMM then prog_fail (- EFAULT) p
      else case swreg_to_unrestricted dst dst (reg_imm (ucast (imm AND 0xff))) of
        Inl err \<Rightarrow> prog_fail err p
      | Inr r \<Rightarrow> nfp_prog_push (immed_word (ur_areg r) (ur_breg r) (drop_bit 8 imm) width invert shift (ur_wr_both r)) p)"

definition alu_dst_bit :: "alu_dst_ab \<Rightarrow> u64" where
  "alu_dst_bit ab = (case ab of ALU_DST_A \<Rightarrow> 0 | ALU_DST_B \<Rightarrow> 1)"

definition shf_word :: "u16 \<Rightarrow> alu_dst_ab \<Rightarrow> u64 \<Rightarrow> u8 \<Rightarrow> u16 \<Rightarrow> u64 \<Rightarrow> u16 \<Rightarrow> bool \<Rightarrow> bool \<Rightarrow> bool \<Rightarrow> u64" where
  "shf_word dst dst_ab sc shift areg op breg i8 sw wr_both =
     OP_SHF_BASE OR
     FIELD_PREP OP_SHF_A_SRC (ucast areg) OR
     FIELD_PREP OP_SHF_SC sc OR
     FIELD_PREP OP_SHF_B_SRC (ucast breg) OR
     FIELD_PREP OP_SHF_I8 (of_bool i8) OR
     FIELD_PREP OP_SHF_SW (of_bool sw) OR
     FIELD_PREP OP_SHF_DST (ucast dst) OR
     FIELD_PREP OP_SHF_SHIFT (ucast shift) OR
     FIELD_PREP OP_SHF_OP op OR
     FIELD_PREP OP_SHF_DST_AB (alu_dst_bit dst_ab) OR
     FIELD_PREP OP_SHF_WR_AB (of_bool wr_both)"

text \<open>\<open>__emit_shf\<close>: a left shift is encoded by what is left of the 32 bits.\<close>

definition emit_shf_raw ::
  "u16 \<Rightarrow> alu_dst_ab \<Rightarrow> u64 \<Rightarrow> u8 \<Rightarrow> u16 \<Rightarrow> u64 \<Rightarrow> u16 \<Rightarrow> bool \<Rightarrow> bool \<Rightarrow> bool \<Rightarrow> nfp_prog \<Rightarrow> nfp_prog" where
  "emit_shf_raw dst dst_ab sc shift areg op breg i8 sw wr_both p =
     (if \<not> FIELD_FIT OP_SHF_SHIFT (ucast shift) then prog_fail (- EFAULT) p
      else let shift = (if sc = SHF_SC_L_SHF then 32 - shift else shift)
           in nfp_prog_push (shf_word dst dst_ab sc shift areg op breg i8 sw wr_both) p)"

definition emit_shf :: "u32 \<Rightarrow> u32 \<Rightarrow> u64 \<Rightarrow> u32 \<Rightarrow> u64 \<Rightarrow> u8 \<Rightarrow> nfp_prog \<Rightarrow> nfp_prog" where
  "emit_shf dst lreg op rreg sc shift p =
     (case swreg_to_restricted dst lreg rreg True of
        Inl err \<Rightarrow> prog_fail err p
      | Inr r \<Rightarrow> emit_shf_raw (ucast (re_dst r)) (re_dst_ab r) sc shift (ucast (re_areg r)) op (ucast (re_breg r))
                   (re_i8 r) (re_swap r) (re_wr_both r) p)"

definition alu_word :: "u16 \<Rightarrow> alu_dst_ab \<Rightarrow> u16 \<Rightarrow> u64 \<Rightarrow> u16 \<Rightarrow> bool \<Rightarrow> bool \<Rightarrow> u64" where
  "alu_word dst dst_ab areg op breg swap wr_both =
     OP_ALU_BASE OR
     FIELD_PREP OP_ALU_A_SRC (ucast areg) OR
     FIELD_PREP OP_ALU_B_SRC (ucast breg) OR
     FIELD_PREP OP_ALU_DST (ucast dst) OR
     FIELD_PREP OP_ALU_SW (of_bool swap) OR
     FIELD_PREP OP_ALU_OP op OR
     FIELD_PREP OP_ALU_DST_AB (alu_dst_bit dst_ab) OR
     FIELD_PREP OP_ALU_WR_AB (of_bool wr_both)"

definition emit_alu :: "u32 \<Rightarrow> u32 \<Rightarrow> u64 \<Rightarrow> u32 \<Rightarrow> nfp_prog \<Rightarrow> nfp_prog" where
  "emit_alu dst lreg op rreg p =
     (case swreg_to_unrestricted dst lreg rreg of
        Inl err \<Rightarrow> prog_fail err p
      | Inr r \<Rightarrow> nfp_prog_push
          (alu_word (ur_dst r) (ur_dst_ab r) (ur_areg r) op (ur_breg r) (ur_swap r) (ur_wr_both r)) p)"

definition ld_field_word :: "u64 \<Rightarrow> u8 \<Rightarrow> u8 \<Rightarrow> u8 \<Rightarrow> u8 \<Rightarrow> bool \<Rightarrow> bool \<Rightarrow> bool \<Rightarrow> bool \<Rightarrow> u64" where
  "ld_field_word sc areg bmask breg shift imm8 zero swap wr_both =
     OP_LDF_BASE OR
     FIELD_PREP OP_LDF_A_SRC (ucast areg) OR
     FIELD_PREP OP_LDF_SC sc OR
     FIELD_PREP OP_LDF_B_SRC (ucast breg) OR
     FIELD_PREP OP_LDF_I8 (of_bool imm8) OR
     FIELD_PREP OP_LDF_SW (of_bool swap) OR
     FIELD_PREP OP_LDF_ZF (of_bool zero) OR
     FIELD_PREP OP_LDF_BMASK (ucast bmask) OR
     FIELD_PREP OP_LDF_SHF (ucast shift) OR
     FIELD_PREP OP_LDF_WR_AB (of_bool wr_both)"

definition emit_ld_field_any :: "u64 \<Rightarrow> u8 \<Rightarrow> u32 \<Rightarrow> u8 \<Rightarrow> u32 \<Rightarrow> bool \<Rightarrow> nfp_prog \<Rightarrow> nfp_prog" where
  "emit_ld_field_any sc shift dst bmask src zero p =
     (case swreg_to_restricted reg_none dst src True of
        Inl err \<Rightarrow> prog_fail err p
      | Inr r \<Rightarrow> nfp_prog_push
          (ld_field_word sc (re_areg r) bmask (re_breg r) shift (re_i8 r) zero (re_swap r) (re_wr_both r)) p)"

definition emit_ld_field :: "u32 \<Rightarrow> u8 \<Rightarrow> u32 \<Rightarrow> u64 \<Rightarrow> u8 \<Rightarrow> nfp_prog \<Rightarrow> nfp_prog" where
  "emit_ld_field dst bmask src sc shift = emit_ld_field_any sc shift dst bmask src False"

section \<open>Wrappers\<close>

text \<open>The value and the shift of an immediate that is 16 bits at one of three places.\<close>

definition pack_immed :: "u32 \<Rightarrow> (u16 \<times> u64) option" where
  "pack_immed imm =
     (if imm AND 0xffff0000 = 0 then Some (ucast imm, IMMED_SHIFT_0B)
      else if imm AND 0xff0000ff = 0 then Some (ucast (drop_bit 8 imm), IMMED_SHIFT_1B)
      else if imm AND 0x0000ffff = 0 then Some (ucast (drop_bit 16 imm), IMMED_SHIFT_2B)
      else None)"

definition wrp_immed :: "u32 \<Rightarrow> u32 \<Rightarrow> nfp_prog \<Rightarrow> nfp_prog" where
  "wrp_immed dst imm p =
     (case pack_immed imm of
        Some (val, shift) \<Rightarrow> emit_immed dst val IMMED_WIDTH_ALL False shift p
      | None \<Rightarrow> (case pack_immed (NOT imm) of
          Some (val, shift) \<Rightarrow> emit_immed dst val IMMED_WIDTH_ALL True shift p
        | None \<Rightarrow> emit_immed dst (ucast (drop_bit 16 imm)) IMMED_WIDTH_WORD False IMMED_SHIFT_2B
                    (emit_immed dst (ucast (imm AND 0xffff)) IMMED_WIDTH_ALL False IMMED_SHIFT_0B p)))"

definition ur_load_imm_any :: "u32 \<Rightarrow> u32 \<Rightarrow> nfp_prog \<Rightarrow> u32 \<times> nfp_prog" where
  "ur_load_imm_any imm tmp_reg p =
     (if FIELD_FIT UR_REG_IMM_MAX (ucast imm) then (reg_imm imm, p)
      else (tmp_reg, wrp_immed tmp_reg imm p))"

definition re_load_imm_any :: "u32 \<Rightarrow> u32 \<Rightarrow> nfp_prog \<Rightarrow> u32 \<times> nfp_prog" where
  "re_load_imm_any imm tmp_reg p =
     (if FIELD_FIT RE_REG_IMM_MAX (ucast imm) then (reg_imm imm, p)
      else (tmp_reg, wrp_immed tmp_reg imm p))"

text \<open>The special target goes into the top byte of the word just pushed.\<close>

definition set_special :: "u64 \<Rightarrow> nfp_prog \<Rightarrow> nfp_prog" where
  "set_special special p =
     (if np_prog p = [] then p\<lparr>np_oob := True\<rparr>
      else p\<lparr>np_prog := butlast (np_prog p) @ [last (np_prog p) OR FIELD_PREP OP_BR_SPECIAL special]\<rparr>)"

definition wrp_br_special :: "u64 \<Rightarrow> u64 \<Rightarrow> nfp_prog \<Rightarrow> nfp_prog" where
  "wrp_br_special msk special p = set_special special (emit_br msk 0 0 p)"

definition wrp_reg_mov :: "u16 \<Rightarrow> u16 \<Rightarrow> nfp_prog \<Rightarrow> nfp_prog" where
  "wrp_reg_mov dst src = emit_alu (reg_both (ucast dst)) reg_none ALU_OP_NONE (reg_b (ucast src))"

text \<open>The offset is 16 bits wide. The whole words the load fills are copied one by one.\<close>

definition data_ld_offset :: "u16 \<Rightarrow> u16 \<Rightarrow> u8 \<Rightarrow> nfp_prog \<Rightarrow> nfp_prog" where
  "data_ld_offset offset src sz p =
     (case ur_load_imm_any (ucast offset) (imm_b p) p of (tmp_reg, p) \<Rightarrow>
        let p = emit_alu (imm_both p) (reg_a (ucast src)) ALU_OP_ADD tmp_reg p;
            p = emit_alu (imm_a p) (imm_a p) ALU_OP_ADD (reg_imm (ucast sz)) p;
            p = emit_alu reg_none NFP_BPF_ABI_LEN ALU_OP_SUB (imm_a p) p
        in wrp_br_special BR_BLO OP_BR_GO_ABORT p)"

definition construct_data_ind_ld :: "u16 \<Rightarrow> u16 \<Rightarrow> bool \<Rightarrow> u8 \<Rightarrow> nfp_prog \<Rightarrow> nfp_prog" where
  "construct_data_ind_ld offset src src_valid sz p =
     (let n = (if sz < 4 then 4 else sz); shift = (if sz < 4 then 4 - sz else 0) in
      let p = (if src_valid then
                 let p = data_ld_offset offset src sz p
                 in emit_cmd CMD_TGT_READ8 CMD_MODE_32b 0 (pkt_reg p) (imm_b p) (n - 1) True p
               else
                 case ur_load_imm_any (ucast offset + ucast sz) (imm_a p) p of (tmp_reg, p) \<Rightarrow>
                 let p = wrp_br_special BR_BLO OP_BR_GO_ABORT (emit_alu reg_none NFP_BPF_ABI_LEN ALU_OP_SUB tmp_reg p)
                 in case re_load_imm_any (ucast offset) (imm_b p) p of (tmp_reg, p) \<Rightarrow>
                   emit_cmd CMD_TGT_READ8 CMD_MODE_32b 0 (pkt_reg p) tmp_reg (n - 1) True p) in
      let words = (if shift \<noteq> 0 then [] else [0..<(unat sz + 3) div 4]);
          p = (if shift \<noteq> 0 then
                 emit_shf (reg_both 0) reg_none SHF_OP_NONE (reg_xfer 0) SHF_SC_R_SHF (shift * 8) p
               else fold (\<lambda>i. emit_alu (reg_both (of_nat i)) reg_none ALU_OP_NONE (reg_xfer (of_nat i))) words p)
      in if length words < 2 then wrp_immed (reg_both 1) 0 p else p)"

definition construct_data_ld :: "u16 \<Rightarrow> u8 \<Rightarrow> nfp_prog \<Rightarrow> nfp_prog" where
  "construct_data_ld offset sz = construct_data_ind_ld offset 0 False sz"

definition wrp_set_mark :: "u8 \<Rightarrow> nfp_prog \<Rightarrow> nfp_prog" where
  "wrp_set_mark src p =
     emit_alu NFP_BPF_ABI_FLAGS NFP_BPF_ABI_FLAGS ALU_OP_OR (reg_imm 1)
       (emit_alu NFP_BPF_ABI_MARK reg_none ALU_OP_NONE (reg_b (ucast src)) p)"

definition wrp_alu_imm :: "u8 \<Rightarrow> u64 \<Rightarrow> u32 \<Rightarrow> nfp_prog \<Rightarrow> nfp_prog" where
  "wrp_alu_imm dst alu_op imm p =
     (if alu_op = ALU_OP_AND \<and> (imm = 0 \<or> NOT imm = 0) then
        (if imm = 0 then wrp_immed (reg_both (ucast dst)) 0 p else p)
      else if alu_op = ALU_OP_OR \<and> (imm = 0 \<or> NOT imm = 0) then
        (if NOT imm = 0 then wrp_immed (reg_both (ucast dst)) (NOT 0) p else p)
      else if alu_op = ALU_OP_XOR \<and> (imm = 0 \<or> NOT imm = 0) then
        (if NOT imm = 0 then emit_alu (reg_both (ucast dst)) reg_none ALU_OP_NEG (reg_b (ucast dst)) p else p)
      else case ur_load_imm_any imm (imm_b p) p of (tmp_reg, p) \<Rightarrow>
        emit_alu (reg_both (ucast dst)) (reg_a (ucast dst)) alu_op tmp_reg p)"

section \<open>What the emitters leave of a program\<close>

text \<open>
  Every emitter appends words, changes the error field, and nothing else: \<open>grown p q\<close>. The words
  in front stay, except that a special target may be marked in the last one.
\<close>

definition same_frame :: "nfp_prog \<Rightarrow> nfp_prog \<Rightarrow> bool" where
  "same_frame p q \<longleftrightarrow>
     np_alloc_len q = np_alloc_len p \<and> np_act q = np_act p \<and> np_num_regs q = np_num_regs p \<and>
     np_regs_per_thread q = np_regs_per_thread p \<and> np_start_off q = np_start_off p \<and>
     np_tgt_out q = np_tgt_out p \<and> np_tgt_abort q = np_tgt_abort p \<and> np_tgt_done q = np_tgt_done p \<and>
     np_n_translated q = np_n_translated p \<and> np_insns q = np_insns p"

lemma same_frame_refl [simp]: "same_frame p p" by (simp add: same_frame_def)

lemma same_frame_trans [trans]: "same_frame p q \<Longrightarrow> same_frame q r \<Longrightarrow> same_frame p r"
  by (simp add: same_frame_def)

end
