(* ===== verification/Bpf_Jit.thy ===== *)
theory Bpf_Jit
  imports Bpf_Emit
begin

text \<open>
  The translator of \<open>bpf/jit.c\<close> and the checks of \<open>bpf/verifier.c\<close>: one callback per BPF
  instruction, the table of callbacks, the exit sequences, the branch fix-up, the optimisations,
  and \<open>nfp_bpf_jit\<close> itself.

  A callback gets the instruction and the program and returns its error code, the instruction
  (it may mark it skipped or double) and the program. Accesses that C leaves unchecked are
  \<open>None\<close> where they fall outside of an array.
\<close>

section \<open>BPF instruction codes\<close>

abbreviation (input) BPF_LD :: u8 where "BPF_LD \<equiv> 0x00"
abbreviation (input) BPF_LDX :: u8 where "BPF_LDX \<equiv> 0x01"
abbreviation (input) BPF_STX :: u8 where "BPF_STX \<equiv> 0x03"
abbreviation (input) BPF_ALU :: u8 where "BPF_ALU \<equiv> 0x04"
abbreviation (input) BPF_JMP :: u8 where "BPF_JMP \<equiv> 0x05"
abbreviation (input) BPF_ALU64 :: u8 where "BPF_ALU64 \<equiv> 0x07"
abbreviation (input) BPF_W :: u8 where "BPF_W \<equiv> 0x00"
abbreviation (input) BPF_H :: u8 where "BPF_H \<equiv> 0x08"
abbreviation (input) BPF_B :: u8 where "BPF_B \<equiv> 0x10"
abbreviation (input) BPF_DW :: u8 where "BPF_DW \<equiv> 0x18"
abbreviation (input) BPF_ABS :: u8 where "BPF_ABS \<equiv> 0x20"
abbreviation (input) BPF_IND :: u8 where "BPF_IND \<equiv> 0x40"
abbreviation (input) BPF_MEM :: u8 where "BPF_MEM \<equiv> 0x60"
abbreviation (input) BPF_SIZE_MASK :: u8 where "BPF_SIZE_MASK \<equiv> 0x18"
abbreviation (input) TC_ACT_SHOT :: u64 where "TC_ACT_SHOT \<equiv> 2"
abbreviation (input) TC_ACT_STOLEN :: u64 where "TC_ACT_STOLEN \<equiv> 4"
abbreviation (input) TC_ACT_QUEUED :: u64 where "TC_ACT_QUEUED \<equiv> 5"
abbreviation (input) TC_ACT_REDIRECT :: u64 where "TC_ACT_REDIRECT \<equiv> 7"
abbreviation (input) MAX_BPF_REG :: nat where "MAX_BPF_REG \<equiv> 11"

definition BPF_CLASS :: "u8 \<Rightarrow> u8" where "BPF_CLASS code = code AND 0x07"
definition BPF_SIZE :: "u8 \<Rightarrow> u8" where "BPF_SIZE code = code AND 0x18"
definition BPF_MODE :: "u8 \<Rightarrow> u8" where "BPF_MODE code = code AND 0xe0"

text \<open>Offsets of the fields a program may touch, which the kernel's headers define.\<close>

record ctx_layout =
  cl_skb_len :: u16
  cl_skb_mark :: u16
  cl_xdp_data :: u16
  cl_xdp_data_end :: u16

section \<open>Operands\<close>

text \<open>A BPF register is the pair of registers \<open>2 r\<close> (low half) and \<open>2 r + 1\<close> (high half).\<close>

definition reg_lo :: "4 word \<Rightarrow> u32" where "reg_lo r = ucast r * 2"
definition reg_hi :: "4 word \<Rightarrow> u32" where "reg_hi r = ucast r * 2 + 1"

definition imm_sx :: "bpf_insn \<Rightarrow> u64" where "imm_sx insn = scast (bi_imm insn)"
definition imm_lo32 :: "bpf_insn \<Rightarrow> u32" where "imm_lo32 insn = ucast (imm_sx insn AND 0xffffffff)"
definition imm_hi32 :: "bpf_insn \<Rightarrow> u32" where "imm_hi32 insn = ucast (drop_bit 32 (imm_sx insn))"

type_synonym cb_result = "(int \<times> nfp_insn_meta) \<times> nfp_prog"
type_synonym instr_cb = "nfp_insn_meta \<Rightarrow> nfp_prog \<Rightarrow> cb_result"

definition cb_ok :: "nfp_insn_meta \<Rightarrow> nfp_prog \<Rightarrow> cb_result" where "cb_ok meta p = ((0, meta), p)"
definition cb_err :: "int \<Rightarrow> nfp_insn_meta \<Rightarrow> nfp_prog \<Rightarrow> cb_result" where "cb_err err meta p = ((err, meta), p)"

section \<open>Arithmetic callbacks\<close>

definition wrp_alu64_imm :: "u64 \<Rightarrow> bool \<Rightarrow> instr_cb" where
  "wrp_alu64_imm alu_op skip meta p =
     (let insn = im_insn meta; dst = bi_dst_reg insn in
      if skip then cb_ok (meta\<lparr>im_skip := True\<rparr>) p
      else cb_ok meta (wrp_alu_imm (ucast (reg_hi dst)) alu_op (imm_hi32 insn)
                        (wrp_alu_imm (ucast (reg_lo dst)) alu_op (imm_lo32 insn) p)))"

definition alu_reg_pair :: "u64 \<Rightarrow> u64 \<Rightarrow> instr_cb" where
  "alu_reg_pair op_lo op_hi meta p =
     (let dst = bi_dst_reg (im_insn meta); src = bi_src_reg (im_insn meta) in
      cb_ok meta (emit_alu (reg_both (reg_hi dst)) (reg_a (reg_hi dst)) op_hi (reg_b (reg_hi src))
                   (emit_alu (reg_both (reg_lo dst)) (reg_a (reg_lo dst)) op_lo (reg_b (reg_lo src)) p)))"

definition wrp_alu64_reg :: "u64 \<Rightarrow> instr_cb" where
  "wrp_alu64_reg alu_op = alu_reg_pair alu_op alu_op"

definition wrp_alu32_imm :: "u64 \<Rightarrow> bool \<Rightarrow> instr_cb" where
  "wrp_alu32_imm alu_op skip meta p =
     (let insn = im_insn meta; dst = bi_dst_reg insn in
      if skip then cb_ok (meta\<lparr>im_skip := True\<rparr>) p
      else cb_ok meta (wrp_immed (reg_both (reg_hi dst)) 0
                        (wrp_alu_imm (ucast (reg_lo dst)) alu_op (bi_imm insn) p)))"

definition wrp_alu32_reg :: "u64 \<Rightarrow> instr_cb" where
  "wrp_alu32_reg alu_op meta p =
     (let dst = bi_dst_reg (im_insn meta); src = bi_src_reg (im_insn meta) in
      cb_ok meta (wrp_immed (reg_both (reg_hi dst)) 0
                   (emit_alu (reg_both (reg_lo dst)) (reg_a (reg_lo dst)) alu_op (reg_b (reg_lo src)) p)))"

definition mov_reg64 :: instr_cb where
  "mov_reg64 meta p =
     (let dst = bi_dst_reg (im_insn meta); src = bi_src_reg (im_insn meta) in
      cb_ok meta (wrp_reg_mov (ucast (reg_hi dst)) (ucast (reg_hi src))
                   (wrp_reg_mov (ucast (reg_lo dst)) (ucast (reg_lo src)) p)))"

definition mov_imm64 :: instr_cb where
  "mov_imm64 meta p =
     (let insn = im_insn meta; dst = bi_dst_reg insn in
      cb_ok meta (wrp_immed (reg_both (reg_hi dst)) (imm_hi32 insn)
                   (wrp_immed (reg_both (reg_lo dst)) (imm_lo32 insn) p)))"

definition xor_reg64 :: instr_cb where "xor_reg64 = wrp_alu64_reg ALU_OP_XOR"
definition xor_imm64 :: instr_cb where
  "xor_imm64 meta = wrp_alu64_imm ALU_OP_XOR (bi_imm (im_insn meta) = 0) meta"
definition and_reg64 :: instr_cb where "and_reg64 = wrp_alu64_reg ALU_OP_AND"
definition and_imm64 :: instr_cb where
  "and_imm64 meta = wrp_alu64_imm ALU_OP_AND (NOT (bi_imm (im_insn meta)) = 0) meta"
definition or_reg64 :: instr_cb where "or_reg64 = wrp_alu64_reg ALU_OP_OR"
definition or_imm64 :: instr_cb where
  "or_imm64 meta = wrp_alu64_imm ALU_OP_OR (bi_imm (im_insn meta) = 0) meta"
definition add_reg64 :: instr_cb where "add_reg64 = alu_reg_pair ALU_OP_ADD ALU_OP_ADD_C"
definition sub_reg64 :: instr_cb where "sub_reg64 = alu_reg_pair ALU_OP_SUB ALU_OP_SUB_C"

definition alu_imm_pair :: "u64 \<Rightarrow> u64 \<Rightarrow> instr_cb" where
  "alu_imm_pair op_lo op_hi meta p =
     (let insn = im_insn meta; dst = bi_dst_reg insn in
      cb_ok meta (wrp_alu_imm (ucast (reg_hi dst)) op_hi (imm_hi32 insn)
                   (wrp_alu_imm (ucast (reg_lo dst)) op_lo (imm_lo32 insn) p)))"

definition add_imm64 :: instr_cb where "add_imm64 = alu_imm_pair ALU_OP_ADD ALU_OP_ADD_C"
definition sub_imm64 :: instr_cb where "sub_imm64 = alu_imm_pair ALU_OP_SUB ALU_OP_SUB_C"

definition shl_imm64 :: instr_cb where
  "shl_imm64 meta p =
     (let insn = im_insn meta; dst = bi_dst_reg insn in
      if bi_imm insn \<noteq> 32 then cb_err 1 meta p
      else cb_ok meta (wrp_immed (reg_both (reg_lo dst)) 0
                        (wrp_reg_mov (ucast (reg_hi dst)) (ucast (reg_lo dst)) p)))"

definition shr_imm64 :: instr_cb where
  "shr_imm64 meta p =
     (let insn = im_insn meta; dst = bi_dst_reg insn in
      if bi_imm insn \<noteq> 32 then cb_err 1 meta p
      else cb_ok meta (wrp_immed (reg_both (reg_hi dst)) 0
                        (wrp_reg_mov (ucast (reg_lo dst)) (ucast (reg_hi dst)) p)))"

definition mov_reg :: instr_cb where
  "mov_reg meta p =
     (let dst = bi_dst_reg (im_insn meta); src = bi_src_reg (im_insn meta) in
      cb_ok meta (wrp_immed (reg_both (reg_hi dst)) 0 (wrp_reg_mov (ucast (reg_lo dst)) (ucast (reg_lo src)) p)))"

definition mov_imm :: instr_cb where
  "mov_imm meta p =
     (let insn = im_insn meta; dst = bi_dst_reg insn in
      cb_ok meta (wrp_immed (reg_both (reg_hi dst)) 0 (wrp_immed (reg_both (reg_lo dst)) (bi_imm insn) p)))"

definition xor_reg :: instr_cb where "xor_reg = wrp_alu32_reg ALU_OP_XOR"
definition xor_imm :: instr_cb where
  "xor_imm meta = wrp_alu32_imm ALU_OP_XOR (NOT (bi_imm (im_insn meta)) = 0) meta"
definition and_reg :: instr_cb where "and_reg = wrp_alu32_reg ALU_OP_AND"
definition and_imm :: instr_cb where
  "and_imm meta = wrp_alu32_imm ALU_OP_AND (NOT (bi_imm (im_insn meta)) = 0) meta"
definition or_reg :: instr_cb where "or_reg = wrp_alu32_reg ALU_OP_OR"
definition or_imm :: instr_cb where
  "or_imm meta = wrp_alu32_imm ALU_OP_OR (bi_imm (im_insn meta) = 0) meta"
definition add_reg :: instr_cb where "add_reg = wrp_alu32_reg ALU_OP_ADD"
definition add_imm :: instr_cb where
  "add_imm meta = wrp_alu32_imm ALU_OP_ADD (bi_imm (im_insn meta) = 0) meta"
definition sub_reg :: instr_cb where "sub_reg = wrp_alu32_reg ALU_OP_SUB"
definition sub_imm :: instr_cb where
  "sub_imm meta = wrp_alu32_imm ALU_OP_SUB (bi_imm (im_insn meta) = 0) meta"

definition shl_imm :: instr_cb where
  "shl_imm meta p =
     (let insn = im_insn meta; dst = bi_dst_reg insn in
      if bi_imm insn = 0 then cb_err 1 meta p
      else cb_ok meta (wrp_immed (reg_both (reg_hi dst)) 0
             (emit_shf (reg_both (reg_lo dst)) reg_none SHF_OP_NONE (reg_b (reg_lo dst)) SHF_SC_L_SHF (ucast (bi_imm insn)) p)))"

text \<open>The second half of a 64-bit load; \<open>prev\<close> is the instruction before.\<close>

definition imm_ld8_part2 :: "nfp_insn_meta \<Rightarrow> instr_cb" where
  "imm_ld8_part2 prev meta p =
     cb_ok meta (wrp_immed (reg_both (reg_hi (bi_dst_reg (im_insn prev)))) (bi_imm (im_insn meta)) p)"

definition imm_ld8 :: instr_cb where
  "imm_ld8 meta p =
     cb_ok (meta\<lparr>im_double := True\<rparr>)
       (wrp_immed (reg_both (reg_lo (bi_dst_reg (im_insn meta)))) (bi_imm (im_insn meta)) p)"

section \<open>Loads and stores\<close>

definition data_ld :: "u8 \<Rightarrow> instr_cb" where
  "data_ld sz meta p = cb_ok meta (construct_data_ld (ucast (bi_imm (im_insn meta))) sz p)"

definition data_ind_ld :: "u8 \<Rightarrow> instr_cb" where
  "data_ind_ld sz meta p =
     cb_ok meta (construct_data_ind_ld (ucast (bi_imm (im_insn meta))) (ucast (reg_lo (bi_src_reg (im_insn meta)))) True sz p)"

definition mem_ldx4_skb :: "ctx_layout \<Rightarrow> instr_cb" where
  "mem_ldx4_skb cl meta p =
     (if bi_off (im_insn meta) = cl_skb_len cl then
        cb_ok meta (emit_alu (reg_both (reg_lo (bi_dst_reg (im_insn meta)))) reg_none ALU_OP_NONE NFP_BPF_ABI_LEN p)
      else cb_err (- EOPNOTSUPP) meta p)"

definition mem_ldx4_xdp :: "ctx_layout \<Rightarrow> instr_cb" where
  "mem_ldx4_xdp cl meta p =
     (let off = bi_off (im_insn meta); dst = reg_both (reg_lo (bi_dst_reg (im_insn meta))) in
      if off \<noteq> cl_xdp_data cl \<and> off \<noteq> cl_xdp_data_end cl then cb_err (- EOPNOTSUPP) meta p
      else let p = emit_alu dst reg_none ALU_OP_NONE NFP_BPF_ABI_PKT p
           in if off = cl_xdp_data cl then cb_ok meta p
              else cb_ok meta (emit_alu dst dst ALU_OP_ADD NFP_BPF_ABI_LEN p))"

definition mem_ldx4 :: "ctx_layout \<Rightarrow> instr_cb" where
  "mem_ldx4 cl meta p =
     (case (if np_act p = NN_ACT_XDP then mem_ldx4_xdp cl meta p else mem_ldx4_skb cl meta p) of
        (r, p) \<Rightarrow> (r, wrp_immed (reg_both (reg_hi (bi_dst_reg (im_insn meta)))) 0 p))"

definition mem_stx4_skb :: "ctx_layout \<Rightarrow> instr_cb" where
  "mem_stx4_skb cl meta p =
     (if bi_off (im_insn meta) = cl_skb_mark cl then
        cb_ok meta (wrp_set_mark (ucast (reg_lo (bi_src_reg (im_insn meta)))) p)
      else cb_err (- EOPNOTSUPP) meta p)"

definition mem_stx4_xdp :: instr_cb where
  "mem_stx4_xdp meta p = cb_err (- EOPNOTSUPP) meta p"

definition mem_stx4 :: "ctx_layout \<Rightarrow> instr_cb" where
  "mem_stx4 cl meta p = (if np_act p = NN_ACT_XDP then mem_stx4_xdp meta p else mem_stx4_skb cl meta p)"

section \<open>Jumps\<close>

text \<open>Backward jumps are not supported; \<open>jumping\<close> is the guard every jump starts with.\<close>

definition jumping :: "nfp_insn_meta \<Rightarrow> nfp_prog \<Rightarrow> cb_result \<Rightarrow> cb_result" where
  "jumping meta p r = (if sint (bi_off (im_insn meta)) < 0 then cb_err (- EOPNOTSUPP) meta p else r)"

definition wrp_test_reg_one :: "u32 \<Rightarrow> u64 \<Rightarrow> u32 \<Rightarrow> u64 \<Rightarrow> u16 \<Rightarrow> nfp_prog \<Rightarrow> nfp_prog" where
  "wrp_test_reg_one dst alu_op src br_mask off p =
     emit_br br_mask off 0 (emit_alu reg_none (reg_a dst) alu_op (reg_b src) p)"

definition wrp_test_reg :: "u64 \<Rightarrow> u64 \<Rightarrow> instr_cb" where
  "wrp_test_reg alu_op br_mask meta p =
     (let insn = im_insn meta; dst = bi_dst_reg insn; src = bi_src_reg insn in
      jumping meta p (cb_ok meta
        (wrp_test_reg_one (reg_hi dst) alu_op (reg_hi src) br_mask (bi_off insn)
          (wrp_test_reg_one (reg_lo dst) alu_op (reg_lo src) br_mask (bi_off insn) p))))"

definition cmp_imm_half :: "u64 \<Rightarrow> bool \<Rightarrow> u32 \<Rightarrow> u32 \<Rightarrow> nfp_prog \<Rightarrow> nfp_prog" where
  "cmp_imm_half op swap reg imm p =
     (case ur_load_imm_any imm (imm_b p) p of (tmp_reg, p) \<Rightarrow>
        if \<not> swap then emit_alu reg_none (reg_a reg) op tmp_reg p
        else emit_alu reg_none tmp_reg op (reg_a reg) p)"

definition wrp_cmp_imm :: "u64 \<Rightarrow> bool \<Rightarrow> instr_cb" where
  "wrp_cmp_imm br_mask swap meta p =
     (let insn = im_insn meta; dst = bi_dst_reg insn in
      jumping meta p (cb_ok meta
        (emit_br br_mask (bi_off insn) 0
          (cmp_imm_half ALU_OP_SUB_C swap (reg_hi dst) (imm_hi32 insn)
            (cmp_imm_half ALU_OP_SUB swap (reg_lo dst) (imm_lo32 insn) p)))))"

definition wrp_cmp_reg :: "u64 \<Rightarrow> bool \<Rightarrow> instr_cb" where
  "wrp_cmp_reg br_mask swap meta p =
     (let insn = im_insn meta;
          areg = (if swap then bi_dst_reg insn else bi_src_reg insn);
          breg = (if swap then bi_src_reg insn else bi_dst_reg insn) in
      jumping meta p (cb_ok meta
        (emit_br br_mask (bi_off insn) 0
          (emit_alu reg_none (reg_a (reg_hi areg)) ALU_OP_SUB_C (reg_b (reg_hi breg))
            (emit_alu reg_none (reg_a (reg_lo areg)) ALU_OP_SUB (reg_b (reg_lo breg)) p)))))"

definition jump :: instr_cb where
  "jump meta p = jumping meta p (cb_ok meta (emit_br BR_UNC (bi_off (im_insn meta)) 0 p))"

text \<open>One half of a comparison with an immediate: the difference goes to \<open>out\<close> unless it is 0.\<close>

definition xor_imm_half :: "u32 \<Rightarrow> u32 \<Rightarrow> u32 \<Rightarrow> u32 \<Rightarrow> nfp_prog \<Rightarrow> u32 \<times> nfp_prog" where
  "xor_imm_half out plain reg imm p =
     (if imm \<noteq> 0 then
        case ur_load_imm_any imm (imm_b p) p of (tmp_reg, p) \<Rightarrow> (out, emit_alu out (reg_a reg) ALU_OP_XOR tmp_reg p)
      else (plain, p))"

definition jeq_imm :: instr_cb where
  "jeq_imm meta p =
     (let insn = im_insn meta; dst = bi_dst_reg insn in
      jumping meta p
        (case xor_imm_half (imm_a p) (reg_a (reg_lo dst)) (reg_lo dst) (imm_lo32 insn) p of (or1, p) \<Rightarrow>
         case xor_imm_half (imm_b p) (reg_b (reg_hi dst)) (reg_hi dst) (imm_hi32 insn) p of (or2, p) \<Rightarrow>
           cb_ok meta (emit_br BR_BEQ (bi_off insn) 0 (emit_alu reg_none or1 ALU_OP_OR or2 p))))"

definition jgt_imm :: instr_cb where "jgt_imm = wrp_cmp_imm BR_BLO False"
definition jge_imm :: instr_cb where "jge_imm = wrp_cmp_imm BR_BHS True"
definition jlt_imm :: instr_cb where "jlt_imm = wrp_cmp_imm BR_BHS False"
definition jle_imm :: instr_cb where "jle_imm = wrp_cmp_imm BR_BLO True"

definition test_imm_half :: "u64 \<Rightarrow> u16 \<Rightarrow> u32 \<Rightarrow> u32 \<Rightarrow> nfp_prog \<Rightarrow> nfp_prog" where
  "test_imm_half op off reg imm p =
     (case ur_load_imm_any imm (imm_b p) p of (tmp_reg, p) \<Rightarrow>
        emit_br BR_BNE off 0 (emit_alu reg_none (reg_a reg) op tmp_reg p))"

definition jset_imm :: instr_cb where
  "jset_imm meta p =
     (let insn = im_insn meta; dst = bi_dst_reg insn; off = bi_off insn in
      jumping meta p
        (if imm_sx insn = 0 then cb_ok (meta\<lparr>im_skip := True\<rparr>) p
         else let p = (if imm_lo32 insn \<noteq> 0 then test_imm_half ALU_OP_AND off (reg_lo dst) (imm_lo32 insn) p else p);
                  p = (if imm_hi32 insn \<noteq> 0 then test_imm_half ALU_OP_AND off (reg_hi dst) (imm_hi32 insn) p else p)
              in cb_ok meta p))"

text \<open>With an immediate of 0 the code goes on after its first branch and tests the halves again.\<close>

definition jne_imm :: instr_cb where
  "jne_imm meta p =
     (let insn = im_insn meta; dst = bi_dst_reg insn; off = bi_off insn in
      jumping meta p
        (let p = (if imm_sx insn = 0 then
                    emit_br BR_BNE off 0 (emit_alu reg_none (reg_a (reg_lo dst)) ALU_OP_OR (reg_b (reg_hi dst)) p)
                  else p)
         in cb_ok meta (test_imm_half ALU_OP_XOR off (reg_hi dst) (imm_hi32 insn)
                         (test_imm_half ALU_OP_XOR off (reg_lo dst) (imm_lo32 insn) p))))"

definition jeq_reg :: instr_cb where
  "jeq_reg meta p =
     (let insn = im_insn meta; dst = bi_dst_reg insn; src = bi_src_reg insn in
      jumping meta p
        (let p = emit_alu (imm_a p) (reg_a (reg_lo dst)) ALU_OP_XOR (reg_b (reg_lo src)) p;
             p = emit_alu (imm_b p) (reg_a (reg_hi dst)) ALU_OP_XOR (reg_b (reg_hi src)) p
         in cb_ok meta (emit_br BR_BEQ (bi_off insn) 0 (emit_alu reg_none (imm_a p) ALU_OP_OR (imm_b p) p))))"

definition jgt_reg :: instr_cb where "jgt_reg = wrp_cmp_reg BR_BLO False"
definition jge_reg :: instr_cb where "jge_reg = wrp_cmp_reg BR_BHS True"
definition jlt_reg :: instr_cb where "jlt_reg = wrp_cmp_reg BR_BHS False"
definition jle_reg :: instr_cb where "jle_reg = wrp_cmp_reg BR_BLO True"
definition jset_reg :: instr_cb where "jset_reg = wrp_test_reg ALU_OP_AND BR_BNE"
definition jne_reg :: instr_cb where "jne_reg = wrp_test_reg ALU_OP_XOR BR_BNE"

definition goto_out :: instr_cb where
  "goto_out meta p = cb_ok meta (wrp_br_special BR_UNC OP_BR_GO_OUT p)"

section \<open>The table\<close>

definition instr_cb :: "ctx_layout \<Rightarrow> (u8 \<times> instr_cb) list" where
  "instr_cb cl =
     [(0xbf, mov_reg64), (0xb7, mov_imm64), (0xaf, xor_reg64), (0xa7, xor_imm64), (0x5f, and_reg64), (0x57, and_imm64),
      (0x4f, or_reg64), (0x47, or_imm64), (0x0f, add_reg64), (0x07, add_imm64), (0x1f, sub_reg64), (0x17, sub_imm64),
      (0x67, shl_imm64), (0x77, shr_imm64),
      (0xbc, mov_reg), (0xb4, mov_imm), (0xac, xor_reg), (0xa4, xor_imm), (0x5c, and_reg), (0x54, and_imm),
      (0x4c, or_reg), (0x44, or_imm), (0x0c, add_reg), (0x04, add_imm), (0x1c, sub_reg), (0x14, sub_imm), (0x64, shl_imm),
      (0x18, imm_ld8), (0x30, data_ld 1), (0x28, data_ld 2), (0x20, data_ld 4),
      (0x50, data_ind_ld 1), (0x48, data_ind_ld 2), (0x40, data_ind_ld 4),
      (0x61, mem_ldx4 cl), (0x63, mem_stx4 cl),
      (0x05, jump), (0x15, jeq_imm), (0x25, jgt_imm), (0x35, jge_imm), (0xa5, jlt_imm), (0xb5, jle_imm),
      (0x45, jset_imm), (0x55, jne_imm), (0x1d, jeq_reg), (0x2d, jgt_reg), (0x3d, jge_reg), (0xad, jlt_reg),
      (0xbd, jle_reg), (0x4d, jset_reg), (0x5d, jne_reg), (0x95, goto_out)]"

end
