(* ===== verification/Bpf_Program.thy ===== *)
theory Bpf_Program
  imports Bpf_Jit
begin

text \<open>
  Whole programs: the entry and exit sequences, \<open>nfp_translate\<close>, the branch fix-up, the
  optimisations and \<open>nfp_bpf_jit\<close> of \<open>bpf/jit.c\<close>, and the hooks of \<open>bpf/verifier.c\<close>.
\<close>

section \<open>Entry and exit\<close>

definition nfp_intro :: "nfp_prog \<Rightarrow> nfp_prog" where
  "nfp_intro p = emit_alu (pkt_reg p) reg_none ALU_OP_NONE NFP_BPF_ABI_PKT p"

definition set_tgt_abort :: "nfp_prog \<Rightarrow> nfp_prog" where
  "set_tgt_abort p = p\<lparr>np_tgt_abort := nfp_prog_current_offset p\<rparr>"

definition set_tgt_out :: "nfp_prog \<Rightarrow> nfp_prog" where
  "set_tgt_out p = p\<lparr>np_tgt_out := nfp_prog_current_offset p\<rparr>"

definition flags_to_a0 :: "nfp_prog \<Rightarrow> nfp_prog" where
  "flags_to_a0 = emit_alu (reg_a 0) reg_none ALU_OP_NONE NFP_BPF_ABI_FLAGS"

definition nfp_outro_tc_legacy :: "nfp_prog \<Rightarrow> nfp_prog" where
  "nfp_outro_tc_legacy p =
     (let act2code = (\<lambda>act. case act of NN_ACT_TC_REDIR \<Rightarrow> 0x24 | _ \<Rightarrow> 0x22);
          p = wrp_immed (reg_both 0) 0 (set_tgt_abort p);
          p = set_tgt_out p;
          p = emit_br_byte_neq (reg_b 0) 0xff 0 (ucast (np_tgt_done p)) 2 p;
          p = emit_ld_field (reg_a 0) 0xc (reg_imm 0x11) SHF_SC_L_SHF 16 (flags_to_a0 p);
          p = emit_br BR_UNC (ucast (np_tgt_done p)) 1 p
      in emit_ld_field (reg_a 0) 0xc (reg_imm (act2code (np_act p))) SHF_SC_L_SHF 16 p)"

definition nfp_outro_tc_da :: "nfp_prog \<Rightarrow> nfp_prog" where
  "nfp_outro_tc_da p =
     (let p = set_tgt_abort p;
          p = emit_br_def (ucast (np_tgt_done p)) 2 p;
          p = emit_ld_field (reg_a 0) 0xc (reg_imm 0x11) SHF_SC_L_SHF 16 (flags_to_a0 p);
          p = set_tgt_out p;
          p = emit_alu reg_none (reg_imm 7) ALU_OP_SUB (reg_b 0) p;
          p = flags_to_a0 (emit_br BR_BLO (ucast (np_tgt_abort p)) 0 p);
          p = wrp_immed (reg_b 3) 0x41001211 (wrp_immed (reg_b 2) 0x41221211 p);
          p = emit_shf (reg_a 1) reg_none SHF_OP_NONE (reg_b 0) SHF_SC_L_SHF 2 p;
          p = emit_alu reg_none (reg_a 1) ALU_OP_OR (reg_imm 0) p;
          p = emit_shf (reg_a 2) (reg_imm 0xf) SHF_OP_AND (reg_b 2) SHF_SC_R_SHF 0 p;
          p = emit_alu reg_none (reg_a 1) ALU_OP_OR (reg_imm 0) p;
          p = emit_shf (reg_b 2) (reg_imm 0xf) SHF_OP_AND (reg_b 3) SHF_SC_R_SHF 0 p;
          p = emit_br_def (ucast (np_tgt_done p)) 2 p;
          p = emit_shf (reg_b 2) (reg_a 2) SHF_OP_OR (reg_b 2) SHF_SC_L_SHF 4 p
      in emit_ld_field (reg_a 0) 0xc (reg_b 2) SHF_SC_L_SHF 16 p)"

definition nfp_outro_xdp :: "nfp_prog \<Rightarrow> nfp_prog" where
  "nfp_outro_xdp p =
     (let p = set_tgt_abort p;
          p = emit_br_def (ucast (np_tgt_done p)) 2 p;
          p = emit_ld_field (reg_a 0) 0xc (reg_imm 0x82) SHF_SC_L_SHF 16 (flags_to_a0 p);
          p = set_tgt_out p;
          p = emit_alu reg_none (reg_imm 3) ALU_OP_SUB (reg_b 0) p;
          p = emit_br BR_BLO (ucast (np_tgt_abort p)) 0 p;
          p = wrp_immed (reg_b 2) 0x44112282 p;
          p = emit_shf (reg_a 1) reg_none SHF_OP_NONE (reg_b 0) SHF_SC_L_SHF 3 p;
          p = emit_alu reg_none (reg_a 1) ALU_OP_OR (reg_imm 0) p;
          p = emit_shf (reg_b 2) (reg_imm 0xff) SHF_OP_AND (reg_b 2) SHF_SC_R_SHF 0 p;
          p = flags_to_a0 (emit_br_def (ucast (np_tgt_done p)) 2 p)
      in emit_ld_field (reg_a 0) 0xc (reg_b 2) SHF_SC_L_SHF 16 p)"

definition nfp_outro :: "nfp_prog \<Rightarrow> nfp_prog" where
  "nfp_outro p =
     (case np_act p of
        NN_ACT_DIRECT \<Rightarrow> nfp_outro_tc_da p
      | NN_ACT_TC_DROP \<Rightarrow> nfp_outro_tc_legacy p
      | NN_ACT_TC_REDIR \<Rightarrow> nfp_outro_tc_legacy p
      | NN_ACT_XDP \<Rightarrow> nfp_outro_xdp p)"

section \<open>Fixing up the branches\<close>

definition br_set_offset :: "u64 \<Rightarrow> u16 \<Rightarrow> u64" where
  "br_set_offset instr offset =
     (instr AND NOT (OP_BR_ADDR_HI OR OP_BR_ADDR_LO)) OR FIELD_PREP OP_BR_ADDR_HI (of_bool (br_addr_hi offset))
       OR FIELD_PREP OP_BR_ADDR_LO (ucast (br_addr_lo offset))"

text \<open>Walking \<open>off\<close> instructions on from the head of a list; what is left of \<open>off\<close> at its end.\<close>

fun fixup_target :: "u32 \<Rightarrow> nfp_insn_meta \<Rightarrow> nfp_insn_meta list \<Rightarrow> u32 \<times> nfp_insn_meta" where
  "fixup_target off m [] = (off, m)"
| "fixup_target off m (m' # ms) = (if off = 0 then (off, m) else fixup_target (off - 1) m' ms)"

definition set_targets :: "nat \<Rightarrow> nat \<Rightarrow> u16 \<Rightarrow> u64 list \<Rightarrow> u64 list" where
  "set_targets from upto_idx target ws =
     map (\<lambda>i. if from \<le> i \<and> i \<le> upto_idx \<and> nfp_is_br (ws ! i) then br_set_offset (ws ! i) target else ws ! i) [0..<length ws]"

text \<open>One round of the first loop; \<open>None\<close> is an index outside of the program.\<close>

definition fixup_one :: "nfp_insn_meta \<Rightarrow> nfp_insn_meta \<Rightarrow> nfp_insn_meta list \<Rightarrow> nfp_prog \<Rightarrow> (int \<times> nfp_prog) option" where
  "fixup_one meta nxt rest p =
     (if im_skip meta then Some (0, p)
      else if BPF_CLASS (bi_code (im_insn meta)) \<noteq> BPF_JMP then Some (0, p)
      else
        let br_idx = unat (nfp_prog_offset_to_index p (im_off nxt) - 1) in
        if length (np_prog p) \<le> br_idx then None
        else if \<not> nfp_is_br (np_prog p ! br_idx) then Some (- ELOOP, p)
        else if FIELD_GET OP_BR_SPECIAL (np_prog p ! br_idx) \<noteq> 0 then Some (0, p)
        else if bi_off (im_insn meta) = 0 then Some (- ELOOP, p)
        else case fixup_target (scast (bi_off (im_insn meta))) nxt rest of (off, target) \<Rightarrow>
          if off \<noteq> 0 then Some (- ELOOP, p)
          else if im_skip target then Some (- ELOOP, p)
          else Some (0, p\<lparr>np_prog := set_targets (unat (nfp_prog_offset_to_index p (im_off meta))) br_idx
                              (ucast (im_off target)) (np_prog p)\<rparr>))"

fun fixup_walk :: "nfp_insn_meta list \<Rightarrow> nfp_prog \<Rightarrow> (int \<times> nfp_prog) option" where
  "fixup_walk (meta # nxt # rest) p =
     (case fixup_one meta nxt rest p of
        None \<Rightarrow> None
      | Some (err, p) \<Rightarrow> if err \<noteq> 0 then Some (err, p) else fixup_walk (nxt # rest) p)"
| "fixup_walk _ p = Some (0, p)"

lemmas fixup_walk_induct = fixup_walk.induct [case_names Walk Empty Last]

definition fixup_special :: "u32 \<Rightarrow> u32 \<Rightarrow> u64 \<Rightarrow> u64" where
  "fixup_special tgt_out tgt_abort w =
     (if w AND OP_BR_BASE_MASK \<noteq> OP_BR_BASE then w
      else let special = FIELD_GET OP_BR_SPECIAL w;
               w = (if special = OP_BR_GO_OUT then br_set_offset w (ucast tgt_out)
                    else if special = OP_BR_GO_ABORT then br_set_offset w (ucast tgt_abort)
                    else w)
           in w AND NOT OP_BR_SPECIAL)"

definition nfp_fixup_branches :: "nfp_prog \<Rightarrow> (int \<times> nfp_prog) option" where
  "nfp_fixup_branches p =
     (case fixup_walk (np_insns p) p of
        None \<Rightarrow> None
      | Some (err, p) \<Rightarrow>
        if err \<noteq> 0 then Some (err, p)
        else Some (0, p\<lparr>np_prog := map (fixup_special (np_tgt_out p) (np_tgt_abort p)) (np_prog p)\<rparr>))"

section \<open>Translating a program\<close>

text \<open>The callback for an instruction: the second half of a double one, or the table's.\<close>

definition pick_cb :: "ctx_layout \<Rightarrow> nfp_insn_meta option \<Rightarrow> nfp_insn_meta \<Rightarrow> instr_cb option" where
  "pick_cb cl prev meta =
     (case prev of
        Some pm \<Rightarrow> if im_double pm then Some (imm_ld8_part2 pm) else map_of (instr_cb cl) (bi_code (im_insn meta))
      | None \<Rightarrow> map_of (instr_cb cl) (bi_code (im_insn meta)))"

text \<open>The loop over the instructions: the error code, the instructions as they are left, the program.\<close>

fun translate_loop :: "ctx_layout \<Rightarrow> nfp_insn_meta option \<Rightarrow> nfp_insn_meta list \<Rightarrow> nfp_prog \<Rightarrow>
    int \<times> nfp_insn_meta list \<times> nfp_prog" where
  "translate_loop cl prev [] p = (0, [], p)"
| "translate_loop cl prev (meta # ms) p =
     (let meta = meta\<lparr>im_off := nfp_prog_current_offset p\<rparr> in
      if im_skip meta then
        (case translate_loop cl (Some meta) ms (p\<lparr>np_n_translated := np_n_translated p + 1\<rparr>) of
           (err, ms, p) \<Rightarrow> (err, meta # ms, p))
      else case pick_cb cl prev meta of
        None \<Rightarrow> (- ENOENT, meta # ms, p)
      | Some cb \<Rightarrow> (case cb meta p of ((err, meta), p) \<Rightarrow>
          if err \<noteq> 0 then (err, meta # ms, p)
          else case translate_loop cl (Some meta) ms (p\<lparr>np_n_translated := np_n_translated p + 1\<rparr>) of
            (err, ms, p) \<Rightarrow> (err, meta # ms, p)))"

definition nfp_translate :: "ctx_layout \<Rightarrow> nfp_prog \<Rightarrow> (int \<times> nfp_prog) option" where
  "nfp_translate cl p =
     (let p = nfp_intro p in
      if np_error p \<noteq> 0 then Some (np_error p, p)
      else case translate_loop cl None (np_insns p) p of (err, ms, p) \<Rightarrow>
        let p = p\<lparr>np_insns := ms\<rparr> in
        if err \<noteq> 0 then Some (err, p)
        else let p = nfp_outro p in
          if np_error p \<noteq> 0 then Some (np_error p, p) else nfp_fixup_branches p)"

fun prepare_from :: "nat \<Rightarrow> bpf_insn list \<Rightarrow> nfp_insn_meta list" where
  "prepare_from i [] = []"
| "prepare_from i (insn # insns) =
     \<lparr>im_insn = insn, im_off = 0, im_n = of_nat i, im_skip = False, im_double = False\<rparr> # prepare_from (Suc i) insns"

definition nfp_prog_prepare :: "nat \<Rightarrow> bpf_insn list \<Rightarrow> nfp_prog \<Rightarrow> int \<times> nfp_prog" where
  "nfp_prog_prepare mem insns p =
     (if mem < length insns then (- ENOMEM, p\<lparr>np_insns := np_insns p @ prepare_from 0 (take mem insns)\<rparr>)
      else (0, p\<lparr>np_insns := np_insns p @ prepare_from 0 insns\<rparr>))"

section \<open>Optimisations\<close>

fun nfp_bpf_opt_reg_init :: "nfp_insn_meta list \<Rightarrow> nfp_insn_meta list" where
  "nfp_bpf_opt_reg_init [] = []"
| "nfp_bpf_opt_reg_init (meta # ms) =
     (let insn = im_insn meta in
      if bi_code insn = 0xaf \<and> bi_src_reg insn = bi_dst_reg insn then meta # nfp_bpf_opt_reg_init ms
      else let meta = (if bi_code insn = 0xbf \<and> bi_src_reg insn = 1 \<and> bi_dst_reg insn = 6
                       then meta\<lparr>im_skip := True\<rparr> else meta)
           in if \<not> im_skip meta then meta # ms else meta # nfp_bpf_opt_reg_init ms)"

definition reg_used :: "nfp_insn_meta list \<Rightarrow> nat \<Rightarrow> bool" where
  "reg_used ms r \<longleftrightarrow> (\<exists>m \<in> set ms. \<not> im_skip m \<and> (unat (bi_src_reg (im_insn m)) = r \<or> unat (bi_dst_reg (im_insn m)) = r))"

text \<open>The used registers get numbers in their order; the others get 0.\<close>

definition tgt_reg :: "(nat \<Rightarrow> bool) \<Rightarrow> nat \<Rightarrow> nat" where
  "tgt_reg used r = (if used r then length (filter used [0..<r]) else 0)"

definition rename_insn :: "(nat \<Rightarrow> nat) \<Rightarrow> nfp_insn_meta \<Rightarrow> nfp_insn_meta" where
  "rename_insn tgt m =
     m\<lparr>im_insn := (im_insn m)\<lparr>bi_src_reg := of_nat (tgt (unat (bi_src_reg (im_insn m)))),
                              bi_dst_reg := of_nat (tgt (unat (bi_dst_reg (im_insn m))))\<rparr>\<rparr>"

definition nfp_bpf_opt_reg_rename :: "nfp_insn_meta list \<Rightarrow> (nat \<times> nfp_insn_meta list) option" where
  "nfp_bpf_opt_reg_rename ms =
     (if \<exists>m \<in> set ms. MAX_BPF_REG \<le> unat (bi_src_reg (im_insn m)) \<or> MAX_BPF_REG \<le> unat (bi_dst_reg (im_insn m)) then None
      else let used = reg_used ms
           in Some (length (filter used [0..<MAX_BPF_REG]), map (rename_insn (tgt_reg used)) ms))"

text \<open>The array of expected masks ends at the index of \<open>BPF_B\<close>; a double word is past its end.\<close>

definition exp_mask :: "u8 \<Rightarrow> u32 option" where
  "exp_mask sz = (if sz = BPF_B then Some 0xff else if sz = BPF_H then Some 0xffff else if sz = BPF_W then Some 0xffffffff
                  else if sz < BPF_B then Some 0 else None)"

definition packet_load :: "bpf_insn \<Rightarrow> bool" where
  "packet_load insn \<longleftrightarrow> BPF_CLASS (bi_code insn) = BPF_LD \<and> (BPF_MODE (bi_code insn) = BPF_ABS \<or> BPF_MODE (bi_code insn) = BPF_IND)"

fun nfp_bpf_opt_ld_mask :: "nfp_insn_meta list \<Rightarrow> nfp_insn_meta list option" where
  "nfp_bpf_opt_ld_mask (m1 # m2 # ms) =
     (let insn = im_insn m1; nxt = im_insn m2 in
      if \<not> packet_load insn \<or> bi_code nxt \<noteq> 0x57 then map_option ((#) m1) (nfp_bpf_opt_ld_mask (m2 # ms))
      else case exp_mask (BPF_SIZE (bi_code insn)) of
        None \<Rightarrow> None
      | Some msk \<Rightarrow>
        if msk = 0 \<or> msk \<noteq> bi_imm nxt \<or> bi_src_reg nxt \<noteq> 0 \<or> bi_dst_reg nxt \<noteq> 0
        then map_option ((#) m1) (nfp_bpf_opt_ld_mask (m2 # ms))
        else map_option ((#) m1) (nfp_bpf_opt_ld_mask (m2\<lparr>im_skip := True\<rparr> # ms)))"
| "nfp_bpf_opt_ld_mask ms = Some ms"

fun nfp_bpf_opt_ld_shift :: "nfp_insn_meta list \<Rightarrow> nfp_insn_meta list" where
  "nfp_bpf_opt_ld_shift (m1 # m2 # m3 # ms) =
     (let insn = im_insn m1; next1 = im_insn m2; next2 = im_insn m3 in
      if packet_load insn \<and> BPF_SIZE (bi_code insn) = BPF_W \<and>
         (bi_code next1 = 0x67 \<and> bi_code next2 = 0x77 \<or> bi_code next1 = 0x77 \<and> bi_code next2 = 0x67) \<and>
         bi_src_reg next1 = 0 \<and> bi_dst_reg next1 = 0 \<and> bi_src_reg next2 = 0 \<and> bi_dst_reg next2 = 0 \<and>
         bi_imm next1 = 0x20 \<and> bi_imm next2 = 0x20
      then m1 # nfp_bpf_opt_ld_shift (m2\<lparr>im_skip := True\<rparr> # m3\<lparr>im_skip := True\<rparr> # ms)
      else m1 # nfp_bpf_opt_ld_shift (m2 # m3 # ms))"
| "nfp_bpf_opt_ld_shift ms = ms"

definition nfp_bpf_optimize :: "nfp_prog \<Rightarrow> nfp_prog option" where
  "nfp_bpf_optimize p =
     (case nfp_bpf_opt_reg_rename (nfp_bpf_opt_reg_init (np_insns p)) of
        None \<Rightarrow> None
      | Some (n, ms) \<Rightarrow> map_option (\<lambda>ms. p\<lparr>np_num_regs := n, np_insns := nfp_bpf_opt_ld_shift ms\<rparr>) (nfp_bpf_opt_ld_mask ms))"

section \<open>The verifier's hook\<close>

text \<open>
  A visit of the kernel's analyser: the instruction it is at, and of each register its type, its
  known value and the mask of its unknown bits.
\<close>

datatype bpf_reg_type = SCALAR_VALUE | PTR_TO_CTX | Other_reg_type

record bpf_reg_state =
  br_type :: bpf_reg_type
  br_value :: u64
  br_mask :: u64

record verifier_visit =
  vv_insn_idx :: u32
  vv_regs :: "nat \<Rightarrow> bpf_reg_state"

text \<open>The walk over the instruction list is the arithmetic of its position.\<close>

definition nfp_bpf_goto_meta :: "u16 \<Rightarrow> int \<Rightarrow> u32 \<Rightarrow> u32 \<Rightarrow> int" where
  "nfp_bpf_goto_meta meta_n pos insn_idx n_insns =
     (let backward = ucast meta_n - insn_idx; forward = insn_idx - ucast meta_n;
          st = (if min forward backward > n_insns - insn_idx - 1
                then (forward, n_insns - insn_idx - 1, uint (n_insns - 1)) else (forward, backward, pos))
      in case st of (forward, backward, pos) \<Rightarrow>
         let st = (if min forward backward > insn_idx \<and> backward > insn_idx
                   then (insn_idx, backward, 0) else (forward, backward, pos))
         in case st of (forward, backward, pos) \<Rightarrow>
            if forward < backward then pos + uint forward else pos - uint backward)"

definition nfp_bpf_check_exit :: "nfp_bpf_action_type \<Rightarrow> verifier_visit \<Rightarrow> int" where
  "nfp_bpf_check_exit act env =
     (let reg0 = vv_regs env 0; imm = br_value reg0 in
      if act = NN_ACT_XDP then 0
      else if \<not> (br_type reg0 = SCALAR_VALUE \<and> br_mask reg0 = 0) then - EINVAL
      else if act \<noteq> NN_ACT_DIRECT \<and> imm \<noteq> 0 \<and> imm AND 0xffffffff \<noteq> 0xffffffff then - EINVAL
      else if act = NN_ACT_DIRECT \<and> imm \<le> TC_ACT_REDIRECT \<and> imm \<noteq> TC_ACT_SHOT \<and> imm \<noteq> TC_ACT_STOLEN \<and> imm \<noteq> TC_ACT_QUEUED
      then - EINVAL else 0)"

definition nfp_bpf_check_ctx_ptr :: "verifier_visit \<Rightarrow> nat \<Rightarrow> int" where
  "nfp_bpf_check_ctx_ptr env r = (if br_type (vv_regs env r) \<noteq> PTR_TO_CTX then - EINVAL else 0)"

text \<open>The hook at an instruction; \<open>None\<close> when the walk leaves the list.\<close>

definition nfp_verify_insn :: "nfp_prog \<Rightarrow> int \<Rightarrow> verifier_visit \<Rightarrow> (int \<times> int) option" where
  "nfp_verify_insn p pos env =
     (if pos < 0 \<or> int (length (np_insns p)) \<le> pos then None
      else
        let new_pos = nfp_bpf_goto_meta (im_n (np_insns p ! nat pos)) pos (vv_insn_idx env) (of_nat (length (np_insns p))) in
        if new_pos < 0 \<or> int (length (np_insns p)) \<le> new_pos then None
        else
          let insn = im_insn (np_insns p ! nat new_pos); src = unat (bi_src_reg insn); dst = unat (bi_dst_reg insn) in
          Some (if src = 10 \<or> dst = 10 then - EINVAL
                else if MAX_BPF_REG \<le> src \<or> MAX_BPF_REG \<le> dst then - EINVAL
                else if bi_code insn = 0x95 then nfp_bpf_check_exit (np_act p) env
                else if bi_code insn AND NOT BPF_SIZE_MASK = BPF_LDX OR BPF_MEM then nfp_bpf_check_ctx_ptr env src
                else if bi_code insn AND NOT BPF_SIZE_MASK = BPF_STX OR BPF_MEM then nfp_bpf_check_ctx_ptr env dst
                else 0, new_pos))"

text \<open>
  \<open>bpf_analyzer\<close> is the kernel's: it makes some visits, stops at the first error of the hook, and
  has a result of its own.
\<close>

fun analyzer_visits :: "nfp_prog \<Rightarrow> int \<Rightarrow> verifier_visit list \<Rightarrow> int option" where
  "analyzer_visits p pos [] = Some 0"
| "analyzer_visits p pos (env # envs) =
     (case nfp_verify_insn p pos env of
        None \<Rightarrow> None
      | Some (err, pos) \<Rightarrow> if err \<noteq> 0 then Some err else analyzer_visits p pos envs)"

definition nfp_prog_verify :: "bool \<Rightarrow> verifier_visit list \<Rightarrow> int \<Rightarrow> nfp_prog \<Rightarrow> int option" where
  "nfp_prog_verify mem visits analyzer_err p =
     (if \<not> mem then Some (- ENOMEM)
      else case analyzer_visits p 0 visits of
        None \<Rightarrow> None
      | Some err \<Rightarrow> Some (if err \<noteq> 0 then err else analyzer_err))"

section \<open>The translation of a filter\<close>

record jit_env =
  je_prog_mem :: bool
  je_insn_mem :: nat
  je_priv_mem :: bool
  je_visits :: "verifier_visit list"
  je_analyzer_err :: int
  je_layout :: ctx_layout

definition new_prog :: "nfp_bpf_action_type \<Rightarrow> u32 \<Rightarrow> u32 \<Rightarrow> nfp_prog" where
  "new_prog act prog_start prog_done =
     \<lparr>np_prog = [], np_alloc_len = 0, np_act = act, np_num_regs = 0, np_regs_per_thread = 0, np_start_off = prog_start,
      np_tgt_out = 0, np_tgt_abort = 0, np_tgt_done = prog_done, np_n_translated = 0, np_error = 0, np_oob = False,
      np_insns = []\<rparr>"

text \<open>\<open>n_instr\<close> and \<open>dense_mode\<close> are filled in when the translation was reached.\<close>

definition nfp_bpf_jit ::
  "jit_env \<Rightarrow> bpf_insn list \<Rightarrow> nfp_bpf_action_type \<Rightarrow> u32 \<Rightarrow> u32 \<Rightarrow> nat \<Rightarrow> (int \<times> (nat \<times> bool) option \<times> nfp_prog) option" where
  "nfp_bpf_jit je insns act prog_start prog_done prog_sz =
     (let p = new_prog act prog_start prog_done in
      if \<not> je_prog_mem je then Some (- ENOMEM, None, p)
      else case nfp_prog_prepare (je_insn_mem je) insns p of (ret, p) \<Rightarrow>
        if ret \<noteq> 0 then Some (ret, None, p)
        else case nfp_prog_verify (je_priv_mem je) (je_visits je) (je_analyzer_err je) p of
          None \<Rightarrow> None
        | Some ret \<Rightarrow>
          if ret \<noteq> 0 then Some (ret, None, p)
          else case nfp_bpf_optimize p of
            None \<Rightarrow> None
          | Some p \<Rightarrow>
            let p = p\<lparr>np_regs_per_thread := (if np_num_regs p \<le> 7 then 16 else 32), np_alloc_len := prog_sz\<rparr> in
            case nfp_translate (je_layout je) p of
              None \<Rightarrow> None
            | Some (ret, p) \<Rightarrow>
              Some (if ret \<noteq> 0 then - EINVAL else 0, Some (length (np_prog p), np_num_regs p \<le> 7), p))"

end
