(* ===== verification/Bpf_Machine.thy ===== *)
theory Bpf_Machine
  imports Bpf_Emit
begin

text \<open>
  What the emitted words do. The micro-engine is hardware, so its arithmetic is a parameter
  (\<open>me_isa\<close>) with the behaviour the comments of \<open>bpf/jit.c\<close> rely on as the hypothesis
  \<open>me_documented\<close>; the words are taken apart by the fields of \<open>nfp_asm.h\<close>. The lemmas say that each
  emitter appends a word with the operands it was given.
\<close>

section \<open>The machine\<close>

record me_state =
  me_gpr :: "alu_dst_ab \<Rightarrow> nat \<Rightarrow> u32"
  me_nnr :: "nat \<Rightarrow> u32"
  me_xfer :: "nat \<Rightarrow> u32"
  me_carry :: bool
  me_zero :: bool

text \<open>
  \<open>isa_alu op l r c\<close>: result and carry out. \<open>isa_immed width inv shift imm old\<close>: the new content of
  the register. \<open>isa_shf op sc n l r\<close>: the right operand shifted and combined with the left one.
  \<open>isa_br mask zero carry\<close>: whether the branch is taken.
\<close>

record me_isa =
  isa_alu :: "u64 \<Rightarrow> u32 \<Rightarrow> u32 \<Rightarrow> bool \<Rightarrow> u32 \<times> bool"
  isa_immed :: "u64 \<Rightarrow> bool \<Rightarrow> u64 \<Rightarrow> u16 \<Rightarrow> u32 \<Rightarrow> u32"
  isa_shf :: "u64 \<Rightarrow> u64 \<Rightarrow> nat \<Rightarrow> u32 \<Rightarrow> u32 \<Rightarrow> u32"
  isa_br :: "u64 \<Rightarrow> bool \<Rightarrow> bool \<Rightarrow> bool"

text \<open>
  A subtraction sets the carry when it does not borrow, and \<open>BLO\<close> tests that it did: the length
  check (\<open>LEN - n\<close>, abort on \<open>BLO\<close>) and the exit sequences (\<open>7 - R0\<close>, abort on \<open>BLO\<close> "if R0 > 7")
  are written for this. \<open>NEG\<close> is the complement, as its use for an exclusive or with all ones asks.
  A left shift by \<open>n\<close> carries \<open>32 - n\<close> in its word.
\<close>

definition me_documented :: "me_isa \<Rightarrow> bool" where
  "me_documented isa \<longleftrightarrow>
     (\<forall>l r c. isa_alu isa ALU_OP_ADD l r c = (l + r, 2 ^ 32 \<le> unat l + unat r)) \<and>
     (\<forall>l r c. isa_alu isa ALU_OP_ADD_C l r c = (l + r + of_bool c, 2 ^ 32 \<le> unat l + unat r + of_bool c)) \<and>
     (\<forall>l r c. isa_alu isa ALU_OP_SUB l r c = (l - r, r \<le> l)) \<and>
     (\<forall>l r c. isa_alu isa ALU_OP_SUB_C l r c = (l - r - of_bool (\<not> c), unat r + of_bool (\<not> c) \<le> unat l)) \<and>
     (\<forall>l r c. fst (isa_alu isa ALU_OP_AND l r c) = l AND r) \<and>
     (\<forall>l r c. fst (isa_alu isa ALU_OP_OR l r c) = l OR r) \<and>
     (\<forall>l r c. fst (isa_alu isa ALU_OP_XOR l r c) = l XOR r) \<and>
     (\<forall>l r c. fst (isa_alu isa ALU_OP_NONE l r c) = r) \<and>
     (\<forall>l r c. fst (isa_alu isa ALU_OP_NEG l r c) = NOT r) \<and>
     (\<forall>imm old sh. sh \<le> IMMED_SHIFT_2B \<longrightarrow>
        isa_immed isa IMMED_WIDTH_ALL False sh imm old = push_bit (8 * unat sh) (ucast imm) \<and>
        isa_immed isa IMMED_WIDTH_ALL True sh imm old = NOT (push_bit (8 * unat sh) (ucast imm))) \<and>
     (\<forall>imm old. isa_immed isa IMMED_WIDTH_WORD False IMMED_SHIFT_2B imm old = push_bit 16 (ucast imm) OR (old AND 0xffff)) \<and>
     (\<forall>n l r. 0 < n \<and> n < 32 \<longrightarrow> isa_shf isa SHF_OP_NONE SHF_SC_L_SHF (32 - n) l r = push_bit n r) \<and>
     (\<forall>n l r. 0 < n \<and> n < 32 \<longrightarrow> isa_shf isa SHF_OP_NONE SHF_SC_R_SHF n l r = drop_bit n r) \<and>
     (\<forall>z c. isa_br isa BR_BEQ z c = z \<and> isa_br isa BR_BNE z c = (\<not> z) \<and> isa_br isa BR_BHS z c = c \<and>
            isa_br isa BR_BLO z c = (\<not> c) \<and> isa_br isa BR_UNC z c)"

text \<open>Operands by their encodings, unrestricted (10 bits) and restricted (8 bits and \<open>i8\<close>).\<close>

definition read_ur :: "me_state \<Rightarrow> alu_dst_ab \<Rightarrow> nat \<Rightarrow> u32" where
  "read_ur st bank r =
     (if r div 256 = 3 then of_nat (r mod 256)
      else if r div 128 = 5 then me_nnr st (r mod 128)
      else if r div 128 = 3 then me_xfer st (r mod 128)
      else me_gpr st bank r)"

definition read_re :: "me_state \<Rightarrow> alu_dst_ab \<Rightarrow> bool \<Rightarrow> u8 \<Rightarrow> u32" where
  "read_re st bank i8 r =
     (if bit r 5 then ucast ((r AND 0x1f) OR drop_bit 1 (r AND 0xc0) OR (if i8 then 0x80 else 0))
      else if bit r 7 then me_xfer st (unat (r AND 0x7f))
      else me_gpr st bank (unat r))"

definition write_gpr :: "alu_dst_ab \<Rightarrow> bool \<Rightarrow> nat \<Rightarrow> u32 \<Rightarrow> me_state \<Rightarrow> me_state" where
  "write_gpr ab both r v st =
     st\<lparr>me_gpr := (\<lambda>b. if both \<or> b = ab then (me_gpr st b)(r := v) else me_gpr st b)\<rparr>"

definition write_ur :: "alu_dst_ab \<Rightarrow> bool \<Rightarrow> nat \<Rightarrow> u32 \<Rightarrow> me_state \<Rightarrow> me_state" where
  "write_ur ab both r v st =
     (if r div 256 = 3 then st
      else if r div 128 = 5 then st\<lparr>me_nnr := (me_nnr st)(r mod 128 := v)\<rparr>
      else if r div 128 = 3 then st\<lparr>me_xfer := (me_xfer st)(r mod 128 := v)\<rparr>
      else write_gpr ab both r v st)"

definition write_re :: "alu_dst_ab \<Rightarrow> bool \<Rightarrow> u8 \<Rightarrow> u32 \<Rightarrow> me_state \<Rightarrow> me_state" where
  "write_re ab both r v st =
     (if bit r 5 then st
      else if bit r 7 then st\<lparr>me_xfer := (me_xfer st)(unat (r AND 0x7f) := v)\<rparr>
      else write_gpr ab both (unat r) v st)"

definition word_ab :: "u64 \<Rightarrow> alu_dst_ab" where
  "word_ab w = (if FIELD_GET OP_ALU_DST_AB w = 0 then ALU_DST_A else ALU_DST_B)"

definition step_alu :: "me_isa \<Rightarrow> u64 \<Rightarrow> me_state \<Rightarrow> me_state" where
  "step_alu isa w st =
     (let a = read_ur st ALU_DST_A (unat (FIELD_GET OP_ALU_A_SRC w)); b = read_ur st ALU_DST_B (unat (FIELD_GET OP_ALU_B_SRC w));
          swap = (FIELD_GET OP_ALU_SW w \<noteq> 0)
      in case isa_alu isa (FIELD_GET OP_ALU_OP w) (if swap then b else a) (if swap then a else b) (me_carry st) of (v, c) \<Rightarrow>
         write_ur (word_ab w) (FIELD_GET OP_ALU_WR_AB w \<noteq> 0) (unat (FIELD_GET OP_ALU_DST w)) v
           (st\<lparr>me_carry := c, me_zero := (v = 0)\<rparr>))"

text \<open>The destination of an immediate is the source that is not the immediate.\<close>

definition step_immed :: "me_isa \<Rightarrow> u64 \<Rightarrow> me_state \<Rightarrow> me_state" where
  "step_immed isa w st =
     (let a = unat (FIELD_GET OP_IMMED_A_SRC w); b = unat (FIELD_GET OP_IMMED_B_SRC w);
          on_b = (a div 256 = 3); d = (if on_b then b else a); lo = (if on_b then a else b);
          ab = (if on_b then ALU_DST_B else ALU_DST_A);
          imm = ucast (FIELD_GET OP_IMMED_IMM w) * 256 + of_nat (lo mod 256)
      in write_ur ab (FIELD_GET OP_IMMED_WR_AB w \<noteq> 0) d
           (isa_immed isa (FIELD_GET OP_IMMED_WIDTH w) (FIELD_GET OP_IMMED_INV w \<noteq> 0) (FIELD_GET OP_IMMED_SHIFT w) imm
              (read_ur st ab d)) st)"

definition step_shf :: "me_isa \<Rightarrow> u64 \<Rightarrow> me_state \<Rightarrow> me_state" where
  "step_shf isa w st =
     (let i8 = (FIELD_GET OP_SHF_I8 w \<noteq> 0);
          a = read_re st ALU_DST_A i8 (ucast (FIELD_GET OP_SHF_A_SRC w)); b = read_re st ALU_DST_B i8 (ucast (FIELD_GET OP_SHF_B_SRC w));
          swap = (FIELD_GET OP_SHF_SW w \<noteq> 0)
      in write_re (word_ab w) (FIELD_GET OP_SHF_WR_AB w \<noteq> 0) (ucast (FIELD_GET OP_SHF_DST w))
           (isa_shf isa (FIELD_GET OP_SHF_OP w) (FIELD_GET OP_SHF_SC w) (unat (FIELD_GET OP_SHF_SHIFT w))
              (if swap then b else a) (if swap then a else b)) st)"

text \<open>
  The kind of a word is in its bits 35 to 39 (37 to 39 for the arithmetic and the shifts, whose other
  bits are fields). The kinds not needed here have no step.
\<close>

definition me_step :: "me_isa \<Rightarrow> u64 \<Rightarrow> me_state \<Rightarrow> me_state option" where
  "me_step isa w st =
     (if w AND 0x0e000000000 = OP_ALU_BASE then Some (step_alu isa w st)
      else if w AND 0x0e000000000 = OP_SHF_BASE then Some (step_shf isa w st)
      else if w AND 0x0f800000000 = OP_IMMED_BASE then Some (step_immed isa w st)
      else None)"

text \<open>
  A block of words from its first: whether a branch left it, and the state then. All branches of
  one BPF instruction have the same target.
\<close>

fun me_run :: "me_isa \<Rightarrow> u64 list \<Rightarrow> me_state \<Rightarrow> (bool \<times> me_state) option" where
  "me_run isa [] st = Some (False, st)"
| "me_run isa (w # ws) st =
     (if nfp_is_br w then
        (if isa_br isa (FIELD_GET OP_BR_MASK w) (me_zero st) (me_carry st) then Some (True, st) else me_run isa ws st)
      else Option.bind (me_step isa w st) (me_run isa ws))"

lemma me_run_append:
  "me_run isa (us @ ws) st =
     (case me_run isa us st of None \<Rightarrow> None | Some (True, st) \<Rightarrow> Some (True, st) | Some (False, st) \<Rightarrow> me_run isa ws st)"
proof (induction us arbitrary: st)
  case (Cons u us)
  then show ?case by (cases "me_step isa u st") auto
qed simp

section \<open>Fields of the emitted words\<close>

lemma bf_shf_masks [simp]:
  "bf_shf OP_ALU_A_SRC = 0" "bf_shf OP_ALU_B_SRC = 10" "bf_shf OP_ALU_DST = 20" "bf_shf OP_ALU_SW = 30" "bf_shf OP_ALU_OP = 31"
  "bf_shf OP_ALU_DST_AB = 36" "bf_shf OP_ALU_WR_AB = 41"
  "bf_shf OP_IMMED_IMM = 20" "bf_shf OP_IMMED_WIDTH = 29" "bf_shf OP_IMMED_INV = 31" "bf_shf OP_IMMED_SHIFT = 33"
  "bf_shf OP_SHF_A_SRC = 0" "bf_shf OP_SHF_SC = 8" "bf_shf OP_SHF_B_SRC = 10" "bf_shf OP_SHF_I8 = 18" "bf_shf OP_SHF_SW = 19"
  "bf_shf OP_SHF_DST = 20" "bf_shf OP_SHF_SHIFT = 28" "bf_shf OP_SHF_OP = 33"
  "bf_shf OP_BR_MASK = 0" "bf_shf OP_BR_EV_PIP = 8" "bf_shf OP_BR_CSS = 14" "bf_shf OP_BR_DEFBR = 20"
  "bf_shf OP_BR_ADDR_LO = 22" "bf_shf OP_BR_ADDR_HI = 40" "bf_shf OP_BR_SPECIAL = 56"
  "bf_shf NN_REG_TYPE = 24" "bf_shf (0xff :: u32) = 0"
  by code_simp+


lemma field_10:
  fixes v :: u16
  assumes "unat v < 1024"
  shows "(ucast v :: u64) AND 0x3ff = ucast v"
proof -
  have "unat (ucast v :: u64) < 2 ^ 10" using assms by (simp add: unsigned_ucast_eq take_bit_nat_eq_self)
  from and_mask_id[OF this] show ?thesis by (simp add: mask_eq_exp_minus_1)
qed

lemma field_of_bool [simp]: "(of_bool b :: u64) AND 1 = of_bool b" by (cases b) simp_all

lemmas field_decode = FIELD_GET_or FIELD_GET_PREP FIELD_GET_PREP_other FIELD_GET_disjoint

lemma alu_word_fields:
  assumes "unat dst < 1024" "unat areg < 1024" "unat breg < 1024" "op AND 0x1f = op"
  shows "FIELD_GET OP_ALU_A_SRC (alu_word dst ab areg op breg swap both) = ucast areg"
    "FIELD_GET OP_ALU_B_SRC (alu_word dst ab areg op breg swap both) = ucast breg"
    "FIELD_GET OP_ALU_DST (alu_word dst ab areg op breg swap both) = ucast dst"
    "FIELD_GET OP_ALU_SW (alu_word dst ab areg op breg swap both) = of_bool swap"
    "FIELD_GET OP_ALU_OP (alu_word dst ab areg op breg swap both) = op"
    "FIELD_GET OP_ALU_DST_AB (alu_word dst ab areg op breg swap both) = alu_dst_bit ab"
    "FIELD_GET OP_ALU_WR_AB (alu_word dst ab areg op breg swap both) = of_bool both"
  using assms by (simp_all add: alu_word_def field_decode field_10 alu_dst_bit_def split: alu_dst_ab.split)

lemma FIELD_PREP_and_0: "m AND k = 0 \<Longrightarrow> FIELD_PREP m v AND k = 0"
  unfolding FIELD_PREP_def by (simp add: and.assoc)

lemmas kind_decode = bit.conj_disj_distrib2 FIELD_PREP_and_0

lemma br_kind: "nfp_is_br w \<Longrightarrow> w AND 0x0e000000000 = 0x0c000000000"
proof -
  assume "nfp_is_br w"
  then have "(w AND OP_BR_BASE_MASK) AND 0x0e000000000 = OP_BR_BASE AND 0x0e000000000" by (simp only: nfp_is_br_def)
  then show ?thesis by (simp add: and.assoc)
qed

lemma alu_kind: "alu_word dst ab areg op breg swap both AND 0x0e000000000 = OP_ALU_BASE"
  by (simp add: alu_word_def kind_decode)

lemma shf_kind: "shf_word dst ab sc sh areg op breg i8 swap both AND 0x0e000000000 = OP_SHF_BASE"
  by (simp add: shf_word_def kind_decode)

lemma immed_kind: "immed_word areg breg hi width neg sh both AND 0x0f800000000 = OP_IMMED_BASE"
  by (simp add: immed_word_def kind_decode)

lemma immed_kind3: "immed_word areg breg hi width neg sh both AND 0x0e000000000 = 0x0e000000000"
  by (simp add: immed_word_def kind_decode)

lemma not_br [simp]:
  "\<not> nfp_is_br (alu_word dst ab areg op breg swap both)"
  "\<not> nfp_is_br (shf_word dst ab sc sh areg op breg i8 swap both)"
  "\<not> nfp_is_br (immed_word areg breg hi width neg ish both)"
  using br_kind[of "alu_word dst ab areg op breg swap both"] br_kind[of "shf_word dst ab sc sh areg op breg i8 swap both"]
    br_kind[of "immed_word areg breg hi width neg ish both"]
  by (auto simp: alu_kind shf_kind immed_kind3)

lemma is_br_br_word [simp]: "nfp_is_br (br_word msk ev css addr defer)"
  by (simp add: nfp_is_br_def br_word_def kind_decode)

lemma me_step_kinds [simp]:
  "me_step isa (alu_word dst ab areg op breg swap both) st = Some (step_alu isa (alu_word dst ab areg op breg swap both) st)"
  "me_step isa (shf_word dst ab sc sh areg op breg i8 swap both) st = Some (step_shf isa (shf_word dst ab sc sh areg op breg i8 swap both) st)"
  "me_step isa (immed_word areg breg hi width neg ish both) st = Some (step_immed isa (immed_word areg breg hi width neg ish both) st)"
  by (simp_all add: me_step_def alu_kind shf_kind immed_kind immed_kind3)

lemma br_word_mask:
  assumes "msk AND 0x1f = msk"
  shows "FIELD_GET OP_BR_MASK (br_word msk ev css addr defer) = msk"
  using assms by (simp add: br_word_def field_decode)

lemma br_word_special: "FIELD_GET OP_BR_SPECIAL (br_word msk ev css addr defer) = 0"
  by (simp add: br_word_def field_decode)

section \<open>Software registers and their encodings\<close>

definition sw_type :: "u32 \<Rightarrow> u32" where "sw_type r = FIELD_GET NN_REG_TYPE r"
definition sw_num :: "u32 \<Rightarrow> nat" where "sw_num r = unat (FIELD_GET NN_REG_VAL r)"

lemma FIELD_GET_val: "FIELD_GET NN_REG_VAL (x OR FIELD_PREP NN_REG_TYPE t) = x AND 0xff"
  by (simp add: FIELD_GET_or FIELD_GET_PREP_other) (simp add: FIELD_GET_def)

lemma small_type:
  fixes x :: u32 assumes "unat x < 2 ^ 24" shows "FIELD_GET NN_REG_TYPE x = 0"
proof -
  have "x = x AND mask 24" using and_mask_id[OF assms] by simp
  then have "x AND NN_REG_TYPE = x AND (mask 24 AND NN_REG_TYPE)" by (metis and.assoc)
  also have "mask 24 AND NN_REG_TYPE = 0" by (simp add: mask_eq_exp_minus_1)
  finally show ?thesis by (simp add: FIELD_GET_def)
qed

lemma sw_types [simp]:
  assumes "unat x < 256"
  shows "sw_type (reg_both x) = NN_REG_GPR_BOTH" "sw_type (reg_a x) = NN_REG_GPR_A" "sw_type (reg_b x) = NN_REG_GPR_B"
    "sw_type (reg_nnr x) = NN_REG_NNR" "sw_type (reg_xfer x) = NN_REG_XFER" "sw_type (reg_imm x) = NN_REG_IMM"
  using small_type[of x] assms
  by (simp_all add: sw_type_def reg_both_def reg_a_def reg_b_def reg_nnr_def reg_xfer_def reg_imm_def FIELD_GET_or FIELD_GET_PREP)

lemma sw_type_none [simp]: "sw_type reg_none = NN_REG_NONE"
  by (simp add: sw_type_def reg_none_def FIELD_GET_PREP)

lemma sw_num_small:
  assumes "unat x < 256" shows "unat (x AND 0xff :: u32) = unat x"
  using and_mask_id[of x 8] assms by (simp add: mask_eq_exp_minus_1)

lemma sw_nums [simp]:
  assumes "unat x < 256"
  shows "sw_num (reg_both x) = unat x" "sw_num (reg_a x) = unat x" "sw_num (reg_b x) = unat x"
    "sw_num (reg_nnr x) = unat x" "sw_num (reg_xfer x) = unat x" "sw_num (reg_imm x) = unat x"
  using sw_num_small[OF assms]
  by (simp_all add: sw_num_def reg_both_def reg_a_def reg_b_def reg_nnr_def reg_xfer_def reg_imm_def FIELD_GET_val)

lemma sw_num_less: "sw_num r < 256"
proof -
  have "unat (r AND mask 8) < 2 ^ 8" by (rule word_and_mask_less) simp
  then show ?thesis by (simp add: sw_num_def FIELD_GET_def mask_eq_exp_minus_1)
qed

lemma bit_small: "unat (v :: 'a::len word) < 2 ^ k \<Longrightarrow> bit v n \<Longrightarrow> n < k"
  by (metis and_mask_id bit_and_iff bit_mask_iff)

lemma push_or_plus:
  fixes v :: "'a::len word"
  assumes "unat v < 2 ^ k"
  shows "push_bit k d OR v = push_bit k d + v"
proof (rule disjunctive_add[symmetric])
  fix n show "\<not> bit (push_bit k d) n \<or> \<not> bit v n"
    using bit_small[OF assms, of n] by (cases "n < k") (auto simp: bit_push_bit_iff)
qed

lemma unreg_parts:
  fixes v :: u16
  shows "unat v < 128 \<Longrightarrow> unat (0x180 OR v) = 0x180 + unat v"
    "unat v < 128 \<Longrightarrow> unat (0x280 OR v) = 0x280 + unat v"
    "unat v < 256 \<Longrightarrow> unat (0x300 OR v) = 0x300 + unat v"
  using push_or_plus[of v 7 3] push_or_plus[of v 7 5] push_or_plus[of v 8 3]
  by (simp_all add: push_bit_eq_mult unat_word_ariths)

lemma sw_num_u16: "unat (ucast (FIELD_GET NN_REG_VAL r) :: u16) = sw_num r"
  using sw_num_less[of r] by (simp add: sw_num_def unsigned_ucast_eq take_bit_nat_eq_self)

lemma sw_num_no_high: "(ucast (FIELD_GET NN_REG_VAL r) :: u16) AND NOT 0xff = 0"
proof -
  have "(ucast (FIELD_GET NN_REG_VAL r) :: u16) = ucast (FIELD_GET NN_REG_VAL r) AND mask 8"
    by (rule and_mask_id[symmetric]) (use sw_num_u16[of r] sw_num_less[of r] in simp)
  also have "\<dots> = ucast (FIELD_GET NN_REG_VAL r) AND 0xff" by (simp add: mask_eq_exp_minus_1)
  finally show ?thesis by (metis and.assoc bit.conj_cancel_right and_zero_eq)
qed

text \<open>The value a source register stands for.\<close>

definition sw_src :: "u32 \<Rightarrow> bool" where
  "sw_src r \<longleftrightarrow> sw_type r \<in> {NN_REG_GPR_A, NN_REG_GPR_B, NN_REG_IMM} \<or> sw_type r \<in> {NN_REG_NNR, NN_REG_XFER} \<and> sw_num r < 128"

definition sw_val :: "me_state \<Rightarrow> u32 \<Rightarrow> u32" where
  "sw_val st r =
     (if sw_type r = NN_REG_NNR then me_nnr st (sw_num r)
      else if sw_type r = NN_REG_XFER then me_xfer st (sw_num r)
      else if sw_type r = NN_REG_IMM then of_nat (sw_num r)
      else me_gpr st (if sw_type r = NN_REG_GPR_B then ALU_DST_B else ALU_DST_A) (sw_num r))"

lemma unreg_less: "unat (nfp_swreg_to_unreg r d) < 1024"
proof -
  define v :: u16 where "v = ucast (FIELD_GET NN_REG_VAL r)"
  have v8: "unat v < 256" using sw_num_u16[of r] sw_num_less[of r] by (simp add: v_def)
  have or_less: "unat (c OR v) < 1024" if "c AND mask 10 = c" for c
  proof -
    have "v = v AND mask 10" using and_mask_id[of v 10] v8 by simp
    then have "c OR v = (c OR v) AND mask 10" using that by (simp add: bit.conj_disj_distrib2)
    moreover have "unat ((c OR v) AND mask 10) < 2 ^ 10" by (rule word_and_mask_less) simp
    ultimately show ?thesis by simp
  qed
  show ?thesis using v8 or_less[of "0x180"] or_less[of "0x280"] or_less[of "0x300"]
    unfolding nfp_swreg_to_unreg_def Let_def UR_REG_IMM_encode_def v_def[symmetric] by (simp add: mask_eq_exp_minus_1)
qed

lemma unat_ucast16 [simp]: "unat (ucast (x :: u16) :: u64) = unat x"
proof -
  have "unat x < 2 ^ LENGTH(16)" by (rule unsigned_less)
  then show ?thesis by (simp add: unsigned_ucast_eq take_bit_nat_eq_self)
qed

lemma ur_div_mod:
  "n < 128 \<Longrightarrow> (384 + n) div 128 = 3 \<and> (384 + n) mod 128 = n \<and> (384 + n) div 256 = (1 :: nat)"
  "n < 128 \<Longrightarrow> (640 + n) div 128 = 5 \<and> (640 + n) mod 128 = n \<and> (640 + n) div 256 = (2 :: nat)"
  "n < 256 \<Longrightarrow> (768 + n) div 256 = 3 \<and> (768 + n) mod 256 = (n :: nat)"
  by (simp_all add: div_nat_eqI mod_nat_eqI)

lemma read_ur_src:
  assumes "sw_src r" "sw_type r = NN_REG_GPR_A \<Longrightarrow> bank = ALU_DST_A" "sw_type r = NN_REG_GPR_B \<Longrightarrow> bank = ALU_DST_B"
  shows "read_ur st bank (unat (nfp_swreg_to_unreg r False)) = sw_val st r"
proof -
  have n: "sw_num r div 256 = 0" "sw_num r < 256" using sw_num_less[of r] by auto
  have d: "sw_num r div 128 \<noteq> 3" "sw_num r div 128 \<noteq> 5" "sw_num r div 256 \<noteq> 3" using n by auto
  consider "sw_type r = NN_REG_GPR_A" | "sw_type r = NN_REG_GPR_B" | "sw_type r = NN_REG_IMM"
    | "sw_type r = NN_REG_NNR" "sw_num r < 128" | "sw_type r = NN_REG_XFER" "sw_num r < 128"
    using assms(1) unfolding sw_src_def by auto
  then show ?thesis
  proof cases
    case 1
    then show ?thesis using assms(2) d
      by (simp add: nfp_swreg_to_unreg_def sw_type_def[symmetric] sw_num_u16 read_ur_def sw_val_def)
  next
    case 2
    then show ?thesis using assms(3) d
      by (simp add: nfp_swreg_to_unreg_def sw_type_def[symmetric] sw_num_u16 read_ur_def sw_val_def)
  next
    case 3
    then show ?thesis using n sw_num_no_high[of r]
      by (simp add: nfp_swreg_to_unreg_def sw_type_def[symmetric] UR_REG_IMM_encode_def unreg_parts ur_div_mod sw_num_u16 read_ur_def sw_val_def)
  next
    case 4
    then show ?thesis
      by (simp add: nfp_swreg_to_unreg_def sw_type_def[symmetric] unreg_parts ur_div_mod sw_num_u16 read_ur_def sw_val_def)
  next
    case 5
    then show ?thesis
      by (simp add: nfp_swreg_to_unreg_def sw_type_def[symmetric] unreg_parts ur_div_mod sw_num_u16 read_ur_def sw_val_def)
  qed
qed

text \<open>Writing to a destination.\<close>

definition sw_dst :: "u32 \<Rightarrow> bool" where
  "sw_dst r \<longleftrightarrow> sw_type r \<in> {NN_REG_GPR_A, NN_REG_GPR_B, NN_REG_GPR_BOTH, NN_REG_NONE} \<or> sw_type r = NN_REG_NNR \<and> sw_num r < 128"

definition sw_write :: "u32 \<Rightarrow> u32 \<Rightarrow> me_state \<Rightarrow> me_state" where
  "sw_write r v st =
     (if sw_type r = NN_REG_NONE then st
      else if sw_type r = NN_REG_NNR then st\<lparr>me_nnr := (me_nnr st)(sw_num r := v)\<rparr>
      else write_gpr (if sw_type r = NN_REG_GPR_B then ALU_DST_B else ALU_DST_A) (sw_type r = NN_REG_GPR_BOTH) (sw_num r) v st)"

lemma write_ur_dst:
  assumes "sw_dst r"
  shows "write_ur (if sw_type r = NN_REG_GPR_B then ALU_DST_B else ALU_DST_A) (sw_type r = NN_REG_GPR_BOTH)
    (unat (nfp_swreg_to_unreg r True)) v st = sw_write r v st"
proof -
  have n: "sw_num r < 256" using sw_num_less[of r] by auto
  have d: "sw_num r div 128 \<noteq> 3" "sw_num r div 128 \<noteq> 5" "sw_num r div 256 \<noteq> 3" using n by auto
  consider "sw_type r \<in> {NN_REG_GPR_A, NN_REG_GPR_B, NN_REG_GPR_BOTH}" | "sw_type r = NN_REG_NONE" | "sw_type r = NN_REG_NNR" "sw_num r < 128"
    using assms unfolding sw_dst_def by auto
  then show ?thesis
  proof cases
    case 1
    then show ?thesis using d
      by (auto simp: nfp_swreg_to_unreg_def sw_type_def[symmetric] sw_num_u16 write_ur_def sw_write_def)
  next
    case 2
    then show ?thesis by (simp add: nfp_swreg_to_unreg_def sw_type_def[symmetric] write_ur_def sw_write_def)
  next
    case 3
    then show ?thesis
      by (simp add: nfp_swreg_to_unreg_def sw_type_def[symmetric] unreg_parts ur_div_mod sw_num_u16 write_ur_def sw_write_def)
  qed
qed

lemma unrestricted_ok:
  assumes "sw_type dst \<noteq> NN_REG_IMM" "sw_type l \<noteq> sw_type r"
  shows "swreg_to_unrestricted dst l r =
    Inr \<lparr>ur_dst_ab = (if sw_type dst = NN_REG_GPR_B then ALU_DST_B else ALU_DST_A), ur_dst = nfp_swreg_to_unreg dst True,
      ur_areg = nfp_swreg_to_unreg (if sw_type l = NN_REG_GPR_B \<or> sw_type r = NN_REG_GPR_A then r else l) False,
      ur_breg = nfp_swreg_to_unreg (if sw_type l = NN_REG_GPR_B \<or> sw_type r = NN_REG_GPR_A then l else r) False,
      ur_swap = (sw_type l = NN_REG_GPR_B \<or> sw_type r = NN_REG_GPR_A), ur_wr_both = (sw_type dst = NN_REG_GPR_BOTH)\<rparr>"
  using assms by (simp add: swreg_to_unrestricted_def sw_type_def Let_def)

section \<open>What an arithmetic word does\<close>

definition alu_result :: "me_isa \<Rightarrow> u64 \<Rightarrow> u32 \<Rightarrow> u32 \<Rightarrow> u32 \<Rightarrow> me_state \<Rightarrow> me_state" where
  "alu_result isa op dst l r st =
     (case isa_alu isa op l r (me_carry st) of (v, c) \<Rightarrow> sw_write dst v (st\<lparr>me_carry := c, me_zero := (v = 0)\<rparr>))"

lemma emit_alu_step:
  assumes "op AND 0x1f = op" "sw_dst dst" "sw_type l \<noteq> sw_type r" "sw_src r" "sw_src l \<or> sw_type l = NN_REG_NONE"
  shows "\<exists>w. emit_alu dst l op r p = nfp_prog_push w p \<and> \<not> nfp_is_br w \<and>
    (\<forall>isa st. \<exists>lv. (sw_src l \<longrightarrow> lv = sw_val st l) \<and> me_step isa w st = Some (alu_result isa op dst lv (sw_val st r) st))"
proof -
  let ?swap = "sw_type l = NN_REG_GPR_B \<or> sw_type r = NN_REG_GPR_A"
  let ?a = "if ?swap then r else l" and ?b = "if ?swap then l else r"
  let ?ab = "if sw_type dst = NN_REG_GPR_B then ALU_DST_B else ALU_DST_A" and ?both = "sw_type dst = NN_REG_GPR_BOTH"
  let ?w = "alu_word (nfp_swreg_to_unreg dst True) ?ab (nfp_swreg_to_unreg ?a False) op (nfp_swreg_to_unreg ?b False) ?swap ?both"
  have imm: "sw_type dst \<noteq> NN_REG_IMM" using assms(2) by (auto simp: sw_dst_def)
  have e: "emit_alu dst l op r p = nfp_prog_push ?w p"
    unfolding emit_alu_def unrestricted_ok[OF imm assms(3)] by simp
  have ab: "word_ab ?w = ?ab"
    by (simp add: word_ab_def alu_word_fields[OF unreg_less unreg_less unreg_less assms(1)] alu_dst_bit_def)
  have s: "\<exists>lv. (sw_src l \<longrightarrow> lv = sw_val st l) \<and> me_step isa ?w st = Some (alu_result isa op dst lv (sw_val st r) st)" for isa st
  proof -
    define ra where "ra = read_ur st ALU_DST_A (unat (nfp_swreg_to_unreg ?a False))"
    define rb where "rb = read_ur st ALU_DST_B (unat (nfp_swreg_to_unreg ?b False))"
    have r: "(if ?swap then ra else rb) = sw_val st r"
    proof (cases ?swap)
      case True
      then have "sw_type r \<noteq> NN_REG_GPR_B" using assms(3) by auto
      then show ?thesis using True read_ur_src[OF assms(4), of ALU_DST_A st] by (simp add: ra_def)
    next
      case False
      then show ?thesis using read_ur_src[OF assms(4), of ALU_DST_B st] by (simp add: rb_def)
    qed
    have l: "sw_src l \<longrightarrow> (if ?swap then rb else ra) = sw_val st l"
    proof (cases ?swap)
      case True
      then have "sw_type l \<noteq> NN_REG_GPR_A" using assms(3) by auto
      then show ?thesis using True read_ur_src[of l ALU_DST_B st] by (simp add: rb_def)
    next
      case False
      then show ?thesis using read_ur_src[of l ALU_DST_A st] by (simp add: ra_def)
    qed
    obtain v c where v: "isa_alu isa op (if ?swap then rb else ra) (sw_val st r) (me_carry st) = (v, c)" by force
    have "step_alu isa ?w st = write_ur ?ab ?both (unat (nfp_swreg_to_unreg dst True)) v (st\<lparr>me_carry := c, me_zero := (v = 0)\<rparr>)"
      unfolding step_alu_def Let_def alu_word_fields[OF unreg_less unreg_less unreg_less assms(1)] ab unat_ucast16
        ra_def[symmetric] rb_def[symmetric]
      using v r by (simp only: of_bool_eq_0_iff not_not) simp
    then have "me_step isa ?w st = Some (alu_result isa op dst (if ?swap then rb else ra) (sw_val st r) st)"
      unfolding write_ur_dst[OF assms(2)] using v by (simp add: alu_result_def)
    with l show ?thesis by blast
  qed
  show ?thesis by (rule exI[of _ ?w]) (use e s not_br in blast)
qed

section \<open>Immediates\<close>

lemma field_8:
  fixes v :: u16
  assumes "unat v < 256"
  shows "(ucast v :: u64) AND 0xff = ucast v"
proof -
  have "unat (ucast v :: u64) < 2 ^ 8" using assms by simp
  from and_mask_id[OF this] show ?thesis by (simp add: mask_eq_exp_minus_1)
qed

lemma immed_word_fields:
  assumes "unat areg < 1024" "unat breg < 1024" "unat hi < 256" "width AND 3 = width" "sh AND 3 = sh"
  shows "FIELD_GET OP_IMMED_A_SRC (immed_word areg breg hi width neg sh both) = ucast areg"
    "FIELD_GET OP_IMMED_B_SRC (immed_word areg breg hi width neg sh both) = ucast breg"
    "FIELD_GET OP_IMMED_IMM (immed_word areg breg hi width neg sh both) = ucast hi"
    "FIELD_GET OP_IMMED_WIDTH (immed_word areg breg hi width neg sh both) = width"
    "FIELD_GET OP_IMMED_INV (immed_word areg breg hi width neg sh both) = of_bool neg"
    "FIELD_GET OP_IMMED_SHIFT (immed_word areg breg hi width neg sh both) = sh"
    "FIELD_GET OP_IMMED_WR_AB (immed_word areg breg hi width neg sh both) = of_bool both"
  using assms by (simp_all add: immed_word_def field_decode field_10 field_8)

lemma unreg_imm:
  assumes "unat x < 256"
  shows "unat (nfp_swreg_to_unreg (reg_imm x) False) = 768 + unat x"
proof -
  have "sw_type (reg_imm x) = NN_REG_IMM" "sw_num (reg_imm x) = unat x" using assms by simp_all
  then show ?thesis using sw_num_no_high[of "reg_imm x"] sw_num_u16[of "reg_imm x"] assms
    by (simp add: nfp_swreg_to_unreg_def sw_type_def[symmetric] UR_REG_IMM_encode_def unreg_parts)
qed

lemma unreg_gpr:
  assumes "sw_type r \<in> {NN_REG_GPR_A, NN_REG_GPR_B, NN_REG_GPR_BOTH}"
  shows "unat (nfp_swreg_to_unreg r d) = sw_num r"
  using assms by (auto simp: nfp_swreg_to_unreg_def sw_type_def[symmetric] sw_num_u16)

lemma imm_split:
  fixes imm :: u16
  shows "ucast (ucast (drop_bit 8 imm) :: u64) * 256 + (imm AND 0xff) = imm"
proof -
  have u: "ucast (ucast x :: u64) = x" for x :: u16
    by (rule bit_word_eqI) (auto simp: bit_ucast_iff)
  have "imm AND 0xff = imm mod 256" using take_bit_eq_mask[of 8 imm] by (simp add: take_bit_eq_mod mask_eq_exp_minus_1)
  moreover have "drop_bit 8 imm = imm div 256" by (simp add: drop_bit_eq_div)
  ultimately show ?thesis using u[of "imm div 256"] div_mult_mod_eq[of imm 256] by simp
qed

lemma emit_immed_step:
  assumes "sw_type dst \<in> {NN_REG_GPR_A, NN_REG_GPR_B, NN_REG_GPR_BOTH}" "width AND 3 = width" "sh AND 3 = sh"
  shows "\<exists>w. emit_immed dst imm width neg sh p = nfp_prog_push w p \<and> \<not> nfp_is_br w \<and>
    (\<forall>isa st. me_step isa w st = Some (sw_write dst (isa_immed isa width neg sh imm
        (me_gpr st (if sw_type dst = NN_REG_GPR_B then ALU_DST_B else ALU_DST_A) (sw_num dst))) st))"
proof -
  let ?lo = "ucast (imm AND 0xff) :: u32" and ?b = "sw_type dst = NN_REG_GPR_B"
  let ?ab = "if ?b then ALU_DST_B else ALU_DST_A" and ?both = "sw_type dst = NN_REG_GPR_BOTH"
  let ?d = "nfp_swreg_to_unreg dst False" and ?i = "nfp_swreg_to_unreg (reg_imm ?lo) False"
  let ?w = "immed_word (if ?b then ?i else ?d) (if ?b then ?d else ?i) (drop_bit 8 imm) width neg sh ?both"
  have lo: "unat ?lo = unat (imm AND 0xff)" "unat (imm AND 0xff) < 256"
    using word_and_mask_less[of 8 imm] by (simp_all add: unsigned_ucast_eq take_bit_nat_eq_self mask_eq_exp_minus_1)
  have ty: "sw_type (reg_imm ?lo) = NN_REG_IMM" using lo by simp
  have hi: "unat (drop_bit 8 imm) < 256"
  proof -
    have "unat imm < 2 ^ LENGTH(16)" by (rule unsigned_less)
    then show ?thesis by (simp add: drop_bit_eq_div unat_div less_mult_imp_div_less)
  qed
  have e: "emit_immed dst imm width neg sh p = nfp_prog_push ?w p"
    using assms(1) ty unfolding emit_immed_def
    by (subst unrestricted_ok) (auto simp: sw_type_def[symmetric])
  have i: "unat ?i = 768 + unat (imm AND 0xff)" using unreg_imm[of ?lo] lo by simp
  have d: "unat ?d = sw_num dst" by (rule unreg_gpr[OF assms(1)])
  have s: "me_step isa ?w st = Some (sw_write dst (isa_immed isa width neg sh imm (me_gpr st ?ab (sw_num dst))) st)" for isa st
  proof -
    note f = immed_word_fields[OF unreg_less unreg_less hi assms(2,3)]
    have n: "sw_num dst div 256 = 0" "sw_num dst < 256" using sw_num_less[of dst] by simp_all
    have dd: "sw_num dst div 128 \<noteq> 3" "sw_num dst div 128 \<noteq> 5" using n by auto
    have m: "(768 + unat (imm AND 0xff)) div 256 = 3" "(768 + unat (imm AND 0xff)) mod 256 = unat (imm AND 0xff)"
      using ur_div_mod(3)[OF lo(2)] by simp_all
    have r: "read_ur st ab (sw_num dst) = me_gpr st ab (sw_num dst)" for ab using n dd by (simp add: read_ur_def)
    have w: "write_ur ?ab ?both (sw_num dst) v st = sw_write dst v st" for v
      using n dd assms(1) by (auto simp: write_ur_def sw_write_def)
    show ?thesis
    proof (cases ?b)
      case True
      then show ?thesis using r w
        by (simp add: step_immed_def f i d m imm_split)
    next
      case False
      then show ?thesis using r w n
        by (simp add: step_immed_def f i d m imm_split)
    qed
  qed
  show ?thesis by (intro exI[of _ ?w] conjI allI e s not_br(3))
qed

lemma pack_immed_value:
  assumes "pack_immed imm = Some (val, sh)"
  shows "sh \<le> IMMED_SHIFT_2B \<and> push_bit (8 * unat sh) (ucast val) = imm \<and> sh AND 3 = sh"
proof -
  have place: "push_bit k (ucast (ucast (drop_bit k imm) :: u16)) = imm" if "imm AND NOT (push_bit k (mask 16)) = 0" for k
  proof (rule bit_word_eqI)
    fix n assume n: "n < LENGTH(32)"
    have "bit imm n \<Longrightarrow> k \<le> n \<and> n - k < 16"
    proof -
      assume b: "bit imm n"
      have "\<not> bit (imm AND NOT (push_bit k (mask 16))) n" using that by simp
      then show ?thesis using b n by (auto simp: bit_and_iff bit_not_iff bit_push_bit_iff bit_mask_iff)
    qed
    then show "bit (push_bit k (ucast (ucast (drop_bit k imm) :: u16)) :: u32) n = bit imm n"
      using n by (auto simp: bit_push_bit_iff bit_ucast_iff bit_drop_bit_eq)
  qed
  have m: "0xffff0000 = NOT (push_bit 0 (mask 16) :: u32)" "0xff0000ff = NOT (push_bit 8 (mask 16) :: u32)"
    "0x0000ffff = NOT (push_bit 16 (mask 16) :: u32)"
    by (simp_all add: mask_eq_exp_minus_1 push_bit_eq_mult)
  have "unat sh \<le> 2 \<and> push_bit (8 * unat sh) (ucast val) = imm"
    using assms place[of 0] place[of 8] place[of 16] unfolding pack_immed_def m
    by (auto split: if_split_asm)
  then show ?thesis using assms by (auto simp: pack_immed_def split: if_split_asm)
qed


section \<open>Emitting several words\<close>

text \<open>
  \<open>emits p q ws\<close>: from \<open>p\<close> the words \<open>ws\<close> are appended if there is room for them, and the program
  is left with an error otherwise.
\<close>

definition room :: "nfp_prog \<Rightarrow> bool" where
  "room p \<longleftrightarrow> length (np_prog p) \<le> np_alloc_len p"

definition emits :: "nfp_prog \<Rightarrow> nfp_prog \<Rightarrow> u64 list \<Rightarrow> bool" where
  "emits p q ws \<longleftrightarrow> (room p \<longrightarrow>
     (if length (np_prog p) + length ws \<le> np_alloc_len p then q = p\<lparr>np_prog := np_prog p @ ws\<rparr>
      else np_error q \<noteq> 0 \<and> same_frame p q \<and> length (np_prog q) = np_alloc_len p))"

lemma emits_Nil [simp]: "emits p p []"
  by (simp add: emits_def room_def)

lemma emits_push: "emits p (nfp_prog_push w p) [w]"
  by (auto simp: emits_def room_def nfp_prog_push_def prog_fail_def same_frame_def)

lemma emits_frame: "emits p q ws \<Longrightarrow> room p \<Longrightarrow> same_frame p q \<and> room q"
  by (auto simp: emits_def room_def same_frame_def split: if_split_asm)

lemma emits_trans [trans]:
  assumes "emits p q us" "emits q r ws"
  shows "emits p r (us @ ws)"
proof -
  have "if length (np_prog p) + length (us @ ws) \<le> np_alloc_len p then r = p\<lparr>np_prog := np_prog p @ us @ ws\<rparr>
      else np_error r \<noteq> 0 \<and> same_frame p r \<and> length (np_prog r) = np_alloc_len p" if "room p"
  proof (cases "length (np_prog p) + length us \<le> np_alloc_len p")
    case True
    then have q: "q = p\<lparr>np_prog := np_prog p @ us\<rparr>" using assms(1) that by (simp add: emits_def)
    then have "room q" using True by (simp add: room_def)
    then show ?thesis using assms(2) q by (auto simp: emits_def same_frame_def)
  next
    case False
    then have q: "np_error q \<noteq> 0" "same_frame p q" "length (np_prog q) = np_alloc_len p" using assms(1) that by (simp_all add: emits_def)
    then have "room q" by (simp add: room_def same_frame_def)
    then show ?thesis using assms(2) q False by (cases ws) (auto simp: emits_def same_frame_def split: if_split_asm)
  qed
  then show ?thesis by (simp add: emits_def)
qed

text \<open>Straight-line code: no branch, and an effect on every state.\<close>

definition straight :: "me_isa \<Rightarrow> u64 list \<Rightarrow> (me_state \<Rightarrow> me_state \<Rightarrow> bool) \<Rightarrow> bool" where
  "straight isa ws rel \<longleftrightarrow> (\<forall>w \<in> set ws. \<not> nfp_is_br w) \<and> (\<forall>st. \<exists>st'. me_run isa ws st = Some (False, st') \<and> rel st st')"

lemma straight_append:
  assumes "straight isa us R" "straight isa ws S"
  shows "straight isa (us @ ws) (\<lambda>st st'. \<exists>mid. R st mid \<and> S mid st')"
  unfolding straight_def
proof (intro conjI allI)
  show "\<forall>w \<in> set (us @ ws). \<not> nfp_is_br w" using assms by (auto simp: straight_def)
  fix st
  obtain mid where m: "me_run isa us st = Some (False, mid)" "R st mid" using assms(1) by (auto simp: straight_def)
  obtain st' where s: "me_run isa ws mid = Some (False, st')" "S mid st'" using assms(2) by (auto simp: straight_def)
  show "\<exists>st'. me_run isa (us @ ws) st = Some (False, st') \<and> (\<exists>mid. R st mid \<and> S mid st')"
    using m s by (auto simp: me_run_append)
qed

lemma straight_weaken: "straight isa ws R \<Longrightarrow> (\<And>st st'. R st st' \<Longrightarrow> S st st') \<Longrightarrow> straight isa ws S"
  unfolding straight_def by meson

lemma emit_alu_emits:
  assumes "op AND 0x1f = op" "sw_dst dst" "sw_type l \<noteq> sw_type r" "sw_src r" "sw_src l \<or> sw_type l = NN_REG_NONE"
  shows "\<exists>w. emits p (emit_alu dst l op r p) [w] \<and>
    straight isa [w] (\<lambda>st st'. \<exists>lv. (sw_src l \<longrightarrow> lv = sw_val st l) \<and> st' = alu_result isa op dst lv (sw_val st r) st)"
proof -
  obtain w where w: "emit_alu dst l op r p = nfp_prog_push w p" "\<not> nfp_is_br w"
    "\<And>isa st. \<exists>lv. (sw_src l \<longrightarrow> lv = sw_val st l) \<and> me_step isa w st = Some (alu_result isa op dst lv (sw_val st r) st)"
    using emit_alu_step[OF assms, of p] by metis
  have "emits p (emit_alu dst l op r p) [w]" unfolding w(1) by (rule emits_push)
  moreover have "straight isa [w] (\<lambda>st st'. \<exists>lv. (sw_src l \<longrightarrow> lv = sw_val st l) \<and> st' = alu_result isa op dst lv (sw_val st r) st)"
    unfolding straight_def
  proof (intro conjI allI)
    fix st
    obtain lv where "sw_src l \<longrightarrow> lv = sw_val st l" "me_step isa w st = Some (alu_result isa op dst lv (sw_val st r) st)"
      using w(3)[of st isa] by blast
    then show "\<exists>st'. me_run isa [w] st = Some (False, st') \<and>
        (\<exists>lv. (sw_src l \<longrightarrow> lv = sw_val st l) \<and> st' = alu_result isa op dst lv (sw_val st r) st)"
      using w(2) by auto
  qed (use w(2) in simp)
  ultimately show ?thesis by blast
qed

lemma sw_write_twice: "sw_write dst v (sw_write dst u st) = sw_write dst v st"
proof -
  have "write_gpr ab both n v (write_gpr ab both n u st) = write_gpr ab both n v st" for ab both n
    by (rule me_state.equality) (auto simp: write_gpr_def fun_eq_iff)
  then show ?thesis by (simp add: sw_write_def)
qed

lemma sw_write_read:
  assumes "sw_type dst \<in> {NN_REG_GPR_A, NN_REG_GPR_B, NN_REG_GPR_BOTH}"
  shows "me_gpr (sw_write dst v st) (if sw_type dst = NN_REG_GPR_B then ALU_DST_B else ALU_DST_A) (sw_num dst) = v"
  using assms by (auto simp: sw_write_def write_gpr_def)

lemma me_doc_alu:
  assumes "me_documented isa"
  shows "isa_alu isa ALU_OP_ADD l r c = (l + r, 2 ^ 32 \<le> unat l + unat r)"
    "isa_alu isa ALU_OP_ADD_C l r c = (l + r + of_bool c, 2 ^ 32 \<le> unat l + unat r + of_bool c)"
    "isa_alu isa ALU_OP_SUB l r c = (l - r, r \<le> l)"
    "isa_alu isa ALU_OP_SUB_C l r c = (l - r - of_bool (\<not> c), unat r + of_bool (\<not> c) \<le> unat l)"
    "fst (isa_alu isa ALU_OP_AND l r c) = l AND r" "fst (isa_alu isa ALU_OP_OR l r c) = l OR r"
    "fst (isa_alu isa ALU_OP_XOR l r c) = l XOR r" "fst (isa_alu isa ALU_OP_NONE l r c) = r"
    "fst (isa_alu isa ALU_OP_NEG l r c) = NOT r"
  using assms unfolding me_documented_def by simp_all

lemma me_doc_immed:
  assumes "me_documented isa"
  shows "sh \<le> IMMED_SHIFT_2B \<Longrightarrow> isa_immed isa IMMED_WIDTH_ALL False sh imm old = push_bit (8 * unat sh) (ucast imm)"
    "sh \<le> IMMED_SHIFT_2B \<Longrightarrow> isa_immed isa IMMED_WIDTH_ALL True sh imm old = NOT (push_bit (8 * unat sh) (ucast imm))"
    "isa_immed isa IMMED_WIDTH_WORD False IMMED_SHIFT_2B imm old = push_bit 16 (ucast imm) OR (old AND 0xffff)"
  using assms unfolding me_documented_def by simp_all

lemma me_doc_shf:
  assumes "me_documented isa" "0 < n" "n < 32"
  shows "isa_shf isa SHF_OP_NONE SHF_SC_L_SHF (32 - n) l r = push_bit n r"
    "isa_shf isa SHF_OP_NONE SHF_SC_R_SHF n l r = drop_bit n r"
  using assms unfolding me_documented_def by simp_all

lemma me_doc_br:
  assumes "me_documented isa"
  shows "isa_br isa BR_BEQ z c = z" "isa_br isa BR_BNE z c = (\<not> z)" "isa_br isa BR_BHS z c = c"
    "isa_br isa BR_BLO z c = (\<not> c)" "isa_br isa BR_UNC z c"
  using assms unfolding me_documented_def by simp_all

text \<open>Loading an immediate, in one or two words: exactly the value, and nothing else changes.\<close>

lemma wrp_immed_emits:
  assumes "me_documented isa" "sw_type dst \<in> {NN_REG_GPR_A, NN_REG_GPR_B, NN_REG_GPR_BOTH}"
  shows "\<exists>ws. emits p (wrp_immed dst imm p) ws \<and> straight isa ws (\<lambda>st st'. st' = sw_write dst imm st)"
proof -
  have one: "\<exists>w. emits q (emit_immed dst val width neg sh q) [w] \<and> straight isa [w] (\<lambda>st st'. st' = sw_write dst (isa_immed isa width neg sh val
        (me_gpr st (if sw_type dst = NN_REG_GPR_B then ALU_DST_B else ALU_DST_A) (sw_num dst))) st)"
    if "width AND 3 = width" "sh AND 3 = sh" for q val width neg sh
  proof -
    note f = emit_immed_step[OF assms(2) that]
    obtain w where w: "emit_immed dst val width neg sh q = nfp_prog_push w q" "\<not> nfp_is_br w"
      "\<And>isa st. me_step isa w st = Some (sw_write dst (isa_immed isa width neg sh val
        (me_gpr st (if sw_type dst = NN_REG_GPR_B then ALU_DST_B else ALU_DST_A) (sw_num dst))) st)"
      using f by blast
    then show ?thesis by (intro exI[of _ w]) (simp add: emits_push straight_def)
  qed
  note doc = me_doc_immed(1,2)[OF assms(1)] and doc2 = me_doc_immed(3)[OF assms(1)]
  consider (a) val sh where "pack_immed imm = Some (val, sh)"
    | (b) val sh where "pack_immed imm = None" "pack_immed (NOT imm) = Some (val, sh)"
    | (c) "pack_immed imm = None" "pack_immed (NOT imm) = None" by force
  then show ?thesis
  proof cases
    case a
    note v = pack_immed_value[OF a]
    have eq: "isa_immed isa 0 False sh val old = imm" for old using doc(1)[of sh val old] v by simp
    obtain w where "emits p (emit_immed dst val 0 False sh p) [w]" "straight isa [w] (\<lambda>st st'. st' = sw_write dst imm st)"
      using one[of 0 sh p val False, unfolded eq] v by (meson and_zero_eq zero_and_eq)
    then show ?thesis unfolding wrp_immed_def a by (metis case_prod_conv option.case(2))
  next
    case b
    note v = pack_immed_value[OF b(2)]
    have eq: "isa_immed isa 0 True sh val old = imm" for old using doc(2)[of sh val old] v by simp
    obtain w where "emits p (emit_immed dst val 0 True sh p) [w]" "straight isa [w] (\<lambda>st st'. st' = sw_write dst imm st)"
      using one[of 0 sh p val True, unfolded eq] v by (meson and_zero_eq zero_and_eq)
    then show ?thesis unfolding wrp_immed_def b by (metis case_prod_conv option.case)
  next
    case c
    let ?lo = "ucast (imm AND 0xffff) :: u16" and ?hi = "ucast (drop_bit 16 imm) :: u16"
    let ?q = "emit_immed dst ?lo 0 False 0 p"
    have eq: "isa_immed isa 0 False 0 ?lo old = ucast ?lo" for old using doc(1)[of 0 ?lo old] by simp
    obtain w1 where w1: "emits p ?q [w1]" "straight isa [w1] (\<lambda>st st'. st' = sw_write dst (ucast ?lo) st)"
      using one[of 0 0 p ?lo False, unfolded eq] by (meson and_zero_eq zero_and_eq)
    obtain w2 where w2: "emits ?q (emit_immed dst ?hi 2 False 2 ?q) [w2]" "straight isa [w2] (\<lambda>st st'. st' = sw_write dst
        (push_bit 16 (ucast ?hi) OR (me_gpr st (if sw_type dst = NN_REG_GPR_B then ALU_DST_B else ALU_DST_A) (sw_num dst) AND 0xffff)) st)"
      using one[of 2 2 ?q ?hi False, unfolded doc2] by auto
    have v: "push_bit 16 (ucast ?hi) OR (ucast ?lo AND 0xffff) = imm"
    proof (rule bit_word_eqI)
      fix n assume "n < LENGTH(32)"
      moreover have "bit (0xffff :: u32) n \<longleftrightarrow> n < 16"
        using bit_mask_iff[of 16 n, where 'a = u32] calculation by (simp add: mask_eq_exp_minus_1)
      ultimately show "bit (push_bit 16 (ucast ?hi) OR (ucast ?lo AND 0xffff) :: u32) n = bit imm n"
        by (auto simp: bit_or_iff bit_and_iff bit_push_bit_iff bit_ucast_iff bit_drop_bit_eq)
    qed
    have "straight isa ([w1] @ [w2]) (\<lambda>st st'. st' = sw_write dst imm st)"
      by (rule straight_weaken[OF straight_append[OF w1(2) w2(2)]]) (auto simp: sw_write_read[OF assms(2)] sw_write_twice v)
    then show ?thesis using emits_trans[OF w1(1) w2(1)] c by (auto simp: wrp_immed_def)
  qed
qed

section \<open>A machine of the documented kind\<close>

definition sample_isa :: me_isa where
  "sample_isa =
     \<lparr>isa_alu = (\<lambda>op l r c.
        if op = ALU_OP_ADD then (l + r, 2 ^ 32 \<le> unat l + unat r)
        else if op = ALU_OP_ADD_C then (l + r + of_bool c, 2 ^ 32 \<le> unat l + unat r + of_bool c)
        else if op = ALU_OP_SUB then (l - r, r \<le> l)
        else if op = ALU_OP_SUB_C then (l - r - of_bool (\<not> c), unat r + of_bool (\<not> c) \<le> unat l)
        else if op = ALU_OP_AND then (l AND r, c) else if op = ALU_OP_OR then (l OR r, c)
        else if op = ALU_OP_XOR then (l XOR r, c) else if op = ALU_OP_NEG then (NOT r, c) else (r, c)),
      isa_immed = (\<lambda>width inv_imm sh imm old.
        if width = IMMED_WIDTH_WORD then push_bit 16 (ucast imm) OR (old AND 0xffff)
        else let v = push_bit (8 * unat sh) (ucast imm) in if inv_imm then NOT v else v),
      isa_shf = (\<lambda>op sc n l r. if sc = SHF_SC_L_SHF then push_bit (32 - n) r else drop_bit n r),
      isa_br = (\<lambda>msk z c. if msk = BR_BEQ then z else if msk = BR_BNE then \<not> z else if msk = BR_BHS then c
        else if msk = BR_BLO then \<not> c else True)\<rparr>"

lemma sample_documented: "me_documented sample_isa"
  by (simp add: me_documented_def sample_isa_def)

end
