(* ===== verification/Bpf_Correct.thy ===== *)
theory Bpf_Correct
  imports Bpf_Program Bpf_Machine
begin

text \<open>
  The emitted code does what the BPF instruction says: a reference semantics of the arithmetic and
  jump instructions, the relation between BPF registers and register pairs of the machine, and
  the correctness of the callbacks of \<open>bpf/jit.c\<close> against it.
\<close>

section \<open>BPF instructions\<close>

definition bpf_alu64 :: "u8 \<Rightarrow> u64 \<Rightarrow> u64 \<Rightarrow> u64" where
  "bpf_alu64 code dst src =
     (let op = code AND 0xf0 in
      if op = 0x00 then dst + src else if op = 0x10 then dst - src else if op = 0x40 then dst OR src
      else if op = 0x50 then dst AND src else if op = 0x60 then push_bit (unat src) dst
      else if op = 0x70 then drop_bit (unat src) dst else if op = 0xa0 then dst XOR src else src)"

definition bpf_alu32 :: "u8 \<Rightarrow> u32 \<Rightarrow> u32 \<Rightarrow> u32" where
  "bpf_alu32 code dst src =
     (let op = code AND 0xf0 in
      if op = 0x00 then dst + src else if op = 0x10 then dst - src else if op = 0x40 then dst OR src
      else if op = 0x50 then dst AND src else if op = 0x60 then push_bit (unat src) dst
      else if op = 0x70 then drop_bit (unat src) dst else if op = 0xa0 then dst XOR src else src)"

text \<open>Bit 3 of the code chooses the source register; a 32-bit result is extended with zeros.\<close>

definition bpf_operand :: "bpf_insn \<Rightarrow> (nat \<Rightarrow> u64) \<Rightarrow> u64" where
  "bpf_operand insn R = (if bit (bi_code insn) 3 then R (unat (bi_src_reg insn)) else imm_sx insn)"

definition bpf_alu :: "bpf_insn \<Rightarrow> (nat \<Rightarrow> u64) \<Rightarrow> u64" where
  "bpf_alu insn R =
     (let d = R (unat (bi_dst_reg insn)); s = bpf_operand insn R in
      if BPF_CLASS (bi_code insn) = BPF_ALU64 then bpf_alu64 (bi_code insn) d s
      else ucast (bpf_alu32 (bi_code insn) (ucast d) (ucast s)))"

definition bpf_jump_taken :: "bpf_insn \<Rightarrow> (nat \<Rightarrow> u64) \<Rightarrow> bool" where
  "bpf_jump_taken insn R =
     (let d = R (unat (bi_dst_reg insn)); s = bpf_operand insn R; op = bi_code insn AND 0xf0 in
      if op = 0x00 then True else if op = 0x10 then d = s else if op = 0x20 then d > s else if op = 0x30 then d \<ge> s
      else if op = 0x40 then d AND s \<noteq> 0 else if op = 0x50 then d \<noteq> s else if op = 0xa0 then d < s else d \<le> s)"

section \<open>Registers\<close>

definition lo32 :: "u64 \<Rightarrow> u32" where "lo32 v = ucast v"
definition hi32 :: "u64 \<Rightarrow> u32" where "hi32 v = ucast (drop_bit 32 v)"

text \<open>The registers a translated program uses, below the two scratch registers.\<close>

definition regs_fit :: "nat \<Rightarrow> nfp_prog \<Rightarrow> bool" where
  "regs_fit n p \<longleftrightarrow> 2 * n \<le> unat (np_regs_per_thread p - 2) \<and> unat (np_regs_per_thread p - 2) < 254"

abbreviation (input) scratch :: "nfp_prog \<Rightarrow> nat" where "scratch p \<equiv> unat (np_regs_per_thread p - 2)"

definition reg_is :: "me_state \<Rightarrow> nat \<Rightarrow> u32 \<Rightarrow> bool" where
  "reg_is st r v \<longleftrightarrow> me_gpr st ALU_DST_A r = v \<and> me_gpr st ALU_DST_B r = v"

definition matches :: "nat \<Rightarrow> me_state \<Rightarrow> (nat \<Rightarrow> u64) \<Rightarrow> bool" where
  "matches n st R \<longleftrightarrow> (\<forall>r < n. reg_is st (2 * r) (lo32 (R r)) \<and> reg_is st (2 * r + 1) (hi32 (R r)))"

text \<open>Everything but the registers of \<open>K\<close> and the flags stays.\<close>

definition frame :: "nat set \<Rightarrow> me_state \<Rightarrow> me_state \<Rightarrow> bool" where
  "frame K st st' \<longleftrightarrow> (\<forall>ab n. n \<notin> K \<longrightarrow> me_gpr st' ab n = me_gpr st ab n) \<and> me_nnr st' = me_nnr st \<and> me_xfer st' = me_xfer st"

lemma frame_refl [simp]: "frame K st st" by (simp add: frame_def)

lemma frame_trans: "frame K st mid \<Longrightarrow> frame L mid st' \<Longrightarrow> frame (K \<union> L) st st'"
  by (simp add: frame_def)

lemma frame_mono: "frame K st st' \<Longrightarrow> K \<subseteq> L \<Longrightarrow> frame L st st'"
  by (auto simp: frame_def)

lemma frame_reg_is: "frame K st st' \<Longrightarrow> r \<notin> K \<Longrightarrow> reg_is st' r v = reg_is st r v"
  by (simp add: frame_def reg_is_def)

lemma lo_hi_eq: "lo32 v = lo32 w \<Longrightarrow> hi32 v = hi32 w \<Longrightarrow> v = w"
proof -
  assume l: "lo32 v = lo32 w" and h: "hi32 v = hi32 w"
  show "v = w"
  proof (rule bit_word_eqI)
    fix n assume n: "n < LENGTH(64)"
    have "bit (lo32 v) n = bit (lo32 w) n" "bit (hi32 v) (n - 32) = bit (hi32 w) (n - 32)" using l h by simp_all
    then show "bit v n = bit w n" using n
      by (cases "n < 32") (auto simp: lo32_def hi32_def bit_ucast_iff bit_drop_bit_eq)
  qed
qed

lemma reg_nums: "unat (reg_lo r) = 2 * unat r" "unat (reg_hi r) = 2 * unat r + 1" "unat r < 16"
proof -
  show l: "unat r < 16" using unsigned_less[of r] by simp
  have u: "unat (ucast r :: u32) = unat r" using l by (simp add: unsigned_ucast_eq take_bit_nat_eq_self)
  show "unat (reg_lo r) = 2 * unat r" "unat (reg_hi r) = 2 * unat r + 1"
    using u l by (simp_all add: reg_lo_def reg_hi_def unat_word_ariths)
qed

lemma ucast_small:
  fixes x :: u32
  assumes "unat x < 2 ^ LENGTH('a)"
  shows "ucast (ucast x :: 'a::len word) = x"
  by (rule bit_word_eqI) (use bit_small[OF assms] in \<open>auto simp: bit_ucast_iff\<close>)

lemma reg_num_casts [simp]:
  "ucast (ucast (reg_lo r) :: u8) = reg_lo r" "ucast (ucast (reg_hi r) :: u8) = reg_hi r"
  "ucast (ucast (reg_lo r) :: u16) = reg_lo r" "ucast (ucast (reg_hi r) :: u16) = reg_hi r"
  by (rule ucast_small; use reg_nums[of r] in simp)+

section \<open>One arithmetic word\<close>

lemma sw_vals [simp]:
  assumes "unat x < 256"
  shows "sw_val st (reg_a x) = me_gpr st ALU_DST_A (unat x)" "sw_val st (reg_b x) = me_gpr st ALU_DST_B (unat x)"
    "sw_val st (reg_nnr x) = me_nnr st (unat x)" "sw_val st (reg_imm x) = x"
  using assms by (simp_all add: sw_val_def)

lemma sw_srcs [simp]:
  assumes "unat x < 256"
  shows "sw_src (reg_a x)" "sw_src (reg_b x)" "sw_src (reg_imm x)" "unat x < 128 \<Longrightarrow> sw_src (reg_nnr x)"
  using assms by (simp_all add: sw_src_def)

lemma sw_dsts [simp]:
  assumes "unat x < 256"
  shows "sw_dst (reg_a x)" "sw_dst (reg_b x)" "sw_dst (reg_both x)" "sw_dst reg_none"
  using assms by (simp_all add: sw_dst_def)

text \<open>The state after writing \<open>v\<close> to a destination: which register, in which banks.\<close>

lemma alu_result_post:
  assumes "isa_alu isa op l r (me_carry st) = (v, c)"
  shows "me_carry (alu_result isa op dst l r st) = c" "me_zero (alu_result isa op dst l r st) = (v = 0)"
    "sw_type dst = NN_REG_NONE \<Longrightarrow> frame {} st (alu_result isa op dst l r st)"
    "sw_type dst \<in> {NN_REG_GPR_A, NN_REG_GPR_B, NN_REG_GPR_BOTH} \<Longrightarrow> frame {sw_num dst} st (alu_result isa op dst l r st)"
    "sw_type dst = NN_REG_GPR_BOTH \<Longrightarrow> reg_is (alu_result isa op dst l r st) (sw_num dst) v"
    "sw_type dst = NN_REG_GPR_A \<Longrightarrow> me_gpr (alu_result isa op dst l r st) ALU_DST_A (sw_num dst) = v"
    "sw_type dst = NN_REG_GPR_B \<Longrightarrow> me_gpr (alu_result isa op dst l r st) ALU_DST_B (sw_num dst) = v"
  using assms by (auto simp: alu_result_def sw_write_def write_gpr_def frame_def reg_is_def)

lemma sw_write_post:
  "me_carry (sw_write dst v st) = me_carry st" "me_zero (sw_write dst v st) = me_zero st"
  "sw_type dst \<in> {NN_REG_GPR_A, NN_REG_GPR_B, NN_REG_GPR_BOTH} \<Longrightarrow> frame {sw_num dst} st (sw_write dst v st)"
  "sw_type dst = NN_REG_GPR_BOTH \<Longrightarrow> reg_is (sw_write dst v st) (sw_num dst) v"
  by (auto simp: sw_write_def write_gpr_def frame_def reg_is_def)

lemma load_imm_small:
  assumes "FIELD_FIT UR_REG_IMM_MAX (ucast (imm :: u32))"
  shows "unat imm < 256"
proof -
  have s: "bf_shf UR_REG_IMM_MAX = 0" by code_simp
  have "(ucast imm :: u64) AND NOT 0xff = 0" using assms by (simp add: FIELD_FIT_def s)
  then have "(ucast imm :: u64) = ucast imm AND 0xff"
    by (metis (no_types) and.right_neutral bit.compl_one bit.conj_disj_distrib bit.disj_cancel_right or.right_neutral)
  then have "(ucast imm :: u64) = ucast imm AND mask 8" by (simp add: mask_eq_exp_minus_1)
  then have "unat (ucast imm :: u64) < 2 ^ 8" using word_and_mask_less[of 8 "ucast imm :: u64"] by simp
  moreover have "unat (ucast imm :: u64) = unat imm"
  proof -
    have "unat imm < 2 ^ LENGTH(32)" by (rule unsigned_less)
    then show ?thesis by (simp add: unsigned_ucast_eq take_bit_nat_eq_self)
  qed
  ultimately show ?thesis by simp
qed


text \<open>The scratch register, and what an immediate operand leaves of a state.\<close>

lemma scratch_regs:
  assumes "unat (np_regs_per_thread p - 2) < 254"
  shows "sw_type (imm_a p) = NN_REG_GPR_A" "sw_type (imm_b p) = NN_REG_GPR_B" "sw_type (imm_both p) = NN_REG_GPR_BOTH"
    "sw_num (imm_a p) = scratch p" "sw_num (imm_b p) = scratch p" "sw_num (imm_both p) = scratch p"
    "sw_src (imm_a p)" "sw_src (imm_b p)" "sw_dst (imm_a p)" "sw_dst (imm_b p)" "sw_dst (imm_both p)"
    "sw_val st (imm_a p) = me_gpr st ALU_DST_A (scratch p)" "sw_val st (imm_b p) = me_gpr st ALU_DST_B (scratch p)"
  using assms by (simp_all add: imm_a_def imm_b_def imm_both_def)

definition loaded :: "nat \<Rightarrow> me_state \<Rightarrow> me_state \<Rightarrow> bool" where
  "loaded k st st' \<longleftrightarrow> frame {k} st st' \<and> me_carry st' = me_carry st \<and> me_zero st' = me_zero st"

text \<open>The loaded operand is the constant itself, or the scratch register after one write to it.\<close>

lemma ur_load_exact:
  assumes "me_documented isa" "unat (np_regs_per_thread p - 2) < 254" "tmp = imm_a p \<or> tmp = imm_b p"
  shows "\<exists>ws t q. ur_load_imm_any imm tmp p = (t, q) \<and> emits p q ws \<and>
    (t = reg_imm imm \<and> unat imm < 256 \<and> straight isa ws (\<lambda>st st'. st' = st) \<or> t = tmp \<and> straight isa ws (\<lambda>st st'. st' = sw_write tmp imm st))"
proof (cases "FIELD_FIT UR_REG_IMM_MAX (ucast imm)")
  case True
  then show ?thesis using load_imm_small[OF True] emits_Nil by (fastforce simp: ur_load_imm_any_def straight_def)
next
  case False
  have "sw_type tmp \<in> {NN_REG_GPR_A, NN_REG_GPR_B, NN_REG_GPR_BOTH}" using assms(3) scratch_regs[OF assms(2)] by auto
  then show ?thesis using False wrp_immed_emits[OF assms(1), of tmp p imm] by (auto simp: ur_load_imm_any_def)
qed

lemma ur_load:
  assumes "me_documented isa" "unat (np_regs_per_thread p - 2) < 254" "tmp = imm_a p \<or> tmp = imm_b p"
  shows "\<exists>ws t q. ur_load_imm_any imm tmp p = (t, q) \<and> emits p q ws \<and> sw_src t \<and>
    (sw_type t = NN_REG_IMM \<or> t = tmp) \<and> straight isa ws (\<lambda>st st'. loaded (scratch p) st st' \<and> sw_val st' t = imm)"
proof -
  note s = scratch_regs[OF assms(2)]
  obtain ws t q where l: "ur_load_imm_any imm tmp p = (t, q)" "emits p q ws"
    and c: "t = reg_imm imm \<and> unat imm < 256 \<and> straight isa ws (\<lambda>st st'. st' = st) \<or> t = tmp \<and> straight isa ws (\<lambda>st st'. st' = sw_write tmp imm st)"
    using ur_load_exact[OF assms] by blast
  have ty: "sw_type tmp \<in> {NN_REG_GPR_A, NN_REG_GPR_B, NN_REG_GPR_BOTH}" "sw_type tmp \<noteq> NN_REG_GPR_BOTH" "sw_num tmp = scratch p" "sw_src tmp"
    using assms(3) s by auto
  show ?thesis
  proof (cases "t = reg_imm imm \<and> unat imm < 256 \<and> straight isa ws (\<lambda>st st'. st' = st)")
    case True
    then show ?thesis using l by (intro exI[of _ ws] exI[of _ t] exI[of _ q]) (auto simp: loaded_def elim: straight_weaken)
  next
    case False
    then have t: "t = tmp" "straight isa ws (\<lambda>st st'. st' = sw_write tmp imm st)" using c by blast+
    have "straight isa ws (\<lambda>st st'. loaded (scratch p) st st' \<and> sw_val st' tmp = imm)"
    proof (rule straight_weaken[OF t(2)])
      fix st st' assume "st' = sw_write tmp imm st"
      then show "loaded (scratch p) st st' \<and> sw_val st' tmp = imm"
        using sw_write_post(1-3)[where dst = tmp and v = imm and st = st] sw_write_read[OF ty(1), where v = imm and st = st] ty assms(3) s
        by (auto simp: loaded_def)
    qed
    then show ?thesis using l t ty by blast
  qed
qed

text \<open>
  One half of an arithmetic instruction with an immediate: the result and the carry of the
  operation, in both banks, with the scratch register lost.
\<close>

lemma alu_imm_half:
  fixes d :: u8
  assumes "me_documented isa" "unat (np_regs_per_thread p - 2) < 254" "unat d \<noteq> scratch p" "op AND 0x1f = op"
    and "\<not> (op \<in> {ALU_OP_AND, ALU_OP_OR, ALU_OP_XOR} \<and> (imm = 0 \<or> NOT imm = 0))"
  shows "\<exists>ws. emits p (wrp_alu_imm d op imm p) ws \<and> straight isa ws (\<lambda>st st'. \<forall>x v c. reg_is st (unat d) x \<and>
    isa_alu isa op x imm (me_carry st) = (v, c) \<longrightarrow> reg_is st' (unat d) v \<and> me_carry st' = c \<and> frame {unat d, scratch p} st st')"
proof -
  have d: "unat (ucast d :: u32) = unat d" "unat d < 256" using unsigned_less[of d, where ?'a = nat]
    by (simp_all add: unsigned_ucast_eq take_bit_nat_eq_self)
  let ?d = "ucast d :: u32"
  note s = scratch_regs[OF assms(2)]
  obtain ws t q where l: "ur_load_imm_any imm (imm_b p) p = (t, q)" "emits p q ws" "sw_src t" "sw_type t = NN_REG_IMM \<or> t = imm_b p"
    "straight isa ws (\<lambda>st st'. loaded (scratch p) st st' \<and> sw_val st' t = imm)"
    using ur_load[OF assms(1,2), of "imm_b p" imm] by blast
  have ty: "sw_type (reg_a ?d) \<noteq> sw_type t" using l(4) d s by auto
  obtain w where w: "emits q (emit_alu (reg_both ?d) (reg_a ?d) op t q) [w]" "straight isa [w] (\<lambda>st st'. \<exists>lv. (sw_src (reg_a ?d) \<longrightarrow> lv = sw_val st (reg_a ?d)) \<and>
      st' = alu_result isa op (reg_both ?d) lv (sw_val st t) st)"
    using emit_alu_emits[OF assms(4) _ ty l(3), of "reg_both ?d" q isa] d by auto
  have e: "wrp_alu_imm d op imm p = emit_alu (reg_both ?d) (reg_a ?d) op t q"
    using assms(5) l(1) by (auto simp: wrp_alu_imm_def)
  have "straight isa (ws @ [w]) (\<lambda>st st'. \<forall>x v c. reg_is st (unat d) x \<and>
    isa_alu isa op x imm (me_carry st) = (v, c) \<longrightarrow> reg_is st' (unat d) v \<and> me_carry st' = c \<and> frame {unat d, scratch p} st st')"
  proof (rule straight_weaken[OF straight_append[OF l(5) w(2)]], elim exE conjE, intro allI impI, elim conjE)
    fix st st' mid lv x v c
    assume m: "loaded (scratch p) st mid" "sw_val mid t = imm" and r: "sw_src (reg_a ?d) \<longrightarrow> lv = sw_val mid (reg_a ?d)"
      "st' = alu_result isa op (reg_both ?d) lv (sw_val mid t) mid" and x: "reg_is st (unat d) x" "isa_alu isa op x imm (me_carry st) = (v, c)"
    have f: "frame {scratch p} st mid" "me_carry mid = me_carry st" using m(1) by (simp_all add: loaded_def)
    have "lv = x" using r(1) x(1) d frame_reg_is[OF f(1), of "unat d" x] assms(3) by (simp add: reg_is_def)
    then have a: "isa_alu isa op lv (sw_val mid t) (me_carry mid) = (v, c)" using x(2) m(2) f(2) by simp
    show "reg_is st' (unat d) v \<and> me_carry st' = c \<and> frame {unat d, scratch p} st st'"
      using alu_result_post[OF a, of "reg_both ?d"] frame_trans[OF f(1), of "{unat d}" st'] d r(2) by (auto intro: frame_mono)
  qed
  then show ?thesis using emits_trans[OF l(2) w(1)] e by auto
qed

lemma alu_imm_logic:
  fixes d :: u8
  assumes "me_documented isa" "unat (np_regs_per_thread p - 2) < 254" "unat d \<noteq> scratch p"
    and "op \<in> {ALU_OP_AND, ALU_OP_OR, ALU_OP_XOR}"
  shows "\<exists>ws. emits p (wrp_alu_imm d op imm p) ws \<and> straight isa ws (\<lambda>st st'. \<forall>x. reg_is st (unat d) x \<longrightarrow>
    reg_is st' (unat d) (fst (isa_alu isa op x imm False)) \<and> frame {unat d, scratch p} st st')"
proof -
  let ?d = "ucast d :: u32"
  have d: "unat ?d = unat d" "unat ?d < 256" using unsigned_less[of d, where ?'a = nat]
    by (simp_all add: unsigned_ucast_eq take_bit_nat_eq_self)
  have both: "sw_type (reg_both ?d) = NN_REG_GPR_BOTH" "sw_num (reg_both ?d) = unat d" using d by simp_all
  have nop: ?thesis if "wrp_alu_imm d op imm p = p" "\<And>x. fst (isa_alu isa op x imm False) = x"
    by (rule exI[of _ "[]"]) (use that in \<open>simp add: straight_def\<close>)
  have load: ?thesis if "wrp_alu_imm d op imm p = wrp_immed (reg_both ?d) v p" "\<And>x. fst (isa_alu isa op x imm False) = v" for v
  proof -
    obtain ws where ws: "emits p (wrp_immed (reg_both ?d) v p) ws" "straight isa ws (\<lambda>st st'. st' = sw_write (reg_both ?d) v st)"
      using wrp_immed_emits[OF assms(1), of "reg_both ?d" p v] both by auto
    have "straight isa ws (\<lambda>st st'. \<forall>x. reg_is st (unat d) x \<longrightarrow>
        reg_is st' (unat d) (fst (isa_alu isa op x imm False)) \<and> frame {unat d, scratch p} st st')"
      by (rule straight_weaken[OF ws(2)])
        (use sw_write_post(3,4)[where dst = "reg_both ?d" and v = v] both that(2) in \<open>auto intro: frame_mono\<close>)
    then show ?thesis using ws(1) that(1) by auto
  qed
  have op5: "op AND 0x1f = op" using assms(4) by auto
  consider (a) "op = ALU_OP_AND" "imm = 0" | (b) "op = ALU_OP_AND" "NOT imm = 0" "imm \<noteq> 0"
    | (c) "op = ALU_OP_OR" "imm = 0" | (d) "op = ALU_OP_OR" "NOT imm = 0" "imm \<noteq> 0"
    | (e) "op = ALU_OP_XOR" "imm = 0" | (f) "op = ALU_OP_XOR" "NOT imm = 0" "imm \<noteq> 0"
    | (g) "\<not> (imm = 0 \<or> NOT imm = 0)" using assms(4) by auto
  then show ?thesis
  proof cases
    case a
    then show ?thesis by (intro load[of 0]) (simp_all add: wrp_alu_imm_def me_doc_alu[OF assms(1)])
  next
    case b
    then have "imm = - 1" by (metis bit.compl_zero bit.double_compl)
    with b show ?thesis by (intro nop) (simp_all add: wrp_alu_imm_def me_doc_alu[OF assms(1)])
  next
    case c
    then show ?thesis by (intro nop) (simp_all add: wrp_alu_imm_def me_doc_alu[OF assms(1)])
  next
    case d
    then have "imm = - 1" by (metis bit.compl_zero bit.double_compl)
    with d show ?thesis by (intro load[of "- 1"]) (simp_all add: wrp_alu_imm_def me_doc_alu[OF assms(1)])
  next
    case e
    then show ?thesis by (intro nop) (simp_all add: wrp_alu_imm_def me_doc_alu[OF assms(1)])
  next
    case f
    then have m: "imm = - 1" by (metis bit.compl_zero bit.double_compl)
    have "sw_type reg_none \<noteq> sw_type (reg_b ?d)" using d by simp
    then obtain w where w: "emits p (emit_alu (reg_both ?d) reg_none ALU_OP_NEG (reg_b ?d) p) [w]"
      "straight isa [w] (\<lambda>st st'. \<exists>lv. (sw_src reg_none \<longrightarrow> lv = sw_val st reg_none) \<and>
         st' = alu_result isa ALU_OP_NEG (reg_both ?d) lv (sw_val st (reg_b ?d)) st)"
      using emit_alu_emits[of ALU_OP_NEG "reg_both ?d" reg_none "reg_b ?d" p isa] d by auto
    have "straight isa [w] (\<lambda>st st'. \<forall>x. reg_is st (unat d) x \<longrightarrow>
        reg_is st' (unat d) (fst (isa_alu isa op x imm False)) \<and> frame {unat d, scratch p} st st')"
    proof (rule straight_weaken[OF w(2)], elim exE conjE, intro allI impI)
      fix st st' lv x
      assume r: "st' = alu_result isa ALU_OP_NEG (reg_both ?d) lv (sw_val st (reg_b ?d)) st" and x: "reg_is st (unat d) x"
      obtain v c where a: "isa_alu isa ALU_OP_NEG lv (sw_val st (reg_b ?d)) (me_carry st) = (v, c)" by force
      have "v = NOT x" using me_doc_alu(9)[OF assms(1), of lv "sw_val st (reg_b ?d)" "me_carry st"] a x d by (simp add: reg_is_def)
      then show "reg_is st' (unat d) (fst (isa_alu isa op x imm False)) \<and> frame {unat d, scratch p} st st'"
        using alu_result_post(4,5)[OF a, of "reg_both ?d"] both r f(1) m me_doc_alu(7)[OF assms(1)]
        by (auto intro: frame_mono)
    qed
    then show ?thesis using w(1) f m by (auto simp: wrp_alu_imm_def)
  next
    case g
    then obtain ws where ws: "emits p (wrp_alu_imm d op imm p) ws" "straight isa ws (\<lambda>st st'. \<forall>x v c. reg_is st (unat d) x \<and>
      isa_alu isa op x imm (me_carry st) = (v, c) \<longrightarrow> reg_is st' (unat d) v \<and> me_carry st' = c \<and> frame {unat d, scratch p} st st')"
      using alu_imm_half[OF assms(1-3) op5, of imm] by blast
    have doc: "fst (isa_alu isa op x imm c) = fst (isa_alu isa op x imm False)" for x c
      using assms(4) me_doc_alu[OF assms(1)] by auto
    have "straight isa ws (\<lambda>st st'. \<forall>x. reg_is st (unat d) x \<longrightarrow>
        reg_is st' (unat d) (fst (isa_alu isa op x imm False)) \<and> frame {unat d, scratch p} st st')"
    proof (rule straight_weaken[OF ws(2)], intro allI impI)
      fix st st' x
      assume a: "\<forall>x v c. reg_is st (unat d) x \<and> isa_alu isa op x imm (me_carry st) = (v, c) \<longrightarrow>
        reg_is st' (unat d) v \<and> me_carry st' = c \<and> frame {unat d, scratch p} st st'" and x: "reg_is st (unat d) x"
      obtain v c where "isa_alu isa op x imm (me_carry st) = (v, c)" by force
      then show "reg_is st' (unat d) (fst (isa_alu isa op x imm False)) \<and> frame {unat d, scratch p} st st'"
        using a x doc[of x "me_carry st"] by auto
    qed
    then show ?thesis using ws(1) by blast
  qed
qed

section \<open>Halves\<close>

lemma imm_halves: "imm_lo32 insn = lo32 (imm_sx insn)" "imm_hi32 insn = hi32 (imm_sx insn)" "lo32 (imm_sx insn) = bi_imm insn"
proof -
  show "imm_lo32 insn = lo32 (imm_sx insn)"
  proof -
    have "imm_lo32 insn = ucast (imm_sx insn AND mask 32)" by (simp add: imm_lo32_def mask_eq_exp_minus_1)
    also have "\<dots> = ucast (imm_sx insn)" by (rule bit_word_eqI) (auto simp: bit_ucast_iff bit_and_iff bit_mask_iff)
    finally show ?thesis by (simp add: lo32_def)
  qed
  show "imm_hi32 insn = hi32 (imm_sx insn)" by (simp add: imm_hi32_def hi32_def)
  show "lo32 (imm_sx insn) = bi_imm insn"
    by (rule bit_word_eqI) (auto simp: lo32_def imm_sx_def bit_ucast_iff bit_signed_iff)
qed

lemma half_logic:
  "lo32 (a AND b) = lo32 a AND lo32 b" "hi32 (a AND b) = hi32 a AND hi32 b"
  "lo32 (a OR b) = lo32 a OR lo32 b" "hi32 (a OR b) = hi32 a OR hi32 b"
  "lo32 (a XOR b) = lo32 a XOR lo32 b" "hi32 (a XOR b) = hi32 a XOR hi32 b"
  by (simp_all add: lo32_def hi32_def unsigned_and_eq unsigned_or_eq unsigned_xor_eq drop_bit_and drop_bit_or drop_bit_xor)

lemma unat_halves: "unat (lo32 v) = unat v mod 2 ^ 32" "unat (hi32 v) = unat v div 2 ^ 32"
proof -
  have "unat v < 2 ^ LENGTH(64)" by (rule unsigned_less)
  then show "unat (lo32 v) = unat v mod 2 ^ 32" "unat (hi32 v) = unat v div 2 ^ 32"
    by (simp_all add: lo32_def hi32_def unsigned_ucast_eq take_bit_eq_mod drop_bit_eq_div unat_div)
qed

text \<open>Sums of numbers in base \<open>P\<close>.\<close>

lemma base_add:
  fixes x y P :: nat
  assumes "0 < P"
  shows "(x + y) mod (P * P) mod P = (x mod P + y mod P) mod P"
    "(x + y) mod (P * P) div P = (x div P + y div P + of_bool (P \<le> x mod P + y mod P)) mod P"
proof -
  show "(x + y) mod (P * P) mod P = (x mod P + y mod P) mod P" by (simp add: mod_mult2_eq mod_add_eq)
  have "x mod P + y mod P < 2 * P" using assms by (simp add: add_less_le_mono mult_2 less_imp_le)
  then have "(x mod P + y mod P) div P = of_bool (P \<le> x mod P + y mod P)"
    using assms by (auto simp: div_nat_eqI)
  then have "(x + y) div P = x div P + y div P + of_bool (P \<le> x mod P + y mod P)" using div_add1_eq[of x y P] by simp
  then show "(x + y) mod (P * P) div P = (x div P + y div P + of_bool (P \<le> x mod P + y mod P)) mod P"
    using assms by (simp only: mod_mult2_eq) simp
qed

lemma half_add:
  "lo32 (a + b) = lo32 a + lo32 b"
  "hi32 (a + b) = hi32 a + hi32 b + of_bool (2 ^ 32 \<le> unat (lo32 a) + unat (lo32 b))"
proof -
  have p: "(2 ^ LENGTH(64) :: nat) = 2 ^ 32 * 2 ^ 32" by simp
  note s = unat_word_ariths(1)[of a b, unfolded p] and ba = base_add[of "2 ^ 32" "unat a" "unat b", simplified zero_less_power zero_less_numeral]
  have "unat (lo32 a + lo32 b) = (unat a mod 2 ^ 32 + unat b mod 2 ^ 32) mod 2 ^ 32"
    by (simp only: unat_word_ariths unat_halves) simp
  then show "lo32 (a + b) = lo32 a + lo32 b"
    by (intro word_unat_eq_iff[THEN iffD2]) (simp only: unat_halves s ba)
  show "hi32 (a + b) = hi32 a + hi32 b + of_bool (2 ^ 32 \<le> unat (lo32 a) + unat (lo32 b))"
  proof (rule word_unat_eq_iff[THEN iffD2])
    have "unat (hi32 a + hi32 b + of_bool c) = (unat a div 2 ^ 32 + unat b div 2 ^ 32 + of_bool c) mod 2 ^ 32" for c
      by (cases c) (simp_all only: unat_word_ariths unat_halves of_bool_eq unat_0 unat_1 mod_simps, simp_all add: mod_simps)
    then show "unat (hi32 (a + b)) = unat (hi32 a + hi32 b + of_bool (2 ^ 32 \<le> unat (lo32 a) + unat (lo32 b)))"
      by (simp only: unat_halves s ba)
  qed
qed

lemma half_sub:
  "lo32 (a - b) = lo32 a - lo32 b"
  "hi32 (a - b) = hi32 a - hi32 b - of_bool (\<not> lo32 b \<le> lo32 a)"
proof -
  have ab: "a = (a - b) + b" by simp
  have l: "lo32 a = lo32 (a - b) + lo32 b" by (subst ab, rule half_add(1))
  then show lo: "lo32 (a - b) = lo32 a - lo32 b" by simp
  have h: "hi32 a = hi32 (a - b) + hi32 b + of_bool (2 ^ 32 \<le> unat (lo32 (a - b)) + unat (lo32 b))"
    by (subst ab, rule half_add(2))
  have "2 ^ 32 \<le> unat (lo32 a - lo32 b) + unat (lo32 b) \<longleftrightarrow> \<not> lo32 b \<le> lo32 a"
    using unsigned_less[of "lo32 a", where ?'a = nat] by (auto simp: unat_sub_if' word_le_nat_alt)
  then show "hi32 (a - b) = hi32 a - hi32 b - of_bool (\<not> lo32 b \<le> lo32 a)" using h lo by simp
qed

lemma half_le: "b \<le> a \<longleftrightarrow> unat (hi32 b) + of_bool (\<not> lo32 b \<le> lo32 a) \<le> unat (hi32 a)"
proof -
  define x y where "x = unat a" and "y = unat b"
  have g: "y \<le> x \<longleftrightarrow> y div P + of_bool (\<not> y mod P \<le> x mod P) \<le> x div P" if "0 < P" for P :: nat
  proof -
    have e: "x = x div P * P + x mod P" "y = y div P * P + y mod P" by simp_all
    consider "y div P < x div P" | "x div P < y div P" | "x div P = y div P" by linarith
    then show ?thesis
    proof cases
      case 1
      then have "\<not> x < y" using div_le_mono[of x y P] by auto
      then show ?thesis using 1 by (auto simp: of_bool_def)
    next
      case 2
      then have "\<not> y \<le> x" using div_le_mono[of y x P] by auto
      then show ?thesis using 2 by (auto simp: of_bool_def)
    next
      case 3
      then have "y \<le> x \<longleftrightarrow> y mod P \<le> x mod P" using e by (metis add_le_cancel_left)
      then show ?thesis using 3 by (auto simp: of_bool_def)
    qed
  qed
  show ?thesis using g[of "2 ^ 32"] by (simp add: word_le_nat_alt unat_halves x_def y_def)
qed

section \<open>Segments of code\<close>

text \<open>A segment: the words appended, and what they do when the registers match.\<close>

definition segment :: "me_isa \<Rightarrow> nat \<Rightarrow> nfp_prog \<Rightarrow> nfp_prog \<Rightarrow> (me_state \<Rightarrow> (nat \<Rightarrow> u64) \<Rightarrow> me_state \<Rightarrow> bool) \<Rightarrow> bool" where
  "segment isa n p q Q \<longleftrightarrow> (\<exists>ws. emits p q ws \<and> straight isa ws (\<lambda>st st'. \<forall>R. matches n st R \<longrightarrow> Q st R st'))"

lemma segmentI: "emits p q ws \<Longrightarrow> straight isa ws P \<Longrightarrow> (\<And>st R st'. P st st' \<Longrightarrow> matches n st R \<Longrightarrow> Q st R st') \<Longrightarrow> segment isa n p q Q"
  unfolding segment_def straight_def by meson

lemma segment_then:
  assumes "segment isa n p q P" "emits q r ws" "straight isa ws S"
    and "\<And>st R mid st'. matches n st R \<Longrightarrow> P st R mid \<Longrightarrow> S mid st' \<Longrightarrow> Q st R st'"
  shows "segment isa n p r Q"
proof -
  obtain us where us: "emits p q us" "straight isa us (\<lambda>st st'. \<forall>R. matches n st R \<longrightarrow> P st R st')"
    using assms(1) by (auto simp: segment_def)
  show ?thesis
    by (rule segmentI[OF emits_trans[OF us(1) assms(2)] straight_append[OF us(2) assms(3)]]) (use assms(4) in blast)
qed

lemma matches_regs:
  assumes "matches n st R" "unat r < n"
  shows "reg_is st (2 * unat r) (lo32 (R (unat r)))" "reg_is st (2 * unat r + 1) (hi32 (R (unat r)))"
  using assms by (auto simp: matches_def)

lemma matches_upd:
  assumes "matches n st R" "2 * n \<le> k" "frame {2 * d, 2 * d + 1, k} st st'"
    and "reg_is st' (2 * d) (lo32 v)" "reg_is st' (2 * d + 1) (hi32 v)"
  shows "matches n st' (R(d := v))"
proof -
  have "reg_is st' i x = reg_is st i x" if "i < 2 * n" "i \<noteq> 2 * d" "i \<noteq> 2 * d + 1" for i x
    using frame_reg_is[OF assms(3), of i x] that assms(2) by auto
  moreover have "2 * r + 1 \<noteq> 2 * d" "2 * d + 1 \<noteq> 2 * r" for r by presburger+
  ultimately show ?thesis using assms(1,4,5) by (auto simp: matches_def)
qed

text \<open>The pieces.\<close>

lemma alu_regs_emits:
  assumes "op AND 0x1f = op" "unat d < 256" "unat s < 256"
  shows "\<exists>w. emits p (emit_alu (reg_both d) (reg_a d) op (reg_b s) p) [w] \<and> straight isa [w] (\<lambda>st st'. \<forall>x y v c.
    reg_is st (unat d) x \<and> reg_is st (unat s) y \<and> isa_alu isa op x y (me_carry st) = (v, c) \<longrightarrow>
    reg_is st' (unat d) v \<and> me_carry st' = c \<and> frame {unat d} st st')"
proof -
  have "sw_type (reg_a d) \<noteq> sw_type (reg_b s)" using assms by simp
  then obtain w where w: "emits p (emit_alu (reg_both d) (reg_a d) op (reg_b s) p) [w]"
    "straight isa [w] (\<lambda>st st'. \<exists>lv. (sw_src (reg_a d) \<longrightarrow> lv = sw_val st (reg_a d)) \<and>
       st' = alu_result isa op (reg_both d) lv (sw_val st (reg_b s)) st)"
    using emit_alu_emits[OF assms(1), of "reg_both d" "reg_a d" "reg_b s" p isa] assms(2,3) by auto
  have "straight isa [w] (\<lambda>st st'. \<forall>x y v c. reg_is st (unat d) x \<and> reg_is st (unat s) y \<and>
      isa_alu isa op x y (me_carry st) = (v, c) \<longrightarrow> reg_is st' (unat d) v \<and> me_carry st' = c \<and> frame {unat d} st st')"
  proof (rule straight_weaken[OF w(2)], elim exE conjE, intro allI impI, elim conjE)
    fix st st' lv x y v c
    assume r: "sw_src (reg_a d) \<longrightarrow> lv = sw_val st (reg_a d)" "st' = alu_result isa op (reg_both d) lv (sw_val st (reg_b s)) st"
      and x: "reg_is st (unat d) x" "reg_is st (unat s) y" "isa_alu isa op x y (me_carry st) = (v, c)"
    have a: "isa_alu isa op lv (sw_val st (reg_b s)) (me_carry st) = (v, c)" using r x assms(2,3) by (simp add: reg_is_def)
    show "reg_is st' (unat d) v \<and> me_carry st' = c \<and> frame {unat d} st st'"
      using alu_result_post[OF a, of "reg_both d"] r(2) assms(2) by simp
  qed
  with w(1) show ?thesis by blast
qed

lemma mov_emits:
  assumes "me_documented isa" "unat d < 256" "unat s < 256"
  shows "\<exists>w. emits p (emit_alu (reg_both d) reg_none ALU_OP_NONE (reg_b s) p) [w] \<and> straight isa [w] (\<lambda>st st'. \<forall>y.
    reg_is st (unat s) y \<longrightarrow> reg_is st' (unat d) y \<and> frame {unat d} st st')"
proof -
  have "sw_type reg_none \<noteq> sw_type (reg_b s)" using assms by simp
  then obtain w where w: "emits p (emit_alu (reg_both d) reg_none ALU_OP_NONE (reg_b s) p) [w]"
    "straight isa [w] (\<lambda>st st'. \<exists>lv. (sw_src reg_none \<longrightarrow> lv = sw_val st reg_none) \<and>
       st' = alu_result isa ALU_OP_NONE (reg_both d) lv (sw_val st (reg_b s)) st)"
    using emit_alu_emits[of ALU_OP_NONE "reg_both d" reg_none "reg_b s" p isa] assms(2,3) by auto
  have "straight isa [w] (\<lambda>st st'. \<forall>y. reg_is st (unat s) y \<longrightarrow> reg_is st' (unat d) y \<and> frame {unat d} st st')"
  proof (rule straight_weaken[OF w(2)], elim exE conjE, intro allI impI)
    fix st st' lv y
    assume r: "st' = alu_result isa ALU_OP_NONE (reg_both d) lv (sw_val st (reg_b s)) st" and y: "reg_is st (unat s) y"
    obtain v c where a: "isa_alu isa ALU_OP_NONE lv (sw_val st (reg_b s)) (me_carry st) = (v, c)" by force
    have "v = y" using me_doc_alu(8)[OF assms(1), of lv "sw_val st (reg_b s)" "me_carry st"] a y assms(3) by (simp add: reg_is_def)
    then show "reg_is st' (unat d) y \<and> frame {unat d} st st'" using alu_result_post[OF a, of "reg_both d"] r assms(2) by simp
  qed
  with w(1) show ?thesis by blast
qed

lemma immed_emits:
  assumes "me_documented isa" "unat d < 256"
  shows "\<exists>ws. emits p (wrp_immed (reg_both d) v p) ws \<and> straight isa ws (\<lambda>st st'. reg_is st' (unat d) v \<and> frame {unat d} st st')"
proof -
  have t: "sw_type (reg_both d) = NN_REG_GPR_BOTH" "sw_num (reg_both d) = unat d" using assms(2) by simp_all
  then obtain ws where ws: "emits p (wrp_immed (reg_both d) v p) ws" "straight isa ws (\<lambda>st st'. st' = sw_write (reg_both d) v st)"
    using wrp_immed_emits[OF assms(1), of "reg_both d" p v] by auto
  have "straight isa ws (\<lambda>st st'. reg_is st' (unat d) v \<and> frame {unat d} st st')"
    by (rule straight_weaken[OF ws(2)]) (use sw_write_post(3,4)[where dst = "reg_both d" and v = v] t in auto)
  with ws(1) show ?thesis by blast
qed

section \<open>Arithmetic instructions\<close>

text \<open>The code from \<open>p\<close> to \<open>q\<close> sets BPF register \<open>d\<close> to \<open>v\<close> of the registers, and keeps the others.\<close>

definition computes :: "me_isa \<Rightarrow> nat \<Rightarrow> nfp_prog \<Rightarrow> nfp_prog \<Rightarrow> nat \<Rightarrow> ((nat \<Rightarrow> u64) \<Rightarrow> u64) \<Rightarrow> bool" where
  "computes isa n p q d v \<longleftrightarrow> segment isa n p q (\<lambda>st R st'. matches n st' (R(d := v R)) \<and> me_nnr st' = me_nnr st)"

text \<open>First the low half, then the high half: \<open>C\<close> is what the first step says of the carry.\<close>

lemma computes_halves:
  assumes "regs_fit n p" "d < n"
    and "emits p q us" "straight isa us (\<lambda>st mid. \<forall>R. matches n st R \<longrightarrow> frame {2 * d, scratch p} st mid \<and> reg_is mid (2 * d) (lo32 (v R)) \<and> C R mid)"
    and "emits q r ws" "straight isa ws (\<lambda>mid st'. \<forall>R x. reg_is mid (2 * d + 1) x \<and> C R mid \<and>
      (\<forall>i < n. i \<noteq> d \<longrightarrow> reg_is mid (2 * i) (lo32 (R i)) \<and> reg_is mid (2 * i + 1) (hi32 (R i))) \<and> x = hi32 (R d) \<and>
      reg_is mid (2 * d) (lo32 (v R)) \<longrightarrow> frame {2 * d + 1, scratch p} mid st' \<and> reg_is st' (2 * d + 1) (hi32 (v R)))"
  shows "computes isa n p r d v"
  unfolding computes_def
proof (rule segmentI[OF emits_trans[OF assms(3,5)] straight_append[OF assms(4,6)]], elim exE conjE)
  fix st R st' mid
  assume a: "\<forall>R. matches n st R \<longrightarrow> frame {2 * d, scratch p} st mid \<and> reg_is mid (2 * d) (lo32 (v R)) \<and> C R mid"
    and b: "\<forall>R x. reg_is mid (2 * d + 1) x \<and> C R mid \<and>
      (\<forall>i < n. i \<noteq> d \<longrightarrow> reg_is mid (2 * i) (lo32 (R i)) \<and> reg_is mid (2 * i + 1) (hi32 (R i))) \<and> x = hi32 (R d) \<and>
      reg_is mid (2 * d) (lo32 (v R)) \<longrightarrow> frame {2 * d + 1, scratch p} mid st' \<and> reg_is st' (2 * d + 1) (hi32 (v R))"
    and m: "matches n st R"
  have k: "2 * n \<le> scratch p" using assms(1) by (simp add: regs_fit_def)
  have f: "frame {2 * d, scratch p} st mid" "reg_is mid (2 * d) (lo32 (v R))" "C R mid" using a m by blast+
  have same: "reg_is mid i y = reg_is st i y" if "i < 2 * n" "i \<noteq> 2 * d" for i y
    using frame_reg_is[OF f(1), of i y] that k by auto
  have ne: "2 * i + 1 \<noteq> 2 * d" "2 * i \<noteq> 2 * d + 1" for i by presburger+
  have o: "\<forall>i < n. i \<noteq> d \<longrightarrow> reg_is mid (2 * i) (lo32 (R i)) \<and> reg_is mid (2 * i + 1) (hi32 (R i))"
    using same m ne by (auto simp: matches_def)
  have h: "reg_is mid (2 * d + 1) (hi32 (R d))" using same[of "2 * d + 1"] m assms(2) by (auto simp: matches_def)
  have g: "frame {2 * d + 1, scratch p} mid st'" "reg_is st' (2 * d + 1) (hi32 (v R))" using b f(2,3) o h by blast+
  have l: "reg_is st' (2 * d) (lo32 (v R))" using frame_reg_is[OF g(1), of "2 * d"] f(2) ne k assms(2) by auto
  have fr: "frame {2 * d, 2 * d + 1, scratch p} st st'" using frame_trans[OF f(1) g(1)] by (rule frame_mono) auto
  show "matches n st' (R(d := v R)) \<and> me_nnr st' = me_nnr st"
    using matches_upd[OF m k fr l g(2)] fr by (simp add: frame_def)
qed

lemma reg_small: "unat (reg_lo r) < 256" "unat (reg_hi r) < 256"
  using reg_nums[of r] by simp_all

lemma alu_reg_pair_computes:
  assumes "regs_fit n p" "unat (bi_dst_reg (im_insn meta)) < n" "unat (bi_src_reg (im_insn meta)) < n"
    and ops: "op1 AND 0x1f = op1" "op2 AND 0x1f = op2"
    and v: "\<And>x y c. lo32 (f x y) = fst (isa_alu isa op1 (lo32 x) (lo32 y) c)"
      "\<And>x y c. hi32 (f x y) = fst (isa_alu isa op2 (hi32 x) (hi32 y) (snd (isa_alu isa op1 (lo32 x) (lo32 y) c)))"
  shows "computes isa n p (snd (alu_reg_pair op1 op2 meta p)) (unat (bi_dst_reg (im_insn meta)))
    (\<lambda>R. f (R (unat (bi_dst_reg (im_insn meta)))) (R (unat (bi_src_reg (im_insn meta)))))"
proof -
  let ?dr = "bi_dst_reg (im_insn meta)" and ?sr = "bi_src_reg (im_insn meta)"
  let ?q = "emit_alu (reg_both (reg_lo ?dr)) (reg_a (reg_lo ?dr)) op1 (reg_b (reg_lo ?sr)) p"
  obtain u where u: "emits p ?q [u]" "straight isa [u] (\<lambda>st st'. \<forall>x y v c.
      reg_is st (2 * unat ?dr) x \<and> reg_is st (2 * unat ?sr) y \<and> isa_alu isa op1 x y (me_carry st) = (v, c) \<longrightarrow>
      reg_is st' (2 * unat ?dr) v \<and> me_carry st' = c \<and> frame {2 * unat ?dr} st st')"
    using alu_regs_emits[OF ops(1) reg_small(1)[of ?dr] reg_small(1)[of ?sr], of p isa] by (auto simp: reg_nums)
  obtain w where w: "emits ?q (emit_alu (reg_both (reg_hi ?dr)) (reg_a (reg_hi ?dr)) op2 (reg_b (reg_hi ?sr)) ?q) [w]"
    "straight isa [w] (\<lambda>st st'. \<forall>x y v c.
      reg_is st (2 * unat ?dr + 1) x \<and> reg_is st (2 * unat ?sr + 1) y \<and> isa_alu isa op2 x y (me_carry st) = (v, c) \<longrightarrow>
      reg_is st' (2 * unat ?dr + 1) v \<and> me_carry st' = c \<and> frame {2 * unat ?dr + 1} st st')"
    using alu_regs_emits[OF ops(2) reg_small(2)[of ?dr] reg_small(2)[of ?sr], of ?q isa] by (auto simp: reg_nums)
  define C where "C = (\<lambda>(R :: nat \<Rightarrow> u64) (mid :: me_state). \<exists>c. me_carry mid = snd (isa_alu isa op1 (lo32 (R (unat ?dr))) (lo32 (R (unat ?sr))) c))"
  have "computes isa n p (emit_alu (reg_both (reg_hi ?dr)) (reg_a (reg_hi ?dr)) op2 (reg_b (reg_hi ?sr)) ?q) (unat ?dr)
      (\<lambda>R. f (R (unat ?dr)) (R (unat ?sr)))"
  proof (rule computes_halves[OF assms(1,2) u(1) straight_weaken[OF u(2)] w(1) straight_weaken[OF w(2)], where C = C], goal_cases)
    case (1 st st')
    show ?case
    proof (intro allI impI)
      fix R assume m: "matches n st R"
      obtain v c where a: "isa_alu isa op1 (lo32 (R (unat ?dr))) (lo32 (R (unat ?sr))) (me_carry st) = (v, c)" by force
      then have "reg_is st' (2 * unat ?dr) v \<and> me_carry st' = c \<and> frame {2 * unat ?dr} st st'"
        using 1 matches_regs(1)[OF m assms(2)] matches_regs(1)[OF m assms(3)] by blast
      then show "frame {2 * unat ?dr, scratch p} st st' \<and> reg_is st' (2 * unat ?dr) (lo32 (f (R (unat ?dr)) (R (unat ?sr)))) \<and> C R st'"
        using v(1)[of "R (unat ?dr)" "R (unat ?sr)" "me_carry st"] a by (auto simp: C_def intro: frame_mono exI[of _ "me_carry st"])
    qed
  next
    case (2 mid st')
    show ?case
    proof (intro allI impI, elim conjE)
      fix R x
      assume x: "reg_is mid (2 * unat ?dr + 1) x" "C R mid" "x = hi32 (R (unat ?dr))"
        and o: "\<forall>i < n. i \<noteq> unat ?dr \<longrightarrow> reg_is mid (2 * i) (lo32 (R i)) \<and> reg_is mid (2 * i + 1) (hi32 (R i))"
      have s: "reg_is mid (2 * unat ?sr + 1) (hi32 (R (unat ?sr)))" using o x assms(3) by (cases "unat ?sr = unat ?dr") auto
      obtain c where c: "me_carry mid = snd (isa_alu isa op1 (lo32 (R (unat ?dr))) (lo32 (R (unat ?sr))) c)" using x(2) by (auto simp: C_def)
      obtain v' c' where a: "isa_alu isa op2 (hi32 (R (unat ?dr))) (hi32 (R (unat ?sr))) (me_carry mid) = (v', c')" by force
      then have "reg_is st' (2 * unat ?dr + 1) v' \<and> frame {2 * unat ?dr + 1} mid st'" using 2 x s by blast
      then show "frame {2 * unat ?dr + 1, scratch p} mid st' \<and> reg_is st' (2 * unat ?dr + 1) (hi32 (f (R (unat ?dr)) (R (unat ?sr))))"
        using v(2)[of "R (unat ?dr)" "R (unat ?sr)" c] a c by (auto intro: frame_mono)
    qed
  qed
  then show ?thesis by (simp add: alu_reg_pair_def Let_def cb_ok_def)
qed

lemma u8_reg: "unat (ucast (reg_lo r) :: u8) = 2 * unat r" "unat (ucast (reg_hi r) :: u8) = 2 * unat r + 1"
  using reg_nums[of r] by (simp_all add: unsigned_ucast_eq take_bit_nat_eq_self)

lemma emits_scratch: "emits p q ws \<Longrightarrow> room p \<Longrightarrow> np_regs_per_thread q = np_regs_per_thread p \<and> room q"
  using emits_frame[of p q ws] by (simp add: same_frame_def)

text \<open>Immediates: the logical operations half by half, sums and differences with the carry.\<close>

lemma alu_logic_computes:
  assumes doc: "me_documented isa" and fit: "regs_fit n p" "room p" "unat dr < n"
    and ops: "op \<in> {ALU_OP_AND, ALU_OP_OR, ALU_OP_XOR}"
    and v: "\<And>x. lo32 (f x) = fst (isa_alu isa op (lo32 x) il False)" "\<And>x. hi32 (f x) = fst (isa_alu isa op (hi32 x) ih False)"
  shows "computes isa n p (wrp_alu_imm (ucast (reg_hi dr)) op ih (wrp_alu_imm (ucast (reg_lo dr)) op il p)) (unat dr) (\<lambda>R. f (R (unat dr)))"
proof -
  let ?q = "wrp_alu_imm (ucast (reg_lo dr)) op il p"
  have k: "2 * n \<le> scratch p" "scratch p < 254" using fit(1) by (simp_all add: regs_fit_def)
  obtain us where us: "emits p ?q us" "straight isa us (\<lambda>st st'. \<forall>x. reg_is st (2 * unat dr) x \<longrightarrow>
      reg_is st' (2 * unat dr) (fst (isa_alu isa op x il False)) \<and> frame {2 * unat dr, scratch p} st st')"
    using alu_imm_logic[OF doc k(2) _ ops, of "ucast (reg_lo dr)" il] k(1) fit(3) by (auto simp: u8_reg)
  have q: "np_regs_per_thread ?q = np_regs_per_thread p" using emits_scratch[OF us(1) fit(2)] by simp
  obtain ws where ws: "emits ?q (wrp_alu_imm (ucast (reg_hi dr)) op ih ?q) ws" "straight isa ws (\<lambda>st st'. \<forall>x. reg_is st (2 * unat dr + 1) x \<longrightarrow>
      reg_is st' (2 * unat dr + 1) (fst (isa_alu isa op x ih False)) \<and> frame {2 * unat dr + 1, scratch p} st st')"
    using alu_imm_logic[OF doc _ _ ops, of ?q "ucast (reg_hi dr)" ih] k fit(3) by (auto simp: u8_reg q)
  show ?thesis
  proof (rule computes_halves[OF fit(1,3) us(1) straight_weaken[OF us(2)] ws(1) straight_weaken[OF ws(2)], where C = "\<lambda>_ _. True"], goal_cases)
    case (1 st st')
    then show ?case by (auto dest: matches_regs(1)[OF _ fit(3)] simp: v(1))
  next
    case (2 mid st')
    then show ?case by (auto simp: v(2))
  qed
qed

lemma alu_arith_computes:
  assumes doc: "me_documented isa" and fit: "regs_fit n p" "room p" "unat dr < n"
    and ops: "op1 AND 0x1f = op1" "op2 AND 0x1f = op2" "op1 \<notin> {ALU_OP_AND, ALU_OP_OR, ALU_OP_XOR}" "op2 \<notin> {ALU_OP_AND, ALU_OP_OR, ALU_OP_XOR}"
    and v: "\<And>x c. lo32 (f x) = fst (isa_alu isa op1 (lo32 x) il c)"
      "\<And>x c. hi32 (f x) = fst (isa_alu isa op2 (hi32 x) ih (snd (isa_alu isa op1 (lo32 x) il c)))"
  shows "computes isa n p (wrp_alu_imm (ucast (reg_hi dr)) op2 ih (wrp_alu_imm (ucast (reg_lo dr)) op1 il p)) (unat dr) (\<lambda>R. f (R (unat dr)))"
proof -
  let ?q = "wrp_alu_imm (ucast (reg_lo dr)) op1 il p"
  have k: "2 * n \<le> scratch p" "scratch p < 254" using fit(1) by (simp_all add: regs_fit_def)
  obtain us where us: "emits p ?q us" "straight isa us (\<lambda>st st'. \<forall>x v c. reg_is st (2 * unat dr) x \<and>
      isa_alu isa op1 x il (me_carry st) = (v, c) \<longrightarrow>
      reg_is st' (2 * unat dr) v \<and> me_carry st' = c \<and> frame {2 * unat dr, scratch p} st st')"
    using alu_imm_half[OF doc k(2) _ ops(1), of "ucast (reg_lo dr)" il] k(1) fit(3) ops(3) by (auto simp: u8_reg)
  have q: "np_regs_per_thread ?q = np_regs_per_thread p" using emits_scratch[OF us(1) fit(2)] by simp
  obtain ws where ws: "emits ?q (wrp_alu_imm (ucast (reg_hi dr)) op2 ih ?q) ws" "straight isa ws (\<lambda>st st'. \<forall>x v c. reg_is st (2 * unat dr + 1) x \<and>
      isa_alu isa op2 x ih (me_carry st) = (v, c) \<longrightarrow>
      reg_is st' (2 * unat dr + 1) v \<and> me_carry st' = c \<and> frame {2 * unat dr + 1, scratch p} st st')"
    using alu_imm_half[OF doc _ _ ops(2), of ?q "ucast (reg_hi dr)" ih] k fit(3) ops(4) by (auto simp: u8_reg q)
  define C where "C = (\<lambda>(R :: nat \<Rightarrow> u64) (mid :: me_state). \<exists>c. me_carry mid = snd (isa_alu isa op1 (lo32 (R (unat dr))) il c))"
  show ?thesis
  proof (rule computes_halves[OF fit(1,3) us(1) straight_weaken[OF us(2)] ws(1) straight_weaken[OF ws(2)], where C = C], goal_cases)
    case (1 st st')
    show ?case
    proof (intro allI impI)
      fix R assume m: "matches n st R"
      obtain v c where a: "isa_alu isa op1 (lo32 (R (unat dr))) il (me_carry st) = (v, c)" by force
      then have "reg_is st' (2 * unat dr) v \<and> me_carry st' = c \<and> frame {2 * unat dr, scratch p} st st'"
        using 1 matches_regs(1)[OF m fit(3)] by blast
      then show "frame {2 * unat dr, scratch p} st st' \<and> reg_is st' (2 * unat dr) (lo32 (f (R (unat dr)))) \<and> C R st'"
        using v(1)[of "R (unat dr)" "me_carry st"] a by (auto simp: C_def intro: exI[of _ "me_carry st"])
    qed
  next
    case (2 mid st')
    show ?case
    proof (intro allI impI, elim conjE)
      fix R x
      assume x: "reg_is mid (2 * unat dr + 1) x" "C R mid" "x = hi32 (R (unat dr))"
      obtain c where c: "me_carry mid = snd (isa_alu isa op1 (lo32 (R (unat dr))) il c)" using x(2) by (auto simp: C_def)
      obtain v' c' where a: "isa_alu isa op2 (hi32 (R (unat dr))) ih (me_carry mid) = (v', c')" by force
      then have "reg_is st' (2 * unat dr + 1) v' \<and> frame {2 * unat dr + 1, scratch p} mid st'" using 2 x by blast
      then show "frame {2 * unat dr + 1, scratch p} mid st' \<and> reg_is st' (2 * unat dr + 1) (hi32 (f (R (unat dr))))"
        using v(2)[of "R (unat dr)" c] a c by simp
    qed
  qed
qed

text \<open>A low half of any kind, then a constant or a moved high half; and the other way round.\<close>

lemma then_immed_computes:
  assumes doc: "me_documented isa" and fit: "regs_fit n p" "unat dr < n"
    and us: "emits p q us" "straight isa us (\<lambda>st mid. \<forall>R. matches n st R \<longrightarrow> frame {2 * unat dr, scratch p} st mid \<and> reg_is mid (2 * unat dr) (lo32 (v R)))"
    and hi: "\<And>R. hi32 (v R) = c"
  shows "computes isa n p (wrp_immed (reg_both (reg_hi dr)) c q) (unat dr) v"
proof -
  obtain ws where ws: "emits q (wrp_immed (reg_both (reg_hi dr)) c q) ws"
    "straight isa ws (\<lambda>st st'. reg_is st' (2 * unat dr + 1) c \<and> frame {2 * unat dr + 1} st st')"
    using immed_emits[OF doc reg_small(2)[of dr], of q c] by (auto simp: reg_nums)
  show ?thesis
    by (rule computes_halves[OF fit us(1) straight_weaken[OF us(2)] ws(1) straight_weaken[OF ws(2)], where C = "\<lambda>_ _. True"])
      (use hi in \<open>auto intro: frame_mono\<close>)
qed


lemma mov_segment:
  assumes doc: "me_documented isa"
  shows "\<exists>us. emits p (wrp_reg_mov (ucast (reg_lo dr)) (ucast (reg_lo sr)) p) us \<and>
      straight isa us (\<lambda>st st'. \<forall>y. reg_is st (2 * unat sr) y \<longrightarrow> reg_is st' (2 * unat dr) y \<and> frame {2 * unat dr} st st')"
    "\<exists>us. emits p (wrp_reg_mov (ucast (reg_hi dr)) (ucast (reg_hi sr)) p) us \<and>
      straight isa us (\<lambda>st st'. \<forall>y. reg_is st (2 * unat sr + 1) y \<longrightarrow> reg_is st' (2 * unat dr + 1) y \<and> frame {2 * unat dr + 1} st st')"
    "\<exists>us. emits p (wrp_reg_mov (ucast (reg_hi dr)) (ucast (reg_lo sr)) p) us \<and>
      straight isa us (\<lambda>st st'. \<forall>y. reg_is st (2 * unat sr) y \<longrightarrow> reg_is st' (2 * unat dr + 1) y \<and> frame {2 * unat dr + 1} st st')"
    "\<exists>us. emits p (wrp_reg_mov (ucast (reg_lo dr)) (ucast (reg_hi sr)) p) us \<and>
      straight isa us (\<lambda>st st'. \<forall>y. reg_is st (2 * unat sr + 1) y \<longrightarrow> reg_is st' (2 * unat dr) y \<and> frame {2 * unat dr} st st')"
  using mov_emits[OF doc reg_small(1)[of dr] reg_small(1)[of sr], of p] mov_emits[OF doc reg_small(2)[of dr] reg_small(2)[of sr], of p]
    mov_emits[OF doc reg_small(2)[of dr] reg_small(1)[of sr], of p] mov_emits[OF doc reg_small(1)[of dr] reg_small(2)[of sr], of p]
  unfolding wrp_reg_mov_def reg_num_casts reg_nums by blast+

lemma mov_reg64_computes:
  assumes doc: "me_documented isa" and fit: "regs_fit n p" "unat dr < n" "unat sr < n"
  shows "computes isa n p (wrp_reg_mov (ucast (reg_hi dr)) (ucast (reg_hi sr)) (wrp_reg_mov (ucast (reg_lo dr)) (ucast (reg_lo sr)) p))
    (unat dr) (\<lambda>R. R (unat sr))"
proof -
  let ?q = "wrp_reg_mov (ucast (reg_lo dr)) (ucast (reg_lo sr)) p"
  obtain us where us: "emits p ?q us" "straight isa us (\<lambda>st st'. \<forall>y. reg_is st (2 * unat sr) y \<longrightarrow> reg_is st' (2 * unat dr) y \<and> frame {2 * unat dr} st st')"
    using mov_segment(1)[OF doc] by blast
  obtain ws where ws: "emits ?q (wrp_reg_mov (ucast (reg_hi dr)) (ucast (reg_hi sr)) ?q) ws"
    "straight isa ws (\<lambda>st st'. \<forall>y. reg_is st (2 * unat sr + 1) y \<longrightarrow> reg_is st' (2 * unat dr + 1) y \<and> frame {2 * unat dr + 1} st st')"
    using mov_segment(2)[OF doc] by blast
  show ?thesis
  proof (rule computes_halves[OF fit(1,2) us(1) straight_weaken[OF us(2)] ws(1) straight_weaken[OF ws(2)], where C = "\<lambda>_ _. True"], goal_cases)
    case (1 st st')
    then show ?case by (auto dest: matches_regs(1)[OF _ fit(3)] intro: frame_mono)
  next
    case (2 mid st')
    show ?case
    proof (intro allI impI, elim conjE)
      fix R x assume o: "\<forall>i < n. i \<noteq> unat dr \<longrightarrow> reg_is mid (2 * i) (lo32 (R i)) \<and> reg_is mid (2 * i + 1) (hi32 (R i))"
        and x: "reg_is mid (2 * unat dr + 1) x" "x = hi32 (R (unat dr))"
      have "reg_is mid (2 * unat sr + 1) (hi32 (R (unat sr)))" using o x fit(3) by (cases "unat sr = unat dr") auto
      then show "frame {2 * unat dr + 1, scratch p} mid st' \<and> reg_is st' (2 * unat dr + 1) (hi32 (R (unat sr)))"
        using 2 by (auto intro: frame_mono)
    qed
  qed
qed

text \<open>Shifts by 32 write the halves in the other order, or move the other one.\<close>

lemma hi_then_lo_computes:
  assumes fit: "regs_fit n p" "d < n"
    and us: "emits p q us" "straight isa us (\<lambda>st mid. \<forall>R. matches n st R \<longrightarrow> frame {2 * d + 1} st mid \<and> reg_is mid (2 * d + 1) (hi32 (v R)))"
    and ws: "emits q r ws" "straight isa ws (\<lambda>mid st'. frame {2 * d} mid st' \<and> reg_is st' (2 * d) c)"
    and lo: "\<And>R. lo32 (v R) = c"
  shows "computes isa n p r d v"
  unfolding computes_def
proof (rule segmentI[OF emits_trans[OF us(1) ws(1)] straight_append[OF us(2) ws(2)]], elim exE conjE)
  fix st R st' mid
  assume a: "\<forall>R. matches n st R \<longrightarrow> frame {2 * d + 1} st mid \<and> reg_is mid (2 * d + 1) (hi32 (v R))"
    and b: "frame {2 * d} mid st'" "reg_is st' (2 * d) c" and m: "matches n st R"
  have k: "2 * n \<le> scratch p" using fit(1) by (simp add: regs_fit_def)
  have f: "frame {2 * d + 1} st mid" "reg_is mid (2 * d + 1) (hi32 (v R))" using a m by blast+
  have fr: "frame {2 * d, 2 * d + 1, scratch p} st st'" using frame_trans[OF f(1) b(1)] by (rule frame_mono) auto
  have h: "reg_is st' (2 * d + 1) (hi32 (v R))" using frame_reg_is[OF b(1), of "2 * d + 1"] f(2) by simp
  have l: "reg_is st' (2 * d) (lo32 (v R))" using b(2) lo by simp
  show "matches n st' (R(d := v R)) \<and> me_nnr st' = me_nnr st"
    using matches_upd[OF m k fr l h] fr by (simp add: frame_def)
qed

lemma half_shift:
  "lo32 (push_bit 32 v) = 0" "hi32 (push_bit 32 v) = lo32 v" "lo32 (drop_bit 32 v) = hi32 v" "hi32 (drop_bit 32 v) = 0"
  by (rule bit_word_eqI; auto simp: lo32_def hi32_def bit_ucast_iff bit_push_bit_iff bit_drop_bit_eq dest: bit_imp_le_length)+

lemma half_ext: "lo32 (ucast x :: u64) = x" "hi32 (ucast (x :: u32) :: u64) = 0"
  by (rule bit_word_eqI; auto simp: lo32_def hi32_def bit_ucast_iff bit_drop_bit_eq dest: bit_imp_le_length)+

section \<open>The 32-bit shift\<close>

lemma field_n:
  fixes v :: "'a::len word"
  assumes "unat v < 2 ^ k" "LENGTH('a) \<le> 64"
  shows "(ucast v :: u64) AND mask k = ucast v"
proof (rule and_mask_id)
  have "unat v < 2 ^ LENGTH('a)" by (rule unsigned_less)
  also have "(2 :: nat) ^ LENGTH('a) \<le> 2 ^ 64" using assms(2) by (simp only: power_increasing one_le_numeral)
  finally show "unat (ucast v :: u64) < 2 ^ k" using assms(1) by (simp add: unsigned_ucast_eq take_bit_nat_eq_self)
qed

lemma shf_word_fields:
  assumes "unat dst < 256" "unat areg < 256" "unat breg < 256" "unat shift < 32" "op AND 7 = op" "sc AND 3 = sc"
  shows "FIELD_GET OP_SHF_A_SRC (shf_word dst ab sc shift areg op breg i8 swap both) = ucast areg"
    "FIELD_GET OP_SHF_B_SRC (shf_word dst ab sc shift areg op breg i8 swap both) = ucast breg"
    "FIELD_GET OP_SHF_DST (shf_word dst ab sc shift areg op breg i8 swap both) = ucast dst"
    "FIELD_GET OP_SHF_SC (shf_word dst ab sc shift areg op breg i8 swap both) = sc"
    "FIELD_GET OP_SHF_OP (shf_word dst ab sc shift areg op breg i8 swap both) = op"
    "FIELD_GET OP_SHF_SHIFT (shf_word dst ab sc shift areg op breg i8 swap both) = ucast shift"
    "FIELD_GET OP_SHF_SW (shf_word dst ab sc shift areg op breg i8 swap both) = of_bool swap"
    "FIELD_GET OP_SHF_I8 (shf_word dst ab sc shift areg op breg i8 swap both) = of_bool i8"
    "FIELD_GET OP_SHF_DST_AB (shf_word dst ab sc shift areg op breg i8 swap both) = alu_dst_bit ab"
    "FIELD_GET OP_SHF_WR_AB (shf_word dst ab sc shift areg op breg i8 swap both) = of_bool both"
  using assms field_8[of dst] field_8[of areg] field_8[of breg] field_n[of shift 5]
  by (simp_all add: shf_word_def field_decode alu_dst_bit_def mask_eq_exp_minus_1 split: alu_dst_ab.split)

lemma rereg_gpr:
  assumes "sw_type r \<in> {NN_REG_GPR_A, NN_REG_GPR_B, NN_REG_GPR_BOTH}"
  shows "nfp_swreg_to_rereg r d i = (ucast (FIELD_GET NN_REG_VAL r), None)"
  using assms by (auto simp: nfp_swreg_to_rereg_def sw_type_def[symmetric])

lemma shl_restricted:
  assumes "unat d < 32" "unat s < 32"
  shows "swreg_to_restricted (reg_both d) reg_none (reg_b s) True =
    Inr \<lparr>re_dst_ab = ALU_DST_A, re_dst = ucast d, re_areg = 0, re_breg = ucast s, re_swap = False, re_wr_both = True, re_i8 = False\<rparr>"
proof -
  have x: "(x :: u32) AND 0xff = x" if "unat x < 32" for x
    using and_mask_id[of x 8] that by (simp add: mask_eq_exp_minus_1)
  have y: "ucast (ucast (x :: u32) :: u16) = (ucast x :: u8)" for x
    by (rule bit_word_eqI) (auto simp: bit_ucast_iff)
  have c: "ucast (ucast (FIELD_GET NN_REG_VAL (reg_both d)) :: u16) = (ucast d :: u8)"
    "ucast (ucast (FIELD_GET NN_REG_VAL (reg_b s)) :: u16) = (ucast s :: u8)"
    unfolding reg_both_def reg_b_def FIELD_GET_val by (simp_all only: x[OF assms(1)] x[OF assms(2)] y)
  have n: "nfp_swreg_to_rereg reg_none False True = (0, None)"
    by (simp add: nfp_swreg_to_rereg_def sw_type_def[symmetric])
  have t: "sw_type (reg_both d) = NN_REG_GPR_BOTH" "sw_type (reg_b s) = NN_REG_GPR_B" using assms by simp_all
  show ?thesis
    using t rereg_gpr[of "reg_both d"] rereg_gpr[of "reg_b s"]
    by (simp add: swreg_to_restricted_def sw_type_def[symmetric] n c)
qed

lemma shift_fits:
  fixes n :: u8
  assumes "unat n < 32"
  shows "FIELD_FIT OP_SHF_SHIFT (ucast n)"
proof -
  have "push_bit 28 (ucast n :: u64) = push_bit 28 (ucast n AND mask 5)" using field_n[of n 5] assms by simp
  also have "\<dots> = push_bit 28 (ucast n) AND push_bit 28 (mask 5)" by (simp add: push_bit_and)
  finally have "push_bit 28 (ucast n :: u64) = push_bit 28 (ucast n) AND OP_SHF_SHIFT" by (simp add: mask_eq_exp_minus_1 push_bit_eq_mult)
  then show ?thesis unfolding FIELD_FIT_def bf_shf_masks by (metis and.assoc bit.conj_cancel_right and_zero_eq)
qed

lemma shl_emits:
  fixes n :: u8
  assumes doc: "me_documented isa" and "unat d < 32" "unat s < 32" "0 < unat n" "unat n < 32"
  shows "\<exists>w. emits p (emit_shf (reg_both d) reg_none SHF_OP_NONE (reg_b s) SHF_SC_L_SHF n p) [w] \<and>
    straight isa [w] (\<lambda>st st'. \<forall>y. reg_is st (unat s) y \<longrightarrow> reg_is st' (unat d) (push_bit (unat n) y) \<and> frame {unat d} st st')"
proof -
  let ?w = "shf_word (ucast (ucast d :: u8)) ALU_DST_A SHF_SC_L_SHF (32 - n) 0 SHF_OP_NONE (ucast (ucast s :: u8)) False False True"
  note fit = shift_fits[OF assms(5)]
  have e: "emit_shf (reg_both d) reg_none SHF_OP_NONE (reg_b s) SHF_SC_L_SHF n p = nfp_prog_push ?w p"
    using fit unfolding emit_shf_def shl_restricted[OF assms(2,3)] by (simp add: emit_shf_raw_def)
  have u8: "unat (ucast x :: u8) = unat x" if "unat x < 32" for x :: u32
    using that by (simp add: unsigned_ucast_eq take_bit_nat_eq_self)
  have u16: "unat (ucast y :: u16) = unat y" for y :: u8
    using unsigned_less[of y, where ?'a = nat] by (simp add: unsigned_ucast_eq take_bit_nat_eq_self)
  have u: "unat (ucast d :: u8) = unat d" "unat (ucast s :: u8) = unat s"
    "unat (ucast (ucast d :: u8) :: u16) = unat d" "unat (ucast (ucast s :: u8) :: u16) = unat s"
    by (simp_all only: u16 u8[OF assms(2)] u8[OF assms(3)])
  have v: "unat (32 - n) = 32 - unat n" using assms(5) by (simp add: unat_sub word_le_nat_alt)
  have hi: "\<not> bit (ucast x :: u8) 5" "\<not> bit (ucast x :: u8) 7" if "unat x < 32" for x :: u32
    using bit_small[of x 5 5] bit_small[of x 5 7] that by (auto simp: bit_ucast_iff)
  have c: "ucast (ucast (ucast y :: u16) :: u64) = y" for y :: u8
    by (rule bit_word_eqI) (auto simp: bit_ucast_iff)
  have sh: "unat (ucast (32 - n) :: u64) = 32 - unat n"
    using v by (simp add: unsigned_ucast_eq take_bit_nat_eq_self)
  have s: "me_step isa ?w st = Some (write_gpr ALU_DST_A True (unat d) (push_bit (unat n) (me_gpr st ALU_DST_B (unat s))) st)" for st
  proof -
    have r: "read_re st ALU_DST_B False (ucast s) = me_gpr st ALU_DST_B (unat s)" using hi[OF assms(3)] u by (simp add: read_re_def)
    have w: "write_re ALU_DST_A True (ucast d) y st = write_gpr ALU_DST_A True (unat d) y st" for y using hi[OF assms(2)] u by (simp add: write_re_def)
    have b: "unat (ucast (ucast d :: u8) :: u16) < 256" "unat (ucast (ucast s :: u8) :: u16) < 256" "unat (32 - n) < 32" using u v assms by simp_all
    note f = shf_word_fields[of "ucast (ucast d :: u8)" 0 "ucast (ucast s :: u8)" "32 - n" SHF_OP_NONE SHF_SC_L_SHF ALU_DST_A False False True]
    show ?thesis using b me_doc_shf(1)[OF doc assms(4,5)]
      by (simp add: step_shf_def word_ab_def f alu_dst_bit_def c sh r w)
  qed
  have "straight isa [?w] (\<lambda>st st'. \<forall>y. reg_is st (unat s) y \<longrightarrow> reg_is st' (unat d) (push_bit (unat n) y) \<and> frame {unat d} st st')"
    unfolding straight_def
  proof (intro conjI allI)
    fix st
    let ?st = "write_gpr ALU_DST_A True (unat d) (push_bit (unat n) (me_gpr st ALU_DST_B (unat s))) st"
    have "me_run isa [?w] st = Some (False, ?st)" by (simp only: me_run.simps not_br if_False s bind.bind_lunit)
    moreover have "\<forall>y. reg_is st (unat s) y \<longrightarrow> reg_is ?st (unat d) (push_bit (unat n) y) \<and> frame {unat d} st ?st"
      by (simp add: reg_is_def write_gpr_def frame_def)
    ultimately show "\<exists>st'. me_run isa [?w] st = Some (False, st') \<and> (\<forall>y. reg_is st (unat s) y \<longrightarrow>
        reg_is st' (unat d) (push_bit (unat n) y) \<and> frame {unat d} st st')" by blast
  qed simp
  then show ?thesis unfolding e using emits_push by blast
qed

end
