(* ===== verification/Bpf_Alu.thy ===== *)
theory Bpf_Alu
  imports Bpf_Correct
begin

text \<open>
  Every arithmetic callback of the table of \<open>bpf/jit.c\<close> against the reference semantics.
\<close>

section \<open>Halves of the 32-bit instructions\<close>

lemma scratch_ne: "regs_fit n p \<Longrightarrow> unat r < n \<Longrightarrow> 2 * unat r \<noteq> scratch p \<and> 2 * unat r + 1 \<noteq> scratch p \<and> scratch p < 254"
  by (auto simp: regs_fit_def)

lemma alu32_reg_computes:
  assumes doc: "me_documented isa" and fit: "regs_fit n p" "unat (bi_dst_reg (im_insn meta)) < n" "unat (bi_src_reg (im_insn meta)) < n"
    and op: "op AND 0x1f = op" and f: "\<And>x y c. f x y = fst (isa_alu isa op x y c)"
  shows "computes isa n p (snd (wrp_alu32_reg op meta p)) (unat (bi_dst_reg (im_insn meta)))
    (\<lambda>R. ucast (f (lo32 (R (unat (bi_dst_reg (im_insn meta))))) (lo32 (R (unat (bi_src_reg (im_insn meta)))))))"
proof -
  let ?dr = "bi_dst_reg (im_insn meta)" and ?sr = "bi_src_reg (im_insn meta)"
  let ?q = "emit_alu (reg_both (reg_lo ?dr)) (reg_a (reg_lo ?dr)) op (reg_b (reg_lo ?sr)) p"
  obtain u where u: "emits p ?q [u]" "straight isa [u] (\<lambda>st st'. \<forall>x y v c.
      reg_is st (2 * unat ?dr) x \<and> reg_is st (2 * unat ?sr) y \<and> isa_alu isa op x y (me_carry st) = (v, c) \<longrightarrow>
      reg_is st' (2 * unat ?dr) v \<and> me_carry st' = c \<and> frame {2 * unat ?dr} st st')"
    using alu_regs_emits[OF op reg_small(1)[of ?dr] reg_small(1)[of ?sr], of p isa] by (auto simp: reg_nums)
  have "computes isa n p (wrp_immed (reg_both (reg_hi ?dr)) 0 ?q) (unat ?dr) (\<lambda>R. ucast (f (lo32 (R (unat ?dr))) (lo32 (R (unat ?sr)))))"
  proof (rule then_immed_computes[OF doc fit(1,2) u(1) straight_weaken[OF u(2)]], intro allI impI)
    fix st st' R
    assume a: "\<forall>x y v c. reg_is st (2 * unat ?dr) x \<and> reg_is st (2 * unat ?sr) y \<and> isa_alu isa op x y (me_carry st) = (v, c) \<longrightarrow>
      reg_is st' (2 * unat ?dr) v \<and> me_carry st' = c \<and> frame {2 * unat ?dr} st st'" and m: "matches n st R"
    obtain v c where r: "isa_alu isa op (lo32 (R (unat ?dr))) (lo32 (R (unat ?sr))) (me_carry st) = (v, c)" by force
    then have "reg_is st' (2 * unat ?dr) v \<and> frame {2 * unat ?dr} st st'"
      using a matches_regs(1)[OF m fit(2)] matches_regs(1)[OF m fit(3)] by blast
    then show "frame {2 * unat ?dr, scratch p} st st' \<and> reg_is st' (2 * unat ?dr) (lo32 (ucast (f (lo32 (R (unat ?dr))) (lo32 (R (unat ?sr))))))"
      using r f[of _ _ "me_carry st"] by (auto simp: half_ext intro: frame_mono)
  qed (simp add: half_ext)
  then show ?thesis by (simp add: wrp_alu32_reg_def Let_def cb_ok_def)
qed

lemma alu32_imm_computes:
  assumes doc: "me_documented isa" and fit: "regs_fit n p" "unat (bi_dst_reg (im_insn meta)) < n"
    and op: "op \<in> {ALU_OP_AND, ALU_OP_OR, ALU_OP_XOR, ALU_OP_ADD, ALU_OP_SUB}"
    and f: "\<And>x c. f x = fst (isa_alu isa op x (bi_imm (im_insn meta)) c)"
  shows "computes isa n p (snd (wrp_alu32_imm op False meta p)) (unat (bi_dst_reg (im_insn meta)))
    (\<lambda>R. ucast (f (lo32 (R (unat (bi_dst_reg (im_insn meta)))))))"
proof -
  let ?dr = "bi_dst_reg (im_insn meta)" and ?imm = "bi_imm (im_insn meta)"
  let ?q = "wrp_alu_imm (ucast (reg_lo ?dr)) op ?imm p"
  note k = scratch_ne[OF fit]
  obtain us where us: "emits p ?q us" "straight isa us (\<lambda>st st'. \<forall>x. reg_is st (2 * unat ?dr) x \<longrightarrow>
      reg_is st' (2 * unat ?dr) (f x) \<and> frame {2 * unat ?dr, scratch p} st st')"
  proof (cases "op \<in> {ALU_OP_AND, ALU_OP_OR, ALU_OP_XOR}")
    case True
    show ?thesis
      using alu_imm_logic[OF doc _ _ True, of p "ucast (reg_lo ?dr)" ?imm] k that by (auto simp: u8_reg f[of _ False])
  next
    case False
    then have op5: "op AND 0x1f = op" using op by auto
    obtain us where us: "emits p ?q us" "straight isa us (\<lambda>st st'. \<forall>x v c. reg_is st (2 * unat ?dr) x \<and>
        isa_alu isa op x ?imm (me_carry st) = (v, c) \<longrightarrow>
        reg_is st' (2 * unat ?dr) v \<and> me_carry st' = c \<and> frame {2 * unat ?dr, scratch p} st st')"
      using alu_imm_half[OF doc _ _ op5, of p "ucast (reg_lo ?dr)" ?imm] k False by (auto simp: u8_reg)
    show ?thesis
    proof (rule that[OF us(1) straight_weaken[OF us(2)]], intro allI impI)
      fix st st' x
      assume a: "\<forall>x v c. reg_is st (2 * unat ?dr) x \<and> isa_alu isa op x ?imm (me_carry st) = (v, c) \<longrightarrow>
        reg_is st' (2 * unat ?dr) v \<and> me_carry st' = c \<and> frame {2 * unat ?dr, scratch p} st st'" and x: "reg_is st (2 * unat ?dr) x"
      obtain v c where "isa_alu isa op x ?imm (me_carry st) = (v, c)" by force
      then show "reg_is st' (2 * unat ?dr) (f x) \<and> frame {2 * unat ?dr, scratch p} st st'" using a x f[of x "me_carry st"] by auto
    qed
  qed
  have "computes isa n p (wrp_immed (reg_both (reg_hi ?dr)) 0 ?q) (unat ?dr) (\<lambda>R. ucast (f (lo32 (R (unat ?dr)))))"
    by (rule then_immed_computes[OF doc fit us(1) straight_weaken[OF us(2)]])
      (auto dest: matches_regs(1)[OF _ fit(2)] simp: half_ext)
  then show ?thesis by (simp add: wrp_alu32_imm_def Let_def cb_ok_def)
qed

lemma immed_then_computes:
  assumes doc: "me_documented isa" and fit: "regs_fit n p" "unat dr < n"
  shows "computes isa n p (wrp_immed (reg_both (reg_hi dr)) (hi32 v) (wrp_immed (reg_both (reg_lo dr)) (lo32 v) p)) (unat dr) (\<lambda>_. v)"
proof -
  obtain us where us: "emits p (wrp_immed (reg_both (reg_lo dr)) (lo32 v) p) us"
    "straight isa us (\<lambda>st st'. reg_is st' (2 * unat dr) (lo32 v) \<and> frame {2 * unat dr} st st')"
    using immed_emits[OF doc reg_small(1)[of dr], of p "lo32 v"] by (auto simp: reg_nums)
  show ?thesis by (rule then_immed_computes[OF doc fit us(1) straight_weaken[OF us(2)]]) (auto intro: frame_mono)
qed

lemma low_then_zero_computes:
  assumes doc: "me_documented isa" and fit: "regs_fit n p" "unat dr < n" "unat sr < n"
    and us: "emits p q us" "straight isa us (\<lambda>st st'. \<forall>y. reg_is st (2 * unat sr) y \<longrightarrow> reg_is st' (2 * unat dr) (g y) \<and> frame {2 * unat dr} st st')"
  shows "computes isa n p (wrp_immed (reg_both (reg_hi dr)) 0 q) (unat dr) (\<lambda>R. ucast (g (lo32 (R (unat sr)))))"
  by (rule then_immed_computes[OF doc fit(1,2) us(1) straight_weaken[OF us(2)]])
    (auto dest: matches_regs(1)[OF _ fit(3)] simp: half_ext intro: frame_mono)

lemma high_to_low_computes:
  assumes doc: "me_documented isa" and fit: "regs_fit n p" "unat dr < n"
  shows "computes isa n p (wrp_immed (reg_both (reg_hi dr)) 0 (wrp_reg_mov (ucast (reg_lo dr)) (ucast (reg_hi dr)) p)) (unat dr)
    (\<lambda>R. drop_bit 32 (R (unat dr)))"
proof -
  obtain us where us: "emits p (wrp_reg_mov (ucast (reg_lo dr)) (ucast (reg_hi dr)) p) us" "straight isa us
      (\<lambda>st st'. \<forall>y. reg_is st (2 * unat dr + 1) y \<longrightarrow> reg_is st' (2 * unat dr) y \<and> frame {2 * unat dr} st st')"
    using mov_segment(4)[OF doc] by blast
  show ?thesis
    by (rule then_immed_computes[OF doc fit us(1) straight_weaken[OF us(2)]])
      (auto dest: matches_regs(2)[OF _ fit(2), simplified] simp: half_shift intro: frame_mono)
qed

lemma low_to_high_computes:
  assumes doc: "me_documented isa" and fit: "regs_fit n p" "unat dr < n"
  shows "computes isa n p (wrp_immed (reg_both (reg_lo dr)) 0 (wrp_reg_mov (ucast (reg_hi dr)) (ucast (reg_lo dr)) p)) (unat dr)
    (\<lambda>R. push_bit 32 (R (unat dr)))"
proof -
  let ?q = "wrp_reg_mov (ucast (reg_hi dr)) (ucast (reg_lo dr)) p"
  obtain us where us: "emits p ?q us" "straight isa us
      (\<lambda>st st'. \<forall>y. reg_is st (2 * unat dr) y \<longrightarrow> reg_is st' (2 * unat dr + 1) y \<and> frame {2 * unat dr + 1} st st')"
    using mov_segment(3)[OF doc] by blast
  obtain ws where ws: "emits ?q (wrp_immed (reg_both (reg_lo dr)) 0 ?q) ws"
    "straight isa ws (\<lambda>st st'. reg_is st' (2 * unat dr) 0 \<and> frame {2 * unat dr} st st')"
    using immed_emits[OF doc reg_small(1)[of dr], of ?q 0] by (auto simp: reg_nums)
  show ?thesis
    by (rule hi_then_lo_computes[OF fit us(1) straight_weaken[OF us(2)] ws(1) straight_weaken[OF ws(2)]])
      (auto dest: matches_regs(1)[OF _ fit(2)] simp: half_shift)
qed


section \<open>The table\<close>

text \<open>What a callback owes the code it stands for in the table.\<close>

definition cb_refines :: "me_isa \<Rightarrow> nat \<Rightarrow> u8 \<Rightarrow> instr_cb \<Rightarrow> bool" where
  "cb_refines isa n code cb \<longleftrightarrow> (\<forall>meta p meta' q. bi_code (im_insn meta) = code \<and> regs_fit n p \<and> room p \<and>
     unat (bi_dst_reg (im_insn meta)) < n \<and> unat (bi_src_reg (im_insn meta)) < n \<and> cb meta p = ((0, meta'), q) \<and>
     (BPF_CLASS code = BPF_ALU \<longrightarrow> \<not> im_skip meta' \<and> (code = 0x64 \<longrightarrow> unat (bi_imm (im_insn meta)) < 32)) \<longrightarrow>
     computes isa n p q (unat (bi_dst_reg (im_insn meta))) (bpf_alu (im_insn meta)))"

lemma cb_refinesI:
  assumes "\<And>meta p. \<lbrakk>bi_code (im_insn meta) = code; regs_fit n p; room p; unat (bi_dst_reg (im_insn meta)) < n;
      unat (bi_src_reg (im_insn meta)) < n; fst (fst (cb meta p)) = 0;
      BPF_CLASS code = BPF_ALU \<Longrightarrow> \<not> im_skip (snd (fst (cb meta p))) \<and> (code = 0x64 \<longrightarrow> unat (bi_imm (im_insn meta)) < 32)\<rbrakk> \<Longrightarrow>
      computes isa n p (snd (cb meta p)) (unat (bi_dst_reg (im_insn meta))) (bpf_alu (im_insn meta))"
  shows "cb_refines isa n code cb"
  unfolding cb_refines_def
proof (intro allI impI, elim conjE)
  fix meta p meta' q
  assume a: "bi_code (im_insn meta) = code" "regs_fit n p" "room p" "unat (bi_dst_reg (im_insn meta)) < n" "unat (bi_src_reg (im_insn meta)) < n"
    "cb meta p = ((0, meta'), q)" "BPF_CLASS code = BPF_ALU \<longrightarrow> \<not> im_skip meta' \<and> (code = 0x64 \<longrightarrow> unat (bi_imm (im_insn meta)) < 32)"
  show "computes isa n p q (unat (bi_dst_reg (im_insn meta))) (bpf_alu (im_insn meta))"
  proof -
    have "computes isa n p (snd (cb meta p)) (unat (bi_dst_reg (im_insn meta))) (bpf_alu (im_insn meta))"
      by (rule assms[OF a(1-5)]) (use a(6,7) in simp_all)
    then show ?thesis using a(6) by simp
  qed
qed

text \<open>The value of an instruction, by its code.\<close>

lemma bpf_alu_unfold:
  "bpf_alu insn = (\<lambda>R. if BPF_CLASS (bi_code insn) = BPF_ALU64 then bpf_alu64 (bi_code insn) (R (unat (bi_dst_reg insn))) (bpf_operand insn R)
     else ucast (bpf_alu32 (bi_code insn) (lo32 (R (unat (bi_dst_reg insn)))) (lo32 (bpf_operand insn R))))"
  by (simp add: bpf_alu_def lo32_def Let_def fun_eq_iff)

lemmas alu_code = bpf_alu_unfold bpf_operand_def bpf_alu64_def bpf_alu32_def BPF_CLASS_def

text \<open>64-bit instructions with two registers.\<close>

lemma reg64_refines:
  assumes doc: "me_documented isa"
  shows "cb_refines isa n 0xbf mov_reg64" "cb_refines isa n 0xaf xor_reg64" "cb_refines isa n 0x5f and_reg64"
    "cb_refines isa n 0x4f or_reg64" "cb_refines isa n 0x0f add_reg64" "cb_refines isa n 0x1f sub_reg64"
proof -
  note d = me_doc_alu[OF doc]
  show "cb_refines isa n 0xbf mov_reg64"
    by (rule cb_refinesI) (simp add: mov_reg64_def Let_def cb_ok_def alu_code mov_reg64_computes[OF doc])
  show "cb_refines isa n 0xaf xor_reg64"
    by (rule cb_refinesI) (simp add: xor_reg64_def wrp_alu64_reg_def alu_code alu_reg_pair_computes[where f = "(XOR)"] d half_logic)
  show "cb_refines isa n 0x5f and_reg64"
    by (rule cb_refinesI) (simp add: and_reg64_def wrp_alu64_reg_def alu_code alu_reg_pair_computes[where f = "(AND)"] d half_logic)
  show "cb_refines isa n 0x4f or_reg64"
    by (rule cb_refinesI) (simp add: or_reg64_def wrp_alu64_reg_def alu_code alu_reg_pair_computes[where f = "(OR)"] d half_logic)
  show "cb_refines isa n 0x0f add_reg64"
    by (rule cb_refinesI) (simp add: add_reg64_def alu_code alu_reg_pair_computes[where f = "(+)"] d half_add)
  show "cb_refines isa n 0x1f sub_reg64"
    by (rule cb_refinesI) (simp add: sub_reg64_def alu_code alu_reg_pair_computes[where f = "(-)"] d half_sub)
qed


text \<open>64-bit instructions with an immediate.\<close>

lemma not_zero_iff: "NOT (x :: 'a::len word) = 0 \<longleftrightarrow> x = - 1"
  by (metis bit.compl_zero bit.double_compl)

lemma imm_sx_special: "bi_imm insn = 0 \<Longrightarrow> imm_sx insn = 0" "bi_imm insn = - 1 \<Longrightarrow> imm_sx insn = - 1" "bi_imm insn = 32 \<Longrightarrow> imm_sx insn = 32"
  by (simp_all add: imm_sx_def)

lemma computes_nothing:
  assumes "\<And>R. f R = R d"
  shows "computes isa n p p d f"
  unfolding computes_def
  by (rule segmentI[of _ _ "[]" _ "(=)"]) (use assms in \<open>simp_all add: straight_def\<close>)

lemma alu64_imm_computes:
  assumes doc: "me_documented isa" and fit: "regs_fit n p" "room p" "unat (bi_dst_reg (im_insn meta)) < n"
    and ops: "op \<in> {ALU_OP_AND, ALU_OP_OR, ALU_OP_XOR}"
    and f: "\<And>x. lo32 (f x) = fst (isa_alu isa op (lo32 x) (lo32 (imm_sx (im_insn meta))) False)"
      "\<And>x. hi32 (f x) = fst (isa_alu isa op (hi32 x) (hi32 (imm_sx (im_insn meta))) False)"
    and skip: "skip \<Longrightarrow> (\<And>x. f x = x)"
  shows "computes isa n p (snd (wrp_alu64_imm op skip meta p)) (unat (bi_dst_reg (im_insn meta))) (\<lambda>R. f (R (unat (bi_dst_reg (im_insn meta)))))"
proof (cases skip)
  case True
  then show ?thesis using computes_nothing[of "\<lambda>R. f (R (unat (bi_dst_reg (im_insn meta))))"] skip
    by (simp add: wrp_alu64_imm_def Let_def cb_ok_def)
next
  case False
  then show ?thesis
    using alu_logic_computes[OF doc fit ops f]
    by (simp add: wrp_alu64_imm_def Let_def cb_ok_def imm_halves(1,2))
qed

lemma imm64_refines:
  assumes doc: "me_documented isa"
  shows "cb_refines isa n 0xb7 mov_imm64" "cb_refines isa n 0xa7 xor_imm64" "cb_refines isa n 0x57 and_imm64"
    "cb_refines isa n 0x47 or_imm64" "cb_refines isa n 0x07 add_imm64" "cb_refines isa n 0x17 sub_imm64"
    "cb_refines isa n 0x67 shl_imm64" "cb_refines isa n 0x77 shr_imm64"
proof -
  note d = me_doc_alu[OF doc] and l64 = alu64_imm_computes[OF doc]
  show "cb_refines isa n 0xb7 mov_imm64"
    by (rule cb_refinesI) (simp add: mov_imm64_def Let_def cb_ok_def alu_code imm_halves(1,2) immed_then_computes[OF doc])
  show "cb_refines isa n 0xa7 xor_imm64"
    by (rule cb_refinesI)
      (simp add: xor_imm64_def alu_code l64[where f = "\<lambda>x. x XOR imm_sx i" for i] d half_logic imm_sx_special)
  show "cb_refines isa n 0x57 and_imm64"
    by (rule cb_refinesI)
      (simp add: and_imm64_def alu_code l64[where f = "\<lambda>x. x AND imm_sx i" for i] d half_logic imm_sx_special not_zero_iff)
  show "cb_refines isa n 0x47 or_imm64"
    by (rule cb_refinesI)
      (simp add: or_imm64_def alu_code l64[where f = "\<lambda>x. x OR imm_sx i" for i] d half_logic imm_sx_special)
  have pair: "alu_imm_pair ALU_OP_ADD ALU_OP_ADD_C meta p = cb_ok meta (wrp_alu_imm (ucast (reg_hi dr)) ALU_OP_ADD_C (hi32 v)
      (wrp_alu_imm (ucast (reg_lo dr)) ALU_OP_ADD (lo32 v) p))"
    "alu_imm_pair ALU_OP_SUB ALU_OP_SUB_C meta p = cb_ok meta (wrp_alu_imm (ucast (reg_hi dr)) ALU_OP_SUB_C (hi32 v)
      (wrp_alu_imm (ucast (reg_lo dr)) ALU_OP_SUB (lo32 v) p))"
    if "dr = bi_dst_reg (im_insn meta)" "v = imm_sx (im_insn meta)" for meta p dr v
    using that by (simp_all add: alu_imm_pair_def Let_def imm_halves(1,2))
  show "cb_refines isa n 0x07 add_imm64"
    by (rule cb_refinesI)
      (simp add: add_imm64_def pair[OF refl refl] cb_ok_def alu_code alu_arith_computes[OF doc, where f = "\<lambda>x. x + imm_sx i" for i] d half_add)
  show "cb_refines isa n 0x17 sub_imm64"
    by (rule cb_refinesI)
      (simp add: sub_imm64_def pair[OF refl refl] cb_ok_def alu_code alu_arith_computes[OF doc, where f = "\<lambda>x. x - imm_sx i" for i] d half_sub)
  show "cb_refines isa n 0x67 shl_imm64"
    by (rule cb_refinesI)
      (simp add: shl_imm64_def Let_def cb_ok_def cb_err_def alu_code imm_sx_special low_to_high_computes[OF doc] split: if_split_asm)
  show "cb_refines isa n 0x77 shr_imm64"
    by (rule cb_refinesI)
      (simp add: shr_imm64_def Let_def cb_ok_def cb_err_def alu_code imm_sx_special high_to_low_computes[OF doc] split: if_split_asm)
qed

text \<open>32-bit instructions.\<close>

lemma reg32_refines:
  assumes doc: "me_documented isa"
  shows "cb_refines isa n 0xbc mov_reg" "cb_refines isa n 0xac xor_reg" "cb_refines isa n 0x5c and_reg"
    "cb_refines isa n 0x4c or_reg" "cb_refines isa n 0x0c add_reg" "cb_refines isa n 0x1c sub_reg"
proof -
  note d = me_doc_alu[OF doc] and l32 = alu32_reg_computes[OF doc]
  show "cb_refines isa n 0xbc mov_reg"
  proof (rule cb_refinesI)
    fix meta :: nfp_insn_meta and p
    let ?dr = "bi_dst_reg (im_insn meta)" and ?sr = "bi_src_reg (im_insn meta)"
    assume a: "bi_code (im_insn meta) = 0xbc" "regs_fit n p" "unat ?dr < n" "unat ?sr < n"
    obtain us where us: "emits p (wrp_reg_mov (ucast (reg_lo ?dr)) (ucast (reg_lo ?sr)) p) us"
      "straight isa us (\<lambda>st st'. \<forall>y. reg_is st (2 * unat ?sr) y \<longrightarrow> reg_is st' (2 * unat ?dr) y \<and> frame {2 * unat ?dr} st st')"
      using mov_segment(1)[OF doc] by blast
    show "computes isa n p (snd (mov_reg meta p)) (unat ?dr) (bpf_alu (im_insn meta))"
      using low_then_zero_computes[OF doc a(2-4) us] a(1) by (simp add: mov_reg_def Let_def cb_ok_def alu_code)
  qed
  show "cb_refines isa n 0xac xor_reg" by (rule cb_refinesI) (simp add: xor_reg_def alu_code l32[where f = "(XOR)"] d)
  show "cb_refines isa n 0x5c and_reg" by (rule cb_refinesI) (simp add: and_reg_def alu_code l32[where f = "(AND)"] d)
  show "cb_refines isa n 0x4c or_reg" by (rule cb_refinesI) (simp add: or_reg_def alu_code l32[where f = "(OR)"] d)
  show "cb_refines isa n 0x0c add_reg" by (rule cb_refinesI) (simp add: add_reg_def alu_code l32[where f = "(+)"] d)
  show "cb_refines isa n 0x1c sub_reg" by (rule cb_refinesI) (simp add: sub_reg_def alu_code l32[where f = "(-)"] d)
qed


lemma alu32_imm_refines:
  assumes doc: "me_documented isa"
    and op: "op \<in> {ALU_OP_AND, ALU_OP_OR, ALU_OP_XOR, ALU_OP_ADD, ALU_OP_SUB}"
    and f: "\<And>x y c. f x y = fst (isa_alu isa op x y c)"
    and code: "\<And>insn R. bi_code insn = code \<Longrightarrow> bpf_alu insn R = ucast (f (lo32 (R (unat (bi_dst_reg insn)))) (bi_imm insn))"
    and cls: "BPF_CLASS code = BPF_ALU"
    and cb: "\<And>meta p. cb meta p = wrp_alu32_imm op (skip meta) meta p"
  shows "cb_refines isa n code cb"
proof (rule cb_refinesI)
  fix meta :: nfp_insn_meta and p
  let ?dr = "bi_dst_reg (im_insn meta)"
  assume a: "bi_code (im_insn meta) = code" "regs_fit n p" "unat ?dr < n"
    and s: "BPF_CLASS code = BPF_ALU \<Longrightarrow> \<not> im_skip (snd (fst (cb meta p))) \<and> (code = 0x64 \<longrightarrow> unat (bi_imm (im_insn meta)) < 32)"
  have "\<not> skip meta" using s[OF cls] by (auto simp: cb wrp_alu32_imm_def Let_def cb_ok_def)
  then have "cb meta p = wrp_alu32_imm op False meta p" by (simp add: cb)
  moreover have "bpf_alu (im_insn meta) = (\<lambda>R. ucast (f (lo32 (R (unat ?dr))) (bi_imm (im_insn meta))))"
    using code[OF a(1)] by (simp add: fun_eq_iff)
  ultimately show "computes isa n p (snd (cb meta p)) (unat ?dr) (bpf_alu (im_insn meta))"
    using alu32_imm_computes[OF doc a(2,3) op f] by simp
qed

lemma imm32_refines:
  assumes doc: "me_documented isa"
  shows "cb_refines isa n 0xb4 mov_imm" "cb_refines isa n 0xa4 xor_imm" "cb_refines isa n 0x54 and_imm"
    "cb_refines isa n 0x44 or_imm" "cb_refines isa n 0x04 add_imm" "cb_refines isa n 0x14 sub_imm" "cb_refines isa n 0x64 shl_imm"
proof -
  note d = me_doc_alu[OF doc] and l = imm_halves(3)
  show "cb_refines isa n 0xa4 xor_imm"
    by (rule alu32_imm_refines[OF doc, where f = "(XOR)"]) (simp_all add: d xor_imm_def alu_code l)
  show "cb_refines isa n 0x54 and_imm"
    by (rule alu32_imm_refines[OF doc, where f = "(AND)"]) (simp_all add: d and_imm_def alu_code l)
  show "cb_refines isa n 0x44 or_imm"
    by (rule alu32_imm_refines[OF doc, where f = "(OR)"]) (simp_all add: d or_imm_def alu_code l)
  show "cb_refines isa n 0x04 add_imm"
    by (rule alu32_imm_refines[OF doc, where f = "(+)"]) (simp_all add: d add_imm_def alu_code l)
  show "cb_refines isa n 0x14 sub_imm"
    by (rule alu32_imm_refines[OF doc, where f = "(-)"]) (simp_all add: d sub_imm_def alu_code l)
  show "cb_refines isa n 0xb4 mov_imm"
  proof (rule cb_refinesI)
    fix meta :: nfp_insn_meta and p
    let ?dr = "bi_dst_reg (im_insn meta)"
    assume a: "bi_code (im_insn meta) = 0xb4" "regs_fit n p" "unat ?dr < n"
    show "computes isa n p (snd (mov_imm meta p)) (unat ?dr) (bpf_alu (im_insn meta))"
      using immed_then_computes[OF doc a(2,3), of "ucast (bi_imm (im_insn meta))"] a(1)
      by (simp add: mov_imm_def Let_def cb_ok_def alu_code l half_ext)
  qed
  show "cb_refines isa n 0x64 shl_imm"
  proof (rule cb_refinesI)
    fix meta :: nfp_insn_meta and p
    let ?dr = "bi_dst_reg (im_insn meta)" and ?imm = "bi_imm (im_insn meta)"
    assume a: "bi_code (im_insn meta) = 0x64" "regs_fit n p" "unat ?dr < n" and e: "fst (fst (shl_imm meta p)) = 0"
      and s: "BPF_CLASS 0x64 = BPF_ALU \<Longrightarrow> \<not> im_skip (snd (fst (shl_imm meta p))) \<and> (0x64 = (0x64 :: u8) \<longrightarrow> unat ?imm < 32)"
    have i: "?imm \<noteq> 0" using e by (auto simp: shl_imm_def cb_err_def)
    have small: "unat ?imm < 32" using s by (simp add: BPF_CLASS_def)
    have u: "unat (ucast ?imm :: u8) = unat ?imm" using small by (simp add: unsigned_ucast_eq take_bit_nat_eq_self)
    have pos: "0 < unat ?imm" using i by (simp add: unat_gt_0)
    have r: "unat (reg_lo ?dr) < 32" using reg_nums[of ?dr] by simp
    obtain w where w: "emits p (emit_shf (reg_both (reg_lo ?dr)) reg_none SHF_OP_NONE (reg_b (reg_lo ?dr)) SHF_SC_L_SHF (ucast ?imm) p) [w]"
      "straight isa [w] (\<lambda>st st'. \<forall>y. reg_is st (2 * unat ?dr) y \<longrightarrow> reg_is st' (2 * unat ?dr) (push_bit (unat ?imm) y) \<and> frame {2 * unat ?dr} st st')"
      using shl_emits[OF doc r r, of "ucast ?imm" p] u pos small by (auto simp: reg_nums)
    show "computes isa n p (snd (shl_imm meta p)) (unat ?dr) (bpf_alu (im_insn meta))"
      using low_then_zero_computes[OF doc a(2,3,3) w] a(1) i
      by (simp add: shl_imm_def Let_def cb_ok_def alu_code l)
  qed
qed

text \<open>The arithmetic part of the table.\<close>

lemma alu_table:
  assumes "me_documented isa" "(code, cb) \<in> set (instr_cb cl)" "BPF_CLASS code \<in> {BPF_ALU, BPF_ALU64}"
  shows "cb_refines isa n code cb"
  using assms(2,3) unfolding instr_cb_def
  by (simp add: BPF_CLASS_def) (elim disjE; simp add: reg64_refines[OF assms(1)] imm64_refines[OF assms(1)] reg32_refines[OF assms(1)] imm32_refines[OF assms(1)])

text \<open>The 32-bit instructions whose callbacks leave them out as no-ops: those with the immediate the callback tests
  for, \<open>!~insn->imm\<close> or \<open>!insn->imm\<close>.\<close>

definition left_out :: "bpf_insn \<Rightarrow> bool" where
  "left_out insn \<longleftrightarrow> bi_code insn \<in> {0x54, 0xa4} \<and> bi_imm insn = - 1 \<or> bi_code insn \<in> {0x44, 0x04, 0x14} \<and> bi_imm insn = 0"

lemma wrp_alu32_imm_skip:
  "wrp_alu32_imm op b meta p = ((0, meta'), q) \<Longrightarrow> \<not> im_skip meta \<Longrightarrow> im_skip meta' = b \<and> (b \<longrightarrow> q = p)"
  by (auto simp: wrp_alu32_imm_def Let_def cb_ok_def split: if_split_asm)

lemma left_out_emits_nothing:
  assumes "(bi_code (im_insn meta), cb) \<in> set (instr_cb cl)" "BPF_CLASS (bi_code (im_insn meta)) \<in> {BPF_ALU, BPF_ALU64}"
    and "cb meta p = ((0, meta'), q)" "\<not> im_skip meta"
  shows "(left_out (im_insn meta) \<longrightarrow> q = p) \<and> (BPF_CLASS (bi_code (im_insn meta)) = BPF_ALU \<longrightarrow> im_skip meta' = left_out (im_insn meta))"
proof -
  note w = wrp_alu32_imm_skip[OF _ assms(4)]
  have "bi_code (im_insn meta) \<in> {0x54, 0xa4, 0x44, 0x04, 0x14} \<Longrightarrow>
      \<exists>op. cb meta p = wrp_alu32_imm op (left_out (im_insn meta)) meta p"
    using assms(1) unfolding instr_cb_def left_out_def
    by (simp add: BPF_CLASS_def) (elim disjE; auto simp: and_imm_def xor_imm_def or_imm_def add_imm_def sub_imm_def not_zero_iff)
  moreover have "bi_code (im_insn meta) \<notin> {0x54, 0xa4, 0x44, 0x04, 0x14} \<Longrightarrow> BPF_CLASS (bi_code (im_insn meta)) = BPF_ALU \<Longrightarrow>
      im_skip meta' = False"
    using assms unfolding instr_cb_def
    by (simp add: BPF_CLASS_def) (elim disjE; auto simp: mov_reg_def xor_reg_def and_reg_def or_reg_def add_reg_def sub_reg_def
        mov_imm_def shl_imm_def wrp_alu32_reg_def Let_def cb_ok_def cb_err_def split: if_split_asm)
  moreover have "bi_code (im_insn meta) \<notin> {0x54, 0xa4, 0x44, 0x04, 0x14} \<Longrightarrow> \<not> left_out (im_insn meta)"
    by (auto simp: left_out_def)
  ultimately show ?thesis using w assms(3) by (cases "bi_code (im_insn meta) \<in> {0x54, 0xa4, 0x44, 0x04, 0x14}") (metis, blast)
qed

section \<open>Properties\<close>

text \<open>Claim C20. The code a callback of the table emits for an arithmetic instruction, 64-bit or 32-bit, with a register
  or an immediate, sets the destination to what the instruction computes and keeps every other BPF register, whenever the
  callback succeeds and the registers fit. The exception is a 32-bit instruction whose immediate the callback takes for a
  no-op (\<open>left_out\<close>: and, exclusive or with all ones; or, add, subtract with zero): the emitted code then keeps every register,
  the destination too, although the instruction clears its upper half (and the exclusive or inverts the lower one).
  A 32-bit shift is by less than 32, as the kernel's verifier demands, and the instruction is not already marked
  as skipped when its callback runs.\<close>

theorem jit_alu_refines:
  assumes "me_documented isa" and "map_of (instr_cb cl) (bi_code (im_insn meta)) = Some cb"
    and "BPF_CLASS (bi_code (im_insn meta)) \<in> {BPF_ALU, BPF_ALU64}" and "cb meta p = ((0, meta'), q)"
    and "regs_fit n p" and "room p" and "unat (bi_dst_reg (im_insn meta)) < n" and "unat (bi_src_reg (im_insn meta)) < n"
    and "\<not> im_skip meta" and "bi_code (im_insn meta) = 0x64 \<Longrightarrow> unat (bi_imm (im_insn meta)) < 32"
  shows "computes isa n p q (unat (bi_dst_reg (im_insn meta)))
    (\<lambda>R. if left_out (im_insn meta) then R (unat (bi_dst_reg (im_insn meta))) else bpf_alu (im_insn meta) R)"
proof -
  note l = left_out_emits_nothing[OF map_of_SomeD[OF assms(2)] assms(3,4,9)]
  have "cb_refines isa n (bi_code (im_insn meta)) cb" by (rule alu_table[OF assms(1) map_of_SomeD[OF assms(2)] assms(3)])
  then have "\<not> left_out (im_insn meta) \<Longrightarrow> computes isa n p q (unat (bi_dst_reg (im_insn meta))) (bpf_alu (im_insn meta))"
    using assms(4-8,10) l unfolding cb_refines_def by blast
  then show ?thesis using l by (cases "left_out (im_insn meta)") (simp_all add: computes_nothing)
qed

lemma jit_alu_refines_witness:
  "let insn = \<lparr>bi_code = 0x17, bi_dst_reg = 1, bi_src_reg = 0, bi_off = 0, bi_imm = 0xffffff00\<rparr>;
       meta = \<lparr>im_insn = insn, im_off = 0, im_n = 0, im_skip = False, im_double = False\<rparr>;
       p = (new_prog NN_ACT_XDP 0 0)\<lparr>np_regs_per_thread := 16, np_alloc_len := 8\<rparr>
   in computes sample_isa 3 p (snd (sub_imm64 meta p)) 1 (bpf_alu insn)"
proof -
  define insn where "insn = \<lparr>bi_code = 0x17, bi_dst_reg = 1, bi_src_reg = 0, bi_off = 0, bi_imm = 0xffffff00\<rparr>"
  define meta where "meta = \<lparr>im_insn = insn, im_off = 0, im_n = 0, im_skip = False, im_double = False\<rparr>"
  define p where "p = (new_prog NN_ACT_XDP 0 0)\<lparr>np_regs_per_thread := 16, np_alloc_len := 8\<rparr>"
  have a: "map_of (instr_cb cl) (bi_code (im_insn meta)) = Some sub_imm64" for cl by (simp add: meta_def insn_def instr_cb_def)
  have b: "sub_imm64 meta p = ((0, meta), snd (sub_imm64 meta p))" by (simp add: sub_imm64_def alu_imm_pair_def Let_def cb_ok_def)
  have f: "regs_fit 3 p" "room p" by (simp_all add: regs_fit_def room_def p_def new_prog_def)
  have "computes sample_isa 3 p (snd (sub_imm64 meta p)) (unat (bi_dst_reg (im_insn meta))) (bpf_alu (im_insn meta))"
    using jit_alu_refines[OF sample_documented a _ b f] by (simp add: meta_def insn_def BPF_CLASS_def left_out_def)
  then show ?thesis by (simp add: insn_def[symmetric] meta_def[symmetric] p_def[symmetric] Let_def) (simp add: meta_def insn_def)
qed

text \<open>A 32-bit instruction with an immediate that is left out as a no-op is one only for the low half: the
  emitted code is empty, but the instruction clears the high half; and for the exclusive or, the immediate that is
  left out is all ones, so that no register keeps its value.\<close>

theorem alu32_skip_not_neutral:
  "let insn = \<lambda>code imm. \<lparr>bi_code = code, bi_dst_reg = d, bi_src_reg = 0, bi_off = 0, bi_imm = imm\<rparr>;
       meta = \<lambda>code imm. \<lparr>im_insn = insn code imm, im_off = 0, im_n = 0, im_skip = False, im_double = False\<rparr>;
       skipped = \<lambda>cb code imm. cb (meta code imm) p = ((0, (meta code imm)\<lparr>im_skip := True\<rparr>), p)
   in skipped and_imm 0x54 (- 1) \<and> skipped or_imm 0x44 0 \<and> skipped add_imm 0x04 0 \<and> skipped sub_imm 0x14 0 \<and> skipped xor_imm 0xa4 (- 1) \<and>
      (bpf_alu (insn 0x54 (- 1)) R = R (unat d)) = (hi32 (R (unat d)) = 0) \<and>
      (bpf_alu (insn 0x44 0) R = R (unat d)) = (hi32 (R (unat d)) = 0) \<and>
      (bpf_alu (insn 0x04 0) R = R (unat d)) = (hi32 (R (unat d)) = 0) \<and>
      (bpf_alu (insn 0x14 0) R = R (unat d)) = (hi32 (R (unat d)) = 0) \<and>
      bpf_alu (insn 0xa4 (- 1)) R \<noteq> R (unat d)"
proof -
  have low: "ucast (lo32 v) = v \<longleftrightarrow> hi32 v = 0" for v :: u64
    using lo_hi_eq[of "ucast (lo32 v)" v] by (auto simp: half_ext) (metis half_ext(2))
  have flip: "ucast (NOT (lo32 v)) \<noteq> v" for v :: u64
  proof
    assume "ucast (NOT (lo32 v)) = v"
    then have "NOT (lo32 v) = lo32 v" by (metis half_ext(1))
    then have "bit (NOT (lo32 v)) 0 = bit (lo32 v) 0" by simp
    then show False by (simp add: bit_not_iff)
  qed
  show ?thesis
    by (simp add: and_imm_def or_imm_def add_imm_def sub_imm_def xor_imm_def wrp_alu32_imm_def cb_ok_def alu_code imm_halves(3) low flip)
qed

end
