(* ===== verification/Bpf_Jump.thy ===== *)
theory Bpf_Jump
  imports Bpf_Alu
begin

text \<open>
  The jump callbacks of \<open>bpf/jit.c\<close>: which of them branch when the BPF instruction jumps, and what
  the others test.
\<close>

section \<open>Code that may branch\<close>

text \<open>
  The code from \<open>p\<close> to \<open>q\<close> branches when \<open>t\<close> holds of the registers, and keeps them. Its branches
  are plain: nothing behind them is executed when they are taken, and no special target is marked.
\<close>

definition plain_br :: "u64 \<Rightarrow> bool" where
  "plain_br w \<longleftrightarrow> (nfp_is_br w \<longrightarrow> FIELD_GET OP_BR_DEFBR w = 0 \<and> FIELD_GET OP_BR_SPECIAL w = 0)"

definition branches :: "me_isa \<Rightarrow> nat \<Rightarrow> nfp_prog \<Rightarrow> nfp_prog \<Rightarrow> ((nat \<Rightarrow> u64) \<Rightarrow> bool) \<Rightarrow> bool" where
  "branches isa n p q t \<longleftrightarrow> (\<exists>ws. emits p q ws \<and> list_all plain_br ws \<and>
     (\<forall>st R. matches n st R \<longrightarrow> (\<exists>st'. me_run isa ws st = Some (t R, st') \<and> matches n st' R \<and> me_nnr st' = me_nnr st)))"

lemma branches_none: "branches isa n p p (\<lambda>_. False)"
  unfolding branches_def by (rule exI[of _ "[]"]) simp

lemma branches_or:
  assumes "branches isa n p q s" "branches isa n q r t"
  shows "branches isa n p r (\<lambda>R. s R \<or> t R)"
proof -
  obtain us where us: "emits p q us" "list_all plain_br us" "\<And>st R. matches n st R \<Longrightarrow> \<exists>st'. me_run isa us st = Some (s R, st') \<and> matches n st' R \<and> me_nnr st' = me_nnr st"
    using assms(1) unfolding branches_def by blast
  obtain ws where ws: "emits q r ws" "list_all plain_br ws" "\<And>st R. matches n st R \<Longrightarrow> \<exists>st'. me_run isa ws st = Some (t R, st') \<and> matches n st' R \<and> me_nnr st' = me_nnr st"
    using assms(2) unfolding branches_def by blast
  have "\<exists>st'. me_run isa (us @ ws) st = Some (s R \<or> t R, st') \<and> matches n st' R \<and> me_nnr st' = me_nnr st" if m: "matches n st R" for st R
  proof -
    obtain mid where mid: "me_run isa us st = Some (s R, mid)" "matches n mid R" "me_nnr mid = me_nnr st" using us(3)[OF m] by blast
    obtain st' where st': "me_run isa ws mid = Some (t R, st')" "matches n st' R" "me_nnr st' = me_nnr mid" using ws(3)[OF mid(2)] by blast
    show ?thesis using mid st' by (cases "s R") (auto simp: me_run_append)
  qed
  moreover have "list_all plain_br (us @ ws)" using us(2) ws(2) by simp
  ultimately show ?thesis using emits_trans[OF us(1) ws(1)] unfolding branches_def by blast
qed

text \<open>A test and a branch.\<close>

lemma branchesI:
  assumes msk: "msk AND 0x1f = msk" and k: "2 * n \<le> k"
    and us: "emits p q us" "straight isa us Q"
    and Q: "\<And>st st' R. matches n st R \<Longrightarrow> Q st st' \<Longrightarrow> frame {k} st st' \<and> isa_br isa msk (me_zero st') (me_carry st') = t R"
  shows "branches isa n p (emit_br msk off 0 q) t"
proof -
  define w where "w = br_word msk (if msk \<noteq> BR_UNC then BR_EV_PIP_COND else BR_EV_PIP_UNCOND) BR_CSS_NONE off 0"
  have w: "emits q (emit_br msk off 0 q) [w]" "nfp_is_br w" "FIELD_GET OP_BR_MASK w = msk"
    "FIELD_GET OP_BR_DEFBR w = 0" "FIELD_GET OP_BR_SPECIAL w = 0"
    unfolding emit_br_def w_def by (rule emits_push, rule is_br_br_word, rule br_word_mask[OF msk])
      (simp_all add: br_word_def field_decode)
  have "\<exists>st'. me_run isa (us @ [w]) st = Some (t R, st') \<and> matches n st' R \<and> me_nnr st' = me_nnr st" if m: "matches n st R" for st R
  proof -
    obtain st' where st': "me_run isa us st = Some (False, st')" "Q st st'" using us(2) by (auto simp: straight_def)
    have f: "frame {k} st st'" "isa_br isa msk (me_zero st') (me_carry st') = t R" using Q[OF m st'(2)] by simp_all
    have "matches n st' R" using m frame_reg_is[OF f(1)] k by (auto simp: matches_def)
    then show ?thesis using st'(1) f w(2,3) by (auto simp: me_run_append frame_def)
  qed
  moreover have "list_all plain_br (us @ [w])"
    using us(2) w(4,5) by (auto simp: straight_def list_all_iff plain_br_def)
  ultimately show ?thesis using emits_trans[OF us(1) w(1)] unfolding branches_def by blast
qed

section \<open>Tests\<close>

lemma alu_test_emits:
  assumes "op AND 0x1f = op" "sw_type l \<noteq> sw_type r" "sw_src l" "sw_src r"
  shows "\<exists>w. emits p (emit_alu reg_none l op r p) [w] \<and> straight isa [w] (\<lambda>st st'. \<forall>v c.
    isa_alu isa op (sw_val st l) (sw_val st r) (me_carry st) = (v, c) \<longrightarrow> frame {} st st' \<and> me_carry st' = c \<and> me_zero st' = (v = 0))"
proof -
  have "sw_dst reg_none" by (simp add: sw_dst_def)
  then obtain w where w: "emits p (emit_alu reg_none l op r p) [w]"
    "straight isa [w] (\<lambda>st st'. \<exists>lv. (sw_src l \<longrightarrow> lv = sw_val st l) \<and> st' = alu_result isa op reg_none lv (sw_val st r) st)"
    using emit_alu_emits[OF assms(1) _ assms(2,4), of reg_none p isa] assms(3) by blast
  have "straight isa [w] (\<lambda>st st'. \<forall>v c. isa_alu isa op (sw_val st l) (sw_val st r) (me_carry st) = (v, c) \<longrightarrow>
      frame {} st st' \<and> me_carry st' = c \<and> me_zero st' = (v = 0))"
    by (rule straight_weaken[OF w(2)]) (use assms(3) in \<open>auto simp: alu_result_post\<close>)
  with w(1) show ?thesis by blast
qed

text \<open>Registers against registers, one half; and against a constant.\<close>

lemma test_regs_emits:
  assumes "op AND 0x1f = op" "unat a < 256" "unat b < 256"
  shows "\<exists>w. emits p (emit_alu reg_none (reg_a a) op (reg_b b) p) [w] \<and> straight isa [w] (\<lambda>st st'. \<forall>x y v c.
    reg_is st (unat a) x \<and> reg_is st (unat b) y \<and> isa_alu isa op x y (me_carry st) = (v, c) \<longrightarrow>
    frame {} st st' \<and> me_carry st' = c \<and> me_zero st' = (v = 0))"
proof -
  have ty: "sw_type (reg_a a) \<noteq> sw_type (reg_b b)" "sw_src (reg_a a)" "sw_src (reg_b b)" using assms by simp_all
  obtain w where w: "emits p (emit_alu reg_none (reg_a a) op (reg_b b) p) [w]" "straight isa [w] (\<lambda>st st'. \<forall>v c.
      isa_alu isa op (sw_val st (reg_a a)) (sw_val st (reg_b b)) (me_carry st) = (v, c) \<longrightarrow> frame {} st st' \<and> me_carry st' = c \<and> me_zero st' = (v = 0))"
    using alu_test_emits[OF assms(1) ty] by blast
  show ?thesis
    by (intro exI[of _ w] conjI w(1) straight_weaken[OF w(2)]) (use assms in \<open>simp add: reg_is_def\<close>)
qed

lemma cmp_half_emits:
  assumes doc: "me_documented isa" and p: "unat (np_regs_per_thread p - 2) < 254" and op: "op AND 0x1f = op"
    and r: "unat reg < 256" "unat reg \<noteq> scratch p"
  shows "\<exists>ws. emits p (cmp_imm_half op swap reg imm p) ws \<and> straight isa ws (\<lambda>st st'. \<forall>x v c.
    reg_is st (unat reg) x \<and> isa_alu isa op (if swap then imm else x) (if swap then x else imm) (me_carry st) = (v, c) \<longrightarrow>
    frame {scratch p} st st' \<and> me_carry st' = c \<and> me_zero st' = (v = 0))"
proof -
  note s = scratch_regs[OF p]
  obtain us t q where l: "ur_load_imm_any imm (imm_b p) p = (t, q)" "emits p q us" "sw_src t" "sw_type t = NN_REG_IMM \<or> t = imm_b p"
    and us: "straight isa us (\<lambda>st st'. loaded (scratch p) st st' \<and> sw_val st' t = imm)"
    using ur_load[OF doc p, of "imm_b p" imm] by blast
  have ty: "sw_type (reg_a reg) \<noteq> sw_type t" "sw_src (reg_a reg)" using l(4) r s by auto
  define a where "a = (if swap then t else reg_a reg)"
  define b where "b = (if swap then reg_a reg else t)"
  have ab: "sw_type a \<noteq> sw_type b" "sw_src a" "sw_src b" using ty l(3) by (auto simp: a_def b_def)
  obtain w where w: "emits q (emit_alu reg_none a op b q) [w]" "straight isa [w] (\<lambda>st st'. \<forall>v c.
      isa_alu isa op (sw_val st a) (sw_val st b) (me_carry st) = (v, c) \<longrightarrow> frame {} st st' \<and> me_carry st' = c \<and> me_zero st' = (v = 0))"
    using alu_test_emits[OF op ab] by blast
  have e: "cmp_imm_half op swap reg imm p = emit_alu reg_none a op b q" using l(1) by (simp add: cmp_imm_half_def a_def b_def)
  have "straight isa (us @ [w]) (\<lambda>st st'. \<forall>x v c.
    reg_is st (unat reg) x \<and> isa_alu isa op (if swap then imm else x) (if swap then x else imm) (me_carry st) = (v, c) \<longrightarrow>
    frame {scratch p} st st' \<and> me_carry st' = c \<and> me_zero st' = (v = 0))"
  proof (rule straight_weaken[OF straight_append[OF us w(2)]], elim exE conjE, intro allI impI, elim conjE)
    fix st st' mid x v c
    assume m: "loaded (scratch p) st mid" "sw_val mid t = imm" and x: "reg_is st (unat reg) x"
      and i: "isa_alu isa op (if swap then imm else x) (if swap then x else imm) (me_carry st) = (v, c)"
      and o: "\<forall>v c. isa_alu isa op (sw_val mid a) (sw_val mid b) (me_carry mid) = (v, c) \<longrightarrow> frame {} mid st' \<and> me_carry st' = c \<and> me_zero st' = (v = 0)"
    have f: "frame {scratch p} st mid" "me_carry mid = me_carry st" using m(1) by (simp_all add: loaded_def)
    have "sw_val mid (reg_a reg) = x" using x r frame_reg_is[OF f(1), of "unat reg" x] by (simp add: reg_is_def)
    then have "isa_alu isa op (sw_val mid a) (sw_val mid b) (me_carry mid) = (v, c)" using i m(2) f(2) by (auto simp: a_def b_def)
    then have g: "frame {} mid st' \<and> me_carry st' = c \<and> me_zero st' = (v = 0)" using o by blast
    then show "frame {scratch p} st st' \<and> me_carry st' = c \<and> me_zero st' = (v = 0)"
      using frame_trans[OF f(1), of "{}" st'] by simp
  qed
  then show ?thesis unfolding e using emits_trans[OF l(2) w(1)] by blast
qed

lemma test_imm_branches:
  assumes doc: "me_documented isa" and fit: "regs_fit n p" and op: "op AND 0x1f = op"
    and r: "unat reg < 2 * n" and g: "\<And>st R. matches n st R \<Longrightarrow> reg_is st (unat reg) (g R)"
    and f: "\<And>x c. fst (isa_alu isa op x imm c) = f x"
  shows "branches isa n p (test_imm_half op off reg imm p) (\<lambda>R. f (g R) \<noteq> 0)"
proof -
  have k: "2 * n \<le> scratch p" "unat (np_regs_per_thread p - 2) < 254" using fit by (simp_all add: regs_fit_def)
  have rk: "unat reg < 256" "unat reg \<noteq> scratch p" using r k by linarith+
  obtain ws where ws: "emits p (cmp_imm_half op False reg imm p) ws" "straight isa ws (\<lambda>st st'. \<forall>x v c.
      reg_is st (unat reg) x \<and> isa_alu isa op (if False then imm else x) (if False then x else imm) (me_carry st) = (v, c) \<longrightarrow>
      frame {scratch p} st st' \<and> me_carry st' = c \<and> me_zero st' = (v = 0))"
    using cmp_half_emits[OF doc k(2) op rk, of False imm] by blast
  have e: "test_imm_half op off reg imm p = emit_br BR_BNE off 0 (cmp_imm_half op False reg imm p)"
    by (simp add: test_imm_half_def cmp_imm_half_def split: prod.split)
  show ?thesis unfolding e
  proof (rule branchesI[OF _ k(1) ws])
    fix st st' R
    assume m: "matches n st R" and o: "\<forall>x v c. reg_is st (unat reg) x \<and>
      isa_alu isa op (if False then imm else x) (if False then x else imm) (me_carry st) = (v, c) \<longrightarrow>
      frame {scratch p} st st' \<and> me_carry st' = c \<and> me_zero st' = (v = 0)"
    obtain v c where "isa_alu isa op (g R) imm (me_carry st) = (v, c)" by force
    then show "frame {scratch p} st st' \<and> isa_br isa BR_BNE (me_zero st') (me_carry st') = (f (g R) \<noteq> 0)"
      using o g[OF m] f[of "g R" "me_carry st"] me_doc_br(2)[OF doc] by auto
  qed simp
qed

text \<open>Differences of the low and then of the high halves leave in the carry that none was borrowed.\<close>

lemma borrow_halves:
  assumes "me_documented isa"
    and "isa_alu isa ALU_OP_SUB (lo32 a) (lo32 b) c0 = (v, c)" "isa_alu isa ALU_OP_SUB_C (hi32 a) (hi32 b) c = (w, d)"
  shows "d \<longleftrightarrow> b \<le> a"
  using assms(2,3) half_le[of b a] by (auto simp: me_doc_alu[OF assms(1)])

lemma cmp_imm_branches:
  assumes doc: "me_documented isa" and fit: "regs_fit n p" "room p" "unat d < n"
    and msk: "msk AND 0x1f = msk" "\<And>z c. isa_br isa msk z c = h c"
  shows "branches isa n p (emit_br msk off 0 (cmp_imm_half ALU_OP_SUB_C swap (reg_hi d) (hi32 v) (cmp_imm_half ALU_OP_SUB swap (reg_lo d) (lo32 v) p)))
    (\<lambda>R. h (if swap then R (unat d) \<le> v else v \<le> R (unat d)))"
proof -
  let ?q = "cmp_imm_half ALU_OP_SUB swap (reg_lo d) (lo32 v) p"
  have k: "2 * n \<le> scratch p" "scratch p < 254" using fit(1) by (simp_all add: regs_fit_def)
  have ne: "unat (reg_lo d) \<noteq> scratch p" "unat (reg_hi d) \<noteq> scratch p" using k fit(3) by (simp_all add: reg_nums)
  obtain us where us: "emits p ?q us" "straight isa us (\<lambda>st st'. \<forall>x v' c. reg_is st (unat (reg_lo d)) x \<and>
      isa_alu isa ALU_OP_SUB (if swap then lo32 v else x) (if swap then x else lo32 v) (me_carry st) = (v', c) \<longrightarrow>
      frame {scratch p} st st' \<and> me_carry st' = c \<and> me_zero st' = (v' = 0))"
    using cmp_half_emits[OF doc k(2) _ reg_small(1) ne(1), of ALU_OP_SUB swap "lo32 v"] by auto
  have q: "np_regs_per_thread ?q = np_regs_per_thread p" using emits_scratch[OF us(1) fit(2)] by simp
  obtain ws where ws: "emits ?q (cmp_imm_half ALU_OP_SUB_C swap (reg_hi d) (hi32 v) ?q) ws" "straight isa ws (\<lambda>st st'. \<forall>x v' c. reg_is st (unat (reg_hi d)) x \<and>
      isa_alu isa ALU_OP_SUB_C (if swap then hi32 v else x) (if swap then x else hi32 v) (me_carry st) = (v', c) \<longrightarrow>
      frame {scratch p} st st' \<and> me_carry st' = c \<and> me_zero st' = (v' = 0))"
    using cmp_half_emits[OF doc _ _ reg_small(2), of ?q ALU_OP_SUB_C d swap "hi32 v", unfolded q, OF k(2) _ ne(2)] by auto
  show ?thesis
  proof (rule branchesI[OF msk(1) k(1) emits_trans[OF us(1) ws(1)] straight_append[OF us(2) ws(2)]], elim exE conjE)
    fix st st' mid R
    assume m: "matches n st R"
      and a: "\<forall>x v' c. reg_is st (unat (reg_lo d)) x \<and>
        isa_alu isa ALU_OP_SUB (if swap then lo32 v else x) (if swap then x else lo32 v) (me_carry st) = (v', c) \<longrightarrow>
        frame {scratch p} st mid \<and> me_carry mid = c \<and> me_zero mid = (v' = 0)"
      and b: "\<forall>x v' c. reg_is mid (unat (reg_hi d)) x \<and>
        isa_alu isa ALU_OP_SUB_C (if swap then hi32 v else x) (if swap then x else hi32 v) (me_carry mid) = (v', c) \<longrightarrow>
        frame {scratch p} mid st' \<and> me_carry st' = c \<and> me_zero st' = (v' = 0)"
    define l where "l = (if swap then v else R (unat d))"
    define r where "r = (if swap then R (unat d) else v)"
    note rg = matches_regs[OF m fit(3), folded reg_nums(1,2)]
    obtain x1 c1 where i1: "isa_alu isa ALU_OP_SUB (lo32 l) (lo32 r) (me_carry st) = (x1, c1)" by force
    obtain x2 c2 where i2: "isa_alu isa ALU_OP_SUB_C (hi32 l) (hi32 r) c1 = (x2, c2)" by force
    have f1: "frame {scratch p} st mid" "me_carry mid = c1"
      using a[rule_format, of "lo32 (R (unat d))" x1 c1] rg(1) i1 by (auto simp: l_def r_def split: if_splits)
    have h: "reg_is mid (unat (reg_hi d)) (hi32 (R (unat d)))" using frame_reg_is[OF f1(1), of "unat (reg_hi d)"] rg(2) ne(2) by simp
    have f2: "frame {scratch p} mid st'" "me_carry st' = c2"
      using b[rule_format, of "hi32 (R (unat d))" x2 c2] h i2 f1(2) by (auto simp: l_def r_def split: if_splits)
    have "c2 \<longleftrightarrow> r \<le> l" by (rule borrow_halves[OF doc i1 i2])
    then have "c2 = (if swap then R (unat d) \<le> v else v \<le> R (unat d))" by (simp add: l_def r_def)
    then show "frame {scratch p} st st' \<and> isa_br isa msk (me_zero st') (me_carry st') = h (if swap then R (unat d) \<le> v else v \<le> R (unat d))"
      using frame_trans[OF f1(1) f2(1)] f2(2) msk(2) by simp
  qed
qed

lemma cmp_reg_branches:
  assumes doc: "me_documented isa" and fit: "regs_fit n p" "unat a < n" "unat b < n"
    and msk: "msk AND 0x1f = msk" "\<And>z c. isa_br isa msk z c = h c"
  shows "branches isa n p (emit_br msk off 0 (emit_alu reg_none (reg_a (reg_hi a)) ALU_OP_SUB_C (reg_b (reg_hi b))
      (emit_alu reg_none (reg_a (reg_lo a)) ALU_OP_SUB (reg_b (reg_lo b)) p))) (\<lambda>R. h (R (unat b) \<le> R (unat a)))"
proof -
  let ?q = "emit_alu reg_none (reg_a (reg_lo a)) ALU_OP_SUB (reg_b (reg_lo b)) p"
  have k: "2 * n \<le> scratch p" using fit(1) by (simp add: regs_fit_def)
  obtain u where u: "emits p ?q [u]" "straight isa [u] (\<lambda>st st'. \<forall>x y v c. reg_is st (unat (reg_lo a)) x \<and> reg_is st (unat (reg_lo b)) y \<and>
      isa_alu isa ALU_OP_SUB x y (me_carry st) = (v, c) \<longrightarrow> frame {} st st' \<and> me_carry st' = c \<and> me_zero st' = (v = 0))"
    using test_regs_emits[OF _ reg_small(1)[of a] reg_small(1)[of b], of ALU_OP_SUB p isa] by auto
  obtain w where w: "emits ?q (emit_alu reg_none (reg_a (reg_hi a)) ALU_OP_SUB_C (reg_b (reg_hi b)) ?q) [w]" "straight isa [w] (\<lambda>st st'. \<forall>x y v c.
      reg_is st (unat (reg_hi a)) x \<and> reg_is st (unat (reg_hi b)) y \<and>
      isa_alu isa ALU_OP_SUB_C x y (me_carry st) = (v, c) \<longrightarrow> frame {} st st' \<and> me_carry st' = c \<and> me_zero st' = (v = 0))"
    using test_regs_emits[OF _ reg_small(2)[of a] reg_small(2)[of b], of ALU_OP_SUB_C ?q isa] by auto
  show ?thesis
  proof (rule branchesI[OF msk(1) k emits_trans[OF u(1) w(1)] straight_append[OF u(2) w(2)]], elim exE conjE)
    fix st st' mid R
    assume m: "matches n st R"
      and i: "\<forall>x y v c. reg_is st (unat (reg_lo a)) x \<and> reg_is st (unat (reg_lo b)) y \<and>
        isa_alu isa ALU_OP_SUB x y (me_carry st) = (v, c) \<longrightarrow> frame {} st mid \<and> me_carry mid = c \<and> me_zero mid = (v = 0)"
      and j: "\<forall>x y v c. reg_is mid (unat (reg_hi a)) x \<and> reg_is mid (unat (reg_hi b)) y \<and>
        isa_alu isa ALU_OP_SUB_C x y (me_carry mid) = (v, c) \<longrightarrow> frame {} mid st' \<and> me_carry st' = c \<and> me_zero st' = (v = 0)"
    note ra = matches_regs[OF m fit(2), folded reg_nums(1,2)] and rb = matches_regs[OF m fit(3), folded reg_nums(1,2)]
    obtain x1 c1 where i1: "isa_alu isa ALU_OP_SUB (lo32 (R (unat a))) (lo32 (R (unat b))) (me_carry st) = (x1, c1)" by force
    obtain x2 c2 where i2: "isa_alu isa ALU_OP_SUB_C (hi32 (R (unat a))) (hi32 (R (unat b))) c1 = (x2, c2)" by force
    have f1: "frame {} st mid" "me_carry mid = c1" using i ra(1) rb(1) i1 by blast+
    have h: "reg_is mid (unat (reg_hi a)) (hi32 (R (unat a)))" "reg_is mid (unat (reg_hi b)) (hi32 (R (unat b)))"
      using frame_reg_is[OF f1(1)] ra(2) rb(2) by simp_all
    have f2: "frame {} mid st'" "me_carry st' = c2" using j h i2 f1(2) by blast+
    have "c2 \<longleftrightarrow> R (unat b) \<le> R (unat a)" by (rule borrow_halves[OF doc i1 i2])
    then show "frame {scratch p} st st' \<and> isa_br isa msk (me_zero st') (me_carry st') = h (R (unat b) \<le> R (unat a))"
      using frame_trans[OF f1(1) f2(1)] f2(2) msk(2) by (auto intro: frame_mono)
  qed
qed

text \<open>One half against the other register, and a branch.\<close>

lemma test_reg_one_branches:
  assumes doc: "me_documented isa" and fit: "2 * n \<le> k" and op: "op AND 0x1f = op" "unat a < 256" "unat b < 256"
    and g: "\<And>st R. matches n st R \<Longrightarrow> reg_is st (unat a) (g R)" "\<And>st R. matches n st R \<Longrightarrow> reg_is st (unat b) (h R)"
    and f: "\<And>x y c. fst (isa_alu isa op x y c) = f x y"
  shows "branches isa n p (wrp_test_reg_one a op b BR_BNE off p) (\<lambda>R. f (g R) (h R) \<noteq> 0)"
proof -
  obtain w where w: "emits p (emit_alu reg_none (reg_a a) op (reg_b b) p) [w]" "straight isa [w] (\<lambda>st st'. \<forall>x y v c.
      reg_is st (unat a) x \<and> reg_is st (unat b) y \<and> isa_alu isa op x y (me_carry st) = (v, c) \<longrightarrow>
      frame {} st st' \<and> me_carry st' = c \<and> me_zero st' = (v = 0))"
    using test_regs_emits[OF op] by blast
  show ?thesis unfolding wrp_test_reg_one_def
  proof (rule branchesI[OF _ fit w])
    fix st st' R
    assume m: "matches n st R" and o: "\<forall>x y v c. reg_is st (unat a) x \<and> reg_is st (unat b) y \<and>
      isa_alu isa op x y (me_carry st) = (v, c) \<longrightarrow> frame {} st st' \<and> me_carry st' = c \<and> me_zero st' = (v = 0)"
    obtain v c where i: "isa_alu isa op (g R) (h R) (me_carry st) = (v, c)" by force
    then have "frame {} st st'" "me_zero st' = (v = 0)" using o g[OF m] by blast+
    then show "frame {k} st st' \<and> isa_br isa BR_BNE (me_zero st') (me_carry st') = (f (g R) (h R) \<noteq> 0)"
      using i f[of "g R" "h R" "me_carry st"] me_doc_br(2)[OF doc] by (auto intro: frame_mono)
  qed simp
qed
section \<open>Comparing for equality\<close>

text \<open>
  The differences of the halves go to bank A (\<open>b\<close> false) and to bank B of the scratch register, so
  that the second leaves the first.
\<close>

definition scratch_out :: "nfp_prog \<Rightarrow> bool \<Rightarrow> u32" where
  "scratch_out p b = (if b then imm_b p else imm_a p)"

lemma scratch_out_facts:
  assumes "unat (np_regs_per_thread p - 2) < 254"
  shows "sw_type (scratch_out p b) = (if b then NN_REG_GPR_B else NN_REG_GPR_A)" "sw_num (scratch_out p b) = scratch p"
    "sw_src (scratch_out p b)" "sw_dst (scratch_out p b)"
    "sw_val st (scratch_out p b) = me_gpr st (if b then ALU_DST_B else ALU_DST_A) (scratch p)"
  using scratch_regs[OF assms] by (simp_all add: scratch_out_def)

lemma bank_b_keeps_a:
  "sw_type dst = NN_REG_GPR_B \<Longrightarrow> me_gpr (sw_write dst v st) ALU_DST_A = me_gpr st ALU_DST_A"
  by (simp add: sw_write_def write_gpr_def)

lemma xor_into_emits:
  assumes doc: "me_documented isa" and p: "unat (np_regs_per_thread p - 2) < 254"
    and lr: "sw_type l \<noteq> sw_type r" "sw_src l" "sw_src r"
  shows "\<exists>w. emits q (emit_alu (scratch_out p b) l ALU_OP_XOR r q) [w] \<and> straight isa [w] (\<lambda>st st'.
    frame {scratch p} st st' \<and> sw_val st' (scratch_out p b) = sw_val st l XOR sw_val st r \<and>
    (b \<longrightarrow> me_gpr st' ALU_DST_A = me_gpr st ALU_DST_A))"
proof -
  note s = scratch_out_facts[OF p]
  have op: "ALU_OP_XOR AND 0x1f = ALU_OP_XOR" by simp
  obtain w where w: "emits q (emit_alu (scratch_out p b) l ALU_OP_XOR r q) [w]"
    "straight isa [w] (\<lambda>st st'. \<exists>lv. (sw_src l \<longrightarrow> lv = sw_val st l) \<and> st' = alu_result isa ALU_OP_XOR (scratch_out p b) lv (sw_val st r) st)"
    using emit_alu_emits[OF op s(4)[of b] lr(1,3), of q isa] lr(2) by blast
  show ?thesis
  proof (rule exI[of _ w], rule conjI[OF w(1)], rule straight_weaken[OF w(2)], elim exE conjE)
    fix st st' lv
    assume "sw_src l \<longrightarrow> lv = sw_val st l" and st': "st' = alu_result isa ALU_OP_XOR (scratch_out p b) lv (sw_val st r) st"
    then have lv: "lv = sw_val st l" using lr(2) by simp
    obtain v c where a: "isa_alu isa ALU_OP_XOR lv (sw_val st r) (me_carry st) = (v, c)" by force
    have v: "v = sw_val st l XOR sw_val st r" using me_doc_alu(7)[OF doc, of lv "sw_val st r" "me_carry st"] a lv by simp
    have st2: "st' = sw_write (scratch_out p b) v (st\<lparr>me_carry := c, me_zero := (v = 0)\<rparr>)" using a st' by (simp add: alu_result_def)
    have f: "frame {scratch p} st st'" using alu_result_post(4)[OF a, of "scratch_out p b"] s(1,2)[of b] st' by (simp split: if_splits)
    have x: "sw_val st' (scratch_out p b) = v" using alu_result_post(6,7)[OF a, of "scratch_out p b"] s(1,2)[of b] s(5)[of st' b] st' by (simp split: if_splits)
    have "b \<longrightarrow> me_gpr st' ALU_DST_A = me_gpr st ALU_DST_A" using bank_b_keeps_a[of "scratch_out p b"] s(1)[of b] st2 by (cases b) simp_all
    then show "frame {scratch p} st st' \<and> sw_val st' (scratch_out p b) = sw_val st l XOR sw_val st r \<and> (b \<longrightarrow> me_gpr st' ALU_DST_A = me_gpr st ALU_DST_A)"
      using f x v by blast
  qed
qed

lemma ur_load_b:
  assumes "me_documented isa" "unat (np_regs_per_thread p - 2) < 254"
  shows "\<exists>ws t q. ur_load_imm_any imm (imm_b p) p = (t, q) \<and> emits p q ws \<and> sw_src t \<and> sw_type t \<noteq> NN_REG_GPR_A \<and>
    straight isa ws (\<lambda>st st'. frame {scratch p} st st' \<and> me_gpr st' ALU_DST_A = me_gpr st ALU_DST_A \<and> sw_val st' t = imm)"
proof -
  note s = scratch_regs[OF assms(2)]
  obtain ws t q where l: "ur_load_imm_any imm (imm_b p) p = (t, q)" "emits p q ws"
    and c: "t = reg_imm imm \<and> unat imm < 256 \<and> straight isa ws (\<lambda>st st'. st' = st) \<or>
      t = imm_b p \<and> straight isa ws (\<lambda>st st'. st' = sw_write (imm_b p) imm st)"
    using ur_load_exact[OF assms, of "imm_b p" imm] by blast
  have w: "me_gpr (sw_write (imm_b p) imm st) ALU_DST_B (scratch p) = imm" "frame {scratch p} st (sw_write (imm_b p) imm st)" for st
    using sw_write_read[of "imm_b p" imm st] sw_write_post(3)[of "imm_b p" st imm] s by simp_all
  from c show ?thesis
  proof (elim disjE conjE)
    assume t: "t = reg_imm imm" "unat imm < 256" "straight isa ws (\<lambda>st st'. st' = st)"
    show ?thesis using l t by (intro exI[of _ ws] exI[of _ t] exI[of _ q]) (auto elim: straight_weaken)
  next
    assume t: "t = imm_b p" "straight isa ws (\<lambda>st st'. st' = sw_write (imm_b p) imm st)"
    show ?thesis using l t(1) s w bank_b_keeps_a[OF s(2)]
      by (intro exI[of _ ws] exI[of _ t] exI[of _ q] conjI straight_weaken[OF t(2)]) simp_all
  qed
qed

lemma xor_imm_half_emits:
  assumes doc: "me_documented isa" and p: "unat (np_regs_per_thread p - 2) < 254" and r: "unat reg < 256" "unat reg \<noteq> scratch p"
  shows "\<exists>ws out q. xor_imm_half (scratch_out p b) (if b then reg_b reg else reg_a reg) reg imm p = (out, q) \<and> emits p q ws \<and>
    sw_src out \<and> sw_type out = (if b then NN_REG_GPR_B else NN_REG_GPR_A) \<and>
    (\<forall>st st' x. \<not> b \<and> frame {scratch p} st st' \<and> me_gpr st' ALU_DST_A = me_gpr st ALU_DST_A \<and> sw_val st out = x \<longrightarrow> sw_val st' out = x) \<and>
    straight isa ws (\<lambda>st st'. \<forall>x. reg_is st (unat reg) x \<longrightarrow> frame {scratch p} st st' \<and> sw_val st' out = x XOR imm \<and>
      (b \<longrightarrow> me_gpr st' ALU_DST_A = me_gpr st ALU_DST_A))"
proof (cases "imm = 0")
  case True
  then show ?thesis using r
    by (intro exI[of _ "[]"] exI[of _ "if b then reg_b reg else reg_a reg"] exI[of _ p])
      (auto simp: xor_imm_half_def straight_def reg_is_def)
next
  case False
  note s = scratch_out_facts[OF p]
  obtain us t q where l: "ur_load_imm_any imm (imm_b p) p = (t, q)" "emits p q us" "sw_src t" "sw_type t \<noteq> NN_REG_GPR_A"
    and us: "straight isa us (\<lambda>st st'. frame {scratch p} st st' \<and> me_gpr st' ALU_DST_A = me_gpr st ALU_DST_A \<and> sw_val st' t = imm)"
    using ur_load_b[OF doc p] by blast
  have ty: "sw_type (reg_a reg) \<noteq> sw_type t" "sw_src (reg_a reg)" using l(4) r by simp_all
  obtain w where w: "emits q (emit_alu (scratch_out p b) (reg_a reg) ALU_OP_XOR t q) [w]" "straight isa [w] (\<lambda>st st'.
      frame {scratch p} st st' \<and> sw_val st' (scratch_out p b) = sw_val st (reg_a reg) XOR sw_val st t \<and>
      (b \<longrightarrow> me_gpr st' ALU_DST_A = me_gpr st ALU_DST_A))"
    using xor_into_emits[OF doc p ty l(3)] by blast
  have "straight isa (us @ [w]) (\<lambda>st st'. \<forall>x. reg_is st (unat reg) x \<longrightarrow> frame {scratch p} st st' \<and>
      sw_val st' (scratch_out p b) = x XOR imm \<and> (b \<longrightarrow> me_gpr st' ALU_DST_A = me_gpr st ALU_DST_A))"
  proof (rule straight_weaken[OF straight_append[OF us w(2)]], elim exE conjE, intro allI impI)
    fix st st' mid x
    assume f: "frame {scratch p} st mid" "me_gpr mid ALU_DST_A = me_gpr st ALU_DST_A" "sw_val mid t = imm"
      and g: "frame {scratch p} mid st'" "sw_val st' (scratch_out p b) = sw_val mid (reg_a reg) XOR sw_val mid t"
        "b \<longrightarrow> me_gpr st' ALU_DST_A = me_gpr mid ALU_DST_A" and x: "reg_is st (unat reg) x"
    have "sw_val mid (reg_a reg) = x" using x r frame_reg_is[OF f(1), of "unat reg" x] by (simp add: reg_is_def)
    then show "frame {scratch p} st st' \<and> sw_val st' (scratch_out p b) = x XOR imm \<and> (b \<longrightarrow> me_gpr st' ALU_DST_A = me_gpr st ALU_DST_A)"
      using frame_trans[OF f(1) g(1)] f g by simp
  qed
  then show ?thesis using False l emits_trans[OF l(2) w(1)] s
    by (intro exI[of _ "us @ [w]"] exI[of _ "scratch_out p b"] exI[of _ "emit_alu (scratch_out p b) (reg_a reg) ALU_OP_XOR t q"])
      (auto simp: xor_imm_half_def)
qed

lemma or_branches:
  assumes doc: "me_documented isa" and k: "2 * n \<le> k" and msk: "msk = BR_BEQ \<or> msk = BR_BNE"
    and us: "emits p q us" "straight isa us Q"
    and lr: "sw_type l \<noteq> sw_type r" "sw_src l" "sw_src r"
    and Q: "\<And>st st' R. matches n st R \<Longrightarrow> Q st st' \<Longrightarrow> frame {k} st st' \<and> sw_val st' l = f R \<and> sw_val st' r = g R"
  shows "branches isa n p (emit_br msk off 0 (emit_alu reg_none l ALU_OP_OR r q)) (\<lambda>R. (f R OR g R = 0) = (msk = BR_BEQ))"
proof -
  obtain w where w: "emits q (emit_alu reg_none l ALU_OP_OR r q) [w]" "straight isa [w] (\<lambda>st st'. \<forall>v c.
      isa_alu isa ALU_OP_OR (sw_val st l) (sw_val st r) (me_carry st) = (v, c) \<longrightarrow> frame {} st st' \<and> me_carry st' = c \<and> me_zero st' = (v = 0))"
    using alu_test_emits[OF _ lr, of ALU_OP_OR q isa] by auto
  have m5: "msk AND 0x1f = msk" using msk by auto
  show ?thesis
  proof (rule branchesI[OF m5 k emits_trans[OF us(1) w(1)] straight_append[OF us(2) w(2)]], elim exE conjE)
    fix st st' mid R
    assume m: "matches n st R" and q: "Q st mid"
      and o: "\<forall>v c. isa_alu isa ALU_OP_OR (sw_val mid l) (sw_val mid r) (me_carry mid) = (v, c) \<longrightarrow> frame {} mid st' \<and> me_carry st' = c \<and> me_zero st' = (v = 0)"
    note f = Q[OF m q]
    obtain v c where i: "isa_alu isa ALU_OP_OR (sw_val mid l) (sw_val mid r) (me_carry mid) = (v, c)" by force
    then have g: "frame {} mid st'" "me_zero st' = (v = 0)" using o by blast+
    have "v = f R OR g R" using me_doc_alu(6)[OF doc, of "sw_val mid l" "sw_val mid r" "me_carry mid"] i f by simp
    then show "frame {k} st st' \<and> isa_br isa msk (me_zero st') (me_carry st') = ((f R OR g R = 0) = (msk = BR_BEQ))"
      using frame_trans[OF f[THEN conjunct1] g(1)] g(2) msk me_doc_br(1,2)[OF doc] by auto
  qed
qed

lemma halves_zero: "lo32 v OR hi32 v = 0 \<longleftrightarrow> v = 0"
proof
  assume z: "lo32 v OR hi32 v = 0"
  have "lo32 v = 0" "hi32 v = 0" using z by (metis or_eq_0_iff)+
  moreover have "lo32 0 = 0" "hi32 0 = 0" by (simp_all add: lo32_def hi32_def)
  ultimately show "v = 0" using lo_hi_eq[of v 0] by simp
qed (simp add: lo32_def hi32_def)

lemma halves_xor: "(lo32 a XOR lo32 b) OR (hi32 a XOR hi32 b) = 0 \<longleftrightarrow> a = b"
proof -
  have "a XOR b = 0 \<longleftrightarrow> a = b" by (auto simp: bit_eq_iff bit_xor_iff)
  then show ?thesis using halves_zero[of "a XOR b"] by (simp add: half_logic)
qed

section \<open>The jump callbacks\<close>

definition cb_branches :: "me_isa \<Rightarrow> nat \<Rightarrow> u8 \<Rightarrow> instr_cb \<Rightarrow> (bpf_insn \<Rightarrow> (nat \<Rightarrow> u64) \<Rightarrow> bool) \<Rightarrow> bool" where
  "cb_branches isa n code cb t \<longleftrightarrow> (\<forall>meta p meta' q. bi_code (im_insn meta) = code \<and> regs_fit n p \<and> room p \<and>
     unat (bi_dst_reg (im_insn meta)) < n \<and> unat (bi_src_reg (im_insn meta)) < n \<and> cb meta p = ((0, meta'), q) \<longrightarrow>
     branches isa n p q (t (im_insn meta)))"

lemma cb_branchesI:
  assumes "\<And>meta p. \<lbrakk>bi_code (im_insn meta) = code; regs_fit n p; room p; unat (bi_dst_reg (im_insn meta)) < n;
      unat (bi_src_reg (im_insn meta)) < n; \<not> sint (bi_off (im_insn meta)) < 0\<rbrakk> \<Longrightarrow>
      branches isa n p (snd (f meta p)) (t (im_insn meta))"
    and cb: "\<And>meta p. cb meta p = jumping meta p (f meta p)"
  shows "cb_branches isa n code cb t"
  unfolding cb_branches_def
proof (intro allI impI, elim conjE)
  fix meta p meta' q
  assume a: "bi_code (im_insn meta) = code" "regs_fit n p" "room p" "unat (bi_dst_reg (im_insn meta)) < n" "unat (bi_src_reg (im_insn meta)) < n"
    and e: "cb meta p = ((0, meta'), q)"
  have off: "\<not> sint (bi_off (im_insn meta)) < 0" and q: "q = snd (f meta p)"
    using e by (auto simp: cb jumping_def cb_err_def split: if_split_asm)
  show "branches isa n p q (t (im_insn meta))" unfolding q by (rule assms(1)[OF a off])
qed

definition operands :: "(u64 \<Rightarrow> u64 \<Rightarrow> bool) \<Rightarrow> bpf_insn \<Rightarrow> (nat \<Rightarrow> u64) \<Rightarrow> bool" where
  "operands c insn R \<longleftrightarrow> c (R (unat (bi_dst_reg insn))) (bpf_operand insn R)"

lemma jump_branches:
  assumes "me_documented isa"
  shows "cb_branches isa n 0x05 jump (\<lambda>_ _. True)"
proof (rule cb_branchesI)
  fix meta :: nfp_insn_meta and p
  assume "regs_fit n p"
  then have k: "2 * n \<le> scratch p" by (simp add: regs_fit_def)
  show "branches isa n p (snd (cb_ok meta (emit_br BR_UNC (bi_off (im_insn meta)) 0 p))) (\<lambda>_. True)"
    unfolding cb_ok_def snd_conv
    by (rule branchesI[OF _ k emits_Nil, where Q = "\<lambda>st st'. st' = st"]) (simp_all add: straight_def me_doc_br[OF assms])
qed (simp add: jump_def)

lemma cmp_imm_cb:
  assumes doc: "me_documented isa" and msk: "msk AND 0x1f = msk" "\<And>z c. isa_br isa msk z c = h c" and code: "\<not> bit code 3"
  shows "cb_branches isa n code (wrp_cmp_imm msk swap) (operands (\<lambda>d s. h (if swap then d \<le> s else s \<le> d)))"
proof (rule cb_branchesI)
  fix meta :: nfp_insn_meta and p
  let ?insn = "im_insn meta" and ?d = "bi_dst_reg (im_insn meta)"
  assume a: "bi_code ?insn = code" "regs_fit n p" "room p" "unat ?d < n"
  show "branches isa n p (snd (cb_ok meta (emit_br msk (bi_off ?insn) 0
      (cmp_imm_half ALU_OP_SUB_C swap (reg_hi ?d) (imm_hi32 ?insn) (cmp_imm_half ALU_OP_SUB swap (reg_lo ?d) (imm_lo32 ?insn) p)))))
      (operands (\<lambda>d s. h (if swap then d \<le> s else s \<le> d)) ?insn)"
    using cmp_imm_branches[OF doc a(2-4) msk, of "bi_off ?insn" swap "imm_sx ?insn"] code a(1)
    by (cases swap) (simp_all add: cb_ok_def imm_halves(1,2) operands_def[abs_def] bpf_operand_def)
qed (simp add: wrp_cmp_imm_def Let_def)

lemma cmp_reg_cb:
  assumes doc: "me_documented isa" and msk: "msk AND 0x1f = msk" "\<And>z c. isa_br isa msk z c = h c" and code: "bit code 3"
  shows "cb_branches isa n code (wrp_cmp_reg msk swap) (operands (\<lambda>d s. h (if swap then s \<le> d else d \<le> s)))"
proof (rule cb_branchesI)
  fix meta :: nfp_insn_meta and p
  let ?insn = "im_insn meta"
  let ?a = "if swap then bi_dst_reg ?insn else bi_src_reg ?insn" and ?b = "if swap then bi_src_reg ?insn else bi_dst_reg ?insn"
  assume a: "bi_code ?insn = code" "regs_fit n p" "unat (bi_dst_reg ?insn) < n" "unat (bi_src_reg ?insn) < n"
  have ab: "unat ?a < n" "unat ?b < n" using a by simp_all
  have "operands (\<lambda>d s. h (if swap then s \<le> d else d \<le> s)) ?insn = (\<lambda>R. h (R (unat ?b) \<le> R (unat ?a)))"
    using code a(1) by (auto simp: operands_def[abs_def] bpf_operand_def)
  then show "branches isa n p (snd (cb_ok meta (emit_br msk (bi_off ?insn) 0
      (emit_alu reg_none (reg_a (reg_hi ?a)) ALU_OP_SUB_C (reg_b (reg_hi ?b)) (emit_alu reg_none (reg_a (reg_lo ?a)) ALU_OP_SUB (reg_b (reg_lo ?b)) p)))))
      (operands (\<lambda>d s. h (if swap then s \<le> d else d \<le> s)) ?insn)"
    using cmp_reg_branches[OF doc a(2) ab msk, of "bi_off ?insn"] by (simp only: cb_ok_def snd_conv)
qed (simp add: wrp_cmp_reg_def Let_def)

lemma test_reg_cb:
  assumes doc: "me_documented isa" and op: "op AND 0x1f = op" "\<And>x y c. fst (isa_alu isa op x y c) = f x y" and code: "bit code 3"
    and g: "\<And>d s. g d s \<longleftrightarrow> f (lo32 d) (lo32 s) \<noteq> 0 \<or> f (hi32 d) (hi32 s) \<noteq> 0"
  shows "cb_branches isa n code (wrp_test_reg op BR_BNE) (operands g)"
proof (rule cb_branchesI)
  fix meta :: nfp_insn_meta and p
  let ?insn = "im_insn meta" and ?d = "bi_dst_reg (im_insn meta)" and ?s = "bi_src_reg (im_insn meta)"
  assume a: "bi_code ?insn = code" "regs_fit n p" "unat ?d < n" "unat ?s < n"
  have k: "2 * n \<le> scratch p" using a(2) by (simp add: regs_fit_def)
  have lo: "reg_is st (unat (reg_lo r)) (lo32 (R (unat r)))" and hi: "reg_is st (unat (reg_hi r)) (hi32 (R (unat r)))"
    if "matches n st R" "unat r < n" for st R r using matches_regs[OF that] by (simp_all add: reg_nums)
  have b: "branches isa n p (wrp_test_reg_one (reg_hi ?d) op (reg_hi ?s) BR_BNE (bi_off ?insn)
      (wrp_test_reg_one (reg_lo ?d) op (reg_lo ?s) BR_BNE (bi_off ?insn) p))
      (\<lambda>R. f (lo32 (R (unat ?d))) (lo32 (R (unat ?s))) \<noteq> 0 \<or> f (hi32 (R (unat ?d))) (hi32 (R (unat ?s))) \<noteq> 0)"
    by (rule branches_or; rule test_reg_one_branches[OF doc k op(1) _ _ _ _ op(2)]) (use lo hi a(3,4) reg_small in auto)
  have "operands g ?insn = (\<lambda>R. f (lo32 (R (unat ?d))) (lo32 (R (unat ?s))) \<noteq> 0 \<or> f (hi32 (R (unat ?d))) (hi32 (R (unat ?s))) \<noteq> 0)"
    using code a(1) g by (simp add: operands_def[abs_def] bpf_operand_def)
  with b show "branches isa n p (snd (cb_ok meta (wrp_test_reg_one (reg_hi ?d) op (reg_hi ?s) BR_BNE (bi_off ?insn)
      (wrp_test_reg_one (reg_lo ?d) op (reg_lo ?s) BR_BNE (bi_off ?insn) p)))) (operands g ?insn)"
    by (simp only: cb_ok_def snd_conv)
qed (simp add: wrp_test_reg_def Let_def)

text \<open>The masked test skips an immediate of 0, and every half of it that is 0.\<close>

lemma test_half_cb:
  assumes doc: "me_documented isa" and fit: "regs_fit n p" "unat d < n" and op: "op AND 0x1f = op"
    and f: "\<And>x y c. fst (isa_alu isa op x y c) = f x y"
  shows "branches isa n p (test_imm_half op off (reg_lo d) imm p) (\<lambda>R. f (lo32 (R (unat d))) imm \<noteq> 0)"
    "branches isa n p (test_imm_half op off (reg_hi d) imm p) (\<lambda>R. f (hi32 (R (unat d))) imm \<noteq> 0)"
proof -
  have r: "unat (reg_lo d) < 2 * n" "unat (reg_hi d) < 2 * n" using fit(2) by (simp_all add: reg_nums)
  have g: "reg_is st (unat (reg_lo d)) (lo32 (R (unat d)))" "reg_is st (unat (reg_hi d)) (hi32 (R (unat d)))" if "matches n st R" for st R
    using matches_regs[OF that fit(2)] by (simp_all add: reg_nums)
  show "branches isa n p (test_imm_half op off (reg_lo d) imm p) (\<lambda>R. f (lo32 (R (unat d))) imm \<noteq> 0)"
    by (rule test_imm_branches[OF doc fit(1) op r(1) g(1) f])
  show "branches isa n p (test_imm_half op off (reg_hi d) imm p) (\<lambda>R. f (hi32 (R (unat d))) imm \<noteq> 0)"
    by (rule test_imm_branches[OF doc fit(1) op r(2) g(2) f])
qed

lemma branches_frame:
  assumes "branches isa n p q t" "regs_fit n p" "room p"
  shows "regs_fit n q" "room q"
proof -
  obtain ws where "emits p q ws" using assms(1) by (auto simp: branches_def)
  then show "regs_fit n q" "room q" using emits_scratch[of p q ws] assms(2,3) by (simp_all add: regs_fit_def)
qed

lemma and_halves: "a AND b \<noteq> 0 \<longleftrightarrow> lo32 a AND lo32 b \<noteq> 0 \<or> hi32 a AND hi32 b \<noteq> 0"
proof -
  have "lo32 a AND lo32 b = 0 \<and> hi32 a AND hi32 b = 0 \<longleftrightarrow> (lo32 (a AND b) OR hi32 (a AND b)) = 0"
    by (simp only: half_logic) (metis or_eq_0_iff)
  then show ?thesis by (auto simp: halves_zero)
qed

lemma neq_halves: "a \<noteq> b \<longleftrightarrow> lo32 a XOR lo32 b \<noteq> 0 \<or> hi32 a XOR hi32 b \<noteq> 0"
  using halves_xor[of a b] by (metis or_eq_0_iff)

lemma jset_imm_branches:
  assumes doc: "me_documented isa"
  shows "cb_branches isa n 0x45 jset_imm (operands (\<lambda>d s. d AND s \<noteq> 0))"
  unfolding jset_imm_def Let_def
proof (rule cb_branchesI[OF _ refl])
  fix meta :: nfp_insn_meta and p
  let ?insn = "im_insn meta" and ?d = "bi_dst_reg (im_insn meta)" and ?off = "bi_off (im_insn meta)"
  let ?lo = "imm_lo32 ?insn" and ?hi = "imm_hi32 ?insn"
  assume a: "bi_code ?insn = 0x45" "regs_fit n p" "room p" "unat ?d < n"
  note h = imm_halves(1,2)[of ?insn]
  have t: "operands (\<lambda>d s. d AND s \<noteq> 0) ?insn = (\<lambda>R. lo32 (R (unat ?d)) AND ?lo \<noteq> 0 \<or> hi32 (R (unat ?d)) AND ?hi \<noteq> 0)"
    using a(1) by (simp add: operands_def[abs_def] bpf_operand_def and_halves h)
  let ?q = "if ?lo \<noteq> 0 then test_imm_half ALU_OP_AND ?off (reg_lo ?d) ?lo p else p"
  let ?r = "if ?hi \<noteq> 0 then test_imm_half ALU_OP_AND ?off (reg_hi ?d) ?hi ?q else ?q"
  have op: "ALU_OP_AND AND 0x1f = ALU_OP_AND" by simp
  note and_op = me_doc_alu(5)[OF doc]
  have b1: "branches isa n p ?q (\<lambda>R. lo32 (R (unat ?d)) AND ?lo \<noteq> 0)"
    using test_half_cb(1)[OF doc a(2,4) op and_op] branches_none by simp
  have b2: "branches isa n ?q ?r (\<lambda>R. hi32 (R (unat ?d)) AND ?hi \<noteq> 0)"
    using test_half_cb(2)[OF doc branches_frame(1)[OF b1 a(2,3)] a(4) op and_op] branches_none by simp
  have zero: "?lo = 0 \<and> ?hi = 0" if "imm_sx ?insn = 0" using that h by (simp add: lo32_def hi32_def)
  show "branches isa n p (snd (if imm_sx ?insn = 0 then cb_ok (meta\<lparr>im_skip := True\<rparr>) p else cb_ok meta ?r)) (operands (\<lambda>d s. d AND s \<noteq> 0) ?insn)"
    unfolding t using branches_or[OF b1 b2] branches_none[of isa n p] zero by (auto simp: cb_ok_def)
qed

lemma jne_imm_branches:
  assumes doc: "me_documented isa"
  shows "cb_branches isa n 0x55 jne_imm (operands (\<noteq>))"
  unfolding jne_imm_def Let_def
proof (rule cb_branchesI[OF _ refl])
  fix meta :: nfp_insn_meta and p
  let ?insn = "im_insn meta" and ?d = "bi_dst_reg (im_insn meta)" and ?off = "bi_off (im_insn meta)"
  assume a: "bi_code ?insn = 0x55" "regs_fit n p" "room p" "unat ?d < n"
  note h = imm_halves(1,2)[of ?insn]
  let ?q = "if imm_sx ?insn = 0 then emit_br BR_BNE ?off 0 (emit_alu reg_none (reg_a (reg_lo ?d)) ALU_OP_OR (reg_b (reg_hi ?d)) p) else p"
  let ?r = "test_imm_half ALU_OP_XOR ?off (reg_lo ?d) (imm_lo32 ?insn) ?q"
  have op: "ALU_OP_XOR AND 0x1f = ALU_OP_XOR" by simp
  note xor_op = me_doc_alu(7)[OF doc]
  have k: "2 * n \<le> scratch p" using a(2) by (simp add: regs_fit_def)
  have lh: "unat (reg_lo ?d) < 256" "unat (reg_hi ?d) < 256" by (rule reg_small)+
  have b0: "branches isa n p ?q (\<lambda>R. imm_sx ?insn = 0 \<and> R (unat ?d) \<noteq> 0)"
  proof (cases "imm_sx ?insn = 0")
    case True
    have "branches isa n p (emit_br BR_BNE ?off 0 (emit_alu reg_none (reg_a (reg_lo ?d)) ALU_OP_OR (reg_b (reg_hi ?d)) p))
        (\<lambda>R. (lo32 (R (unat ?d)) OR hi32 (R (unat ?d)) = 0) = (BR_BNE = BR_BEQ))"
      by (rule or_branches[OF doc k _ emits_Nil, where Q = "\<lambda>st st'. st' = st"])
        (use lh matches_regs[OF _ a(4)] in \<open>simp_all add: straight_def reg_is_def reg_nums\<close>)
    then show ?thesis using True by (simp add: halves_zero)
  qed (simp add: branches_none)
  have b1: "branches isa n ?q ?r (\<lambda>R. lo32 (R (unat ?d)) XOR imm_lo32 ?insn \<noteq> 0)"
    by (rule test_half_cb(1)[OF doc branches_frame(1)[OF b0 a(2,3)] a(4) op xor_op])
  note r = branches_frame[OF b0 a(2,3)]
  have b2: "branches isa n ?r (test_imm_half ALU_OP_XOR ?off (reg_hi ?d) (imm_hi32 ?insn) ?r) (\<lambda>R. hi32 (R (unat ?d)) XOR imm_hi32 ?insn \<noteq> 0)"
    by (rule test_half_cb(2)[OF doc branches_frame(1)[OF b1 r] a(4) op xor_op])
  have "operands (\<noteq>) ?insn = (\<lambda>R. (imm_sx ?insn = 0 \<and> R (unat ?d) \<noteq> 0) \<or>
      lo32 (R (unat ?d)) XOR imm_lo32 ?insn \<noteq> 0 \<or> hi32 (R (unat ?d)) XOR imm_hi32 ?insn \<noteq> 0)"
  proof (rule ext)
    fix R
    have "operands (\<noteq>) ?insn R \<longleftrightarrow> R (unat ?d) \<noteq> imm_sx ?insn" using a(1) by (simp add: operands_def bpf_operand_def)
    then show "operands (\<noteq>) ?insn R = ((imm_sx ?insn = 0 \<and> R (unat ?d) \<noteq> 0) \<or>
      lo32 (R (unat ?d)) XOR imm_lo32 ?insn \<noteq> 0 \<or> hi32 (R (unat ?d)) XOR imm_hi32 ?insn \<noteq> 0)"
      using neq_halves[of "R (unat ?d)" "imm_sx ?insn"] unfolding h by (cases "imm_sx ?insn = 0") simp_all
  qed
  then show "branches isa n p (snd (cb_ok meta (test_imm_half ALU_OP_XOR ?off (reg_hi ?d) (imm_hi32 ?insn) ?r))) (operands (\<noteq>) ?insn)"
    using branches_or[OF b0 branches_or[OF b1 b2]] by (simp only: cb_ok_def snd_conv)
qed

text \<open>Equality with a constant and of two registers: two differences, then their disjunction.\<close>

lemma false_cond: "(False \<longrightarrow> P) = True" "(P \<and> True) = P" "(\<not> False \<and> P) = P" "(True \<longrightarrow> P) = P" by simp_all

lemma two_halves_emits:
  assumes us: "emits p q us" "straight isa us (\<lambda>st mid. \<forall>x. reg_is st a x \<longrightarrow> frame {k} st mid \<and> sw_val mid o1 = f x)"
    and ws: "emits q r ws" "straight isa ws (\<lambda>mid st'. \<forall>y. reg_is mid b y \<longrightarrow> frame {k} mid st' \<and> sw_val st' o2 = g y \<and>
      me_gpr st' ALU_DST_A = me_gpr mid ALU_DST_A)"
    and keep: "\<And>st st'. frame {k} st st' \<and> me_gpr st' ALU_DST_A = me_gpr st ALU_DST_A \<Longrightarrow> sw_val st' o1 = sw_val st o1"
    and b: "b \<noteq> k"
  shows "\<exists>vs. emits p r vs \<and> straight isa vs (\<lambda>st st'. \<forall>x y. reg_is st a x \<and> reg_is st b y \<longrightarrow>
    frame {k} st st' \<and> sw_val st' o1 = f x \<and> sw_val st' o2 = g y)"
proof (intro exI[of _ "us @ ws"] conjI emits_trans[OF us(1) ws(1)])
  show "straight isa (us @ ws) (\<lambda>st st'. \<forall>x y. reg_is st a x \<and> reg_is st b y \<longrightarrow>
      frame {k} st st' \<and> sw_val st' o1 = f x \<and> sw_val st' o2 = g y)"
  proof (rule straight_weaken[OF straight_append[OF us(2) ws(2)]], elim exE conjE, intro allI impI, elim conjE)
    fix st st' mid x y
    assume u: "\<forall>x. reg_is st a x \<longrightarrow> frame {k} st mid \<and> sw_val mid o1 = f x"
      and w: "\<forall>y. reg_is mid b y \<longrightarrow> frame {k} mid st' \<and> sw_val st' o2 = g y \<and> me_gpr st' ALU_DST_A = me_gpr mid ALU_DST_A"
      and xy: "reg_is st a x" "reg_is st b y"
    have f1: "frame {k} st mid" "sw_val mid o1 = f x" using u xy(1) by blast+
    have "reg_is mid b y" using frame_reg_is[OF f1(1), of b y] b xy(2) by simp
    then have f2: "frame {k} mid st'" "sw_val st' o2 = g y" "me_gpr st' ALU_DST_A = me_gpr mid ALU_DST_A" using w by blast+
    show "frame {k} st st' \<and> sw_val st' o1 = f x \<and> sw_val st' o2 = g y"
      using frame_trans[OF f1(1) f2(1)] f1(2) f2 keep[of mid st'] by simp
  qed
qed

lemma jeq_imm_branches:
  assumes doc: "me_documented isa"
  shows "cb_branches isa n 0x15 jeq_imm (operands (=))"
proof (rule cb_branchesI)
  fix meta :: nfp_insn_meta and p
  let ?insn = "im_insn meta" and ?d = "bi_dst_reg (im_insn meta)"
  let ?f = "\<lambda>meta p. case xor_imm_half (imm_a p) (reg_a (reg_lo (bi_dst_reg (im_insn meta)))) (reg_lo (bi_dst_reg (im_insn meta))) (imm_lo32 (im_insn meta)) p of
      (or1, p) \<Rightarrow> case xor_imm_half (imm_b p) (reg_b (reg_hi (bi_dst_reg (im_insn meta)))) (reg_hi (bi_dst_reg (im_insn meta))) (imm_hi32 (im_insn meta)) p of
      (or2, p) \<Rightarrow> cb_ok meta (emit_br BR_BEQ (bi_off (im_insn meta)) 0 (emit_alu reg_none or1 ALU_OP_OR or2 p))"
  assume a: "bi_code ?insn = 0x15" "regs_fit n p" "room p" "unat ?d < n"
  have k: "2 * n \<le> scratch p" "unat (np_regs_per_thread p - 2) < 254" using a(2) by (simp_all add: regs_fit_def)
  have ne: "unat (reg_lo ?d) \<noteq> scratch p" "unat (reg_hi ?d) \<noteq> scratch p" using k a(4) by (simp_all add: reg_nums)
  obtain us o1 q where u: "xor_imm_half (imm_a p) (reg_a (reg_lo ?d)) (reg_lo ?d) (imm_lo32 ?insn) p = (o1, q)" "emits p q us" "sw_src o1"
    "sw_type o1 = NN_REG_GPR_A"
    and keep: "\<forall>st st' x. frame {scratch p} st st' \<and> me_gpr st' ALU_DST_A = me_gpr st ALU_DST_A \<and> sw_val st o1 = x \<longrightarrow> sw_val st' o1 = x"
    and us: "straight isa us (\<lambda>st st'. \<forall>x. reg_is st (unat (reg_lo ?d)) x \<longrightarrow> frame {scratch p} st st' \<and> sw_val st' o1 = x XOR imm_lo32 ?insn)"
    using xor_imm_half_emits[OF doc k(2) reg_small(1) ne(1), of False "imm_lo32 ?insn"] unfolding scratch_out_def if_False false_cond by blast
  have q: "np_regs_per_thread q = np_regs_per_thread p" using emits_scratch[OF u(2) a(3)] by simp
  obtain ws o2 r where w: "xor_imm_half (imm_b q) (reg_b (reg_hi ?d)) (reg_hi ?d) (imm_hi32 ?insn) q = (o2, r)" "emits q r ws" "sw_src o2"
    "sw_type o2 = NN_REG_GPR_B"
    and ws: "straight isa ws (\<lambda>st st'. \<forall>x. reg_is st (unat (reg_hi ?d)) x \<longrightarrow> frame {scratch p} st st' \<and> sw_val st' o2 = x XOR imm_hi32 ?insn \<and>
      me_gpr st' ALU_DST_A = me_gpr st ALU_DST_A)"
    using xor_imm_half_emits[OF doc, of q "reg_hi ?d" True "imm_hi32 ?insn", unfolded q, OF k(2) reg_small(2) ne(2)]
    unfolding scratch_out_def if_True false_cond by blast
  obtain vs where vs: "emits p r vs" "straight isa vs (\<lambda>st st'. \<forall>x y. reg_is st (unat (reg_lo ?d)) x \<and> reg_is st (unat (reg_hi ?d)) y \<longrightarrow>
      frame {scratch p} st st' \<and> sw_val st' o1 = x XOR imm_lo32 ?insn \<and> sw_val st' o2 = y XOR imm_hi32 ?insn)"
    using two_halves_emits[OF u(2) us w(2) ws _ ne(2)] keep by blast
  have ty: "sw_type o1 \<noteq> sw_type o2" using u(4) w(4) by simp
  have b: "branches isa n p (emit_br BR_BEQ (bi_off ?insn) 0 (emit_alu reg_none o1 ALU_OP_OR o2 r))
      (\<lambda>R. ((lo32 (R (unat ?d)) XOR imm_lo32 ?insn) OR (hi32 (R (unat ?d)) XOR imm_hi32 ?insn) = 0) = (BR_BEQ = BR_BEQ))"
  proof (rule or_branches[OF doc k(1) _ vs ty u(3) w(3)])
    fix st st' R
    assume m: "matches n st R" and o: "\<forall>x y. reg_is st (unat (reg_lo ?d)) x \<and> reg_is st (unat (reg_hi ?d)) y \<longrightarrow>
      frame {scratch p} st st' \<and> sw_val st' o1 = x XOR imm_lo32 ?insn \<and> sw_val st' o2 = y XOR imm_hi32 ?insn"
    show "frame {scratch p} st st' \<and> sw_val st' o1 = lo32 (R (unat ?d)) XOR imm_lo32 ?insn \<and> sw_val st' o2 = hi32 (R (unat ?d)) XOR imm_hi32 ?insn"
      using o matches_regs[OF m a(4), folded reg_nums(1,2)] by blast
  qed simp
  have "operands (=) ?insn = (\<lambda>R. ((lo32 (R (unat ?d)) XOR imm_lo32 ?insn) OR (hi32 (R (unat ?d)) XOR imm_hi32 ?insn) = 0) = (BR_BEQ = BR_BEQ))"
    using a(1) by (simp add: operands_def[abs_def] bpf_operand_def imm_halves(1,2) halves_xor)
  with b show "branches isa n p (snd (?f meta p)) (operands (=) ?insn)" by (simp only: u(1) w(1) prod.case cb_ok_def snd_conv)
qed (simp add: jeq_imm_def Let_def)

lemma jeq_reg_branches:
  assumes doc: "me_documented isa"
  shows "cb_branches isa n 0x1d jeq_reg (operands (=))"
  unfolding jeq_reg_def Let_def
proof (rule cb_branchesI[OF _ refl])
  fix meta :: nfp_insn_meta and p
  let ?insn = "im_insn meta" and ?d = "bi_dst_reg (im_insn meta)" and ?s = "bi_src_reg (im_insn meta)"
  assume a: "bi_code ?insn = 0x1d" "regs_fit n p" "room p" "unat ?d < n" "unat ?s < n"
  let ?q = "emit_alu (imm_a p) (reg_a (reg_lo ?d)) ALU_OP_XOR (reg_b (reg_lo ?s)) p"
  let ?r = "emit_alu (imm_b ?q) (reg_a (reg_hi ?d)) ALU_OP_XOR (reg_b (reg_hi ?s)) ?q"
  have k: "2 * n \<le> scratch p" "unat (np_regs_per_thread p - 2) < 254" using a(2) by (simp_all add: regs_fit_def)
  have ne: "unat (reg_hi ?d) \<noteq> scratch p" "unat (reg_hi ?s) \<noteq> scratch p" using k a(4,5) by (simp_all add: reg_nums)
  note sm = reg_small[of ?d] reg_small[of ?s] and so = scratch_out_facts[OF k(2)]
  have lt: "sw_type (reg_a (reg_lo ?d)) \<noteq> sw_type (reg_b (reg_lo ?s))" "sw_type (reg_a (reg_hi ?d)) \<noteq> sw_type (reg_b (reg_hi ?s))"
    "sw_src (reg_a (reg_lo ?d))" "sw_src (reg_a (reg_hi ?d))" "sw_src (reg_b (reg_lo ?s))" "sw_src (reg_b (reg_hi ?s))" using sm by simp_all
  obtain u where u: "emits p ?q [u]" "straight isa [u] (\<lambda>st st'. frame {scratch p} st st' \<and>
      sw_val st' (imm_a p) = sw_val st (reg_a (reg_lo ?d)) XOR sw_val st (reg_b (reg_lo ?s)))"
    using xor_into_emits[OF doc k(2) lt(1,3,5), of p False] unfolding scratch_out_def if_False false_cond by blast
  have q: "np_regs_per_thread ?q = np_regs_per_thread p" using emits_scratch[OF u(1) a(3)] by simp
  have qb: "imm_b ?q = scratch_out p True" "imm_a p = scratch_out p False" using q by (simp_all add: scratch_out_def imm_b_def)
  obtain w where w: "emits ?q ?r [w]" "straight isa [w] (\<lambda>st st'. frame {scratch p} st st' \<and>
      sw_val st' (imm_b ?q) = sw_val st (reg_a (reg_hi ?d)) XOR sw_val st (reg_b (reg_hi ?s)) \<and> me_gpr st' ALU_DST_A = me_gpr st ALU_DST_A)"
    using xor_into_emits[OF doc k(2) lt(2,4,6), of ?q True] unfolding qb(1) false_cond by blast
  have r: "imm_a ?r = scratch_out p False" "imm_b ?r = scratch_out p True"
    using emits_scratch[OF emits_trans[OF u(1) w(1)] a(3)] by (simp_all add: scratch_out_def imm_a_def imm_b_def)
  have "branches isa n p (emit_br BR_BEQ (bi_off ?insn) 0 (emit_alu reg_none (scratch_out p False) ALU_OP_OR (scratch_out p True) ?r))
      (\<lambda>R. ((lo32 (R (unat ?d)) XOR lo32 (R (unat ?s))) OR (hi32 (R (unat ?d)) XOR hi32 (R (unat ?s))) = 0) = (BR_BEQ = BR_BEQ))"
  proof (rule or_branches[OF doc k(1) _ emits_trans[OF u(1) w(1)] straight_append[OF u(2) w(2)] _ so(3) so(3)], goal_cases)
    case (3 st st' R)
    then obtain mid where f1: "frame {scratch p} st mid" "sw_val mid (imm_a p) = sw_val st (reg_a (reg_lo ?d)) XOR sw_val st (reg_b (reg_lo ?s))"
      and f2: "frame {scratch p} mid st'" "sw_val st' (imm_b ?q) = sw_val mid (reg_a (reg_hi ?d)) XOR sw_val mid (reg_b (reg_hi ?s))"
        "me_gpr st' ALU_DST_A = me_gpr mid ALU_DST_A" by blast
    note rd = matches_regs[OF 3(1) a(4), folded reg_nums(1,2)] and rs = matches_regs[OF 3(1) a(5), folded reg_nums(1,2)]
    have h: "reg_is mid (unat (reg_hi ?d)) (hi32 (R (unat ?d)))" "reg_is mid (unat (reg_hi ?s)) (hi32 (R (unat ?s)))"
      using frame_reg_is[OF f1(1)] ne rd(2) rs(2) by simp_all
    have "sw_val st' (scratch_out p False) = lo32 (R (unat ?d)) XOR lo32 (R (unat ?s))"
      using f1(2) f2(3) rd(1) rs(1) sm so(5) unfolding qb(2) by (simp add: reg_is_def)
    moreover have "sw_val st' (scratch_out p True) = hi32 (R (unat ?d)) XOR hi32 (R (unat ?s))"
      using f2(2) h sm unfolding qb(1) by (simp add: reg_is_def)
    ultimately show ?case using frame_trans[OF f1(1) f2(1)] by simp
  qed (simp_all add: so)
  moreover have "operands (=) ?insn = (\<lambda>R. ((lo32 (R (unat ?d)) XOR lo32 (R (unat ?s))) OR (hi32 (R (unat ?d)) XOR hi32 (R (unat ?s))) = 0) = (BR_BEQ = BR_BEQ))"
    using a(1) by (simp add: operands_def[abs_def] bpf_operand_def halves_xor)
  ultimately show "branches isa n p (snd (cb_ok meta (emit_br BR_BEQ (bi_off ?insn) 0 (emit_alu reg_none (imm_a ?r) ALU_OP_OR (imm_b ?r) ?r)))) (operands (=) ?insn)"
    by (simp only: cb_ok_def snd_conv r)
qed

section \<open>The jump part of the table\<close>

lemma table_jumps:
  "(0x05, cb) \<in> set (instr_cb cl) \<Longrightarrow> cb = jump" "(0x15, cb) \<in> set (instr_cb cl) \<Longrightarrow> cb = jeq_imm"
  "(0x45, cb) \<in> set (instr_cb cl) \<Longrightarrow> cb = jset_imm" "(0x55, cb) \<in> set (instr_cb cl) \<Longrightarrow> cb = jne_imm"
  "(0x1d, cb) \<in> set (instr_cb cl) \<Longrightarrow> cb = jeq_reg" "(0x2d, cb) \<in> set (instr_cb cl) \<Longrightarrow> cb = jgt_reg"
  "(0x3d, cb) \<in> set (instr_cb cl) \<Longrightarrow> cb = jge_reg" "(0x4d, cb) \<in> set (instr_cb cl) \<Longrightarrow> cb = jset_reg"
  "(0x5d, cb) \<in> set (instr_cb cl) \<Longrightarrow> cb = jne_reg" "(0x25, cb) \<in> set (instr_cb cl) \<Longrightarrow> cb = jgt_imm"
  "(0x35, cb) \<in> set (instr_cb cl) \<Longrightarrow> cb = jge_imm" "(0xa5, cb) \<in> set (instr_cb cl) \<Longrightarrow> cb = jlt_imm"
  "(0xb5, cb) \<in> set (instr_cb cl) \<Longrightarrow> cb = jle_imm" "(0xad, cb) \<in> set (instr_cb cl) \<Longrightarrow> cb = jlt_reg"
  "(0xbd, cb) \<in> set (instr_cb cl) \<Longrightarrow> cb = jle_reg"
  by (simp_all add: instr_cb_def)

lemma cb_branches_cong:
  assumes "cb_branches isa n code cb t" "\<And>insn R. bi_code insn = code \<Longrightarrow> t insn R = t' insn R"
  shows "cb_branches isa n code cb t'"
  using assms by (simp add: cb_branches_def branches_def)

lemma good_jumps:
  assumes doc: "me_documented isa" "(code, cb) \<in> set (instr_cb cl)" "code \<in> {0x05, 0x15, 0x45, 0x55, 0x1d, 0x2d, 0x3d, 0x4d, 0x5d}"
  shows "cb_branches isa n code cb bpf_jump_taken"
proof -
  note b = me_doc_br[OF doc(1)]
  have j: "cb_branches isa n 0x2d jgt_reg (operands (\<lambda>d s. \<not> (if False then s \<le> d else d \<le> s)))"
    "cb_branches isa n 0x3d jge_reg (operands (\<lambda>d s. if True then s \<le> d else d \<le> s))"
    unfolding jgt_reg_def jge_reg_def by (rule cmp_reg_cb[OF doc(1)]; simp add: b)+
  have s: "cb_branches isa n 0x4d jset_reg (operands (\<lambda>d s. d AND s \<noteq> 0))" "cb_branches isa n 0x5d jne_reg (operands (\<noteq>))"
    unfolding jset_reg_def jne_reg_def
    by (rule test_reg_cb[OF doc(1), where f = "(AND)"], simp, simp add: me_doc_alu[OF doc(1)], simp, rule and_halves)
      (rule test_reg_cb[OF doc(1), where f = "(XOR)"], simp, simp add: me_doc_alu[OF doc(1)], simp, rule neq_halves)
  note all = jump_branches[OF doc(1)] jeq_imm_branches[OF doc(1)] jset_imm_branches[OF doc(1)] jne_imm_branches[OF doc(1)] jeq_reg_branches[OF doc(1)] j s
  have t: "cb_branches isa n 0x05 jump bpf_jump_taken" "cb_branches isa n 0x15 jeq_imm bpf_jump_taken"
    "cb_branches isa n 0x45 jset_imm bpf_jump_taken" "cb_branches isa n 0x55 jne_imm bpf_jump_taken"
    "cb_branches isa n 0x1d jeq_reg bpf_jump_taken" "cb_branches isa n 0x2d jgt_reg bpf_jump_taken"
    "cb_branches isa n 0x3d jge_reg bpf_jump_taken" "cb_branches isa n 0x4d jset_reg bpf_jump_taken"
    "cb_branches isa n 0x5d jne_reg bpf_jump_taken"
    by (rule cb_branches_cong, rule all, simp add: operands_def bpf_jump_taken_def Let_def not_le)+
  show ?thesis using doc(3) table_jumps(1-9)[of cb cl] doc(2) t by (elim insertE emptyE) simp_all
qed

text \<open>The comparison the other six make.\<close>

definition jit_compare :: "u8 \<Rightarrow> u64 \<Rightarrow> u64 \<Rightarrow> bool" where
  "jit_compare code d s =
     (if code = 0x25 then d < s else if code = 0x35 then d \<le> s else if code = 0xa5 then s \<le> d else if code = 0xb5 then s < d
      else if code = 0xad then d \<le> s else d < s)"

lemma bad_jumps:
  assumes doc: "me_documented isa" "(code, cb) \<in> set (instr_cb cl)" "code \<in> {0x25, 0x35, 0xa5, 0xb5, 0xad, 0xbd}"
  shows "cb_branches isa n code cb (operands (jit_compare code))"
proof -
  note b = me_doc_br[OF doc(1)]
  have i: "cb_branches isa n 0x25 jgt_imm (operands (\<lambda>d s. \<not> (if False then d \<le> s else s \<le> d)))"
    "cb_branches isa n 0x35 jge_imm (operands (\<lambda>d s. if True then d \<le> s else s \<le> d))"
    "cb_branches isa n 0xa5 jlt_imm (operands (\<lambda>d s. if False then d \<le> s else s \<le> d))"
    "cb_branches isa n 0xb5 jle_imm (operands (\<lambda>d s. \<not> (if True then d \<le> s else s \<le> d)))"
    unfolding jgt_imm_def jge_imm_def jlt_imm_def jle_imm_def by (rule cmp_imm_cb[OF doc(1)]; simp add: b)+
  have r: "cb_branches isa n 0xad jlt_reg (operands (\<lambda>d s. if False then s \<le> d else d \<le> s))"
    "cb_branches isa n 0xbd jle_reg (operands (\<lambda>d s. \<not> (if True then s \<le> d else d \<le> s)))"
    unfolding jlt_reg_def jle_reg_def by (rule cmp_reg_cb[OF doc(1)]; simp add: b)+
  have t: "cb_branches isa n 0x25 jgt_imm (operands (jit_compare 0x25))" "cb_branches isa n 0x35 jge_imm (operands (jit_compare 0x35))"
    "cb_branches isa n 0xa5 jlt_imm (operands (jit_compare 0xa5))" "cb_branches isa n 0xb5 jle_imm (operands (jit_compare 0xb5))"
    "cb_branches isa n 0xad jlt_reg (operands (jit_compare 0xad))" "cb_branches isa n 0xbd jle_reg (operands (jit_compare 0xbd))"
    by (rule cb_branches_cong, rule i r, simp add: operands_def jit_compare_def not_le)+
  show ?thesis using doc(3) table_jumps(10-15)[of cb cl] doc(2) t by (elim insertE emptyE) simp_all
qed

lemma compare_agree:
  assumes "bi_code insn \<in> {0x25, 0x35, 0xa5, 0xb5, 0xad, 0xbd}"
  shows "operands (jit_compare (bi_code insn)) insn R = bpf_jump_taken insn R \<longleftrightarrow>
    (if bi_code insn \<in> {0x25, 0x35} then R (unat (bi_dst_reg insn)) = bpf_operand insn R
     else if bi_code insn \<in> {0xa5, 0xb5} then False else R (unat (bi_dst_reg insn)) \<noteq> bpf_operand insn R)"
  using assms by (elim insertE emptyE; auto simp: operands_def jit_compare_def bpf_jump_taken_def Let_def)

section \<open>Properties\<close>

text \<open>A program and an instruction for the examples.\<close>

definition sample_prog :: nfp_prog where
  "sample_prog = (new_prog NN_ACT_XDP 0 0)\<lparr>np_regs_per_thread := 16, np_alloc_len := 8\<rparr>"

definition sample_meta :: "u8 \<Rightarrow> nfp_insn_meta" where
  "sample_meta code = \<lparr>im_insn = \<lparr>bi_code = code, bi_dst_reg = 1, bi_src_reg = 2, bi_off = 5, bi_imm = 0xffffff00\<rparr>,
     im_off = 0, im_n = 0, im_skip = False, im_double = False\<rparr>"

lemma sample_fits: "regs_fit 3 sample_prog" "room sample_prog"
  by (simp_all add: sample_prog_def regs_fit_def room_def new_prog_def)

text \<open>Claim C21. For nine of the fifteen jump instructions of the table, the unconditional jump (0x05), the tests of
  a register with a constant for equality (0x15), inequality (0x55) and common bits (0x45), and the tests of two registers
  for equality (0x1d), inequality (0x5d), common bits (0x4d), unsigned greater (0x2d) and unsigned greater or equal (0x3d),
  the emitted code leaves through its branches exactly when the instruction jumps, and keeps the BPF registers. The
  other six test another condition, which is the subject of the next claim.\<close>

theorem jit_jump_refines:
  assumes "me_documented isa" and "map_of (instr_cb cl) (bi_code (im_insn meta)) = Some cb"
    and "bi_code (im_insn meta) \<in> {0x05, 0x15, 0x45, 0x55, 0x1d, 0x2d, 0x3d, 0x4d, 0x5d}" and "cb meta p = ((0, meta'), q)"
    and "regs_fit n p" and "room p" and "unat (bi_dst_reg (im_insn meta)) < n" and "unat (bi_src_reg (im_insn meta)) < n"
  shows "branches isa n p q (bpf_jump_taken (im_insn meta))"
proof -
  have "cb_branches isa n (bi_code (im_insn meta)) cb bpf_jump_taken"
    by (rule good_jumps[OF assms(1) map_of_SomeD[OF assms(2)] assms(3)])
  then show ?thesis using assms(4-) unfolding cb_branches_def by blast
qed

lemma jit_jump_refines_witness:
  "branches sample_isa 3 sample_prog (snd (jeq_imm (sample_meta 0x15) sample_prog)) (bpf_jump_taken (im_insn (sample_meta 0x15)))"
proof -
  have a: "map_of (instr_cb cl) (bi_code (im_insn (sample_meta 0x15))) = Some jeq_imm" for cl by (simp add: sample_meta_def instr_cb_def)
  have b: "jeq_imm (sample_meta 0x15) sample_prog = ((0, sample_meta 0x15), snd (jeq_imm (sample_meta 0x15) sample_prog))"
    by (simp add: jeq_imm_def Let_def jumping_def cb_ok_def sample_meta_def split: prod.split)
  show ?thesis by (rule jit_jump_refines[OF sample_documented a _ b sample_fits]) (simp_all add: sample_meta_def)
qed

text \<open>Claim C24. The code emitted for the four comparisons of a register with a constant, and for less and less or
  equal of two registers, makes another comparison: for greater (or equal) than a constant it agrees with the
  instruction only for equal operands, for less (or equal) than a constant never, and for two registers unless
  they are equal.\<close>

theorem jit_compare_wrong:
  assumes "me_documented isa" and "map_of (instr_cb cl) (bi_code (im_insn meta)) = Some cb"
    and "bi_code (im_insn meta) \<in> {0x25, 0x35, 0xa5, 0xb5, 0xad, 0xbd}" and "cb meta p = ((0, meta'), q)"
    and "regs_fit n p" and "room p" and "unat (bi_dst_reg (im_insn meta)) < n" and "unat (bi_src_reg (im_insn meta)) < n"
  shows "branches isa n p q (operands (jit_compare (bi_code (im_insn meta))) (im_insn meta)) \<and>
    (\<forall>R. operands (jit_compare (bi_code (im_insn meta))) (im_insn meta) R = bpf_jump_taken (im_insn meta) R \<longleftrightarrow>
      (if bi_code (im_insn meta) \<in> {0x25, 0x35} then R (unat (bi_dst_reg (im_insn meta))) = bpf_operand (im_insn meta) R
       else if bi_code (im_insn meta) \<in> {0xa5, 0xb5} then False
       else R (unat (bi_dst_reg (im_insn meta))) \<noteq> bpf_operand (im_insn meta) R))"
proof
  have "cb_branches isa n (bi_code (im_insn meta)) cb (operands (jit_compare (bi_code (im_insn meta))))"
    by (rule bad_jumps[OF assms(1) map_of_SomeD[OF assms(2)] assms(3)])
  then show "branches isa n p q (operands (jit_compare (bi_code (im_insn meta))) (im_insn meta))"
    using assms(4-) unfolding cb_branches_def by blast
qed (intro allI compare_agree[OF assms(3)])

lemma jit_compare_wrong_witness:
  "branches sample_isa 3 sample_prog (snd (jlt_imm (sample_meta 0xa5) sample_prog)) (operands (jit_compare 0xa5) (im_insn (sample_meta 0xa5))) \<and>
   (\<forall>R. operands (jit_compare 0xa5) (im_insn (sample_meta 0xa5)) R \<noteq> bpf_jump_taken (im_insn (sample_meta 0xa5)) R)"
proof -
  have a: "map_of (instr_cb cl) (bi_code (im_insn (sample_meta 0xa5))) = Some jlt_imm" for cl by (simp add: sample_meta_def instr_cb_def)
  have b: "jlt_imm (sample_meta 0xa5) sample_prog = ((0, sample_meta 0xa5), snd (jlt_imm (sample_meta 0xa5) sample_prog))"
    by (simp add: jlt_imm_def wrp_cmp_imm_def Let_def jumping_def cb_ok_def sample_meta_def)
  have c: "bi_code (im_insn (sample_meta 0xa5)) = 0xa5" by (simp add: sample_meta_def)
  have "bi_code (im_insn (sample_meta 0xa5)) \<in> {0x25, 0x35, 0xa5, 0xb5, 0xad, 0xbd}"
    "unat (bi_dst_reg (im_insn (sample_meta 0xa5))) < 3" "unat (bi_src_reg (im_insn (sample_meta 0xa5))) < 3" by (simp_all add: sample_meta_def)
  from jit_compare_wrong[OF sample_documented a this(1) b sample_fits this(2,3)] show ?thesis unfolding c by simp
qed

end
