(* ===== verification/Bpf_Bounds.thy ===== *)
theory Bpf_Bounds
  imports Bpf_Program
begin

text \<open>
  What the translation leaves of a program under construction: it only appends, never past the
  end of the buffer, and reports every word that did not fit. From this the branch fix-up never
  looks outside of the program.
\<close>

section \<open>Appending\<close>

definition grows :: "nfp_prog \<Rightarrow> nfp_prog \<Rightarrow> bool" where
  "grows p q \<longleftrightarrow>
     np_alloc_len q = np_alloc_len p \<and> np_start_off q = np_start_off p \<and> np_regs_per_thread q = np_regs_per_thread p \<and>
     np_act q = np_act p \<and> np_insns q = np_insns p \<and> length (np_prog p) \<le> length (np_prog q) \<and>
     (length (np_prog p) \<le> np_alloc_len p \<longrightarrow> length (np_prog q) \<le> np_alloc_len p) \<and>
     (np_error p \<noteq> 0 \<longrightarrow> np_error q \<noteq> 0) \<and> (np_prog p \<noteq> [] \<longrightarrow> np_oob q = np_oob p) \<and>
     (np_error q = 0 \<longrightarrow> (\<exists>ws. np_prog q = np_prog p @ ws))"

lemma grows_refl [simp]: "grows p p" by (simp add: grows_def)

lemma grows_trans [trans]: "grows p q \<Longrightarrow> grows q r \<Longrightarrow> grows p r"
  unfolding grows_def
  by (intro conjI impI; elim conjE; (simp; fail)?) (fastforce, metis append.assoc)

lemma grows_fail [simp]: "err \<noteq> 0 \<Longrightarrow> grows p (prog_fail err p)"
  by (simp add: grows_def prog_fail_def)

lemma grows_push [simp]: "grows p (nfp_prog_push w p)"
  by (auto simp: grows_def nfp_prog_push_def prog_fail_def)

lemma reg_errors:
  "swreg_to_unrestricted d l r = Inl err \<Longrightarrow> err \<noteq> 0" "swreg_to_restricted d l r i = Inl err \<Longrightarrow> err \<noteq> 0"
  by (auto simp: swreg_to_unrestricted_def swreg_to_restricted_def Let_def split: if_split_asm)

lemma grows_emit [simp]:
  "grows p (emit_cmd op mode xfer l r sz sync p)" "grows p (emit_br_def addr defer p)" "grows p (emit_br msk addr defer p)"
  "grows p (emit_br_byte_neq dst imm byte addr defer p)" "grows p (emit_immed dst im16 width neg sh p)"
  "grows p (emit_shf dst l sop r sc shift p)" "grows p (emit_alu dst l aop r p)" "grows p (emit_ld_field dst bmask src sc shift p)"
  unfolding emit_cmd_def emit_br_def_def emit_br_def emit_br_byte_neq_def emit_immed_def emit_shf_def emit_shf_raw_def emit_alu_def
    emit_ld_field_def emit_ld_field_any_def Let_def
  by (auto split: sum.split dest: reg_errors)

lemmas grows_steps = grows_trans[OF _ grows_emit(1)] grows_trans[OF _ grows_emit(2)] grows_trans[OF _ grows_emit(3)]
  grows_trans[OF _ grows_emit(4)] grows_trans[OF _ grows_emit(5)] grows_trans[OF _ grows_emit(6)] grows_trans[OF _ grows_emit(7)]
  grows_trans[OF _ grows_emit(8)]

lemma grows_wrp_immed [simp]: "grows p (wrp_immed dst imm p)"
  unfolding wrp_immed_def by (auto split: option.split prod.split intro!: grows_steps)

lemma grows_reg_mov [simp]: "grows p (wrp_reg_mov d16 s16 p)"
  by (simp add: wrp_reg_mov_def)

text \<open>Marking the last word is safe right behind an emitted branch.\<close>

lemma grows_br_special [simp]: "grows p (wrp_br_special msk special p)"
  by (cases "np_alloc_len p = length (np_prog p)")
    (auto simp: grows_def wrp_br_special_def emit_br_def nfp_prog_push_def prog_fail_def set_special_def)

lemmas grows_intros = grows_steps grows_trans[OF _ grows_wrp_immed] grows_trans[OF _ grows_reg_mov] grows_trans[OF _ grows_br_special]

lemma grows_ur_load: "ur_load_imm_any imm t q = (r, q') \<Longrightarrow> grows p q \<Longrightarrow> grows p q'"
  by (auto simp: ur_load_imm_any_def split: if_split_asm intro: grows_intros)

lemma grows_re_load: "re_load_imm_any imm t q = (r, q') \<Longrightarrow> grows p q \<Longrightarrow> grows p q'"
  by (auto simp: re_load_imm_any_def split: if_split_asm intro: grows_intros)

lemma grows_fold: "(\<And>i p. grows p (f i p)) \<Longrightarrow> grows p (fold f is p)"
  by (induction "is" arbitrary: p) (auto intro: grows_trans)

lemma grows_data_ld_offset [simp]: "grows p (data_ld_offset offset src sz p)"
  unfolding data_ld_offset_def Let_def
  by (auto split: prod.split intro!: grows_intros intro: grows_ur_load[OF _ grows_refl])

lemma grows_alu_imm [simp]: "grows p (wrp_alu_imm dst op imm p)"
  unfolding wrp_alu_imm_def by (auto split: prod.split intro!: grows_intros intro: grows_ur_load[OF _ grows_refl])

lemma grows_set_mark [simp]: "grows p (wrp_set_mark src p)"
  unfolding wrp_set_mark_def by (auto intro!: grows_intros)

lemma grows_data_ind_ld [simp]: "grows p (construct_data_ind_ld offset src valid sz p)"
proof -
  have a: "grows p (let p = data_ld_offset offset src sz p in emit_cmd op mode x (pkt_reg p) (imm_b p) n s p)" for op mode x n s
    by (auto simp: Let_def intro!: grows_intros)
  have b: "grows p (case ur_load_imm_any v1 (imm_a p) p of (tmp_reg, p) \<Rightarrow>
      let p = wrp_br_special m1 s1 (emit_alu d1 l1 o1 tmp_reg p)
      in case re_load_imm_any v2 (imm_b p) p of (tmp_reg, p) \<Rightarrow> emit_cmd op mode x (pkt_reg p) tmp_reg n s p)" for op mode x n s m1 s1 d1 l1 o1 v1 v2
    by (auto simp: Let_def split: prod.split intro!: grows_intros elim!: grows_re_load grows_ur_load)
  show ?thesis
    unfolding construct_data_ind_ld_def Let_def
    using a[unfolded Let_def] b[unfolded Let_def] by (auto intro!: grows_intros grows_trans[OF _ grows_fold])
qed

section \<open>Callbacks\<close>

text \<open>A callback appends, and of the instruction it changes no more than two flags.\<close>

definition cb_appends :: "instr_cb \<Rightarrow> bool" where
  "cb_appends cb \<longleftrightarrow> (\<forall>meta p. grows p (snd (cb meta p)) \<and> im_insn (snd (fst (cb meta p))) = im_insn meta \<and>
     im_off (snd (fst (cb meta p))) = im_off meta \<and> im_n (snd (fst (cb meta p))) = im_n meta)"

lemma alu_append:
  "cb_appends (wrp_alu64_imm op skip)" "cb_appends (alu_reg_pair op op')" "cb_appends (wrp_alu32_imm op skip)" "cb_appends (wrp_alu32_reg op)"
  "cb_appends mov_reg64" "cb_appends mov_imm64" "cb_appends (alu_imm_pair op op')" "cb_appends shl_imm64" "cb_appends shr_imm64"
  "cb_appends mov_reg" "cb_appends mov_imm" "cb_appends shl_imm" "cb_appends (imm_ld8_part2 prev)" "cb_appends imm_ld8"
  unfolding cb_appends_def wrp_alu64_imm_def alu_reg_pair_def wrp_alu32_imm_def wrp_alu32_reg_def mov_reg64_def mov_imm64_def alu_imm_pair_def
    shl_imm64_def shr_imm64_def mov_reg_def mov_imm_def shl_imm_def imm_ld8_part2_def imm_ld8_def Let_def cb_ok_def cb_err_def
  by (auto intro!: grows_intros grows_trans[OF _ grows_alu_imm])

lemma mem_append:
  "cb_appends (data_ld sz)" "cb_appends (data_ind_ld sz)" "cb_appends (mem_ldx4 cl)" "cb_appends (mem_stx4 cl)"
  unfolding cb_appends_def data_ld_def construct_data_ld_def data_ind_ld_def mem_ldx4_def mem_ldx4_xdp_def mem_ldx4_skb_def mem_stx4_def
    mem_stx4_xdp_def mem_stx4_skb_def Let_def cb_ok_def cb_err_def
  by (auto intro!: grows_intros)

lemma grows_cmp_half [simp]: "grows p (cmp_imm_half op swap reg imm p)"
  unfolding cmp_imm_half_def by (auto split: prod.split intro!: grows_intros elim!: grows_ur_load)

lemma grows_test_half [simp]: "grows p (test_imm_half op off reg imm p)"
  unfolding test_imm_half_def by (auto split: prod.split intro!: grows_intros elim!: grows_ur_load)

lemma grows_xor_half: "xor_imm_half out plain reg imm q = (r, q') \<Longrightarrow> grows p q \<Longrightarrow> grows p q'"
  unfolding xor_imm_half_def by (auto split: prod.split_asm if_split_asm intro!: grows_intros elim!: grows_ur_load)

lemma jump_append:
  "cb_appends (wrp_test_reg op msk)" "cb_appends (wrp_cmp_imm msk swap)" "cb_appends (wrp_cmp_reg msk swap)" "cb_appends jump"
  "cb_appends jeq_imm" "cb_appends jset_imm" "cb_appends jne_imm" "cb_appends jeq_reg" "cb_appends goto_out"
  unfolding cb_appends_def wrp_test_reg_def wrp_test_reg_one_def wrp_cmp_imm_def wrp_cmp_reg_def jump_def jeq_imm_def jset_imm_def jne_imm_def
    jeq_reg_def goto_out_def jumping_def Let_def cb_ok_def cb_err_def
  by (auto split: prod.split intro!: grows_intros grows_trans[OF _ grows_cmp_half] grows_trans[OF _ grows_test_half] elim!: grows_xor_half)

lemma table_append:
  assumes "(code, cb) \<in> set (instr_cb cl)"
  shows "cb_appends cb"
proof -
  have imm: "cb_appends (\<lambda>meta. wrp_alu64_imm op (skip meta) meta)" "cb_appends (\<lambda>meta. wrp_alu32_imm op (skip meta) meta)" for op skip
    using alu_append(1,3) unfolding cb_appends_def by blast+
  have "list_all (\<lambda>(code, cb). cb_appends cb) (instr_cb cl)"
    unfolding instr_cb_def list.pred_inject case_prod_conv
      xor_reg64_def and_reg64_def or_reg64_def wrp_alu64_reg_def xor_imm64_def[abs_def] and_imm64_def[abs_def] or_imm64_def[abs_def]
      add_reg64_def sub_reg64_def add_imm64_def sub_imm64_def
      xor_reg_def and_reg_def or_reg_def add_reg_def sub_reg_def xor_imm_def[abs_def] and_imm_def[abs_def] or_imm_def[abs_def]
      add_imm_def[abs_def] sub_imm_def[abs_def] jgt_imm_def jge_imm_def jlt_imm_def jle_imm_def jgt_reg_def jge_reg_def jlt_reg_def jle_reg_def
      jset_reg_def jne_reg_def
    by (intro conjI alu_append mem_append jump_append imm) simp
  then show ?thesis using assms by (auto simp: list_all_iff)
qed

section \<open>The loop\<close>

lemma grows_translated: "grows p (q\<lparr>np_n_translated := k\<rparr>) = grows p q" "grows (p\<lparr>np_n_translated := k\<rparr>) q = grows p q"
  by (simp_all add: grows_def)

lemma pick_append: "pick_cb cl prev meta = Some cb \<Longrightarrow> cb_appends cb"
  by (auto simp: pick_cb_def split: option.split_asm if_split_asm intro: alu_append(13) table_append dest: map_of_SomeD)

text \<open>An instruction's offset is where the program ended when its turn came.\<close>

definition offset_in :: "nfp_prog \<Rightarrow> nfp_prog \<Rightarrow> nfp_insn_meta \<Rightarrow> bool" where
  "offset_in p q m \<longleftrightarrow> (\<exists>k. im_off m = np_start_off p + of_nat k \<and> length (np_prog p) \<le> k \<and> k \<le> length (np_prog q))"

lemma offset_in_mono: "offset_in p q m \<Longrightarrow> grows p' p \<Longrightarrow> grows q q' \<Longrightarrow> offset_in p' q' m"
proof -
  assume o: "offset_in p q m" and g: "grows p' p" "grows q q'"
  obtain k where k: "im_off m = np_start_off p + of_nat k" "length (np_prog p) \<le> k" "k \<le> length (np_prog q)"
    using o unfolding offset_in_def by blast
  have "np_start_off p = np_start_off p'" "length (np_prog p') \<le> k" "k \<le> length (np_prog q')"
    using g k(2,3) unfolding grows_def by linarith+
  then show "offset_in p' q' m" using k(1) unfolding offset_in_def by metis
qed

lemma translate_loop_bounds:
  assumes "translate_loop cl prev ms p = (err, ms', q)"
  shows "grows p q \<and> length ms' = length ms \<and> (err = 0 \<longrightarrow> list_all (offset_in p q) ms' \<and> map im_insn ms' = map im_insn ms)"
  using assms
proof (induction ms arbitrary: prev p ms' err q)
  case (Cons meta ms)
  define m where "m = meta\<lparr>im_off := nfp_prog_current_offset p\<rparr>"
  have here: "offset_in p q' m'" if "im_off m' = im_off m" "grows p q'" for q' m'
    unfolding offset_in_def
    by (rule exI[of _ "length (np_prog p)"]) (use that in \<open>simp add: m_def nfp_prog_current_offset_def grows_def\<close>)
  show ?case
  proof (cases "im_skip m")
    case True
    obtain ms1 where r: "translate_loop cl (Some m) ms (p\<lparr>np_n_translated := np_n_translated p + 1\<rparr>) = (err, ms1, q)" "ms' = m # ms1"
      using Cons.prems True by (auto simp: m_def[symmetric] Let_def split: prod.split_asm)
    note ih = Cons.IH[OF r(1)]
    have g: "grows p q" using ih by (simp add: grows_translated)
    show ?thesis using ih g here[OF refl g] r(2) by (auto simp: list_all_iff offset_in_def m_def)
  next
    case False
    show ?thesis
    proof (cases "pick_cb cl prev m")
      case None
      then show ?thesis using Cons.prems False by (auto simp: m_def[symmetric] Let_def)
    next
      case (Some cb)
      obtain e m1 p1 where c: "cb m p = ((e, m1), p1)" by (cases "cb m p") auto
      have a: "grows p p1" "im_insn m1 = im_insn m" "im_off m1 = im_off m"
        using pick_append[OF Some] c unfolding cb_appends_def by (metis fst_conv snd_conv)+
      show ?thesis
      proof (cases "e = 0")
        case False
        then show ?thesis using Cons.prems \<open>\<not> im_skip m\<close> Some c a by (auto simp: m_def[symmetric] Let_def)
      next
        case True
        obtain ms1 where r: "translate_loop cl (Some m1) ms (p1\<lparr>np_n_translated := np_n_translated p1 + 1\<rparr>) = (err, ms1, q)" "ms' = m1 # ms1"
          using Cons.prems \<open>\<not> im_skip m\<close> Some c True by (auto simp: m_def[symmetric] Let_def split: prod.split_asm)
        note ih = Cons.IH[OF r(1)]
        have g: "grows p1 q" "grows p q" using ih a(1) by (auto simp: grows_translated intro: grows_trans)
        have "list_all (offset_in p q) ms1" if "err = 0"
          using ih that offset_in_mono[OF _ a(1) grows_refl] by (auto simp: list_all_iff offset_in_def[of "p1\<lparr>np_n_translated := _\<rparr>"] offset_in_def[of p1])
        then show ?thesis using ih g here[OF a(3) g(2)] r(2) a(2) by (auto simp: m_def)
      qed
    qed
  qed
qed simp

section \<open>The rest of the translation\<close>

lemma grows_set_tgt [simp]: "grows p (set_tgt_abort p)" "grows p (set_tgt_out p)"
  by (simp_all add: grows_def set_tgt_abort_def set_tgt_out_def)

lemma grows_outro: "grows p (nfp_outro p)"
  unfolding nfp_outro_def nfp_outro_tc_da_def nfp_outro_tc_legacy_def nfp_outro_xdp_def flags_to_a0_def Let_def
  by (auto split: nfp_bpf_action_type.split intro!: grows_intros grows_trans[OF _ grows_set_tgt(1)] grows_trans[OF _ grows_set_tgt(2)])

lemma intro_pushes:
  assumes "np_error p = 0" "np_error (nfp_intro p) = 0"
  shows "grows p (nfp_intro p)" "np_prog (nfp_intro p) \<noteq> []"
  using assms unfolding nfp_intro_def emit_alu_def
  by (auto simp: grows_def nfp_prog_push_def prog_fail_def split: sum.split_asm if_split_asm dest: reg_errors)

definition indexed :: "nfp_prog \<Rightarrow> nfp_insn_meta \<Rightarrow> bool" where
  "indexed p m \<longleftrightarrow> (\<exists>k. im_off m = np_start_off p + of_nat k \<and> 1 \<le> k \<and> k \<le> length (np_prog p))"

lemma set_targets_length [simp]: "length (set_targets a b t ws) = length ws"
  by (simp add: set_targets_def)

lemma indexed_before:
  assumes "indexed p m" "length (np_prog p) < 2 ^ 32"
  shows "unat (nfp_prog_offset_to_index p (im_off m) - 1) < length (np_prog p)"
proof -
  obtain k where k: "im_off m = np_start_off p + of_nat k" "1 \<le> k" "k \<le> length (np_prog p)" using assms(1) by (auto simp: indexed_def)
  have "nfp_prog_offset_to_index p (im_off m) - 1 = of_nat (k - 1)" using k by (simp add: nfp_prog_offset_to_index_def of_nat_diff)
  moreover have "unat (of_nat (k - 1) :: u32) = k - 1" using k assms(2) by (subst unsigned_of_nat, subst take_bit_nat_eq_self) simp_all
  ultimately have "unat (nfp_prog_offset_to_index p (im_off m) - 1) = k - 1" by simp
  then show ?thesis using k by linarith
qed

text \<open>The fix-up of one instruction touches only words of the program.\<close>

lemma fixup_one_some:
  assumes "indexed p nxt" "length (np_prog p) < 2 ^ 32"
  shows "\<exists>e ws. fixup_one m nxt rest p = Some (e, p\<lparr>np_prog := ws\<rparr>) \<and> length ws = length (np_prog p)"
proof -
  have same: "p = p\<lparr>np_prog := np_prog p\<rparr>" by simp
  note i = indexed_before[OF assms]
  show ?thesis
    using i unfolding fixup_one_def Let_def
    by (auto split: prod.split intro: exI[of _ "np_prog p"])
qed

lemma fixup_walk_some:
  assumes "list_all (indexed p) (tl ms)" "length (np_prog p) < 2 ^ 32"
  shows "\<exists>e ws. fixup_walk ms p = Some (e, p\<lparr>np_prog := ws\<rparr>) \<and> length ws = length (np_prog p)"
  using assms
proof (induction ms p rule: fixup_walk_induct)
  case (Walk meta nxt rest p)
  obtain e ws where o: "fixup_one meta nxt rest p = Some (e, p\<lparr>np_prog := ws\<rparr>)" "length ws = length (np_prog p)"
    using fixup_one_some[of p nxt meta rest] Walk(2,3) by auto
  show ?case
  proof (cases "e = 0")
    case True
    have "list_all (indexed (p\<lparr>np_prog := ws\<rparr>)) (tl (nxt # rest))" using Walk(2) o(2) by (auto simp: indexed_def list_all_iff)
    then have "\<exists>e' vs. fixup_walk (nxt # rest) (p\<lparr>np_prog := ws\<rparr>) = Some (e', p\<lparr>np_prog := ws\<rparr>\<lparr>np_prog := vs\<rparr>) \<and> length vs = length ws"
      using Walk(1)[OF o(1) refl] True Walk(3) o(2) by auto
    then show ?thesis using o True by auto
  next
    case False
    then show ?thesis using o by auto
  qed
next
  case (Empty p)
  then show ?case by (auto intro: exI[of _ "np_prog p"])
next
  case (Last m p)
  then show ?case by (auto intro: exI[of _ "np_prog p"])
qed

lemma translate_bounds:
  assumes p: "np_prog p = []" "np_error p = 0" "\<not> np_oob p" "np_alloc_len p < 2 ^ 32"
  shows "\<exists>e q. nfp_translate cl p = Some (e, q) \<and> \<not> np_oob q \<and> length (np_prog q) \<le> np_alloc_len p"
proof -
  define p1 where "p1 = nfp_intro p"
  have small: "length (np_prog p) \<le> np_alloc_len p" using p(1) by simp
  show ?thesis
  proof (cases "np_error p1 = 0")
    case False
    have "length (np_prog p1) \<le> np_alloc_len p \<and> \<not> np_oob p1"
      using p by (auto simp: p1_def nfp_intro_def emit_alu_def nfp_prog_push_def prog_fail_def split: sum.split)
    then show ?thesis using False by (simp add: nfp_translate_def p1_def[symmetric] Let_def)
  next
    case True
    note i = intro_pushes[OF p(2), folded p1_def, OF True]
    obtain e ms p2 where l: "translate_loop cl None (np_insns p1) p1 = (e, ms, p2)" by (metis prod_cases3)
    note b = translate_loop_bounds[OF l]
    have g2: "grows p1 p2" using b by simp
    define p3 where "p3 = p2\<lparr>np_insns := ms\<rparr>"
    have p3: "length (np_prog p3) \<le> np_alloc_len p" "\<not> np_oob p3" "np_prog p3 \<noteq> []" "np_start_off p3 = np_start_off p1" "np_alloc_len p3 = np_alloc_len p"
      using i g2 small p(3) by (auto simp: grows_def p3_def nfp_intro_def emit_alu_def nfp_prog_push_def prog_fail_def p1_def split: sum.split_asm if_split_asm)
    show ?thesis
    proof (cases "e = 0")
      case False
      then show ?thesis using True l p3 by (simp add: nfp_translate_def p1_def[symmetric] Let_def p3_def[symmetric])
    next
      case e: True
      define p4 where "p4 = nfp_outro p3"
      have g4: "grows p3 p4" unfolding p4_def by (rule grows_outro)
      have p4: "length (np_prog p4) \<le> np_alloc_len p" "\<not> np_oob p4" "np_insns p4 = ms" "np_start_off p4 = np_start_off p1" "length (np_prog p2) \<le> length (np_prog p4)"
        using g4 p3 by (auto simp: grows_def p3_def)
      have "list_all (offset_in p1 p2) ms" using b e by simp
      then have "list_all (indexed p4) ms"
        using i(2) p4(4,5) unfolding offset_in_def indexed_def list_all_iff by (metis One_nat_def Suc_leI le_trans length_greater_0_conv)
      then have t: "list_all (indexed p4) (tl ms)" by (cases ms) auto
      obtain f ws where w: "fixup_walk ms p4 = Some (f, p4\<lparr>np_prog := ws\<rparr>)" "length ws = length (np_prog p4)"
        using fixup_walk_some[OF t] p4(1) p(4) by auto
      show ?thesis using True e l w p4
        by (auto simp: nfp_translate_def p1_def[symmetric] Let_def p3_def[symmetric] p4_def[symmetric] nfp_fixup_branches_def)
    qed
  qed
qed

section \<open>The walk to an instruction\<close>

lemma goto_meta_walk:
  assumes "unat (ucast n :: u32) < unat n_insns" "unat idx < unat n_insns" "unat n_insns \<le> 2 ^ 31" "pos = uint (n :: u16)"
  shows "nfp_bpf_goto_meta n pos idx n_insns = uint idx"
proof -
  have n: "unat (ucast n :: u32) = unat n" using unsigned_less[of n, where ?'a = nat] by (simp add: unsigned_ucast_eq take_bit_nat_eq_self)
  define a b t where "a = unat n" and "b = unat idx" and "t = unat n_insns"
  have lt: "a < t" "b < t" "t \<le> 2 ^ 31" using assms n by (simp_all add: a_def b_def t_def)
  have fwd: "unat (idx - ucast n) = (if a \<le> b then b - a else 2 ^ 32 + b - a)"
    using n lt by (auto simp: unat_sub_if' a_def b_def)
  have bwd: "unat (ucast n - idx) = (if b \<le> a then a - b else 2 ^ 32 + a - b)"
    using n lt by (auto simp: unat_sub_if' a_def b_def)
  have last: "unat (n_insns - idx - 1) = t - b - 1" "unat (n_insns - 1) = t - 1"
    using lt by (simp_all add: unat_sub_if' t_def b_def word_le_nat_alt)
  have u: "uint x = int (unat x)" for x :: u32 by simp
  have p: "pos = int a" using assms(4) by (simp add: a_def)
  define f g l where "f = idx - ucast n" and "g = ucast n - idx" and "l = n_insns - idx - 1"
  have v: "unat f = (if a \<le> b then b - a else 2 ^ 32 + b - a)" "unat g = (if b \<le> a then a - b else 2 ^ 32 + a - b)" "unat l = t - b - 1"
    using fwd bwd last by (simp_all add: f_def g_def l_def)
  have e: "nfp_bpf_goto_meta n pos idx n_insns =
      (if min f g > l then (if min f l > idx \<and> l > idx then (if idx < l then uint idx else - uint l)
          else if f < l then uint (n_insns - 1) + uint f else uint (n_insns - 1) - uint l)
       else if min f g > idx \<and> g > idx then (if idx < g then uint idx else - uint g)
       else if f < g then pos + uint f else pos - uint g)"
    unfolding nfp_bpf_goto_meta_def Let_def f_def[symmetric] g_def[symmetric] l_def[symmetric]
    by (cases "min f g > l"; cases "min f l > idx \<and> l > idx"; cases "min f g > idx \<and> g > idx")
      (simp_all only: if_True if_False case_prod_conv simp_thms diff_0 add_0)
  have c1: "min x y > z \<longleftrightarrow> z < x \<and> z < y" for x y z :: u32 by simp
  show ?thesis
  proof (cases "l < f \<and> l < g")
    case True
    then have m: "min f l = l" "(f < l) = False" "(min f g > l) = True" by (auto simp: c1 dest: less_asym)
    have "uint (n_insns - 1) - uint l = uint idx" unfolding u v(3) last(2) b_def[symmetric] using lt by (simp add: of_nat_diff)
    then show ?thesis unfolding e m by simp
  next
    case False
    then have m: "(min f g > l) = False" by (simp add: c1)
    have i: "unat idx = b" by (simp add: b_def)
    have r: "(if f < g then int a + int (unat f) else int a - int (unat g)) = int b"
      using v lt by (cases "a \<le> b") (auto simp: word_less_nat_alt of_nat_diff)
    have s: "idx < g" if "min f g > idx \<and> g > idx" using that by simp
    show ?thesis unfolding e m if_False unfolding p u i using r s by simp
  qed
qed

lemma prepared: "i < length insns \<Longrightarrow> im_n (prepare_from k insns ! i) = of_nat (k + i) \<and> im_insn (prepare_from k insns ! i) = insns ! i"
proof (induction insns arbitrary: i k)
  case (Cons insn insns)
  then show ?case by (cases i) auto
qed simp

lemma prepared_length [simp]: "length (prepare_from k insns) = length insns"
  by (induction insns arbitrary: k) auto

lemma visits_some:
  assumes ms: "np_insns p = prepare_from 0 insns" "length insns \<le> 65536"
    and pos: "pos < length insns" and v: "list_all (\<lambda>v. unat (vv_insn_idx v) < length insns) visits"
  shows "analyzer_visits p (int pos) visits \<noteq> None"
  using v pos
proof (induction visits arbitrary: pos)
  case (Cons v vs)
  have n: "im_n (np_insns p ! pos) = of_nat pos" using prepared[of pos insns 0] Cons.prems ms by simp
  have u: "unat (of_nat pos :: u16) = pos" using Cons.prems(2) ms(2) by (subst unsigned_of_nat, subst take_bit_nat_eq_self) simp_all
  have u2: "unat (ucast (of_nat pos :: u16) :: u32) = pos"
    using u Cons.prems(2) ms(2) by (simp add: unsigned_ucast_eq take_bit_nat_eq_self)
  have l: "unat (of_nat (length insns) :: u32) = length insns" using ms(2) by (subst unsigned_of_nat, subst take_bit_nat_eq_self) simp_all
  have "nfp_bpf_goto_meta (of_nat pos) (int pos) (vv_insn_idx v) (of_nat (length insns)) = uint (vv_insn_idx v)"
    by (rule goto_meta_walk) (use arg_cong[OF u, of int] u2 l Cons.prems ms(2) in \<open>simp_all\<close>)
  then have g: "nfp_bpf_goto_meta (im_n (np_insns p ! pos)) (int pos) (vv_insn_idx v) (of_nat (length (np_insns p))) = int (unat (vv_insn_idx v))"
    using n ms(1) by simp
  have "int (unat (vv_insn_idx v)) < int (length insns)" using Cons.prems(1) by (simp only: of_nat_less_iff) simp
  then have lt: "uint (vv_insn_idx v) < int (length insns)" by simp
  have "nfp_verify_insn p (int pos) v \<noteq> None \<and> (\<forall>e q. nfp_verify_insn p (int pos) v = Some (e, q) \<longrightarrow> q = int (unat (vv_insn_idx v)))"
    unfolding nfp_verify_insn_def Let_def using Cons.prems ms(1) g lt by simp
  then show ?case using Cons.IH[of "unat (vv_insn_idx v)"] Cons.prems by (auto split: option.split)
qed simp

section \<open>Registers\<close>

lemma tgt_reg_less: "used r \<Longrightarrow> r < k \<Longrightarrow> tgt_reg used r < length (filter used [0..<k])"
proof -
  assume u: "used r" "r < k"
  then have "[0..<k] = [0..<r] @ r # [Suc r..<k]" by (metis less_imp_le_nat upt_add_eq_append upt_conv_Cons le0 le_add_diff_inverse plus_nat.add_0)
  then show ?thesis using u by (simp add: tgt_reg_def)
qed

lemma tgt_reg_inj: "inj_on (tgt_reg used) {r. used r}"
proof (rule inj_onI)
  fix r s assume r: "r \<in> {r. used r}" "s \<in> {r. used r}" and e: "tgt_reg used r = tgt_reg used s"
  have "tgt_reg used a < tgt_reg used b" if "used a" "used b" "a < b" for a b
    using tgt_reg_less[of used a b] that by (simp add: tgt_reg_def)
  then show "r = s" using r e by (metis less_irrefl mem_Collect_eq nat_neq_iff)
qed

lemma used_count: "length (filter used [0..<MAX_BPF_REG]) \<le> MAX_BPF_REG"
  using length_filter_le[of used "[0..<MAX_BPF_REG]"] by simp

lemma opt_reg_init_insns [simp]: "map im_insn (nfp_bpf_opt_reg_init ms) = map im_insn ms"
  by (induction ms rule: nfp_bpf_opt_reg_init.induct) (auto simp: Let_def)

lemma opt_ld_shift_insns [simp]: "map im_insn (nfp_bpf_opt_ld_shift ms) = map im_insn ms"
  by (induction ms rule: nfp_bpf_opt_ld_shift.induct) (auto simp: Let_def)

lemma opt_ld_mask_insns: "nfp_bpf_opt_ld_mask ms = Some ms' \<Longrightarrow> map im_insn ms' = map im_insn ms"
  by (induction ms arbitrary: ms' rule: nfp_bpf_opt_ld_mask.induct)
    (auto simp: Let_def split: option.split_asm if_split_asm)

lemma exp_mask_some: "sz \<noteq> BPF_DW \<Longrightarrow> sz AND BPF_SIZE_MASK = sz \<Longrightarrow> exp_mask sz \<noteq> None"
proof -
  assume sz: "sz \<noteq> BPF_DW" "sz AND BPF_SIZE_MASK = sz"
  have "sz < BPF_B \<or> sz = BPF_B \<or> BPF_B < sz" by auto
  moreover have "sz \<le> BPF_DW" using word_and_le1[of sz BPF_SIZE_MASK] sz(2) by simp
  moreover have "\<not> (BPF_B < sz \<and> sz < BPF_DW)"
  proof
    assume s: "BPF_B < sz \<and> sz < BPF_DW"
    then have "16 < unat sz" "unat sz < 24" by (simp_all add: word_less_nat_alt)
    then have "unat sz \<in> {17, 18, 19, 20, 21, 22, 23}" by auto
    then have "sz \<in> {17, 18, 19, 20, 21, 22, 23}" by (auto simp: word_unat_eq_iff)
    then show False using sz(2) by auto
  qed
  ultimately show ?thesis using sz(1) by (auto simp: exp_mask_def)
qed

lemma opt_ld_mask_some:
  assumes "list_all (\<lambda>m. \<not> (packet_load (im_insn m) \<and> BPF_SIZE (bi_code (im_insn m)) = BPF_DW)) ms"
  shows "nfp_bpf_opt_ld_mask ms \<noteq> None"
  using assms
proof (induction ms rule: nfp_bpf_opt_ld_mask.induct)
  case (1 m1 m2 ms)
  have "packet_load (im_insn m1) \<Longrightarrow> exp_mask (BPF_SIZE (bi_code (im_insn m1))) \<noteq> None"
    by (rule exp_mask_some) (use 1(4) in \<open>simp_all add: BPF_SIZE_def and.assoc\<close>)
  moreover have "nfp_bpf_opt_ld_mask (m2 # ms) \<noteq> None" if "\<not> packet_load (im_insn m1) \<or> bi_code (im_insn m2) \<noteq> 0x57"
    using 1(1)[OF refl refl that] 1(4) by simp
  ultimately show ?case using 1 by (auto simp: Let_def split: option.split)
qed simp_all

lemma optimize_some:
  assumes "\<forall>m \<in> set (np_insns p). unat (bi_src_reg (im_insn m)) < MAX_BPF_REG \<and> unat (bi_dst_reg (im_insn m)) < MAX_BPF_REG \<and>
      \<not> (packet_load (im_insn m) \<and> BPF_SIZE (bi_code (im_insn m)) = BPF_DW)"
  shows "\<exists>q. nfp_bpf_optimize p = Some q \<and> np_prog q = np_prog p \<and> np_error q = np_error p \<and> np_oob q = np_oob p"
proof -
  let ?ms = "nfp_bpf_opt_reg_init (np_insns p)"
  have in_ms: "\<exists>m' \<in> set (np_insns p). im_insn m' = im_insn m" if "m \<in> set ?ms" for m
    using that opt_reg_init_insns[of "np_insns p"] by (metis imageE image_eqI list.set_map)
  have r: "nfp_bpf_opt_reg_rename ?ms = Some (length (filter (reg_used ?ms) [0..<MAX_BPF_REG]), map (rename_insn (tgt_reg (reg_used ?ms))) ?ms)"
    using in_ms assms unfolding nfp_bpf_opt_reg_rename_def Let_def by (metis not_le)
  have "list_all (\<lambda>m. \<not> (packet_load (im_insn m) \<and> BPF_SIZE (bi_code (im_insn m)) = BPF_DW)) (map (rename_insn (tgt_reg (reg_used ?ms))) ?ms)"
    using in_ms assms by (fastforce simp: list_all_iff rename_insn_def packet_load_def)
  then obtain ms where "nfp_bpf_opt_ld_mask (map (rename_insn (tgt_reg (reg_used ?ms))) ?ms) = Some ms" using opt_ld_mask_some by blast
  then show ?thesis using r by (simp add: nfp_bpf_optimize_def)
qed

text \<open>With what the kernel's verifier promises of a program, the translation stays inside of its arrays.\<close>

lemma jit_in_bounds:
  assumes "insns \<noteq> []" "length insns \<le> 65536" "prog_sz < 2 ^ 32"
    and regs: "\<forall>insn \<in> set insns. unat (bi_src_reg insn) < MAX_BPF_REG \<and> unat (bi_dst_reg insn) < MAX_BPF_REG \<and>
      \<not> (packet_load insn \<and> BPF_SIZE (bi_code insn) = BPF_DW)"
    and visits: "list_all (\<lambda>v. unat (vv_insn_idx v) < length insns) (je_visits je)"
  shows "\<exists>ret res q. nfp_bpf_jit je insns act s d prog_sz = Some (ret, res, q) \<and> \<not> np_oob q \<and> length (np_prog q) \<le> prog_sz"
proof -
  define p where "p = new_prog act s d"
  have p: "np_prog p = []" "np_error p = 0" "\<not> np_oob p" "np_insns p = []" by (simp_all add: p_def new_prog_def)
  define p1 where "p1 = p\<lparr>np_insns := prepare_from 0 insns\<rparr>"
  consider (mem) "\<not> je_prog_mem je \<or> je_insn_mem je < length insns" | (ok) "je_prog_mem je" "\<not> je_insn_mem je < length insns" by blast
  then show ?thesis
  proof cases
    case mem
    then show ?thesis using p by (auto simp: nfp_bpf_jit_def p_def[symmetric] Let_def nfp_prog_prepare_def)
  next
    case ok
    have prep: "nfp_prog_prepare (je_insn_mem je) insns p = (0, p1)" using ok p(4) by (simp add: nfp_prog_prepare_def p1_def)
    have "analyzer_visits p1 (int 0) (je_visits je) \<noteq> None"
      by (rule visits_some[of p1 insns 0]) (use assms(1,2) visits in \<open>auto simp: p1_def\<close>)
    then obtain err where "analyzer_visits p1 0 (je_visits je) = Some err" by auto
    then obtain ret where v: "nfp_prog_verify (je_priv_mem je) (je_visits je) (je_analyzer_err je) p1 = Some ret"
      by (cases "je_priv_mem je") (simp_all add: nfp_prog_verify_def)
    have "\<forall>m \<in> set (np_insns p1). im_insn m \<in> set insns"
      using prepared[of _ insns 0] by (fastforce simp: p1_def in_set_conv_nth)
    then obtain p2 where o: "nfp_bpf_optimize p1 = Some p2" "np_prog p2 = []" "np_error p2 = 0" "\<not> np_oob p2"
      using optimize_some[of p1] regs p by (auto simp: p1_def)
    define p3 where "p3 = p2\<lparr>np_regs_per_thread := (if np_num_regs p2 \<le> 7 then 16 else 32), np_alloc_len := prog_sz\<rparr>"
    obtain e q where t: "nfp_translate (je_layout je) p3 = Some (e, q)" "\<not> np_oob q" "length (np_prog q) \<le> prog_sz"
      using translate_bounds[of p3 "je_layout je"] o assms(3) by (auto simp: p3_def)
    show ?thesis
    proof (cases "ret = 0")
      case True
      then show ?thesis using ok(1) prep v o(1) t by (auto simp: nfp_bpf_jit_def p_def[symmetric] Let_def p3_def[symmetric])
    next
      case False
      then show ?thesis using ok(1) prep v p by (auto simp: nfp_bpf_jit_def p_def[symmetric] Let_def p1_def)
    qed
  qed
qed

section \<open>Properties\<close>

text \<open>Claim C23. The walk of the verifier hook from the instruction it is at, from the first or from the last one,
  whichever is nearest, ends at the instruction with the index it was asked for.\<close>

theorem goto_meta_seeks:
  assumes "unat (ucast n :: u32) < unat n_insns" and "unat idx < unat n_insns" and "unat n_insns \<le> 2 ^ 31" and "pos = uint (n :: u16)"
  shows "nfp_bpf_goto_meta n pos idx n_insns = uint idx"
  by (rule goto_meta_walk[OF assms])

lemma goto_meta_seeks_witness: "nfp_bpf_goto_meta 7 7 98 100 = 98 \<and> nfp_bpf_goto_meta 70 70 3 100 = 3 \<and> nfp_bpf_goto_meta 70 70 60 100 = 60"
  using goto_meta_seeks[of 7 100 98 7] goto_meta_seeks[of 70 100 3 70] goto_meta_seeks[of 70 100 60 70] by simp

text \<open>Claim C22. For a program with the registers, the load sizes and the instruction indices that the kernel's verifier
  lets through, the translation is never outside of its instruction list, of the table of masks or of the code
  buffer, whether it succeeds or fails.\<close>

theorem jit_stays_in_bounds:
  assumes "insns \<noteq> []" and "length insns \<le> 65536" and "prog_sz < 2 ^ 32"
    and "\<forall>insn \<in> set insns. unat (bi_src_reg insn) < MAX_BPF_REG \<and> unat (bi_dst_reg insn) < MAX_BPF_REG \<and>
      \<not> (packet_load insn \<and> BPF_SIZE (bi_code insn) = BPF_DW)"
    and "list_all (\<lambda>v. unat (vv_insn_idx v) < length insns) (je_visits je)"
  shows "\<exists>ret res q. nfp_bpf_jit je insns act s d prog_sz = Some (ret, res, q) \<and> \<not> np_oob q \<and> length (np_prog q) \<le> prog_sz"
  by (rule jit_in_bounds[OF assms])

lemma jit_stays_in_bounds_witness:
  "\<exists>ret res q. nfp_bpf_jit \<lparr>je_prog_mem = True, je_insn_mem = 2, je_priv_mem = True,
      je_visits = [\<lparr>vv_insn_idx = 1, vv_regs = \<lambda>_. \<lparr>br_type = SCALAR_VALUE, br_value = 0, br_mask = 0\<rparr>\<rparr>], je_analyzer_err = 0,
      je_layout = \<lparr>cl_skb_len = 0, cl_skb_mark = 8, cl_xdp_data = 0, cl_xdp_data_end = 8\<rparr>\<rparr>
    [\<lparr>bi_code = 0xb7, bi_dst_reg = 0, bi_src_reg = 0, bi_off = 0, bi_imm = 1\<rparr>,
     \<lparr>bi_code = 0x95, bi_dst_reg = 0, bi_src_reg = 0, bi_off = 0, bi_imm = 0\<rparr>] NN_ACT_XDP 0 100 40 = Some (ret, res, q) \<and>
    \<not> np_oob q \<and> length (np_prog q) \<le> 40"
  by (rule jit_stays_in_bounds) (simp_all add: packet_load_def BPF_CLASS_def)

end
