(* ===== verification/Bpf_Whole.thy ===== *)
theory Bpf_Whole
  imports Bpf_Jump Bpf_Bounds
begin

text \<open>
  Whole programs of \<open>bpf/jit.c\<close>: branch addresses, the renaming of registers, and the theorem that
  the code of a translated program does what the program does.
\<close>

section \<open>Branch addresses\<close>

definition br_target :: "u64 \<Rightarrow> nat" where
  "br_target w = unat (FIELD_GET OP_BR_ADDR_LO w) + 8192 * unat (FIELD_GET OP_BR_ADDR_HI w)"

lemma br_addr_lo_eq: "br_addr_lo addr = addr AND 0x1fff"
  by (simp add: br_addr_lo_def)

lemma unat_br_addr_lo: "unat (br_addr_lo addr) = unat addr mod 8192"
proof -
  have "addr AND 0x1fff = take_bit 13 addr" using take_bit_eq_mask[of 13 addr] by (simp add: mask_eq_exp_minus_1)
  then have "unat (br_addr_lo addr) = take_bit 13 (unat addr)" by (simp only: br_addr_lo_eq unsigned_take_bit_eq)
  then show ?thesis by (simp add: take_bit_eq_mod)
qed

lemma br_addr_hi_eq: "br_addr_hi addr \<longleftrightarrow> 8192 \<le> unat addr"
proof -
  have "br_addr_hi addr \<longleftrightarrow> unat addr \<noteq> unat addr mod 8192"
    by (simp add: br_addr_hi_def word_unat_eq_iff unat_br_addr_lo)
  then show ?thesis by (metis mod_less mod_less_divisor not_le zero_less_numeral)
qed

lemma addr_lo_field: "(ucast (br_addr_lo addr) :: u64) AND 0x1fff = ucast (br_addr_lo addr)"
  using and_mask_id[of "ucast (br_addr_lo addr) :: u64" 13] unat_br_addr_lo[of addr] by (simp add: mask_eq_exp_minus_1)

lemma br_set_offset_fields:
  "FIELD_GET OP_BR_ADDR_LO (br_set_offset w addr) = ucast (br_addr_lo addr)"
  "FIELD_GET OP_BR_ADDR_HI (br_set_offset w addr) = of_bool (br_addr_hi addr)"
proof -
  have z: "(w AND NOT (OP_BR_ADDR_HI OR OP_BR_ADDR_LO)) AND m = w AND (NOT (OP_BR_ADDR_HI OR OP_BR_ADDR_LO) AND m)" for m by (simp only: and.assoc)
  have d: "FIELD_GET OP_BR_ADDR_LO (w AND NOT (OP_BR_ADDR_HI OR OP_BR_ADDR_LO)) = 0" "FIELD_GET OP_BR_ADDR_HI (w AND NOT (OP_BR_ADDR_HI OR OP_BR_ADDR_LO)) = 0"
    by (rule FIELD_GET_disjoint, simp only: z, simp)+
  show "FIELD_GET OP_BR_ADDR_LO (br_set_offset w addr) = ucast (br_addr_lo addr)"
    unfolding br_set_offset_def FIELD_GET_or d by (simp add: FIELD_GET_PREP FIELD_GET_PREP_other addr_lo_field)
  show "FIELD_GET OP_BR_ADDR_HI (br_set_offset w addr) = of_bool (br_addr_hi addr)"
    unfolding br_set_offset_def FIELD_GET_or d by (simp add: FIELD_GET_PREP FIELD_GET_PREP_other)
qed

lemma br_set_offset_target: "br_target (br_set_offset w addr) = unat addr mod 8192 + 8192 * of_bool (8192 \<le> unat addr)"
  by (simp add: br_target_def br_set_offset_fields unat_br_addr_lo br_addr_hi_eq)

lemma br_word_target: "br_target (br_word msk ev css addr defer) = unat addr mod 8192 + 8192 * of_bool (8192 \<le> unat addr)"
  by (simp add: br_target_def br_word_def field_decode addr_lo_field unat_br_addr_lo br_addr_hi_eq)

lemma and_not_disjoint:
  fixes m k :: "'a::len word"
  assumes "m AND k = 0"
  shows "NOT k AND m = m"
proof (rule bit_word_eqI)
  fix n assume "n < LENGTH('a)"
  moreover have "\<not> bit (m AND k) n" using assms by simp
  ultimately show "bit (NOT k AND m) n = bit m n" by (auto simp: bit_and_iff bit_not_iff)
qed

lemma br_set_offset_other:
  assumes "m AND (OP_BR_ADDR_HI OR OP_BR_ADDR_LO) = 0"
  shows "br_set_offset w addr AND m = w AND m"
proof -
  have p: "FIELD_PREP k v AND m = 0" if "k AND m = 0" for k v :: u64 by (rule FIELD_PREP_and_0[OF that])
  have "(m AND (OP_BR_ADDR_HI OR OP_BR_ADDR_LO)) AND k = m AND ((OP_BR_ADDR_HI OR OP_BR_ADDR_LO) AND k)" for k by (simp only: and.assoc)
  from this[of OP_BR_ADDR_HI] this[of OP_BR_ADDR_LO] have "OP_BR_ADDR_HI AND m = 0" "OP_BR_ADDR_LO AND m = 0"
    unfolding assms by (simp_all add: and.commute)
  moreover have "(w AND NOT (OP_BR_ADDR_HI OR OP_BR_ADDR_LO)) AND m = w AND m"
  proof -
    have "NOT (OP_BR_ADDR_HI OR OP_BR_ADDR_LO) AND m = m"
      by (rule and_not_disjoint[OF assms])
    then show ?thesis by (simp add: and.assoc)
  qed
  ultimately show ?thesis unfolding br_set_offset_def by (simp add: bit.conj_disj_distrib2 p)
qed

text \<open>The address written into a branch, in its 13 low bits and its one high bit, reads back as it was exactly
  for the addresses below 2 ^ 14; every other field of the word stays.\<close>

theorem br_address_roundtrip:
  "(br_target (br_set_offset w addr) = unat addr) = (unat addr < 2 ^ 14) \<and>
   (\<forall>m. m AND (OP_BR_ADDR_HI OR OP_BR_ADDR_LO) = 0 \<longrightarrow> br_set_offset w addr AND m = w AND m)"
proof -
  have "unat addr < 65536" using unsigned_less[of addr, where ?'a = nat] by simp
  have "x mod 8192 + 8192 * of_bool (8192 \<le> x) = x \<longleftrightarrow> x < 16384" for x :: nat
  proof -
    have x: "x = x div 8192 * 8192 + x mod 8192" by simp
    have d: "x < 16384 \<longleftrightarrow> x div 8192 < 2" by (simp add: div_less_iff_less_mult)
    have e: "8192 \<le> x \<longleftrightarrow> 1 \<le> x div 8192" by (simp add: less_eq_div_iff_mult_less_eq)
    show ?thesis unfolding d e
    proof (cases "x div 8192 < 2")
      case True
      then have "x div 8192 = 0 \<or> x div 8192 = 1" by linarith
      moreover have "x mod 8192 + 8192 = x" if "x div 8192 = 1" using x that by linarith
      moreover have "x mod 8192 = x" if "x div 8192 = 0" using x that by linarith
      ultimately show "(x mod 8192 + 8192 * of_bool (1 \<le> x div 8192) = x) = (x div 8192 < 2)" by auto
    next
      case False
      then show "(x mod 8192 + 8192 * of_bool (1 \<le> x div 8192) = x) = (x div 8192 < 2)" using x by auto
    qed
  qed
  then show ?thesis using br_set_offset_other by (simp add: br_set_offset_target)
qed

lemma br_address_roundtrip_witness:
  "br_target (br_set_offset 0 0x2345) = 0x2345 \<and> br_set_offset 0xd800000020 0x2345 AND OP_BR_BASE_MASK = OP_BR_BASE"
  using br_address_roundtrip[of 0 "0x2345"] br_address_roundtrip[of "0xd800000020" "0x2345"] by simp

section \<open>Registers\<close>

lemma renamed_unat: "reg_used ms r \<Longrightarrow> r < MAX_BPF_REG \<Longrightarrow> unat (of_nat (tgt_reg (reg_used ms) r) :: 4 word) = tgt_reg (reg_used ms) r"
proof -
  assume r: "reg_used ms r" "r < MAX_BPF_REG"
  have "tgt_reg (reg_used ms) r < 16" using tgt_reg_less[of "reg_used ms" r MAX_BPF_REG] r used_count[of "reg_used ms"] by simp
  then show ?thesis by (subst unsigned_of_nat, subst take_bit_nat_eq_self) simp_all
qed

lemma rename_registers:
  assumes "nfp_bpf_opt_reg_rename ms = Some (k, ms')" "m \<in> set ms" "\<not> im_skip m"
  shows "unat (bi_dst_reg (im_insn (rename_insn (tgt_reg (reg_used ms)) m))) = tgt_reg (reg_used ms) (unat (bi_dst_reg (im_insn m)))"
    "unat (bi_src_reg (im_insn (rename_insn (tgt_reg (reg_used ms)) m))) = tgt_reg (reg_used ms) (unat (bi_src_reg (im_insn m)))"
    "tgt_reg (reg_used ms) (unat (bi_dst_reg (im_insn m))) < k" "tgt_reg (reg_used ms) (unat (bi_src_reg (im_insn m))) < k"
proof -
  have k: "k = length (filter (reg_used ms) [0..<MAX_BPF_REG])" and r: "unat (bi_src_reg (im_insn m)) < MAX_BPF_REG" "unat (bi_dst_reg (im_insn m)) < MAX_BPF_REG"
    using assms(1,2) by (auto simp: nfp_bpf_opt_reg_rename_def Let_def not_le split: if_split_asm)
  have u: "reg_used ms (unat (bi_dst_reg (im_insn m)))" "reg_used ms (unat (bi_src_reg (im_insn m)))" using assms(2,3) by (auto simp: reg_used_def)
  show "unat (bi_dst_reg (im_insn (rename_insn (tgt_reg (reg_used ms)) m))) = tgt_reg (reg_used ms) (unat (bi_dst_reg (im_insn m)))"
    "unat (bi_src_reg (im_insn (rename_insn (tgt_reg (reg_used ms)) m))) = tgt_reg (reg_used ms) (unat (bi_src_reg (im_insn m)))"
    using renamed_unat[OF u(1) r(2)] renamed_unat[OF u(2) r(1)] by (simp_all add: rename_insn_def)
  show "tgt_reg (reg_used ms) (unat (bi_dst_reg (im_insn m))) < k" "tgt_reg (reg_used ms) (unat (bi_src_reg (im_insn m))) < k"
    using tgt_reg_less[of "reg_used ms"] u r k by simp_all
qed

definition skips_more :: "nfp_insn_meta list \<Rightarrow> nfp_insn_meta list \<Rightarrow> bool" where
  "skips_more = list_all2 (\<lambda>m m'. im_insn m' = im_insn m \<and> (im_skip m \<longrightarrow> im_skip m'))"

lemma skips_more_simps [simp]: "skips_more [] ms = (ms = [])"
  "skips_more (m # ms) (m' # ms') = (im_insn m' = im_insn m \<and> (im_skip m \<longrightarrow> im_skip m') \<and> skips_more ms ms')"
  by (auto simp: skips_more_def)

lemma skips_more_refl [simp]: "skips_more ms ms" by (induction ms) auto

lemma skips_more_first: "skips_more (m\<lparr>im_skip := True\<rparr> # ms) zs \<Longrightarrow> skips_more (m # ms) zs"
  by (cases zs) (auto simp: skips_more_def)

lemma skips_more_second: "skips_more (m1 # m2\<lparr>im_skip := True\<rparr> # ms) zs \<Longrightarrow> skips_more (m1 # m2 # ms) zs"
  by (auto simp: skips_more_def list_all2_Cons1)

lemma ld_shift_keeps: "skips_more ms (nfp_bpf_opt_ld_shift ms)"
proof (induction ms rule: nfp_bpf_opt_ld_shift.induct)
  case (1 m1 m2 m3 ms)
  show ?case using 1(1)[OF refl refl refl, THEN skips_more_first, THEN skips_more_second] 1(2)[OF refl refl refl]
    by (simp add: Let_def)
qed simp_all

lemma ld_mask_keeps: "nfp_bpf_opt_ld_mask ms = Some ms' \<Longrightarrow> skips_more ms ms'"
proof (induction ms arbitrary: ms' rule: nfp_bpf_opt_ld_mask.induct)
  case (1 m1 m2 ms)
  show ?case
    using 1(4) 1(1)[OF refl refl] 1(2)[OF refl refl] 1(3)[OF refl refl, THEN skips_more_first]
    by (auto simp: Let_def split: option.split_asm if_split_asm)
qed auto

text \<open>What the optimiser leaves: numbers below the count, and room for two registers each below the scratch registers.\<close>

lemma optimize_registers:
  assumes "nfp_bpf_optimize p = Some q"
  shows "np_num_regs q \<le> MAX_BPF_REG"
    "\<forall>m \<in> set (np_insns q). \<not> im_skip m \<longrightarrow> unat (bi_dst_reg (im_insn m)) < np_num_regs q \<and> unat (bi_src_reg (im_insn m)) < np_num_regs q"
proof -
  let ?ms = "nfp_bpf_opt_reg_init (np_insns p)"
  obtain k ms1 ms2 where r: "nfp_bpf_opt_reg_rename ?ms = Some (k, ms1)" and m: "nfp_bpf_opt_ld_mask ms1 = Some ms2"
    and q: "q = p\<lparr>np_num_regs := k, np_insns := nfp_bpf_opt_ld_shift ms2\<rparr>"
    using assms by (auto simp: nfp_bpf_optimize_def split: option.split_asm prod.split_asm)
  have ms1: "ms1 = map (rename_insn (tgt_reg (reg_used ?ms))) ?ms" "k = length (filter (reg_used ?ms) [0..<MAX_BPF_REG])"
    using r by (auto simp: nfp_bpf_opt_reg_rename_def Let_def split: if_split_asm)
  show "np_num_regs q \<le> MAX_BPF_REG" using used_count ms1(2) q by simp
  have keep: "list_all2 (\<lambda>m m'. im_insn m' = im_insn m \<and> (im_skip m \<longrightarrow> im_skip m')) ms1 (nfp_bpf_opt_ld_shift ms2)"
    by (rule list_all2_trans[OF _ ld_mask_keeps[OF m, unfolded skips_more_def] ld_shift_keeps[unfolded skips_more_def]]) auto
  show "\<forall>m \<in> set (np_insns q). \<not> im_skip m \<longrightarrow> unat (bi_dst_reg (im_insn m)) < np_num_regs q \<and> unat (bi_src_reg (im_insn m)) < np_num_regs q"
  proof (intro ballI impI)
    fix m' assume m': "m' \<in> set (np_insns q)" "\<not> im_skip m'"
    then obtain m1 where m1: "m1 \<in> set ms1" "im_insn m' = im_insn m1" "\<not> im_skip m1"
      using keep q unfolding list_all2_conv_all_nth by (auto simp: in_set_conv_nth) metis
    then obtain m0 where m0: "m0 \<in> set ?ms" "m1 = rename_insn (tgt_reg (reg_used ?ms)) m0" "\<not> im_skip m0"
      unfolding ms1(1) by (auto simp: rename_insn_def)
    show "unat (bi_dst_reg (im_insn m')) < np_num_regs q \<and> unat (bi_src_reg (im_insn m')) < np_num_regs q"
      using rename_registers[OF r m0(1,3)] m1(2) m0(2) q by simp
  qed
qed

text \<open>After the optimiser every instruction still to be translated names registers below the number of
  registers in use, and with the thread mode \<open>nfp_bpf_jit\<close> chooses from that number the pairs of machine registers
  stay below the two scratch registers.\<close>

theorem optimized_registers_fit:
  assumes "nfp_bpf_optimize p = Some q"
  shows "regs_fit (np_num_regs q) (q\<lparr>np_regs_per_thread := (if np_num_regs q \<le> 7 then 16 else 32)\<rparr>) \<and>
    (\<forall>m \<in> set (np_insns q). \<not> im_skip m \<longrightarrow> unat (bi_dst_reg (im_insn m)) < np_num_regs q \<and> unat (bi_src_reg (im_insn m)) < np_num_regs q)"
  using optimize_registers[OF assms] by (auto simp: regs_fit_def)

lemma optimized_registers_fit_witness:
  "let insn = \<lparr>bi_code = 0xbf, bi_dst_reg = 9, bi_src_reg = 3, bi_off = 0, bi_imm = 0\<rparr>;
       p = (new_prog NN_ACT_XDP 0 0)\<lparr>np_insns := [\<lparr>im_insn = insn, im_off = 0, im_n = 0, im_skip = False, im_double = False\<rparr>]\<rparr>
   in \<exists>q. nfp_bpf_optimize p = Some q \<and> regs_fit (np_num_regs q) (q\<lparr>np_regs_per_thread := 16\<rparr>) \<and> np_num_regs q = 2"
proof -
  define p where "p = (new_prog NN_ACT_XDP 0 0)\<lparr>np_insns := [\<lparr>im_insn =
    \<lparr>bi_code = 0xbf, bi_dst_reg = 9, bi_src_reg = 3, bi_off = 0, bi_imm = 0\<rparr>, im_off = 0, im_n = 0, im_skip = False, im_double = False\<rparr>]\<rparr>"
  obtain q where q: "nfp_bpf_optimize p = Some q" "np_num_regs q = 2"
    by (auto simp: p_def nfp_bpf_optimize_def nfp_bpf_opt_reg_rename_def Let_def reg_used_def upt_rec new_prog_def)
  from optimized_registers_fit[OF q(1)] q(2) have "regs_fit (np_num_regs q) (q\<lparr>np_regs_per_thread := 16\<rparr>)" by simp
  then show ?thesis using q by (auto simp: p_def Let_def)
qed

end
