(* ===== verification/Bpf_Simulation.thy ===== *)
theory Bpf_Simulation
  imports Bpf_Whole
begin

text \<open>
  The code of a whole translated program (\<open>nfp_translate\<close> of \<open>bpf/jit.c\<close>) runs like the program:
  the blocks the callbacks emitted, the fix-up of their branches, and the run from the entry
  sequence to the exit sequence.
\<close>

section \<open>Programs\<close>

text \<open>A 32-bit instruction that the callbacks leave out.\<close>

definition left_out :: "bpf_insn \<Rightarrow> bool" where
  "left_out insn \<longleftrightarrow> bi_code insn = 0x54 \<and> bi_imm insn = - 1 \<or> bi_code insn \<in> {0x44, 0x04, 0x14} \<and> bi_imm insn = 0 \<or>
     bi_code insn = 0xa4 \<and> bi_imm insn = - 1"

text \<open>The instructions the translation is right for: arithmetic, the nine tests, and the exit.\<close>

definition is_alu :: "bpf_insn \<Rightarrow> bool" where
  "is_alu insn \<longleftrightarrow> BPF_CLASS (bi_code insn) \<in> {BPF_ALU, BPF_ALU64}"

definition is_test :: "bpf_insn \<Rightarrow> bool" where
  "is_test insn \<longleftrightarrow> bi_code insn \<in> {0x05, 0x15, 0x45, 0x55, 0x1d, 0x2d, 0x3d, 0x4d, 0x5d}"

definition translatable :: "nat \<Rightarrow> bpf_insn \<Rightarrow> bool" where
  "translatable n insn \<longleftrightarrow> unat (bi_dst_reg insn) < n \<and> unat (bi_src_reg insn) < n \<and>
     (is_alu insn \<and> \<not> left_out insn \<and> (bi_code insn = 0x64 \<longrightarrow> unat (bi_imm insn) < 32) \<or> is_test insn \<or> bi_code insn = 0x95)"

text \<open>The run of a program from instruction \<open>i\<close>, with forward jumps only: the registers at its exit.\<close>

function bpf_exec :: "bpf_insn list \<Rightarrow> nat \<Rightarrow> (nat \<Rightarrow> u64) \<Rightarrow> (nat \<Rightarrow> u64) option" where
  "bpf_exec insns i R =
     (if length insns \<le> i then None
      else let insn = insns ! i in
        if bi_code insn = 0x95 then Some R
        else if is_alu insn then bpf_exec insns (Suc i) (R(unat (bi_dst_reg insn) := bpf_alu insn R))
        else if is_test insn \<and> 0 \<le> sint (bi_off insn)
        then bpf_exec insns (if bpf_jump_taken insn R then Suc i + nat (sint (bi_off insn)) else Suc i) R
        else None)"
  by pat_completeness auto
termination by (relation "measure (\<lambda>(insns, i, R). length insns - i)") auto

declare bpf_exec.simps [simp del]

section \<open>Blocks\<close>

definition exit_word :: u64 where
  "exit_word = br_word BR_UNC BR_EV_PIP_UNCOND BR_CSS_NONE 0 0 OR FIELD_PREP OP_BR_SPECIAL OP_BR_GO_OUT"

definition block_ok :: "me_isa \<Rightarrow> nat \<Rightarrow> bpf_insn \<Rightarrow> u64 list \<Rightarrow> bool" where
  "block_ok isa n insn ws \<longleftrightarrow>
     (if bi_code insn = 0x95 then ws = [exit_word]
      else if is_alu insn then (\<forall>w \<in> set ws. \<not> nfp_is_br w) \<and>
        (\<forall>st R. matches n st R \<longrightarrow> (\<exists>st'. me_run isa ws st = Some (False, st') \<and> matches n st' (R(unat (bi_dst_reg insn) := bpf_alu insn R))))
      else list_all plain_br ws \<and> 0 \<le> sint (bi_off insn) \<and>
        (\<forall>st R. matches n st R \<longrightarrow> (\<exists>st'. me_run isa ws st = Some (bpf_jump_taken insn R, st') \<and> matches n st' R)))"

lemma emits_exact:
  assumes "emits p q ws" "room p" "np_error q = 0"
  shows "q = p\<lparr>np_prog := np_prog p @ ws\<rparr>" "room q"
  using assms by (auto simp: emits_def room_def split: if_split_asm)

lemma table_keeps:
  assumes "(code, cb) \<in> set (instr_cb cl)" "code \<noteq> 0x18"
  shows "im_double (snd (fst (cb meta p))) = im_double meta"
proof -
  have "list_all (\<lambda>(code, cb). code = 0x18 \<or> (\<forall>meta p. im_double (snd (fst (cb meta p))) = im_double meta)) (instr_cb cl)"
    unfolding instr_cb_def list.pred_inject case_prod_conv
    by (intro conjI)
      (auto simp: xor_reg64_def and_reg64_def or_reg64_def wrp_alu64_reg_def xor_imm64_def and_imm64_def or_imm64_def
      add_reg64_def sub_reg64_def add_imm64_def sub_imm64_def xor_reg_def and_reg_def or_reg_def add_reg_def sub_reg_def xor_imm_def
      and_imm_def or_imm_def add_imm_def sub_imm_def jgt_imm_def jge_imm_def jlt_imm_def jle_imm_def jgt_reg_def jge_reg_def jlt_reg_def
      jle_reg_def jset_reg_def jne_reg_def wrp_alu64_imm_def alu_reg_pair_def wrp_alu32_imm_def wrp_alu32_reg_def mov_reg64_def mov_imm64_def
      alu_imm_pair_def shl_imm64_def shr_imm64_def mov_reg_def mov_imm_def shl_imm_def wrp_test_reg_def wrp_cmp_imm_def wrp_cmp_reg_def jump_def
      jeq_imm_def jset_imm_def jne_imm_def jeq_reg_def goto_out_def jumping_def Let_def cb_ok_def cb_err_def data_ld_def data_ind_ld_def
      mem_ldx4_def mem_ldx4_xdp_def mem_ldx4_skb_def mem_stx4_def mem_stx4_xdp_def mem_stx4_skb_def split: prod.split)
  then show ?thesis using assms by (auto simp: list_all_iff)
qed

lemma alu32_not_skipped:
  assumes "(code, cb) \<in> set (instr_cb cl)" "BPF_CLASS code = BPF_ALU" "bi_code (im_insn meta) = code" "\<not> left_out (im_insn meta)" "\<not> im_skip meta"
  shows "\<not> im_skip (snd (fst (cb meta p)))"
  using assms unfolding instr_cb_def
  by (simp add: BPF_CLASS_def)
    (elim disjE conjE; simp add: left_out_def not_zero_iff mov_reg_def mov_imm_def xor_reg_def xor_imm_def and_reg_def and_imm_def or_reg_def or_imm_def
      add_reg_def add_imm_def sub_reg_def sub_imm_def shl_imm_def wrp_alu32_reg_def wrp_alu32_imm_def Let_def cb_ok_def cb_err_def)

lemma jumping_ok: "fst (fst (jumping meta p r)) = 0 \<Longrightarrow> 0 \<le> sint (bi_off (im_insn meta))"
  by (auto simp: jumping_def cb_err_def split: if_split_asm)

lemma tests_forward:
  "fst (fst (jump meta p)) = 0 \<Longrightarrow> 0 \<le> sint (bi_off (im_insn meta))" "fst (fst (jeq_imm meta p)) = 0 \<Longrightarrow> 0 \<le> sint (bi_off (im_insn meta))"
  "fst (fst (jset_imm meta p)) = 0 \<Longrightarrow> 0 \<le> sint (bi_off (im_insn meta))" "fst (fst (jne_imm meta p)) = 0 \<Longrightarrow> 0 \<le> sint (bi_off (im_insn meta))"
  "fst (fst (jeq_reg meta p)) = 0 \<Longrightarrow> 0 \<le> sint (bi_off (im_insn meta))" "fst (fst (jgt_reg meta p)) = 0 \<Longrightarrow> 0 \<le> sint (bi_off (im_insn meta))"
  "fst (fst (jge_reg meta p)) = 0 \<Longrightarrow> 0 \<le> sint (bi_off (im_insn meta))" "fst (fst (jset_reg meta p)) = 0 \<Longrightarrow> 0 \<le> sint (bi_off (im_insn meta))"
  "fst (fst (jne_reg meta p)) = 0 \<Longrightarrow> 0 \<le> sint (bi_off (im_insn meta))"
  unfolding jump_def jeq_imm_def jset_imm_def jne_imm_def jeq_reg_def jgt_reg_def jge_reg_def jset_reg_def jne_reg_def
    wrp_cmp_reg_def wrp_test_reg_def Let_def
  by (erule jumping_ok)+

lemma test_forward:
  assumes "(bi_code (im_insn meta), cb) \<in> set (instr_cb cl)" "is_test (im_insn meta)" "fst (fst (cb meta p)) = 0"
  shows "0 \<le> sint (bi_off (im_insn meta))"
proof -
  have "cb \<in> {jump, jeq_imm, jset_imm, jne_imm, jeq_reg, jgt_reg, jge_reg, jset_reg, jne_reg}"
    using assms(1,2) table_jumps(1-9)[of cb cl] unfolding is_test_def by (elim insertE emptyE) simp_all
  then show ?thesis using tests_forward[of meta p] assms(3) by (elim insertE emptyE) simp_all
qed

text \<open>A test that removes its instruction has emitted nothing.\<close>

lemma test_skips:
  assumes "(bi_code (im_insn meta), cb) \<in> set (instr_cb cl)" "is_test (im_insn meta)" "cb meta p = ((e, meta'), q)" "im_skip meta'" "\<not> im_skip meta"
  shows "q = p"
proof -
  have "cb \<in> {jump, jeq_imm, jset_imm, jne_imm, jeq_reg, jgt_reg, jge_reg, jset_reg, jne_reg}"
    using assms(1,2) table_jumps(1-9)[of cb cl] unfolding is_test_def by (elim insertE emptyE) simp_all
  then show ?thesis using assms(3-5)
    unfolding jump_def jeq_imm_def jset_imm_def jne_imm_def jeq_reg_def jgt_reg_def jge_reg_def jset_reg_def jne_reg_def
      wrp_cmp_reg_def wrp_test_reg_def jumping_def cb_ok_def cb_err_def Let_def
    by (elim insertE emptyE) (auto simp: fun_eq_iff jump_def jeq_imm_def jset_imm_def jne_imm_def jeq_reg_def wrp_cmp_reg_def wrp_test_reg_def
      jumping_def cb_ok_def cb_err_def Let_def split: if_split_asm prod.split_asm)
qed

text \<open>The last word of a test is a branch.\<close>

definition ends_br :: "nfp_prog \<Rightarrow> nfp_prog \<Rightarrow> bool" where
  "ends_br p q \<longleftrightarrow> (\<exists>msk off r. grows p r \<and> q = emit_br msk off 0 r)"

lemma ends_br_emit: "grows p r \<Longrightarrow> ends_br p (emit_br msk off 0 r)"
  by (auto simp: ends_br_def)

lemma ends_br_half: "grows p r \<Longrightarrow> ends_br p (test_imm_half op off reg imm r)"
  unfolding test_imm_half_def by (auto split: prod.split intro!: ends_br_emit grows_intros elim!: grows_ur_load)

lemma test_shape:
  assumes "(bi_code (im_insn meta), cb) \<in> set (instr_cb cl)" "is_test (im_insn meta)" "0 \<le> sint (bi_off (im_insn meta))"
  shows "im_skip (snd (fst (cb meta p))) \<and> snd (cb meta p) = p \<or> ends_br p (snd (cb meta p))"
proof -
  have j: "jumping meta p r = r" for r using assms(3) by (simp add: jumping_def)
  have "ends_br p (snd (jump meta p))" "ends_br p (snd (wrp_cmp_reg msk swap meta p))" "ends_br p (snd (wrp_test_reg op msk meta p))"
    "ends_br p (snd (jeq_imm meta p))" "ends_br p (snd (jeq_reg meta p))" "ends_br p (snd (jne_imm meta p))" for msk swap op
    unfolding jump_def wrp_cmp_reg_def wrp_test_reg_def wrp_test_reg_one_def jeq_imm_def jeq_reg_def jne_imm_def Let_def j cb_ok_def snd_conv
    by (auto split: prod.split intro!: ends_br_emit ends_br_half grows_intros grows_trans[OF _ grows_test_half] elim!: grows_xor_half)
  moreover have "im_skip (snd (fst (jset_imm meta p))) \<and> snd (jset_imm meta p) = p \<or> ends_br p (snd (jset_imm meta p))"
    using imm_halves[of "im_insn meta"] halves_zero[of "imm_sx (im_insn meta)"] ends_br_half[of p p] ends_br_half[of p "test_imm_half op off r i p" for op off r i]
    unfolding jset_imm_def Let_def j cb_ok_def by auto
  moreover have "cb \<in> {jump, jeq_imm, jset_imm, jne_imm, jeq_reg, jgt_reg, jge_reg, jset_reg, jne_reg}"
    using assms(1,2) table_jumps(1-9)[of cb cl] unfolding is_test_def by (elim insertE emptyE) simp_all
  ultimately show ?thesis unfolding jgt_reg_def jge_reg_def jset_reg_def jne_reg_def by auto
qed

text \<open>What the flags of a translated instruction say of its block.\<close>

definition removed :: "bpf_insn \<Rightarrow> bool" where
  "removed insn \<longleftrightarrow> bi_code insn \<in> {0x45, 0xa7, 0x47} \<and> bi_imm insn = 0 \<or> bi_code insn = 0x57 \<and> bi_imm insn = - 1"

definition flags_ok :: "nfp_insn_meta \<Rightarrow> u64 list \<Rightarrow> bool" where
  "flags_ok m ws \<longleftrightarrow> (im_skip m \<longrightarrow> removed (im_insn m)) \<and>
     (is_test (im_insn m) \<longrightarrow> (if im_skip m then ws = [] else ws \<noteq> [] \<and> nfp_is_br (last ws)))"

lemma imm_sx_zero: "imm_sx insn = 0 \<longleftrightarrow> bi_imm insn = 0"
  using imm_halves(3)[of insn] imm_sx_special(1)[of insn] by (auto simp: lo32_def)

lemma cb_removed:
  assumes "(bi_code (im_insn m), cb) \<in> set (instr_cb cl)" "translatable n (im_insn m)" "\<not> im_skip m" "im_skip (snd (fst (cb m p)))"
  shows "removed (im_insn m)"
proof -
  have "list_all (\<lambda>(code, cb). code = 0x18 \<or> (\<forall>m p. bi_code (im_insn m) = code \<and> \<not> im_skip m \<and> im_skip (snd (fst (cb m p))) \<longrightarrow>
      removed (im_insn m) \<or> left_out (im_insn m))) (instr_cb cl)"
    unfolding instr_cb_def list.pred_inject case_prod_conv
    by (intro conjI)
      (auto simp: removed_def left_out_def not_zero_iff imm_sx_zero xor_reg64_def and_reg64_def or_reg64_def wrp_alu64_reg_def xor_imm64_def and_imm64_def or_imm64_def
      add_reg64_def sub_reg64_def add_imm64_def sub_imm64_def xor_reg_def and_reg_def or_reg_def add_reg_def sub_reg_def xor_imm_def
      and_imm_def or_imm_def add_imm_def sub_imm_def jgt_imm_def jge_imm_def jlt_imm_def jle_imm_def jgt_reg_def jge_reg_def jlt_reg_def
      jle_reg_def jset_reg_def jne_reg_def wrp_alu64_imm_def alu_reg_pair_def wrp_alu32_imm_def wrp_alu32_reg_def mov_reg64_def mov_imm64_def
      alu_imm_pair_def shl_imm64_def shr_imm64_def mov_reg_def mov_imm_def shl_imm_def wrp_test_reg_def wrp_cmp_imm_def wrp_cmp_reg_def jump_def
      jeq_imm_def jset_imm_def jne_imm_def jeq_reg_def goto_out_def jumping_def Let_def cb_ok_def cb_err_def data_ld_def data_ind_ld_def
      mem_ldx4_def mem_ldx4_xdp_def mem_ldx4_skb_def mem_stx4_def mem_stx4_xdp_def mem_stx4_skb_def split: prod.split if_split_asm)
  moreover have "bi_code (im_insn m) \<noteq> 0x18" "\<not> left_out (im_insn m)"
    using assms(2) by (auto simp: translatable_def left_out_def is_alu_def is_test_def BPF_CLASS_def)
  ultimately show ?thesis using assms(1,3,4) unfolding list_all_iff by fastforce
qed

lemma np_error_grows: "grows p q \<Longrightarrow> np_error q = 0 \<Longrightarrow> np_error p = 0"
  by (auto simp: grows_def)

lemma ends_br_block:
  assumes "ends_br p q" "np_error q = 0" "q = p\<lparr>np_prog := np_prog p @ ws\<rparr>"
  shows "ws \<noteq> [] \<and> nfp_is_br (last ws)"
proof -
  obtain msk off r where r: "grows p r" "q = emit_br msk off 0 r" using assms(1) by (auto simp: ends_br_def)
  obtain w where w: "q = nfp_prog_push w r" "nfp_is_br w" using r(2) by (auto simp: emit_br_def)
  have e: "np_error r = 0" using np_error_grows[OF grows_push, of w r] w(1) assms(2) by simp
  obtain us where us: "np_prog r = np_prog p @ us" using r(1) e by (auto simp: grows_def)
  have "np_prog q = np_prog r @ [w]" using w(1) assms(2) by (auto simp: nfp_prog_push_def prog_fail_def split: if_split_asm)
  then have "ws = us @ [w]" using us assms(3) by simp
  then show ?thesis using w(2) by simp
qed

lemma goto_out_block:
  assumes "room p" "np_error (snd (goto_out meta p)) = 0" "np_error p = 0"
  shows "snd (goto_out meta p) = p\<lparr>np_prog := np_prog p @ [exit_word]\<rparr> \<and> room (snd (goto_out meta p))"
proof -
  define w where "w = br_word BR_UNC BR_EV_PIP_UNCOND BR_CSS_NONE 0 0"
  have g: "snd (goto_out meta p) = set_special OP_BR_GO_OUT (nfp_prog_push w p)"
    by (simp add: goto_out_def cb_ok_def wrp_br_special_def emit_br_def w_def)
  have "np_alloc_len p \<noteq> length (np_prog p)"
  proof
    assume "np_alloc_len p = length (np_prog p)"
    then have "np_error (set_special OP_BR_GO_OUT (nfp_prog_push w p)) = - ENOSPC" by (simp add: nfp_prog_push_def prog_fail_def set_special_def)
    then show False using assms(2) g by simp
  qed
  then have push: "nfp_prog_push w p = p\<lparr>np_prog := np_prog p @ [w]\<rparr>" "length (np_prog p) < np_alloc_len p"
    using assms(1) by (simp_all add: nfp_prog_push_def room_def)
  have "set_special OP_BR_GO_OUT (p\<lparr>np_prog := np_prog p @ [w]\<rparr>) = p\<lparr>np_prog := np_prog p @ [exit_word]\<rparr>"
    unfolding set_special_def exit_word_def w_def by simp
  then show ?thesis using push g by (simp add: room_def)
qed

lemma exit_code: "(0x95, cb) \<in> set (instr_cb cl) \<Longrightarrow> cb = goto_out"
  by (simp add: instr_cb_def)

lemma codes_apart: "is_alu insn \<Longrightarrow> bi_code insn \<noteq> 0x95 \<and> \<not> is_test insn" "is_test insn \<Longrightarrow> bi_code insn \<noteq> 0x95"
  by (auto simp: is_alu_def is_test_def BPF_CLASS_def)

lemma cb_block:
  assumes doc: "me_documented isa" and cb: "map_of (instr_cb cl) (bi_code (im_insn m)) = Some cb" and tr: "translatable n (im_insn m)" "\<not> im_skip m"
    and r: "cb m p = ((0, m1), p1)" "np_error p = 0" "np_error p1 = 0" "room p" "regs_fit n p"
  shows "\<exists>ws. p1 = p\<lparr>np_prog := np_prog p @ ws\<rparr> \<and> room p1 \<and> block_ok isa n (im_insn m) ws \<and> flags_ok m1 ws"
proof -
  have tab: "(bi_code (im_insn m), cb) \<in> set (instr_cb cl)" by (rule map_of_SomeD[OF cb])
  have same: "im_insn m1 = im_insn m" using table_append[OF tab] r(1) unfolding cb_appends_def by (metis fst_conv snd_conv)
  have rem: "im_skip m1 \<longrightarrow> removed (im_insn m)" using cb_removed[OF tab tr, of p] r(1) by simp
  have regs: "unat (bi_dst_reg (im_insn m)) < n" "unat (bi_src_reg (im_insn m)) < n" using tr(1) by (simp_all add: translatable_def)
  consider (alu) "is_alu (im_insn m)" "\<not> left_out (im_insn m)" "bi_code (im_insn m) = 0x64 \<longrightarrow> unat (bi_imm (im_insn m)) < 32"
    | (test) "is_test (im_insn m)" | (exit) "bi_code (im_insn m) = 0x95" using tr(1) by (auto simp: translatable_def)
  then show ?thesis
  proof cases
    case alu
    have "BPF_CLASS (bi_code (im_insn m)) = BPF_ALU \<longrightarrow> \<not> im_skip m1"
      using alu32_not_skipped[OF tab _ refl alu(2) tr(2), of p] r(1) by simp
    then have "computes isa n p p1 (unat (bi_dst_reg (im_insn m))) (bpf_alu (im_insn m))"
      using alu_table[OF doc tab] alu r regs unfolding cb_refines_def is_alu_def by blast
    then obtain ws where ws: "emits p p1 ws" and s: "straight isa ws (\<lambda>st st'. \<forall>R. matches n st R \<longrightarrow>
        matches n st' (R(unat (bi_dst_reg (im_insn m)) := bpf_alu (im_insn m) R)) \<and> me_nnr st' = me_nnr st)"
      by (auto simp: computes_def segment_def)
    have "block_ok isa n (im_insn m) ws" unfolding block_ok_def using alu(1) codes_apart(1)[OF alu(1)] s unfolding straight_def by auto metis
    then show ?thesis using emits_exact[OF ws r(4,3)] codes_apart(1)[OF alu(1)] rem same by (auto simp: flags_ok_def)
  next
    case test
    have "branches isa n p p1 (bpf_jump_taken (im_insn m))"
      using good_jumps[OF doc tab] test r regs unfolding cb_branches_def is_test_def by blast
    then obtain ws where ws: "emits p p1 ws" "list_all plain_br ws" and s: "\<forall>st R. matches n st R \<longrightarrow> (\<exists>st'. me_run isa ws st = Some (bpf_jump_taken (im_insn m) R, st') \<and>
        matches n st' R \<and> me_nnr st' = me_nnr st)" unfolding branches_def by blast
    have "0 \<le> sint (bi_off (im_insn m))" using test_forward[OF tab test, of p] r(1) by simp
    then have "block_ok isa n (im_insn m) ws" unfolding block_ok_def using test codes_apart ws(2) s by metis
    moreover have "flags_ok m1 ws"
    proof (cases "im_skip m1")
      case True
      then have "ws = []" using test_skips[OF tab test r(1) True tr(2)] emits_exact(1)[OF ws(1) r(4,3)] by (cases p) auto
      then show ?thesis using rem same True by (simp add: flags_ok_def)
    next
      case False
      then have "ends_br p p1" using test_shape[OF tab test \<open>0 \<le> sint (bi_off (im_insn m))\<close>, of p] r(1) by simp
      then show ?thesis using ends_br_block[OF _ r(3) emits_exact(1)[OF ws(1) r(4,3)]] False by (simp add: flags_ok_def)
    qed
    ultimately show ?thesis using emits_exact[OF ws(1) r(4,3)] by blast
  next
    case exit
    then have "cb = goto_out" using tab exit_code by simp
    then show ?thesis using goto_out_block[OF r(4) _ r(2), of m] r(1,3) exit codes_apart(2)[of "im_insn m"] rem same
      by (auto simp: block_ok_def flags_ok_def)
  qed
qed

text \<open>The loop: one block per instruction, each at the offset recorded for it.\<close>

lemma translate_loop_blocks:
  assumes doc: "me_documented isa" and "translate_loop cl prev ms p = (0, ms', q)" "np_error q = 0" "np_error p = 0" "room p" "regs_fit n p"
    and "\<forall>pm. prev = Some pm \<longrightarrow> \<not> im_double pm" "list_all (\<lambda>m. \<not> im_skip m \<and> \<not> im_double m \<and> translatable n (im_insn m)) ms"
  shows "\<exists>bs. length bs = length ms \<and> length ms' = length ms \<and> np_prog q = np_prog p @ concat bs \<and> np_start_off q = np_start_off p \<and>
    (\<forall>i < length ms. block_ok isa n (im_insn (ms ! i)) (bs ! i) \<and> im_insn (ms' ! i) = im_insn (ms ! i) \<and>
      im_off (ms' ! i) = np_start_off p + of_nat (length (np_prog p @ concat (take i bs))) \<and>
      flags_ok (ms' ! i) (bs ! i))"
  using assms(2-)
proof (induction ms arbitrary: prev p ms')
  case (Cons meta ms)
  define m where "m = meta\<lparr>im_off := nfp_prog_current_offset p\<rparr>"
  have m: "\<not> im_skip m" "\<not> im_double m" "im_insn m = im_insn meta" "translatable n (im_insn m)" using Cons.prems(7) by (auto simp: m_def)
  have pick: "pick_cb cl prev m = map_of (instr_cb cl) (bi_code (im_insn m))" using Cons.prems(6) by (auto simp: pick_cb_def split: option.split)
  obtain cb where cb: "map_of (instr_cb cl) (bi_code (im_insn m)) = Some cb"
    using Cons.prems(1) m(1) pick by (cases "map_of (instr_cb cl) (bi_code (im_insn m))") (auto simp: m_def[symmetric] Let_def)
  obtain e m1 p1 where c: "cb m p = ((e, m1), p1)" by (cases "cb m p") auto
  have e: "e = 0" using Cons.prems(1) m(1) pick cb c by (auto simp: m_def[symmetric] Let_def split: if_split_asm)
  define p2 where "p2 = p1\<lparr>np_n_translated := np_n_translated p1 + 1\<rparr>"
  obtain ms1 where r: "translate_loop cl (Some m1) ms p2 = (0, ms1, q)" "ms' = m1 # ms1"
    using Cons.prems(1) m(1) pick cb c e by (auto simp: m_def[symmetric] p2_def Let_def split: prod.split_asm)
  have "grows p2 q" using translate_loop_bounds[OF r(1)] by blast
  then have err: "np_error p2 = 0" "np_error p1 = 0" using np_error_grows[of p2 q] Cons.prems(2) by (simp_all add: p2_def)
  obtain ws where ws: "p1 = p\<lparr>np_prog := np_prog p @ ws\<rparr>" "room p1" "block_ok isa n (im_insn m) ws" "flags_ok m1 ws"
    using cb_block[OF doc cb m(4,1) c[unfolded e] Cons.prems(3) err(2) Cons.prems(4,5)] by blast
  have tab: "(bi_code (im_insn m), cb) \<in> set (instr_cb cl)" by (rule map_of_SomeD[OF cb])
  have "bi_code (im_insn m) \<noteq> 0x18" using m(4) by (auto simp: translatable_def is_alu_def is_test_def BPF_CLASS_def)
  then have "\<not> im_double m1" using table_keeps[OF tab, of m p] c m(2) by simp
  moreover have "im_insn m1 = im_insn m" "im_off m1 = im_off m"
    using table_append[OF tab] c unfolding cb_appends_def by (metis fst_conv snd_conv)+
  ultimately have m1: "\<not> im_double m1" "im_insn m1 = im_insn meta" "im_off m1 = np_start_off p + of_nat (length (np_prog p))"
    by (simp_all add: m_def nfp_prog_current_offset_def)
  have p2: "room p2" "regs_fit n p2" "np_prog p2 = np_prog p @ ws" "np_start_off p2 = np_start_off p" using ws(1,2) Cons.prems(5) by (simp_all add: p2_def room_def regs_fit_def)
  obtain bs where bs: "length bs = length ms" "length ms1 = length ms" "np_prog q = np_prog p2 @ concat bs" "np_start_off q = np_start_off p2"
    "\<forall>i < length ms. block_ok isa n (im_insn (ms ! i)) (bs ! i) \<and> im_insn (ms1 ! i) = im_insn (ms ! i) \<and>
      im_off (ms1 ! i) = np_start_off p2 + of_nat (length (np_prog p2 @ concat (take i bs))) \<and> flags_ok (ms1 ! i) (bs ! i)"
    using Cons.IH[OF r(1) Cons.prems(2) err(1) p2(1,2)] m1(1) Cons.prems(7) by auto
  show ?case
  proof (intro exI[of _ "ws # bs"] conjI)
    show "\<forall>i < length (meta # ms). block_ok isa n (im_insn ((meta # ms) ! i)) ((ws # bs) ! i) \<and> im_insn (ms' ! i) = im_insn ((meta # ms) ! i) \<and>
      im_off (ms' ! i) = np_start_off p + of_nat (length (np_prog p @ concat (take i (ws # bs)))) \<and>
      flags_ok (ms' ! i) ((ws # bs) ! i)"
    proof (intro allI impI)
      fix i assume "i < length (meta # ms)"
      then show "block_ok isa n (im_insn ((meta # ms) ! i)) ((ws # bs) ! i) \<and> im_insn (ms' ! i) = im_insn ((meta # ms) ! i) \<and>
        im_off (ms' ! i) = np_start_off p + of_nat (length (np_prog p @ concat (take i (ws # bs)))) \<and>
      flags_ok (ms' ! i) ((ws # bs) ! i)"
        using ws(3,4) m1(2,3) m(3) bs(5) r(2) p2(3,4) by (cases i) (simp_all add: add.assoc)
    qed
  qed (use bs r(2) p2 in simp_all)
qed simp

section \<open>Fixing up the branches\<close>

definition retarget :: "u16 \<Rightarrow> u64 \<Rightarrow> u64" where
  "retarget t w = (if nfp_is_br w then br_set_offset w t else w)"

lemma set_targets_block:
  assumes "pre \<noteq> []"
  shows "set_targets (length pre) (length pre + length b - 1) t (pre @ b @ post) = pre @ map (retarget t) b @ post"
proof (rule nth_equalityI)
  show l: "length (set_targets (length pre) (length pre + length b - 1) t (pre @ b @ post)) = length (pre @ map (retarget t) b @ post)" by simp
  fix i assume "i < length (set_targets (length pre) (length pre + length b - 1) t (pre @ b @ post))"
  then have i: "i < length (pre @ b @ post)" by simp
  have r: "length pre \<le> i \<and> i \<le> length pre + length b - 1 \<longleftrightarrow> length pre \<le> i \<and> i < length pre + length b"
    using assms by (cases pre) auto
  show "set_targets (length pre) (length pre + length b - 1) t (pre @ b @ post) ! i = (pre @ map (retarget t) b @ post) ! i"
    using i r unfolding set_targets_def by (auto simp: nth_append retarget_def)
qed

lemma fixup_target_index:
  "fixup_target off m ms = (0, t) \<Longrightarrow> unat off \<le> length ms \<and> t = (m # ms) ! unat off"
proof (induction off m ms rule: fixup_target.induct)
  case (2 off m m' ms)
  show ?case
  proof (cases "off = 0")
    case False
    then have "unat off = Suc (unat (off - 1))" by (simp add: unat_minus_one Suc_diff_1 unat_gt_0)
    then show ?thesis using 2 False by simp
  qed (use 2 in simp)
qed simp

lemma forward_offset:
  fixes off :: u16
  assumes "0 \<le> sint off"
  shows "unat (scast off :: u32) = nat (sint off)"
proof -
  have "sint off < 2 ^ 15" using sint_less[of off] by simp
  then have "uint (word_of_int (sint off) :: u32) = sint off" using assms by (subst unsigned_of_int, subst take_bit_int_eq_self) simp_all
  then show ?thesis unfolding scast_eq unat_eq_nat_uint by simp
qed

definition block_at :: "nfp_prog \<Rightarrow> nat \<Rightarrow> nfp_insn_meta \<Rightarrow> bool" where
  "block_at p k m \<longleftrightarrow> im_off m = np_start_off p + of_nat k"

lemma block_at_index: "block_at p k m \<Longrightarrow> k < 2 ^ 32 \<Longrightarrow> unat (nfp_prog_offset_to_index p (im_off m)) = k"
  by (simp add: block_at_def nfp_prog_offset_to_index_def unsigned_of_nat take_bit_nat_eq_self)

lemma block_at_before: "block_at p k m \<Longrightarrow> 0 < k \<Longrightarrow> k < 2 ^ 32 \<Longrightarrow> unat (nfp_prog_offset_to_index p (im_off m) - 1) = k - 1"
proof -
  assume a: "block_at p k m" "0 < k" "k < 2 ^ 32"
  have "nfp_prog_offset_to_index p (im_off m) - 1 = of_nat (k - 1)" using a by (simp add: block_at_def nfp_prog_offset_to_index_def of_nat_diff)
  moreover have "unat (of_nat (k - 1) :: u32) = k - 1" using a by (subst unsigned_of_nat, subst take_bit_nat_eq_self) simp_all
  ultimately show ?thesis by simp
qed

text \<open>What the loop sees of an instruction: its kind, and the shape of its block.\<close>

definition fixable :: "nfp_insn_meta \<Rightarrow> u64 list \<Rightarrow> bool" where
  "fixable m b \<longleftrightarrow> (BPF_CLASS (bi_code (im_insn m)) = BPF_JMP \<longrightarrow>
     bi_code (im_insn m) = 0x95 \<and> b = [exit_word] \<or> is_test (im_insn m) \<and> list_all plain_br b \<and> 0 \<le> sint (bi_off (im_insn m)))"

text \<open>What it leaves of block \<open>b\<close> of the instruction at the head of \<open>ms\<close>.\<close>

definition fixed :: "nfp_insn_meta list \<Rightarrow> u64 list \<Rightarrow> u64 list \<Rightarrow> bool" where
  "fixed ms b c \<longleftrightarrow>
     (if is_test (im_insn (hd ms)) \<and> tl ms \<noteq> [] \<and> b \<noteq> [] \<and> \<not> im_skip (hd ms)
      then let j = Suc (nat (sint (bi_off (im_insn (hd ms))))) in
        j < length ms \<and> \<not> im_skip (ms ! j) \<and> c = map (retarget (ucast (im_off (ms ! j)))) b
      else c = b)"

lemma exit_special: "nfp_is_br exit_word" "FIELD_GET OP_BR_SPECIAL exit_word = 1"
  by (simp_all add: exit_word_def nfp_is_br_def br_word_def kind_decode field_decode)

lemma fixup_one_block:
  assumes "fixup_one m nxt rest p = Some (0, q)" "np_prog p = pre @ b @ post" "pre \<noteq> []" "length (np_prog p) < 2 ^ 32"
    and "block_at p (length pre) m" "block_at p (length (pre @ b)) nxt" "fixable m b"
  shows "\<exists>c. q = p\<lparr>np_prog := pre @ c @ post\<rparr> \<and> length c = length b \<and> fixed (m # nxt # rest) b c"
proof -
  have small: "length (pre @ b) < 2 ^ 32" "length pre < 2 ^ 32" using assms(2,4) by simp_all
  have from_ix: "unat (nfp_prog_offset_to_index p (im_off m)) = length pre" by (rule block_at_index[OF assms(5) small(2)])
  have br_ix: "unat (nfp_prog_offset_to_index p (im_off nxt) - 1) = length pre + length b - 1"
    using block_at_before[OF assms(6) _ small(1)] assms(3) by simp
  have same: ?thesis if "q = p" "\<not> (is_test (im_insn m) \<and> b \<noteq> [] \<and> \<not> im_skip m)"
    by (rule exI[of _ b]) (use that assms(2) in \<open>auto simp: fixed_def\<close>)
  consider (skip) "im_skip m" | (other) "\<not> im_skip m" "BPF_CLASS (bi_code (im_insn m)) \<noteq> BPF_JMP"
    | (jmp) "\<not> im_skip m" "BPF_CLASS (bi_code (im_insn m)) = BPF_JMP" by blast
  then show ?thesis
  proof cases
    case skip
    then show ?thesis using assms(1) by (intro same) (simp_all add: fixup_one_def)
  next
    case other
    then have "\<not> is_test (im_insn m)" by (auto simp: is_test_def BPF_CLASS_def)
    then show ?thesis using assms(1) other by (intro same) (simp_all add: fixup_one_def)
  next
    case jmp
    define w where "w = np_prog p ! (length pre + length b - 1)"
    have u: "length pre + length b - 1 < length (np_prog p)" using assms(2,3) by (cases pre) auto
    have f: "fixup_one m nxt rest p = (if \<not> nfp_is_br w then Some (- ELOOP, p) else if FIELD_GET OP_BR_SPECIAL w \<noteq> 0 then Some (0, p)
        else if bi_off (im_insn m) = 0 then Some (- ELOOP, p)
        else case fixup_target (scast (bi_off (im_insn m))) nxt rest of (off, target) \<Rightarrow>
          if off \<noteq> 0 then Some (- ELOOP, p) else if im_skip target then Some (- ELOOP, p)
          else Some (0, p\<lparr>np_prog := set_targets (length pre) (length pre + length b - 1) (ucast (im_off target)) (np_prog p)\<rparr>))"
      unfolding fixup_one_def Let_def from_ix br_ix w_def[symmetric] using jmp u by simp
    have br: "nfp_is_br w" using assms(1) unfolding f by (auto split: if_split_asm)
    show ?thesis
    proof (cases "FIELD_GET OP_BR_SPECIAL w \<noteq> 0")
      case True
      have "\<not> (is_test (im_insn m) \<and> b \<noteq> [])"
      proof
        assume t: "is_test (im_insn m) \<and> b \<noteq> []"
        then have "list_all plain_br b" using assms(7) jmp(2) codes_apart(2) by (auto simp: fixable_def)
        moreover have "w \<in> set b" unfolding w_def assms(2) using t by (cases b rule: rev_cases) (auto simp: nth_append)
        ultimately show False using True br by (auto simp: list_all_iff plain_br_def)
      qed
      then show ?thesis using assms(1) True br unfolding f by (intro same) auto
    next
      case False
      obtain target where t: "fixup_target (scast (bi_off (im_insn m))) nxt rest = (0, target)" "\<not> im_skip target"
        and q: "q = p\<lparr>np_prog := set_targets (length pre) (length pre + length b - 1) (ucast (im_off target)) (np_prog p)\<rparr>"
        using assms(1) br False unfolding f by (auto split: if_split_asm prod.split_asm)
      have q': "q = p\<lparr>np_prog := pre @ map (retarget (ucast (im_off target))) b @ post\<rparr>"
        unfolding q assms(2) set_targets_block[OF assms(3)] ..
      show ?thesis
      proof (cases "b = []")
        case True
        then show ?thesis using q' by (intro exI[of _ "[]"]) (simp add: fixed_def)
      next
        case ne: False
        have "b \<noteq> [exit_word]"
        proof
          assume "b = [exit_word]"
          then have "w = exit_word" unfolding w_def assms(2) by (simp add: nth_append)
          then show False using False exit_special(2) by simp
        qed
        then have s: "is_test (im_insn m)" "0 \<le> sint (bi_off (im_insn m))" using assms(7) jmp(2) by (auto simp: fixable_def)
        note ix = fixup_target_index[OF t(1)] forward_offset[OF s(2)]
        have "fixed (m # nxt # rest) b (map (retarget (ucast (im_off target))) b)"
          using s ne jmp(1) ix t(2) by (auto simp: fixed_def Let_def)
        then show ?thesis using q' by auto
      qed
    qed
  qed
qed

lemma fixup_walk_blocks:
  assumes "fixup_walk ms p = Some (0, q)" "np_prog p = pre @ concat bs @ post" "pre \<noteq> []" "length (np_prog p) < 2 ^ 32" "length bs = length ms"
    and "\<forall>i < length ms. block_at p (length (pre @ concat (take i bs))) (ms ! i) \<and> fixable (ms ! i) (bs ! i)"
  shows "\<exists>cs. q = p\<lparr>np_prog := pre @ concat cs @ post\<rparr> \<and> length cs = length bs \<and>
    (\<forall>i < length ms. length (cs ! i) = length (bs ! i) \<and> fixed (drop i ms) (bs ! i) (cs ! i))"
  using assms
proof (induction ms p arbitrary: pre bs rule: fixup_walk_induct)
  case (Walk m nxt rest p)
  obtain b1 b2 bs' where bs: "bs = b1 # b2 # bs'" using Walk(6) by (cases bs; cases "tl bs") auto
  obtain e p1 where o: "fixup_one m nxt rest p = Some (e, p1)" "e = 0" using Walk(2) by (auto split: option.split_asm if_split_asm)
  have blk: "block_at p (length pre) m" "block_at p (length (pre @ b1)) nxt" "fixable m b1"
    using Walk(7)[rule_format, of 0] Walk(7)[rule_format, of "Suc 0"] by (simp_all add: bs)
  have pr: "np_prog p = pre @ b1 @ (concat (b2 # bs') @ post)" using Walk(3) bs by simp
  obtain c where c: "p1 = p\<lparr>np_prog := pre @ c @ (concat (b2 # bs') @ post)\<rparr>" "length c = length b1" "fixed (m # nxt # rest) b1 c"
    using fixup_one_block[OF o(1)[unfolded o(2)] pr Walk(4,5) blk] by blast
  have w: "fixup_walk (nxt # rest) p1 = Some (0, q)" using Walk(2) o by simp
  have pr1: "np_prog p1 = (pre @ c) @ concat (b2 # bs') @ post" using c(1) by simp
  have len: "length (np_prog p1) < 2 ^ 32" using Walk(5) pr pr1 c(2) by simp
  have "\<exists>cs. q = p1\<lparr>np_prog := (pre @ c) @ concat cs @ post\<rparr> \<and> length cs = length (b2 # bs') \<and>
      (\<forall>i < length (nxt # rest). length (cs ! i) = length ((b2 # bs') ! i) \<and> fixed (drop i (nxt # rest)) ((b2 # bs') ! i) (cs ! i))"
  proof (rule Walk(1)[OF o(1) refl _ w pr1 _ len])
    show "\<forall>i < length (nxt # rest). block_at p1 (length ((pre @ c) @ concat (take i (b2 # bs')))) ((nxt # rest) ! i) \<and> fixable ((nxt # rest) ! i) ((b2 # bs') ! i)"
    proof (intro allI impI)
      fix i assume "i < length (nxt # rest)"
      then show "block_at p1 (length ((pre @ c) @ concat (take i (b2 # bs')))) ((nxt # rest) ! i) \<and> fixable ((nxt # rest) ! i) ((b2 # bs') ! i)"
        using Walk(7)[rule_format, of "Suc i"] c(1,2) bs by (simp add: block_at_def add.assoc)
    qed
  qed (use Walk(4,6) bs o(2) in simp_all)
  then obtain cs where cs: "q = p1\<lparr>np_prog := (pre @ c) @ concat cs @ post\<rparr>" "length cs = length (b2 # bs')"
    "\<forall>i < length (nxt # rest). length (cs ! i) = length ((b2 # bs') ! i) \<and> fixed (drop i (nxt # rest)) ((b2 # bs') ! i) (cs ! i)" by blast
  show ?case
  proof (intro exI[of _ "c # cs"] conjI allI impI)
    fix i assume i: "i < length (m # nxt # rest)"
    show "length ((c # cs) ! i) = length (bs ! i)" using cs(3) c(2) i bs by (cases i) auto
    show "fixed (drop i (m # nxt # rest)) (bs ! i) ((c # cs) ! i)" using cs(3) c(3) i bs by (cases i) auto
  qed (use cs c bs in simp_all)
next
  case (Empty p)
  then show ?case by (intro exI[of _ "[]"]) auto
next
  case (Last m p)
  then show ?case by (intro exI[of _ bs]) (auto simp: fixed_def)
qed

section \<open>The fixed-up words run like the emitted ones\<close>

definition same_kind :: "u64 \<Rightarrow> u64 \<Rightarrow> bool" where
  "same_kind v w \<longleftrightarrow> nfp_is_br v = nfp_is_br w \<and> (if nfp_is_br w then FIELD_GET OP_BR_MASK v = FIELD_GET OP_BR_MASK w \<and>
     FIELD_GET OP_BR_DEFBR v = FIELD_GET OP_BR_DEFBR w else v = w)"

lemma me_run_same: "list_all2 same_kind vs ws \<Longrightarrow> me_run isa vs st = me_run isa ws st"
proof (induction vs ws arbitrary: st rule: list_all2_induct)
  case (Cons v vs w ws)
  have "me_run isa vs = me_run isa ws" using Cons(3) by (rule ext)
  then show ?case using Cons(1) by (auto simp: same_kind_def split: if_split_asm)
qed simp

lemma FIELD_GET_cong: "v AND m = w AND m \<Longrightarrow> FIELD_GET m v = FIELD_GET m w"
  by (simp add: FIELD_GET_def)

lemma br_set_offset_kind: "nfp_is_br (br_set_offset w t) = nfp_is_br w"
  "FIELD_GET OP_BR_MASK (br_set_offset w t) = FIELD_GET OP_BR_MASK w" "FIELD_GET OP_BR_DEFBR (br_set_offset w t) = FIELD_GET OP_BR_DEFBR w"
  "FIELD_GET OP_BR_SPECIAL (br_set_offset w t) = FIELD_GET OP_BR_SPECIAL w"
  unfolding nfp_is_br_def by (subst br_set_offset_other, simp, rule refl) (rule FIELD_GET_cong, rule br_set_offset_other, simp)+

definition without_special :: "u64 \<Rightarrow> u64" where "without_special w = w AND NOT OP_BR_SPECIAL"

lemma without_special_and: "m AND OP_BR_SPECIAL = 0 \<Longrightarrow> without_special w AND m = w AND m"
  using and_not_disjoint[of m OP_BR_SPECIAL] unfolding without_special_def by (simp only: and.assoc)

lemma without_special_get: "m AND OP_BR_SPECIAL = 0 \<Longrightarrow> FIELD_GET m (without_special w) = FIELD_GET m w"
  by (rule FIELD_GET_cong, rule without_special_and)

lemma without_special_kind: "nfp_is_br (without_special w) = nfp_is_br w" "br_target (without_special w) = br_target w"
  "FIELD_GET OP_BR_MASK (without_special w) = FIELD_GET OP_BR_MASK w" "FIELD_GET OP_BR_DEFBR (without_special w) = FIELD_GET OP_BR_DEFBR w"
  unfolding nfp_is_br_def br_target_def by (simp_all add: without_special_and without_special_get)

lemma fixup_special_eq:
  "fixup_special out abort w = (if \<not> nfp_is_br w then w
     else without_special (if FIELD_GET OP_BR_SPECIAL w = OP_BR_GO_OUT then br_set_offset w (ucast out)
       else if FIELD_GET OP_BR_SPECIAL w = OP_BR_GO_ABORT then br_set_offset w (ucast abort) else w))"
  unfolding fixup_special_def without_special_def nfp_is_br_def Let_def by (rule refl)

lemma fixup_special_kind: "same_kind (fixup_special out abort w) w"
  by (simp add: fixup_special_eq same_kind_def without_special_kind br_set_offset_kind)

lemma retarget_kind: "same_kind (retarget t w) w"
  by (auto simp: retarget_def same_kind_def br_set_offset_kind)

lemma fixup_special_plain: "plain_br w \<Longrightarrow> nfp_is_br w \<Longrightarrow> br_target (fixup_special out abort w) = br_target w"
  by (simp add: fixup_special_eq plain_br_def without_special_kind)

lemma fixup_special_exit: "br_target (fixup_special out abort exit_word) = br_target (br_set_offset exit_word (ucast out))"
  using exit_special by (simp add: fixup_special_eq without_special_kind)

lemma same_kind_trans: "same_kind u v \<Longrightarrow> same_kind v w \<Longrightarrow> same_kind u w"
  by (auto simp: same_kind_def split: if_split_asm)

section \<open>Running a program\<close>

text \<open>Code at the addresses from \<open>start\<close> on. A branch that is taken with words deferred behind it has no step here.\<close>

inductive me_reaches :: "me_isa \<Rightarrow> nat \<Rightarrow> u64 list \<Rightarrow> nat \<times> me_state \<Rightarrow> nat \<times> me_state \<Rightarrow> bool"
  for isa start ws where
  me_here: "me_reaches isa start ws c c"
| me_plain: "pc < length ws \<Longrightarrow> \<not> nfp_is_br (ws ! pc) \<Longrightarrow> me_step isa (ws ! pc) st = Some mid \<Longrightarrow>
    me_reaches isa start ws (start + Suc pc, mid) c \<Longrightarrow> me_reaches isa start ws (start + pc, st) c"
| me_fall: "pc < length ws \<Longrightarrow> nfp_is_br (ws ! pc) \<Longrightarrow> \<not> isa_br isa (FIELD_GET OP_BR_MASK (ws ! pc)) (me_zero st) (me_carry st) \<Longrightarrow>
    FIELD_GET OP_BR_DEFBR (ws ! pc) = 0 \<Longrightarrow>
    me_reaches isa start ws (start + Suc pc, st) c \<Longrightarrow> me_reaches isa start ws (start + pc, st) c"
| me_branch: "pc < length ws \<Longrightarrow> nfp_is_br (ws ! pc) \<Longrightarrow> isa_br isa (FIELD_GET OP_BR_MASK (ws ! pc)) (me_zero st) (me_carry st) \<Longrightarrow>
    FIELD_GET OP_BR_DEFBR (ws ! pc) = 0 \<Longrightarrow>
    me_reaches isa start ws (br_target (ws ! pc), st) c \<Longrightarrow> me_reaches isa start ws (start + pc, st) c"

lemma me_reaches_trans: "me_reaches isa start ws a b \<Longrightarrow> me_reaches isa start ws b c \<Longrightarrow> me_reaches isa start ws a c"
  by (induction rule: me_reaches.induct) (auto intro: me_reaches.intros)

text \<open>A block whose branches all have the same target runs as a block.\<close>

lemma me_run_reaches:
  assumes "me_run isa vs st = Some (b, st')" "ws = pre @ vs @ post"
    and "\<forall>v \<in> set vs. nfp_is_br v \<longrightarrow> FIELD_GET OP_BR_DEFBR v = 0 \<and> (b \<longrightarrow> br_target v = t)"
  shows "me_reaches isa start ws (start + length pre, st) (if b then t else start + length pre + length vs, st')"
  using assms
proof (induction vs arbitrary: pre st)
  case (Cons v vs)
  have at: "length pre < length ws" "ws ! length pre = v" using Cons.prems(2) by simp_all
  have next_pre: "ws = (pre @ [v]) @ vs @ post" using Cons.prems(2) by simp
  note ih = Cons.IH[OF _ next_pre]
  show ?case
  proof (cases "nfp_is_br v")
    case True
    have d: "FIELD_GET OP_BR_DEFBR v = 0" "b \<longrightarrow> br_target v = t" using Cons.prems(3) True by auto
    show ?thesis
    proof (cases "isa_br isa (FIELD_GET OP_BR_MASK v) (me_zero st) (me_carry st)")
      case taken: True
      then have "b" "st' = st" using Cons.prems(1) True by auto
      then show ?thesis using me_branch[of "length pre" ws isa st start, unfolded at(2), OF at(1) True taken d(1) me_here] d(2) \<open>b\<close> by simp
    next
      case False
      then have "me_run isa vs st = Some (b, st')" using Cons.prems(1) True by simp
      from ih[OF this] Cons.prems(3) show ?thesis
        using me_fall[of "length pre" ws isa st start, unfolded at(2), OF at(1) True False d(1)] by (cases b) simp_all
    qed
  next
    case False
    then obtain mid where m: "me_step isa v st = Some mid" "me_run isa vs mid = Some (b, st')"
      using Cons.prems(1) by (auto simp: bind_eq_Some_conv)
    from ih[OF m(2)] Cons.prems(3) show ?thesis
      using me_plain[of "length pre" ws isa st mid start, unfolded at(2), OF at(1) False m(1)] by (cases b) simp_all
  qed
qed (simp add: me_here)

section \<open>A whole program\<close>

text \<open>The entry sequence writes one scratch register.\<close>

lemma pkt_number:
  assumes "regs_fit n p"
  shows "unat (np_regs_per_thread p - 1) < 256" "2 * n < unat (np_regs_per_thread p - 1)"
proof -
  have "np_regs_per_thread p - 1 = (np_regs_per_thread p - 2) + 1" by simp
  then have "unat (np_regs_per_thread p - 1) = Suc (unat (np_regs_per_thread p - 2))"
    using assms unfolding regs_fit_def by (simp only: unat_word_ariths) simp
  then show "unat (np_regs_per_thread p - 1) < 256" "2 * n < unat (np_regs_per_thread p - 1)" using assms by (simp_all add: regs_fit_def)
qed

lemma intro_block:
  assumes "regs_fit n p" "room p" "np_error (nfp_intro p) = 0"
  shows "\<exists>w. nfp_intro p = p\<lparr>np_prog := np_prog p @ [w]\<rparr> \<and> room (nfp_intro p) \<and> \<not> nfp_is_br w \<and>
    (\<forall>st R. matches n st R \<longrightarrow> (\<exists>st'. me_run isa [w] st = Some (False, st') \<and> matches n st' R))"
proof -
  define r where "r = np_regs_per_thread p - 1"
  have r: "unat r < 256" "2 * n < unat r" using pkt_number[OF assms(1)] by (simp_all add: r_def)
  have t: "sw_type (reg_a r) = NN_REG_GPR_A" "sw_num (reg_a r) = unat r" using r(1) by simp_all
  obtain w where w: "emits p (nfp_intro p) [w]" "straight isa [w] (\<lambda>st st'. \<exists>lv. (sw_src reg_none \<longrightarrow> lv = sw_val st reg_none) \<and>
      st' = alu_result isa ALU_OP_NONE (reg_a r) lv (sw_val st NFP_BPF_ABI_PKT) st)"
    unfolding nfp_intro_def pkt_reg_def r_def[symmetric]
    using emit_alu_emits[of ALU_OP_NONE "reg_a r" reg_none NFP_BPF_ABI_PKT p isa] r(1) by auto
  have "matches n (alu_result isa ALU_OP_NONE (reg_a r) lv v st) R" if "matches n st R" for lv v st R
  proof -
    obtain x c where "isa_alu isa ALU_OP_NONE lv v (me_carry st) = (x, c)" by (cases "isa_alu isa ALU_OP_NONE lv v (me_carry st)")
    then have f: "frame {unat r} st (alu_result isa ALU_OP_NONE (reg_a r) lv v st)" using alu_result_post(4)[of isa ALU_OP_NONE lv v st x c "reg_a r"] t by simp
    show ?thesis using that r(2) frame_reg_is[OF f] by (auto simp: matches_def)
  qed
  then have "\<forall>st R. matches n st R \<longrightarrow> (\<exists>st'. me_run isa [w] st = Some (False, st') \<and> matches n st' R)" using w(2) unfolding straight_def by blast
  then show ?thesis using emits_exact[OF w(1) assms(2,3)] w(2) unfolding straight_def by auto
qed

text \<open>The exit sequence starts inside of the program.\<close>

lemma tgt_out_kept [simp]:
  "np_tgt_out (nfp_prog_push w p) = np_tgt_out p" "np_tgt_out (prog_fail err p) = np_tgt_out p"
  by (simp_all add: nfp_prog_push_def prog_fail_def)

lemma tgt_out_emit [simp]:
  "np_tgt_out (emit_br_def addr defer p) = np_tgt_out p" "np_tgt_out (emit_br msk addr defer p) = np_tgt_out p"
  "np_tgt_out (emit_br_byte_neq dst imm byte addr defer p) = np_tgt_out p" "np_tgt_out (emit_immed dst im16 width neg sh p) = np_tgt_out p"
  "np_tgt_out (emit_shf dst l sop r sc shift p) = np_tgt_out p" "np_tgt_out (emit_alu dst l aop r p) = np_tgt_out p"
  "np_tgt_out (emit_ld_field dst bmask src sc shift p) = np_tgt_out p" "np_tgt_out (set_tgt_out p) = nfp_prog_current_offset p"
  unfolding emit_br_def_def emit_br_def emit_br_byte_neq_def emit_immed_def emit_shf_def emit_shf_raw_def emit_alu_def
    emit_ld_field_def emit_ld_field_any_def set_tgt_out_def Let_def
  by (simp_all split: sum.split)

lemma tgt_out_immed [simp]: "np_tgt_out (wrp_immed dst imm p) = np_tgt_out p"
  unfolding wrp_immed_def by (auto split: option.split prod.split)

lemma outro_target: "\<exists>m. np_tgt_out (nfp_outro p) = nfp_prog_current_offset m \<and> grows p m \<and> grows m (nfp_outro p)"
  unfolding nfp_outro_def nfp_outro_tc_da_def nfp_outro_tc_legacy_def nfp_outro_xdp_def flags_to_a0_def Let_def
  by (cases "np_act p"; simp; (rule exI, rule conjI, rule refl, simp add: grows_intros grows_trans[OF _ grows_set_tgt(1)] grows_trans[OF _ grows_set_tgt(2)]))

section \<open>The parts of a translated program\<close>

text \<open>
  \<open>ins\<close> translated to \<open>ws\<close>: the word of the entry sequence, one block per instruction as the
  callbacks left it (\<open>bs\<close>), the exit sequence; in the final words every branch has its target.
\<close>

lemma fixup_walk_length: "fixup_walk ms p = Some (err, q) \<Longrightarrow> length (np_prog q) = length (np_prog p)"
proof (induction ms p rule: fixup_walk_induct)
  case (Walk meta nxt rest p)
  have "length (np_prog p') = length (np_prog p)" if "fixup_one meta nxt rest p = Some (e, p')" for e p'
    using that by (auto simp: fixup_one_def Let_def split: if_split_asm prod.split_asm)
  then show ?case using Walk by (auto split: option.split_asm if_split_asm)
qed auto

lemma translated_parts:
  assumes doc: "me_documented isa" and tr: "nfp_translate cl p = Some (0, q)" and p: "np_prog p = []" "np_error p = 0" "room p" "regs_fit n p"
    and ms: "list_all (\<lambda>m. \<not> im_skip m \<and> \<not> im_double m \<and> translatable n (im_insn m)) (np_insns p)" and len: "length (np_prog q) < 2 ^ 32"
  obtains w bs cs post ms' out abort k where
    "np_prog q = map (fixup_special out abort) ([w] @ concat cs @ post)" "np_tgt_out q = out" "out = np_start_off p + of_nat k" "k \<le> length (np_prog q)"
    "\<not> nfp_is_br w" "\<And>st R. matches n st R \<Longrightarrow> \<exists>st'. me_run isa [w] st = Some (False, st') \<and> matches n st' R"
    "length bs = length (np_insns p)" "length cs = length (np_insns p)" "length ms' = length (np_insns p)"
    "\<And>i. i < length (np_insns p) \<Longrightarrow> block_ok isa n (im_insn (np_insns p ! i)) (bs ! i) \<and> im_insn (ms' ! i) = im_insn (np_insns p ! i) \<and>
      im_off (ms' ! i) = np_start_off p + of_nat (length ([w] @ concat (take i cs))) \<and>
      (is_test (im_insn (np_insns p ! i)) \<and> im_skip (ms' ! i) \<longrightarrow> bs ! i = []) \<and> length (cs ! i) = length (bs ! i) \<and> fixed (drop i ms') (bs ! i) (cs ! i)"
proof -
  define p1 where "p1 = nfp_intro p"
  have e1: "np_error p1 = 0" using tr by (auto simp: nfp_translate_def p1_def Let_def split: if_split_asm)
  obtain w where w: "p1 = p\<lparr>np_prog := [w]\<rparr>" "room p1" "\<not> nfp_is_br w"
    "\<forall>st R. matches n st R \<longrightarrow> (\<exists>st'. me_run isa [w] st = Some (False, st') \<and> matches n st' R)"
    using intro_block[OF p(4,3), of isa] e1 p(1) unfolding p1_def by auto
  obtain e ms' p2 where l: "translate_loop cl None (np_insns p1) p1 = (e, ms', p2)" by (metis prod_cases3)
  define p3 where "p3 = p2\<lparr>np_insns := ms'\<rparr>"
  define p4 where "p4 = nfp_outro p3"
  have t: "e = 0" "np_error p4 = 0" "nfp_fixup_branches p4 = Some (0, q)"
    using tr l e1 by (auto simp: nfp_translate_def p1_def[symmetric] p3_def[symmetric] p4_def[symmetric] Let_def split: if_split_asm)
  have g: "grows p3 p4" unfolding p4_def by (rule grows_outro)
  have e2: "np_error p2 = 0" using np_error_grows[OF g t(2)] by (simp add: p3_def)
  have fit: "regs_fit n p1" "np_insns p1 = np_insns p" "np_start_off p1 = np_start_off p" "np_prog p1 = [w]" using p(4) w(1) by (simp_all add: regs_fit_def)
  obtain bs where bs: "length bs = length (np_insns p)" "length ms' = length (np_insns p)" "np_prog p2 = [w] @ concat bs" "np_start_off p2 = np_start_off p"
    "\<forall>i < length (np_insns p). block_ok isa n (im_insn (np_insns p ! i)) (bs ! i) \<and> im_insn (ms' ! i) = im_insn (np_insns p ! i) \<and>
      im_off (ms' ! i) = np_start_off p + of_nat (length ([w] @ concat (take i bs))) \<and>
      flags_ok (ms' ! i) (bs ! i)"
    using translate_loop_blocks[OF doc l[unfolded t(1)] e2 e1 w(2) fit(1)] ms unfolding fit by auto
  obtain post where post: "np_prog p4 = [w] @ concat bs @ post" "np_start_off p4 = np_start_off p" "np_insns p4 = ms'"
    using g t(2) bs(3,4) by (auto simp: grows_def p3_def)
  obtain p5 where f: "fixup_walk ms' p4 = Some (0, p5)" "q = p5\<lparr>np_prog := map (fixup_special (np_tgt_out p5) (np_tgt_abort p5)) (np_prog p5)\<rparr>"
    using t(3) post(3) by (auto simp: nfp_fixup_branches_def split: option.split_asm if_split_asm)
  obtain m where m: "np_tgt_out p4 = nfp_prog_current_offset m" "grows p3 m" "grows m p4" using outro_target[of p3] unfolding p4_def by blast
  obtain err p4' where walk: "fixup_walk ms' p4 = Some (err, p4')" "length (np_prog p4') = length (np_prog p4)"
    using f(1) fixup_walk_length by blast
  have len4: "length (np_prog p4) < 2 ^ 32" using len f walk by simp
  have fx: "fixable (ms' ! i) (bs ! i)" if i: "i < length ms'" for i
  proof -
    have b: "block_ok isa n (im_insn (ms' ! i)) (bs ! i)" using bs(2,5) i by simp
    have "translatable n (im_insn (ms' ! i))" using ms bs(2,5) i by (auto simp: list_all_length)
    moreover have "\<not> is_alu (im_insn (ms' ! i))" if "BPF_CLASS (bi_code (im_insn (ms' ! i))) = BPF_JMP" using that by (simp add: is_alu_def)
    ultimately show ?thesis using b codes_apart unfolding fixable_def block_ok_def translatable_def by metis
  qed
  obtain cs where cs: "p5 = p4\<lparr>np_prog := [w] @ concat cs @ post\<rparr>" "length cs = length bs"
    "\<forall>i < length ms'. length (cs ! i) = length (bs ! i) \<and> fixed (drop i ms') (bs ! i) (cs ! i)"
    using fixup_walk_blocks[OF f(1) post(1) _ len4] bs(1,2,4,5) post(2) fx by (auto simp: block_at_def)
  have lens: "length (concat (take i cs)) = length (concat (take i bs))" if "i \<le> length ms'" for i
  proof -
    have "map length (take i cs) = map length (take i bs)" by (rule nth_equalityI) (use cs(2,3) bs(1,2) that in auto)
    then show ?thesis by (simp add: length_concat)
  qed
  show thesis
  proof (rule that[of "np_tgt_out p5" "np_tgt_abort p5" w cs post "length (np_prog m)" bs ms'])
    show "np_tgt_out p5 = np_start_off p + of_nat (length (np_prog m))"
      using m bs(4) cs(1) by (simp add: nfp_prog_current_offset_def grows_def p3_def)
    show "length (np_prog m) \<le> length (np_prog q)" using m(3) f walk by (simp add: grows_def)
    show "block_ok isa n (im_insn (np_insns p ! i)) (bs ! i) \<and> im_insn (ms' ! i) = im_insn (np_insns p ! i) \<and>
      im_off (ms' ! i) = np_start_off p + of_nat (length ([w] @ concat (take i cs))) \<and>
      (is_test (im_insn (np_insns p ! i)) \<and> im_skip (ms' ! i) \<longrightarrow> bs ! i = []) \<and> length (cs ! i) = length (bs ! i) \<and> fixed (drop i ms') (bs ! i) (cs ! i)"
      if "i < length (np_insns p)" for i
      using bs(2,5) cs(3) lens[of i] that by (simp add: flags_ok_def)
  qed (use f(2) cs w bs in simp_all)
qed

text \<open>The final words of a block: the emitted ones with their targets filled in.\<close>

lemma special_block_same: "list_all2 same_kind (map (fixup_special out abort) ws) ws"
  by (simp add: list_all2_conv_all_nth fixup_special_kind)

lemma retarget_block_same: "list_all2 same_kind (map (fixup_special out abort) (map (retarget t) ws)) ws"
  by (simp add: list_all2_conv_all_nth same_kind_trans[OF fixup_special_kind retarget_kind])

lemma exit_run: "me_documented isa \<Longrightarrow> me_run isa [exit_word] st = Some (True, st)"
proof -
  assume doc: "me_documented isa"
  have "FIELD_GET OP_BR_MASK exit_word = BR_UNC" by (simp add: exit_word_def br_word_def field_decode)
  then show ?thesis using me_doc_br[OF doc] exit_special(1) by simp
qed

lemma short_target: "unat t < 2 ^ 14 \<Longrightarrow> br_target (br_set_offset w t) = unat t"
  by (cases "8192 \<le> unat t") (simp_all add: br_set_offset_target le_mod_geq)

lemma start_address:
  fixes s :: u32
  assumes "unat s + k < 2 ^ 14"
  shows "unat (s + of_nat k) = unat s + k" "unat (ucast (s + of_nat k) :: u16) = unat s + k"
proof -
  have "unat (of_nat k :: u32) = k" using assms by (subst unsigned_of_nat, subst take_bit_nat_eq_self) simp_all
  then show a: "unat (s + of_nat k) = unat s + k" using assms by (subst unat_word_ariths(1)) simp
  show "unat (ucast (s + of_nat k) :: u16) = unat s + k" unfolding unsigned_ucast_eq a using assms by (simp add: take_bit_nat_eq_self)
qed

lemma retarget_target:
  assumes "plain_br w" "nfp_is_br w" "unat t < 2 ^ 14"
  shows "br_target (fixup_special out abort (retarget t w)) = unat t" "FIELD_GET OP_BR_DEFBR (fixup_special out abort (retarget t w)) = 0"
proof -
  have r: "retarget t w = br_set_offset w t" using assms(2) by (simp add: retarget_def)
  have "plain_br (br_set_offset w t)" "nfp_is_br (br_set_offset w t)" using assms by (simp_all add: plain_br_def br_set_offset_kind)
  then show "br_target (fixup_special out abort (retarget t w)) = unat t" unfolding r by (simp only: fixup_special_plain short_target[OF assms(3)])
  have "same_kind (fixup_special out abort (retarget t w)) w" by (rule same_kind_trans[OF fixup_special_kind retarget_kind])
  then show "FIELD_GET OP_BR_DEFBR (fixup_special out abort (retarget t w)) = 0" using assms by (simp add: same_kind_def plain_br_def split: if_split_asm)
qed

lemma fixed_run: "fixed ms b c \<Longrightarrow> me_run isa (map (fixup_special out abort) c) st = me_run isa b st"
  by (rule me_run_same) (auto simp: fixed_def Let_def special_block_same retarget_block_same simp del: list.map_comp map_map split: if_split_asm)

lemma fixed_length: "fixed ms b c \<Longrightarrow> length c = length b"
  by (auto simp: fixed_def Let_def split: if_split_asm)

lemma fixed_plain:
  assumes "fixed ms b c" "list_all plain_br b" "v \<in> set (map (fixup_special out abort) c)" "nfp_is_br v"
  shows "FIELD_GET OP_BR_DEFBR v = 0"
proof -
  obtain x where x: "x \<in> set b" "same_kind v x"
  proof (cases "c = b")
    case True
    then show thesis using assms(3) that fixup_special_kind by auto
  next
    case False
    then obtain t where "c = map (retarget t) b" using assms(1) by (auto simp: fixed_def Let_def split: if_split_asm)
    then show thesis using assms(3) that same_kind_trans[OF fixup_special_kind retarget_kind] by auto
  qed
  then show ?thesis using assms(2,4) by (auto simp: same_kind_def list_all_iff plain_br_def split: if_split_asm)
qed

text \<open>The run of a block in the whole program, for the three kinds of instruction.\<close>

lemma run_exit:
  assumes "me_documented isa" "block_ok isa n insn b" "bi_code insn = 0x95" "fixed ms b c" "im_insn (hd ms) = insn" "unat (ucast out :: u16) < 2 ^ 14"
  shows "me_reaches isa s (pre @ map (fixup_special out abort) c @ post) (s + length pre, st) (unat (ucast out :: u16), st)"
proof -
  have "\<not> is_test insn" using codes_apart(2) assms(3) by blast
  then have c: "c = [exit_word]" using assms(2-5) by (simp add: block_ok_def fixed_def)
  have w: "br_target (fixup_special out abort exit_word) = unat (ucast out :: u16)" using assms(6) by (simp only: fixup_special_exit short_target)
  have d: "FIELD_GET OP_BR_DEFBR (fixup_special out abort exit_word) = 0"
    using fixup_special_kind[of out abort exit_word] exit_special(1) by (simp add: same_kind_def exit_word_def br_word_def field_decode split: if_split_asm)
  have "me_run isa (map (fixup_special out abort) c) st = Some (True, st)"
    unfolding me_run_same[OF special_block_same] c by (rule exit_run[OF assms(1)])
  from me_run_reaches[OF this refl, of "unat (ucast out :: u16)" s pre post] w d show ?thesis unfolding c by simp
qed

lemma run_alu:
  assumes "block_ok isa n insn b" "is_alu insn" "fixed ms b c" "im_insn (hd ms) = insn" "matches n st R"
  shows "\<exists>st'. me_reaches isa s (pre @ map (fixup_special out abort) c @ post) (s + length pre, st) (s + length (pre @ c), st') \<and>
    matches n st' (R(unat (bi_dst_reg insn) := bpf_alu insn R))"
proof -
  have c: "c = b" using assms(2-4) codes_apart(1)[of insn] by (auto simp: fixed_def)
  have b: "\<forall>w \<in> set b. \<not> nfp_is_br w" using assms(1,2) codes_apart(1)[of insn] by (auto simp: block_ok_def)
  have F: "map (fixup_special out abort) c = b" unfolding c by (rule map_idI) (use b in \<open>simp add: fixup_special_eq\<close>)
  obtain st' where st': "me_run isa b st = Some (False, st')" "matches n st' (R(unat (bi_dst_reg insn) := bpf_alu insn R))"
    using assms(1,2,5) codes_apart(1)[of insn] unfolding block_ok_def by auto blast
  from me_run_reaches[OF st'(1) refl, of undefined s pre post] b st'(2) show ?thesis
    unfolding F unfolding c by (auto simp: add.assoc)
qed

lemma run_test:
  assumes "block_ok isa n insn b" "is_test insn" "fixed ms b c" "im_insn (hd ms) = insn" "matches n st R"
    and "im_skip (hd ms) \<longrightarrow> b = []" "bpf_jump_taken insn R \<longrightarrow> tl ms \<noteq> []"
    and short: "\<And>j. j < length ms \<Longrightarrow> unat (ucast (im_off (ms ! j)) :: u16) < 2 ^ 14"
  shows "\<exists>st'. me_reaches isa s (pre @ map (fixup_special out abort) c @ post) (s + length pre, st)
      (if bpf_jump_taken insn R then unat (ucast (im_off (ms ! Suc (nat (sint (bi_off insn))))) :: u16) else s + length (pre @ c), st') \<and>
    matches n st' R \<and> (bpf_jump_taken insn R \<longrightarrow> Suc (nat (sint (bi_off insn))) < length ms)"
proof -
  define j where "j = Suc (nat (sint (bi_off insn)))"
  have k: "bi_code insn \<noteq> 0x95" "\<not> is_alu insn" using codes_apart[of insn] assms(2) by auto
  have b: "list_all plain_br b" using assms(1) k by (simp add: block_ok_def)
  obtain st' where st': "me_run isa b st = Some (bpf_jump_taken insn R, st')" "matches n st' R"
    using assms(1,5) k by (auto simp: block_ok_def)
  note run = trans[OF fixed_run[OF assms(3), of isa out abort st] st'(1)]
  show ?thesis
  proof (cases "bpf_jump_taken insn R")
    case False
    have "me_run isa (map (fixup_special out abort) c) st = Some (False, st')" using run False by simp
    moreover have "\<forall>v \<in> set (map (fixup_special out abort) c). nfp_is_br v \<longrightarrow> FIELD_GET OP_BR_DEFBR v = 0"
      using fixed_plain[OF assms(3) b] by blast
    ultimately show ?thesis using me_run_reaches[of isa "map (fixup_special out abort) c" st False st' _ pre post undefined s] False st'(2)
      by (auto simp: add.assoc)
  next
    case True
    then have "b \<noteq> []" using st'(1) by auto
    then have j: "j < length ms" "c = map (retarget (ucast (im_off (ms ! j)))) b"
      using assms(2-4,6,7) True by (auto simp: fixed_def Let_def j_def)
    have run': "me_run isa (map (fixup_special out abort) c) st = Some (True, st')" using run True by simp
    have "\<forall>v \<in> set (map (fixup_special out abort) c). nfp_is_br v \<longrightarrow> FIELD_GET OP_BR_DEFBR v = 0 \<and> br_target v = unat (ucast (im_off (ms ! j)) :: u16)"
    proof (intro ballI impI)
      fix v assume v: "v \<in> set (map (fixup_special out abort) c)" "nfp_is_br v"
      then obtain x where x: "x \<in> set b" "v = fixup_special out abort (retarget (ucast (im_off (ms ! j))) x)" using j(2) by auto
      have "nfp_is_br x" using v(2) same_kind_trans[OF fixup_special_kind retarget_kind, of out abort _ x] unfolding x(2) same_kind_def by auto
      moreover have "plain_br x" using b x(1) by (simp add: list_all_iff)
      ultimately show "FIELD_GET OP_BR_DEFBR v = 0 \<and> br_target v = unat (ucast (im_off (ms ! j)) :: u16)"
        using retarget_target[OF _ _ short[OF j(1)]] unfolding x(2) by blast
    qed
    then show ?thesis using me_run_reaches[OF run' refl, of "unat (ucast (im_off (ms ! j)) :: u16)" s pre post] True st'(2) j(1)
      by (auto simp: j_def)
  qed
qed

lemma bpf_exec_step:
  assumes "i < length ins"
  shows "bpf_exec ins i R = (if bi_code (ins ! i) = 0x95 then Some R
    else if is_alu (ins ! i) then bpf_exec ins (Suc i) (R(unat (bi_dst_reg (ins ! i)) := bpf_alu (ins ! i) R))
    else if is_test (ins ! i) \<and> 0 \<le> sint (bi_off (ins ! i))
    then bpf_exec ins (if bpf_jump_taken (ins ! i) R then Suc i + nat (sint (bi_off (ins ! i))) else Suc i) R else None)"
proof -
  have "\<not> length ins \<le> i" using assms by simp
  then show ?thesis unfolding bpf_exec.simps[of ins i R] Let_def by (rule if_not_P)
qed

lemma bpf_exec_index: "bpf_exec ins i R = Some R' \<Longrightarrow> i < length ins"
  by (rule ccontr) (simp add: bpf_exec.simps[of ins i R])

text \<open>The run from the block of instruction \<open>i\<close> to the exit sequence.\<close>

lemma program_run:
  assumes doc: "me_documented isa" and ws: "ws = map (fixup_special out abort) ([w] @ concat cs @ post)"
    and len: "length cs = length ins" "length ms = length ins" "unat start + length ws < 2 ^ 14" "unat (ucast out :: u16) < 2 ^ 14"
    and blk: "\<And>i. i < length ins \<Longrightarrow> block_ok isa n (ins ! i) (bs ! i) \<and> im_insn (ms ! i) = ins ! i \<and>
      im_off (ms ! i) = start + of_nat (length ([w] @ concat (take i cs))) \<and> (is_test (ins ! i) \<and> im_skip (ms ! i) \<longrightarrow> bs ! i = []) \<and>
      fixed (drop i ms) (bs ! i) (cs ! i)"
    and "bpf_exec ins i R = Some R'" "matches n st R"
  shows "\<exists>st'. me_reaches isa (unat start) ws (unat start + length ([w] @ concat (take i cs)), st) (unat (ucast out :: u16), st') \<and> matches n st' R'"
  using assms(8-)
proof (induction "length ins - i" arbitrary: i R st rule: less_induct)
  case less
  define insn where "insn = ins ! i"
  define pre where "pre = map (fixup_special out abort) ([w] @ concat (take i cs))"
  have i: "i < length ins" by (rule bpf_exec_index[OF less.prems(1)])
  have "concat cs = concat (take i cs) @ cs ! i @ concat (drop (Suc i) cs)"
    using id_take_nth_drop[of i cs] i len(1) by (metis append.assoc concat.simps(2) concat_append)
  then have split: "ws = pre @ map (fixup_special out abort) (cs ! i) @ map (fixup_special out abort) (concat (drop (Suc i) cs) @ post)"
    unfolding ws pre_def by simp
  have pre: "length pre = length ([w] @ concat (take i cs))" by (simp add: pre_def)
  have after: "length (pre @ cs ! i) = length ([w] @ concat (take (Suc i) cs))" using i len(1) by (simp add: pre_def take_Suc_conv_app_nth)
  have offs: "unat (ucast (im_off (ms ! j)) :: u16) = unat start + length ([w] @ concat (take j cs)) \<and>
      unat start + length ([w] @ concat (take j cs)) < 2 ^ 14" if j: "j < length ins" for j
  proof -
    have "length (concat cs) = length (concat (take j cs)) + length (concat (drop j cs))"
      by (metis append_take_drop_id concat_append length_append)
    then have "unat start + length ([w] @ concat (take j cs)) < 2 ^ 14" using len(3) by (simp add: ws)
    then show ?thesis using start_address(2)[of start "length ([w] @ concat (take j cs))"] blk[OF j] by (simp only: simp_thms)
  qed
  have hd: "im_insn (hd (drop i ms)) = insn" "im_skip (hd (drop i ms)) = im_skip (ms ! i)" using i len(2) blk[OF i] by (simp_all add: hd_drop_conv_nth insn_def)
  have b: "block_ok isa n insn (bs ! i)" "fixed (drop i ms) (bs ! i) (cs ! i)" using blk[OF i] by (simp_all add: insn_def)
  have ex: "bpf_exec ins i R = (if bi_code insn = 0x95 then Some R
        else if is_alu insn then bpf_exec ins (Suc i) (R(unat (bi_dst_reg insn) := bpf_alu insn R))
        else if is_test insn \<and> 0 \<le> sint (bi_off insn)
        then bpf_exec ins (if bpf_jump_taken insn R then Suc i + nat (sint (bi_off insn)) else Suc i) R else None)"
    unfolding insn_def by (rule bpf_exec_step[OF i])
  consider (exit) "bi_code insn = 0x95" | (alu) "is_alu insn" "bi_code insn \<noteq> 0x95" | (test) "is_test insn" "\<not> is_alu insn" "bi_code insn \<noteq> 0x95"
    using less.prems(1) unfolding ex by (auto split: if_split_asm)
  then show ?case
  proof cases
    case exit
    have "R' = R" using less.prems(1) exit unfolding ex by simp
    then show ?thesis using run_exit[OF doc b(1) exit b(2) hd(1) len(4)] less.prems(2) unfolding split pre[symmetric] by blast
  next
    case alu
    obtain mid where mid: "me_reaches isa (unat start) ws (unat start + length pre, st) (unat start + length (pre @ cs ! i), mid)"
      "matches n mid (R(unat (bi_dst_reg insn) := bpf_alu insn R))"
      using run_alu[OF b(1) alu(1) b(2) hd(1) less.prems(2)] unfolding split by blast
    have "bpf_exec ins (Suc i) (R(unat (bi_dst_reg insn) := bpf_alu insn R)) = Some R'" using less.prems(1) alu unfolding ex by simp
    moreover have "length ins - Suc i < length ins - i" using i by simp
    ultimately obtain st' where "me_reaches isa (unat start) ws (unat start + length ([w] @ concat (take (Suc i) cs)), mid) (unat (ucast out :: u16), st')"
      "matches n st' R'" using less.hyps[OF _ _ mid(2)] by blast
    then show ?thesis using me_reaches_trans[OF mid(1)] unfolding after pre by blast
  next
    case test
    define j where "j = (if bpf_jump_taken insn R then Suc i + nat (sint (bi_off insn)) else Suc i)"
    have e: "bpf_exec ins j R = Some R'" using less.prems(1) test unfolding ex j_def by (auto split: if_split_asm)
    then have j: "j < length ins" by (rule bpf_exec_index)
    have "length (tl (drop i ms)) > 0" if "bpf_jump_taken insn R" using j len(2) that by (simp add: j_def)
    then have tl: "bpf_jump_taken insn R \<longrightarrow> tl (drop i ms) \<noteq> []" by (metis length_greater_0_conv)
    have sh: "unat (ucast (im_off (drop i ms ! k)) :: u16) < 2 ^ 14" if "k < length (drop i ms)" for k
      using offs[of "i + k"] that len(2) i by simp
    have sk: "im_skip (hd (drop i ms)) \<longrightarrow> bs ! i = []" using blk[OF i] test(1) unfolding hd(2) insn_def by blast
    obtain mid where mid: "me_reaches isa (unat start) ws (unat start + length pre, st) (if bpf_jump_taken insn R
        then unat (ucast (im_off (drop i ms ! Suc (nat (sint (bi_off insn))))) :: u16) else unat start + length (pre @ cs ! i), mid)" "matches n mid R"
      using run_test[OF b(1) test(1) b(2) hd(1) less.prems(2) sk tl sh] unfolding split by blast
    have "drop i ms ! Suc (nat (sint (bi_off insn))) = ms ! j" if "bpf_jump_taken insn R" using that i len(2) by (simp add: j_def)
    then have "(if bpf_jump_taken insn R then unat (ucast (im_off (drop i ms ! Suc (nat (sint (bi_off insn))))) :: u16)
        else unat start + length (pre @ cs ! i)) = unat start + length ([w] @ concat (take j cs))"
      using offs[OF j] after by (cases "bpf_jump_taken insn R") (simp_all only: j_def if_True if_False)
    note to_j = mid(1)[unfolded this]
    have "length ins - j < length ins - i" using i j by (auto simp: j_def)
    from less.hyps[OF this e mid(2)] obtain st' where
      "me_reaches isa (unat start) ws (unat start + length ([w] @ concat (take j cs)), mid) (unat (ucast out :: u16), st')" "matches n st' R'" by blast
    then show ?thesis using me_reaches_trans[OF to_j] unfolding pre by blast
  qed
qed

lemma program_correct:
  assumes doc: "me_documented isa" and tr: "nfp_translate cl p = Some (0, q)" and p: "np_prog p = []" "np_error p = 0" "room p" "regs_fit n p"
    and ms: "list_all (\<lambda>m. \<not> im_skip m \<and> \<not> im_double m \<and> translatable n (im_insn m)) (np_insns p)"
    and len: "unat (np_start_off p) + length (np_prog q) < 2 ^ 14"
    and run: "bpf_exec (map im_insn (np_insns p)) 0 R = Some R'" "matches n st R"
  shows "\<exists>st'. me_reaches isa (unat (np_start_off p)) (np_prog q) (unat (np_start_off p), st) (unat (np_tgt_out q), st') \<and> matches n st' R'"
proof -
  define ins where "ins = map im_insn (np_insns p)"
  define s where "s = np_start_off p"
  have short: "length (np_prog q) < 2 ^ 32" using len by simp
  show ?thesis
  proof (rule translated_parts[OF doc tr p ms short, folded s_def])
  fix w bs cs post ms' out abort k
  assume d: "np_prog q = map (fixup_special out abort) ([w] @ concat cs @ post)"
    "np_tgt_out q = out" "out = s + of_nat k" "k \<le> length (np_prog q)" "\<not> nfp_is_br w"
    "\<And>st R. matches n st R \<Longrightarrow> \<exists>st'. me_run isa [w] st = Some (False, st') \<and> matches n st' R"
    "length bs = length (np_insns p)" "length cs = length (np_insns p)" "length ms' = length (np_insns p)"
    "\<And>i. i < length (np_insns p) \<Longrightarrow> block_ok isa n (im_insn (np_insns p ! i)) (bs ! i) \<and> im_insn (ms' ! i) = im_insn (np_insns p ! i) \<and>
      im_off (ms' ! i) = s + of_nat (length ([w] @ concat (take i cs))) \<and>
      (is_test (im_insn (np_insns p ! i)) \<and> im_skip (ms' ! i) \<longrightarrow> bs ! i = []) \<and> length (cs ! i) = length (bs ! i) \<and> fixed (drop i ms') (bs ! i) (cs ! i)"
  have out: "unat out = unat s + k" "unat (ucast out :: u16) = unat s + k" "unat (ucast out :: u16) < 2 ^ 14"
    using start_address[of s k] d(3,4) len by (simp_all add: s_def)
  obtain mid where mid: "me_run isa [w] st = Some (False, mid)" "matches n mid R" using d(6)[OF run(2)] by blast
  have W: "np_prog q = [] @ [w] @ map (fixup_special out abort) (concat cs @ post)" using d(1,5) by (simp add: fixup_special_eq)
  have entry: "me_reaches isa (unat s) (np_prog q) (unat s, st) (unat s + length [w], mid)"
    using me_run_reaches[OF mid(1) W, of undefined "unat s"] d(5) by simp
  obtain st' where st': "me_reaches isa (unat s) (np_prog q) (unat s + length ([w] @ concat (take 0 cs)), mid) (unat (ucast out :: u16), st')" "matches n st' R'"
    using program_run[OF doc d(1), of ins ms' s n bs 0 R R' mid] d(7-10) len out(3) run(1) mid(2) by (auto simp: ins_def s_def)
  have "me_reaches isa (unat s) (np_prog q) (unat s, st) (unat out, st')" using me_reaches_trans[OF entry] st'(1) out(1,2) by simp
  then show ?thesis using st'(2) d(2) unfolding s_def by blast
  qed
qed

end
