(* ===== verification/Bpf_Complete.thy ===== *)
theory Bpf_Complete
  imports Bpf_Simulation
begin

text \<open>
  The translator of \<open>bpf/jit.c\<close> is complete for the programs it is right for: how many words every
  callback appends at most, that each of them and the branch fix-up succeed when there is room, and
  with the simulation the correctness of the translation of a whole program.
\<close>

section \<open>How many words\<close>

text \<open>From \<open>p\<close> to \<open>q\<close> there is no error and no more than \<open>k\<close> words, if there is room for that many.\<close>

definition fits :: "nat \<Rightarrow> nfp_prog \<Rightarrow> nfp_prog \<Rightarrow> bool" where
  "fits k p q \<longleftrightarrow> np_alloc_len q = np_alloc_len p \<and> np_regs_per_thread q = np_regs_per_thread p \<and>
     (length (np_prog p) + k \<le> np_alloc_len p \<longrightarrow> np_error q = np_error p \<and> length (np_prog q) \<le> length (np_prog p) + k)"

lemma fits_refl [simp]: "fits k p p" by (simp add: fits_def)

lemma fits_trans: "fits j p q \<Longrightarrow> fits k q r \<Longrightarrow> j + k \<le> l \<Longrightarrow> fits l p r"
  by (auto simp: fits_def)

lemma fits_mono: "fits j p q \<Longrightarrow> j \<le> k \<Longrightarrow> fits k p q"
  by (auto simp: fits_def)

lemma fits_push: "fits (k - 1) p q \<Longrightarrow> 0 < k \<Longrightarrow> fits k p (nfp_prog_push w q)"
  by (auto simp: fits_def nfp_prog_push_def prog_fail_def)

lemma regs_decode:
  "sw_type d \<noteq> NN_REG_IMM \<Longrightarrow> sw_type l \<noteq> sw_type r \<Longrightarrow> \<exists>x. swreg_to_unrestricted d l r = Inr x"
  "sw_type d \<noteq> NN_REG_IMM \<Longrightarrow> sw_type l \<noteq> sw_type r \<Longrightarrow> \<exists>x. swreg_to_restricted d l r i8 = Inr x"
  by (simp_all add: swreg_to_unrestricted_def swreg_to_restricted_def sw_type_def Let_def)

lemma imm8_type: "sw_type (reg_imm (ucast (x :: u8))) = NN_REG_IMM" "sw_type (reg_imm (ucast (y AND 0xff :: u16))) = NN_REG_IMM"
proof -
  have "unat (ucast x :: u32) < 256" using unsigned_less[of x, where ?'a = nat] by (simp add: unsigned_ucast_eq take_bit_nat_eq_self)
  then show "sw_type (reg_imm (ucast x)) = NN_REG_IMM" by simp
  have "unat (y AND 0xff) < 256" using word_and_mask_less[of 8 y] by (simp add: mask_eq_exp_minus_1)
  then have "unat (ucast (y AND 0xff) :: u32) < 256" by (simp add: unsigned_ucast_eq take_bit_nat_eq_self)
  then show "sw_type (reg_imm (ucast (y AND 0xff))) = NN_REG_IMM" by simp
qed

lemma fits_alu: "fits (k - 1) p q \<Longrightarrow> 0 < k \<Longrightarrow> sw_type d \<noteq> NN_REG_IMM \<Longrightarrow> sw_type l \<noteq> sw_type r \<Longrightarrow> fits k p (emit_alu d l aop r q)"
  using regs_decode(1)[of d l r] by (auto simp: emit_alu_def fits_push)

lemma fits_br: "fits (k - 1) p q \<Longrightarrow> 0 < k \<Longrightarrow> fits k p (emit_br msk addr defer q)"
  by (simp add: emit_br_def fits_push)

lemma fits_br_def: "fits (k - 1) p q \<Longrightarrow> 0 < k \<Longrightarrow> defer \<le> 2 \<Longrightarrow> fits k p (emit_br_def addr defer q)"
  by (auto simp: emit_br_def_def fits_push)

lemma fits_immed: "fits (k - 1) p q \<Longrightarrow> 0 < k \<Longrightarrow> sw_type d \<noteq> NN_REG_IMM \<Longrightarrow> fits k p (emit_immed d imm width neg sh q)"
  using regs_decode(1)[of d d "reg_imm (ucast (imm AND 0xff))"] imm8_type(2)[of imm]
  by (auto simp: emit_immed_def sw_type_def[symmetric] fits_push)

lemma fits_shf:
  "fits (k - 1) p q \<Longrightarrow> 0 < k \<Longrightarrow> sw_type d \<noteq> NN_REG_IMM \<Longrightarrow> sw_type l \<noteq> sw_type r \<Longrightarrow> FIELD_FIT OP_SHF_SHIFT (ucast n) \<Longrightarrow>
   fits k p (emit_shf d l sop r sc n q)"
  using regs_decode(2)[of d l r True] by (auto simp: emit_shf_def emit_shf_raw_def Let_def fits_push)

lemma fits_ld_field: "fits (k - 1) p q \<Longrightarrow> 0 < k \<Longrightarrow> sw_type d \<noteq> sw_type s \<Longrightarrow> fits k p (emit_ld_field d bm s sc n q)"
  using regs_decode(2)[of reg_none d s True] by (auto simp: emit_ld_field_def emit_ld_field_any_def fits_push)

lemma fits_br_byte: "fits (k - 1) p q \<Longrightarrow> 0 < k \<Longrightarrow> sw_type d \<noteq> NN_REG_IMM \<Longrightarrow> fits k p (emit_br_byte_neq d imm byte addr defer q)"
  using regs_decode(2)[of reg_none d "reg_imm (ucast imm)" True] imm8_type(1)[of imm] by (auto simp: emit_br_byte_neq_def fits_push)

lemma fits_br_special: "fits (k - 1) p q \<Longrightarrow> 0 < k \<Longrightarrow> fits k p (wrp_br_special msk special q)"
  using fits_br[of k p q msk 0 0] by (auto simp: wrp_br_special_def set_special_def fits_def)

lemma fits_wrp_immed: "fits (k - 2) p q \<Longrightarrow> 2 \<le> k \<Longrightarrow> sw_type d \<noteq> NN_REG_IMM \<Longrightarrow> fits k p (wrp_immed d imm q)"
  unfolding wrp_immed_def
  by (auto split: option.split intro!: fits_immed intro: fits_mono)

lemma fits_set_tgt [simp]: "fits k p (set_tgt_out q) = fits k p q" "fits k p (set_tgt_abort q) = fits k p q"
  by (simp_all add: fits_def set_tgt_out_def set_tgt_abort_def)

lemma small_shift: "FIELD_FIT OP_SHF_SHIFT 0" "FIELD_FIT OP_SHF_SHIFT 2" "FIELD_FIT OP_SHF_SHIFT 3" "FIELD_FIT OP_SHF_SHIFT 4"
  by (simp_all add: FIELD_FIT_def)

lemmas fits_intros = fits_alu fits_br fits_br_def fits_immed fits_shf fits_ld_field fits_br_byte fits_br_special fits_wrp_immed

lemma act_code_type: "sw_type (reg_imm (case act of NN_ACT_TC_REDIR \<Rightarrow> 0x24 | _ \<Rightarrow> 0x22)) = NN_REG_IMM"
  by (cases act) simp_all

lemma fits_outro: "fits 24 p (nfp_outro p)"
  unfolding nfp_outro_def nfp_outro_tc_da_def nfp_outro_tc_legacy_def nfp_outro_xdp_def flags_to_a0_def Let_def
  by (cases "np_act p") (auto intro!: fits_intros simp: small_shift act_code_type)

lemma fits_mov:
  fixes d s :: u32
  shows "fits (k - 1) p q \<Longrightarrow> 0 < k \<Longrightarrow> unat d < 256 \<Longrightarrow> unat s < 256 \<Longrightarrow> fits k p (wrp_reg_mov (ucast d) (ucast s) q)"
  unfolding wrp_reg_mov_def by (rule fits_alu) (simp_all add: ucast_small)

lemma load_reg: "ur_load_imm_any imm tmp p = (t, q) \<Longrightarrow> sw_type tmp \<noteq> NN_REG_IMM \<Longrightarrow> fits 2 p q \<and> (sw_type t = NN_REG_IMM \<or> t = tmp)"
  using load_imm_small[of imm] by (auto simp: ur_load_imm_any_def split: if_split_asm intro!: fits_wrp_immed)

lemma fits_load:
  assumes "ur_load_imm_any imm tmp q = (t, q')" "sw_type tmp \<noteq> NN_REG_IMM" "fits (k - 2) p q" "2 \<le> k"
  shows "fits k p q'"
  using load_reg[OF assms(1,2)] fits_trans[OF assms(3)] assms(4) by fastforce

lemma fits_scratch: "fits k p q \<Longrightarrow> scratch q = scratch p"
  by (simp add: fits_def)

text \<open>An operation on a constant.\<close>

lemma fits_alu_imm:
  fixes d :: u32
  assumes "fits (k - 3) p q" "3 \<le> k" "unat d < 256" "scratch p < 254"
  shows "fits k p (wrp_alu_imm (ucast d) aop imm q)"
proof -
  have s: "scratch q < 254" using fits_scratch[OF assms(1)] assms(4) by simp
  have d: "ucast (ucast d :: u8) = d" using assms(3) by (simp add: ucast_small)
  have alu: "fits k p (emit_alu (reg_both d) (reg_a d) aop t q')" if "ur_load_imm_any imm (imm_b q) q = (t, q')" for t q'
  proof (rule fits_alu)
    show "fits (k - 1) p q'" by (rule fits_load[OF that]) (use assms(1,2) scratch_regs(2)[OF s] in \<open>simp_all add: numeral_3_eq_3\<close>)
    show "sw_type (reg_a d) \<noteq> sw_type t" using load_reg[OF that] scratch_regs(2)[OF s] assms(3) by auto
  qed (use assms in simp_all)
  have imm: "fits k p (wrp_immed (reg_both d) x q)" for x
    by (rule fits_wrp_immed) (use assms in \<open>auto intro: fits_mono\<close>)
  have neg: "fits k p (emit_alu (reg_both d) reg_none aop' (reg_b d) q)" for aop'
    by (rule fits_alu) (use assms in \<open>auto intro: fits_mono\<close>)
  have same: "fits k p q" using fits_mono[OF assms(1)] by simp
  show ?thesis unfolding wrp_alu_imm_def d using alu imm neg same by (auto split: prod.split)
qed

section \<open>The callbacks succeed\<close>

text \<open>The instructions the translator takes: what is right of them, and in range.\<close>

definition alu_codes :: "u8 set" where
  "alu_codes = {0xbf, 0xb7, 0xaf, 0xa7, 0x5f, 0x57, 0x4f, 0x47, 0x0f, 0x07, 0x1f, 0x17, 0x67, 0x77,
     0xbc, 0xb4, 0xac, 0xa4, 0x5c, 0x54, 0x4c, 0x44, 0x0c, 0x04, 0x1c, 0x14, 0x64}"

definition acceptable :: "nat \<Rightarrow> bpf_insn \<Rightarrow> bool" where
  "acceptable n insn \<longleftrightarrow> translatable n insn \<and> (is_alu insn \<longrightarrow> bi_code insn \<in> alu_codes) \<and> (bi_code insn \<in> {0x67, 0x77} \<longrightarrow> bi_imm insn = 32) \<and>
     (bi_code insn = 0x64 \<longrightarrow> bi_imm insn \<noteq> 0) \<and> (is_test insn \<longrightarrow> 0 \<le> sint (bi_off insn))"

definition succeeds :: "nfp_insn_meta \<Rightarrow> nfp_prog \<Rightarrow> cb_result \<Rightarrow> bool" where
  "succeeds meta p r \<longleftrightarrow> fst (fst r) = 0 \<and> fits 10 p (snd r)"

lemma succeeds_ok: "fits 10 p q \<Longrightarrow> succeeds meta p (cb_ok m q)"
  by (simp add: succeeds_def cb_ok_def)

lemma alu_succeeds:
  assumes "(bi_code (im_insn meta), cb) \<in> set (instr_cb cl)" "is_alu (im_insn meta)" "acceptable n (im_insn meta)" "scratch p < 254"
  shows "succeeds meta p (cb meta p)"
proof -
  note r = reg_small[of "bi_dst_reg (im_insn meta)"] reg_small[of "bi_src_reg (im_insn meta)"]
  have pair: "succeeds meta p (alu_reg_pair op op' meta p)" "succeeds meta p (wrp_alu32_reg op meta p)" "succeeds meta p (mov_reg64 meta p)"
    "succeeds meta p (mov_imm64 meta p)" "succeeds meta p (mov_reg meta p)" "succeeds meta p (mov_imm meta p)" for op op'
    unfolding alu_reg_pair_def wrp_alu32_reg_def mov_reg64_def mov_imm64_def mov_reg_def mov_imm_def Let_def
    by (auto intro!: succeeds_ok fits_intros fits_mov simp: r)
  have imm: "succeeds meta p (wrp_alu64_imm op skip meta p)" "succeeds meta p (wrp_alu32_imm op skip meta p)" "succeeds meta p (alu_imm_pair op op' meta p)"
    for op op' skip
    unfolding wrp_alu64_imm_def wrp_alu32_imm_def alu_imm_pair_def Let_def
    by (auto intro!: succeeds_ok fits_intros fits_alu_imm simp: r assms(4))
  have shift: "succeeds meta p (shl_imm64 meta p)" "succeeds meta p (shr_imm64 meta p)" if "bi_imm (im_insn meta) = 32"
    unfolding shl_imm64_def shr_imm64_def Let_def using that by (auto intro!: succeeds_ok fits_intros fits_mov simp: r)
  have shl: "succeeds meta p (shl_imm meta p)" if "bi_imm (im_insn meta) \<noteq> 0" "unat (bi_imm (im_insn meta)) < 32"
  proof -
    have "FIELD_FIT OP_SHF_SHIFT (ucast (ucast (bi_imm (im_insn meta)) :: u8))"
      by (rule shift_fits) (use that(2) in \<open>simp add: unsigned_ucast_eq take_bit_nat_eq_self\<close>)
    then show ?thesis unfolding shl_imm_def Let_def using that by (auto intro!: succeeds_ok fits_intros simp: r)
  qed
  show ?thesis
    using assms(1-3) unfolding instr_cb_def acceptable_def translatable_def is_alu_def is_test_def
    by (simp add: BPF_CLASS_def)
      (elim disjE; simp add: pair imm shift shl xor_reg64_def and_reg64_def or_reg64_def wrp_alu64_reg_def xor_imm64_def and_imm64_def or_imm64_def
        add_reg64_def sub_reg64_def add_imm64_def sub_imm64_def xor_reg_def and_reg_def or_reg_def add_reg_def sub_reg_def xor_imm_def
        and_imm_def or_imm_def add_imm_def sub_imm_def)
qed

lemma fits_test_half:
  assumes f: "fits (k - 4) p q" "4 \<le> k" "scratch p < 254" "unat r < 256"
  shows "fits k p (test_imm_half op off r imm q)"
proof -
  obtain j where k: "k = j + 4" using f(2) by (metis le_Suc_ex add.commute)
  have s: "scratch q < 254" using fits_scratch[OF f(1)] f(3) by simp
  have "fits k p (emit_br BR_BNE off 0 (emit_alu reg_none (reg_a r) op t q'))" if "ur_load_imm_any imm (imm_b q) q = (t, q')" for t q'
  proof (intro fits_br fits_alu)
    show "fits (k - 1 - 1) p q'" by (rule fits_load[OF that]) (use f(1) scratch_regs(2)[OF s] in \<open>simp_all add: k\<close>)
    show "sw_type (reg_a r) \<noteq> sw_type t" using load_reg[OF that] scratch_regs(2)[OF s] f(4) by auto
  qed (use f in simp_all)
  then show ?thesis unfolding test_imm_half_def by (auto split: prod.split)
qed

lemma fits_xor_half:
  assumes "xor_imm_half out plain r imm q = (x, q')" "fits (k - 3) p q" "3 \<le> k" "scratch p < 254" "unat r < 256" "sw_type out \<noteq> NN_REG_IMM"
  shows "fits k p q' \<and> (x = out \<or> x = plain)"
proof -
  have s: "scratch q < 254" using fits_scratch[OF assms(2)] assms(4) by simp
  have "fits k p (emit_alu out (reg_a r) ALU_OP_XOR t q'')" if "ur_load_imm_any imm (imm_b q) q = (t, q'')" for t q''
  proof (rule fits_alu)
    show "fits (k - 1) p q''" by (rule fits_load[OF that]) (use assms(2,3) scratch_regs(2)[OF s] in \<open>simp_all add: numeral_3_eq_3\<close>)
    show "sw_type (reg_a r) \<noteq> sw_type t" using load_reg[OF that] scratch_regs(2)[OF s] assms(5) by auto
  qed (use assms in simp_all)
  then show ?thesis using assms(1,2) by (auto simp: xor_imm_half_def split: if_split_asm prod.split_asm intro: fits_mono)
qed

lemma succeeds_forward: "0 \<le> sint (bi_off (im_insn meta)) \<Longrightarrow> succeeds meta p r \<Longrightarrow> succeeds meta p (jumping meta p r)"
  by (simp add: jumping_def)

lemma jeq_imm_succeeds:
  assumes "0 \<le> sint (bi_off (im_insn meta))" "scratch p < 254"
  shows "succeeds meta p (jeq_imm meta p)"
proof -
  note r = reg_small[of "bi_dst_reg (im_insn meta)"]
  let ?d = "bi_dst_reg (im_insn meta)" and ?il = "imm_lo32 (im_insn meta)" and ?ih = "imm_hi32 (im_insn meta)"
  obtain or1 p1 where h1: "xor_imm_half (imm_a p) (reg_a (reg_lo ?d)) (reg_lo ?d) ?il p = (or1, p1)" by (cases "xor_imm_half (imm_a p) (reg_a (reg_lo ?d)) (reg_lo ?d) ?il p")
  obtain or2 p2 where h2: "xor_imm_half (imm_b p1) (reg_b (reg_hi ?d)) (reg_hi ?d) ?ih p1 = (or2, p2)" by (cases "xor_imm_half (imm_b p1) (reg_b (reg_hi ?d)) (reg_hi ?d) ?ih p1")
  have f1: "fits 3 p p1 \<and> (or1 = imm_a p \<or> or1 = reg_a (reg_lo ?d))"
    by (rule fits_xor_half[OF h1]) (use r assms(2) scratch_regs(1)[OF assms(2)] in simp_all)
  have s1: "scratch p1 < 254" using fits_scratch[of 3 p p1] f1 assms(2) by simp
  have f2: "fits 6 p p2 \<and> (or2 = imm_b p1 \<or> or2 = reg_b (reg_hi ?d))"
    by (rule fits_xor_half[OF h2]) (use f1 r assms(2) scratch_regs(2)[OF s1] in simp_all)
  have "sw_type or1 = NN_REG_GPR_A" "sw_type or2 = NN_REG_GPR_B" using f1 f2 r scratch_regs[OF assms(2)] scratch_regs[OF s1] by auto
  then have "fits 10 p (emit_br BR_BEQ (bi_off (im_insn meta)) 0 (emit_alu reg_none or1 ALU_OP_OR or2 p2))"
    using f2 by (auto intro!: fits_intros intro: fits_mono)
  then show ?thesis unfolding jeq_imm_def Let_def h1 h2 prod.case by (intro succeeds_forward[OF assms(1)]) (simp add: h2 succeeds_ok)
qed

lemma test_succeeds:
  assumes "(bi_code (im_insn meta), cb) \<in> set (instr_cb cl)" "is_test (im_insn meta)" "0 \<le> sint (bi_off (im_insn meta))" "scratch p < 254"
  shows "succeeds meta p (cb meta p)"
proof -
  note r = reg_small[of "bi_dst_reg (im_insn meta)"] reg_small[of "bi_src_reg (im_insn meta)"]
  have s: "sw_type (imm_a q) \<noteq> NN_REG_IMM" "sw_type (imm_b q) \<noteq> NN_REG_IMM" "sw_type (imm_a q) \<noteq> sw_type (imm_b q)" if "scratch q = scratch p" for q
    using scratch_regs[of q] assms(4) that by simp_all
  have cmp: "succeeds meta p (wrp_cmp_reg msk swap meta p)" "succeeds meta p (wrp_test_reg op msk meta p)" "succeeds meta p (jump meta p)" for msk swap op
    unfolding wrp_cmp_reg_def wrp_test_reg_def wrp_test_reg_one_def jump_def Let_def
    by (auto intro!: succeeds_forward[OF assms(3)] succeeds_ok fits_intros simp: r)
  have jset: "succeeds meta p (jset_imm meta p)" "succeeds meta p (jne_imm meta p)"
    unfolding jset_imm_def jne_imm_def Let_def
    by (auto intro!: succeeds_forward[OF assms(3)] succeeds_ok fits_test_half fits_intros simp: r assms(4))
  have jeq: "succeeds meta p (jeq_reg meta p)"
  proof -
    let ?d = "bi_dst_reg (im_insn meta)" and ?s = "bi_src_reg (im_insn meta)"
    define p1 where "p1 = emit_alu (imm_a p) (reg_a (reg_lo ?d)) ALU_OP_XOR (reg_b (reg_lo ?s)) p"
    define p2 where "p2 = emit_alu (imm_b p1) (reg_a (reg_hi ?d)) ALU_OP_XOR (reg_b (reg_hi ?s)) p1"
    have f1: "fits 1 p p1" unfolding p1_def by (rule fits_alu) (use s r in simp_all)
    have f2: "fits 2 p p2" unfolding p2_def by (rule fits_alu) (use s[OF fits_scratch[OF f1]] f1 r in simp_all)
    have "fits 10 p (emit_br BR_BEQ (bi_off (im_insn meta)) 0 (emit_alu reg_none (imm_a p2) ALU_OP_OR (imm_b p2) p2))"
      using s[OF fits_scratch[OF f2]] f2 by (auto intro!: fits_intros intro: fits_mono)
    then show ?thesis unfolding jeq_reg_def Let_def p1_def[symmetric] p2_def[symmetric] by (intro succeeds_forward[OF assms(3)] succeeds_ok)
  qed
  have "cb \<in> {jump, jeq_imm, jset_imm, jne_imm, jeq_reg, jgt_reg, jge_reg, jset_reg, jne_reg}"
    using assms(1,2) table_jumps(1-9)[of cb cl] unfolding is_test_def by (elim insertE emptyE) simp_all
  then show ?thesis using cmp jset jeq jeq_imm_succeeds[OF assms(3,4)]
    unfolding jgt_reg_def jge_reg_def jset_reg_def jne_reg_def by auto
qed

lemma acceptable_cb: "acceptable n insn \<Longrightarrow> \<exists>cb. map_of (instr_cb cl) (bi_code insn) = Some cb"
proof -
  assume a: "acceptable n insn"
  have "bi_code insn \<in> insert 0x95 ({0x05, 0x15, 0x45, 0x55, 0x1d, 0x2d, 0x3d, 0x4d, 0x5d} \<union> alu_codes)"
    using a by (auto simp: acceptable_def translatable_def is_test_def)
  then show ?thesis unfolding alu_codes_def by (elim UnE insertE emptyE) (simp_all add: instr_cb_def)
qed

lemma cb_succeeds:
  assumes "map_of (instr_cb cl) (bi_code (im_insn meta)) = Some cb" "acceptable n (im_insn meta)" "scratch p < 254"
  shows "succeeds meta p (cb meta p)"
proof -
  note tab = map_of_SomeD[OF assms(1)]
  consider "is_alu (im_insn meta)" | "is_test (im_insn meta)" | "bi_code (im_insn meta) = 0x95"
    using assms(2) by (auto simp: acceptable_def translatable_def)
  then show ?thesis
  proof cases
    case 3
    then have "cb = goto_out" using tab exit_code by simp
    then show ?thesis unfolding goto_out_def by (auto intro!: succeeds_ok fits_intros)
  qed (use alu_succeeds[OF tab _ assms(2,3)] test_succeeds[OF tab _ _ assms(3)] assms(2) in \<open>auto simp: acceptable_def\<close>)
qed

lemma translate_loop_ok:
  assumes "list_all (\<lambda>m. \<not> im_skip m \<and> \<not> im_double m \<and> acceptable n (im_insn m)) ms" "\<forall>pm. prev = Some pm \<longrightarrow> \<not> im_double pm"
    and "np_error p = 0" "length (np_prog p) + 10 * length ms \<le> np_alloc_len p" "scratch p < 254"
  shows "\<exists>ms' q. translate_loop cl prev ms p = (0, ms', q) \<and> np_error q = 0 \<and> fits (10 * length ms) p q"
  using assms
proof (induction ms arbitrary: prev p)
  case (Cons meta ms)
  define m where "m = meta\<lparr>im_off := nfp_prog_current_offset p\<rparr>"
  have m: "\<not> im_skip m" "\<not> im_double m" "acceptable n (im_insn m)" using Cons.prems(1) by (auto simp: m_def)
  have pick: "pick_cb cl prev m = map_of (instr_cb cl) (bi_code (im_insn m))" using Cons.prems(2) by (auto simp: pick_cb_def split: option.split)
  obtain cb where cb: "map_of (instr_cb cl) (bi_code (im_insn m)) = Some cb" using acceptable_cb[OF m(3)] by blast
  obtain e m1 p1 where c: "cb m p = ((e, m1), p1)" by (cases "cb m p") auto
  have s: "e = 0" "fits 10 p p1" using cb_succeeds[OF cb m(3) Cons.prems(5)] c by (simp_all add: succeeds_def)
  define p2 where "p2 = p1\<lparr>np_n_translated := np_n_translated p1 + 1\<rparr>"
  have f2: "fits 10 p p2" using s(2) by (simp add: p2_def fits_def)
  have p2: "np_error p2 = 0" "length (np_prog p2) + 10 * length ms \<le> np_alloc_len p2" "scratch p2 < 254"
    using f2 Cons.prems(3,4) fits_scratch[OF f2] Cons.prems(5) by (simp_all add: fits_def)
  have "translatable n (im_insn m)" using m(3) by (simp add: acceptable_def)
  then have "bi_code (im_insn m) \<noteq> 0x18" by (auto simp: translatable_def is_alu_def is_test_def BPF_CLASS_def)
  then have "\<not> im_double m1" using table_keeps[OF map_of_SomeD[OF cb], of m p] c m(2) by simp
  then have prev: "\<forall>pm. Some m1 = Some pm \<longrightarrow> \<not> im_double pm" by simp
  have rest: "list_all (\<lambda>m. \<not> im_skip m \<and> \<not> im_double m \<and> acceptable n (im_insn m)) ms" using Cons.prems(1) by simp
  obtain ms' q where r: "translate_loop cl (Some m1) ms p2 = (0, ms', q)" "np_error q = 0" "fits (10 * length ms) p2 q"
    using Cons.IH[OF rest prev p2] by blast
  have "translate_loop cl prev (meta # ms) p = (0, m1 # ms', q)"
    using m(1) pick cb c s(1) r(1)[unfolded p2_def] by (simp add: m_def[symmetric] Let_def)
  then show ?case using r(2) fits_trans[OF f2 r(3), of "10 * length (meta # ms)"] by auto
qed simp

section \<open>The fix-up succeeds\<close>

lemma fixup_target_ok: "unat off \<le> length ms \<Longrightarrow> fixup_target off m ms = (0, (m # ms) ! unat off)"
proof (induction off m ms rule: fixup_target.induct)
  case (2 off m m' ms)
  show ?case
  proof (cases "off = 0")
    case False
    then have "unat off = Suc (unat (off - 1))" by (simp add: unat_minus_one Suc_diff_1 unat_gt_0)
    then show ?thesis using 2 False by simp
  qed simp
qed (simp add: unat_eq_zero)

text \<open>A test lands on an instruction that is there.\<close>

definition lands :: "nfp_insn_meta list \<Rightarrow> bool" where
  "lands ms \<longleftrightarrow> (is_test (im_insn (hd ms)) \<and> \<not> im_skip (hd ms) \<longrightarrow> 0 < sint (bi_off (im_insn (hd ms))) \<and>
     Suc (nat (sint (bi_off (im_insn (hd ms))))) < length ms \<and> \<not> im_skip (ms ! Suc (nat (sint (bi_off (im_insn (hd ms)))))))"

lemma fixup_one_ok:
  assumes "np_prog p = pre @ b @ post" "pre \<noteq> []" "length (np_prog p) < 2 ^ 32"
    and "block_at p (length pre) m" "block_at p (length (pre @ b)) nxt" "fixable m b" "flags_ok m b" "lands (m # nxt # rest)"
  shows "\<exists>q. fixup_one m nxt rest p = Some (0, q)"
proof -
  have small: "length (pre @ b) < 2 ^ 32" using assms(1,3) by simp
  have br_ix: "unat (nfp_prog_offset_to_index p (im_off nxt) - 1) = length pre + length b - 1"
    using block_at_before[OF assms(5) _ small] assms(2) by simp
  consider (skip) "im_skip m" | (other) "BPF_CLASS (bi_code (im_insn m)) \<noteq> BPF_JMP"
    | (exit) "\<not> im_skip m" "BPF_CLASS (bi_code (im_insn m)) = BPF_JMP" "b = [exit_word]"
    | (test) "\<not> im_skip m" "BPF_CLASS (bi_code (im_insn m)) = BPF_JMP" "is_test (im_insn m)" "list_all plain_br b"
    using assms(6) by (auto simp: fixable_def)
  then show ?thesis
  proof cases
    case exit
    have "np_prog p ! (length pre + length b - 1) = exit_word" "length pre + length b - 1 < length (np_prog p)"
      unfolding assms(1) exit(3) by (simp_all add: nth_append)
    then show ?thesis unfolding fixup_one_def Let_def br_ix using exit exit_special by simp
  next
    case test
    have b: "b \<noteq> []" "nfp_is_br (last b)" using assms(7) test(1,3) by (simp_all add: flags_ok_def)
    have w: "np_prog p ! (length pre + length b - 1) = last b" "length pre + length b - 1 < length (np_prog p)"
      using b(1) unfolding assms(1) by (cases b rule: rev_cases; simp add: nth_append)+
    have sp: "FIELD_GET OP_BR_SPECIAL (last b) = 0" using test(4) b by (simp add: list_all_iff plain_br_def)
    have l: "0 < sint (bi_off (im_insn m))" "nat (sint (bi_off (im_insn m))) \<le> length rest" "\<not> im_skip ((nxt # rest) ! nat (sint (bi_off (im_insn m))))"
      using assms(8) test(1,3) by (simp_all add: lands_def del: nth_Cons_pos)
    have z: "bi_off (im_insn m) \<noteq> 0" using l(1) by auto
    have t: "fixup_target (scast (bi_off (im_insn m))) nxt rest = (0, (nxt # rest) ! nat (sint (bi_off (im_insn m))))"
      using fixup_target_ok[of "scast (bi_off (im_insn m))" rest nxt] forward_offset[of "bi_off (im_insn m)"] l(1,2) by simp
    show ?thesis unfolding fixup_one_def Let_def br_ix w(1) using w(2) test(1,2) b(2) sp z t l(3) by simp
  qed (simp_all add: fixup_one_def)
qed

lemma fixup_walk_ok:
  assumes "np_prog p = pre @ concat bs @ post" "pre \<noteq> []" "length (np_prog p) < 2 ^ 32" "length bs = length ms"
    and "\<forall>i < length ms. block_at p (length (pre @ concat (take i bs))) (ms ! i) \<and> fixable (ms ! i) (bs ! i) \<and> flags_ok (ms ! i) (bs ! i) \<and> lands (drop i ms)"
  shows "\<exists>q. fixup_walk ms p = Some (0, q)"
  using assms
proof (induction ms p arbitrary: pre bs rule: fixup_walk_induct)
  case (Walk m nxt rest p)
  obtain b1 b2 bs' where bs: "bs = b1 # b2 # bs'" using Walk(5) by (cases bs; cases "tl bs") auto
  have blk: "block_at p (length pre) m" "block_at p (length (pre @ b1)) nxt" "fixable m b1" "flags_ok m b1" "lands (m # nxt # rest)"
    using Walk(6)[rule_format, of 0] Walk(6)[rule_format, of "Suc 0"] by (simp_all add: bs)
  have pr: "np_prog p = pre @ b1 @ (concat (b2 # bs') @ post)" using Walk(2) bs by simp
  obtain p1 where o: "fixup_one m nxt rest p = Some (0, p1)" using fixup_one_ok[OF pr Walk(3,4) blk] by blast
  obtain c where c: "p1 = p\<lparr>np_prog := pre @ c @ (concat (b2 # bs') @ post)\<rparr>" "length c = length b1"
    using fixup_one_block[OF o pr Walk(3,4) blk(1-3)] by blast
  have pr1: "np_prog p1 = (pre @ c) @ concat (b2 # bs') @ post" using c(1) by simp
  have len: "length (np_prog p1) < 2 ^ 32" using Walk(4) pr pr1 c(2) by simp
  have "\<exists>q. fixup_walk (nxt # rest) p1 = Some (0, q)"
  proof (rule Walk(1)[OF o refl _ pr1 _ len])
    show "\<forall>i < length (nxt # rest). block_at p1 (length ((pre @ c) @ concat (take i (b2 # bs')))) ((nxt # rest) ! i) \<and>
        fixable ((nxt # rest) ! i) ((b2 # bs') ! i) \<and> flags_ok ((nxt # rest) ! i) ((b2 # bs') ! i) \<and> lands (drop i (nxt # rest))"
    proof (intro allI impI)
      fix i assume "i < length (nxt # rest)"
      then show "block_at p1 (length ((pre @ c) @ concat (take i (b2 # bs')))) ((nxt # rest) ! i) \<and>
        fixable ((nxt # rest) ! i) ((b2 # bs') ! i) \<and> flags_ok ((nxt # rest) ! i) ((b2 # bs') ! i) \<and> lands (drop i (nxt # rest))"
        using Walk(6)[rule_format, of "Suc i"] c(1,2) bs by (simp add: block_at_def add.assoc)
    qed
  qed (use Walk(3,5) bs in simp_all)
  then show ?case using o by simp
qed simp_all

section \<open>Every acceptable program is translated\<close>

text \<open>Its instructions are acceptable, and its tests land on an instruction that stays.\<close>

definition acceptable_program :: "nat \<Rightarrow> bpf_insn list \<Rightarrow> bool" where
  "acceptable_program n ins \<longleftrightarrow> (\<forall>i < length ins. acceptable n (ins ! i) \<and> (is_test (ins ! i) \<longrightarrow>
     0 < sint (bi_off (ins ! i)) \<and> Suc i + nat (sint (bi_off (ins ! i))) < length ins \<and>
     \<not> removed (ins ! (Suc i + nat (sint (bi_off (ins ! i)))))))"

lemma translate_ok:
  assumes p: "np_prog p = []" "np_error p = 0" "regs_fit n p" "10 * length (np_insns p) + 25 \<le> np_alloc_len p" "10 * length (np_insns p) + 25 < 2 ^ 32"
    and ms: "list_all (\<lambda>m. \<not> im_skip m \<and> \<not> im_double m) (np_insns p)" and acc: "acceptable_program n (map im_insn (np_insns p))"
  shows "\<exists>q. nfp_translate cl p = Some (0, q) \<and> length (np_prog q) \<le> 10 * length (np_insns p) + 25"
proof -
  let ?ms = "np_insns p"
  have a: "acceptable n (im_insn (?ms ! i))" "is_test (im_insn (?ms ! i)) \<Longrightarrow> 0 < sint (bi_off (im_insn (?ms ! i))) \<and>
      Suc i + nat (sint (bi_off (im_insn (?ms ! i)))) < length ?ms \<and> \<not> removed (im_insn (?ms ! (Suc i + nat (sint (bi_off (im_insn (?ms ! i)))))))"
    if "i < length ?ms" for i using acc that by (auto simp: acceptable_program_def)
  have all: "list_all (\<lambda>m. \<not> im_skip m \<and> \<not> im_double m \<and> acceptable n (im_insn m)) ?ms"
    "list_all (\<lambda>m. \<not> im_skip m \<and> \<not> im_double m \<and> translatable n (im_insn m)) ?ms"
    using ms a(1) by (auto simp: list_all_length acceptable_def)
  have sc: "scratch p < 254" using p(3) by (simp add: regs_fit_def)
  define p1 where "p1 = nfp_intro p"
  have f1: "fits 1 p p1" unfolding p1_def nfp_intro_def pkt_reg_def by (rule fits_alu) (use pkt_number[OF p(3)] in simp_all)
  have e1: "np_error p1 = 0" "length (np_prog p1) \<le> 1" using f1 p by (simp_all add: fits_def)
  obtain w where w: "p1 = p\<lparr>np_prog := [w]\<rparr>" "room p1" using intro_block[OF p(3), of sample_isa] e1 p(1,4) unfolding p1_def by (auto simp: room_def)
  have pre: "np_error p1 = 0" "length (np_prog p1) + 10 * length ?ms \<le> np_alloc_len p1" "scratch p1 < 254" "regs_fit n p1" "np_insns p1 = ?ms" "np_start_off p1 = np_start_off p"
    using e1 p w sc by (simp_all add: regs_fit_def)
  obtain ms' p2 where l: "translate_loop cl None ?ms p1 = (0, ms', p2)" "np_error p2 = 0" "fits (10 * length ?ms) p1 p2"
    using translate_loop_ok[OF all(1) _ pre(1-3), where prev = None and cl = cl] by auto
  obtain bs where bs: "length bs = length ?ms" "length ms' = length ?ms" "np_prog p2 = [w] @ concat bs" "np_start_off p2 = np_start_off p"
    "\<forall>i < length ?ms. block_ok sample_isa n (im_insn (?ms ! i)) (bs ! i) \<and> im_insn (ms' ! i) = im_insn (?ms ! i) \<and>
      im_off (ms' ! i) = np_start_off p + of_nat (length ([w] @ concat (take i bs))) \<and> flags_ok (ms' ! i) (bs ! i)"
    using translate_loop_blocks[OF sample_documented l(1,2) pre(1) w(2) pre(4) _ all(2)] w(1) by auto
  define p3 where "p3 = p2\<lparr>np_insns := ms'\<rparr>"
  define p4 where "p4 = nfp_outro p3"
  have f4: "fits 24 p3 p4" unfolding p4_def by (rule fits_outro)
  have p3: "np_error p3 = 0" "length (np_prog p3) + 24 \<le> np_alloc_len p3" "length (np_prog p3) + 24 \<le> 10 * length ?ms + 25"
    using l(2,3) f1 e1(2) p(1,4) pre(2) by (auto simp: p3_def fits_def)
  have p4: "np_error p4 = 0" "length (np_prog p4) \<le> 10 * length ?ms + 25" using f4 p3 by (auto simp: fits_def)
  have g: "grows p3 p4" unfolding p4_def by (rule grows_outro)
  obtain post where post: "np_prog p4 = [w] @ concat bs @ post" "np_start_off p4 = np_start_off p" "np_insns p4 = ms'"
    using g p4(1) bs(3,4) by (auto simp: grows_def p3_def)
  have len4: "length (np_prog p4) < 2 ^ 32" using p4(2) p(5) by simp
  have at: "block_at p4 (length ([w] @ concat (take i bs))) (ms' ! i) \<and> fixable (ms' ! i) (bs ! i) \<and> flags_ok (ms' ! i) (bs ! i) \<and> lands (drop i ms')"
    if i: "i < length ms'" for i
  proof -
    have b: "block_ok sample_isa n (im_insn (ms' ! i)) (bs ! i)" "translatable n (im_insn (ms' ! i))" "flags_ok (ms' ! i) (bs ! i)"
      using bs(2,5) all(2) i by (auto simp: list_all_length)
    have "\<not> is_alu (im_insn (ms' ! i))" if "BPF_CLASS (bi_code (im_insn (ms' ! i))) = BPF_JMP" using that by (simp add: is_alu_def)
    then have "fixable (ms' ! i) (bs ! i)" using b(1,2) codes_apart unfolding fixable_def block_ok_def translatable_def by metis
    moreover have "lands (drop i ms')"
    proof -
      have same: "\<And>j. j < length ms' \<Longrightarrow> im_insn (ms' ! j) = im_insn (?ms ! j) \<and> (im_skip (ms' ! j) \<longrightarrow> removed (im_insn (?ms ! j)))"
        using bs(2,5) by (auto simp: flags_ok_def)
      have "hd (drop i ms') = ms' ! i" using i by (rule hd_drop_conv_nth)
      moreover have "drop i ms' ! Suc k = ms' ! (Suc i + k)" for k using i by simp
      ultimately show ?thesis using same[OF i] same[of "Suc i + nat (sint (bi_off (im_insn (?ms ! i))))"] a(2)[of i] i bs(2)
        unfolding lands_def by (auto simp: less_diff_conv)
    qed
    ultimately show ?thesis using bs(2,5) b(3) i post(2) by (simp add: block_at_def)
  qed
  have "\<exists>q. fixup_walk ms' p4 = Some (0, q)"
    by (rule fixup_walk_ok[OF post(1) _ len4]) (use at bs(1,2) in simp_all)
  then obtain p5 where f: "fixup_walk ms' p4 = Some (0, p5)" by blast
  have "length (np_prog p5) = length (np_prog p4)" by (rule fixup_walk_length[OF f])
  moreover have "nfp_translate cl p = Some (0, p5\<lparr>np_prog := map (fixup_special (np_tgt_out p5) (np_tgt_abort p5)) (np_prog p5)\<rparr>)"
    using e1(1) l(1) p4(1) f by (simp add: nfp_translate_def p1_def[symmetric] pre(5) p3_def[symmetric] p4_def[symmetric] nfp_fixup_branches_def post(3) Let_def)
  ultimately show ?thesis using p4(2) by auto
qed

text \<open>Such a program ends when its last instruction is an exit.\<close>

lemma bpf_exec_returns:
  assumes acc: "acceptable_program n ins" and last: "ins \<noteq> []" "bi_code (last ins) = 0x95" and "i < length ins"
  shows "\<exists>R'. bpf_exec ins i R = Some R'"
  using assms(4)
proof (induction "length ins - i" arbitrary: i R rule: less_induct)
  case less
  have a: "translatable n (ins ! i)" "is_test (ins ! i) \<Longrightarrow> 0 < sint (bi_off (ins ! i)) \<and> Suc i + nat (sint (bi_off (ins ! i))) < length ins"
    using acc less.prems by (auto simp: acceptable_program_def acceptable_def)
  have next_there: "Suc i < length ins" if "bi_code (ins ! i) \<noteq> 0x95"
  proof (rule ccontr)
    assume "\<not> Suc i < length ins"
    then have "i = length ins - 1" using less.prems by simp
    then show False using last that by (simp add: last_conv_nth)
  qed
  have ih: "\<exists>R'. bpf_exec ins j S = Some R'" if "i < j" "j < length ins" for j S using less.hyps[of j S] that by simp
  consider (exit) "bi_code (ins ! i) = 0x95" | (alu) "is_alu (ins ! i)" "bi_code (ins ! i) \<noteq> 0x95" | (test) "is_test (ins ! i)" "\<not> is_alu (ins ! i)" "bi_code (ins ! i) \<noteq> 0x95"
    using a(1) codes_apart by (auto simp: translatable_def)
  then show ?case
  proof cases
    case alu
    then show ?thesis using ih[of "Suc i"] next_there by (simp add: bpf_exec_step[OF less.prems])
  next
    case test
    then show ?thesis using ih[of "Suc i"] ih[of "Suc i + nat (sint (bi_off (ins ! i)))"] next_there a(2)
      by (simp add: bpf_exec_step[OF less.prems])
  qed (simp add: bpf_exec_step[OF less.prems])
qed

lemma prepared_plain: "list_all (\<lambda>m. \<not> im_skip m \<and> \<not> im_double m) (prepare_from i ins)" "map im_insn (prepare_from i ins) = ins"
  "length (prepare_from i ins) = length ins"
  by (induction ins arbitrary: i) simp_all

section \<open>Properties\<close>

text \<open>Claim C3. An acceptable program with enough memory is translated without an error, and the code does what the program
  does: from a state whose registers match those of the program it reaches the exit sequence in a state
  whose registers match those at the exit of the program.\<close>

theorem jit_program_correct:
  assumes "me_documented isa" and "acceptable_program n ins" and "ins \<noteq> []" and "bi_code (last ins) = 0x95"
    and "np_insns p = prepare_from 0 ins" and "np_prog p = []" and "np_error p = 0" and "regs_fit n p"
    and "10 * length ins + 25 \<le> np_alloc_len p" and "unat (np_start_off p) + 10 * length ins + 25 < 2 ^ 14"
  shows "\<exists>q. nfp_translate cl p = Some (0, q) \<and> (\<forall>R st. matches n st R \<longrightarrow> (\<exists>R' st'. bpf_exec ins 0 R = Some R' \<and>
    me_reaches isa (unat (np_start_off p)) (np_prog q) (unat (np_start_off p), st) (unat (np_tgt_out q), st') \<and> matches n st' R'))"
proof -
  note m = prepared_plain[of 0 ins]
  have len: "10 * length (np_insns p) + 25 \<le> np_alloc_len p" "10 * length (np_insns p) + 25 < 2 ^ 32" using assms(5,9,10) m(3) by simp_all
  obtain q where q: "nfp_translate cl p = Some (0, q)" "length (np_prog q) \<le> 10 * length ins + 25"
    using translate_ok[OF assms(6,7,8) len, of cl] assms(2,5) m by auto
  have "\<exists>R' st'. bpf_exec ins 0 R = Some R' \<and> me_reaches isa (unat (np_start_off p)) (np_prog q) (unat (np_start_off p), st) (unat (np_tgt_out q), st') \<and>
      matches n st' R'" if M: "matches n st R" for R st
  proof -
    obtain R' where R': "bpf_exec ins 0 R = Some R'" using bpf_exec_returns[OF assms(2-4), of 0 R] assms(3) by auto
    have "list_all (\<lambda>m. translatable n (im_insn m)) (np_insns p)"
    proof -
      have "list_all (translatable n) (map im_insn (np_insns p))" using assms(2,5) m(2) by (simp add: acceptable_program_def acceptable_def list_all_length)
      then show ?thesis by (simp add: list.pred_map comp_def)
    qed
    then have tr: "list_all (\<lambda>m. \<not> im_skip m \<and> \<not> im_double m \<and> translatable n (im_insn m)) (np_insns p)" using m(1) assms(5) by (simp add: list_all_iff)
    have "room p" using assms(6) by (simp add: room_def)
    from program_correct[OF assms(1) q(1) assms(6,7) this assms(8) tr, of R R' st] show ?thesis
      using q(2) assms(5,10) m(2) R' M by auto
  qed
  then show ?thesis using q(1) by blast
qed

text \<open>A program with a jump, for the example.\<close>

definition sample_insn :: "u8 \<Rightarrow> u16 \<Rightarrow> u32 \<Rightarrow> bpf_insn" where
  "sample_insn code off imm = \<lparr>bi_code = code, bi_dst_reg = 0, bi_src_reg = 0, bi_off = off, bi_imm = imm\<rparr>"

definition sample_insns :: "bpf_insn list" where
  "sample_insns = [sample_insn 0xb7 0 1, sample_insn 0x15 1 1, sample_insn 0xb7 0 5, sample_insn 0x95 0 0]"

definition sample_filter :: nfp_prog where
  "sample_filter = (new_prog NN_ACT_XDP 0 0)\<lparr>np_regs_per_thread := 16, np_alloc_len := 65, np_insns := prepare_from 0 sample_insns\<rparr>"

definition sample_layout :: ctx_layout where
  "sample_layout = \<lparr>cl_skb_len = 0, cl_skb_mark = 8, cl_xdp_data = 0, cl_xdp_data_end = 4\<rparr>"

lemma sample_acceptable: "acceptable_program 1 sample_insns"
  by (simp add: acceptable_program_def sample_insns_def sample_insn_def All_less_Suc2 acceptable_def translatable_def
    is_alu_def is_test_def left_out_def alu_codes_def removed_def BPF_CLASS_def)

lemma jit_program_correct_witness:
  "\<exists>q. nfp_translate sample_layout sample_filter = Some (0, q) \<and> (\<forall>R st. matches 1 st R \<longrightarrow> (\<exists>R' st'. bpf_exec sample_insns 0 R = Some R' \<and>
    me_reaches sample_isa (unat (np_start_off sample_filter)) (np_prog q) (unat (np_start_off sample_filter), st) (unat (np_tgt_out q), st') \<and> matches 1 st' R'))"
  by (rule jit_program_correct[OF sample_documented sample_acceptable])
    (simp_all add: sample_filter_def sample_insns_def sample_insn_def new_prog_def regs_fit_def)

end
