(* ===== verification/Net_Reconfig.thy ===== *)
theory Net_Reconfig
  imports Nfp_Prelude
begin

text \<open>
  The firmware reconfiguration machinery of the network driver (\<open>nfp_net_common.c\<close>): the update
  word of the control BAR is written and the firmware is rung; the firmware acknowledges by clearing
  the word or reports by setting its error bit. When it does so, and for which of the commands it has
  been given, is not assumed: in the model it may do so at any time and any number of times, so that
  a late acknowledgement of an older command can be taken for that of the last one, as in the code. A synchronous caller (one at a time, under RTNL), posters
  of asynchronous requests and the timer of the kernel share the machinery. The operations are
  functions of the device state; \<open>rstep\<close> interleaves them with the firmware and the clock. What
  runs under \<open>reconfig_lock\<close> is one step; the synchronous caller waits step by step.

  \<open>history\<close> is a ghost: the events seen at the device, newest first. The kernel's timer is
  \<open>timer_pending\<close> and \<open>timer_expires\<close>; \<open>timer_running\<close> is a callback that has fired and
  waits for the lock. \<open>HZ\<close> is a parameter.
\<close>

section \<open>State\<close>

definition NFP_NET_CFG_UPDATE_ERR :: u32 where
  "NFP_NET_CFG_UPDATE_ERR = 0x80000000"

definition NFP_NET_POLL_TIMEOUT :: u64 where
  "NFP_NET_POLL_TIMEOUT = 5"

datatype cfg_event =
    Asked u32
  | CfgWrite u32
  | CfgPing
  | FwWrite u32
  | Tick
  | Ret u32 int

record nfp_net =
  cfg_update :: u32
  reconfig_posted :: u32
  reconfig_timer_active :: bool
  reconfig_sync_present :: bool
  timer_pending :: bool
  timer_expires :: u64
  jiffies :: u64
  history :: "cfg_event list"

definition seen :: "cfg_event \<Rightarrow> nfp_net \<Rightarrow> nfp_net" where
  "seen e nn = nn\<lparr>history := e # history nn\<rparr>"

text \<open>The macro \<open>time_is_before_eq_jiffies\<close>: a signed comparison, so that it survives the wrap
  of the clock.\<close>

definition time_is_before_eq_jiffies :: "nfp_net \<Rightarrow> u64 \<Rightarrow> bool" where
  "time_is_before_eq_jiffies nn t \<longleftrightarrow> 0 \<le> sint (jiffies nn - t)"

definition reconfig_timeout :: "u64 \<Rightarrow> u64" where
  "reconfig_timeout hz = NFP_NET_POLL_TIMEOUT * hz"

section \<open>Operations\<close>

definition nfp_net_reconfig_start :: "nfp_net \<Rightarrow> u32 \<Rightarrow> nfp_net" where
  "nfp_net_reconfig_start nn update =
    (let nn = seen (CfgWrite update) (nn\<lparr>cfg_update := update\<rparr>) in seen CfgPing nn)"

definition mod_timer :: "u64 \<Rightarrow> nfp_net \<Rightarrow> nfp_net" where
  "mod_timer t nn = nn\<lparr>timer_pending := True, timer_expires := t\<rparr>"

definition del_timer :: "nfp_net \<Rightarrow> nfp_net" where
  "del_timer nn = nn\<lparr>timer_pending := False\<rparr>"

definition nfp_net_reconfig_start_async :: "u64 \<Rightarrow> nfp_net \<Rightarrow> u32 \<Rightarrow> nfp_net" where
  "nfp_net_reconfig_start_async hz nn update =
    (let update = update OR reconfig_posted nn;
         nn = nfp_net_reconfig_start (nn\<lparr>reconfig_posted := 0\<rparr>) update;
         nn = nn\<lparr>reconfig_timer_active := True\<rparr>
     in mod_timer (jiffies nn + reconfig_timeout hz) nn)"

definition nfp_net_reconfig_check_done :: "nfp_net \<Rightarrow> bool \<Rightarrow> bool" where
  "nfp_net_reconfig_check_done nn last_check =
    (let reg = cfg_update nn in
     if reg = 0 then True
     else if reg AND NFP_NET_CFG_UPDATE_ERR \<noteq> 0 then True
     else if last_check then True
     else False)"

definition nfp_net_reconfig_timer :: "u64 \<Rightarrow> nfp_net \<Rightarrow> nfp_net" where
  "nfp_net_reconfig_timer hz nn =
    (let nn = nn\<lparr>reconfig_timer_active := False\<rparr> in
     if reconfig_sync_present nn then nn
     else if reconfig_posted nn \<noteq> 0 then nfp_net_reconfig_start_async hz nn 0
     else nn)"

definition nfp_net_reconfig_post :: "u64 \<Rightarrow> nfp_net \<Rightarrow> u32 \<Rightarrow> nfp_net" where
  "nfp_net_reconfig_post hz nn update =
    (if reconfig_sync_present nn
     then nn\<lparr>reconfig_posted := reconfig_posted nn OR update\<rparr>
     else if \<not> reconfig_timer_active nn \<or> nfp_net_reconfig_check_done nn False
     then nfp_net_reconfig_start_async hz nn update
     else nn\<lparr>reconfig_posted := reconfig_posted nn OR update\<rparr>)"

text \<open>\<open>nfp_net_reconfig_wait\<close>, one access at a time: the check of the loop, the sleep with the
  test of the deadline, and the last read of the register.\<close>

datatype wait_at = AtCheck | AtSleep | AtReread

datatype wait_pc = Wait (deadline: u64) (timed_out: bool) (wait_at: wait_at)

fun nfp_net_reconfig_wait :: "nfp_net \<Rightarrow> wait_pc \<Rightarrow> wait_pc + int" where
  "nfp_net_reconfig_wait nn (Wait dl late AtCheck) =
    (if nfp_net_reconfig_check_done nn late then Inl (Wait dl late AtReread)
     else Inl (Wait dl late AtSleep))"
| "nfp_net_reconfig_wait nn (Wait dl late AtSleep) =
    Inl (Wait dl (time_is_before_eq_jiffies nn dl) AtCheck)"
| "nfp_net_reconfig_wait nn (Wait dl late AtReread) =
    (if cfg_update nn AND NFP_NET_CFG_UPDATE_ERR \<noteq> 0 then Inr (- EIO)
     else Inr (if late then - EIO else 0))"

text \<open>\<open>nfp_net_reconfig\<close> with its local variables: the place of the synchronous caller.\<close>

datatype sync_pc =
    Outside
  | Cancelled wait_pc u32 u32
  | StartPosted u32 u32
  | Posted wait_pc u32
  | StartUpdate u32
  | Updating wait_pc u32
  | Finishing int u32

definition reconfig_enter :: "nfp_net \<Rightarrow> u32 \<Rightarrow> nfp_net \<times> sync_pc" where
  "reconfig_enter nn update =
    (let nn = nn\<lparr>reconfig_sync_present := True\<rparr>;
         cancelled_timer = reconfig_timer_active nn;
         nn = (if reconfig_timer_active nn
               then (del_timer nn)\<lparr>reconfig_timer_active := False\<rparr> else nn);
         pre_posted_requests = reconfig_posted nn;
         nn = nn\<lparr>reconfig_posted := 0\<rparr>
     in (nn, if cancelled_timer
             then Cancelled (Wait (timer_expires nn) False AtCheck) update pre_posted_requests
             else StartPosted update pre_posted_requests))"

definition new_wait :: "u64 \<Rightarrow> nfp_net \<Rightarrow> wait_pc" where
  "new_wait hz nn = Wait (jiffies nn + reconfig_timeout hz) False AtCheck"

definition reconfig_leave :: "u64 \<Rightarrow> nfp_net \<Rightarrow> nfp_net" where
  "reconfig_leave hz nn =
    (let nn = (if reconfig_posted nn \<noteq> 0 then nfp_net_reconfig_start_async hz nn 0 else nn)
     in nn\<lparr>reconfig_sync_present := False\<rparr>)"

fun nfp_net_reconfig :: "u64 \<Rightarrow> nfp_net \<Rightarrow> sync_pc \<Rightarrow> nfp_net \<times> sync_pc" where
  "nfp_net_reconfig hz nn Outside = (nn, Outside)"
| "nfp_net_reconfig hz nn (Cancelled w update pre) =
    (case nfp_net_reconfig_wait nn w of
       Inl w' \<Rightarrow> (nn, Cancelled w' update pre)
     | Inr _ \<Rightarrow> (nn, StartPosted update pre))"
| "nfp_net_reconfig hz nn (StartPosted update pre) =
    (if pre \<noteq> 0
     then (let nn = nfp_net_reconfig_start nn pre in (nn, Posted (new_wait hz nn) update))
     else (nn, StartUpdate update))"
| "nfp_net_reconfig hz nn (Posted w update) =
    (case nfp_net_reconfig_wait nn w of
       Inl w' \<Rightarrow> (nn, Posted w' update)
     | Inr _ \<Rightarrow> (nn, StartUpdate update))"
| "nfp_net_reconfig hz nn (StartUpdate update) =
    (let nn = nfp_net_reconfig_start nn update in (nn, Updating (new_wait hz nn) update))"
| "nfp_net_reconfig hz nn (Updating w update) =
    (case nfp_net_reconfig_wait nn w of
       Inl w' \<Rightarrow> (nn, Updating w' update)
     | Inr ret \<Rightarrow> (seen (Ret update ret) nn, Finishing ret update))"
| "nfp_net_reconfig hz nn (Finishing ret update) = (reconfig_leave hz nn, Outside)"

section \<open>Interleaving\<close>

text \<open>What the history says of the last command: the word the driver wrote, with what the firmware has put
  into the register since (last), if anything, and the ticks of the clock since it was written; and the
  requested bits no later command contains.\<close>

fun last_cmd :: "cfg_event list \<Rightarrow> (u32 \<times> u32 option) option" where
  "last_cmd [] = None"
| "last_cmd (CfgWrite u # l) = Some (u, None)"
| "last_cmd (FwWrite v # l) = map_option (\<lambda>(u, _). (u, Some v)) (last_cmd l)"
| "last_cmd (_ # l) = last_cmd l"

fun cmd_ticks :: "cfg_event list \<Rightarrow> nat" where
  "cmd_ticks [] = 0"
| "cmd_ticks (CfgWrite u # l) = 0"
| "cmd_ticks (Tick # l) = Suc (cmd_ticks l)"
| "cmd_ticks (_ # l) = cmd_ticks l"

fun outstanding :: "cfg_event list \<Rightarrow> u32" where
  "outstanding [] = 0"
| "outstanding (CfgWrite u # l) = outstanding l AND NOT u"
| "outstanding (Asked u # l) = outstanding l OR u"
| "outstanding (_ # l) = outstanding l"

definition valid_update :: "u32 \<Rightarrow> bool" where
  "valid_update u \<longleftrightarrow> u \<noteq> 0 \<and> u AND NFP_NET_CFG_UPDATE_ERR = 0"

definition valid_answer :: "u32 \<Rightarrow> bool" where
  "valid_answer v \<longleftrightarrow> v = 0 \<or> v AND NFP_NET_CFG_UPDATE_ERR \<noteq> 0"

record reconfig_system =
  net :: nfp_net
  sync :: sync_pc
  timer_running :: bool

definition reconfig_init :: "u64 \<Rightarrow> reconfig_system" where
  "reconfig_init now =
    \<lparr>net = \<lparr>cfg_update = 0, reconfig_posted = 0, reconfig_timer_active = False,
       reconfig_sync_present = False, timer_pending = False, timer_expires = 0,
       jiffies = now, history = []\<rparr>,
     sync = Outside, timer_running = False\<rparr>"

text \<open>\<open>Firmware\<close> changes nothing but the update word: it may clear it or set its error bit at any
  time. A timer callback fires (\<open>Fire\<close>) and gets the lock later (\<open>Run\<close>). With \<open>calm\<close>, the two
  are one step (\<open>FireRun\<close>): no one else takes the lock in between.\<close>

inductive rstep :: "u64 \<Rightarrow> bool \<Rightarrow> reconfig_system \<Rightarrow> reconfig_system \<Rightarrow> bool"
  for hz :: u64 and calm :: bool where
  Post: "valid_update u \<Longrightarrow>
    rstep hz calm s (s\<lparr>net := nfp_net_reconfig_post hz (seen (Asked u) (net s)) u\<rparr>)"
| Enter: "\<lbrakk> sync s = Outside; valid_update u; reconfig_enter (net s) u = (nn, pc) \<rbrakk> \<Longrightarrow>
    rstep hz calm s (s\<lparr>net := nn, sync := pc\<rparr>)"
| Sync: "\<lbrakk> sync s \<noteq> Outside; nfp_net_reconfig hz (net s) (sync s) = (nn, pc) \<rbrakk> \<Longrightarrow>
    rstep hz calm s (s\<lparr>net := nn, sync := pc\<rparr>)"
| Fire: "\<lbrakk> \<not> calm; timer_pending (net s); \<not> timer_running s;
      time_is_before_eq_jiffies (net s) (timer_expires (net s)) \<rbrakk> \<Longrightarrow>
    rstep hz calm s (s\<lparr>net := (net s)\<lparr>timer_pending := False\<rparr>, timer_running := True\<rparr>)"
| Run: "timer_running s \<Longrightarrow>
    rstep hz calm s (s\<lparr>net := nfp_net_reconfig_timer hz (net s), timer_running := False\<rparr>)"
| FireRun: "\<lbrakk> calm; timer_pending (net s);
      time_is_before_eq_jiffies (net s) (timer_expires (net s)) \<rbrakk> \<Longrightarrow>
    rstep hz calm s
      (s\<lparr>net := nfp_net_reconfig_timer hz ((net s)\<lparr>timer_pending := False\<rparr>)\<rparr>)"
| Firmware: "valid_answer v \<Longrightarrow>
    rstep hz calm s (s\<lparr>net := seen (FwWrite v) ((net s)\<lparr>cfg_update := v\<rparr>)\<rparr>)"
| Clock: "rstep hz calm s
    (s\<lparr>net := seen Tick ((net s)\<lparr>jiffies := jiffies (net s) + 1\<rparr>)\<rparr>)"

inductive reconfig_reach :: "u64 \<Rightarrow> bool \<Rightarrow> reconfig_system \<Rightarrow> bool"
  for hz :: u64 and calm :: bool where
  Init: "reconfig_reach hz calm (reconfig_init now)"
| Step: "\<lbrakk> reconfig_reach hz calm s; rstep hz calm s t \<rbrakk> \<Longrightarrow> reconfig_reach hz calm t"


section \<open>Words, clock and history\<close>

definition hz_ok :: "u64 \<Rightarrow> bool" where
  "hz_ok hz \<longleftrightarrow> unat hz \<le> 2 ^ 32"

lemma or_zero_iff [simp]: "(a :: u32) OR b = 0 \<longleftrightarrow> a = 0 \<and> b = 0"
  by (rule or_eq_0_iff)

lemma or_masked [simp]: "((a :: u32) OR b) AND m = 0 \<longleftrightarrow> a AND m = 0 \<and> b AND m = 0"
  by (simp add: word_ao_dist)

lemma valid_update_or: "valid_update u \<Longrightarrow> p AND NFP_NET_CFG_UPDATE_ERR = 0 \<Longrightarrow> valid_update (u OR p)"
  by (simp add: valid_update_def)

lemma reconfig_timeout_nat:
  assumes "hz_ok hz" shows "unat (reconfig_timeout hz) = 5 * unat hz"
proof -
  have "5 * unat hz < 2 ^ 64" using assms by (simp add: hz_ok_def)
  then show ?thesis
    by (simp add: reconfig_timeout_def NFP_NET_POLL_TIMEOUT_def unat_word_ariths)
qed

lemma deadline_reached_ticks:
  assumes hz: "hz_ok hz"
    and late: "time_is_before_eq_jiffies nn (jiffies nn - of_nat t + reconfig_timeout hz)"
  shows "5 * unat hz \<le> t"
proof (rule ccontr)
  assume "\<not> ?thesis"
  then have t: "t < 5 * unat hz" by simp
  define k where "k = 5 * unat hz - t"
  have k: "0 < k" "k \<le> 5 * 2 ^ 32" using t hz unfolding k_def hz_ok_def by auto
  have "reconfig_timeout hz = of_nat (unat (reconfig_timeout hz))"
    by simp
  also have "unat (reconfig_timeout hz) = 5 * unat hz"
    using hz by (rule reconfig_timeout_nat)
  also have "5 * unat hz = k + t" using t unfolding k_def by simp
  finally have "jiffies nn - (jiffies nn - of_nat t + reconfig_timeout hz) = - of_nat k"
    by simp
  also have "\<dots> = (of_int (- int k) :: u64)" by simp
  finally have "sint (jiffies nn - (jiffies nn - of_nat t + reconfig_timeout hz)) = - int k"
    using k by (simp only: sint_sbintrunc' signed_take_bit_int_eq_self_iff) (simp add: signed_take_bit_int_eq_self)
  then show False using late k unfolding time_is_before_eq_jiffies_def by simp
qed

section \<open>Invariant\<close>

fun pre_posted :: "sync_pc \<Rightarrow> u32" where
  "pre_posted (Cancelled w u p) = p"
| "pre_posted (StartPosted u p) = p"
| "pre_posted _ = 0"

fun sync_updates_ok :: "sync_pc \<Rightarrow> bool" where
  "sync_updates_ok Outside = True"
| "sync_updates_ok (Cancelled w u p) = (valid_update u \<and> p AND NFP_NET_CFG_UPDATE_ERR = 0)"
| "sync_updates_ok (StartPosted u p) = (valid_update u \<and> p AND NFP_NET_CFG_UPDATE_ERR = 0)"
| "sync_updates_ok (Posted w u) = valid_update u"
| "sync_updates_ok (StartUpdate u) = valid_update u"
| "sync_updates_ok (Updating w u) = valid_update u"
| "sync_updates_ok (Finishing r u) = True"

definition cmd_answered :: "cfg_event list \<Rightarrow> bool" where
  "cmd_answered l = (case last_cmd l of Some (_, None) \<Rightarrow> False | _ \<Rightarrow> True)"

definition register_ok :: "nfp_net \<Rightarrow> bool" where
  "register_ok nn = (case last_cmd (history nn) of
       None \<Rightarrow> valid_answer (cfg_update nn)
     | Some (u, None) \<Rightarrow> cfg_update nn = u \<and> valid_update u
     | Some (u, Some v) \<Rightarrow> cfg_update nn = v \<and> valid_answer v)"

text \<open>Flags: a request that is posted is never left without anyone to run it.\<close>

definition reconfig_flags_ok :: "reconfig_system \<Rightarrow> bool" where
  "reconfig_flags_ok s \<longleftrightarrow>
     (reconfig_sync_present (net s) \<longleftrightarrow> sync s \<noteq> Outside) \<and>
     (reconfig_timer_active (net s) \<longrightarrow> timer_pending (net s) \<or> timer_running s) \<and>
     (reconfig_posted (net s) \<noteq> 0 \<longrightarrow>
        reconfig_timer_active (net s) \<or> reconfig_sync_present (net s))"

definition covered :: "u32 \<Rightarrow> u32 \<Rightarrow> bool" where
  "covered x y \<longleftrightarrow> x AND NOT y = 0"

definition requests_ok :: "reconfig_system \<Rightarrow> bool" where
  "requests_ok s \<longleftrightarrow>
     covered (outstanding (history (net s))) (reconfig_posted (net s) OR pre_posted (sync s))"

definition words_ok :: "reconfig_system \<Rightarrow> bool" where
  "words_ok s \<longleftrightarrow> reconfig_posted (net s) AND NFP_NET_CFG_UPDATE_ERR = 0 \<and>
     sync_updates_ok (sync s) \<and> register_ok (net s)"

lemmas reconfig_ops = nfp_net_reconfig_start_def nfp_net_reconfig_start_async_def mod_timer_def
  del_timer_def nfp_net_reconfig_timer_def nfp_net_reconfig_post_def reconfig_enter_def
  new_wait_def reconfig_leave_def seen_def Let_def

lemma flags_init: "reconfig_flags_ok (reconfig_init now)"
  by (simp add: reconfig_flags_ok_def reconfig_init_def)

lemma flags_step: "rstep hz calm s t \<Longrightarrow> reconfig_flags_ok s \<Longrightarrow> reconfig_flags_ok t"
proof (induction rule: rstep.cases)
  case (Sync s nn pc)
  then show ?case
    by (cases "sync s") (auto simp: reconfig_flags_ok_def reconfig_ops split: sum.splits if_splits)
qed (auto simp: reconfig_flags_ok_def reconfig_ops split: if_splits)

lemma covered_bits: "covered x y \<longleftrightarrow> (\<forall>n<32. bit x n \<longrightarrow> bit y n)"
  by (auto simp: covered_def bit_eq_iff bit_simps)

lemma requests_step: "rstep hz calm s t \<Longrightarrow> requests_ok s \<Longrightarrow> requests_ok t"
proof (induction rule: rstep.cases)
  case (Sync s nn pc)
  then show ?case
    by (cases "sync s")
      (auto simp: requests_ok_def reconfig_ops covered_bits bit_simps split: sum.splits if_splits)
qed (auto simp: requests_ok_def reconfig_ops covered_bits bit_simps split: if_splits)


lemma answered_iff_done:
  "register_ok nn \<Longrightarrow> nfp_net_reconfig_check_done nn late \<longleftrightarrow> late \<or> cmd_answered (history nn)"
  by (auto simp: register_ok_def nfp_net_reconfig_check_done_def cmd_answered_def valid_update_def
      valid_answer_def Let_def split: option.splits)

lemma words_init: "words_ok (reconfig_init now)"
  by (simp add: words_ok_def reconfig_init_def register_ok_def valid_answer_def)

lemma words_step: "rstep hz calm s t \<Longrightarrow> words_ok s \<Longrightarrow> words_ok t"
proof (induction rule: rstep.cases)
  case (Sync s nn pc)
  then show ?case
    by (cases "sync s")
      (auto simp: words_ok_def reconfig_ops register_ok_def valid_update_def
        split: sum.splits if_splits option.splits)
qed (auto simp: words_ok_def reconfig_ops register_ok_def valid_update_def
      split: if_splits option.splits)


section \<open>What a wait has seen\<close>

definition wait_ok :: "u64 \<Rightarrow> nfp_net \<Rightarrow> wait_pc \<Rightarrow> bool" where
  "wait_ok hz nn w \<longleftrightarrow>
     deadline w = jiffies nn - of_nat (cmd_ticks (history nn)) + reconfig_timeout hz \<and>
     (timed_out w \<longrightarrow> 5 * unat hz \<le> cmd_ticks (history nn)) \<and>
     (wait_at w = AtReread \<longrightarrow> timed_out w \<or> cmd_answered (history nn))"

definition waits_ok :: "u64 \<Rightarrow> reconfig_system \<Rightarrow> bool" where
  "waits_ok hz s = (case sync s of
       Posted w u \<Rightarrow> wait_ok hz (net s) w
     | Updating w u \<Rightarrow> wait_ok hz (net s) w \<and> (\<exists>a. last_cmd (history (net s)) = Some (u, a))
     | _ \<Rightarrow> True)"

definition idle_cmd :: "u64 \<Rightarrow> cfg_event list \<Rightarrow> bool" where
  "idle_cmd hz l \<longleftrightarrow> cmd_answered l \<or> 5 * unat hz \<le> cmd_ticks l"

definition result_ok :: "u64 \<Rightarrow> u32 \<Rightarrow> int \<Rightarrow> cfg_event list \<Rightarrow> bool" where
  "result_ok hz u r l \<longleftrightarrow>
     (\<exists>a. last_cmd l = Some (u, a) \<and>
       (if r = 0 then a = Some 0
        else r = - EIO \<and> (5 * unat hz \<le> cmd_ticks l \<or> (\<exists>v. a = Some v \<and> v AND NFP_NET_CFG_UPDATE_ERR \<noteq> 0))))"

fun results_ok :: "u64 \<Rightarrow> cfg_event list \<Rightarrow> bool" where
  "results_ok hz [] = True"
| "results_ok hz (Ret u r # l) = (result_ok hz u r l \<and> results_ok hz l)"
| "results_ok hz (_ # l) = results_ok hz l"

lemma wait_ok_new: "wait_ok hz (nfp_net_reconfig_start nn u) (new_wait hz (nfp_net_reconfig_start nn u))"
  by (simp add: wait_ok_def new_wait_def nfp_net_reconfig_start_def seen_def Let_def)

lemma wait_ok_tick:
  "wait_ok hz nn w \<Longrightarrow> wait_ok hz (seen Tick (nn\<lparr>jiffies := jiffies nn + 1\<rparr>)) w"
  by (auto simp: wait_ok_def seen_def cmd_answered_def algebra_simps)

lemma wait_ok_answer:
  "wait_ok hz nn w \<Longrightarrow> wait_ok hz (seen (FwWrite v) (nn\<lparr>cfg_update := x\<rparr>)) w"
  by (auto simp: wait_ok_def seen_def cmd_answered_def split: option.splits)

lemma wait_ok_cong:
  "wait_ok hz nn w \<Longrightarrow> jiffies nn' = jiffies nn \<Longrightarrow>
   last_cmd (history nn') = last_cmd (history nn) \<Longrightarrow>
   cmd_ticks (history nn') = cmd_ticks (history nn) \<Longrightarrow> wait_ok hz nn' w"
  by (simp add: wait_ok_def cmd_answered_def)

lemma wait_ok_step:
  assumes hz: "hz_ok hz" and reg: "register_ok nn" and ok: "wait_ok hz nn (Wait dl late at)"
    and go: "nfp_net_reconfig_wait nn (Wait dl late at) = Inl w'"
  shows "wait_ok hz nn w'"
proof (cases at)
  case AtCheck
  then have "w' = Wait dl late (if late \<or> cmd_answered (history nn) then AtReread else AtSleep)"
    using go by (auto simp: answered_iff_done [OF reg] split: if_splits)
  then show ?thesis
    using ok by (simp add: wait_ok_def)
next
  case AtSleep
  then have w': "w' = Wait dl (time_is_before_eq_jiffies nn dl) AtCheck" using go by simp
  have "5 * unat hz \<le> cmd_ticks (history nn)" if "time_is_before_eq_jiffies nn dl"
    using deadline_reached_ticks [OF hz] that ok by (simp add: wait_ok_def)
  then show ?thesis
    using ok w' by (simp add: wait_ok_def)
next
  case AtReread
  then show ?thesis using go by (simp split: if_splits)
qed

lemma wait_result:
  assumes reg: "register_ok nn" and ok: "wait_ok hz nn w"
    and stop: "nfp_net_reconfig_wait nn w = Inr r" and cmd: "last_cmd (history nn) = Some (u, a)"
  shows "result_ok hz u r (history nn)"
proof -
  obtain dl late where w: "w = Wait dl late AtReread"
    using stop by (cases w; cases "wait_at w") (auto split: if_splits)
  have r: "r = (if cfg_update nn AND NFP_NET_CFG_UPDATE_ERR \<noteq> 0 \<or> late then - EIO else 0)"
    using stop w by (simp split: if_splits)
  have late: "late \<Longrightarrow> 5 * unat hz \<le> cmd_ticks (history nn)"
    and answered: "\<not> late \<Longrightarrow> a \<noteq> None"
    using ok w cmd by (auto simp: wait_ok_def cmd_answered_def split: option.splits)
  have reg: "case a of None \<Rightarrow> cfg_update nn AND NFP_NET_CFG_UPDATE_ERR = 0
      | Some v \<Rightarrow> cfg_update nn = v \<and> valid_answer v"
    using reg cmd by (auto simp: register_ok_def valid_update_def split: option.splits)
  show ?thesis
    using r late answered reg cmd
    by (cases a) (auto simp: result_ok_def valid_answer_def split: if_splits)
qed

lemma wait_result_idle:
  "register_ok nn \<Longrightarrow> wait_ok hz nn w \<Longrightarrow> nfp_net_reconfig_wait nn w = Inr r \<Longrightarrow>
   idle_cmd hz (history nn)"
  by (cases w; cases "wait_at w") (auto simp: wait_ok_def idle_cmd_def split: if_splits)

lemma waits_init: "waits_ok hz (reconfig_init now)"
  by (simp add: waits_ok_def reconfig_init_def)

lemma waits_step:
  assumes hz: "hz_ok hz" and step: "rstep hz calm s t" and flags: "reconfig_flags_ok s"
    and words: "words_ok s" and waits: "waits_ok hz s"
  shows "waits_ok hz t"
  using step
proof cases
  case (Post u)
  have same: "jiffies (net t) = jiffies (net s) \<and> last_cmd (history (net t)) = last_cmd (history (net s)) \<and>
    cmd_ticks (history (net t)) = cmd_ticks (history (net s))" if "sync s \<noteq> Outside"
    using Post flags that by (simp add: reconfig_flags_ok_def reconfig_ops)
  then show ?thesis
    using Post waits wait_ok_cong [of hz "net s" _ "net t"]
    by (cases "sync s") (simp_all add: waits_ok_def)
next
  case (Enter u nn pc)
  then show ?thesis by (auto simp: waits_ok_def reconfig_enter_def Let_def split: if_splits)
next
  case (Sync nn pc)
  have reg: "register_ok (net s)" using words by (simp add: words_ok_def)
  have keep: "wait_ok hz (net s) w'"
    if "wait_ok hz (net s) w" "nfp_net_reconfig_wait (net s) w = Inl w'" for w w'
    using that wait_ok_step [OF hz reg] by (cases w) blast
  have start: "last_cmd (history (nfp_net_reconfig_start nn u)) = Some (u, None)" for nn u
    by (simp add: nfp_net_reconfig_start_def seen_def Let_def)
  show ?thesis
    using Sync waits keep
    by (cases "sync s") (auto simp: waits_ok_def Let_def wait_ok_new start split: sum.splits if_splits)
next
  case Run
  have "sync s \<noteq> Outside \<Longrightarrow> net t = (net s)\<lparr>reconfig_timer_active := False\<rparr>"
    using Run flags by (simp add: reconfig_flags_ok_def nfp_net_reconfig_timer_def Let_def)
  then show ?thesis
    using Run waits by (auto simp: waits_ok_def wait_ok_def split: sync_pc.splits)
next
  case FireRun
  have "sync s \<noteq> Outside \<Longrightarrow>
      net t = (net s)\<lparr>timer_pending := False, reconfig_timer_active := False\<rparr>"
    using FireRun flags by (simp add: reconfig_flags_ok_def nfp_net_reconfig_timer_def Let_def)
  then show ?thesis
    using FireRun waits by (auto simp: waits_ok_def wait_ok_def split: sync_pc.splits)
next
  case (Firmware v)
  then show ?thesis
    using waits by (auto simp: waits_ok_def wait_ok_answer split: sync_pc.splits)
      (simp add: seen_def)
next
  case Clock
  then show ?thesis
    using waits by (auto simp: waits_ok_def wait_ok_tick split: sync_pc.splits)
      (simp add: seen_def)
qed (use waits in \<open>auto simp: waits_ok_def wait_ok_def split: sync_pc.splits\<close>)


section \<open>Results\<close>

lemma results_start: "results_ok hz (history (nfp_net_reconfig_start_async hz' nn u)) \<longleftrightarrow> results_ok hz (history nn)"
  by (simp add: reconfig_ops)

lemma results_step:
  assumes step: "rstep hz calm s t" and words: "words_ok s" and waits: "waits_ok hz s"
    and res: "results_ok hz (history (net s))"
  shows "results_ok hz (history (net t))"
  using step
proof cases
  case (Sync nn pc)
  have "register_ok (net s)" using words by (simp add: words_ok_def)
  then have "result_ok hz u r (history (net s))"
    if "sync s = Updating w u" "nfp_net_reconfig_wait (net s) w = Inr r" for w u r
    using that waits wait_result by (auto simp: waits_ok_def)
  then show ?thesis
    using Sync res
    by (cases "sync s") (auto simp: reconfig_ops split: sum.splits if_splits)
qed (use res in \<open>auto simp: reconfig_ops split: if_splits\<close>)

definition reconfig_inv :: "u64 \<Rightarrow> reconfig_system \<Rightarrow> bool" where
  "reconfig_inv hz s \<longleftrightarrow> reconfig_flags_ok s \<and> requests_ok s \<and> words_ok s \<and> waits_ok hz s \<and>
     results_ok hz (history (net s))"

lemma requests_init: "requests_ok (reconfig_init now)"
  by (simp add: requests_ok_def reconfig_init_def covered_def)

lemma reconfig_invariant:
  "reconfig_reach hz calm s \<Longrightarrow> hz_ok hz \<Longrightarrow> reconfig_inv hz s"
proof (induction rule: reconfig_reach.induct)
  case (Init now)
  then show ?case
    by (simp add: reconfig_inv_def flags_init requests_init words_init waits_init)
      (simp add: reconfig_init_def)
next
  case (Step s t)
  then show ?case
    using flags_step requests_step words_step waits_step results_step
    unfolding reconfig_inv_def by blast
qed

lemma results_ok_split: "results_ok hz (a @ Ret u r # b) \<Longrightarrow> result_ok hz u r b"
  by (induction a rule: results_ok.induct) auto

section \<open>A calm timer\<close>

text \<open>Without a callback between its firing and the lock, the timer that is armed is the one of
  the last command, and a command is written over only when it is answered or too old.\<close>

definition calm_ok :: "u64 \<Rightarrow> reconfig_system \<Rightarrow> bool" where
  "calm_ok hz s \<longleftrightarrow> \<not> timer_running s \<and>
     (timer_pending (net s) \<longleftrightarrow> reconfig_timer_active (net s)) \<and>
     (timer_pending (net s) \<longrightarrow> sync s = Outside \<and> timer_expires (net s) =
        jiffies (net s) - of_nat (cmd_ticks (history (net s))) + reconfig_timeout hz) \<and>
     (case sync s of
        Outside \<Rightarrow> timer_pending (net s) \<or> idle_cmd hz (history (net s))
      | Cancelled w u p \<Rightarrow> wait_ok hz (net s) w
      | Posted w u \<Rightarrow> True
      | Updating w u \<Rightarrow> True
      | _ \<Rightarrow> idle_cmd hz (history (net s)))"

fun well_spaced :: "u64 \<Rightarrow> cfg_event list \<Rightarrow> bool" where
  "well_spaced hz [] = True"
| "well_spaced hz (CfgWrite u # l) = (idle_cmd hz l \<and> well_spaced hz l)"
| "well_spaced hz (_ # l) = well_spaced hz l"

lemma idle_cmd_start:
  "idle_cmd hz (CfgPing # l) \<longleftrightarrow> idle_cmd hz l"
  "idle_cmd hz (Asked u # l) \<longleftrightarrow> idle_cmd hz l"
  "idle_cmd hz (Ret u r # l) \<longleftrightarrow> idle_cmd hz l"
  "idle_cmd hz l \<Longrightarrow> idle_cmd hz (Tick # l)"
  "idle_cmd hz l \<Longrightarrow> idle_cmd hz (FwWrite v # l)"
  by (auto simp: idle_cmd_def cmd_answered_def split: option.splits)

lemma cmd_idle_answered: "cmd_answered l \<Longrightarrow> idle_cmd hz l"
  by (simp add: idle_cmd_def)


definition paced :: "u64 \<Rightarrow> reconfig_system \<Rightarrow> bool" where
  "paced hz s \<longleftrightarrow> calm_ok hz s \<and> well_spaced hz (history (net s))"

lemma expired_idle:
  assumes "hz_ok hz" and "paced hz s" and "timer_pending (net s)"
    and "time_is_before_eq_jiffies (net s) (timer_expires (net s))"
  shows "idle_cmd hz (history (net s))"
  using assms deadline_reached_ticks [OF assms(1), of "net s"]
  by (simp add: paced_def calm_ok_def idle_cmd_def)

lemma paced_post:
  assumes flags: "reconfig_flags_ok s" and words: "words_ok s" and paced: "paced hz s"
  shows "paced hz (s\<lparr>net := nfp_net_reconfig_post hz (seen (Asked u) (net s)) u\<rparr>)"
proof (cases "sync s = Outside")
  case True
  have "register_ok (net s)" using words by (simp add: words_ok_def)
  from answered_iff_done [OF this, of False]
  have "nfp_net_reconfig_check_done (seen (Asked u) (net s)) False \<longleftrightarrow> cmd_answered (history (net s))"
    by (simp add: nfp_net_reconfig_check_done_def seen_def)
  moreover have "idle_cmd hz (history (net s))"
    if "\<not> reconfig_timer_active (net s) \<or> cmd_answered (history (net s))"
    using that paced True by (auto simp: paced_def calm_ok_def cmd_idle_answered)
  ultimately show ?thesis
    using True paced flags
    by (auto simp: paced_def calm_ok_def reconfig_flags_ok_def reconfig_ops idle_cmd_start)
next
  case False
  then have "reconfig_sync_present (net s)" using flags by (simp add: reconfig_flags_ok_def)
  then show ?thesis
    using False paced
    by (auto simp: paced_def calm_ok_def nfp_net_reconfig_post_def seen_def idle_cmd_start wait_ok_def
        cmd_answered_def split: sync_pc.splits)
qed

lemma paced_sync:
  assumes hz: "hz_ok hz" and words: "words_ok s" and waits: "waits_ok hz s" and paced: "paced hz s"
    and sync: "sync s \<noteq> Outside" and go: "nfp_net_reconfig hz (net s) (sync s) = (nn, pc)"
  shows "paced hz (s\<lparr>net := nn, sync := pc\<rparr>)"
proof -
  have reg: "register_ok (net s)" using words by (simp add: words_ok_def)
  have keep: "wait_ok hz (net s) w'"
    if "wait_ok hz (net s) w" "nfp_net_reconfig_wait (net s) w = Inl w'" for w w'
    using that wait_ok_step [OF hz reg] by (cases w) blast
  note idle = wait_result_idle [OF reg]
  have none: "\<not> timer_pending (net s) \<and> \<not> reconfig_timer_active (net s)"
    using paced sync by (auto simp: paced_def calm_ok_def)
  show ?thesis
    using none go paced waits
    by (cases "sync s")
      (auto simp: paced_def calm_ok_def waits_ok_def reconfig_ops idle_cmd_start
        split: sum.splits if_splits dest: keep idle)
qed

lemma paced_timer:
  assumes "hz_ok hz" and "reconfig_flags_ok s" and "paced hz s" and "timer_pending (net s)"
    and "time_is_before_eq_jiffies (net s) (timer_expires (net s))"
  shows "paced hz (s\<lparr>net := nfp_net_reconfig_timer hz ((net s)\<lparr>timer_pending := False\<rparr>)\<rparr>)"
  using assms expired_idle [OF assms(1,3-5)]
  by (auto simp: paced_def calm_ok_def reconfig_flags_ok_def reconfig_ops idle_cmd_start)

lemma paced_step:
  assumes hz: "hz_ok hz" and inv: "reconfig_inv hz s" and step: "rstep hz True s t"
    and paced: "paced hz s"
  shows "paced hz t"
proof -
  from inv have flags: "reconfig_flags_ok s" and words: "words_ok s" and waits: "waits_ok hz s"
    by (auto simp: reconfig_inv_def)
  from step show ?thesis
  proof cases
    case (Post u)
    then show ?thesis using paced_post [OF flags words paced] by simp
  next
    case (Enter u nn pc)
    then show ?thesis
      using paced
      by (auto simp: paced_def calm_ok_def reconfig_ops wait_ok_def split: if_splits)
  next
    case (Sync nn pc)
    then show ?thesis using paced_sync [OF hz words waits paced] by simp
  next
    case Run
    then show ?thesis using paced by (simp add: paced_def calm_ok_def)
  next
    case FireRun
    then show ?thesis using paced_timer [OF hz flags paced] by simp
  next
    case (Firmware v)
    then show ?thesis
      using paced wait_ok_answer [of hz "net s"]
      by (cases "sync s") (auto simp: paced_def calm_ok_def seen_def idle_cmd_start)
  next
    case Clock
    then show ?thesis
      using paced wait_ok_tick [of hz "net s"]
      by (cases "sync s") (auto simp: paced_def calm_ok_def seen_def idle_cmd_start)
  qed simp
qed

lemma paced_reachable: "reconfig_reach hz True s \<Longrightarrow> hz_ok hz \<Longrightarrow> paced hz s"
proof (induction rule: reconfig_reach.induct)
  case (Init now)
  then show ?case
    by (simp add: paced_def calm_ok_def reconfig_init_def idle_cmd_def cmd_answered_def)
next
  case (Step s t)
  then show ?case using paced_step reconfig_invariant by blast
qed


section \<open>The wait ends\<close>

text \<open>The loop against a device it does not own: \<open>e n\<close> is the state of the device at the
  \<open>n\<close>-th access.\<close>

fun wait_run :: "(nat \<Rightarrow> nfp_net) \<Rightarrow> nat \<Rightarrow> nat \<Rightarrow> wait_pc \<Rightarrow> int option" where
  "wait_run e n 0 w = None"
| "wait_run e n (Suc fuel) w =
    (case nfp_net_reconfig_wait (e n) w of
       Inl w' \<Rightarrow> wait_run e (Suc n) fuel w'
     | Inr ret \<Rightarrow> Some ret)"

lemma wait_run_more: "wait_run e n k w = Some r \<Longrightarrow> k \<le> m \<Longrightarrow> wait_run e n m w = Some r"
proof (induction e n k w arbitrary: m rule: wait_run.induct)
  case (2 e n fuel w)
  then show ?case by (cases m) (auto split: sum.splits)
qed simp

lemma late_iff:
  assumes "jiffies nn = of_nat c" and "c < d + 2 ^ 63" and "d < c + 2 ^ 63"
  shows "time_is_before_eq_jiffies nn (of_nat d) \<longleftrightarrow> d \<le> c"
proof -
  have "jiffies nn - of_nat d = (of_int (int c - int d) :: u64)" using assms(1) by simp
  moreover have "sint (of_int (int c - int d) :: u64) = int c - int d"
    using assms(2,3)
    by (simp only: sint_sbintrunc' signed_take_bit_int_eq_self_iff) (auto simp: signed_take_bit_int_eq_self_iff)
  ultimately show ?thesis by (simp add: time_is_before_eq_jiffies_def)
qed

lemma wait_check:
  "\<exists>r. wait_run e n 2 (Wait dl True AtCheck) = Some r"
  by (auto simp: numeral_2_eq_2 nfp_net_reconfig_check_done_def Let_def)

lemma wait_run_round:
  "wait_run e n (Suc (Suc f)) (Wait dl False AtCheck) =
    (if nfp_net_reconfig_check_done (e n) False
     then Some (if cfg_update (e (Suc n)) AND NFP_NET_CFG_UPDATE_ERR \<noteq> 0 then - EIO else 0)
     else wait_run e (n + 2) f (Wait dl (time_is_before_eq_jiffies (e (Suc n)) dl) AtCheck))"
  by simp

lemma wait_returns_from:
  assumes clock: "\<And>i. jiffies (e i) = of_nat (clk i)" and mono: "mono clk"
    and msleep: "\<And>i. clk i < clk (i + 2)"
    and near: "\<And>i. i \<le> n + 2 * k + 1 \<Longrightarrow> clk i < d + 2 ^ 63 \<and> d < clk i + 2 ^ 63"
    and left: "d - clk n \<le> k"
  shows "\<exists>r. wait_run e n (2 * k + 4) (Wait (of_nat d) False AtCheck) = Some r"
  using near left
proof (induction k arbitrary: n)
  case 0
  have "clk n \<le> clk (Suc n)" using mono by (simp add: monoD)
  with 0 have "time_is_before_eq_jiffies (e (Suc n)) (of_nat d)"
    using late_iff [OF clock, of "Suc n" d] by simp
  then show ?case
    using wait_run_round [of e n 2 "of_nat d"] wait_check [of e "n + 2" "of_nat d"]
    by (auto simp: eval_nat_numeral simp del: wait_run.simps)
next
  case (Suc k)
  have fuel: "2 * Suc k + 4 = Suc (Suc (2 * k + 4))" by simp
  show ?case
  proof (cases "time_is_before_eq_jiffies (e (Suc n)) (of_nat d)")
    case True
    obtain r where "wait_run e (n + 2) 2 (Wait (of_nat d) True AtCheck) = Some r"
      using wait_check by blast
    then have "wait_run e (n + 2) (2 * k + 4) (Wait (of_nat d) True AtCheck) = Some r"
      by (rule wait_run_more) simp
    then show ?thesis unfolding fuel wait_run_round using True by auto
  next
    case False
    have "clk n < clk (n + 2)" by (rule msleep)
    with Suc.prems(2) have "d - clk (n + 2) \<le> k" by simp
    moreover have "clk i < d + 2 ^ 63 \<and> d < clk i + 2 ^ 63" if "i \<le> n + 2 + 2 * k + 1" for i
      using Suc.prems(1) that by simp
    ultimately show ?thesis
      unfolding fuel wait_run_round using False Suc.IH [of "n + 2"] by auto
  qed
qed

section \<open>Runs as functions\<close>

text \<open>One step as a function, to evaluate runs.\<close>

datatype action = DoPost u32 | DoEnter u32 | DoSync | DoFire | DoRun | DoFirmware u32 | DoClock

fun act :: "u64 \<Rightarrow> reconfig_system \<Rightarrow> action \<Rightarrow> reconfig_system option" where
  "act hz s (DoPost u) =
    (if valid_update u then Some (s\<lparr>net := nfp_net_reconfig_post hz (seen (Asked u) (net s)) u\<rparr>)
     else None)"
| "act hz s (DoEnter u) =
    (if sync s = Outside \<and> valid_update u
     then Some (s\<lparr>net := fst (reconfig_enter (net s) u), sync := snd (reconfig_enter (net s) u)\<rparr>)
     else None)"
| "act hz s DoSync =
    (if sync s \<noteq> Outside
     then Some (s\<lparr>net := fst (nfp_net_reconfig hz (net s) (sync s)),
                  sync := snd (nfp_net_reconfig hz (net s) (sync s))\<rparr>)
     else None)"
| "act hz s DoFire =
    (if timer_pending (net s) \<and> \<not> timer_running s \<and>
        time_is_before_eq_jiffies (net s) (timer_expires (net s))
     then Some (s\<lparr>net := (net s)\<lparr>timer_pending := False\<rparr>, timer_running := True\<rparr>)
     else None)"
| "act hz s DoRun =
    (if timer_running s
     then Some (s\<lparr>net := nfp_net_reconfig_timer hz (net s), timer_running := False\<rparr>) else None)"
| "act hz s (DoFirmware v) =
    (if valid_answer v then Some (s\<lparr>net := seen (FwWrite v) ((net s)\<lparr>cfg_update := v\<rparr>)\<rparr>)
     else None)"
| "act hz s DoClock =
    Some (s\<lparr>net := seen Tick ((net s)\<lparr>jiffies := jiffies (net s) + 1\<rparr>)\<rparr>)"

fun acts :: "u64 \<Rightarrow> reconfig_system \<Rightarrow> action list \<Rightarrow> reconfig_system option" where
  "acts hz s [] = Some s"
| "acts hz s (a # as) = (case act hz s a of None \<Rightarrow> None | Some t \<Rightarrow> acts hz t as)"

lemma act_rstep: "act hz s a = Some t \<Longrightarrow> rstep hz False s t"
  by (cases a) (auto intro: rstep.intros split: if_splits option.splits)

lemma acts_reach: "acts hz s as = Some t \<Longrightarrow> reconfig_reach hz False s \<Longrightarrow> reconfig_reach hz False t"
proof (induction as arbitrary: s)
  case (Cons a as)
  then obtain u where u: "act hz s a = Some u" "acts hz u as = Some t"
    by (auto split: option.splits)
  then show ?case using Cons.IH [of u] Cons.prems(2) act_rstep reconfig_reach.Step by blast
qed simp

text \<open>The timer of a first command fires; before its callback has the lock, the firmware's answer
  is seen by a poster, who starts a second command, and a third request is posted.\<close>

definition stale_timer_run :: "action list" where
  "stale_timer_run = [DoPost 1, DoClock, DoClock, DoClock, DoClock, DoClock, DoFire,
     DoFirmware 0, DoPost 2, DoPost 4]"

text \<open>The firmware answers while the caller sleeps for the last time.\<close>

definition late_answer_run :: "action list" where
  "late_answer_run = [DoEnter 1, DoSync, DoSync, DoSync, DoClock, DoClock, DoClock, DoClock,
     DoClock, DoFirmware 0, DoSync, DoSync, DoSync]"

lemmas run_simps = nfp_net_reconfig_check_done_def valid_update_def valid_answer_def
  NFP_NET_CFG_UPDATE_ERR_def reconfig_timeout_def NFP_NET_POLL_TIMEOUT_def
  time_is_before_eq_jiffies_def reconfig_init_def reconfig_ops

definition late_history :: "cfg_event list" where
  "late_history = [FwWrite 0, Tick, Tick, Tick, Tick, Tick, CfgPing, CfgWrite 1]"

definition stale_history :: "cfg_event list" where
  "stale_history = [Asked 4, CfgPing, CfgWrite 2, Asked 2, FwWrite 0, Tick, Tick, Tick, Tick, Tick,
     CfgPing, CfgWrite 1, Asked 1]"

lemma stale_timer_runs:
  "\<exists>s. acts 1 (reconfig_init 0) stale_timer_run = Some s \<and> timer_running s \<and>
     reconfig_posted (net s) = 4 \<and> history (net s) = stale_history \<and>
     \<not> reconfig_sync_present (net s)"
  by (simp add: stale_timer_run_def stale_history_def run_simps)

lemma late_answer_runs:
  "\<exists>s. acts 1 (reconfig_init 0) late_answer_run = Some s \<and>
     history (net s) = Ret 1 (- EIO) # late_history"
  by (simp add: late_answer_run_def late_history_def run_simps)

lemma good_runs:
  "\<exists>s. acts 1 (reconfig_init 0) [DoEnter 1, DoSync, DoSync, DoFirmware 0, DoSync, DoSync] = Some s \<and>
     history (net s) = [Ret 1 0, FwWrite 0, CfgPing, CfgWrite 1]"
  by (simp add: run_simps)


lemma acts_run: "acts hz (reconfig_init now) as = Some t \<Longrightarrow> reconfig_reach hz False t"
  using acts_reach reconfig_reach.Init by blast

section \<open>Properties\<close>

lemma reconfig_results_lemma:
  "reconfig_reach hz calm s \<Longrightarrow> hz_ok hz \<Longrightarrow> history (net s) = a @ Ret u r # b \<Longrightarrow> result_ok hz u r b"
  using reconfig_invariant results_ok_split unfolding reconfig_inv_def by metis

lemma quiet_nothing_outstanding:
  assumes "reconfig_inv hz s" and "sync s = Outside" and "\<not> timer_pending (net s)"
    and "\<not> timer_running s"
  shows "outstanding (history (net s)) = 0"
proof -
  have "reconfig_posted (net s) = 0" and "pre_posted (sync s) = 0"
    using assms by (auto simp: reconfig_inv_def reconfig_flags_ok_def)
  then show ?thesis using assms(1) by (simp add: reconfig_inv_def requests_ok_def covered_def)
qed

lemma well_spaced_split: "well_spaced hz (a @ CfgWrite u # b) \<Longrightarrow> idle_cmd hz b"
  by (induction a rule: well_spaced.induct) auto

text \<open>What the firmware last put into the register in a part of the history.\<close>

fun fw_last :: "cfg_event list \<Rightarrow> u32 option" where
  "fw_last [] = None"
| "fw_last (FwWrite v # l) = Some v"
| "fw_last (_ # l) = fw_last l"

lemma last_cmd_split:
  "last_cmd b = Some (u, a) \<Longrightarrow>
     \<exists>l c. b = l @ CfgWrite u # c \<and> (\<forall>w. CfgWrite w \<notin> set l) \<and> fw_last l = a \<and> count_list l Tick = cmd_ticks b"
proof (induction b arbitrary: a)
  case (Cons e b)
  show ?case
  proof (cases "\<exists>w. e = CfgWrite w")
    case True
    then show ?thesis using Cons.prems by (intro exI [of _ "[]"] exI [of _ b]) auto
  next
    case False
    then obtain a' where a': "last_cmd b = Some (u, a')" using Cons.prems by (cases e) auto
    from Cons.IH [OF this] obtain l c where lc: "b = l @ CfgWrite u # c" "\<forall>w. CfgWrite w \<notin> set l"
      "fw_last l = a'" "count_list l Tick = cmd_ticks b" by blast
    moreover have "fw_last (e # l) = a \<and> count_list (e # l) Tick = cmd_ticks (e # b)"
      using False Cons.prems a' lc(3,4) by (cases e) auto
    ultimately show ?thesis using False by (intro exI [of _ "e # l"] exI [of _ c]) auto
  qed
qed simp

lemma calm_commands_spaced:
  "reconfig_reach hz True s \<Longrightarrow> hz_ok hz \<Longrightarrow> history (net s) = a @ CfgWrite u # b \<Longrightarrow>
     cmd_answered b \<or> 5 * unat hz \<le> cmd_ticks b"
  using paced_reachable [of hz s] well_spaced_split [of hz a u b] unfolding paced_def idle_cmd_def by metis

text \<open>
  Claim C37. The result of a synchronous reconfiguration, in every interleaving of posters, timer, firmware
  and clock, in terms of the update register. The last command the driver wrote before the return is the update of this very
  call (\<open>l\<close> is what happened since). \<open>0\<close> is returned only when the firmware has cleared the register after that write and not
  changed it again; any other result is \<open>-EIO\<close>, and then the firmware has last set the error bit since that write, or
  the timeout of \<open>5 * HZ\<close> ticks has passed since it. Whether the firmware cleared the register for this update, or late for
  an older command that timed out, the register does not tell, and nothing is claimed of it. When no one takes the lock between the firing of the timer
  and its callback (\<open>calm\<close>), every command up to the return, this update and the posted requests it took over included, was written only after
  the command before it had been acknowledged or its timeout had passed; in other runs a command can be written over
  (\<open>reconfig_stale_timer_overwrites\<close>).
\<close>

theorem reconfig_results:
  assumes "reconfig_reach hz calm s" and "hz_ok hz" and "history (net s) = a @ Ret u r # b"
  shows "(\<exists>l c. b = l @ CfgWrite u # c \<and> (\<forall>w. CfgWrite w \<notin> set l) \<and>
      (if r = 0 then fw_last l = Some 0
       else r = - EIO \<and> (5 * unat hz \<le> count_list l Tick \<or>
         (\<exists>v. fw_last l = Some v \<and> v AND NFP_NET_CFG_UPDATE_ERR \<noteq> 0)))) \<and>
    (calm \<longrightarrow> (\<forall>x w y. b = x @ CfgWrite w # y \<longrightarrow> cmd_answered y \<or> 5 * unat hz \<le> cmd_ticks y))"
proof (intro conjI impI allI)
  from reconfig_results_lemma [OF assms] obtain f where f: "last_cmd b = Some (u, f)"
    and r: "if r = 0 then f = Some 0
      else r = - EIO \<and> (5 * unat hz \<le> cmd_ticks b \<or> (\<exists>v. f = Some v \<and> v AND NFP_NET_CFG_UPDATE_ERR \<noteq> 0))"
    by (auto simp: result_ok_def)
  from last_cmd_split [OF f] r show "\<exists>l c. b = l @ CfgWrite u # c \<and> (\<forall>w. CfgWrite w \<notin> set l) \<and>
      (if r = 0 then fw_last l = Some 0
       else r = - EIO \<and> (5 * unat hz \<le> count_list l Tick \<or>
         (\<exists>v. fw_last l = Some v \<and> v AND NFP_NET_CFG_UPDATE_ERR \<noteq> 0)))"
    by metis
next
  fix x w y
  assume "calm" "b = x @ CfgWrite w # y"
  then show "cmd_answered y \<or> 5 * unat hz \<le> cmd_ticks y"
    using calm_commands_spaced [of hz s "a @ Ret u r # x" w y] assms by simp
qed

text \<open>A caller that is answered, and one whose answer comes while it sleeps for the last time.\<close>

lemma reconfig_results_witness:
  "(\<exists>l c. [FwWrite 0, CfgPing, CfgWrite 1] = l @ CfgWrite 1 # c \<and> fw_last l = Some 0) \<and>
   (\<exists>l c. late_history = l @ CfgWrite 1 # c \<and> 5 \<le> count_list l Tick)"
proof -
  obtain s where run: "acts 1 (reconfig_init 0)
      [DoEnter 1, DoSync, DoSync, DoFirmware 0, DoSync, DoSync] = Some s"
    and h: "history (net s) = [] @ Ret 1 0 # [FwWrite 0, CfgPing, CfgWrite 1]"
    using good_runs by auto
  obtain t where run': "acts 1 (reconfig_init 0) late_answer_run = Some t"
    and h': "history (net t) = [] @ Ret 1 (- EIO) # late_history"
    using late_answer_runs by auto
  have "\<exists>l c. late_history = l @ CfgWrite 1 # c \<and> (5 \<le> count_list l Tick \<or> (\<exists>v. fw_last l = Some v \<and> v AND NFP_NET_CFG_UPDATE_ERR \<noteq> 0))"
    using reconfig_results [OF acts_run [OF run'] _ h'] by (auto simp: hz_ok_def)
  then have "\<exists>l c. late_history = l @ CfgWrite 1 # c \<and> 5 \<le> count_list l Tick"
    by (auto simp: late_history_def append_eq_Cons_conv Cons_eq_append_conv)
  then show ?thesis
    using reconfig_results [OF acts_run [OF run] _ h] by (auto simp: hz_ok_def)
qed

text \<open>
  Claim C38. No request is lost: in every reachable state, each bit requested by a poster and not yet
  contained in a command written to the firmware is in \<open>reconfig_posted\<close> or in the requests a
  synchronous caller has taken over; and when no caller is inside and no timer is armed or
  running, nothing is outstanding.
\<close>

theorem reconfig_no_request_lost:
  assumes "reconfig_reach hz calm s" and "hz_ok hz"
  shows "covered (outstanding (history (net s))) (reconfig_posted (net s) OR pre_posted (sync s)) \<and>
    (sync s = Outside \<and> \<not> timer_pending (net s) \<and> \<not> timer_running s \<longrightarrow>
       outstanding (history (net s)) = 0)"
  using reconfig_invariant [OF assms] quiet_nothing_outstanding
  by (auto simp: reconfig_inv_def requests_ok_def)

lemma reconfig_no_request_lost_witness: "covered 4 4"
proof -
  obtain s where run: "acts 1 (reconfig_init 0) stale_timer_run = Some s"
    and s: "reconfig_posted (net s) = 4" "history (net s) = stale_history" "sync s = Outside"
    using stale_timer_runs reconfig_invariant [OF acts_run, of 1 0 stale_timer_run]
    by (auto simp: hz_ok_def reconfig_inv_def reconfig_flags_ok_def)
  show ?thesis
    using reconfig_no_request_lost [OF acts_run [OF run]] s
    by (simp add: hz_ok_def stale_history_def)
qed

text \<open>
  When no one takes the lock between the firing of the timer and its callback, a command is written
  only when the command before it has been answered by the firmware or has reached its timeout.
\<close>

theorem reconfig_calm_commands_answered:
  assumes "reconfig_reach hz True s" and "hz_ok hz" and "history (net s) = a @ CfgWrite u # b"
  shows "cmd_answered b \<or> 5 * unat hz \<le> cmd_ticks b"
  using calm_commands_spaced [OF assms] .

lemma reconfig_calm_commands_answered_witness: "cmd_answered [Asked 1] \<or> 5 \<le> cmd_ticks [Asked 1]"
proof -
  have step: "rstep 1 True (reconfig_init 0) ((reconfig_init 0)\<lparr>net :=
      nfp_net_reconfig_post 1 (seen (Asked 1) (net (reconfig_init 0))) 1\<rparr>)" (is "rstep _ _ _ ?t")
    by (rule rstep.Post) (simp add: valid_update_def NFP_NET_CFG_UPDATE_ERR_def)
  have h: "history (net ?t) = [CfgPing] @ CfgWrite 1 # [Asked 1]"
    by (simp add: run_simps)
  have "reconfig_reach 1 True ?t" using reconfig_reach.Init step by (rule reconfig_reach.Step)
  from reconfig_calm_commands_answered [OF this _ h] show ?thesis by (simp add: hz_ok_def)
qed

text \<open>
  Claim C39. A callback that has fired and waits for \<open>reconfig_lock\<close> while a poster sees the old command
  answered and starts a new one takes the new command for its own: it is written over at once,
  unanswered and without a tick of its timeout.
\<close>

theorem reconfig_stale_timer_overwrites:
  "\<exists>s t b. reconfig_reach 1 False s \<and> timer_running s \<and> rstep 1 False s t \<and>
     last_cmd (history (net s)) = Some (2, None) \<and> cmd_ticks (history (net s)) = 0 \<and>
     history (net t) = CfgPing # CfgWrite 4 # history (net s)"
proof -
  obtain s where run: "acts 1 (reconfig_init 0) stale_timer_run = Some s"
    and s: "timer_running s" "reconfig_posted (net s) = 4" "history (net s) = stale_history"
      "\<not> reconfig_sync_present (net s)"
    using stale_timer_runs by blast
  let ?t = "s\<lparr>net := nfp_net_reconfig_timer 1 (net s), timer_running := False\<rparr>"
  have "rstep 1 False s ?t" using s(1) by (rule rstep.Run)
  moreover have "history (net ?t) = CfgPing # CfgWrite 4 # history (net s)"
    using s by (simp add: reconfig_ops)
  ultimately show ?thesis
    using acts_run [OF run] s by (intro exI [of _ s] exI [of _ ?t]) (simp add: stale_history_def)
qed

text \<open>
  A firmware that answers while the caller sleeps for the last time is reported as an error:
  the call returns \<open>-EIO\<close> although its update was acknowledged and the register read as 0.
\<close>

theorem reconfig_late_answer_is_eio:
  "\<exists>s b. reconfig_reach 1 False s \<and> history (net s) = Ret 1 (- EIO) # b \<and>
     last_cmd b = Some (1, Some 0) \<and> cfg_update (net s) = 0"
proof -
  obtain s where run: "acts 1 (reconfig_init 0) late_answer_run = Some s"
    and h: "history (net s) = Ret 1 (- EIO) # late_history"
    using late_answer_runs by blast
  have "register_ok (net s)"
    using reconfig_invariant [OF acts_run [OF run]] by (simp add: hz_ok_def reconfig_inv_def words_ok_def)
  then have "cfg_update (net s) = 0" using h by (simp add: register_ok_def late_history_def)
  then show ?thesis using acts_run [OF run] h
    by (intro exI [of _ s] exI [of _ late_history]) (simp add: late_history_def)
qed

text \<open>
  Claim C40. The wait returns, whatever the firmware does: if every \<open>msleep\<close> takes at least one tick of the
  clock, at most \<open>5 * HZ\<close> rounds are made (two accesses each) before a last check and a last
  read.
\<close>

theorem reconfig_wait_returns:
  assumes "\<And>i. jiffies (e i) = of_nat (clk i)" and "mono clk" and "\<And>i. clk i < clk (i + 2)"
    and "hz_ok hz" and "clk (10 * unat hz + 1) < clk 0 + 5 * unat hz + 2 ^ 63"
  shows "\<exists>r. wait_run e 0 (10 * unat hz + 4) (new_wait hz (e 0)) = Some r"
proof -
  let ?d = "clk 0 + 5 * unat hz"
  have near: "clk i < ?d + 2 ^ 63 \<and> ?d < clk i + 2 ^ 63" if "i \<le> 0 + 2 * (5 * unat hz) + 1" for i
  proof -
    have "clk i \<le> clk (10 * unat hz + 1)" and "clk 0 \<le> clk i"
      using that assms(2) by (auto intro: monoD)
    then show ?thesis using assms(4,5) by (auto simp: hz_ok_def)
  qed
  have "reconfig_timeout hz = of_nat (unat (reconfig_timeout hz))" by simp
  then have "new_wait hz (e 0) = Wait (of_nat ?d) False AtCheck"
    using reconfig_timeout_nat [OF assms(4)] assms(1) [of 0] by (simp add: new_wait_def)
  moreover have "\<exists>r. wait_run e 0 (2 * (5 * unat hz) + 4) (Wait (of_nat ?d) False AtCheck) = Some r"
    by (rule wait_returns_from [where e = e and clk = clk, OF assms(1-3) near]) auto
  ultimately show ?thesis by (simp del: of_nat_add of_nat_mult)
qed

lemma reconfig_wait_returns_witness:
  "\<exists>r. wait_run (\<lambda>i. (net (reconfig_init 0))\<lparr>jiffies := of_nat i, cfg_update := 1\<rparr>) 0 14
     (new_wait 1 (net (reconfig_init 0))) = Some r"
  using reconfig_wait_returns
      [of "\<lambda>i. (net (reconfig_init 0))\<lparr>jiffies := of_nat i, cfg_update := 1\<rparr>" "\<lambda>i. i" 1]
  by (simp add: mono_def hz_ok_def new_wait_def reconfig_init_def)

end
