(* ===== verification/Net_Tx.thy ===== *)
theory Net_Tx
  imports Nfp_Prelude "HOL-Library.Multiset"
begin

text \<open>
  The transmit ring of the network driver (\<open>nfp_net_common.c\<close>, \<open>nfp_net.h\<close>): the ring arithmetic
  and the queue's stop and wake thresholds, the offload fields of a descriptor, \<open>nfp_net_tx\<close> with
  its error paths, the completion of transmitted buffers and the reset of the ring.

  A packet is a record of what the driver reads of an \<open>sk_buff\<close>; \<open>skb_id\<close> stands for its address.
  The arrays \<open>txbufs\<close> and \<open>txds\<close> are functions of the index, always masked to the ring size.
  What the driver asks of the kernel and the device (mappings, frees, writes to the queue
  pointer, byte accounting) is appended to \<open>tx_log\<close>. The answers of the DMA layer, the checks of the
  stack and the read pointer of the device are parameters.
\<close>

section \<open>Data\<close>

definition MAX_SKB_FRAGS :: nat where
  "MAX_SKB_FRAGS = 17"

definition PCIE_DESC_TX_EOP :: u8 where "PCIE_DESC_TX_EOP = 0x80"
definition PCIE_DESC_TX_MSS_MASK :: u16 where "PCIE_DESC_TX_MSS_MASK = 0x3fff"
definition PCIE_DESC_TX_CSUM :: u8 where "PCIE_DESC_TX_CSUM = 0x80"
definition PCIE_DESC_TX_IP4_CSUM :: u8 where "PCIE_DESC_TX_IP4_CSUM = 0x40"
definition PCIE_DESC_TX_TCP_CSUM :: u8 where "PCIE_DESC_TX_TCP_CSUM = 0x20"
definition PCIE_DESC_TX_UDP_CSUM :: u8 where "PCIE_DESC_TX_UDP_CSUM = 0x10"
definition PCIE_DESC_TX_VLAN :: u8 where "PCIE_DESC_TX_VLAN = 0x08"
definition PCIE_DESC_TX_LSO :: u8 where "PCIE_DESC_TX_LSO = 0x04"
definition PCIE_DESC_TX_ENCAP :: u8 where "PCIE_DESC_TX_ENCAP = 0x02"

definition NFP_NET_CFG_CTRL_TXCSUM :: u32 where "NFP_NET_CFG_CTRL_TXCSUM = 0x20"
definition NFP_NET_CFG_CTRL_TXVLAN :: u32 where "NFP_NET_CFG_CTRL_TXVLAN = 0x80"

text \<open>The fields of an IP header the driver looks at: the version nibble, and the byte that is the
  protocol of IPv4 and the byte that is the next header of IPv6.\<close>

record ip_hdr =
  ip_version :: u8
  ip_protocol :: u8
  ip6_nexthdr :: u8

record sk_buff =
  skb_id :: nat
  skb_len :: u32
  skb_headlen :: u32
  skb_frags :: "u32 list"
  skb_is_gso :: bool
  skb_gso_segs :: u16
  skb_gso_size :: u16
  skb_encapsulation :: bool
  skb_network_offset :: u32
  skb_transport_offset :: u32
  skb_tcp_hdrlen :: u32
  skb_inner_network_offset :: u32
  skb_inner_transport_offset :: u32
  skb_inner_tcp_hdrlen :: u32
  skb_csum_partial :: bool
  skb_ip :: ip_hdr
  skb_inner_ip :: ip_hdr
  skb_vlan_tag :: "u16 option"
  skb_port_mux :: "u32 option"
  skb_xmit_more :: bool

definition nr_frags :: "sk_buff \<Rightarrow> nat" where
  "nr_frags skb = length (skb_frags skb)"

record nfp_net_tx_desc =
  td_dma_addr_hi :: u8
  td_dma_len :: u16
  td_offset_eop :: u8
  td_dma_addr_lo :: u32
  td_mss :: u16
  td_lso_hdrlen :: u8
  td_flags :: u8
  td_l3_offset :: u8
  td_l4_offset :: u8
  td_data_len :: u16

record nfp_net_tx_buf =
  tb_skb :: "sk_buff option"
  tb_dma_addr :: u64
  tb_fidx :: int
  tb_pkt_cnt :: u16
  tb_real_len :: u32

record nfp_net_tx_ring =
  tr_cnt :: u32
  tr_wr_p :: u32
  tr_rd_p :: u32
  tr_qcp_rd_p :: u32
  tr_wr_ptr_add :: u32
  tr_txbufs :: "nat \<Rightarrow> nfp_net_tx_buf"
  tr_txds :: "nat \<Rightarrow> nfp_net_tx_desc"

text \<open>The counters of \<open>struct nfp_net_r_vector\<close>.\<close>

record tx_stats =
  tx_pkts :: u64
  tx_bytes :: u64
  tx_gather :: u64
  tx_lso :: u64
  hw_csum_tx :: u64
  hw_csum_tx_inner :: u64
  tx_busy :: u64
  tx_errors :: u64

datatype tx_event =
    MapSingle u64 u32
  | UnmapSingle u64 u32
  | MapPage u64 u32
  | UnmapPage u64 u32
  | KfreeSkb nat
  | ConsumeSkb nat
  | QcpWrAdd u32
  | SentQueue u32
  | CompletedQueue u32 u32
  | ResetQueue

record tx_path =
  ring :: nfp_net_tx_ring
  stats :: tx_stats
  stopped :: bool
  tx_log :: "tx_event list"

section \<open>Ring arithmetic\<close>

definition D_IDX :: "nfp_net_tx_ring \<Rightarrow> u32 \<Rightarrow> u32" where
  "D_IDX r idx = idx AND (tr_cnt r - 1)"

definition nfp_net_tx_full :: "nfp_net_tx_ring \<Rightarrow> u32 \<Rightarrow> bool" where
  "nfp_net_tx_full r dcnt \<longleftrightarrow> tr_cnt r - dcnt \<le> tr_wr_p r - tr_rd_p r"

definition nfp_net_tx_ring_should_wake :: "nfp_net_tx_ring \<Rightarrow> bool" where
  "nfp_net_tx_ring_should_wake r \<longleftrightarrow> \<not> nfp_net_tx_full r (of_nat (MAX_SKB_FRAGS * 4))"

definition nfp_net_tx_ring_should_stop :: "nfp_net_tx_ring \<Rightarrow> bool" where
  "nfp_net_tx_ring_should_stop r \<longleftrightarrow> nfp_net_tx_full r (of_nat (MAX_SKB_FRAGS + 1))"

definition NFP_QCP_MAX_ADD :: u32 where
  "NFP_QCP_MAX_ADD = 0x3f"

text \<open>\<open>_nfp_qcp_ptr_add\<close>: the values written, one after the other.\<close>

function nfp_qcp_ptr_add :: "u32 \<Rightarrow> u32 list" where
  "nfp_qcp_ptr_add val =
    (if val > NFP_QCP_MAX_ADD then NFP_QCP_MAX_ADD # nfp_qcp_ptr_add (val - NFP_QCP_MAX_ADD)
     else [val])"
  by pat_completeness auto
termination
  by (relation "measure unat") (auto simp: NFP_QCP_MAX_ADD_def unat_sub_if' word_less_nat_alt)

declare nfp_qcp_ptr_add.simps [simp del]

definition logged :: "tx_event list \<Rightarrow> tx_path \<Rightarrow> tx_path" where
  "logged es p = p\<lparr>tx_log := tx_log p @ es\<rparr>"

definition nfp_net_tx_xmit_more_flush :: "tx_path \<Rightarrow> tx_path" where
  "nfp_net_tx_xmit_more_flush p =
    (let p = logged (map QcpWrAdd (nfp_qcp_ptr_add (tr_wr_ptr_add (ring p)))) p
     in p\<lparr>ring := (ring p)\<lparr>tr_wr_ptr_add := 0\<rparr>\<rparr>)"

definition nfp_net_tx_ring_stop :: "tx_path \<Rightarrow> tx_path" where
  "nfp_net_tx_ring_stop p =
    (let p = p\<lparr>stopped := True\<rparr> in
     if nfp_net_tx_ring_should_wake (ring p) then p\<lparr>stopped := False\<rparr> else p)"

section \<open>Offload fields\<close>

definition nfp_net_tx_tso ::
    "sk_buff \<Rightarrow> tx_stats \<times> nfp_net_tx_buf \<times> nfp_net_tx_desc
      \<Rightarrow> tx_stats \<times> nfp_net_tx_buf \<times> nfp_net_tx_desc" where
  "nfp_net_tx_tso skb = (\<lambda>(st, txbuf, txd).
    if \<not> skb_is_gso skb then (st, txbuf, txd)
    else
      let (txd, hdrlen) =
            (if \<not> skb_encapsulation skb
             then (txd\<lparr>td_l3_offset := ucast (skb_network_offset skb),
                       td_l4_offset := ucast (skb_transport_offset skb)\<rparr>,
                   skb_transport_offset skb + skb_tcp_hdrlen skb)
             else (txd\<lparr>td_l3_offset := ucast (skb_inner_network_offset skb),
                       td_l4_offset := ucast (skb_inner_transport_offset skb)\<rparr>,
                   skb_inner_transport_offset skb + skb_inner_tcp_hdrlen skb));
          txbuf = txbuf\<lparr>tb_pkt_cnt := skb_gso_segs skb\<rparr>;
          txbuf = txbuf\<lparr>tb_real_len := tb_real_len txbuf + hdrlen * (ucast (tb_pkt_cnt txbuf) - 1)\<rparr>;
          mss = skb_gso_size skb AND PCIE_DESC_TX_MSS_MASK;
          txd = txd\<lparr>td_lso_hdrlen := ucast hdrlen, td_mss := mss,
                    td_flags := td_flags txd OR PCIE_DESC_TX_LSO\<rparr>
      in (st\<lparr>tx_lso := tx_lso st + 1\<rparr>, txbuf, txd))"

definition nfp_net_tx_csum ::
    "u32 \<Rightarrow> sk_buff \<Rightarrow> tx_stats \<times> nfp_net_tx_buf \<times> nfp_net_tx_desc
      \<Rightarrow> tx_stats \<times> nfp_net_tx_buf \<times> nfp_net_tx_desc" where
  "nfp_net_tx_csum ctrl skb = (\<lambda>(st, txbuf, txd).
    if ctrl AND NFP_NET_CFG_CTRL_TXCSUM = 0 then (st, txbuf, txd)
    else if \<not> skb_csum_partial skb then (st, txbuf, txd)
    else
      let txd = txd\<lparr>td_flags := td_flags txd OR PCIE_DESC_TX_CSUM\<rparr>;
          txd = (if skb_encapsulation skb
                 then txd\<lparr>td_flags := td_flags txd OR PCIE_DESC_TX_ENCAP\<rparr> else txd);
          iph = (if skb_encapsulation skb then skb_inner_ip skb else skb_ip skb);
          counted = (if skb_encapsulation skb
                     then st\<lparr>hw_csum_tx_inner := hw_csum_tx_inner st + ucast (tb_pkt_cnt txbuf)\<rparr>
                     else st\<lparr>hw_csum_tx := hw_csum_tx st + ucast (tb_pkt_cnt txbuf)\<rparr>);
          finish = (\<lambda>l4_hdr txd.
            if l4_hdr = 6
            then (counted, txbuf, txd\<lparr>td_flags := td_flags txd OR PCIE_DESC_TX_TCP_CSUM\<rparr>)
            else if l4_hdr = 17
            then (counted, txbuf, txd\<lparr>td_flags := td_flags txd OR PCIE_DESC_TX_UDP_CSUM\<rparr>)
            else (st, txbuf, txd))
      in if ip_version iph = 4
         then finish (ip_protocol iph) (txd\<lparr>td_flags := td_flags txd OR PCIE_DESC_TX_IP4_CSUM\<rparr>)
         else if ip_version iph = 6 then finish (ip6_nexthdr iph) txd
         else (st, txbuf, txd))"

text \<open>\<open>vlan\<close> is a union with the two header offsets, low byte first.\<close>

definition set_vlan :: "u16 \<Rightarrow> nfp_net_tx_desc \<Rightarrow> nfp_net_tx_desc" where
  "set_vlan tag txd = txd\<lparr>td_l3_offset := ucast tag, td_l4_offset := ucast (drop_bit 8 tag)\<rparr>"

definition nfp_desc_set_dma_addr :: "u64 \<Rightarrow> nfp_net_tx_desc \<Rightarrow> nfp_net_tx_desc" where
  "nfp_desc_set_dma_addr a txd =
    txd\<lparr>td_dma_addr_lo := ucast a, td_dma_addr_hi := ucast (drop_bit 32 a)\<rparr>"

section \<open>Transmit\<close>

text \<open>What a call of \<open>nfp_net_tx\<close> depends on besides packet and ring: the control word, the
  outcome of \<open>skb_cow_head\<close> and of the features check, the mappings of the head (\<open>0\<close>) and of the
  fragments (from \<open>1\<close>), and whether byte accounting has stopped the queue.\<close>

record tx_env =
  te_ctrl :: u32
  te_cow_fails :: bool
  te_features_drop :: bool
  te_dma :: "nat \<Rightarrow> u64 option"
  te_bql_stopped :: bool

datatype netdev_tx = NETDEV_TX_OK | NETDEV_TX_BUSY

text \<open>\<open>skb_push\<close> moves the start of the data: the lengths and the offsets from it grow.\<close>

definition skb_push :: "u32 \<Rightarrow> sk_buff \<Rightarrow> sk_buff" where
  "skb_push n skb = skb\<lparr>skb_len := skb_len skb + n, skb_headlen := skb_headlen skb + n,
     skb_network_offset := skb_network_offset skb + n,
     skb_transport_offset := skb_transport_offset skb + n,
     skb_inner_network_offset := skb_inner_network_offset skb + n,
     skb_inner_transport_offset := skb_inner_transport_offset skb + n\<rparr>"

definition nfp_net_prep_port_id :: "tx_env \<Rightarrow> sk_buff \<Rightarrow> (sk_buff \<times> u8) res" where
  "nfp_net_prep_port_id env skb =
    (case skb_port_mux skb of
       None \<Rightarrow> Inr (skb, 0)
     | Some port_id \<Rightarrow>
         if te_cow_fails env then Inl (- ENOMEM) else Inr (skb_push 8 skb, 8))"

definition set_buf :: "u32 \<Rightarrow> nfp_net_tx_buf \<Rightarrow> nfp_net_tx_ring \<Rightarrow> nfp_net_tx_ring" where
  "set_buf i b r = r\<lparr>tr_txbufs := (tr_txbufs r)(unat i := b)\<rparr>"

definition set_desc :: "u32 \<Rightarrow> nfp_net_tx_desc \<Rightarrow> nfp_net_tx_ring \<Rightarrow> nfp_net_tx_ring" where
  "set_desc i d r = r\<lparr>tr_txds := (tr_txds r)(unat i := d)\<rparr>"

definition clear_buf :: "u32 \<Rightarrow> nfp_net_tx_ring \<Rightarrow> nfp_net_tx_ring" where
  "clear_buf i r =
    set_buf i ((tr_txbufs r (unat i))\<lparr>tb_skb := None, tb_dma_addr := 0, tb_fidx := -2\<rparr>) r"

text \<open>The loop over the fragments. \<open>Inl\<close> is a mapping that fails: the index of the fragment and the
  last slot written.\<close>

fun tx_gather_frags ::
    "tx_env \<Rightarrow> sk_buff \<Rightarrow> nfp_net_tx_desc \<Rightarrow> nat \<Rightarrow> u32 list \<Rightarrow> u32 \<Rightarrow> tx_path
      \<Rightarrow> (nat \<times> u32) option \<times> tx_path" where
  "tx_gather_frags env skb txdg f [] wr_idx p = (None, p)"
| "tx_gather_frags env skb txdg f (fsize # frags) wr_idx p =
    (case te_dma env (Suc f) of
       None \<Rightarrow> (Some (f, wr_idx), p)
     | Some dma_addr \<Rightarrow>
         let p = logged [MapPage dma_addr fsize] p;
             wr_idx = D_IDX (ring p) (wr_idx + 1);
             b = (tr_txbufs (ring p) (unat wr_idx))
                   \<lparr>tb_skb := Some skb, tb_dma_addr := dma_addr, tb_fidx := int f\<rparr>;
             txd = nfp_desc_set_dma_addr dma_addr (txdg\<lparr>td_dma_len := ucast fsize\<rparr>);
             txd = txd\<lparr>td_offset_eop := td_offset_eop txd OR
                       (if int f = int (nr_frags skb) - 1 then PCIE_DESC_TX_EOP else 0)\<rparr>
         in tx_gather_frags env skb txdg (Suc f) frags wr_idx
              (p\<lparr>ring := set_desc wr_idx txd (set_buf wr_idx b (ring p))\<rparr>))"

text \<open>\<open>err_unmap\<close>: the slots written so far are undone from the last one back to the head.\<close>

fun tx_err_unmap :: "sk_buff \<Rightarrow> nat \<Rightarrow> u32 \<Rightarrow> tx_path \<Rightarrow> tx_path" where
  "tx_err_unmap skb 0 wr_idx p =
    (let p = logged [UnmapSingle (tb_dma_addr (tr_txbufs (ring p) (unat wr_idx))) (skb_headlen skb)] p
     in p\<lparr>ring := clear_buf wr_idx (ring p)\<rparr>)"
| "tx_err_unmap skb (Suc f) wr_idx p =
    (let p = logged [UnmapPage (tb_dma_addr (tr_txbufs (ring p) (unat wr_idx)))
                       (skb_frags skb ! f)] p;
         p = p\<lparr>ring := clear_buf wr_idx (ring p)\<rparr>;
         wr_idx' = (if wr_idx = 0 then tr_cnt (ring p) - 1 else wr_idx - 1)
     in tx_err_unmap skb f wr_idx' p)"

definition tx_err_free :: "sk_buff \<Rightarrow> tx_path \<Rightarrow> netdev_tx \<times> tx_path" where
  "tx_err_free skb p =
    (let p = nfp_net_tx_xmit_more_flush p;
         p = p\<lparr>stats := (stats p)\<lparr>tx_errors := tx_errors (stats p) + 1\<rparr>\<rparr>
     in (NETDEV_TX_OK, logged [KfreeSkb (skb_id skb)] p))"

text \<open>The descriptor and the software buffer of the head.\<close>

definition tx_head ::
    "tx_env \<Rightarrow> sk_buff \<Rightarrow> u8 \<Rightarrow> u64 \<Rightarrow> nfp_net_tx_desc \<Rightarrow> tx_stats
      \<Rightarrow> tx_stats \<times> nfp_net_tx_buf \<times> nfp_net_tx_desc" where
  "tx_head env skb md_bytes dma_addr old st =
    (let txbuf = \<lparr>tb_skb = Some skb, tb_dma_addr = dma_addr, tb_fidx = -1, tb_pkt_cnt = 1,
                  tb_real_len = skb_len skb\<rparr>;
         txd = old\<lparr>td_offset_eop := (if nr_frags skb \<noteq> 0 then 0 else PCIE_DESC_TX_EOP) OR md_bytes,
                   td_dma_len := ucast (skb_headlen skb)\<rparr>;
         txd = nfp_desc_set_dma_addr dma_addr txd;
         txd = txd\<lparr>td_data_len := ucast (skb_len skb), td_flags := 0, td_mss := 0,
                   td_lso_hdrlen := 0\<rparr>;
         (st, txbuf, txd) = nfp_net_tx_tso skb (st, txbuf, txd);
         (st, txbuf, txd) = nfp_net_tx_csum (te_ctrl env) skb (st, txbuf, txd);
         txd = (case skb_vlan_tag skb of
                  Some tag \<Rightarrow> if te_ctrl env AND NFP_NET_CFG_CTRL_TXVLAN \<noteq> 0
                    then set_vlan tag (txd\<lparr>td_flags := td_flags txd OR PCIE_DESC_TX_VLAN\<rparr>) else txd
                | None \<Rightarrow> txd)
     in (st, txbuf, txd))"

text \<open>The end of a transmission that mapped everything: the pointers move, the queue may stop, the
  device is told.\<close>

definition tx_commit :: "tx_env \<Rightarrow> sk_buff \<Rightarrow> u32 \<Rightarrow> tx_path \<Rightarrow> tx_path" where
  "tx_commit env skb real_len p =
    (let n = of_nat (nr_frags skb + 1);
         p = logged [SentQueue real_len] p;
         p = p\<lparr>ring := (ring p)\<lparr>tr_wr_p := tr_wr_p (ring p) + n\<rparr>\<rparr>;
         p = (if nfp_net_tx_ring_should_stop (ring p) then nfp_net_tx_ring_stop p else p);
         p = p\<lparr>ring := (ring p)\<lparr>tr_wr_ptr_add := tr_wr_ptr_add (ring p) + n\<rparr>\<rparr>
     in if \<not> skb_xmit_more skb \<or> (stopped p \<or> te_bql_stopped env)
        then nfp_net_tx_xmit_more_flush p else p)"

text \<open>From the mapping of the head on.\<close>

definition tx_map_and_queue :: "tx_env \<Rightarrow> sk_buff \<Rightarrow> u8 \<Rightarrow> tx_path \<Rightarrow> netdev_tx \<times> tx_path" where
  "tx_map_and_queue env skb md_bytes p =
    (case te_dma env 0 of
       None \<Rightarrow> tx_err_free skb p
     | Some dma_addr \<Rightarrow>
         let p = logged [MapSingle dma_addr (skb_headlen skb)] p;
             wr_idx = D_IDX (ring p) (tr_wr_p (ring p));
             (st, txbuf, txd) =
               tx_head env skb md_bytes dma_addr (tr_txds (ring p) (unat wr_idx)) (stats p);
             p = p\<lparr>stats := st, ring := set_desc wr_idx txd (set_buf wr_idx txbuf (ring p))\<rparr>
         in case tx_gather_frags env skb txd 0 (skb_frags skb) wr_idx p of
              (Some (f, wr_idx), p) \<Rightarrow> tx_err_free skb (tx_err_unmap skb f wr_idx p)
            | (None, p) \<Rightarrow>
                let p = (if nr_frags skb > 0
                         then p\<lparr>stats := (stats p)\<lparr>tx_gather := tx_gather (stats p) + 1\<rparr>\<rparr> else p)
                in (NETDEV_TX_OK, tx_commit env skb (tb_real_len txbuf) p))"

definition nfp_net_tx :: "tx_env \<Rightarrow> sk_buff \<Rightarrow> tx_path \<Rightarrow> netdev_tx \<times> tx_path" where
  "nfp_net_tx env skb p =
    (if nfp_net_tx_full (ring p) (of_nat (nr_frags skb + 1))
     then (let p = nfp_net_tx_xmit_more_flush (p\<lparr>stopped := True\<rparr>)
           in (NETDEV_TX_BUSY, p\<lparr>stats := (stats p)\<lparr>tx_busy := tx_busy (stats p) + 1\<rparr>\<rparr>))
     else case nfp_net_prep_port_id env skb of
       Inl _ \<Rightarrow> (NETDEV_TX_OK, logged [KfreeSkb (skb_id skb)] (nfp_net_tx_xmit_more_flush p))
     | Inr (skb, md_bytes) \<Rightarrow>
       if te_features_drop env
       then (NETDEV_TX_OK, logged [KfreeSkb (skb_id skb)] (nfp_net_tx_xmit_more_flush p))
       else tx_map_and_queue env skb md_bytes p)"

section \<open>Completion\<close>

text \<open>One round of the loop of \<open>nfp_net_tx_complete\<close>: the slot at \<open>rd_p\<close>, with the packets and
  bytes counted so far.\<close>

definition tx_complete_one :: "tx_path \<times> u32 \<times> u32 \<Rightarrow> tx_path \<times> u32 \<times> u32" where
  "tx_complete_one = (\<lambda>(p, done_pkts, done_bytes).
    let idx = D_IDX (ring p) (tr_rd_p (ring p));
        p = p\<lparr>ring := (ring p)\<lparr>tr_rd_p := tr_rd_p (ring p) + 1\<rparr>\<rparr>;
        b = tr_txbufs (ring p) (unat idx)
    in case tb_skb b of
         None \<Rightarrow> (p, done_pkts, done_bytes)
       | Some skb \<Rightarrow>
         let (p, done_pkts, done_bytes) =
               (if tb_fidx b = -1
                then (logged [UnmapSingle (tb_dma_addr b) (skb_headlen skb)] p,
                      done_pkts + ucast (tb_pkt_cnt b), done_bytes + tb_real_len b)
                else (logged [UnmapPage (tb_dma_addr b) (skb_frags skb ! nat (tb_fidx b))] p,
                      done_pkts, done_bytes));
             p = (if tb_fidx b = int (nr_frags skb) - 1 then logged [ConsumeSkb (skb_id skb)] p else p)
         in (p\<lparr>ring := clear_buf idx (ring p)\<rparr>, done_pkts, done_bytes))"

definition nfp_net_tx_complete :: "bool \<Rightarrow> u32 \<Rightarrow> tx_path \<Rightarrow> tx_path" where
  "nfp_net_tx_complete has_netdev qcp_rd_p p =
    (if tr_wr_p (ring p) = tr_rd_p (ring p) then p
     else if qcp_rd_p = tr_qcp_rd_p (ring p) then p
     else
       let todo = D_IDX (ring p) (qcp_rd_p - tr_qcp_rd_p (ring p));
           (p, done_pkts, done_bytes) = (tx_complete_one ^^ unat todo) (p, 0, 0);
           p = p\<lparr>ring := (ring p)\<lparr>tr_qcp_rd_p := qcp_rd_p\<rparr>\<rparr>;
           p = p\<lparr>stats := (stats p)\<lparr>tx_bytes := tx_bytes (stats p) + ucast done_bytes,
                                   tx_pkts := tx_pkts (stats p) + ucast done_pkts\<rparr>\<rparr>
       in if \<not> has_netdev then p
          else
            let p = logged [CompletedQueue done_pkts done_bytes] p
            in if nfp_net_tx_ring_should_wake (ring p) \<and> stopped p then p\<lparr>stopped := False\<rparr> else p)"

text \<open>The loop of \<open>nfp_net_tx_ring_reset\<close> makes one round per slot between the pointers;
  \<open>None\<close> is a slot without a packet, whose fragments the code would read through a null pointer.\<close>

definition tx_reset_one :: "tx_path \<Rightarrow> tx_path option" where
  "tx_reset_one p =
    (let idx = D_IDX (ring p) (tr_rd_p (ring p));
         b = tr_txbufs (ring p) (unat idx)
     in case tb_skb b of
          None \<Rightarrow> None
        | Some skb \<Rightarrow>
            let p = (if tb_fidx b = -1
                     then logged [UnmapSingle (tb_dma_addr b) (skb_headlen skb)] p
                     else logged [UnmapPage (tb_dma_addr b) (skb_frags skb ! nat (tb_fidx b))] p);
                p = (if tb_fidx b = int (nr_frags skb) - 1 then logged [KfreeSkb (skb_id skb)] p else p);
                p = p\<lparr>ring := clear_buf idx (ring p)\<rparr>
            in Some (p\<lparr>ring := (ring p)\<lparr>tr_qcp_rd_p := tr_qcp_rd_p (ring p) + 1,
                                      tr_rd_p := tr_rd_p (ring p) + 1\<rparr>\<rparr>))"

fun tx_reset_loop :: "nat \<Rightarrow> tx_path \<Rightarrow> tx_path option" where
  "tx_reset_loop 0 p = Some p"
| "tx_reset_loop (Suc n) p =
    (case tx_reset_one p of None \<Rightarrow> None | Some p \<Rightarrow> tx_reset_loop n p)"

definition tx_desc_zero :: nfp_net_tx_desc where
  "tx_desc_zero = \<lparr>td_dma_addr_hi = 0, td_dma_len = 0, td_offset_eop = 0, td_dma_addr_lo = 0,
     td_mss = 0, td_lso_hdrlen = 0, td_flags = 0, td_l3_offset = 0, td_l4_offset = 0,
     td_data_len = 0\<rparr>"

definition nfp_net_tx_ring_reset :: "bool \<Rightarrow> tx_path \<Rightarrow> tx_path option" where
  "nfp_net_tx_ring_reset has_netdev p =
    (case tx_reset_loop (unat (tr_wr_p (ring p) - tr_rd_p (ring p))) p of
       None \<Rightarrow> None
     | Some p \<Rightarrow>
    let r = ring p;
         p = p\<lparr>ring := r\<lparr>tr_txds := (\<lambda>i. if i < unat (tr_cnt r) then tx_desc_zero else tr_txds r i),
                        tr_wr_p := 0, tr_rd_p := 0, tr_qcp_rd_p := 0, tr_wr_ptr_add := 0\<rparr>\<rparr>
    in Some (if has_netdev then logged [ResetQueue] p else p))"

section \<open>The ring as a list\<close>

definition ring_ok :: "nfp_net_tx_ring \<Rightarrow> bool" where
  "ring_ok r \<longleftrightarrow> (\<exists>k. 8 \<le> k \<and> k \<le> 18 \<and> unat (tr_cnt r) = 2 ^ k) \<and>
     unat (tr_wr_p r - tr_rd_p r) < unat (tr_cnt r)"

definition used :: "nfp_net_tx_ring \<Rightarrow> nat" where
  "used r = unat (tr_wr_p r - tr_rd_p r)"

text \<open>What a slot says: packet, fragment and mapping.\<close>

type_synonym tx_slot = "sk_buff option \<times> int \<times> u64"

definition slot_at :: "nfp_net_tx_ring \<Rightarrow> u32 \<Rightarrow> tx_slot" where
  "slot_at r i = (let b = tr_txbufs r (unat (D_IDX r i)) in (tb_skb b, tb_fidx b, tb_dma_addr b))"

definition slots :: "nfp_net_tx_ring \<Rightarrow> tx_slot list" where
  "slots r = map (\<lambda>k. slot_at r (tr_rd_p r + of_nat k)) [0..<used r]"

text \<open>The slots of one packet.\<close>

definition pkt_slots :: "sk_buff \<Rightarrow> u64 list \<Rightarrow> tx_slot list" where
  "pkt_slots skb addrs = map (\<lambda>i. (Some skb, int i - 1, addrs ! i)) [0..<Suc (nr_frags skb)]"

lemma cnt_facts:
  assumes "ring_ok r"
  obtains k where "k < 32" "unat (tr_cnt r) = 2 ^ k" "tr_cnt r - 1 = mask k"
    "256 \<le> unat (tr_cnt r)" "unat (tr_cnt r) \<le> 2 ^ 18"
proof -
  from assms obtain k where k: "8 \<le> k" "k \<le> 18" and c: "unat (tr_cnt r) = 2 ^ k"
    by (auto simp: ring_ok_def)
  have "(2 :: nat) ^ 8 \<le> 2 ^ k" and "(2 :: nat) ^ k \<le> 2 ^ 18"
    using k power_increasing [of 8 k "2 :: nat"] power_increasing [of k 18 "2 :: nat"] by simp_all
  moreover have "tr_cnt r = of_nat (2 ^ k)" by (simp flip: c)
  then have "tr_cnt r - 1 = mask k" by (simp add: mask_eq_exp_minus_1)
  ultimately show ?thesis using k c by (intro that [of k]) auto
qed

lemma D_IDX_mod:
  assumes "ring_ok r" shows "unat (D_IDX r i) = unat i mod unat (tr_cnt r)"
proof -
  obtain k where "k < 32" "unat (tr_cnt r) = 2 ^ k" "tr_cnt r - 1 = mask k"
    using assms by (rule cnt_facts)
  moreover have "unat (i AND mask k) = take_bit k (unat i)"
    by (simp only: unsigned_take_bit_eq flip: take_bit_eq_mask)
  ultimately show ?thesis by (simp add: D_IDX_def take_bit_eq_mod)
qed

lemma cnt_dvd:
  assumes "ring_ok r" shows "unat (tr_cnt r) dvd 2 ^ 32"
proof -
  obtain k where "k < 32" "unat (tr_cnt r) = 2 ^ k" using assms by (rule cnt_facts)
  then show ?thesis using le_imp_power_dvd [of k 32 "2 :: nat"] by simp
qed

lemma D_IDX_add:
  assumes "ring_ok r" shows "unat (D_IDX r (a + of_nat i)) = (unat a + i) mod unat (tr_cnt r)"
proof -
  have "unat (a + of_nat i) = (unat a + i) mod 2 ^ 32"
    by (simp add: unat_word_ariths unat_of_nat mod_simps)
  then show ?thesis
    using cnt_dvd [OF assms] by (simp add: D_IDX_mod [OF assms] mod_mod_cancel)
qed

text \<open>The indices depend on the size of the ring only.\<close>

lemma D_IDX_cong: "tr_cnt r' = tr_cnt r \<Longrightarrow> D_IDX r' i = D_IDX r i"
  by (simp add: D_IDX_def)

lemma D_IDX_step:
  assumes "ring_ok r"
  shows "D_IDX r (D_IDX r (a + of_nat i) + 1) = D_IDX r (a + of_nat (Suc i))"
proof -
  have "unat (D_IDX r (D_IDX r (a + of_nat i) + of_nat 1)) = (unat a + Suc i) mod unat (tr_cnt r)"
    using D_IDX_add [OF assms, of "D_IDX r (a + of_nat i)" 1] D_IDX_add [OF assms, of a i]
    by (simp add: mod_simps)
  also have "\<dots> = unat (D_IDX r (a + of_nat (Suc i)))" using D_IDX_add [OF assms, of a "Suc i"] by simp
  finally show ?thesis by (simp add: word_unat_eq_iff)
qed

lemma D_IDX_back:
  assumes "ring_ok r"
  shows "(if D_IDX r (a + of_nat (Suc i)) = 0 then tr_cnt r - 1 else D_IDX r (a + of_nat (Suc i)) - 1)
    = D_IDX r (a + of_nat i)"
proof -
  obtain k where c: "unat (tr_cnt r) = 2 ^ k" "256 \<le> unat (tr_cnt r)" using assms by (rule cnt_facts)
  let ?c = "unat (tr_cnt r)" and ?d = "D_IDX r (a + of_nat (Suc i))"
  have d: "unat ?d = Suc (unat a + i) mod ?c" and e: "unat (D_IDX r (a + of_nat i)) = (unat a + i) mod ?c"
    using D_IDX_add [OF assms, of a "Suc i"] D_IDX_add [OF assms, of a i] by simp_all
  show ?thesis
  proof (cases "?d = 0")
    case True
    then have "Suc (unat a + i) mod ?c = 0" using d by simp
    then have "(unat a + i) mod ?c = ?c - 1" by (auto simp: mod_Suc split: if_splits)
    moreover have "unat (tr_cnt r - 1) = ?c - 1" using c by (simp add: unat_sub_if')
    ultimately have "unat (D_IDX r (a + of_nat i)) = unat (tr_cnt r - 1)" using e by simp
    then show ?thesis using True by (simp add: word_unat_eq_iff)
  next
    case False
    then have "unat ?d \<noteq> 0" by (simp add: unat_eq_zero)
    then have "unat ?d = Suc ((unat a + i) mod ?c)" using d by (auto simp: mod_Suc split: if_splits)
    moreover have "unat (?d - 1) = unat ?d - 1" using \<open>unat ?d \<noteq> 0\<close> by (simp add: unat_sub_if' )
    ultimately have "unat (?d - 1) = unat (D_IDX r (a + of_nat i))" using e by simp
    then show ?thesis using False by (simp add: word_unat_eq_iff)
  qed
qed

section \<open>Slots by position\<close>

definition view :: "nfp_net_tx_ring \<Rightarrow> nat \<Rightarrow> tx_slot" where
  "view r j = (let b = tr_txbufs r j in (tb_skb b, tb_fidx b, tb_dma_addr b))"

definition pos :: "nfp_net_tx_ring \<Rightarrow> u32 \<Rightarrow> nat \<Rightarrow> nat" where
  "pos r a i = (unat a + i) mod unat (tr_cnt r)"

lemma slots_view: "ring_ok r \<Longrightarrow> slots r = map (\<lambda>k. view r (pos r (tr_rd_p r) k)) [0..<used r]"
  by (simp add: slots_def slot_at_def view_def pos_def D_IDX_add Let_def)

lemma pos_inj_le:
  assumes "pos r a i = pos r a j" and "i \<le> j" and "j < i + unat (tr_cnt r)"
  shows "i = j"
proof -
  have "unat (tr_cnt r) dvd (unat a + j) - (unat a + i)"
    using assms(1,2) mod_eq_dvd_iff_nat [of "unat a + i" "unat a + j" "unat (tr_cnt r)"]
    unfolding pos_def by simp
  then have "unat (tr_cnt r) dvd j - i" by simp
  then have "j - i = 0" using assms(3) dvd_imp_le [of "unat (tr_cnt r)" "j - i"] by fastforce
  then show ?thesis using assms(2) by simp
qed

lemma pos_inj:
  "pos r a i = pos r a j \<Longrightarrow> i < j + unat (tr_cnt r) \<Longrightarrow> j < i + unat (tr_cnt r) \<Longrightarrow> i = j"
  using pos_inj_le [of r a i j] pos_inj_le [of r a j i] by (cases "i \<le> j") auto

lemma view_set_buf: "view (set_buf i b r) = (view r)(unat i := (tb_skb b, tb_fidx b, tb_dma_addr b))"
  by (auto simp: view_def set_buf_def Let_def)

lemma view_set_desc [simp]: "view (set_desc i d r) = view r"
  by (auto simp: view_def set_desc_def fun_eq_iff)

lemma view_clear_buf: "view (clear_buf i r) = (view r)(unat i := (None, -2, 0))"
  by (simp add: clear_buf_def view_set_buf)


definition ring_shape :: "nfp_net_tx_ring \<Rightarrow> u32 \<times> u32 \<times> u32 \<times> u32 \<times> u32" where
  "ring_shape r = (tr_cnt r, tr_wr_p r, tr_rd_p r, tr_qcp_rd_p r, tr_wr_ptr_add r)"

lemma ring_shape_set [simp]:
  "ring_shape (set_buf i b r) = ring_shape r" "ring_shape (set_desc i d r) = ring_shape r" "ring_shape (clear_buf i r) = ring_shape r"
  by (simp_all add: ring_shape_def set_buf_def set_desc_def clear_buf_def)

lemma shape_eqs:
  assumes "ring_shape r' = ring_shape r"
  shows "ring_ok r' = ring_ok r" "D_IDX r' i = D_IDX r i" "pos r' a k = pos r a k" "used r' = used r"
    "tr_cnt r' = tr_cnt r" "tr_wr_p r' = tr_wr_p r" "tr_rd_p r' = tr_rd_p r"
    "tr_qcp_rd_p r' = tr_qcp_rd_p r" "tr_wr_ptr_add r' = tr_wr_ptr_add r"
  using assms by (simp_all add: ring_shape_def ring_ok_def D_IDX_def pos_def used_def)

lemma unat_D_IDX: "ring_ok r \<Longrightarrow> unat (D_IDX r (a + of_nat i)) = pos r a i"
  by (simp add: D_IDX_add pos_def)

primrec write_slots :: "(nat \<times> tx_slot) list \<Rightarrow> (nat \<Rightarrow> tx_slot) \<Rightarrow> (nat \<Rightarrow> tx_slot)" where
  "write_slots [] v = v"
| "write_slots (w # ws) v = write_slots ws (v(fst w := snd w))"

lemma write_slots_other: "k \<notin> fst ` set ws \<Longrightarrow> write_slots ws v k = v k"
  by (induction ws arbitrary: v) auto

lemma write_slots_append: "write_slots (a @ b) v = write_slots b (write_slots a v)"
  by (induction a arbitrary: v) auto

lemma write_slots_at: "distinct (map fst ws) \<Longrightarrow> (j, s) \<in> set ws \<Longrightarrow> write_slots ws v j = s"
proof (induction ws arbitrary: v)
  case (Cons w ws)
  then show ?case
    by (cases "(j, s) = w") (auto simp: write_slots_other fun_upd_same simp del: fun_upd_apply)
qed simp

section \<open>The fragment loop and its undoing\<close>

text \<open>The first fragment whose mapping fails, from \<open>f\<close> on.\<close>

fun first_fail :: "tx_env \<Rightarrow> nat \<Rightarrow> nat \<Rightarrow> nat" where
  "first_fail env f 0 = f"
| "first_fail env f (Suc n) =
    (case te_dma env (Suc f) of None \<Rightarrow> f | Some _ \<Rightarrow> first_fail env (Suc f) n)"

lemma first_fail_bounds: "f \<le> first_fail env f n \<and> first_fail env f n \<le> f + n"
proof (induction n arbitrary: f)
  case (Suc n)
  then show ?case using Suc.IH [of "Suc f"] by (auto split: option.splits dest: Suc_leD)
qed simp

lemma first_fail_mapped: "i < first_fail env f n \<Longrightarrow> f \<le> i \<Longrightarrow> te_dma env (Suc i) \<noteq> None"
proof (induction n arbitrary: f)
  case (Suc n)
  then show ?case by (cases "i = f") (auto split: option.splits)
qed simp

definition frag_slot :: "tx_env \<Rightarrow> sk_buff \<Rightarrow> nat \<Rightarrow> tx_slot" where
  "frag_slot env skb i = (Some skb, int i, the (te_dma env (Suc i)))"

definition frag_map :: "tx_env \<Rightarrow> sk_buff \<Rightarrow> nat \<Rightarrow> tx_event" where
  "frag_map env skb i = MapPage (the (te_dma env (Suc i))) (skb_frags skb ! i)"

definition frag_unmap :: "tx_env \<Rightarrow> sk_buff \<Rightarrow> nat \<Rightarrow> tx_event" where
  "frag_unmap env skb i = UnmapPage (the (te_dma env (Suc i))) (skb_frags skb ! i)"

lemma logged_simps [simp]:
  "ring (logged es p) = ring p" "stats (logged es p) = stats p" "stopped (logged es p) = stopped p"
  "tx_log (logged es p) = tx_log p @ es"
  by (simp_all add: logged_def)

lemma tx_gather_effect:
  assumes "ring_ok (ring p)" and "frags = drop f (skb_frags skb)" and "f \<le> nr_frags skb"
    and "m = first_fail env f (length frags)"
    and "tx_gather_frags env skb txdg f frags (D_IDX (ring p) (a + of_nat f)) p = (res, p')"
  shows "res = (if m = nr_frags skb then None else Some (m, D_IDX (ring p) (a + of_nat m))) \<and>
    tx_log p' = tx_log p @ map (frag_map env skb) [f..<m] \<and>
    ring_shape (ring p') = ring_shape (ring p) \<and> stats p' = stats p \<and> stopped p' = stopped p \<and>
    view (ring p') =
      write_slots (map (\<lambda>i. (pos (ring p) a (Suc i), frag_slot env skb i)) [f..<m]) (view (ring p))"
  using assms
proof (induction frags arbitrary: f p)
  case Nil
  then show ?case by (simp add: nr_frags_def)
next
  case (Cons fsize frags)
  have f: "f < nr_frags skb" and size: "skb_frags skb ! f = fsize"
    and frags: "frags = drop (Suc f) (skb_frags skb)"
    using Cons.prems(2) 
    by (auto simp: nr_frags_def) (metis drop_eq_Nil list.distinct(1) not_less, metis nth_via_drop,
      metis drop_Suc list.sel(3) tl_drop)
  note ok = Cons.prems(1)
  show ?case
  proof (cases "te_dma env (Suc f)")
    case None
    then have "m = f" and "res = Some (f, D_IDX (ring p) (a + of_nat f))" and "p' = p"
      using Cons.prems(4,5) by auto
    then show ?thesis using f by simp
  next
    case (Some addr)
    let ?w = "D_IDX (ring p) (a + of_nat (Suc f))"
    define b where "b = (tr_txbufs (ring p) (unat ?w))
      \<lparr>tb_skb := Some skb, tb_dma_addr := addr, tb_fidx := int f\<rparr>"
    obtain txd where step: "tx_gather_frags env skb txdg (Suc f) frags ?w
        ((logged [MapPage addr fsize] p)\<lparr>ring := set_desc ?w txd (set_buf ?w b (ring p))\<rparr>) = (res, p')"
      using Cons.prems(5) Some D_IDX_step [OF ok, of a f]
      by (simp add: Let_def b_def del: of_nat_Suc)
    define p2 where "p2 =
      (logged [MapPage addr fsize] p)\<lparr>ring := set_desc ?w txd (set_buf ?w b (ring p))\<rparr>"
    have ring_shape: "ring_shape (ring p2) = ring_shape (ring p)" and p2: "tx_log p2 = tx_log p @ [frag_map env skb f]"
      "stats p2 = stats p" "stopped p2 = stopped p"
      using Some size by (simp_all add: p2_def frag_map_def)
    have view: "view (ring p2) = (view (ring p))(pos (ring p) a (Suc f) := frag_slot env skb f)"
      using Some unat_D_IDX [OF ok, of a "Suc f"]
      by (simp add: p2_def view_set_buf b_def frag_slot_def del: of_nat_Suc)
    have m: "m = first_fail env (Suc f) (length frags)" using Cons.prems(4) Some by simp
    then have upt: "[f..<m] = f # [Suc f..<m]"
      using first_fail_bounds [of "Suc f" env "length frags"] by (simp add: upt_conv_Cons)
    have "ring_ok (ring p2)" using ok shape_eqs(1) [OF ring_shape] by simp
    moreover have "tx_gather_frags env skb txdg (Suc f) frags (D_IDX (ring p2) (a + of_nat (Suc f))) p2 = (res, p')"
      using step shape_eqs(2) [OF ring_shape] by (simp add: p2_def del: of_nat_Suc)
    ultimately show ?thesis
      using Cons.IH [of p2 "Suc f", OF _ frags _ m] f
      by (auto simp: shape_eqs [OF ring_shape] ring_shape p2 view upt simp del: fun_upd_apply)
  qed
qed


definition slot_dma :: "tx_slot \<Rightarrow> u64" where
  "slot_dma s = snd (snd s)"

definition free_slot :: tx_slot where
  "free_slot = (None, -2, 0)"

lemma dma_view: "tb_dma_addr (tr_txbufs r j) = slot_dma (view r j)"
  by (simp add: slot_dma_def view_def Let_def)

lemma tr_cnt_clear_buf [simp]: "tr_cnt (clear_buf i r) = tr_cnt r"
  by (simp add: clear_buf_def set_buf_def)

lemma tx_err_unmap_Suc:
  assumes "ring_ok (ring p)"
  shows "tx_err_unmap skb (Suc f) (D_IDX (ring p) (a + of_nat (Suc f))) p =
    tx_err_unmap skb f (D_IDX (ring p) (a + of_nat f))
      ((logged [UnmapPage (slot_dma (view (ring p) (pos (ring p) a (Suc f)))) (skb_frags skb ! f)] p)
        \<lparr>ring := clear_buf (D_IDX (ring p) (a + of_nat (Suc f))) (ring p)\<rparr>)"
  using D_IDX_back [OF assms, of a f]
  by (auto simp: Let_def dma_view unat_D_IDX [OF assms] simp del: of_nat_Suc split: if_splits)

lemma tx_err_unmap_effect:
  assumes "ring_ok (ring p)" and "f < unat (tr_cnt (ring p))"
    and "p' = tx_err_unmap skb f (D_IDX (ring p) (a + of_nat f)) p"
  shows "tx_log p' = tx_log p @
      map (\<lambda>i. UnmapPage (slot_dma (view (ring p) (pos (ring p) a (Suc i)))) (skb_frags skb ! i)) (rev [0..<f]) @
      [UnmapSingle (slot_dma (view (ring p) (pos (ring p) a 0))) (skb_headlen skb)] \<and>
    ring_shape (ring p') = ring_shape (ring p) \<and> stats p' = stats p \<and> stopped p' = stopped p \<and>
    view (ring p') =
      write_slots (map (\<lambda>i. (pos (ring p) a i, free_slot)) (rev [0..<Suc f])) (view (ring p))"
  using assms
proof (induction f arbitrary: p)
  case 0
  then show ?case
    using unat_D_IDX [of "ring p" a 0]
    by (simp add: dma_view view_clear_buf free_slot_def)
next
  case (Suc f)
  let ?w = "D_IDX (ring p) (a + of_nat (Suc f))" and ?j = "pos (ring p) a (Suc f)"
  note w = unat_D_IDX [OF Suc.prems(1), of a "Suc f"]
  define p2 where "p2 = (logged [UnmapPage (slot_dma (view (ring p) ?j)) (skb_frags skb ! f)] p)
    \<lparr>ring := clear_buf ?w (ring p)\<rparr>"
  have ring_shape: "ring_shape (ring p2) = ring_shape (ring p)" and p2: "stats p2 = stats p" "stopped p2 = stopped p"
    "tx_log p2 = tx_log p @ [UnmapPage (slot_dma (view (ring p) ?j)) (skb_frags skb ! f)]"
    by (simp_all add: p2_def)
  have view: "view (ring p2) = (view (ring p))(?j := free_slot)"
    using w by (simp add: p2_def view_clear_buf free_slot_def del: of_nat_Suc)
  have other: "view (ring p2) (pos (ring p) a i) = view (ring p) (pos (ring p) a i)" if "i \<le> f" for i
  proof -
    have "pos (ring p) a i \<noteq> ?j" using pos_inj [of "ring p" a i "Suc f"] that Suc.prems(2) by auto
    then show ?thesis by (simp add: view)
  qed
  have "p' = tx_err_unmap skb f (D_IDX (ring p2) (a + of_nat f)) p2"
    using Suc.prems(3) unfolding tx_err_unmap_Suc [OF Suc.prems(1)] shape_eqs(2) [OF ring_shape]
    unfolding p2_def .
  moreover have "ring_ok (ring p2)" using Suc.prems(1) shape_eqs(1) [OF ring_shape] by simp
  ultimately have IH: "tx_log p' = tx_log p2 @
      map (\<lambda>i. UnmapPage (slot_dma (view (ring p2) (pos (ring p2) a (Suc i)))) (skb_frags skb ! i)) (rev [0..<f]) @
      [UnmapSingle (slot_dma (view (ring p2) (pos (ring p2) a 0))) (skb_headlen skb)] \<and>
    ring_shape (ring p') = ring_shape (ring p2) \<and> stats p' = stats p2 \<and> stopped p' = stopped p2 \<and>
    view (ring p') =
      write_slots (map (\<lambda>i. (pos (ring p2) a i, free_slot)) (rev [0..<Suc f])) (view (ring p2))"
    using Suc.IH [of p2] Suc.prems(2) shape_eqs(5) [OF ring_shape] by simp
  have unmaps: "map (\<lambda>i. UnmapPage (slot_dma (view (ring p2) (pos (ring p) a (Suc i)))) (skb_frags skb ! i)) (rev [0..<f])
     = map (\<lambda>i. UnmapPage (slot_dma (view (ring p) (pos (ring p) a (Suc i)))) (skb_frags skb ! i)) (rev [0..<f])"
    by (rule map_cong) (auto simp: other simp del: view_def)
  note IH = IH [unfolded shape_eqs(3) [OF ring_shape] p2 unmaps other [OF le0]]
  have upt: "rev [0..<Suc (Suc f)] = Suc f # rev [0..<Suc f]" "rev [0..<Suc f] = f # rev [0..<f]"
    by simp_all
  show ?case
    using IH ring_shape unfolding view upt(1) by (simp add: upt(2) del: fun_upd_apply)
qed


section \<open>Pointers\<close>

lemma used_less: "ring_ok r \<Longrightarrow> used r < unat (tr_cnt r)"
  by (simp add: ring_ok_def used_def)

lemma tx_full_iff:
  assumes "ring_ok r" and "n \<le> unat (tr_cnt r)"
  shows "nfp_net_tx_full r (of_nat n) \<longleftrightarrow> unat (tr_cnt r) \<le> used r + n"
proof -
  have "n < 2 ^ 32" using assms by (auto elim!: cnt_facts)
  then have "unat (of_nat n :: u32) = n" by (simp add: unat_of_nat take_bit_nat_eq_self)
  then have "unat (tr_cnt r - of_nat n) = unat (tr_cnt r) - n" using assms(2) by (simp add: unat_sub_if')
  then show ?thesis by (auto simp: nfp_net_tx_full_def used_def word_le_nat_alt)
qed

lemma pos_wr:
  assumes "ring_ok r" shows "pos r (tr_wr_p r) i = pos r (tr_rd_p r) (used r + i)"
proof -
  have "tr_wr_p r + of_nat i = tr_rd_p r + of_nat (used r + i)"
    by (simp add: used_def)
  then have "unat (D_IDX r (tr_wr_p r + of_nat i)) = unat (D_IDX r (tr_rd_p r + of_nat (used r + i)))"
    by (simp only:)
  then show ?thesis by (simp only: unat_D_IDX [OF assms])
qed

lemma pos_wr_free:
  assumes "ring_ok r" and "k < used r" and "used r + i < unat (tr_cnt r)"
  shows "pos r (tr_rd_p r) k \<noteq> pos r (tr_wr_p r) i"
  using assms pos_inj [of r "tr_rd_p r" k "used r + i"] by (auto simp: pos_wr)

lemma slots_keep:
  assumes "ring_ok r" and "ring_shape r' = ring_shape r"
    and "\<And>k. k < used r \<Longrightarrow> view r' (pos r (tr_rd_p r) k) = view r (pos r (tr_rd_p r) k)"
  shows "slots r' = slots r"
  using assms by (auto simp: slots_view shape_eqs [OF assms(2)])

definition pkt_slot :: "sk_buff \<Rightarrow> u64 list \<Rightarrow> nat \<Rightarrow> tx_slot" where
  "pkt_slot skb addrs i = (Some skb, int i - 1, addrs ! i)"

lemma pkt_slots_map: "pkt_slots skb addrs = map (pkt_slot skb addrs) [0..<Suc (nr_frags skb)]"
  by (simp add: pkt_slots_def pkt_slot_def)

text \<open>Writing the slots of a packet behind the write pointer and moving it appends the packet.\<close>

lemma slots_append:
  assumes ok: "ring_ok r" and room: "used r + n < unat (tr_cnt r)"
    and r': "tr_cnt r' = tr_cnt r" "tr_rd_p r' = tr_rd_p r" "tr_wr_p r' = tr_wr_p r + of_nat n"
    and view: "view r' = write_slots (map (\<lambda>i. (pos r (tr_wr_p r) i, f i)) [0..<n]) (view r)"
  shows "ring_ok r' \<and> used r' = used r + n \<and> slots r' = slots r @ map f [0..<n]"
proof -
  have small: "used r + n < 2 ^ 32" using room ok by (auto elim!: cnt_facts)
  have "tr_wr_p r' - tr_rd_p r' = of_nat (used r + n)"
    using r' by (simp add: used_def)
  then have used: "used r' = used r + n"
    using small by (simp add: used_def unat_of_nat take_bit_nat_eq_self del: of_nat_add)
  have pos: "pos r' a k = pos r a k" for a k using r'(1) by (simp add: pos_def)
  have ok': "ring_ok r'"
    using ok room used r'(1) unfolding ring_ok_def used_def by simp
  let ?ws = "map (\<lambda>i. (pos r (tr_wr_p r) i, f i)) [0..<n]"
  have old: "view r' (pos r (tr_rd_p r) k) = view r (pos r (tr_rd_p r) k)" if "k < used r" for k
  proof -
    have "\<forall>i<n. pos r (tr_rd_p r) k \<noteq> pos r (tr_wr_p r) i"
      using pos_wr_free [OF ok that] room by simp
    then have "pos r (tr_rd_p r) k \<notin> fst ` set ?ws" by auto
    then show ?thesis unfolding view by (rule write_slots_other)
  qed
  have "distinct (map fst ?ws)"
    using pos_inj [of r "tr_wr_p r"] room by (auto simp: distinct_map o_def inj_on_def)
  then have new: "view r' (pos r (tr_rd_p r) (used r + i)) = f i" if "i < n" for i
    unfolding view pos_wr [OF ok, symmetric] using that by (intro write_slots_at) auto
  have upt: "[0..<used r + n] = [0..<used r] @ map (\<lambda>i. i + used r) [0..<n]"
    using upt_add_eq_append [of 0 "used r" n] map_add_upt [of "used r" n] by (simp add: add.commute)
  have "slots r' = map (\<lambda>k. view r' (pos r (tr_rd_p r) k)) ([0..<used r] @ map (\<lambda>i. i + used r) [0..<n])"
    unfolding slots_view [OF ok'] used pos r'(2) upt ..
  also have "\<dots> = slots r @ map f [0..<n]"
    using old new by (simp add: slots_view [OF ok] add.commute [of _ "used r"])
  finally show ?thesis using ok' used by simp
qed


section \<open>Accounts\<close>

text \<open>What a log has mapped, unmapped and freed, and what a slot of the ring holds.\<close>

datatype mapping = Single u64 u32 | Page u64 u32

fun mapped_by :: "tx_event \<Rightarrow> mapping multiset" where
  "mapped_by (MapSingle a n) = {#Single a n#}"
| "mapped_by (MapPage a n) = {#Page a n#}"
| "mapped_by _ = {#}"

fun unmapped_by :: "tx_event \<Rightarrow> mapping multiset" where
  "unmapped_by (UnmapSingle a n) = {#Single a n#}"
| "unmapped_by (UnmapPage a n) = {#Page a n#}"
| "unmapped_by _ = {#}"

fun freed_by :: "tx_event \<Rightarrow> nat multiset" where
  "freed_by (KfreeSkb i) = {#i#}"
| "freed_by (ConsumeSkb i) = {#i#}"
| "freed_by _ = {#}"

fun kicked_by :: "tx_event \<Rightarrow> u32" where
  "kicked_by (QcpWrAdd n) = n"
| "kicked_by _ = 0"

definition kicked :: "tx_event list \<Rightarrow> u32" where
  "kicked l = sum_list (map kicked_by l)"

definition maps :: "tx_event list \<Rightarrow> mapping multiset" where
  "maps l = sum_list (map mapped_by l)"

definition unmaps :: "tx_event list \<Rightarrow> mapping multiset" where
  "unmaps l = sum_list (map unmapped_by l)"

definition frees :: "tx_event list \<Rightarrow> nat multiset" where
  "frees l = sum_list (map freed_by l)"

lemma account_simps [simp]:
  "maps [] = {#}" "unmaps [] = {#}" "frees [] = {#}"
  "maps (e # l) = mapped_by e + maps l" "unmaps (e # l) = unmapped_by e + unmaps l"
  "frees (e # l) = freed_by e + frees l"
  "maps (a @ b) = maps a + maps b" "unmaps (a @ b) = unmaps a + unmaps b"
  "frees (a @ b) = frees a + frees b"
  "kicked [] = 0" "kicked (e # l) = kicked_by e + kicked l" "kicked (a @ b) = kicked a + kicked b"
  by (simp_all add: maps_def unmaps_def frees_def kicked_def)

fun slot_mapping :: "tx_slot \<Rightarrow> mapping multiset" where
  "slot_mapping (Some skb, f, a) =
    (if f = -1 then {#Single a (skb_headlen skb)#} else {#Page a (skb_frags skb ! nat f)#})"
| "slot_mapping (None, f, a) = {#}"

fun slot_final :: "tx_slot \<Rightarrow> nat multiset" where
  "slot_final (Some skb, f, a) = (if f = int (nr_frags skb) - 1 then {#skb_id skb#} else {#})"
| "slot_final (None, f, a) = {#}"

definition in_flight :: "tx_slot list \<Rightarrow> mapping multiset" where
  "in_flight vs = sum_list (map slot_mapping vs)"

definition held :: "tx_slot list \<Rightarrow> nat multiset" where
  "held vs = sum_list (map slot_final vs)"

lemma slots_account_simps [simp]:
  "in_flight [] = {#}" "held [] = {#}"
  "in_flight (v # vs) = slot_mapping v + in_flight vs" "held (v # vs) = slot_final v + held vs"
  "in_flight (vs @ ws) = in_flight vs + in_flight ws" "held (vs @ ws) = held vs + held ws"
  by (simp_all add: in_flight_def held_def)

lemma qcp_account [simp]:
  "maps (map QcpWrAdd l) = {#}" "unmaps (map QcpWrAdd l) = {#}" "frees (map QcpWrAdd l) = {#}"
  by (induction l) simp_all

lemma qcp_add_sum: "sum_list (nfp_qcp_ptr_add v) = v"
proof (induction v rule: nfp_qcp_ptr_add.induct)
  case (1 v)
  then show ?case by (subst nfp_qcp_ptr_add.simps) simp
qed

lemma qcp_add_small: "x \<in> set (nfp_qcp_ptr_add v) \<Longrightarrow> x \<le> NFP_QCP_MAX_ADD"
proof (induction v rule: nfp_qcp_ptr_add.induct)
  case (1 v)
  then show ?case by (subst (asm) nfp_qcp_ptr_add.simps) (auto split: if_splits)
qed

lemma qcp_kicked [simp]: "kicked (map QcpWrAdd l) = sum_list l"
  by (induction l) simp_all

lemma frag_kicked [simp]:
  "kicked (map (frag_map env skb) is) = 0" "kicked (map (\<lambda>i. UnmapPage (g i) (h i)) is) = 0"
  by (induction "is") (simp_all add: frag_map_def)

lemma frag_account:
  "maps (map (frag_map env skb) is) = image_mset (\<lambda>i. Page (the (te_dma env (Suc i))) (skb_frags skb ! i)) (mset is)"
  "unmaps (map (frag_map env skb) is) = {#}" "frees (map (frag_map env skb) is) = {#}"
  "unmaps (map (\<lambda>i. UnmapPage (g i) (skb_frags skb ! i)) is) = image_mset (\<lambda>i. Page (g i) (skb_frags skb ! i)) (mset is)"
  "maps (map (\<lambda>i. UnmapPage (g i) (skb_frags skb ! i)) is) = {#}"
  "frees (map (\<lambda>i. UnmapPage (g i) (skb_frags skb ! i)) is) = {#}"
  by (induction "is") (simp_all add: frag_map_def)

lemma held_pkt: "held (pkt_slots skb addrs) = {#skb_id skb#}"
proof -
  have "held (map (pkt_slot skb addrs) [0..<n]) = {#}" if "n \<le> nr_frags skb" for n
    using that by (induction n) (auto simp: pkt_slot_def)
  then show ?thesis by (simp add: pkt_slots_map) (simp add: pkt_slot_def)
qed

lemma in_flight_pkt:
  "in_flight (pkt_slots skb addrs) = add_mset (Single (addrs ! 0) (skb_headlen skb))
     (image_mset (\<lambda>i. Page (addrs ! Suc i) (skb_frags skb ! i)) (mset [0..<nr_frags skb]))"
proof -
  have "in_flight (map (pkt_slot skb addrs) [0..<Suc n]) = add_mset (Single (addrs ! 0) (skb_headlen skb))
     (image_mset (\<lambda>i. Page (addrs ! Suc i) (skb_frags skb ! i)) (mset [0..<n]))" for n
    by (induction n) (simp_all add: pkt_slot_def)
  then show ?thesis by (simp only: pkt_slots_map)
qed

section \<open>What a transmission does\<close>

definition dma_addrs :: "tx_env \<Rightarrow> sk_buff \<Rightarrow> u64 list" where
  "dma_addrs env skb = map (\<lambda>i. the (te_dma env i)) [0..<Suc (nr_frags skb)]"

lemma tx_head_buf:
  assumes "tx_head env skb md a old st = (st', b, d)"
  shows "tb_skb b = Some skb \<and> tb_dma_addr b = a \<and> tb_fidx b = -1"
  using assms
  by (auto simp: tx_head_def nfp_net_tx_tso_def nfp_net_tx_csum_def Let_def split: if_splits prod.splits)

definition stops :: "nfp_net_tx_ring \<Rightarrow> bool \<Rightarrow> bool" where
  "stops r st = (if nfp_net_tx_ring_should_stop r then \<not> nfp_net_tx_ring_should_wake r else st)"

text \<open>Refused or dropped: the ring keeps its slots, every mapping made is undone.\<close>

definition tx_dropped :: "nat multiset \<Rightarrow> tx_path \<Rightarrow> tx_path \<Rightarrow> bool" where
  "tx_dropped fr p p' \<longleftrightarrow> ring_ok (ring p') \<and> slots (ring p') = slots (ring p) \<and>
     tr_cnt (ring p') = tr_cnt (ring p) \<and> tr_wr_p (ring p') = tr_wr_p (ring p) \<and>
     tr_rd_p (ring p') = tr_rd_p (ring p) \<and> tr_qcp_rd_p (ring p') = tr_qcp_rd_p (ring p) \<and>
     tr_wr_ptr_add (ring p') = 0 \<and> (fr \<noteq> {#} \<longrightarrow> stopped p' = stopped p) \<and>
     (\<exists>es. tx_log p' = tx_log p @ es \<and> maps es = unmaps es \<and> frees es = fr \<and>
        kicked es = tr_wr_ptr_add (ring p))"

text \<open>Accepted: the packet's slots are appended, and what was mapped is what they hold.\<close>

definition tx_queued :: "bool \<Rightarrow> sk_buff \<Rightarrow> u64 list \<Rightarrow> tx_path \<Rightarrow> tx_path \<Rightarrow> bool" where
  "tx_queued bql skb addrs p p' \<longleftrightarrow> ring_ok (ring p') \<and>
     slots (ring p') = slots (ring p) @ pkt_slots skb addrs \<and>
     tr_cnt (ring p') = tr_cnt (ring p) \<and> tr_rd_p (ring p') = tr_rd_p (ring p) \<and>
     tr_qcp_rd_p (ring p') = tr_qcp_rd_p (ring p) \<and>
     tr_wr_p (ring p') = tr_wr_p (ring p) + of_nat (nr_frags skb + 1) \<and>
     tr_wr_ptr_add (ring p') = (if skb_xmit_more skb \<and> \<not> stopped p' \<and> \<not> bql
       then tr_wr_ptr_add (ring p) + of_nat (nr_frags skb + 1) else 0) \<and>
     stopped p' = stops (ring p') (stopped p) \<and>
     (\<exists>es. tx_log p' = tx_log p @ es \<and> maps es = in_flight (pkt_slots skb addrs) \<and>
        unmaps es = {#} \<and> frees es = {#} \<and>
        kicked es + tr_wr_ptr_add (ring p') =
          tr_wr_ptr_add (ring p) + of_nat (nr_frags skb + 1))"


lemma slots_other_fields [simp]:
  "slots (r\<lparr>tr_wr_ptr_add := x\<rparr>) = slots r" "ring_ok (r\<lparr>tr_wr_ptr_add := x\<rparr>) = ring_ok r"
  "slots (r\<lparr>tr_qcp_rd_p := x\<rparr>) = slots r" "ring_ok (r\<lparr>tr_qcp_rd_p := x\<rparr>) = ring_ok r"
  by (simp_all add: slots_def slot_at_def D_IDX_def used_def ring_ok_def)

lemma view_other_fields [simp]:
  "view (r\<lparr>tr_wr_ptr_add := x\<rparr>) = view r" "view (r\<lparr>tr_qcp_rd_p := x\<rparr>) = view r"
  "view (r\<lparr>tr_wr_p := y\<rparr>) = view r" "view (r\<lparr>tr_rd_p := y\<rparr>) = view r"
  by (simp_all add: view_def fun_eq_iff)

lemma flush_simps [simp]:
  "ring (nfp_net_tx_xmit_more_flush p) = (ring p)\<lparr>tr_wr_ptr_add := 0\<rparr>"
  "stopped (nfp_net_tx_xmit_more_flush p) = stopped p"
  "tx_log (nfp_net_tx_xmit_more_flush p) =
    tx_log p @ map QcpWrAdd (nfp_qcp_ptr_add (tr_wr_ptr_add (ring p)))"
  by (simp_all add: nfp_net_tx_xmit_more_flush_def Let_def)

lemma thresholds_other_fields [simp]:
  "nfp_net_tx_ring_should_stop (r\<lparr>tr_wr_ptr_add := x\<rparr>) = nfp_net_tx_ring_should_stop r"
  "nfp_net_tx_ring_should_wake (r\<lparr>tr_wr_ptr_add := x\<rparr>) = nfp_net_tx_ring_should_wake r"
  by (simp_all add: nfp_net_tx_ring_should_stop_def nfp_net_tx_ring_should_wake_def nfp_net_tx_full_def)

lemma tx_err_free_effect:
  assumes "ring_ok (ring p)" and "ring_shape (ring q) = ring_shape (ring p)" and "slots (ring q) = slots (ring p)"
    and "tx_log q = tx_log p @ es" and "maps es = unmaps es" and "frees es = {#}" and "kicked es = 0"
    and "stopped q = stopped p"
  shows "\<exists>p'. tx_err_free skb q = (NETDEV_TX_OK, p') \<and> tx_dropped {#skb_id skb#} p p'"
  using assms shape_eqs [OF assms(2)]
  by (auto simp: tx_err_free_def Let_def tx_dropped_def qcp_add_sum)

lemma drop_now:
  "ring_ok (ring p) \<Longrightarrow>
   tx_dropped {#skb_id skb#} p (logged [KfreeSkb (skb_id skb)] (nfp_net_tx_xmit_more_flush p))"
  by (auto simp: tx_dropped_def qcp_add_sum)

lemma tx_commit_effect:
  "\<exists>es. tx_log (tx_commit env skb n p) = tx_log p @ es \<and> maps es = {#} \<and> unmaps es = {#} \<and>
     frees es = {#} \<and>
     kicked es + tr_wr_ptr_add (ring (tx_commit env skb n p)) =
       tr_wr_ptr_add (ring p) + of_nat (nr_frags skb + 1) \<and>
     tr_wr_ptr_add (ring (tx_commit env skb n p)) =
       (if skb_xmit_more skb \<and> \<not> stopped (tx_commit env skb n p) \<and> \<not> te_bql_stopped env
        then tr_wr_ptr_add (ring p) + of_nat (nr_frags skb + 1) else 0) \<and>
     stopped (tx_commit env skb n p) = stops (ring (tx_commit env skb n p)) (stopped p) \<and>
     view (ring (tx_commit env skb n p)) = view (ring p) \<and>
     tr_cnt (ring (tx_commit env skb n p)) = tr_cnt (ring p) \<and>
     tr_rd_p (ring (tx_commit env skb n p)) = tr_rd_p (ring p) \<and>
     tr_qcp_rd_p (ring (tx_commit env skb n p)) = tr_qcp_rd_p (ring p) \<and>
     tr_wr_p (ring (tx_commit env skb n p)) = tr_wr_p (ring p) + of_nat (nr_frags skb + 1)"
  by (auto simp: tx_commit_def Let_def nfp_net_tx_ring_stop_def qcp_add_sum stops_def)

lemma first_fail_all:
  "first_fail env f n = f + n \<longleftrightarrow> (\<forall>i<n. te_dma env (Suc (f + i)) \<noteq> None)"
proof (induction n arbitrary: f)
  case (Suc n)
  show ?case
  proof (cases "te_dma env (Suc f)")
    case None
    then show ?thesis by force
  next
    case (Some a)
    then show ?thesis using Suc.IH [of "Suc f"] by (simp add: All_less_Suc2)
  qed
qed simp

lemma dma_addrs_nth: "i \<le> nr_frags skb \<Longrightarrow> dma_addrs env skb ! i = the (te_dma env i)"
  by (simp add: dma_addrs_def del: upt_Suc)

text \<open>After the fragment loop: the head and the fragments before \<open>m\<close> are in their slots.\<close>

lemma tx_slots_written:
  assumes ok: "ring_ok (ring p)" and a: "te_dma env 0 = Some a"
    and b: "tb_skb b = Some skb" "tb_dma_addr b = a" "tb_fidx b = -1"
    and w: "w = D_IDX (ring p) (tr_wr_p (ring p))"
    and gather: "tx_gather_frags env skb txdg 0 (skb_frags skb) w
      ((logged [MapSingle a (skb_headlen skb)] p)
        \<lparr>stats := st, ring := set_desc w txd (set_buf w b (ring p))\<rparr>) = (res, q)"
    and m: "m = first_fail env 0 (nr_frags skb)"
  shows "res = (if m = nr_frags skb then None else Some (m, D_IDX (ring q) (tr_wr_p (ring q) + of_nat m))) \<and>
    tx_log q = tx_log p @ MapSingle a (skb_headlen skb) # map (frag_map env skb) [0..<m] \<and>
    ring_shape (ring q) = ring_shape (ring p) \<and> stopped q = stopped p \<and>
    view (ring q) = write_slots
      (map (\<lambda>i. (pos (ring p) (tr_wr_p (ring p)) i, pkt_slot skb (dma_addrs env skb) i)) [0..<Suc m])
      (view (ring p))"
proof -
  let ?a = "tr_wr_p (ring p)"
  define p1 where "p1 = (logged [MapSingle a (skb_headlen skb)] p)
        \<lparr>stats := st, ring := set_desc w txd (set_buf w b (ring p))\<rparr>"
  have ring_shape: "ring_shape (ring p1) = ring_shape (ring p)" and log: "stopped p1 = stopped p"
    "tx_log p1 = tx_log p @ [MapSingle a (skb_headlen skb)]"
    by (simp_all add: p1_def)
  have mle: "m \<le> nr_frags skb" using m first_fail_bounds [of 0 env "nr_frags skb"] by simp
  have view: "view (ring p1) = (view (ring p))(pos (ring p) ?a 0 := pkt_slot skb (dma_addrs env skb) 0)"
    using b a unat_D_IDX [OF ok, of ?a 0]
    by (simp add: p1_def view_set_buf w pkt_slot_def dma_addrs_nth)
  have ok1: "ring_ok (ring p1)" using ok shape_eqs(1) [OF ring_shape] by simp
  have gather1: "tx_gather_frags env skb txdg 0 (skb_frags skb)
      (D_IDX (ring p1) (?a + of_nat 0)) p1 = (res, q)"
    using gather w shape_eqs(2) [OF ring_shape] unfolding p1_def [symmetric] by simp
  have eff: "res = (if m = nr_frags skb then None else Some (m, D_IDX (ring p1) (?a + of_nat m))) \<and>
    tx_log q = tx_log p1 @ map (frag_map env skb) [0..<m] \<and>
    ring_shape (ring q) = ring_shape (ring p1) \<and> stats q = stats p1 \<and> stopped q = stopped p1 \<and>
    view (ring q) =
      write_slots (map (\<lambda>i. (pos (ring p1) ?a (Suc i), frag_slot env skb i)) [0..<m]) (view (ring p1))"
    by (rule tx_gather_effect [OF ok1 _ _ _ gather1]) (simp_all add: m nr_frags_def)
  let ?f = "\<lambda>i. (pos (ring p) ?a i, pkt_slot skb (dma_addrs env skb) i)"
  have frags: "map (\<lambda>i. (pos (ring p) ?a (Suc i), frag_slot env skb i)) [0..<m] = map ?f (map Suc [0..<m])"
    using mle by (simp add: frag_slot_def pkt_slot_def dma_addrs_nth)
  have "view (ring q) = write_slots (map (\<lambda>i. (pos (ring p) ?a (Suc i), frag_slot env skb i)) [0..<m])
      (view (ring p1))"
    using eff shape_eqs(3) [OF ring_shape] by simp
  then have "view (ring q) = write_slots (map ?f (0 # map Suc [0..<m])) (view (ring p))"
    unfolding frags view by (simp del: fun_upd_apply)
  moreover have "0 # map Suc [0..<m] = [0..<Suc m]" by (simp add: map_Suc_upt upt_conv_Cons del: upt_Suc)
  moreover have "ring_shape (ring q) = ring_shape (ring p)" using eff ring_shape by simp
  ultimately show ?thesis
    using eff log ring_shape shape_eqs(2,6) [of "ring q" "ring p"] shape_eqs(2) [OF ring_shape] by simp
qed


lemma tx_queued_commit:
  assumes ok: "ring_ok (ring p)" and room: "used (ring p) + (nr_frags skb + 1) < unat (tr_cnt (ring p))"
    and q': "ring q' = ring q" "stopped q' = stopped p" and ring_shape: "ring_shape (ring q) = ring_shape (ring p)"
    and log: "tx_log q' = tx_log p @ MapSingle a (skb_headlen skb) # map (frag_map env skb) [0..<nr_frags skb]"
    and view: "view (ring q) = write_slots (map (\<lambda>i. (pos (ring p) (tr_wr_p (ring p)) i,
      pkt_slot skb (dma_addrs env skb) i)) [0..<Suc (nr_frags skb)]) (view (ring p))"
    and a: "te_dma env 0 = Some a"
  shows "tx_queued (te_bql_stopped env) skb (dma_addrs env skb) p (tx_commit env skb n q')"
proof -
  let ?p' = "tx_commit env skb n q'"
  obtain es where es: "tx_log ?p' = tx_log q' @ es" "maps es = {#}" "unmaps es = {#}" "frees es = {#}"
      "kicked es + tr_wr_ptr_add (ring ?p') = tr_wr_ptr_add (ring q') + of_nat (nr_frags skb + 1)"
      "tr_wr_ptr_add (ring ?p') = (if skb_xmit_more skb \<and> \<not> stopped ?p' \<and> \<not> te_bql_stopped env
        then tr_wr_ptr_add (ring q') + of_nat (nr_frags skb + 1) else 0)"
      "stopped ?p' = stops (ring ?p') (stopped q')"
    and ring: "view (ring ?p') = view (ring q')" "tr_cnt (ring ?p') = tr_cnt (ring q')"
      "tr_rd_p (ring ?p') = tr_rd_p (ring q')" "tr_qcp_rd_p (ring ?p') = tr_qcp_rd_p (ring q')"
      "tr_wr_p (ring ?p') = tr_wr_p (ring q') + of_nat (nr_frags skb + 1)"
    using tx_commit_effect [of env skb n q'] by blast
  have "ring_ok (ring ?p') \<and> used (ring ?p') = used (ring p) + (nr_frags skb + 1) \<and>
      slots (ring ?p') = slots (ring p) @ map (pkt_slot skb (dma_addrs env skb)) [0..<nr_frags skb + 1]"
    by (rule slots_append [OF ok room]) (use ring q' shape_eqs [OF ring_shape] view in simp_all)
  moreover have "maps (MapSingle a (skb_headlen skb) # map (frag_map env skb) [0..<nr_frags skb])
      = in_flight (pkt_slots skb (dma_addrs env skb))"
    by (simp add: in_flight_pkt frag_account dma_addrs_nth a) (rule image_mset_cong, simp add: dma_addrs_nth)
  ultimately show ?thesis
    using es log ring q' shape_eqs [OF ring_shape]
    by (simp add: tx_queued_def pkt_slots_map frag_account del: of_nat_add of_nat_Suc)
qed

lemma tx_undone:
  assumes ok: "ring_ok (ring p)" and room: "used (ring p) + (nr_frags skb + 1) < unat (tr_cnt (ring p))"
    and m: "m \<le> nr_frags skb" and ring_shape: "ring_shape (ring q) = ring_shape (ring p)" and st: "stopped q = stopped p"
    and log: "tx_log q = tx_log p @ MapSingle a (skb_headlen skb) # map (frag_map env skb) [0..<m]"
    and view: "view (ring q) = write_slots (map (\<lambda>i. (pos (ring p) (tr_wr_p (ring p)) i,
      pkt_slot skb (dma_addrs env skb) i)) [0..<Suc m]) (view (ring p))"
    and a: "te_dma env 0 = Some a"
  shows "\<exists>p'. tx_err_free skb (tx_err_unmap skb m (D_IDX (ring q) (tr_wr_p (ring q) + of_nat m)) q)
        = (NETDEV_TX_OK, p') \<and> tx_dropped {#skb_id skb#} p p'"
proof -
  let ?a = "tr_wr_p (ring p)" and ?r = "ring p"
  define p' where "p' = tx_err_unmap skb m (D_IDX (ring q) (tr_wr_p (ring q) + of_nat m)) q"
  have okq: "ring_ok (ring q)" and mc: "m < unat (tr_cnt (ring q))"
    using ok room m shape_eqs [OF ring_shape] by simp_all
  note undo = tx_err_unmap_effect [OF okq mc p'_def, unfolded shape_eqs(3,6) [OF ring_shape]]
  have inj: "inj_on (pos ?r ?a) {0..<Suc m}"
    using pos_inj [of ?r ?a] room m by (auto simp: inj_on_def)
  have at: "view (ring q) (pos ?r ?a i) = pkt_slot skb (dma_addrs env skb) i" if "i \<le> m" for i
    unfolding view using that inj by (intro write_slots_at) (auto simp: distinct_map o_def simp del: upt_Suc)
  have dma: "slot_dma (view (ring q) (pos ?r ?a i)) = the (te_dma env i)" if "i \<le> m" for i
    using at [OF that] that m by (simp add: slot_dma_def pkt_slot_def dma_addrs_nth)
  have keep: "view (ring p') (pos ?r (tr_rd_p ?r) k) = view ?r (pos ?r (tr_rd_p ?r) k)" if "k < used ?r" for k
  proof -
    have "\<forall>i<Suc m. pos ?r (tr_rd_p ?r) k \<noteq> pos ?r ?a i"
      using pos_wr_free [OF ok that] room m by simp
    then have "pos ?r (tr_rd_p ?r) k \<notin> pos ?r ?a ` {0..<Suc m}" by auto
    then show ?thesis
      using undo by (simp add: view write_slots_other image_image del: upt_Suc)
  qed
  have "ring_shape (ring p') = ring_shape ?r" using undo ring_shape by simp
  moreover have "slots (ring p') = slots ?r"
    using \<open>ring_shape (ring p') = ring_shape ?r\<close> keep by (rule slots_keep [OF ok])
  moreover have unmaps: "map (\<lambda>i. UnmapPage (slot_dma (view (ring q) (pos ?r ?a (Suc i)))) (skb_frags skb ! i)) (rev [0..<m])
      = map (\<lambda>i. UnmapPage (the (te_dma env (Suc i))) (skb_frags skb ! i)) (rev [0..<m])"
    by (rule map_cong) (auto simp: dma)
  ultimately show ?thesis
    using undo log dma [of 0] a st unfolding unmaps p'_def [symmetric]
    by (intro tx_err_free_effect [OF ok, where es = "MapSingle a (skb_headlen skb) # map (frag_map env skb) [0..<m] @
        map (\<lambda>i. UnmapPage (the (te_dma env (Suc i))) (skb_frags skb ! i)) (rev [0..<m]) @
        [UnmapSingle a (skb_headlen skb)]"]) (simp_all add: frag_account)
qed

lemma tx_map_and_queue_effect:
  assumes ok: "ring_ok (ring p)" and room: "used (ring p) + (nr_frags skb + 1) < unat (tr_cnt (ring p))"
  shows "\<exists>p'. tx_map_and_queue env skb md p = (NETDEV_TX_OK, p') \<and>
    (if \<forall>i\<le>nr_frags skb. te_dma env i \<noteq> None then tx_queued (te_bql_stopped env) skb (dma_addrs env skb) p p'
     else tx_dropped {#skb_id skb#} p p')"
proof (cases "te_dma env 0")
  case None
  then have "tx_map_and_queue env skb md p = tx_err_free skb p" by (simp add: tx_map_and_queue_def)
  moreover have "\<exists>p'. tx_err_free skb p = (NETDEV_TX_OK, p') \<and> tx_dropped {#skb_id skb#} p p'"
    using tx_err_free_effect [OF ok, of p "[]"] by simp
  moreover have "\<not> (\<forall>i\<le>nr_frags skb. te_dma env i \<noteq> None)" using None by auto
  ultimately show ?thesis by (simp only: if_False)
next
  case (Some a)
  define w where "w = D_IDX (ring p) (tr_wr_p (ring p))"
  obtain st b txd where head: "tx_head env skb md a (tr_txds (ring p) (unat w)) (stats p) = (st, b, txd)"
    using prod_cases3 by blast
  obtain res q where gather: "tx_gather_frags env skb txd 0 (skb_frags skb) w
      ((logged [MapSingle a (skb_headlen skb)] p)
        \<lparr>stats := st, ring := set_desc w txd (set_buf w b (ring p))\<rparr>) = (res, q)"
    by fastforce
  define m where "m = first_fail env 0 (nr_frags skb)"
  have mle: "m \<le> nr_frags skb" using first_fail_bounds [of 0 env "nr_frags skb"] by (simp add: m_def)
  have all: "m = nr_frags skb \<longleftrightarrow> (\<forall>i\<le>nr_frags skb. te_dma env i \<noteq> None)"
    using first_fail_all [of env 0 "nr_frags skb"] Some
      All_less_Suc2 [of "nr_frags skb" "\<lambda>i. te_dma env i \<noteq> None"]
    by (simp add: m_def less_Suc_eq_le)
  note b = tx_head_buf [OF head]
  let ?s = "\<lambda>i. (pos (ring p) (tr_wr_p (ring p)) i, pkt_slot skb (dma_addrs env skb) i)"
  have written: "res = (if m = nr_frags skb then None else Some (m, D_IDX (ring q) (tr_wr_p (ring q) + of_nat m))) \<and>
    tx_log q = tx_log p @ MapSingle a (skb_headlen skb) # map (frag_map env skb) [0..<m] \<and>
    ring_shape (ring q) = ring_shape (ring p) \<and> stopped q = stopped p \<and>
    view (ring q) = write_slots (map ?s [0..<Suc m]) (view (ring p))"
    by (rule tx_slots_written [OF ok Some _ _ _ w_def gather m_def]) (use b in simp_all)
  have ring_shape: "ring_shape (ring q) = ring_shape (ring p)" using written by simp
  have step: "tx_map_and_queue env skb md p = (case (res, q) of
      (Some (f, wr_idx), p) \<Rightarrow> tx_err_free skb (tx_err_unmap skb f wr_idx p)
    | (None, p) \<Rightarrow> (NETDEV_TX_OK, tx_commit env skb (tb_real_len b)
        (if nr_frags skb > 0 then p\<lparr>stats := (stats p)\<lparr>tx_gather := tx_gather (stats p) + 1\<rparr>\<rparr> else p)))"
    using head gather by (cases res) (simp_all add: tx_map_and_queue_def Some Let_def w_def)
  show ?thesis
  proof (cases "m = nr_frags skb")
    case True
    define q' where "q' = (if nr_frags skb > 0
      then q\<lparr>stats := (stats q)\<lparr>tx_gather := tx_gather (stats q) + 1\<rparr>\<rparr> else q)"
    have q': "ring q' = ring q" "tx_log q' = tx_log q" "stopped q' = stopped p"
      using written by (simp_all add: q'_def)
    have "tx_map_and_queue env skb md p = (NETDEV_TX_OK, tx_commit env skb (tb_real_len b) q')"
      using step written True by (simp add: q'_def)
    moreover have "tx_queued (te_bql_stopped env) skb (dma_addrs env skb) p (tx_commit env skb (tb_real_len b) q')"
      by (rule tx_queued_commit [OF ok room q'(1,3) _ _ _ Some]) (use written True q' in simp_all)
    ultimately show ?thesis using True all by simp
  next
    case False
    then have "\<not> (\<forall>i\<le>nr_frags skb. te_dma env i \<noteq> None)" using all by simp
    moreover have "tx_map_and_queue env skb md p =
        tx_err_free skb (tx_err_unmap skb m (D_IDX (ring q) (tr_wr_p (ring q) + of_nat m)) q)"
      using step written False by simp
    moreover have "\<exists>p'. tx_err_free skb (tx_err_unmap skb m (D_IDX (ring q) (tr_wr_p (ring q) + of_nat m)) q)
        = (NETDEV_TX_OK, p') \<and> tx_dropped {#skb_id skb#} p p'"
      by (rule tx_undone [OF ok room mle _ _ _ _ Some]) (use written in simp_all)
    ultimately show ?thesis by (simp only: if_False)
  qed
qed


definition tx_accepts :: "tx_env \<Rightarrow> sk_buff \<Rightarrow> bool" where
  "tx_accepts env skb \<longleftrightarrow> \<not> (skb_port_mux skb \<noteq> None \<and> te_cow_fails env) \<and>
     \<not> te_features_drop env \<and> (\<forall>i\<le>nr_frags skb. te_dma env i \<noteq> None)"

definition tx_packet :: "sk_buff \<Rightarrow> sk_buff" where
  "tx_packet skb = (if skb_port_mux skb = None then skb else skb_push 8 skb)"

lemma tx_packet_simps [simp]:
  "skb_id (tx_packet skb) = skb_id skb" "skb_frags (tx_packet skb) = skb_frags skb"
  "nr_frags (tx_packet skb) = nr_frags skb" "dma_addrs env (tx_packet skb) = dma_addrs env skb"
  "skb_xmit_more (tx_packet skb) = skb_xmit_more skb"
  by (simp_all add: tx_packet_def skb_push_def nr_frags_def dma_addrs_def)

definition small_skb :: "sk_buff \<Rightarrow> bool" where
  "small_skb skb \<longleftrightarrow> nr_frags skb \<le> MAX_SKB_FRAGS"

lemma room_iff:
  assumes "ring_ok r" and "small_skb skb"
  shows "nfp_net_tx_full r (of_nat (nr_frags skb + 1)) \<longleftrightarrow>
    \<not> used r + (nr_frags skb + 1) < unat (tr_cnt r)"
proof -
  have "nr_frags skb + 1 \<le> unat (tr_cnt r)"
    using assms by (auto simp: small_skb_def MAX_SKB_FRAGS_def elim!: cnt_facts)
  from tx_full_iff [OF assms(1) this] show ?thesis by auto
qed

lemma nfp_net_tx_effect:
  assumes ok: "ring_ok (ring p)" and small: "small_skb skb"
  shows "\<exists>p'. if nfp_net_tx_full (ring p) (of_nat (nr_frags skb + 1))
    then nfp_net_tx env skb p = (NETDEV_TX_BUSY, p') \<and> tx_dropped {#} p p'
    else nfp_net_tx env skb p = (NETDEV_TX_OK, p') \<and>
      (if tx_accepts env skb then tx_queued (te_bql_stopped env) (tx_packet skb) (dma_addrs env skb) p p'
       else tx_dropped {#skb_id skb#} p p')"
proof (cases "nfp_net_tx_full (ring p) (of_nat (nr_frags skb + 1))")
  case True
  then show ?thesis using ok by (simp add: nfp_net_tx_def Let_def tx_dropped_def qcp_add_sum)
next
  case False
  then have room: "used (ring p) + (nr_frags (tx_packet skb) + 1) < unat (tr_cnt (ring p))"
    using room_iff [OF ok small] by simp
  show ?thesis
  proof (cases "(skb_port_mux skb \<noteq> None \<and> te_cow_fails env) \<or> te_features_drop env")
    case True
    then show ?thesis using False drop_now [OF ok, of skb] drop_now [OF ok, of "tx_packet skb"]
      by (auto simp: nfp_net_tx_def nfp_net_prep_port_id_def tx_accepts_def skb_push_def
          split: option.splits)
  next
    case pass: False
    define md :: u8 where "md = (if skb_port_mux skb = None then 0 else 8)"
    have "nfp_net_prep_port_id env skb = Inr (tx_packet skb, md)"
      using pass by (auto simp: nfp_net_prep_port_id_def tx_packet_def md_def split: option.splits)
    then have "nfp_net_tx env skb p = tx_map_and_queue env (tx_packet skb) md p"
      using False pass by (simp add: nfp_net_tx_def)
    moreover have "tx_accepts env skb \<longleftrightarrow> (\<forall>i\<le>nr_frags (tx_packet skb). te_dma env i \<noteq> None)"
      using pass by (auto simp: tx_accepts_def)
    ultimately show ?thesis
      using tx_map_and_queue_effect [OF ok room, of env md] False
      by (simp only: if_False tx_packet_simps)
  qed
qed


section \<open>What a completion does\<close>

fun slot_events :: "tx_slot \<Rightarrow> tx_event list" where
  "slot_events (None, f, a) = []"
| "slot_events (Some skb, f, a) =
    (if f = -1 then UnmapSingle a (skb_headlen skb) else UnmapPage a (skb_frags skb ! nat f)) #
    (if f = int (nr_frags skb) - 1 then [ConsumeSkb (skb_id skb)] else [])"

lemma slot_events_account:
  "maps (slot_events v) = {#} \<and> unmaps (slot_events v) = slot_mapping v \<and> frees (slot_events v) = slot_final v \<and>
   kicked (slot_events v) = 0"
  by (cases v rule: slot_events.cases) auto

lemma slots_events_account:
  "maps (concat (map slot_events vs)) = {#} \<and> unmaps (concat (map slot_events vs)) = in_flight vs \<and>
   frees (concat (map slot_events vs)) = held vs \<and> kicked (concat (map slot_events vs)) = 0"
  by (induction vs) (simp_all add: slot_events_account)

text \<open>Taking the oldest slot off the ring.\<close>

lemma slots_advance:
  assumes ok: "ring_ok r" and used: "0 < used r"
    and r': "tr_cnt r' = tr_cnt r" "tr_rd_p r' = tr_rd_p r + 1" "tr_wr_p r' = tr_wr_p r"
    and view: "\<And>j. j \<noteq> pos r (tr_rd_p r) 0 \<Longrightarrow> view r' j = view r j"
  shows "ring_ok r' \<and> used r' = used r - 1 \<and> slots r' = tl (slots r) \<and>
    slots r = view r (pos r (tr_rd_p r) 0) # tl (slots r)"
proof -
  have "tr_wr_p r' - tr_rd_p r' = (tr_wr_p r - tr_rd_p r) - 1" using r' by simp
  then have used': "used r' = used r - 1"
    using used by (simp add: used_def unat_sub_if' word_less_nat_alt)
  moreover have "used r - 1 < unat (tr_cnt r)" using used_less [OF ok] by simp
  ultimately have ok': "ring_ok r'" using ok r'(1) unfolding ring_ok_def used_def by simp
  have step: "pos r' (tr_rd_p r') k = pos r (tr_rd_p r) (Suc k)" for k
  proof -
    have "unat (D_IDX r' (tr_rd_p r' + of_nat k)) = unat (D_IDX r (tr_rd_p r + of_nat (Suc k)))"
      using r' by (simp add: D_IDX_def add.assoc)
    then show ?thesis by (simp only: unat_D_IDX [OF ok'] unat_D_IDX [OF ok])
  qed
  have same: "view r' (pos r (tr_rd_p r) (Suc k)) = view r (pos r (tr_rd_p r) (Suc k))" if "k < used r - 1" for k
  proof (rule view)
    have "Suc k < unat (tr_cnt r)" using that used_less [OF ok] by simp
    then show "pos r (tr_rd_p r) (Suc k) \<noteq> pos r (tr_rd_p r) 0"
      using pos_inj [of r "tr_rd_p r" "Suc k" 0] by auto
  qed
  have upt: "[0..<used r] = 0 # map Suc [0..<used r - 1]"
    using used by (simp add: map_Suc_upt upt_conv_Cons)
  have "slots r = view r (pos r (tr_rd_p r) 0) # map (\<lambda>k. view r (pos r (tr_rd_p r) (Suc k))) [0..<used r - 1]"
    unfolding slots_view [OF ok] upt by simp
  moreover have "slots r' = map (\<lambda>k. view r (pos r (tr_rd_p r) (Suc k))) [0..<used r - 1]"
    unfolding slots_view [OF ok'] used' step using same by simp
  ultimately show ?thesis using ok' used' by simp
qed

lemma tx_complete_one_effect:
  assumes ok: "ring_ok (ring p)" and used: "0 < used (ring p)"
    and step: "tx_complete_one (p, pk, bt) = (p', pk', bt')"
  shows "ring_ok (ring p') \<and> used (ring p') = used (ring p) - 1 \<and> slots (ring p') = tl (slots (ring p)) \<and>
    tx_log p' = tx_log p @ slot_events (hd (slots (ring p))) \<and> stats p' = stats p \<and> stopped p' = stopped p \<and>
    tr_cnt (ring p') = tr_cnt (ring p) \<and> tr_wr_p (ring p') = tr_wr_p (ring p) \<and>
    tr_rd_p (ring p') = tr_rd_p (ring p) + 1 \<and>
    tr_qcp_rd_p (ring p') = tr_qcp_rd_p (ring p) \<and> tr_wr_ptr_add (ring p') = tr_wr_ptr_add (ring p)"
proof -
  let ?j = "pos (ring p) (tr_rd_p (ring p)) 0"
  have j: "unat (D_IDX (ring p) (tr_rd_p (ring p))) = ?j"
    using unat_D_IDX [OF ok, of "tr_rd_p (ring p)" 0] by simp
  have eff: "tr_cnt (ring p') = tr_cnt (ring p)" "tr_wr_p (ring p') = tr_wr_p (ring p)"
    "tr_rd_p (ring p') = tr_rd_p (ring p) + 1" "tr_qcp_rd_p (ring p') = tr_qcp_rd_p (ring p)"
    "tr_wr_ptr_add (ring p') = tr_wr_ptr_add (ring p)" "stats p' = stats p" "stopped p' = stopped p"
    "tx_log p' = tx_log p @ slot_events (view (ring p) ?j)"
    "\<And>k. k \<noteq> ?j \<Longrightarrow> view (ring p') k = view (ring p) k"
    using step
    by (auto simp: tx_complete_one_def Let_def j view_def clear_buf_def set_buf_def
        split: option.splits if_splits)
  then show ?thesis
    using slots_advance [OF ok used eff(1,3,2,9)] by (metis list.sel(1))
qed

lemma tx_complete_loop:
  assumes "ring_ok (ring p)" and "n \<le> used (ring p)"
    and "(tx_complete_one ^^ n) (p, pk, bt) = (p', pk', bt')"
  shows "ring_ok (ring p') \<and> used (ring p') = used (ring p) - n \<and> slots (ring p') = drop n (slots (ring p)) \<and>
    tx_log p' = tx_log p @ concat (map slot_events (take n (slots (ring p)))) \<and>
    stats p' = stats p \<and> stopped p' = stopped p \<and>
    tr_cnt (ring p') = tr_cnt (ring p) \<and> tr_wr_p (ring p') = tr_wr_p (ring p) \<and>
    tr_qcp_rd_p (ring p') = tr_qcp_rd_p (ring p) \<and> tr_wr_ptr_add (ring p') = tr_wr_ptr_add (ring p)"
  using assms
proof (induction n arbitrary: p pk bt)
  case 0
  then show ?case by simp
next
  case (Suc n)
  obtain q pk1 bt1 where q: "tx_complete_one (p, pk, bt) = (q, pk1, bt1)" by (cases "tx_complete_one (p, pk, bt)")
  have used: "0 < used (ring p)" using Suc.prems(2) by simp
  note one = tx_complete_one_effect [OF Suc.prems(1) used q]
  have len: "length (slots (ring p)) = used (ring p)" by (simp add: slots_def)
  then obtain v vs where vs: "slots (ring p) = v # vs" using used by (cases "slots (ring p)") auto
  have "(tx_complete_one ^^ n) (q, pk1, bt1) = (p', pk', bt')"
    using Suc.prems(3) q by (simp add: funpow_Suc_right del: funpow.simps)
  moreover have "n \<le> used (ring q)" using one Suc.prems(2) by simp
  ultimately show ?case
    using Suc.IH [of q pk1 bt1] one vs by simp
qed


definition completes :: "nfp_net_tx_ring \<Rightarrow> u32 \<Rightarrow> nat" where
  "completes r qcp_rd_p = unat (D_IDX r (qcp_rd_p - tr_qcp_rd_p r))"

lemma nfp_net_tx_complete_effect:
  assumes ok: "ring_ok (ring p)" and n: "completes (ring p) qcp \<le> used (ring p)"
  shows "\<exists>es. ring_ok (ring (nfp_net_tx_complete nd qcp p)) \<and>
    slots (ring (nfp_net_tx_complete nd qcp p)) = drop (completes (ring p) qcp) (slots (ring p)) \<and>
    tr_cnt (ring (nfp_net_tx_complete nd qcp p)) = tr_cnt (ring p) \<and>
    tr_wr_p (ring (nfp_net_tx_complete nd qcp p)) = tr_wr_p (ring p) \<and>
    tr_wr_ptr_add (ring (nfp_net_tx_complete nd qcp p)) = tr_wr_ptr_add (ring p) \<and>
    tx_log (nfp_net_tx_complete nd qcp p) =
      tx_log p @ concat (map slot_events (take (completes (ring p) qcp) (slots (ring p)))) @ es \<and>
    maps es = {#} \<and> unmaps es = {#} \<and> frees es = {#} \<and> kicked es = 0"
proof (cases "tr_wr_p (ring p) = tr_rd_p (ring p) \<or> qcp = tr_qcp_rd_p (ring p)")
  case True
  have "used (ring p) = 0" if "tr_wr_p (ring p) = tr_rd_p (ring p)" using that by (simp add: used_def)
  then have "completes (ring p) qcp = 0"
    using True n by (auto simp: completes_def D_IDX_def)
  then show ?thesis using True ok by (intro exI [of _ "[]"]) (auto simp: nfp_net_tx_complete_def)
next
  case False
  obtain q pk bt where loop: "(tx_complete_one ^^ completes (ring p) qcp) (p, 0, 0) = (q, pk, bt)"
    using prod_cases3 by blast
  note q = tx_complete_loop [OF ok n loop]
  have "nfp_net_tx_complete nd qcp p =
    (let p = q\<lparr>ring := (ring q)\<lparr>tr_qcp_rd_p := qcp\<rparr>\<rparr>;
         p = p\<lparr>stats := (stats p)\<lparr>tx_bytes := tx_bytes (stats p) + ucast bt,
                                 tx_pkts := tx_pkts (stats p) + ucast pk\<rparr>\<rparr>
     in if \<not> nd then p
        else let p = logged [CompletedQueue pk bt] p
             in if nfp_net_tx_ring_should_wake (ring p) \<and> stopped p then p\<lparr>stopped := False\<rparr> else p)"
    using False loop by (simp add: nfp_net_tx_complete_def completes_def Let_def)
  then show ?thesis
    using q by (auto simp: Let_def intro: exI [of _ "[CompletedQueue pk bt]"] exI [of _ "[]"])
qed

section \<open>Reset\<close>

fun reset_events :: "tx_slot \<Rightarrow> tx_event list" where
  "reset_events (None, f, a) = []"
| "reset_events (Some skb, f, a) =
    (if f = -1 then UnmapSingle a (skb_headlen skb) else UnmapPage a (skb_frags skb ! nat f)) #
    (if f = int (nr_frags skb) - 1 then [KfreeSkb (skb_id skb)] else [])"

lemma reset_events_account:
  "maps (concat (map reset_events vs)) = {#} \<and> unmaps (concat (map reset_events vs)) = in_flight vs \<and>
   frees (concat (map reset_events vs)) = held vs"
proof (induction vs)
  case (Cons v vs)
  then show ?case by (cases v rule: reset_events.cases) auto
qed simp

lemma tx_reset_one_effect:
  assumes ok: "ring_ok (ring p)" and used: "0 < used (ring p)"
    and v: "fst (hd (slots (ring p))) \<noteq> None"
  shows "\<exists>p'. tx_reset_one p = Some p' \<and> ring_ok (ring p') \<and> used (ring p') = used (ring p) - 1 \<and>
    slots (ring p') = tl (slots (ring p)) \<and> tr_cnt (ring p') = tr_cnt (ring p) \<and>
    tx_log p' = tx_log p @ reset_events (hd (slots (ring p)))"
proof -
  let ?j = "pos (ring p) (tr_rd_p (ring p)) 0"
  have j: "unat (D_IDX (ring p) (tr_rd_p (ring p))) = ?j"
    using unat_D_IDX [OF ok, of "tr_rd_p (ring p)" 0] by simp
  have hd: "hd (slots (ring p)) = view (ring p) ?j"
    using used by (simp add: slots_view [OF ok] hd_map)
  then obtain skb where skb: "tb_skb (tr_txbufs (ring p) ?j) = Some skb"
    using v by (auto simp: view_def Let_def)
  then obtain p' where p': "tx_reset_one p = Some p'"
    by (simp add: tx_reset_one_def Let_def j)
  have eff: "tr_cnt (ring p') = tr_cnt (ring p)" "tr_wr_p (ring p') = tr_wr_p (ring p)"
    "tr_rd_p (ring p') = tr_rd_p (ring p) + 1"
    "tx_log p' = tx_log p @ reset_events (view (ring p) ?j)"
    "\<And>k. k \<noteq> ?j \<Longrightarrow> view (ring p') k = view (ring p) k"
    using p' skb
    by (auto simp: tx_reset_one_def Let_def j view_def clear_buf_def set_buf_def split: if_splits)
  then show ?thesis
    using slots_advance [OF ok used eff(1,3,2,5)] p' hd by auto
qed

lemma tx_reset_loop_effect:
  assumes "ring_ok (ring p)" and "\<forall>v\<in>set (slots (ring p)). fst v \<noteq> None"
  shows "\<exists>p'. tx_reset_loop (used (ring p)) p = Some p' \<and> ring_ok (ring p') \<and>
    tr_cnt (ring p') = tr_cnt (ring p) \<and>
    tx_log p' = tx_log p @ concat (map reset_events (slots (ring p)))"
  using assms
proof (induction "used (ring p)" arbitrary: p)
  case 0
  then have "slots (ring p) = []" by (simp add: slots_def)
  then show ?case using 0 by (simp flip: 0(1))
next
  case (Suc n)
  have "slots (ring p) \<noteq> []" using Suc.hyps(2) by (auto simp: slots_def)
  then obtain v vs where vs: "slots (ring p) = v # vs" by (cases "slots (ring p)") auto
  have "0 < used (ring p)" and "fst (hd (slots (ring p))) \<noteq> None"
    using Suc.hyps(2) Suc.prems(2) vs by auto
  then obtain q where q: "tx_reset_one p = Some q" "ring_ok (ring q)" "used (ring q) = used (ring p) - 1"
    "slots (ring q) = vs" "tr_cnt (ring q) = tr_cnt (ring p)" "tx_log q = tx_log p @ reset_events v"
    using tx_reset_one_effect [OF Suc.prems(1)] vs by auto
  have "n = used (ring q)" using q(3) Suc.hyps(2) by simp
  then show ?case
    using Suc.hyps(1) [of q] q vs Suc.prems(2) Suc.hyps(2) [symmetric] by auto
qed


section \<open>Runs\<close>

text \<open>The ring always holds the unfinished part of a sequence of whole packets.\<close>

definition packets :: "(sk_buff \<times> u64 list) list \<Rightarrow> tx_slot list" where
  "packets ps = concat (map (\<lambda>(skb, addrs). pkt_slots skb addrs) ps)"

definition framed :: "tx_slot list \<Rightarrow> bool" where
  "framed vs \<longleftrightarrow> (\<exists>ps n. n \<le> length (packets ps) \<and> vs = drop n (packets ps))"

lemma framed_drop: "framed vs \<Longrightarrow> framed (drop k vs)"
proof -
  assume "framed vs"
  then obtain ps n where "n \<le> length (packets ps)" "vs = drop n (packets ps)" by (auto simp: framed_def)
  then have "drop k vs = drop (min (k + n) (length (packets ps))) (packets ps)"
    by (cases "k + n \<le> length (packets ps)") (auto simp: min_def)
  then show ?thesis unfolding framed_def by (metis min.cobounded2)
qed

lemma framed_append: "framed vs \<Longrightarrow> framed (vs @ pkt_slots skb addrs)"
proof -
  assume "framed vs"
  then obtain ps n where "n \<le> length (packets ps)" "vs = drop n (packets ps)" by (auto simp: framed_def)
  then have "n \<le> length (packets (ps @ [(skb, addrs)]))"
    "vs @ pkt_slots skb addrs = drop n (packets (ps @ [(skb, addrs)]))"
    by (simp_all add: packets_def)
  then show ?thesis unfolding framed_def by blast
qed

lemma framed_member:
  assumes "framed vs" and "v \<in> set vs"
  shows "\<exists>skb f a. v = (Some skb, f, a) \<and> -1 \<le> f \<and> f < int (nr_frags skb)"
proof -
  obtain ps n where "vs = drop n (packets ps)" using assms(1) by (auto simp: framed_def)
  then have "v \<in> set (packets ps)" using assms(2) in_set_dropD by metis
  then show ?thesis by (auto simp: packets_def pkt_slots_def simp del: upt_Suc)
qed

text \<open>A run of one queue: transmissions and completions in any order. The device reports at most
  the descriptors that are in the ring. \<open>taken\<close> are the packets the driver has taken over, those
  for which it did not return \<open>NETDEV_TX_BUSY\<close>.\<close>

definition tx_idle :: "tx_path \<Rightarrow> bool" where
  "tx_idle p \<longleftrightarrow> ring_ok (ring p) \<and> tr_wr_p (ring p) = 0 \<and> tr_rd_p (ring p) = 0 \<and>
     tr_wr_ptr_add (ring p) = 0 \<and> tx_log p = []"

inductive tx_run :: "tx_path \<Rightarrow> nat multiset \<Rightarrow> bool" where
  Start: "tx_idle p \<Longrightarrow> tx_run p {#}"
| Xmit: "\<lbrakk> tx_run p taken; small_skb skb; nfp_net_tx env skb p = (res, p') \<rbrakk> \<Longrightarrow>
    tx_run p' (taken + (if res = NETDEV_TX_OK then {#skb_id skb#} else {#}))"
| Complete: "\<lbrakk> tx_run p taken; completes (ring p) qcp \<le> used (ring p) \<rbrakk> \<Longrightarrow>
    tx_run (nfp_net_tx_complete has_netdev qcp p) taken"

definition tx_inv :: "tx_path \<Rightarrow> nat multiset \<Rightarrow> bool" where
  "tx_inv p taken \<longleftrightarrow> ring_ok (ring p) \<and> framed (slots (ring p)) \<and>
     maps (tx_log p) = unmaps (tx_log p) + in_flight (slots (ring p)) \<and>
     taken = frees (tx_log p) + held (slots (ring p)) \<and>
     kicked (tx_log p) + tr_wr_ptr_add (ring p) = tr_wr_p (ring p)"

lemma tx_inv_start: "tx_idle p \<Longrightarrow> tx_inv p {#}"
proof -
  assume p: "tx_idle p"
  then have "slots (ring p) = []" by (simp add: tx_idle_def slots_def used_def)
  moreover have "framed []" by (auto simp: framed_def packets_def)
  ultimately show ?thesis using p by (simp add: tx_inv_def tx_idle_def)
qed

lemma tx_inv_dropped: "tx_inv p taken \<Longrightarrow> tx_dropped fr p p' \<Longrightarrow> tx_inv p' (taken + fr)"
  by (auto simp: tx_inv_def tx_dropped_def)

lemma tx_inv_queued:
  "tx_inv p taken \<Longrightarrow> tx_queued bql skb addrs p p' \<Longrightarrow> tx_inv p' (taken + {#skb_id skb#})"
  by (auto simp: tx_inv_def tx_queued_def framed_append held_pkt add.assoc simp del: of_nat_add of_nat_Suc)

lemma tx_inv_xmit:
  assumes inv: "tx_inv p taken" and small: "small_skb skb" and tx: "nfp_net_tx env skb p = (res, p')"
  shows "tx_inv p' (taken + (if res = NETDEV_TX_OK then {#skb_id skb#} else {#}))"
proof -
  have ok: "ring_ok (ring p)" using inv by (simp add: tx_inv_def)
  obtain p1 where eff: "if nfp_net_tx_full (ring p) (of_nat (nr_frags skb + 1))
    then nfp_net_tx env skb p = (NETDEV_TX_BUSY, p1) \<and> tx_dropped {#} p p1
    else nfp_net_tx env skb p = (NETDEV_TX_OK, p1) \<and>
      (if tx_accepts env skb then tx_queued (te_bql_stopped env) (tx_packet skb) (dma_addrs env skb) p p1
       else tx_dropped {#skb_id skb#} p p1)"
    using nfp_net_tx_effect [OF ok small] by blast
  then show ?thesis
    using tx tx_inv_dropped [OF inv, of "{#}" p1] tx_inv_dropped [OF inv, of "{#skb_id skb#}" p1]
      tx_inv_queued [OF inv, of _ "tx_packet skb" _ p1]
    by (auto split: if_splits)
qed

lemma tx_inv_complete:
  assumes inv: "tx_inv p taken" and n: "completes (ring p) qcp \<le> used (ring p)"
  shows "tx_inv (nfp_net_tx_complete nd qcp p) taken"
proof -
  have ok: "ring_ok (ring p)" using inv by (simp add: tx_inv_def)
  let ?n = "completes (ring p) qcp" and ?vs = "slots (ring p)"
  have split: "in_flight ?vs = in_flight (take ?n ?vs) + in_flight (drop ?n ?vs)"
    "held ?vs = held (take ?n ?vs) + held (drop ?n ?vs)"
    by (simp_all flip: slots_account_simps(5,6))
  show ?thesis
    using nfp_net_tx_complete_effect [OF ok n, of nd] inv slots_events_account [of "take ?n ?vs"]
    by (auto simp: tx_inv_def framed_drop split)
qed

lemma tx_run_inv: "tx_run p taken \<Longrightarrow> tx_inv p taken"
proof (induction rule: tx_run.induct)
  case (Xmit p taken skb env res p')
  then show ?case by (intro tx_inv_xmit)
qed (simp_all add: tx_inv_start tx_inv_complete)


lemma reset_releases:
  assumes inv: "tx_inv p taken"
  shows "\<exists>p'. nfp_net_tx_ring_reset nd p = Some p' \<and> ring_ok (ring p') \<and> slots (ring p') = [] \<and>
    maps (tx_log p') = unmaps (tx_log p') \<and> frees (tx_log p') = taken"
proof -
  have ok: "ring_ok (ring p)" and framed: "framed (slots (ring p))" using inv by (auto simp: tx_inv_def)
  then have "\<forall>v\<in>set (slots (ring p)). fst v \<noteq> None" using framed_member by fastforce
  then obtain q where q: "tx_reset_loop (used (ring p)) p = Some q" "ring_ok (ring q)"
    "tx_log q = tx_log p @ concat (map reset_events (slots (ring p)))"
    using tx_reset_loop_effect [OF ok] by blast
  have "ring_ok ((ring q)\<lparr>tr_txds := d, tr_wr_p := 0, tr_rd_p := 0, tr_qcp_rd_p := 0, tr_wr_ptr_add := 0\<rparr>) \<and>
      slots ((ring q)\<lparr>tr_txds := d, tr_wr_p := 0, tr_rd_p := 0, tr_qcp_rd_p := 0, tr_wr_ptr_add := 0\<rparr>) = []" for d
    using q(2) by (auto simp: ring_ok_def slots_def used_def)
  then show ?thesis
    using q inv reset_events_account [of "slots (ring p)"]
    by (simp add: nfp_net_tx_ring_reset_def Let_def tx_inv_def flip: used_def)
qed

section \<open>Properties\<close>

definition sample_ip :: ip_hdr where
  "sample_ip = \<lparr>ip_version = 4, ip_protocol = 6, ip6_nexthdr = 0\<rparr>"

definition sample_skb :: "nat \<Rightarrow> u32 list \<Rightarrow> sk_buff" where
  "sample_skb i frags = \<lparr>skb_id = i, skb_len = 1500, skb_headlen = 500, skb_frags = frags,
     skb_is_gso = False, skb_gso_segs = 0, skb_gso_size = 0, skb_encapsulation = False,
     skb_network_offset = 14, skb_transport_offset = 34, skb_tcp_hdrlen = 20,
     skb_inner_network_offset = 0, skb_inner_transport_offset = 0, skb_inner_tcp_hdrlen = 0,
     skb_csum_partial = True, skb_ip = sample_ip, skb_inner_ip = sample_ip, skb_vlan_tag = None,
     skb_port_mux = None, skb_xmit_more = False\<rparr>"

definition sample_env :: tx_env where
  "sample_env = \<lparr>te_ctrl = NFP_NET_CFG_CTRL_TXCSUM, te_cow_fails = False, te_features_drop = False,
     te_dma = (\<lambda>i. if i = 3 then None else Some (of_nat i)), te_bql_stopped = False\<rparr>"

definition sample_path :: tx_path where
  "sample_path =
    \<lparr>ring = \<lparr>tr_cnt = 256, tr_wr_p = 0, tr_rd_p = 0, tr_qcp_rd_p = 0, tr_wr_ptr_add = 0,
       tr_txbufs = (\<lambda>_. \<lparr>tb_skb = None, tb_dma_addr = 0, tb_fidx = -2, tb_pkt_cnt = 0, tb_real_len = 0\<rparr>),
       tr_txds = (\<lambda>_. tx_desc_zero)\<rparr>,
     stats = \<lparr>tx_pkts = 0, tx_bytes = 0, tx_gather = 0, tx_lso = 0, hw_csum_tx = 0,
       hw_csum_tx_inner = 0, tx_busy = 0, tx_errors = 0\<rparr>,
     stopped = False, tx_log = []\<rparr>"

text \<open>One packet that is queued, and one whose third fragment is not mapped.\<close>

definition sample_sent :: tx_path where
  "sample_sent = snd (nfp_net_tx sample_env (sample_skb 1 [1000]) sample_path)"

definition sample_failed :: tx_path where
  "sample_failed = snd (nfp_net_tx sample_env (sample_skb 2 [400, 400, 400]) sample_sent)"

lemma sample_ring: "ring_ok (ring sample_path)"
  by (auto simp: sample_path_def ring_ok_def intro: exI [of _ 8])

lemma sample_runs: "\<exists>taken. tx_run sample_failed taken"
proof -
  have "tx_run sample_path {#}"
    by (rule tx_run.Start) (simp add: tx_idle_def sample_ring, simp add: sample_path_def)
  then have "\<exists>t. tx_run sample_sent t"
    using tx_run.Xmit [of sample_path "{#}" "sample_skb 1 [1000]" sample_env _ sample_sent]
    by (cases "nfp_net_tx sample_env (sample_skb 1 [1000]) sample_path")
      (auto simp: small_skb_def sample_skb_def nr_frags_def MAX_SKB_FRAGS_def sample_sent_def)
  then obtain t where "tx_run sample_sent t" by blast
  then show ?thesis
    using tx_run.Xmit [of sample_sent t "sample_skb 2 [400, 400, 400]" sample_env _ sample_failed]
    by (cases "nfp_net_tx sample_env (sample_skb 2 [400, 400, 400]) sample_sent")
      (auto simp: small_skb_def sample_skb_def nr_frags_def MAX_SKB_FRAGS_def sample_failed_def)
qed

lemma tx_inv_told:
  assumes inv: "tx_inv p taken" and small: "small_skb skb" and tx: "nfp_net_tx env skb p = (res, p')"
  shows "kicked (tx_log p') = (if res = NETDEV_TX_OK \<and> tx_accepts env skb \<and> skb_xmit_more skb \<and> \<not> stopped p' \<and>
    \<not> te_bql_stopped env then kicked (tx_log p) else tr_wr_p (ring p'))"
proof -
  have ok: "ring_ok (ring p)" and k: "kicked (tx_log p) + tr_wr_ptr_add (ring p) = tr_wr_p (ring p)"
    using inv by (auto simp: tx_inv_def)
  obtain p1 where "if nfp_net_tx_full (ring p) (of_nat (nr_frags skb + 1))
    then nfp_net_tx env skb p = (NETDEV_TX_BUSY, p1) \<and> tx_dropped {#} p p1
    else nfp_net_tx env skb p = (NETDEV_TX_OK, p1) \<and>
      (if tx_accepts env skb then tx_queued (te_bql_stopped env) (tx_packet skb) (dma_addrs env skb) p p1
       else tx_dropped {#skb_id skb#} p p1)"
    using nfp_net_tx_effect [OF ok small] by blast
  then show ?thesis using tx k
    by (auto simp: tx_dropped_def tx_queued_def add.assoc simp del: of_nat_add of_nat_Suc split: if_splits)
qed

text \<open>
  Claim C31. However transmissions, failed mappings and completions follow each other on a queue: every DMA
  mapping made is either undone or held by exactly one slot of the ring; every packet the driver
  took over is either freed, once, or in the ring, once. After every call of \<open>nfp_net_tx\<close>, whether it queued the
  packet, refused it or dropped it, the numbers written to the device's queue pointer add up to the write pointer: the
  device has been told of every descriptor. The one exception is a packet that is queued with \<open>xmit_more\<close> set while
  neither the driver nor the byte limit has stopped the queue: then nothing is written, and what is kept back is counted
  in \<open>wr_ptr_add\<close> for the next call. Packets have at most \<open>MAX_SKB_FRAGS\<close> fragments, and the device reports no more
  completed descriptors than the ring holds.
\<close>

theorem tx_accounts:
  assumes "tx_run p taken"
  shows "maps (tx_log p) = unmaps (tx_log p) + in_flight (slots (ring p)) \<and>
    taken = frees (tx_log p) + held (slots (ring p)) \<and>
    kicked (tx_log p) + tr_wr_ptr_add (ring p) = tr_wr_p (ring p) \<and>
    used (ring p) < unat (tr_cnt (ring p)) \<and>
    (\<forall>env skb res p'. small_skb skb \<and> nfp_net_tx env skb p = (res, p') \<longrightarrow>
      kicked (tx_log p') = (if res = NETDEV_TX_OK \<and> tx_accepts env skb \<and> skb_xmit_more skb \<and> \<not> stopped p' \<and>
        \<not> te_bql_stopped env then kicked (tx_log p) else tr_wr_p (ring p')))"
proof (intro conjI allI impI)
  fix env skb res p'
  assume a: "small_skb skb \<and> nfp_net_tx env skb p = (res, p')"
  show "kicked (tx_log p') = (if res = NETDEV_TX_OK \<and> tx_accepts env skb \<and> skb_xmit_more skb \<and> \<not> stopped p' \<and>
        \<not> te_bql_stopped env then kicked (tx_log p) else tr_wr_p (ring p'))"
    using tx_inv_told [OF tx_run_inv [OF assms] conjunct1 [OF a] conjunct2 [OF a]] .
qed (use tx_run_inv [OF assms] used_less in \<open>simp_all add: tx_inv_def\<close>)

text \<open>After the two calls of the sample (a packet queued, a packet dropped), a third one without \<open>xmit_more\<close>.\<close>

lemma tx_accounts_witness:
  "maps (tx_log sample_failed) = unmaps (tx_log sample_failed) + in_flight (slots (ring sample_failed)) \<and>
   (let p' = snd (nfp_net_tx sample_env (sample_skb 3 [700]) sample_failed) in kicked (tx_log p') = tr_wr_p (ring p'))"
proof -
  obtain taken where "tx_run sample_failed taken" using sample_runs by blast
  note a = tx_accounts [OF this]
  have "small_skb (sample_skb 3 [700])" "\<not> skb_xmit_more (sample_skb 3 [700])"
    by (simp_all add: small_skb_def sample_skb_def nr_frags_def MAX_SKB_FRAGS_def)
  with a show ?thesis
    by (cases "nfp_net_tx sample_env (sample_skb 3 [700]) sample_failed") (auto simp: Let_def)
qed

text \<open>
  Claim C33. Resetting the ring after any run reads no slot without a packet, undoes the mappings that are left
  and frees the packets that are left: nothing is leaked and nothing is freed twice.
\<close>

theorem tx_reset_releases_all:
  assumes "tx_run p taken"
  shows "\<exists>p'. nfp_net_tx_ring_reset has_netdev p = Some p' \<and> slots (ring p') = [] \<and>
    maps (tx_log p') = unmaps (tx_log p') \<and> frees (tx_log p') = taken"
  using reset_releases [OF tx_run_inv [OF assms], of has_netdev] by blast

lemma tx_reset_releases_all_witness:
  "\<exists>p'. nfp_net_tx_ring_reset True sample_failed = Some p' \<and> slots (ring p') = []"
proof -
  obtain taken where "tx_run sample_failed taken" using sample_runs by blast
  from tx_reset_releases_all [OF this, of True] show ?thesis by blast
qed

text \<open>
  Claim C32. The ring refines a first-in first-out list of slots: \<open>nfp_net_tx\<close> returns \<open>NETDEV_TX_BUSY\<close> exactly
  when the packet does not fit, appends the slots of the packet (head, then each fragment, with
  their mappings) when every step succeeds, and leaves the list as it was otherwise; a completion
  removes the reported number of slots from the front.
\<close>

theorem tx_ring_is_fifo:
  assumes "ring_ok (ring p)" and "small_skb skb"
  shows "(case nfp_net_tx env skb p of (res, p') \<Rightarrow>
      (res = NETDEV_TX_BUSY \<longleftrightarrow> unat (tr_cnt (ring p)) \<le> length (slots (ring p)) + nr_frags skb + 1) \<and>
      slots (ring p') = slots (ring p) @
        (if res = NETDEV_TX_OK \<and> tx_accepts env skb then pkt_slots (tx_packet skb) (dma_addrs env skb)
         else []) \<and> ring_ok (ring p')) \<and>
    (completes (ring p) qcp \<le> length (slots (ring p)) \<longrightarrow>
      slots (ring (nfp_net_tx_complete has_netdev qcp p)) = drop (completes (ring p) qcp) (slots (ring p)) \<and>
      ring_ok (ring (nfp_net_tx_complete has_netdev qcp p)))"
proof -
  have len: "length (slots (ring p)) = used (ring p)" by (simp add: slots_def)
  obtain p' where "if nfp_net_tx_full (ring p) (of_nat (nr_frags skb + 1))
    then nfp_net_tx env skb p = (NETDEV_TX_BUSY, p') \<and> tx_dropped {#} p p'
    else nfp_net_tx env skb p = (NETDEV_TX_OK, p') \<and>
      (if tx_accepts env skb then tx_queued (te_bql_stopped env) (tx_packet skb) (dma_addrs env skb) p p'
       else tx_dropped {#skb_id skb#} p p')"
    using nfp_net_tx_effect [OF assms] by blast
  then show ?thesis
    using room_iff [OF assms] nfp_net_tx_complete_effect [OF assms(1), of qcp has_netdev] len
    by (auto simp: tx_dropped_def tx_queued_def split: if_splits)
qed

lemma tx_ring_is_fifo_witness:
  "ring_ok (ring (snd (nfp_net_tx sample_env (sample_skb 1 [1000]) sample_path)))"
  using tx_ring_is_fifo [OF sample_ring, of "sample_skb 1 [1000]" sample_env 0 True]
  by (auto simp: small_skb_def sample_skb_def nr_frags_def MAX_SKB_FRAGS_def split: prod.splits)

end
