(* ===== verification/Net_Tx_Queue.thy ===== *)
theory Net_Tx_Queue
  imports Net_Tx
begin

text \<open>
  Stopping and waking a transmit queue, step by step. \<open>nfp_net_tx\<close> runs under the queue's transmit
  lock while \<open>nfp_net_tx_complete\<close> runs in NAPI context on another processor; they share the ring
  pointers and the stopped bit of the queue. Each access to what is shared is one step; the
  barriers of the code make the steps of one side seen in their order.

  With \<open>prompt\<close>, the completion reads the pointers, reads the stopped bit and wakes the queue without
  a transmission in between.
\<close>

section \<open>Steps\<close>

datatype tx_pc =
    TxIdle
  | TxCalled nat
  | TxBusy
  | TxFill nat
  | TxCheckStop
  | TxStop
  | TxRecheck
  | TxStart

datatype cp_pc =
    CpIdle
  | CpAdvance nat
  | CpCheckWake
  | CpCheckStopped
  | CpWake

record tx_queue =
  q_ring :: nfp_net_tx_ring
  q_stopped :: bool
  q_tx :: tx_pc
  q_cp :: cp_pc
  q_busy :: nat

text \<open>The transmitting side. The stack calls the driver only on a queue that is not stopped.
  \<open>n\<close> is the number of descriptors of the packet; a packet that is dropped leaves the ring.\<close>

inductive tx_side :: "tx_queue \<Rightarrow> tx_queue \<Rightarrow> bool" where
  Call: "\<lbrakk> q_tx q = TxIdle; \<not> q_stopped q; 1 \<le> n; n \<le> MAX_SKB_FRAGS + 1 \<rbrakk> \<Longrightarrow>
    tx_side q (q\<lparr>q_tx := TxCalled n\<rparr>)"
| Full: "\<lbrakk> q_tx q = TxCalled n; nfp_net_tx_full (q_ring q) (of_nat n) \<rbrakk> \<Longrightarrow>
    tx_side q (q\<lparr>q_tx := TxBusy\<rparr>)"
| NotFull: "\<lbrakk> q_tx q = TxCalled n; \<not> nfp_net_tx_full (q_ring q) (of_nat n) \<rbrakk> \<Longrightarrow>
    tx_side q (q\<lparr>q_tx := TxFill n\<rparr>)"
| BusyStop: "q_tx q = TxBusy \<Longrightarrow>
    tx_side q (q\<lparr>q_stopped := True, q_tx := TxIdle, q_busy := q_busy q + 1\<rparr>)"
| Drop: "q_tx q = TxFill n \<Longrightarrow> tx_side q (q\<lparr>q_tx := TxIdle\<rparr>)"
| Fill: "q_tx q = TxFill n \<Longrightarrow>
    tx_side q (q\<lparr>q_ring := (q_ring q)\<lparr>tr_wr_p := tr_wr_p (q_ring q) + of_nat n\<rparr>,
                q_tx := TxCheckStop\<rparr>)"
| ShouldStop: "\<lbrakk> q_tx q = TxCheckStop; nfp_net_tx_ring_should_stop (q_ring q) \<rbrakk> \<Longrightarrow>
    tx_side q (q\<lparr>q_tx := TxStop\<rparr>)"
| GoOn: "\<lbrakk> q_tx q = TxCheckStop; \<not> nfp_net_tx_ring_should_stop (q_ring q) \<rbrakk> \<Longrightarrow>
    tx_side q (q\<lparr>q_tx := TxIdle\<rparr>)"
| Stop: "q_tx q = TxStop \<Longrightarrow> tx_side q (q\<lparr>q_stopped := True, q_tx := TxRecheck\<rparr>)"
| RecheckWake: "\<lbrakk> q_tx q = TxRecheck; nfp_net_tx_ring_should_wake (q_ring q) \<rbrakk> \<Longrightarrow>
    tx_side q (q\<lparr>q_tx := TxStart\<rparr>)"
| StayStopped: "\<lbrakk> q_tx q = TxRecheck; \<not> nfp_net_tx_ring_should_wake (q_ring q) \<rbrakk> \<Longrightarrow>
    tx_side q (q\<lparr>q_tx := TxIdle\<rparr>)"
| StartQueue: "q_tx q = TxStart \<Longrightarrow> tx_side q (q\<lparr>q_stopped := False, q_tx := TxIdle\<rparr>)"

text \<open>The completing side: \<open>m\<close> descriptors are given back one by one, then the queue may wake.\<close>

inductive cp_side :: "bool \<Rightarrow> tx_queue \<Rightarrow> tx_queue \<Rightarrow> bool" for prompt :: bool where
  Begin: "\<lbrakk> q_cp q = CpIdle; 1 \<le> m; m \<le> used (q_ring q) \<rbrakk> \<Longrightarrow>
    cp_side prompt q (q\<lparr>q_cp := CpAdvance m\<rparr>)"
| Advance: "q_cp q = CpAdvance (Suc m) \<Longrightarrow>
    cp_side prompt q (q\<lparr>q_ring := (q_ring q)\<lparr>tr_rd_p := tr_rd_p (q_ring q) + 1\<rparr>,
                       q_cp := CpAdvance m\<rparr>)"
| Done: "q_cp q = CpAdvance 0 \<Longrightarrow> cp_side prompt q (q\<lparr>q_cp := CpCheckWake\<rparr>)"
| NoWake: "\<lbrakk> q_cp q = CpCheckWake; \<not> nfp_net_tx_ring_should_wake (q_ring q) \<rbrakk> \<Longrightarrow>
    cp_side prompt q (q\<lparr>q_cp := CpIdle\<rparr>)"
| ShouldWake: "\<lbrakk> \<not> prompt; q_cp q = CpCheckWake; nfp_net_tx_ring_should_wake (q_ring q) \<rbrakk> \<Longrightarrow>
    cp_side prompt q (q\<lparr>q_cp := CpCheckStopped\<rparr>)"
| PromptWake: "\<lbrakk> prompt; q_cp q = CpCheckWake; nfp_net_tx_ring_should_wake (q_ring q) \<rbrakk> \<Longrightarrow>
    cp_side prompt q (q\<lparr>q_stopped := False, q_cp := CpIdle\<rparr>)"
| NotStopped: "\<lbrakk> q_cp q = CpCheckStopped; \<not> q_stopped q \<rbrakk> \<Longrightarrow> cp_side prompt q (q\<lparr>q_cp := CpIdle\<rparr>)"
| IsStopped: "\<lbrakk> q_cp q = CpCheckStopped; q_stopped q \<rbrakk> \<Longrightarrow> cp_side prompt q (q\<lparr>q_cp := CpWake\<rparr>)"
| Wake: "q_cp q = CpWake \<Longrightarrow> cp_side prompt q (q\<lparr>q_stopped := False, q_cp := CpIdle\<rparr>)"

definition queue_init :: "nfp_net_tx_ring \<Rightarrow> tx_queue" where
  "queue_init r = \<lparr>q_ring = r, q_stopped = False, q_tx = TxIdle, q_cp = CpIdle, q_busy = 0\<rparr>"

inductive queue_reach :: "bool \<Rightarrow> tx_queue \<Rightarrow> bool" for prompt :: bool where
  Init: "ring_ok r \<Longrightarrow> used r = 0 \<Longrightarrow> queue_reach prompt (queue_init r)"
| TxStep: "queue_reach prompt q \<Longrightarrow> tx_side q q' \<Longrightarrow> queue_reach prompt q'"
| CpStep: "queue_reach prompt q \<Longrightarrow> cp_side prompt q q' \<Longrightarrow> queue_reach prompt q'"

section \<open>Invariants\<close>

definition tx_room :: "nfp_net_tx_ring \<Rightarrow> nat \<Rightarrow> bool" where
  "tx_room r n \<longleftrightarrow> used r + n < unat (tr_cnt r)"

lemma full_room: "ring_ok r \<Longrightarrow> n \<le> 18 \<Longrightarrow> nfp_net_tx_full r (of_nat n) \<longleftrightarrow> \<not> tx_room r n"
  using tx_full_iff [of r n] by (auto simp: tx_room_def elim!: cnt_facts)

lemma should_stop_room: "ring_ok r \<Longrightarrow> nfp_net_tx_ring_should_stop r \<longleftrightarrow> \<not> tx_room r 18"
  using full_room [of r 18] by (simp add: nfp_net_tx_ring_should_stop_def MAX_SKB_FRAGS_def)

lemma should_wake_room: "ring_ok r \<Longrightarrow> nfp_net_tx_ring_should_wake r \<longleftrightarrow> tx_room r 68"
proof -
  assume ok: "ring_ok r"
  then have "68 \<le> unat (tr_cnt r)" by (auto elim!: cnt_facts)
  from tx_full_iff [OF ok this] show ?thesis
    by (auto simp: nfp_net_tx_ring_should_wake_def MAX_SKB_FRAGS_def tx_room_def)
qed

lemma room_mono: "tx_room r n \<Longrightarrow> m \<le> n \<Longrightarrow> tx_room r m"
  by (simp add: tx_room_def)

lemma ring_fill:
  assumes "ring_ok r" and "tx_room r n"
  shows "ring_ok (r\<lparr>tr_wr_p := tr_wr_p r + of_nat n\<rparr>) \<and>
    used (r\<lparr>tr_wr_p := tr_wr_p r + of_nat n\<rparr>) = used r + n"
proof -
  have "used r + n < 2 ^ 32" using assms by (auto simp: tx_room_def elim!: cnt_facts)
  moreover have "tr_wr_p r + of_nat n - tr_rd_p r = of_nat (used r + n)" by (simp add: used_def)
  ultimately have "unat (tr_wr_p r + of_nat n - tr_rd_p r) = used r + n"
    by (simp add: unat_of_nat take_bit_nat_eq_self del: of_nat_add)
  then show ?thesis using assms by (simp add: ring_ok_def used_def tx_room_def)
qed

lemma ring_advance:
  assumes "ring_ok r" and "0 < used r"
  shows "ring_ok (r\<lparr>tr_rd_p := tr_rd_p r + 1\<rparr>) \<and> used (r\<lparr>tr_rd_p := tr_rd_p r + 1\<rparr>) = used r - 1"
  using slots_advance [OF assms, of "r\<lparr>tr_rd_p := tr_rd_p r + 1\<rparr>"] by simp

definition cp_left :: "cp_pc \<Rightarrow> nat" where
  "cp_left c = (case c of CpAdvance m \<Rightarrow> m | _ \<Rightarrow> 0)"

text \<open>What every reachable state keeps: the ring is well-formed, a packet being filled in fits, the
  completion gives back only what is there, and a queue that is stopped with no one working on it
  is full, unless a packet was refused.\<close>

definition tx_before_stop :: "tx_pc \<Rightarrow> bool" where
  "tx_before_stop c \<longleftrightarrow> (case c of TxCalled n \<Rightarrow> True | TxBusy \<Rightarrow> True | TxFill n \<Rightarrow> True | TxCheckStop \<Rightarrow> True
     | TxStop \<Rightarrow> True | _ \<Rightarrow> False)"

definition queue_inv :: "tx_queue \<Rightarrow> bool" where
  "queue_inv q \<longleftrightarrow> ring_ok (q_ring q) \<and>
     (\<forall>n. q_tx q = TxFill n \<longrightarrow> n \<le> 18 \<and> tx_room (q_ring q) n) \<and>
     (\<forall>n. q_tx q = TxCalled n \<longrightarrow> n \<le> 18) \<and>
     cp_left (q_cp q) \<le> used (q_ring q) \<and>
     (tx_before_stop (q_tx q) \<longrightarrow> \<not> q_stopped q) \<and>
     (q_tx q = TxIdle \<and> q_stopped q \<and> q_cp q = CpIdle \<and> q_busy q = 0 \<longrightarrow> \<not> tx_room (q_ring q) 68)"

lemma queue_inv_init: "ring_ok r \<Longrightarrow> used r = 0 \<Longrightarrow> queue_inv (queue_init r)"
  by (simp add: queue_inv_def queue_init_def cp_left_def tx_before_stop_def)

lemma queue_inv_tx: "tx_side q q' \<Longrightarrow> queue_inv q \<Longrightarrow> queue_inv q'"
proof (induction rule: tx_side.induct)
  case (Fill q n)
  then have "ring_ok (q_ring q)" "tx_room (q_ring q) n" by (auto simp: queue_inv_def)
  from ring_fill [OF this] Fill show ?case
    by (auto simp: queue_inv_def tx_before_stop_def)
qed (auto simp: queue_inv_def tx_before_stop_def MAX_SKB_FRAGS_def full_room should_wake_room)

lemma queue_inv_cp: "cp_side prompt q q' \<Longrightarrow> queue_inv q \<Longrightarrow> queue_inv q'"
proof (induction rule: cp_side.induct)
  case (Advance q m)
  then have "ring_ok (q_ring q)" "0 < used (q_ring q)" by (auto simp: queue_inv_def cp_left_def)
  from ring_advance [OF this] Advance show ?case
    by (auto simp: queue_inv_def cp_left_def tx_room_def)
qed (auto simp: queue_inv_def cp_left_def should_wake_room)

lemma queue_reach_inv: "queue_reach prompt q \<Longrightarrow> queue_inv q"
  by (induction rule: queue_reach.induct) (auto intro: queue_inv_init queue_inv_tx queue_inv_cp)

text \<open>With a prompt completion, a queue that is not stopped has tx_room for any packet.\<close>

definition prompt_inv :: "tx_queue \<Rightarrow> bool" where
  "prompt_inv q \<longleftrightarrow> q_busy q = 0 \<and> q_cp q \<noteq> CpCheckStopped \<and> q_cp q \<noteq> CpWake \<and>
     (case q_tx q of
        TxIdle \<Rightarrow> q_stopped q \<or> tx_room (q_ring q) 18
      | TxCalled n \<Rightarrow> tx_room (q_ring q) 18
      | TxBusy \<Rightarrow> False
      | TxRecheck \<Rightarrow> q_stopped q \<or> tx_room (q_ring q) 68
      | TxStart \<Rightarrow> tx_room (q_ring q) 68
      | TxFill n \<Rightarrow> tx_room (q_ring q) 18
      | _ \<Rightarrow> True)"

lemma prompt_inv_tx: "tx_side q q' \<Longrightarrow> queue_inv q \<Longrightarrow> prompt_inv q \<Longrightarrow> prompt_inv q'"
proof (induction rule: tx_side.induct)
  case (Full q n)
  then have "ring_ok (q_ring q)" "n \<le> 18" "tx_room (q_ring q) 18"
    by (auto simp: queue_inv_def prompt_inv_def)
  then show ?case using Full full_room room_mono by blast
next
  case (GoOn q)
  then show ?case using should_stop_room by (auto simp: queue_inv_def prompt_inv_def)
next
  case (RecheckWake q)
  then show ?case using should_wake_room by (auto simp: queue_inv_def prompt_inv_def)
next
  case (StayStopped q)
  then show ?case using should_wake_room by (auto simp: queue_inv_def prompt_inv_def)
next
  case (StartQueue q)
  then show ?case using room_mono [of "q_ring q" 68 18] by (auto simp: prompt_inv_def)
qed (auto simp: prompt_inv_def)

lemma room_advance:
  assumes "ring_ok r" and "0 < used r" and "tx_room r n"
  shows "tx_room (r\<lparr>tr_rd_p := tr_rd_p r + 1\<rparr>) n"
  using ring_advance [OF assms(1,2)] assms(3) by (simp add: tx_room_def)

lemma prompt_inv_cp: "cp_side True q q' \<Longrightarrow> queue_inv q \<Longrightarrow> prompt_inv q \<Longrightarrow> prompt_inv q'"
proof (induction rule: cp_side.induct)
  case (Advance q m)
  then have "ring_ok (q_ring q)" "0 < used (q_ring q)" by (auto simp: queue_inv_def cp_left_def)
  note adv = room_advance [OF this]
  show ?case using Advance adv by (auto simp: prompt_inv_def split: tx_pc.splits)
next
  case (PromptWake q)
  then have "tx_room (q_ring q) 68" using should_wake_room by (auto simp: queue_inv_def)
  then show ?case using PromptWake room_mono [of "q_ring q" 68 18]
    by (auto simp: prompt_inv_def split: tx_pc.splits)
qed (auto simp: prompt_inv_def split: tx_pc.splits)

lemma prompt_reach_inv: "queue_reach True q \<Longrightarrow> prompt_inv q"
proof (induction rule: queue_reach.induct)
  case (Init r)
  then show ?case by (auto simp: prompt_inv_def queue_init_def tx_room_def elim!: cnt_facts)
next
  case (TxStep q q')
  then show ?case using prompt_inv_tx queue_reach_inv by blast
next
  case (CpStep q q')
  then show ?case using prompt_inv_cp queue_reach_inv by blast
qed


section \<open>A lost wake-up\<close>

text \<open>Some reachable state of a ring of 256 descriptors with these counts and places.\<close>

definition some_state :: "bool \<Rightarrow> nat \<Rightarrow> bool \<Rightarrow> tx_pc \<Rightarrow> cp_pc \<Rightarrow> bool" where
  "some_state pr u st tx cp \<longleftrightarrow> (\<exists>q. queue_reach pr q \<and> unat (tr_cnt (q_ring q)) = 256 \<and>
     used (q_ring q) = u \<and> q_stopped q = st \<and> q_tx q = tx \<and> q_cp q = cp)"

lemma some_tx:
  assumes "some_state pr u st tx cp"
    and "\<And>q. \<lbrakk> queue_reach pr q; ring_ok (q_ring q); unat (tr_cnt (q_ring q)) = 256; used (q_ring q) = u;
        q_stopped q = st; q_tx q = tx; q_cp q = cp \<rbrakk> \<Longrightarrow>
      \<exists>q'. tx_side q q' \<and> unat (tr_cnt (q_ring q')) = 256 \<and> used (q_ring q') = u' \<and>
        q_stopped q' = st' \<and> q_tx q' = tx' \<and> q_cp q' = cp"
  shows "some_state pr u' st' tx' cp"
proof -
  obtain q where q: "queue_reach pr q" "unat (tr_cnt (q_ring q)) = 256" "used (q_ring q) = u"
    "q_stopped q = st" "q_tx q = tx" "q_cp q = cp"
    using assms(1) by (auto simp: some_state_def)
  then have "ring_ok (q_ring q)" using queue_reach_inv by (auto simp: queue_inv_def)
  with assms(2) q obtain q' where "tx_side q q'" "unat (tr_cnt (q_ring q')) = 256"
    "used (q_ring q') = u'" "q_stopped q' = st'" "q_tx q' = tx'" "q_cp q' = cp" by blast
  then show ?thesis using queue_reach.TxStep [OF q(1)] unfolding some_state_def by blast
qed

lemma some_cp:
  assumes "some_state pr u st tx cp"
    and "\<And>q. \<lbrakk> queue_reach pr q; ring_ok (q_ring q); unat (tr_cnt (q_ring q)) = 256; used (q_ring q) = u;
        q_stopped q = st; q_tx q = tx; q_cp q = cp \<rbrakk> \<Longrightarrow>
      \<exists>q'. cp_side pr q q' \<and> unat (tr_cnt (q_ring q')) = 256 \<and> used (q_ring q') = u' \<and>
        q_stopped q' = st' \<and> q_tx q' = tx \<and> q_cp q' = cp'"
  shows "some_state pr u' st' tx cp'"
proof -
  obtain q where q: "queue_reach pr q" "unat (tr_cnt (q_ring q)) = 256" "used (q_ring q) = u"
    "q_stopped q = st" "q_tx q = tx" "q_cp q = cp"
    using assms(1) by (auto simp: some_state_def)
  then have "ring_ok (q_ring q)" using queue_reach_inv by (auto simp: queue_inv_def)
  with assms(2) q obtain q' where "cp_side pr q q'" "unat (tr_cnt (q_ring q')) = 256"
    "used (q_ring q') = u'" "q_stopped q' = st'" "q_tx q' = tx" "q_cp q' = cp'" by blast
  then show ?thesis using queue_reach.CpStep [OF q(1)] unfolding some_state_def by blast
qed

lemma some_called: "some_state pr u False TxIdle cp \<Longrightarrow> some_state pr u False (TxCalled 18) cp"
  by (erule some_tx) (rule exI, rule conjI, rule tx_side.Call [where n = 18], simp_all add: MAX_SKB_FRAGS_def)

lemma some_filled:
  assumes "some_state pr u False TxIdle cp" and "u + 18 < 256"
  shows "some_state pr (u + 18) False TxCheckStop cp"
proof -
  have "some_state pr u False (TxFill 18) cp"
    using some_called [OF assms(1)]
  proof (rule some_tx)
    fix q :: tx_queue assume q: "ring_ok (q_ring q)" "unat (tr_cnt (q_ring q)) = 256" "used (q_ring q) = u"
      "q_stopped q = False" "q_tx q = TxCalled 18" "q_cp q = cp"
    then have "\<not> nfp_net_tx_full (q_ring q) (of_nat 18)"
      using assms(2) full_room [of "q_ring q" 18] by (simp add: tx_room_def)
    note step = tx_side.NotFull [OF q(5) this]
    show "\<exists>q'. tx_side q q' \<and> unat (tr_cnt (q_ring q')) = 256 \<and>
        used (q_ring q') = u \<and> q_stopped q' = False \<and> q_tx q' = TxFill 18 \<and> q_cp q' = cp"
      by (rule exI, rule conjI, rule step) (use q in simp_all)
  qed
  then show ?thesis
  proof (rule some_tx)
    fix q :: tx_queue assume q: "ring_ok (q_ring q)" "unat (tr_cnt (q_ring q)) = 256" "used (q_ring q) = u"
      "q_stopped q = False" "q_tx q = TxFill 18" "q_cp q = cp"
    have "used ((q_ring q)\<lparr>tr_wr_p := tr_wr_p (q_ring q) + of_nat 18\<rparr>) = u + 18"
      using ring_fill [OF q(1), of 18] q(2,3) assms(2) by (simp add: tx_room_def)
    note fill = this and step = tx_side.Fill [OF q(5)]
    show "\<exists>q'. tx_side q q' \<and> unat (tr_cnt (q_ring q')) = 256 \<and>
        used (q_ring q') = u + 18 \<and> q_stopped q' = False \<and> q_tx q' = TxCheckStop \<and> q_cp q' = cp"
      by (rule exI, rule conjI, rule step) (use q fill in simp_all)
  qed
qed

lemma some_sent:
  assumes "some_state pr u False TxIdle cp" and "u + 36 < 256"
  shows "some_state pr (u + 18) False TxIdle cp"
proof (rule some_tx [OF some_filled [OF assms(1)]])
  fix q :: tx_queue assume q: "ring_ok (q_ring q)" "unat (tr_cnt (q_ring q)) = 256" "used (q_ring q) = u + 18"
    "q_stopped q = False" "q_tx q = TxCheckStop" "q_cp q = cp"
  then have "\<not> nfp_net_tx_ring_should_stop (q_ring q)"
    using assms(2) should_stop_room [OF q(1)] by (simp add: tx_room_def)
  note step = tx_side.GoOn [OF q(5) this]
    show "\<exists>q'. tx_side q q' \<and> unat (tr_cnt (q_ring q')) = 256 \<and>
      used (q_ring q') = u + 18 \<and> q_stopped q' = False \<and> q_tx q' = TxIdle \<and> q_cp q' = cp"
      by (rule exI, rule conjI, rule step) (use q in simp_all)
qed (use assms(2) in simp)

lemma some_sent_many:
  "some_state pr u False TxIdle cp \<Longrightarrow> u + 18 * k + 18 < 256 \<Longrightarrow> some_state pr (u + 18 * k) False TxIdle cp"
proof (induction k)
  case (Suc k)
  then have "some_state pr (u + 18 * k) False TxIdle cp" by simp
  from some_sent [OF this] Suc.prems(2) show ?case by (simp add: algebra_simps)
qed simp

lemma some_stopped:
  assumes "some_state pr u False TxIdle cp" and "u + 18 < 256" and "256 \<le> u + 36"
  shows "some_state pr (u + 18) True TxIdle cp"
proof -
  have "some_state pr (u + 18) False TxStop cp"
    using some_filled [OF assms(1,2)]
  proof (rule some_tx)
    fix q :: tx_queue assume q: "ring_ok (q_ring q)" "unat (tr_cnt (q_ring q)) = 256" "used (q_ring q) = u + 18"
      "q_stopped q = False" "q_tx q = TxCheckStop" "q_cp q = cp"
    then have "nfp_net_tx_ring_should_stop (q_ring q)"
      using assms(3) should_stop_room [OF q(1)] by (simp add: tx_room_def)
    note step = tx_side.ShouldStop [OF q(5) this]
    show "\<exists>q'. tx_side q q' \<and> unat (tr_cnt (q_ring q')) = 256 \<and>
        used (q_ring q') = u + 18 \<and> q_stopped q' = False \<and> q_tx q' = TxStop \<and> q_cp q' = cp"
      by (rule exI, rule conjI, rule step) (use q in simp_all)
  qed
  then have "some_state pr (u + 18) True TxRecheck cp"
    by (rule some_tx) (rule exI, rule conjI, rule tx_side.Stop, simp_all)
  then show ?thesis
  proof (rule some_tx)
    fix q :: tx_queue assume q: "ring_ok (q_ring q)" "unat (tr_cnt (q_ring q)) = 256" "used (q_ring q) = u + 18"
      "q_stopped q = True" "q_tx q = TxRecheck" "q_cp q = cp"
    then have "\<not> nfp_net_tx_ring_should_wake (q_ring q)"
      using assms(3) should_wake_room [OF q(1)] by (simp add: tx_room_def)
    note step = tx_side.StayStopped [OF q(5) this]
    show "\<exists>q'. tx_side q q' \<and> unat (tr_cnt (q_ring q')) = 256 \<and>
        used (q_ring q') = u + 18 \<and> q_stopped q' = True \<and> q_tx q' = TxIdle \<and> q_cp q' = cp"
      by (rule exI, rule conjI, rule step) (use q in simp_all)
  qed
qed

lemma some_advanced:
  "some_state pr u st tx (CpAdvance m) \<Longrightarrow> m \<le> u \<Longrightarrow> some_state pr (u - m) st tx (CpAdvance 0)"
proof (induction m arbitrary: u)
  case (Suc m)
  have "some_state pr (u - 1) st tx (CpAdvance m)"
    using Suc.prems(1)
  proof (rule some_cp)
    fix q :: tx_queue assume q: "ring_ok (q_ring q)" "unat (tr_cnt (q_ring q)) = 256" "used (q_ring q) = u"
      "q_stopped q = st" "q_tx q = tx" "q_cp q = CpAdvance (Suc m)"
    have "used ((q_ring q)\<lparr>tr_rd_p := tr_rd_p (q_ring q) + 1\<rparr>) = u - 1"
      using ring_advance [OF q(1)] q(3) Suc.prems(2) by simp
    note fill = this and step = cp_side.Advance [OF q(6), of pr]
    show "\<exists>q'. cp_side pr q q' \<and> unat (tr_cnt (q_ring q')) = 256 \<and>
        used (q_ring q') = u - 1 \<and> q_stopped q' = st \<and> q_tx q' = tx \<and> q_cp q' = CpAdvance m"
      by (rule exI, rule conjI, rule step) (use q fill in simp_all)
  qed
  from Suc.IH [OF this] Suc.prems(2) show ?case by simp
qed simp

lemma some_completed:
  assumes "some_state pr u st tx CpIdle" and "1 \<le> m" and "m \<le> u" and "u - m + 68 < 256"
    and pr: "\<not> pr"
  shows "some_state pr (u - m) st tx CpCheckStopped"
proof -
  have "some_state pr u st tx (CpAdvance m)"
    using assms(1) by (rule some_cp) (rule exI, rule conjI, rule cp_side.Begin [where m = m], use assms(2,3) in simp_all)
  from some_advanced [OF this assms(3)] have "some_state pr (u - m) st tx (CpAdvance 0)" .
  then have "some_state pr (u - m) st tx CpCheckWake"
    by (rule some_cp) (rule exI, rule conjI, rule cp_side.Done, simp_all)
  then show ?thesis
  proof (rule some_cp)
    fix q :: tx_queue assume q: "ring_ok (q_ring q)" "unat (tr_cnt (q_ring q)) = 256" "used (q_ring q) = u - m"
      "q_stopped q = st" "q_tx q = tx" "q_cp q = CpCheckWake"
    then have "nfp_net_tx_ring_should_wake (q_ring q)"
      using assms(4) should_wake_room [OF q(1)] by (simp add: tx_room_def)
    note step = cp_side.ShouldWake [OF pr q(6) this]
    show "\<exists>q'. cp_side pr q q' \<and> unat (tr_cnt (q_ring q')) = 256 \<and>
        used (q_ring q') = u - m \<and> q_stopped q' = st \<and> q_tx q' = tx \<and> q_cp q' = CpCheckStopped"
      by (rule exI, rule conjI, rule step) (use q in simp_all)
  qed
qed

lemma some_init: "some_state pr 0 False TxIdle CpIdle"
  unfolding some_state_def
  using queue_reach.Init [OF sample_ring, of pr]
  by (intro exI [of _ "queue_init (ring sample_path)"]) (simp add: queue_init_def sample_path_def used_def)

lemma queue_can_fill: "some_state pr 252 True TxIdle CpIdle"
proof -
  from some_sent_many [OF some_init, of 13] have "some_state pr 234 False TxIdle CpIdle" by simp
  from some_stopped [OF this] show ?thesis by simp
qed

lemma queue_can_stall: "some_state False 0 True TxIdle CpIdle"
proof -
  from some_sent_many [OF some_init, of 10] have "some_state False 180 False TxIdle CpIdle" by simp
  from some_completed [OF this, of 1] have "some_state False 179 False TxIdle CpCheckStopped" by simp
  from some_sent_many [OF this, of 3] have "some_state False 233 False TxIdle CpCheckStopped" by simp
  from some_stopped [OF this] have "some_state False 251 True TxIdle CpCheckStopped" by simp
  then have "some_state False 251 True TxIdle CpWake"
    by (rule some_cp) (rule exI, rule conjI, rule cp_side.IsStopped, simp_all)
  then have "some_state False 251 False TxIdle CpIdle"
    by (rule some_cp) (rule exI, rule conjI, rule cp_side.Wake, simp_all)
  from some_called [OF this] have "some_state False 251 False TxBusy CpIdle"
  proof (rule some_tx)
    fix q :: tx_queue assume q: "ring_ok (q_ring q)" "unat (tr_cnt (q_ring q)) = 256" "used (q_ring q) = 251"
      "q_stopped q = False" "q_tx q = TxCalled 18" "q_cp q = CpIdle"
    then have "nfp_net_tx_full (q_ring q) (of_nat 18)"
      using full_room [of "q_ring q" 18] by (simp add: tx_room_def)
    note step = tx_side.Full [OF q(5) this]
    show "\<exists>q'. tx_side q q' \<and> unat (tr_cnt (q_ring q')) = 256 \<and>
        used (q_ring q') = 251 \<and> q_stopped q' = False \<and> q_tx q' = TxBusy \<and> q_cp q' = CpIdle"
      by (rule exI, rule conjI, rule step) (use q in simp_all)
  qed
  from some_completed [OF this, of 251] have "some_state False 0 False TxBusy CpCheckStopped" by simp
  then have "some_state False 0 False TxBusy CpIdle"
    by (rule some_cp) (rule exI, rule conjI, rule cp_side.NotStopped, simp_all)
  then show ?thesis
    by (rule some_tx) (rule exI, rule conjI, rule tx_side.BusyStop, simp_all)
qed


section \<open>The steps are the code's\<close>

text \<open>Without the other side, the steps of the transmitting side do to pointers and queue what
  \<open>nfp_net_tx\<close> does.\<close>

definition same_queue :: "tx_queue \<Rightarrow> tx_path \<Rightarrow> bool" where
  "same_queue q p \<longleftrightarrow> tr_cnt (q_ring q) = tr_cnt (ring p) \<and> tr_wr_p (q_ring q) = tr_wr_p (ring p) \<and>
     tr_rd_p (q_ring q) = tr_rd_p (ring p) \<and> q_stopped q = stopped p"

lemma same_queue_ring:
  assumes "same_queue q p"
  shows "nfp_net_tx_full (q_ring q) n = nfp_net_tx_full (ring p) n"
    "nfp_net_tx_ring_should_stop (q_ring q) = nfp_net_tx_ring_should_stop (ring p)"
    "nfp_net_tx_ring_should_wake (q_ring q) = nfp_net_tx_ring_should_wake (ring p)"
  using assms
  by (simp_all add: same_queue_def nfp_net_tx_ring_should_stop_def nfp_net_tx_ring_should_wake_def
      nfp_net_tx_full_def)

lemma tx_steps_commit:
  assumes "q_tx q = TxCheckStop"
  shows "\<exists>q'. tx_side\<^sup>*\<^sup>* q q' \<and> q_ring q' = q_ring q \<and> q_stopped q' = stops (q_ring q) (q_stopped q) \<and>
    q_tx q' = TxIdle \<and> q_cp q' = q_cp q \<and> q_busy q' = q_busy q"
proof (cases "nfp_net_tx_ring_should_stop (q_ring q)")
  case False
  from tx_side.GoOn [OF assms False] False show ?thesis
    by (intro exI [of _ "q\<lparr>q_tx := TxIdle\<rparr>"]) (simp add: stops_def r_into_rtranclp)
next
  case True
  let ?q1 = "q\<lparr>q_tx := TxStop\<rparr>" and ?q2 = "q\<lparr>q_stopped := True, q_tx := TxRecheck\<rparr>"
  have "tx_side q ?q1" using assms True by (rule tx_side.ShouldStop)
  moreover have "tx_side ?q1 ?q2" using tx_side.Stop [of ?q1] by simp
  ultimately have start: "tx_side\<^sup>*\<^sup>* q ?q2" by (meson converse_rtranclp_into_rtranclp r_into_rtranclp)
  show ?thesis
  proof (cases "nfp_net_tx_ring_should_wake (q_ring q)")
    case False
    have "tx_side ?q2 (?q2\<lparr>q_tx := TxIdle\<rparr>)" using False by (intro tx_side.StayStopped) simp_all
    with start have "tx_side\<^sup>*\<^sup>* q (?q2\<lparr>q_tx := TxIdle\<rparr>)" by (rule rtranclp.rtrancl_into_rtrancl)
    then show ?thesis using True False
      by (intro exI [of _ "?q2\<lparr>q_tx := TxIdle\<rparr>"]) (simp add: stops_def)
  next
    case wake: True
    let ?q3 = "?q2\<lparr>q_tx := TxStart\<rparr>"
    have "tx_side ?q2 ?q3" using wake by (intro tx_side.RecheckWake) simp_all
    moreover have "tx_side ?q3 (?q3\<lparr>q_stopped := False, q_tx := TxIdle\<rparr>)"
      by (rule tx_side.StartQueue) simp
    ultimately have "tx_side\<^sup>*\<^sup>* q (?q3\<lparr>q_stopped := False, q_tx := TxIdle\<rparr>)"
      using start by (meson rtranclp.rtrancl_into_rtrancl)
    then show ?thesis using True wake
      by (intro exI [of _ "?q3\<lparr>q_stopped := False, q_tx := TxIdle\<rparr>"]) (simp add: stops_def)
  qed
qed

lemma nfp_net_tx_steps:
  assumes ok: "ring_ok (ring p)" and small: "small_skb skb" and idle: "\<not> stopped p" "q_tx q = TxIdle"
    and same: "same_queue q p" and tx: "nfp_net_tx env skb p = (res, p')"
  shows "\<exists>q'. tx_side\<^sup>*\<^sup>* q q' \<and> same_queue q' p' \<and> q_tx q' = TxIdle \<and> q_cp q' = q_cp q \<and>
    q_busy q' = q_busy q + (if res = NETDEV_TX_BUSY then 1 else 0)"
proof -
  let ?n = "nr_frags skb + 1"
  let ?q1 = "q\<lparr>q_tx := TxCalled ?n\<rparr>"
  have "tx_side q ?q1"
    using idle same small by (intro tx_side.Call) (auto simp: same_queue_def small_skb_def)
  then have call: "tx_side\<^sup>*\<^sup>* q ?q1" by (rule r_into_rtranclp)
  obtain p1 where eff: "if nfp_net_tx_full (ring p) (of_nat ?n)
    then nfp_net_tx env skb p = (NETDEV_TX_BUSY, p1) \<and> tx_dropped {#} p p1
    else nfp_net_tx env skb p = (NETDEV_TX_OK, p1) \<and>
      (if tx_accepts env skb then tx_queued (te_bql_stopped env) (tx_packet skb) (dma_addrs env skb) p p1
       else tx_dropped {#skb_id skb#} p p1)"
    using nfp_net_tx_effect [OF ok small] by blast
  with tx have p1: "p1 = p'" by (auto split: if_splits)
  show ?thesis
  proof (cases "nfp_net_tx_full (ring p) (of_nat ?n)")
    case True
    have "stopped p' \<and> res = NETDEV_TX_BUSY" using True tx by (auto simp: nfp_net_tx_def Let_def)
    moreover have "tx_dropped {#} p p'" using eff True p1 by simp
    moreover have "tx_side ?q1 (?q1\<lparr>q_tx := TxBusy\<rparr>)"
      using True same_queue_ring [OF same] by (intro tx_side.Full [of _ ?n]) simp_all
    moreover have "tx_side (?q1\<lparr>q_tx := TxBusy\<rparr>)
        (?q1\<lparr>q_tx := TxBusy, q_stopped := True, q_tx := TxIdle, q_busy := q_busy q + 1\<rparr>)"
      using tx_side.BusyStop [of "?q1\<lparr>q_tx := TxBusy\<rparr>"] by simp
    ultimately show ?thesis
      using call same
      by (intro exI [of _ "?q1\<lparr>q_tx := TxBusy, q_stopped := True, q_tx := TxIdle, q_busy := q_busy q + 1\<rparr>"])
        (auto simp: tx_dropped_def same_queue_def intro: rtranclp.rtrancl_into_rtrancl)
  next
    case False
    let ?q2 = "q\<lparr>q_tx := TxFill ?n\<rparr>"
    have "tx_side ?q1 ?q2"
      using tx_side.NotFull [of ?q1 ?n] False same_queue_ring [OF same] by simp
    with call have fill: "tx_side\<^sup>*\<^sup>* q ?q2" by (rule rtranclp.rtrancl_into_rtrancl)
    have res: "res = NETDEV_TX_OK" using eff False tx by simp
    show ?thesis
    proof (cases "tx_accepts env skb")
      case True
      then have queued: "tx_queued (te_bql_stopped env) (tx_packet skb) (dma_addrs env skb) p p'" using eff False p1 by simp
      let ?q3 = "?q2\<lparr>q_ring := (q_ring q)\<lparr>tr_wr_p := tr_wr_p (q_ring q) + of_nat ?n\<rparr>, q_tx := TxCheckStop\<rparr>"
      have "tx_side ?q2 ?q3" using tx_side.Fill [of ?q2 ?n] by simp
      with fill have filled: "tx_side\<^sup>*\<^sup>* q ?q3" by (rule rtranclp.rtrancl_into_rtrancl)
      obtain q' where q': "tx_side\<^sup>*\<^sup>* ?q3 q'" "q_ring q' = q_ring ?q3"
        "q_stopped q' = stops (q_ring ?q3) (q_stopped ?q3)" "q_tx q' = TxIdle" "q_cp q' = q_cp ?q3"
        "q_busy q' = q_busy ?q3"
        using tx_steps_commit [of ?q3] by auto
      have ptrs: "tr_cnt (q_ring ?q3) = tr_cnt (ring p')" "tr_wr_p (q_ring ?q3) = tr_wr_p (ring p')"
        "tr_rd_p (q_ring ?q3) = tr_rd_p (ring p')"
        using queued same by (simp_all add: tx_queued_def same_queue_def)
      then have "stops (q_ring ?q3) st = stops (ring p') st" for st
        by (simp add: stops_def nfp_net_tx_ring_should_stop_def nfp_net_tx_ring_should_wake_def nfp_net_tx_full_def)
      then have "same_queue q' p'"
        using q'(2,3) ptrs queued same by (simp add: same_queue_def tx_queued_def)
      then show ?thesis using filled q' res by (intro exI [of _ q']) auto
    next
      case drop: False
      then have dropped: "tx_dropped {#skb_id skb#} p p'" using eff False p1 by simp
      have "tx_side ?q2 (?q2\<lparr>q_tx := TxIdle\<rparr>)" by (rule tx_side.Drop [of _ ?n]) simp
      with fill have "tx_side\<^sup>*\<^sup>* q (?q2\<lparr>q_tx := TxIdle\<rparr>)" by (rule rtranclp.rtrancl_into_rtrancl)
      then show ?thesis
        using dropped same res by (intro exI [of _ "?q2\<lparr>q_tx := TxIdle\<rparr>"]) (auto simp: tx_dropped_def same_queue_def)
    qed
  qed
qed

section \<open>Properties\<close>

text \<open>
  Claim C34. When no transmission comes between the completion's look at the pointers and its wake, the stack
  is never told \<open>NETDEV_TX_BUSY\<close>: whenever the driver is called, the largest packet fits, however
  transmissions and completions interleave otherwise.
\<close>

theorem tx_never_busy:
  assumes "queue_reach True q"
  shows "q_busy q = 0 \<and>
    (\<forall>n. q_tx q = TxCalled n \<longrightarrow> \<not> nfp_net_tx_full (q_ring q) (of_nat (MAX_SKB_FRAGS + 1)))"
  using prompt_reach_inv [OF assms] queue_reach_inv [OF assms] full_room [of "q_ring q" 18]
  by (auto simp: prompt_inv_def queue_inv_def MAX_SKB_FRAGS_def)

lemma tx_never_busy_witness: "q_busy (queue_init (ring sample_path)) = 0"
  using tx_never_busy [OF queue_reach.Init [OF sample_ring]] by (simp add: sample_path_def used_def)

text \<open>
  Claim C35. No wake-up is lost: in every interleaving, if the queue is stopped while neither side is at work
  and no packet was refused, the ring is filled beyond the wake threshold, so descriptors are
  with the device and their completion is still to come.
\<close>

theorem tx_no_lost_wakeup:
  assumes "queue_reach prompt q" and "q_tx q = TxIdle" and "q_cp q = CpIdle" and "q_stopped q"
    and "q_busy q = 0"
  shows "\<not> nfp_net_tx_ring_should_wake (q_ring q) \<and> 0 < used (q_ring q)"
proof -
  have inv: "ring_ok (q_ring q)" "\<not> tx_room (q_ring q) 68"
    using queue_reach_inv [OF assms(1)] assms(2-5) by (auto simp: queue_inv_def)
  moreover have "256 \<le> unat (tr_cnt (q_ring q))" using inv(1) by (rule cnt_facts)
  ultimately show ?thesis by (simp add: should_wake_room) (simp add: tx_room_def)
qed

lemma tx_no_lost_wakeup_witness: "\<exists>q :: tx_queue. q_stopped q \<and> 0 < used (q_ring q) \<and> \<not> nfp_net_tx_ring_should_wake (q_ring q)"
proof -
  obtain q where q: "queue_reach True q" "q_tx q = TxIdle" "q_cp q = CpIdle" "q_stopped q"
    using queue_can_fill [of True] by (auto simp: some_state_def)
  moreover have "q_busy q = 0" using prompt_reach_inv [OF q(1)] by (simp add: prompt_inv_def)
  ultimately show ?thesis using tx_no_lost_wakeup by blast
qed

lemma stopped_state: "\<exists>q. queue_reach False q \<and> q_tx q = TxIdle \<and> q_cp q = CpIdle \<and> q_stopped q \<and> used (q_ring q) = 0"
  using queue_can_stall by (auto simp: some_state_def)

text \<open>
  Claim C36. With a transmission in between, the completion can wake a queue that has been filled and stopped
  since it looked; the next packet is refused with \<open>NETDEV_TX_BUSY\<close>, and that path stops the queue
  without looking again: if the completion empties the ring just before, the queue stays stopped with
  nothing in flight, and nothing in the driver will wake it.
\<close>

theorem tx_busy_path_can_stall:
  "\<exists>q. queue_reach False q \<and> q_tx q = TxIdle \<and> q_cp q = CpIdle \<and> q_stopped q \<and>
     used (q_ring q) = 0 \<and> nfp_net_tx_ring_should_wake (q_ring q)"
proof -
  obtain q where q: "queue_reach False q" "q_tx q = TxIdle" "q_cp q = CpIdle" "q_stopped q" "used (q_ring q) = 0"
    using stopped_state by blast
  have ok: "ring_ok (q_ring q)" using queue_reach_inv [OF q(1)] by (simp add: queue_inv_def)
  have "256 \<le> unat (tr_cnt (q_ring q))" using ok by (rule cnt_facts)
  then show ?thesis using q should_wake_room [OF ok] by (intro exI [of _ q]) (simp add: tx_room_def)
qed

end
