(* ===== verification/Spec2Isabelle.thy ===== *)
theory Spec2Isabelle
  imports Nfp_Prelude Cpp_Target Cpp_Bus Nfp_Mutex Nfp_Resource Nfp_Hwinfo Nfp_Nffw Nfp_Rtsym Nfp_Nsp
    Flower_Ids Flower_Metadata Flower_Match Flower_Action Flower_Tunnel Flower_Rule
    Entl_Alo Entl_Machine Entl_Link Entl_Operation Bpf_Complete Net_Reconfig Net_Tx_Queue
begin

text \<open>
  The repository holds three programs of its own beside a vendor SDK: the ENTL link library that
  runs on the NIC's micro-engines (\<open>nfp-sdk-sim-6.0.1/examples/nfsim/entl_libs\<close>), the kernel
  driver of the NFP card (\<open>ec-nfp-drv-kmods/src\<close>) with its access library \<open>nfpcore\<close>, its flow
  offload \<open>flower\<close> and its program offload \<open>bpf\<close>, and glue for a simulator and a netlink family.
  The development models the first two.

  \<^bold>\<open>Theories and files.\<close>

  \<^item> \<open>Nfp_Prelude\<close>: the C integer types at their width, error numbers, bit masks, fields and little
    endian words, and the collections of hints the proofs share.

  \<^item> \<open>Entl_Machine\<close> is \<open>entl_state_machine.c\<close>: one endpoint of a link. The record
    \<open>entl_state_machine\<close> has the fields of the C structure the protocol reads; \<open>entl_received\<close>
    (split by state, as its \<open>switch\<close> is) and \<open>entl_next_send\<close> are its two handlers.
    \<open>Entl_Alo\<close> is \<open>atomic_link_op.c\<close>: the shared registers and the operations on them.
    \<open>Entl_Link\<close> joins two endpoints with two FIFO channels (an inductive step relation without any
    guard on the calls: either side calls \<open>entl_next_send\<close> with any command and any queue, or the oldest
    message of a channel is delivered). The phases of its invariant include what a refused
    operation and a cancelled AIT frame do to the link; counters of the frames and of both
    disturbances are kept beside the two states. \<open>Entl_Operation\<close> runs one atomic operation through it.

  \<^item> \<open>Cpp_Target\<close> is \<open>nfpcore/nfp_target.c\<close> with the macros of \<open>nfp_cpp.h\<close> and \<open>nfp6000/nfp6000.h\<close>:
    access widths and the islands of an address. \<open>Cpp_Bus\<close> is the interface of the bus, the
    record \<open>cpp_bus\<close> of a read and a write that may fail, over an arbitrary state: the bus is a
    parameter of everything above it. \<open>Nfp_Mutex\<close> (\<open>nfp_mutex.c\<close>), \<open>Nfp_Resource\<close>
    (\<open>nfp_resource.c\<close>), \<open>Nfp_Hwinfo\<close> (\<open>nfp_hwinfo.c\<close>), \<open>Nfp_Nffw\<close> (\<open>nfp_nffw.c\<close>, \<open>nfp_mip.c\<close> and the
    XPB accessors of \<open>nfp_cppcore.c\<close>), \<open>Nfp_Rtsym\<close> (\<open>nfp_rtsym.c\<close>) and \<open>Nfp_Nsp\<close> (\<open>nfp_nsp.c\<close>) are
    written over it, each operation a function from the bus and the state to a result and a state.

  \<^item> \<open>Flower_Ids\<close> and \<open>Flower_Metadata\<close> are \<open>flower/metadata.c\<close> (identifier pools, mask table, flow
    table, statistics) with the add and delete of \<open>flower/offload.c\<close>; \<open>Flower_Match\<close> is \<open>match.c\<close> and
    the computation of the key layers; \<open>Flower_Action\<close> is \<open>action.c\<close> and the message of a flow;
    \<open>Flower_Tunnel\<close> is \<open>tunnel_conf.c\<close>; \<open>Flower_Rule\<close> composes them as \<open>offload.c\<close> does. Every copy
    into a message and every write into an array of fixed size is checked against the buffer.

  \<^item> \<open>Bpf_Asm\<close> and \<open>Bpf_Emit\<close> are the instruction fields of \<open>nfp_asm.h\<close>, the operands of
    \<open>bpf/main.h\<close> and the emitters of \<open>bpf/jit.c\<close>; \<open>Bpf_Jit\<close> is one callback per BPF instruction and
    their table; \<open>Bpf_Program\<close> is the rest of \<open>jit.c\<close> (entry and exit code, branch fix-up,
    optimisations, \<open>nfp_bpf_jit\<close>) and \<open>bpf/verifier.c\<close>. \<open>Bpf_Machine\<close> says what the words do on a
    micro-engine; \<open>Bpf_Correct\<close>, \<open>Bpf_Alu\<close> and \<open>Bpf_Jump\<close> compare the code of an instruction with a
    reference semantics of BPF; \<open>Bpf_Bounds\<close> is memory safety of the translator, \<open>Bpf_Whole\<close> branch
    addresses and registers, \<open>Bpf_Simulation\<close> the run of a whole translated program.
    \<open>Bpf_Complete\<close> counts the words of each instruction, shows that every acceptable program is
    translated, and joins the two in \<open>jit_program_correct\<close>.

  \<^item> \<open>Net_Reconfig\<close> is the firmware reconfiguration of \<open>nfp_net_common.c\<close>: its operations on the
    device state, and a step relation that interleaves a synchronous caller, posters, the timer, the
    firmware and the clock. \<open>Net_Tx\<close> is the transmit ring of the same file (descriptors, offload
    fields, \<open>nfp_net_tx\<close> and its error paths, completion, reset) with a log of what is asked of the
    kernel and the device; \<open>Net_Tx_Queue\<close> takes the pointers and the stopped bit of the queue step by
    step, so that a transmission and a completion interleave, and shows that its steps are those
    of \<open>nfp_net_tx\<close>.

  \<^bold>\<open>What the lemmas show.\<close> Each component has a well-formedness invariant its operations keep, the
  functional behaviour of every operation on every branch, and what it promises its callers: mutual
  exclusion of the mutexes (\<open>nfp_cpp_mutex_trylock\<close> and \<open>unlock\<close> refine an abstract machine of
  contending hosts), one token and exactly-once transfer on a link, uniqueness of the identifiers
  of installed flows, tables that are never read out of bounds, messages that decode to the rule
  they were built from, reference counts of tunnel addresses, emitted code that computes what
  the source instruction does, exact accounts of DMA mappings and packets in the transmit ring, no
  lost wake-up of a queue and no lost request to the firmware. Errors are values: negative error numbers as the C code returns them,
  and \<open>None\<close> for an access the C code would make outside of its memory. Theorems of the kind
  \<open>error\<close> state where the code does not do what it means to; where a correctness theorem meets
  such a case its statement has the case as well (the register an operation reaches in
  \<open>operation_over_link\<close>, action lists of 256 bytes or more in \<open>flower_rule_reaches_firmware\<close>, the entry
  \<open>kmalloc\<close> refuses in \<open>tunnel_rules_keep_address\<close>, the instructions of \<open>left_out\<close> in \<open>jit_alu_refines\<close>, the
  32-bit VQDR target in \<open>encode_basic_decodes\<close>, the sizes of a table in \<open>hwinfo_lookup_safe\<close>).

  \<^bold>\<open>Interfaces.\<close> \<open>Flower_Ids.id_pool\<close> is the contract of an identifier pool, interpreted on the
  statistics contexts and on the mask ids; \<open>Nfp_Mutex.recursive_lock\<close> and its extension
  \<open>waiting_lock\<close> are the contract of a lock, interpreted on the mutex operations.

  \<^bold>\<open>Bounds and fuel.\<close> Loops over data are structural recursions. The polling loops
  (\<open>nfp_cpp_mutex_lock\<close>, \<open>nfp_resource_acquire\<close>, \<open>hwinfo_fetch\<close>, \<open>nfp_nsp_wait_reg\<close>) take fuel and
  return \<open>None\<close> when it runs out; the clock is a parameter that advances with every round, and the
  termination lemmas show how much fuel the deadlines of the code make enough. The wait of a
  reconfiguration takes one step per access; \<open>reconfig_wait_returns\<close> bounds its rounds. The recursion
  over the bytes of a string or over a table runs for its length. Counters keep their width: the
  theorems on the tunnel lists are for runs of fewer than \<open>2 ^ 32\<close> operations on addresses (the reference
  count) and of fewer than \<open>2 ^ 28\<close> events (the payload of the MAC addresses, a signed size).

  \<^bold>\<open>Assumptions.\<close> The bus answers anything at any time, unless a theorem names a law of it. The
  micro-engine's arithmetic is the parameter \<open>me_isa\<close> with the hypothesis \<open>me_documented\<close>, the
  behaviour of each operation as the comments of \<open>jit.c\<close> and the names of \<open>nfp_asm.h\<close> describe
  it; \<open>sample_isa\<close> meets it. The hash of a mask, the routes and neighbours of the kernel, the devices
  of a rule, the kernel's BPF analyser and the success of every allocation are parameters too.
  Kernel locks serialise the operations of one driver instance, so its state is passed from one to
  the next; where the code itself runs without a lock (the wait of a reconfiguration, transmission
  against completion) the accesses are steps. The firmware changes the update word only by clearing
  it or by setting its error bit, at any time and any number of times; nothing ties a change to a
  command. The device reports no more transmitted
  descriptors than the ring holds; barriers make the steps of one processor seen in order.

  \<^bold>\<open>Not modelled.\<close> The multi-instance variant \<open>entl_state_machine_2.c\<close> and \<open>ecnl_device.c\<close> do not
  compile at this commit (unbalanced functions, undeclared names). The rings and queues of the
  micro-engine library are sequences of memory intrinsics. Of the driver, the areas and explicit
  accesses of \<open>nfp_cppcore.c\<close> and \<open>nfp6000_pcie.c\<close> are mapping of hardware windows under kernel
  wait queues; of the network device, the receive ring, the set-up of rings and interrupts and the
  netdev and ethtool callbacks are kernel glue. The register descriptions of the
  SDK are generated or vendored.
\<close>

end
